(* ===== verification/Prelude.thy ===== *)
theory Prelude
  imports Main "HOL-Library.Word" "HOL-Library.Signed_Division"
begin

text \<open>
  The shared vocabulary of the development. Go's machine types: bytes, \<open>uint32\<close> and
  \<open>uint64\<close> are words of HOL-Library.Word, whose arithmetic wraps; \<open>int32\<close> and
  \<open>int64\<close> are integers with the two's-complement wrap-around written out
  (\<open>wrapS w\<close>). Little-endian byte strings model \<^verbatim>\<open>encoding/binary\<close>. The collections
  \<open>cost_rules\<close> and \<open>machine_defs\<close> carry the virtual machine proofs.
\<close>

unbundle bit_operations_syntax

named_theorems machine_defs "definitions of the virtual machine's primitive operations"
named_theorems cost_rules "run-limit accounting rules of the virtual machine's operations"

type_synonym byte = "8 word"
type_synonym bytes = "byte list"
type_synonym uint32 = "32 word"
type_synonym uint64 = "64 word"
type_synonym int32 = int
type_synonym int64 = int

section \<open>Signed machine integers\<close>

definition int_max :: "nat \<Rightarrow> int" where
  "int_max w = 2 ^ (w - 1) - 1"

definition int_min :: "nat \<Rightarrow> int" where
  "int_min w = - (2 ^ (w - 1))"

definition wrapS :: "nat \<Rightarrow> int \<Rightarrow> int" where
  "wrapS w x = (x + 2 ^ (w - 1)) mod 2 ^ w - 2 ^ (w - 1)"

definition inS :: "nat \<Rightarrow> int \<Rightarrow> bool" where
  "inS w x \<longleftrightarrow> int_min w \<le> x \<and> x \<le> int_max w"

abbreviation i64 :: "int \<Rightarrow> int64" where
  "i64 \<equiv> wrapS 64"

abbreviation in_i64 :: "int \<Rightarrow> bool" where
  "in_i64 \<equiv> inS 64"

abbreviation MaxInt64 :: int where
  "MaxInt64 \<equiv> int_max 64"

abbreviation MinInt64 :: int where
  "MinInt64 \<equiv> int_min 64"

lemmas int_range_defs = inS_def int_max_def int_min_def

lemma two_power_pred: "0 < w \<Longrightarrow> (2::int) ^ w = 2 * 2 ^ (w - 1)"
  by (cases w) simp_all

lemma wrapS_id [simp]:
  assumes "inS w x" and "0 < w"
  shows "wrapS w x = x"
proof -
  have "(x + 2 ^ (w - 1)) mod 2 ^ w = x + 2 ^ (w - 1)"
    using assms by (intro mod_pos_pos_trivial) (auto simp: int_range_defs two_power_pred)
  then show ?thesis by (simp add: wrapS_def)
qed

lemma wrapS_in [simp, intro]: "0 < w \<Longrightarrow> inS w (wrapS w x)"
  using pos_mod_bound [of "2 ^ w" "x + 2 ^ (w - 1)"]
  by (auto simp: wrapS_def int_range_defs two_power_pred)

lemma wrapS_mod: "wrapS w x mod 2 ^ w = x mod 2 ^ w"
  unfolding wrapS_def by (simp add: mod_diff_left_eq)

lemma in_i64_iff: "in_i64 x \<longleftrightarrow> - 9223372036854775808 \<le> x \<and> x \<le> 9223372036854775807"
  by (simp add: int_range_defs)

lemma i64_small: "- 9223372036854775808 \<le> x \<Longrightarrow> x \<le> 9223372036854775807 \<Longrightarrow> i64 x = x"
  by (rule wrapS_id) (simp_all add: in_i64_iff)

lemma i64_mod_unsigned:
  assumes "in_i64 x"
  shows "i64 (x mod 18446744073709551616) = x"
proof -
  have "i64 (x mod 18446744073709551616) = i64 x"
    unfolding wrapS_def by (simp add: mod_add_left_eq)
  with assms show ?thesis by simp
qed

section \<open>Little-endian byte strings\<close>

text \<open>
  \<open>le_bytes k n\<close> is what \<^verbatim>\<open>binary.LittleEndian.PutUint16/32/64\<close> store for \<open>k = 2, 4, 8\<close>,
  \<open>le_val\<close> what \<^verbatim>\<open>binary.LittleEndian.Uint16/32/64\<close> read.
\<close>

primrec le_bytes :: "nat \<Rightarrow> nat \<Rightarrow> bytes" where
  "le_bytes 0 n = []"
| "le_bytes (Suc k) n = word_of_nat n # le_bytes k (n div 256)"

primrec le_val :: "bytes \<Rightarrow> nat" where
  "le_val [] = 0"
| "le_val (b # bs) = unat b + 256 * le_val bs"

lemma length_le_bytes [simp]: "length (le_bytes k n) = k"
  by (induction k arbitrary: n) simp_all

lemma unat_byte_less [simp]: "unat (b :: byte) < 256"
  using unsigned_less [of b, where 'a = nat] by simp

lemma unat_byte_of_nat [simp]: "unat (word_of_nat n :: byte) = n mod 256"
  by (simp add: unat_of_nat)

lemma le_val_le_bytes: "le_val (le_bytes k n) = n mod 256 ^ k"
proof (induction k arbitrary: n)
  case (Suc k)
  have "n mod (256 * 256 ^ k) = 256 * (n div 256 mod 256 ^ k) + n mod 256"
    by (rule mod_mult2_eq)
  with Suc show ?case by simp
qed simp

lemma le_val_less: "le_val bs < 256 ^ length bs"
proof (induction bs)
  case (Cons b bs)
  have "unat b + 256 * le_val bs < 256 + 256 * le_val bs" by simp
  also have "\<dots> = 256 * Suc (le_val bs)" by simp
  also have "\<dots> \<le> 256 * 256 ^ length bs" using Cons by (intro mult_le_mono2) simp
  finally show ?case by simp
qed simp

lemma le_bytes_le_val [simp]: "le_bytes (length bs) (le_val bs) = bs"
proof (induction bs)
  case (Cons b bs)
  have "(unat b + 256 * le_val bs) div 256 = le_val bs"
    by (simp add: div_add1_eq)
  moreover have "word_of_nat (unat b + 256 * le_val bs) = b"
    by (simp only: word_unat_eq_iff unat_byte_of_nat) simp
  ultimately show ?case using Cons by simp
qed simp

lemma le_val_append: "le_val (xs @ ys) = le_val xs + 256 ^ length xs * le_val ys"
  by (induction xs) (simp_all add: algebra_simps)

lemma le_val_zeros [simp]: "le_val (replicate k 0) = 0"
  by (induction k) simp_all

section \<open>Lists\<close>

lemma split_last: "xs \<noteq> [] \<Longrightarrow> \<exists>ys y. xs = ys @ [y]"
  using rev_exhaust by blast

lemma drop_take_middle:
  "drop (length pre) (take (length pre + length mid) (pre @ mid @ post)) = mid"
  by simp

lemma nth_middle [simp]: "(pre @ x # post) ! length pre = x"
  by (simp add: nth_append)

end
