(* ===== verification/Checked.thy ===== *)
theory Checked
  imports Prelude
begin

text \<open>
  \<^verbatim>\<open>math/checked/checked.go\<close>: arithmetic with overflow checks. A result \<open>(0, false)\<close> of the
  Go code is \<open>None\<close>, a result \<open>(x, true)\<close> is \<open>Some x\<close>. The 32- and 64-bit signed variants
  of the source are textual copies of each other; they are the two instances of one function
  over the width \<open>w\<close>, in which every intermediate result wraps. The unsigned variants work on
  words. The theorems say that each function returns the exact mathematical result when it is
  representable and reports failure otherwise.
\<close>

section \<open>Signed operations\<close>

definition AddS :: "nat \<Rightarrow> int \<Rightarrow> int \<Rightarrow> int option" where
  "AddS w a b =
     (if (b > 0 \<and> a > wrapS w (int_max w - b)) \<or> (b < 0 \<and> a < wrapS w (int_min w - b))
      then None else Some (wrapS w (a + b)))"

definition SubS :: "nat \<Rightarrow> int \<Rightarrow> int \<Rightarrow> int option" where
  "SubS w a b =
     (if (b > 0 \<and> a < wrapS w (int_min w + b)) \<or> (b < 0 \<and> a > wrapS w (int_max w + b))
      then None else Some (wrapS w (a - b)))"

text \<open>The divisions of the source are Go's, which truncate towards zero (\<open>sdiv\<close>).\<close>

definition MulS :: "nat \<Rightarrow> int \<Rightarrow> int \<Rightarrow> int option" where
  "MulS w a b =
     (if (a > 0 \<and> b > 0 \<and> a > wrapS w (int_max w sdiv b)) \<or>
         (a > 0 \<and> b \<le> 0 \<and> b < wrapS w (int_min w sdiv a)) \<or>
         (a \<le> 0 \<and> b > 0 \<and> a < wrapS w (int_min w sdiv b)) \<or>
         (a < 0 \<and> b \<le> 0 \<and> b < wrapS w (int_max w sdiv a))
      then None else Some (wrapS w (a * b)))"

definition DivS :: "nat \<Rightarrow> int \<Rightarrow> int \<Rightarrow> int option" where
  "DivS w a b =
     (if b = 0 \<or> (a = int_min w \<and> b = - 1) then None else Some (wrapS w (a sdiv b)))"

definition ModS :: "nat \<Rightarrow> int \<Rightarrow> int \<Rightarrow> int option" where
  "ModS w a b =
     (if b = 0 \<or> (a = int_min w \<and> b = - 1) then None else Some (wrapS w (a smod b)))"

definition NegateS :: "nat \<Rightarrow> int \<Rightarrow> int option" where
  "NegateS w a = (if a = int_min w then None else Some (wrapS w (- a)))"

text \<open>Go's \<open>>>\<close> on signed integers is the arithmetic shift, \<open>drop_bit\<close> on integers.\<close>

definition LshiftS :: "nat \<Rightarrow> int \<Rightarrow> int \<Rightarrow> int option" where
  "LshiftS w a b =
     (if b < 0 \<or> b \<ge> int w then None
      else if (a \<ge> 0 \<and> a > drop_bit (nat b) (int_max w)) \<or>
              (a < 0 \<and> a < drop_bit (nat b) (int_min w)) then None
      else Some (wrapS w (push_bit (nat b) a)))"

definition AddInt64 :: "int64 \<Rightarrow> int64 \<Rightarrow> int64 option" where "AddInt64 = AddS 64"
definition SubInt64 :: "int64 \<Rightarrow> int64 \<Rightarrow> int64 option" where "SubInt64 = SubS 64"
definition MulInt64 :: "int64 \<Rightarrow> int64 \<Rightarrow> int64 option" where "MulInt64 = MulS 64"
definition DivInt64 :: "int64 \<Rightarrow> int64 \<Rightarrow> int64 option" where "DivInt64 = DivS 64"
definition ModInt64 :: "int64 \<Rightarrow> int64 \<Rightarrow> int64 option" where "ModInt64 = ModS 64"
definition NegateInt64 :: "int64 \<Rightarrow> int64 option" where "NegateInt64 = NegateS 64"
definition LshiftInt64 :: "int64 \<Rightarrow> int64 \<Rightarrow> int64 option" where "LshiftInt64 = LshiftS 64"

definition AddInt32 :: "int32 \<Rightarrow> int32 \<Rightarrow> int32 option" where "AddInt32 = AddS 32"
definition SubInt32 :: "int32 \<Rightarrow> int32 \<Rightarrow> int32 option" where "SubInt32 = SubS 32"
definition MulInt32 :: "int32 \<Rightarrow> int32 \<Rightarrow> int32 option" where "MulInt32 = MulS 32"
definition DivInt32 :: "int32 \<Rightarrow> int32 \<Rightarrow> int32 option" where "DivInt32 = DivS 32"
definition ModInt32 :: "int32 \<Rightarrow> int32 \<Rightarrow> int32 option" where "ModInt32 = ModS 32"
definition NegateInt32 :: "int32 \<Rightarrow> int32 option" where "NegateInt32 = NegateS 32"
definition LshiftInt32 :: "int32 \<Rightarrow> int32 \<Rightarrow> int32 option" where "LshiftInt32 = LshiftS 32"

lemmas checked_int64_defs =
  AddInt64_def SubInt64_def MulInt64_def DivInt64_def ModInt64_def NegateInt64_def LshiftInt64_def

lemmas checked_int32_defs =
  AddInt32_def SubInt32_def MulInt32_def DivInt32_def ModInt32_def NegateInt32_def LshiftInt32_def

section \<open>Unsigned operations\<close>

definition AddUint64 :: "uint64 \<Rightarrow> uint64 \<Rightarrow> uint64 option" where
  "AddUint64 a b = (if (- 1) - a < b then None else Some (a + b))"

definition SubUint64 :: "uint64 \<Rightarrow> uint64 \<Rightarrow> uint64 option" where
  "SubUint64 a b = (if a < b then None else Some (a - b))"

definition MulUint64 :: "uint64 \<Rightarrow> uint64 \<Rightarrow> uint64 option" where
  "MulUint64 a b = (if b > 0 \<and> a > (- 1) div b then None else Some (a * b))"

definition DivUint64 :: "uint64 \<Rightarrow> uint64 \<Rightarrow> uint64 option" where
  "DivUint64 a b = (if b = 0 then None else Some (a div b))"

definition ModUint64 :: "uint64 \<Rightarrow> uint64 \<Rightarrow> uint64 option" where
  "ModUint64 a b = (if b = 0 then None else Some (a mod b))"

definition LshiftUint64 :: "uint64 \<Rightarrow> uint64 \<Rightarrow> uint64 option" where
  "LshiftUint64 a b =
     (if b \<ge> 64 then None
      else if a > drop_bit (unat b) (- 1) then None
      else Some (push_bit (unat b) a))"

definition AddUint32 :: "uint32 \<Rightarrow> uint32 \<Rightarrow> uint32 option" where
  "AddUint32 a b = (if (- 1) - a < b then None else Some (a + b))"

definition SubUint32 :: "uint32 \<Rightarrow> uint32 \<Rightarrow> uint32 option" where
  "SubUint32 a b = (if a < b then None else Some (a - b))"

definition MulUint32 :: "uint32 \<Rightarrow> uint32 \<Rightarrow> uint32 option" where
  "MulUint32 a b = (if b > 0 \<and> a > (- 1) div b then None else Some (a * b))"

definition DivUint32 :: "uint32 \<Rightarrow> uint32 \<Rightarrow> uint32 option" where
  "DivUint32 a b = (if b = 0 then None else Some (a div b))"

definition ModUint32 :: "uint32 \<Rightarrow> uint32 \<Rightarrow> uint32 option" where
  "ModUint32 a b = (if b = 0 then None else Some (a mod b))"

definition LshiftUint32 :: "uint32 \<Rightarrow> uint32 \<Rightarrow> uint32 option" where
  "LshiftUint32 a b =
     (if b \<ge> 32 then None
      else if a > drop_bit (unat b) (- 1) then None
      else Some (push_bit (unat b) a))"

section \<open>Exactness of the signed operations\<close>

lemma sdiv_pos_pos: "0 \<le> (a::int) \<Longrightarrow> 0 < b \<Longrightarrow> a sdiv b = a div b"
  by (cases "a = 0") (simp_all add: signed_divide_int_def)

lemma sdiv_neg_pos: "0 \<le> (a::int) \<Longrightarrow> 0 < b \<Longrightarrow> (- a) sdiv b = - (a div b)"
  by (cases "a = 0") (simp_all add: signed_divide_int_def)

lemma sdiv_pos_neg: "0 \<le> (a::int) \<Longrightarrow> 0 < b \<Longrightarrow> a sdiv (- b) = - (a div b)"
  by (cases "a = 0") (simp_all add: signed_divide_int_def)

lemma sdiv_neg_neg: "0 \<le> (a::int) \<Longrightarrow> 0 < b \<Longrightarrow> (- a) sdiv (- b) = a div b"
  by (cases "a = 0") (simp_all add: signed_divide_int_def)

lemma int_div_le: "0 \<le> (a::int) \<Longrightarrow> 0 < b \<Longrightarrow> a div b \<le> a"
  by (cases "a = 0") (auto simp: zdiv_mono2 [of a 1 b, simplified])

lemma le_int_div_iff:
  assumes "0 < (q::int)"
  shows "m \<le> n div q \<longleftrightarrow> m * q \<le> n"
proof
  assume "m \<le> n div q"
  then have "m * q \<le> n div q * q" using assms by simp
  also have "\<dots> \<le> n" using pos_mod_sign [OF assms, of n] div_mult_mod_eq [of n q] by linarith
  finally show "m * q \<le> n" .
next
  assume "m * q \<le> n"
  then have "m * q div q \<le> n div q" using assms by (rule zdiv_mono1)
  with assms show "m \<le> n div q" by simp
qed

lemma AddS_exact:
  assumes "0 < w" and "inS w a" and "inS w b"
  shows "AddS w a b = (if inS w (a + b) then Some (a + b) else None)"
proof -
  have "0 < b \<Longrightarrow> inS w (int_max w - b)" and "b < 0 \<Longrightarrow> inS w (int_min w - b)"
    using assms by (auto simp: int_range_defs)
  then show ?thesis using assms by (auto simp: AddS_def) (auto simp: int_range_defs)
qed

lemma SubS_exact:
  assumes "0 < w" and "inS w a" and "inS w b"
  shows "SubS w a b = (if inS w (a - b) then Some (a - b) else None)"
proof -
  have "0 < b \<Longrightarrow> inS w (int_min w + b)" and "b < 0 \<Longrightarrow> inS w (int_max w + b)"
    using assms by (auto simp: int_range_defs)
  then show ?thesis using assms by (auto simp: SubS_def) (auto simp: int_range_defs)
qed

text \<open>
  The four guards of the multiplication, one per sign combination: each compares one factor
  with a truncated quotient, which decides exactly whether the product leaves the range.
\<close>

lemma MulS_guard_pos_pos:
  assumes "0 < w" and "0 < a" and "0 < b"
  shows "a > wrapS w (int_max w sdiv b) \<longleftrightarrow> int_max w < a * b"
proof -
  have max: "0 \<le> int_max w" by (simp add: int_max_def)
  have q: "int_max w sdiv b = int_max w div b" using max assms by (simp add: sdiv_pos_pos)
  have "inS w (int_max w div b)"
    using int_div_le [OF max assms(3)] pos_imp_zdiv_nonneg_iff [OF assms(3), of "int_max w"] max
    by (auto simp: inS_def int_min_def intro: order_trans [of _ 0])
  then show ?thesis
    using le_int_div_iff [OF assms(3), of a "int_max w"] assms(1) by (auto simp: q)
qed

lemma MulS_guard_neg:
  assumes "0 < w" and "0 < a" and "b \<le> 0"
  shows "b < wrapS w (int_min w sdiv a) \<longleftrightarrow> a * b < int_min w"
proof -
  define k where "k = (2::int) ^ (w - 1)"
  have k: "int_min w = - k" "0 \<le> k" by (simp_all add: k_def int_min_def)
  have q: "int_min w sdiv a = - (k div a)" using sdiv_neg_pos [OF k(2) assms(2)] k(1) by simp
  have "0 \<le> k div a" "k div a \<le> k"
    using k assms by (simp_all add: pos_imp_zdiv_nonneg_iff int_div_le)
  moreover have "0 \<le> int_max w" by (simp add: int_max_def)
  ultimately have "inS w (- (k div a))" using k(1) by (simp add: inS_def)
  then have "wrapS w (int_min w sdiv a) = - (k div a)" unfolding q using assms(1) by (rule wrapS_id)
  moreover have "- b \<le> k div a \<longleftrightarrow> - b * a \<le> k"
    by (rule le_int_div_iff [OF assms(2)])
  ultimately show ?thesis using k(1) by (auto simp: mult.commute)
qed

lemma MulS_guard_neg_neg:
  assumes "0 < w" and "a < 0" and "b \<le> 0"
  shows "b < wrapS w (int_max w sdiv a) \<longleftrightarrow> int_max w < a * b"
proof -
  have max: "0 \<le> int_max w" by (simp add: int_max_def)
  have a: "0 < - a" using assms by simp
  have q: "int_max w sdiv a = - (int_max w div (- a))"
    using sdiv_pos_neg [OF max a] by simp
  have "0 \<le> int_max w div (- a)" "int_max w div (- a) \<le> int_max w"
    using max a by (simp_all only: pos_imp_zdiv_nonneg_iff int_div_le)
  then have "inS w (- (int_max w div (- a)))"
    by (auto simp: inS_def int_min_def int_max_def)
  moreover have "- b \<le> int_max w div (- a) \<longleftrightarrow> - b * - a \<le> int_max w"
    by (rule le_int_div_iff [OF a])
  ultimately show ?thesis using assms(1) by (auto simp: q mult.commute)
qed

lemma MulS_exact:
  assumes "0 < w" and "inS w a" and "inS w b"
  shows "MulS w a b = (if inS w (a * b) then Some (a * b) else None)"
proof -
  have bnd: "int_min w \<le> 0" "0 \<le> int_max w" by (simp_all add: int_range_defs)
  consider "0 < a" "0 < b" | "0 < a" "b \<le> 0" | "a \<le> 0" "0 < b" | "a < 0" "b \<le> 0" | "a = 0" "b \<le> 0"
    by linarith
  then show ?thesis
  proof cases
    case 1
    then have "0 \<le> a * b" by simp
    with bnd have "int_min w \<le> a * b" by linarith
    with 1 bnd show ?thesis
      using MulS_guard_pos_pos [OF assms(1), of a b] assms(1) by (auto simp: MulS_def inS_def)
  next
    case 2
    then have "a * b \<le> 0" by (simp add: mult_nonneg_nonpos)
    with bnd have "a * b \<le> int_max w" by linarith
    with 2 bnd show ?thesis
      using MulS_guard_neg [OF assms(1), of a b] assms(1) by (auto simp: MulS_def inS_def)
  next
    case 3
    then have "a * b \<le> 0" by (simp add: mult_nonpos_nonneg)
    with bnd have "a * b \<le> int_max w" by linarith
    with 3 bnd show ?thesis
      using MulS_guard_neg [OF assms(1), of b a] assms(1)
      by (auto simp: MulS_def inS_def mult.commute)
  next
    case 4
    then have "0 \<le> a * b" by (simp add: mult_nonpos_nonpos)
    with bnd have "int_min w \<le> a * b" by linarith
    with 4 bnd show ?thesis
      using MulS_guard_neg_neg [OF assms(1), of a b] assms(1) by (auto simp: MulS_def inS_def)
  next
    case 5
    with bnd assms(1) show ?thesis by (auto simp: MulS_def inS_def)
  qed
qed

lemma abs_sdiv: "\<bar>(a::int) sdiv b\<bar> = \<bar>a\<bar> div \<bar>b\<bar>"
  by (cases "a = 0 \<or> b = 0") (auto simp: signed_divide_int_def abs_mult pos_imp_zdiv_nonneg_iff)

lemma sdiv_in_range:
  assumes "0 < w" and "inS w a" and "b \<noteq> 0"
  shows "inS w (a sdiv b) \<longleftrightarrow> \<not> (a = int_min w \<and> b = - 1)"
proof -
  define k where "k = (2::int) ^ (w - 1)"
  have k: "int_min w = - k" "int_max w = k - 1" "0 < k"
    by (simp_all add: k_def int_range_defs)
  have le: "\<bar>a sdiv b\<bar> \<le> \<bar>a\<bar>"
    using assms(3) int_div_le [of "\<bar>a\<bar>" "\<bar>b\<bar>"] by (simp add: abs_sdiv)
  show ?thesis
  proof (cases "a = - k")
    case True
    show ?thesis
    proof (cases "\<bar>b\<bar> = 1")
      case True
      then have "b = 1 \<or> b = - 1" by linarith
      with \<open>a = - k\<close> k show ?thesis by (auto simp: inS_def signed_divide_int_def)
    next
      case False
      with assms(3) have "2 \<le> \<bar>b\<bar>" by linarith
      then have "k div \<bar>b\<bar> \<le> k div 2" using k(3) by (intro zdiv_mono2) simp_all
      with k(3) have "k div \<bar>b\<bar> < k" by linarith
      then have "\<bar>a sdiv b\<bar> < k" using \<open>a = - k\<close> k(3) by (simp add: abs_sdiv)
      with False k show ?thesis by (auto simp: inS_def)
    qed
  next
    case False
    with assms(2) le k show ?thesis by (auto simp: inS_def)
  qed
qed

lemma DivS_exact:
  assumes "0 < w" and "inS w a"
  shows "DivS w a b = (if b \<noteq> 0 \<and> inS w (a sdiv b) then Some (a sdiv b) else None)"
  using sdiv_in_range [OF assms, of b] assms by (auto simp: DivS_def)

lemma smod_in_range:
  assumes "0 < w" and "inS w a"
  shows "inS w (a smod b)"
proof -
  define m where "m = \<bar>a\<bar> mod \<bar>b\<bar>"
  have "0 \<le> m" "m \<le> \<bar>a\<bar>"
    by (cases "b = 0"; simp add: m_def zmod_le_nonneg_dividend)+
  moreover have "int_min w \<le> 0" "0 \<le> int_max w" by (simp_all add: int_range_defs)
  ultimately show ?thesis
    using assms(2) by (simp only: smod_int_alt_def flip: m_def) (auto simp: inS_def sgn_if abs_if split: if_splits)
qed

lemma ModS_exact:
  assumes "0 < w" and "inS w a"
  shows "ModS w a b = (if b \<noteq> 0 \<and> inS w (a sdiv b) then Some (a smod b) else None)"
  using sdiv_in_range [OF assms, of b] smod_in_range [OF assms, of b] assms(1)
  by (auto simp: ModS_def)

lemma NegateS_exact:
  assumes "0 < w" and "inS w a"
  shows "NegateS w a = (if inS w (- a) then Some (- a) else None)"
  using assms by (auto simp: NegateS_def) (auto simp: int_range_defs)

lemma LshiftS_exact:
  assumes "0 < w" and "inS w a"
  shows "LshiftS w a b =
    (if 0 \<le> b \<and> b < int w \<and> inS w (a * 2 ^ nat b) then Some (a * 2 ^ nat b) else None)"
proof (cases "0 \<le> b \<and> b < int w")
  case True
  define n where "n = nat b"
  have n: "n \<le> w - 1" using True by (auto simp: n_def)
  then have p: "(2::int) ^ (w - 1) = 2 ^ (w - 1 - n) * 2 ^ n" by (simp flip: power_add)
  have bnd: "int_min w \<le> 0" "0 \<le> int_max w" by (simp_all add: int_range_defs)
  have hi: "a \<le> drop_bit n (int_max w) \<longleftrightarrow> a * 2 ^ n \<le> int_max w"
    by (simp add: drop_bit_eq_div le_int_div_iff)
  have q: "drop_bit n (int_min w) = - (2 ^ (w - 1 - n))"
    unfolding drop_bit_eq_div int_min_def p minus_mult_left by (rule nonzero_mult_div_cancel_right) simp
  have lo: "drop_bit n (int_min w) \<le> a \<longleftrightarrow> int_min w \<le> a * 2 ^ n"
  proof -
    have m: "int_min w = - (2 ^ (w - 1 - n)) * 2 ^ n" unfolding int_min_def p by simp
    show ?thesis by (simp only: q) (simp only: m mult_le_cancel_right_pos zero_less_power zero_less_numeral)
  qed
  have "0 \<le> a \<Longrightarrow> int_min w \<le> a * 2 ^ n" "a < 0 \<Longrightarrow> a * 2 ^ n \<le> int_max w"
    using bnd by (auto intro: order_trans [of _ 0] simp: mult_nonpos_nonneg)
  with True hi lo show ?thesis
    using assms(1) by (auto simp: LshiftS_def inS_def push_bit_eq_mult simp flip: n_def)
qed (auto simp: LshiftS_def)

section \<open>Exactness of the unsigned operations\<close>

lemma unat_max_word: "unat (- 1 :: 'a::len word) = 2 ^ LENGTH('a) - 1"
  by (simp add: unsigned_minus_1_eq_mask mask_eq_exp_minus_1)

lemma unat_max_minus: "unat ((- 1) - (a :: 'a::len word)) = 2 ^ LENGTH('a) - 1 - unat a"
  by (simp add: unat_sub unat_max_word)

lemma add_guard_iff:
  "(- 1) - (a :: 'a::len word) < b \<longleftrightarrow> 2 ^ LENGTH('a) \<le> unat a + unat b"
  using unsigned_less [of a, where 'a = nat]
  by (simp only: word_less_nat_alt unat_max_minus) linarith

lemma unat_add_no_overflow:
  "unat (a :: 'a::len word) + unat b < 2 ^ LENGTH('a) \<Longrightarrow> unat (a + b) = unat a + unat b"
  by (simp add: unat_word_ariths)

lemma mul_guard_iff:
  fixes a b :: "'a::len word"
  shows "0 < b \<and> (- 1) div b < a \<longleftrightarrow> 2 ^ LENGTH('a) \<le> unat a * unat b"
proof (cases "b = 0")
  case False
  then have "0 < unat b" by (simp add: unat_gt_0)
  then have "unat a \<le> (2 ^ LENGTH('a) - 1) div unat b \<longleftrightarrow> unat a * unat b \<le> 2 ^ LENGTH('a) - 1"
    by (rule less_eq_div_iff_mult_less_eq)
  moreover have "0 < b" using False by (simp add: word_gt_0)
  moreover have "(0::nat) < 2 ^ LENGTH('a)" by simp
  ultimately show ?thesis
    by (auto simp: word_less_nat_alt unat_div_distrib unat_max_word)
qed simp

lemma lshift_guard_iff:
  fixes a :: "'a::len word"
  assumes "n < LENGTH('a)"
  shows "drop_bit n (- 1) < a \<longleftrightarrow> 2 ^ LENGTH('a) \<le> unat a * 2 ^ n"
proof -
  have "unat (drop_bit n (- 1 :: 'a word)) = (2 ^ LENGTH('a) - 1) div 2 ^ n"
    by (simp only: unat_drop_bit_eq unat_max_word) (rule drop_bit_eq_div)
  moreover have "unat a \<le> (2 ^ LENGTH('a) - 1) div 2 ^ n \<longleftrightarrow> unat a * 2 ^ n \<le> 2 ^ LENGTH('a) - 1"
    by (rule less_eq_div_iff_mult_less_eq) simp
  moreover have "(0::nat) < 2 ^ LENGTH('a)" by simp
  ultimately show ?thesis by (auto simp: word_less_nat_alt)
qed

lemma unat_push_bit:
  "unat (a :: 'a::len word) * 2 ^ n < 2 ^ LENGTH('a) \<Longrightarrow> unat (push_bit n a) = unat a * 2 ^ n"
  by (simp only: unsigned_push_bit_eq) (simp add: push_bit_eq_mult take_bit_eq_mod)

section \<open>The properties\<close>

text \<open>
  The seven checked operations on \<open>int64\<close> are exact: for operands in the \<open>int64\<close> range
  each returns the mathematical result when that is an \<open>int64\<close> and reports an overflow
  otherwise. Division and modulus also report division by zero, and the modulus reports the one
  case whose quotient overflows; the shift reports a shift count outside 0..63.
\<close>

lemma checked_int64_exact:
  assumes "in_i64 a" and "in_i64 b"
  shows "AddInt64 a b = (if in_i64 (a + b) then Some (a + b) else None)
    \<and> SubInt64 a b = (if in_i64 (a - b) then Some (a - b) else None)
    \<and> MulInt64 a b = (if in_i64 (a * b) then Some (a * b) else None)
    \<and> DivInt64 a b = (if b \<noteq> 0 \<and> in_i64 (a sdiv b) then Some (a sdiv b) else None)
    \<and> ModInt64 a b = (if b \<noteq> 0 \<and> in_i64 (a sdiv b) then Some (a smod b) else None)
    \<and> NegateInt64 a = (if in_i64 (- a) then Some (- a) else None)
    \<and> LshiftInt64 a b = (if 0 \<le> b \<and> b < 64 \<and> in_i64 (a * 2 ^ nat b)
        then Some (a * 2 ^ nat b) else None)"
  using assms
  by (simp add: checked_int64_defs AddS_exact SubS_exact MulS_exact DivS_exact ModS_exact
      NegateS_exact LshiftS_exact)

theorem checked_int64_exact_witness:
  "in_i64 (- 9223372036854775808) \<and> in_i64 (- 1)
   \<and> MulInt64 (- 9223372036854775808) (- 1) = None
   \<and> AddInt64 (- 9223372036854775808) (- 1) = None
   \<and> SubInt64 (- 9223372036854775808) (- 1) = Some (- 9223372036854775807)"
proof -
  have h: "in_i64 (- 9223372036854775808)" "in_i64 (- 1)" by (simp_all add: in_i64_iff)
  show ?thesis using h checked_int64_exact [OF h] by (simp add: in_i64_iff)
qed

text \<open>
  The checked operations on \<open>int32\<close> are exact in the same sense.
\<close>

theorem checked_int32_exact:
  assumes "inS 32 a" and "inS 32 b"
  shows "AddInt32 a b = (if inS 32 (a + b) then Some (a + b) else None)
    \<and> SubInt32 a b = (if inS 32 (a - b) then Some (a - b) else None)
    \<and> MulInt32 a b = (if inS 32 (a * b) then Some (a * b) else None)
    \<and> DivInt32 a b = (if b \<noteq> 0 \<and> inS 32 (a sdiv b) then Some (a sdiv b) else None)
    \<and> ModInt32 a b = (if b \<noteq> 0 \<and> inS 32 (a sdiv b) then Some (a smod b) else None)
    \<and> NegateInt32 a = (if inS 32 (- a) then Some (- a) else None)
    \<and> LshiftInt32 a b = (if 0 \<le> b \<and> b < 32 \<and> inS 32 (a * 2 ^ nat b)
        then Some (a * 2 ^ nat b) else None)"
  using assms
  by (simp add: checked_int32_defs AddS_exact SubS_exact MulS_exact DivS_exact ModS_exact
      NegateS_exact LshiftS_exact)

theorem checked_int32_exact_witness:
  "inS 32 2147483647 \<and> inS 32 1 \<and> AddInt32 2147483647 1 = None
   \<and> NegateInt32 2147483647 = Some (- 2147483647)"
proof -
  have h: "inS 32 2147483647" "inS 32 1" by (simp_all add: int_range_defs)
  show ?thesis using h checked_int32_exact [OF h] by (simp add: int_range_defs)
qed

text \<open>
  The checked operations on \<open>uint64\<close> are exact: addition, subtraction, multiplication and
  shift return the mathematical result, read as a natural number, exactly when it is below
  \<open>2 ^ 64\<close> (not negative, for the subtraction), and \<open>None\<close> otherwise; division and modulus fail
  only on a zero divisor.
\<close>

theorem checked_uint64_exact:
  "map_option unat (AddUint64 a b) =
     (if unat a + unat b < 2 ^ 64 then Some (unat a + unat b) else None)
   \<and> map_option unat (SubUint64 a b) = (if unat b \<le> unat a then Some (unat a - unat b) else None)
   \<and> map_option unat (MulUint64 a b) =
     (if unat a * unat b < 2 ^ 64 then Some (unat a * unat b) else None)
   \<and> map_option unat (DivUint64 a b) = (if unat b \<noteq> 0 then Some (unat a div unat b) else None)
   \<and> map_option unat (ModUint64 a b) = (if unat b \<noteq> 0 then Some (unat a mod unat b) else None)
   \<and> map_option unat (LshiftUint64 a b) =
     (if unat b < 64 \<and> unat a * 2 ^ unat b < 2 ^ 64 then Some (unat a * 2 ^ unat b) else None)"
proof (intro conjI)
  show "map_option unat (AddUint64 a b) =
     (if unat a + unat b < 2 ^ 64 then Some (unat a + unat b) else None)"
    using add_guard_iff [of a b] unat_add_no_overflow [of a b] by (simp add: AddUint64_def)
  show "map_option unat (MulUint64 a b) =
     (if unat a * unat b < 2 ^ 64 then Some (unat a * unat b) else None)"
    using mul_guard_iff [of b a] by (simp add: MulUint64_def unat_word_ariths)
  show "map_option unat (LshiftUint64 a b) =
     (if unat b < 64 \<and> unat a * 2 ^ unat b < 2 ^ 64 then Some (unat a * 2 ^ unat b) else None)"
    using lshift_guard_iff [of "unat b" a] unat_push_bit [of a "unat b"]
    by (simp add: LshiftUint64_def word_le_nat_alt)
qed (simp_all add: SubUint64_def DivUint64_def ModUint64_def word_less_nat_alt unat_sub
    word_le_nat_alt unat_div unat_mod unat_eq_0)

text \<open>
  The checked operations on \<open>uint32\<close>, on which the instruction parser's bounds checks rest,
  are exact in the same sense.
\<close>

theorem checked_uint32_exact:
  "map_option unat (AddUint32 a b) =
     (if unat a + unat b < 2 ^ 32 then Some (unat a + unat b) else None)
   \<and> map_option unat (SubUint32 a b) = (if unat b \<le> unat a then Some (unat a - unat b) else None)
   \<and> map_option unat (MulUint32 a b) =
     (if unat a * unat b < 2 ^ 32 then Some (unat a * unat b) else None)
   \<and> map_option unat (DivUint32 a b) = (if unat b \<noteq> 0 then Some (unat a div unat b) else None)
   \<and> map_option unat (ModUint32 a b) = (if unat b \<noteq> 0 then Some (unat a mod unat b) else None)
   \<and> map_option unat (LshiftUint32 a b) =
     (if unat b < 32 \<and> unat a * 2 ^ unat b < 2 ^ 32 then Some (unat a * 2 ^ unat b) else None)"
proof (intro conjI)
  show "map_option unat (AddUint32 a b) =
     (if unat a + unat b < 2 ^ 32 then Some (unat a + unat b) else None)"
    using add_guard_iff [of a b] unat_add_no_overflow [of a b] by (simp add: AddUint32_def)
  show "map_option unat (MulUint32 a b) =
     (if unat a * unat b < 2 ^ 32 then Some (unat a * unat b) else None)"
    using mul_guard_iff [of b a] by (simp add: MulUint32_def unat_word_ariths)
  show "map_option unat (LshiftUint32 a b) =
     (if unat b < 32 \<and> unat a * 2 ^ unat b < 2 ^ 32 then Some (unat a * 2 ^ unat b) else None)"
    using lshift_guard_iff [of "unat b" a] unat_push_bit [of a "unat b"]
    by (simp add: LshiftUint32_def word_le_nat_alt)
qed (simp_all add: SubUint32_def DivUint32_def ModUint32_def word_less_nat_alt unat_sub
    word_le_nat_alt unat_div unat_mod unat_eq_0)

end
