(* ===== verification/VM_Types.thy ===== *)
theory VM_Types
  imports Checked
begin

text \<open>
  \<^verbatim>\<open>protocol/vm/types.go\<close>, \<^verbatim>\<open>errors.go\<close> and \<^verbatim>\<open>context.go\<close>: the encoding of booleans and
  integers as stack items, the virtual machine's errors and its execution context. The theorems
  show that the integer encoding is a bijection between \<open>int64\<close> and the byte strings of at
  most eight bytes without trailing zeros.
\<close>

section \<open>Errors\<close>

text \<open>
  The errors of \<^verbatim>\<open>errors.go\<close>; \<open>ErrFalseVMResult\<close> of \<^verbatim>\<open>vm.go\<close>; \<open>ErrOverflow\<close> of
  \<^verbatim>\<open>math/checked\<close>, which the instruction parser returns; and \<open>ErrMissingEntry\<close> of
  \<^verbatim>\<open>protocol/bc\<close>, which a context's \<open>CheckOutput\<close> returns. Wrapping an error with a message
  keeps its root, so a wrapped error is the error itself.
\<close>

datatype vm_error =
    ErrAltStackUnderflow | ErrBadValue | ErrContext | ErrDataStackUnderflow
  | ErrDisallowedOpcode | ErrDivZero | ErrLongProgram | ErrRange | ErrReturn
  | ErrRunLimitExceeded | ErrShortProgram | ErrToken | ErrUnexpected | ErrUnsupportedTx
  | ErrUnsupportedVM | ErrVerifyFailed | ErrFalseVMResult | ErrOverflow | ErrMissingEntry

text \<open>
  How a Go call ends: it returns a value, returns an error or panics. \<open>OutOfFuel\<close> is the
  model's own outcome: the execution did not end within the steps it was given.
\<close>

datatype 'a res = Ret 'a | Err vm_error | Panic | OutOfFuel

fun returns :: "'a res \<Rightarrow> bool" where
  "returns (Ret x) = True"
| "returns (Err e) = True"
| "returns Panic = False"
| "returns OutOfFuel = False"

lemma returns_if [simp]: "returns (if c then a else b) = (if c then returns a else returns b)"
  by simp

section \<open>Booleans and integers as byte strings\<close>

definition trueBytes :: bytes where
  "trueBytes = [1]"

definition BoolBytes :: "bool \<Rightarrow> bytes" where
  "BoolBytes b = (if b then trueBytes else [])"

fun AsBool :: "bytes \<Rightarrow> bool" where
  "AsBool [] = False"
| "AsBool (b # bs) = (if b \<noteq> 0 then True else AsBool bs)"

text \<open>The loop of \<open>Int64Bytes\<close> that drops zero bytes from the end.\<close>

fun trimZeros :: "bytes \<Rightarrow> bytes" where
  "trimZeros res = (if res \<noteq> [] \<and> last res = 0 then trimZeros (butlast res) else res)"

declare trimZeros.simps [simp del]

definition Int64Bytes :: "int64 \<Rightarrow> bytes" where
  "Int64Bytes n = (if n = 0 then [] else trimZeros (le_bytes 8 (nat (n mod 2 ^ 64))))"

definition AsInt64 :: "bytes \<Rightarrow> vm_error + int64" where
  "AsInt64 b =
     (if b = [] then Inr 0
      else if length b > 8 then Inl ErrBadValue
      else let padded = b @ replicate (8 - length b) 0 in Inr (i64 (int (le_val padded))))"

section \<open>The execution context\<close>

text \<open>
  A pointer that may be nil is an option. \<open>TxSigHash\<close> is a function of no argument that
  always returns the same hash, hence a value; \<open>CheckOutput\<close> may return an error or panic.
\<close>

record Context =
  VMVersion :: uint64
  Code :: bytes
  Arguments :: "bytes list"
  EntryID :: bytes
  TxVersion :: "uint64 option"
  BlockHash :: "bytes option"
  BlockTimeMS :: "uint64 option"
  NextConsensusProgram :: "bytes option"
  NumResults :: "uint64 option"
  AssetID :: "bytes option"
  Amount :: "uint64 option"
  MinTimeMS :: "uint64 option"
  MaxTimeMS :: "uint64 option"
  EntryData :: "bytes option"
  TxData :: "bytes option"
  DestPos :: "uint64 option"
  AnchorID :: "bytes option"
  SpentOutputID :: "bytes option"
  TxSigHash :: "bytes option"
  CheckOutput :: "(uint64 \<Rightarrow> bytes \<Rightarrow> uint64 \<Rightarrow> bytes \<Rightarrow> uint64 \<Rightarrow> bytes \<Rightarrow> bool \<Rightarrow> bool res) option"

text \<open>A context with a program and arguments and every optional field absent.\<close>

definition bareContext :: "bytes \<Rightarrow> bytes list \<Rightarrow> Context" where
  "bareContext code args = \<lparr>VMVersion = 1, Code = code, Arguments = args, EntryID = [], TxVersion = None,
     BlockHash = None, BlockTimeMS = None, NextConsensusProgram = None, NumResults = None, AssetID = None,
     Amount = None, MinTimeMS = None, MaxTimeMS = None, EntryData = None, TxData = None, DestPos = None,
     AnchorID = None, SpentOutputID = None, TxSigHash = None, CheckOutput = None\<rparr>"

section \<open>Properties of the encodings\<close>

lemma AsBool_iff: "AsBool bs \<longleftrightarrow> (\<exists>b \<in> set bs. b \<noteq> 0)"
  by (induction bs) auto

lemma AsBool_BoolBytes [simp]: "AsBool (BoolBytes b) = b"
  by (simp add: BoolBytes_def trueBytes_def)

lemma length_BoolBytes: "length (BoolBytes b) \<le> 1"
  by (simp add: BoolBytes_def trueBytes_def)

lemma trimZeros_snoc:
  "trimZeros (xs @ [x]) = (if x = 0 then trimZeros xs else xs @ [x])"
  by (subst trimZeros.simps) simp

lemma trimZeros_Nil [simp]: "trimZeros [] = []"
  by (simp add: trimZeros.simps)

lemma trimZeros_append_zeros [simp]: "trimZeros (xs @ replicate k 0) = trimZeros xs"
proof (induction k)
  case (Suc k)
  have "xs @ replicate (Suc k) 0 = (xs @ replicate k 0) @ [0]"
    by (simp add: replicate_append_same)
  with Suc show ?case by (simp only: trimZeros_snoc) simp
qed simp

lemma trimZeros_decomp: "\<exists>k. xs = trimZeros xs @ replicate k 0"
proof (induction xs rule: rev_induct)
  case (snoc x xs)
  then obtain k where "xs = trimZeros xs @ replicate k 0" ..
  then have "xs @ [0] = trimZeros xs @ replicate (Suc k) 0"
    by (metis append_assoc replicate_append_same replicate_Suc)
  then have "\<exists>k. xs @ [0] = trimZeros xs @ replicate k 0" ..
  then show ?case by (cases "x = 0") (simp_all add: trimZeros_snoc)
qed simp

lemma le_val_trimZeros [simp]: "le_val (trimZeros xs) = le_val xs"
proof -
  obtain k where "xs = trimZeros xs @ replicate k 0" using trimZeros_decomp by blast
  then have "le_val xs = le_val (trimZeros xs @ replicate k 0)" by simp
  then show ?thesis by (simp add: le_val_append)
qed

lemma length_trimZeros: "length (trimZeros xs) \<le> length xs"
  using trimZeros_decomp [of xs] by (metis le_add1 length_append)

lemma trimZeros_last: "trimZeros xs \<noteq> [] \<Longrightarrow> last (trimZeros xs) \<noteq> 0"
  by (induction xs rule: rev_induct) (auto simp: trimZeros_snoc)

lemma trimZeros_idem [simp]: "trimZeros (trimZeros xs) = trimZeros xs"
  by (subst trimZeros.simps) (use trimZeros_last [of xs] in auto)

lemma length_Int64Bytes: "length (Int64Bytes n) \<le> 8"
  using length_trimZeros [of "le_bytes 8 (nat (n mod 2 ^ 64))"] by (simp add: Int64Bytes_def)

lemma le_val_Int64Bytes: "le_val (Int64Bytes n) = nat (n mod 2 ^ 64)"
  by (simp add: Int64Bytes_def le_val_le_bytes nat_mod_distrib)

lemma AsInt64_eq:
  "AsInt64 b = (if length b > 8 then Inl ErrBadValue else Inr (i64 (int (le_val b))))"
  by (auto simp: AsInt64_def le_val_append Let_def wrapS_def)

lemma AsInt64_in: "AsInt64 b = Inr n \<Longrightarrow> in_i64 n"
  by (auto simp: AsInt64_eq split: if_splits)

lemma AsInt64_Int64Bytes [simp]: "in_i64 n \<Longrightarrow> AsInt64 (Int64Bytes n) = Inr n"
  using length_Int64Bytes [of n]
  by (simp add: AsInt64_eq le_val_Int64Bytes i64_mod_unsigned)

lemma le_val_inject_length: "length xs = length ys \<Longrightarrow> le_val xs = le_val ys \<Longrightarrow> xs = ys"
  by (metis le_bytes_le_val)

lemma trimZeros_inject:
  assumes "length xs \<le> k" and "length ys \<le> k" and "le_val xs = le_val ys"
  shows "trimZeros xs = trimZeros ys"
proof -
  let ?p = "\<lambda>zs::bytes. zs @ replicate (k - length zs) 0"
  have "?p xs = ?p ys"
    using assms by (intro le_val_inject_length) (simp_all add: le_val_append)
  then have "trimZeros (?p xs) = trimZeros (?p ys)" by simp
  then show ?thesis by simp
qed

lemma Int64Bytes_AsInt64:
  assumes "AsInt64 b = Inr n"
  shows "Int64Bytes n = trimZeros b"
proof -
  have len: "length b \<le> 8" and n: "n = i64 (int (le_val b))"
    using assms by (auto simp: AsInt64_eq split: if_splits)
  have "le_val b < 2 ^ 64"
  proof -
    have "(256::nat) ^ length b \<le> 256 ^ 8" using len by (intro power_increasing) simp_all
    with le_val_less [of b] show ?thesis by simp
  qed
  then have "n mod 2 ^ 64 = int (le_val b)"
    using wrapS_mod [of 64 "int (le_val b)"] by (simp add: n)
  then have val: "le_val (Int64Bytes n) = le_val b" by (simp add: le_val_Int64Bytes)
  have "trimZeros (Int64Bytes n) = Int64Bytes n" by (simp add: Int64Bytes_def trimZeros_idem)
  with trimZeros_inject [OF length_Int64Bytes len val] show ?thesis by simp
qed

text \<open>
  The integer encoding is a bijection: decoding an encoded \<open>int64\<close> gives it back; a byte
  string decodes exactly when it has at most eight bytes, then to an \<open>int64\<close>; and encoding
  the decoded value gives the string without its trailing zero bytes.
\<close>

lemma Int64Bytes_roundtrip:
  "(in_i64 n \<longrightarrow> AsInt64 (Int64Bytes n) = Inr n) \<and>
   (case AsInt64 b of
      Inl e \<Rightarrow> e = ErrBadValue \<and> length b > 8
    | Inr m \<Rightarrow> length b \<le> 8 \<and> in_i64 m \<and> Int64Bytes m = trimZeros b)"
proof (intro conjI impI)
  show "case AsInt64 b of Inl e \<Rightarrow> e = ErrBadValue \<and> length b > 8
    | Inr m \<Rightarrow> length b \<le> 8 \<and> in_i64 m \<and> Int64Bytes m = trimZeros b"
    using AsInt64_in [of b] Int64Bytes_AsInt64 [of b]
    by (cases "length b > 8") (simp_all add: AsInt64_eq)
qed simp

theorem Int64Bytes_roundtrip_witness:
  "in_i64 (- 2) \<and> AsInt64 (Int64Bytes (- 2)) = Inr (- 2) \<and> Int64Bytes 258 = [2, 1]"
proof -
  have h: "in_i64 (- 2)" by (simp add: in_i64_iff)
  have "Int64Bytes 258 = trimZeros [2, 1, 0]"
    using Int64Bytes_roundtrip [of 0 "[2, 1, 0]"] by (simp add: AsInt64_eq i64_small)
  moreover have "trimZeros [2, 1, 0] = [2, 1]" by (simp add: trimZeros.simps)
  ultimately show ?thesis using h Int64Bytes_roundtrip [of "- 2" "[]"] by simp
qed

end
