(* ===== verification/VM_Ops.thy ===== *)
theory VM_Ops
  imports VM_Types
begin

text \<open>
  The instruction format of \<^verbatim>\<open>protocol/vm/ops.go\<close> and the encoders of
  \<^verbatim>\<open>protocol/vm/pushdata.go\<close>: the opcode numbers, \<open>ParseOp\<close>, \<open>ParseProgram\<close>,
  \<open>PushdataBytes\<close> and \<open>PushdataInt64\<close>. The theorems show that the parser never reads outside
  the program and never panics, that the parsed instructions tile the program, and that
  parsing inverts the pushdata encoders.
\<close>

section \<open>Opcodes\<close>

text \<open>
  The numbers of the opcodes; of the families \<open>OP_DATA_n\<close> and \<open>OP_n\<close> only the ends, which
  are what the code compares with.
\<close>

abbreviation OP_FALSE :: byte where "OP_FALSE \<equiv> 0x0"
abbreviation OP_0 :: byte where "OP_0 \<equiv> 0x0"
abbreviation OP_1 :: byte where "OP_1 \<equiv> 0x51"
abbreviation OP_TRUE :: byte where "OP_TRUE \<equiv> 0x51"
abbreviation OP_16 :: byte where "OP_16 \<equiv> 0x60"
abbreviation OP_DATA_1 :: byte where "OP_DATA_1 \<equiv> 0x1"
abbreviation OP_DATA_75 :: byte where "OP_DATA_75 \<equiv> 0x4b"
abbreviation OP_PUSHDATA1 :: byte where "OP_PUSHDATA1 \<equiv> 0x4c"
abbreviation OP_PUSHDATA2 :: byte where "OP_PUSHDATA2 \<equiv> 0x4d"
abbreviation OP_PUSHDATA4 :: byte where "OP_PUSHDATA4 \<equiv> 0x4e"
abbreviation OP_1NEGATE :: byte where "OP_1NEGATE \<equiv> 0x4f"
abbreviation OP_NOP :: byte where "OP_NOP \<equiv> 0x61"
abbreviation OP_JUMP :: byte where "OP_JUMP \<equiv> 0x63"
abbreviation OP_JUMPIF :: byte where "OP_JUMPIF \<equiv> 0x64"
abbreviation OP_VERIFY :: byte where "OP_VERIFY \<equiv> 0x69"
abbreviation OP_FAIL :: byte where "OP_FAIL \<equiv> 0x6a"
abbreviation OP_CHECKPREDICATE :: byte where "OP_CHECKPREDICATE \<equiv> 0xc0"
abbreviation OP_TOALTSTACK :: byte where "OP_TOALTSTACK \<equiv> 0x6b"
abbreviation OP_FROMALTSTACK :: byte where "OP_FROMALTSTACK \<equiv> 0x6c"
abbreviation OP_2DROP :: byte where "OP_2DROP \<equiv> 0x6d"
abbreviation OP_2DUP :: byte where "OP_2DUP \<equiv> 0x6e"
abbreviation OP_3DUP :: byte where "OP_3DUP \<equiv> 0x6f"
abbreviation OP_2OVER :: byte where "OP_2OVER \<equiv> 0x70"
abbreviation OP_2ROT :: byte where "OP_2ROT \<equiv> 0x71"
abbreviation OP_2SWAP :: byte where "OP_2SWAP \<equiv> 0x72"
abbreviation OP_IFDUP :: byte where "OP_IFDUP \<equiv> 0x73"
abbreviation OP_DEPTH :: byte where "OP_DEPTH \<equiv> 0x74"
abbreviation OP_DROP :: byte where "OP_DROP \<equiv> 0x75"
abbreviation OP_DUP :: byte where "OP_DUP \<equiv> 0x76"
abbreviation OP_NIP :: byte where "OP_NIP \<equiv> 0x77"
abbreviation OP_OVER :: byte where "OP_OVER \<equiv> 0x78"
abbreviation OP_PICK :: byte where "OP_PICK \<equiv> 0x79"
abbreviation OP_ROLL :: byte where "OP_ROLL \<equiv> 0x7a"
abbreviation OP_ROT :: byte where "OP_ROT \<equiv> 0x7b"
abbreviation OP_SWAP :: byte where "OP_SWAP \<equiv> 0x7c"
abbreviation OP_TUCK :: byte where "OP_TUCK \<equiv> 0x7d"
abbreviation OP_CAT :: byte where "OP_CAT \<equiv> 0x7e"
abbreviation OP_SUBSTR :: byte where "OP_SUBSTR \<equiv> 0x7f"
abbreviation OP_LEFT :: byte where "OP_LEFT \<equiv> 0x80"
abbreviation OP_RIGHT :: byte where "OP_RIGHT \<equiv> 0x81"
abbreviation OP_SIZE :: byte where "OP_SIZE \<equiv> 0x82"
abbreviation OP_CATPUSHDATA :: byte where "OP_CATPUSHDATA \<equiv> 0x89"
abbreviation OP_INVERT :: byte where "OP_INVERT \<equiv> 0x83"
abbreviation OP_AND :: byte where "OP_AND \<equiv> 0x84"
abbreviation OP_OR :: byte where "OP_OR \<equiv> 0x85"
abbreviation OP_XOR :: byte where "OP_XOR \<equiv> 0x86"
abbreviation OP_EQUAL :: byte where "OP_EQUAL \<equiv> 0x87"
abbreviation OP_EQUALVERIFY :: byte where "OP_EQUALVERIFY \<equiv> 0x88"
abbreviation OP_1ADD :: byte where "OP_1ADD \<equiv> 0x8b"
abbreviation OP_1SUB :: byte where "OP_1SUB \<equiv> 0x8c"
abbreviation OP_2MUL :: byte where "OP_2MUL \<equiv> 0x8d"
abbreviation OP_2DIV :: byte where "OP_2DIV \<equiv> 0x8e"
abbreviation OP_NEGATE :: byte where "OP_NEGATE \<equiv> 0x8f"
abbreviation OP_ABS :: byte where "OP_ABS \<equiv> 0x90"
abbreviation OP_NOT :: byte where "OP_NOT \<equiv> 0x91"
abbreviation OP_0NOTEQUAL :: byte where "OP_0NOTEQUAL \<equiv> 0x92"
abbreviation OP_ADD :: byte where "OP_ADD \<equiv> 0x93"
abbreviation OP_SUB :: byte where "OP_SUB \<equiv> 0x94"
abbreviation OP_MUL :: byte where "OP_MUL \<equiv> 0x95"
abbreviation OP_DIV :: byte where "OP_DIV \<equiv> 0x96"
abbreviation OP_MOD :: byte where "OP_MOD \<equiv> 0x97"
abbreviation OP_LSHIFT :: byte where "OP_LSHIFT \<equiv> 0x98"
abbreviation OP_RSHIFT :: byte where "OP_RSHIFT \<equiv> 0x99"
abbreviation OP_BOOLAND :: byte where "OP_BOOLAND \<equiv> 0x9a"
abbreviation OP_BOOLOR :: byte where "OP_BOOLOR \<equiv> 0x9b"
abbreviation OP_NUMEQUAL :: byte where "OP_NUMEQUAL \<equiv> 0x9c"
abbreviation OP_NUMEQUALVERIFY :: byte where "OP_NUMEQUALVERIFY \<equiv> 0x9d"
abbreviation OP_NUMNOTEQUAL :: byte where "OP_NUMNOTEQUAL \<equiv> 0x9e"
abbreviation OP_LESSTHAN :: byte where "OP_LESSTHAN \<equiv> 0x9f"
abbreviation OP_GREATERTHAN :: byte where "OP_GREATERTHAN \<equiv> 0xa0"
abbreviation OP_LESSTHANOREQUAL :: byte where "OP_LESSTHANOREQUAL \<equiv> 0xa1"
abbreviation OP_GREATERTHANOREQUAL :: byte where "OP_GREATERTHANOREQUAL \<equiv> 0xa2"
abbreviation OP_MIN :: byte where "OP_MIN \<equiv> 0xa3"
abbreviation OP_MAX :: byte where "OP_MAX \<equiv> 0xa4"
abbreviation OP_WITHIN :: byte where "OP_WITHIN \<equiv> 0xa5"
abbreviation OP_SHA256 :: byte where "OP_SHA256 \<equiv> 0xa8"
abbreviation OP_SHA3 :: byte where "OP_SHA3 \<equiv> 0xaa"
abbreviation OP_CHECKSIG :: byte where "OP_CHECKSIG \<equiv> 0xac"
abbreviation OP_CHECKMULTISIG :: byte where "OP_CHECKMULTISIG \<equiv> 0xad"
abbreviation OP_TXSIGHASH :: byte where "OP_TXSIGHASH \<equiv> 0xae"
abbreviation OP_BLOCKHASH :: byte where "OP_BLOCKHASH \<equiv> 0xaf"
abbreviation OP_CHECKOUTPUT :: byte where "OP_CHECKOUTPUT \<equiv> 0xc1"
abbreviation OP_ASSET :: byte where "OP_ASSET \<equiv> 0xc2"
abbreviation OP_AMOUNT :: byte where "OP_AMOUNT \<equiv> 0xc3"
abbreviation OP_PROGRAM :: byte where "OP_PROGRAM \<equiv> 0xc4"
abbreviation OP_MINTIME :: byte where "OP_MINTIME \<equiv> 0xc5"
abbreviation OP_MAXTIME :: byte where "OP_MAXTIME \<equiv> 0xc6"
abbreviation OP_TXDATA :: byte where "OP_TXDATA \<equiv> 0xc7"
abbreviation OP_ENTRYDATA :: byte where "OP_ENTRYDATA \<equiv> 0xc8"
abbreviation OP_INDEX :: byte where "OP_INDEX \<equiv> 0xc9"
abbreviation OP_ENTRYID :: byte where "OP_ENTRYID \<equiv> 0xca"
abbreviation OP_OUTPUTID :: byte where "OP_OUTPUTID \<equiv> 0xcb"
abbreviation OP_NONCE :: byte where "OP_NONCE \<equiv> 0xcc"
abbreviation OP_NEXTPROGRAM :: byte where "OP_NEXTPROGRAM \<equiv> 0xcd"
abbreviation OP_BLOCKTIME :: byte where "OP_BLOCKTIME \<equiv> 0xce"

section \<open>Parsing\<close>

record Instruction =
  Op :: byte
  Len :: uint32
  Data :: bytes

text \<open>
  The Go slice expression \<open>xs[a:b]\<close>, which panics when the bounds are not in order or not in
  range.
\<close>

definition goSlice :: "'a list \<Rightarrow> nat \<Rightarrow> nat \<Rightarrow> 'a list res" where
  "goSlice xs a b = (if a \<le> b \<and> b \<le> length xs then Ret (take (b - a) (drop a xs)) else Panic)"

text \<open>Reading \<open>xs[i]\<close> and \<open>xs[a:b]\<close> and going on with what was read.\<close>

definition readAt :: "'a list \<Rightarrow> nat \<Rightarrow> ('a \<Rightarrow> 'b res) \<Rightarrow> 'b res" where
  "readAt xs i k = (if i < length xs then k (xs ! i) else Panic)"

definition readSlice :: "'a list \<Rightarrow> nat \<Rightarrow> nat \<Rightarrow> ('a list \<Rightarrow> 'b res) \<Rightarrow> 'b res" where
  "readSlice xs a b k = (case goSlice xs a b of Ret ys \<Rightarrow> k ys | _ \<Rightarrow> Panic)"

text \<open>
  A program longer than \<open>MaxInt32\<close> sets the error result but does not return: a later error
  replaces it, and it is what every successful path then returns. \<open>parsed\<close> is a plain
  \<open>return\<close> of the code at such a point.
\<close>

definition parsed :: "bytes \<Rightarrow> Instruction res \<Rightarrow> Instruction res" where
  "parsed prog r = (if int (length prog) > int_max 32 then
     (case r of Ret inst \<Rightarrow> Err ErrLongProgram | _ \<Rightarrow> r) else r)"

text \<open>
  The ending shared by the branches with data: \<open>end = pc + Len\<close>, checked against overflow and
  the program's length \<open>l\<close>, then \<open>Data = prog[pc + off : end]\<close>.
\<close>

definition parseData :: "bytes \<Rightarrow> uint32 \<Rightarrow> byte \<Rightarrow> uint32 \<Rightarrow> uint32 \<Rightarrow> Instruction res" where
  "parseData prog pc opcode len off =
     (case AddUint32 pc len of
        None \<Rightarrow> Err ErrOverflow
      | Some endp \<Rightarrow>
          if endp > word_of_nat (length prog) then Err ErrShortProgram
          else (case goSlice prog (unat (pc + off)) (unat endp) of
                  Ret d \<Rightarrow> parsed prog (Ret \<lparr>Op = opcode, Len = len, Data = d\<rparr>)
                | _ \<Rightarrow> Panic))"

text \<open>
  \<open>OP_PUSHDATA1\<close> has an ending of its own: after an overflow the code goes on with
  \<open>end = 0\<close>, and the slice expression then panics.
\<close>

definition parsePushdata1 :: "bytes \<Rightarrow> uint32 \<Rightarrow> byte \<Rightarrow> byte \<Rightarrow> Instruction res" where
  "parsePushdata1 prog pc opcode n =
     (let len = 1 + (ucast n + 1);
          r = (case AddUint32 pc len of None \<Rightarrow> (0, True) | Some e \<Rightarrow> (e, False));
          endp = fst r
      in if endp > word_of_nat (length prog) then Err ErrShortProgram
         else (case goSlice prog (unat (pc + 2)) (unat endp) of
                 Ret d \<Rightarrow> if snd r then Err ErrOverflow
                   else parsed prog (Ret \<lparr>Op = opcode, Len = len, Data = d\<rparr>)
               | _ \<Rightarrow> Panic))"

definition ParseOp :: "bytes \<Rightarrow> uint32 \<Rightarrow> Instruction res" where
  "ParseOp prog pc =
     (let l = word_of_nat (length prog) :: uint32 in
      if pc \<ge> l then Err ErrShortProgram
      else
        readAt prog (unat pc) (\<lambda>opcode.
        if opcode \<ge> OP_1 \<and> opcode \<le> OP_16 then
          parsed prog (Ret \<lparr>Op = opcode, Len = 1, Data = [opcode - OP_1 + 1]\<rparr>)
        else if opcode \<ge> OP_DATA_1 \<and> opcode \<le> OP_DATA_75 then
          parseData prog pc opcode (1 + ucast (opcode - OP_DATA_1 + 1)) 1
        else if opcode = OP_PUSHDATA1 then
          (if pc = l - 1 then Err ErrShortProgram else readAt prog (unat (pc + 1)) (parsePushdata1 prog pc opcode))
        else if opcode = OP_PUSHDATA2 then
          (if length prog < 3 \<or> pc > l - 3 then Err ErrShortProgram
           else readSlice prog (unat (pc + 1)) (unat (pc + 3)) (\<lambda>bs.
             parseData prog pc opcode (1 + (word_of_nat (le_val bs) + 2)) 3))
        else if opcode = OP_PUSHDATA4 then
          (if length prog < 5 \<or> pc > l - 5 then Err ErrShortProgram
           else readSlice prog (unat (pc + 1)) (unat (pc + 5)) (\<lambda>bs.
             (case AddUint32 5 (word_of_nat (le_val bs)) of
                None \<Rightarrow> Err ErrOverflow
              | Some len \<Rightarrow> parseData prog pc opcode len 5)))
        else if opcode = OP_JUMP \<or> opcode = OP_JUMPIF then
          parseData prog pc opcode 5 1
        else parsed prog (Ret \<lparr>Op = opcode, Len = 1, Data = []\<rparr>)))"

text \<open>
  The guards keep every read inside the program, so that the reads never panic: \<open>ParseOp\<close> may be taken to read with total functions.
\<close>

lemma reads_inside:
  fixes pc c :: uint32
  assumes "pc < word_of_nat (length prog)" and "pc \<le> word_of_nat (length prog) - c" and "unat c \<le> length prog" and "unat c \<le> 5"
  shows "unat pc + unat c \<le> length prog"
proof (cases "c \<le> (word_of_nat (length prog) :: uint32)")
  case True
  have "unat (word_of_nat (length prog) :: uint32) \<le> length prog" by (simp add: unat_of_nat)
  moreover have "unat pc \<le> unat (word_of_nat (length prog) :: uint32) - unat c"
    using assms(2) True by (simp add: word_le_nat_alt unat_sub)
  ultimately show ?thesis using True by (simp add: word_le_nat_alt)
next
  case False
  have "length prog \<ge> 2 ^ 32"
  proof (rule ccontr)
    assume "\<not> 2 ^ 32 \<le> length prog"
    then have "unat (word_of_nat (length prog) :: uint32) = length prog" by (simp add: unat_of_nat)
    with False assms(3) show False by (simp add: word_le_nat_alt)
  qed
  moreover have "unat pc < unat c" using assms(1) False by (simp add: word_less_nat_alt word_le_nat_alt)
  ultimately show ?thesis using assms(4) by simp
qed

lemma plus_inside:
  fixes pc c :: uint32
  assumes "pc < word_of_nat (length prog)" and "pc \<le> word_of_nat (length prog) - c" and "unat c \<le> length prog" and "unat c \<le> 5" and "unat d \<le> unat c"
  shows "unat (pc + d) = unat pc + unat d"
proof -
  have "unat pc + unat c < 2 ^ 32"
  proof (cases "c \<le> (word_of_nat (length prog) :: uint32)")
    case True
    then have "unat pc + unat c \<le> unat (word_of_nat (length prog) :: uint32)"
      using assms(2) by (simp add: word_le_nat_alt unat_sub)
    then show ?thesis using unsigned_less [of "word_of_nat (length prog) :: uint32", where ?'a = nat] by simp
  next
    case False
    then have "unat pc < unat c" using assms(1) by (simp add: word_less_nat_alt word_le_nat_alt)
    then show ?thesis using assms(4) by simp
  qed
  then show ?thesis using assms(5) by (simp add: unat_word_ariths)
qed

lemma slice_inside:
  fixes pc c :: uint32
  assumes "pc < word_of_nat (length prog)" and "pc \<le> word_of_nat (length prog) - c" and "unat c \<le> length prog" and "unat c \<le> 5" and "1 \<le> unat c"
  shows "readSlice prog (unat (pc + 1)) (unat (pc + c)) k = k (take (unat c - 1) (drop (unat pc + 1) prog))"
  using plus_inside [OF assms(1-4), of 1] plus_inside [OF assms(1-4), of c] reads_inside [OF assms(1-4)] assms(5)
  by (simp add: readSlice_def goSlice_def)

lemma next_inside:
  fixes pc :: uint32
  assumes "pc < word_of_nat (length prog)" and "pc \<noteq> word_of_nat (length prog) - 1"
  shows "unat (pc + 1) < length prog"
proof -
  let ?l = "word_of_nat (length prog) :: uint32"
  have l: "unat ?l \<le> length prog" by (simp add: unat_of_nat)
  have "unat pc + 1 \<noteq> unat ?l" using assms by (auto simp: word_less_nat_alt word_unat_eq_iff unat_sub word_le_nat_alt)
  then have "unat pc + 1 < unat ?l" using assms(1) by (simp add: word_less_nat_alt)
  then show ?thesis using l unsigned_less [of ?l, where ?'a = nat] by (simp add: unat_word_ariths)
qed

lemma ParseOp_reads:
  "ParseOp prog pc =
     (let l = word_of_nat (length prog) :: uint32 in
      if pc \<ge> l then Err ErrShortProgram
      else
        let opcode = prog ! unat pc in
        if opcode \<ge> OP_1 \<and> opcode \<le> OP_16 then
          parsed prog (Ret \<lparr>Op = opcode, Len = 1, Data = [opcode - OP_1 + 1]\<rparr>)
        else if opcode \<ge> OP_DATA_1 \<and> opcode \<le> OP_DATA_75 then
          parseData prog pc opcode (1 + ucast (opcode - OP_DATA_1 + 1)) 1
        else if opcode = OP_PUSHDATA1 then
          (if pc = l - 1 then Err ErrShortProgram else parsePushdata1 prog pc opcode (prog ! unat (pc + 1)))
        else if opcode = OP_PUSHDATA2 then
          (if length prog < 3 \<or> pc > l - 3 then Err ErrShortProgram
           else let n = le_val (take 2 (drop (unat pc + 1) prog)) in
             parseData prog pc opcode (1 + (word_of_nat n + 2)) 3)
        else if opcode = OP_PUSHDATA4 then
          (if length prog < 5 \<or> pc > l - 5 then Err ErrShortProgram
           else let n = le_val (take 4 (drop (unat pc + 1) prog)) in
             (case AddUint32 5 (word_of_nat n) of
                None \<Rightarrow> Err ErrOverflow
              | Some len \<Rightarrow> parseData prog pc opcode len 5))
        else if opcode = OP_JUMP \<or> opcode = OP_JUMPIF then
          parseData prog pc opcode 5 1
        else parsed prog (Ret \<lparr>Op = opcode, Len = 1, Data = []\<rparr>))"
proof (cases "pc \<ge> (word_of_nat (length prog) :: uint32)")
  case False
  then have pc: "pc < word_of_nat (length prog)" by simp
  have "unat pc < length prog" using pc unsigned_less [of pc, where ?'a = nat]
    by (simp add: word_less_nat_alt unat_of_nat)
  moreover have "readAt prog (unat (pc + 1)) k = k (prog ! unat (pc + 1))" if "pc \<noteq> word_of_nat (length prog) - 1" for k :: "byte \<Rightarrow> Instruction res"
    using next_inside [OF pc that] by (simp add: readAt_def)
  moreover have "readSlice prog (unat (pc + 1)) (unat (pc + 3)) k = k (take 2 (drop (unat pc + 1) prog))"
    if "\<not> (length prog < 3 \<or> pc > word_of_nat (length prog) - 3)" for k :: "bytes \<Rightarrow> Instruction res"
    using slice_inside [OF pc, of 3 k] that by (simp add: not_less)
  moreover have "readSlice prog (unat (pc + 1)) (unat (pc + 5)) k = k (take 4 (drop (unat pc + 1) prog))"
    if "\<not> (length prog < 5 \<or> pc > word_of_nat (length prog) - 5)" for k :: "bytes \<Rightarrow> Instruction res"
    using slice_inside [OF pc, of 5 k] that by (simp add: not_less)
  ultimately show ?thesis using False unfolding ParseOp_def Let_def by (simp add: readAt_def [of prog "unat pc"] cong: if_cong)
qed (simp add: ParseOp_def Let_def)

lemma AddUint32_Some_iff:
  "AddUint32 a b = Some c \<longleftrightarrow> unat a + unat b < 2 ^ 32 \<and> c = a + b"
  using add_guard_iff [of a b] by (auto simp: AddUint32_def)

lemma unat_plus_32: "unat a + unat b < 2 ^ 32 \<Longrightarrow> unat ((a :: uint32) + b) = unat a + unat b"
  by (simp add: unat_word_ariths)

lemma unat_of_nat_32: "n < 2 ^ 32 \<Longrightarrow> unat (word_of_nat n :: uint32) = n"
  by (simp add: unat_of_nat)

lemma unat_ucast_byte [simp]: "unat (ucast (b :: byte) :: uint32) = unat b"
  by (simp add: unsigned_ucast_eq take_bit_eq_mod mod_less [OF less_le_trans [OF unat_byte_less]])

lemma parsed_Ret_iff [simp]:
  "parsed prog (Ret i) = Ret j \<longleftrightarrow> i = j \<and> length prog \<le> 2147483647"
  by (auto simp: parsed_def int_max_def)

text \<open>What a successful parse of each branch guarantees.\<close>

definition inst_ok :: "bytes \<Rightarrow> uint32 \<Rightarrow> Instruction \<Rightarrow> bool" where
  "inst_ok prog pc inst \<longleftrightarrow>
     length prog \<le> 2147483647 \<and> Op inst = prog ! unat pc \<and>
     1 \<le> unat (Len inst) \<and> unat pc + unat (Len inst) \<le> length prog \<and>
     length (Data inst) \<le> unat (Len inst)"

lemma parseData_ok:
  assumes "parseData prog pc opcode len off = Ret inst"
    and "opcode = prog ! unat pc" and "0 < unat len" and "unat off \<le> unat len"
  shows "inst_ok prog pc inst \<and> unat off + length (Data inst) = unat len"
proof -
  from assms(1) have sum: "unat pc + unat len < 2 ^ 32"
    and le: "pc + len \<le> word_of_nat (length prog)"
    and long: "length prog \<le> 2147483647"
    by (auto simp: parseData_def AddUint32_Some_iff split: option.splits if_splits res.splits)
  have "unat (pc + off) = unat pc + unat off" "unat (pc + len) = unat pc + unat len"
    using sum assms(4) by (simp_all add: unat_plus_32)
  with assms le long sum show ?thesis
    by (auto simp: parseData_def AddUint32_Some_iff goSlice_def inst_ok_def word_le_nat_alt
        unat_of_nat_32 split: option.splits if_splits res.splits)
qed

lemma parsePushdata1_ok:
  assumes "parsePushdata1 prog pc opcode n = Ret inst" and "opcode = prog ! unat pc"
  shows "inst_ok prog pc inst"
proof -
  define len :: uint32 where "len = 1 + (ucast (n) + 1)"
  have len: "unat len = 2 + unat (n)"
    using less_le_trans [OF unat_byte_less, of 4294967294 "n"]
    by (simp add: len_def unat_word_ariths)
  from assms(1) have "parseData prog pc opcode len 2 = Ret inst"
    by (auto simp: parsePushdata1_def parseData_def Let_def len_def
        split: option.splits if_splits res.splits)
  with assms(2) len show ?thesis using parseData_ok [of prog pc opcode len 2 inst] by simp
qed

lemma le_val_take_less:
  assumes "k \<le> m"
  shows "le_val (take k xs) < 256 ^ m"
proof -
  have "(256::nat) ^ length (take k xs) \<le> 256 ^ m" using assms by (intro power_increasing) auto
  with le_val_less [of "take k xs"] show ?thesis by linarith
qed

lemma ParseOp_ok:
  assumes "ParseOp prog pc = Ret inst"
  shows "inst_ok prog pc inst"
proof -
  let ?op = "prog ! unat pc"
  let ?n2 = "le_val (take 2 (drop (unat pc + 1) prog))"
  let ?n4 = "le_val (take 4 (drop (unat pc + 1) prog))"
  have pc: "\<not> word_of_nat (length prog) \<le> pc" using assms by (auto simp: ParseOp_reads Let_def)
  consider (simple) d where "parsed prog (Ret \<lparr>Op = ?op, Len = 1, Data = d\<rparr>) = Ret inst" "length d \<le> 1"
    | (data) "parseData prog pc ?op (1 + ucast (?op - OP_DATA_1 + 1)) 1 = Ret inst"
    | (pd1) "parsePushdata1 prog pc ?op (prog ! unat (pc + 1)) = Ret inst"
    | (pd2) "parseData prog pc ?op (1 + (word_of_nat ?n2 + 2)) 3 = Ret inst"
    | (pd4) len where "AddUint32 5 (word_of_nat ?n4) = Some len" "parseData prog pc ?op len 5 = Ret inst"
    | (jump) "parseData prog pc ?op 5 1 = Ret inst"
    using assms pc by (auto simp: ParseOp_reads Let_def split: if_splits option.splits)
  then show ?thesis
  proof cases
    case simple
    with pc show ?thesis
      by (auto simp: inst_ok_def word_le_nat_alt unat_of_nat_32)
  next
    case data
    have "unat (1 + ucast (?op - OP_DATA_1 + 1) :: uint32) = 1 + unat (?op - OP_DATA_1 + 1)"
      using less_le_trans [OF unat_byte_less, of 4294967295 "?op - OP_DATA_1 + 1"]
      by (simp add: unat_word_ariths)
    with data show ?thesis using parseData_ok [OF data] by simp
  next
    case pd1
    then show ?thesis by (simp add: parsePushdata1_ok)
  next
    case pd2
    have "?n2 < 65536" using le_val_take_less [of 2 2 "drop (unat pc + 1) prog"] by simp
    then have "unat (1 + (word_of_nat ?n2 + 2) :: uint32) = ?n2 + 3"
      by (simp add: unat_word_ariths unat_of_nat)
    with pd2 show ?thesis using parseData_ok [OF pd2] by simp
  next
    case pd4
    then have "5 \<le> unat len" by (auto simp: AddUint32_Some_iff unat_word_ariths)
    with pd4 show ?thesis using parseData_ok [OF pd4(2)] by simp
  next
    case jump
    then show ?thesis using parseData_ok [OF jump] by simp
  qed
qed

text \<open>
  The loop of \<open>ParseProgram\<close>; it ends because every parsed instruction is at least one byte
  long and the program counter cannot wrap around.
\<close>

function parseLoop :: "bytes \<Rightarrow> uint32 \<Rightarrow> Instruction list \<Rightarrow> Instruction list res" where
  "parseLoop prog pc result =
     (if pc < word_of_nat (length prog) then
        (case ParseOp prog pc of
           Ret inst \<Rightarrow>
             (case AddUint32 pc (Len inst) of
                None \<Rightarrow> Err ErrOverflow
              | Some pc' \<Rightarrow> parseLoop prog pc' (result @ [inst]))
         | Err e \<Rightarrow> Err e
         | Panic \<Rightarrow> Panic
         | OutOfFuel \<Rightarrow> OutOfFuel)
      else Ret result)"
  by pat_completeness auto
termination
proof (relation "measure (\<lambda>(prog, pc, result). 2 ^ 32 - unat pc)", goal_cases)
  case (2 prog pc result inst pc')
  have "1 \<le> unat (Len inst)" using ParseOp_ok [OF 2(2)] by (simp add: inst_ok_def)
  moreover have "unat pc + unat (Len inst) < 2 ^ 32" "unat pc' = unat pc + unat (Len inst)"
    using 2(3) by (auto simp: AddUint32_Some_iff unat_plus_32)
  ultimately show ?case by simp
qed simp

declare parseLoop.simps [simp del]

definition ParseProgram :: "bytes \<Rightarrow> Instruction list res" where
  "ParseProgram prog = parseLoop prog 0 []"

section \<open>Encoding data pushes\<close>

definition PushdataBytes :: "bytes \<Rightarrow> bytes" where
  "PushdataBytes inp =
     (let l = length inp in
      if l = 0 then [OP_0]
      else if l \<le> 75 then (OP_DATA_1 + word_of_nat l - 1) # inp
      else if l < 2 ^ 8 then OP_PUSHDATA1 # word_of_nat l # inp
      else if l < 2 ^ 16 then OP_PUSHDATA2 # le_bytes 2 l @ inp
      else OP_PUSHDATA4 # le_bytes 4 l @ inp)"

definition PushdataInt64 :: "int64 \<Rightarrow> bytes" where
  "PushdataInt64 n =
     (if n = 0 then [OP_0]
      else if n \<ge> 1 \<and> n \<le> 16 then [OP_1 + word_of_int n - 1]
      else PushdataBytes (Int64Bytes n))"

section \<open>The parser stays inside the program\<close>

lemma parseData_no_panic:
  assumes "length prog \<le> 2147483647" and "unat off \<le> unat len"
  shows "returns (parseData prog pc opcode len off)"
proof (cases "AddUint32 pc len")
  case (Some endp)
  then have "unat pc + unat len < 2 ^ 32" "unat endp = unat pc + unat len"
    by (auto simp: AddUint32_Some_iff unat_plus_32)
  moreover from this assms(2) have "unat (pc + off) = unat pc + unat off" by (simp add: unat_plus_32)
  ultimately show ?thesis
    using Some assms
    by (auto simp: parseData_def goSlice_def parsed_def word_less_nat_alt unat_of_nat_32 int_max_def)
qed (simp add: parseData_def)

lemma parsePushdata1_no_panic:
  assumes "length prog \<le> 2147483647" and "pc < word_of_nat (length prog)"
  shows "returns (parsePushdata1 prog pc opcode n)"
proof -
  define len :: uint32 where "len = 1 + (ucast (n) + 1)"
  have byte: "unat (n) < 256" by (rule unat_byte_less)
  have len: "unat len = 2 + unat (n)"
    using less_le_trans [OF unat_byte_less, of 4294967294 "n"]
    by (simp add: len_def unat_word_ariths)
  have "unat pc < length prog" using assms by (simp add: word_less_nat_alt unat_of_nat_32)
  with assms(1) byte have "unat pc + unat len < 2 ^ 32" by (simp add: len del: unat_byte_less)
  then have "AddUint32 pc len = Some (pc + len)" by (simp add: AddUint32_Some_iff)
  then have "parsePushdata1 prog pc opcode n = parseData prog pc opcode len 2"
    by (simp add: parsePushdata1_def parseData_def Let_def len_def split: res.split)
  then show ?thesis using parseData_no_panic [OF assms(1), of 2 len] len by simp
qed

lemma ParseOp_no_panic:
  assumes "length prog \<le> 2147483647"
  shows "returns (ParseOp prog pc)"
proof -
  let ?n2 = "le_val (take 2 (drop (unat pc + 1) prog))"
  have "?n2 < 65536" using le_val_take_less [of 2 2 "drop (unat pc + 1) prog"] by simp
  then have pd2: "unat (1 + (word_of_nat ?n2 + 2) :: uint32) = ?n2 + 3"
    by (simp add: unat_word_ariths unat_of_nat)
  have data: "unat (1 + ucast (b :: byte) :: uint32) = 1 + unat b" for b
    using less_le_trans [OF unat_byte_less, of 4294967295 b] by (simp add: unat_word_ariths)
  have pd4: "AddUint32 5 x = Some len \<Longrightarrow> 5 \<le> unat len" for x len
    by (auto simp: AddUint32_Some_iff unat_word_ariths)
  show ?thesis
    unfolding ParseOp_reads Let_def parsed_def
    using parsePushdata1_no_panic [OF assms, of pc] pd2 data pd4
    by (auto simp: not_le parseData_no_panic [OF assms] split: option.split)
qed

section \<open>Instructions tile the program\<close>

text \<open>
  The specification of a parsed program: the instructions follow each other without gap or
  overlap from offset \<open>k\<close> to the program's end, and each is what \<open>ParseOp\<close> reads at its offset.
\<close>

fun tiles :: "bytes \<Rightarrow> nat \<Rightarrow> Instruction list \<Rightarrow> bool" where
  "tiles prog k [] = (k = length prog)"
| "tiles prog k (i # is) =
     (ParseOp prog (word_of_nat k) = Ret i \<and> tiles prog (k + unat (Len i)) is)"

lemma parseLoop_Ret_iff:
  assumes "length prog \<le> 2147483647" and "unat pc \<le> length prog"
  shows "parseLoop prog pc acc = Ret insts \<longleftrightarrow> (\<exists>is. insts = acc @ is \<and> tiles prog (unat pc) is)"
  using assms
proof (induction prog pc acc rule: parseLoop.induct)
  case (1 prog pc acc)
  have lt: "pc < word_of_nat (length prog) \<longleftrightarrow> unat pc < length prog"
    using "1.prems" by (simp add: word_less_nat_alt unat_of_nat_32)
  have no: "\<not> unat pc < length prog \<Longrightarrow> ParseOp prog pc = Err ErrShortProgram"
    using lt by (simp add: ParseOp_reads Let_def not_less)
  show ?case
  proof (cases "unat pc < length prog")
    case True
    have none: "\<not> tiles prog (unat pc) is" if "\<And>i. ParseOp prog pc \<noteq> Ret i" for "is"
      using True that by (cases "is") auto
    show ?thesis
    proof (cases "ParseOp prog pc")
      case (Ret inst)
      then have ok: "unat pc + unat (Len inst) \<le> length prog" using ParseOp_ok by (auto simp: inst_ok_def)
      with "1.prems" have add: "AddUint32 pc (Len inst) = Some (pc + Len inst)"
        and u: "unat (pc + Len inst) = unat pc + unat (Len inst)"
        by (simp_all add: AddUint32_Some_iff unat_plus_32)
      have "parseLoop prog pc acc = parseLoop prog (pc + Len inst) (acc @ [inst])"
        using True by (simp add: parseLoop.simps [of prog pc acc] lt Ret add)
      moreover have "parseLoop prog (pc + Len inst) (acc @ [inst]) = Ret insts \<longleftrightarrow>
          (\<exists>is. insts = (acc @ [inst]) @ is \<and> tiles prog (unat (pc + Len inst)) is)"
        using "1.IH" [of inst "pc + Len inst"] True Ret add ok u "1.prems" by (simp add: lt)
      moreover have "tiles prog (unat pc) is \<longleftrightarrow>
          (\<exists>is'. is = inst # is' \<and> tiles prog (unat (pc + Len inst)) is')" for "is"
        using True Ret u by (cases "is") auto
      ultimately show ?thesis by auto
    qed (use True lt none in \<open>simp_all add: parseLoop.simps [of prog pc acc]\<close>)
  next
    case False
    with "1.prems" have "length prog = unat pc" by simp
    then have "tiles prog (unat pc) is \<longleftrightarrow> is = []" for "is"
      using no by (cases "is") simp_all
    with False show ?thesis by (auto simp: parseLoop.simps [of prog pc acc] lt)
  qed
qed

lemma ParseProgram_Ret_iff:
  "length prog \<le> 2147483647 \<Longrightarrow> ParseProgram prog = Ret insts \<longleftrightarrow> tiles prog 0 insts"
  using parseLoop_Ret_iff [of prog 0 "[]" insts] by (simp add: ParseProgram_def)

lemma returns_parseLoop: "length prog \<le> 2147483647 \<Longrightarrow> returns (parseLoop prog pc acc)"
proof (induction prog pc acc rule: parseLoop.induct)
  case (1 prog pc acc)
  then show ?case using ParseOp_no_panic [OF "1.prems", of pc]
    by (auto simp: parseLoop.simps [of prog pc acc] split: res.splits option.splits)
qed

text \<open>
  A chunk of a program that parses as one instruction wherever it stands. Programs are built by
  concatenating chunks, so that parsing them gives the list of the chunks' instructions.
\<close>

definition parse_chunk :: "bytes \<Rightarrow> Instruction \<Rightarrow> bool" where
  "parse_chunk c i \<longleftrightarrow> length c = unat (Len i) \<and>
     (\<forall>pre post. length (pre @ c @ post) \<le> 2147483647 \<longrightarrow>
        ParseOp (pre @ c @ post) (word_of_nat (length pre)) = Ret i)"

lemma tiles_chunks:
  "list_all2 parse_chunk cs is \<Longrightarrow> length (pre @ concat cs) \<le> 2147483647 \<Longrightarrow>
    tiles (pre @ concat cs) (length pre) is"
proof (induction cs "is" arbitrary: pre rule: list_all2_induct)
  case (Cons c cs i "is")
  from Cons.IH [of "pre @ c"] Cons.hyps Cons.prems show ?case
    by (auto simp: parse_chunk_def)
qed simp

lemma ParseProgram_chunks:
  "list_all2 parse_chunk cs is \<Longrightarrow> length (concat cs) \<le> 2147483647 \<Longrightarrow>
    ParseProgram (concat cs) = Ret is"
  using tiles_chunks [of cs "is" "[]"] by (simp add: ParseProgram_Ret_iff)

lemma parse_chunkI:
  assumes "\<And>pre post. length (pre @ c @ post) \<le> 2147483647 \<Longrightarrow>
      ParseOp (pre @ c @ post) (word_of_nat (length pre)) = Ret i"
    and "length c = unat (Len i)"
  shows "parse_chunk c i"
  using assms by (simp add: parse_chunk_def)

text \<open>Parsing at the start of a chunk that stands after \<open>pre\<close>.\<close>

lemma ParseOp_at:
  assumes "length (pre @ op # c) \<le> 2147483647"
  shows "unat (word_of_nat (length pre) :: uint32) = length pre"
    and "(pre @ op # c) ! unat (word_of_nat (length pre) :: uint32) = op"
    and "\<not> (word_of_nat (length (pre @ op # c)) :: uint32) \<le> word_of_nat (length pre)"
  using assms by (simp_all add: unat_of_nat_32 word_le_nat_alt nth_append del: of_nat_Suc of_nat_add)

lemma parseData_at:
  assumes "length (pre @ (op # hdr @ d) @ post) \<le> 2147483647"
    and "unat off = Suc (length hdr)" and "unat len = Suc (length hdr + length d)"
  shows "parseData (pre @ (op # hdr @ d) @ post) (word_of_nat (length pre)) op len off =
    Ret \<lparr>Op = op, Len = len, Data = d\<rparr>"
proof -
  let ?prog = "pre @ (op # hdr @ d) @ post"
  let ?pc = "word_of_nat (length pre) :: uint32"
  have pc: "unat ?pc = length pre" using assms(1) by (simp add: unat_of_nat_32)
  have l: "unat (word_of_nat (length ?prog) :: uint32) = length ?prog"
    using assms(1) by (simp add: unat_of_nat_32 del: length_append length_Cons)
  have "unat (?pc + len) = length pre + unat len" "unat (?pc + off) = length pre + unat off"
    and add: "AddUint32 ?pc len = Some (?pc + len)"
    using assms by (simp_all add: unat_plus_32 pc AddUint32_Some_iff)
  moreover have "\<not> ?pc + len > word_of_nat (length ?prog)"
    unfolding word_less_nat_alt l using calculation assms by simp
  moreover have "goSlice ?prog (length pre + unat off) (length pre + unat len) = Ret d"
    using assms by (simp add: goSlice_def)
  ultimately show ?thesis
    using assms(1) by (simp add: parseData_def parsed_def int_max_def del: length_append length_Cons append_assoc)
qed

definition plain_op :: "byte \<Rightarrow> bool" where
  "plain_op op \<longleftrightarrow> \<not> (OP_1 \<le> op \<and> op \<le> OP_16) \<and> \<not> (OP_DATA_1 \<le> op \<and> op \<le> OP_DATA_75) \<and>
     op \<noteq> OP_PUSHDATA1 \<and> op \<noteq> OP_PUSHDATA2 \<and> op \<noteq> OP_PUSHDATA4 \<and> op \<noteq> OP_JUMP \<and> op \<noteq> OP_JUMPIF"

lemma ParseOp_plain:
  assumes "plain_op op" and "length (pre @ op # post) \<le> 2147483647"
  shows "ParseOp (pre @ op # post) (word_of_nat (length pre)) = Ret \<lparr>Op = op, Len = 1, Data = []\<rparr>"
  using assms(1) ParseOp_at [OF assms(2)] assms(2)
  by (auto simp: ParseOp_reads Let_def plain_op_def parsed_def int_max_def
      simp del: length_append length_Cons of_nat_add of_nat_Suc)

lemma chunk_plain: "plain_op op \<Longrightarrow> parse_chunk [op] \<lparr>Op = op, Len = 1, Data = []\<rparr>"
  by (rule parse_chunkI) (simp_all add: ParseOp_plain)

lemma chunk_small_int:
  assumes "OP_1 \<le> op \<and> op \<le> OP_16"
  shows "parse_chunk [op] \<lparr>Op = op, Len = 1, Data = [op - OP_1 + 1]\<rparr>"
proof (rule parse_chunkI)
  fix pre post :: bytes
  assume "length (pre @ [op] @ post) \<le> 2147483647"
  then show "ParseOp (pre @ [op] @ post) (word_of_nat (length pre)) =
      Ret \<lparr>Op = op, Len = 1, Data = [op - OP_1 + 1]\<rparr>"
    using ParseOp_at [of pre op post] assms
    by (simp add: ParseOp_reads Let_def parsed_def int_max_def del: of_nat_add of_nat_Suc)
qed simp

lemma byte_len: "n < 256 \<Longrightarrow> unat (word_of_nat n :: byte) = n"
  by (simp del: of_nat_numeral)

lemma chunk_data:
  assumes "1 \<le> length d" and "length d \<le> 75"
  shows "parse_chunk (word_of_nat (length d) # d)
    \<lparr>Op = word_of_nat (length d), Len = word_of_nat (Suc (length d)), Data = d\<rparr>"
proof (rule parse_chunkI)
  define op :: byte where "op = word_of_nat (length d)"
  have u: "unat op = length d" unfolding op_def using assms by (intro byte_len) simp
  have rng: "\<not> (OP_1 \<le> op \<and> op \<le> OP_16)" "OP_DATA_1 \<le> op" "op \<le> OP_DATA_75"
    using assms u by (simp_all add: word_le_nat_alt)
  have len: "1 + ucast op = (word_of_nat (Suc (length d)) :: uint32)"
    using assms u by (simp add: word_unat_eq_iff unat_word_ariths unat_of_nat)
  fix pre post :: bytes
  assume long: "length (pre @ (word_of_nat (length d) # d) @ post) \<le> 2147483647"
  then have "length (pre @ op # d @ post) \<le> 2147483647" by simp
  from ParseOp_at [OF this] rng
  have "ParseOp (pre @ (op # [] @ d) @ post) (word_of_nat (length pre)) =
      parseData (pre @ (op # [] @ d) @ post) (word_of_nat (length pre)) op
        (word_of_nat (Suc (length d))) 1"
    by (auto simp: ParseOp_reads Let_def len simp del: of_nat_add of_nat_Suc)
  also have "\<dots> = Ret \<lparr>Op = op, Len = word_of_nat (Suc (length d)), Data = d\<rparr>"
    using assms long by (intro parseData_at) (simp_all add: unat_of_nat_32 del: of_nat_Suc)
  finally show "ParseOp (pre @ (word_of_nat (length d) # d) @ post) (word_of_nat (length pre)) =
      Ret \<lparr>Op = word_of_nat (length d), Len = word_of_nat (Suc (length d)), Data = d\<rparr>"
    by (simp add: op_def)
qed (use assms in \<open>simp add: unat_of_nat_32 del: of_nat_Suc\<close>)

lemma chunk_pushdata1:
  assumes "length d < 256"
  shows "parse_chunk (OP_PUSHDATA1 # word_of_nat (length d) # d)
    \<lparr>Op = OP_PUSHDATA1, Len = word_of_nat (length d + 2), Data = d\<rparr>"
proof (rule parse_chunkI)
  define n :: byte where "n = word_of_nat (length d)"
  have u: "unat n = length d" unfolding n_def using assms by (intro byte_len) simp
  fix pre post :: bytes
  let ?prog = "pre @ (OP_PUSHDATA1 # [n] @ d) @ post"
  let ?pc = "word_of_nat (length pre) :: uint32"
  assume "length (pre @ (OP_PUSHDATA1 # word_of_nat (length d) # d) @ post) \<le> 2147483647"
  then have long: "length ?prog \<le> 2147483647" by simp
  have pc: "unat ?pc = length pre" "unat (?pc + 1) = length pre + 1"
    using long by (simp_all add: unat_of_nat_32 unat_plus_32)
  have el: "?prog ! unat (?pc + 1) = n" unfolding pc by (simp add: nth_append)
  have len: "1 + (ucast (?prog ! unat (?pc + 1)) + 1) = (word_of_nat (length d + 2) :: uint32)"
    using assms u unfolding el by (simp add: word_unat_eq_iff unat_word_ariths unat_of_nat)
  have add: "AddUint32 ?pc (word_of_nat (length d + 2)) = Some (?pc + word_of_nat (length d + 2))"
    using assms long unat_of_nat_32 [of "length d + 2"] by (simp only: AddUint32_Some_iff pc) simp
  have last: "?pc \<noteq> word_of_nat (length ?prog) - 1"
    using long by (simp add: word_unat_eq_iff unat_word_ariths unat_of_nat)
  have "ParseOp ?prog ?pc = parsePushdata1 ?prog ?pc OP_PUSHDATA1 (?prog ! unat (?pc + 1))"
    using ParseOp_at [of pre OP_PUSHDATA1 "[n] @ d @ post"] long last
    by (simp add: ParseOp_reads Let_def del: of_nat_add of_nat_Suc)
  also have "\<dots> = parseData ?prog ?pc OP_PUSHDATA1 (word_of_nat (length d + 2)) 2"
    unfolding parsePushdata1_def Let_def len add parseData_def by (simp split: res.split)
  also have "\<dots> = Ret \<lparr>Op = OP_PUSHDATA1, Len = word_of_nat (length d + 2), Data = d\<rparr>"
    using assms long by (intro parseData_at) (simp_all add: unat_of_nat_32 del: of_nat_add of_nat_Suc)
  finally show "ParseOp (pre @ (OP_PUSHDATA1 # word_of_nat (length d) # d) @ post) ?pc =
      Ret \<lparr>Op = OP_PUSHDATA1, Len = word_of_nat (length d + 2), Data = d\<rparr>"
    by (simp add: n_def)
qed (use assms in \<open>simp add: unat_of_nat_32 del: of_nat_add of_nat_Suc\<close>)

lemma word_len_minus:
  "unat c \<le> n \<Longrightarrow> n < 2 ^ 32 \<Longrightarrow> unat (word_of_nat n - c :: uint32) = n - unat c"
  by (subst unat_sub) (simp_all add: word_le_nat_alt unat_of_nat_32)

lemma chunk_pushdata2:
  assumes "length d < 65536"
  shows "parse_chunk (OP_PUSHDATA2 # le_bytes 2 (length d) @ d)
    \<lparr>Op = OP_PUSHDATA2, Len = word_of_nat (length d + 3), Data = d\<rparr>"
proof (rule parse_chunkI)
  fix pre post :: bytes
  let ?prog = "pre @ (OP_PUSHDATA2 # le_bytes 2 (length d) @ d) @ post"
  let ?pc = "word_of_nat (length pre) :: uint32"
  assume long: "length ?prog \<le> 2147483647"
  have pc: "unat ?pc = length pre" using long by (simp add: unat_of_nat_32)
  have n: "le_val (take 2 (drop (unat ?pc + 1) ?prog)) = length d"
    using assms unfolding pc by (simp add: le_val_le_bytes)
  have "unat (word_of_nat (length ?prog) - 3 :: uint32) = length ?prog - 3"
    using long word_len_minus [of 3 "length ?prog"] by simp
  then have last: "\<not> ?pc > word_of_nat (length ?prog) - 3"
    unfolding word_less_nat_alt pc by simp
  have len: "3 + word_of_nat (length d) = (word_of_nat (length d + 3) :: uint32)" by simp
  have "ParseOp ?prog ?pc = parseData ?prog ?pc OP_PUSHDATA2 (word_of_nat (length d + 3)) 3"
    using ParseOp_at [of pre OP_PUSHDATA2 "le_bytes 2 (length d) @ d @ post"] long last n
    by (simp add: ParseOp_reads Let_def len del: of_nat_add of_nat_Suc)
  also have "\<dots> = Ret \<lparr>Op = OP_PUSHDATA2, Len = word_of_nat (length d + 3), Data = d\<rparr>"
    using assms long by (intro parseData_at) (simp_all add: unat_of_nat_32 del: of_nat_add of_nat_Suc)
  finally show "ParseOp ?prog ?pc = Ret \<lparr>Op = OP_PUSHDATA2, Len = word_of_nat (length d + 3), Data = d\<rparr>" .
qed (use assms in \<open>simp add: unat_of_nat_32 del: of_nat_add of_nat_Suc\<close>)

lemma chunk_pushdata4:
  assumes "length d \<le> 2147483647"
  shows "parse_chunk (OP_PUSHDATA4 # le_bytes 4 (length d) @ d)
    \<lparr>Op = OP_PUSHDATA4, Len = word_of_nat (length d + 5), Data = d\<rparr>"
proof (rule parse_chunkI)
  fix pre post :: bytes
  let ?prog = "pre @ (OP_PUSHDATA4 # le_bytes 4 (length d) @ d) @ post"
  let ?pc = "word_of_nat (length pre) :: uint32"
  assume long: "length ?prog \<le> 2147483647"
  have pc: "unat ?pc = length pre" using long by (simp add: unat_of_nat_32)
  have n: "le_val (take 4 (drop (unat ?pc + 1) ?prog)) = length d"
    using assms unfolding pc by (simp add: le_val_le_bytes)
  have "unat (word_of_nat (length ?prog) - 5 :: uint32) = length ?prog - 5"
    using long word_len_minus [of 5 "length ?prog"] by simp
  then have last: "\<not> ?pc > word_of_nat (length ?prog) - 5"
    unfolding word_less_nat_alt pc by simp
  have add: "AddUint32 5 (word_of_nat (length d)) = Some (word_of_nat (length d + 5))"
    using assms unat_of_nat_32 [of "length d"] by (simp add: AddUint32_Some_iff)
  have "ParseOp ?prog ?pc = parseData ?prog ?pc OP_PUSHDATA4 (word_of_nat (length d + 5)) 5"
    using ParseOp_at [of pre OP_PUSHDATA4 "le_bytes 4 (length d) @ d @ post"] long last n
    by (simp add: ParseOp_reads Let_def add del: of_nat_add of_nat_Suc)
  also have "\<dots> = Ret \<lparr>Op = OP_PUSHDATA4, Len = word_of_nat (length d + 5), Data = d\<rparr>"
    using assms long by (intro parseData_at) (simp_all add: unat_of_nat_32 del: of_nat_add of_nat_Suc)
  finally show "ParseOp ?prog ?pc = Ret \<lparr>Op = OP_PUSHDATA4, Len = word_of_nat (length d + 5), Data = d\<rparr>" .
qed (use assms in \<open>simp add: unat_of_nat_32 del: of_nat_add of_nat_Suc\<close>)

text \<open>The instruction that a data push parses to.\<close>

definition pushInst :: "bytes \<Rightarrow> bytes \<Rightarrow> Instruction" where
  "pushInst enc d = \<lparr>Op = hd enc, Len = word_of_nat (length enc), Data = d\<rparr>"

lemma chunk_PushdataBytes:
  assumes "length d \<le> 2147483647"
  shows "parse_chunk (PushdataBytes d) (pushInst (PushdataBytes d) d)"
proof -
  consider "d = []" | "1 \<le> length d" "length d \<le> 75" | "75 < length d" "length d < 256"
    | "256 \<le> length d" "length d < 65536" | "65536 \<le> length d"
    by (cases d) (auto, linarith)
  then show ?thesis
  proof cases
    case 1
    then show ?thesis using chunk_plain [of OP_0]
      by (simp add: PushdataBytes_def pushInst_def plain_op_def)
  next
    case 2
    then show ?thesis using chunk_data [of d] by (auto simp: PushdataBytes_def pushInst_def Let_def)
  next
    case 3
    then show ?thesis using chunk_pushdata1 [of d]
      by (auto simp: PushdataBytes_def pushInst_def Let_def)
  next
    case 4
    then show ?thesis using chunk_pushdata2 [of d]
      by (auto simp: PushdataBytes_def pushInst_def Let_def add.commute)
  next
    case 5
    then show ?thesis using chunk_pushdata4 [OF assms]
      by (auto simp: PushdataBytes_def pushInst_def Let_def add.commute)
  qed
qed

lemma Int64Bytes_small:
  assumes "1 \<le> n" and "n \<le> 16"
  shows "Int64Bytes n = [word_of_int n]"
proof -
  have "AsInt64 [word_of_int n] = Inr n"
    using assms by (simp add: AsInt64_eq unat_eq_nat_uint uint_word_of_int i64_small)
  then have "Int64Bytes n = trimZeros [word_of_int n]" by (rule Int64Bytes_AsInt64)
  moreover have "(word_of_int n :: byte) \<noteq> 0"
    using assms by (simp add: word_eq_iff_unsigned [where 'a = int] uint_word_of_int)
  ultimately show ?thesis by (simp add: trimZeros.simps)
qed

lemma chunk_PushdataInt64: "parse_chunk (PushdataInt64 n) (pushInst (PushdataInt64 n) (Int64Bytes n))"
proof -
  consider "n = 0" | "1 \<le> n" "n \<le> 16" | "n \<noteq> 0" "\<not> (1 \<le> n \<and> n \<le> 16)" by blast
  then show ?thesis
  proof cases
    case 1
    then show ?thesis using chunk_plain [of OP_0]
      by (simp add: PushdataInt64_def pushInst_def plain_op_def Int64Bytes_def)
  next
    case 2
    let ?op = "OP_1 + word_of_int n - 1 :: byte"
    have u: "unat ?op = nat (n + 80)"
      using 2 by (simp add: unat_eq_nat_uint uint_word_ariths uint_word_of_int)
    then have "OP_1 \<le> ?op \<and> ?op \<le> OP_16" using 2 by (simp add: word_le_nat_alt nat_le_iff le_nat_iff)
    then have "parse_chunk [?op] \<lparr>Op = ?op, Len = 1, Data = [?op - OP_1 + 1]\<rparr>"
      by (rule chunk_small_int)
    with 2 show ?thesis by (simp add: PushdataInt64_def pushInst_def Int64Bytes_small)
  next
    case 3
    then show ?thesis using chunk_PushdataBytes [of "Int64Bytes n"] length_Int64Bytes [of n]
      by (auto simp: PushdataInt64_def)
  qed
qed

text \<open>
  C32. The instruction parser stays inside the program: for a program of at most
  \<open>MaxInt32\<close> bytes \<open>ParseOp\<close> and \<open>ParseProgram\<close> return without a panic at every program
  counter; a parsed instruction is non-empty and ends inside the program; and \<open>ParseProgram\<close>
  succeeds exactly with the instructions that tile the program.
\<close>

theorem parser_safe_and_tiling:
  assumes "length prog \<le> 2147483647"
  shows "returns (ParseOp prog pc) \<and> returns (ParseProgram prog)
    \<and> (case ParseOp prog pc of
         Ret inst \<Rightarrow> Op inst = prog ! unat pc \<and> 1 \<le> unat (Len inst)
           \<and> unat pc + unat (Len inst) \<le> length prog \<and> length (Data inst) \<le> unat (Len inst)
       | _ \<Rightarrow> True)
    \<and> (ParseProgram prog = Ret insts \<longleftrightarrow> tiles prog 0 insts)"
  using assms ParseOp_no_panic [OF assms, of pc] returns_parseLoop [OF assms, of 0 "[]"]
    ParseOp_ok [of prog pc] ParseProgram_Ret_iff [OF assms, of insts]
  by (auto simp: ParseProgram_def inst_ok_def split: res.splits)

text \<open>The length of the data of the second program is cut off.\<close>

theorem parser_safe_and_tiling_witness:
  "returns (ParseProgram [0x52, 0x53, 0x93]) \<and> returns (ParseOp [0x52, 0x4d, 1] 1) \<and> returns (ParseOp [0x4c, 5, 1, 2] 0) \<and>
   ParseProgram [0x01, 7] = Ret [\<lparr>Op = 1, Len = 2, Data = [7]\<rparr>]"
proof -
  have "tiles [0x01, 7] 0 [\<lparr>Op = 1, Len = 2, Data = [7]\<rparr>]"
    by code_simp
  then show ?thesis using parser_safe_and_tiling [of "[0x52, 0x53, 0x93]"] parser_safe_and_tiling [of "[0x52, 0x4d, 1]" 1] parser_safe_and_tiling [of "[0x4c, 5, 1, 2]" 0]
      parser_safe_and_tiling [of "[0x01, 7]" 0 "[\<lparr>Op = 1, Len = 2, Data = [7]\<rparr>]"] by simp
qed

text \<open>
  Parsing inverts the push encoders: wherever the encoding of a byte string or of an
  integer stands in a program of at most \<open>MaxInt32\<close> bytes, \<open>ParseOp\<close> reads one instruction
  whose length is that of the encoding and whose data are the byte string, respectively the
  integer's stack representation.
\<close>

lemma pushdata_roundtrip:
  "(length (pre @ PushdataBytes d @ post) \<le> 2147483647 \<longrightarrow>
      ParseOp (pre @ PushdataBytes d @ post) (word_of_nat (length pre)) =
        Ret \<lparr>Op = hd (PushdataBytes d), Len = word_of_nat (length (PushdataBytes d)), Data = d\<rparr>) \<and>
   (length (pre @ PushdataInt64 n @ post) \<le> 2147483647 \<longrightarrow>
      ParseOp (pre @ PushdataInt64 n @ post) (word_of_nat (length pre)) =
        Ret \<lparr>Op = hd (PushdataInt64 n), Len = word_of_nat (length (PushdataInt64 n)),
             Data = Int64Bytes n\<rparr>)"
proof (intro conjI impI)
  assume long: "length (pre @ PushdataBytes d @ post) \<le> 2147483647"
  have "length d \<le> length (PushdataBytes d)" by (auto simp: PushdataBytes_def Let_def)
  with long have "length d \<le> 2147483647" by simp
  then show "ParseOp (pre @ PushdataBytes d @ post) (word_of_nat (length pre)) =
        Ret \<lparr>Op = hd (PushdataBytes d), Len = word_of_nat (length (PushdataBytes d)), Data = d\<rparr>"
    using chunk_PushdataBytes [of d] long by (simp add: parse_chunk_def pushInst_def)
next
  assume "length (pre @ PushdataInt64 n @ post) \<le> 2147483647"
  then show "ParseOp (pre @ PushdataInt64 n @ post) (word_of_nat (length pre)) =
        Ret \<lparr>Op = hd (PushdataInt64 n), Len = word_of_nat (length (PushdataInt64 n)),
             Data = Int64Bytes n\<rparr>"
    using chunk_PushdataInt64 [of n] by (simp add: parse_chunk_def pushInst_def)
qed

theorem pushdata_roundtrip_witness:
  "ParseOp ([0x61] @ PushdataBytes [7, 8] @ [0x69]) 1 = Ret \<lparr>Op = 2, Len = 3, Data = [7, 8]\<rparr>
   \<and> ParseOp ([] @ PushdataInt64 16 @ []) 0 = Ret \<lparr>Op = 0x60, Len = 1, Data = Int64Bytes 16\<rparr>"
  using pushdata_roundtrip [of "[0x61]" "[7, 8]" "[0x69]" 1] pushdata_roundtrip [of "[]" "[]" "[]" 16]
  by (simp add: PushdataBytes_def PushdataInt64_def)

end
