(* ===== verification/VM_Machine.thy ===== *)
theory VM_Machine
  imports VM_Ops
begin

text \<open>
  The virtual machine's state and primitive operations, from \<^verbatim>\<open>protocol/vm/vm.go\<close>. A method
  of \<^verbatim>\<open>*virtualMachine\<close> is a function from the state to an outcome and the state it leaves,
  also when it returns an error: the parent of a failed child machine reads that state. The
  second half is the calculus in which the operations are verified: a weakest precondition
  for successful outcomes, and the accounting invariant \<open>budget\<close> that ties the run limit to
  the size of the stacks.
\<close>

section \<open>State\<close>

record virtualMachine =
  vcontext :: Context
  program :: bytes
  pc :: uint32
  nextPC :: uint32
  runLimit :: int64
  deferredCost :: int64
  expansionReserved :: bool
  vdata :: bytes
  depth :: int
  dataStack :: "bytes list"
  altStack :: "bytes list"

text \<open>The struct literals that create a machine; the fields they leave out have their zero value.\<close>

definition newVM :: "Context \<Rightarrow> bytes \<Rightarrow> bool \<Rightarrow> int64 \<Rightarrow> int \<Rightarrow> bytes list \<Rightarrow> virtualMachine" where
  "newVM ctxt prog expansion limit d stack =
     \<lparr>vcontext = ctxt, program = prog, pc = 0, nextPC = 0, runLimit = limit, deferredCost = 0,
      expansionReserved = expansion, vdata = [], depth = d, dataStack = stack, altStack = []\<rparr>"

type_synonym 'a vmM = "virtualMachine \<Rightarrow> 'a res \<times> virtualMachine"

text \<open>
  The hash functions of the Go libraries and the signature check of \<^verbatim>\<open>crypto/ed25519\<close> are
  parameters of the model.
\<close>

record prims =
  sha256 :: "bytes \<Rightarrow> bytes"
  sha3_256 :: "bytes \<Rightarrow> bytes"
  ed25519_Verify :: "bytes \<Rightarrow> bytes \<Rightarrow> bytes \<Rightarrow> bool"

section \<open>Sequencing\<close>

text \<open>
  \<open>ret\<close> and \<open>throw\<close> are Go's \<^verbatim>\<open>return x, nil\<close> and \<^verbatim>\<open>return err\<close>; \<open>bindM m f\<close> is
  \<^verbatim>\<open>x, err := m; if err != nil { return err }; f(x)\<close>; \<open>withVM\<close> reads the state and
  \<open>setStack\<close> assigns \<^verbatim>\<open>vm.dataStack\<close>.
\<close>

definition ret :: "'a \<Rightarrow> 'a vmM" where
  "ret a = (\<lambda>vm. (Ret a, vm))"

definition throw :: "vm_error \<Rightarrow> 'a vmM" where
  "throw e = (\<lambda>vm. (Err e, vm))"

definition goPanic :: "'a vmM" where
  "goPanic = (\<lambda>vm. (Panic, vm))"

definition bindM :: "'a vmM \<Rightarrow> ('a \<Rightarrow> 'b vmM) \<Rightarrow> 'b vmM" where
  "bindM m f = (\<lambda>vm. case m vm of
      (Ret a, vm') \<Rightarrow> f a vm'
    | (Err e, vm') \<Rightarrow> (Err e, vm')
    | (Panic, vm') \<Rightarrow> (Panic, vm')
    | (OutOfFuel, vm') \<Rightarrow> (OutOfFuel, vm'))"

definition withVM :: "(virtualMachine \<Rightarrow> 'a vmM) \<Rightarrow> 'a vmM" where
  "withVM f = (\<lambda>vm. f vm vm)"

definition setStack :: "bytes list \<Rightarrow> unit vmM" where
  "setStack st = (\<lambda>vm. (Ret (), vm\<lparr>dataStack := st\<rparr>))"

section \<open>Primitive operations\<close>

definition initialRunLimit :: int64 where
  "initialRunLimit = 10000"

definition applyCost :: "int64 \<Rightarrow> unit vmM" where
  "applyCost n = (\<lambda>vm.
     if n > runLimit vm then (Err ErrRunLimitExceeded, vm)
     else (Ret (), vm\<lparr>runLimit := i64 (runLimit vm - n)\<rparr>))"

definition deferCost :: "int64 \<Rightarrow> unit vmM" where
  "deferCost n = (\<lambda>vm. (Ret (), vm\<lparr>deferredCost := i64 (deferredCost vm + n)\<rparr>))"

definition push :: "bytes \<Rightarrow> bool \<Rightarrow> unit vmM" where
  "push d deferred =
     (let cost = i64 (8 + i64 (int (length d))) in
      bindM (if deferred then deferCost cost else applyCost cost)
        (\<lambda>_. withVM (\<lambda>vm. setStack (dataStack vm @ [d]))))"

definition pushBool :: "bool \<Rightarrow> bool \<Rightarrow> unit vmM" where
  "pushBool b deferred = push (BoolBytes b) deferred"

definition pushInt64 :: "int64 \<Rightarrow> bool \<Rightarrow> unit vmM" where
  "pushInt64 n deferred = push (Int64Bytes n) deferred"

definition pop :: "bool \<Rightarrow> bytes vmM" where
  "pop deferred = withVM (\<lambda>vm.
     if dataStack vm = [] then throw ErrDataStackUnderflow
     else
       let res = last (dataStack vm); cost = i64 (8 + i64 (int (length res))) in
       bindM (setStack (butlast (dataStack vm))) (\<lambda>_.
       bindM (if deferred then deferCost (i64 (- cost))
              else (\<lambda>vm. (Ret (), vm\<lparr>runLimit := i64 (runLimit vm + cost)\<rparr>))) (\<lambda>_.
       ret res)))"

definition popInt64 :: "bool \<Rightarrow> int64 vmM" where
  "popInt64 deferred = bindM (pop deferred) (\<lambda>b.
     case AsInt64 b of Inl e \<Rightarrow> throw e | Inr n \<Rightarrow> ret n)"

definition top :: "bytes vmM" where
  "top = withVM (\<lambda>vm.
     if dataStack vm = [] then throw ErrDataStackUnderflow else ret (last (dataStack vm)))"

definition falseResult :: "virtualMachine \<Rightarrow> bool" where
  "falseResult vm \<longleftrightarrow> dataStack vm = [] \<or> \<not> AsBool (last (dataStack vm))"

definition stackCost :: "bytes list \<Rightarrow> int64" where
  "stackCost stack =
     foldl (\<lambda>result item. i64 (result + int (length item))) (i64 (8 * int (length stack))) stack"

lemmas monad_defs = ret_def throw_def goPanic_def bindM_def withVM_def setStack_def

lemmas prim_defs [machine_defs] = monad_defs applyCost_def deferCost_def push_def pushBool_def
  pushInt64_def pop_def popInt64_def top_def

section \<open>Weakest preconditions for success\<close>

definition wp :: "'a vmM \<Rightarrow> ('a \<Rightarrow> virtualMachine \<Rightarrow> bool) \<Rightarrow> virtualMachine \<Rightarrow> bool" where
  "wp m Q vm = (case m vm of (Ret a, vm') \<Rightarrow> Q a vm' | _ \<Rightarrow> True)"

lemma wpI: "(\<And>a vm'. m vm = (Ret a, vm') \<Longrightarrow> Q a vm') \<Longrightarrow> wp m Q vm"
  by (auto simp: wp_def split: res.splits prod.splits)

lemma wpD: "wp m Q vm \<Longrightarrow> m vm = (Ret a, vm') \<Longrightarrow> Q a vm'"
  by (simp add: wp_def)

lemma wp_bind [simp]: "wp (bindM m f) Q vm = wp m (\<lambda>a. wp (f a) Q) vm"
  by (auto simp: wp_def bindM_def split: res.splits prod.splits)

lemma wp_ret [simp]: "wp (ret a) Q vm = Q a vm"
  by (simp add: wp_def ret_def)

lemma wp_throw [simp]: "wp (throw e) Q vm"
  by (simp add: wp_def throw_def)

lemma wp_panic [simp]: "wp goPanic Q vm"
  by (simp add: wp_def goPanic_def)

lemma wp_withVM [simp]: "wp (withVM f) Q vm = wp (f vm) Q vm"
  by (simp add: wp_def withVM_def)

lemma wp_setStack [simp]: "wp (setStack st) Q vm = Q () (vm\<lparr>dataStack := st\<rparr>)"
  by (simp add: wp_def setStack_def)

lemma wp_if: "(c \<Longrightarrow> wp a Q vm) \<Longrightarrow> (\<not> c \<Longrightarrow> wp b Q vm) \<Longrightarrow> wp (if c then a else b) Q vm"
  by simp

lemma wp_mono: "wp m Q vm \<Longrightarrow> (\<And>a vm'. Q a vm' \<Longrightarrow> R a vm') \<Longrightarrow> wp m R vm"
  by (auto simp: wp_def split: res.splits prod.splits)

section \<open>The accounting invariant\<close>

text \<open>
  \<open>itemsCost\<close> is the memory charge of a stack. The \<open>settled\<close> run limit of a state is the run
  limit plus the charge for everything on the stacks, less the costs deferred to the end of
  the instruction: what the run limit would be after the deferred costs are applied and all
  items popped.
\<close>

definition itemCost :: "bytes \<Rightarrow> int" where
  "itemCost d = 8 + int (length d)"

definition itemsCost :: "bytes list \<Rightarrow> int" where
  "itemsCost st = sum_list (map itemCost st)"

definition settled :: "virtualMachine \<Rightarrow> int" where
  "settled vm = runLimit vm + itemsCost (dataStack vm) + itemsCost (altStack vm) - deferredCost vm"

type_synonym frame = "Context \<times> bytes \<times> bool \<times> int"

definition frame_of :: "virtualMachine \<Rightarrow> frame" where
  "frame_of vm = (vcontext vm, program vm, expansionReserved vm, depth vm)"

text \<open>The byte strings of a context that an operation pushes are of realistic size.\<close>

definition ctx_small :: "Context \<Rightarrow> bool" where
  "ctx_small c \<longleftrightarrow> length (Code c) \<le> 2 ^ 60 \<and> length (EntryID c) \<le> 2 ^ 60 \<and>
     list_all (\<lambda>f. case f c of None \<Rightarrow> True | Some d \<Rightarrow> length d \<le> 2 ^ 60)
       [AssetID, EntryData, TxData, AnchorID, SpentOutputID, NextConsensusProgram, TxSigHash, BlockHash]"

text \<open>
  \<open>budget S q d k vm\<close>: the machine has the static part \<open>S\<close>, a run limit that is not negative,
  a settled run limit of \<open>q\<close>, a deferred cost of at most \<open>d\<close> and at most \<open>k\<close> items on its data
  stack. Together with the bounds on \<open>q\<close> and \<open>d\<close> this excludes any \<open>int64\<close> overflow.
\<close>

definition budget :: "frame \<Rightarrow> int \<Rightarrow> int \<Rightarrow> nat \<Rightarrow> virtualMachine \<Rightarrow> bool" where
  "budget S q d k vm \<longleftrightarrow> frame_of vm = S \<and> ctx_small (fst S) \<and> 0 \<le> runLimit vm \<and> settled vm = q \<and>
     q \<le> 2 ^ 58 \<and> deferredCost vm \<le> d \<and> d \<le> 2 ^ 62 \<and> length (dataStack vm) \<le> k \<and>
     length (vdata vm) \<le> 2 ^ 60"

lemma itemCost_pos: "8 \<le> itemCost d"
  by (simp add: itemCost_def)

lemma itemsCost_Nil [simp]: "itemsCost [] = 0"
  by (simp add: itemsCost_def)

lemma itemsCost_Cons [simp]: "itemsCost (x # xs) = itemCost x + itemsCost xs"
  by (simp add: itemsCost_def)

lemma itemsCost_append [simp]: "itemsCost (xs @ ys) = itemsCost xs + itemsCost ys"
  by (simp add: itemsCost_def)

lemma itemsCost_nonneg: "0 \<le> itemsCost st"
  by (induction st) (simp_all add: itemCost_def)

lemma length_le_itemsCost: "8 * int (length st) \<le> itemsCost st"
  by (induction st) (simp_all add: itemCost_def)

lemma itemsCost_split: "i < length st \<Longrightarrow>
    itemsCost (take i st) + itemCost (st ! i) + itemsCost (drop (Suc i) st) = itemsCost st"
  by (subst (4) id_take_nth_drop [of i st]) simp_all

lemma budget_bounds:
  assumes "budget S q d k vm"
  shows "0 \<le> runLimit vm" and "- q \<le> deferredCost vm" and "deferredCost vm \<le> 2 ^ 62"
    and "runLimit vm + itemsCost (dataStack vm) + itemsCost (altStack vm) \<le> q + d"
    and "q \<le> 2 ^ 58"
  using assms itemsCost_nonneg [of "dataStack vm"] itemsCost_nonneg [of "altStack vm"]
  by (auto simp: budget_def settled_def)

section \<open>Accounting rules\<close>

text \<open>
  The rules are applied by elimination: each consumes the \<open>budget\<close> fact about the current
  state and passes one about the next state on.
\<close>

lemma budget_length: "budget S q d k vm \<Longrightarrow> x \<in> set (dataStack vm) \<Longrightarrow> int (length x) \<le> q + d"
  using budget_bounds(1,4) [of S q d k vm] itemsCost_nonneg [of "altStack vm"]
proof -
  assume b: "budget S q d k vm" and x: "x \<in> set (dataStack vm)"
  have "itemCost x \<le> itemsCost (dataStack vm)"
    using x split_list [of x "dataStack vm"] by (auto simp: itemsCost_nonneg)
  with budget_bounds(1,4) [OF b] itemsCost_nonneg [of "altStack vm"] show ?thesis
    by (simp add: itemCost_def)
qed

lemma wp_applyCost [cost_rules]:
  assumes "budget S q d k vm" and "0 \<le> n" and "\<And>vm'. budget S (q - n) d k vm' \<Longrightarrow> Q () vm'"
  shows "wp (applyCost n) Q vm"
proof (rule wpI)
  fix a vm' assume "applyCost n vm = (Ret a, vm')"
  then have n: "n \<le> runLimit vm" and vm': "vm' = vm\<lparr>runLimit := i64 (runLimit vm - n)\<rparr>"
    by (auto simp: applyCost_def split: if_splits)
  have "i64 (runLimit vm - n) = runLimit vm - n"
    using budget_bounds [OF assms(1)] assms(1,2) n itemsCost_nonneg [of "dataStack vm"]
      itemsCost_nonneg [of "altStack vm"] by (intro i64_small) (auto simp: budget_def)
  with assms n have "budget S (q - n) d k vm'"
    by (auto simp: vm' budget_def settled_def frame_of_def)
  with assms(3) show "Q a vm'" by simp
qed

lemma wp_deferCost [cost_rules]:
  assumes "budget S q d k vm" and "n \<le> 0" and "q - n \<le> 2 ^ 58"
    and "\<And>vm'. budget S (q - n) d k vm' \<Longrightarrow> Q () vm'"
  shows "wp (deferCost n) Q vm"
proof (rule wpI)
  fix a vm' assume "deferCost n vm = (Ret a, vm')"
  then have vm': "vm' = vm\<lparr>deferredCost := i64 (deferredCost vm + n)\<rparr>"
    by (auto simp: deferCost_def)
  have "i64 (deferredCost vm + n) = deferredCost vm + n"
    using budget_bounds [OF assms(1)] assms(1-3) by (intro i64_small) (auto simp: budget_def)
  with assms have "budget S (q - n) d k vm'"
    by (auto simp: vm' budget_def settled_def frame_of_def)
  with assms(4) show "Q a vm'" by simp
qed

lemma i64_itemCost: "int (length x) \<le> 2 ^ 62 \<Longrightarrow> i64 (8 + i64 (int (length x))) = itemCost x"
  by (simp add: itemCost_def i64_small)

lemma wp_pop [cost_rules]:
  assumes "budget S q d k vm" and "d \<le> 2 ^ 61"
    and "\<And>x k' vm'. budget S q d k' vm' \<Longrightarrow> k = Suc k' \<Longrightarrow> int (length x) \<le> q + d \<Longrightarrow> Q x vm'"
  shows "wp (pop df) Q vm"
proof (rule wpI)
  fix x vm' assume eq: "pop df vm = (Ret x, vm')"
  then have ne: "dataStack vm \<noteq> []" by (auto simp: pop_def monad_defs split: if_splits)
  then obtain st where st: "dataStack vm = st @ [x]"
    using eq by (cases "dataStack vm" rule: rev_cases)
      (auto simp: pop_def monad_defs deferCost_def Let_def split: if_splits)
  have len: "int (length x) \<le> q + d" using budget_length [OF assms(1)] by (simp add: st)
  note bnd = budget_bounds [OF assms(1), unfolded st] itemsCost_nonneg [of st]
    itemsCost_nonneg [of "altStack vm"] itemCost_pos [of x]
  have c: "i64 (8 + i64 (int (length x))) = itemCost x"
    using len bnd assms(2) by (intro i64_itemCost) simp
  have "i64 (deferredCost vm + i64 (- itemCost x)) = deferredCost vm - itemCost x"
    "i64 (runLimit vm + itemCost x) = runLimit vm + itemCost x"
    using bnd assms(1,2) by (auto simp: i64_small budget_def settled_def st)
  then have "budget S q d (k - 1) vm'" "k = Suc (k - 1)"
    using eq assms(1) bnd by (auto simp: pop_def monad_defs deferCost_def c st budget_def settled_def
        frame_of_def Let_def split: if_splits)
  with assms(3) len show "Q x vm'" by blast
qed

lemma wp_push_now [cost_rules]:
  assumes "budget S q d k vm" and "int (length x) \<le> 2 ^ 62"
    and "\<And>vm'. budget S q d (Suc k) vm' \<Longrightarrow> Q () vm'"
  shows "wp (push x False) Q vm"
proof -
  have c: "i64 (8 + i64 (int (length x))) = itemCost x" using assms(2) by (rule i64_itemCost)
  show ?thesis unfolding push_def Let_def c
  proof (simp only: if_False wp_bind, rule wp_applyCost [OF assms(1)])
    show "0 \<le> itemCost x" using itemCost_pos [of x] by simp
    fix vm' assume "budget S (q - itemCost x) d k vm'"
    then have "budget S q d (Suc k) (vm'\<lparr>dataStack := dataStack vm' @ [x]\<rparr>)"
      using assms(1) by (simp add: budget_def settled_def frame_of_def)
    then show "wp (withVM (\<lambda>vm. setStack (dataStack vm @ [x]))) Q vm'" by (simp add: assms(3))
  qed
qed

lemma wp_push_deferred [cost_rules]:
  assumes "budget S q 0 k vm" and "int (length x) \<le> 2 ^ 61"
    and "\<And>vm'. budget S q (2 ^ 62) (Suc k) vm' \<Longrightarrow> Q () vm'"
  shows "wp (push x True) Q vm"
proof -
  have c: "i64 (8 + i64 (int (length x))) = itemCost x" using assms(2) by (intro i64_itemCost) simp
  have "i64 (deferredCost vm + itemCost x) = deferredCost vm + itemCost x"
    using budget_bounds [OF assms(1)] assms(1,2)
    by (intro i64_small) (auto simp: budget_def itemCost_def)
  then have "budget S q (2 ^ 62) (Suc k)
      (vm\<lparr>deferredCost := i64 (deferredCost vm + itemCost x), dataStack := dataStack vm @ [x]\<rparr>)"
    using assms(1,2) by (auto simp: budget_def settled_def frame_of_def itemCost_def)
  then show ?thesis unfolding push_def Let_def c
    by (simp add: wp_def monad_defs deferCost_def assms(3))
qed

lemma wp_pushBool [cost_rules]:
  assumes "budget S q 0 k vm" and "\<And>vm'. budget S q (2 ^ 62) (Suc k) vm' \<Longrightarrow> Q () vm'"
  shows "wp (pushBool b True) Q vm"
  unfolding pushBool_def using assms(1) _ assms(2)
  by (rule wp_push_deferred) (use length_BoolBytes [of b] in simp)

lemma wp_pushInt64 [cost_rules]:
  assumes "budget S q 0 k vm" and "\<And>vm'. budget S q (2 ^ 62) (Suc k) vm' \<Longrightarrow> Q () vm'"
  shows "wp (pushInt64 n True) Q vm"
  unfolding pushInt64_def using assms(1) _ assms(2)
  by (rule wp_push_deferred) (use length_Int64Bytes [of n] in simp)

lemma wp_pushBool_now [cost_rules]:
  assumes "budget S q d k vm" and "\<And>vm'. budget S q d (Suc k) vm' \<Longrightarrow> Q () vm'"
  shows "wp (pushBool b False) Q vm"
  unfolding pushBool_def using assms(1) _ assms(2)
  by (rule wp_push_now) (use length_BoolBytes [of b] in simp)

lemma wp_pushInt64_now [cost_rules]:
  assumes "budget S q d k vm" and "\<And>vm'. budget S q d (Suc k) vm' \<Longrightarrow> Q () vm'"
  shows "wp (pushInt64 n False) Q vm"
  unfolding pushInt64_def using assms(1) _ assms(2)
  by (rule wp_push_now) (use length_Int64Bytes [of n] in simp)

lemma wp_popInt64 [cost_rules]:
  assumes "budget S q d k vm" and "d \<le> 2 ^ 61"
    and "\<And>n k' vm'. budget S q d k' vm' \<Longrightarrow> k = Suc k' \<Longrightarrow> in_i64 n \<Longrightarrow> Q n vm'"
  shows "wp (popInt64 df) Q vm"
  unfolding popInt64_def wp_bind
  by (rule wp_pop [OF assms(1,2)]) (auto split: sum.split dest: AsInt64_in intro: assms(3))

lemma wp_top [cost_rules]:
  assumes "budget S q d k vm"
    and "budget S q d k vm \<Longrightarrow> dataStack vm \<noteq> [] \<Longrightarrow> Q (last (dataStack vm)) vm"
  shows "wp top Q vm"
  using assms by (simp add: top_def)

lemma wp_option:
  "(\<And>r. x = Some r \<Longrightarrow> wp (f r) Q vm) \<Longrightarrow> (x = None \<Longrightarrow> wp g Q vm) \<Longrightarrow>
    wp (case x of None \<Rightarrow> g | Some r \<Rightarrow> f r) Q vm"
  by (cases x) simp_all

text \<open>
  Replacing the data stack: by one of the same cost and size; by itself without its last item;
  by itself with an item appended.
\<close>

lemma budget_setStack:
  "budget S q d k vm \<Longrightarrow> itemsCost st = itemsCost (dataStack vm) \<Longrightarrow>
    length st = length (dataStack vm) \<Longrightarrow> budget S q d k (vm\<lparr>dataStack := st\<rparr>)"
  by (simp add: budget_def settled_def frame_of_def)

lemma budget_dropLast:
  assumes "budget S q d k vm" and "dataStack vm \<noteq> []"
  shows "budget S (q - itemCost (last (dataStack vm))) d (k - 1)
    (vm\<lparr>dataStack := butlast (dataStack vm)\<rparr>)" and "1 \<le> k"
proof -
  obtain st x where st: "dataStack vm = st @ [x]" using split_last [OF assms(2)] by blast
  have "settled (vm\<lparr>dataStack := st\<rparr>) = settled vm - itemCost x" by (simp add: settled_def st)
  with assms(1) itemCost_pos [of x]
  show "budget S (q - itemCost (last (dataStack vm))) d (k - 1) (vm\<lparr>dataStack := butlast (dataStack vm)\<rparr>)"
    by (auto simp: budget_def frame_of_def st)
  show "1 \<le> k" using assms(1) by (simp add: budget_def st)
qed

lemma budget_append:
  "budget S q d k vm \<Longrightarrow> q + itemCost x \<le> 2 ^ 58 \<Longrightarrow>
    budget S (q + itemCost x) d (Suc k) (vm\<lparr>dataStack := dataStack vm @ [x]\<rparr>)"
  by (simp add: budget_def settled_def frame_of_def)

section \<open>What an operation must satisfy\<close>

text \<open>
  A successful operation keeps the accounting and strictly decreases twice the settled run limit
  plus the number of stack items. The items have to count: \<open>CHECKMULTISIG\<close> on no keys is free.
\<close>

definition spent :: "frame \<Rightarrow> int \<Rightarrow> nat \<Rightarrow> virtualMachine \<Rightarrow> bool" where
  "spent S q k vm \<longleftrightarrow>
     (\<exists>q' k'. budget S q' (2 ^ 62) k' vm \<and> q' \<le> q \<and> 2 * q' + int k' < 2 * q + int k)"

definition cost_ok :: "unit vmM \<Rightarrow> bool" where
  "cost_ok m \<longleftrightarrow> (\<forall>S q k vm. budget S q 0 k vm \<longrightarrow> wp m (\<lambda>_. spent S q k) vm)"

lemma cost_okI: "(\<And>S q k vm. budget S q 0 k vm \<Longrightarrow> wp m (\<lambda>_. spent S q k) vm) \<Longrightarrow> cost_ok m"
  by (simp add: cost_ok_def)

lemma budget_weaken: "budget S q d k vm \<Longrightarrow> d \<le> d' \<Longrightarrow> d' \<le> 2 ^ 62 \<Longrightarrow> k \<le> k' \<Longrightarrow> budget S q d' k' vm"
  by (auto simp: budget_def)

lemma spentI [cost_rules]:
  assumes "budget S q' d k' vm" and "q' \<le> q" and "2 * q' + int k' < 2 * q + int k"
  shows "spent S q k vm"
proof -
  have "d \<le> 2 ^ 62" using assms(1) by (simp add: budget_def)
  with assms(1) have "budget S q' (2 ^ 62) k' vm" by (rule budget_weaken) simp_all
  with assms(2,3) show ?thesis unfolding spent_def by blast
qed

lemma cost_ok_applyCost:
  assumes "0 \<le> c" and "\<And>S q k vm. budget S (q - c) 0 k vm \<Longrightarrow> wp m (\<lambda>_. spent S q k) vm"
  shows "cost_ok (bindM (applyCost c) (\<lambda>_. m))"
  by (rule cost_okI, unfold wp_bind, erule wp_applyCost [OF _ assms(1)], erule assms(2))

lemma budget_q: "budget S q d k vm \<Longrightarrow> q \<le> 2 ^ 58"
  by (simp add: budget_def)

text \<open>A cost that is charged during the instruction and given back at its end.\<close>

lemma wp_refund [cost_rules]:
  assumes "budget S (q - n) d k vm" and "0 \<le> n" and "n \<le> 9223372036854775807" and "q \<le> 2 ^ 58"
    and "\<And>vm'. budget S q d k vm' \<Longrightarrow> Q () vm'"
  shows "wp (deferCost (i64 (- n))) Q vm"
proof -
  have "i64 (- n) = - n" using assms(2,3) by (intro i64_small) simp_all
  then show ?thesis using assms by (auto intro: wp_deferCost [OF assms(1)])
qed

lemma cost_okI':
  "(\<And>S q k vm. budget S q 0 k vm \<Longrightarrow> q \<le> 2 ^ 58 \<Longrightarrow> wp m (\<lambda>_. spent S q k) vm) \<Longrightarrow> cost_ok m"
  by (rule cost_okI) (metis budget_q)

lemma wp_bindI: "wp m (\<lambda>a. wp (f a) Q) vm \<Longrightarrow> wp (bindM m f) Q vm"
  by simp

lemma wp_withVMI: "wp (f vm) Q vm \<Longrightarrow> wp (withVM f) Q vm"
  by simp

lemma wp_LetI: "wp (f x) Q vm \<Longrightarrow> wp (let y = x in f y) Q vm"
  by simp

text \<open>The context's strings are small.\<close>

lemma budget_field:
  assumes "budget S q d k vm"
    and "f \<in> {AssetID, EntryData, TxData, AnchorID, SpentOutputID, NextConsensusProgram, TxSigHash, BlockHash}"
    and "f (vcontext vm) = Some x"
  shows "int (length x) \<le> 2 ^ 60"
proof -
  have "ctx_small (vcontext vm)" using assms(1) by (auto simp: budget_def frame_of_def)
  then have "length x \<le> 2 ^ 60" using assms(2,3) by (auto simp: ctx_small_def)
  then show ?thesis by simp
qed

lemma budget_code:
  "budget S q d k vm \<Longrightarrow> int (length (Code (vcontext vm))) \<le> 2 ^ 60 \<and> int (length (EntryID (vcontext vm))) \<le> 2 ^ 60"
  by (auto simp: budget_def frame_of_def ctx_small_def)

section \<open>The primitives as equations\<close>

text \<open>The primitives as conditional equations, free of wrap-around.\<close>

lemma applyCost_if: "\<bar>runLimit vm\<bar> \<le> 2 ^ 60 \<Longrightarrow> 0 \<le> c \<Longrightarrow> c \<le> 2 ^ 60 \<Longrightarrow>
    applyCost c vm = (if runLimit vm < c then (Err ErrRunLimitExceeded, vm)
      else (Ret (), vm\<lparr>runLimit := runLimit vm - c\<rparr>))"
  by (simp add: applyCost_def i64_small)

lemma push_if:
  assumes "\<bar>runLimit vm\<bar> \<le> 2 ^ 60" and "itemCost x \<le> 2 ^ 60"
  shows "push x False vm = (if runLimit vm < itemCost x then (Err ErrRunLimitExceeded, vm)
      else (Ret (), vm\<lparr>runLimit := runLimit vm - itemCost x, dataStack := dataStack vm @ [x]\<rparr>))"
proof -
  have "i64 (8 + i64 (int (length x))) = itemCost x"
    using assms(2) by (intro i64_itemCost) (simp add: itemCost_def)
  then show ?thesis using assms itemCost_pos [of x]
    by (simp add: push_def bindM_def withVM_def setStack_def applyCost_if)
qed

lemma pop_eq:
  assumes "dataStack vm = r @ [x]" and "\<bar>runLimit vm\<bar> \<le> 2 ^ 60" and "itemCost x \<le> 2 ^ 60"
  shows "pop False vm = (Ret x, vm\<lparr>dataStack := r, runLimit := runLimit vm + itemCost x\<rparr>)"
proof -
  have "i64 (8 + i64 (int (length x))) = itemCost x"
    using assms(3) by (intro i64_itemCost) (simp add: itemCost_def)
  then show ?thesis using assms itemCost_pos [of x] by (simp add: pop_def monad_defs i64_small)
qed

lemma pop_empty: "dataStack vm = [] \<Longrightarrow> pop df vm = (Err ErrDataStackUnderflow, vm)"
  by (simp add: pop_def monad_defs)

lemma pop_deferred_eq:
  assumes "dataStack vm = r @ [x]" and "\<bar>deferredCost vm\<bar> \<le> 2 ^ 60" and "itemCost x \<le> 2 ^ 60"
  shows "pop True vm = (Ret x, vm\<lparr>dataStack := r, deferredCost := deferredCost vm - itemCost x\<rparr>)"
proof -
  have "i64 (8 + i64 (int (length x))) = itemCost x"
    using assms(3) by (intro i64_itemCost) (simp add: itemCost_def)
  then show ?thesis using assms itemCost_pos [of x]
    by (simp add: pop_def monad_defs i64_small deferCost_def)
qed

lemma push_deferred_eq:
  assumes "\<bar>deferredCost vm\<bar> \<le> 2 ^ 60" and "itemCost x \<le> 2 ^ 60"
  shows "push x True vm =
    (Ret (), vm\<lparr>deferredCost := deferredCost vm + itemCost x, dataStack := dataStack vm @ [x]\<rparr>)"
proof -
  have "i64 (8 + i64 (int (length x))) = itemCost x"
    using assms(2) by (intro i64_itemCost) (simp add: itemCost_def)
  then show ?thesis using assms itemCost_pos [of x]
    by (simp add: push_def monad_defs i64_small deferCost_def)
qed

lemma popInt64_deferred_eq:
  assumes "dataStack vm = r @ [x]" and "\<bar>deferredCost vm\<bar> \<le> 2 ^ 60" and "AsInt64 x = Inr n"
  shows "popInt64 True vm = (Ret n, vm\<lparr>dataStack := r, deferredCost := deferredCost vm - itemCost x\<rparr>)"
proof -
  have "length x \<le> 8" using assms(3) by (auto simp: AsInt64_def split: if_splits)
  then show ?thesis using assms
    by (simp add: popInt64_def bindM_def pop_deferred_eq itemCost_def ret_def)
qed

lemma pushInt64_deferred_eq:
  assumes "\<bar>deferredCost vm\<bar> \<le> 2 ^ 60"
  shows "pushInt64 n True vm = (Ret (), vm\<lparr>deferredCost := deferredCost vm + itemCost (Int64Bytes n),
    dataStack := dataStack vm @ [Int64Bytes n]\<rparr>)"
  using assms length_Int64Bytes [of n] by (simp add: pushInt64_def push_deferred_eq itemCost_def)

lemma BoolBytes_Int64Bytes: "BoolBytes b = Int64Bytes (of_bool b)"
  by (cases b) (simp_all add: BoolBytes_def Int64Bytes_def trueBytes_def, code_simp)

lemma pushBool_as_int: "pushBool b True = pushInt64 (of_bool b) True"
  by (simp add: pushBool_def pushInt64_def BoolBytes_Int64Bytes)

end
