(* ===== verification/VM_Stack.thy ===== *)
theory VM_Stack
  imports VM_Machine
begin

text \<open>
  The stack operations of \<^verbatim>\<open>protocol/vm/stack.go\<close> and the pushing operations of
  \<^verbatim>\<open>protocol/vm/pushdata.go\<close>, each with its accounting lemma, and the theorem that they
  rearrange the data stack as documented.
\<close>

section \<open>Pushing operations\<close>

definition opFalse :: "unit vmM" where
  "opFalse = bindM (applyCost 1) (\<lambda>_. pushBool False False)"

definition opPushdata :: "unit vmM" where
  "opPushdata = bindM (applyCost 1) (\<lambda>_. withVM (\<lambda>vm. push (vdata vm) False))"

definition op1Negate :: "unit vmM" where
  "op1Negate = bindM (applyCost 1) (\<lambda>_. pushInt64 (- 1) False)"

definition opNop :: "unit vmM" where
  "opNop = applyCost 1"

section \<open>Stack operations\<close>

definition setStacks :: "bytes list \<Rightarrow> bytes list \<Rightarrow> unit vmM" where
  "setStacks dst ast = (\<lambda>vm. (Ret (), vm\<lparr>dataStack := dst, altStack := ast\<rparr>))"

definition opToAltStack :: "unit vmM" where
  "opToAltStack = bindM (applyCost 2) (\<lambda>_. withVM (\<lambda>vm.
     if dataStack vm = [] then throw ErrDataStackUnderflow
     else setStacks (butlast (dataStack vm)) (altStack vm @ [last (dataStack vm)])))"

definition opFromAltStack :: "unit vmM" where
  "opFromAltStack = bindM (applyCost 2) (\<lambda>_. withVM (\<lambda>vm.
     if altStack vm = [] then throw ErrAltStackUnderflow
     else setStacks (dataStack vm @ [last (altStack vm)]) (butlast (altStack vm))))"

definition op2Drop :: "unit vmM" where
  "op2Drop = bindM (applyCost 2) (\<lambda>_. bindM (pop False) (\<lambda>_. bindM (pop False) (\<lambda>_. ret ())))"

text \<open>The loop of \<open>nDup\<close>, with \<open>i\<close> iterations to go.\<close>

primrec nDupLoop :: "nat \<Rightarrow> nat \<Rightarrow> unit vmM" where
  "nDupLoop n 0 = ret ()"
| "nDupLoop n (Suc i) = bindM
     (withVM (\<lambda>vm. push (dataStack vm ! (length (dataStack vm) - n)) False)) (\<lambda>_. nDupLoop n i)"

definition nDup :: "nat \<Rightarrow> unit vmM" where
  "nDup n = bindM (applyCost (int n)) (\<lambda>_. withVM (\<lambda>vm.
     if length (dataStack vm) < n then throw ErrDataStackUnderflow else nDupLoop n n))"

definition op2Dup :: "unit vmM" where "op2Dup = nDup 2"
definition op3Dup :: "unit vmM" where "op3Dup = nDup 3"
definition opDup :: "unit vmM" where "opDup = nDup 1"

primrec overLoop :: "nat \<Rightarrow> unit vmM" where
  "overLoop 0 = ret ()"
| "overLoop (Suc i) = bindM
     (withVM (\<lambda>vm. push (dataStack vm ! (length (dataStack vm) - 4)) False)) (\<lambda>_. overLoop i)"

definition op2Over :: "unit vmM" where
  "op2Over = bindM (applyCost 2) (\<lambda>_. withVM (\<lambda>vm.
     if length (dataStack vm) < 4 then throw ErrDataStackUnderflow else overLoop 2))"

definition op2Rot :: "unit vmM" where
  "op2Rot = bindM (applyCost 2) (\<lambda>_. withVM (\<lambda>vm.
     if length (dataStack vm) < 6 then throw ErrDataStackUnderflow
     else let st = dataStack vm; l = length st in
       setStack (take (l - 6) st @ drop (l - 4) st @ [st ! (l - 6)] @ [st ! (l - 5)])))"

definition op2Swap :: "unit vmM" where
  "op2Swap = bindM (applyCost 2) (\<lambda>_. withVM (\<lambda>vm.
     if length (dataStack vm) < 4 then throw ErrDataStackUnderflow
     else let st = dataStack vm; l = length st in
       setStack (take (l - 4) st @ drop (l - 2) st @ [st ! (l - 4)] @ [st ! (l - 3)])))"

definition opIfDup :: "unit vmM" where
  "opIfDup = bindM (applyCost 1) (\<lambda>_. bindM top (\<lambda>item.
     if AsBool item then push item False else ret ()))"

definition opDepth :: "unit vmM" where
  "opDepth = bindM (applyCost 1) (\<lambda>_. withVM (\<lambda>vm. pushInt64 (int (length (dataStack vm))) False))"

definition opDrop :: "unit vmM" where
  "opDrop = bindM (applyCost 1) (\<lambda>_. bindM (pop False) (\<lambda>_. ret ()))"

definition opNip :: "unit vmM" where
  "opNip = bindM (applyCost 1) (\<lambda>_. bindM top (\<lambda>t.
     bindM (withVM (\<lambda>vm. setStack (butlast (dataStack vm)))) (\<lambda>_.
     bindM (pop False) (\<lambda>_.
     withVM (\<lambda>vm. setStack (dataStack vm @ [t]))))))"

definition opOver :: "unit vmM" where
  "opOver = bindM (applyCost 1) (\<lambda>_. withVM (\<lambda>vm.
     if length (dataStack vm) < 2 then throw ErrDataStackUnderflow
     else push (dataStack vm ! (length (dataStack vm) - 2)) False))"

definition opPick :: "unit vmM" where
  "opPick = bindM (applyCost 2) (\<lambda>_. bindM (popInt64 False) (\<lambda>n.
     if n < 0 then throw ErrBadValue
     else (case AddInt64 n 1 of
             None \<Rightarrow> throw ErrBadValue
           | Some off \<Rightarrow> withVM (\<lambda>vm.
               if int (length (dataStack vm)) < off then throw ErrDataStackUnderflow
               else push (dataStack vm ! nat (int (length (dataStack vm)) - off)) False))))"

definition rot :: "int64 \<Rightarrow> unit vmM" where
  "rot n =
     (if n < 1 then throw ErrBadValue
      else withVM (\<lambda>vm.
        if int (length (dataStack vm)) < n then throw ErrDataStackUnderflow
        else let st = dataStack vm; index = nat (int (length st) - n) in
          setStack (take index st @ drop (index + 1) st @ [st ! index])))"

definition opRoll :: "unit vmM" where
  "opRoll = bindM (applyCost 2) (\<lambda>_. bindM (popInt64 False) (\<lambda>n.
     if n < 0 then throw ErrBadValue
     else (case AddInt64 n 1 of None \<Rightarrow> throw ErrBadValue | Some off \<Rightarrow> rot off)))"

definition opRot :: "unit vmM" where
  "opRot = bindM (applyCost 2) (\<lambda>_. rot 3)"

definition opSwap :: "unit vmM" where
  "opSwap = bindM (applyCost 1) (\<lambda>_. withVM (\<lambda>vm.
     let st = dataStack vm; l = length st in
     if l < 2 then throw ErrDataStackUnderflow
     else setStack (st[l - 1 := st ! (l - 2), l - 2 := st ! (l - 1)])))"

definition opTuck :: "unit vmM" where
  "opTuck = bindM (applyCost 1) (\<lambda>_. withVM (\<lambda>vm.
     let st = dataStack vm; l = length st in
     if l < 2 then throw ErrDataStackUnderflow
     else
       let top2 = drop (l - 2) st in
       bindM (setStack (take (l - 2) st)) (\<lambda>_.
       bindM (push (top2 ! 1) False) (\<lambda>_.
       withVM (\<lambda>vm. setStack (dataStack vm @ top2))))))"

section \<open>Accounting\<close>

lemma wp_push_item [cost_rules]:
  assumes "budget S q 0 k vm" and "x \<in> set (dataStack vm)"
    and "\<And>vm'. budget S q 0 (Suc k) vm' \<Longrightarrow> Q () vm'"
  shows "wp (push x False) Q vm"
  using assms(1) _ assms(3)
  by (rule wp_push_now) (use budget_length [OF assms(1,2)] budget_q [OF assms(1)] in simp)

lemma budget_vdata: "budget S q d k vm \<Longrightarrow> int (length (vdata vm)) \<le> 2 ^ 62"
  by (simp add: budget_def)

lemma cost_opFalse: "cost_ok opFalse"
  by (rule cost_okI) (simp add: opFalse_def, (erule cost_rules | simp)+)

lemma cost_opPushdata: "cost_ok opPushdata"
  unfolding opPushdata_def
proof (rule cost_ok_applyCost, simp)
  fix S q k vm assume b: "budget S (q - 1) 0 k vm"
  show "wp (withVM (\<lambda>vm. push (vdata vm) False)) (\<lambda>_. spent S q k) vm"
    unfolding wp_withVM by (rule wp_push_now [OF b budget_vdata [OF b]]) (erule spentI, simp_all)
qed

lemma cost_op1Negate: "cost_ok op1Negate"
  by (rule cost_okI) (simp add: op1Negate_def, (erule cost_rules | simp)+)

lemma cost_opNop: "cost_ok opNop"
  by (rule cost_okI) (simp add: opNop_def, (erule cost_rules | simp)+)

lemma cost_opToAltStack: "cost_ok opToAltStack"
  unfolding opToAltStack_def
proof (rule cost_ok_applyCost, simp)
  fix S q k vm assume b: "budget S (q - 2) 0 k vm"
  show "wp (withVM (\<lambda>vm. if dataStack vm = [] then throw ErrDataStackUnderflow
      else setStacks (butlast (dataStack vm)) (altStack vm @ [last (dataStack vm)]))) (\<lambda>_. spent S q k) vm"
  proof (cases "dataStack vm" rule: rev_cases)
    case (snoc st x)
    with b have "budget S (q - 2) 0 k (vm\<lparr>dataStack := st, altStack := altStack vm @ [x]\<rparr>)"
      by (simp add: budget_def settled_def frame_of_def)
    then have "spent S q k (vm\<lparr>dataStack := st, altStack := altStack vm @ [x]\<rparr>)"
      by (rule spentI) simp_all
    with snoc show ?thesis by (simp add: wp_def setStacks_def withVM_def)
  qed simp
qed

lemma cost_opFromAltStack: "cost_ok opFromAltStack"
  unfolding opFromAltStack_def
proof (rule cost_ok_applyCost, simp)
  fix S q k vm assume b: "budget S (q - 2) 0 k vm"
  show "wp (withVM (\<lambda>vm. if altStack vm = [] then throw ErrAltStackUnderflow
      else setStacks (dataStack vm @ [last (altStack vm)]) (butlast (altStack vm)))) (\<lambda>_. spent S q k) vm"
  proof (cases "altStack vm" rule: rev_cases)
    case (snoc st x)
    with b have "budget S (q - 2) 0 (Suc k) (vm\<lparr>dataStack := dataStack vm @ [x], altStack := st\<rparr>)"
      by (simp add: budget_def settled_def frame_of_def)
    then have "spent S q k (vm\<lparr>dataStack := dataStack vm @ [x], altStack := st\<rparr>)"
      by (rule spentI) simp_all
    with snoc show ?thesis by (simp add: wp_def setStacks_def withVM_def)
  qed simp
qed

lemma cost_op2Drop: "cost_ok op2Drop"
  by (rule cost_okI) (simp add: op2Drop_def, (erule cost_rules | simp)+)

text \<open>The loops push items that are on the stack, one per iteration.\<close>

lemma push_grows: "push x False vm = (Ret (), vm') \<Longrightarrow> dataStack vm' = dataStack vm @ [x]"
  by (auto simp: prim_defs Let_def split: if_splits)

lemma wp_push_item_grow:
  assumes "budget S q 0 k vm" and "x \<in> set (dataStack vm)"
    and "\<And>vm'. budget S q 0 (Suc k) vm' \<Longrightarrow> dataStack vm' = dataStack vm @ [x] \<Longrightarrow> Q () vm'"
  shows "wp (push x False) Q vm"
proof (rule wpI)
  fix a :: unit and vm' assume eq: "push x False vm = (Ret a, vm')"
  have "wp (push x False) (\<lambda>_. budget S q 0 (Suc k)) vm" by (rule wp_push_item [OF assms(1,2)])
  with eq show "Q a vm'" using assms(3) push_grows [of x vm vm'] by (auto dest: wpD)
qed

lemma wp_pushLoop:
  assumes loop: "\<And>i. f (Suc i) = bindM
      (withVM (\<lambda>vm. push (dataStack vm ! (length (dataStack vm) - n)) False)) (\<lambda>_. f i)"
    and base: "f 0 = ret ()" and n: "0 < n"
    and "budget S q 0 k vm" and "n \<le> length (dataStack vm)"
    and "\<And>vm'. budget S q 0 (k + i) vm' \<Longrightarrow> Q () vm'"
  shows "wp (f i) Q vm"
  using assms(4-6)
proof (induction i arbitrary: k vm)
  case (Suc i)
  have "dataStack vm ! (length (dataStack vm) - n) \<in> set (dataStack vm)"
    using n Suc.prems(2) by (intro nth_mem) simp
  with Suc.prems(1) show ?case unfolding loop wp_bind wp_withVM
    by (rule wp_push_item_grow) (rule Suc.IH, assumption, use Suc.prems(2) in simp, rule Suc.prems(3), simp)
qed (simp add: base)

lemma cost_nDup: "0 < n \<Longrightarrow> cost_ok (nDup n)"
  unfolding nDup_def
proof (rule cost_ok_applyCost, simp)
  fix S q k vm assume n: "0 < n" and b: "budget S (q - int n) 0 k vm"
  show "wp (withVM (\<lambda>vm. if length (dataStack vm) < n then throw ErrDataStackUnderflow else nDupLoop n n))
      (\<lambda>_. spent S q k) vm"
    unfolding wp_withVM by (rule wp_if, simp, rule wp_pushLoop [where n = n, OF _ _ n b])
       (simp_all, erule spentI, use n in simp_all)
qed

lemma cost_op2Dup: "cost_ok op2Dup" and cost_op3Dup: "cost_ok op3Dup" and cost_opDup: "cost_ok opDup"
  by (simp_all add: op2Dup_def op3Dup_def opDup_def cost_nDup)

lemma cost_op2Over: "cost_ok op2Over"
  unfolding op2Over_def
proof (rule cost_ok_applyCost, simp)
  fix S q k vm assume b: "budget S (q - 2) 0 k vm"
  show "wp (withVM (\<lambda>vm. if length (dataStack vm) < 4 then throw ErrDataStackUnderflow else overLoop 2))
      (\<lambda>_. spent S q k) vm"
    unfolding wp_withVM by (rule wp_if, simp, rule wp_pushLoop [where n = 4, OF _ _ _ b]) (simp_all, erule spentI, simp_all)
qed

text \<open>Rearrangements keep the cost and the number of items.\<close>

lemma spent_setStack:
  "budget S (q - c) 0 k vm \<Longrightarrow> 0 < c \<Longrightarrow> itemsCost st = itemsCost (dataStack vm) \<Longrightarrow>
    length st = length (dataStack vm) \<Longrightarrow> spent S q k (vm\<lparr>dataStack := st\<rparr>)"
  by (rule spentI [of S "q - c" 0 k]) (auto intro: budget_setStack)

text \<open>The last \<open>n\<close> items of a stack that has that many.\<close>

lemma last_items:
  assumes "n \<le> length st"
  obtains r xs where "st = r @ xs" and "length xs = n" and "length r = length st - n"
  using assms that [of "take (length st - n) st" "drop (length st - n) st"] by simp

lemma list_of_2: "length xs = 2 \<Longrightarrow> \<exists>a b. xs = [a, b]"
  by (auto simp add: numeral_2_eq_2 length_Suc_conv)

lemma list_of_3: "length xs = 3 \<Longrightarrow> \<exists>a b c. xs = [a, b, c]"
  by (auto simp add: numeral_3_eq_3 length_Suc_conv)

lemma list_of_4: assumes "length xs = 4" shows "\<exists>a b c d. xs = [a, b, c, d]"
proof -
  obtain a b c d where "take 2 xs = [a, b]" "drop 2 xs = [c, d]"
    using assms list_of_2 [of "take 2 xs"] list_of_2 [of "drop 2 xs"] by auto
  then show ?thesis using append_take_drop_id [of 2 xs] by (metis append_Cons append_Nil)
qed

lemma list_of_6: assumes "length xs = 6" shows "\<exists>a b c d e f. xs = [a, b, c, d, e, f]"
proof -
  obtain a b c d e f where "take 2 xs = [a, b]" "drop 2 xs = [c, d, e, f]"
    using assms list_of_2 [of "take 2 xs"] list_of_4 [of "drop 2 xs"] by auto
  then show ?thesis using append_take_drop_id [of 2 xs] by (metis append_Cons append_Nil)
qed

lemma cost_op2Rot: "cost_ok op2Rot"
  unfolding op2Rot_def Let_def
proof (rule cost_ok_applyCost, simp, unfold wp_withVM, rule wp_if, simp)
  fix S q k vm assume b: "budget S (q - 2) 0 k vm" and "\<not> length (dataStack vm) < 6"
  then have "6 \<le> length (dataStack vm)" by simp
  then obtain r xs where st: "dataStack vm = r @ xs" and "length xs = 6" by (rule last_items)
  from this(2) obtain a b c d e f where "xs = [a, b, c, d, e, f]" using list_of_6 by blast
  with st show "wp (setStack (take (length (dataStack vm) - 6) (dataStack vm) @
      drop (length (dataStack vm) - 4) (dataStack vm) @ [dataStack vm ! (length (dataStack vm) - 6)] @
      [dataStack vm ! (length (dataStack vm) - 5)])) (\<lambda>_. spent S q k) vm"
    unfolding wp_setStack by (intro spent_setStack [OF b]) (simp_all add: nth_append)
qed

lemma cost_op2Swap: "cost_ok op2Swap"
  unfolding op2Swap_def Let_def
proof (rule cost_ok_applyCost, simp, unfold wp_withVM, rule wp_if, simp)
  fix S q k vm assume b: "budget S (q - 2) 0 k vm" and "\<not> length (dataStack vm) < 4"
  then have "4 \<le> length (dataStack vm)" by simp
  then obtain r xs where st: "dataStack vm = r @ xs" and "length xs = 4" by (rule last_items)
  from this(2) obtain a b c d where "xs = [a, b, c, d]" using list_of_4 by blast
  with st show "wp (setStack (take (length (dataStack vm) - 4) (dataStack vm) @
      drop (length (dataStack vm) - 2) (dataStack vm) @ [dataStack vm ! (length (dataStack vm) - 4)] @
      [dataStack vm ! (length (dataStack vm) - 3)])) (\<lambda>_. spent S q k) vm"
    unfolding wp_setStack by (intro spent_setStack [OF b]) (simp_all add: nth_append)
qed

lemma cost_opIfDup: "cost_ok opIfDup"
  unfolding opIfDup_def
proof (rule cost_ok_applyCost, simp, unfold wp_bind, erule wp_top, rule wp_if)
  fix S q k vm assume "budget S (q - 1) 0 k vm" and "dataStack vm \<noteq> []"
  then show "wp (push (last (dataStack vm)) False) (\<lambda>_. spent S q k) vm"
    by (rule wp_push_item [OF _ last_in_set]) (erule spentI, simp_all)
qed (simp, erule spentI, simp_all)

lemma cost_opDepth: "cost_ok opDepth"
  by (rule cost_okI) (simp add: opDepth_def, (erule cost_rules | simp)+)

lemma cost_opDrop: "cost_ok opDrop"
  by (rule cost_okI) (simp add: opDrop_def, (erule cost_rules | simp)+)

lemma cost_opNip: "cost_ok opNip"
  unfolding opNip_def
proof (rule cost_ok_applyCost, simp, unfold wp_bind, erule wp_top)
  fix S q k vm assume b: "budget S (q - 1) 0 k vm" and ne: "dataStack vm \<noteq> []"
  let ?t = "last (dataStack vm)"
  have put: "spent S q k (vm'\<lparr>dataStack := dataStack vm' @ [?t]\<rparr>)"
    if "budget S (q - 1 - itemCost ?t) 0 k' vm'" "k - 1 = Suc k'" for k' vm'
    using budget_append [OF that(1), of ?t] budget_q [OF b] that(2)
    by (intro spentI [of S "q - 1" 0 "Suc k'"]) simp_all
  show "wp (withVM (\<lambda>vm. setStack (butlast (dataStack vm))))
      (\<lambda>_. wp (pop False) (\<lambda>_. wp (withVM (\<lambda>vm. setStack (dataStack vm @ [?t]))) (\<lambda>_. spent S q k))) vm"
    unfolding wp_withVM wp_setStack
    by (rule wp_pop [OF budget_dropLast(1) [OF b ne]]) (simp_all add: put)
qed

lemma cost_opOver: "cost_ok opOver"
  unfolding opOver_def
proof (rule cost_ok_applyCost, simp, unfold wp_withVM, rule wp_if, simp)
  fix S q k vm assume b: "budget S (q - 1) 0 k vm" and "\<not> length (dataStack vm) < 2"
  then have "length (dataStack vm) - 2 < length (dataStack vm)" by simp
  then show "wp (push (dataStack vm ! (length (dataStack vm) - 2)) False) (\<lambda>_. spent S q k) vm"
    by (rule wp_push_item [OF b nth_mem]) (erule spentI, simp_all)
qed

lemma cost_opPick: "cost_ok opPick"
  unfolding opPick_def
proof (rule cost_ok_applyCost, simp, unfold wp_bind, erule wp_popInt64, simp, rule wp_if, simp,
    rule wp_option, unfold wp_withVM, rule wp_if, simp)
  fix S q k n k' vm off
  assume b: "budget S (q - 2) 0 k' vm" and k: "k = Suc k'" and "in_i64 n" and "\<not> n < 0"
    and "AddInt64 n 1 = Some off" and "\<not> int (length (dataStack vm)) < off"
  then have "nat (int (length (dataStack vm)) - off) < length (dataStack vm)"
    by (auto simp: AddInt64_def AddS_exact int_range_defs split: if_splits)
  then show "wp (push (dataStack vm ! nat (int (length (dataStack vm)) - off)) False)
      (\<lambda>_. spent S q k) vm"
    by (rule wp_push_item [OF b nth_mem]) (erule spentI, simp_all add: k)
qed simp

lemma wp_rot [cost_rules]:
  assumes "budget S q d k vm" and "\<And>vm'. budget S q d k vm' \<Longrightarrow> Q () vm'"
  shows "wp (rot n) Q vm"
proof -
  let ?st = "dataStack vm"
  let ?i = "nat (int (length ?st) - n)"
  have "budget S q d k (vm\<lparr>dataStack := take ?i ?st @ drop (?i + 1) ?st @ [?st ! ?i]\<rparr>)"
    if "\<not> n < 1" and "\<not> int (length ?st) < n"
  proof -
    have i: "?i < length ?st" using that by simp
    show ?thesis by (rule budget_setStack [OF assms(1)]) (use itemsCost_split [OF i] i in simp_all)
  qed
  with assms(2) show ?thesis by (simp add: rot_def Let_def)
qed

lemma cost_opRoll: "cost_ok opRoll"
  unfolding opRoll_def
  by (rule cost_ok_applyCost, simp, unfold wp_bind, erule wp_popInt64, simp, rule wp_if, simp,
      rule wp_option, erule wp_rot, erule spentI, simp_all)

lemma cost_opRot: "cost_ok opRot"
  unfolding opRot_def by (rule cost_ok_applyCost, simp, erule wp_rot, erule spentI, simp_all)

lemma cost_opSwap: "cost_ok opSwap"
  unfolding opSwap_def Let_def
proof (rule cost_ok_applyCost, simp, unfold wp_withVM, rule wp_if, simp)
  fix S q k vm assume b: "budget S (q - 1) 0 k vm" and "\<not> length (dataStack vm) < 2"
  then have "2 \<le> length (dataStack vm)" by simp
  then obtain r xs where st: "dataStack vm = r @ xs" and "length xs = 2" by (rule last_items)
  from this(2) obtain x y where "xs = [x, y]" using list_of_2 by blast
  with st show "wp (setStack ((dataStack vm)[length (dataStack vm) - 1 := dataStack vm ! (length (dataStack vm) - 2),
      length (dataStack vm) - 2 := dataStack vm ! (length (dataStack vm) - 1)])) (\<lambda>_. spent S q k) vm"
    unfolding wp_setStack
    by (intro spent_setStack [OF b]) (simp_all add: nth_append list_update_append)
qed

lemma cost_opTuck: "cost_ok opTuck"
  unfolding opTuck_def Let_def
proof (rule cost_ok_applyCost, simp, unfold wp_withVM, rule wp_if, simp, unfold wp_bind)
  fix S q k vm assume b: "budget S (q - 1) 0 k vm" and "\<not> length (dataStack vm) < 2"
  then have "2 \<le> length (dataStack vm)" by simp
  then obtain r xs where st: "dataStack vm = r @ xs" and "length xs = 2" by (rule last_items)
  from this(2) obtain x y where xs: "xs = [x, y]" using list_of_2 by blast
  let ?vm = "vm\<lparr>dataStack := r\<rparr>"
  have y: "int (length y) \<le> 2 ^ 62" using budget_length [OF b, of y] budget_q [OF b] by (simp add: st xs)
  have b2: "budget S (q - 1 - itemCost x - itemCost y) 0 (k - 2) ?vm" and k: "2 \<le> k"
    using b itemCost_pos [of x] itemCost_pos [of y]
    by (auto simp: budget_def settled_def frame_of_def st xs)
  have "wp (push y False) (\<lambda>_ vm. spent S q k (vm\<lparr>dataStack := dataStack vm @ [x, y]\<rparr>)) ?vm"
    by (rule wp_push_now [OF b2 y], intro spentI [of S "q - 1" 0 "Suc k"])
      (use budget_q [OF b] k in \<open>auto simp: budget_def settled_def frame_of_def\<close>)
  then show "wp (setStack (take (length (dataStack vm) - 2) (dataStack vm)))
     (\<lambda>_. wp (push (drop (length (dataStack vm) - 2) (dataStack vm) ! 1) False)
        (\<lambda>_. wp (withVM (\<lambda>vma. setStack (dataStack vma @ drop (length (dataStack vm) - 2) (dataStack vm))))
          (\<lambda>_. spent S q k))) vm"
    by (auto simp: st xs elim!: wp_mono)
qed

section \<open>The documented effect of the stack operations\<close>

text \<open>
  The effect of each stack operation as a table: its cost, the number of top items it needs, and
  by which of these items (counted from the deepest) it replaces them.
\<close>

definition stackTable :: "(unit vmM \<times> int \<times> nat \<times> nat list) list" where
  "stackTable =
    [(op2Drop, 2, 2, []), (op2Dup, 2, 2, [0, 1, 0, 1]), (op3Dup, 3, 3, [0, 1, 2, 0, 1, 2]),
     (op2Over, 2, 4, [0, 1, 2, 3, 0, 1]), (op2Rot, 2, 6, [2, 3, 4, 5, 0, 1]), (op2Swap, 2, 4, [2, 3, 0, 1]),
     (opDrop, 1, 1, []), (opDup, 1, 1, [0, 0]), (opNip, 1, 2, [1]), (opOver, 1, 2, [0, 1, 0]),
     (opRot, 2, 3, [1, 2, 0]), (opSwap, 1, 2, [1, 0]), (opTuck, 1, 2, [1, 0, 1])]"

definition stack_effect :: "unit vmM \<Rightarrow> int \<Rightarrow> nat \<Rightarrow> nat list \<Rightarrow> virtualMachine \<Rightarrow> bool" where
  "stack_effect m c n idx vm \<longleftrightarrow>
     (let st = dataStack vm; rest = take (length st - n) st; xs = drop (length st - n) st;
          ys = map (\<lambda>i. xs ! i) idx; grow = itemsCost ys - itemsCost xs
      in (fst (m vm) = Ret () \<longleftrightarrow> n \<le> length st \<and> c + max 0 grow \<le> runLimit vm) \<and>
         (fst (m vm) = Ret () \<longrightarrow>
            snd (m vm) = vm\<lparr>dataStack := rest @ ys, runLimit := runLimit vm - c - grow\<rparr>))"

text \<open>In states of realistic size the primitives compute without wrap-around.\<close>

definition sized :: "virtualMachine \<Rightarrow> bool" where
  "sized vm \<longleftrightarrow> 0 \<le> runLimit vm \<and> runLimit vm + itemsCost (dataStack vm) \<le> 2 ^ 58"

lemma sized_bounds:
  assumes "sized vm"
  shows "0 \<le> runLimit vm" and "runLimit vm \<le> 2 ^ 58" and "itemsCost (dataStack vm) \<le> 2 ^ 58"
  using assms itemsCost_nonneg [of "dataStack vm"] by (auto simp: sized_def)

lemma stack_effectI:
  assumes "length (dataStack vm) < n \<Longrightarrow> 0 \<le> runLimit vm \<Longrightarrow> runLimit vm \<le> 2 ^ 58 \<Longrightarrow>
      itemsCost (dataStack vm) \<le> 2 ^ 58 \<Longrightarrow> fst (m vm) \<noteq> Ret ()"
    and "\<And>r xs ys. dataStack vm = r @ xs \<Longrightarrow> length xs = n \<Longrightarrow> ys = map ((!) xs) idx \<Longrightarrow>
      itemsCost r + itemsCost xs \<le> 2 ^ 58 \<Longrightarrow> 0 \<le> itemsCost r \<Longrightarrow>
      0 \<le> runLimit vm \<Longrightarrow> runLimit vm \<le> 2 ^ 58 \<Longrightarrow>
      if c + max 0 (itemsCost ys - itemsCost xs) \<le> runLimit vm
      then m vm = (Ret (), vm\<lparr>dataStack := r @ ys, runLimit := runLimit vm - c - (itemsCost ys - itemsCost xs)\<rparr>)
      else fst (m vm) \<noteq> Ret ()"
    and "sized vm"
  shows "stack_effect m c n idx vm"
proof (cases "length (dataStack vm) < n")
  case False
  let ?st = "dataStack vm"
  have "itemsCost (take (length ?st - n) ?st) + itemsCost (drop (length ?st - n) ?st) = itemsCost ?st"
    by (simp flip: itemsCost_append)
  with False sized_bounds [OF assms(3)]
    assms(2) [of "take (length ?st - n) ?st" "drop (length ?st - n) ?st" "map ((!) (drop (length ?st - n) ?st)) idx"]
  show ?thesis by (auto simp: stack_effect_def Let_def itemsCost_nonneg split: if_splits)
qed (use assms(1) sized_bounds [OF assms(3)] in \<open>simp add: stack_effect_def Let_def\<close>)

lemma loop_unroll:
  "nDupLoop n 2 = bindM (withVM (\<lambda>vm. push (dataStack vm ! (length (dataStack vm) - n)) False)) (\<lambda>_. nDupLoop n 1)"
  "nDupLoop n 3 = bindM (withVM (\<lambda>vm. push (dataStack vm ! (length (dataStack vm) - n)) False)) (\<lambda>_. nDupLoop n 2)"
  "overLoop 2 = bindM (withVM (\<lambda>vm. push (dataStack vm ! (length (dataStack vm) - 4)) False)) (\<lambda>_. overLoop 1)"
  by (simp_all add: numeral_3_eq_3 numeral_2_eq_2)

lemma list_of_n:
  "length xs = 2 \<longleftrightarrow> (\<exists>a b. xs = [a, b])"
  "length xs = 3 \<longleftrightarrow> (\<exists>a b c. xs = [a, b, c])"
  "length xs = 4 \<longleftrightarrow> (\<exists>a b c d. xs = [a, b, c, d])"
  "length xs = 6 \<longleftrightarrow> (\<exists>a b c d e f. xs = [a, b, c, d, e, f])"
  using list_of_2 [of xs] list_of_3 [of xs] list_of_4 [of xs] list_of_6 [of xs] by auto

lemma less_2_length: "length st < 2 \<Longrightarrow> st = [] \<or> (\<exists>x. st = [] @ [x])"
  by (cases st) auto

lemmas effect_simps = bindM_def withVM_def setStack_def throw_def ret_def applyCost_if push_if pop_eq pop_empty
  top_def nth_append itemCost_def list_of_n length_Suc_conv

lemma effect_op2Drop: "sized vm \<Longrightarrow> stack_effect op2Drop 2 2 [] vm"
  by (rule stack_effectI, drule less_2_length)
    (auto simp: op2Drop_def  effect_simps split: if_splits)

lemma effect_op2Dup: "sized vm \<Longrightarrow> stack_effect op2Dup 2 2 [0, 1, 0, 1] vm"
  by (rule stack_effectI) (auto simp: op2Dup_def nDup_def loop_unroll effect_simps split: if_splits)

lemma effect_op3Dup: "sized vm \<Longrightarrow> stack_effect op3Dup 3 3 [0, 1, 2, 0, 1, 2] vm"
  by (rule stack_effectI) (auto simp: op3Dup_def nDup_def loop_unroll effect_simps split: if_splits)

lemma effect_op2Over: "sized vm \<Longrightarrow> stack_effect op2Over 2 4 [0, 1, 2, 3, 0, 1] vm"
  by (rule stack_effectI) (auto simp: op2Over_def loop_unroll effect_simps split: if_splits)

lemma effect_op2Rot: "sized vm \<Longrightarrow> stack_effect op2Rot 2 6 [2, 3, 4, 5, 0, 1] vm"
  by (rule stack_effectI) (auto simp: op2Rot_def  effect_simps)

lemma effect_op2Swap: "sized vm \<Longrightarrow> stack_effect op2Swap 2 4 [2, 3, 0, 1] vm"
  by (rule stack_effectI) (auto simp: op2Swap_def  effect_simps)

lemma effect_opDrop: "sized vm \<Longrightarrow> stack_effect opDrop 1 1 [] vm"
  by (rule stack_effectI) (auto simp: opDrop_def  effect_simps)

lemma effect_opDup: "sized vm \<Longrightarrow> stack_effect opDup 1 1 [0, 0] vm"
  by (rule stack_effectI) (auto simp: opDup_def nDup_def effect_simps)

lemma effect_opNip: "sized vm \<Longrightarrow> stack_effect opNip 1 2 [1] vm"
  by (rule stack_effectI, drule less_2_length)
    (auto simp: opNip_def butlast_append  effect_simps split: if_splits)

lemma effect_opOver: "sized vm \<Longrightarrow> stack_effect opOver 1 2 [0, 1, 0] vm"
  by (rule stack_effectI) (auto simp: opOver_def  effect_simps)

lemma effect_opRot: "sized vm \<Longrightarrow> stack_effect opRot 2 3 [1, 2, 0] vm"
  by (rule stack_effectI) (auto simp: opRot_def rot_def effect_simps)

lemma effect_opSwap: "sized vm \<Longrightarrow> stack_effect opSwap 1 2 [1, 0] vm"
  by (rule stack_effectI) (auto simp: opSwap_def list_update_append effect_simps)

lemma effect_opTuck: "sized vm \<Longrightarrow> stack_effect opTuck 1 2 [1, 0, 1] vm"
  by (rule stack_effectI) (auto simp: opTuck_def  effect_simps)

text \<open>
  The stack operations (\<^verbatim>\<open>2DROP\<close> to \<^verbatim>\<open>TUCK\<close>) succeed exactly when the stack holds the items they need
  and the run limit covers their cost and the items they add. They then replace the top items by
  the documented selection of them, keep everything below and every other part of the state, and
  charge the documented cost plus the change in the stack's memory cost.
\<close>
lemma stack_ops_rearrange:
  assumes "(m, c, n, idx) \<in> set stackTable" and "sized vm"
  shows "stack_effect m c n idx vm"
  using assms unfolding stackTable_def
  by (auto simp: effect_op2Drop effect_op2Dup effect_op3Dup effect_op2Over effect_op2Rot effect_op2Swap
      effect_opDrop effect_opDup effect_opNip effect_opOver effect_opRot effect_opSwap effect_opTuck
      simp del: One_nat_def)

lemma stack_ops_rearrange_witness:
  "snd (opSwap (newVM (bareContext [] []) [] False 50 0 [[1], [2, 3], [4]]))
     = newVM (bareContext [] []) [] False 49 0 [[1], [4], [2, 3]]"
proof -
  let ?vm = "newVM (bareContext [] []) [] False 50 0 [[1], [2, 3], [4]]"
  have "stack_effect opSwap 1 2 [1, 0] ?vm"
    by (rule stack_ops_rearrange) (simp_all add: stackTable_def sized_def newVM_def itemCost_def)
  then show ?thesis by (simp add: stack_effect_def Let_def newVM_def itemCost_def)
qed

end
