(* ===== verification/VM_Numeric.thy ===== *)
theory VM_Numeric
  imports VM_Machine
begin

text \<open>
  The numeric operations of \<^verbatim>\<open>protocol/vm/numeric.go\<close>, their accounting lemmas, and the theorem
  that they compute the integer function they are named after or fail with the documented error.
\<close>

section \<open>Operations\<close>

definition op1Add :: "unit vmM" where
  "op1Add = bindM (applyCost 2) (\<lambda>_. bindM (popInt64 True) (\<lambda>n.
     case AddInt64 n 1 of None \<Rightarrow> throw ErrRange | Some res \<Rightarrow> pushInt64 res True))"

definition op1Sub :: "unit vmM" where
  "op1Sub = bindM (applyCost 2) (\<lambda>_. bindM (popInt64 True) (\<lambda>n.
     case SubInt64 n 1 of None \<Rightarrow> throw ErrRange | Some res \<Rightarrow> pushInt64 res True))"

definition op2Mul :: "unit vmM" where
  "op2Mul = bindM (applyCost 2) (\<lambda>_. bindM (popInt64 True) (\<lambda>n.
     case MulInt64 n 2 of None \<Rightarrow> throw ErrRange | Some res \<Rightarrow> pushInt64 res True))"

text \<open>Go's \<^verbatim>\<open>>>\<close> on signed integers is the arithmetic shift.\<close>

definition op2Div :: "unit vmM" where
  "op2Div = bindM (applyCost 2) (\<lambda>_. bindM (popInt64 True) (\<lambda>n.
     pushInt64 (drop_bit 1 n) True))"

definition opNegate :: "unit vmM" where
  "opNegate = bindM (applyCost 2) (\<lambda>_. bindM (popInt64 True) (\<lambda>n.
     case NegateInt64 n of None \<Rightarrow> throw ErrRange | Some res \<Rightarrow> pushInt64 res True))"

definition opAbs :: "unit vmM" where
  "opAbs = bindM (applyCost 2) (\<lambda>_. bindM (popInt64 True) (\<lambda>n.
     if n = MinInt64 then throw ErrRange
     else pushInt64 (if n < 0 then i64 (- n) else n) True))"

definition opNot :: "unit vmM" where
  "opNot = bindM (applyCost 2) (\<lambda>_. bindM (popInt64 True) (\<lambda>n.
     pushBool (n = 0) True))"

definition op0NotEqual :: "unit vmM" where
  "op0NotEqual = bindM (applyCost 2) (\<lambda>_. bindM (popInt64 True) (\<lambda>n.
     pushBool (n \<noteq> 0) True))"

definition opAdd :: "unit vmM" where
  "opAdd = bindM (applyCost 2) (\<lambda>_. bindM (popInt64 True) (\<lambda>y. bindM (popInt64 True) (\<lambda>x.
     case AddInt64 x y of None \<Rightarrow> throw ErrRange | Some res \<Rightarrow> pushInt64 res True)))"

definition opSub :: "unit vmM" where
  "opSub = bindM (applyCost 2) (\<lambda>_. bindM (popInt64 True) (\<lambda>y. bindM (popInt64 True) (\<lambda>x.
     case SubInt64 x y of None \<Rightarrow> throw ErrRange | Some res \<Rightarrow> pushInt64 res True)))"

definition opMul :: "unit vmM" where
  "opMul = bindM (applyCost 8) (\<lambda>_. bindM (popInt64 True) (\<lambda>y. bindM (popInt64 True) (\<lambda>x.
     case MulInt64 x y of None \<Rightarrow> throw ErrRange | Some res \<Rightarrow> pushInt64 res True)))"

definition opDiv :: "unit vmM" where
  "opDiv = bindM (applyCost 8) (\<lambda>_. bindM (popInt64 True) (\<lambda>y. bindM (popInt64 True) (\<lambda>x.
     if y = 0 then throw ErrDivZero
     else (case DivInt64 x y of None \<Rightarrow> throw ErrRange | Some res \<Rightarrow> pushInt64 res True))))"

definition opMod :: "unit vmM" where
  "opMod = bindM (applyCost 8) (\<lambda>_. bindM (popInt64 True) (\<lambda>y. bindM (popInt64 True) (\<lambda>x.
     if y = 0 then throw ErrDivZero
     else (case ModInt64 x y of
             None \<Rightarrow> throw ErrRange
           | Some res \<Rightarrow> pushInt64 (if res \<noteq> 0 \<and> (x \<ge> 0) \<noteq> (y \<ge> 0) then i64 (res + y) else res) True))))"

definition opLshift :: "unit vmM" where
  "opLshift = bindM (applyCost 8) (\<lambda>_. bindM (popInt64 True) (\<lambda>y.
     if y < 0 then throw ErrBadValue
     else bindM (popInt64 True) (\<lambda>x.
       if x = 0 \<or> y = 0 then pushInt64 x True
       else (case LshiftInt64 x y of None \<Rightarrow> throw ErrRange | Some res \<Rightarrow> pushInt64 res True))))"

definition opRshift :: "unit vmM" where
  "opRshift = bindM (applyCost 8) (\<lambda>_. bindM (popInt64 True) (\<lambda>y. bindM (popInt64 True) (\<lambda>x.
     if y < 0 then throw ErrBadValue else pushInt64 (drop_bit (nat y) x) True)))"

definition opBoolAnd :: "unit vmM" where
  "opBoolAnd = bindM (applyCost 2) (\<lambda>_. bindM (pop True) (\<lambda>b. bindM (pop True) (\<lambda>a.
     pushBool (AsBool a \<and> AsBool b) True)))"

definition opBoolOr :: "unit vmM" where
  "opBoolOr = bindM (applyCost 2) (\<lambda>_. bindM (pop True) (\<lambda>b. bindM (pop True) (\<lambda>a.
     pushBool (AsBool a \<or> AsBool b) True)))"

datatype cmp = cmpLess | cmpLessEqual | cmpGreater | cmpGreaterEqual | cmpEqual | cmpNotEqual

primrec compare_by :: "cmp \<Rightarrow> int64 \<Rightarrow> int64 \<Rightarrow> bool" where
  "compare_by cmpLess x y = (x < y)"
| "compare_by cmpLessEqual x y = (x \<le> y)"
| "compare_by cmpGreater x y = (x > y)"
| "compare_by cmpGreaterEqual x y = (x \<ge> y)"
| "compare_by cmpEqual x y = (x = y)"
| "compare_by cmpNotEqual x y = (x \<noteq> y)"

definition doNumCompare :: "cmp \<Rightarrow> unit vmM" where
  "doNumCompare cmpop = bindM (applyCost 2) (\<lambda>_. bindM (popInt64 True) (\<lambda>y. bindM (popInt64 True) (\<lambda>x.
     pushBool (compare_by cmpop x y) True)))"

definition opNumEqual :: "unit vmM" where "opNumEqual = doNumCompare cmpEqual"

definition opNumEqualVerify :: "unit vmM" where
  "opNumEqualVerify = bindM (applyCost 2) (\<lambda>_. bindM (popInt64 True) (\<lambda>y. bindM (popInt64 True) (\<lambda>x.
     if x = y then ret () else throw ErrVerifyFailed)))"

definition opNumNotEqual :: "unit vmM" where "opNumNotEqual = doNumCompare cmpNotEqual"
definition opLessThan :: "unit vmM" where "opLessThan = doNumCompare cmpLess"
definition opGreaterThan :: "unit vmM" where "opGreaterThan = doNumCompare cmpGreater"
definition opLessThanOrEqual :: "unit vmM" where "opLessThanOrEqual = doNumCompare cmpLessEqual"
definition opGreaterThanOrEqual :: "unit vmM" where "opGreaterThanOrEqual = doNumCompare cmpGreaterEqual"

definition opMin :: "unit vmM" where
  "opMin = bindM (applyCost 2) (\<lambda>_. bindM (popInt64 True) (\<lambda>y. bindM (popInt64 True) (\<lambda>x.
     pushInt64 (if x > y then y else x) True)))"

definition opMax :: "unit vmM" where
  "opMax = bindM (applyCost 2) (\<lambda>_. bindM (popInt64 True) (\<lambda>y. bindM (popInt64 True) (\<lambda>x.
     pushInt64 (if x < y then y else x) True)))"

definition opWithin :: "unit vmM" where
  "opWithin = bindM (applyCost 4) (\<lambda>_. bindM (popInt64 True) (\<lambda>max. bindM (popInt64 True) (\<lambda>min.
     bindM (popInt64 True) (\<lambda>x. pushBool (x \<ge> min \<and> x < max) True))))"

section \<open>Accounting\<close>

lemma cost_numeric:
  "cost_ok op1Add"
  "cost_ok op1Sub"
  "cost_ok op2Mul"
  "cost_ok op2Div"
  "cost_ok opNegate"
  "cost_ok opAbs"
  "cost_ok opNot"
  "cost_ok op0NotEqual"
  "cost_ok opAdd"
  "cost_ok opSub"
  "cost_ok opMul"
  "cost_ok opDiv"
  "cost_ok opMod"
  "cost_ok opLshift"
  "cost_ok opRshift"
  "cost_ok opBoolAnd"
  "cost_ok opBoolOr"
  "cost_ok opNumEqualVerify"
  "cost_ok opMin"
  "cost_ok opMax"
  "cost_ok opWithin"
  "cost_ok (doNumCompare c)"
  unfolding op1Add_def op1Sub_def op2Mul_def op2Div_def opNegate_def opAbs_def opNot_def op0NotEqual_def
    opAdd_def opSub_def opMul_def opDiv_def opMod_def opLshift_def opRshift_def opBoolAnd_def
    opBoolOr_def opNumEqualVerify_def opMin_def opMax_def opWithin_def doNumCompare_def
  by (rule cost_okI, simp only: wp_bind, (erule cost_rules | rule wp_if wp_option | simp)+)+

section \<open>The documented effect of the numeric operations\<close>

lemma smod_to_mod:
  assumes "y \<noteq> 0"
  shows "(if x smod y \<noteq> 0 \<and> (x \<ge> 0) \<noteq> (y \<ge> 0) then x smod y + y else x smod y) = (x :: int) mod y"
  using assms zmod_zminus1_eq_if [of "- x" y] zmod_zminus2_eq_if [of x "- y"]
  by (cases "x \<ge> 0"; cases "y \<ge> 0") (auto simp: signed_modulo_int_def sgn_if)

lemma lshift_out_of_range:
  assumes "x \<noteq> 0" and "64 \<le> k"
  shows "\<not> in_i64 (x * 2 ^ k)"
proof -
  have "(2::int) ^ 64 \<le> 2 ^ k" using assms(2) by (intro power_increasing) simp_all
  also have "\<dots> \<le> \<bar>x\<bar> * 2 ^ k" using assms(1) by simp
  finally have "(2::int) ^ 64 \<le> \<bar>x * 2 ^ k\<bar>" by (simp add: abs_mult)
  then show ?thesis by (auto simp: in_i64_iff)
qed

text \<open>
  The effect of each numeric operation as a table: its cost, the number of integers it takes, and
  the function of these integers (the deepest first) it computes, in unbounded arithmetic. The result is an error, or the integer that is
  pushed, if any.
\<close>

abbreviation yields :: "int \<Rightarrow> int option res" where
  "yields v \<equiv> Ret (Some v)"

definition inRange :: "int \<Rightarrow> int option res" where
  "inRange v = (if in_i64 v then yields v else Err ErrRange)"

definition num1 :: "(int \<Rightarrow> int option res) \<Rightarrow> int list \<Rightarrow> int option res" where
  "num1 f ns = f (ns ! 0)"

definition num2 :: "(int \<Rightarrow> int \<Rightarrow> int option res) \<Rightarrow> int list \<Rightarrow> int option res" where
  "num2 f ns = f (ns ! 0) (ns ! 1)"

definition num3 :: "(int \<Rightarrow> int \<Rightarrow> int \<Rightarrow> int option res) \<Rightarrow> int list \<Rightarrow> int option res" where
  "num3 f ns = f (ns ! 0) (ns ! 1) (ns ! 2)"

definition numTable :: "(unit vmM \<times> int \<times> nat \<times> (int list \<Rightarrow> int option res)) list" where
  "numTable =
    [(op1Add, 2, 1, num1 (\<lambda>n. inRange (n + 1))), (op1Sub, 2, 1, num1 (\<lambda>n. inRange (n - 1))),
     (op2Mul, 2, 1, num1 (\<lambda>n. inRange (n * 2))), (op2Div, 2, 1, num1 (\<lambda>n. yields (n div 2))),
     (opNegate, 2, 1, num1 (\<lambda>n. inRange (- n))), (opAbs, 2, 1, num1 (\<lambda>n. inRange \<bar>n\<bar>)),
     (opNot, 2, 1, num1 (\<lambda>n. yields (of_bool (n = 0)))),
     (op0NotEqual, 2, 1, num1 (\<lambda>n. yields (of_bool (n \<noteq> 0)))),
     (opAdd, 2, 2, num2 (\<lambda>x y. inRange (x + y))), (opSub, 2, 2, num2 (\<lambda>x y. inRange (x - y))),
     (opMul, 8, 2, num2 (\<lambda>x y. inRange (x * y))),
     (opDiv, 8, 2, num2 (\<lambda>x y. if y = 0 then Err ErrDivZero else inRange (x sdiv y))),
     (opMod, 8, 2, num2 (\<lambda>x y. if y = 0 then Err ErrDivZero
        else if x = MinInt64 \<and> y = - 1 then Err ErrRange else yields (x mod y))),
     (opLshift, 8, 2, num2 (\<lambda>x y. if y < 0 then Err ErrBadValue else inRange (x * 2 ^ nat y))),
     (opRshift, 8, 2, num2 (\<lambda>x y. if y < 0 then Err ErrBadValue else yields (x div 2 ^ nat y))),
     (opNumEqual, 2, 2, num2 (\<lambda>x y. yields (of_bool (x = y)))),
     (opNumNotEqual, 2, 2, num2 (\<lambda>x y. yields (of_bool (x \<noteq> y)))),
     (opLessThan, 2, 2, num2 (\<lambda>x y. yields (of_bool (x < y)))),
     (opGreaterThan, 2, 2, num2 (\<lambda>x y. yields (of_bool (x > y)))),
     (opLessThanOrEqual, 2, 2, num2 (\<lambda>x y. yields (of_bool (x \<le> y)))),
     (opGreaterThanOrEqual, 2, 2, num2 (\<lambda>x y. yields (of_bool (x \<ge> y)))),
     (opMin, 2, 2, num2 (\<lambda>x y. yields (min x y))), (opMax, 2, 2, num2 (\<lambda>x y. yields (max x y))),
     (opBoolAnd, 2, 2, num2 (\<lambda>x y. yields (of_bool (x \<noteq> 0 \<and> y \<noteq> 0)))),
     (opBoolOr, 2, 2, num2 (\<lambda>x y. yields (of_bool (x \<noteq> 0 \<or> y \<noteq> 0)))),
     (opNumEqualVerify, 2, 2, num2 (\<lambda>x y. if x = y then Ret None else Err ErrVerifyFailed)),
     (opWithin, 4, 3, num3 (\<lambda>x lo hi. yields (of_bool (lo \<le> x \<and> x < hi))))]"

definition num_effect :: "unit vmM \<Rightarrow> int \<Rightarrow> int option res \<Rightarrow> bytes list \<Rightarrow> bytes list \<Rightarrow> virtualMachine \<Rightarrow> bool" where
  "num_effect m c result r xs vm \<longleftrightarrow>
     (case result of
        Ret None \<Rightarrow> m vm = (Ret (), vm\<lparr>runLimit := runLimit vm - c, dataStack := r, deferredCost := - itemsCost xs\<rparr>)
      | Ret (Some v) \<Rightarrow> m vm = (Ret (), vm\<lparr>runLimit := runLimit vm - c, dataStack := r @ [Int64Bytes v],
                   deferredCost := itemCost (Int64Bytes v) - itemsCost xs\<rparr>)
      | Err e \<Rightarrow> fst (m vm) = Err e
      | _ \<Rightarrow> False)"

text \<open>The numeric operations on items that encode integers.\<close>

lemmas num_simps = num_effect_def num1_def num2_def inRange_def bindM_def throw_def popInt64_deferred_eq
  pushInt64_deferred_eq pushBool_as_int itemCost_def applyCost_def i64_small
  checked_int64_defs AddS_exact SubS_exact MulS_exact DivS_exact ModS_exact NegateS_exact LshiftS_exact

lemma AsInt64_bounds: "AsInt64 x = Inr n \<Longrightarrow> length x \<le> 8 \<and> in_i64 n"
  by (auto simp: AsInt64_in) (auto simp: AsInt64_def split: if_splits)

lemma in_i64_consts: "in_i64 1" "in_i64 2"
  by (simp_all add: in_i64_iff)

definition num_ready :: "int \<Rightarrow> virtualMachine \<Rightarrow> bool" where
  "num_ready c vm \<longleftrightarrow> c \<le> runLimit vm \<and> runLimit vm \<le> 2 ^ 60 \<and> deferredCost vm = 0"

lemma num_unary:
  assumes "num_ready 2 vm" and "dataStack vm = r @ [x]" and "AsInt64 x = Inr n"
  shows "num_effect op1Add 2 (inRange (n + 1)) r [x] vm"
    "num_effect op1Sub 2 (inRange (n - 1)) r [x] vm"
    "num_effect op2Mul 2 (inRange (n * 2)) r [x] vm"
    "num_effect op2Div 2 (yields (n div 2)) r [x] vm"
    "num_effect opNegate 2 (inRange (- n)) r [x] vm"
    "num_effect opNot 2 (yields (of_bool (n = 0))) r [x] vm"
    "num_effect op0NotEqual 2 (yields (of_bool (n \<noteq> 0))) r [x] vm"
  using assms AsInt64_bounds [OF assms(3)] in_i64_consts
  by (simp_all add: num_simps num_ready_def op1Add_def op1Sub_def op2Mul_def op2Div_def opNegate_def
      opNot_def op0NotEqual_def drop_bit_eq_div)

lemma num_abs:
  assumes "num_ready 2 vm" and "dataStack vm = r @ [x]" and "AsInt64 x = Inr n"
  shows "num_effect opAbs 2 (inRange \<bar>n\<bar>) r [x] vm"
proof -
  have "in_i64 \<bar>n\<bar> \<longleftrightarrow> n \<noteq> MinInt64" and "n \<noteq> MinInt64 \<Longrightarrow> i64 (- n) = - n"
    using AsInt64_bounds [OF assms(3)] by (auto simp: int_range_defs i64_small)
  then show ?thesis using assms AsInt64_bounds [OF assms(3)]
    by (auto simp: num_simps num_ready_def opAbs_def)
qed

lemma num_binary:
  assumes "num_ready 2 vm" and "dataStack vm = r @ [x, y]" and "AsInt64 x = Inr m" and "AsInt64 y = Inr n"
  shows "num_effect opAdd 2 (inRange (m + n)) r [x, y] vm"
    "num_effect opSub 2 (inRange (m - n)) r [x, y] vm"
    "num_effect (doNumCompare cm) 2 (yields (of_bool (compare_by cm m n))) r [x, y] vm"
    "num_effect opMin 2 (yields (min m n)) r [x, y] vm"
    "num_effect opMax 2 (yields (max m n)) r [x, y] vm"
  using assms AsInt64_bounds [OF assms(3)] AsInt64_bounds [OF assms(4)]
  by (simp_all add: num_simps num_ready_def opAdd_def opSub_def doNumCompare_def opMin_def opMax_def)

lemma AsBool_trimZeros: "AsBool x \<longleftrightarrow> trimZeros x \<noteq> []"
  by (induction x rule: rev_induct) (auto simp: AsBool_iff trimZeros_snoc)

lemma AsInt64_nonzero: "AsInt64 x = Inr n \<Longrightarrow> AsBool x \<longleftrightarrow> n \<noteq> 0"
proof -
  assume a: "AsInt64 x = Inr n"
  then have "Int64Bytes n = trimZeros x" by (rule Int64Bytes_AsInt64)
  moreover have "AsBool x \<longleftrightarrow> trimZeros x \<noteq> []" by (rule AsBool_trimZeros)
  moreover have "n = 0 \<longleftrightarrow> Int64Bytes n = []" using AsInt64_bounds [OF a] AsInt64_Int64Bytes [of n] AsInt64_Int64Bytes [of 0]
    by (auto simp: Int64Bytes_def in_i64_iff [of 0])
  ultimately show ?thesis by simp
qed

lemma num_bool:
  assumes "num_ready 2 vm" and "dataStack vm = r @ [x, y]" and "AsInt64 x = Inr m" and "AsInt64 y = Inr n"
  shows "num_effect opBoolAnd 2 (yields (of_bool (m \<noteq> 0 \<and> n \<noteq> 0))) r [x, y] vm"
    "num_effect opBoolOr 2 (yields (of_bool (m \<noteq> 0 \<or> n \<noteq> 0))) r [x, y] vm"
    "num_effect opNumEqualVerify 2 (if m = n then Ret None else Err ErrVerifyFailed) r [x, y] vm"
  using assms AsInt64_bounds [OF assms(3)] AsInt64_bounds [OF assms(4)] AsInt64_nonzero [OF assms(3)] AsInt64_nonzero [OF assms(4)]
  by (simp_all add: num_simps num_ready_def opBoolAnd_def opBoolOr_def opNumEqualVerify_def pop_deferred_eq ret_def)

lemma num_binary8:
  assumes "num_ready 8 vm" and "dataStack vm = r @ [x, y]" and "AsInt64 x = Inr m" and "AsInt64 y = Inr n"
  shows "num_effect opMul 8 (inRange (m * n)) r [x, y] vm"
    "num_effect opDiv 8 (if n = 0 then Err ErrDivZero else inRange (m sdiv n)) r [x, y] vm"
    "num_effect opRshift 8 (if n < 0 then Err ErrBadValue else yields (m div 2 ^ nat n)) r [x, y] vm"
  using assms AsInt64_bounds [OF assms(3)] AsInt64_bounds [OF assms(4)]
  by (simp_all add: num_simps num_ready_def opMul_def opDiv_def opRshift_def drop_bit_eq_div)

lemma num_lshift:
  assumes "num_ready 8 vm" and "dataStack vm = r @ [x, y]" and "AsInt64 x = Inr m" and "AsInt64 y = Inr n"
  shows "num_effect opLshift 8 (if n < 0 then Err ErrBadValue else inRange (m * 2 ^ nat n)) r [x, y] vm"
proof -
  have "m \<noteq> 0 \<Longrightarrow> \<not> n < 64 \<Longrightarrow> \<not> in_i64 (m * 2 ^ nat n)" by (rule lshift_out_of_range) auto
  then show ?thesis using assms AsInt64_bounds [OF assms(3)] AsInt64_bounds [OF assms(4)]
    by (auto simp: num_simps num_ready_def opLshift_def in_i64_iff [of 0])
qed

lemma num_mod:
  assumes "num_ready 8 vm" and "dataStack vm = r @ [x, y]" and "AsInt64 x = Inr m" and "AsInt64 y = Inr n"
  shows "num_effect opMod 8 (if n = 0 then Err ErrDivZero
    else if m = MinInt64 \<and> n = - 1 then Err ErrRange else yields (m mod n)) r [x, y] vm"
proof -
  have bnd: "in_i64 m" "in_i64 n" using assms(3,4) AsInt64_bounds by blast+
  have "n \<noteq> 0 \<Longrightarrow> in_i64 (m mod n)"
    using bnd pos_mod_bound [of n m] pos_mod_sign [of n m] neg_mod_bound [of n m] neg_mod_sign [of n m]
    unfolding in_i64_iff by (cases n "0 :: int" rule: linorder_cases) linarith+
  then have "n \<noteq> 0 \<Longrightarrow>
      (if m smod n \<noteq> 0 \<and> (m \<ge> 0) \<noteq> (n \<ge> 0) then i64 (m smod n + n) else m smod n) = m mod n"
    using smod_to_mod [of n m] by (auto split: if_splits)
  moreover have "n \<noteq> 0 \<Longrightarrow> ModInt64 m n = (if m = MinInt64 \<and> n = - 1 then None else Some (m smod n))"
    using bnd smod_in_range [of 64 m n] by (simp add: ModInt64_def ModS_def)
  ultimately show ?thesis using assms AsInt64_bounds [OF assms(3)] AsInt64_bounds [OF assms(4)]
    by (cases "n = 0"; cases "m = MinInt64 \<and> n = - 1")
      (auto simp: num_effect_def bindM_def throw_def popInt64_deferred_eq pushInt64_deferred_eq
        itemCost_def applyCost_def i64_small num_ready_def opMod_def)
qed

lemma num_within:
  assumes "num_ready 4 vm" and "dataStack vm = r @ [x, y, z]"
    and "AsInt64 x = Inr m" and "AsInt64 y = Inr lo" and "AsInt64 z = Inr hi"
  shows "num_effect opWithin 4 (yields (of_bool (lo \<le> m \<and> m < hi))) r [x, y, z] vm"
  using assms AsInt64_bounds [OF assms(3)] AsInt64_bounds [OF assms(4)] AsInt64_bounds [OF assms(5)]
  by (simp add: num_simps num_ready_def opWithin_def)

text \<open>The table is checked entry by entry.\<close>

definition num_ok :: "unit vmM \<times> int \<times> nat \<times> (int list \<Rightarrow> int option res) \<Rightarrow> bool" where
  "num_ok = (\<lambda>(m, c, n, f). \<forall>vm r xs ns. num_ready c vm \<longrightarrow> dataStack vm = r @ xs \<longrightarrow>
     map AsInt64 xs = map Inr ns \<longrightarrow> length ns = n \<longrightarrow> num_effect m c (f ns) r xs vm)"

lemma num_ok1:
  assumes "\<And>vm r x n. num_ready c vm \<Longrightarrow> dataStack vm = r @ [x] \<Longrightarrow> AsInt64 x = Inr n \<Longrightarrow>
    num_effect m c (g n) r [x] vm"
  shows "num_ok (m, c, 1, num1 g)"
  using assms by (auto simp: num_ok_def num1_def length_Suc_conv map_eq_Cons_conv)

lemma num_ok2:
  assumes "\<And>vm r x y i j. num_ready c vm \<Longrightarrow> dataStack vm = r @ [x, y] \<Longrightarrow> AsInt64 x = Inr i \<Longrightarrow>
    AsInt64 y = Inr j \<Longrightarrow> num_effect m c (g i j) r [x, y] vm"
  shows "num_ok (m, c, 2, num2 g)"
  using assms by (auto simp: num_ok_def num2_def numeral_2_eq_2 length_Suc_conv map_eq_Cons_conv)

lemma num_ok3:
  assumes "\<And>vm r x y z i j k. num_ready c vm \<Longrightarrow> dataStack vm = r @ [x, y, z] \<Longrightarrow> AsInt64 x = Inr i \<Longrightarrow>
    AsInt64 y = Inr j \<Longrightarrow> AsInt64 z = Inr k \<Longrightarrow> num_effect m c (g i j k) r [x, y, z] vm"
  shows "num_ok (m, c, 3, num3 g)"
  using assms
  by (auto simp: num_ok_def num3_def numeral_3_eq_3 numeral_2_eq_2 length_Suc_conv map_eq_Cons_conv)

lemmas num_compare =
  num_binary(3) [where cm = cmpEqual, unfolded compare_by.simps, folded opNumEqual_def]
  num_binary(3) [where cm = cmpNotEqual, unfolded compare_by.simps, folded opNumNotEqual_def]
  num_binary(3) [where cm = cmpLess, unfolded compare_by.simps, folded opLessThan_def]
  num_binary(3) [where cm = cmpGreater, unfolded compare_by.simps, folded opGreaterThan_def]
  num_binary(3) [where cm = cmpLessEqual, unfolded compare_by.simps, folded opLessThanOrEqual_def]
  num_binary(3) [where cm = cmpGreaterEqual, unfolded compare_by.simps, folded opGreaterThanOrEqual_def]

lemma list_all_Nil: "list_all P []"
  by simp

lemma numTable_ok: "list_all num_ok numTable"
  unfolding numTable_def list.pred_inject
  by (intro conjI list_all_Nil num_ok1 num_ok2 num_ok3;
      (rule num_unary num_abs num_binary(1,2,4,5) num_compare num_bool num_binary8 num_lshift num_mod num_within;
       assumption))

text \<open>
  C31. The numeric operations, all 27 of them, compute the function of the unbounded integers that their operands
  encode: exactly, or with \<^verbatim>\<open>ErrRange\<close>, \<^verbatim>\<open>ErrDivZero\<close> or \<^verbatim>\<open>ErrBadValue\<close>; \<^verbatim>\<open>NUMEQUALVERIFY\<close> pushes nothing or fails. In particular
  \<^verbatim>\<open>MOD\<close> corrects Go's truncated remainder to the floored one, whose sign follows the divisor.
  They keep the items below their operands and charge the memory change at the end.
\<close>
theorem numeric_ops_compute:
  assumes "(m, c, n, f) \<in> set numTable" and "num_ready c vm"
    and "dataStack vm = r @ xs" and "map AsInt64 xs = map Inr ns" and "length ns = n"
  shows "num_effect m c (f ns) r xs vm"
  using numTable_ok assms by (force simp: list_all_iff num_ok_def)

lemma numeric_ops_compute_witness:
  "let vm = newVM (bareContext [] []) [] False 100 0 [[9], Int64Bytes (- 7), Int64Bytes 3]
   in num_effect opMod 8 (yields 2) [[9]] [Int64Bytes (- 7), Int64Bytes 3] vm"
proof -
  let ?vm = "newVM (bareContext [] []) [] False 100 0 [[9], Int64Bytes (- 7), Int64Bytes 3]"
  let ?f = "num2 (\<lambda>x y. if y = 0 then Err ErrDivZero
      else if x = MinInt64 \<and> y = - 1 then Err ErrRange else yields (x mod y))"
  have "num_effect opMod 8 (?f [- 7, 3]) [[9]] [Int64Bytes (- 7), Int64Bytes 3] ?vm"
    by (rule numeric_ops_compute [where n = 2])
      (simp_all add: numTable_def num_ready_def newVM_def in_i64_iff)
  then show ?thesis by (simp add: num2_def)
qed

end
