(* ===== verification/VM_Splice.thy ===== *)
theory VM_Splice
  imports VM_Machine
begin

text \<open>
  The string operations of \<^verbatim>\<open>protocol/vm/splice.go\<close> and \<^verbatim>\<open>protocol/vm/bitwise.go\<close>, their
  accounting lemmas and their functional behaviour. Byte strings are values here. \<open>opCat\<close> and
  \<open>opCatpushdata\<close> push the right value at the right cost, but the code computes it with \<^verbatim>\<open>append(a, b...)\<close>, which writes in place when the array of
  \<open>a\<close> has room, and so can change other byte strings that share the array: a longer string from which \<open>a\<close> was cut with \<^verbatim>\<open>LEFT\<close> or
  \<^verbatim>\<open>SUBSTR\<close>, and even the running program. Which arrays have room is up to the allocator. This effect is not modelled: a run in which one of the two
  instructions is executed on a shared array is outside the model, and the theorems on the execution of arbitrary programs are for
  programs without these two bytes. No other instruction writes to a byte string.
\<close>

section \<open>Splice operations\<close>

definition opCat :: "unit vmM" where
  "opCat = bindM (applyCost 4) (\<lambda>_. bindM (pop True) (\<lambda>b. bindM (pop True) (\<lambda>a.
     let lens = i64 (int (length a) + int (length b)) in
     bindM (applyCost lens) (\<lambda>_.
     bindM (deferCost (i64 (- lens))) (\<lambda>_.
     push (a @ b) True)))))"

definition opSubstr :: "unit vmM" where
  "opSubstr = bindM (applyCost 4) (\<lambda>_. bindM (popInt64 True) (\<lambda>size.
     if size < 0 then throw ErrBadValue
     else bindM (applyCost size) (\<lambda>_.
       bindM (deferCost (i64 (- size))) (\<lambda>_.
       bindM (popInt64 True) (\<lambda>offset.
       if offset < 0 then throw ErrBadValue
       else bindM (pop True) (\<lambda>str.
         case AddInt64 offset size of
           None \<Rightarrow> throw ErrBadValue
         | Some e \<Rightarrow>
             if e > int (length str) then throw ErrBadValue
             else push (drop (nat offset) (take (nat e) str)) True))))))"

definition opLeft :: "unit vmM" where
  "opLeft = bindM (applyCost 4) (\<lambda>_. bindM (popInt64 True) (\<lambda>size.
     if size < 0 then throw ErrBadValue
     else bindM (applyCost size) (\<lambda>_.
       bindM (deferCost (i64 (- size))) (\<lambda>_.
       bindM (pop True) (\<lambda>str.
       if size > int (length str) then throw ErrBadValue
       else push (take (nat size) str) True)))))"

definition opRight :: "unit vmM" where
  "opRight = bindM (applyCost 4) (\<lambda>_. bindM (popInt64 True) (\<lambda>size.
     if size < 0 then throw ErrBadValue
     else bindM (applyCost size) (\<lambda>_.
       bindM (deferCost (i64 (- size))) (\<lambda>_.
       bindM (pop True) (\<lambda>str.
       let lstr = int (length str) in
       if size > lstr then throw ErrBadValue
       else push (drop (nat (lstr - size)) str) True)))))"

definition opSize :: "unit vmM" where
  "opSize = bindM (applyCost 1) (\<lambda>_. bindM top (\<lambda>str. pushInt64 (int (length str)) True))"

definition opCatpushdata :: "unit vmM" where
  "opCatpushdata = bindM (applyCost 4) (\<lambda>_. bindM (pop True) (\<lambda>b. bindM (pop True) (\<lambda>a.
     let lens = i64 (int (length a) + int (length b)) in
     bindM (applyCost lens) (\<lambda>_.
     bindM (deferCost (i64 (- lens))) (\<lambda>_.
     push (a @ PushdataBytes b) True)))))"

section \<open>Bitwise operations\<close>

definition opInvert :: "unit vmM" where
  "opInvert = bindM (applyCost 1) (\<lambda>_. bindM top (\<lambda>t.
     bindM (applyCost (int (length t))) (\<lambda>_.
     withVM (\<lambda>vm. setStack ((dataStack vm)[length (dataStack vm) - 1 := map (\<lambda>b. NOT b) t])))))"

definition opAnd :: "unit vmM" where
  "opAnd = bindM (applyCost 1) (\<lambda>_. bindM (pop True) (\<lambda>b. bindM (pop True) (\<lambda>a.
     let m = min (length a) (length b) in
     bindM (applyCost (int m)) (\<lambda>_.
     push (map (\<lambda>i. a ! i AND b ! i) [0..<m]) True))))"

definition doOr :: "bool \<Rightarrow> unit vmM" where
  "doOr isXor = bindM (applyCost 1) (\<lambda>_. bindM (pop True) (\<lambda>b. bindM (pop True) (\<lambda>a.
     let m = max (length a) (length b) in
     bindM (applyCost (int m)) (\<lambda>_.
     push (map (\<lambda>i.
       let aByte = (if i \<ge> length a then 0 else a ! i); bByte = (if i \<ge> length b then 0 else b ! i)
       in if isXor then aByte XOR bByte else aByte OR bByte) [0..<m]) True))))"

definition opOr :: "unit vmM" where "opOr = doOr False"

definition opXor :: "unit vmM" where "opXor = doOr True"

definition doEqual :: "bool vmM" where
  "doEqual = bindM (applyCost 1) (\<lambda>_. bindM (pop True) (\<lambda>b. bindM (pop True) (\<lambda>a.
     bindM (applyCost (int (min (length a) (length b)))) (\<lambda>_. ret (a = b)))))"

definition opEqual :: "unit vmM" where
  "opEqual = bindM doEqual (\<lambda>res. pushBool res True)"

definition opEqualVerify :: "unit vmM" where
  "opEqualVerify = bindM doEqual (\<lambda>res. if res then ret () else throw ErrVerifyFailed)"

section \<open>Accounting\<close>

lemma length_PushdataBytes: "length (PushdataBytes d) \<le> length d + 5"
  by (simp add: PushdataBytes_def Let_def)

lemma cost_splice_cat:
  assumes "\<And>a b :: bytes. length (f a b) \<le> length a + length b + 5"
  shows "cost_ok (bindM (applyCost 4) (\<lambda>_. bindM (pop True) (\<lambda>b. bindM (pop True) (\<lambda>a.
     let lens = i64 (int (length a) + int (length b)) in
     bindM (applyCost lens) (\<lambda>_. bindM (deferCost (i64 (- lens))) (\<lambda>_. push (f a b) True))))))"
proof (rule cost_okI', rule wp_bindI, erule wp_applyCost, simp, rule wp_bindI, erule wp_pop, simp,
    rule wp_bindI, erule wp_pop, simp, rule wp_LetI)
  fix S q k vm k1 k2 and a b :: bytes
  assume q: "q \<le> 2 ^ 58" and bud: "budget S (q - 4) 0 k2 vm" and k: "k = Suc k1" "k1 = Suc k2"
    and a: "int (length a) \<le> q - 4 + 0" and b: "int (length b) \<le> q - 4 + 0"
  define n where "n = int (length a + length b)"
  have n: "0 \<le> n" "n \<le> 2 ^ 59" using a b q by (simp_all add: n_def)
  then have lens: "i64 (int (length a) + int (length b)) = n"
    by (simp add: n_def i64_small)
  have len: "int (length (f a b)) \<le> 2 ^ 61" using assms [of a b] n by (simp add: n_def)
  show "wp (bindM (applyCost (i64 (int (length a) + int (length b)))) (\<lambda>_.
      bindM (deferCost (i64 (- i64 (int (length a) + int (length b))))) (\<lambda>_. push (f a b) True)))
      (\<lambda>_. spent S q k) vm"
    unfolding lens by (rule wp_bindI, rule wp_applyCost [OF bud n(1)], rule wp_bindI, erule wp_refund)
      (use n q len k in \<open>auto intro!: wp_push_deferred [OF _ len] elim!: spentI\<close>)
qed

lemma cost_splice:
  "cost_ok opCat" "cost_ok opCatpushdata"
  unfolding opCat_def opCatpushdata_def
  by (intro cost_splice_cat; use length_PushdataBytes in \<open>simp add: add.assoc\<close>)+

text \<open>The other operations are verified by applying the rules statement by statement.\<close>

lemma cost_substrings: "cost_ok opSubstr" "cost_ok opLeft" "cost_ok opRight" "cost_ok opSize"
  unfolding opSubstr_def opLeft_def opRight_def opSize_def
  by (rule cost_okI',
      (rule wp_bindI wp_LetI wp_if wp_option wp_throw | erule cost_rules | (simp add: in_i64_iff; fail))+)+

lemma cost_bitwise: "cost_ok opAnd" "cost_ok (doOr x)" "cost_ok opEqual" "cost_ok opEqualVerify"
  unfolding opAnd_def doOr_def doEqual_def opEqual_def opEqualVerify_def
  by (rule cost_okI',
      (rule wp_bindI wp_LetI wp_if wp_throw wp_ret [THEN iffD2] | erule cost_rules | (simp; fail))+)+

lemma cost_opInvert: "cost_ok opInvert"
  unfolding opInvert_def
proof (rule cost_ok_applyCost, simp, rule wp_bindI, erule wp_top)
  fix S q k vm assume b: "budget S (q - 1) 0 k vm" and "dataStack vm \<noteq> []"
  let ?t = "last (dataStack vm)"
  have "spent S q k (vm'\<lparr>dataStack := (dataStack vm')[length (dataStack vm') - 1 := map (\<lambda>b. NOT b) ?t]\<rparr>)"
    if "applyCost (int (length ?t)) vm = (Ret (), vm')" for vm'
  proof -
    have vm': "dataStack vm' = dataStack vm" using that by (auto simp: applyCost_def split: if_splits)
    have "budget S (q - 1 - int (length ?t)) 0 k vm'"
      using wp_applyCost [OF b, of "int (length ?t)" "\<lambda>_. budget S (q - 1 - int (length ?t)) 0 k"] that
      by (auto dest: wpD)
    then have "budget S (q - 1 - int (length ?t)) 0 k
        (vm'\<lparr>dataStack := (dataStack vm')[length (dataStack vm') - 1 := map (\<lambda>b. NOT b) ?t]\<rparr>)"
      using \<open>dataStack vm \<noteq> []\<close> split_last [of "dataStack vm"]
      by (intro budget_setStack) (auto simp: vm' itemCost_def list_update_append)
    then show ?thesis by (rule spentI) simp_all
  qed
  then show "wp (bindM (applyCost (int (length ?t))) (\<lambda>_. withVM (\<lambda>vm. setStack
      ((dataStack vm)[length (dataStack vm) - 1 := map (\<lambda>b. NOT b) ?t])))) (\<lambda>_. spent S q k) vm"
    by (intro wp_bindI wpI) (auto intro: wpI simp: setStack_def withVM_def)
qed

section \<open>The documented effect of the string operations\<close>

text \<open>
  \<open>string_effect m c rf v r xs vm\<close>: \<open>m\<close> charges \<open>c\<close> at once, replaces the items \<open>xs\<close> on top of \<open>r\<close> by
  \<open>v\<close>, and defers the change of the memory cost and the refund \<open>rf\<close> to the end of the instruction.
\<close>

definition string_effect ::
  "unit vmM \<Rightarrow> int \<Rightarrow> int \<Rightarrow> bytes \<Rightarrow> bytes list \<Rightarrow> bytes list \<Rightarrow> virtualMachine \<Rightarrow> bool" where
  "string_effect m c rf v r xs vm \<longleftrightarrow>
     m vm = (Ret (), vm\<lparr>runLimit := runLimit vm - c, dataStack := r @ [v],
               deferredCost := itemCost v - itemsCost xs - rf\<rparr>)"

definition string_ready :: "int \<Rightarrow> virtualMachine \<Rightarrow> bool" where
  "string_ready c vm \<longleftrightarrow> c \<le> runLimit vm \<and> runLimit vm + itemsCost (dataStack vm) \<le> 2 ^ 58 \<and> deferredCost vm = 0"

definition zeroPad :: "nat \<Rightarrow> bytes \<Rightarrow> bytes" where
  "zeroPad n bs = bs @ replicate (n - length bs) 0"

lemma length_zeroPad [simp]: "length (zeroPad n bs) = max n (length bs)"
  by (simp add: zeroPad_def)

lemmas string_simps = string_effect_def string_ready_def bindM_def throw_def Let_def pop_deferred_eq
  popInt64_deferred_eq push_deferred_eq pushInt64_deferred_eq pushBool_as_int itemCost_def applyCost_if deferCost_def i64_small

lemma effect_opCat:
  assumes "string_ready (4 + int (length a + length b)) vm" and "dataStack vm = r @ [a, b]"
  shows "string_effect opCat (4 + int (length a + length b)) (int (length a + length b)) (a @ b) r [a, b] vm"
  using assms itemsCost_nonneg [of r] by (simp add: string_simps opCat_def)

lemma effect_opCatpushdata:
  assumes "string_ready (4 + int (length a + length b)) vm" and "dataStack vm = r @ [a, b]"
  shows "string_effect opCatpushdata (4 + int (length a + length b)) (int (length a + length b))
    (a @ PushdataBytes b) r [a, b] vm"
  using assms itemsCost_nonneg [of r] length_PushdataBytes [of b] by (simp add: string_simps opCatpushdata_def)

lemma effect_opLeft:
  assumes "string_ready (4 + n) vm" and "dataStack vm = r @ [a, b]" and "AsInt64 b = Inr n"
    and "0 \<le> n" and "n \<le> int (length a)"
  shows "string_effect opLeft (4 + n) n (take (nat n) a) r [a, b] vm"
  using assms itemsCost_nonneg [of r] by (simp add: string_simps opLeft_def)

lemma effect_opRight:
  assumes "string_ready (4 + n) vm" and "dataStack vm = r @ [a, b]" and "AsInt64 b = Inr n"
    and "0 \<le> n" and "n \<le> int (length a)"
  shows "string_effect opRight (4 + n) n (drop (length a - nat n) a) r [a, b] vm"
  using assms itemsCost_nonneg [of r] by (simp add: string_simps opRight_def nat_diff_distrib)

lemma effect_opSubstr:
  assumes "string_ready (4 + n) vm" and "dataStack vm = r @ [a, b, c]" and "AsInt64 b = Inr i" and "AsInt64 c = Inr n"
    and "0 \<le> n" and "0 \<le> i" and "i + n \<le> int (length a)"
  shows "string_effect opSubstr (4 + n) n (take (nat n) (drop (nat i) a)) r [a, b, c] vm"
  using assms itemsCost_nonneg [of r]
  by (simp add: string_simps opSubstr_def AddInt64_def AddS_exact in_i64_iff take_drop nat_add_distrib add.commute)

lemma left_right_error:
  assumes "string_ready (4 + n) vm" and "4 \<le> runLimit vm" and "dataStack vm = r @ [a, b]"
    and "AsInt64 b = Inr n" and "n < 0 \<or> int (length a) < n"
  shows "fst (opLeft vm) = Err ErrBadValue" and "fst (opRight vm) = Err ErrBadValue"
  using assms itemsCost_nonneg [of r] by (auto simp: string_simps opLeft_def opRight_def)

lemma substr_error:
  assumes "string_ready (4 + n) vm" and "4 \<le> runLimit vm" and "dataStack vm = r @ [a, b, c]"
    and "AsInt64 b = Inr i" and "AsInt64 c = Inr n" and "n < 0 \<or> i < 0 \<or> int (length a) < i + n"
  shows "fst (opSubstr vm) = Err ErrBadValue"
  using assms itemsCost_nonneg [of r] AsInt64_in [OF assms(4)] AsInt64_in [OF assms(5)]
  by (auto simp: string_simps opSubstr_def AddInt64_def AddS_exact)

lemma effect_opAnd:
  assumes "string_ready (1 + int (min (length a) (length b))) vm" and "dataStack vm = r @ [a, b]"
  shows "string_effect opAnd (1 + int (min (length a) (length b))) 0 (map2 (\<lambda>x y. x AND y) a b) r [a, b] vm"
proof -
  have "map (\<lambda>i. a ! i AND b ! i) [0..<min (length a) (length b)] = map2 (\<lambda>x y. x AND y) a b"
    by (rule nth_equalityI) simp_all
  then show ?thesis using assms itemsCost_nonneg [of r] by (simp add: string_simps opAnd_def)
qed

lemma effect_doOr:
  assumes "string_ready (1 + int (max (length a) (length b))) vm" and "dataStack vm = r @ [a, b]"
  shows "string_effect (doOr x) (1 + int (max (length a) (length b))) 0
    (map2 (\<lambda>u v. if x then u XOR v else u OR v)
       (zeroPad (max (length a) (length b)) a) (zeroPad (max (length a) (length b)) b)) r [a, b] vm"
proof -
  have "map (\<lambda>i. let aByte = (if i \<ge> length a then 0 else a ! i); bByte = (if i \<ge> length b then 0 else b ! i)
       in if x then aByte XOR bByte else aByte OR bByte) [0..<max (length a) (length b)]
     = map2 (\<lambda>u v. if x then u XOR v else u OR v)
       (zeroPad (max (length a) (length b)) a) (zeroPad (max (length a) (length b)) b)"
    by (rule nth_equalityI) (auto simp: zeroPad_def nth_append Let_def)
  then show ?thesis using assms itemsCost_nonneg [of r]
    by (simp add: string_effect_def string_ready_def bindM_def pop_deferred_eq push_deferred_eq itemCost_def
        applyCost_if doOr_def Let_def [of "max _ _"])
qed

lemma effect_opEqual:
  assumes "string_ready (1 + int (min (length a) (length b))) vm" and "dataStack vm = r @ [a, b]"
  shows "string_effect opEqual (1 + int (min (length a) (length b))) 0 (BoolBytes (a = b)) r [a, b] vm"
  using assms itemsCost_nonneg [of r] length_BoolBytes [of "a = b"]
  by (simp add: string_effect_def string_ready_def bindM_def pop_deferred_eq push_deferred_eq itemCost_def
        applyCost_if opEqual_def doEqual_def pushBool_def ret_def)

lemma effect_opInvert:
  assumes "string_ready (1 + int (length a)) vm" and "dataStack vm = r @ [a]"
  shows "opInvert vm =
    (Ret (), vm\<lparr>runLimit := runLimit vm - (1 + int (length a)), dataStack := r @ [map (\<lambda>b. NOT b) a]\<rparr>)"
  using assms itemsCost_nonneg [of r]
  by (simp add: string_simps opInvert_def top_def withVM_def setStack_def ret_def list_update_append)

text \<open>
  \<^verbatim>\<open>CAT\<close> concatenates, \<^verbatim>\<open>CATPUSHDATA\<close> appends the encoded push of its second operand, and
  \<^verbatim>\<open>LEFT\<close>, \<^verbatim>\<open>RIGHT\<close> and \<^verbatim>\<open>SUBSTR\<close> cut out exactly the named part whenever it lies within the string
  (otherwise they fail with \<^verbatim>\<open>ErrBadValue\<close>). The bytes handled are charged while the instruction runs
  and refunded at its end.
\<close>
lemma splice_ops_compute:
  assumes "string_ready (4 + int (length a + length b)) vm" and "dataStack vm = r @ [a, b]"
  shows "string_effect opCat (4 + int (length a + length b)) (int (length a + length b)) (a @ b) r [a, b] vm
    \<and> string_effect opCatpushdata (4 + int (length a + length b)) (int (length a + length b))
        (a @ PushdataBytes b) r [a, b] vm
    \<and> (\<forall>n. AsInt64 b = Inr n \<longrightarrow> 4 + n \<le> runLimit vm \<longrightarrow>
         (if 0 \<le> n \<and> n \<le> int (length a)
          then string_effect opLeft (4 + n) n (take (nat n) a) r [a, b] vm
             \<and> string_effect opRight (4 + n) n (drop (length a - nat n) a) r [a, b] vm
          else fst (opLeft vm) = Err ErrBadValue \<and> fst (opRight vm) = Err ErrBadValue))
    \<and> (\<forall>r' s i n. r = r' @ [s] \<longrightarrow> AsInt64 a = Inr i \<longrightarrow> AsInt64 b = Inr n \<longrightarrow> 4 + n \<le> runLimit vm \<longrightarrow>
         (if 0 \<le> n \<and> 0 \<le> i \<and> i + n \<le> int (length s)
          then string_effect opSubstr (4 + n) n (take (nat n) (drop (nat i) s)) r' [s, a, b] vm
          else fst (opSubstr vm) = Err ErrBadValue))"
proof (intro conjI allI impI)
  fix n assume n: "AsInt64 b = Inr n" "4 + n \<le> runLimit vm"
  then have ready: "string_ready (4 + n) vm" using assms(1) by (simp add: string_ready_def)
  show "if 0 \<le> n \<and> n \<le> int (length a)
      then string_effect opLeft (4 + n) n (take (nat n) a) r [a, b] vm
         \<and> string_effect opRight (4 + n) n (drop (length a - nat n) a) r [a, b] vm
      else fst (opLeft vm) = Err ErrBadValue \<and> fst (opRight vm) = Err ErrBadValue"
    using effect_opLeft [OF ready assms(2) n(1)] effect_opRight [OF ready assms(2) n(1)]
      left_right_error [OF ready _ assms(2) n(1)] assms(1) by (auto simp: string_ready_def)
next
  fix r' s i n assume st: "r = r' @ [s]" "AsInt64 a = Inr i" "AsInt64 b = Inr n" "4 + n \<le> runLimit vm"
  then have ready: "string_ready (4 + n) vm" using assms(1) by (simp add: string_ready_def)
  have vm: "dataStack vm = r' @ [s, a, b]" using assms(2) st(1) by simp
  show "if 0 \<le> n \<and> 0 \<le> i \<and> i + n \<le> int (length s)
      then string_effect opSubstr (4 + n) n (take (nat n) (drop (nat i) s)) r' [s, a, b] vm
      else fst (opSubstr vm) = Err ErrBadValue"
    using effect_opSubstr [OF ready vm st(2,3)] substr_error [OF ready _ vm st(2,3)] assms(1)
    by (auto simp: string_ready_def)
qed (fact effect_opCat [OF assms] effect_opCatpushdata [OF assms])+

lemma splice_ops_compute_witness:
  "let vm = newVM (bareContext [] []) [] False 100 0 [[7, 8, 9], [2]]
   in string_effect opCat 8 4 [7, 8, 9, 2] [] [[7, 8, 9], [2]] vm
    \<and> string_effect opLeft 6 2 [7, 8] [] [[7, 8, 9], [2]] vm
    \<and> string_effect opRight 6 2 [8, 9] [] [[7, 8, 9], [2]] vm"
proof -
  let ?vm = "newVM (bareContext [] []) [] False 100 0 [[7, 8, 9], [2]]"
  have int2: "AsInt64 [2] = Inr 2" by code_simp
  have "string_ready (4 + int (length [7, 8, 9 :: byte] + length [2 :: byte])) ?vm"
    "dataStack ?vm = [] @ [[7, 8, 9], [2]]"
    by (simp_all add: string_ready_def newVM_def itemCost_def)
  from splice_ops_compute [OF this] int2 show ?thesis by (simp add: newVM_def Let_def)
qed

text \<open>
  \<^verbatim>\<open>AND\<close> works on the common prefix of its operands, \<^verbatim>\<open>OR\<close> and \<^verbatim>\<open>XOR\<close> on the operands padded with
  zero bytes to the longer length, \<^verbatim>\<open>EQUAL\<close> decides equality of the strings, \<^verbatim>\<open>INVERT\<close> complements
  every byte of the top item; each charges one unit plus the number of bytes it handles.
\<close>
lemma bitwise_ops_compute:
  assumes "string_ready (1 + int (max (length a) (length b))) vm" and "dataStack vm = r @ [a, b]"
  shows "string_effect opAnd (1 + int (min (length a) (length b))) 0 (map2 (\<lambda>x y. x AND y) a b) r [a, b] vm
    \<and> string_effect opOr (1 + int (max (length a) (length b))) 0 (map2 (\<lambda>x y. x OR y)
        (zeroPad (max (length a) (length b)) a) (zeroPad (max (length a) (length b)) b)) r [a, b] vm
    \<and> string_effect opXor (1 + int (max (length a) (length b))) 0 (map2 (\<lambda>x y. x XOR y)
        (zeroPad (max (length a) (length b)) a) (zeroPad (max (length a) (length b)) b)) r [a, b] vm
    \<and> string_effect opEqual (1 + int (min (length a) (length b))) 0 (BoolBytes (a = b)) r [a, b] vm
    \<and> opInvert vm = (Ret (), vm\<lparr>runLimit := runLimit vm - (1 + int (length b)),
        dataStack := r @ [a, map (\<lambda>x. NOT x) b]\<rparr>)"
proof -
  have small: "string_ready (1 + int (min (length a) (length b))) vm" "string_ready (1 + int (length b)) vm"
    using assms(1) by (auto simp: string_ready_def)
  have "dataStack vm = (r @ [a]) @ [b]" using assms(2) by simp
  from effect_opInvert [OF small(2) this] effect_opAnd [OF small(1) assms(2)]
    effect_opEqual [OF small(1) assms(2)] effect_doOr [OF assms, of True] effect_doOr [OF assms, of False]
  show ?thesis by (simp add: opOr_def opXor_def)
qed

lemma bitwise_ops_compute_witness:
  "string_effect opXor 3 0 [6, 8] [] [[5], [3, 8]] (newVM (bareContext [] []) [] False 100 0 [[5], [3, 8]])"
proof -
  let ?vm = "newVM (bareContext [] []) [] False 100 0 [[5], [3, 8]]"
  have "string_ready (1 + int (max (length [5 :: byte]) (length [3, 8 :: byte]))) ?vm"
    "dataStack ?vm = [] @ [[5], [3, 8]]"
    by (simp_all add: string_ready_def newVM_def itemCost_def)
  from bitwise_ops_compute [OF this] show ?thesis by (simp add: zeroPad_def)
qed

end
