(* ===== verification/VM_Crypto.thy ===== *)
theory VM_Crypto
  imports VM_Machine "HOL-Library.Sublist"
begin

text \<open>
  The operations of \<^verbatim>\<open>protocol/vm/crypto.go\<close> and \<^verbatim>\<open>protocol/vm/introspection.go\<close>. Hash functions and
  signature verification are the parameter \<open>P\<close>; a field of the context that is a nil pointer or nil
  function in Go is \<open>None\<close>.
\<close>

section \<open>Hashing and signatures\<close>

definition doHash :: "(bytes \<Rightarrow> bytes) \<Rightarrow> unit vmM" where
  "doHash h = bindM (pop False) (\<lambda>x.
     let cost = int (length x); cost = (if cost < 64 then 64 else cost) in
     bindM (applyCost cost) (\<lambda>_. push (h x) False))"

definition opSha256 :: "prims \<Rightarrow> unit vmM" where
  "opSha256 P = doHash (sha256 P)"

definition opSha3 :: "prims \<Rightarrow> unit vmM" where
  "opSha3 P = doHash (sha3_256 P)"

definition PublicKeySize :: nat where
  "PublicKeySize = 32"

definition opCheckSig :: "prims \<Rightarrow> unit vmM" where
  "opCheckSig P = bindM (applyCost 1024) (\<lambda>_. bindM (pop True) (\<lambda>pubkeyBytes.
     bindM (pop True) (\<lambda>msg. bindM (pop True) (\<lambda>sig.
     if length msg \<noteq> 32 then throw ErrBadValue
     else if length pubkeyBytes \<noteq> PublicKeySize then pushBool False True
     else pushBool (ed25519_Verify P pubkeyBytes msg sig) True))))"

text \<open>The loops of \<open>opCheckMultiSig\<close>: popping \<open>n\<close> items, and matching signatures with keys.\<close>

primrec popLoop :: "nat \<Rightarrow> bytes list \<Rightarrow> bytes list vmM" where
  "popLoop 0 acc = ret acc"
| "popLoop (Suc n) acc = bindM (pop True) (\<lambda>x. popLoop n (acc @ [x]))"

fun matchSigs :: "prims \<Rightarrow> bytes \<Rightarrow> bytes list \<Rightarrow> bytes list \<Rightarrow> bytes list" where
  "matchSigs P msg (s # sigs) (k # pubkeys) =
     matchSigs P msg (if ed25519_Verify P k msg s then sigs else s # sigs) pubkeys"
| "matchSigs P msg sigs pubkeys = sigs"

definition opCheckMultiSig :: "prims \<Rightarrow> unit vmM" where
  "opCheckMultiSig P = bindM (popInt64 True) (\<lambda>numPubkeys.
     case MulInt64 numPubkeys 1024 of
       None \<Rightarrow> throw ErrBadValue
     | Some pubCost \<Rightarrow>
         if numPubkeys < 0 then throw ErrBadValue
         else bindM (applyCost pubCost) (\<lambda>_. bindM (popInt64 True) (\<lambda>numSigs.
           if numSigs < 0 \<or> numSigs > numPubkeys \<or> (numPubkeys > 0 \<and> numSigs = 0) then throw ErrBadValue
           else bindM (popLoop (nat numPubkeys) []) (\<lambda>pubkeyByteses. bindM (pop True) (\<lambda>msg.
             if length msg \<noteq> 32 then throw ErrBadValue
             else bindM (popLoop (nat numSigs) []) (\<lambda>sigs.
               if list_ex (\<lambda>p. length p \<noteq> PublicKeySize) pubkeyByteses then pushBool False True
               else pushBool (matchSigs P msg sigs pubkeyByteses = []) True))))))"

definition opTxSigHash :: "unit vmM" where
  "opTxSigHash = bindM (applyCost 256) (\<lambda>_. withVM (\<lambda>vm.
     case TxSigHash (vcontext vm) of None \<Rightarrow> throw ErrContext | Some h \<Rightarrow> push h False))"

definition opBlockHash :: "unit vmM" where
  "opBlockHash = bindM (applyCost 1) (\<lambda>_. withVM (\<lambda>vm.
     case BlockHash (vcontext vm) of None \<Rightarrow> throw ErrContext | Some h \<Rightarrow> push h False))"

section \<open>Introspection\<close>

definition lift_res :: "'a res \<Rightarrow> 'a vmM" where
  "lift_res r = (\<lambda>vm. (r, vm))"

definition opCheckOutput :: "unit vmM" where
  "opCheckOutput = bindM (applyCost 16) (\<lambda>_. bindM (pop True) (\<lambda>code. bindM (popInt64 True) (\<lambda>vmVersion.
     if vmVersion < 0 then throw ErrBadValue
     else bindM (pop True) (\<lambda>assetID. bindM (popInt64 True) (\<lambda>amount.
       if amount < 0 then throw ErrBadValue
       else bindM (pop True) (\<lambda>data. bindM (popInt64 True) (\<lambda>index.
         if index < 0 then throw ErrBadValue
         else withVM (\<lambda>vm. case CheckOutput (vcontext vm) of
             None \<Rightarrow> throw ErrContext
           | Some f \<Rightarrow>
               bindM (lift_res (f (word_of_int index) data (word_of_int amount) assetID (word_of_int vmVersion)
                        code (expansionReserved vm)))
                 (\<lambda>ok. pushBool ok True)))))))))"

text \<open>Pushing a byte string or an unsigned number of the context.\<close>

definition pushField :: "(Context \<Rightarrow> bytes option) \<Rightarrow> unit vmM" where
  "pushField f = bindM (applyCost 1) (\<lambda>_. withVM (\<lambda>vm.
     case f (vcontext vm) of None \<Rightarrow> throw ErrContext | Some d \<Rightarrow> push d True))"

definition pushUint64 :: "(Context \<Rightarrow> uint64 option) \<Rightarrow> unit vmM" where
  "pushUint64 f = bindM (applyCost 1) (\<lambda>_. withVM (\<lambda>vm.
     case f (vcontext vm) of None \<Rightarrow> throw ErrContext | Some n \<Rightarrow> pushInt64 (i64 (uint n)) True))"

definition opAsset :: "unit vmM" where "opAsset = pushField AssetID"
definition opAmount :: "unit vmM" where "opAmount = pushUint64 Amount"

definition opProgram :: "unit vmM" where
  "opProgram = bindM (applyCost 1) (\<lambda>_. withVM (\<lambda>vm. push (Code (vcontext vm)) True))"

definition opMinTime :: "unit vmM" where "opMinTime = pushUint64 MinTimeMS"

definition opMaxTime :: "unit vmM" where
  "opMaxTime = bindM (applyCost 1) (\<lambda>_. withVM (\<lambda>vm.
     case MaxTimeMS (vcontext vm) of
       None \<Rightarrow> throw ErrContext
     | Some m \<Rightarrow>
         let maxTimeMS = (if m = 0 \<or> uint m > MaxInt64 then word_of_int MaxInt64 else m)
         in pushInt64 (i64 (uint maxTimeMS)) True))"

definition opEntryData :: "unit vmM" where "opEntryData = pushField EntryData"
definition opTxData :: "unit vmM" where "opTxData = pushField TxData"
definition opIndex :: "unit vmM" where "opIndex = pushUint64 DestPos"

definition opEntryID :: "unit vmM" where
  "opEntryID = bindM (applyCost 1) (\<lambda>_. withVM (\<lambda>vm. push (EntryID (vcontext vm)) True))"

definition opOutputID :: "unit vmM" where "opOutputID = pushField SpentOutputID"
definition opNonce :: "unit vmM" where "opNonce = pushField AnchorID"
definition opNextProgram :: "unit vmM" where "opNextProgram = pushField NextConsensusProgram"
definition opBlockTime :: "unit vmM" where "opBlockTime = pushUint64 BlockTimeMS"

section \<open>Accounting\<close>

text \<open>The digests of the hash functions have 32 bytes.\<close>

definition prims_ok :: "prims \<Rightarrow> bool" where
  "prims_ok P \<longleftrightarrow> (\<forall>x. length (sha256 P x) = 32) \<and> (\<forall>x. length (sha3_256 P x) = 32)"

lemma cost_doHash: "(\<And>x. length (h x) = 32) \<Longrightarrow> cost_ok (doHash h)"
  unfolding doHash_def
  by (rule cost_okI', (rule wp_bindI wp_LetI | erule cost_rules | (auto; fail))+)

lemma cost_opCheckSig: "cost_ok (opCheckSig P)"
  unfolding opCheckSig_def
  by (rule cost_okI', (rule wp_bindI wp_if wp_throw | erule cost_rules | (simp; fail))+)

lemma wp_popLoop [cost_rules]:
  assumes "budget S q d k vm" and "d \<le> 2 ^ 61"
    and "\<And>xs k' vm'. budget S q d k' vm' \<Longrightarrow> k = k' + n \<Longrightarrow> Q xs vm'"
  shows "wp (popLoop n acc) Q vm"
  using assms(1,3)
proof (induction n arbitrary: acc k vm)
  case (Suc n)
  show ?case
    by (simp, rule wp_pop [OF Suc.prems(1) assms(2)], erule Suc.IH) (simp add: Suc.prems(2))
qed simp

lemma MulInt64_nonneg: "in_i64 n \<Longrightarrow> 0 \<le> n \<Longrightarrow> MulInt64 n 1024 = Some c \<Longrightarrow> 0 \<le> c"
  by (auto simp: MulInt64_def MulS_exact in_i64_iff [of 1024] split: if_splits)

lemma cost_opCheckMultiSig: "cost_ok (opCheckMultiSig P)"
  unfolding opCheckMultiSig_def
  by (rule cost_okI', (rule wp_bindI wp_if wp_option wp_throw | erule cost_rules |
      (auto simp: not_less dest: MulInt64_nonneg; fail))+)

lemma wp_lift_res: "(\<And>a. r = Ret a \<Longrightarrow> Q a vm) \<Longrightarrow> wp (lift_res r) Q vm"
  by (rule wpI) (simp add: lift_res_def)

lemma cost_opCheckOutput: "cost_ok opCheckOutput"
  unfolding opCheckOutput_def
  by (rule cost_okI', (rule wp_bindI wp_withVMI wp_if wp_option wp_throw wp_lift_res | erule cost_rules | (simp; fail))+)

lemma cost_push_hash:
  assumes "0 < c" and "f \<in> {TxSigHash, BlockHash}"
  shows "cost_ok (bindM (applyCost c) (\<lambda>_. withVM (\<lambda>vm.
     case f (vcontext vm) of None \<Rightarrow> throw ErrContext | Some h \<Rightarrow> push h False)))"
proof (rule cost_ok_applyCost, use assms(1) in simp, rule wp_withVMI, rule wp_option)
  fix S q k vm h assume b: "budget S (q - c) 0 k vm" and h: "f (vcontext vm) = Some h"
  have "int (length h) \<le> 2 ^ 60" by (rule budget_field [where f = f, OF b _ h]) (use assms(2) in auto)
  then show "wp (push h False) (\<lambda>_. spent S q k) vm"
    by (intro wp_push_now [OF b]) (use assms(1) in \<open>auto elim!: spentI\<close>)
qed simp

lemma cost_pushField:
  assumes "f \<in> {AssetID, EntryData, TxData, AnchorID, SpentOutputID, NextConsensusProgram}"
  shows "cost_ok (pushField f)"
  unfolding pushField_def
proof (rule cost_ok_applyCost, simp, rule wp_withVMI, rule wp_option)
  fix S q k vm d assume b: "budget S (q - 1) 0 k vm" and d: "f (vcontext vm) = Some d"
  have "int (length d) \<le> 2 ^ 60" by (rule budget_field [where f = f, OF b _ d]) (use assms in auto)
  then show "wp (push d True) (\<lambda>_. spent S q k) vm"
    by (intro wp_push_deferred [OF b]) (auto elim!: spentI)
qed simp

lemma cost_pushUint64: "cost_ok (pushUint64 f)"
  unfolding pushUint64_def
  by (rule cost_okI', (rule wp_bindI wp_withVMI wp_option wp_throw | erule cost_rules | (simp; fail))+)

lemma cost_push_own:
  assumes "f \<in> {Code, EntryID}"
  shows "cost_ok (bindM (applyCost 1) (\<lambda>_. withVM (\<lambda>vm. push (f (vcontext vm)) True)))"
proof (rule cost_ok_applyCost, simp, rule wp_withVMI)
  fix S q k vm assume b: "budget S (q - 1) 0 k vm"
  show "wp (push (f (vcontext vm)) True) (\<lambda>_. spent S q k) vm"
    by (rule wp_push_deferred [OF b]) (use assms budget_code [OF b] in \<open>auto elim!: spentI\<close>)
qed

lemma cost_opMaxTime: "cost_ok opMaxTime"
  unfolding opMaxTime_def
  by (rule cost_okI', (rule wp_bindI wp_withVMI wp_LetI wp_option wp_throw | erule cost_rules | (simp; fail))+)

lemma cost_crypto:
  assumes "prims_ok P"
  shows "cost_ok (opSha256 P)" "cost_ok (opSha3 P)" "cost_ok opTxSigHash" "cost_ok opBlockHash"
  using assms by (simp_all add: opSha256_def opSha3_def prims_ok_def cost_doHash opTxSigHash_def opBlockHash_def
      cost_push_hash)

lemma cost_introspection:
  "cost_ok opAsset" "cost_ok opAmount" "cost_ok opProgram" "cost_ok opMinTime" "cost_ok opEntryData"
  "cost_ok opTxData" "cost_ok opIndex" "cost_ok opEntryID" "cost_ok opOutputID" "cost_ok opNonce"
  "cost_ok opNextProgram" "cost_ok opBlockTime"
  by (simp_all add: opAsset_def opAmount_def opProgram_def opMinTime_def opEntryData_def opTxData_def opIndex_def
      opEntryID_def opOutputID_def opNonce_def opNextProgram_def opBlockTime_def cost_pushField cost_pushUint64
      cost_push_own)

section \<open>Multisignatures\<close>

text \<open>
  The signatures that the loop leaves over are none exactly when the signatures can be assigned,
  in order, to distinct keys: the greedy choice of the first key that fits is optimal.
\<close>

definition multisig_ok :: "prims \<Rightarrow> bytes \<Rightarrow> bytes list \<Rightarrow> bytes list \<Rightarrow> bool" where
  "multisig_ok P msg sigs keys \<longleftrightarrow>
     (\<exists>ks. subseq ks keys \<and> list_all2 (\<lambda>k s. ed25519_Verify P k msg s) ks sigs)"

lemma multisig_ok_Cons:
  "multisig_ok P msg (s # sigs) (k # keys) \<longleftrightarrow>
     (ed25519_Verify P k msg s \<and> multisig_ok P msg sigs keys) \<or> multisig_ok P msg (s # sigs) keys"
proof
  assume "multisig_ok P msg (s # sigs) (k # keys)"
  then show "(ed25519_Verify P k msg s \<and> multisig_ok P msg sigs keys) \<or> multisig_ok P msg (s # sigs) keys"
    unfolding multisig_ok_def list_all2_Cons2 by (auto split: if_splits)
next
  assume "(ed25519_Verify P k msg s \<and> multisig_ok P msg sigs keys) \<or> multisig_ok P msg (s # sigs) keys"
  then show "multisig_ok P msg (s # sigs) (k # keys)"
    unfolding multisig_ok_def by (metis list.rel_intros(2) list_emb_Cons subseq_Cons2)
qed

lemma multisig_ok_Nil [simp]: "multisig_ok P msg [] keys"
  by (simp add: multisig_ok_def)

lemma multisig_ok_drop: "multisig_ok P msg (s # sigs) keys \<Longrightarrow> multisig_ok P msg sigs keys"
  unfolding multisig_ok_def by (metis list_all2_Cons2 subseq_Cons')

lemma matchSigs_iff: "matchSigs P msg sigs keys = [] \<longleftrightarrow> multisig_ok P msg sigs keys"
proof (induction P msg sigs keys rule: matchSigs.induct)
  case (1 P msg s sigs k keys)
  then show ?case using multisig_ok_drop [of P msg s sigs keys] by (auto simp: multisig_ok_Cons)
qed (auto simp: multisig_ok_def dest: list_emb_Nil2)

lemma popLoop_eq:
  "dataStack vm = r @ xs \<Longrightarrow> \<bar>deferredCost vm\<bar> + itemsCost xs \<le> 2 ^ 59 \<Longrightarrow>
    popLoop (length xs) acc vm =
      (Ret (acc @ rev xs), vm\<lparr>dataStack := r, deferredCost := deferredCost vm - itemsCost xs\<rparr>)"
proof (induction xs arbitrary: acc vm rule: rev_induct)
  case (snoc x xs)
  have "pop True vm = (Ret x, vm\<lparr>dataStack := r @ xs, deferredCost := deferredCost vm - itemCost x\<rparr>)"
    using snoc.prems itemsCost_nonneg [of xs] itemCost_pos [of x] by (intro pop_deferred_eq) auto
  then show ?case using snoc.prems itemCost_pos [of x]
    by (simp add: bindM_def, subst snoc.IH) (auto simp: algebra_simps)
qed (simp add: ret_def)

lemma opCheckMultiSig_effect:
  assumes "dataStack vm = r @ rev sigs @ [msg] @ rev keys @ [Int64Bytes (int (length sigs)), Int64Bytes (int (length keys))]"
    and "length sigs \<le> length keys" and "keys \<noteq> [] \<longrightarrow> sigs \<noteq> []" and "length msg = 32"
    and "\<forall>k \<in> set keys. length k = PublicKeySize"
    and "1024 * int (length keys) \<le> runLimit vm" and "runLimit vm + itemsCost (dataStack vm) \<le> 2 ^ 58"
    and "deferredCost vm = 0"
  shows "opCheckMultiSig P vm = (Ret (), vm\<lparr>dataStack := r @ [BoolBytes (multisig_ok P msg sigs keys)],
    runLimit := runLimit vm - 1024 * int (length keys),
    deferredCost := itemCost (BoolBytes (multisig_ok P msg sigs keys)) - itemsCost (dataStack vm) + itemsCost r\<rparr>)"
proof -
  let ?nk = "Int64Bytes (int (length keys))" and ?ns = "Int64Bytes (int (length sigs))"
  have small: "1024 * int (length keys) \<le> 2 ^ 58" "int (length sigs) \<le> 2 ^ 58"
    using assms(2,6,7) itemsCost_nonneg [of "dataStack vm"] by auto
  have ints: "AsInt64 ?nk = Inr (int (length keys))" "AsInt64 ?ns = Inr (int (length sigs))"
    using small by (auto simp: in_i64_iff)
  have mul: "MulInt64 (int (length keys)) 1024 = Some (1024 * int (length keys))"
    using small by (simp add: MulInt64_def MulS_exact in_i64_iff mult.commute)
  have sum: "itemsCost r + itemsCost (rev sigs) + itemsCost (rev keys) \<le> 2 ^ 58" "runLimit vm \<le> 2 ^ 58"
    using assms(6,7) itemsCost_nonneg [of "rev keys"] itemsCost_nonneg [of r] itemsCost_nonneg [of "rev sigs"]
    by (auto simp: assms(1) itemCost_def)
  note nn = itemsCost_nonneg [of "rev keys"] itemsCost_nonneg [of r] itemsCost_nonneg [of "rev sigs"]
  have keysize: "\<not> list_ex (\<lambda>p. length p \<noteq> PublicKeySize) keys" using assms(5) by (auto simp: list_ex_iff)
  have loop: "popLoop (length ys) [] vm1 = (Ret ys, vm1\<lparr>dataStack := r', deferredCost := deferredCost vm1 - itemsCost (rev ys)\<rparr>)"
    if "dataStack vm1 = r' @ rev ys" "\<bar>deferredCost vm1\<bar> + itemsCost (rev ys) \<le> 2 ^ 59" for ys r' vm1
    using popLoop_eq [OF that, of "[]"] by simp
  show ?thesis
    using assms sum nn ints mul keysize length_Int64Bytes [of "int (length keys)"] length_Int64Bytes [of "int (length sigs)"]
      length_BoolBytes [of "multisig_ok P msg sigs keys"]
    by (cases "keys = []") (simp_all add: opCheckMultiSig_def bindM_def popInt64_deferred_eq [where r = "r @ rev sigs @ [msg] @ rev keys @ [?ns]"]
      popInt64_deferred_eq [where r = "r @ rev sigs @ [msg] @ rev keys"]
      applyCost_if itemCost_def loop pop_deferred_eq matchSigs_iff pushBool_def push_deferred_eq ret_def)
qed

text \<open>
  C26. \<^verbatim>\<open>CHECKMULTISIG\<close> on \<open>m\<close> signatures, a message of 32 bytes and \<open>n\<close> keys of the right size pushes
  true exactly when the signatures, in the order of the keys, verify under \<open>m\<close> distinct ones
  of them: the single pass over the keys finds an assignment whenever there is one.
\<close>
theorem checkmultisig_matches:
  assumes "dataStack vm = r @ rev sigs @ [msg] @ rev keys @ [Int64Bytes (int (length sigs)), Int64Bytes (int (length keys))]"
    and "length sigs \<le> length keys" and "keys \<noteq> [] \<longrightarrow> sigs \<noteq> []" and "length msg = 32"
    and "\<forall>k \<in> set keys. length k = PublicKeySize"
    and "1024 * int (length keys) \<le> runLimit vm" and "runLimit vm + itemsCost (dataStack vm) \<le> 2 ^ 58"
    and "deferredCost vm = 0"
  shows "\<exists>vm'. opCheckMultiSig P vm = (Ret (), vm') \<and>
    dataStack vm' = r @ [BoolBytes (multisig_ok P msg sigs keys)] \<and>
    runLimit vm' = runLimit vm - 1024 * int (length keys)"
  using opCheckMultiSig_effect [OF assms] by simp

text \<open>A stand-in for the primitives: constant digests, and a signature is the key followed by the message.\<close>

definition toyPrims :: prims where
  "toyPrims = \<lparr>sha256 = (\<lambda>_. replicate 32 0), sha3_256 = (\<lambda>_. replicate 32 0),
     ed25519_Verify = (\<lambda>k m s. s = k @ m)\<rparr>"

lemma toyPrims_ok: "prims_ok toyPrims"
  by (simp add: prims_ok_def toyPrims_def)

lemma checkmultisig_matches_witness:
  "let k1 = replicate 32 1; k2 = replicate 32 2; m = replicate 32 9;
       vm = newVM (bareContext [] []) [] False 5000 0 [k2 @ m, m, k2, k1, Int64Bytes 1, Int64Bytes 2]
   in \<exists>vm'. opCheckMultiSig toyPrims vm = (Ret (), vm') \<and> dataStack vm' = [BoolBytes True]"
proof -
  let ?k1 = "replicate 32 (1 :: byte)" and ?k2 = "replicate 32 (2 :: byte)" and ?m = "replicate 32 (9 :: byte)"
  let ?vm = "newVM (bareContext [] []) [] False 5000 0 [?k2 @ ?m, ?m, ?k2, ?k1, Int64Bytes 1, Int64Bytes 2]"
  have "multisig_ok toyPrims ?m [?k2 @ ?m] [?k1, ?k2]"
    unfolding multisig_ok_def by (rule exI [of _ "[?k2]"]) (simp add: toyPrims_def)
  moreover have "\<exists>vm'. opCheckMultiSig toyPrims ?vm = (Ret (), vm') \<and>
      dataStack vm' = [] @ [BoolBytes (multisig_ok toyPrims ?m [?k2 @ ?m] [?k1, ?k2])] \<and>
      runLimit vm' = runLimit ?vm - 1024 * int (length [?k1, ?k2])"
    using length_Int64Bytes [of 1] length_Int64Bytes [of 2]
    by (intro checkmultisig_matches) (simp_all add: newVM_def PublicKeySize_def itemCost_def)
  ultimately show ?thesis unfolding Let_def by auto
qed

end
