(* ===== verification/VM_Run.thy ===== *)
theory VM_Run
  imports VM_Stack VM_Numeric VM_Splice VM_Crypto
begin

text \<open>
  Control operations (\<^verbatim>\<open>protocol/vm/control.go\<close>), the table of operations (\<^verbatim>\<open>ops.go\<close>), and the
  execution loop \<open>step\<close>, \<open>run\<close> and \<open>Verify\<close> (\<^verbatim>\<open>vm.go\<close>). The loop has fuel, one unit per
  instruction of the machine or of a machine that \<^verbatim>\<open>CHECKPREDICATE\<close> starts; running out of it is
  the outcome \<open>OutOfFuel\<close>, which no Go execution has.
\<close>

section \<open>Control operations\<close>

definition opVerify :: "unit vmM" where
  "opVerify = bindM (applyCost 1) (\<lambda>_. bindM (pop True) (\<lambda>p.
     if AsBool p then ret () else throw ErrVerifyFailed))"

definition opFail :: "unit vmM" where
  "opFail = bindM (applyCost 1) (\<lambda>_. throw ErrReturn)"

text \<open>
  The effect of \<^verbatim>\<open>CHECKPREDICATE\<close> after its operands are known. \<open>runChild\<close> is \<open>run\<close>; a panic of the
  child is not recovered here, and slicing the stack with a negative \<open>n\<close> panics.
\<close>

definition runPredicate :: "unit vmM \<Rightarrow> int64 \<Rightarrow> bytes \<Rightarrow> nat \<Rightarrow> unit vmM" where
  "runPredicate runChild limit predicate n = withVM (\<lambda>vm.
     let st = dataStack vm; l = length st;
         childVM = newVM (vcontext vm) predicate False limit (depth vm + 1) (drop (l - n) st)
     in bindM (setStack (take (l - n) st)) (\<lambda>_.
        let (childErr, childVM') = runChild childVM in
        if childErr = Panic then goPanic
        else if childErr = OutOfFuel then (\<lambda>vm. (OutOfFuel, vm))
        else bindM (deferCost (i64 (- runLimit childVM'))) (\<lambda>_.
             bindM (deferCost (i64 (- stackCost (dataStack childVM')))) (\<lambda>_.
             bindM (deferCost (i64 (- stackCost (altStack childVM')))) (\<lambda>_.
             pushBool (childErr = Ret () \<and> \<not> falseResult childVM') True)))))"

definition opCheckPredicate :: "unit vmM \<Rightarrow> unit vmM" where
  "opCheckPredicate runChild = bindM (applyCost 256) (\<lambda>_. bindM (deferCost (- 256 + 64)) (\<lambda>_.
     bindM (popInt64 True) (\<lambda>limit. bindM (pop True) (\<lambda>predicate. bindM (popInt64 True) (\<lambda>n.
     if limit < 0 then throw ErrBadValue
     else withVM (\<lambda>vm.
       if n > int (length (dataStack vm)) then throw ErrDataStackUnderflow
       else
         let limit = (if limit = 0 then runLimit vm else limit) in
         bindM (applyCost limit) (\<lambda>_.
         if n < 0 then goPanic else runPredicate runChild limit predicate (nat n))))))))"

definition setNextPC :: "uint32 \<Rightarrow> unit vmM" where
  "setNextPC a = (\<lambda>vm. (Ret (), vm\<lparr>nextPC := a\<rparr>))"

text \<open>\<^verbatim>\<open>binary.LittleEndian.Uint32\<close> panics on fewer than four bytes.\<close>

definition jumpToData :: "unit vmM" where
  "jumpToData = withVM (\<lambda>vm.
     if length (vdata vm) < 4 then goPanic else setNextPC (word_of_nat (le_val (take 4 (vdata vm)))))"

definition opJump :: "unit vmM" where
  "opJump = bindM (applyCost 1) (\<lambda>_. jumpToData)"

definition opJumpIf :: "unit vmM" where
  "opJumpIf = bindM (applyCost 1) (\<lambda>_. bindM (pop True) (\<lambda>p.
     if AsBool p then jumpToData else ret ()))"

section \<open>The table of operations\<close>

text \<open>
  The literal of \<^verbatim>\<open>ops\<close>; then, as in \<^verbatim>\<open>init\<close>, the data pushes, \<^verbatim>\<open>CHECKPREDICATE\<close>, and for every
  remaining number an expansion opcode that does nothing.
\<close>

definition opsLiteral :: "prims \<Rightarrow> (byte \<times> string \<times> unit vmM) list" where
  "opsLiteral P =
    [
     (OP_FALSE, ''FALSE'', opFalse), (OP_PUSHDATA1, ''PUSHDATA1'', opPushdata),
     (OP_PUSHDATA2, ''PUSHDATA2'', opPushdata), (OP_PUSHDATA4, ''PUSHDATA4'', opPushdata),
     (OP_1NEGATE, ''1NEGATE'', op1Negate), (OP_NOP, ''NOP'', opNop), (OP_JUMP, ''JUMP'', opJump),
     (OP_JUMPIF, ''JUMPIF'', opJumpIf), (OP_VERIFY, ''VERIFY'', opVerify), (OP_FAIL, ''FAIL'', opFail),
     (OP_TOALTSTACK, ''TOALTSTACK'', opToAltStack), (OP_FROMALTSTACK, ''FROMALTSTACK'', opFromAltStack),
     (OP_2DROP, ''2DROP'', op2Drop), (OP_2DUP, ''2DUP'', op2Dup), (OP_3DUP, ''3DUP'', op3Dup),
     (OP_2OVER, ''2OVER'', op2Over), (OP_2ROT, ''2ROT'', op2Rot), (OP_2SWAP, ''2SWAP'', op2Swap),
     (OP_IFDUP, ''IFDUP'', opIfDup), (OP_DEPTH, ''DEPTH'', opDepth), (OP_DROP, ''DROP'', opDrop),
     (OP_DUP, ''DUP'', opDup), (OP_NIP, ''NIP'', opNip), (OP_OVER, ''OVER'', opOver),
     (OP_PICK, ''PICK'', opPick), (OP_ROLL, ''ROLL'', opRoll), (OP_ROT, ''ROT'', opRot),
     (OP_SWAP, ''SWAP'', opSwap), (OP_TUCK, ''TUCK'', opTuck), (OP_CAT, ''CAT'', opCat),
     (OP_SUBSTR, ''SUBSTR'', opSubstr), (OP_LEFT, ''LEFT'', opLeft), (OP_RIGHT, ''RIGHT'', opRight),
     (OP_SIZE, ''SIZE'', opSize), (OP_CATPUSHDATA, ''CATPUSHDATA'', opCatpushdata),
     (OP_INVERT, ''INVERT'', opInvert), (OP_AND, ''AND'', opAnd), (OP_OR, ''OR'', opOr),
     (OP_XOR, ''XOR'', opXor), (OP_EQUAL, ''EQUAL'', opEqual),
     (OP_EQUALVERIFY, ''EQUALVERIFY'', opEqualVerify), (OP_1ADD, ''1ADD'', op1Add),
     (OP_1SUB, ''1SUB'', op1Sub), (OP_2MUL, ''2MUL'', op2Mul), (OP_2DIV, ''2DIV'', op2Div),
     (OP_NEGATE, ''NEGATE'', opNegate), (OP_ABS, ''ABS'', opAbs), (OP_NOT, ''NOT'', opNot),
     (OP_0NOTEQUAL, ''0NOTEQUAL'', op0NotEqual), (OP_ADD, ''ADD'', opAdd), (OP_SUB, ''SUB'', opSub),
     (OP_MUL, ''MUL'', opMul), (OP_DIV, ''DIV'', opDiv), (OP_MOD, ''MOD'', opMod),
     (OP_LSHIFT, ''LSHIFT'', opLshift), (OP_RSHIFT, ''RSHIFT'', opRshift),
     (OP_BOOLAND, ''BOOLAND'', opBoolAnd), (OP_BOOLOR, ''BOOLOR'', opBoolOr),
     (OP_NUMEQUAL, ''NUMEQUAL'', opNumEqual), (OP_NUMEQUALVERIFY, ''NUMEQUALVERIFY'', opNumEqualVerify),
     (OP_NUMNOTEQUAL, ''NUMNOTEQUAL'', opNumNotEqual), (OP_LESSTHAN, ''LESSTHAN'', opLessThan),
     (OP_GREATERTHAN, ''GREATERTHAN'', opGreaterThan),
     (OP_LESSTHANOREQUAL, ''LESSTHANOREQUAL'', opLessThanOrEqual),
     (OP_GREATERTHANOREQUAL, ''GREATERTHANOREQUAL'', opGreaterThanOrEqual), (OP_MIN, ''MIN'', opMin),
     (OP_MAX, ''MAX'', opMax), (OP_WITHIN, ''WITHIN'', opWithin), (OP_SHA256, ''SHA256'', opSha256 P),
     (OP_SHA3, ''SHA3'', opSha3 P), (OP_CHECKSIG, ''CHECKSIG'', opCheckSig P),
     (OP_CHECKMULTISIG, ''CHECKMULTISIG'', opCheckMultiSig P),
     (OP_TXSIGHASH, ''TXSIGHASH'', opTxSigHash), (OP_BLOCKHASH, ''BLOCKHASH'', opBlockHash),
     (OP_CHECKOUTPUT, ''CHECKOUTPUT'', opCheckOutput), (OP_ASSET, ''ASSET'', opAsset),
     (OP_AMOUNT, ''AMOUNT'', opAmount), (OP_PROGRAM, ''PROGRAM'', opProgram),
     (OP_MINTIME, ''MINTIME'', opMinTime), (OP_MAXTIME, ''MAXTIME'', opMaxTime),
     (OP_TXDATA, ''TXDATA'', opTxData), (OP_ENTRYDATA, ''ENTRYDATA'', opEntryData),
     (OP_INDEX, ''INDEX'', opIndex), (OP_ENTRYID, ''ENTRYID'', opEntryID),
     (OP_OUTPUTID, ''OUTPUTID'', opOutputID), (OP_NONCE, ''NONCE'', opNonce),
     (OP_NEXTPROGRAM, ''NEXTPROGRAM'', opNextProgram), (OP_BLOCKTIME, ''BLOCKTIME'', opBlockTime)]"

definition isExpansion :: "prims \<Rightarrow> byte \<Rightarrow> bool" where
  "isExpansion P op \<longleftrightarrow> \<not> (OP_DATA_1 \<le> op \<and> op \<le> OP_DATA_75) \<and> \<not> (OP_1 \<le> op \<and> op \<le> OP_16) \<and>
     op \<noteq> OP_CHECKPREDICATE \<and> map_of (opsLiteral P) op = None"

definition opFn :: "prims \<Rightarrow> unit vmM \<Rightarrow> byte \<Rightarrow> unit vmM" where
  "opFn P runChild op =
     (if OP_DATA_1 \<le> op \<and> op \<le> OP_DATA_75 then opPushdata
      else if OP_1 \<le> op \<and> op \<le> OP_16 then opPushdata
      else if op = OP_CHECKPREDICATE then opCheckPredicate runChild
      else case map_of (opsLiteral P) op of None \<Rightarrow> opNop | Some (name, fn) \<Rightarrow> fn)"

section \<open>Execution\<close>

definition liftParse :: "Instruction res \<Rightarrow> Instruction vmM" where
  "liftParse r = (\<lambda>vm. (r, vm))"

definition update :: "(virtualMachine \<Rightarrow> virtualMachine) \<Rightarrow> unit vmM" where
  "update f = (\<lambda>vm. (Ret (), f vm))"

definition step :: "prims \<Rightarrow> unit vmM \<Rightarrow> unit vmM" where
  "step P runChild = bindM (withVM (\<lambda>vm. liftParse (ParseOp (program vm) (pc vm)))) (\<lambda>inst.
     bindM (update (\<lambda>vm. vm\<lparr>nextPC := pc vm + Len inst\<rparr>)) (\<lambda>_. withVM (\<lambda>vm.
     if isExpansion P (Op inst) then
       (if expansionReserved vm then throw ErrDisallowedOpcode
        else bindM (update (\<lambda>vm. vm\<lparr>pc := nextPC vm\<rparr>)) (\<lambda>_. applyCost 1))
     else
       bindM (update (\<lambda>vm. vm\<lparr>deferredCost := 0, vdata := Data inst\<rparr>)) (\<lambda>_.
       bindM (opFn P runChild (Op inst)) (\<lambda>_.
       bindM (withVM (\<lambda>vm. applyCost (deferredCost vm))) (\<lambda>_.
       update (\<lambda>vm. vm\<lparr>pc := nextPC vm\<rparr>)))))))"

primrec runLoop :: "prims \<Rightarrow> nat \<Rightarrow> unit vmM" where
  "runLoop P 0 = (\<lambda>vm. (OutOfFuel, vm))"
| "runLoop P (Suc fuel) = withVM (\<lambda>vm.
     if pc vm < word_of_nat (length (program vm))
     then bindM (step P (\<lambda>child. runLoop P fuel (child\<lparr>pc := 0\<rparr>))) (\<lambda>_. runLoop P fuel)
     else ret ())"

definition run :: "prims \<Rightarrow> nat \<Rightarrow> unit vmM" where
  "run P fuel = (\<lambda>vm. runLoop P fuel (vm\<lparr>pc := 0\<rparr>))"

primrec pushArgs :: "bytes list \<Rightarrow> unit vmM" where
  "pushArgs [] = ret ()"
| "pushArgs (arg # args) = bindM (push arg False) (\<lambda>_. pushArgs args)"

text \<open>\<open>recovered\<close> is the deferred function of \<open>Verify\<close>, which turns a panic into an error.\<close>

fun recovered :: "'a res \<Rightarrow> 'a res" where
  "recovered Panic = Err ErrUnexpected"
| "recovered r = r"

definition Verify :: "prims \<Rightarrow> nat \<Rightarrow> Context \<Rightarrow> unit res" where
  "Verify P fuel context =
     recovered (if VMVersion context \<noteq> 1 then Err ErrUnsupportedVM
       else
         let vm = newVM context (Code context) (TxVersion context = Some 1) initialRunLimit 0 [] in
         fst (bindM (pushArgs (Arguments context)) (\<lambda>_. bindM (run P fuel) (\<lambda>_. withVM (\<lambda>vm.
           if falseResult vm then throw ErrFalseVMResult else ret ()))) vm))"

end
