(* ===== verification/VM_Cost.thy ===== *)
theory VM_Cost
  imports VM_Run
begin

text \<open>
  What the run limit guarantees. Every instruction other than \<^verbatim>\<open>CHECKPREDICATE\<close> keeps the balance
  (run limit plus the memory charge of the stacks) from growing and makes a measure decrease;
  so executions of programs without \<^verbatim>\<open>CHECKPREDICATE\<close> end, and hold no more memory than the run limit
  pays for. With \<^verbatim>\<open>CHECKPREDICATE\<close> neither holds: the last section has a program that runs forever.
\<close>

section \<open>Every operation but \<^verbatim>\<open>CHECKPREDICATE\<close> keeps the accounting\<close>

lemma cost_opVerify: "cost_ok opVerify"
  unfolding opVerify_def
  by (rule cost_okI', (rule wp_bindI wp_if wp_throw wp_ret [THEN iffD2] | erule cost_rules | (simp; fail))+)

lemma cost_opFail: "cost_ok opFail"
  unfolding opFail_def by (rule cost_ok_applyCost) simp_all

lemma wp_jumpToData [cost_rules]:
  assumes "budget S q d k vm" and "\<And>vm'. budget S q d k vm' \<Longrightarrow> Q () vm'"
  shows "wp jumpToData Q vm"
proof -
  have "budget S q d k (vm\<lparr>nextPC := a\<rparr>)" for a
    using assms(1) by (simp add: budget_def settled_def frame_of_def)
  with assms(2) show ?thesis by (simp add: jumpToData_def wp_def withVM_def setNextPC_def goPanic_def)
qed

lemma cost_jumps: "cost_ok opJump" "cost_ok opJumpIf"
  unfolding opJump_def opJumpIf_def
  by (rule cost_okI', (rule wp_bindI wp_if wp_ret [THEN iffD2] | erule cost_rules | (simp; fail))+)+

lemmas cost_all = cost_opVerify cost_opFail cost_jumps cost_opFalse cost_opPushdata cost_op1Negate cost_opNop
  cost_opToAltStack cost_opFromAltStack cost_op2Drop cost_op2Dup cost_op3Dup cost_opDup cost_op2Over
  cost_op2Rot cost_op2Swap cost_opIfDup cost_opDepth cost_opDrop cost_opNip cost_opOver cost_opPick
  cost_opRoll cost_opRot cost_opSwap cost_opTuck cost_numeric cost_splice cost_substrings cost_bitwise
  cost_opInvert cost_opCheckSig cost_opCheckMultiSig cost_opCheckOutput cost_opMaxTime cost_introspection

lemma opsLiteral_cost: "prims_ok P \<Longrightarrow> list_all (\<lambda>(op, name, fn). cost_ok fn) (opsLiteral P)"
  by (simp add: opsLiteral_def cost_all cost_crypto opOr_def opXor_def opNumEqual_def opNumNotEqual_def
      opLessThan_def opGreaterThan_def opLessThanOrEqual_def opGreaterThanOrEqual_def)

lemma opFn_cost: "prims_ok P \<Longrightarrow> op \<noteq> OP_CHECKPREDICATE \<Longrightarrow> cost_ok (opFn P runChild op)"
  using opsLiteral_cost [of P]
  by (auto simp: opFn_def cost_opPushdata cost_opNop list_all_iff split: option.split dest!: map_of_SomeD)

lemma cost_okD: "cost_ok m \<Longrightarrow> budget S q 0 k vm \<Longrightarrow> m vm = (Ret (), vm') \<Longrightarrow> spent S q k vm'"
  unfolding cost_ok_def by (blast dest: wpD)

section \<open>The balance of a state\<close>

definition balance :: "virtualMachine \<Rightarrow> int" where
  "balance vm = runLimit vm + itemsCost (dataStack vm) + itemsCost (altStack vm)"

definition steady :: "frame \<Rightarrow> virtualMachine \<Rightarrow> bool" where
  "steady S vm \<longleftrightarrow> frame_of vm = S \<and> ctx_small (fst S) \<and> 0 \<le> runLimit vm \<and> balance vm \<le> 2 ^ 58"

definition progress :: "virtualMachine \<Rightarrow> int" where
  "progress vm = 2 * balance vm + int (length (dataStack vm))"

lemma steady_budget:
  "steady S vm \<Longrightarrow> length d \<le> 2 ^ 60 \<Longrightarrow>
    budget S (balance vm) 0 (length (dataStack vm)) (vm\<lparr>deferredCost := 0, vdata := d\<rparr>)"
  by (simp add: steady_def budget_def balance_def settled_def frame_of_def)

text \<open>Applying the deferred cost ends an instruction.\<close>

lemma spent_settles:
  assumes "spent S q k vm" and "applyCost (deferredCost vm) vm = (Ret (), vm')"
  shows "steady S vm' \<and> balance vm' \<le> q \<and> progress vm' < 2 * q + int k"
proof -
  obtain q' k' where b: "budget S q' (2 ^ 62) k' vm" and le: "q' \<le> q" "2 * q' + int k' < 2 * q + int k"
    using assms(1) by (auto simp: spent_def)
  let ?items = "itemsCost (dataStack vm) + itemsCost (altStack vm)"
  have pay: "deferredCost vm \<le> runLimit vm" and vm': "vm' = vm\<lparr>runLimit := i64 (runLimit vm - deferredCost vm)\<rparr>"
    using assms(2) by (auto simp: applyCost_def split: if_splits)
  have settled: "runLimit vm - deferredCost vm = q' - ?items" and q: "q' \<le> 2 ^ 58"
    using b by (auto simp: budget_def settled_def)
  have "0 \<le> ?items" using itemsCost_nonneg add_nonneg_nonneg by blast
  then have "i64 (runLimit vm - deferredCost vm) = q' - ?items"
    unfolding settled using pay settled q by (intro i64_small) simp_all
  then have vm'': "vm' = vm\<lparr>runLimit := q' - ?items\<rparr>" by (simp add: vm')
  then have bal: "balance vm' = q'" by (simp add: balance_def)
  have "steady S vm'" using b pay settled by (simp add: steady_def bal q) (simp add: budget_def vm'' frame_of_def)
  moreover have "progress vm' < 2 * q + int k"
    using b le unfolding progress_def bal by (simp add: budget_def vm'')
  ultimately show ?thesis using le bal by simp
qed

text \<open>A step after parsing.\<close>

lemma bind_update: "bindM (update f) g vm = g () (f vm)"
  by (simp add: bindM_def update_def)

lemma step_Ret:
  assumes "ParseOp (program vm) (pc vm) = Ret inst"
  shows "step P runChild vm =
    (let vm1 = vm\<lparr>nextPC := pc vm + Len inst\<rparr> in
     if isExpansion P (Op inst)
     then (if expansionReserved vm then (Err ErrDisallowedOpcode, vm1)
           else applyCost 1 (vm1\<lparr>pc := pc vm + Len inst\<rparr>))
     else bindM (opFn P runChild (Op inst)) (\<lambda>_.
       bindM (withVM (\<lambda>vm. applyCost (deferredCost vm))) (\<lambda>_. update (\<lambda>vm. vm\<lparr>pc := nextPC vm\<rparr>)))
         (vm1\<lparr>deferredCost := 0, vdata := Data inst\<rparr>))"
proof -
  have parse: "bindM (withVM (\<lambda>vm. liftParse (ParseOp (program vm) (pc vm)))) g vm = g inst vm" for g :: "_ \<Rightarrow> unit vmM"
    using assms by (simp add: bindM_def withVM_def liftParse_def)
  show ?thesis
    by (simp add: step_def parse bind_update withVM_def [of "\<lambda>vm. if _ then _ vm else _"] throw_def)
qed

lemma step_keeps_balance:
  assumes "prims_ok P" and "steady S vm" and "OP_CHECKPREDICATE \<notin> set (program vm)"
    and "step P runChild vm = (Ret (), vm')"
  shows "steady S vm' \<and> balance vm' \<le> balance vm \<and> progress vm' < progress vm"
proof -
  obtain inst where inst: "ParseOp (program vm) (pc vm) = Ret inst"
    using assms(4) by (auto simp: step_def bindM_def withVM_def liftParse_def split: res.splits)
  note ok = ParseOp_ok [OF inst, unfolded inst_ok_def]
  have "unat (pc vm) < length (program vm)" using ok by linarith
  then have "Op inst \<in> set (program vm)" using ok by simp
  then have op: "Op inst \<noteq> OP_CHECKPREDICATE" using assms(3) by auto
  let ?vm = "vm\<lparr>nextPC := pc vm + Len inst\<rparr>"
  have st: "steady S ?vm" "balance ?vm = balance vm" "progress ?vm = progress vm"
    using assms(2) by (simp_all add: steady_def balance_def frame_of_def progress_def)
  show ?thesis
  proof (cases "isExpansion P (Op inst)")
    case True
    then have "applyCost 1 (?vm\<lparr>pc := pc vm + Len inst\<rparr>) = (Ret (), vm')"
      using assms(4) inst by (auto simp: step_def bindM_def withVM_def liftParse_def update_def throw_def split: if_splits)
    then have "vm' = ?vm\<lparr>pc := pc vm + Len inst, runLimit := i64 (runLimit vm - 1)\<rparr>" "1 \<le> runLimit vm"
      by (auto simp: applyCost_def split: if_splits)
    moreover have "runLimit vm \<le> 2 ^ 58"
      using assms(2) itemsCost_nonneg [of "dataStack vm"] itemsCost_nonneg [of "altStack vm"]
      by (simp add: steady_def balance_def)
    ultimately show ?thesis
      using assms(2) by (simp add: steady_def balance_def frame_of_def progress_def i64_small)
  next
    case False
    let ?vm1 = "?vm\<lparr>deferredCost := 0, vdata := Data inst\<rparr>"
    obtain vm2 vm3 where ops: "opFn P runChild (Op inst) ?vm1 = (Ret (), vm2)"
      "applyCost (deferredCost vm2) vm2 = (Ret (), vm3)" "vm' = vm3\<lparr>pc := nextPC vm3\<rparr>"
      using assms(4) inst False
      by (auto simp: step_def bindM_def withVM_def liftParse_def update_def split: res.splits prod.splits)
    have "budget S (balance ?vm) 0 (length (dataStack ?vm)) ?vm1" by (rule steady_budget [OF st(1)]) (use ok in simp)
    then have "spent S (balance ?vm) (length (dataStack ?vm)) vm2"
      using ops(1) by (rule cost_okD [OF opFn_cost [OF assms(1) op]])
    from spent_settles [OF this ops(2)] st show ?thesis
      by (simp add: ops(3) progress_def) (simp add: steady_def balance_def frame_of_def)
  qed
qed

section \<open>No operation but \<^verbatim>\<open>CHECKPREDICATE\<close> panics\<close>

text \<open>
  \<open>safe I m\<close>: from states that satisfy \<open>I\<close> the operation ends with a value or an error, and \<open>I\<close> holds
  of the state a success leaves. The invariant \<open>fixed\<close> pins the context and the instruction's data.
\<close>

definition safe :: "(virtualMachine \<Rightarrow> bool) \<Rightarrow> 'a vmM \<Rightarrow> bool" where
  "safe I m \<longleftrightarrow> (\<forall>vm. I vm \<longrightarrow> returns (fst (m vm)) \<and> (\<forall>a vm'. m vm = (Ret a, vm') \<longrightarrow> I vm'))"

definition fixed :: "Context \<Rightarrow> bytes \<Rightarrow> virtualMachine \<Rightarrow> bool" where
  "fixed c d vm \<longleftrightarrow> vcontext vm = c \<and> vdata vm = d"

definition callback_returns :: "Context \<Rightarrow> bool" where
  "callback_returns c \<longleftrightarrow> (\<forall>f i d a as v co e. CheckOutput c = Some f \<longrightarrow> returns (f i d a as v co e))"

lemma safeI:
  "(\<And>vm. I vm \<Longrightarrow> returns (fst (m vm))) \<Longrightarrow> (\<And>vm a vm'. I vm \<Longrightarrow> m vm = (Ret a, vm') \<Longrightarrow> I vm') \<Longrightarrow> safe I m"
  unfolding safe_def by blast

lemma safeD: "safe I m \<Longrightarrow> I vm \<Longrightarrow> returns (fst (m vm))"
  "safe I m \<Longrightarrow> I vm \<Longrightarrow> m vm = (Ret a, vm') \<Longrightarrow> I vm'"
  unfolding safe_def by blast+

lemma bindM_cases: "bindM m f vm = (case fst (m vm) of Ret a \<Rightarrow> f a (snd (m vm))
    | Err e \<Rightarrow> (Err e, snd (m vm)) | Panic \<Rightarrow> (Panic, snd (m vm)) | OutOfFuel \<Rightarrow> (OutOfFuel, snd (m vm)))"
  by (cases "m vm") (simp add: bindM_def split: res.split)

lemma returns_iff: "returns r \<longleftrightarrow> r \<noteq> Panic \<and> r \<noteq> OutOfFuel"
  by (cases r) simp_all

lemma safe_bind: "safe I m \<Longrightarrow> (\<And>a. safe I (f a)) \<Longrightarrow> safe I (bindM m f)"
proof (rule safeI)
  fix vm assume m: "safe I m" "I vm" and f: "\<And>a. safe I (f a)"
  have next_vm: "I (snd (m vm))" if "fst (m vm) = Ret a" for a
    using m that by (intro safeD(2) [OF m]) (simp add: prod_eq_iff)
  show "returns (fst (bindM m f vm))"
    using safeD(1) [OF m] safeD(1) [OF f next_vm]
    by (cases "fst (m vm)") (simp_all add: bindM_cases)
  show "I vm'" if "bindM m f vm = (Ret b, vm')" for b vm'
    using that safeD(1) [OF m] safeD(2) [OF f next_vm] by (simp add: bindM_cases split: res.splits)
qed

lemma safe_ret: "safe I (ret a)"
  by (rule safeI) (simp_all add: ret_def)

lemma safe_throw: "safe I (throw e)"
  by (rule safeI) (simp_all add: throw_def)

lemma safe_if: "safe I a \<Longrightarrow> safe I b \<Longrightarrow> safe I (if c then a else b)"
  by simp

lemma safe_Let: "safe I (f x) \<Longrightarrow> safe I (let y = x in f y)"
  by simp

lemma safe_withVM: "(\<And>vm. I vm \<Longrightarrow> safe I (f vm)) \<Longrightarrow> safe I (withVM f)"
  unfolding safe_def withVM_def by blast

lemma safe_option: "(\<And>x. v = Some x \<Longrightarrow> safe I (f x)) \<Longrightarrow> safe I g \<Longrightarrow> safe I (case v of None \<Rightarrow> g | Some x \<Rightarrow> f x)"
  by (cases v) simp_all

lemma safe_sum: "(\<And>e. safe I (f e)) \<Longrightarrow> (\<And>x. safe I (g x)) \<Longrightarrow> safe I (case s of Inl e \<Rightarrow> f e | Inr x \<Rightarrow> g x)"
  by (cases s) simp_all

lemma safe_state:
  "safe (fixed c d) (applyCost n)" "safe (fixed c d) (deferCost n)" "safe (fixed c d) (setStack st)"
  "safe (fixed c d) (setStacks st st')" "safe (fixed c d) (\<lambda>vm. (Ret (), vm\<lparr>runLimit := g vm\<rparr>))"
  by (rule safeI; force simp: fixed_def applyCost_def deferCost_def setStack_def setStacks_def split: if_splits)+

lemmas safe_rules = safe_bind safe_ret safe_throw safe_if safe_Let safe_withVM safe_option safe_sum safe_state

lemma safe_push: "safe (fixed c d) (push x b)"
  unfolding push_def by (intro safe_rules)

lemma safe_pop: "safe (fixed c d) (pop b)"
  unfolding pop_def by (intro safe_rules)

lemma safe_popInt64: "safe (fixed c d) (popInt64 b)"
  unfolding popInt64_def by (intro safe_rules safe_pop)

lemma safe_top: "safe (fixed c d) top"
  unfolding top_def by (intro safe_rules)

lemmas safe_prims = safe_push safe_pop safe_popInt64 safe_top
  safe_push [where x = "BoolBytes v" for v, folded pushBool_def]
  safe_push [where x = "Int64Bytes n" for n, folded pushInt64_def]

lemma safe_loops:
  "safe (fixed c d) (popLoop n acc)" "safe (fixed c d) (nDupLoop m n)" "safe (fixed c d) (overLoop n)"
  "safe (fixed c d) (rot k)"
proof -
  show "safe (fixed c d) (popLoop n acc)" by (induction n arbitrary: acc) (simp_all add: safe_rules safe_prims)
  show "safe (fixed c d) (nDupLoop m n)" by (induction n) (simp_all add: safe_rules safe_prims)
  show "safe (fixed c d) (overLoop n)" by (induction n) (simp_all add: safe_rules safe_prims)
  show "safe (fixed c d) (rot k)" unfolding rot_def by (intro safe_rules)
qed

lemma safe_lift_res: "returns r \<Longrightarrow> safe I (lift_res r)"
  by (simp add: safe_def lift_res_def)

lemma safe_checkOutput:
  assumes "callback_returns c"
  shows "safe (fixed c d) opCheckOutput"
  unfolding opCheckOutput_def
  by (intro safe_rules safe_prims safe_lift_res)
    (use assms in \<open>auto simp: callback_returns_def fixed_def\<close>)

lemma safe_jump: "4 \<le> length d \<Longrightarrow> safe (fixed c d) opJump" "4 \<le> length d \<Longrightarrow> safe (fixed c d) opJumpIf"
proof -
  assume "4 \<le> length d"
  then have "safe (fixed c d) jumpToData"
    by (intro safeI) (force simp: jumpToData_def withVM_def setNextPC_def fixed_def)+
  then show "safe (fixed c d) opJump" "safe (fixed c d) opJumpIf"
    unfolding opJump_def opJumpIf_def by (intro safe_rules safe_prims; assumption)+
qed

lemmas all_op_defs = opFalse_def opPushdata_def op1Negate_def opNop_def opToAltStack_def opFromAltStack_def
  op2Drop_def nDup_def op2Dup_def op3Dup_def opDup_def op2Over_def op2Rot_def op2Swap_def opIfDup_def
  opDepth_def opDrop_def opNip_def opOver_def opPick_def opRoll_def opRot_def opSwap_def opTuck_def
  op1Add_def op1Sub_def op2Mul_def op2Div_def opNegate_def opAbs_def opNot_def op0NotEqual_def opAdd_def
  opSub_def opMul_def opDiv_def opMod_def opLshift_def opRshift_def opBoolAnd_def opBoolOr_def
  doNumCompare_def opNumEqual_def opNumEqualVerify_def opNumNotEqual_def opLessThan_def opGreaterThan_def
  opLessThanOrEqual_def opGreaterThanOrEqual_def opMin_def opMax_def opWithin_def
  opCat_def opSubstr_def opLeft_def opRight_def opSize_def opCatpushdata_def opInvert_def opAnd_def doOr_def
  opOr_def opXor_def doEqual_def opEqual_def opEqualVerify_def
  doHash_def opSha256_def opSha3_def opCheckSig_def opCheckMultiSig_def opTxSigHash_def opBlockHash_def
  pushField_def pushUint64_def opAsset_def opAmount_def opProgram_def opMinTime_def opMaxTime_def
  opEntryData_def opTxData_def opIndex_def opEntryID_def opOutputID_def opNonce_def opNextProgram_def
  opBlockTime_def opVerify_def opFail_def

lemma opsLiteral_safe:
  assumes "callback_returns c"
  shows "list_all (\<lambda>(op, name, fn). op \<noteq> OP_JUMP \<longrightarrow> op \<noteq> OP_JUMPIF \<longrightarrow> safe (fixed c d) fn) (opsLiteral P)"
  unfolding opsLiteral_def list.pred_inject prod.case
  by (intro conjI impI list_all_Nil safe_checkOutput [OF assms];
      ((simp; fail) | (unfold all_op_defs, intro safe_rules safe_prims safe_loops)))

lemma opFn_jump: "opFn P runChild OP_JUMP = opJump" "opFn P runChild OP_JUMPIF = opJumpIf"
  by (simp_all add: opFn_def opsLiteral_def)

lemma opFn_safe:
  assumes "callback_returns c" and "op \<noteq> OP_CHECKPREDICATE"
    and "op = OP_JUMP \<or> op = OP_JUMPIF \<Longrightarrow> 4 \<le> length d"
  shows "safe (fixed c d) (opFn P runChild op)"
proof -
  have data: "safe (fixed c d) opPushdata" "safe (fixed c d) opNop"
    unfolding opPushdata_def opNop_def by (intro safe_rules safe_prims)+
  show ?thesis
  proof (cases "op = OP_JUMP \<or> op = OP_JUMPIF")
    case True
    then show ?thesis using safe_jump [of d c] assms(3) by (metis opFn_jump)
  next
    case False
    have "safe (fixed c d) (case map_of (opsLiteral P) op of None \<Rightarrow> opNop | Some (name, fn) \<Rightarrow> fn)"
      using False opsLiteral_safe [OF assms(1), of d P] data(2)
      by (auto simp: list_all_iff split: option.split dest!: map_of_SomeD)
    then show ?thesis using assms(2) data by (simp add: opFn_def)
  qed
qed

lemma ParseOp_jump:
  assumes "ParseOp prog i = Ret inst" and "Op inst = OP_JUMP \<or> Op inst = OP_JUMPIF"
  shows "length (Data inst) = 4"
proof -
  have "Op inst = prog ! unat i" using ParseOp_ok [OF assms(1)] by (simp add: inst_ok_def)
  with assms have "parseData prog i (prog ! unat i) 5 1 = Ret inst"
    by (auto simp: ParseOp_reads Let_def split: if_splits)
  from parseData_ok [OF this] show ?thesis by simp
qed

lemma applyCost_returns: "returns (fst (applyCost n vm))"
  by (simp add: applyCost_def)

lemma step_returns:
  assumes "callback_returns (vcontext vm)" and "length (program vm) \<le> 2147483647"
    and "OP_CHECKPREDICATE \<notin> set (program vm)"
  shows "returns (fst (step P runChild vm))"
proof (cases "ParseOp (program vm) (pc vm)")
  case (Ret inst)
  note ok = ParseOp_ok [OF Ret, unfolded inst_ok_def]
  have "unat (pc vm) < length (program vm)" using ok by linarith
  then have "Op inst \<in> set (program vm)" using ok by simp
  then have op: "Op inst \<noteq> OP_CHECKPREDICATE" using assms(3) by auto
  let ?I = "fixed (vcontext vm) (Data inst)"
  let ?vm = "vm\<lparr>nextPC := pc vm + Len inst, deferredCost := 0, vdata := Data inst\<rparr>"
  have "safe ?I (opFn P runChild (Op inst))"
    by (rule opFn_safe [OF assms(1) op]) (use ParseOp_jump [OF Ret] in auto)
  moreover have "safe ?I (bindM (withVM (\<lambda>vm. applyCost (deferredCost vm))) (\<lambda>_. update (\<lambda>vm. vm\<lparr>pc := nextPC vm\<rparr>)))"
    by (intro safe_rules safeI) (auto simp: update_def fixed_def)
  ultimately have "safe ?I (bindM (opFn P runChild (Op inst)) (\<lambda>_.
      bindM (withVM (\<lambda>vm. applyCost (deferredCost vm))) (\<lambda>_. update (\<lambda>vm. vm\<lparr>pc := nextPC vm\<rparr>))))"
    by (rule safe_bind)
  from safeD(1) [OF this, of ?vm] Ret show ?thesis
    by (simp add: step_Ret fixed_def applyCost_returns Let_def)
qed (use ParseOp_no_panic [OF assms(2), of "pc vm"] in \<open>simp_all add: step_def bindM_cases withVM_def liftParse_def\<close>)

section \<open>Termination and the memory bound\<close>

lemma steady_balance_nonneg: "steady S vm \<Longrightarrow> 0 \<le> balance vm"
  using itemsCost_nonneg [of "dataStack vm"] itemsCost_nonneg [of "altStack vm"]
  by (simp add: steady_def balance_def)

lemma runLoop_returns:
  assumes "prims_ok P" and "callback_returns c" and "length prog \<le> 2147483647"
    and "OP_CHECKPREDICATE \<notin> set prog"
  shows "steady (c, prog, e, dep) vm \<Longrightarrow> progress vm < int fuel \<Longrightarrow> returns (fst (runLoop P fuel vm))"
proof (induction fuel arbitrary: vm)
  case 0
  then show ?case using steady_balance_nonneg [of _ vm] by (simp add: progress_def)
next
  case (Suc fuel)
  let ?step = "step P (\<lambda>child. runLoop P fuel (child\<lparr>pc := 0\<rparr>))"
  have frame: "vcontext vm = c" "program vm = prog" using Suc.prems(1) by (auto simp: steady_def frame_of_def)
  have ret: "returns (fst (?step vm))" by (rule step_returns) (use assms frame in simp_all)
  show ?case
  proof (cases "fst (?step vm) = Ret ()")
    case True
    then have eq: "?step vm = (Ret (), snd (?step vm))" by (simp add: prod_eq_iff)
    have "steady (c, prog, e, dep) (snd (?step vm)) \<and> progress (snd (?step vm)) < progress vm"
      using step_keeps_balance [OF assms(1) Suc.prems(1) _ eq] assms(4) frame by simp
    with Suc have "returns (fst (runLoop P fuel (snd (?step vm))))" by simp
    with True show ?thesis by (simp add: withVM_def bindM_cases ret_def)
  next
    case False
    with ret show ?thesis by (cases "fst (?step vm)") (simp_all add: withVM_def bindM_cases ret_def)
  qed
qed

text \<open>What is assumed of a context: sizes within reach of a Go slice, and a callback that returns.\<close>

definition ctx_real :: "Context \<Rightarrow> bool" where
  "ctx_real c \<longleftrightarrow> ctx_small c \<and> callback_returns c \<and> length (Code c) \<le> 2147483647 \<and>
     list_all (\<lambda>a. length a \<le> 2 ^ 60) (Arguments c)"

definition initialVM :: "Context \<Rightarrow> virtualMachine" where
  "initialVM c = newVM c (Code c) (TxVersion c = Some 1) initialRunLimit 0 []"

lemma pushArgs_balance:
  assumes "pushArgs args vm = (Ret (), vm')" and "steady S vm" and "list_all (\<lambda>a. length a \<le> 2 ^ 60) args"
  shows "steady S vm' \<and> balance vm' = balance vm"
  using assms
proof (induction args arbitrary: vm)
  case (Cons a args)
  have run: "\<bar>runLimit vm\<bar> \<le> 2 ^ 60" and cost: "itemCost a \<le> 2 ^ 61"
    using Cons.prems(2,3) itemsCost_nonneg [of "dataStack vm"] itemsCost_nonneg [of "altStack vm"]
    by (simp_all add: steady_def balance_def itemCost_def)
  let ?vm = "vm\<lparr>runLimit := runLimit vm - itemCost a, dataStack := dataStack vm @ [a]\<rparr>"
  have c: "i64 (8 + i64 (int (length a))) = itemCost a" using Cons.prems(3) by (intro i64_itemCost) simp
  have "itemCost a \<le> runLimit vm \<and> pushArgs args ?vm = (Ret (), vm')"
    using Cons.prems(1) run cost itemCost_pos [of a]
    by (auto simp: push_def Let_def c bindM_def applyCost_def i64_small withVM_def setStack_def split: if_splits)
  then show ?case using Cons.IH [of ?vm] Cons.prems(2,3)
    by (simp add: steady_def balance_def frame_of_def)
qed (simp add: ret_def)

lemma pushArgs_returns: "returns (fst (pushArgs args vm))"
proof (induction args arbitrary: vm)
  case (Cons a args)
  have "returns (fst (push a False vm))"
    by (simp add: push_def Let_def bindM_cases applyCost_def withVM_def setStack_def)
  with Cons show ?case by (cases "fst (push a False vm)") (simp_all add: bindM_cases)
qed (simp add: ret_def)

lemma initial_steady: "ctx_real c \<Longrightarrow> steady (c, Code c, TxVersion c = Some 1, 0) (initialVM c)"
  "balance (initialVM c) = 10000"
  by (simp_all add: ctx_real_def steady_def initialVM_def newVM_def balance_def initialRunLimit_def frame_of_def)

lemma progress_bound:
  assumes "steady S vm"
  shows "progress vm \<le> 2 * balance vm + balance vm div 8"
proof -
  have "8 * int (length (dataStack vm)) \<le> balance vm"
    using assms length_le_itemsCost [of "dataStack vm"] itemsCost_nonneg [of "altStack vm"]
    by (simp add: steady_def balance_def)
  then show ?thesis by (simp add: progress_def)
qed

lemma Verify_initial: "Verify P fuel c = recovered (if VMVersion c \<noteq> 1 then Err ErrUnsupportedVM
    else fst (bindM (pushArgs (Arguments c)) (\<lambda>_. bindM (run P fuel) (\<lambda>_. withVM (\<lambda>vm.
           if falseResult vm then throw ErrFalseVMResult else ret ()))) (initialVM c)))"
  by (simp add: Verify_def initialVM_def)

lemma run_returns:
  assumes "prims_ok P" and "ctx_real c" and "OP_CHECKPREDICATE \<notin> set (Code c)"
    and "pushArgs (Arguments c) (initialVM c) = (Ret (), vm)" and "21250 < fuel"
  shows "returns (fst (run P fuel vm))"
proof -
  have st: "steady (c, Code c, TxVersion c = Some 1, 0) vm \<and> balance vm = 10000"
    using pushArgs_balance [OF assms(4) initial_steady(1) [OF assms(2)]] assms(2)
    by (simp add: initial_steady ctx_real_def)
  then have "progress vm \<le> 21250" using progress_bound [of _ vm] by fastforce
  moreover have "steady (c, Code c, TxVersion c = Some 1, 0) (vm\<lparr>pc := 0\<rparr>)" "progress (vm\<lparr>pc := 0\<rparr>) = progress vm"
    using st by (simp_all add: steady_def balance_def progress_def frame_of_def)
  ultimately show ?thesis unfolding run_def
    using assms(5) by (intro runLoop_returns [OF assms(1)]) (use assms(2,3) in \<open>auto simp: ctx_real_def\<close>)
qed

section \<open>Fuel does not matter\<close>

text \<open>\<open>refines m m'\<close>: wherever \<open>m\<close> does not run out of fuel, \<open>m'\<close> does the same.\<close>

definition refines :: "'a vmM \<Rightarrow> 'a vmM \<Rightarrow> bool" where
  "refines m m' \<longleftrightarrow> (\<forall>vm. fst (m vm) \<noteq> OutOfFuel \<longrightarrow> m' vm = m vm)"

lemma refinesI: "(\<And>vm. fst (m vm) \<noteq> OutOfFuel \<Longrightarrow> m' vm = m vm) \<Longrightarrow> refines m m'"
  unfolding refines_def by blast

lemma refinesD: "refines m m' \<Longrightarrow> fst (m vm) \<noteq> OutOfFuel \<Longrightarrow> m' vm = m vm"
  unfolding refines_def by blast

lemma refines_refl: "refines m m"
  by (rule refinesI) simp

lemma refines_bind:
  assumes "refines m m'" and "\<And>a. refines (f a) (f' a)"
  shows "refines (bindM m f) (bindM m' f')"
proof (rule refinesI)
  fix vm assume fuel: "fst (bindM m f vm) \<noteq> OutOfFuel"
  then have "m' vm = m vm" by (intro refinesD [OF assms(1)]) (auto simp: bindM_cases)
  with fuel refinesD [OF assms(2)] show "bindM m' f' vm = bindM m f vm"
    by (cases "fst (m vm)") (simp_all add: bindM_cases)
qed

lemma refines_withVM: "(\<And>vm. refines (f vm) (f' vm)) \<Longrightarrow> refines (withVM f) (withVM f')"
  unfolding refines_def withVM_def by blast

lemma refines_if: "refines a a' \<Longrightarrow> refines b b' \<Longrightarrow> refines (if c then a else b) (if c then a' else b')"
  by simp

lemma refines_Let: "(\<And>y. refines (f y) (f' y)) \<Longrightarrow> refines (let y = x in f y) (let y = x in f' y)"
  by simp

lemmas refines_rules = refines_bind refines_withVM refines_if refines_Let refines_refl

lemma refines_child:
  assumes "refines ch ch'"
  shows "refines
    (let (err, vm') = ch vm in if err = Panic then goPanic else if err = OutOfFuel then (\<lambda>vm. (OutOfFuel, vm)) else g err vm')
    (let (err, vm') = ch' vm in if err = Panic then goPanic else if err = OutOfFuel then (\<lambda>vm. (OutOfFuel, vm)) else g err vm')"
proof (cases "fst (ch vm) = OutOfFuel")
  case True
  then show ?thesis by (intro refinesI) (simp add: case_prod_beta)
qed (simp add: refinesD [OF assms] refines_refl)

lemma opFn_refines: "refines ch ch' \<Longrightarrow> refines (opFn P ch op) (opFn P ch' op)"
  unfolding opFn_def opCheckPredicate_def runPredicate_def
  by (intro refines_rules refines_child)

lemma step_refines: "refines ch ch' \<Longrightarrow> refines (step P ch) (step P ch')"
  unfolding step_def by (intro refines_rules opFn_refines)

lemma runLoop_Suc_refines:
  assumes "refines (runLoop P f) (runLoop P g)"
  shows "refines (runLoop P (Suc f)) (runLoop P (Suc g))"
proof -
  have "refines (\<lambda>child. runLoop P f (child\<lparr>pc := 0\<rparr>)) (\<lambda>child. runLoop P g (child\<lparr>pc := 0\<rparr>))"
    using assms unfolding refines_def by blast
  then show ?thesis unfolding runLoop.simps by (intro refines_rules step_refines assms)
qed

lemma runLoop_refines: "refines (runLoop P fuel) (runLoop P (Suc fuel))"
proof (induction fuel)
  case 0
  show ?case by (rule refinesI) simp
qed (rule runLoop_Suc_refines)

lemma run_refines: "refines (run P fuel) (run P (fuel + k))"
proof (induction k)
  case (Suc k)
  show ?case
  proof (rule refinesI)
    fix vm assume "fst (run P fuel vm) \<noteq> OutOfFuel"
    then show "run P (fuel + Suc k) vm = run P fuel vm"
      using refinesD [OF Suc] refinesD [OF runLoop_refines, of P "fuel + k" "vm\<lparr>pc := 0\<rparr>"] by (simp add: run_def)
  qed
qed (simp add: refines_refl)

lemma Verify_fuel:
  assumes "Verify P fuel c \<noteq> OutOfFuel" and "fuel \<le> fuel'"
  shows "Verify P fuel' c = Verify P fuel c"
proof -
  obtain k where k: "fuel' = fuel + k" using assms(2) le_Suc_ex by blast
  let ?m = "\<lambda>f. bindM (pushArgs (Arguments c)) (\<lambda>_. bindM (run P f) (\<lambda>_. withVM (\<lambda>vm.
           if falseResult vm then throw ErrFalseVMResult else ret ())))"
  have "refines (?m fuel) (?m fuel')" unfolding k by (intro refines_bind run_refines refines_refl)
  moreover have "VMVersion c = 1 \<Longrightarrow> fst (?m fuel (initialVM c)) \<noteq> OutOfFuel"
    using assms(1) by (auto simp: Verify_initial)
  ultimately show ?thesis by (auto simp: Verify_initial dest: refinesD)
qed

lemma Verify_returns:
  assumes "prims_ok P" and "ctx_real c" and "OP_CHECKPREDICATE \<notin> set (Code c)" and "21250 < fuel"
  shows "returns (Verify P fuel c)"
proof -
  have rec: "returns (recovered r)" if "r \<noteq> OutOfFuel" for r :: "unit res" using that by (cases r) simp_all
  have "fst (bindM (pushArgs (Arguments c)) (\<lambda>_. bindM (run P fuel) (\<lambda>_. withVM (\<lambda>vm.
      if falseResult vm then throw ErrFalseVMResult else ret ()))) (initialVM c)) \<noteq> OutOfFuel" (is "?r \<noteq> _")
  proof (cases "fst (pushArgs (Arguments c) (initialVM c))")
    case (Ret u)
    define vm where "vm = snd (pushArgs (Arguments c) (initialVM c))"
    have "returns (fst (run P fuel vm))"
      by (rule run_returns [OF assms(1-3) _ assms(4)]) (simp add: vm_def prod_eq_iff Ret)
    then show ?thesis using Ret
      by (cases "fst (run P fuel vm)") (simp_all add: bindM_cases vm_def withVM_def throw_def ret_def)
  qed (use pushArgs_returns [of "Arguments c" "initialVM c"] in \<open>simp_all add: bindM_cases\<close>)
  then show ?thesis by (simp add: Verify_initial rec)
qed

section \<open>Theorems on execution\<close>

text \<open>
  The programs the theorems are about. \<^verbatim>\<open>CHECKPREDICATE\<close> runs a program from the stack, and VM_Predicate shows that the theorems
  fail with it. \<^verbatim>\<open>CAT\<close> and \<^verbatim>\<open>CATPUSHDATA\<close> are left out because of how the code computes them: \<^verbatim>\<open>append(a, b...)\<close> may write the bytes of
  \<open>b\<close> into the array of \<open>a\<close>, and if \<open>a\<close> was cut from the front of the program with \<^verbatim>\<open>PROGRAM\<close> and \<^verbatim>\<open>LEFT\<close>, into the
  running program itself. A program could so write \<^verbatim>\<open>CHECKPREDICATE\<close> into itself. The model computes the value that is pushed but not
  this effect on other byte strings.
\<close>

definition plainCode :: "bytes \<Rightarrow> bool" where
  "plainCode prog \<longleftrightarrow> OP_CHECKPREDICATE \<notin> set prog \<and> OP_CAT \<notin> set prog \<and> OP_CATPUSHDATA \<notin> set prog"

text \<open>
  C14. Verification ends: for a program without the bytes of \<^verbatim>\<open>CHECKPREDICATE\<close>, \<^verbatim>\<open>CAT\<close> and \<^verbatim>\<open>CATPUSHDATA\<close>, whatever jumps it makes
  and whatever the arguments are, \<open>Verify\<close> returns a verdict within 21251 instructions. It does not
  panic before its recovery point, and giving it more steps does not change the verdict. The program and the byte strings of the context are of sizes that
  a Go slice can have, and the callback for outputs returns.
\<close>
theorem verify_terminates:
  assumes "prims_ok P" and "ctx_real c" and "plainCode (Code c)" and "21250 < fuel"
  shows "returns (Verify P fuel c) \<and> (\<forall>fuel' \<ge> fuel. Verify P fuel' c = Verify P fuel c) \<and>
    (\<forall>vm. pushArgs (Arguments c) (initialVM c) = (Ret (), vm) \<longrightarrow> fst (run P fuel vm) \<noteq> Panic)"
proof (intro conjI allI impI)
  show ret: "returns (Verify P fuel c)" by (rule Verify_returns [OF assms(1,2) _ assms(4)]) (use assms(3) in \<open>simp add: plainCode_def\<close>)
  show "Verify P fuel' c = Verify P fuel c" if "fuel \<le> fuel'" for fuel'
    using ret that by (intro Verify_fuel) (simp_all add: returns_iff)
  show "fst (run P fuel vm) \<noteq> Panic" if "pushArgs (Arguments c) (initialVM c) = (Ret (), vm)" for vm
    using run_returns [OF assms(1,2) _ that assms(4)] assms(3) by (simp add: returns_iff plainCode_def)
qed

lemma verify_terminates_witness:
  "returns (Verify toyPrims 30000 (bareContext [OP_ADD, OP_1, OP_NUMEQUAL] [[2], [3]])) \<and>
   Verify toyPrims 40000 (bareContext [OP_ADD, OP_1, OP_NUMEQUAL] [[2], [3]])
     = Verify toyPrims 30000 (bareContext [OP_ADD, OP_1, OP_NUMEQUAL] [[2], [3]])"
proof -
  let ?c = "bareContext [OP_ADD, OP_1, OP_NUMEQUAL] [[2], [3]]"
  have "ctx_real ?c" "plainCode (Code ?c)" "(21250 :: nat) < 30000" "(30000 :: nat) \<le> 40000"
    by (simp_all add: ctx_real_def ctx_small_def callback_returns_def bareContext_def plainCode_def)
  with verify_terminates [OF toyPrims_ok this(1-3)] show ?thesis by blast
qed

text \<open>
  The states an execution goes through: \<open>executes P vm vm'\<close> if the loop of \<open>run\<close> leads from \<open>vm\<close> to
  \<open>vm'\<close> by successful instructions.
\<close>

inductive executes :: "prims \<Rightarrow> virtualMachine \<Rightarrow> virtualMachine \<Rightarrow> bool" for P where
  start: "executes P vm vm"
| instruction: "executes P vm vm1 \<Longrightarrow> pc vm1 < word_of_nat (length (program vm1)) \<Longrightarrow>
    step P (run P fuel) vm1 = (Ret (), vm2) \<Longrightarrow> executes P vm vm2"

lemma executes_balance:
  assumes "executes P vm vm'" and "prims_ok P" and "steady S vm" and "OP_CHECKPREDICATE \<notin> set (fst (snd S))"
  shows "steady S vm' \<and> balance vm' \<le> balance vm"
  using assms
proof (induction rule: executes.induct)
  case (instruction vm vm1 fuel vm2)
  then have "steady S vm1" "balance vm1 \<le> balance vm" "program vm1 = fst (snd S)"
    by (auto simp: steady_def frame_of_def)
  with instruction.prems show ?case
    using step_keeps_balance [OF _ _ _ instruction.hyps(3)] by fastforce
qed simp

text \<open>
  C15. The run limit bounds memory: in every state that a program without the bytes of \<^verbatim>\<open>CHECKPREDICATE\<close>, \<^verbatim>\<open>CAT\<close> and
  \<^verbatim>\<open>CATPUSHDATA\<close> reaches,
  the remaining run limit is not negative, and together with the bytes on both stacks (and eight for
  every item) it is at most 10000, the initial run limit.
\<close>
theorem run_limit_bounds_memory:
  assumes "prims_ok P" and "ctx_real c" and "plainCode (Code c)"
    and "pushArgs (Arguments c) (initialVM c) = (Ret (), vm)" and "executes P (vm\<lparr>pc := 0\<rparr>) vm'"
  shows "0 \<le> runLimit vm' \<and> runLimit vm' + itemsCost (dataStack vm') + itemsCost (altStack vm') \<le> 10000"
proof -
  let ?S = "(c, Code c, TxVersion c = Some 1, 0 :: int)"
  have "steady ?S vm \<and> balance vm = 10000"
    using pushArgs_balance [OF assms(4) initial_steady(1) [OF assms(2)]] assms(2)
    by (simp add: initial_steady ctx_real_def)
  then have "steady ?S (vm\<lparr>pc := 0\<rparr>)" "balance (vm\<lparr>pc := 0\<rparr>) = 10000"
    by (simp_all add: steady_def balance_def frame_of_def)
  then show ?thesis
    using executes_balance [OF assms(5,1), of ?S] assms(3) by (simp add: steady_def balance_def plainCode_def)
qed

text \<open>The program \<^verbatim>\<open>ADD\<close> on 2 and 3.\<close>

lemma add_step:
  fixes vm :: virtualMachine
  defines "vm \<equiv> newVM (bareContext [OP_ADD] [[2], [3]]) [OP_ADD] False 9982 0 [[2], [3]]"
  shows "step P ch vm = (Ret (), vm\<lparr>pc := 1, nextPC := 1, runLimit := 9989, deferredCost := - 9, dataStack := [[5]]\<rparr>)"
proof -
  have parse: "ParseOp (program vm) (pc vm) = Ret \<lparr>Op = OP_ADD, Len = 1, Data = []\<rparr>" unfolding vm_def newVM_def virtualMachine.simps by code_simp
  have op: "opFn P ch OP_ADD = opAdd" "\<not> isExpansion P OP_ADD" by (simp_all add: opFn_def opsLiteral_def isExpansion_def)
  have ints: "AsInt64 [2] = Inr 2" "AsInt64 [3] = Inr 3" "AddInt64 2 3 = Some 5" "Int64Bytes 5 = [5]" by code_simp+
  show ?thesis unfolding step_Ret [OF parse]
    by (simp add: op Let_def opAdd_def bindM_def popInt64_deferred_eq [where r = "[[2]]"]
        popInt64_deferred_eq [where r = "[]"] pushInt64_deferred_eq vm_def newVM_def ints itemCost_def applyCost_def i64_small withVM_def update_def)
qed

lemma run_limit_bounds_memory_witness:
  "let vm = snd (pushArgs [[2], [3]] (initialVM (bareContext [OP_ADD] [[2], [3]])));
       vm' = snd (step toyPrims (run toyPrims 0) (vm\<lparr>pc := 0\<rparr>))
   in executes toyPrims (vm\<lparr>pc := 0\<rparr>) vm' \<and> dataStack vm' = [[5]] \<and> runLimit vm' = 9989 \<and>
     0 \<le> runLimit vm' \<and> runLimit vm' + itemsCost (dataStack vm') + itemsCost (altStack vm') \<le> 10000"
proof -
  let ?c = "bareContext [OP_ADD] [[2], [3]]"
  define vm where "vm = newVM ?c [OP_ADD] False 9982 0 [[2], [3]]"
  have args: "pushArgs (Arguments ?c) (initialVM ?c) = (Ret (), vm)" "vm\<lparr>pc := 0\<rparr> = vm"
    by (simp_all add: vm_def bareContext_def initialVM_def newVM_def bindM_def ret_def push_if itemCost_def initialRunLimit_def)
  define vm' where "vm' = snd (step toyPrims (run toyPrims 0) vm)"
  have step: "step toyPrims (run toyPrims 0) vm = (Ret (), vm')" "dataStack vm' = [[5]]" "runLimit vm' = 9989"
    using add_step [of toyPrims "run toyPrims 0"] by (simp_all add: vm'_def vm_def)
  have "pc vm < word_of_nat (length (program vm))" by (simp add: vm_def newVM_def)
  then have ex: "executes toyPrims (vm\<lparr>pc := 0\<rparr>) vm'"
    unfolding args(2) by (rule executes.instruction [OF executes.start _ step(1)])
  have "ctx_real ?c" "plainCode (Code ?c)"
    by (simp_all add: ctx_real_def ctx_small_def callback_returns_def bareContext_def plainCode_def)
  then have "0 \<le> runLimit vm' \<and> runLimit vm' + itemsCost (dataStack vm') + itemsCost (altStack vm') \<le> 10000"
    using run_limit_bounds_memory [OF toyPrims_ok _ _ args(1) ex] by blast
  moreover have "Arguments ?c = [[2], [3]]" by (simp add: bareContext_def)
  ultimately show ?thesis using ex step(2,3) args by (simp add: Let_def vm'_def)
qed

end
