(* ===== verification/VM_Predicate.thy ===== *)
theory VM_Predicate
  imports VM_Cost
begin

text \<open>
  \<^verbatim>\<open>CHECKPREDICATE\<close> and the run limit. A child machine that fails while its deferred costs are applied
  still holds the item it could not pay for, and the parent refunds the memory charge of that item.
  The program below exploits this to regain in each round exactly what the round costs.
\<close>

section \<open>A program that never ends\<close>

text \<open>
  \<^verbatim>\<open>0 <PROGRAM> 1 CHECKPREDICATE DROP JUMP:0\<close>, padded to 62 bytes: the child runs \<^verbatim>\<open>PROGRAM\<close> with a
  limit of 1, pushes the 62 bytes of the program, and cannot pay for them.
\<close>

definition loopProgram :: bytes where
  "loopProgram = [OP_0, OP_DATA_1, OP_PROGRAM, OP_1, OP_CHECKPREDICATE, OP_DROP, OP_JUMP, 0, 0, 0, 0] @
     replicate 51 OP_NOP"

definition loopVM :: "uint32 \<Rightarrow> uint32 \<Rightarrow> int64 \<Rightarrow> int64 \<Rightarrow> bytes \<Rightarrow> bytes list \<Rightarrow> virtualMachine" where
  "loopVM p np rl dc d st = \<lparr>vcontext = bareContext loopProgram [], program = loopProgram, pc = p, nextPC = np,
     runLimit = rl, deferredCost = dc, expansionReserved = False, vdata = d, depth = 0, dataStack = st, altStack = []\<rparr>"

lemma loop_parse:
  "ParseOp loopProgram 0 = Ret \<lparr>Op = OP_0, Len = 1, Data = []\<rparr>"
  "ParseOp loopProgram 1 = Ret \<lparr>Op = OP_DATA_1, Len = 2, Data = [OP_PROGRAM]\<rparr>"
  "ParseOp loopProgram 3 = Ret \<lparr>Op = OP_1, Len = 1, Data = [1]\<rparr>"
  "ParseOp loopProgram 4 = Ret \<lparr>Op = OP_CHECKPREDICATE, Len = 1, Data = []\<rparr>"
  "ParseOp loopProgram 5 = Ret \<lparr>Op = OP_DROP, Len = 1, Data = []\<rparr>"
  "ParseOp loopProgram 6 = Ret \<lparr>Op = OP_JUMP, Len = 5, Data = [0, 0, 0, 0]\<rparr>"
  "ParseOp [OP_PROGRAM] 0 = Ret \<lparr>Op = OP_PROGRAM, Len = 1, Data = []\<rparr>"
  by code_simp+

lemma loop_ops:
  "opFn P ch OP_0 = opFalse" "opFn P ch OP_DATA_1 = opPushdata" "opFn P ch OP_1 = opPushdata"
  "opFn P ch OP_CHECKPREDICATE = opCheckPredicate ch" "opFn P ch OP_DROP = opDrop" "opFn P ch OP_PROGRAM = opProgram"
  by (simp_all add: opFn_def opsLiteral_def)

lemma loop_not_expansion:
  "\<not> isExpansion P OP_0" "\<not> isExpansion P OP_DATA_1" "\<not> isExpansion P OP_1" "\<not> isExpansion P OP_CHECKPREDICATE"
  "\<not> isExpansion P OP_DROP" "\<not> isExpansion P OP_JUMP" "\<not> isExpansion P OP_PROGRAM"
  by (simp_all add: isExpansion_def opsLiteral_def)

lemma length_loopProgram: "length loopProgram = 62"
  by (simp add: loopProgram_def)

lemmas loop_simps = step_Ret loop_parse loop_ops loop_not_expansion loopVM_def bindM_def withVM_def update_def
  setStack_def ret_def throw_def applyCost_if push_if pop_eq itemCost_def Let_def

lemma loop_step0: "step P ch (loopVM 0 np 10000 dc d []) = (Ret (), loopVM 1 1 9991 0 [] [[]])"
  by (simp add: loop_simps opFalse_def pushBool_def BoolBytes_def)

lemma loop_step1: "step P ch (loopVM 1 np 9991 dc d [[]]) = (Ret (), loopVM 3 3 9981 0 [OP_PROGRAM] [[], [OP_PROGRAM]])"
  by (simp add: loop_simps opPushdata_def)

lemma loop_step2: "step P ch (loopVM 3 np 9981 dc d [[], [OP_PROGRAM]]) =
    (Ret (), loopVM 4 4 9971 0 [1] [[], [OP_PROGRAM], [1]])"
  by (simp add: loop_simps opPushdata_def)

lemma loop_step4: "step P ch (loopVM 5 np 9994 dc d [[]]) = (Ret (), loopVM 6 6 10001 0 [] [])"
  by (simp add: loop_simps opDrop_def)

lemma loop_step5: "step P ch (loopVM 6 np 10001 dc d []) = (Ret (), loopVM 0 0 10000 0 [0, 0, 0, 0] [])"
  by (simp add: loop_simps opFn_jump opJump_def jumpToData_def setNextPC_def)

text \<open>The child machine fails with the program on its stack and its run limit used up.\<close>

lemma child_fails:
  "0 < fuel \<Longrightarrow> runLoop P fuel (newVM (bareContext loopProgram []) [OP_PROGRAM] False 1 1 []) =
    (Err ErrRunLimitExceeded, (newVM (bareContext loopProgram []) [OP_PROGRAM] False 0 1 [loopProgram])\<lparr>nextPC := 1, deferredCost := 70\<rparr>)"
  by (cases fuel) (simp_all add: newVM_def loop_simps opProgram_def push_deferred_eq bareContext_def
      length_loopProgram applyCost_def i64_small)

lemma loop_step3:
  assumes "0 < fuel"
  shows "step P (\<lambda>child. runLoop P fuel (child\<lparr>pc := 0\<rparr>)) (loopVM 4 np 9971 dc d [[], [OP_PROGRAM], [1]]) =
    (Ret (), loopVM 5 5 9994 (- 280) [] [[]])"
proof -
  have ints: "AsInt64 [1] = Inr 1" "AsInt64 [] = Inr 0" by code_simp+
  have cost: "stackCost [loopProgram] = 70" by (simp add: stackCost_def length_loopProgram i64_small)
  show ?thesis
    by (simp add: loop_simps opCheckPredicate_def runPredicate_def popInt64_deferred_eq [where r = "[[], [OP_PROGRAM]]"]
        popInt64_deferred_eq [where r = "[]"] pop_deferred_eq [where r = "[[]]"] ints deferCost_def i64_small
        child_fails [OF assms, unfolded newVM_def] newVM_def cost stackCost_def falseResult_def pushBool_def
        push_deferred_eq BoolBytes_def length_loopProgram applyCost_def [of "- 280"])
qed

lemma runLoop_step:
  "step P (\<lambda>child. runLoop P fuel (child\<lparr>pc := 0\<rparr>)) vm = (Ret (), vm') \<Longrightarrow>
    pc vm < word_of_nat (length (program vm)) \<Longrightarrow> runLoop P (Suc fuel) vm = runLoop P fuel vm'"
  by (simp add: withVM_def bindM_def)

lemma loop_inside: "p < 62 \<Longrightarrow> pc (loopVM p np rl dc d st) < word_of_nat (length (program (loopVM p np rl dc d st)))"
  by (simp add: loopVM_def length_loopProgram)

lemma loop_five: "0 < fuel \<Longrightarrow>
    runLoop P (Suc (Suc (Suc (Suc (Suc fuel))))) (loopVM 0 np 10000 dc d []) = runLoop P fuel (loopVM 6 6 10001 0 [] [])"
  by (simp add: runLoop_step [OF loop_step0 loop_inside] runLoop_step [OF loop_step1 loop_inside]
      runLoop_step [OF loop_step2 loop_inside] runLoop_step [OF loop_step3 loop_inside]
      runLoop_step [OF loop_step4 loop_inside] del: runLoop.simps)

lemma loop_six: "runLoop P (Suc (Suc (Suc (Suc (Suc (Suc fuel)))))) (loopVM 0 np 10000 dc d []) =
    runLoop P fuel (loopVM 0 0 10000 0 [0, 0, 0, 0] [])"
  by (simp add: loop_five runLoop_step [OF loop_step5 loop_inside] del: runLoop.simps)

lemma loop_short:
  assumes "fuel \<le> 5"
  shows "fst (runLoop P fuel (loopVM 0 np 10000 dc d [])) = OutOfFuel"
proof (rule ccontr)
  let ?vm = "loopVM 0 np 10000 dc d []"
  assume nz: "fst (runLoop P fuel ?vm) \<noteq> OutOfFuel"
  define k where "k = 6 - fuel"
  then have k: "fuel + k = 6" using assms by simp
  have pc0: "?vm\<lparr>pc := 0\<rparr> = ?vm" by (simp add: loopVM_def)
  have "runLoop P 6 ?vm = runLoop P fuel ?vm"
    using refinesD [OF run_refines [of P fuel k], of ?vm] nz unfolding run_def pc0 k by blast
  moreover have "runLoop P 6 ?vm = runLoop P 0 (loopVM 0 0 10000 0 [0, 0, 0, 0] [])"
    using loop_six [of P 0 np dc d] by (simp del: runLoop.simps add: eval_nat_numeral)
  ultimately show False using nz by (metis fst_conv runLoop.simps(1))
qed

lemma loop_forever: "fst (runLoop P fuel (loopVM 0 np 10000 dc d [])) = OutOfFuel"
proof (induction fuel arbitrary: np dc d rule: less_induct)
  case (less fuel)
  show ?case
  proof (cases "fuel \<le> 5")
    case False
    define f where "f = fuel - 6"
    then have f: "fuel = Suc (Suc (Suc (Suc (Suc (Suc f)))))" using False by simp
    have "runLoop P fuel (loopVM 0 np 10000 dc d []) = runLoop P f (loopVM 0 0 10000 0 [0, 0, 0, 0] [])"
      unfolding f by (rule loop_six)
    with less.IH [of f] f show ?thesis by simp
  qed (rule loop_short)
qed

text \<open>
  C28. The run limit does not bound executions that use \<^verbatim>\<open>CHECKPREDICATE\<close>: there is a program of 62
  bytes on which \<open>Verify\<close> never returns, because the refund for the failed child's unpaid stack
  item gives back everything that a round of the loop costs.
\<close>
theorem checkpredicate_diverges: "Verify P fuel (bareContext loopProgram []) = OutOfFuel"
proof -
  have "initialVM (bareContext loopProgram []) = loopVM 0 0 10000 0 [] []"
    by (simp add: initialVM_def newVM_def loopVM_def initialRunLimit_def bareContext_def)
  moreover have "(loopVM 0 0 10000 0 [] [])\<lparr>pc := 0\<rparr> = loopVM 0 0 10000 0 [] []" by (simp add: loopVM_def)
  ultimately show ?thesis using loop_forever [of P fuel 0 0 "[]"]
    by (simp add: Verify_initial bareContext_def bindM_cases ret_def run_def)
qed

text \<open>
  \<^verbatim>\<open>CHECKPREDICATE\<close> checks that its item count is not above the stack's size but not that it is not
  negative: with a negative count it panics, which \<open>Verify\<close> reports as an unexpected error.
\<close>
lemma checkpredicate_negative_count_panics:
  assumes "dataStack vm = r @ [count, predicate, limit]"
    and "AsInt64 count = Inr n" and "n < 0" and "AsInt64 limit = Inr l" and "0 \<le> l"
    and "256 + l \<le> runLimit vm" and "runLimit vm + itemsCost (dataStack vm) \<le> 2 ^ 58" and "deferredCost vm = 0"
  shows "fst (opCheckPredicate runChild vm) = Panic"
  using assms itemsCost_nonneg [of r] AsInt64_bounds [OF assms(2)] AsInt64_bounds [OF assms(4)]
  by (simp add: opCheckPredicate_def bindM_def applyCost_if deferCost_def i64_small withVM_def goPanic_def
      popInt64_deferred_eq [where r = "r @ [count, predicate]"] popInt64_deferred_eq [where r = r]
      pop_deferred_eq [where r = "r @ [count]"] itemCost_def Let_def)

lemma checkpredicate_negative_count_panics_witness:
  "fst (opCheckPredicate (\<lambda>vm. (Ret (), vm)) (newVM (bareContext [] []) [] False 1000 0 [Int64Bytes (- 1), [], []])) = Panic"
proof -
  let ?vm = "newVM (bareContext [] []) [] False 1000 0 [Int64Bytes (- 1), [], []]"
  have zero: "AsInt64 [] = Inr 0" by code_simp
  show ?thesis
    by (rule checkpredicate_negative_count_panics [of _ "[]" "Int64Bytes (- 1)" "[]" "[]" "- 1" 0])
      (use length_Int64Bytes [of "- 1"] in \<open>simp_all add: newVM_def zero in_i64_iff itemCost_def\<close>)
qed

end
