(* ===== verification/VMUtil.thy ===== *)
theory VMUtil
  imports VM_Cost
begin

text \<open>
  The program builder and the multisignature programs of \<^verbatim>\<open>protocol/vmutil\<close>. Besides the round trips of
  building and parsing, the block program is executed: the virtual machine accepts it
  exactly when the quorum of signatures is there.
\<close>

section \<open>Builder\<close>

record Builder =
  Program :: bytes

definition NewBuilder :: Builder where
  "NewBuilder = \<lparr>Program = []\<rparr>"

definition BuilderAddInt64 :: "int64 \<Rightarrow> Builder \<Rightarrow> Builder" where
  "BuilderAddInt64 n b = b\<lparr>Program := Program b @ PushdataInt64 n\<rparr>"

definition AddData :: "bytes \<Rightarrow> Builder \<Rightarrow> Builder" where
  "AddData d b = b\<lparr>Program := Program b @ PushdataBytes d\<rparr>"

definition AddRawBytes :: "bytes \<Rightarrow> Builder \<Rightarrow> Builder" where
  "AddRawBytes d b = b\<lparr>Program := Program b @ d\<rparr>"

definition AddOp :: "byte \<Rightarrow> Builder \<Rightarrow> Builder" where
  "AddOp op b = b\<lparr>Program := Program b @ [op]\<rparr>"

lemmas builder_defs = NewBuilder_def BuilderAddInt64_def AddData_def AddRawBytes_def AddOp_def

section \<open>Multisignature programs\<close>

text \<open>The errors of the package and those it passes on; \<open>UPanic\<close> is a panic of the program parser.\<close>

datatype vmutil_error = VMError vm_error | ErrBadQuorum | ErrMultisigFormat

datatype 'a util_res = UOk 'a | UErr vmutil_error | UPanic

definition IsUnspendable :: "bytes \<Rightarrow> bool" where
  "IsUnspendable prog \<longleftrightarrow> length prog > 0 \<and> prog ! 0 = OP_FAIL"

definition checkMultiSigParams :: "int64 \<Rightarrow> int64 \<Rightarrow> vmutil_error option" where
  "checkMultiSigParams nrequired npubkeys =
     (if nrequired < 0 then Some ErrBadQuorum
      else if npubkeys < 0 then Some ErrBadQuorum
      else if nrequired > npubkeys then Some ErrBadQuorum
      else if nrequired = 0 \<and> npubkeys > 0 then Some ErrBadQuorum
      else None)"

definition BlockMultiSigProgram :: "bytes list \<Rightarrow> int64 \<Rightarrow> bytes util_res" where
  "BlockMultiSigProgram pubkeys nrequired =
     (case checkMultiSigParams nrequired (int (length pubkeys)) of
        Some e \<Rightarrow> UErr e
      | None \<Rightarrow>
          let builder = AddOp OP_BLOCKHASH NewBuilder;
              builder = foldl (\<lambda>b key. AddData key b) builder pubkeys
          in UOk (Program (AddOp OP_CHECKMULTISIG (BuilderAddInt64 (int (length pubkeys)) (BuilderAddInt64 nrequired builder)))))"

text \<open>The loop over the keys; a key of the wrong size ends it without a result.\<close>

fun collectKeys :: "Instruction list \<Rightarrow> bytes list \<Rightarrow> bytes list option" where
  "collectKeys [] pubkeys = Some pubkeys"
| "collectKeys (p # pops) pubkeys =
     (if length (Data p) \<noteq> PublicKeySize then None else collectKeys pops (pubkeys @ [Data p]))"

text \<open>
  The end of both parsers. On a key of the wrong size the code returns \<open>nil, 0, err\<close> where \<open>err\<close> is the
  result of the last check, that is nil.
\<close>

definition keysAt :: "Instruction list \<Rightarrow> nat \<Rightarrow> int64 \<Rightarrow> int64 \<Rightarrow> (bytes list \<times> int64) util_res" where
  "keysAt pops firstPubkeyIndex npubkeys nrequired =
     (case collectKeys (take (nat npubkeys) (drop firstPubkeyIndex pops)) [] of
        None \<Rightarrow> UOk ([], 0)
      | Some pubkeys \<Rightarrow> UOk (pubkeys, nrequired))"

definition ParseBlockMultiSigProgram :: "bytes \<Rightarrow> (bytes list \<times> int64) util_res" where
  "ParseBlockMultiSigProgram script =
     (case ParseProgram script of
        Err e \<Rightarrow> UErr (VMError e)
      | Ret pops \<Rightarrow>
          let l = length pops in
          if l < 4 then UErr (VMError ErrShortProgram)
          else if Op (pops ! (l - 1)) \<noteq> OP_CHECKMULTISIG then UErr ErrMultisigFormat
          else (case AsInt64 (Data (pops ! (l - 2))) of
             Inl _ \<Rightarrow> UErr ErrMultisigFormat
           | Inr npubkeys \<Rightarrow>
               if npubkeys \<noteq> int l - 4 then UErr (VMError ErrShortProgram)
               else (case AsInt64 (Data (pops ! (l - 3))) of
                  Inl _ \<Rightarrow> UErr ErrMultisigFormat
                | Inr nrequired \<Rightarrow>
                    (case checkMultiSigParams nrequired npubkeys of
                       Some e \<Rightarrow> UErr e
                     | None \<Rightarrow> keysAt pops (nat (int l - 3 - npubkeys)) npubkeys nrequired)))
      | _ \<Rightarrow> UPanic)"

definition P2SPMultiSigProgram :: "bytes list \<Rightarrow> int64 \<Rightarrow> bytes util_res" where
  "P2SPMultiSigProgram pubkeys nrequired =
     (case checkMultiSigParams nrequired (int (length pubkeys)) of
        Some e \<Rightarrow> UErr e
      | None \<Rightarrow>
          let builder = AddOp OP_TOALTSTACK (AddOp OP_DUP NewBuilder);
              builder = AddOp OP_SHA3 builder;
              builder = foldl (\<lambda>b p. AddData p b) builder pubkeys;
              builder = BuilderAddInt64 nrequired builder;
              builder = BuilderAddInt64 (int (length pubkeys)) builder;
              builder = AddOp OP_VERIFY (AddOp OP_CHECKMULTISIG builder);
              builder = AddOp OP_FROMALTSTACK builder;
              builder = AddOp OP_CHECKPREDICATE (BuilderAddInt64 0 builder)
          in UOk (Program builder))"

definition ParseP2SPMultiSigProgram :: "bytes \<Rightarrow> (bytes list \<times> int64) util_res" where
  "ParseP2SPMultiSigProgram prog =
     (case ParseProgram prog of
        Err e \<Rightarrow> UErr (VMError e)
      | Ret pops \<Rightarrow>
          let l = length pops in
          if l < 11 then UErr (VMError ErrShortProgram)
          else (case AsInt64 (Data (pops ! (l - 6))) of
             Inl e \<Rightarrow> UErr (VMError e)
           | Inr npubkeys \<Rightarrow>
               if npubkeys > int l - 10 then UErr (VMError ErrShortProgram)
               else (case AsInt64 (Data (pops ! (l - 7))) of
                  Inl e \<Rightarrow> UErr (VMError e)
                | Inr nrequired \<Rightarrow>
                    (case checkMultiSigParams nrequired npubkeys of
                       Some e \<Rightarrow> UErr e
                     | None \<Rightarrow> keysAt pops (nat (int l - 7 - npubkeys)) npubkeys nrequired)))
      | _ \<Rightarrow> UPanic)"

section \<open>Building and parsing\<close>

lemma Program_foldl_AddData: "Program (foldl (\<lambda>b k. AddData k b) b keys) = Program b @ concat (map PushdataBytes keys)"
  by (induction keys arbitrary: b) (simp_all add: AddData_def)

definition opInst :: "byte \<Rightarrow> Instruction" where
  "opInst op = \<lparr>Op = op, Len = 1, Data = []\<rparr>"

definition dataInst :: "bytes \<Rightarrow> Instruction" where
  "dataInst d = pushInst (PushdataBytes d) d"

definition intInst :: "int64 \<Rightarrow> Instruction" where
  "intInst n = pushInst (PushdataInt64 n) (Int64Bytes n)"

lemma inst_data [simp]:
  "Data (opInst op) = []" "Op (opInst op) = op" "Data (dataInst d) = d" "Data (intInst n) = Int64Bytes n"
  by (simp_all add: opInst_def dataInst_def intInst_def pushInst_def)

lemma multisig_chunks:
  "plain_op op \<Longrightarrow> parse_chunk [op] (opInst op)"
  "length d \<le> 2147483647 \<Longrightarrow> parse_chunk (PushdataBytes d) (dataInst d)"
  "parse_chunk (PushdataInt64 n) (intInst n)"
  using chunk_plain chunk_PushdataBytes chunk_PushdataInt64 by (simp_all add: opInst_def dataInst_def intInst_def)

text \<open>The shape of the programs: the builder appends chunks, each of which parses as one instruction.\<close>

definition multisigChunks :: "bytes \<Rightarrow> bytes list \<Rightarrow> int64 \<Rightarrow> bytes \<Rightarrow> bytes list" where
  "multisigChunks pre keys n post = map (\<lambda>op. [op]) pre @ map PushdataBytes keys @
     [PushdataInt64 n, PushdataInt64 (int (length keys))] @ map (\<lambda>op. [op]) post"

definition multisigInsts :: "bytes \<Rightarrow> bytes list \<Rightarrow> int64 \<Rightarrow> bytes \<Rightarrow> Instruction list" where
  "multisigInsts pre keys n post = map opInst pre @ map dataInst keys @ [intInst n, intInst (int (length keys))] @ map opInst post"

lemma multisig_parses:
  assumes "\<forall>op \<in> set (pre @ post). plain_op op" and "\<forall>k \<in> set keys. length k \<le> 2147483647"
  shows "list_all2 parse_chunk (multisigChunks pre keys n post) (multisigInsts pre keys n post)"
  using assms unfolding multisigChunks_def multisigInsts_def
  by (intro list_all2_appendI) (auto simp: list.rel_map list_all2_same intro!: multisig_chunks)

lemma Block_chunks:
  "BlockMultiSigProgram keys n = UOk prog \<longleftrightarrow> checkMultiSigParams n (int (length keys)) = None \<and>
     prog = concat (multisigChunks [OP_BLOCKHASH] keys n [OP_CHECKMULTISIG])"
  by (auto simp: BlockMultiSigProgram_def Let_def BuilderAddInt64_def AddOp_def Program_foldl_AddData NewBuilder_def
      multisigChunks_def split: option.splits)

lemma P2SP_chunks:
  "P2SPMultiSigProgram keys n = UOk prog \<longleftrightarrow> checkMultiSigParams n (int (length keys)) = None \<and>
     prog = concat (multisigChunks [OP_DUP, OP_TOALTSTACK, OP_SHA3] keys n
       [OP_CHECKMULTISIG, OP_VERIFY, OP_FROMALTSTACK, OP_0, OP_CHECKPREDICATE])"
  by (auto simp: P2SPMultiSigProgram_def Let_def BuilderAddInt64_def [of 0] BuilderAddInt64_def AddOp_def Program_foldl_AddData NewBuilder_def
      multisigChunks_def PushdataInt64_def [of 0] split: option.splits)

lemma collectKeys_eq:
  "collectKeys pops acc = (if \<forall>p \<in> set pops. length (Data p) = PublicKeySize then Some (acc @ map Data pops) else None)"
  by (induction pops arbitrary: acc) auto

lemma plain_ops: "\<forall>op \<in> set [OP_BLOCKHASH, OP_DUP, OP_TOALTSTACK, OP_SHA3, OP_CHECKMULTISIG, OP_VERIFY, OP_FROMALTSTACK, OP_0,
    OP_CHECKPREDICATE]. plain_op op"
  by (simp add: plain_op_def)

lemma checkMultiSigParams_None:
  "checkMultiSigParams n k = None \<longleftrightarrow> 0 \<le> n \<and> n \<le> k \<and> (n = 0 \<longrightarrow> k = 0)"
  by (auto simp: checkMultiSigParams_def)

lemma AsInt64_count: "0 \<le> n \<Longrightarrow> n \<le> 2147483647 \<Longrightarrow> AsInt64 (Int64Bytes n) = Inr n"
  by (simp add: in_i64_iff)

text \<open>What the parsers find in the list of instructions of a built program.\<close>

lemma multisigInsts_nth:
  assumes "pops = multisigInsts pre keys n post" and "l = length pops"
  shows "l = length pre + length keys + 2 + length post"
    and "pops ! (length pre + length keys) = intInst n" and "pops ! (length pre + length keys + 1) = intInst (int (length keys))"
    and "take (length keys) (drop (length pre) pops) = map dataInst keys"
    and "post = p @ [q] \<Longrightarrow> pops ! (l - 1) = opInst q"
  using assms by (simp_all add: multisigInsts_def nth_append)

lemma keysAt_built:
  assumes "pops = multisigInsts pre keys n post"
  shows "keysAt pops (length pre) (int (length keys)) n' =
    UOk (if \<forall>k \<in> set keys. length k = PublicKeySize then (keys, n') else ([], 0))"
  using multisigInsts_nth(4) [OF assms refl] by (simp add: keysAt_def collectKeys_eq comp_def)

lemma concat_count: "(\<And>c. c \<in> set cs \<Longrightarrow> c \<noteq> []) \<Longrightarrow> length cs \<le> length (concat cs)"
proof (induction cs)
  case (Cons c cs)
  then have "1 \<le> length c" "length cs \<le> length (concat cs)" by (simp_all add: Suc_le_eq)
  then show ?case by simp
qed simp

lemma Pushdata_nonempty [simp]: "PushdataBytes d \<noteq> []" "PushdataInt64 n \<noteq> []"
  by (auto simp: PushdataBytes_def PushdataInt64_def Let_def)

lemma keys_count:
  "length (concat (multisigChunks pre keys n post)) \<le> 2147483647 \<Longrightarrow> int (length keys) \<le> 2147483647"
proof -
  have "length keys \<le> length (concat (map PushdataBytes keys))"
    using concat_count [of "map PushdataBytes keys"] by force
  then show "length (concat (multisigChunks pre keys n post)) \<le> 2147483647 \<Longrightarrow> int (length keys) \<le> 2147483647"
    by (auto simp: multisigChunks_def)
qed

lemma ParseBlock_built:
  assumes "BlockMultiSigProgram keys n = UOk prog" and "\<forall>k \<in> set keys. length k \<le> 2147483647"
    and "length prog \<le> 2147483647"
  shows "ParseBlockMultiSigProgram prog =
    UOk (if \<forall>k \<in> set keys. length k = PublicKeySize then (keys, n) else ([], 0))"
proof -
  let ?pops = "multisigInsts [OP_BLOCKHASH] keys n [OP_CHECKMULTISIG]"
  have prog: "prog = concat (multisigChunks [OP_BLOCKHASH] keys n [OP_CHECKMULTISIG])"
    and n: "checkMultiSigParams n (int (length keys)) = None" using assms(1) by (simp_all add: Block_chunks)
  have parse: "ParseProgram prog = Ret ?pops"
    using assms(2,3) plain_ops unfolding prog by (intro ParseProgram_chunks multisig_parses) auto
  have count: "int (length keys) \<le> 2147483647" using keys_count assms(3) unfolding prog by blast
  then have "n \<le> 2147483647" "0 \<le> n" using n by (auto simp: checkMultiSigParams_None)
  then show ?thesis
    using multisigInsts_nth [of ?pops "[OP_BLOCKHASH]" keys n "[OP_CHECKMULTISIG]", OF refl refl] n count
      keysAt_built [of ?pops "[OP_BLOCKHASH]", OF refl]
    by (simp add: ParseBlockMultiSigProgram_def parse Let_def AsInt64_count)
qed

lemma ParseP2SP_built:
  assumes "P2SPMultiSigProgram keys n = UOk prog" and "\<forall>k \<in> set keys. length k \<le> 2147483647"
    and "length prog \<le> 2147483647"
  shows "ParseP2SPMultiSigProgram prog = (if keys = [] then UErr (VMError ErrShortProgram)
     else UOk (if \<forall>k \<in> set keys. length k = PublicKeySize then (keys, n) else ([], 0)))"
proof -
  let ?pre = "[OP_DUP, OP_TOALTSTACK, OP_SHA3]" and ?post = "[OP_CHECKMULTISIG, OP_VERIFY, OP_FROMALTSTACK, OP_0, OP_CHECKPREDICATE]"
  let ?pops = "multisigInsts ?pre keys n ?post"
  have prog: "prog = concat (multisigChunks ?pre keys n ?post)"
    and n: "checkMultiSigParams n (int (length keys)) = None" using assms(1) by (simp_all add: P2SP_chunks)
  have parse: "ParseProgram prog = Ret ?pops"
    using assms(2,3) plain_ops unfolding prog by (intro ParseProgram_chunks multisig_parses) auto
  have count: "int (length keys) \<le> 2147483647" using keys_count assms(3) unfolding prog by blast
  then have "n \<le> 2147483647" "0 \<le> n" using n by (auto simp: checkMultiSigParams_None)
  moreover have "length keys < 1 \<longleftrightarrow> keys = []" by (cases keys) simp_all
  moreover have keys3: "keysAt ?pops 3 (int (length keys)) n =
      UOk (if \<forall>k \<in> set keys. length k = PublicKeySize then (keys, n) else ([], 0))"
    using keysAt_built [of ?pops ?pre, OF refl] by (simp add: numeral_3_eq_3)
  ultimately show ?thesis
    using multisigInsts_nth [of ?pops ?pre keys n ?post, OF refl refl] n count
    by (simp add: ParseP2SPMultiSigProgram_def parse Let_def AsInt64_count keys3)
qed

section \<open>Execution of straight-line programs\<close>

text \<open>
  A machine with context \<open>c\<close> and program \<open>prog\<close> stands before the byte number \<open>k\<close>, with run limit \<open>l\<close>, data
  stack \<open>st\<close> and alternate stack \<open>alt\<close>. \<open>runsTo\<close> relates two such situations that are \<open>n\<close> iterations of the run loop apart.
\<close>

type_synonym situation = "nat \<times> int64 \<times> bytes list \<times> bytes list"

fun stands :: "Context \<Rightarrow> bytes \<Rightarrow> situation \<Rightarrow> virtualMachine \<Rightarrow> bool" where
  "stands c prog (k, l, st, alt) vm \<longleftrightarrow> vcontext vm = c \<and> program vm = prog \<and> pc vm = word_of_nat k \<and>
     runLimit vm = l \<and> dataStack vm = st \<and> altStack vm = alt"

definition runsTo :: "prims \<Rightarrow> Context \<Rightarrow> bytes \<Rightarrow> nat \<Rightarrow> situation \<Rightarrow> situation \<Rightarrow> bool" where
  "runsTo P c prog n s s' \<longleftrightarrow>
     (\<forall>fuel vm. stands c prog s vm \<longrightarrow> (\<exists>vm'. stands c prog s' vm' \<and> runLoop P (n + fuel) vm = runLoop P fuel vm'))"

lemma runsTo_refl: "runsTo P c prog 0 s s"
  by (auto simp: runsTo_def)

lemma runsTo_trans: "runsTo P c prog n s s' \<Longrightarrow> runsTo P c prog m s' s'' \<Longrightarrow> runsTo P c prog (n + m) s s''"
  unfolding runsTo_def add.assoc by metis

text \<open>One instruction, whose operation leaves the deferred cost \<open>d\<close>.\<close>

lemma step_alt:
  assumes "prog = pre @ ch @ post" and "parse_chunk ch inst" and "length prog \<le> 2147483647" and "ch \<noteq> []"
    and "\<not> isExpansion P (Op inst)" and at: "stands c prog (length pre, l, st, alt) vm"
    and op: "\<And>vm. vcontext vm = c \<Longrightarrow> runLimit vm = l \<Longrightarrow> dataStack vm = st \<Longrightarrow> altStack vm = alt \<Longrightarrow> deferredCost vm = 0 \<Longrightarrow>
      vdata vm = Data inst \<Longrightarrow> opFn P (\<lambda>child. runLoop P fuel (child\<lparr>pc := 0\<rparr>)) (Op inst) vm =
        (Ret (), vm\<lparr>runLimit := l1, dataStack := st', altStack := alt', deferredCost := d\<rparr>)"
    and "d \<le> l1" and "\<bar>l1\<bar> \<le> 2 ^ 60" and "\<bar>d\<bar> \<le> 2 ^ 60"
  shows "\<exists>vm'. stands c prog (length (pre @ ch), l1 - d, st', alt') vm' \<and> runLoop P (Suc fuel) vm = runLoop P fuel vm'"
proof -
  let ?child = "\<lambda>child. runLoop P fuel (child\<lparr>pc := 0\<rparr>)"
  let ?vm = "vm\<lparr>nextPC := pc vm + Len inst, deferredCost := 0, vdata := Data inst\<rparr>"
  let ?vm' = "?vm\<lparr>runLimit := l1 - d, dataStack := st', altStack := alt', deferredCost := d, pc := pc vm + Len inst\<rparr>"
  have parse: "ParseOp (program vm) (pc vm) = Ret inst" and len: "length ch = unat (Len inst)"
    using assms(1-3) at by (auto simp: parse_chunk_def)
  have op': "opFn P ?child (Op inst) ?vm = (Ret (), ?vm\<lparr>runLimit := l1, dataStack := st', altStack := alt', deferredCost := d\<rparr>)"
    using at by (intro op) simp_all
  have "applyCost d vm1 = (Ret (), vm1\<lparr>runLimit := l1 - d\<rparr>)" if "runLimit vm1 = l1" for vm1
    using assms(8-10) that by (simp add: applyCost_def i64_small)
  then have "step P ?child vm = (Ret (), ?vm')"
    using assms(5) by (simp add: step_Ret [OF parse] Let_def bindM_def op' withVM_def update_def)
  moreover have "pc vm < word_of_nat (length (program vm))"
    using at assms(1,3,4) by (simp add: word_less_nat_alt unat_of_nat_32 del: of_nat_add)
  ultimately have "runLoop P (Suc fuel) vm = runLoop P fuel ?vm'" by (simp add: withVM_def bindM_def)
  moreover have "word_of_nat (length ch) = Len inst" using len by simp
  ultimately show ?thesis using at by (intro exI [of _ ?vm']) simp
qed

lemma runsTo_step_alt:
  assumes "prog = pre @ ch @ post" and "parse_chunk ch inst" and "length prog \<le> 2147483647" and "ch \<noteq> []"
    and "\<not> isExpansion P (Op inst)"
    and "\<And>runChild vm. vcontext vm = c \<Longrightarrow> runLimit vm = l \<Longrightarrow> dataStack vm = st \<Longrightarrow> altStack vm = alt \<Longrightarrow> deferredCost vm = 0 \<Longrightarrow>
      vdata vm = Data inst \<Longrightarrow>
      opFn P runChild (Op inst) vm = (Ret (), vm\<lparr>runLimit := l1, dataStack := st', altStack := alt', deferredCost := d\<rparr>)"
    and "d \<le> l1" and "\<bar>l1\<bar> \<le> 2 ^ 60" and "\<bar>d\<bar> \<le> 2 ^ 60"
  shows "runsTo P c prog 1 (length pre, l, st, alt) (length (pre @ ch), l1 - d, st', alt')"
  unfolding runsTo_def using step_alt [OF assms(1-5) _ assms(6-9)] by auto

lemma runsTo_step:
  assumes "prog = pre @ ch @ post" and "parse_chunk ch inst" and "length prog \<le> 2147483647" and "ch \<noteq> []"
    and "\<not> isExpansion P (Op inst)"
    and op: "\<And>runChild vm. vcontext vm = c \<Longrightarrow> runLimit vm = l \<Longrightarrow> dataStack vm = st \<Longrightarrow> deferredCost vm = 0 \<Longrightarrow>
      vdata vm = Data inst \<Longrightarrow> opFn P runChild (Op inst) vm = (Ret (), vm\<lparr>runLimit := l1, dataStack := st', deferredCost := d\<rparr>)"
    and "d \<le> l1" and "\<bar>l1\<bar> \<le> 2 ^ 60" and "\<bar>d\<bar> \<le> 2 ^ 60"
  shows "runsTo P c prog 1 (length pre, l, st, alt) (length (pre @ ch), l1 - d, st', alt)"
proof (rule runsTo_step_alt [OF assms(1-5) _ assms(7-9)])
  fix runChild and vm :: virtualMachine
  assume vm: "vcontext vm = c" "runLimit vm = l" "dataStack vm = st" "altStack vm = alt" "deferredCost vm = 0" "vdata vm = Data inst"
  show "opFn P runChild (Op inst) vm = (Ret (), vm\<lparr>runLimit := l1, dataStack := st', altStack := alt, deferredCost := d\<rparr>)"
    unfolding op [OF vm(1-3,5,6)] using vm(4) by simp
qed

lemma opPushdata_eq:
  assumes "vdata vm = d" and "1 + itemCost d \<le> runLimit vm" and "runLimit vm \<le> 2 ^ 60"
  shows "opPushdata vm = (Ret (), vm\<lparr>runLimit := runLimit vm - 1 - itemCost d, dataStack := dataStack vm @ [d]\<rparr>)"
  using assms itemCost_pos [of d] by (simp add: opPushdata_def bindM_def withVM_def applyCost_if push_if)

lemma opFalse_eq:
  assumes "9 \<le> runLimit vm" and "runLimit vm \<le> 2 ^ 60"
  shows "opFalse vm = (Ret (), vm\<lparr>runLimit := runLimit vm - 9, dataStack := dataStack vm @ [[]]\<rparr>)"
  using assms by (simp add: opFalse_def bindM_def pushBool_def applyCost_if push_if BoolBytes_def itemCost_def)

lemma push_ops:
  assumes "OP_1 \<le> op \<and> op \<le> OP_16 \<or> OP_DATA_1 \<le> op \<and> op \<le> OP_DATA_75"
  shows "opFn P ch op = opPushdata" and "\<not> isExpansion P op"
  using assms by (auto simp: opFn_def isExpansion_def)

lemma zero_op: "opFn P ch OP_0 = opFalse" "\<not> isExpansion P OP_0"
  by (simp_all add: opFn_def isExpansion_def opsLiteral_def)

lemma runs_push:
  assumes "prog = pre @ ch @ post" and "parse_chunk ch inst" and "length prog \<le> 2147483647" and "ch \<noteq> []"
    and "OP_1 \<le> Op inst \<and> Op inst \<le> OP_16 \<or> OP_DATA_1 \<le> Op inst \<and> Op inst \<le> OP_DATA_75"
    and "1 + itemCost (Data inst) \<le> l" and "l \<le> 2 ^ 60"
  shows "runsTo P c prog 1 (length pre, l, st, alt) (length (pre @ ch), l - 1 - itemCost (Data inst), st @ [Data inst], alt)"
proof -
  have "runsTo P c prog 1 (length pre, l, st, alt) (length (pre @ ch), l - 1 - itemCost (Data inst) - 0, st @ [Data inst], alt)"
  proof (rule runsTo_step [OF assms(1-4)])
    fix runChild and vm :: virtualMachine
    assume "vcontext vm = c" "runLimit vm = l" "dataStack vm = st" "deferredCost vm = 0" "vdata vm = Data inst"
    then show "opFn P runChild (Op inst) vm = (Ret (), vm\<lparr>runLimit := l - 1 - itemCost (Data inst),
        dataStack := st @ [Data inst], deferredCost := 0\<rparr>)"
      using assms(6,7) by (simp add: push_ops(1) [OF assms(5)] opPushdata_eq)
  qed (use assms(6,7) push_ops(2) [OF assms(5)] itemCost_pos [of "Data inst"] in auto)
  then show ?thesis by simp
qed

lemma runs_key:
  assumes "prog = pre @ PushdataBytes d @ post" and "length prog \<le> 2147483647" and "length d = 32"
    and "41 \<le> l" and "l \<le> 2 ^ 60"
  shows "runsTo P c prog 1 (length pre, l, st, alt) (length (pre @ PushdataBytes d), l - 41, st @ [d], alt)"
proof -
  have op: "Op (dataInst d) = 32"
    using assms(3) by (auto simp: dataInst_def pushInst_def PushdataBytes_def Let_def)
  have "parse_chunk (PushdataBytes d) (dataInst d)" using assms(3) by (intro multisig_chunks) simp
  from runs_push [OF assms(1) this assms(2)] assms(3-5) op show ?thesis
    by (simp add: itemCost_def)
qed

lemma runs_int:
  assumes "prog = pre @ PushdataInt64 n @ post" and "length prog \<le> 2147483647" and "0 \<le> n" "n \<le> 16"
    and "10 \<le> l" and "l \<le> 2 ^ 60"
  shows "\<exists>l'. l - 10 \<le> l' \<and> l' \<le> l \<and>
    runsTo P c prog 1 (length pre, l, st, alt) (length (pre @ PushdataInt64 n), l', st @ [Int64Bytes n], alt)"
proof (cases "n = 0")
  case True
  have "runsTo P c prog 1 (length pre, l, st, alt) (length (pre @ [OP_0]), l - 9 - 0, st @ [[]], alt)"
  proof (rule runsTo_step)
    show "parse_chunk [OP_0] (opInst OP_0)" by (rule multisig_chunks) (simp add: plain_op_def)
    show "prog = pre @ [OP_0] @ post" using assms(1) True by (simp add: PushdataInt64_def)
    fix runChild and vm :: virtualMachine assume "runLimit vm = l" "dataStack vm = st" "deferredCost vm = 0"
    then show "opFn P runChild (Op (opInst OP_0)) vm = (Ret (), vm\<lparr>runLimit := l - 9, dataStack := st @ [[]], deferredCost := 0\<rparr>)"
      using assms(5,6) by (simp add: zero_op opFalse_eq)
  qed (use assms zero_op(2) in auto)
  then show ?thesis using True by (intro exI [of _ "l - 9"]) (simp add: PushdataInt64_def Int64Bytes_def)
next
  case False
  let ?i = "intInst n" and ?op = "OP_1 + word_of_int n - 1 :: byte"
  have n: "1 \<le> n" using False assms(3) by simp
  then have u: "unat ?op = nat (n + 80)"
    using assms(4) by (simp add: unat_eq_nat_uint uint_word_ariths uint_word_of_int)
  have "Op ?i = ?op" using n assms(4) by (simp add: intInst_def pushInst_def PushdataInt64_def)
  then have op: "OP_1 \<le> Op ?i \<and> Op ?i \<le> OP_16"
    using u n assms(4) by (simp add: word_le_nat_alt nat_le_iff le_nat_iff)
  have cost: "itemCost (Int64Bytes n) = 9"
    using n assms(4) by (simp add: Int64Bytes_small itemCost_def)
  show ?thesis
    using runs_push [OF assms(1) multisig_chunks(3) assms(2), of l P c st] op cost assms(5,6)
    by (intro exI [of _ "l - 10"]) simp
qed

lemma runs_keys:
  assumes "prog = pre @ concat (map PushdataBytes keys) @ post" and "length prog \<le> 2147483647"
    and "\<forall>k \<in> set keys. length k = 32" and "41 * int (length keys) \<le> l" and "l \<le> 2 ^ 60"
  shows "runsTo P c prog (length keys) (length pre, l, st, alt)
    (length (pre @ concat (map PushdataBytes keys)), l - 41 * int (length keys), st @ keys, alt)"
  using assms
proof (induction keys arbitrary: pre l st)
  case (Cons k keys)
  have "runsTo P c prog 1 (length pre, l, st, alt) (length (pre @ PushdataBytes k), l - 41, st @ [k], alt)"
    by (rule runs_key) (use Cons.prems in auto)
  moreover have "runsTo P c prog (length keys) (length (pre @ PushdataBytes k), l - 41, st @ [k], alt)
      (length ((pre @ PushdataBytes k) @ concat (map PushdataBytes keys)), l - 41 - 41 * int (length keys), (st @ [k]) @ keys, alt)"
    by (rule Cons.IH) (use Cons.prems in auto)
  ultimately have "runsTo P c prog (1 + length keys) (length pre, l, st, alt)
      (length ((pre @ PushdataBytes k) @ concat (map PushdataBytes keys)), l - 41 - 41 * int (length keys), (st @ [k]) @ keys, alt)"
    by (rule runsTo_trans)
  then show ?case by (simp add: algebra_simps)
qed (simp add: runsTo_refl)

lemma runs_blockhash:
  assumes "prog = pre @ [OP_BLOCKHASH] @ post" and "length prog \<le> 2147483647" and "BlockHash c = Some h" and "length h = 32"
    and "41 \<le> l" and "l \<le> 2 ^ 60"
  shows "runsTo P c prog 1 (length pre, l, st, alt) (length (pre @ [OP_BLOCKHASH]), l - 41, st @ [h], alt)"
proof -
  have "runsTo P c prog 1 (length pre, l, st, alt) (length (pre @ [OP_BLOCKHASH]), l - 41 - 0, st @ [h], alt)"
  proof (rule runsTo_step [OF assms(1)])
    show "parse_chunk [OP_BLOCKHASH] (opInst OP_BLOCKHASH)" by (rule multisig_chunks) (simp add: plain_op_def)
    fix runChild and vm :: virtualMachine
    assume "vcontext vm = c" "runLimit vm = l" "dataStack vm = st" "deferredCost vm = 0"
    then show "opFn P runChild (Op (opInst OP_BLOCKHASH)) vm =
        (Ret (), vm\<lparr>runLimit := l - 41, dataStack := st @ [h], deferredCost := 0\<rparr>)"
      using assms(3-6) by (simp add: opFn_def opsLiteral_def opBlockHash_def bindM_def withVM_def applyCost_if push_if itemCost_def)
  qed (use assms in \<open>auto simp: isExpansion_def opsLiteral_def\<close>)
  then show ?thesis by simp
qed

lemma subseq_rev: "subseq xs ys \<Longrightarrow> subseq (rev xs) (rev ys)"
  by (induction rule: list_emb.induct) (auto intro: list_emb_append2 list_emb_append_mono)

text \<open>The order of keys and signatures does not matter as long as it is the same: the machine sees both reversed.\<close>

lemma multisig_ok_rev: "multisig_ok P msg (rev sigs) (rev keys) \<longleftrightarrow> multisig_ok P msg sigs keys"
proof -
  have "multisig_ok P msg (rev sigs) (rev keys)" if "multisig_ok P msg sigs keys" for sigs keys
    using that unfolding multisig_ok_def by (metis list_all2_rev subseq_rev)
  from this [of sigs keys] this [of "rev sigs" "rev keys"] show ?thesis by auto
qed

lemma runs_checkmultisig:
  assumes "prog = pre @ [OP_CHECKMULTISIG] @ post" and "length prog \<le> 2147483647"
    and st: "st = r @ sigs @ [msg] @ keys @ [Int64Bytes (int (length sigs)), Int64Bytes (int (length keys))]"
    and "length sigs \<le> length keys" and "keys \<noteq> [] \<longrightarrow> sigs \<noteq> []" and "length msg = 32"
    and "\<forall>k \<in> set keys. length k = PublicKeySize"
    and "1024 * int (length keys) \<le> l" and "l + itemsCost st \<le> 2 ^ 58"
  shows "runsTo P c prog 1 (length pre, l, st, alt) (length (pre @ [OP_CHECKMULTISIG]),
    l - 1024 * int (length keys) - (itemCost (BoolBytes (multisig_ok P msg sigs keys)) - itemsCost st + itemsCost r),
    r @ [BoolBytes (multisig_ok P msg sigs keys)], alt)"
proof -
  let ?b = "BoolBytes (multisig_ok P msg sigs keys)" and ?l = "l - 1024 * int (length keys)"
  let ?d = "itemCost ?b - itemsCost st + itemsCost r"
  have cost: "itemCost ?b \<le> 9" "0 \<le> itemCost ?b" "itemCost ?b + itemsCost r \<le> itemsCost st"
    using length_BoolBytes [of "multisig_ok P msg sigs keys"] itemsCost_nonneg [of sigs] itemsCost_nonneg [of keys] assms(6)
    by (auto simp: itemCost_def st)
  show ?thesis
  proof (rule runsTo_step [OF assms(1)])
    show "parse_chunk [OP_CHECKMULTISIG] (opInst OP_CHECKMULTISIG)" by (rule multisig_chunks) (simp add: plain_op_def)
    fix runChild and vm :: virtualMachine
    assume vm: "runLimit vm = l" "dataStack vm = st" "deferredCost vm = 0"
    have "opCheckMultiSig P vm = (Ret (), vm\<lparr>dataStack := r @ [BoolBytes (multisig_ok P msg (rev sigs) (rev keys))],
       runLimit := runLimit vm - 1024 * int (length (rev keys)),
       deferredCost := itemCost (BoolBytes (multisig_ok P msg (rev sigs) (rev keys))) - itemsCost (dataStack vm) + itemsCost r\<rparr>)"
      using assms vm by (intro opCheckMultiSig_effect) auto
    then show "opFn P runChild (Op (opInst OP_CHECKMULTISIG)) vm = (Ret (), vm\<lparr>runLimit := ?l, dataStack := r @ [?b], deferredCost := ?d\<rparr>)"
      using vm by (simp add: opFn_def opsLiteral_def multisig_ok_rev)
  qed (use assms(2,8,9) cost itemsCost_nonneg [of st] itemsCost_nonneg [of r] in \<open>auto simp: isExpansion_def opsLiteral_def\<close>)
qed

lemma pushArgs_eq:
  "itemsCost args \<le> runLimit vm \<Longrightarrow> runLimit vm \<le> 2 ^ 60 \<Longrightarrow>
    pushArgs args vm = (Ret (), vm\<lparr>runLimit := runLimit vm - itemsCost args, dataStack := dataStack vm @ args\<rparr>)"
proof (induction args arbitrary: vm)
  case (Cons x args)
  then show ?case using itemCost_pos [of x] itemsCost_nonneg [of args]
    by (simp add: bindM_def push_if)
qed (simp add: ret_def)

lemma Verify_runsTo:
  assumes "runsTo P c prog n (0, initialRunLimit - itemsCost (Arguments c), Arguments c, []) (length prog, l, r @ [x], alt)"
    and "VMVersion c = 1" and "Code c = prog" and "itemsCost (Arguments c) \<le> initialRunLimit" and "n < fuel"
    and "length prog \<le> 2147483647"
  shows "Verify P fuel c = (if AsBool x then Ret () else Err ErrFalseVMResult)"
proof -
  let ?vm = "newVM c prog (TxVersion c = Some 1) initialRunLimit 0 []"
  let ?vm1 = "?vm\<lparr>runLimit := initialRunLimit - itemsCost (Arguments c), dataStack := Arguments c\<rparr>"
  have args: "pushArgs (Arguments c) ?vm = (Ret (), ?vm1)"
    using pushArgs_eq [of "Arguments c" ?vm] assms(4) by (simp add: newVM_def initialRunLimit_def)
  obtain k where k: "fuel = n + Suc k" using assms(5) less_iff_Suc_add by auto
  have "stands c prog (0, initialRunLimit - itemsCost (Arguments c), Arguments c, []) (?vm1\<lparr>pc := 0\<rparr>)"
    by (simp add: newVM_def)
  then obtain vm' where vm': "stands c prog (length prog, l, r @ [x], alt) vm'"
    and "runLoop P fuel (?vm1\<lparr>pc := 0\<rparr>) = runLoop P (Suc k) vm'"
    using assms(1) unfolding runsTo_def k by blast
  then have "run P fuel ?vm1 = (Ret (), vm')" by (simp add: run_def withVM_def ret_def)
  then show ?thesis using vm' assms(2,3)
    by (simp add: Verify_def Let_def bindM_def args withVM_def falseResult_def throw_def ret_def)
qed

section \<open>Properties\<close>

text \<open>
  C33. Parsing a multisignature program gives back the keys and the quorum it was built from. This needs keys
  of 32 bytes: with another size the parsers return no keys and a quorum of zero, and report no error. A
  pay-to-script program without keys can be built but is not recognized.
\<close>
theorem multisig_program_roundtrip:
  assumes "\<forall>k \<in> set keys. length k \<le> 2147483647" and "length prog \<le> 2147483647"
  shows "(BlockMultiSigProgram keys n = UOk prog \<longrightarrow>
      ParseBlockMultiSigProgram prog = UOk (if \<forall>k \<in> set keys. length k = PublicKeySize then (keys, n) else ([], 0))) \<and>
    (P2SPMultiSigProgram keys n = UOk prog \<longrightarrow>
      ParseP2SPMultiSigProgram prog = (if keys = [] then UErr (VMError ErrShortProgram)
        else UOk (if \<forall>k \<in> set keys. length k = PublicKeySize then (keys, n) else ([], 0))))"
  using ParseBlock_built ParseP2SP_built assms by blast

lemma multisig_program_roundtrip_witness:
  "\<exists>prog. BlockMultiSigProgram [replicate 32 7, replicate 32 8] 1 = UOk prog \<and>
     ParseBlockMultiSigProgram prog = UOk ([replicate 32 7, replicate 32 8], 1)"
proof -
  let ?k = "[replicate 32 7, replicate 32 8] :: bytes list"
  let ?p = "concat (multisigChunks [OP_BLOCKHASH] ?k 1 [OP_CHECKMULTISIG])"
  have prog: "BlockMultiSigProgram ?k 1 = UOk ?p"
    by (subst Block_chunks) (simp add: checkMultiSigParams_def)
  have "length ?p = 70" by code_simp
  then have "ParseBlockMultiSigProgram ?p = UOk (?k, 1)"
    using multisig_program_roundtrip [of ?k ?p 1] prog by (simp add: PublicKeySize_def)
  with prog show ?thesis by blast
qed

text \<open>The run of the block program, with enough run limit \<open>l\<close>.\<close>

lemma block_program_runs:
  assumes prog: "prog = [] @ [OP_BLOCKHASH] @ concat (map PushdataBytes keys) @ PushdataInt64 (int (length sigs)) @
      PushdataInt64 (int (length keys)) @ [OP_CHECKMULTISIG]" (is "prog = [] @ [OP_BLOCKHASH] @ ?k @ PushdataInt64 ?n @ PushdataInt64 ?m @ _")
    and len: "length prog \<le> 2147483647" and params: "length sigs \<le> length keys" "keys \<noteq> [] \<longrightarrow> sigs \<noteq> []"
    and "BlockHash c = Some h" and h: "length h = 32" and keys: "\<forall>k \<in> set keys. length k = PublicKeySize"
    and few: "length keys \<le> 9" and limit: "61 + 1065 * int (length keys) \<le> l" "l + itemsCost sigs \<le> 10000"
  shows "\<exists>l'. runsTo P c prog (length keys + 4) (0, l, sigs, alt) (length prog, l', [] @ [BoolBytes (multisig_ok P h sigs keys)], alt)"
proof -
  note nn = itemsCost_nonneg [of sigs]
  let ?p1 = "[] @ [OP_BLOCKHASH]" let ?p2 = "?p1 @ ?k" let ?p3 = "?p2 @ PushdataInt64 ?n" let ?p4 = "?p3 @ PushdataInt64 ?m"
  have r1: "runsTo P c prog 1 (length ([] :: bytes), l, sigs, alt) (length ?p1, l - 41, sigs @ [h], alt)"
    by (rule runs_blockhash [OF prog len assms(5) h]) (use limit nn in auto)
  have r2: "runsTo P c prog (length keys) (length ?p1, l - 41, sigs @ [h], alt)
      (length ?p2, l - 41 - 41 * ?m, (sigs @ [h]) @ keys, alt)"
    by (rule runs_keys) (use prog len limit nn keys in \<open>auto simp: PublicKeySize_def\<close>)
  have "\<exists>l3. l - 41 - 41 * ?m - 10 \<le> l3 \<and> l3 \<le> l - 41 - 41 * ?m \<and>
      runsTo P c prog 1 (length ?p2, l - 41 - 41 * ?m, (sigs @ [h]) @ keys, alt)
        (length ?p3, l3, ((sigs @ [h]) @ keys) @ [Int64Bytes ?n], alt)"
    by (rule runs_int [of _ _ _ "PushdataInt64 ?m @ [OP_CHECKMULTISIG]"]) (use prog len limit nn few params in auto)
  then obtain l3 where l3: "l - 41 - 41 * ?m - 10 \<le> l3" "l3 \<le> l - 41 - 41 * ?m"
    and r3: "runsTo P c prog 1 (length ?p2, l - 41 - 41 * ?m, (sigs @ [h]) @ keys, alt)
      (length ?p3, l3, ((sigs @ [h]) @ keys) @ [Int64Bytes ?n], alt)" by blast
  have "\<exists>l4. l3 - 10 \<le> l4 \<and> l4 \<le> l3 \<and> runsTo P c prog 1 (length ?p3, l3, ((sigs @ [h]) @ keys) @ [Int64Bytes ?n], alt)
      (length ?p4, l4, (((sigs @ [h]) @ keys) @ [Int64Bytes ?n]) @ [Int64Bytes ?m], alt)"
    by (rule runs_int [of _ _ _ "[OP_CHECKMULTISIG]"]) (use prog len limit nn few l3 in auto)
  then obtain l4 where l4: "l3 - 10 \<le> l4" "l4 \<le> l3"
    and r4: "runsTo P c prog 1 (length ?p3, l3, ((sigs @ [h]) @ keys) @ [Int64Bytes ?n], alt)
      (length ?p4, l4, (((sigs @ [h]) @ keys) @ [Int64Bytes ?n]) @ [Int64Bytes ?m], alt)" by blast
  have "\<exists>l'. runsTo P c prog 1 (length ?p4, l4, (((sigs @ [h]) @ keys) @ [Int64Bytes ?n]) @ [Int64Bytes ?m], alt)
      (length (?p4 @ [OP_CHECKMULTISIG]), l', [] @ [BoolBytes (multisig_ok P h sigs keys)], alt)"
  proof (rule exI, rule runs_checkmultisig)
    have "itemsCost keys = 40 * ?m" using keys by (induction keys) (simp_all add: itemCost_def PublicKeySize_def)
    then show "l4 + itemsCost ((((sigs @ [h]) @ keys) @ [Int64Bytes ?n]) @ [Int64Bytes ?m]) \<le> 2 ^ 58"
      using h nn l3 l4 length_Int64Bytes [of ?n] length_Int64Bytes [of ?m] few limit
      by (simp add: itemCost_def)
  qed (use prog len params h keys limit nn l3 l4 in auto)
  then obtain l5 where "runsTo P c prog 1 (length ?p4, l4, (((sigs @ [h]) @ keys) @ [Int64Bytes ?n]) @ [Int64Bytes ?m], alt)
      (length (?p4 @ [OP_CHECKMULTISIG]), l5, [] @ [BoolBytes (multisig_ok P h sigs keys)], alt)" by blast
  from runsTo_trans [OF runsTo_trans [OF runsTo_trans [OF runsTo_trans [OF r1 r2] r3] r4] this]
  have "runsTo P c prog (length keys + 4) (0, l, sigs, alt)
      (length prog, l5, [] @ [BoolBytes (multisig_ok P h sigs keys)], alt)"
    by (simp add: prog eval_nat_numeral)
  then show ?thesis by blast
qed

lemma block_program_verdict:
  assumes "BlockMultiSigProgram keys (int (length sigs)) = UOk prog"
    and "Code c = prog" and "VMVersion c = 1" and "BlockHash c = Some h" and "Arguments c = sigs"
    and "length h = 32" and "\<forall>k \<in> set keys. length k = PublicKeySize"
    and "itemsCost sigs + 1065 * int (length keys) + 61 \<le> initialRunLimit" and "length keys + 4 < fuel"
  shows "Verify P fuel c = (if multisig_ok P h sigs keys then Ret () else Err ErrFalseVMResult)"
proof -
  note nn = itemsCost_nonneg [of sigs]
  let ?n = "int (length sigs)" and ?m = "int (length keys)" and ?l = "initialRunLimit - itemsCost sigs"
  let ?k = "concat (map PushdataBytes keys)"
  have params: "length sigs \<le> length keys" "keys \<noteq> [] \<longrightarrow> sigs \<noteq> []"
    and prog: "prog = [] @ [OP_BLOCKHASH] @ ?k @ PushdataInt64 ?n @ PushdataInt64 ?m @ [OP_CHECKMULTISIG]"
    using assms(1) by (auto simp: Block_chunks multisigChunks_def checkMultiSigParams_None)
  have few: "length keys \<le> 9" using assms(8) nn by (simp add: initialRunLimit_def)
  have klen: "length ?k = 33 * length keys"
    using assms(7) by (induction keys) (auto simp: PublicKeySize_def PushdataBytes_def Let_def)
  have ilen: "length (PushdataInt64 i) \<le> 13" for i
    using length_PushdataBytes [of "Int64Bytes i"] length_Int64Bytes [of i] by (auto simp: PushdataInt64_def)
  have len: "length prog \<le> 2147483647" using few klen ilen [of ?n] ilen [of ?m] unfolding prog by simp
  have limit: "61 + 1065 * ?m \<le> ?l" "?l + itemsCost sigs \<le> 10000" using assms(8) by (simp_all add: initialRunLimit_def)
  obtain l' where "runsTo P c prog (length keys + 4) (0, ?l, sigs, []) (length prog, l', [] @ [BoolBytes (multisig_ok P h sigs keys)], [])"
    using block_program_runs [OF prog len params assms(4,6,7) few limit] by blast
  with Verify_runsTo [of P c prog "length keys + 4" l' "[]"] assms(2,3,5,8,9) len show ?thesis by simp
qed

text \<open>
  C27. The consensus program does what its name says: run against a block whose hash is \<open>h\<close>, with exactly as many
  arguments as the quorum asks for, it succeeds exactly when the arguments are signatures that, in the order of the keys,
  verify under different keys. This holds while the run limit covers the checks: \<open>1065\<close> for each key, \<open>61\<close> and the cost of
  the arguments are together at most \<open>10000\<close>, so there are at most nine keys. The verdict does not depend on the fuel beyond the
  number of instructions.
\<close>
theorem block_program_checks_quorum:
  assumes "BlockMultiSigProgram keys (int (length sigs)) = UOk prog"
    and "Code c = prog" and "VMVersion c = 1" and "BlockHash c = Some h" and "Arguments c = sigs"
    and "length h = 32" and "\<forall>k \<in> set keys. length k = PublicKeySize"
    and "itemsCost sigs + 1065 * int (length keys) + 61 \<le> initialRunLimit" and "length keys + 4 < fuel"
  shows "Verify P fuel c = (if multisig_ok P h sigs keys then Ret () else Err ErrFalseVMResult)"
  by (rule block_program_verdict [OF assms])

lemma block_program_checks_quorum_witness:
  "let k1 = replicate 32 1; k2 = replicate 32 2; h = replicate 32 7;
       prog = concat (multisigChunks [OP_BLOCKHASH] [k1, k2] 1 [OP_CHECKMULTISIG])
   in Verify toyPrims 100 ((bareContext prog [k2 @ h])\<lparr>BlockHash := Some h\<rparr>) = Ret () \<and>
      Verify toyPrims 100 ((bareContext prog [h @ k2])\<lparr>BlockHash := Some h\<rparr>) = Err ErrFalseVMResult"
proof -
  let ?k1 = "replicate 32 1 :: bytes" and ?k2 = "replicate 32 2 :: bytes" and ?h = "replicate 32 7 :: bytes"
  let ?prog = "concat (multisigChunks [OP_BLOCKHASH] [?k1, ?k2] 1 [OP_CHECKMULTISIG])"
  have run: "Verify toyPrims 100 ((bareContext ?prog [s])\<lparr>BlockHash := Some ?h\<rparr>) =
      (if multisig_ok toyPrims ?h [s] [?k1, ?k2] then Ret () else Err ErrFalseVMResult)" if "length s = 64" for s
    by (rule block_program_checks_quorum [of _ _ ?prog])
       (use that in \<open>simp_all add: Block_chunks checkMultiSigParams_None bareContext_def PublicKeySize_def
          initialRunLimit_def itemCost_def\<close>)
  have "multisig_ok toyPrims ?h [?k2 @ ?h] [?k1, ?k2]" "\<not> multisig_ok toyPrims ?h [?h @ ?k2] [?k1, ?k2]"
    by (simp_all flip: matchSigs_iff add: toyPrims_def)
  with run [of "?k2 @ ?h"] run [of "?h @ ?k2"] show ?thesis by (simp add: Let_def)
qed

end
