(* ===== verification/BC_Hash.thy ===== *)
theory BC_Hash
  imports Prelude
begin

text \<open>
  The 256-bit hash values of \<^verbatim>\<open>protocol/bc/hash.go\<close>: four 64-bit words (the protobuf message
  \<^verbatim>\<open>Hash\<close>) that are written and read in big-endian order.
\<close>

record Hash =
  V0 :: uint64
  V1 :: uint64
  V2 :: uint64
  V3 :: uint64

text \<open>\<^verbatim>\<open>binary.BigEndian\<close> on 64-bit words.\<close>

definition PutUint64 :: "uint64 \<Rightarrow> bytes" where
  "PutUint64 w = rev (le_bytes 8 (unat w))"

definition Uint64 :: "bytes \<Rightarrow> uint64" where
  "Uint64 b = word_of_nat (le_val (rev b))"

definition NewHash :: "bytes \<Rightarrow> Hash" where
  "NewHash b32 = \<lparr>V0 = Uint64 (take 8 b32), V1 = Uint64 (take 8 (drop 8 b32)),
     V2 = Uint64 (take 8 (drop 16 b32)), V3 = Uint64 (take 8 (drop 24 b32))\<rparr>"

definition Byte32 :: "Hash \<Rightarrow> bytes" where
  "Byte32 h = PutUint64 (V0 h) @ PutUint64 (V1 h) @ PutUint64 (V2 h) @ PutUint64 (V3 h)"

definition zeroHash :: Hash where
  "zeroHash = \<lparr>V0 = 0, V1 = 0, V2 = 0, V3 = 0\<rparr>"

text \<open>A nil pointer is \<open>None\<close>.\<close>

definition IsZero :: "Hash option \<Rightarrow> bool" where
  "IsZero h \<longleftrightarrow> (case h of None \<Rightarrow> True | Some x \<Rightarrow> x = zeroHash)"

lemma length_PutUint64 [simp]: "length (PutUint64 w) = 8"
  by (simp add: PutUint64_def)

lemma Uint64_PutUint64 [simp]: "Uint64 (PutUint64 w) = w"
proof -
  have "unat w mod 256 ^ 8 = unat w" using unsigned_less [of w, where 'a = nat] by simp
  then show ?thesis by (simp add: Uint64_def PutUint64_def le_val_le_bytes)
qed

lemma PutUint64_Uint64: "length b = 8 \<Longrightarrow> PutUint64 (Uint64 b) = b"
proof -
  assume b: "length b = 8"
  have "le_val (rev b) < 2 ^ 64" using le_val_less [of "rev b"] b by simp
  then have "unat (word_of_nat (le_val (rev b)) :: uint64) = le_val (rev b)" by (simp add: unat_of_nat)
  then show ?thesis using le_bytes_le_val [of "rev b"] b by (simp add: PutUint64_def Uint64_def)
qed

lemma length_Byte32 [simp]: "length (Byte32 h) = 32"
  by (simp add: Byte32_def)

lemma NewHash_Byte32 [simp]: "NewHash (Byte32 h) = h"
  by (simp add: NewHash_def Byte32_def)

lemma Byte32_NewHash: "length b = 32 \<Longrightarrow> Byte32 (NewHash b) = b"
proof -
  assume b: "length b = 32"
  have "b = take 8 b @ take 8 (drop 8 b) @ take 8 (drop 16 b) @ take 8 (drop 24 b)"
    using b append_take_drop_id [of 8 b] append_take_drop_id [of 8 "drop 8 b"]
      append_take_drop_id [of 8 "drop 16 b"] by simp
  then show ?thesis using b by (simp add: Byte32_def NewHash_def PutUint64_Uint64)
qed

lemma Byte32_inject: "Byte32 a = Byte32 b \<longleftrightarrow> a = b"
  by (metis NewHash_Byte32)

text \<open>
  Hash values correspond one to one with strings of 32 bytes: reading back what was written gives
  the hash, writing what was read gives the bytes, and the all-zero string is the zero hash.
\<close>
lemma hash_bytes_roundtrip:
  "NewHash (Byte32 h) = h \<and> length (Byte32 h) = 32 \<and>
   (length b = 32 \<longrightarrow> Byte32 (NewHash b) = b) \<and> Byte32 zeroHash = replicate 32 0"
proof -
  have "PutUint64 0 = replicate 8 0" by code_simp
  then have "Byte32 zeroHash = replicate 32 0" by (simp add: zeroHash_def Byte32_def flip: replicate_add)
  then show ?thesis using Byte32_NewHash [of b] by simp
qed

lemma hash_bytes_roundtrip_witness:
  "Byte32 (NewHash (replicate 32 7)) = replicate 32 7"
  using hash_bytes_roundtrip [of zeroHash "replicate 32 7"] by simp

end
