(* ===== verification/Patricia.thy ===== *)
theory Patricia
  imports BC_Hash "HOL-Library.Sublist"
begin

text \<open>
  The Merkle Patricia tree of \<^verbatim>\<open>protocol/patricia/patricia.go\<close>: a set of byte strings with a root hash.
  The hash function (SHA3-256) is the parameter \<open>H\<close>. The hashes cached in the nodes are part of the
  model. The theorems show that the tree is a set of items and that its root hash depends on that set alone.
\<close>

section \<open>Data\<close>

text \<open>
  The bits of a key (\<^verbatim>\<open>[]uint8\<close> with values 0 and 1 in the code) are booleans. A leaf has a hash and
  no children; a branch has two children, and a hash if it was computed since its last change.
\<close>

datatype node =
    Leaf (nkey: "bool list") (leafHash: Hash)
  | Branch (nkey: "bool list") (cached: "Hash option") node node

type_synonym Tree = "node option"

text \<open>
  How a tree operation ends: with a value, with the error that a key is a prefix of another (the
  tree is then unchanged), or with a panic.
\<close>

datatype 'a tree_res = TOk 'a | TPrefix | TPanic

definition leafPrefix :: bytes where "leafPrefix = [0]"
definition interiorPrefix :: bytes where "interiorPrefix = [1]"

definition itemHash :: "(bytes \<Rightarrow> bytes) \<Rightarrow> bytes \<Rightarrow> Hash" where
  "itemHash H item = NewHash (H (leafPrefix @ item))"

section \<open>Keys\<close>

definition byteBits :: "byte \<Rightarrow> bool list" where
  "byteBits b = map (\<lambda>i. bit b (7 - i)) [0..<8]"

definition bitKey :: "bytes \<Rightarrow> bool list" where
  "bitKey byteKey = concat (map byteBits byteKey)"

definition bitsByte :: "bool list \<Rightarrow> byte" where
  "bitsByte bs = foldl (\<lambda>b j. b OR push_bit (7 - j) (of_bool (bs ! j))) 0 [0..<8]"

definition byteKey :: "bool list \<Rightarrow> bytes" where
  "byteKey key = map (\<lambda>i. bitsByte (take 8 (drop (i * 8) key))) [0..<length key div 8]"

fun commonPrefixLen :: "bool list \<Rightarrow> bool list \<Rightarrow> nat" where
  "commonPrefixLen (a # as) (b # bs) = (if a \<noteq> b then 0 else Suc (commonPrefixLen as bs))"
| "commonPrefixLen _ _ = 0"

section \<open>Operations\<close>

text \<open>Descending from a leaf follows a nil child pointer, which panics.\<close>

fun lookup :: "node \<Rightarrow> bool list \<Rightarrow> node option tree_res" where
  "lookup (Leaf k h) key =
     (if k = key then TOk (Some (Leaf k h))
      else if \<not> prefix k key then TOk None
      else TPanic)"
| "lookup (Branch k h l r) key =
     (if k = key then TOk None
      else if \<not> prefix k key then TOk None
      else lookup (if key ! length k then r else l) key)"

text \<open>Making a branch for two children, of which the one for \<open>bit\<close> comes first.\<close>

definition branchOn :: "bool list \<Rightarrow> bool \<Rightarrow> node \<Rightarrow> node \<Rightarrow> node" where
  "branchOn k b this other = (if b then Branch k None other this else Branch k None this other)"

definition splitNode :: "node \<Rightarrow> bool list \<Rightarrow> Hash \<Rightarrow> node tree_res" where
  "splitNode n key hash =
     (let common = commonPrefixLen (nkey n) key in
      if common \<ge> length key then TPanic
      else TOk (branchOn (take common key) (key ! common) (Leaf key hash) n))"

fun insertNode :: "node \<Rightarrow> bool list \<Rightarrow> Hash \<Rightarrow> node tree_res" where
  "insertNode (Leaf k h) key hash =
     (if k = key then TOk (Leaf k hash)
      else if prefix k key then TPrefix
      else splitNode (Leaf k h) key hash)"
| "insertNode (Branch k h l r) key hash =
     (if k = key then TPrefix
      else if prefix k key then
        (if key ! length k
         then (case insertNode r key hash of TOk c \<Rightarrow> TOk (Branch k None l c) | TPrefix \<Rightarrow> TPrefix | TPanic \<Rightarrow> TPanic)
         else (case insertNode l key hash of TOk c \<Rightarrow> TOk (Branch k None c r) | TPrefix \<Rightarrow> TPrefix | TPanic \<Rightarrow> TPanic))
      else splitNode (Branch k h l r) key hash)"

fun deleteNode :: "node \<Rightarrow> bool list \<Rightarrow> node option tree_res" where
  "deleteNode (Leaf k h) key =
     (if key = k then TOk None
      else if \<not> prefix k key then TOk (Some (Leaf k h))
      else TPanic)"
| "deleteNode (Branch k h l r) key =
     (if key = k then TOk (Some (Branch k h l r))
      else if \<not> prefix k key then TOk (Some (Branch k h l r))
      else if key ! length k
      then (case deleteNode r key of
              TOk None \<Rightarrow> TOk (Some l)
            | TOk (Some c) \<Rightarrow> TOk (Some (Branch (take (length k) (nkey c)) None l c))
            | TPrefix \<Rightarrow> TPrefix | TPanic \<Rightarrow> TPanic)
      else (case deleteNode l key of
              TOk None \<Rightarrow> TOk (Some r)
            | TOk (Some c) \<Rightarrow> TOk (Some (Branch (take (length k) (nkey c)) None c r))
            | TPrefix \<Rightarrow> TPrefix | TPanic \<Rightarrow> TPanic))"

text \<open>\<open>calcHash\<close> stores the missing hashes; \<open>storedHash\<close> reads the hash of a node that has one.\<close>

fun storedHash :: "node \<Rightarrow> Hash" where
  "storedHash (Leaf k h) = h"
| "storedHash (Branch k c l r) = (case c of Some h \<Rightarrow> h | None \<Rightarrow> zeroHash)"

fun calcHash :: "(bytes \<Rightarrow> bytes) \<Rightarrow> node \<Rightarrow> node" where
  "calcHash H (Leaf k h) = Leaf k h"
| "calcHash H (Branch k (Some h) l r) = Branch k (Some h) l r"
| "calcHash H (Branch k None l r) =
     (let l' = calcHash H l; r' = calcHash H r in
      Branch k (Some (NewHash (H (interiorPrefix @ Byte32 (storedHash l') @ Byte32 (storedHash r'))))) l' r')"

definition nodeHash :: "(bytes \<Rightarrow> bytes) \<Rightarrow> node \<Rightarrow> Hash" where
  "nodeHash H n = storedHash (calcHash H n)"

definition Contains :: "(bytes \<Rightarrow> bytes) \<Rightarrow> Tree \<Rightarrow> bytes \<Rightarrow> bool tree_res" where
  "Contains H t item =
     (case t of
        None \<Rightarrow> TOk False
      | Some root \<Rightarrow>
          (case lookup root (bitKey item) of
             TOk None \<Rightarrow> TOk False
           | TOk (Some n) \<Rightarrow> TOk (nodeHash H n = itemHash H item)
           | TPrefix \<Rightarrow> TPrefix | TPanic \<Rightarrow> TPanic))"

definition Insert :: "(bytes \<Rightarrow> bytes) \<Rightarrow> Tree \<Rightarrow> bytes \<Rightarrow> Tree tree_res" where
  "Insert H t item =
     (case t of
        None \<Rightarrow> TOk (Some (Leaf (bitKey item) (itemHash H item)))
      | Some root \<Rightarrow>
          (case insertNode root (bitKey item) (itemHash H item) of
             TOk n \<Rightarrow> TOk (Some n) | TPrefix \<Rightarrow> TPrefix | TPanic \<Rightarrow> TPanic))"

definition Delete :: "Tree \<Rightarrow> bytes \<Rightarrow> Tree tree_res" where
  "Delete t item = (case t of None \<Rightarrow> TOk None | Some root \<Rightarrow> deleteNode root (bitKey item))"

text \<open>The root hash, and the tree with the hashes that were computed for it.\<close>

definition RootHash :: "(bytes \<Rightarrow> bytes) \<Rightarrow> Tree \<Rightarrow> Hash \<times> Tree" where
  "RootHash H t =
     (case t of None \<Rightarrow> (zeroHash, None) | Some root \<Rightarrow> (nodeHash H root, Some (calcHash H root)))"

text \<open>
  The function that \<open>Walk\<close> calls on each item works on a state \<open>s\<close> of its own and returns an error or
  \<open>None\<close>; an error stops the walk.
\<close>

fun walkNode :: "(bytes \<Rightarrow> 's \<Rightarrow> 'e option \<times> 's) \<Rightarrow> node \<Rightarrow> 's \<Rightarrow> 'e option \<times> 's" where
  "walkNode walkFn (Leaf k h) s = walkFn (byteKey k) s"
| "walkNode walkFn (Branch k h l r) s =
     (case walkNode walkFn l s of (Some e, s') \<Rightarrow> (Some e, s') | (None, s') \<Rightarrow> walkNode walkFn r s')"

definition Walk :: "Tree \<Rightarrow> (bytes \<Rightarrow> 's \<Rightarrow> 'e option \<times> 's) \<Rightarrow> 's \<Rightarrow> 'e option \<times> 's" where
  "Walk t walkFn s = (case t of None \<Rightarrow> (None, s) | Some root \<Rightarrow> walkNode walkFn root s)"

section \<open>Bits and bytes\<close>

lemma length_byteBits [simp]: "length (byteBits b) = 8"
  by (simp add: byteBits_def)

lemma upt8: "[0..<8] = [0, 1, 2, 3, 4, 5, 6, 7 :: nat]"
  by (simp add: upt_rec)

lemma bitsByte_byteBits [simp]: "bitsByte (byteBits b) = b"
proof (rule bit_word_eqI)
  fix n assume "n < LENGTH(8)"
  then have "n \<in> {0, 1, 2, 3, 4, 5, 6, 7}" by auto
  then show "bit (bitsByte (byteBits b)) n \<longleftrightarrow> bit b n"
    by (elim insertE) (simp_all add: bitsByte_def byteBits_def upt8 bit_or_iff bit_push_bit_iff bit_of_bool_iff)
qed

lemma length_bitKey [simp]: "length (bitKey x) = 8 * length x"
  by (induction x) (simp_all add: bitKey_def)

lemma byteKey_bitKey [simp]: "byteKey (bitKey x) = x"
proof (rule nth_equalityI)
  fix i assume "i < length (byteKey (bitKey x))"
  then have i: "i < length x" by (simp add: byteKey_def)
  have "take 8 (drop (i * 8) (bitKey x)) = byteBits (x ! i)"
    using i
  proof (induction x arbitrary: i)
    case (Cons a x)
    then show ?case by (cases i) (simp_all add: bitKey_def)
  qed simp
  with i show "byteKey (bitKey x) ! i = x ! i" by (simp add: byteKey_def)
qed (simp add: byteKey_def)

lemma bitKey_inject [simp]: "bitKey x = bitKey y \<longleftrightarrow> x = y"
  by (metis byteKey_bitKey)

section \<open>The set of keys and the shape invariant\<close>

fun keys :: "node \<Rightarrow> bool list set" where
  "keys (Leaf k h) = {k}"
| "keys (Branch k h l r) = keys l \<union> keys r"

fun wfNode :: "node \<Rightarrow> bool" where
  "wfNode (Leaf k h) \<longleftrightarrow> True"
| "wfNode (Branch k h l r) \<longleftrightarrow> wfNode l \<and> wfNode r \<and>
     (\<forall>x \<in> keys l. prefix (k @ [False]) x) \<and> (\<forall>x \<in> keys r. prefix (k @ [True]) x)"

text \<open>A key that is not in conflict with a set: it is no proper prefix and no proper extension of an element.\<close>

definition compat :: "bool list \<Rightarrow> bool list set \<Rightarrow> bool" where
  "compat x S \<longleftrightarrow> (\<forall>y \<in> S. prefix x y \<or> prefix y x \<longrightarrow> x = y)"

lemma keys_nonempty [simp]: "keys n \<noteq> {}"
  by (induction n) simp_all

lemma keys_nonempty' [simp]: "{} \<noteq> keys n"
  using keys_nonempty [of n] by blast

lemma wf_prefix: "wfNode n \<Longrightarrow> x \<in> keys n \<Longrightarrow> prefix (nkey n) x"
  by (cases n) (auto dest: append_prefixD)

lemma compat_Un [simp]: "compat x (A \<union> B) \<longleftrightarrow> compat x A \<and> compat x B"
  by (auto simp: compat_def)

lemma prefix_bit: "prefix (k @ [b]) x \<Longrightarrow> prefix k x \<and> length k < length x \<and> x ! length k = b"
  by (auto simp: prefix_def)

lemma prefix_bitI: "prefix k x \<Longrightarrow> k \<noteq> x \<Longrightarrow> prefix (k @ [x ! length k]) x"
  by (metis append_one_prefix prefix_length_less prefix_order.less_le)

lemma branch_key_free:
  assumes "wfNode (Branch k h l r)" and "compat key (keys (Branch k h l r))"
  shows "k \<noteq> key"
proof
  assume "k = key"
  obtain x where x: "x \<in> keys l" using keys_nonempty [of l] by blast
  with assms(1) have "prefix (k @ [False]) x" by auto
  with assms(2) x \<open>k = key\<close> prefix_bit [of k False x] show False by (auto simp: compat_def)
qed

lemma leaf_key_free: "compat key {k} \<Longrightarrow> k \<noteq> key \<Longrightarrow> \<not> prefix k key \<and> \<not> prefix key k"
  by (auto simp: compat_def)

section \<open>Lookup\<close>

lemma lookup_correct:
  assumes "wfNode n" and "compat key (keys n)"
  shows "if key \<in> keys n then \<exists>h. lookup n key = TOk (Some (Leaf key h)) else lookup n key = TOk None"
  using assms
proof (induction n)
  case (Branch k h l r)
  have ne: "k \<noteq> key" using branch_key_free Branch.prems by blast
  have in_l: "key \<in> keys l \<Longrightarrow> prefix k key \<and> \<not> key ! length k"
    and in_r: "key \<in> keys r \<Longrightarrow> prefix k key \<and> key ! length k"
    using Branch.prems(1) prefix_bit [of k _ key] by auto
  show ?case
  proof (cases "prefix k key")
    case True
    then show ?thesis using Branch ne in_l in_r by (cases "key ! length k") (auto split: if_splits)
  qed (use ne in_l in_r in auto)
qed (use leaf_key_free in auto)

section \<open>Insertion\<close>

lemma commonPrefixLen_spec:
  assumes "\<not> prefix a b" and "\<not> prefix b a"
  shows "commonPrefixLen a b < length a \<and> commonPrefixLen a b < length b \<and>
    take (commonPrefixLen a b) a = take (commonPrefixLen a b) b \<and>
    a ! commonPrefixLen a b \<noteq> b ! commonPrefixLen a b"
  using assms by (induction a b rule: commonPrefixLen.induct) auto

lemma splitNode_correct:
  assumes "wfNode n" and "compat key (keys n)" and "\<not> prefix (nkey n) key"
  shows "\<exists>n'. splitNode n key hash = TOk n' \<and> wfNode n' \<and> keys n' = insert key (keys n)"
proof -
  let ?c = "commonPrefixLen (nkey n) key"
  obtain x where x: "x \<in> keys n" using keys_nonempty [of n] by blast
  have "\<not> prefix key (nkey n)"
  proof
    assume "prefix key (nkey n)"
    then have "prefix key x" using wf_prefix [OF assms(1) x] by (rule prefix_order.order_trans)
    with assms(2) x have "key = x" by (auto simp: compat_def)
    with wf_prefix [OF assms(1) x] assms(3) show False by simp
  qed
  note c = commonPrefixLen_spec [OF assms(3) this]
  have bit: "prefix (take ?c key @ [key ! ?c]) key" using c by (metis take_Suc_conv_app_nth take_is_prefix)
  have other: "prefix (take ?c key @ [\<not> key ! ?c]) y" if "y \<in> keys n" for y
  proof -
    have "take ?c key @ [\<not> key ! ?c] = take (Suc ?c) (nkey n)"
      using c by (auto simp: take_Suc_conv_app_nth)
    then have "prefix (take ?c key @ [\<not> key ! ?c]) (nkey n)" by (simp add: take_is_prefix)
    with wf_prefix [OF assms(1) that] show ?thesis by (meson prefix_order.order_trans)
  qed
  show ?thesis using c bit other assms(1)
    by (cases "key ! ?c") (auto simp: splitNode_def branchOn_def Let_def)
qed

lemma insertNode_correct:
  assumes "wfNode n" and "compat key (keys n)"
  shows "\<exists>n'. insertNode n key hash = TOk n' \<and> wfNode n' \<and> keys n' = insert key (keys n)"
  using assms
proof (induction n)
  case (Leaf k h)
  then show ?case using splitNode_correct [of "Leaf k h" key hash] leaf_key_free [of key k] by auto
next
  case (Branch k h l r)
  have ne: "k \<noteq> key" using branch_key_free Branch.prems by blast
  show ?case
  proof (cases "prefix k key")
    case True
    then have "prefix (k @ [key ! length k]) key" using prefix_bitI ne by blast
    then show ?thesis using Branch True ne by (cases "key ! length k") fastforce+
  next
    case False
    then show ?thesis using splitNode_correct [OF Branch.prems] ne by simp
  qed
qed

section \<open>Deletion\<close>

lemma common_prefix_nkey:
  assumes "wfNode n" and "\<And>x. x \<in> keys n \<Longrightarrow> prefix p x"
  shows "prefix p (nkey n)"
proof (cases n)
  case (Branch k h l r)
  obtain x y where x: "x \<in> keys l" and y: "y \<in> keys r" using keys_nonempty by blast
  have px: "prefix (k @ [False]) x" "prefix p x" and py: "prefix (k @ [True]) y" "prefix p y"
    using assms x y Branch by auto
  show ?thesis
  proof (rule ccontr)
    assume "\<not> prefix p (nkey n)"
    then have "strict_prefix k p"
      using prefix_same_cases [OF px(2) append_prefixD [OF px(1)]] Branch by (auto simp: strict_prefix_def)
    then have "prefix (k @ [p ! length k]) p" by (auto simp: strict_prefix_def intro: prefix_bitI)
    then have "prefix (k @ [p ! length k]) x" "prefix (k @ [p ! length k]) y"
      using px(2) py(2) by (auto intro: prefix_order.order_trans)
    with px(1) py(1) show False by (auto dest!: prefix_bit)
  qed
qed (use assms in simp)

lemma deleted_key:
  assumes "wfNode c" and "\<And>x. x \<in> keys c \<Longrightarrow> prefix (k @ [b]) x"
  shows "take (length k) (nkey c) = k"
proof -
  have "prefix (k @ [b]) (nkey c)" using assms by (rule common_prefix_nkey)
  then show ?thesis by (auto simp: prefix_def)
qed

definition keysOf :: "node option \<Rightarrow> bool list set" where
  "keysOf t = (case t of None \<Rightarrow> {} | Some n \<Rightarrow> keys n)"

definition wfOf :: "node option \<Rightarrow> bool" where
  "wfOf t \<longleftrightarrow> (case t of None \<Rightarrow> True | Some n \<Rightarrow> wfNode n)"

lemma deleteNode_correct:
  assumes "wfNode n" and "compat key (keys n)"
  shows "\<exists>t. deleteNode n key = TOk t \<and> wfOf t \<and> keysOf t = keys n - {key}"
  using assms
proof (induction n)
  case (Leaf k h)
  then show ?case using leaf_key_free [of key k] by (auto simp: wfOf_def keysOf_def)
next
  case (Branch k h l r)
  have ne: "k \<noteq> key" using branch_key_free Branch.prems by blast
  have sub: "key \<in> keys l \<Longrightarrow> prefix k key \<and> \<not> key ! length k" "key \<in> keys r \<Longrightarrow> prefix k key \<and> key ! length k"
    using Branch.prems(1) prefix_bit [of k _ key] by auto
  show ?case
  proof (cases "prefix k key")
    case False
    then show ?thesis using ne sub Branch.prems(1) by (auto simp: wfOf_def keysOf_def)
  next
    case pre: True
    show ?thesis
    proof (cases "key ! length k")
      case True
      obtain t where t: "deleteNode r key = TOk t" "wfOf t" "keysOf t = keys r - {key}"
        using Branch by auto
      have "take (length k) (nkey c) = k" if "t = Some c" for c
        by (rule deleted_key [of c k True]) (use Branch.prems(1) t that in \<open>auto simp: wfOf_def keysOf_def\<close>)
      then show ?thesis using pre True ne sub t Branch.prems(1)
        by (cases t) (auto simp: wfOf_def keysOf_def)
    next
      case False
      obtain t where t: "deleteNode l key = TOk t" "wfOf t" "keysOf t = keys l - {key}"
        using Branch by auto
      have "take (length k) (nkey c) = k" if "t = Some c" for c
        by (rule deleted_key [of c k False]) (use Branch.prems(1) t that in \<open>auto simp: wfOf_def keysOf_def\<close>)
      then show ?thesis using pre False ne sub t Branch.prems(1)
        by (cases t) (auto simp: wfOf_def keysOf_def)
    qed
  qed
qed

section \<open>Hashes\<close>

text \<open>The hash of a tree as the protocol defines it, and the validity of stored hashes.\<close>

fun merkle :: "(bytes \<Rightarrow> bytes) \<Rightarrow> node \<Rightarrow> Hash" where
  "merkle H (Leaf k h) = itemHash H (byteKey k)"
| "merkle H (Branch k h l r) =
     NewHash (H (interiorPrefix @ Byte32 (merkle H l) @ Byte32 (merkle H r)))"

fun hashed :: "(bytes \<Rightarrow> bytes) \<Rightarrow> node \<Rightarrow> bool" where
  "hashed H (Leaf k h) \<longleftrightarrow> h = itemHash H (byteKey k)"
| "hashed H (Branch k c l r) \<longleftrightarrow> hashed H l \<and> hashed H r \<and>
     (\<forall>x. c = Some x \<longrightarrow> x = merkle H (Branch k c l r))"

lemma calcHash_correct:
  "hashed H n \<Longrightarrow> storedHash (calcHash H n) = merkle H n \<and> hashed H (calcHash H n) \<and>
    keys (calcHash H n) = keys n \<and> (wfNode n \<longrightarrow> wfNode (calcHash H n)) \<and> merkle H (calcHash H n) = merkle H n"
  by (induction H n rule: calcHash.induct) (auto simp: Let_def)

lemma lookup_hashed: "hashed H n \<Longrightarrow> lookup n key = TOk (Some (Leaf k h)) \<Longrightarrow> h = itemHash H (byteKey k)"
  by (induction n) (auto split: if_splits)

lemma splitNode_hashed:
  "hashed H n \<Longrightarrow> splitNode n key (itemHash H (byteKey key)) = TOk n' \<Longrightarrow> hashed H n'"
  by (auto simp: splitNode_def branchOn_def Let_def simp del: merkle.simps split: if_splits)

lemma insertNode_hashed:
  "hashed H n \<Longrightarrow> insertNode n key (itemHash H (byteKey key)) = TOk n' \<Longrightarrow> hashed H n'"
proof (induction n arbitrary: n')
  case (Leaf k h)
  then show ?case using splitNode_hashed [OF Leaf.prems(1)] by (auto split: if_splits)
next
  case (Branch k h l r)
  have left: "hashed H l" and right: "hashed H r" using Branch.prems(1) by simp_all
  show ?case
  proof (cases "prefix k key")
    case True
    then obtain c where c: "insertNode (if key ! length k then r else l) key (itemHash H (byteKey key)) = TOk c"
      "n' = (if key ! length k then Branch k None l c else Branch k None c r)"
      using Branch.prems(2) by (auto split: if_splits tree_res.splits)
    then show ?thesis using left right Branch.IH by (cases "key ! length k") simp_all
  next
    case False
    then have "splitNode (Branch k h l r) key (itemHash H (byteKey key)) = TOk n'"
      using Branch.prems(2) by (auto split: if_splits)
    then show ?thesis by (rule splitNode_hashed [OF Branch.prems(1)])
  qed
qed

lemma deleteNode_hashed: "hashed H n \<Longrightarrow> deleteNode n key = TOk (Some n') \<Longrightarrow> hashed H n'"
proof (induction n arbitrary: n')
  case (Branch k h l r)
  have left: "hashed H l" and right: "hashed H r" using Branch.prems(1) by simp_all
  have child: "\<exists>c. deleteNode (if key ! length k then r else l) key = TOk c \<and>
      n' = (case c of None \<Rightarrow> (if key ! length k then l else r)
        | Some c \<Rightarrow> if key ! length k then Branch (take (length k) (nkey c)) None l c
            else Branch (take (length k) (nkey c)) None c r)" if "key \<noteq> k" "prefix k key"
    using Branch.prems(2) that by (auto split: if_splits tree_res.splits option.splits)
  show ?case
  proof (cases "key \<noteq> k \<and> prefix k key")
    case True
    then obtain c where c: "deleteNode (if key ! length k then r else l) key = TOk c"
      "n' = (case c of None \<Rightarrow> (if key ! length k then l else r)
        | Some c \<Rightarrow> if key ! length k then Branch (take (length k) (nkey c)) None l c
            else Branch (take (length k) (nkey c)) None c r)" using child by blast
    then show ?thesis using left right Branch.IH
      by (cases c; cases "key ! length k") simp_all
  next
    case False
    then have "n' = Branch k h l r" using Branch.prems(2) by (auto split: if_splits)
    then show ?thesis using Branch.prems(1) by simp
  qed
qed (auto split: if_splits)

text \<open>The keys determine the tree, up to the stored hashes.\<close>

lemma wf_bits:
  assumes "wfNode (Branch k h l r)"
  shows "x \<in> keys l \<Longrightarrow> \<not> x ! length k" and "x \<in> keys r \<Longrightarrow> x ! length k"
  using assms prefix_bit [of k _ x] by auto

lemma keys_left: "wfNode (Branch k h l r) \<Longrightarrow> keys l = {x \<in> keys (Branch k h l r). \<not> x ! length k}"
  using wf_bits by auto

lemma keys_right: "wfNode (Branch k h l r) \<Longrightarrow> keys r = {x \<in> keys (Branch k h l r). x ! length k}"
  using wf_bits by auto

lemma branch_keys_differ:
  assumes "wfNode (Branch k h l r)"
  shows "keys (Branch k h l r) \<noteq> {x}"
proof
  assume "keys (Branch k h l r) = {x}"
  moreover obtain y z where yz: "y \<in> keys l" "z \<in> keys r" using keys_nonempty by blast
  ultimately have "y = x" "z = x" by auto
  with wf_bits [OF assms] yz show False by blast
qed

lemma merkle_unique:
  assumes "wfNode n" and "wfNode m" and "keys n = keys m"
  shows "merkle H n = merkle H m"
  using assms
proof (induction n arbitrary: m)
  case (Leaf k h)
  then show ?case using branch_keys_differ [of _ _ _ _ k] by (cases m) (simp, metis keys.simps(1))
next
  case (Branch k h l r)
  obtain k' h' l' r' where m: "m = Branch k' h' l' r'"
    using Branch.prems(3) branch_keys_differ [OF Branch.prems(1)] by (cases m) (metis keys.simps(1), blast)
  have "prefix k k'" "prefix k' k"
    using common_prefix_nkey [OF Branch.prems(2), of k] common_prefix_nkey [OF Branch.prems(1), of k']
      wf_prefix [OF Branch.prems(1)] wf_prefix [OF Branch.prems(2)] Branch.prems(3) m by auto
  then have k: "k' = k" by (rule prefix_order.antisym [symmetric])
  have "keys l = keys l'" "keys r = keys r'"
    using keys_left [OF Branch.prems(1)] keys_left [OF Branch.prems(2) [unfolded m]]
      keys_right [OF Branch.prems(1)] keys_right [OF Branch.prems(2) [unfolded m]] Branch.prems(3)
    by (simp_all only: m k)
  then have "merkle H l = merkle H l'" "merkle H r = merkle H r'"
    using Branch.prems(1,2) m by (auto intro!: Branch.IH)
  then show ?case by (simp add: m)
qed

section \<open>The tree as a set of items\<close>

definition treeInv :: "(bytes \<Rightarrow> bytes) \<Rightarrow> nat \<Rightarrow> Tree \<Rightarrow> bool" where
  "treeInv H len t \<longleftrightarrow> (case t of None \<Rightarrow> True
     | Some n \<Rightarrow> wfNode n \<and> hashed H n \<and> (\<exists>S. keys n = bitKey ` S \<and> (\<forall>x \<in> S. length x = len)))"

definition items :: "Tree \<Rightarrow> bytes set" where
  "items t = byteKey ` keysOf t"

lemma prefix_same_length: "prefix a b \<Longrightarrow> length a = length b \<Longrightarrow> a = b"
  by (auto simp: prefix_def)

lemma compat_bitKey: "length x = len \<Longrightarrow> \<forall>y \<in> S. length y = len \<Longrightarrow> compat (bitKey x) (bitKey ` S)"
  unfolding compat_def
proof (intro ballI impI)
  fix y assume "length x = len" "\<forall>y \<in> S. length y = len" "y \<in> bitKey ` S"
    and p: "prefix (bitKey x) y \<or> prefix y (bitKey x)"
  then have "length (bitKey x) = length y" by auto
  with p show "bitKey x = y" using prefix_same_length [of "bitKey x" y] prefix_same_length [of y "bitKey x"] by auto
qed

lemma items_bitKey: "keysOf t = bitKey ` S \<Longrightarrow> items t = S"
  by (simp add: items_def image_image)

lemma treeInv_keys:
  assumes "treeInv H len t" and "length x = len"
  shows "keysOf t = bitKey ` items t" and "compat (bitKey x) (keysOf t)" and "\<forall>y \<in> items t. length y = len"
proof -
  obtain S where S: "keysOf t = bitKey ` S" "\<forall>y \<in> S. length y = len"
    using assms(1) by (cases t) (auto simp: treeInv_def keysOf_def)
  then show "keysOf t = bitKey ` items t" "\<forall>y \<in> items t. length y = len" by (simp_all add: items_bitKey)
  show "compat (bitKey x) (keysOf t)" using S assms(2) by (simp add: compat_bitKey)
qed

lemma treeInvI:
  "wfOf t \<Longrightarrow> (\<And>n. t = Some n \<Longrightarrow> hashed H n) \<Longrightarrow> keysOf t = bitKey ` S \<Longrightarrow> \<forall>x \<in> S. length x = len \<Longrightarrow>
    treeInv H len t \<and> items t = S"
  by (cases t) (auto simp: treeInv_def wfOf_def keysOf_def items_def image_image)

lemma Contains_correct:
  assumes "treeInv H len t" and "length x = len"
  shows "Contains H t x = TOk (x \<in> items t)"
proof (cases t)
  case (Some n)
  note keys = treeInv_keys [OF assms, unfolded Some keysOf_def option.case]
  have n: "wfNode n" "hashed H n" using assms(1) Some by (auto simp: treeInv_def)
  have "bitKey x \<in> keys n \<longleftrightarrow> x \<in> items (Some n)" using keys(1) by auto
  with lookup_correct [OF n(1) keys(2)] lookup_hashed [OF n(2), of "bitKey x" "bitKey x"] show ?thesis
    by (auto simp: Contains_def Some nodeHash_def split: if_splits)
qed (simp add: Contains_def items_def keysOf_def)

lemma Insert_correct:
  assumes "treeInv H len t" and "length x = len"
  shows "\<exists>t'. Insert H t x = TOk t' \<and> treeInv H len t' \<and> items t' = insert x (items t)"
proof (cases t)
  case None
  then show ?thesis using treeInvI [of "Some (Leaf (bitKey x) (itemHash H x))" H "{x}" len] assms(2)
    by (auto simp: Insert_def wfOf_def keysOf_def items_def)
next
  case (Some n)
  note keys = treeInv_keys [OF assms, unfolded Some keysOf_def option.case]
  have n: "wfNode n" "hashed H n" using assms(1) Some by (auto simp: treeInv_def)
  obtain n' where n': "insertNode n (bitKey x) (itemHash H x) = TOk n'" "wfNode n'" "keys n' = insert (bitKey x) (keys n)"
    using insertNode_correct [OF n(1) keys(2)] by blast
  have "hashed H n'" using insertNode_hashed [OF n(2), of "bitKey x"] n'(1) by simp
  then have "treeInv H len (Some n') \<and> items (Some n') = insert x (items t)"
    using n' keys Some assms(2) by (intro treeInvI) (auto simp: wfOf_def keysOf_def)
  then show ?thesis using n'(1) by (simp add: Insert_def Some)
qed

lemma Delete_correct:
  assumes "treeInv H len t" and "length x = len"
  shows "\<exists>t'. Delete t x = TOk t' \<and> treeInv H len t' \<and> items t' = items t - {x}"
proof (cases t)
  case None
  then show ?thesis by (simp add: Delete_def treeInv_def items_def keysOf_def)
next
  case (Some n)
  note keys = treeInv_keys [OF assms, unfolded Some keysOf_def option.case]
  have n: "wfNode n" "hashed H n" using assms(1) Some by (auto simp: treeInv_def)
  obtain t' where t': "deleteNode n (bitKey x) = TOk t'" "wfOf t'" "keysOf t' = keys n - {bitKey x}"
    using deleteNode_correct [OF n(1) keys(2)] by blast
  have "treeInv H len t' \<and> items t' = items t - {x}"
  proof (rule treeInvI)
    show "keysOf t' = bitKey ` (items t - {x})" using t'(3) keys(1) Some by (auto simp: image_set_diff inj_def)
  qed (use t' keys Some deleteNode_hashed [OF n(2)] in auto)
  then show ?thesis using t'(1) by (simp add: Delete_def Some)
qed

lemma RootHash_correct:
  assumes "treeInv H len t"
  shows "treeInv H len (snd (RootHash H t)) \<and> items (snd (RootHash H t)) = items t"
    and "fst (RootHash H t) = (case t of None \<Rightarrow> zeroHash | Some n \<Rightarrow> merkle H n)"
  using assms calcHash_correct [of H]
  by (auto simp: RootHash_def treeInv_def nodeHash_def items_def keysOf_def split: option.splits)

lemma RootHash_canonical:
  assumes "treeInv H len t" and "treeInv H len t'" and "items t = items t'"
  shows "fst (RootHash H t) = fst (RootHash H t')"
proof -
  have keys: "keysOf t = keysOf t'"
    using treeInv_keys(1) [OF assms(1), of "replicate len 0"] treeInv_keys(1) [OF assms(2), of "replicate len 0"] assms(3)
    by simp
  show ?thesis
  proof (cases t; cases t')
    fix n n' assume "t = Some n" "t' = Some n'"
    then show ?thesis using RootHash_correct(2) [OF assms(1)] RootHash_correct(2) [OF assms(2)] keys assms(1,2)
      by (simp add: keysOf_def treeInv_def merkle_unique)
  qed (use keys in \<open>auto simp: keysOf_def RootHash_def\<close>)
qed

text \<open>
  What a walk amounts to: the items one after the other, in the order of their bits, until the first error.
\<close>

fun visit :: "(bytes \<Rightarrow> 's \<Rightarrow> 'e option \<times> 's) \<Rightarrow> bytes list \<Rightarrow> 's \<Rightarrow> 'e option \<times> 's" where
  "visit f [] s = (None, s)"
| "visit f (x # xs) s = (case f x s of (Some e, s') \<Rightarrow> (Some e, s') | (None, s') \<Rightarrow> visit f xs s')"

definition bitLess :: "bool list \<Rightarrow> bool list \<Rightarrow> bool" where
  "bitLess a b \<longleftrightarrow> (\<exists>p xs ys. a = p @ False # xs \<and> b = p @ True # ys)"

fun keyList :: "node \<Rightarrow> bool list list" where
  "keyList (Leaf k h) = [k]"
| "keyList (Branch k h l r) = keyList l @ keyList r"

lemma set_keyList [simp]: "set (keyList n) = keys n"
  by (induction n) simp_all

lemma visit_append:
  "visit f (xs @ ys) s = (case visit f xs s of (Some e, s') \<Rightarrow> (Some e, s') | (None, s') \<Rightarrow> visit f ys s')"
  by (induction xs arbitrary: s) (auto split: prod.splits option.splits)

lemma visit_single: "visit f [x] s = f x s"
  by (auto split: prod.splits option.splits)

lemma walkNode_visit: "walkNode f n s = visit f (map byteKey (keyList n)) s"
  by (induction n arbitrary: s)
     (simp_all only: walkNode.simps keyList.simps map_append visit_append list.map visit_single)

lemma keyList_sorted: "wfNode n \<Longrightarrow> sorted_wrt bitLess (keyList n)"
proof (induction n)
  case (Branch k h l r)
  have "bitLess x y" if "x \<in> keys l" "y \<in> keys r" for x y
    using Branch.prems that unfolding bitLess_def by (fastforce simp: prefix_def)
  with Branch show ?case by (simp add: sorted_wrt_append)
qed simp

lemma bitLess_irrefl: "\<not> bitLess x x"
  by (auto simp: bitLess_def)

lemma sorted_bits_distinct: "sorted_wrt (\<lambda>x y. bitLess (f x) (f y)) xs \<Longrightarrow> distinct xs"
  by (induction xs) (auto simp: bitLess_irrefl)

lemma Walk_visit:
  assumes "treeInv H len t"
  shows "\<exists>xs. set xs = items t \<and> distinct xs \<and> sorted_wrt (\<lambda>x y. bitLess (bitKey x) (bitKey y)) xs \<and>
    Walk t f s = visit f xs s"
proof (cases t)
  case (Some n)
  let ?xs = "map byteKey (keyList n)"
  have keys: "keys n = bitKey ` items t"
    using treeInv_keys(1) [OF assms, of "replicate len 0"] by (simp add: Some keysOf_def)
  then have inverse: "bitKey (byteKey k) = k" if "k \<in> set (keyList n)" for k using that by auto
  have "sorted_wrt bitLess (keyList n)" using assms keyList_sorted Some by (simp add: treeInv_def)
  then have sorted: "sorted_wrt (\<lambda>x y. bitLess (bitKey x) (bitKey y)) ?xs"
    unfolding sorted_wrt_map by (rule sorted_wrt_mono_rel [rotated]) (simp add: inverse)
  moreover have "distinct ?xs"
    using sorted by (rule sorted_bits_distinct)
  ultimately show ?thesis using keys
    by (intro exI [of _ ?xs]) (simp add: Walk_def Some walkNode_visit image_image)
qed (simp add: Walk_def items_def keysOf_def)

section \<open>The interface of the state tree\<close>

text \<open>
  What the clients of a tree rely on: it is a set of the items it was given, its operations neither
  fail nor panic on acceptable items, and its commitment is a function of the set.
\<close>

locale committed_set =
  fixes emptyTree :: 't
    and ins :: "'t \<Rightarrow> 'x \<Rightarrow> 't tree_res"
    and del :: "'t \<Rightarrow> 'x \<Rightarrow> 't tree_res"
    and mem :: "'t \<Rightarrow> 'x \<Rightarrow> bool tree_res"
    and root :: "'t \<Rightarrow> 'h \<times> 't"
    and elems :: "'t \<Rightarrow> 'x set"
    and inv :: "'t \<Rightarrow> bool"
    and acceptable :: "'x \<Rightarrow> bool"
  assumes inv_empty: "inv emptyTree" and elems_empty: "elems emptyTree = {}"
    and ins_ok: "inv t \<Longrightarrow> acceptable x \<Longrightarrow> \<exists>t'. ins t x = TOk t' \<and> inv t' \<and> elems t' = insert x (elems t)"
    and del_ok: "inv t \<Longrightarrow> acceptable x \<Longrightarrow> \<exists>t'. del t x = TOk t' \<and> inv t' \<and> elems t' = elems t - {x}"
    and mem_ok: "inv t \<Longrightarrow> acceptable x \<Longrightarrow> mem t x = TOk (x \<in> elems t)"
    and root_ok: "inv t \<Longrightarrow> inv (snd (root t)) \<and> elems (snd (root t)) = elems t"
    and root_unique: "inv t \<Longrightarrow> inv t' \<Longrightarrow> elems t = elems t' \<Longrightarrow> fst (root t) = fst (root t')"
begin

text \<open>What an item inserted last, or deleted last, looks like afterwards.\<close>

lemma mem_after_ins:
  assumes "inv t" and "acceptable x" and "acceptable y" and "ins t x = TOk t'"
  shows "mem t' y = TOk (y = x \<or> y \<in> elems t)"
  using ins_ok [OF assms(1,2)] mem_ok [of t' y] assms(3,4) by auto

lemma mem_after_del:
  assumes "inv t" and "acceptable x" and "acceptable y" and "del t x = TOk t'"
  shows "mem t' y = TOk (y \<noteq> x \<and> y \<in> elems t)"
  using del_ok [OF assms(1,2)] mem_ok [of t' y] assms(3,4) by auto

lemma ins_commutes:
  assumes "inv t" and "acceptable x" and "acceptable y"
    and "ins t x = TOk t1" "ins t1 y = TOk t2" "ins t y = TOk u1" "ins u1 x = TOk u2"
  shows "fst (root t2) = fst (root u2)"
proof (rule root_unique)
  show "elems t2 = elems u2"
    using ins_ok [OF assms(1,2)] ins_ok [OF assms(1,3)] ins_ok [of t1 y] ins_ok [of u1 x] assms by auto
qed (use ins_ok [OF assms(1,2)] ins_ok [OF assms(1,3)] ins_ok [of t1 y] ins_ok [of u1 x] assms in auto)

lemma del_undoes_ins:
  assumes "inv t" and "acceptable x" and "x \<notin> elems t" and "ins t x = TOk t1" and "del t1 x = TOk t2"
  shows "fst (root t2) = fst (root t)"
  using ins_ok [OF assms(1,2)] del_ok [of t1 x] assms by (intro root_unique) auto

end

interpretation ptree: committed_set None "Insert H" Delete "Contains H" "RootHash H" items
    "treeInv H len" "\<lambda>x. length x = len" for H len
  by unfold_locales (simp add: treeInv_def, simp add: items_def keysOf_def, erule (1) Insert_correct,
      erule (1) Delete_correct, erule (1) Contains_correct, erule RootHash_correct(1), erule (2) RootHash_canonical)

section \<open>Properties of the tree\<close>

text \<open>The trees that come about by any sequence of operations on items of \<open>len\<close> bytes.\<close>

inductive builtTree :: "(bytes \<Rightarrow> bytes) \<Rightarrow> nat \<Rightarrow> Tree \<Rightarrow> bool" for H len where
  empty: "builtTree H len None"
| inserted: "builtTree H len t \<Longrightarrow> length x = len \<Longrightarrow> Insert H t x = TOk t' \<Longrightarrow> builtTree H len t'"
| deleted: "builtTree H len t \<Longrightarrow> length x = len \<Longrightarrow> Delete t x = TOk t' \<Longrightarrow> builtTree H len t'"
| rooted: "builtTree H len t \<Longrightarrow> builtTree H len (snd (RootHash H t))"

lemma builtTree_inv: "builtTree H len t \<Longrightarrow> treeInv H len t"
proof (induction rule: builtTree.induct)
  case (inserted t x t')
  then show ?case using Insert_correct [of H len t x] by auto
next
  case (deleted t x t')
  then show ?case using Delete_correct [of H len t x] by auto
qed (use ptree.inv_empty ptree.root_ok in auto)

text \<open>
  C29. The Patricia tree is a set: for trees built by any sequence of operations on items of one length,
  \<open>Insert\<close> and \<open>Delete\<close> succeed and add or remove exactly the item, and \<open>Contains\<close> decides membership. No
  operation panics or reports a prefix conflict.
\<close>
theorem patricia_is_set:
  assumes "builtTree H len t" and "length x = len"
  shows "(\<exists>t'. Insert H t x = TOk t' \<and> items t' = insert x (items t)) \<and>
    (\<exists>t'. Delete t x = TOk t' \<and> items t' = items t - {x}) \<and> Contains H t x = TOk (x \<in> items t)"
  using ptree.ins_ok [of H len t x] ptree.del_ok [of H len t x] ptree.mem_ok [of H len t x]
    builtTree_inv [OF assms(1)] assms(2) by blast

text \<open>
  C30. The root hash commits to the set: two trees with the same items have the same root hash, however
  they were built (in which order items were inserted, which others were inserted and deleted
  in between, and which hashes were cached on the way).
\<close>
theorem patricia_root_canonical:
  assumes "builtTree H len t" and "builtTree H len t'" and "items t = items t'"
  shows "fst (RootHash H t) = fst (RootHash H t')"
  by (rule ptree.root_unique [OF builtTree_inv [OF assms(1)] builtTree_inv [OF assms(2)] assms(3)])

text \<open>
  \<open>Walk\<close> visits every item exactly once, in ascending order of the bits, and stops at the first error.
\<close>
lemma patricia_walk_in_order:
  assumes "builtTree H len t"
  shows "\<exists>xs. set xs = items t \<and> distinct xs \<and> sorted_wrt (\<lambda>x y. bitLess (bitKey x) (bitKey y)) xs \<and>
    Walk t f s = visit f xs s"
  by (rule Walk_visit [OF builtTree_inv [OF assms]])

lemma patricia_walk_in_order_witness:
  "Walk (Some (Leaf (bitKey [5]) (itemHash (\<lambda>x. x) [5]))) (\<lambda>x n. (None :: unit option, n + length x)) 0 = (None, 1)"
proof -
  have "builtTree (\<lambda>x. x) 1 (Some (Leaf (bitKey [5]) (itemHash (\<lambda>x. x) [5])))"
    by (rule builtTree.inserted [OF builtTree.empty, of "[5]"]) (simp_all add: Insert_def)
  from patricia_walk_in_order [OF this, of "\<lambda>x n. (None :: unit option, n + length x)" 0] show ?thesis
    by (auto simp: Walk_def)
qed

lemma patricia_is_set_witness:
  "let H = (\<lambda>_. replicate 32 0); t = Some (Leaf (bitKey [5]) (itemHash H [5]))
   in (\<exists>t'. Insert H t [9] = TOk t' \<and> items t' = {[5], [9]}) \<and> Contains H t [5] = TOk True \<and> Contains H t [9] = TOk False"
proof -
  let ?H = "\<lambda>_ :: bytes. replicate 32 (0 :: byte)"
  let ?t = "Some (Leaf (bitKey [5]) (itemHash ?H [5]))"
  have built: "builtTree ?H 1 ?t"
    by (rule builtTree.inserted [OF builtTree.empty, of "[5]"]) (simp_all add: Insert_def)
  have it: "items ?t = {[5]}" by (simp add: items_def keysOf_def)
  from patricia_is_set [OF built, of "[5]"] patricia_is_set [OF built, of "[9]"] it show ?thesis
    by (simp add: Let_def insert_commute)
qed

lemma patricia_root_canonical_witness:
  "let H = (\<lambda>x. replicate 32 (word_of_nat (length x)));
       t = Some (Leaf (bitKey [5]) (itemHash H [5])) in
   \<exists>t1 t2. Insert H t [9] = TOk t1 \<and> Delete t1 [9] = TOk t2 \<and> fst (RootHash H t2) = fst (RootHash H t)"
proof -
  let ?H = "\<lambda>x :: bytes. replicate 32 (word_of_nat (length x) :: byte)"
  let ?t = "Some (Leaf (bitKey [5]) (itemHash ?H [5]))"
  have built: "builtTree ?H 1 ?t"
    by (rule builtTree.inserted [OF builtTree.empty, of "[5]"]) (simp_all add: Insert_def)
  have it: "items ?t = {[5]}" by (simp add: items_def keysOf_def)
  have inv: "treeInv ?H 1 ?t" using built by (rule builtTree_inv)
  obtain t1 where t1: "Insert ?H ?t [9] = TOk t1" "items t1 = {[9], [5]}" "treeInv ?H 1 t1"
    using Insert_correct [OF inv, of "[9]"] it by auto
  obtain t2 where t2: "Delete t1 [9] = TOk t2" "items t2 = {[5]}"
    using Delete_correct [OF t1(3), of "[9]"] t1(2) by auto
  have b1: "builtTree ?H 1 t1" using builtTree.inserted [OF built _ t1(1)] by simp
  have "builtTree ?H 1 t2" using builtTree.deleted [OF b1 _ t2(1)] by simp
  then have "fst (RootHash ?H t2) = fst (RootHash ?H ?t)"
    by (rule patricia_root_canonical [OF _ built]) (simp add: t2(2) it)
  with t1(1) t2(1) show ?thesis unfolding Let_def by blast
qed

text \<open>
  Items of different length are outside this contract although \<open>Insert\<close> documents an error for them:
  inserting a proper prefix of an item panics, and so does looking up or deleting an
  extension of one; only inserting an extension is reported as an error.
\<close>
lemma patricia_prefix_panics:
  assumes "y \<noteq> []"
  shows "Insert H (Some (Leaf (bitKey (x @ y)) h)) x = TPanic \<and>
    Contains H (Some (Leaf (bitKey x) h)) (x @ y) = TPanic \<and>
    Delete (Some (Leaf (bitKey x) h)) (x @ y) = TPanic \<and>
    Insert H (Some (Leaf (bitKey x) h)) (x @ y) = TPrefix"
proof -
  have key: "bitKey (x @ y) = bitKey x @ bitKey y" by (simp add: bitKey_def)
  have common: "commonPrefixLen (k @ k') k = length k" for k k' by (induction k) (cases k', simp_all)
  have "bitKey y \<noteq> []" using assms length_bitKey [of y] by force
  then show ?thesis
    by (simp add: Insert_def Contains_def Delete_def key splitNode_def common Let_def)
qed

lemma patricia_prefix_panics_witness:
  "Insert (\<lambda>x. x) (Some (Leaf (bitKey [1, 2]) zeroHash)) [1] = TPanic"
  using patricia_prefix_panics [of "[2]" "\<lambda>x. x" "[1]" zeroHash] by simp

end
