(* ===== verification/Blockchain_Encoding.thy ===== *)
theory Blockchain_Encoding
  imports Prelude
begin

text \<open>
  The binary encoding of \<^verbatim>\<open>encoding/blockchain/blockchain.go\<close>. A \<^verbatim>\<open>Reader\<close> is the buffer of unread
  bytes; a reading function returns its result and the buffer it leaves. A writing function
  returns the bytes it appends to a writer that does not fail.
\<close>

section \<open>Readers\<close>

datatype enc_error = EOF | ErrUnexpectedEOF | ErrValueRange | ErrUvarintOverflow | ErrConsumer string

type_synonym 'a reader = "bytes \<Rightarrow> (enc_error + 'a) \<times> bytes"

definition ReadByte :: "byte reader" where
  "ReadByte buf = (case buf of [] \<Rightarrow> (Inl EOF, []) | b # buf' \<Rightarrow> (Inr b, buf'))"

text \<open>
  \<^verbatim>\<open>encoding/binary.ReadUvarint\<close>: seven bits per byte, least significant first; \<open>i\<close> counts the bytes read
  and \<open>x\<close> has the value so far, shifted by \<open>7 * i\<close>.
\<close>

fun uvarintLoop :: "nat \<Rightarrow> uint64 \<Rightarrow> uint64 reader" where
  "uvarintLoop i x [] = (Inl EOF, [])"
| "uvarintLoop i x (b # buf) =
     (if b < 0x80 then
        (if i > 9 \<or> (i = 9 \<and> b > 1) then (Inl ErrUvarintOverflow, buf)
         else (Inr (x OR push_bit (7 * i) (ucast b)), buf))
      else uvarintLoop (Suc i) (x OR push_bit (7 * i) (ucast (b AND 0x7f))) buf)"

definition ReadUvarint :: "uint64 reader" where
  "ReadUvarint buf = uvarintLoop 0 0 buf"

definition bindR :: "'a reader \<Rightarrow> ('a \<Rightarrow> 'b reader) \<Rightarrow> 'b reader" where
  "bindR m f buf = (case m buf of (Inl e, buf') \<Rightarrow> (Inl e, buf') | (Inr a, buf') \<Rightarrow> f a buf')"

definition ReadVarint31 :: "uint32 reader" where
  "ReadVarint31 = bindR ReadUvarint (\<lambda>val buf.
     if val > 2147483647 then (Inl ErrValueRange, buf) else (Inr (ucast val), buf))"

definition ReadVarint63 :: "uint64 reader" where
  "ReadVarint63 = bindR ReadUvarint (\<lambda>val buf.
     if val > 9223372036854775807 then (Inl ErrValueRange, buf) else (Inr val, buf))"

definition ReadVarstr31 :: "bytes reader" where
  "ReadVarstr31 = bindR ReadVarint31 (\<lambda>l buf.
     if l = 0 then (Inr [], buf)
     else if unat l > length buf then (Inl ErrUnexpectedEOF, buf)
     else (Inr (take (unat l) buf), drop (unat l) buf))"

text \<open>
  The loop of \<open>ReadVarstrList\<close> with \<open>nelts\<close> elements to go. On an error the list read so far and the error
  are returned; the error is replaced if fewer elements were read than are still to go.
\<close>

primrec varstrListLoop :: "nat \<Rightarrow> bytes list \<Rightarrow> bytes list reader" where
  "varstrListLoop 0 result buf = (Inr result, buf)"
| "varstrListLoop (Suc n) result buf = (case ReadVarstr31 buf of
       (Inr s, buf') \<Rightarrow> varstrListLoop n (result @ [s]) buf'
     | (Inl e, buf') \<Rightarrow> (Inl (if length result + 1 < n then ErrUnexpectedEOF else e), buf'))"

definition ReadVarstrList :: "bytes list reader" where
  "ReadVarstrList = bindR ReadVarint31 (\<lambda>nelts.
     if nelts = 0 then (\<lambda>buf. (Inr [], buf)) else varstrListLoop (unat nelts) [])"

definition ReadExtensibleString :: "'a reader \<Rightarrow> ('a \<times> bytes) reader" where
  "ReadExtensibleString f = bindR ReadVarstr31 (\<lambda>s buf.
     case f s of (Inl e, _) \<Rightarrow> (Inl e, buf) | (Inr a, suffix) \<Rightarrow> (Inr (a, suffix), buf))"

section \<open>Writers\<close>

text \<open>\<^verbatim>\<open>encoding/binary.PutUvarint\<close>\<close>

fun PutUvarint :: "nat \<Rightarrow> bytes" where
  "PutUvarint x = (if x < 128 then [word_of_nat x] else word_of_nat (x mod 128 + 128) # PutUvarint (x div 128))"

declare PutUvarint.simps [simp del]

definition WriteVarint31 :: "uint64 \<Rightarrow> enc_error + bytes" where
  "WriteVarint31 val = (if val > 2147483647 then Inl ErrValueRange else Inr (PutUvarint (unat val)))"

definition WriteVarint63 :: "uint64 \<Rightarrow> enc_error + bytes" where
  "WriteVarint63 val = (if val > 9223372036854775807 then Inl ErrValueRange else Inr (PutUvarint (unat val)))"

definition bindW :: "enc_error + bytes \<Rightarrow> (enc_error + bytes) \<Rightarrow> enc_error + bytes" where
  "bindW a b = (case a of Inl e \<Rightarrow> Inl e | Inr x \<Rightarrow> (case b of Inl e \<Rightarrow> Inl e | Inr y \<Rightarrow> Inr (x @ y)))"

definition WriteVarstr31 :: "bytes \<Rightarrow> enc_error + bytes" where
  "WriteVarstr31 str = bindW (WriteVarint31 (word_of_nat (length str))) (Inr str)"

primrec writeVarstrs :: "bytes list \<Rightarrow> enc_error + bytes" where
  "writeVarstrs [] = Inr []"
| "writeVarstrs (s # l) = bindW (WriteVarstr31 s) (writeVarstrs l)"

definition WriteVarstrList :: "bytes list \<Rightarrow> enc_error + bytes" where
  "WriteVarstrList l = bindW (WriteVarint31 (word_of_nat (length l))) (writeVarstrs l)"

definition WriteExtensibleString :: "bytes \<Rightarrow> enc_error + bytes \<Rightarrow> enc_error + bytes" where
  "WriteExtensibleString suffix f = (case f of Inl e \<Rightarrow> Inl e | Inr out \<Rightarrow> WriteVarstr31 (out @ suffix))"

section \<open>Variable-length integers\<close>

lemma split7: "(word_of_nat (n mod 128) OR push_bit 7 (word_of_nat (n div 128)) :: uint64) = word_of_nat n"
proof (rule bit_word_eqI)
  fix k assume "k < LENGTH(64)"
  have "n mod 128 = take_bit 7 n" "n div 128 = drop_bit 7 n" by (simp_all add: take_bit_eq_mod drop_bit_eq_div)
  with \<open>k < LENGTH(64)\<close>
  show "bit (word_of_nat (n mod 128) OR push_bit 7 (word_of_nat (n div 128)) :: uint64) k = bit (word_of_nat n :: uint64) k"
    by (auto simp: bit_or_iff bit_push_bit_iff bit_simps)
qed

lemma low7: "ucast ((word_of_nat (m + 128) :: byte) AND 0x7f) = (word_of_nat m :: uint64)" if "m < 128"
proof -
  have mask: "(0x7f :: byte) = mask 7" by (simp add: mask_eq_exp_minus_1)
  have "unat ((word_of_nat (m + 128) :: byte) AND 0x7f) = m"
    unfolding mask take_bit_eq_mask [symmetric] unsigned_take_bit_eq
    using that by (subst unat_of_nat) (simp add: take_bit_eq_mod)
  then show ?thesis by (metis of_nat_unat)
qed

lemma uvarintLoop_PutUvarint:
  assumes "n * 2 ^ (7 * i) < 2 ^ 64" and "i \<le> 9"
  shows "uvarintLoop i x (PutUvarint n @ rest) = (Inr (x OR push_bit (7 * i) (word_of_nat n)), rest)"
  using assms
proof (induction n arbitrary: i x rule: PutUvarint.induct)
  case (1 n)
  show ?case
  proof (cases "n < 128")
    case True
    have "word_of_nat n < (0x80 :: byte)" using True by (simp add: word_less_nat_alt unat_of_nat)
    moreover have "n \<le> 1" if "i = 9" using 1(2) that by simp
    moreover have "ucast (word_of_nat n :: byte) = (word_of_nat n :: uint64)" using True
      by (simp add: unsigned_of_nat take_bit_nat_eq_self)
    ultimately show ?thesis using True 1(3) by (auto simp: PutUvarint.simps [of n] word_less_nat_alt)
  next
    case False
    let ?b = "word_of_nat (n mod 128 + 128) :: byte"
    have "(128 :: nat) \<le> n mod 128 + 128" "n mod 128 + 128 < 256" by simp_all
    then have "unat ?b = n mod 128 + 128" by (subst unat_of_nat) simp
    then have b: "\<not> ?b < 0x80" by (simp add: word_less_nat_alt)
    have "n div 128 * 2 ^ (7 * Suc i) = n div 128 * 128 * 2 ^ (7 * i)" by (simp add: power_add)
    also have "\<dots> \<le> n * 2 ^ (7 * i)" by (rule mult_le_mono1) (rule div_times_less_eq_dividend)
    finally have "n div 128 * 2 ^ (7 * Suc i) \<le> n * 2 ^ (7 * i)" .
    then have small: "n div 128 * 2 ^ (7 * Suc i) < 2 ^ 64" using 1(2) by linarith
    have "i \<noteq> 9" using 1(2) False by auto
    then have "Suc i \<le> 9" using 1(3) by simp
    note IH = 1(1) [OF False small this]
    have "x OR push_bit (7 * i) (word_of_nat (n mod 128)) OR push_bit (7 * Suc i) (word_of_nat (n div 128))
        = x OR push_bit (7 * i) (word_of_nat n)"
      by (subst split7 [of n, symmetric]) (simp add: or.assoc push_bit_or push_bit_push_bit add.commute)
    then show ?thesis using False b IH low7 [of "n mod 128"] by (subst PutUvarint.simps) (simp add: or.assoc)
  qed
qed

lemma ReadUvarint_PutUvarint: "ReadUvarint (PutUvarint (unat v) @ rest) = (Inr v, rest)"
  using uvarintLoop_PutUvarint [of "unat v" 0 0 rest] unsigned_less [of v, where 'a = nat]
  by (simp add: ReadUvarint_def)

lemma le_word_nat: "(a :: uint64) > b \<longleftrightarrow> unat b < unat a"
  by (simp add: word_less_nat_alt)

lemma ReadVarint31_Write:
  assumes "WriteVarint31 v = Inr out"
  shows "ReadVarint31 (out @ rest) = (Inr (ucast v), rest)" and "unat v \<le> 2147483647"
  using assms by (auto simp: WriteVarint31_def ReadVarint31_def bindR_def ReadUvarint_PutUvarint word_less_nat_alt
      split: if_splits)

lemma ReadVarint63_Write: "WriteVarint63 v = Inr out \<Longrightarrow> ReadVarint63 (out @ rest) = (Inr v, rest)"
  by (auto simp: WriteVarint63_def ReadVarint63_def bindR_def ReadUvarint_PutUvarint split: if_splits)

lemma unat_ucast_small: "unat (v :: uint64) \<le> 2147483647 \<Longrightarrow> unat (ucast v :: uint32) = unat v"
  by (simp add: unsigned_ucast_eq take_bit_nat_eq_self)

lemma ReadVarstr31_Write:
  assumes "WriteVarstr31 s = Inr out" and "length s < 2 ^ 64"
  shows "ReadVarstr31 (out @ rest) = (Inr s, rest)"
proof -
  let ?n = "word_of_nat (length s) :: uint64"
  obtain hd where hd: "WriteVarint31 ?n = Inr hd" and out: "out = hd @ s"
    using assms(1) by (auto simp: WriteVarstr31_def bindW_def split: sum.splits)
  note rd = ReadVarint31_Write [OF hd]
  have n: "unat ?n = length s" using assms(2) by (subst unat_of_nat) simp
  have l: "unat (ucast ?n :: uint32) = length s" using rd(2) n unat_ucast_small by metis
  moreover have "(ucast ?n :: uint32) = 0 \<longleftrightarrow> s = []" using l by (metis length_0_conv unat_eq_zero)
  ultimately show ?thesis using rd(1) [of "s @ rest"] by (simp add: out ReadVarstr31_def bindR_def)
qed

lemma varstrListLoop_Write:
  "writeVarstrs l = Inr out \<Longrightarrow> \<forall>s \<in> set l. length s < 2 ^ 64 \<Longrightarrow>
    varstrListLoop (length l) acc (out @ rest) = (Inr (acc @ l), rest)"
proof (induction l arbitrary: out acc)
  case (Cons s l)
  obtain o1 o2 where o: "WriteVarstr31 s = Inr o1" "writeVarstrs l = Inr o2" "out = o1 @ o2"
    using Cons.prems(1) by (auto simp: bindW_def split: sum.splits)
  then show ?case using Cons.IH [OF o(2)] Cons.prems(2) ReadVarstr31_Write [OF o(1), of "o2 @ rest"] by simp
qed simp

lemma ReadVarstrList_Write:
  assumes "WriteVarstrList l = Inr out" and "\<forall>s \<in> set l. length s < 2 ^ 64" and "length l < 2 ^ 64"
  shows "ReadVarstrList (out @ rest) = (Inr l, rest)"
proof -
  let ?n = "word_of_nat (length l) :: uint64"
  obtain hd tl where hd: "WriteVarint31 ?n = Inr hd" and tl: "writeVarstrs l = Inr tl" and out: "out = hd @ tl"
    using assms(1) by (auto simp: WriteVarstrList_def bindW_def split: sum.splits)
  note rd = ReadVarint31_Write [OF hd]
  have n: "unat ?n = length l" using assms(3) by (subst unat_of_nat) simp
  have len: "unat (ucast ?n :: uint32) = length l" using rd(2) n unat_ucast_small by metis
  moreover have "(ucast ?n :: uint32) = 0 \<longleftrightarrow> l = []" using len by (metis length_0_conv unat_eq_zero)
  ultimately show ?thesis using rd(1) [of "tl @ rest"] varstrListLoop_Write [OF tl assms(2), of "[]" rest] tl
    by (auto simp: out ReadVarstrList_def bindR_def)
qed

lemma ReadExtensibleString_Write:
  assumes "WriteExtensibleString suffix (Inr body) = Inr out" and "length (body @ suffix) < 2 ^ 64"
    and "f (body @ suffix) = (Inr a, suffix)"
  shows "ReadExtensibleString f (out @ rest) = (Inr (a, suffix), rest)"
  using assms ReadVarstr31_Write [of "body @ suffix" out rest]
  by (simp add: WriteExtensibleString_def ReadExtensibleString_def bindR_def)

section \<open>Reading only moves forward\<close>

definition forward :: "'a reader \<Rightarrow> bool" where
  "forward m \<longleftrightarrow> (\<forall>buf. \<exists>n. snd (m buf) = drop n buf \<and> n \<le> length buf)"

lemma uvarintLoop_forward: "\<exists>n. snd (uvarintLoop i x buf) = drop n buf \<and> n \<le> length buf"
proof (induction i x buf rule: uvarintLoop.induct)
  case (2 i x b buf)
  show ?case
  proof (cases "b < 0x80")
    case True
    then show ?thesis by (intro exI [of _ 1]) auto
  next
    case False
    then obtain n where "snd (uvarintLoop (Suc i) (x OR push_bit (7 * i) (ucast (b AND 0x7f))) buf) = drop n buf"
      "n \<le> length buf" using 2 by blast
    then show ?thesis using False by (intro exI [of _ "Suc n"]) simp
  qed
qed simp

lemma forward_bind:
  assumes "forward m" and "\<And>a. forward (f a)"
  shows "forward (bindR m f)"
  unfolding forward_def
proof
  fix buf
  obtain n where n: "snd (m buf) = drop n buf" "n \<le> length buf" using assms(1) by (auto simp: forward_def)
  show "\<exists>n. snd (bindR m f buf) = drop n buf \<and> n \<le> length buf"
  proof (cases "fst (m buf)")
    case (Inl e)
    then show ?thesis using n by (intro exI [of _ n], cases "m buf") (simp add: bindR_def)
  next
    case (Inr a)
    obtain k where "snd (f a (drop n buf)) = drop k (drop n buf)" "k \<le> length (drop n buf)"
      using assms(2) [of a] unfolding forward_def by blast
    then show ?thesis using n Inr by (intro exI [of _ "k + n"], cases "m buf") (simp add: bindR_def)
  qed
qed

lemma forward_readers: "forward ReadUvarint" "forward ReadVarint31" "forward ReadVarint63" "forward ReadVarstr31"
proof -
  show u: "forward ReadUvarint" using uvarintLoop_forward by (auto simp: forward_def ReadUvarint_def)
  have stay: "forward (\<lambda>buf. if c then (x, buf) else (y, buf))" for c and x y :: "enc_error + 'b"
    unfolding forward_def by (auto intro!: exI [of _ 0])
  show v: "forward ReadVarint31" unfolding ReadVarint31_def by (rule forward_bind [OF u stay])
  show "forward ReadVarint63" unfolding ReadVarint63_def by (rule forward_bind [OF u stay])
  show "forward ReadVarstr31" unfolding ReadVarstr31_def
  proof (rule forward_bind [OF v])
    fix l :: uint32
    show "forward (\<lambda>buf. if l = 0 then (Inr [], buf) else if length buf < unat l then (Inl ErrUnexpectedEOF, buf)
        else (Inr (take (unat l) buf), drop (unat l) buf))"
      unfolding forward_def
    proof
      fix buf :: bytes
      show "\<exists>n. snd (if l = 0 then (Inr [], buf) else if length buf < unat l then (Inl ErrUnexpectedEOF, buf)
          else (Inr (take (unat l) buf), drop (unat l) buf)) = drop n buf \<and> n \<le> length buf"
        by (cases "l = 0 \<or> length buf < unat l") (auto intro: exI [of _ 0] exI [of _ "unat l"])
    qed
  qed
qed

section \<open>Properties\<close>

text \<open>
  Whatever the writers accept, the readers give back: integers of 31 and 63 bits, strings, lists of
  strings and extensible strings are read as they were written, and the bytes that follow stay unread.
\<close>
lemma encoding_roundtrip:
  assumes "length s < 2 ^ 64" and "length l < 2 ^ 64" and "\<forall>x \<in> set l. length x < 2 ^ 64"
  shows "(WriteVarint31 v = Inr o1 \<longrightarrow> ReadVarint31 (o1 @ rest) = (Inr (ucast v), rest)) \<and>
    (WriteVarint63 v = Inr o2 \<longrightarrow> ReadVarint63 (o2 @ rest) = (Inr v, rest)) \<and>
    (WriteVarstr31 s = Inr o3 \<longrightarrow> ReadVarstr31 (o3 @ rest) = (Inr s, rest)) \<and>
    (WriteVarstrList l = Inr o4 \<longrightarrow> ReadVarstrList (o4 @ rest) = (Inr l, rest))"
  using ReadVarint31_Write(1) ReadVarint63_Write ReadVarstr31_Write [OF _ assms(1)]
    ReadVarstrList_Write [OF _ assms(3,2)] by blast

lemma encoding_roundtrip_witness:
  "ReadVarstr31 ([3, 7, 8, 9] @ [5]) = (Inr [7, 8, 9], [5]) \<and> ReadVarint63 ([172, 2] @ [5]) = (Inr 300, [5])"
proof -
  have "WriteVarstr31 [7, 8, 9] = Inr [3, 7, 8, 9]" "WriteVarint63 300 = Inr [172, 2]" by code_simp+
  with encoding_roundtrip [of "[7, 8, 9]" "[]" 300 "[]" "[5]" "[172, 2]" "[3, 7, 8, 9]" "[]"] show ?thesis by simp
qed

text \<open>
  Integers are written exactly when they fit in 31 or 63 bits, and the readers return only such
  integers; every reader leaves a suffix of the buffer it was given, also when it fails.
\<close>
lemma encoding_ranges:
  "(case WriteVarint31 v of Inr out \<Rightarrow> unat v \<le> 2147483647 | Inl e \<Rightarrow> e = ErrValueRange \<and> 2147483647 < unat v) \<and>
   (case WriteVarint63 v of Inr out \<Rightarrow> unat v < 2 ^ 63 | Inl e \<Rightarrow> e = ErrValueRange \<and> 2 ^ 63 \<le> unat v) \<and>
   (case fst (ReadVarint31 buf) of Inr n \<Rightarrow> unat n \<le> 2147483647 | Inl e \<Rightarrow> True) \<and>
   (case fst (ReadVarint63 buf) of Inr n \<Rightarrow> unat n < 2 ^ 63 | Inl e \<Rightarrow> True) \<and>
   (\<exists>n. snd (ReadVarint31 buf) = drop n buf) \<and> (\<exists>n. snd (ReadVarint63 buf) = drop n buf) \<and>
   (\<exists>n. snd (ReadVarstr31 buf) = drop n buf)"
proof (intro conjI)
  show "case fst (ReadVarint31 buf) of Inr n \<Rightarrow> unat n \<le> 2147483647 | Inl e \<Rightarrow> True"
    by (auto simp: ReadVarint31_def bindR_def unat_ucast_small word_less_nat_alt split: sum.splits prod.splits if_splits)
  show "case fst (ReadVarint63 buf) of Inr n \<Rightarrow> unat n < 2 ^ 63 | Inl e \<Rightarrow> True"
    by (auto simp: ReadVarint63_def bindR_def word_less_nat_alt split: sum.splits prod.splits if_splits)
qed (use forward_readers in \<open>auto simp: WriteVarint31_def WriteVarint63_def word_less_nat_alt forward_def\<close>)

end
