(* ===== verification/Outcome.thy ===== *)
theory Outcome
  imports Prelude
begin

text \<open>
  How a Go function of the protocol packages ends: with a value, with an error, with a panic, or not at
  all within the given fuel. The monad composes such functions the way the code composes calls with
  \<^verbatim>\<open>if err != nil { return err }\<close>.
\<close>

datatype ('e, 'a) outcome = Ok 'a | Fail 'e | Crash | Diverge

definition bindO :: "('e, 'a) outcome \<Rightarrow> ('a \<Rightarrow> ('e, 'b) outcome) \<Rightarrow> ('e, 'b) outcome" where
  "bindO m f = (case m of Ok a \<Rightarrow> f a | Fail e \<Rightarrow> Fail e | Crash \<Rightarrow> Crash | Diverge \<Rightarrow> Diverge)"

text \<open>Following a pointer, which panics on nil.\<close>

definition deref :: "'a option \<Rightarrow> ('e, 'a) outcome" where
  "deref p = (case p of None \<Rightarrow> Crash | Some a \<Rightarrow> Ok a)"

definition failIf :: "bool \<Rightarrow> 'e \<Rightarrow> ('e, unit) outcome" where
  "failIf c e = (if c then Fail e else Ok ())"

text \<open>A loop over a slice that stops at the first error.\<close>

primrec forO :: "('a \<Rightarrow> ('e, unit) outcome) \<Rightarrow> 'a list \<Rightarrow> ('e, unit) outcome" where
  "forO f [] = Ok ()"
| "forO f (x # xs) = bindO (f x) (\<lambda>_. forO f xs)"

text \<open>A loop that also carries a state from one iteration to the next.\<close>

primrec foldO :: "('a \<Rightarrow> 's \<Rightarrow> ('e, 's) outcome) \<Rightarrow> 'a list \<Rightarrow> 's \<Rightarrow> ('e, 's) outcome" where
  "foldO f [] s = Ok s"
| "foldO f (x # xs) s = bindO (f x s) (foldO f xs)"

lemma bindO_simps [simp]:
  "bindO (Ok a) f = f a" "bindO (Fail e) f = Fail e" "bindO Crash f = Crash" "bindO Diverge f = Diverge"
  by (simp_all add: bindO_def)

lemma bindO_Ok_iff: "bindO m f = Ok b \<longleftrightarrow> (\<exists>a. m = Ok a \<and> f a = Ok b)"
  by (cases m) simp_all

lemma bindO_assoc: "bindO (bindO m f) g = bindO m (\<lambda>a. bindO (f a) g)"
  by (cases m) simp_all

lemma deref_simps [simp]: "deref (Some a) = Ok a" "deref None = Crash"
  by (simp_all add: deref_def)

lemma deref_Ok_iff [simp]: "deref p = Ok a \<longleftrightarrow> p = Some a"
  by (cases p) simp_all

lemma failIf_Ok_iff [simp]: "failIf c e = Ok u \<longleftrightarrow> \<not> c"
  by (simp add: failIf_def)

lemma forO_Ok_iff: "forO f xs = Ok u \<longleftrightarrow> (\<forall>x \<in> set xs. f x = Ok ())"
  by (induction xs) (auto simp: bindO_Ok_iff)

lemma foldO_append: "foldO f (xs @ ys) s = bindO (foldO f xs s) (foldO f ys)"
  by (induction xs arbitrary: s) (auto simp: bindO_def split: outcome.splits)

section \<open>Actions\<close>

text \<open>
  A function that also changes a state in place returns how it ended and the state it leaves, also when it fails
  halfway.
\<close>

type_synonym ('s, 'e, 'a) action = "'s \<Rightarrow> ('e, 'a) outcome \<times> 's"

definition bindA :: "('s, 'e, 'a) action \<Rightarrow> ('a \<Rightarrow> ('s, 'e, 'b) action) \<Rightarrow> ('s, 'e, 'b) action" where
  "bindA m f s = (case m s of (Ok a, s') \<Rightarrow> f a s' | (Fail e, s') \<Rightarrow> (Fail e, s') | (Crash, s') \<Rightarrow> (Crash, s')
     | (Diverge, s') \<Rightarrow> (Diverge, s'))"

definition pureA :: "('e, 'a) outcome \<Rightarrow> ('s, 'e, 'a) action" where
  "pureA m s = (m, s)"

primrec forA :: "('x \<Rightarrow> ('s, 'e, unit) action) \<Rightarrow> 'x list \<Rightarrow> ('s, 'e, unit) action" where
  "forA f [] = (\<lambda>s. (Ok (), s))"
| "forA f (x # xs) = bindA (f x) (\<lambda>_. forA f xs)"

lemma bindA_Ok_iff: "bindA m f s = (Ok b, s'') \<longleftrightarrow> (\<exists>a s'. m s = (Ok a, s') \<and> f a s' = (Ok b, s''))"
  by (auto simp: bindA_def split: prod.splits outcome.splits)

lemma forA_Cons_Ok: "forA f (x # xs) s = (Ok (), s'') \<longleftrightarrow> (\<exists>s'. f x s = (Ok (), s') \<and> forA f xs s' = (Ok (), s''))"
  by (simp add: bindA_Ok_iff)

end
