(* ===== verification/BC_Entries.thy ===== *)
theory BC_Entries
  imports BC_Hash Blockchain_Encoding Outcome
begin

text \<open>
  The transaction entries of \<^verbatim>\<open>protocol/bc\<close>: the messages of \<^verbatim>\<open>bc.proto\<close> as records, the serialization of an
  entry for hashing (\<^verbatim>\<open>entry.go\<close> and the file of each entry), entry IDs, and the access to the entries of a
  transaction. Record fields carry the name of their record as a prefix. A pointer is an option. SHA3-256
  is the parameter \<open>H\<close>.
\<close>

section \<open>Messages\<close>

type_synonym AssetID = Hash

record AssetAmount =
  amt_AssetId :: "AssetID option"
  amt_Amount :: uint64

record Program =
  prog_VmVersion :: uint64
  prog_Code :: bytes

record AssetDefinition =
  def_InitialBlockId :: "Hash option"
  def_IssuanceProgram :: "Program option"
  def_Data :: "Hash option"

record ValueSource =
  src_Ref :: "Hash option"
  src_Value :: "AssetAmount option"
  src_Position :: uint64

record ValueDestination =
  dst_Ref :: "Hash option"
  dst_Value :: "AssetAmount option"
  dst_Position :: uint64

record BlockHeader =
  bh_Version :: uint64
  bh_Height :: uint64
  bh_PreviousBlockId :: "Hash option"
  bh_TimestampMs :: uint64
  bh_TransactionsRoot :: "Hash option"
  bh_AssetsRoot :: "Hash option"
  bh_NextConsensusProgram :: bytes
  bh_ExtHash :: "Hash option"
  bh_WitnessArguments :: "bytes list"

record TxHeader =
  hdr_Version :: uint64
  hdr_ResultIds :: "Hash option list"
  hdr_Data :: "Hash option"
  hdr_MinTimeMs :: uint64
  hdr_MaxTimeMs :: uint64
  hdr_ExtHash :: "Hash option"

record Mux =
  mux_Sources :: "ValueSource option list"
  mux_Program :: "Program option"
  mux_ExtHash :: "Hash option"
  mux_WitnessDestinations :: "ValueDestination option list"
  mux_WitnessArguments :: "bytes list"

record Nonce =
  nonce_Program :: "Program option"
  nonce_TimeRangeId :: "Hash option"
  nonce_ExtHash :: "Hash option"
  nonce_WitnessArguments :: "bytes list"
  nonce_WitnessAnchoredId :: "Hash option"

record Output =
  out_Source :: "ValueSource option"
  out_ControlProgram :: "Program option"
  out_Data :: "Hash option"
  out_ExtHash :: "Hash option"
  out_Ordinal :: uint64

record Retirement =
  ret_Source :: "ValueSource option"
  ret_Data :: "Hash option"
  ret_ExtHash :: "Hash option"
  ret_Ordinal :: uint64

record TimeRange =
  tr_MinTimeMs :: uint64
  tr_MaxTimeMs :: uint64
  tr_ExtHash :: "Hash option"

record Issuance =
  iss_AnchorId :: "Hash option"
  iss_Value :: "AssetAmount option"
  iss_Data :: "Hash option"
  iss_ExtHash :: "Hash option"
  iss_WitnessDestination :: "ValueDestination option"
  iss_WitnessAssetDefinition :: "AssetDefinition option"
  iss_WitnessArguments :: "bytes list"
  iss_WitnessAnchoredId :: "Hash option"
  iss_Ordinal :: uint64

record Spend =
  sp_SpentOutputId :: "Hash option"
  sp_Data :: "Hash option"
  sp_ExtHash :: "Hash option"
  sp_WitnessDestination :: "ValueDestination option"
  sp_WitnessArguments :: "bytes list"
  sp_WitnessAnchoredId :: "Hash option"
  sp_Ordinal :: uint64

datatype Entry =
    EBlockHeader BlockHeader | ETxHeader TxHeader | EMux Mux | ENonce Nonce | EOutput Output
  | ERetirement Retirement | ETimeRange TimeRange | EIssuance Issuance | ESpend Spend

section \<open>Serialization for hashing\<close>

text \<open>
  The Go values that \<open>writeForHash\<close> distinguishes by type switch and reflection. The result is the bytes
  written, and the error that stopped the writing, if any.
\<close>

datatype goval =
    GByte byte | GUint64 uint64 | GBytes bytes | GByteses "bytes list" | GString bytes
  | GHashPtr "Hash option" | GAssetIDPtr "AssetID option" | GHash Hash | GAssetID AssetID
  | GPtr "goval option" | GSlice "goval list" | GStruct "goval list" | GOther

datatype write_error = EncodingError enc_error | BadType

type_synonym written = "bytes \<times> write_error option"

definition emit :: "enc_error + bytes \<Rightarrow> written" where
  "emit r = (case r of Inl e \<Rightarrow> ([], Some (EncodingError e)) | Inr out \<Rightarrow> (out, None))"

definition andThen :: "written \<Rightarrow> written \<Rightarrow> written" where
  "andThen a b = (case a of (out, Some e) \<Rightarrow> (out, Some e) | (out, None) \<Rightarrow> (out @ fst b, snd b))"

definition byte32zero :: bytes where
  "byte32zero = replicate 32 0"

definition hashPtrBytes :: "Hash option \<Rightarrow> bytes" where
  "hashPtrBytes p = (case p of None \<Rightarrow> byte32zero | Some h \<Rightarrow> Byte32 h)"

fun writeForHash :: "goval \<Rightarrow> written" and writeEach :: "goval list \<Rightarrow> written" where
  "writeForHash (GByte b) = ([b], None)"
| "writeForHash (GUint64 v) = emit (WriteVarint63 v)"
| "writeForHash (GBytes v) = emit (WriteVarstr31 v)"
| "writeForHash (GByteses v) = foldl andThen (emit (WriteVarint31 (word_of_nat (length v)))) (map (\<lambda>s. emit (WriteVarstr31 s)) v)"
| "writeForHash (GString v) = emit (WriteVarstr31 v)"
| "writeForHash (GHashPtr p) = (hashPtrBytes p, None)"
| "writeForHash (GAssetIDPtr p) = (hashPtrBytes p, None)"
| "writeForHash (GHash h) = (Byte32 h, None)"
| "writeForHash (GAssetID h) = (Byte32 h, None)"
| "writeForHash (GPtr None) = ([], None)"
| "writeForHash (GPtr (Some v)) = writeForHash v"
| "writeForHash (GSlice vs) = andThen (emit (WriteVarint31 (word_of_nat (length vs)))) (writeEach vs)"
| "writeForHash (GStruct vs) = writeEach vs"
| "writeForHash GOther = ([], Some BadType)"
| "writeEach [] = ([], None)"
| "writeEach (v # vs) = andThen (writeForHash v) (writeEach vs)"

text \<open>The structures as Go values, with their fields in the order of the declaration.\<close>

definition goProgram :: "Program \<Rightarrow> goval" where
  "goProgram p = GStruct [GUint64 (prog_VmVersion p), GBytes (prog_Code p)]"

definition goAssetAmount :: "AssetAmount \<Rightarrow> goval" where
  "goAssetAmount a = GStruct [GAssetIDPtr (amt_AssetId a), GUint64 (amt_Amount a)]"

definition goAssetDefinition :: "AssetDefinition \<Rightarrow> goval" where
  "goAssetDefinition d = GStruct [GHashPtr (def_InitialBlockId d), GPtr (map_option goProgram (def_IssuanceProgram d)),
     GHashPtr (def_Data d)]"

definition goValueSource :: "ValueSource \<Rightarrow> goval" where
  "goValueSource s = GStruct [GHashPtr (src_Ref s), GPtr (map_option goAssetAmount (src_Value s)), GUint64 (src_Position s)]"

section \<open>Entry IDs\<close>

definition ascii :: "string \<Rightarrow> bytes" where
  "ascii s = map of_char s"

fun entryTyp :: "Entry \<Rightarrow> bytes" where
  "entryTyp (EBlockHeader _) = ascii ''blockheader''"
| "entryTyp (ETxHeader _) = ascii ''txheader''"
| "entryTyp (EMux _) = ascii ''mux1''"
| "entryTyp (ENonce _) = ascii ''nonce1''"
| "entryTyp (EOutput _) = ascii ''output1''"
| "entryTyp (ERetirement _) = ascii ''retirement1''"
| "entryTyp (ETimeRange _) = ascii ''timerange1''"
| "entryTyp (EIssuance _) = ascii ''issuance1''"
| "entryTyp (ESpend _) = ascii ''spend1''"

text \<open>
  What the method \<^verbatim>\<open>writeForHash\<close> of each entry passes to \<^verbatim>\<open>mustWriteForHash\<close>, in order.
\<close>

definition partsBlockHeader :: "BlockHeader \<Rightarrow> goval list" where
  "partsBlockHeader bh = [GUint64 (bh_Version bh), GUint64 (bh_Height bh), GHashPtr (bh_PreviousBlockId bh),
     GUint64 (bh_TimestampMs bh), GHashPtr (bh_TransactionsRoot bh), GHashPtr (bh_AssetsRoot bh),
     GBytes (bh_NextConsensusProgram bh), GHashPtr (bh_ExtHash bh)]"

definition partsTxHeader :: "TxHeader \<Rightarrow> goval list" where
  "partsTxHeader h = [GUint64 (hdr_Version h), GSlice (map GHashPtr (hdr_ResultIds h)), GHashPtr (hdr_Data h),
     GUint64 (hdr_MinTimeMs h), GUint64 (hdr_MaxTimeMs h), GHashPtr (hdr_ExtHash h)]"

definition partsMux :: "Mux \<Rightarrow> goval list" where
  "partsMux m = [GSlice (map (\<lambda>s. GPtr (map_option goValueSource s)) (mux_Sources m)),
     GPtr (map_option goProgram (mux_Program m)), GHashPtr (mux_ExtHash m)]"

definition partsNonce :: "Nonce \<Rightarrow> goval list" where
  "partsNonce n = [GPtr (map_option goProgram (nonce_Program n)), GHashPtr (nonce_TimeRangeId n),
     GHashPtr (nonce_ExtHash n)]"

definition partsOutput :: "Output \<Rightarrow> goval list" where
  "partsOutput out = [GPtr (map_option goValueSource (out_Source out)), GPtr (map_option goProgram (out_ControlProgram out)),
     GHashPtr (out_Data out), GHashPtr (out_ExtHash out)]"

definition partsRetirement :: "Retirement \<Rightarrow> goval list" where
  "partsRetirement r = [GPtr (map_option goValueSource (ret_Source r)), GHashPtr (ret_Data r), GHashPtr (ret_ExtHash r)]"

definition partsTimeRange :: "TimeRange \<Rightarrow> goval list" where
  "partsTimeRange tr = [GUint64 (tr_MinTimeMs tr), GUint64 (tr_MaxTimeMs tr), GHashPtr (tr_ExtHash tr)]"

definition partsIssuance :: "Issuance \<Rightarrow> goval list" where
  "partsIssuance iss = [GHashPtr (iss_AnchorId iss), GPtr (map_option goAssetAmount (iss_Value iss)),
     GHashPtr (iss_Data iss), GHashPtr (iss_ExtHash iss)]"

definition partsSpend :: "Spend \<Rightarrow> goval list" where
  "partsSpend s = [GHashPtr (sp_SpentOutputId s), GHashPtr (sp_Data s), GHashPtr (sp_ExtHash s)]"

declare partsBlockHeader_def [simp] partsTxHeader_def [simp] partsMux_def [simp] partsNonce_def [simp] partsOutput_def [simp] partsRetirement_def [simp] partsTimeRange_def [simp] partsIssuance_def [simp] partsSpend_def [simp]

fun hashedParts :: "Entry \<Rightarrow> goval list" where
  "hashedParts (EBlockHeader bh) = partsBlockHeader bh"
| "hashedParts (ETxHeader h) = partsTxHeader h"
| "hashedParts (EMux m) = partsMux m"
| "hashedParts (ENonce n) = partsNonce n"
| "hashedParts (EOutput out) = partsOutput out"
| "hashedParts (ERetirement r) = partsRetirement r"
| "hashedParts (ETimeRange tr) = partsTimeRange tr"
| "hashedParts (EIssuance iss) = partsIssuance iss"
| "hashedParts (ESpend s) = partsSpend s"

text \<open>\<open>mustWriteForHash\<close> panics on an error.\<close>

fun mustWriteForHash :: "goval list \<Rightarrow> ('e, bytes) outcome" where
  "mustWriteForHash [] = Ok []"
| "mustWriteForHash (v # vs) =
     (case writeForHash v of (_, Some e) \<Rightarrow> Crash | (out, None) \<Rightarrow> bindO (mustWriteForHash vs) (\<lambda>rest. Ok (out @ rest)))"

text \<open>The ID of a nil entry is the zero hash.\<close>

definition entryID :: "(bytes \<Rightarrow> bytes) \<Rightarrow> Entry option \<Rightarrow> ('e, Hash) outcome" where
  "entryID H e = (case e of None \<Rightarrow> Ok zeroHash
     | Some e \<Rightarrow> bindO (mustWriteForHash (hashedParts e)) (\<lambda>body.
         Ok (NewHash (H (ascii ''entryid:'' @ entryTyp e @ ascii '':'' @ H body)))))"

section \<open>Assets\<close>

text \<open>\<open>ComputeAssetID\<close> hashes what was written and ignores an error.\<close>

definition ComputeAssetID :: "(bytes \<Rightarrow> bytes) \<Rightarrow> AssetDefinition \<Rightarrow> AssetID" where
  "ComputeAssetID H d = NewHash (H (fst (writeForHash (goAssetDefinition d))))"

text \<open>\<open>None\<close> is the error that an amount or its asset is missing.\<close>

definition amountEqual :: "AssetAmount option \<Rightarrow> AssetAmount option \<Rightarrow> bool option" where
  "amountEqual a other = (case (a, other) of
       (Some x, Some y) \<Rightarrow> (case (amt_AssetId x, amt_AssetId y) of
           (Some i, Some j) \<Rightarrow> Some (amt_Amount x = amt_Amount y \<and> i = j) | _ \<Rightarrow> None)
     | _ \<Rightarrow> None)"

section \<open>Transactions and blocks\<close>

text \<open>The entries stored in a transaction are not nil; a missing one is \<open>None\<close>.\<close>

record Tx =
  tx_TxHeader :: TxHeader
  tx_ID :: Hash
  tx_Entries :: "Hash \<Rightarrow> Entry option"
  tx_InputIDs :: "Hash list"
  tx_NonceIDs :: "Hash list"
  tx_SpentOutputIDs :: "Hash list"

record Block =
  blk_BlockHeader :: BlockHeader
  blk_ID :: Hash
  blk_Transactions :: "Tx list"

datatype tx_error = TxErrEntryType | TxErrMissingEntry

definition SigHash :: "(bytes \<Rightarrow> bytes) \<Rightarrow> Tx \<Rightarrow> nat \<Rightarrow> ('e, Hash) outcome" where
  "SigHash H tx n = (if n < length (tx_InputIDs tx)
     then Ok (NewHash (H (Byte32 (tx_InputIDs tx ! n) @ Byte32 (tx_ID tx)))) else Crash)"

definition txTimeRange :: "Tx \<Rightarrow> Hash \<Rightarrow> tx_error + TimeRange" where
  "txTimeRange tx eid = (case tx_Entries tx eid of None \<Rightarrow> Inl TxErrMissingEntry
     | Some (ETimeRange tr) \<Rightarrow> Inr tr | _ \<Rightarrow> Inl TxErrEntryType)"

definition txOutput :: "Tx \<Rightarrow> Hash \<Rightarrow> tx_error + Output" where
  "txOutput tx eid = (case tx_Entries tx eid of None \<Rightarrow> Inl TxErrMissingEntry
     | Some (EOutput out) \<Rightarrow> Inr out | _ \<Rightarrow> Inl TxErrEntryType)"

definition txSpend :: "Tx \<Rightarrow> Hash \<Rightarrow> tx_error + Spend" where
  "txSpend tx eid = (case tx_Entries tx eid of None \<Rightarrow> Inl TxErrMissingEntry
     | Some (ESpend s) \<Rightarrow> Inr s | _ \<Rightarrow> Inl TxErrEntryType)"

definition txIssuance :: "Tx \<Rightarrow> Hash \<Rightarrow> tx_error + Issuance" where
  "txIssuance tx eid = (case tx_Entries tx eid of None \<Rightarrow> Inl TxErrMissingEntry
     | Some (EIssuance iss) \<Rightarrow> Inr iss | _ \<Rightarrow> Inl TxErrEntryType)"

definition txNonce :: "Tx \<Rightarrow> Hash \<Rightarrow> tx_error + Nonce" where
  "txNonce tx eid = (case tx_Entries tx eid of None \<Rightarrow> Inl TxErrMissingEntry
     | Some (ENonce n) \<Rightarrow> Inr n | _ \<Rightarrow> Inl TxErrEntryType)"

section \<open>The serialization is injective\<close>

text \<open>
  A nil hash pointer is written like the zero hash; \<open>normal\<close> identifies the two. A nil pointer to a
  structure is written as nothing: values are \<open>alike\<close> if no such pointer is nil and they have the same types.
\<close>

fun normal :: "goval \<Rightarrow> goval" where
  "normal (GHashPtr p) = GHashPtr (Some (case p of None \<Rightarrow> zeroHash | Some h \<Rightarrow> h))"
| "normal (GAssetIDPtr p) = GAssetIDPtr (Some (case p of None \<Rightarrow> zeroHash | Some h \<Rightarrow> h))"
| "normal (GPtr (Some v)) = GPtr (Some (normal v))"
| "normal (GSlice vs) = GSlice (map normal vs)"
| "normal (GStruct vs) = GStruct (map normal vs)"
| "normal v = v"

inductive alike :: "goval \<Rightarrow> goval \<Rightarrow> bool" and alikes :: "goval list \<Rightarrow> goval list \<Rightarrow> bool" where
  "alike (GUint64 v) (GUint64 w)"
| "length v < 2 ^ 63 \<Longrightarrow> length w < 2 ^ 63 \<Longrightarrow> alike (GBytes v) (GBytes w)"
| "alike (GHashPtr p) (GHashPtr q)"
| "alike (GAssetIDPtr p) (GAssetIDPtr q)"
| "alike v w \<Longrightarrow> alike (GPtr (Some v)) (GPtr (Some w))"
| "length vs < 2 ^ 63 \<Longrightarrow> length ws < 2 ^ 63 \<Longrightarrow> (\<forall>v w. v \<in> set vs \<longrightarrow> w \<in> set ws \<longrightarrow> alike v w) \<Longrightarrow>
     alike (GSlice vs) (GSlice ws)"
| "alikes vs ws \<Longrightarrow> alike (GStruct vs) (GStruct ws)"
| "alikes [] []"
| "alike v w \<Longrightarrow> alikes vs ws \<Longrightarrow> alikes (v # vs) (w # ws)"

lemma hashPtr_normal: "hashPtrBytes p = Byte32 (case p of None \<Rightarrow> zeroHash | Some h \<Rightarrow> h)"
proof -
  have "PutUint64 0 = replicate 8 0" by code_simp
  then have "Byte32 zeroHash = byte32zero" by (simp add: zeroHash_def Byte32_def byte32zero_def flip: replicate_add)
  then show ?thesis by (simp add: hashPtrBytes_def split: option.split)
qed

lemma hashPtr_inject:
  "hashPtrBytes p @ r = hashPtrBytes q @ s \<Longrightarrow>
    (case p of None \<Rightarrow> zeroHash | Some h \<Rightarrow> h) = (case q of None \<Rightarrow> zeroHash | Some h \<Rightarrow> h) \<and> r = s"
  by (simp add: hashPtr_normal Byte32_inject)

lemma WriteVarint63_inject:
  assumes "WriteVarint63 v = Inr a" and "WriteVarint63 w = Inr b" and "a @ r = b @ s"
  shows "v = w \<and> r = s"
  using ReadVarint63_Write [OF assms(1), of r] ReadVarint63_Write [OF assms(2), of s] assms(3) by simp

lemma WriteVarstr31_inject:
  assumes "WriteVarstr31 v = Inr a" and "WriteVarstr31 w = Inr b" and "a @ r = b @ s"
    and "length v < 2 ^ 63" and "length w < 2 ^ 63"
  shows "v = w \<and> r = s"
  using ReadVarstr31_Write [OF assms(1), of r] ReadVarstr31_Write [OF assms(2), of s] assms by simp

lemma WriteVarint31_inject:
  assumes "WriteVarint31 (word_of_nat m) = Inr a" and "WriteVarint31 (word_of_nat n) = Inr b" and "a @ r = b @ s"
    and "m < 2 ^ 63" and "n < 2 ^ 63"
  shows "m = n \<and> r = s"
proof -
  let ?m = "word_of_nat m :: uint64" and ?n = "word_of_nat n :: uint64"
  have "ucast ?m = (ucast ?n :: uint32)" "r = s"
    using ReadVarint31_Write(1) [OF assms(1), of r] ReadVarint31_Write(1) [OF assms(2), of s] assms(3) by auto
  moreover have "unat ?m = m" "unat ?n = n" using assms(4,5) by (simp_all add: unat_of_nat)
  ultimately show ?thesis
    using unat_ucast_small ReadVarint31_Write(2) [OF assms(1)] ReadVarint31_Write(2) [OF assms(2)] by metis
qed

lemma andThen_None: "andThen a b = (out, None) \<longleftrightarrow> (\<exists>x y. a = (x, None) \<and> b = (y, None) \<and> out = x @ y)"
  by (cases a; cases b; cases "snd a") (auto simp: andThen_def)

lemma emit_None: "emit r = (out, None) \<longleftrightarrow> r = Inr out"
  by (auto simp: emit_def split: sum.splits)

definition bindsTo :: "goval \<Rightarrow> goval \<Rightarrow> bool" where
  "bindsTo v w \<longleftrightarrow> (\<forall>a b r s. writeForHash v = (a, None) \<longrightarrow> writeForHash w = (b, None) \<longrightarrow> a @ r = b @ s \<longrightarrow>
     normal v = normal w \<and> r = s)"

definition bindsEach :: "goval list \<Rightarrow> goval list \<Rightarrow> bool" where
  "bindsEach vs ws \<longleftrightarrow> (\<forall>a b r s. writeEach vs = (a, None) \<longrightarrow> writeEach ws = (b, None) \<longrightarrow> a @ r = b @ s \<longrightarrow>
     map normal vs = map normal ws \<and> r = s)"

lemma bindsEach_Cons: "bindsTo v w \<Longrightarrow> bindsEach vs ws \<Longrightarrow> bindsEach (v # vs) (w # ws)"
  unfolding bindsEach_def bindsTo_def writeEach.simps andThen_None by (metis append.assoc list.simps(9))

lemma bindsEach_all:
  "length vs = length ws \<Longrightarrow> (\<forall>v w. v \<in> set vs \<longrightarrow> w \<in> set ws \<longrightarrow> bindsTo v w) \<Longrightarrow> bindsEach vs ws"
proof (induction vs ws rule: list_induct2)
  case (Cons v vs w ws)
  then show ?case by (intro bindsEach_Cons) auto
qed (simp add: bindsEach_def)

lemma bindsTo_slice:
  assumes "length vs < 2 ^ 63" and "length ws < 2 ^ 63" and "\<forall>v w. v \<in> set vs \<longrightarrow> w \<in> set ws \<longrightarrow> bindsTo v w"
  shows "bindsTo (GSlice vs) (GSlice ws)"
  unfolding bindsTo_def writeForHash.simps andThen_None emit_None
proof (intro allI impI, elim exE conjE)
  fix a b r s n vb m wb
  assume n: "WriteVarint31 (word_of_nat (length vs)) = Inr n" "WriteVarint31 (word_of_nat (length ws)) = Inr m"
    and body: "writeEach vs = (vb, None)" "writeEach ws = (wb, None)"
    and eq: "a @ r = b @ s" "a = n @ vb" "b = m @ wb"
  have "length vs = length ws \<and> vb @ r = wb @ s"
    by (rule WriteVarint31_inject [OF n]) (use eq assms in simp_all)
  then have "map normal vs = map normal ws \<and> r = s"
    using bindsEach_all [OF _ assms(3)] body unfolding bindsEach_def by blast
  then show "normal (GSlice vs) = normal (GSlice ws) \<and> r = s" by simp
qed

lemma alike_binds: "alike v w \<Longrightarrow> bindsTo v w" and alikes_bind: "alikes vs ws \<Longrightarrow> bindsEach vs ws"
proof (induction rule: alike_alikes.inducts)
  case (1 v w)
  then show ?case unfolding bindsTo_def writeForHash.simps emit_None by (metis WriteVarint63_inject)
next
  case (2 v w)
  then show ?case unfolding bindsTo_def writeForHash.simps emit_None by (metis WriteVarstr31_inject)
next
  case (6 vs ws)
  then show ?case by (intro bindsTo_slice) auto
next
  case (9 v w vs ws)
  then show ?case by (intro bindsEach_Cons)
next
  case (5 v w)
  then show ?case unfolding bindsTo_def writeForHash.simps normal.simps by blast
next
  case (7 vs ws)
  then show ?case unfolding bindsTo_def bindsEach_def writeForHash.simps normal.simps by blast
qed (simp_all add: bindsTo_def bindsEach_def hashPtr_normal Byte32_inject)

text \<open>
  An entry is complete if the structures it is hashed with are not nil and no string or list is longer than
  a machine can hold.
\<close>

fun filled :: "goval \<Rightarrow> bool" where
  "filled (GBytes b) \<longleftrightarrow> length b < 2 ^ 63"
| "filled (GPtr None) \<longleftrightarrow> False"
| "filled (GPtr (Some v)) \<longleftrightarrow> filled v"
| "filled (GSlice vs) \<longleftrightarrow> length vs < 2 ^ 63 \<and> (\<forall>v \<in> set vs. filled v)"
| "filled (GStruct vs) \<longleftrightarrow> (\<forall>v \<in> set vs. filled v)"
| "filled _ \<longleftrightarrow> True"

definition complete :: "Entry \<Rightarrow> bool" where
  "complete e \<longleftrightarrow> (\<forall>v \<in> set (hashedParts e). filled v)"

lemma alike_program:
  "filled (GPtr (map_option goProgram p)) \<Longrightarrow> filled (GPtr (map_option goProgram q)) \<Longrightarrow>
    alike (GPtr (map_option goProgram p)) (GPtr (map_option goProgram q))"
  by (cases p; cases q) (auto simp: goProgram_def intro!: alike_alikes.intros)

lemma alike_amount:
  "filled (GPtr (map_option goAssetAmount p)) \<Longrightarrow> filled (GPtr (map_option goAssetAmount q)) \<Longrightarrow>
    alike (GPtr (map_option goAssetAmount p)) (GPtr (map_option goAssetAmount q))"
  by (cases p; cases q) (auto simp: goAssetAmount_def intro!: alike_alikes.intros)

lemma alike_source:
  assumes "filled (GPtr (map_option goValueSource p))" and "filled (GPtr (map_option goValueSource q))"
  shows "alike (GPtr (map_option goValueSource p)) (GPtr (map_option goValueSource q))"
proof -
  obtain x y where xy: "p = Some x" "q = Some y" using assms by (cases p; cases q) auto
  have "alike (GPtr (map_option goAssetAmount (src_Value x))) (GPtr (map_option goAssetAmount (src_Value y)))"
    using assms by (intro alike_amount) (simp_all add: xy goValueSource_def)
  then show ?thesis by (simp add: xy goValueSource_def alike_alikes.intros)
qed

lemma complete_alike:
  assumes "complete e" and "complete e'" and "entryTyp e = entryTyp e'"
  shows "alikes (hashedParts e) (hashedParts e')"
  using assms
  by (cases e; cases e')
     (auto simp: complete_def ascii_def intro!: alike_alikes.intros(1-4) alike_alikes.intros(6-9) alike_program alike_source alike_amount)

lemma NewHash_eq: "length a = 32 \<Longrightarrow> length b = 32 \<Longrightarrow> NewHash a = NewHash b \<longleftrightarrow> a = b"
  by (metis Byte32_NewHash)

lemma mustWriteForHash_Ok: "mustWriteForHash vs = Ok out \<longleftrightarrow> writeEach vs = (out, None)"
  by (induction vs arbitrary: out) (auto simp: andThen_None bindO_Ok_iff split: prod.splits option.splits)

text \<open>What is hashed to get the ID of an entry with the serialization \<open>body\<close>.\<close>

definition idPreimage :: "(bytes \<Rightarrow> bytes) \<Rightarrow> Entry \<Rightarrow> bytes \<Rightarrow> bytes" where
  "idPreimage H e body = ascii ''entryid:'' @ entryTyp e @ ascii '':'' @ H body"

definition hashInputs :: "(bytes \<Rightarrow> bytes) \<Rightarrow> Entry \<Rightarrow> bytes set" where
  "hashInputs H e = (let body = fst (writeEach (hashedParts e)) in {body, idPreimage H e body})"

lemma entryID_Ok: "entryID H (Some e) = Ok h \<longleftrightarrow>
    (\<exists>body. writeEach (hashedParts e) = (body, None) \<and> h = NewHash (H (idPreimage H e body)))"
  by (auto simp: entryID_def bindO_Ok_iff mustWriteForHash_Ok idPreimage_def)

text \<open>Entries with the same ID have the same type and the same serialization.\<close>

lemma entry_id_preimage:
  assumes "\<forall>x. length (H x) = 32" and "entryID H (Some e) = Ok h" and "entryID H (Some e') = Ok h"
    and "inj_on H (hashInputs H e \<union> hashInputs H e')"
  shows "entryTyp e = entryTyp e'" and "\<exists>b. writeEach (hashedParts e) = (b, None) \<and> writeEach (hashedParts e') = (b, None)"
proof -
  obtain b b' where b: "writeEach (hashedParts e) = (b, None)" "writeEach (hashedParts e') = (b', None)"
    and eq: "NewHash (H (idPreimage H e b)) = NewHash (H (idPreimage H e' b'))"
    using assms(2,3) by (auto simp: entryID_Ok)
  have inputs: "b \<in> hashInputs H e" "idPreimage H e b \<in> hashInputs H e"
    "b' \<in> hashInputs H e'" "idPreimage H e' b' \<in> hashInputs H e'" by (simp_all add: hashInputs_def b)
  from eq have "H (idPreimage H e b) = H (idPreimage H e' b')" using assms(1) by (simp add: NewHash_eq)
  then have "idPreimage H e b = idPreimage H e' b'" by (rule inj_onD [OF assms(4)]) (simp_all add: inputs)
  then have "(entryTyp e @ ascii '':'') @ H b = (entryTyp e' @ ascii '':'') @ H b'" by (simp add: idPreimage_def)
  then have "entryTyp e @ ascii '':'' = entryTyp e' @ ascii '':'' \<and> H b = H b'"
    by (rule append_eq_append_conv [THEN iffD1, rotated]) (simp only: assms(1) simp_thms)
  then have t: "entryTyp e @ ascii '':'' = entryTyp e' @ ascii '':''" and hb: "H b = H b'" by blast+
  from hb have "b = b'" by (rule inj_onD [OF assms(4)]) (simp_all add: inputs)
  with b show "\<exists>b. writeEach (hashedParts e) = (b, None) \<and> writeEach (hashedParts e') = (b, None)" by blast
  show "entryTyp e = entryTyp e'" using t by simp
qed

lemma entry_id_parts:
  assumes "\<forall>x. length (H x) = 32" and "complete e" and "complete e'"
    and "entryID H (Some e) = Ok h" and "entryID H (Some e') = Ok h"
    and "inj_on H (hashInputs H e \<union> hashInputs H e')"
  shows "entryTyp e = entryTyp e' \<and> map normal (hashedParts e) = map normal (hashedParts e')"
proof -
  note same = entry_id_preimage [OF assms(1,4,5,6)]
  have "bindsEach (hashedParts e) (hashedParts e')" by (rule alikes_bind [OF complete_alike [OF assms(2,3) same(1)]])
  with same show ?thesis unfolding bindsEach_def by blast
qed

text \<open>
  C24. An entry ID commits to the type and the hashed fields of the entry, as far as SHA3 does not collide on
  the strings hashed for it: the serialization is unambiguous. The witness fields are not covered,
  and a nil hash counts as the zero hash.
\<close>
theorem entry_id_binds:
  assumes "\<forall>x. length (H x) = 32" and "complete e" and "complete e'"
    and "entryID H (Some e) = Ok h" and "entryID H (Some e') = Ok h"
    and "inj_on H (hashInputs H e \<union> hashInputs H e')"
  shows "entryTyp e = entryTyp e' \<and> map normal (hashedParts e) = map normal (hashedParts e')"
  by (rule entry_id_parts [OF assms])

text \<open>Two time ranges whose IDs differ under a hash of length and sum.\<close>

lemma entry_id_binds_witness:
  "let H = (\<lambda>x. replicate 31 (word_of_nat (length x)) @ [sum_list x]);
       e = (\<lambda>n. ETimeRange \<lparr>tr_MinTimeMs = 1, tr_MaxTimeMs = n, tr_ExtHash = None\<rparr>)
   in entryID H (Some (e 2)) \<noteq> (entryID H (Some (e 3)) :: (unit, Hash) outcome)"
proof -
  let ?H = "\<lambda>x :: bytes. replicate 31 (word_of_nat (length x)) @ [sum_list x]"
  let ?e = "\<lambda>n. ETimeRange \<lparr>tr_MinTimeMs = 1, tr_MaxTimeMs = n, tr_ExtHash = None\<rparr>"
  have complete: "complete (?e n)" for n by (simp add: complete_def)
  have b: "writeEach (hashedParts (?e 2)) = ([1, 2] @ replicate 32 0, None)"
      "writeEach (hashedParts (?e 3)) = ([1, 3] @ replicate 32 0, None)" by code_simp+
  have ok: "\<exists>h. entryID ?H (Some (?e 2)) = (Ok h :: (unit, Hash) outcome)" using b by (auto simp: entryID_Ok)
  have inputs: "hashInputs ?H (?e 2) \<union> hashInputs ?H (?e 3) = set [[1, 2] @ replicate 32 0,
      idPreimage ?H (?e 2) ([1, 2] @ replicate 32 0), [1, 3] @ replicate 32 0, idPreimage ?H (?e 3) ([1, 3] @ replicate 32 0)]"
    unfolding hashInputs_def b Let_def fst_conv by auto
  have "distinct (map ?H [[1, 2] @ replicate 32 0, idPreimage ?H (?e 2) ([1, 2] @ replicate 32 0),
      [1, 3] @ replicate 32 0, idPreimage ?H (?e 3) ([1, 3] @ replicate 32 0)])" by code_simp
  then have inj: "inj_on ?H (hashInputs ?H (?e 2) \<union> hashInputs ?H (?e 3))" unfolding inputs distinct_map by blast
  have "entryID ?H (Some (?e 2)) \<noteq> (entryID ?H (Some (?e 3)) :: (unit, Hash) outcome)"
  proof
    assume "entryID ?H (Some (?e 2)) = (entryID ?H (Some (?e 3)) :: (unit, Hash) outcome)"
    with ok obtain h where "entryID ?H (Some (?e 2)) = (Ok h :: (unit, Hash) outcome)"
      "entryID ?H (Some (?e 3)) = (Ok h :: (unit, Hash) outcome)" by auto
    from entry_id_binds [OF _ complete complete this inj] show False by simp
  qed
  then show ?thesis by (simp only: Let_def not_False_eq_True)
qed

text \<open>
  \<open>ComputeAssetID\<close> drops the error of the serialization (which it calls impossible): a definition whose VM
  version does not fit 63 bits is hashed without its issuance program and its data.
\<close>
lemma asset_id_drops_error:
  assumes "unat (prog_VmVersion p) \<ge> 2 ^ 63"
  shows "ComputeAssetID H \<lparr>def_InitialBlockId = b, def_IssuanceProgram = Some p, def_Data = d\<rparr> = NewHash (H (hashPtrBytes b))"
  using assms by (simp add: ComputeAssetID_def goAssetDefinition_def goProgram_def andThen_def emit_def WriteVarint63_def
      word_less_nat_alt)

lemma asset_id_drops_error_witness:
  "ComputeAssetID (\<lambda>x. x) \<lparr>def_InitialBlockId = None, def_IssuanceProgram = Some \<lparr>prog_VmVersion = 2 ^ 63, prog_Code = [1]\<rparr>,
     def_Data = None\<rparr> = NewHash (replicate 32 0)"
  using asset_id_drops_error [of "\<lparr>prog_VmVersion = 2 ^ 63, prog_Code = [1]\<rparr>" "\<lambda>x. x" None None]
  by (simp add: hashPtrBytes_def byte32zero_def)

end
