(* ===== verification/State_Snapshot.thy ===== *)
theory State_Snapshot
  imports BC_Entries Patricia
begin

text \<open>
  The blockchain state of \<^verbatim>\<open>protocol/state/snapshot.go\<close>: the Patricia tree of unspent output IDs and the set of
  live nonces. The operations change the snapshot in place: an action returns how it ended and the snapshot
  it leaves, also when it fails halfway. SHA3 is the parameter \<open>H\<close>.
\<close>

section \<open>The snapshot\<close>

record Snapshot =
  snap_Tree :: Tree
  snap_Nonces :: "Hash \<Rightarrow> uint64 option"

datatype snap_error = ConflictingNonce Hash | ApplyingNonce tx_error | InvalidPrevout Hash | TreeError

definition PruneNonces :: "uint64 \<Rightarrow> Snapshot \<Rightarrow> Snapshot" where
  "PruneNonces timestampMS s = s\<lparr>snap_Nonces := (\<lambda>hash. case snap_Nonces s hash of None \<Rightarrow> None
     | Some expiryMS \<Rightarrow> if timestampMS > expiryMS then None else Some expiryMS)\<rparr>"

text \<open>The copy shares no mutable data with the original: tree nodes are immutable, the map is copied.\<close>

definition Copy :: "Snapshot \<Rightarrow> Snapshot" where
  "Copy original = \<lparr>snap_Tree = snap_Tree original, snap_Nonces = snap_Nonces original\<rparr>"

definition Empty :: Snapshot where
  "Empty = \<lparr>snap_Tree = None, snap_Nonces = \<lambda>_. None\<rparr>"

text \<open>The three loops of \<open>ApplyTx\<close>.\<close>

definition applyNonce :: "Tx \<Rightarrow> Hash \<Rightarrow> (Snapshot, snap_error, unit) action" where
  "applyNonce tx n s =
     (case snap_Nonces s n of Some _ \<Rightarrow> (Fail (ConflictingNonce n), s)
      | None \<Rightarrow>
          (case txNonce tx n of Inl e \<Rightarrow> (Fail (ApplyingNonce e), s)
           | Inr nonce \<Rightarrow>
               (case nonce_TimeRangeId nonce of None \<Rightarrow> (Crash, s)
                | Some trID \<Rightarrow>
                    (case txTimeRange tx trID of Inl e \<Rightarrow> (Fail (ApplyingNonce e), s)
                     | Inr tr \<Rightarrow> (Ok (), s\<lparr>snap_Nonces := (snap_Nonces s)(n \<mapsto> tr_MaxTimeMs tr)\<rparr>)))))"

definition spendOutput :: "(bytes \<Rightarrow> bytes) \<Rightarrow> Hash \<Rightarrow> (Snapshot, snap_error, unit) action" where
  "spendOutput H prevout s =
     (case Contains H (snap_Tree s) (Byte32 prevout) of
        TOk False \<Rightarrow> (Fail (InvalidPrevout prevout), s)
      | TOk True \<Rightarrow>
          (case Delete (snap_Tree s) (Byte32 prevout) of
             TOk t \<Rightarrow> (Ok (), s\<lparr>snap_Tree := t\<rparr>) | _ \<Rightarrow> (Crash, s))
      | _ \<Rightarrow> (Crash, s))"

definition addResult :: "(bytes \<Rightarrow> bytes) \<Rightarrow> Tx \<Rightarrow> Hash option \<Rightarrow> (Snapshot, snap_error, unit) action" where
  "addResult H tx resID s =
     (case resID of None \<Rightarrow> (Crash, s)
      | Some rid \<Rightarrow>
          (case tx_Entries tx rid of
             Some (EOutput _) \<Rightarrow>
               (case Insert H (snap_Tree s) (Byte32 rid) of
                  TOk t \<Rightarrow> (Ok (), s\<lparr>snap_Tree := t\<rparr>) | TPrefix \<Rightarrow> (Fail TreeError, s) | TPanic \<Rightarrow> (Crash, s))
           | _ \<Rightarrow> (Ok (), s)))"

definition ApplyTx :: "(bytes \<Rightarrow> bytes) \<Rightarrow> Tx \<Rightarrow> (Snapshot, snap_error, unit) action" where
  "ApplyTx H tx =
     bindA (forA (applyNonce tx) (tx_NonceIDs tx)) (\<lambda>_.
     bindA (forA (spendOutput H) (tx_SpentOutputIDs tx)) (\<lambda>_.
     forA (addResult H tx) (hdr_ResultIds (tx_TxHeader tx))))"

definition ApplyBlock :: "(bytes \<Rightarrow> bytes) \<Rightarrow> Block \<Rightarrow> (Snapshot, snap_error, unit) action" where
  "ApplyBlock H block s =
     forA (ApplyTx H) (blk_Transactions block) (PruneNonces (bh_TimestampMs (blk_BlockHeader block)) s)"

section \<open>The abstract state\<close>

text \<open>
  What the snapshot stands for: the set of unspent outputs and the live nonces. The specification of a
  transaction states when it applies and what it does, without the order of the steps.
\<close>

definition unspent :: "Snapshot \<Rightarrow> Hash set" where
  "unspent s = {h. Byte32 h \<in> items (snap_Tree s)}"

definition snapInv :: "(bytes \<Rightarrow> bytes) \<Rightarrow> Snapshot \<Rightarrow> bool" where
  "snapInv H s \<longleftrightarrow> treeInv H 32 (snap_Tree s)"

definition outputsOf :: "Tx \<Rightarrow> Hash set" where
  "outputsOf tx = {h. Some h \<in> set (hdr_ResultIds (tx_TxHeader tx)) \<and> (\<exists>out. tx_Entries tx h = Some (EOutput out))}"

text \<open>The expiry of a nonce of the transaction, if its entries are in order.\<close>

definition nonceExpiry :: "Tx \<Rightarrow> Hash \<Rightarrow> uint64 option" where
  "nonceExpiry tx n = (case txNonce tx n of Inl _ \<Rightarrow> None
     | Inr nonce \<Rightarrow> (case nonce_TimeRangeId nonce of None \<Rightarrow> None
         | Some trID \<Rightarrow> (case txTimeRange tx trID of Inl _ \<Rightarrow> None | Inr tr \<Rightarrow> Some (tr_MaxTimeMs tr))))"

definition applicable :: "Tx \<Rightarrow> Hash set \<Rightarrow> (Hash \<Rightarrow> uint64 option) \<Rightarrow> bool" where
  "applicable tx U N \<longleftrightarrow>
     distinct (tx_NonceIDs tx) \<and> (\<forall>n \<in> set (tx_NonceIDs tx). N n = None \<and> nonceExpiry tx n \<noteq> None) \<and>
     distinct (tx_SpentOutputIDs tx) \<and> set (tx_SpentOutputIDs tx) \<subseteq> U \<and>
     None \<notin> set (hdr_ResultIds (tx_TxHeader tx))"

definition noncesAfter :: "Tx \<Rightarrow> (Hash \<Rightarrow> uint64 option) \<Rightarrow> Hash \<Rightarrow> uint64 option" where
  "noncesAfter tx N n = (if n \<in> set (tx_NonceIDs tx) then nonceExpiry tx n else N n)"

definition unspentAfter :: "Tx \<Rightarrow> Hash set \<Rightarrow> Hash set" where
  "unspentAfter tx U = (U - set (tx_SpentOutputIDs tx)) \<union> outputsOf tx"

section \<open>Refinement\<close>

lemma applyNonce_Ok:
  "applyNonce tx n s = (Ok (), s') \<longleftrightarrow> snap_Nonces s n = None \<and> (\<exists>x. nonceExpiry tx n = Some x \<and>
     s' = s\<lparr>snap_Nonces := (snap_Nonces s)(n \<mapsto> x)\<rparr>)"
  by (auto simp: applyNonce_def nonceExpiry_def split: option.splits sum.splits)

lemma applyNonces_Ok:
  "forA (applyNonce tx) ns s = (Ok (), s') \<longleftrightarrow>
     distinct ns \<and> (\<forall>n \<in> set ns. snap_Nonces s n = None \<and> nonceExpiry tx n \<noteq> None) \<and>
     s' = s\<lparr>snap_Nonces := (\<lambda>n. if n \<in> set ns then nonceExpiry tx n else snap_Nonces s n)\<rparr>"
proof (induction ns arbitrary: s)
  case (Cons n ns)
  have "forA (applyNonce tx) (n # ns) s = (Ok (), s') \<longleftrightarrow> snap_Nonces s n = None \<and> (\<exists>x. nonceExpiry tx n = Some x \<and>
      forA (applyNonce tx) ns (s\<lparr>snap_Nonces := (snap_Nonces s)(n \<mapsto> x)\<rparr>) = (Ok (), s'))"
    by (auto simp: bindA_Ok_iff applyNonce_Ok)
  also have "\<dots> \<longleftrightarrow> distinct (n # ns) \<and> (\<forall>m \<in> set (n # ns). snap_Nonces s m = None \<and> nonceExpiry tx m \<noteq> None) \<and>
     s' = s\<lparr>snap_Nonces := (\<lambda>m. if m \<in> set (n # ns) then nonceExpiry tx m else snap_Nonces s m)\<rparr>"
    unfolding Cons.IH by (auto split: if_splits intro!: Snapshot.equality ext)
  finally show ?case .
qed auto

lemma spendOutput_correct:
  assumes "snapInv H s"
  shows "if h \<in> unspent s
    then \<exists>t. spendOutput H h s = (Ok (), s\<lparr>snap_Tree := t\<rparr>) \<and> snapInv H (s\<lparr>snap_Tree := t\<rparr>) \<and>
      unspent (s\<lparr>snap_Tree := t\<rparr>) = unspent s - {h}
    else spendOutput H h s = (Fail (InvalidPrevout h), s)"
  using ptree.mem_ok [of H 32 "snap_Tree s" "Byte32 h"] ptree.del_ok [of H 32 "snap_Tree s" "Byte32 h"] assms
  by (auto simp: spendOutput_def snapInv_def unspent_def Byte32_inject)

lemma spendOutputs_correct:
  assumes "snapInv H s"
  shows "if distinct hs \<and> set hs \<subseteq> unspent s
    then \<exists>t. forA (spendOutput H) hs s = (Ok (), s\<lparr>snap_Tree := t\<rparr>) \<and> snapInv H (s\<lparr>snap_Tree := t\<rparr>) \<and>
      unspent (s\<lparr>snap_Tree := t\<rparr>) = unspent s - set hs
    else \<exists>h s'. forA (spendOutput H) hs s = (Fail (InvalidPrevout h), s')"
  using assms
proof (induction hs arbitrary: s)
  case Nil
  then show ?case by (intro if_P [THEN iffD2]) (auto intro!: exI [of _ "snap_Tree s"])
next
  case (Cons h hs)
  show ?case
  proof (cases "h \<in> unspent s")
    case True
    then obtain t where t: "spendOutput H h s = (Ok (), s\<lparr>snap_Tree := t\<rparr>)" "snapInv H (s\<lparr>snap_Tree := t\<rparr>)"
        "unspent (s\<lparr>snap_Tree := t\<rparr>) = unspent s - {h}"
      using spendOutput_correct [OF Cons.prems, of h] by auto
    have "distinct hs \<and> set hs \<subseteq> unspent s - {h} \<longleftrightarrow> distinct (h # hs) \<and> set (h # hs) \<subseteq> unspent s"
      using True by auto
    then show ?thesis using Cons.IH [OF t(2)] t by (auto simp: bindA_def split: if_splits)
  next
    case False
    then show ?thesis using spendOutput_correct [OF Cons.prems, of h] by (auto simp: bindA_def)
  qed
qed

lemma addResult_correct:
  assumes "snapInv H s"
  shows "\<exists>t. addResult H tx (Some h) s = (Ok (), s\<lparr>snap_Tree := t\<rparr>) \<and> snapInv H (s\<lparr>snap_Tree := t\<rparr>) \<and>
    unspent (s\<lparr>snap_Tree := t\<rparr>) = unspent s \<union> (if \<exists>out. tx_Entries tx h = Some (EOutput out) then {h} else {})"
proof (cases "\<exists>out. tx_Entries tx h = Some (EOutput out)")
  case True
  then show ?thesis using ptree.ins_ok [of H 32 "snap_Tree s" "Byte32 h"] assms
    by (auto simp: addResult_def snapInv_def unspent_def Byte32_inject)
next
  case False
  then have "addResult H tx (Some h) s = (Ok (), s)"
    by (auto simp: addResult_def split: option.splits Entry.splits)
  with False assms show ?thesis by (intro exI [of _ "snap_Tree s"]) simp
qed

lemma addResults_correct:
  assumes "snapInv H s"
  shows "if None \<in> set rs then \<exists>s'. forA (addResult H tx) rs s = (Crash, s')
    else \<exists>t. forA (addResult H tx) rs s = (Ok (), s\<lparr>snap_Tree := t\<rparr>) \<and> snapInv H (s\<lparr>snap_Tree := t\<rparr>) \<and>
      unspent (s\<lparr>snap_Tree := t\<rparr>) = unspent s \<union> {h. Some h \<in> set rs \<and> (\<exists>out. tx_Entries tx h = Some (EOutput out))}"
  using assms
proof (induction rs arbitrary: s)
  case Nil
  then show ?case by (auto intro!: exI [of _ "snap_Tree s"])
next
  case (Cons r rs)
  show ?case
  proof (cases r)
    case None
    then show ?thesis by (simp add: bindA_def addResult_def)
  next
    case (Some h)
    let ?O = "\<lambda>h. \<exists>out. tx_Entries tx h = Some (EOutput out)"
    obtain t where t: "addResult H tx (Some h) s = (Ok (), s\<lparr>snap_Tree := t\<rparr>)" "snapInv H (s\<lparr>snap_Tree := t\<rparr>)"
        "unspent (s\<lparr>snap_Tree := t\<rparr>) = unspent s \<union> (if ?O h then {h} else {})"
      using addResult_correct [OF Cons.prems, of tx h] by blast
    have "{x. Some x \<in> set (r # rs) \<and> ?O x} = (if ?O h then {h} else {}) \<union> {x. Some x \<in> set rs \<and> ?O x}"
      using Some by auto
    then show ?thesis using Cons.IH [OF t(2)] t Some by (auto simp: bindA_def)
  qed
qed

lemma ApplyTx_correct:
  assumes "snapInv H s"
  shows "if applicable tx (unspent s) (snap_Nonces s)
    then \<exists>s'. ApplyTx H tx s = (Ok (), s') \<and> snapInv H s' \<and> unspent s' = unspentAfter tx (unspent s) \<and>
      snap_Nonces s' = noncesAfter tx (snap_Nonces s)
    else fst (ApplyTx H tx s) \<noteq> Ok ()"
proof (cases "\<exists>s1. forA (applyNonce tx) (tx_NonceIDs tx) s = (Ok (), s1)")
  case False
  then have "fst (ApplyTx H tx s) \<noteq> Ok ()"
    by (cases "forA (applyNonce tx) (tx_NonceIDs tx) s") (auto simp: ApplyTx_def bindA_def split: outcome.splits)
  moreover have "\<not> applicable tx (unspent s) (snap_Nonces s)"
    using False unfolding applyNonces_Ok by (auto simp: applicable_def)
  ultimately show ?thesis by simp
next
  case True
  then obtain s1 where s1: "forA (applyNonce tx) (tx_NonceIDs tx) s = (Ok (), s1)" by blast
  then have nonces: "distinct (tx_NonceIDs tx) \<and> (\<forall>n \<in> set (tx_NonceIDs tx). snap_Nonces s n = None \<and> nonceExpiry tx n \<noteq> None)"
    and s1_def: "s1 = s\<lparr>snap_Nonces := noncesAfter tx (snap_Nonces s)\<rparr>"
    by (auto simp: applyNonces_Ok noncesAfter_def [abs_def])
  have inv: "snapInv H s1" and U: "unspent s1 = unspent s" using assms by (simp_all add: s1_def snapInv_def unspent_def)
  let ?sp = "forA (spendOutput H) (tx_SpentOutputIDs tx) s1"
  show ?thesis
  proof (cases "distinct (tx_SpentOutputIDs tx) \<and> set (tx_SpentOutputIDs tx) \<subseteq> unspent s")
    case True
    then obtain t where t: "?sp = (Ok (), s1\<lparr>snap_Tree := t\<rparr>)" "snapInv H (s1\<lparr>snap_Tree := t\<rparr>)"
        "unspent (s1\<lparr>snap_Tree := t\<rparr>) = unspent s - set (tx_SpentOutputIDs tx)"
      using spendOutputs_correct [OF inv, of "tx_SpentOutputIDs tx"] U by auto
    show ?thesis using addResults_correct [OF t(2), of "hdr_ResultIds (tx_TxHeader tx)" tx] nonces True
      by (auto simp: ApplyTx_def bindA_def s1 [unfolded s1_def] t [unfolded s1_def] applicable_def unspentAfter_def
          outputsOf_def s1_def split: if_splits)
  next
    case False
    then have "\<exists>h s'. ?sp = (Fail (InvalidPrevout h), s')"
      using spendOutputs_correct [OF inv, of "tx_SpentOutputIDs tx"] unfolding U by (simp only: if_False)
    with False show ?thesis by (auto simp: ApplyTx_def bindA_def s1 applicable_def)
  qed
qed

section \<open>Chains of transactions\<close>

text \<open>
  The snapshots that come about by applying transactions and pruning, with the transactions applied so far.
\<close>

inductive applied :: "(bytes \<Rightarrow> bytes) \<Rightarrow> Tx list \<Rightarrow> Snapshot \<Rightarrow> bool" for H where
  start: "applied H [] Empty"
| tx: "applied H txs s \<Longrightarrow> ApplyTx H tx s = (Ok (), s') \<Longrightarrow> applied H (txs @ [tx]) s'"
| prune: "applied H txs s \<Longrightarrow> applied H txs (PruneNonces t s)"

lemma unspent_prune [simp]: "unspent (PruneNonces t s) = unspent s" "snapInv H (PruneNonces t s) \<longleftrightarrow> snapInv H s"
  by (simp_all add: PruneNonces_def unspent_def snapInv_def)

lemma Empty_correct: "snapInv H Empty" "unspent Empty = {}"
  by (simp_all add: Empty_def snapInv_def unspent_def treeInv_def items_def keysOf_def)

lemma applied_inv: "applied H txs s \<Longrightarrow> snapInv H s"
proof (induction rule: applied.induct)
  case (tx txs s tx s')
  then show ?case using ApplyTx_correct [of H s tx] by (auto split: if_splits)
qed (simp_all add: Empty_correct)

text \<open>How often an output was created and spent by a list of transactions.\<close>

definition created :: "Hash \<Rightarrow> Tx list \<Rightarrow> nat" where
  "created h txs = length (filter (\<lambda>tx. h \<in> outputsOf tx) txs)"

definition spent :: "Hash \<Rightarrow> Tx list \<Rightarrow> nat" where
  "spent h txs = sum_list (map (\<lambda>tx. count_list (tx_SpentOutputIDs tx) h) txs)"

lemma count_distinct: "distinct xs \<Longrightarrow> count_list xs x = of_bool (x \<in> set xs)"
  by (induction xs) auto

lemma applied_counts: "applied H txs s \<Longrightarrow> spent h txs + of_bool (h \<in> unspent s) \<le> created h txs"
proof (induction rule: applied.induct)
  case start
  then show ?case by (simp add: spent_def created_def Empty_correct)
next
  case (tx txs s tx s')
  then have app: "applicable tx (unspent s) (snap_Nonces s)" and s': "unspent s' = unspentAfter tx (unspent s)"
    using ApplyTx_correct [OF applied_inv [OF tx.hyps(1)], of tx] by (auto split: if_splits)
  have "count_list (tx_SpentOutputIDs tx) h = of_bool (h \<in> set (tx_SpentOutputIDs tx))"
    using app count_distinct [of "tx_SpentOutputIDs tx" h] by (simp add: applicable_def)
  then show ?case using tx.IH app s' by (auto simp: spent_def created_def unspentAfter_def applicable_def)
qed simp

section \<open>Properties\<close>

text \<open>A transaction with the given results, entries, nonces and spent outputs, for examples.\<close>

definition sampleTx :: "Hash option list \<Rightarrow> (Hash \<Rightarrow> Entry option) \<Rightarrow> Hash list \<Rightarrow> Hash list \<Rightarrow> Tx" where
  "sampleTx rs es ns sp = \<lparr>tx_TxHeader = \<lparr>hdr_Version = 1, hdr_ResultIds = rs, hdr_Data = Some zeroHash, hdr_MinTimeMs = 0,
     hdr_MaxTimeMs = 0, hdr_ExtHash = None\<rparr>, tx_ID = zeroHash, tx_Entries = es, tx_InputIDs = [], tx_NonceIDs = ns,
     tx_SpentOutputIDs = sp\<rparr>"

definition sampleOutput :: Output where
  "sampleOutput = \<lparr>out_Source = None, out_ControlProgram = None, out_Data = None, out_ExtHash = None, out_Ordinal = 0\<rparr>"

definition issueTx :: Tx where
  "issueTx = sampleTx [Some zeroHash] [zeroHash \<mapsto> EOutput sampleOutput] [] []"

definition spendTx :: Tx where
  "spendTx = sampleTx [] (\<lambda>_. None) [] [zeroHash]"

text \<open>A transaction with the nonce \<open>zeroHash\<close> that expires at time 9.\<close>

definition nonceTx :: Tx where
  "nonceTx = (let h1 = zeroHash\<lparr>V0 := 1\<rparr> in sampleTx []
     [zeroHash \<mapsto> ENonce \<lparr>nonce_Program = None, nonce_TimeRangeId = Some h1, nonce_ExtHash = None, nonce_WitnessArguments = [],
        nonce_WitnessAnchoredId = None\<rparr>,
      h1 \<mapsto> ETimeRange \<lparr>tr_MinTimeMs = 1, tr_MaxTimeMs = 9, tr_ExtHash = None\<rparr>] [zeroHash] [])"

lemmas sample_defs = sampleTx_def issueTx_def spendTx_def nonceTx_def

text \<open>
  C12. \<open>ApplyTx\<close> implements the specification of a transaction on the set of unspent outputs and the live nonces. It
  succeeds exactly when the nonces are new and in order, the spent outputs are distinct and unspent, and no
  result is nil; then it removes the spent outputs, adds the new ones and records the nonces. The tree
  remains well-formed.
\<close>
theorem apply_tx_refines:
  assumes "applied H txs s"
  shows "if applicable tx (unspent s) (snap_Nonces s)
    then \<exists>s'. ApplyTx H tx s = (Ok (), s') \<and> snapInv H s' \<and> unspent s' = unspentAfter tx (unspent s) \<and>
      snap_Nonces s' = noncesAfter tx (snap_Nonces s)
    else fst (ApplyTx H tx s) \<noteq> Ok ()"
  by (rule ApplyTx_correct [OF applied_inv [OF assms]])

lemma apply_tx_refines_witness:
  "\<exists>s. ApplyTx (\<lambda>_. replicate 32 0) issueTx Empty = (Ok (), s) \<and> unspent s = {zeroHash}"
proof -
  have "applicable issueTx (unspent Empty) (snap_Nonces Empty)" "unspentAfter issueTx (unspent Empty) = {zeroHash}"
    by (auto simp: applicable_def unspentAfter_def outputsOf_def Empty_correct sample_defs)
  then show ?thesis using apply_tx_refines [OF applied.start [of "\<lambda>_. replicate 32 0"], of issueTx] by auto
qed



lemma ApplyTx_keeps_nonce:
  assumes "snapInv H s" and "ApplyTx H tx s = (Ok (), s')" and "snap_Nonces s n = Some x"
  shows "snapInv H s' \<and> snap_Nonces s' n = Some x"
  using ApplyTx_correct [OF assms(1), of tx] assms(2,3) by (auto simp: noncesAfter_def applicable_def split: if_splits)

lemma ApplyTxs_keep_nonce:
  "snapInv H s \<Longrightarrow> forA (ApplyTx H) txs s = (Ok (), s') \<Longrightarrow> snap_Nonces s n = Some x \<Longrightarrow> snapInv H s' \<and> snap_Nonces s' n = Some x"
proof (induction txs arbitrary: s)
  case (Cons tx txs)
  from Cons.prems(2) obtain s1 where "ApplyTx H tx s = (Ok (), s1)" "forA (ApplyTx H) txs s1 = (Ok (), s')"
    unfolding forA_Cons_Ok by blast
  then show ?case using Cons ApplyTx_keeps_nonce by blast
qed simp

lemma ApplyBlock_keeps_nonce:
  assumes "snapInv H s" and "ApplyBlock H b s = (Ok (), s')" and "snap_Nonces s n = Some x"
    and "bh_TimestampMs (blk_BlockHeader b) \<le> x"
  shows "snapInv H s' \<and> snap_Nonces s' n = Some x"
proof (rule ApplyTxs_keep_nonce)
  show "forA (ApplyTx H) (blk_Transactions b) (PruneNonces (bh_TimestampMs (blk_BlockHeader b)) s) = (Ok (), s')"
    using assms(2) by (simp add: ApplyBlock_def)
qed (use assms in \<open>simp_all add: PruneNonces_def snapInv_def not_less\<close>)

lemma ApplyBlocks_keep_nonce:
  "snapInv H s \<Longrightarrow> forA (ApplyBlock H) bs s = (Ok (), s') \<Longrightarrow> snap_Nonces s n = Some x \<Longrightarrow>
    \<forall>b \<in> set bs. bh_TimestampMs (blk_BlockHeader b) \<le> x \<Longrightarrow> snapInv H s' \<and> snap_Nonces s' n = Some x"
proof (induction bs arbitrary: s)
  case (Cons b bs)
  from Cons.prems(2) obtain s1 where "ApplyBlock H b s = (Ok (), s1)" "forA (ApplyBlock H) bs s1 = (Ok (), s')"
    unfolding forA_Cons_Ok by blast
  moreover from this have "snapInv H s1 \<and> snap_Nonces s1 n = Some x"
    using ApplyBlock_keeps_nonce [of H s b s1 n x] Cons.prems by auto
  ultimately show ?case using Cons.IH [of s1] Cons.prems(4) by auto
qed simp

text \<open>
  C18. A nonce protects against replay until it expires: after a transaction with the nonce was applied, no
  transaction with the same nonce applies in any later block whose timestamp is not past the expiry.
\<close>
theorem nonce_blocks_replay:
  assumes "applied H txs s" and "ApplyTx H tx s = (Ok (), s1)" and "n \<in> set (tx_NonceIDs tx)" and "nonceExpiry tx n = Some x"
    and "forA (ApplyBlock H) bs s1 = (Ok (), s2)" and "\<forall>b \<in> set bs. bh_TimestampMs (blk_BlockHeader b) \<le> x"
    and "n \<in> set (tx_NonceIDs tx')"
  shows "fst (ApplyTx H tx' s2) \<noteq> Ok ()"
proof -
  have "snapInv H s1 \<and> snap_Nonces s1 n = Some x"
    using ApplyTx_correct [OF applied_inv [OF assms(1)], of tx] assms(2-4) by (auto simp: noncesAfter_def split: if_splits)
  then have "snapInv H s2" "snap_Nonces s2 n = Some x" using ApplyBlocks_keep_nonce assms(5,6) by blast+
  then show ?thesis using ApplyTx_correct [of H s2 tx'] assms(7) by (auto simp: applicable_def split: if_splits)
qed

lemma nonce_blocks_replay_witness:
  "\<exists>s. ApplyTx (\<lambda>_. replicate 32 0) nonceTx Empty = (Ok (), s) \<and> fst (ApplyTx (\<lambda>_. replicate 32 0) nonceTx s) \<noteq> Ok ()"
proof -
  let ?H = "\<lambda>_ :: bytes. replicate 32 (0 :: byte)"
  have x: "nonceExpiry nonceTx zeroHash = Some 9"
    by (simp add: nonceExpiry_def txNonce_def txTimeRange_def sample_defs Let_def zeroHash_def)
  then have "applicable nonceTx (unspent Empty) (snap_Nonces Empty)"
    by (simp add: applicable_def sample_defs Let_def Empty_def)
  then obtain s where s: "ApplyTx ?H nonceTx Empty = (Ok (), s)" using ApplyTx_correct [of ?H Empty nonceTx] Empty_correct by auto
  have n: "zeroHash \<in> set (tx_NonceIDs nonceTx)" by (simp add: sample_defs Let_def)
  from nonce_blocks_replay [OF applied.start s n x, of "[]" s nonceTx] n s show ?thesis by auto
qed

end
