(* ===== verification/TxVMContext.thy ===== *)
theory TxVMContext
  imports VM_Run BC_Entries
begin

text \<open>
  The execution contexts of \<^verbatim>\<open>protocol/validation/vmcontext.go\<close>: what a program sees of the block or of the
  transaction and the entry it belongs to, and the callback of \<^verbatim>\<open>CHECKOUTPUT\<close>.
\<close>

definition newBlockVMContext :: "Block \<Rightarrow> bytes \<Rightarrow> bytes list \<Rightarrow> Context" where
  "newBlockVMContext block prog args =
     (bareContext prog args)\<lparr>
       BlockHash := Some (Byte32 (blk_ID block)),
       BlockTimeMS := Some (bh_TimestampMs (blk_BlockHeader block)),
       NextConsensusProgram := Some (bh_NextConsensusProgram (blk_BlockHeader block))\<rparr>"

section \<open>Checking an output\<close>

text \<open>Following a pointer inside the callback, where the panic is recovered by \<open>Verify\<close>.\<close>

definition derefR :: "'a option \<Rightarrow> ('a \<Rightarrow> 'b res) \<Rightarrow> 'b res" where
  "derefR p f = (case p of None \<Rightarrow> Panic | Some x \<Rightarrow> f x)"

text \<open>What a program demands of an output.\<close>

record outputSpec =
  want_index :: uint64
  want_data :: bytes
  want_amount :: uint64
  want_assetID :: bytes
  want_vmVersion :: uint64
  want_code :: bytes
  want_expansion :: bool

definition checkParts :: "outputSpec \<Rightarrow> Program option \<Rightarrow> AssetAmount option \<Rightarrow> Hash option \<Rightarrow> bool res" where
  "checkParts w prog value dataHash = derefR prog (\<lambda>p.
     if prog_VmVersion p = want_vmVersion w \<and> prog_Code p = want_code w
     then derefR value (\<lambda>v. derefR (amt_AssetId v) (\<lambda>a.
       if Byte32 a = want_assetID w \<and> amt_Amount v = want_amount w
       then (if want_data w = [] then Ret True else derefR dataHash (\<lambda>d. Ret (Byte32 d = want_data w)))
       else Ret False))
     else Ret False)"

definition checkEntry :: "outputSpec \<Rightarrow> Entry \<Rightarrow> bool res" where
  "checkEntry w e = (case e of
       EOutput out \<Rightarrow> derefR (out_Source out) (\<lambda>src. checkParts w (out_ControlProgram out) (src_Value src) (out_Data out))
     | ERetirement r \<Rightarrow> derefR (ret_Source r) (\<lambda>src.
         checkParts w (Some \<lparr>prog_VmVersion = 0, prog_Code = if want_expansion w then want_code w else []\<rparr>)
           (src_Value src) (ret_Data r))
     | _ \<Rightarrow> Err ErrContext)"

definition checkMux :: "(Hash \<Rightarrow> Entry option) \<Rightarrow> outputSpec \<Rightarrow> Mux \<Rightarrow> bool res" where
  "checkMux entries w m =
     (if want_index w \<ge> word_of_nat (length (mux_WitnessDestinations m)) then Err ErrBadValue
      else derefR (mux_WitnessDestinations m ! unat (want_index w)) (\<lambda>d. derefR (dst_Ref d) (\<lambda>eID.
        case entries eID of None \<Rightarrow> Err ErrMissingEntry | Some e \<Rightarrow> checkEntry w e)))"

text \<open>The destination of an issuance or a spend.\<close>

definition checkDestination :: "(Hash \<Rightarrow> Entry option) \<Rightarrow> outputSpec \<Rightarrow> ValueDestination option \<Rightarrow> bool res" where
  "checkDestination entries w dest = derefR dest (\<lambda>vd. derefR (dst_Ref vd) (\<lambda>ref.
     case entries ref of
       None \<Rightarrow> Err ErrMissingEntry
     | Some (EMux m) \<Rightarrow> checkMux entries w m
     | Some d \<Rightarrow> if want_index w \<noteq> 0 then Err ErrBadValue else checkEntry w d))"

definition checkOutput :: "Entry \<Rightarrow> (Hash \<Rightarrow> Entry option) \<Rightarrow> uint64 \<Rightarrow> bytes \<Rightarrow> uint64 \<Rightarrow> bytes \<Rightarrow> uint64 \<Rightarrow> bytes \<Rightarrow> bool \<Rightarrow> bool res" where
  "checkOutput entry entries index data amount assetID vmVersion code expansion =
     (let w = \<lparr>want_index = index, want_data = data, want_amount = amount, want_assetID = assetID,
               want_vmVersion = vmVersion, want_code = code, want_expansion = expansion\<rparr>
      in case entry of
           EMux m \<Rightarrow> checkMux entries w m
         | EIssuance e \<Rightarrow> checkDestination entries w (iss_WitnessDestination e)
         | ESpend e \<Rightarrow> checkDestination entries w (sp_WitnessDestination e)
         | _ \<Rightarrow> Err ErrContext)"

section \<open>The context of an entry\<close>

text \<open>The fields of the context that depend on the kind of entry.\<close>

definition entryFields :: "Tx \<Rightarrow> Entry \<Rightarrow> Context \<Rightarrow> ('e, Context) outcome" where
  "entryFields tx entry c = (case entry of
       ENonce e \<Rightarrow> bindO (deref (nonce_WitnessAnchoredId e)) (\<lambda>anchoredID.
         (case tx_Entries tx anchoredID of
            Some (EIssuance iss) \<Rightarrow> bindO (deref (iss_Value iss)) (\<lambda>v. bindO (deref (amt_AssetId v)) (\<lambda>a.
              Ok (c\<lparr>AssetID := Some (Byte32 a), Amount := Some (amt_Amount v)\<rparr>)))
          | _ \<Rightarrow> Ok c))
     | EIssuance e \<Rightarrow> bindO (deref (iss_Value e)) (\<lambda>v. bindO (deref (amt_AssetId v)) (\<lambda>a.
         bindO (deref (iss_WitnessDestination e)) (\<lambda>dest. bindO (deref (iss_Data e)) (\<lambda>d. bindO (deref (iss_AnchorId e)) (\<lambda>anchor.
           Ok (c\<lparr>AssetID := Some (Byte32 a), Amount := Some (amt_Amount v), DestPos := Some (dst_Position dest),
              EntryData := Some (Byte32 d), AnchorID := Some (Byte32 anchor)\<rparr>))))))
     | ESpend e \<Rightarrow> bindO (deref (sp_SpentOutputId e)) (\<lambda>soID.
         (case tx_Entries tx soID of
            Some (EOutput out) \<Rightarrow> bindO (deref (out_Source out)) (\<lambda>src. bindO (deref (src_Value src)) (\<lambda>v.
              bindO (deref (amt_AssetId v)) (\<lambda>a. bindO (deref (sp_WitnessDestination e)) (\<lambda>dest. bindO (deref (sp_Data e)) (\<lambda>d.
                Ok (c\<lparr>AssetID := Some (Byte32 a), Amount := Some (amt_Amount v), DestPos := Some (dst_Position dest),
                   EntryData := Some (Byte32 d), SpentOutputID := Some (Byte32 soID)\<rparr>))))))
          | _ \<Rightarrow> Crash))
     | EOutput e \<Rightarrow> bindO (deref (out_Data e)) (\<lambda>d. Ok (c\<lparr>EntryData := Some (Byte32 d)\<rparr>))
     | ERetirement e \<Rightarrow> bindO (deref (ret_Data e)) (\<lambda>d. Ok (c\<lparr>EntryData := Some (Byte32 d)\<rparr>))
     | _ \<Rightarrow> Ok c)"

definition NewTxVMContext :: "(bytes \<Rightarrow> bytes) \<Rightarrow> Tx \<Rightarrow> Entry \<Rightarrow> Program option \<Rightarrow> bytes list \<Rightarrow> ('e, Context) outcome" where
  "NewTxVMContext H tx entry prog args =
     bindO (deref (hdr_Data (tx_TxHeader tx))) (\<lambda>txData. bindO (entryID H (Some entry)) (\<lambda>eid. bindO (deref prog) (\<lambda>p.
       entryFields tx entry ((bareContext (prog_Code p) args)\<lparr>
         VMVersion := prog_VmVersion p,
         EntryID := Byte32 eid,
         TxVersion := Some (hdr_Version (tx_TxHeader tx)),
         TxSigHash := Some (Byte32 (NewHash (H (Byte32 eid @ Byte32 (tx_ID tx))))),
         NumResults := Some (word_of_nat (length (hdr_ResultIds (tx_TxHeader tx)))),
         MinTimeMS := Some (hdr_MinTimeMs (tx_TxHeader tx)),
         MaxTimeMS := Some (hdr_MaxTimeMs (tx_TxHeader tx)),
         TxData := Some (Byte32 txData),
         CheckOutput := Some (checkOutput entry (tx_Entries tx))\<rparr>))))"

end
