(* ===== verification/BC_Merkle.thy ===== *)
theory BC_Merkle
  imports BC_Entries
begin

text \<open>
  The Merkle root of a block's transactions, \<^verbatim>\<open>protocol/bc/merkle.go\<close>. The exponent is computed in the code with
  floating-point logarithms, whose integral part is exact for lists shorter than \<open>2 ^ 46\<close>; it is the
  integral binary logarithm here.
\<close>

fun log2floor :: "nat \<Rightarrow> nat" where
  "log2floor n = (if n < 2 then 0 else Suc (log2floor (n div 2)))"

declare log2floor.simps [simp del]

definition prevPowerOfTwo :: "nat \<Rightarrow> nat" where
  "prevPowerOfTwo n = (if n AND (n - 1) = 0 then n div 2 else 2 ^ log2floor n)"

lemma log2floor_bounds: "0 < n \<Longrightarrow> 2 ^ log2floor n \<le> n \<and> n < 2 ^ Suc (log2floor n)"
proof (induction n rule: log2floor.induct)
  case (1 n)
  show ?case
  proof (cases "n < 2")
    case False
    then have "2 ^ log2floor (n div 2) \<le> n div 2 \<and> n div 2 < 2 ^ Suc (log2floor (n div 2))" using 1 by auto
    with False show ?thesis by (subst (1 2) log2floor.simps) auto
  qed (use 1 in \<open>simp add: log2floor.simps\<close>)
qed

lemma power_and_pred: "(2 :: nat) ^ k AND (2 ^ k - 1) = 0"
  by (simp only: mask_eq_exp_minus_1 [symmetric] take_bit_eq_mask [symmetric] take_bit_eq_mod) simp

text \<open>A number is a power of two exactly when it has no bit in common with its predecessor.\<close>

lemma and_pred_iff:
  assumes "0 < n"
  shows "n AND (n - 1) = 0 \<longleftrightarrow> n = 2 ^ log2floor n"
proof
  let ?k = "log2floor n"
  have k: "2 ^ ?k \<le> n" "n < 2 ^ Suc ?k" using log2floor_bounds [OF assms] by auto
  assume zero: "n AND (n - 1) = 0"
  show "n = 2 ^ ?k"
  proof (rule ccontr)
    assume "n \<noteq> 2 ^ ?k"
    with k have "2 ^ ?k \<le> n - 1" "n - 1 < 2 ^ Suc ?k" by auto
    have "m div 2 ^ ?k = 1" if "2 ^ ?k \<le> m" "m < 2 ^ Suc ?k" for m :: nat
      using that by (intro div_nat_eqI) simp_all
    then have "bit n ?k" "bit (n - 1) ?k"
      using k \<open>2 ^ ?k \<le> n - 1\<close> \<open>n - 1 < 2 ^ Suc ?k\<close> by (simp_all add: bit_iff_odd)
    then have "bit (n AND (n - 1)) ?k" by (simp add: bit_and_iff)
    with zero show False by simp
  qed
next
  assume "n = 2 ^ log2floor n"
  then show "n AND (n - 1) = 0" using power_and_pred [of "log2floor n"] by simp
qed

text \<open>The largest power of two below \<open>n\<close>, as in RFC 6962.\<close>

lemma prevPowerOfTwo_spec:
  assumes "2 \<le> n"
  shows "\<exists>j. prevPowerOfTwo n = 2 ^ j \<and> 2 ^ j < n \<and> n \<le> 2 ^ Suc j"
proof (cases "n AND (n - 1) = 0")
  case True
  define k where "k = log2floor n"
  have n: "n = 2 ^ k" using and_pred_iff [of n] True assms by (simp add: k_def)
  then obtain j where "k = Suc j" using assms by (cases k) auto
  then show ?thesis using True n by (intro exI [of _ j]) (simp add: prevPowerOfTwo_def)
next
  case False
  then have "n \<noteq> 2 ^ log2floor n" using and_pred_iff [of n] assms by auto
  then show ?thesis using False log2floor_bounds [of n] assms
    by (intro exI [of _ "log2floor n"]) (auto simp: prevPowerOfTwo_def)
qed

lemma prevPowerOfTwo_less: "2 \<le> n \<Longrightarrow> 0 < prevPowerOfTwo n \<and> prevPowerOfTwo n < n"
  using prevPowerOfTwo_spec [of n] by auto

lemma split_less:
  "length txs \<noteq> 0 \<Longrightarrow> length txs \<noteq> 1 \<Longrightarrow> k = prevPowerOfTwo (length txs) \<Longrightarrow> 0 < k \<and> k < length txs"
  using prevPowerOfTwo_less [of "length txs"] by (cases txs rule: remdups_adj.cases) auto

definition txLeafPrefix :: bytes where "txLeafPrefix = [0]"
definition txInteriorPrefix :: bytes where "txInteriorPrefix = [1]"

definition EmptyStringHash :: "(bytes \<Rightarrow> bytes) \<Rightarrow> Hash" where
  "EmptyStringHash H = NewHash (H [])"

text \<open>The code reports no error on any path.\<close>

function MerkleRoot :: "(bytes \<Rightarrow> bytes) \<Rightarrow> Tx list \<Rightarrow> Hash" where
  "MerkleRoot H transactions =
     (if length transactions = 0 then EmptyStringHash H
      else if length transactions = 1 then NewHash (H (txLeafPrefix @ Byte32 (tx_ID (transactions ! 0))))
      else let k = prevPowerOfTwo (length transactions);
               left = MerkleRoot H (take k transactions);
               right = MerkleRoot H (drop k transactions)
           in NewHash (H (txInteriorPrefix @ Byte32 left @ Byte32 right)))"
  by pat_completeness auto
termination
proof (relation "measure (\<lambda>(H, txs). length txs)")
  fix H :: "bytes \<Rightarrow> bytes" and txs :: "Tx list" and k
  assume "length txs \<noteq> 0" "length txs \<noteq> 1" "k = prevPowerOfTwo (length txs)"
  then have "0 < k \<and> k < length txs" by (rule split_less)
  then show "((H, take k txs), (H, txs)) \<in> measure (\<lambda>(H, txs). length txs)"
    and "((H, drop k txs), (H, txs)) \<in> measure (\<lambda>(H, txs). length txs)" by auto
qed simp_all

declare MerkleRoot.simps [simp del]

text \<open>The strings that are hashed on the way.\<close>

function merkleInputs :: "(bytes \<Rightarrow> bytes) \<Rightarrow> Tx list \<Rightarrow> bytes set" where
  "merkleInputs H txs =
     (if length txs = 0 then {[]}
      else if length txs = 1 then {txLeafPrefix @ Byte32 (tx_ID (txs ! 0))}
      else let k = prevPowerOfTwo (length txs)
           in {txInteriorPrefix @ Byte32 (MerkleRoot H (take k txs)) @ Byte32 (MerkleRoot H (drop k txs))} \<union>
              merkleInputs H (take k txs) \<union> merkleInputs H (drop k txs))"
  by pat_completeness auto
termination
proof (relation "measure (\<lambda>(H, txs). length txs)")
  fix H :: "bytes \<Rightarrow> bytes" and txs :: "Tx list" and k
  assume "length txs \<noteq> 0" "length txs \<noteq> 1" "k = prevPowerOfTwo (length txs)"
  then have "0 < k \<and> k < length txs" by (rule split_less)
  then show "((H, take k txs), (H, txs)) \<in> measure (\<lambda>(H, txs). length txs)"
    and "((H, drop k txs), (H, txs)) \<in> measure (\<lambda>(H, txs). length txs)" by auto
qed simp_all

declare merkleInputs.simps [simp del]

lemma root_inject:
  assumes "\<forall>x. length (H x) = 32" and "inj_on H S" and "x \<in> S" and "y \<in> S" and "NewHash (H x) = NewHash (H y)"
  shows "x = y"
  using inj_onD [OF assms(2) _ assms(3,4)] assms(1,5) by (simp add: NewHash_eq)

lemma merkle_cases:
  assumes "length txs = 0 \<Longrightarrow> P" and "\<And>tx. txs = [tx] \<Longrightarrow> P"
    and "\<And>k. length txs \<noteq> 0 \<Longrightarrow> length txs \<noteq> 1 \<Longrightarrow> k = prevPowerOfTwo (length txs) \<Longrightarrow> P"
  shows P
  using assms by (cases txs rule: remdups_adj.cases) auto

lemma merkle_branch:
  assumes "length txs \<noteq> 0" and "length txs \<noteq> 1" and "k = prevPowerOfTwo (length txs)"
  shows "MerkleRoot H txs = NewHash (H (txInteriorPrefix @ Byte32 (MerkleRoot H (take k txs)) @ Byte32 (MerkleRoot H (drop k txs))))"
    and "merkleInputs H txs = {txInteriorPrefix @ Byte32 (MerkleRoot H (take k txs)) @ Byte32 (MerkleRoot H (drop k txs))} \<union>
      merkleInputs H (take k txs) \<union> merkleInputs H (drop k txs)"
  by (subst MerkleRoot.simps, use assms in \<open>simp add: Let_def\<close>)
     (subst merkleInputs.simps, use assms in \<open>simp add: Let_def\<close>)

lemma merkle_small:
  "MerkleRoot H [] = NewHash (H [])" "merkleInputs H [] = {[]}"
  "MerkleRoot H [tx] = NewHash (H (txLeafPrefix @ Byte32 (tx_ID tx)))" "merkleInputs H [tx] = {txLeafPrefix @ Byte32 (tx_ID tx)}"
  by (subst MerkleRoot.simps merkleInputs.simps, simp add: EmptyStringHash_def)+

text \<open>The string hashed last.\<close>

definition topInput :: "(bytes \<Rightarrow> bytes) \<Rightarrow> Tx list \<Rightarrow> bytes" where
  "topInput H txs = (if length txs = 0 then [] else if length txs = 1 then txLeafPrefix @ Byte32 (tx_ID (txs ! 0))
     else let k = prevPowerOfTwo (length txs)
       in txInteriorPrefix @ Byte32 (MerkleRoot H (take k txs)) @ Byte32 (MerkleRoot H (drop k txs)))"

lemma root_top: "MerkleRoot H txs = NewHash (H (topInput H txs)) \<and> topInput H txs \<in> merkleInputs H txs"
proof (rule merkle_cases [of txs])
  fix k assume "length txs \<noteq> 0" "length txs \<noteq> 1" "k = prevPowerOfTwo (length txs)"
  from merkle_branch [OF this] this show ?thesis by (simp add: topInput_def Let_def)
qed (simp_all add: merkle_small topInput_def)

lemma merkle_binds:
  assumes "\<forall>x. length (H x) = 32"
  shows "inj_on H (merkleInputs H txs \<union> merkleInputs H txs') \<Longrightarrow> MerkleRoot H txs = MerkleRoot H txs' \<Longrightarrow>
    map tx_ID txs = map tx_ID txs'"
proof (induction "length txs" arbitrary: txs txs' rule: less_induct)
  case less
  have top: "topInput H txs = topInput H txs'"
    using root_inject [OF assms less.prems(1)] root_top [of H txs] root_top [of H txs'] less.prems(2) by auto
  show ?case
  proof (rule merkle_cases [of txs])
    assume "length txs = 0"
    then show ?thesis using top by (auto simp: topInput_def txLeafPrefix_def txInteriorPrefix_def Let_def split: if_splits)
  next
    fix tx assume tx: "txs = [tx]"
    then have "length txs' = 1" using top
      by (auto simp: topInput_def txLeafPrefix_def txInteriorPrefix_def Let_def split: if_splits)
    with tx top show ?thesis
      by (cases txs') (auto simp: topInput_def Byte32_inject)
  next
    fix k assume k: "length txs \<noteq> 0" "length txs \<noteq> 1" "k = prevPowerOfTwo (length txs)"
    then have k': "length txs' \<noteq> 0" "length txs' \<noteq> 1"
      using top by (auto simp: topInput_def txLeafPrefix_def txInteriorPrefix_def Let_def split: if_splits)
    define k' where "k' = prevPowerOfTwo (length txs')"
    have roots: "MerkleRoot H (take k txs) = MerkleRoot H (take k' txs')" "MerkleRoot H (drop k txs) = MerkleRoot H (drop k' txs')"
      using top k k' by (simp_all add: topInput_def Let_def k'_def Byte32_inject)
    note inputs = merkle_branch(2) [OF k, of H] merkle_branch(2) [OF k' k'_def, of H]
    have less': "length (take k txs) < length txs" "length (drop k txs) < length txs" using split_less [OF k] by auto
    have "map tx_ID (take k txs) = map tx_ID (take k' txs')" "map tx_ID (drop k txs) = map tx_ID (drop k' txs')"
      by (rule less.hyps [OF less'(1) _ roots(1)] less.hyps [OF less'(2) _ roots(2)];
          rule inj_on_subset [OF less.prems(1)]; auto simp: inputs)+
    then have "map tx_ID (take k txs @ drop k txs) = map tx_ID (take k' txs' @ drop k' txs')" by (simp only: map_append)
    then show ?thesis by simp
  qed
qed

text \<open>
  C25. The Merkle root of a block commits to the IDs of its transactions, in order and in number, as far as
  SHA3 does not collide on the strings hashed for the two roots. (Leaves, branches and the empty
  list are hashed with different prefixes, so no branch can be taken for a leaf.)
\<close>
theorem merkle_root_binds:
  assumes "\<forall>x. length (H x) = 32" and "MerkleRoot H txs = MerkleRoot H txs'"
    and "inj_on H (merkleInputs H txs \<union> merkleInputs H txs')"
  shows "map tx_ID txs = map tx_ID txs'"
  by (rule merkle_binds [OF assms(1,3,2)])

lemma merkle_root_binds_witness:
  "let H = (\<lambda>x. replicate 31 (word_of_nat (length x)) @ [sum_list x]);
       tx = (\<lambda>n. \<lparr>tx_TxHeader = \<lparr>hdr_Version = 1, hdr_ResultIds = [], hdr_Data = None, hdr_MinTimeMs = 0, hdr_MaxTimeMs = 0,
         hdr_ExtHash = None\<rparr>, tx_ID = \<lparr>V0 = n, V1 = 0, V2 = 0, V3 = 0\<rparr>, tx_Entries = \<lambda>_. None, tx_InputIDs = [],
         tx_NonceIDs = [], tx_SpentOutputIDs = []\<rparr>)
   in MerkleRoot H [tx 1] \<noteq> MerkleRoot H [tx 2]"
proof -
  let ?H = "\<lambda>x :: bytes. replicate 31 (word_of_nat (length x)) @ [sum_list x]"
  have pair: "f a \<noteq> f b \<Longrightarrow> inj_on f {a, b}" for f :: "bytes \<Rightarrow> bytes" and a b by (auto simp: inj_on_def)
  have "?H (txLeafPrefix @ Byte32 \<lparr>V0 = 1, V1 = 0, V2 = 0, V3 = 0\<rparr>) \<noteq> ?H (txLeafPrefix @ Byte32 \<lparr>V0 = 2, V1 = 0, V2 = 0, V3 = 0\<rparr>)"
    by code_simp
  then have inj: "inj_on ?H {txLeafPrefix @ Byte32 \<lparr>V0 = 1, V1 = 0, V2 = 0, V3 = 0\<rparr>, txLeafPrefix @ Byte32 \<lparr>V0 = 2, V1 = 0, V2 = 0, V3 = 0\<rparr>}"
    by (rule pair)
  show ?thesis unfolding Let_def
    by (rule notI, drule merkle_root_binds [rotated]) (use inj in \<open>simp_all add: merkle_small insert_commute\<close>)
qed

text \<open>
  The list is split as RFC 6962 demands, at the largest power of two smaller than its length, although the
  code computes it in two different ways.
\<close>
lemma merkle_split_rfc6962:
  assumes "2 \<le> n"
  shows "\<exists>j. prevPowerOfTwo n = 2 ^ j \<and> prevPowerOfTwo n < n \<and> n \<le> 2 * prevPowerOfTwo n"
  using prevPowerOfTwo_spec [OF assms] by auto

lemma merkle_split_rfc6962_witness: "prevPowerOfTwo 6 = 4 \<and> (\<exists>j. prevPowerOfTwo 6 = 2 ^ j)"
proof -
  have "prevPowerOfTwo 6 = 4" by code_simp
  then show ?thesis using merkle_split_rfc6962 [of 6] by auto
qed

end
