(* ===== verification/Validation.thy ===== *)
theory Validation
  imports TxVMContext BC_Merkle "HOL-Library.AList"
begin

text \<open>
  The validation of transactions and blocks, \<^verbatim>\<open>protocol/validation/validation.go\<close>. \<open>checkValid\<close> walks the graph of
  entries and memoizes its results. The state of \<open>checkValid\<close> is the memo table; its parts are polymorphic in the
  state, so that the reference without a memo table is made of the same parts. The other fields of
  \<^verbatim>\<open>validationState\<close>, which the code copies before it changes them, are passed along. \<open>H\<close> is SHA3, \<open>P\<close> the
  primitives of the virtual machine and \<open>F\<close> the number of instructions a program may run.
\<close>

section \<open>Data\<close>

datatype val_error =
    errBadTimeRange | errEmptyResults | errMismatchedAssetID | errMismatchedBlock | errMismatchedMerkleRoot
  | errMismatchedPosition | errMismatchedReference | errMismatchedValue | errMisorderedBlockHeight
  | errMisorderedBlockTime | errMissingField | errNoPrevBlock | errNoSource | errNonemptyExtHash | errOverflow
  | errPosition | errTxVersion | errUnbalanced | errUntimelyTransaction | errVersionRegression
  | errWrongBlockchain | errZeroTime
  | fromVM vm_error | fromTx tx_error | emptyAmount | unexpectedType | fromValidator

record validationState =
  vs_blockchainID :: Hash
  vs_tx :: Tx
  vs_entryID :: Hash
  vs_sourcePos :: uint64
  vs_destPos :: uint64

text \<open>The memo table: \<open>Some None\<close> for an entry found valid, \<open>Some (Some e)\<close> for one that failed with \<open>e\<close>.\<close>

type_synonym cache = "Hash \<Rightarrow> val_error option option"
type_synonym 's check = "('s, val_error, unit) action"
type_synonym 's checker = "validationState \<Rightarrow> Entry option \<Rightarrow> 's check"

definition fromRes :: "'a res \<Rightarrow> (val_error, 'a) outcome" where
  "fromRes r = (case r of Ret a \<Rightarrow> Ok a | Err e \<Rightarrow> Fail (fromVM e) | Panic \<Rightarrow> Crash | OutOfFuel \<Rightarrow> Diverge)"

definition fromLookup :: "tx_error + 'a \<Rightarrow> (val_error, 'a) outcome" where
  "fromLookup r = (case r of Inl e \<Rightarrow> Fail (fromTx e) | Inr a \<Rightarrow> Ok a)"

abbreviation txVersion :: "Tx \<Rightarrow> uint64" where
  "txVersion tx \<equiv> hdr_Version (tx_TxHeader tx)"

section \<open>Value sources and destinations\<close>

text \<open>
  The end of \<open>checkValidSrc\<close> and \<open>checkValidDest\<close>: the other side has to point back, with the same position and
  value. On a nil reference the code panics while it formats the error message.
\<close>

definition agrees :: "Hash \<Rightarrow> uint64 \<Rightarrow> AssetAmount option \<Rightarrow> Hash option \<Rightarrow> uint64 \<Rightarrow> AssetAmount option \<Rightarrow> (val_error, unit) outcome" where
  "agrees self pos val ref refPos refVal =
     (case ref of None \<Rightarrow> Crash
      | Some r \<Rightarrow>
          if r \<noteq> self then Fail errMismatchedReference
          else if refPos \<noteq> pos then Fail errMismatchedPosition
          else (case amountEqual refVal val of
                  None \<Rightarrow> Fail errMissingField
                | Some eq \<Rightarrow> failIf (\<not> eq) errMismatchedValue))"

definition destAt :: "Entry \<Rightarrow> uint64 \<Rightarrow> (val_error, ValueDestination option) outcome" where
  "destAt e pos = (case e of
       EIssuance ref \<Rightarrow> if pos \<noteq> 0 then Fail errPosition else Ok (iss_WitnessDestination ref)
     | ESpend ref \<Rightarrow> if pos \<noteq> 0 then Fail errPosition else Ok (sp_WitnessDestination ref)
     | EMux ref \<Rightarrow> if pos \<ge> word_of_nat (length (mux_WitnessDestinations ref)) then Fail errPosition
         else Ok (mux_WitnessDestinations ref ! unat pos)
     | _ \<Rightarrow> Fail (fromTx TxErrEntryType))"

definition srcAt :: "Entry \<Rightarrow> uint64 \<Rightarrow> (val_error, ValueSource option) outcome" where
  "srcAt e pos = (case e of
       EOutput ref \<Rightarrow> if pos \<noteq> 0 then Fail errPosition else Ok (out_Source ref)
     | ERetirement ref \<Rightarrow> if pos \<noteq> 0 then Fail errPosition else Ok (ret_Source ref)
     | EMux ref \<Rightarrow> if pos \<ge> word_of_nat (length (mux_Sources ref)) then Fail errPosition
         else Ok (mux_Sources ref ! unat pos)
     | _ \<Rightarrow> Fail (fromTx TxErrEntryType))"

definition checkValidSrc :: "'s checker \<Rightarrow> validationState \<Rightarrow> ValueSource option \<Rightarrow> 's check" where
  "checkValidSrc rec vstate vs = (case vs of None \<Rightarrow> pureA (Fail errMissingField)
     | Some s \<Rightarrow> (case src_Ref s of None \<Rightarrow> pureA (Fail errMissingField)
     | Some ref \<Rightarrow>
         if src_Value s = None \<or> amt_AssetId (the (src_Value s)) = None then pureA (Fail errMissingField)
         else (case tx_Entries (vs_tx vstate) ref of None \<Rightarrow> pureA (Fail (fromTx TxErrMissingEntry))
           | Some e \<Rightarrow> bindA (rec (vstate\<lparr>vs_entryID := ref\<rparr>) (Some e)) (\<lambda>_.
               pureA (bindO (destAt e (src_Position s)) (\<lambda>dest. bindO (deref dest) (\<lambda>d.
                 agrees (vs_entryID vstate) (vs_sourcePos vstate) (src_Value s) (dst_Ref d) (dst_Position d) (dst_Value d))))))))"

definition checkValidDest :: "validationState \<Rightarrow> ValueDestination option \<Rightarrow> (val_error, unit) outcome" where
  "checkValidDest vs vd = (case vd of None \<Rightarrow> Fail errMissingField
     | Some d \<Rightarrow> (case dst_Ref d of None \<Rightarrow> Fail errMissingField
     | Some ref \<Rightarrow>
         if dst_Value d = None \<or> amt_AssetId (the (dst_Value d)) = None then Fail errMissingField
         else (case tx_Entries (vs_tx vs) ref of None \<Rightarrow> Fail (fromTx TxErrMissingEntry)
           | Some e \<Rightarrow> bindO (srcAt e (dst_Position d)) (\<lambda>src. bindO (deref src) (\<lambda>s.
               agrees (vs_entryID vs) (vs_destPos vs) (dst_Value d) (src_Ref s) (src_Position s) (src_Value s))))))"

section \<open>The balance of a mux\<close>

type_synonym parity = "(AssetID \<times> int64) list"

definition valueOf :: "AssetAmount option \<Rightarrow> ('e, AssetID \<times> uint64) outcome" where
  "valueOf v = bindO (deref v) (\<lambda>a. bindO (deref (amt_AssetId a)) (\<lambda>i. Ok (i, amt_Amount a)))"

definition addSource :: "ValueSource option \<Rightarrow> parity \<Rightarrow> (val_error, parity) outcome" where
  "addSource src parity = bindO (deref src) (\<lambda>s. bindO (valueOf (src_Value s)) (\<lambda>(i, amount).
     case AddInt64 (case map_of parity i of None \<Rightarrow> 0 | Some n \<Rightarrow> n) (i64 (uint amount)) of
       None \<Rightarrow> Fail errOverflow | Some sm \<Rightarrow> Ok (AList.update i sm parity)))"

definition subDestination :: "ValueDestination option \<Rightarrow> parity \<Rightarrow> (val_error, parity) outcome" where
  "subDestination dest parity = bindO (deref dest) (\<lambda>d. bindO (valueOf (dst_Value d)) (\<lambda>(i, amount).
     case map_of parity i of None \<Rightarrow> Fail errNoSource
     | Some sm \<Rightarrow> (case SubInt64 sm (i64 (uint amount)) of
         None \<Rightarrow> Fail errOverflow | Some diff \<Rightarrow> Ok (AList.update i diff parity))))"

definition checkBalance :: "Mux \<Rightarrow> (val_error, unit) outcome" where
  "checkBalance e = bindO (foldO addSource (mux_Sources e) []) (\<lambda>parity.
     bindO (foldO subDestination (mux_WitnessDestinations e) parity) (\<lambda>parity.
       failIf (list_ex (\<lambda>(i, amount). amount \<noteq> 0) parity) errUnbalanced))"

section \<open>Entries\<close>

definition runProgram :: "(bytes \<Rightarrow> bytes) \<Rightarrow> prims \<Rightarrow> nat \<Rightarrow> Tx \<Rightarrow> Entry \<Rightarrow> Program option \<Rightarrow> bytes list \<Rightarrow> (val_error, unit) outcome" where
  "runProgram H P F tx e prog args = bindO (NewTxVMContext H tx e prog args) (\<lambda>c. fromRes (Verify P F c))"

definition extEmpty :: "Hash option \<Rightarrow> bool" where
  "extEmpty ext \<longleftrightarrow> \<not> (ext \<noteq> None \<and> \<not> IsZero ext)"

definition checkExt :: "validationState \<Rightarrow> Hash option \<Rightarrow> (val_error, unit) outcome" where
  "checkExt vs ext = failIf (txVersion (vs_tx vs) = 1 \<and> \<not> extEmpty ext) errNonemptyExtHash"

definition anchoredID :: "Entry \<Rightarrow> (val_error, Hash option) outcome" where
  "anchoredID anchor = (case anchor of ENonce a \<Rightarrow> Ok (nonce_WitnessAnchoredId a) | ESpend a \<Rightarrow> Ok (sp_WitnessAnchoredId a)
     | EIssuance a \<Rightarrow> Ok (iss_WitnessAnchoredId a) | _ \<Rightarrow> Fail (fromTx TxErrEntryType))"

text \<open>Iterating with the index of the element.\<close>

definition indexed :: "'a list \<Rightarrow> (uint64 \<times> 'a) list" where
  "indexed xs = zip (map word_of_nat [0..<length xs]) xs"

definition checkHeader :: "'s checker \<Rightarrow> validationState \<Rightarrow> TxHeader \<Rightarrow> 's check" where
  "checkHeader rec vs e =
     bindA (pureA (failIf (hdr_MaxTimeMs e > 0 \<and> hdr_MaxTimeMs e < hdr_MinTimeMs e) errBadTimeRange)) (\<lambda>_.
     bindA (forA (\<lambda>resID. bindA (pureA (deref resID)) (\<lambda>rid. rec (vs\<lparr>vs_entryID := rid\<rparr>) (tx_Entries (vs_tx vs) rid)))
         (hdr_ResultIds e)) (\<lambda>_.
     pureA (if hdr_Version e = 1 then
         bindO (failIf (hdr_ResultIds e = []) errEmptyResults) (\<lambda>_. failIf (\<not> extEmpty (hdr_ExtHash e)) errNonemptyExtHash)
       else Ok ())))"

definition checkMuxEntry :: "(bytes \<Rightarrow> bytes) \<Rightarrow> prims \<Rightarrow> nat \<Rightarrow> 's checker \<Rightarrow> validationState \<Rightarrow> Mux \<Rightarrow> 's check" where
  "checkMuxEntry H P F rec vs e =
     bindA (pureA (runProgram H P F (vs_tx vs) (EMux e) (mux_Program e) (mux_WitnessArguments e))) (\<lambda>_.
     bindA (forA (\<lambda>(i, src). checkValidSrc rec (vs\<lparr>vs_sourcePos := i\<rparr>) src) (indexed (mux_Sources e))) (\<lambda>_.
     bindA (pureA (forO (\<lambda>(i, dest). checkValidDest (vs\<lparr>vs_destPos := i\<rparr>) dest) (indexed (mux_WitnessDestinations e)))) (\<lambda>_.
     bindA (pureA (checkBalance e)) (\<lambda>_. pureA (checkExt vs (mux_ExtHash e))))))"

definition checkNonce :: "(bytes \<Rightarrow> bytes) \<Rightarrow> prims \<Rightarrow> nat \<Rightarrow> 's checker \<Rightarrow> validationState \<Rightarrow> Nonce \<Rightarrow> 's check" where
  "checkNonce H P F rec vs e =
     bindA (pureA (runProgram H P F (vs_tx vs) (ENonce e) (nonce_Program e) (nonce_WitnessArguments e))) (\<lambda>_.
     bindA (pureA (deref (nonce_TimeRangeId e))) (\<lambda>trID.
     bindA (pureA (fromLookup (txTimeRange (vs_tx vs) trID))) (\<lambda>tr.
     bindA (rec (vs\<lparr>vs_entryID := trID\<rparr>) (Some (ETimeRange tr))) (\<lambda>_.
     bindA (pureA (failIf (tr_MinTimeMs tr = 0 \<or> tr_MaxTimeMs tr = 0) errZeroTime)) (\<lambda>_.
     pureA (checkExt vs (nonce_ExtHash e)))))))"

definition checkIssuance :: "(bytes \<Rightarrow> bytes) \<Rightarrow> prims \<Rightarrow> nat \<Rightarrow> 's checker \<Rightarrow> validationState \<Rightarrow> Issuance \<Rightarrow> 's check" where
  "checkIssuance H P F rec vs e =
     bindA (pureA (deref (iss_WitnessAssetDefinition e))) (\<lambda>adef.
     bindA (pureA (deref (def_InitialBlockId adef))) (\<lambda>ib.
     bindA (pureA (failIf (ib \<noteq> vs_blockchainID vs) errWrongBlockchain)) (\<lambda>_.
     bindA (pureA (valueOf (iss_Value e))) (\<lambda>(asset, _).
     bindA (pureA (failIf (ComputeAssetID H adef \<noteq> asset) errMismatchedAssetID)) (\<lambda>_.
     bindA (pureA (deref (iss_AnchorId e))) (\<lambda>anchorID.
     case tx_Entries (vs_tx vs) anchorID of None \<Rightarrow> pureA (Fail (fromTx TxErrMissingEntry))
     | Some anchor \<Rightarrow>
         bindA (pureA (runProgram H P F (vs_tx vs) (EIssuance e) (def_IssuanceProgram adef) (iss_WitnessArguments e))) (\<lambda>_.
         bindA (pureA (anchoredID anchor)) (\<lambda>anchored.
         bindA (pureA (deref anchored)) (\<lambda>a.
         bindA (pureA (failIf (a \<noteq> vs_entryID vs) errMismatchedReference)) (\<lambda>_.
         bindA (rec (vs\<lparr>vs_entryID := anchorID\<rparr>) (Some anchor)) (\<lambda>_.
         bindA (pureA (checkValidDest (vs\<lparr>vs_destPos := 0\<rparr>) (iss_WitnessDestination e))) (\<lambda>_.
         pureA (checkExt vs (iss_ExtHash e))))))))))))))"

definition checkSpend :: "(bytes \<Rightarrow> bytes) \<Rightarrow> prims \<Rightarrow> nat \<Rightarrow> validationState \<Rightarrow> Spend \<Rightarrow> (val_error, unit) outcome" where
  "checkSpend H P F vs e =
     (case sp_SpentOutputId e of None \<Rightarrow> Fail errMissingField
      | Some soID \<Rightarrow>
          bindO (fromLookup (txOutput (vs_tx vs) soID)) (\<lambda>spentOutput.
          bindO (runProgram H P F (vs_tx vs) (ESpend e) (out_ControlProgram spentOutput) (sp_WitnessArguments e)) (\<lambda>_.
          bindO (deref (out_Source spentOutput)) (\<lambda>src.
          bindO (deref (sp_WitnessDestination e)) (\<lambda>dest.
          (case amountEqual (src_Value src) (dst_Value dest) of
             None \<Rightarrow> Fail emptyAmount
           | Some eq \<Rightarrow>
               bindO (failIf (\<not> eq) errMismatchedValue) (\<lambda>_.
               bindO (checkValidDest (vs\<lparr>vs_destPos := 0\<rparr>) (sp_WitnessDestination e)) (\<lambda>_.
               checkExt vs (sp_ExtHash e)))))))))"

definition checkTimeRange :: "validationState \<Rightarrow> TimeRange \<Rightarrow> (val_error, unit) outcome" where
  "checkTimeRange vs e =
     bindO (failIf (tr_MinTimeMs e > hdr_MinTimeMs (tx_TxHeader (vs_tx vs))) errBadTimeRange) (\<lambda>_.
     bindO (failIf (tr_MaxTimeMs e > 0 \<and> tr_MaxTimeMs e < hdr_MaxTimeMs (tx_TxHeader (vs_tx vs))) errBadTimeRange) (\<lambda>_.
     checkExt vs (tr_ExtHash e)))"

text \<open>The body of \<open>checkValid\<close>, where \<open>rec\<close> stands for the recursive calls.\<close>

definition checkBody :: "(bytes \<Rightarrow> bytes) \<Rightarrow> prims \<Rightarrow> nat \<Rightarrow> 's checker \<Rightarrow> validationState \<Rightarrow> Entry option \<Rightarrow> 's check" where
  "checkBody H P F rec vs entry = (case entry of None \<Rightarrow> pureA (Fail unexpectedType) | Some entry \<Rightarrow> (case entry of
       ETxHeader e \<Rightarrow> checkHeader rec vs e
     | EMux e \<Rightarrow> checkMuxEntry H P F rec vs e
     | ENonce e \<Rightarrow> checkNonce H P F rec vs e
     | EOutput e \<Rightarrow> bindA (checkValidSrc rec (vs\<lparr>vs_sourcePos := 0\<rparr>) (out_Source e)) (\<lambda>_. pureA (checkExt vs (out_ExtHash e)))
     | ERetirement e \<Rightarrow> bindA (checkValidSrc rec (vs\<lparr>vs_sourcePos := 0\<rparr>) (ret_Source e)) (\<lambda>_. pureA (checkExt vs (ret_ExtHash e)))
     | ETimeRange e \<Rightarrow> pureA (checkTimeRange vs e)
     | EIssuance e \<Rightarrow> checkIssuance H P F rec vs e
     | ESpend e \<Rightarrow> pureA (checkSpend H P F vs e)
     | EBlockHeader _ \<Rightarrow> pureA (Fail unexpectedType)))"

text \<open>The memo table around the body: a result found in the table is returned, a new one is stored.\<close>

definition memo :: "(bytes \<Rightarrow> bytes) \<Rightarrow> Entry option \<Rightarrow> cache check \<Rightarrow> cache check" where
  "memo H e body = bindA (pureA (entryID H e)) (\<lambda>eid cache.
     case cache eid of
       Some None \<Rightarrow> (Ok (), cache)
     | Some (Some err) \<Rightarrow> (Fail err, cache)
     | None \<Rightarrow> (case body cache of
           (Ok _, cache') \<Rightarrow> (Ok (), cache'(eid \<mapsto> None))
         | (Fail err, cache') \<Rightarrow> (Fail err, cache'(eid \<mapsto> Some err))
         | (r, cache') \<Rightarrow> (r, cache')))"

primrec checkValid :: "(bytes \<Rightarrow> bytes) \<Rightarrow> prims \<Rightarrow> nat \<Rightarrow> nat \<Rightarrow> cache checker" where
  "checkValid H P F 0 vs e = pureA Diverge"
| "checkValid H P F (Suc n) vs e = memo H e (checkBody H P F (checkValid H P F n) vs e)"

definition ValidateTx :: "(bytes \<Rightarrow> bytes) \<Rightarrow> prims \<Rightarrow> nat \<Rightarrow> nat \<Rightarrow> Tx \<Rightarrow> Hash \<Rightarrow> (val_error, unit) outcome" where
  "ValidateTx H P F n tx initialBlockID =
     fst (checkValid H P F n \<lparr>vs_blockchainID = initialBlockID, vs_tx = tx, vs_entryID = tx_ID tx, vs_sourcePos = 0, vs_destPos = 0\<rparr>
            (Some (ETxHeader (tx_TxHeader tx))) (\<lambda>_. None))"

section \<open>Blocks\<close>

definition checkValidBlockHeader :: "BlockHeader \<Rightarrow> (val_error, unit) outcome" where
  "checkValidBlockHeader bh = failIf (bh_Version bh = 1 \<and> \<not> extEmpty (bh_ExtHash bh)) errNonemptyExtHash"

definition ValidateBlockSig :: "prims \<Rightarrow> nat \<Rightarrow> Block \<Rightarrow> bytes \<Rightarrow> (val_error, unit) outcome" where
  "ValidateBlockSig P F b prog =
     fromRes (Verify P F (newBlockVMContext b prog (bh_WitnessArguments (blk_BlockHeader b))))"

definition validateBlockAgainstPrev :: "Block \<Rightarrow> Block \<Rightarrow> (val_error, unit) outcome" where
  "validateBlockAgainstPrev b prev =
     (let bh = blk_BlockHeader b; ph = blk_BlockHeader prev in
      bindO (failIf (bh_Version bh < bh_Version ph) errVersionRegression) (\<lambda>_.
      bindO (failIf (bh_Height bh \<noteq> bh_Height ph + 1) errMisorderedBlockHeight) (\<lambda>_.
      bindO (deref (bh_PreviousBlockId bh)) (\<lambda>prevID.
      bindO (failIf (blk_ID prev \<noteq> prevID) errMismatchedBlock) (\<lambda>_.
      failIf (bh_TimestampMs bh \<le> bh_TimestampMs ph) errMisorderedBlockTime)))))"

text \<open>
  The function that validates the transactions is passed in and may have a state of its own, such as a cache. Its errors,
  which are not among those of this package, are \<open>fromValidator\<close>.
\<close>

definition checkTxInBlock :: "BlockHeader \<Rightarrow> (Tx \<Rightarrow> 's check) \<Rightarrow> Tx \<Rightarrow> 's check" where
  "checkTxInBlock bh validateTx tx =
     (let h = tx_TxHeader tx in
      bindA (pureA (failIf (bh_Version bh = 1 \<and> hdr_Version h \<noteq> 1) errTxVersion)) (\<lambda>_.
      bindA (pureA (failIf (hdr_MaxTimeMs h > 0 \<and> bh_TimestampMs bh > hdr_MaxTimeMs h) errUntimelyTransaction)) (\<lambda>_.
      bindA (pureA (failIf (hdr_MinTimeMs h > 0 \<and> bh_TimestampMs bh > 0 \<and> bh_TimestampMs bh < hdr_MinTimeMs h) errUntimelyTransaction)) (\<lambda>_.
      validateTx tx))))"

definition ValidateBlock :: "(bytes \<Rightarrow> bytes) \<Rightarrow> Block \<Rightarrow> Block option \<Rightarrow> (Tx \<Rightarrow> 's check) \<Rightarrow> 's check" where
  "ValidateBlock H b prev validateTx =
     (let bh = blk_BlockHeader b in
      bindA (pureA (if bh_Height bh > 1 then (case prev of None \<Rightarrow> Fail errNoPrevBlock | Some p \<Rightarrow> validateBlockAgainstPrev b p) else Ok ())) (\<lambda>_.
      bindA (pureA (checkValidBlockHeader bh)) (\<lambda>_.
      bindA (forA (checkTxInBlock bh validateTx) (blk_Transactions b)) (\<lambda>_.
      bindA (pureA (deref (bh_TransactionsRoot bh))) (\<lambda>root.
      pureA (failIf (MerkleRoot H (blk_Transactions b) \<noteq> root) errMismatchedMerkleRoot))))))"

end
