(* ===== verification/Validation_Sample.thy ===== *)
theory Validation_Sample
  imports Validation VM_Predicate
begin

text \<open>
  A small transaction that is valid: a spend of five units goes through a mux into a retirement. The
  hash stands in for SHA3; it tells strings apart by their length only.
\<close>

section \<open>The program TRUE\<close>

lemma parse_true: "ParseOp [OP_1] 0 = Ret \<lparr>Op = OP_1, Len = 1, Data = [1]\<rparr>"
  by code_simp

lemma Verify_true:
  assumes "VMVersion c = 1" and "Code c = [OP_1]" and "Arguments c = []"
  shows "Verify P (Suc (Suc n)) c = Ret ()"
proof -
  have "AsBool [1]" by code_simp
  then show ?thesis
    by (simp add: Verify_initial assms initialVM_def newVM_def initialRunLimit_def run_def loop_simps parse_true
      opPushdata_def ret_def falseResult_def throw_def)
qed

section \<open>The transaction\<close>

definition lengthHash :: "bytes \<Rightarrow> bytes" where
  "lengthHash x = replicate 30 0 @ [1, word_of_nat (length x)]"

definition idOf :: "string \<Rightarrow> Hash" where
  "idOf s = zeroHash\<lparr>V3 := 256 + word_of_nat (length s + 41)\<rparr>"

text \<open>The hash of empty reference data.\<close>

definition noData :: Hash where
  "noData = zeroHash\<lparr>V3 := 256\<rparr>"

definition fiveUnits :: "AssetAmount option" where
  "fiveUnits = Some \<lparr>amt_AssetId = Some zeroHash, amt_Amount = 5\<rparr>"

definition srcFrom :: "string \<Rightarrow> ValueSource option" where
  "srcFrom s = Some \<lparr>src_Ref = Some (idOf s), src_Value = fiveUnits, src_Position = 0\<rparr>"

definition dstTo :: "string \<Rightarrow> ValueDestination option" where
  "dstTo s = Some \<lparr>dst_Ref = Some (idOf s), dst_Value = fiveUnits, dst_Position = 0\<rparr>"

definition trueProgram :: "Program option" where
  "trueProgram = Some \<lparr>prog_VmVersion = 1, prog_Code = [OP_1]\<rparr>"

definition retireHeader :: TxHeader where
  "retireHeader = \<lparr>hdr_Version = 1, hdr_ResultIds = [Some (idOf ''retirement1'')], hdr_Data = Some noData, hdr_MinTimeMs = 0,
     hdr_MaxTimeMs = 0, hdr_ExtHash = None\<rparr>"

definition retireEntry :: Retirement where
  "retireEntry = \<lparr>ret_Source = srcFrom ''mux1'', ret_Data = Some noData, ret_ExtHash = None, ret_Ordinal = 0\<rparr>"

definition retireMux :: Mux where
  "retireMux = \<lparr>mux_Sources = [srcFrom ''spend1''], mux_Program = trueProgram, mux_ExtHash = None,
     mux_WitnessDestinations = [dstTo ''retirement1''], mux_WitnessArguments = []\<rparr>"

definition retireSpend :: Spend where
  "retireSpend = \<lparr>sp_SpentOutputId = Some (idOf ''output1''), sp_Data = Some noData, sp_ExtHash = None,
     sp_WitnessDestination = dstTo ''mux1'', sp_WitnessArguments = [], sp_WitnessAnchoredId = None, sp_Ordinal = 0\<rparr>"

definition spentEntry :: Output where
  "spentEntry = \<lparr>out_Source = srcFrom ''mux1'', out_ControlProgram = trueProgram, out_Data = Some zeroHash,
     out_ExtHash = None, out_Ordinal = 0\<rparr>"

definition retireTx :: Tx where
  "retireTx = \<lparr>tx_TxHeader = retireHeader, tx_ID = idOf ''txheader'', tx_Entries = [
       idOf ''txheader'' \<mapsto> ETxHeader retireHeader, idOf ''retirement1'' \<mapsto> ERetirement retireEntry,
       idOf ''mux1'' \<mapsto> EMux retireMux, idOf ''spend1'' \<mapsto> ESpend retireSpend, idOf ''output1'' \<mapsto> EOutput spentEntry],
     tx_InputIDs = [idOf ''spend1''], tx_NonceIDs = [], tx_SpentOutputIDs = [idOf ''output1'']\<rparr>"

lemmas retire_parts = retireHeader_def retireEntry_def retireMux_def retireSpend_def spentEntry_def srcFrom_def dstTo_def
  fiveUnits_def trueProgram_def

lemma idOf_distinct:
  "distinct [idOf ''txheader'', idOf ''retirement1'', idOf ''mux1'', idOf ''spend1'', idOf ''output1'', zeroHash]"
  by code_simp

lemma retire_ids:
  "entryID lengthHash (Some (ETxHeader retireHeader)) = (Ok (idOf ''txheader'') :: (val_error, Hash) outcome)"
  "entryID lengthHash (Some (ERetirement retireEntry)) = (Ok (idOf ''retirement1'') :: (val_error, Hash) outcome)"
  "entryID lengthHash (Some (EMux retireMux)) = (Ok (idOf ''mux1'') :: (val_error, Hash) outcome)"
  "entryID lengthHash (Some (ESpend retireSpend)) = (Ok (idOf ''spend1'') :: (val_error, Hash) outcome)"
  "entryID lengthHash (Some (EOutput spentEntry)) = (Ok (idOf ''output1'') :: (val_error, Hash) outcome)"
  by code_simp+

lemma retire_entries:
  "tx_Entries retireTx (idOf ''txheader'') = Some (ETxHeader retireHeader)"
  "tx_Entries retireTx (idOf ''retirement1'') = Some (ERetirement retireEntry)"
  "tx_Entries retireTx (idOf ''mux1'') = Some (EMux retireMux)"
  "tx_Entries retireTx (idOf ''spend1'') = Some (ESpend retireSpend)"
  "tx_Entries retireTx (idOf ''output1'') = Some (EOutput spentEntry)"
  "tx_TxHeader retireTx = retireHeader" "tx_ID retireTx = idOf ''txheader''"
  using idOf_distinct by (simp_all add: retireTx_def)

lemma retire_fields:
  "hdr_Version retireHeader = 1" "hdr_ResultIds retireHeader = [Some (idOf ''retirement1'')]" "hdr_Data retireHeader = Some noData"
  "hdr_MaxTimeMs retireHeader = 0" "hdr_ExtHash retireHeader = None"
  "ret_Source retireEntry = srcFrom ''mux1''" "ret_ExtHash retireEntry = None" "ret_Data retireEntry = Some noData"
  "mux_Sources retireMux = [srcFrom ''spend1'']" "mux_Program retireMux = trueProgram" "mux_ExtHash retireMux = None"
  "mux_WitnessDestinations retireMux = [dstTo ''retirement1'']" "mux_WitnessArguments retireMux = []"
  "sp_SpentOutputId retireSpend = Some (idOf ''output1'')" "sp_Data retireSpend = Some noData" "sp_ExtHash retireSpend = None"
  "sp_WitnessDestination retireSpend = dstTo ''mux1''" "sp_WitnessArguments retireSpend = []"
  "out_Source spentEntry = srcFrom ''mux1''" "out_ControlProgram spentEntry = trueProgram"
  "out_Data spentEntry = Some zeroHash"
  by (simp_all add: retire_parts)

lemmas retire_simps = retire_ids retire_entries retire_fields

lemma retire_programs:
  "runProgram lengthHash P (Suc (Suc n)) retireTx (EMux retireMux) trueProgram [] = Ok ()"
  "runProgram lengthHash P (Suc (Suc n)) retireTx (ESpend retireSpend) trueProgram [] = Ok ()"
  by (simp_all add: runProgram_def NewTxVMContext_def retire_simps entryFields_def bareContext_def Verify_true fromRes_def
    srcFrom_def dstTo_def fiveUnits_def trueProgram_def)

lemma retire_balanced: "checkBalance retireMux = Ok ()"
  by code_simp

lemmas check_defs = checkBody_def bindA_def pureA_def indexed_def checkValidSrc_def checkValidDest_def checkExt_def extEmpty_def
  agrees_def destAt_def srcAt_def amountEqual_def failIf_def

lemma retire_spend:
  assumes "vs_tx vs = retireTx" and "vs_entryID vs = idOf ''spend1''"
  shows "checkBody lengthHash P (Suc (Suc n)) rec vs (Some (ESpend retireSpend)) c = (Ok (), c)"
  using assms by (simp add: check_defs checkSpend_def fromLookup_def txOutput_def retire_simps retire_programs srcFrom_def dstTo_def fiveUnits_def)

lemma retire_mux:
  assumes "vs_tx vs = retireTx" and "vs_entryID vs = idOf ''mux1''"
    and "\<And>vs. vs_tx vs = retireTx \<Longrightarrow> vs_entryID vs = idOf ''spend1'' \<Longrightarrow> rec vs (Some (ESpend retireSpend)) c = (Ok (), c')"
  shows "checkBody lengthHash P (Suc (Suc n)) rec vs (Some (EMux retireMux)) c = (Ok (), c')"
  using assms by (simp add: check_defs checkMuxEntry_def retire_simps retire_programs retire_balanced srcFrom_def dstTo_def fiveUnits_def)

lemma retire_entry:
  assumes "vs_tx vs = retireTx" and "vs_entryID vs = idOf ''retirement1''"
    and "\<And>vs. vs_tx vs = retireTx \<Longrightarrow> vs_entryID vs = idOf ''mux1'' \<Longrightarrow> rec vs (Some (EMux retireMux)) c = (Ok (), c')"
  shows "checkBody lengthHash P (Suc (Suc n)) rec vs (Some (ERetirement retireEntry)) c = (Ok (), c')"
  using assms by (simp add: check_defs retire_simps srcFrom_def dstTo_def fiveUnits_def)

lemma retire_header:
  assumes "vs_tx vs = retireTx"
    and "\<And>vs. vs_tx vs = retireTx \<Longrightarrow> vs_entryID vs = idOf ''retirement1'' \<Longrightarrow> rec vs (Some (ERetirement retireEntry)) c = (Ok (), c')"
  shows "checkBody lengthHash P (Suc (Suc n)) rec vs (Some (ETxHeader retireHeader)) c = (Ok (), c')"
  using assms by (simp add: check_defs checkHeader_def retire_simps)

lemma retire_memo:
  assumes "entryID H e = (Ok h :: (val_error, Hash) outcome)" and "c h = None" and "body c = (Ok (), c')"
  shows "memo H e body c = (Ok (), c'(h \<mapsto> None))"
  using assms by (simp add: memo_def bindA_def pureA_def)

lemma retire_valid: "ValidateTx lengthHash P (Suc (Suc n)) (Suc (Suc (Suc (Suc k)))) retireTx b = Ok ()"
proof -
  let ?check = "checkValid lengthHash P (Suc (Suc n))" and ?c = "\<lambda>_ :: Hash. None :: val_error option option"
  let ?c1 = "?c(idOf ''spend1'' \<mapsto> None)"
  let ?c2 = "?c1(idOf ''mux1'' \<mapsto> None)"
  let ?c3 = "?c2(idOf ''retirement1'' \<mapsto> None)"
  have 1: "?check (Suc k) vs (Some (ESpend retireSpend)) ?c = (Ok (), ?c1)"
    if "vs_tx vs = retireTx" "vs_entryID vs = idOf ''spend1''" for vs
    unfolding checkValid.simps by (rule retire_memo [OF retire_ids(4) refl retire_spend [OF that]])
  have 2: "?check (Suc (Suc k)) vs (Some (EMux retireMux)) ?c = (Ok (), ?c2)"
    if "vs_tx vs = retireTx" "vs_entryID vs = idOf ''mux1''" for vs
    unfolding checkValid.simps(2) [of _ _ _ "Suc k"] by (rule retire_memo [OF retire_ids(3) refl], rule retire_mux [OF that], rule 1)
  have 3: "?check (Suc (Suc (Suc k))) vs (Some (ERetirement retireEntry)) ?c = (Ok (), ?c3)"
    if "vs_tx vs = retireTx" "vs_entryID vs = idOf ''retirement1''" for vs
    unfolding checkValid.simps(2) [of _ _ _ "Suc (Suc k)"] by (rule retire_memo [OF retire_ids(2) refl], rule retire_entry [OF that], rule 2)
  have "fst (?check (Suc (Suc (Suc (Suc k)))) vs (Some (ETxHeader retireHeader)) ?c) = Ok ()"
    if "vs_tx vs = retireTx" for vs
    unfolding checkValid.simps(2) [of _ _ _ "Suc (Suc (Suc k))"] by (subst retire_memo [OF retire_ids(1) refl], rule retire_header [OF that], rule 3) simp_all
  then show ?thesis by (simp add: ValidateTx_def retire_entries)
qed

end
