(* ===== verification/Validation_Total.thy ===== *)
theory Validation_Total
  imports Validation_Sample
begin

text \<open>
  Validation returns a verdict, and does not panic, for every transaction without nil pointers whose
  programs do not contain \<^verbatim>\<open>CHECKPREDICATE\<close> and whose entries do not refer to each other in a circle.
\<close>

section \<open>Transactions without nil pointers\<close>

definition hasValue :: "AssetAmount option \<Rightarrow> bool" where
  "hasValue v = (case v of None \<Rightarrow> False | Some x \<Rightarrow> amt_AssetId x \<noteq> None)"

definition hasSource :: "ValueSource option \<Rightarrow> bool" where
  "hasSource s = (case s of None \<Rightarrow> False | Some x \<Rightarrow> src_Ref x \<noteq> None \<and> hasValue (src_Value x))"

definition hasDestination :: "ValueDestination option \<Rightarrow> bool" where
  "hasDestination d = (case d of None \<Rightarrow> False | Some x \<Rightarrow> dst_Ref x \<noteq> None \<and> hasValue (dst_Value x))"

definition hasDefinition :: "AssetDefinition option \<Rightarrow> bool" where
  "hasDefinition d = (case d of None \<Rightarrow> False | Some x \<Rightarrow> def_InitialBlockId x \<noteq> None \<and> def_IssuanceProgram x \<noteq> None)"

fun filledEntry :: "Entry \<Rightarrow> bool" where
  "filledEntry (ETxHeader e) = (hdr_Data e \<noteq> None \<and> None \<notin> set (hdr_ResultIds e))"
| "filledEntry (EMux e) = (list_all hasSource (mux_Sources e) \<and> list_all hasDestination (mux_WitnessDestinations e) \<and> mux_Program e \<noteq> None)"
| "filledEntry (ENonce e) = (nonce_Program e \<noteq> None \<and> nonce_TimeRangeId e \<noteq> None \<and> nonce_WitnessAnchoredId e \<noteq> None)"
| "filledEntry (EOutput e) = (hasSource (out_Source e) \<and> out_ControlProgram e \<noteq> None \<and> out_Data e \<noteq> None)"
| "filledEntry (ERetirement e) = (hasSource (ret_Source e) \<and> ret_Data e \<noteq> None)"
| "filledEntry (EIssuance e) = (iss_AnchorId e \<noteq> None \<and> hasValue (iss_Value e) \<and> iss_Data e \<noteq> None \<and>
     hasDestination (iss_WitnessDestination e) \<and> hasDefinition (iss_WitnessAssetDefinition e))"
| "filledEntry (ESpend e) = (sp_Data e \<noteq> None \<and> hasDestination (sp_WitnessDestination e))"
| "filledEntry _ = True"

text \<open>The programs of an entry, and its arguments.\<close>

fun entryPrograms :: "Entry \<Rightarrow> Program option list" where
  "entryPrograms (EMux e) = [mux_Program e]"
| "entryPrograms (ENonce e) = [nonce_Program e]"
| "entryPrograms (EOutput e) = [out_ControlProgram e]"
| "entryPrograms (EIssuance e) = [case iss_WitnessAssetDefinition e of None \<Rightarrow> None | Some d \<Rightarrow> def_IssuanceProgram d]"
| "entryPrograms _ = []"

fun entryArguments :: "Entry \<Rightarrow> bytes list" where
  "entryArguments (EMux e) = mux_WitnessArguments e"
| "entryArguments (ENonce e) = nonce_WitnessArguments e"
| "entryArguments (EIssuance e) = iss_WitnessArguments e"
| "entryArguments (ESpend e) = sp_WitnessArguments e"
| "entryArguments _ = []"

definition plainProgram :: "Program option \<Rightarrow> bool" where
  "plainProgram p = (case p of None \<Rightarrow> True | Some q \<Rightarrow> length (prog_Code q) \<le> 2147483647 \<and> plainCode (prog_Code q))"

text \<open>
  The requirements on an entry of a transaction: no nil pointers, amounts and sizes that can be serialized, no
  \<^verbatim>\<open>CHECKPREDICATE\<close>, \<^verbatim>\<open>CAT\<close> or \<^verbatim>\<open>CATPUSHDATA\<close> in programs, and an issuance is anchored by an entry that names what it anchors.
\<close>

definition soundEntry :: "(bytes \<Rightarrow> bytes) \<Rightarrow> Tx \<Rightarrow> Entry \<Rightarrow> bool" where
  "soundEntry H tx e \<longleftrightarrow> filledEntry e \<and> (\<exists>h. entryID H (Some e) = (Ok h :: (val_error, Hash) outcome)) \<and>
     list_all plainProgram (entryPrograms e) \<and> list_all (\<lambda>a. length a \<le> 2 ^ 60) (entryArguments e) \<and>
     (\<forall>iss a anchor. e = EIssuance iss \<longrightarrow> iss_AnchorId iss = Some a \<longrightarrow> tx_Entries tx a = Some anchor \<longrightarrow> anchoredID anchor \<noteq> Ok None)"

definition soundTx :: "(bytes \<Rightarrow> bytes) \<Rightarrow> Tx \<Rightarrow> bool" where
  "soundTx H tx \<longleftrightarrow> soundEntry H tx (ETxHeader (tx_TxHeader tx)) \<and> (\<forall>h e. tx_Entries tx h = Some e \<longrightarrow> soundEntry H tx e)"

text \<open>The entries that the check of an entry goes on to, and a rank that decreases along them.\<close>

fun references :: "Entry \<Rightarrow> Hash option list" where
  "references (ETxHeader e) = hdr_ResultIds e"
| "references (EMux e) = map (\<lambda>s. case s of None \<Rightarrow> None | Some x \<Rightarrow> src_Ref x) (mux_Sources e)"
| "references (ENonce e) = [nonce_TimeRangeId e]"
| "references (EOutput e) = [case out_Source e of None \<Rightarrow> None | Some x \<Rightarrow> src_Ref x]"
| "references (ERetirement e) = [case ret_Source e of None \<Rightarrow> None | Some x \<Rightarrow> src_Ref x]"
| "references (EIssuance e) = [iss_AnchorId e]"
| "references _ = []"

definition ranked :: "(Hash \<Rightarrow> nat) \<Rightarrow> Tx \<Rightarrow> bool" where
  "ranked rk tx \<longleftrightarrow> (\<forall>h e r. tx_Entries tx h = Some e \<longrightarrow> Some r \<in> set (references e) \<longrightarrow> rk r < rk h)"

section \<open>Programs return\<close>

lemma returns_simps [simp]: "returns (Ret a)" "returns (Err e)"
  by (simp_all add: returns_iff)

lemma derefR_Some [simp]: "derefR (Some x) f = f x"
  by (simp add: derefR_def)

lemma checkParts_returns: "p \<noteq> None \<Longrightarrow> hasValue v \<Longrightarrow> d \<noteq> None \<Longrightarrow> returns (checkParts w p v d)"
  by (auto simp: checkParts_def hasValue_def split: option.splits)

lemma checkEntry_returns: "filledEntry e \<Longrightarrow> returns (checkEntry w e)"
  by (cases e) (auto simp: checkEntry_def hasSource_def intro!: checkParts_returns split: option.splits)

lemma index_below:
  assumes "i < (word_of_nat n :: uint64)"
  shows "unat i < n"
proof -
  have "unat i < n mod 2 ^ 64" using assms by (simp add: word_less_nat_alt unat_of_nat)
  then show ?thesis using mod_less_eq_dividend [of n "2 ^ 64"] by linarith
qed

lemma checkMux_returns:
  assumes "\<And>h e. entries h = Some e \<Longrightarrow> filledEntry e" and "list_all hasDestination (mux_WitnessDestinations m)"
  shows "returns (checkMux entries w m)"
proof (cases "want_index w \<ge> word_of_nat (length (mux_WitnessDestinations m))")
  case False
  then have "hasDestination (mux_WitnessDestinations m ! unat (want_index w))"
    using assms(2) index_below by (auto simp: list_all_length not_le)
  then show ?thesis using False assms(1)
    by (auto simp: checkMux_def hasDestination_def intro!: checkEntry_returns intro: assms(1) split: option.splits)
qed (simp add: checkMux_def)

lemma checkDestination_returns:
  assumes "\<And>h e. entries h = Some e \<Longrightarrow> filledEntry e" and "hasDestination d"
  shows "returns (checkDestination entries w d)"
proof -
  obtain vd ref where d: "d = Some vd" "dst_Ref vd = Some ref" using assms(2) by (auto simp: hasDestination_def split: option.splits)
  show ?thesis
  proof (cases "entries ref")
    case (Some e)
    with assms(1) have "filledEntry e" by blast
    with Some show ?thesis using checkEntry_returns [of e w] checkMux_returns [OF assms(1)]
      by (cases e) (auto simp: checkDestination_def d)
  qed (simp add: checkDestination_def d)
qed

lemma checkOutput_returns:
  assumes "\<And>h e. entries h = Some e \<Longrightarrow> filledEntry e" and "filledEntry e"
  shows "returns (checkOutput e entries i d a as v co ex)"
  using assms(2) checkMux_returns [OF assms(1)] checkDestination_returns [OF assms(1)]
  by (cases e) (auto simp: checkOutput_def Let_def)

definition concludes :: "('e, 'a) outcome \<Rightarrow> bool" where
  "concludes r \<longleftrightarrow> r \<noteq> Crash \<and> r \<noteq> Diverge"

lemma hasValue_iff: "hasValue v \<longleftrightarrow> (\<exists>x a. v = Some x \<and> amt_AssetId x = Some a)"
  by (auto simp: hasValue_def split: option.splits)

lemma hasSource_iff: "hasSource s \<longleftrightarrow> (\<exists>x r. s = Some x \<and> src_Ref x = Some r \<and> hasValue (src_Value x))"
  by (auto simp: hasSource_def split: option.splits)

lemma hasDestination_iff: "hasDestination d \<longleftrightarrow> (\<exists>x r. d = Some x \<and> dst_Ref x = Some r \<and> hasValue (dst_Value x))"
  by (auto simp: hasDestination_def split: option.splits)

lemmas context_real = ctx_real_def ctx_small_def callback_returns_def

lemma entryFields_real:
  assumes "filledEntry e" and "\<And>h e. tx_Entries tx h = Some e \<Longrightarrow> filledEntry e" and "ctx_real c"
    and "\<And>s. e = ESpend s \<Longrightarrow> \<exists>so out. sp_SpentOutputId s = Some so \<and> tx_Entries tx so = Some (EOutput out)"
  shows "\<exists>c'. entryFields tx e c = (Ok c' :: (val_error, Context) outcome) \<and> ctx_real c' \<and> Code c' = Code c"
proof (cases e)
  case (ENonce n)
  then obtain a where a: "nonce_WitnessAnchoredId n = Some a" using assms(1) by auto
  show ?thesis
  proof (cases "\<exists>iss. tx_Entries tx a = Some (EIssuance iss)")
    case True
    then obtain iss where iss: "tx_Entries tx a = Some (EIssuance iss)" by blast
    have "filledEntry (EIssuance iss)" by (rule assms(2) [OF iss])
    then obtain v i where "iss_Value iss = Some v" "amt_AssetId v = Some i" by (auto simp: hasValue_iff)
    then show ?thesis using assms(3) by (simp add: ENonce a iss entryFields_def context_real)
  next
    case False
    then have "entryFields tx e c = (Ok c :: (val_error, Context) outcome)" by (auto simp: ENonce a entryFields_def split: option.splits Entry.splits)
    then show ?thesis using assms(3) by simp
  qed
next
  case (ESpend s)
  then obtain so out where so: "sp_SpentOutputId s = Some so" "tx_Entries tx so = Some (EOutput out)" using assms(4) by blast
  have "filledEntry (EOutput out)" by (rule assms(2) [OF so(2)])
  then obtain src v i where "out_Source out = Some src" "src_Value src = Some v" "amt_AssetId v = Some i"
    by (auto simp: hasValue_iff hasSource_iff)
  moreover obtain d dest where "sp_Data s = Some d" "sp_WitnessDestination s = Some dest"
    using assms(1) by (auto simp: ESpend hasDestination_iff)
  ultimately show ?thesis using assms(3) by (simp add: ESpend so entryFields_def context_real)
next
  case (EIssuance i)
  then obtain v a dest d anchor where "iss_Value i = Some v" "amt_AssetId v = Some a" "iss_WitnessDestination i = Some dest"
    "iss_Data i = Some d" "iss_AnchorId i = Some anchor"
    using assms(1) by (auto simp: hasValue_iff hasDestination_iff)
  then show ?thesis using assms(3) by (simp add: EIssuance entryFields_def context_real)
qed (use assms(1,3) in \<open>auto simp: entryFields_def context_real\<close>)

lemma runProgram_concludes:
  assumes "prims_ok P" and "21250 < F" and "soundTx H tx" and "soundEntry H tx e"
    and p: "prog = Some p" "plainProgram prog" and "list_all (\<lambda>a. length a \<le> 2 ^ 60) args"
    and "\<And>s. e = ESpend s \<Longrightarrow> \<exists>so out. sp_SpentOutputId s = Some so \<and> tx_Entries tx so = Some (EOutput out)"
  shows "concludes (runProgram H P F tx e prog args)"
proof -
  have filled: "\<And>h e. tx_Entries tx h = Some e \<Longrightarrow> filledEntry e" "filledEntry e"
    using assms(3,4) by (auto simp: soundTx_def soundEntry_def)
  obtain d where d: "hdr_Data (tx_TxHeader tx) = Some d" using assms(3) by (auto simp: soundTx_def soundEntry_def)
  obtain eid where eid: "entryID H (Some e) = (Ok eid :: (val_error, Hash) outcome)" using assms(4) by (auto simp: soundEntry_def)
  let ?c = "(bareContext (prog_Code p) args)\<lparr>VMVersion := prog_VmVersion p, EntryID := Byte32 eid,
    TxVersion := Some (hdr_Version (tx_TxHeader tx)),
    TxSigHash := Some (Byte32 (NewHash (H (Byte32 eid @ Byte32 (tx_ID tx))))),
    NumResults := Some (word_of_nat (length (hdr_ResultIds (tx_TxHeader tx)))),
    MinTimeMS := Some (hdr_MinTimeMs (tx_TxHeader tx)), MaxTimeMS := Some (hdr_MaxTimeMs (tx_TxHeader tx)),
    TxData := Some (Byte32 d), CheckOutput := Some (checkOutput e (tx_Entries tx))\<rparr>"
  have "ctx_real ?c" using assms(6,7) checkOutput_returns [OF filled]
    by (simp add: ctx_real_def ctx_small_def callback_returns_def bareContext_def plainProgram_def plainCode_def p)
  then have "\<exists>c. entryFields tx e ?c = (Ok c :: (val_error, Context) outcome) \<and> ctx_real c \<and> Code c = Code ?c"
    by (intro entryFields_real filled(2) assms(8)) (rule filled(1))
  then obtain c where c: "entryFields tx e ?c = (Ok c :: (val_error, Context) outcome)" "ctx_real c" "Code c = prog_Code p"
    by (auto simp: bareContext_def)
  have "returns (Verify P F c)" using assms(6) c by (intro Verify_returns assms(1,2)) (simp_all add: plainProgram_def plainCode_def p)
  then show ?thesis using c(1)
    by (auto simp: runProgram_def NewTxVMContext_def d eid p concludes_def fromRes_def returns_iff split: res.splits)
qed

section \<open>Checks conclude\<close>

definition calm :: "('s, 'e, 'a) action \<Rightarrow> bool" where
  "calm m \<longleftrightarrow> (\<forall>s. concludes (fst (m s)))"

lemma concludes_simps [simp]: "concludes (Ok a)" "concludes (Fail e)" "\<not> concludes Crash" "\<not> concludes Diverge" "concludes (failIf c e)"
  by (simp_all add: concludes_def failIf_def)

lemma concludes_bind: "concludes m \<Longrightarrow> (\<And>a. m = Ok a \<Longrightarrow> concludes (f a)) \<Longrightarrow> concludes (bindO m f)"
  by (cases m) simp_all

lemma concludes_for: "(\<And>x. x \<in> set xs \<Longrightarrow> concludes (f x)) \<Longrightarrow> concludes (forO f xs)"
  by (induction xs) (auto intro: concludes_bind)

lemma concludes_fold: "(\<And>x s. x \<in> set xs \<Longrightarrow> concludes (f x s)) \<Longrightarrow> concludes (foldO f xs s)"
  by (induction xs arbitrary: s) (auto intro: concludes_bind)

lemma calm_pure: "concludes m \<Longrightarrow> calm (pureA m)"
  by (simp add: calm_def pureA_def)

lemma bindA_pure_Ok: "bindA (pureA (Ok a)) f = f a"
  by (simp add: fun_eq_iff bindA_def pureA_def)

lemma calm_bind_pure: "concludes m \<Longrightarrow> (\<And>a. m = Ok a \<Longrightarrow> calm (f a)) \<Longrightarrow> calm (bindA (pureA m) f)"
  by (cases m) (simp_all add: calm_def bindA_def pureA_def)

lemma calm_bind: "calm m \<Longrightarrow> (\<And>a. calm (f a)) \<Longrightarrow> calm (bindA m f)"
  unfolding calm_def bindA_def by (auto split: prod.splits outcome.splits) (metis concludes_simps(3,4) fst_conv)+

lemma calm_for: "(\<And>x. x \<in> set xs \<Longrightarrow> calm (f x)) \<Longrightarrow> calm (forA f xs)"
  by (induction xs) (auto intro: calm_bind simp: calm_def [of "\<lambda>s. (Ok (), s)"])

lemma agrees_concludes: "ref \<noteq> None \<Longrightarrow> concludes (agrees self pos v ref rpos rv)"
  by (auto simp: agrees_def split: option.splits)

lemma checkExt_concludes: "concludes (checkExt vs x)"
  by (simp add: checkExt_def)

lemma destAt_concludes:
  assumes "filledEntry e"
  shows "concludes (bindO (destAt e pos) (\<lambda>dest. bindO (deref dest) (\<lambda>d. agrees self i v (dst_Ref d) (dst_Position d) (dst_Value d))))"
proof -
  have "destAt e pos = Ok dest \<Longrightarrow> hasDestination dest" for dest
    using assms index_below by (cases e) (auto simp: destAt_def list_all_length not_le split: if_splits)
  moreover have "concludes (destAt e pos)" by (cases e) (auto simp: destAt_def)
  ultimately show ?thesis by (auto simp: hasDestination_iff intro!: concludes_bind agrees_concludes)
qed

lemma srcAt_concludes:
  assumes "filledEntry e"
  shows "concludes (bindO (srcAt e pos) (\<lambda>src. bindO (deref src) (\<lambda>s. agrees self i v (src_Ref s) (src_Position s) (src_Value s))))"
proof -
  have "srcAt e pos = Ok src \<Longrightarrow> hasSource src" for src
    using assms index_below by (cases e) (auto simp: srcAt_def list_all_length not_le split: if_splits)
  moreover have "concludes (srcAt e pos)" by (cases e) (auto simp: srcAt_def)
  ultimately show ?thesis by (auto simp: hasSource_iff intro!: concludes_bind agrees_concludes)
qed

lemma checkValidDest_concludes: "soundTx H (vs_tx vs) \<Longrightarrow> concludes (checkValidDest vs d)"
  using srcAt_concludes by (auto simp: checkValidDest_def soundTx_def soundEntry_def split: option.splits)

lemma checkValidSrc_calm:
  assumes "soundTx H (vs_tx vs)"
    and "\<And>ref e. src_Ref (the s) = Some ref \<Longrightarrow> tx_Entries (vs_tx vs) ref = Some e \<Longrightarrow> s \<noteq> None \<Longrightarrow> calm (rec (vs\<lparr>vs_entryID := ref\<rparr>) (Some e))"
  shows "calm (checkValidSrc rec vs s)"
  using assms destAt_concludes
  by (auto simp: checkValidSrc_def soundTx_def soundEntry_def intro!: calm_pure calm_bind split: option.splits)

lemma checkBalance_concludes:
  assumes "list_all hasSource (mux_Sources m)" and "list_all hasDestination (mux_WitnessDestinations m)"
  shows "concludes (checkBalance m)"
proof -
  have "concludes (addSource s p)" if "s \<in> set (mux_Sources m)" for s p
    using assms(1) that by (auto simp: list_all_iff hasSource_iff hasValue_iff addSource_def valueOf_def split: option.splits dest!: bspec)
  moreover have "concludes (subDestination d p)" if "d \<in> set (mux_WitnessDestinations m)" for d p
    using assms(2) that by (auto simp: list_all_iff hasDestination_iff hasValue_iff subDestination_def valueOf_def split: option.splits dest!: bspec)
  ultimately show ?thesis unfolding checkBalance_def by (intro concludes_bind concludes_fold concludes_simps)
qed

text \<open>The calls that the check of the entry \<open>e\<close> makes conclude.\<close>

definition calmCalls :: "Tx \<Rightarrow> 's checker \<Rightarrow> Entry \<Rightarrow> bool" where
  "calmCalls tx rec e \<longleftrightarrow> (\<forall>r vs. Some r \<in> set (references e) \<longrightarrow> vs_tx vs = tx \<longrightarrow> calm (rec vs (tx_Entries tx r)))"

lemma calmCallsD: "calmCalls tx rec e \<Longrightarrow> Some r \<in> set (references e) \<Longrightarrow> vs_tx vs = tx \<Longrightarrow> tx_Entries tx r = x \<Longrightarrow> calm (rec vs x)"
  by (auto simp: calmCalls_def)

lemma checkHeader_calm:
  assumes "soundEntry H tx (ETxHeader e)" and "calmCalls tx rec (ETxHeader e)" and "vs_tx vs = tx"
  shows "calm (checkHeader rec vs e)"
proof -
  have "calm (bindA (pureA (deref r)) (\<lambda>rid. rec (vs\<lparr>vs_entryID := rid\<rparr>) (tx_Entries (vs_tx vs) rid)))" if "r \<in> set (hdr_ResultIds e)" for r
    using assms that by (cases r) (auto simp: soundEntry_def intro!: calm_bind_pure calmCallsD [OF assms(2)])
  then have "calm (forA (\<lambda>r. bindA (pureA (deref r)) (\<lambda>rid. rec (vs\<lparr>vs_entryID := rid\<rparr>) (tx_Entries (vs_tx vs) rid))) (hdr_ResultIds e))"
    by (rule calm_for)
  then show ?thesis unfolding checkHeader_def by (auto intro!: calm_bind calm_pure concludes_bind)
qed

lemma source_calm:
  assumes "soundTx H tx" and "calmCalls tx rec e" and "vs_tx vs = tx" and "(case s of None \<Rightarrow> None | Some x \<Rightarrow> src_Ref x) \<in> set (references e)"
  shows "calm (checkValidSrc rec vs s)"
  using assms by (auto intro!: checkValidSrc_calm [of H] calmCallsD [OF assms(2)])

lemma checkMuxEntry_calm:
  assumes "prims_ok P" and "21250 < F" and "soundTx H tx" and "soundEntry H tx (EMux e)" and "calmCalls tx rec (EMux e)" and "vs_tx vs = tx"
  shows "calm (checkMuxEntry H P F rec vs e)"
proof -
  have parts: "list_all hasSource (mux_Sources e)" "list_all hasDestination (mux_WitnessDestinations e)" "mux_Program e \<noteq> None"
    "plainProgram (mux_Program e)" "list_all (\<lambda>a. length a \<le> 2 ^ 60) (mux_WitnessArguments e)"
    using assms(4) by (simp_all add: soundEntry_def)
  then have run: "concludes (runProgram H P F tx (EMux e) (mux_Program e) (mux_WitnessArguments e))"
    using runProgram_concludes [OF assms(1-4)] by auto
  have src: "calm (checkValidSrc rec (vs\<lparr>vs_sourcePos := i\<rparr>) s)" if "(i, s) \<in> set (indexed (mux_Sources e))" for i s
    using that assms(6) by (intro source_calm [OF assms(3,5)]) (auto simp: indexed_def dest: set_zip_rightD)
  have dst: "concludes (checkValidDest (vs\<lparr>vs_destPos := i\<rparr>) d)" for i d
    using assms(3,6) by (intro checkValidDest_concludes [of H]) simp
  show ?thesis unfolding checkMuxEntry_def assms(6)
    by (intro calm_bind calm_pure calm_for concludes_for run checkBalance_concludes [OF parts(1,2)] checkExt_concludes)
      (auto simp: src dst split: prod.split)
qed

lemma checkNonce_calm:
  assumes "prims_ok P" and "21250 < F" and "soundTx H tx" and "soundEntry H tx (ENonce e)" and "calmCalls tx rec (ENonce e)" and "vs_tx vs = tx"
  shows "calm (checkNonce H P F rec vs e)"
proof -
  obtain tr where tr: "nonce_TimeRangeId e = Some tr" using assms(4) by (auto simp: soundEntry_def)
  have run: "concludes (runProgram H P F tx (ENonce e) (nonce_Program e) (nonce_WitnessArguments e))"
    using runProgram_concludes [OF assms(1-4)] assms(4) by (auto simp: soundEntry_def)
  have rec: "calm (rec (vs\<lparr>vs_entryID := tr\<rparr>) (Some (ETimeRange x)))" if "fromLookup (txTimeRange tx tr) = Ok x" for x
    using that assms(6) tr by (intro calmCallsD [OF assms(5), of tr])
      (auto simp: fromLookup_def txTimeRange_def split: sum.splits option.splits Entry.splits)
  have "concludes (fromLookup r)" for r :: "tx_error + TimeRange" by (simp add: fromLookup_def split: sum.split)
  then show ?thesis unfolding checkNonce_def assms(6) tr deref_simps
    by (intro calm_bind_pure calm_bind calm_pure run checkExt_concludes concludes_simps) (auto intro: rec)
qed

lemma checkIssuance_calm:
  assumes "prims_ok P" and "21250 < F" and "soundTx H tx" and "soundEntry H tx (EIssuance e)" and "calmCalls tx rec (EIssuance e)" and "vs_tx vs = tx"
  shows "calm (checkIssuance H P F rec vs e)"
proof -
  obtain d ib p v a anchor where parts: "iss_WitnessAssetDefinition e = Some d" "def_InitialBlockId d = Some ib" "def_IssuanceProgram d = Some p"
    "iss_Value e = Some v" "amt_AssetId v = Some a" "iss_AnchorId e = Some anchor"
    using assms(4) by (auto simp: soundEntry_def hasValue_iff hasDefinition_def split: option.splits)
  have run: "concludes (runProgram H P F tx (EIssuance e) (def_IssuanceProgram d) (iss_WitnessArguments e))"
    using runProgram_concludes [OF assms(1-4)] assms(4) parts by (auto simp: soundEntry_def)
  have rec: "calm (rec (vs\<lparr>vs_entryID := anchor\<rparr>) (Some x))" if "tx_Entries tx anchor = Some x" for x
    using that assms(6) parts by (intro calmCallsD [OF assms(5), of anchor]) auto
  have named: "anchoredID x \<noteq> Ok None" if "tx_Entries tx anchor = Some x" for x
    using assms(4) that parts by (simp add: soundEntry_def)
  have anchored: "concludes (anchoredID x)" for x by (cases x) (simp_all add: anchoredID_def)
  have dst: "concludes (checkValidDest (vs\<lparr>vs_destPos := 0\<rparr>) (iss_WitnessDestination e))"
    using assms(3,6) by (intro checkValidDest_concludes [of H]) simp
  show ?thesis
  proof (cases "tx_Entries tx anchor")
    case None
    show ?thesis unfolding checkIssuance_def assms(6)
      by (simp add: parts valueOf_def bindA_pure_Ok None) (intro calm_bind_pure calm_pure concludes_simps)
  next
    case (Some x)
    have "concludes (deref i)" if "anchoredID x = Ok i" for i using that named [OF Some] by (cases i) auto
    then show ?thesis unfolding checkIssuance_def assms(6)
      by (simp add: parts valueOf_def bindA_pure_Ok Some)
        (intro calm_bind [of "rec _ _"] calm_bind_pure calm_pure concludes_simps run [unfolded parts] rec [OF Some] dst anchored checkExt_concludes)
  qed
qed

lemma checkSpend_concludes:
  assumes "prims_ok P" and "21250 < F" and "soundTx H tx" and "soundEntry H tx (ESpend e)" and "vs_tx vs = tx"
  shows "concludes (checkSpend H P F vs e)"
proof (cases "sp_SpentOutputId e")
  case (Some so)
  have dst: "concludes (checkValidDest (vs\<lparr>vs_destPos := 0\<rparr>) d)" for d
    using assms(3,5) by (intro checkValidDest_concludes [of H]) simp
  obtain dest where dest: "sp_WitnessDestination e = Some dest" using assms(4) by (auto simp: soundEntry_def hasDestination_iff)
  show ?thesis
  proof (cases "fromLookup (txOutput tx so)")
    case (Ok out)
    then have out: "tx_Entries tx so = Some (EOutput out)"
      by (auto simp: fromLookup_def txOutput_def split: sum.splits option.splits Entry.splits)
    then have "soundEntry H tx (EOutput out)" using assms(3) by (simp add: soundTx_def)
    then obtain p src where p: "out_ControlProgram out = Some p" "plainProgram (out_ControlProgram out)" "out_Source out = Some src"
      by (auto simp: soundEntry_def hasSource_iff)
    have "concludes (runProgram H P F tx (ESpend e) (out_ControlProgram out) (sp_WitnessArguments e))"
      using runProgram_concludes [OF assms(1-4) p(1,2)] assms(4) Some out by (auto simp: soundEntry_def)
    then show ?thesis unfolding checkSpend_def assms(5)
      by (auto simp: Some Ok p(3) dest intro!: concludes_bind dst checkExt_concludes split: option.splits)
  qed (simp_all add: checkSpend_def Some assms(5), simp_all add: fromLookup_def split: sum.splits)
qed (simp add: checkSpend_def)

lemma checkBody_calm:
  assumes "prims_ok P" and "21250 < F" and "soundTx H tx" and "soundEntry H tx e" and "calmCalls tx rec e" and "vs_tx vs = tx"
  shows "calm (checkBody H P F rec vs (Some e))"
proof -
  have src: "calm (bindA (checkValidSrc rec (vs\<lparr>vs_sourcePos := i\<rparr>) s) (\<lambda>_. pureA (checkExt vs x)))"
    if "(case s of None \<Rightarrow> None | Some x \<Rightarrow> src_Ref x) \<in> set (references e)" for i s x
    using that assms(6) by (intro calm_bind calm_pure checkExt_concludes source_calm [OF assms(3,5)]) simp_all
  show ?thesis
  proof (cases e)
    case (ETxHeader x)
    with checkHeader_calm [of H tx x] assms show ?thesis by (simp add: checkBody_def)
  next
    case (EMux x)
    with checkMuxEntry_calm [OF assms(1-3)] assms show ?thesis by (simp add: checkBody_def)
  next
    case (ENonce x)
    with checkNonce_calm [OF assms(1-3)] assms show ?thesis by (simp add: checkBody_def)
  next
    case (EOutput x)
    with src show ?thesis by (simp add: checkBody_def)
  next
    case (ERetirement x)
    with src show ?thesis by (simp add: checkBody_def)
  next
    case (EIssuance x)
    with checkIssuance_calm [OF assms(1-3)] assms show ?thesis by (simp add: checkBody_def)
  next
    case (ESpend x)
    with checkSpend_concludes [OF assms(1-3)] assms show ?thesis by (simp add: checkBody_def calm_pure)
  qed (auto simp: checkBody_def checkTimeRange_def intro!: calm_pure concludes_bind checkExt_concludes)
qed

lemma memo_calm:
  assumes "concludes (entryID H e :: (val_error, Hash) outcome)" and "calm body"
  shows "calm (memo H e body)"
proof -
  have "concludes (fst (body c))" for c using assms(2) by (simp add: calm_def)
  then show ?thesis unfolding memo_def
    by (intro calm_bind_pure assms(1)) (auto simp: calm_def split: option.splits prod.splits outcome.splits, (metis concludes_simps(3,4) fst_conv)+)
qed

lemma checkValid_calm:
  assumes "prims_ok P" and "21250 < F" and "soundTx H tx" and "ranked rk tx"
  shows "rk h < n \<Longrightarrow> vs_tx vs = tx \<Longrightarrow> calm (checkValid H P F n vs (tx_Entries tx h))"
proof (induction n arbitrary: h vs)
  case (Suc n)
  show ?case
  proof (cases "tx_Entries tx h")
    case None
    then show ?thesis by (auto simp: checkBody_def entryID_def intro!: memo_calm calm_pure)
  next
    case (Some e)
    have "soundEntry H tx e" using assms(3) Some by (simp add: soundTx_def)
    moreover have "calmCalls tx (checkValid H P F n) e"
      using Suc assms(4) Some by (fastforce simp: calmCalls_def ranked_def)
    ultimately show ?thesis using checkBody_calm [OF assms(1-3)] Suc.prems(2)
      by (auto simp: Some soundEntry_def intro!: memo_calm)
  qed
qed simp

section \<open>Properties\<close>

text \<open>
  C13. Validation returns a verdict: \<open>ValidateTx\<close> neither panics nor runs forever on a transaction without nil pointers whose entries can be
  hashed (amounts, versions and times below \<open>2 ^ 63\<close>, byte strings below \<open>2 ^ 31\<close>), whose programs are without the bytes of
  \<^verbatim>\<open>CHECKPREDICATE\<close>, \<^verbatim>\<open>CAT\<close> and \<^verbatim>\<open>CATPUSHDATA\<close> and of sizes that a slice can have, whose issuances are anchored by entries that name what they anchor,
  and whose references do not go round in a circle. The depth of the recursion is the length of the longest chain of references.
\<close>
theorem validate_tx_returns:
  assumes "prims_ok P" and "21250 < F" and "soundTx H tx" and "ranked rk tx"
    and "tx_Entries tx (tx_ID tx) = Some (ETxHeader (tx_TxHeader tx))" and "rk (tx_ID tx) < n"
  shows "ValidateTx H P F n tx b = Ok () \<or> (\<exists>e. ValidateTx H P F n tx b = Fail e)"
proof -
  have "concludes (ValidateTx H P F n tx b)"
    using checkValid_calm [OF assms(1-4,6)] by (auto simp: ValidateTx_def calm_def assms(5) [symmetric])
  then show ?thesis by (cases "ValidateTx H P F n tx b") auto
qed

definition retireRank :: "Hash \<Rightarrow> nat" where
  "retireRank h = (if h = idOf ''spend1'' then 0 else if h = idOf ''mux1'' then 1 else if h = idOf ''retirement1'' then 2 else 3)"

lemma retire_ranked: "ranked retireRank retireTx"
  using idOf_distinct
  by (auto simp: ranked_def retireRank_def retireTx_def retire_fields srcFrom_def split: if_splits)

lemma retire_sound: "soundTx lengthHash retireTx"
proof -
  have "soundEntry lengthHash retireTx e" if "e \<in> {ETxHeader retireHeader, ERetirement retireEntry, EMux retireMux, ESpend retireSpend, EOutput spentEntry}" for e
    using that by (auto simp: soundEntry_def retire_ids plainProgram_def plainCode_def hasSource_def hasDestination_def hasValue_def
      retire_fields srcFrom_def dstTo_def fiveUnits_def trueProgram_def)
  moreover have "e \<in> {ETxHeader retireHeader, ERetirement retireEntry, EMux retireMux, ESpend retireSpend, EOutput spentEntry}"
    if "tx_Entries retireTx h = Some e" for h e using that by (auto simp: retireTx_def split: if_splits)
  ultimately show ?thesis by (simp add: soundTx_def retire_entries)
qed

lemma validate_tx_returns_witness:
  "soundTx lengthHash retireTx \<and> ranked retireRank retireTx \<and>
   (ValidateTx lengthHash toyPrims 30000 4 retireTx zeroHash = Ok () \<or> (\<exists>e. ValidateTx lengthHash toyPrims 30000 4 retireTx zeroHash = Fail e))"
proof -
  have "retireRank (tx_ID retireTx) < 4" "(21250 :: nat) < 30000" by (simp_all add: retireRank_def)
  with validate_tx_returns [OF toyPrims_ok _ retire_sound retire_ranked, of 30000 4 zeroHash] show ?thesis
    using retire_sound retire_ranked by (simp add: retire_entries)
qed

end
