(* ===== verification/Legacy_Tx.thy ===== *)
theory Legacy_Tx
  imports BC_Entries
begin

text \<open>
  Transactions in the form in which they are exchanged and stored, \<^verbatim>\<open>protocol/bc/legacy\<close>: the structures of
  \<^verbatim>\<open>transaction.go\<close>, \<^verbatim>\<open>txinput.go\<close>, \<^verbatim>\<open>spend.go\<close>, \<^verbatim>\<open>issuance.go\<close>, \<^verbatim>\<open>txoutput.go\<close> and \<^verbatim>\<open>output_commitment.go\<close>, and their
  binary encoding. A writer is an action on the bytes written so far, so that what was written before an
  error is visible; the underlying writer does not fail. The elements of the slices of inputs and outputs
  are not nil.
\<close>

section \<open>Data\<close>

record SpendCommitment =
  sc_AssetAmount :: AssetAmount
  sc_SourceID :: Hash
  sc_SourcePosition :: uint64
  sc_VMVersion :: uint64
  sc_ControlProgram :: bytes
  sc_RefDataHash :: Hash

record SpendInput =
  si_SpendCommitment :: SpendCommitment
  si_SpendCommitmentSuffix :: bytes
  si_Arguments :: "bytes list"

record IssuanceWitness =
  iw_InitialBlock :: Hash
  iw_AssetDefinition :: bytes
  iw_VMVersion :: uint64
  iw_IssuanceProgram :: bytes
  iw_Arguments :: "bytes list"

record IssuanceInput =
  ii_Nonce :: bytes
  ii_Amount :: uint64
  ii_IssuanceWitness :: IssuanceWitness

datatype TypedInput = TIssuance IssuanceInput | TSpend SpendInput

record TxInput =
  in_AssetVersion :: uint64
  in_ReferenceData :: bytes
  in_TypedInput :: "TypedInput option"
  in_CommitmentSuffix :: bytes
  in_WitnessSuffix :: bytes

record OutputCommitment =
  oc_AssetAmount :: AssetAmount
  oc_VMVersion :: uint64
  oc_ControlProgram :: bytes

record TxOutput =
  to_AssetVersion :: uint64
  to_OutputCommitment :: OutputCommitment
  to_CommitmentSuffix :: bytes
  to_WitnessSuffix :: bytes
  to_ReferenceData :: bytes

record TxData =
  td_Version :: uint64
  td_Inputs :: "TxInput list"
  td_Outputs :: "TxOutput list"
  td_MinTime :: uint64
  td_MaxTime :: uint64
  td_CommonFieldsSuffix :: bytes
  td_CommonWitnessSuffix :: bytes
  td_ReferenceData :: bytes

section \<open>Assets of issuances\<close>

definition AssetDefinitionHash :: "(bytes \<Rightarrow> bytes) \<Rightarrow> IssuanceInput \<Rightarrow> Hash" where
  "AssetDefinitionHash H ii = NewHash (H (iw_AssetDefinition (ii_IssuanceWitness ii)))"

definition issuanceAssetID :: "(bytes \<Rightarrow> bytes) \<Rightarrow> IssuanceInput \<Rightarrow> AssetID" where
  "issuanceAssetID H ii = (let w = ii_IssuanceWitness ii in ComputeAssetID H \<lparr>def_InitialBlockId = Some (iw_InitialBlock w),
     def_IssuanceProgram = Some \<lparr>prog_VmVersion = iw_VMVersion w, prog_Code = iw_IssuanceProgram w\<rparr>,
     def_Data = Some (AssetDefinitionHash H ii)\<rparr>)"

section \<open>Reading\<close>

definition returnR :: "'a \<Rightarrow> 'a reader" where
  "returnR a buf = (Inr a, buf)"

definition failR :: "string \<Rightarrow> 'a reader" where
  "failR msg buf = (Inl (ErrConsumer msg), buf)"

text \<open>\<^verbatim>\<open>io.ReadFull\<close>\<close>

definition ReadFull :: "nat \<Rightarrow> bytes reader" where
  "ReadFull n buf = (if n \<le> length buf then (Inr (take n buf), drop n buf)
     else (Inl (if buf = [] then EOF else ErrUnexpectedEOF), []))"

definition HashReadFrom :: "Hash reader" where
  "HashReadFrom = bindR (ReadFull 32) (\<lambda>b. returnR (NewHash b))"

definition AssetAmountReadFrom :: "AssetAmount reader" where
  "AssetAmountReadFrom = bindR HashReadFrom (\<lambda>a. bindR ReadVarint63 (\<lambda>n. returnR \<lparr>amt_AssetId = Some a, amt_Amount = n\<rparr>))"

definition zeroAmount :: AssetAmount where
  "zeroAmount = \<lparr>amt_AssetId = None, amt_Amount = 0\<rparr>"

definition SpendCommitmentReadFrom :: "uint64 \<Rightarrow> (SpendCommitment \<times> bytes) reader" where
  "SpendCommitmentReadFrom assetVersion = ReadExtensibleString (
     if assetVersion = 1 then
       bindR HashReadFrom (\<lambda>src. bindR AssetAmountReadFrom (\<lambda>aa. bindR ReadVarint63 (\<lambda>pos. bindR ReadVarint63 (\<lambda>vmv.
       if vmv \<noteq> 1 then failR ''unrecognized VM version''
       else bindR ReadVarstr31 (\<lambda>prog. bindR HashReadFrom (\<lambda>ref.
         returnR \<lparr>sc_AssetAmount = aa, sc_SourceID = src, sc_SourcePosition = pos, sc_VMVersion = vmv,
           sc_ControlProgram = prog, sc_RefDataHash = ref\<rparr>))))))
     else returnR \<lparr>sc_AssetAmount = zeroAmount, sc_SourceID = zeroHash, sc_SourcePosition = 0, sc_VMVersion = 0,
       sc_ControlProgram = [], sc_RefDataHash = zeroHash\<rparr>)"

definition OutputCommitmentReadFrom :: "uint64 \<Rightarrow> (OutputCommitment \<times> bytes) reader" where
  "OutputCommitmentReadFrom assetVersion = ReadExtensibleString (
     if assetVersion = 1 then
       bindR AssetAmountReadFrom (\<lambda>aa. bindR ReadVarint63 (\<lambda>vmv.
       if vmv \<noteq> 1 then failR ''unrecognized VM version''
       else bindR ReadVarstr31 (\<lambda>prog. returnR \<lparr>oc_AssetAmount = aa, oc_VMVersion = vmv, oc_ControlProgram = prog\<rparr>)))
     else returnR \<lparr>oc_AssetAmount = zeroAmount, oc_VMVersion = 0, oc_ControlProgram = []\<rparr>)"

definition TxOutputReadFrom :: "TxOutput reader" where
  "TxOutputReadFrom = bindR ReadVarint63 (\<lambda>ver. bindR (OutputCommitmentReadFrom ver) (\<lambda>(oc, suffix). bindR ReadVarstr31 (\<lambda>ref.
     bindR ReadVarstr31 (\<lambda>_. returnR \<lparr>to_AssetVersion = ver, to_OutputCommitment = oc, to_CommitmentSuffix = suffix,
       to_WitnessSuffix = [], to_ReferenceData = ref\<rparr>))))"

text \<open>
  What is known of an input after its commitment has been read: for an issuance the asset ID as well, to be compared
  with the one computed from the witness.
\<close>

datatype inputCommitment = noCommitment | issuanceCommitment bytes AssetID uint64 | spendCommitment SpendCommitment bytes

definition readInputCommitment :: "uint64 \<Rightarrow> inputCommitment reader" where
  "readInputCommitment assetVersion = (if assetVersion \<noteq> 1 then returnR noCommitment
     else bindR (ReadFull 1) (\<lambda>icType.
       if icType = [0] then bindR ReadVarstr31 (\<lambda>nonce. bindR HashReadFrom (\<lambda>assetID. bindR ReadVarint63 (\<lambda>amount.
         returnR (issuanceCommitment nonce assetID amount))))
       else if icType = [1] then bindR (SpendCommitmentReadFrom 1) (\<lambda>(sc, suffix). returnR (spendCommitment sc suffix))
       else failR ''unsupported input type''))"

definition readInputWitness :: "(bytes \<Rightarrow> bytes) \<Rightarrow> uint64 \<Rightarrow> inputCommitment \<Rightarrow> TypedInput option reader" where
  "readInputWitness H assetVersion c = (if assetVersion \<noteq> 1 then returnR None else (case c of
       noCommitment \<Rightarrow> bindR ReadVarstrList (\<lambda>args. returnR None)
     | spendCommitment sc suffix \<Rightarrow> bindR ReadVarstrList (\<lambda>args.
         returnR (Some (TSpend \<lparr>si_SpendCommitment = sc, si_SpendCommitmentSuffix = suffix, si_Arguments = args\<rparr>)))
     | issuanceCommitment nonce assetID amount \<Rightarrow>
         bindR HashReadFrom (\<lambda>ib. bindR ReadVarstr31 (\<lambda>adef. bindR ReadVarint63 (\<lambda>vmv. bindR ReadVarstr31 (\<lambda>prog.
         let ii = \<lparr>ii_Nonce = nonce, ii_Amount = amount, ii_IssuanceWitness = \<lparr>iw_InitialBlock = ib, iw_AssetDefinition = adef,
           iw_VMVersion = vmv, iw_IssuanceProgram = prog, iw_Arguments = []\<rparr>\<rparr>
         in if issuanceAssetID H ii \<noteq> assetID then failR ''asset ID does not match other issuance parameters''
            else bindR ReadVarstrList (\<lambda>args. returnR (Some (TIssuance (ii\<lparr>ii_IssuanceWitness :=
              (ii_IssuanceWitness ii)\<lparr>iw_Arguments := args\<rparr>\<rparr>))))))))))"

definition TxInputReadFrom :: "(bytes \<Rightarrow> bytes) \<Rightarrow> TxInput reader" where
  "TxInputReadFrom H = bindR ReadVarint63 (\<lambda>ver. bindR (ReadExtensibleString (readInputCommitment ver)) (\<lambda>(c, csuffix).
     bindR ReadVarstr31 (\<lambda>ref. bindR (ReadExtensibleString (readInputWitness H ver c)) (\<lambda>(ti, wsuffix).
       returnR \<lparr>in_AssetVersion = ver, in_ReferenceData = ref, in_TypedInput = ti, in_CommitmentSuffix = csuffix,
         in_WitnessSuffix = wsuffix\<rparr>))))"

primrec readTimes :: "nat \<Rightarrow> 'a reader \<Rightarrow> 'a list reader" where
  "readTimes 0 f = returnR []"
| "readTimes (Suc n) f = bindR f (\<lambda>x. bindR (readTimes n f) (\<lambda>xs. returnR (x # xs)))"

definition serRequired :: byte where
  "serRequired = 7"

definition TxDataReadFrom :: "(bytes \<Rightarrow> bytes) \<Rightarrow> TxData reader" where
  "TxDataReadFrom H = bindR (ReadFull 1) (\<lambda>serflags.
     if serflags \<noteq> [serRequired] then failR ''unsupported serflags''
     else bindR ReadVarint63 (\<lambda>ver.
       bindR (ReadExtensibleString (bindR ReadVarint63 (\<lambda>mn. bindR ReadVarint63 (\<lambda>mx. returnR (mn, mx))))) (\<lambda>((mn, mx), fsuffix).
       bindR (ReadExtensibleString (returnR ())) (\<lambda>(_, wsuffix).
       bindR ReadVarint31 (\<lambda>n. bindR (readTimes (unat n) (TxInputReadFrom H)) (\<lambda>ins.
       bindR ReadVarint31 (\<lambda>n. bindR (readTimes (unat n) TxOutputReadFrom) (\<lambda>outs.
       bindR ReadVarstr31 (\<lambda>ref.
         returnR \<lparr>td_Version = ver, td_Inputs = ins, td_Outputs = outs, td_MinTime = mn, td_MaxTime = mx,
           td_CommonFieldsSuffix = fsuffix, td_CommonWitnessSuffix = wsuffix, td_ReferenceData = ref\<rparr>)))))))))"

section \<open>Writing\<close>

type_synonym writer = "(bytes, enc_error, unit) action"

definition put :: "bytes \<Rightarrow> writer" where
  "put b out = (Ok (), out @ b)"

definition liftW :: "enc_error + bytes \<Rightarrow> writer" where
  "liftW r out = (case r of Inl e \<Rightarrow> (Fail e, out) | Inr b \<Rightarrow> (Ok (), out @ b))"

definition doneW :: writer where
  "doneW out = (Ok (), out)"

text \<open>\<^verbatim>\<open>WriteExtensibleString\<close> with a function that writes to a buffer of its own.\<close>

definition writeExt :: "bytes \<Rightarrow> writer \<Rightarrow> writer" where
  "writeExt suffix f out = (case f [] of
       (Ok _, body) \<Rightarrow> liftW (WriteExtensibleString suffix (Inr body)) out
     | (Fail e, _) \<Rightarrow> (Fail e, out) | (Crash, _) \<Rightarrow> (Crash, out) | (Diverge, _) \<Rightarrow> (Diverge, out))"

definition HashWriteTo :: "Hash \<Rightarrow> writer" where
  "HashWriteTo h = put (Byte32 h)"

text \<open>A nil asset ID is dereferenced.\<close>

definition AssetAmountWriteTo :: "AssetAmount \<Rightarrow> writer" where
  "AssetAmountWriteTo a = (case amt_AssetId a of None \<Rightarrow> (\<lambda>out. (Crash, out))
     | Some i \<Rightarrow> bindA (HashWriteTo i) (\<lambda>_. liftW (WriteVarint63 (amt_Amount a))))"

definition writeSuffix :: "bytes \<Rightarrow> writer" where
  "writeSuffix suffix = (if suffix \<noteq> [] then put suffix else doneW)"

definition SpendCommitmentWriteContents :: "SpendCommitment \<Rightarrow> bytes \<Rightarrow> uint64 \<Rightarrow> writer" where
  "SpendCommitmentWriteContents sc suffix assetVersion =
     bindA (if assetVersion = 1 then
         bindA (HashWriteTo (sc_SourceID sc)) (\<lambda>_. bindA (AssetAmountWriteTo (sc_AssetAmount sc)) (\<lambda>_.
         bindA (liftW (WriteVarint63 (sc_SourcePosition sc))) (\<lambda>_. bindA (liftW (WriteVarint63 (sc_VMVersion sc))) (\<lambda>_.
         bindA (liftW (WriteVarstr31 (sc_ControlProgram sc))) (\<lambda>_. HashWriteTo (sc_RefDataHash sc))))))
       else doneW) (\<lambda>_. writeSuffix suffix)"

definition SpendCommitmentWrite :: "SpendCommitment \<Rightarrow> bytes \<Rightarrow> uint64 \<Rightarrow> writer" where
  "SpendCommitmentWrite sc suffix assetVersion = writeExt suffix (SpendCommitmentWriteContents sc suffix assetVersion)"

definition SpendCommitmentHash :: "(bytes \<Rightarrow> bytes) \<Rightarrow> SpendCommitment \<Rightarrow> bytes \<Rightarrow> uint64 \<Rightarrow> (enc_error, Hash) outcome" where
  "SpendCommitmentHash H sc suffix assetVersion =
     (case SpendCommitmentWrite sc suffix assetVersion [] of (Crash, _) \<Rightarrow> Crash | (_, out) \<Rightarrow> Ok (NewHash (H out)))"

definition OutputCommitmentWriteContents :: "OutputCommitment \<Rightarrow> bytes \<Rightarrow> uint64 \<Rightarrow> writer" where
  "OutputCommitmentWriteContents oc suffix assetVersion =
     bindA (if assetVersion = 1 then
         bindA (AssetAmountWriteTo (oc_AssetAmount oc)) (\<lambda>_. bindA (liftW (WriteVarint63 (oc_VMVersion oc))) (\<lambda>_.
         liftW (WriteVarstr31 (oc_ControlProgram oc))))
       else doneW) (\<lambda>_. writeSuffix suffix)"

definition WriteCommitment :: "TxOutput \<Rightarrow> writer" where
  "WriteCommitment to = writeExt (to_CommitmentSuffix to)
     (OutputCommitmentWriteContents (to_OutputCommitment to) (to_CommitmentSuffix to) (to_AssetVersion to))"

definition writeFastHash :: "(bytes \<Rightarrow> bytes) \<Rightarrow> bytes \<Rightarrow> writer" where
  "writeFastHash H d = liftW (WriteVarstr31 (if d = [] then [] else H d))"

definition writeRefData :: "(bytes \<Rightarrow> bytes) \<Rightarrow> bytes \<Rightarrow> byte \<Rightarrow> writer" where
  "writeRefData H d serflags = (if serflags AND 4 \<noteq> 0 then liftW (WriteVarstr31 d) else writeFastHash H d)"

definition TxOutputWriteTo :: "(bytes \<Rightarrow> bytes) \<Rightarrow> TxOutput \<Rightarrow> byte \<Rightarrow> writer" where
  "TxOutputWriteTo H to serflags = bindA (liftW (WriteVarint63 (to_AssetVersion to))) (\<lambda>_. bindA (WriteCommitment to) (\<lambda>_.
     bindA (writeRefData H (to_ReferenceData to) serflags) (\<lambda>_. liftW (WriteVarstr31 []))))"

definition WriteInputCommitment :: "(bytes \<Rightarrow> bytes) \<Rightarrow> TxInput \<Rightarrow> byte \<Rightarrow> writer" where
  "WriteInputCommitment H t serflags = (if in_AssetVersion t \<noteq> 1 then doneW else (case in_TypedInput t of
       None \<Rightarrow> doneW
     | Some (TIssuance inp) \<Rightarrow> bindA (put [0]) (\<lambda>_. bindA (liftW (WriteVarstr31 (ii_Nonce inp))) (\<lambda>_.
         bindA (HashWriteTo (issuanceAssetID H inp)) (\<lambda>_. liftW (WriteVarint63 (ii_Amount inp)))))
     | Some (TSpend inp) \<Rightarrow> bindA (put [1]) (\<lambda>_.
         if serflags AND 2 \<noteq> 0 then SpendCommitmentWrite (si_SpendCommitment inp) (si_SpendCommitmentSuffix inp) (in_AssetVersion t)
         else (case SpendCommitmentHash H (si_SpendCommitment inp) (si_SpendCommitmentSuffix inp) (in_AssetVersion t) of
             Ok h \<Rightarrow> HashWriteTo h | Fail e \<Rightarrow> (\<lambda>out. (Fail e, out)) | Crash \<Rightarrow> (\<lambda>out. (Crash, out)) | Diverge \<Rightarrow> (\<lambda>out. (Diverge, out))))))"

definition writeInputWitness :: "TxInput \<Rightarrow> writer" where
  "writeInputWitness t = (if in_AssetVersion t \<noteq> 1 then doneW else (case in_TypedInput t of
       None \<Rightarrow> doneW
     | Some (TIssuance inp) \<Rightarrow> (let w = ii_IssuanceWitness inp in
         bindA (HashWriteTo (iw_InitialBlock w)) (\<lambda>_. bindA (liftW (WriteVarstr31 (iw_AssetDefinition w))) (\<lambda>_.
         bindA (liftW (WriteVarint63 (iw_VMVersion w))) (\<lambda>_. bindA (liftW (WriteVarstr31 (iw_IssuanceProgram w))) (\<lambda>_.
         liftW (WriteVarstrList (iw_Arguments w)))))))
     | Some (TSpend inp) \<Rightarrow> liftW (WriteVarstrList (si_Arguments inp))))"

definition TxInputWriteTo :: "(bytes \<Rightarrow> bytes) \<Rightarrow> TxInput \<Rightarrow> byte \<Rightarrow> writer" where
  "TxInputWriteTo H t serflags = bindA (liftW (WriteVarint63 (in_AssetVersion t))) (\<lambda>_.
     bindA (writeExt (in_CommitmentSuffix t) (WriteInputCommitment H t serflags)) (\<lambda>_.
     bindA (liftW (WriteVarstr31 (in_ReferenceData t))) (\<lambda>_.
     if serflags AND 1 \<noteq> 0 then writeExt (in_WitnessSuffix t) (writeInputWitness t) else doneW)))"

definition TxDataWriteAll :: "(bytes \<Rightarrow> bytes) \<Rightarrow> TxData \<Rightarrow> byte \<Rightarrow> writer" where
  "TxDataWriteAll H tx serflags = bindA (put [serflags]) (\<lambda>_. bindA (liftW (WriteVarint63 (td_Version tx))) (\<lambda>_.
     bindA (writeExt (td_CommonFieldsSuffix tx) (bindA (liftW (WriteVarint63 (td_MinTime tx))) (\<lambda>_. liftW (WriteVarint63 (td_MaxTime tx))))) (\<lambda>_.
     bindA (writeExt (td_CommonWitnessSuffix tx) doneW) (\<lambda>_.
     bindA (liftW (WriteVarint31 (word_of_nat (length (td_Inputs tx))))) (\<lambda>_.
     bindA (forA (\<lambda>ti. TxInputWriteTo H ti serflags) (td_Inputs tx)) (\<lambda>_.
     bindA (liftW (WriteVarint31 (word_of_nat (length (td_Outputs tx))))) (\<lambda>_.
     bindA (forA (\<lambda>to. TxOutputWriteTo H to serflags) (td_Outputs tx)) (\<lambda>_.
     writeRefData H (td_ReferenceData tx) serflags))))))))"

text \<open>
  The exported \<^verbatim>\<open>WriteTo\<close> reports the error of the underlying writer, which does not fail, and not that of the encoding.
\<close>

definition TxDataWriteTo :: "(bytes \<Rightarrow> bytes) \<Rightarrow> TxData \<Rightarrow> ('e, bytes) outcome" where
  "TxDataWriteTo H tx = (case TxDataWriteAll H tx serRequired [] of
     (Crash, _) \<Rightarrow> Crash | (Diverge, _) \<Rightarrow> Diverge | (_, out) \<Rightarrow> Ok out)"

section \<open>Reading back\<close>

text \<open>
  What the writer \<open>w\<close> appends, the reader \<open>r\<close> reads as \<open>a\<close>, whatever follows. Strings of \<open>2 ^ 64\<close> bytes do not exist.
\<close>

definition reads :: "writer \<Rightarrow> 'a reader \<Rightarrow> 'a \<Rightarrow> bool" where
  "reads w r a \<longleftrightarrow> (\<forall>out out'. w out = (Ok (), out') \<longrightarrow>
     (\<exists>b. out' = out @ b \<and> (length b < 2 ^ 64 \<longrightarrow> (\<forall>rest. r (b @ rest) = (Inr a, rest)))))"

lemma readsD: "reads w r a \<Longrightarrow> w out = (Ok (), out') \<Longrightarrow>
    \<exists>b. out' = out @ b \<and> (length b < 2 ^ 64 \<longrightarrow> (\<forall>rest. r (b @ rest) = (Inr a, rest)))"
  by (simp add: reads_def)

lemma reads_return: "reads doneW (returnR a) a"
  by (simp add: reads_def doneW_def returnR_def)

lemma reads_bind:
  assumes "reads w r a" and "reads w' (f a) c"
  shows "reads (bindA w (\<lambda>_. w')) (bindR r f) c"
  unfolding reads_def
proof (intro allI impI)
  fix out out' assume "bindA w (\<lambda>_. w') out = (Ok (), out')"
  then obtain m where m: "w out = (Ok (), m)" "w' m = (Ok (), out')" by (auto simp: bindA_Ok_iff)
  obtain b1 where b1: "m = out @ b1" "length b1 < 2 ^ 64 \<Longrightarrow> r (b1 @ rest) = (Inr a, rest)" for rest
    using readsD [OF assms(1) m(1)] by blast
  obtain b2 where b2: "out' = m @ b2" "length b2 < 2 ^ 64 \<Longrightarrow> f a (b2 @ rest) = (Inr c, rest)" for rest
    using readsD [OF assms(2) m(2)] by blast
  show "\<exists>b. out' = out @ b \<and> (length b < 2 ^ 64 \<longrightarrow> (\<forall>rest. bindR r f (b @ rest) = (Inr c, rest)))"
    using b1 b2 by (intro exI [of _ "b1 @ b2"]) (simp add: bindR_def)
qed

lemma reads_then: "reads w r a \<Longrightarrow> reads w (bindR r (\<lambda>x. returnR (g x))) (g a)"
  unfolding reads_def bindR_def returnR_def by fastforce

lemma reads_then_pair: "reads w r (a, s) \<Longrightarrow> reads w (bindR r (\<lambda>(x, y). returnR (g x y))) (g a s)"
  using reads_then [of w r "(a, s)" "\<lambda>(x, y). g x y"] by (simp add: case_prod_beta')

lemma reads_varint63: "reads (liftW (WriteVarint63 v)) ReadVarint63 v"
  by (auto simp: reads_def liftW_def ReadVarint63_Write split: sum.splits)

lemma reads_varstr: "reads (liftW (WriteVarstr31 s)) ReadVarstr31 s"
proof -
  have "length s \<le> length out" if "WriteVarstr31 s = Inr out" for out
    using that by (auto simp: WriteVarstr31_def bindW_def split: sum.splits)
  then show ?thesis by (auto simp: reads_def liftW_def split: sum.splits intro!: ReadVarstr31_Write)
qed

lemma PutUvarint_nonempty: "PutUvarint n \<noteq> []"
  by (subst PutUvarint.simps) simp

lemma writeVarstrs_lengths:
  "writeVarstrs l = Inr out \<Longrightarrow> length l \<le> length out \<and> (\<forall>s \<in> set l. length s \<le> length out)"
proof (induction l arbitrary: out)
  case (Cons s l)
  then obtain o1 o2 where o: "WriteVarstr31 s = Inr o1" "writeVarstrs l = Inr o2" "out = o1 @ o2" by (auto simp: bindW_def split: sum.splits)
  moreover have "length s < length o1" using o(1) PutUvarint_nonempty
    by (auto simp: WriteVarstr31_def bindW_def WriteVarint31_def split: sum.splits if_splits)
  ultimately show ?case using Cons.IH [OF o(2)] by fastforce
qed simp

lemma reads_varstrs: "reads (liftW (WriteVarstrList l)) ReadVarstrList l"
proof -
  have "length l \<le> length out \<and> (\<forall>s \<in> set l. length s \<le> length out)" if "WriteVarstrList l = Inr out" for out
    using that writeVarstrs_lengths by (fastforce simp: WriteVarstrList_def bindW_def split: sum.splits)
  then show ?thesis unfolding reads_def liftW_def
    by (auto split: sum.splits intro!: ReadVarstrList_Write) (meson le_less_trans)+
qed

lemma reads_byte: "reads (put [b]) (ReadFull 1) [b]"
  by (simp add: reads_def put_def ReadFull_def)

lemma reads_hash: "reads (HashWriteTo h) HashReadFrom h"
  by (simp add: reads_def HashWriteTo_def put_def HashReadFrom_def bindR_def ReadFull_def returnR_def)

lemma writeExt_Ok:
  "writeExt suffix f out = (Ok (), out') \<longleftrightarrow>
    (\<exists>body b. f [] = (Ok (), body) \<and> WriteVarstr31 (body @ suffix) = Inr b \<and> out' = out @ b)"
  by (auto simp: writeExt_def liftW_def WriteExtensibleString_def split: prod.splits outcome.splits sum.splits)

lemma reads_ext:
  assumes "reads w r a"
  shows "reads (writeExt suffix w) (ReadExtensibleString r) (a, suffix)"
  unfolding reads_def
proof (intro allI impI)
  fix out out' assume "writeExt suffix w out = (Ok (), out')"
  then obtain body b where b: "w [] = (Ok (), body)" "WriteVarstr31 (body @ suffix) = Inr b" "out' = out @ b"
    by (auto simp: writeExt_Ok)
  have "length (body @ suffix) \<le> length b" using b(2) by (auto simp: WriteVarstr31_def bindW_def split: sum.splits)
  then show "\<exists>b. out' = out @ b \<and> (length b < 2 ^ 64 \<longrightarrow> (\<forall>rest. ReadExtensibleString r (b @ rest) = (Inr (a, suffix), rest)))"
    using b readsD [OF assms b(1)] by (intro exI [of _ b]) (auto intro!: ReadExtensibleString_Write simp: WriteExtensibleString_def)
qed

text \<open>The commitments write their suffix twice.\<close>

lemma reads_ext_twice:
  assumes "reads w r a"
  shows "reads (writeExt suffix (bindA w (\<lambda>_. writeSuffix suffix))) (ReadExtensibleString r) (a, suffix @ suffix)"
proof -
  have "writeExt suffix (bindA w (\<lambda>_. writeSuffix suffix)) out = writeExt (suffix @ suffix) w out" for out
    by (simp add: writeExt_def bindA_def writeSuffix_def put_def doneW_def WriteExtensibleString_def split: prod.split outcome.split)
  then show ?thesis using reads_ext [OF assms, of "suffix @ suffix"] by (simp add: reads_def)
qed

lemma reads_times:
  "(\<And>x. x \<in> set xs \<Longrightarrow> reads (f x) r (g x)) \<Longrightarrow> reads (forA f xs) (readTimes (length xs) r) (map g xs)"
proof (induction xs)
  case Nil
  show ?case using reads_return [of "[]"] by (simp add: doneW_def [abs_def])
next
  case (Cons x xs)
  then show ?case by (auto intro!: reads_bind [where a = "g x"] reads_then)
qed

text \<open>A writer that writes at least one byte.\<close>

definition grows :: "writer \<Rightarrow> bool" where
  "grows w \<longleftrightarrow> (\<forall>out out'. w out = (Ok (), out') \<longrightarrow> length out < length out')"

lemma forA_grows: "(\<And>x. x \<in> set xs \<Longrightarrow> grows (f x)) \<Longrightarrow> forA f xs out = (Ok (), out') \<Longrightarrow> length out + length xs \<le> length out'"
proof (induction xs arbitrary: out)
  case (Cons x xs)
  then obtain m where m: "f x out = (Ok (), m)" "forA f xs m = (Ok (), out')" by (auto simp: bindA_Ok_iff)
  have "length out < length m" using Cons.prems(1) [of x] m(1) by (simp add: grows_def)
  moreover have "length m + length xs \<le> length out'" using Cons.IH [OF _ m(2)] Cons.prems(1) by simp
  ultimately show ?case by simp
qed simp

lemma reads_counted:
  assumes "\<And>x. x \<in> set xs \<Longrightarrow> reads (f x) r (g x)" and "\<And>x. x \<in> set xs \<Longrightarrow> grows (f x)" and "reads w (k (map g xs)) c"
  shows "reads (bindA (liftW (WriteVarint31 (word_of_nat (length xs)))) (\<lambda>_. bindA (forA f xs) (\<lambda>_. w)))
    (bindR ReadVarint31 (\<lambda>n. bindR (readTimes (unat n) r) k)) c"
  unfolding reads_def
proof (intro allI impI)
  fix out out' assume "bindA (liftW (WriteVarint31 (word_of_nat (length xs)))) (\<lambda>_. bindA (forA f xs) (\<lambda>_. w)) out = (Ok (), out')"
  then obtain h m where h: "WriteVarint31 (word_of_nat (length xs)) = Inr h" "forA f xs (out @ h) = (Ok (), m)" "w m = (Ok (), out')"
    by (auto simp: bindA_Ok_iff liftW_def split: sum.splits)
  note rd = ReadVarint31_Write [OF h(1)]
  obtain b where b: "m = (out @ h) @ b" "length b < 2 ^ 64 \<Longrightarrow> readTimes (length xs) r (b @ rest) = (Inr (map g xs), rest)" for rest
    using readsD [OF reads_times [OF assms(1)] h(2)] by blast
  obtain d where d: "out' = m @ d" "length d < 2 ^ 64 \<Longrightarrow> k (map g xs) (d @ rest) = (Inr c, rest)" for rest
    using readsD [OF assms(3) h(3)] by blast
  have "length xs \<le> length b" using forA_grows [OF assms(2) h(2)] b(1) by simp
  have "bindR ReadVarint31 (\<lambda>n. bindR (readTimes (unat n) r) k) ((h @ b @ d) @ rest) = (Inr c, rest)" if "length (h @ b @ d) < 2 ^ 64" for rest
  proof -
    have "length xs < 2 ^ 64" using that \<open>length xs \<le> length b\<close> by simp
    then have "unat (word_of_nat (length xs) :: uint64) = length xs" by (subst unat_of_nat) simp
    then have "unat (ucast (word_of_nat (length xs) :: uint64) :: uint32) = length xs" using rd(2) unat_ucast_small by metis
    then show ?thesis using rd(1) [of "b @ d @ rest"] b(2) d(2) that by (simp add: bindR_def)
  qed
  then show "\<exists>b. out' = out @ b \<and> (length b < 2 ^ 64 \<longrightarrow> (\<forall>rest. bindR ReadVarint31 (\<lambda>n. bindR (readTimes (unat n) r) k) (b @ rest) = (Inr c, rest)))"
    using b(1) d(1) by (intro exI [of _ "h @ b @ d"]) simp
qed

text \<open>What comes back when a transaction is written and read again.\<close>

definition echoInput :: "TxInput \<Rightarrow> TxInput" where
  "echoInput t = t\<lparr>in_TypedInput := (if in_AssetVersion t \<noteq> 1 then None else (case in_TypedInput t of
     Some (TSpend s) \<Rightarrow> Some (TSpend (s\<lparr>si_SpendCommitmentSuffix := si_SpendCommitmentSuffix s @ si_SpendCommitmentSuffix s\<rparr>))
   | ti \<Rightarrow> ti))\<rparr>"

definition echoOutput :: "TxOutput \<Rightarrow> TxOutput" where
  "echoOutput t = t\<lparr>to_CommitmentSuffix := to_CommitmentSuffix t @ to_CommitmentSuffix t, to_WitnessSuffix := [],
     to_OutputCommitment := (if to_AssetVersion t = 1 then to_OutputCommitment t
       else \<lparr>oc_AssetAmount = zeroAmount, oc_VMVersion = 0, oc_ControlProgram = []\<rparr>)\<rparr>"

definition echo :: "TxData \<Rightarrow> TxData" where
  "echo tx = tx\<lparr>td_Inputs := map echoInput (td_Inputs tx), td_Outputs := map echoOutput (td_Outputs tx)\<rparr>"

text \<open>Inputs and outputs of asset version 1 have a type, and programs for version 1 of the virtual machine.\<close>

definition readableInput :: "TxInput \<Rightarrow> bool" where
  "readableInput t \<longleftrightarrow> in_AssetVersion t = 1 \<longrightarrow> (case in_TypedInput t of None \<Rightarrow> False | Some (TIssuance _) \<Rightarrow> True
     | Some (TSpend s) \<Rightarrow> sc_VMVersion (si_SpendCommitment s) = 1)"

definition readable :: "TxData \<Rightarrow> bool" where
  "readable tx \<longleftrightarrow> list_all readableInput (td_Inputs tx) \<and>
     list_all (\<lambda>t. to_AssetVersion t = 1 \<longrightarrow> oc_VMVersion (to_OutputCommitment t) = 1) (td_Outputs tx)"

lemma reads_eq: "reads w r a \<Longrightarrow> a = b \<Longrightarrow> reads w r b"
  by simp

lemma reads_amount: "reads (AssetAmountWriteTo a) AssetAmountReadFrom a"
proof (cases "amt_AssetId a")
  case None
  then show ?thesis by (simp add: reads_def AssetAmountWriteTo_def)
next
  case (Some i)
  then show ?thesis unfolding AssetAmountReadFrom_def AssetAmountWriteTo_def
    by (simp, intro reads_bind [OF reads_hash] reads_eq [OF reads_then [OF reads_varint63]] AssetAmount.equality) simp_all
qed

lemma reads_vm_version:
  "v = 1 \<Longrightarrow> reads w (f v) a \<Longrightarrow>
    reads (bindA (liftW (WriteVarint63 v)) (\<lambda>_. w)) (bindR ReadVarint63 (\<lambda>vmv. if vmv \<noteq> 1 then failR msg else f vmv)) a"
  by (rule reads_bind [OF reads_varint63]) simp

lemma reads_output_commitment:
  assumes "v = 1 \<longrightarrow> oc_VMVersion oc = 1"
  shows "reads (writeExt suffix (OutputCommitmentWriteContents oc suffix v)) (OutputCommitmentReadFrom v)
    (if v = 1 then oc else \<lparr>oc_AssetAmount = zeroAmount, oc_VMVersion = 0, oc_ControlProgram = []\<rparr>, suffix @ suffix)"
proof (cases "v = 1")
  case True
  with assms show ?thesis unfolding OutputCommitmentWriteContents_def OutputCommitmentReadFrom_def if_P [OF True]
    by (intro reads_ext_twice reads_bind [OF reads_amount] reads_vm_version reads_eq [OF reads_then [OF reads_varstr]]
        OutputCommitment.equality) simp_all
next
  case False
  show ?thesis unfolding OutputCommitmentWriteContents_def OutputCommitmentReadFrom_def if_not_P [OF False]
    by (intro reads_ext_twice reads_return)
qed

lemma reads_spend_commitment:
  assumes "sc_VMVersion sc = 1"
  shows "reads (SpendCommitmentWrite sc suffix 1) (SpendCommitmentReadFrom 1) (sc, suffix @ suffix)"
  unfolding SpendCommitmentWrite_def SpendCommitmentWriteContents_def SpendCommitmentReadFrom_def
    if_P [OF refl]
  using assms by (intro reads_ext_twice reads_bind [OF reads_hash] reads_bind [OF reads_amount] reads_bind [OF reads_varint63] reads_vm_version
    reads_bind [OF reads_varstr] reads_eq [OF reads_then [OF reads_hash]] SpendCommitment.equality) simp_all

lemma reads_output:
  assumes "to_AssetVersion t = 1 \<longrightarrow> oc_VMVersion (to_OutputCommitment t) = 1"
  shows "reads (TxOutputWriteTo H t serRequired) TxOutputReadFrom (echoOutput t)"
proof -
  have ref: "writeRefData H d serRequired = liftW (WriteVarstr31 d)" for d by (simp add: writeRefData_def serRequired_def)
  show ?thesis unfolding TxOutputWriteTo_def TxOutputReadFrom_def ref WriteCommitment_def
    by (rule reads_bind [OF reads_varint63], rule reads_bind [OF reads_output_commitment [OF assms]], unfold prod.case,
        rule reads_bind [OF reads_varstr], rule reads_eq [OF reads_then [OF reads_varstr]])
      (simp add: echoOutput_def)
qed

text \<open>The commitment of an input, as it is known between the two extensible strings.\<close>

definition commitmentOf :: "(bytes \<Rightarrow> bytes) \<Rightarrow> TxInput \<Rightarrow> inputCommitment" where
  "commitmentOf H t = (if in_AssetVersion t \<noteq> 1 then noCommitment else (case in_TypedInput t of
     Some (TIssuance inp) \<Rightarrow> issuanceCommitment (ii_Nonce inp) (issuanceAssetID H inp) (ii_Amount inp)
   | Some (TSpend s) \<Rightarrow> spendCommitment (si_SpendCommitment s) (si_SpendCommitmentSuffix s @ si_SpendCommitmentSuffix s)
   | None \<Rightarrow> noCommitment))"

lemma reads_input_commitment:
  assumes "readableInput t"
  shows "reads (WriteInputCommitment H t serRequired) (readInputCommitment (in_AssetVersion t)) (commitmentOf H t)"
proof (cases "in_AssetVersion t = 1")
  case True
  then consider (iss) inp where "in_TypedInput t = Some (TIssuance inp)"
    | (sp) s where "in_TypedInput t = Some (TSpend s)" "sc_VMVersion (si_SpendCommitment s) = 1"
    using assms by (auto simp: readableInput_def split: option.splits TypedInput.splits)
  then show ?thesis
  proof cases
    case iss
    have "reads (bindA (liftW (WriteVarstr31 (ii_Nonce inp))) (\<lambda>_. bindA (HashWriteTo (issuanceAssetID H inp)) (\<lambda>_. liftW (WriteVarint63 (ii_Amount inp)))))
      (bindR ReadVarstr31 (\<lambda>nonce. bindR HashReadFrom (\<lambda>assetID. bindR ReadVarint63 (\<lambda>amount. returnR (issuanceCommitment nonce assetID amount)))))
      (issuanceCommitment (ii_Nonce inp) (issuanceAssetID H inp) (ii_Amount inp))"
      by (intro reads_bind [OF reads_varstr] reads_bind [OF reads_hash] reads_then reads_varint63)
    then show ?thesis using True iss
      by (auto simp: WriteInputCommitment_def readInputCommitment_def commitmentOf_def intro!: reads_bind [OF reads_byte [unfolded One_nat_def]])
  next
    case sp
    have "reads (SpendCommitmentWrite (si_SpendCommitment s) (si_SpendCommitmentSuffix s) 1)
      (bindR (SpendCommitmentReadFrom 1) (\<lambda>(sc, suffix). returnR (spendCommitment sc suffix)))
      (spendCommitment (si_SpendCommitment s) (si_SpendCommitmentSuffix s @ si_SpendCommitmentSuffix s))"
      by (rule reads_then_pair [OF reads_spend_commitment [OF sp(2)]])
    then show ?thesis using True sp(1)
      by (auto simp: WriteInputCommitment_def readInputCommitment_def commitmentOf_def serRequired_def intro!: reads_bind [OF reads_byte [unfolded One_nat_def]])
  qed
qed (simp add: WriteInputCommitment_def readInputCommitment_def commitmentOf_def reads_return)

lemma issuanceAssetID_arguments:
  "issuanceAssetID H \<lparr>ii_Nonce = ii_Nonce inp, ii_Amount = ii_Amount inp, ii_IssuanceWitness = \<lparr>iw_InitialBlock = iw_InitialBlock (ii_IssuanceWitness inp),
     iw_AssetDefinition = iw_AssetDefinition (ii_IssuanceWitness inp), iw_VMVersion = iw_VMVersion (ii_IssuanceWitness inp),
     iw_IssuanceProgram = iw_IssuanceProgram (ii_IssuanceWitness inp), iw_Arguments = args\<rparr>\<rparr> = issuanceAssetID H inp"
  by (simp add: issuanceAssetID_def AssetDefinitionHash_def Let_def)

lemma reads_input_witness:
  assumes "readableInput t"
  shows "reads (writeInputWitness t) (readInputWitness H (in_AssetVersion t) (commitmentOf H t)) (in_TypedInput (echoInput t))"
proof (cases "in_AssetVersion t = 1")
  case True
  then consider (iss) inp where "in_TypedInput t = Some (TIssuance inp)" | (sp) s where "in_TypedInput t = Some (TSpend s)"
    using assms by (auto simp: readableInput_def split: option.splits TypedInput.splits)
  then show ?thesis
  proof cases
    case iss
    show ?thesis using True iss
      by (simp add: writeInputWitness_def readInputWitness_def commitmentOf_def echoInput_def Let_def)
        (intro reads_bind [OF reads_varstr] reads_bind [OF reads_hash] reads_bind [OF reads_varint63],
          simp add: issuanceAssetID_arguments, rule reads_eq [OF reads_then [OF reads_varstrs]], simp)
  next
    case sp
    with True show ?thesis
      by (auto simp: writeInputWitness_def readInputWitness_def commitmentOf_def echoInput_def intro!: reads_eq [OF reads_then [OF reads_varstrs]])
  qed
qed (simp add: writeInputWitness_def readInputWitness_def echoInput_def reads_return)

lemma reads_input:
  assumes "readableInput t"
  shows "reads (TxInputWriteTo H t serRequired) (TxInputReadFrom H) (echoInput t)"
proof -
  have flag: "serRequired AND 1 \<noteq> 0" by (simp add: serRequired_def)
  show ?thesis unfolding TxInputWriteTo_def TxInputReadFrom_def if_P [OF flag]
    by (rule reads_bind [OF reads_varint63], rule reads_bind [OF reads_ext [OF reads_input_commitment [OF assms]]], unfold prod.case,
        rule reads_bind [OF reads_varstr])
      (rule reads_eq [OF reads_then_pair [OF reads_ext [OF reads_input_witness [OF assms]]]], simp add: echoInput_def)
qed

text \<open>A writer that does not take anything back.\<close>

definition extends :: "writer \<Rightarrow> bool" where
  "extends w \<longleftrightarrow> (\<forall>out out'. w out = (Ok (), out') \<longrightarrow> length out \<le> length out')"

lemma grows_bind: "grows w \<Longrightarrow> extends w' \<Longrightarrow> grows (bindA w (\<lambda>_. w'))"
  by (fastforce simp: grows_def extends_def bindA_Ok_iff)

lemma extends_bind: "extends w \<Longrightarrow> extends w' \<Longrightarrow> extends (bindA w (\<lambda>_. w'))"
  by (fastforce simp: extends_def bindA_Ok_iff)

lemma grows_varint63: "grows (liftW (WriteVarint63 v))"
  using PutUvarint_nonempty by (auto simp: grows_def liftW_def WriteVarint63_def split: if_splits)

lemma extends_reads: "reads w r a \<Longrightarrow> extends w"
  using readsD by (fastforce simp: extends_def)

lemma input_grows:
  assumes "readableInput t"
  shows "grows (TxInputWriteTo H t serRequired)"
proof -
  have flag: "serRequired AND 1 \<noteq> 0" by (simp add: serRequired_def)
  show ?thesis unfolding TxInputWriteTo_def if_P [OF flag]
    by (intro grows_bind [OF grows_varint63] extends_bind extends_reads [OF reads_varstr]
        extends_reads [OF reads_ext [OF reads_input_commitment [OF assms]]] extends_reads [OF reads_ext [OF reads_input_witness [OF assms]]])
qed

lemma output_grows:
  assumes "to_AssetVersion t = 1 \<longrightarrow> oc_VMVersion (to_OutputCommitment t) = 1"
  shows "grows (TxOutputWriteTo H t serRequired)"
proof -
  have ref: "writeRefData H d serRequired = liftW (WriteVarstr31 d)" for d by (simp add: writeRefData_def serRequired_def)
  show ?thesis unfolding TxOutputWriteTo_def WriteCommitment_def ref
    by (intro grows_bind [OF grows_varint63] extends_bind extends_reads [OF reads_varstr] extends_reads [OF reads_output_commitment [OF assms]])
qed

lemma reads_tx:
  assumes "readable tx"
  shows "reads (TxDataWriteAll H tx serRequired) (TxDataReadFrom H) (echo tx)"
proof -
  have ins: "reads (TxInputWriteTo H t serRequired) (TxInputReadFrom H) (echoInput t)" "grows (TxInputWriteTo H t serRequired)"
    if "t \<in> set (td_Inputs tx)" for t
    using assms that reads_input input_grows by (auto simp: readable_def list_all_iff)
  have outs: "reads (TxOutputWriteTo H t serRequired) TxOutputReadFrom (echoOutput t)" "grows (TxOutputWriteTo H t serRequired)"
    if "t \<in> set (td_Outputs tx)" for t
    using assms that reads_output output_grows by (auto simp: readable_def list_all_iff)
  have ref: "writeRefData H d serRequired = liftW (WriteVarstr31 d)" for d by (simp add: writeRefData_def serRequired_def)
  have times: "reads (bindA (liftW (WriteVarint63 (td_MinTime tx))) (\<lambda>_. liftW (WriteVarint63 (td_MaxTime tx))))
      (bindR ReadVarint63 (\<lambda>mn. bindR ReadVarint63 (\<lambda>mx. returnR (mn, mx)))) (td_MinTime tx, td_MaxTime tx)"
    by (intro reads_bind [OF reads_varint63] reads_then reads_varint63)
  show ?thesis unfolding TxDataWriteAll_def TxDataReadFrom_def ref
    apply (rule reads_bind [OF reads_byte], subst if_not_P, simp)
    apply (rule reads_bind [OF reads_varint63], rule reads_bind [OF reads_ext [OF times]], unfold prod.case)
    apply (rule reads_bind [OF reads_ext [OF reads_return]], unfold prod.case)
    apply (rule reads_counted [OF ins], assumption, assumption)
    apply (rule reads_counted [OF outs], assumption, assumption)
    by (rule reads_eq [OF reads_then [OF reads_varstr]]) (simp add: echo_def)
qed

lemma echo_same:
  assumes "\<forall>t \<in> set (td_Inputs tx). in_AssetVersion t = 1 \<and> (\<forall>s. in_TypedInput t = Some (TSpend s) \<longrightarrow> si_SpendCommitmentSuffix s = [])"
    and "\<forall>t \<in> set (td_Outputs tx). to_AssetVersion t = 1 \<and> to_CommitmentSuffix t = [] \<and> to_WitnessSuffix t = []"
  shows "echo tx = tx"
proof -
  have "echoInput t = t" if "t \<in> set (td_Inputs tx)" for t
    using assms(1) that by (auto simp: echoInput_def split: option.split TypedInput.split)
  moreover have "echoOutput t = t" if "t \<in> set (td_Outputs tx)" for t
    using assms(2) that by (auto simp: echoOutput_def)
  ultimately have "map echoInput (td_Inputs tx) = td_Inputs tx" "map echoOutput (td_Outputs tx) = td_Outputs tx"
    by (simp_all add: map_idI)
  then show ?thesis by (simp add: echo_def)
qed

lemma echo_doubles:
  assumes "t \<in> set (td_Outputs tx)" and "to_CommitmentSuffix t \<noteq> []"
  shows "echo tx \<noteq> tx"
proof
  assume "echo tx = tx"
  then have "map echoOutput (td_Outputs tx) = td_Outputs tx" by (metis TxData.select_convs(3) TxData.surjective TxData.update_convs(2,3) echo_def)
  then have "echoOutput t = t" using assms(1) by (metis map_eq_conv map_ident)
  then have "to_CommitmentSuffix t @ to_CommitmentSuffix t = to_CommitmentSuffix t"
    by (metis (no_types) TxOutput.select_convs(3) TxOutput.surjective TxOutput.update_convs(2,3,4) echoOutput_def)
  then show False using assms(2) by simp
qed

text \<open>
  \<^verbatim>\<open>WriteTo\<close> of a transaction whose version does not fit 63 bits stops after the flags, and reports success.
\<close>

lemma tx_write_truncates:
  assumes "9223372036854775807 < td_Version tx"
  shows "TxDataWriteTo H tx = Ok [serRequired]" and "fst (TxDataReadFrom H [serRequired]) = Inl EOF"
  using assms by (simp_all add: TxDataWriteTo_def TxDataWriteAll_def bindA_def put_def liftW_def WriteVarint63_def
    TxDataReadFrom_def bindR_def ReadFull_def ReadVarint63_def ReadUvarint_def)

text \<open>A transaction whose only output has a commitment suffix.\<close>

definition suffixedTx :: TxData where
  "suffixedTx = \<lparr>td_Version = 1, td_Inputs = [], td_Outputs = [\<lparr>to_AssetVersion = 1, to_OutputCommitment =
     \<lparr>oc_AssetAmount = \<lparr>amt_AssetId = Some zeroHash, amt_Amount = 5\<rparr>, oc_VMVersion = 1, oc_ControlProgram = []\<rparr>,
     to_CommitmentSuffix = [9], to_WitnessSuffix = [], to_ReferenceData = []\<rparr>], td_MinTime = 0, td_MaxTime = 0,
     td_CommonFieldsSuffix = [], td_CommonWitnessSuffix = [], td_ReferenceData = []\<rparr>"

section \<open>Properties\<close>

text \<open>
  C35. A transaction that was written without an error, and whose inputs and outputs of asset version 1 have a type and VM version 1 (the
  reader rejects another VM version, which the writer accepts), is read back as its \<open>echo\<close>: the writers of spend and output commitments write a suffix
  twice, once themselves and once through the extensible string, so that it comes back doubled; for an asset version other than 1 the typed input is lost
  and the output commitment is zero; the witness suffix of an output is lost. A transaction without such suffixes, with inputs and outputs of asset version 1, comes
  back unchanged, and one with a suffix on an output commitment does not.
\<close>
theorem tx_encoding_roundtrip:
  assumes "TxDataWriteAll H tx serRequired [] = (Ok (), out)" and "readable tx" and "length out < 2 ^ 64"
  shows "TxDataReadFrom H (out @ rest) = (Inr (echo tx), rest) \<and>
    ((\<forall>t \<in> set (td_Inputs tx). in_AssetVersion t = 1 \<and> (\<forall>s. in_TypedInput t = Some (TSpend s) \<longrightarrow> si_SpendCommitmentSuffix s = [])) \<and>
     (\<forall>t \<in> set (td_Outputs tx). to_AssetVersion t = 1 \<and> to_CommitmentSuffix t = [] \<and> to_WitnessSuffix t = []) \<longrightarrow> echo tx = tx) \<and>
    ((\<exists>t \<in> set (td_Outputs tx). to_CommitmentSuffix t \<noteq> []) \<longrightarrow> echo tx \<noteq> tx)"
proof (intro conjI impI)
  show "TxDataReadFrom H (out @ rest) = (Inr (echo tx), rest)"
    using readsD [OF reads_tx [OF assms(2)] assms(1)] assms(3) by auto
qed (use echo_same [of tx] echo_doubles [of _ tx] in blast)+

lemma tx_encoding_roundtrip_witness:
  "\<exists>out. TxDataWriteAll (\<lambda>_. []) suffixedTx serRequired [] = (Ok (), out) \<and>
     TxDataReadFrom (\<lambda>_. []) out = (Inr (echo suffixedTx), []) \<and> echo suffixedTx \<noteq> suffixedTx"
proof -
  let ?out = "snd (TxDataWriteAll (\<lambda>_. []) suffixedTx serRequired [])"
  have w: "TxDataWriteAll (\<lambda>_. []) suffixedTx serRequired [] = (Ok (), ?out)" "length ?out < 100" by code_simp+
  have r: "readable suffixedTx" by (simp add: readable_def suffixedTx_def)
  have "length ?out < 2 ^ 64" using w(2) by simp
  from tx_encoding_roundtrip [OF w(1) r this, of "[]"] w(1) show ?thesis by (auto simp: suffixedTx_def)
qed

end
