(* ===== verification/Legacy_Map.thy ===== *)
theory Legacy_Map
  imports Legacy_Tx VMUtil "HOL-Library.AList"
begin

text \<open>
  The translation of a transaction into its entries, \<^verbatim>\<open>protocol/bc/legacy/map.go\<close>. The code keeps pointers to entries that
  are already in the map and sets their witness fields later, and a second entry with the same ID replaces the
  first in the map but not in the other places that point to it. The model therefore has a store: entries live
  at addresses, and the map of entries goes from IDs to addresses.
\<close>

section \<open>The state of the translation\<close>

type_synonym addr = nat

record mapState =
  ms_store :: "Entry list"
  ms_entryMap :: "(Hash \<times> addr) list"
  ms_firstSpend :: "(addr \<times> Hash) option"
  ms_spends :: "addr list"
  ms_issuances :: "addr list"
  ms_muxSources :: "ValueSource option list"
  ms_resultIDs :: "Hash list"

type_synonym 'a mapStep = "(mapState, unit, 'a) action"

definition modify :: "(mapState \<Rightarrow> mapState) \<Rightarrow> unit mapStep" where
  "modify f s = (Ok (), f s)"

definition addEntry :: "(bytes \<Rightarrow> bytes) \<Rightarrow> Entry \<Rightarrow> (Hash \<times> addr) mapStep" where
  "addEntry H e = bindA (pureA (entryID H (Some e))) (\<lambda>h s.
     (Ok (h, length (ms_store s)), s\<lparr>ms_store := ms_store s @ [e], ms_entryMap := AList.update h (length (ms_store s)) (ms_entryMap s)\<rparr>))"

definition updateEntry :: "addr \<Rightarrow> (Entry \<Rightarrow> Entry) \<Rightarrow> mapState \<Rightarrow> mapState" where
  "updateEntry a f s = s\<lparr>ms_store := (ms_store s)[a := f (ms_store s ! a)]\<rparr>"

definition hashData :: "(bytes \<Rightarrow> bytes) \<Rightarrow> bytes \<Rightarrow> Hash" where
  "hashData H d = NewHash (H d)"

section \<open>Constructors of entries\<close>

definition NewOutput :: "ValueSource \<Rightarrow> Program \<Rightarrow> Hash \<Rightarrow> uint64 \<Rightarrow> Output" where
  "NewOutput source controlProgram d ordinal = \<lparr>out_Source = Some source, out_ControlProgram = Some controlProgram,
     out_Data = Some d, out_ExtHash = None, out_Ordinal = ordinal\<rparr>"

definition NewRetirement :: "ValueSource \<Rightarrow> Hash \<Rightarrow> uint64 \<Rightarrow> Retirement" where
  "NewRetirement source d ordinal = \<lparr>ret_Source = Some source, ret_Data = Some d, ret_ExtHash = None, ret_Ordinal = ordinal\<rparr>"

definition NewSpend :: "Hash \<Rightarrow> Hash \<Rightarrow> uint64 \<Rightarrow> Spend" where
  "NewSpend spentOutputID d ordinal = \<lparr>sp_SpentOutputId = Some spentOutputID, sp_Data = Some d, sp_ExtHash = None,
     sp_WitnessDestination = None, sp_WitnessArguments = [], sp_WitnessAnchoredId = None, sp_Ordinal = ordinal\<rparr>"

definition NewIssuance :: "Hash \<Rightarrow> AssetAmount \<Rightarrow> Hash \<Rightarrow> uint64 \<Rightarrow> Issuance" where
  "NewIssuance anchorID value d ordinal = \<lparr>iss_AnchorId = Some anchorID, iss_Value = Some value, iss_Data = Some d,
     iss_ExtHash = None, iss_WitnessDestination = None, iss_WitnessAssetDefinition = None, iss_WitnessArguments = [],
     iss_WitnessAnchoredId = None, iss_Ordinal = ordinal\<rparr>"

definition NewTimeRange :: "uint64 \<Rightarrow> uint64 \<Rightarrow> TimeRange" where
  "NewTimeRange minTimeMS maxTimeMS = \<lparr>tr_MinTimeMs = minTimeMS, tr_MaxTimeMs = maxTimeMS, tr_ExtHash = None\<rparr>"

definition NewNonce :: "Program \<Rightarrow> Hash \<Rightarrow> Nonce" where
  "NewNonce p trID = \<lparr>nonce_Program = Some p, nonce_TimeRangeId = Some trID, nonce_ExtHash = None, nonce_WitnessArguments = [],
     nonce_WitnessAnchoredId = None\<rparr>"

definition NewMux :: "ValueSource option list \<Rightarrow> Program \<Rightarrow> Mux" where
  "NewMux srcs p = \<lparr>mux_Sources = srcs, mux_Program = Some p, mux_ExtHash = None, mux_WitnessDestinations = [],
     mux_WitnessArguments = []\<rparr>"

definition NewTxHeader :: "uint64 \<Rightarrow> Hash list \<Rightarrow> Hash \<Rightarrow> uint64 \<Rightarrow> uint64 \<Rightarrow> TxHeader" where
  "NewTxHeader version resultIDs d minTimeMS maxTimeMS = \<lparr>hdr_Version = version, hdr_ResultIds = map Some resultIDs,
     hdr_Data = Some d, hdr_MinTimeMs = minTimeMS, hdr_MaxTimeMs = maxTimeMS, hdr_ExtHash = None\<rparr>"

text \<open>\<^verbatim>\<open>SetDestination\<close> and \<^verbatim>\<open>SetAnchored\<close> through a pointer to the entry.\<close>

fun SetDestination :: "Hash \<Rightarrow> AssetAmount option \<Rightarrow> uint64 \<Rightarrow> Entry \<Rightarrow> Entry" where
  "SetDestination i val pos (ESpend s) = ESpend (s\<lparr>sp_WitnessDestination := Some \<lparr>dst_Ref = Some i, dst_Value = val, dst_Position = pos\<rparr>\<rparr>)"
| "SetDestination i val pos (EIssuance s) = EIssuance (s\<lparr>iss_WitnessDestination := Some \<lparr>dst_Ref = Some i, dst_Value = val, dst_Position = pos\<rparr>\<rparr>)"
| "SetDestination i val pos e = e"

fun SetAnchored :: "Hash \<Rightarrow> Entry \<Rightarrow> Entry" where
  "SetAnchored i (ESpend s) = ESpend (s\<lparr>sp_WitnessAnchoredId := Some i\<rparr>)"
| "SetAnchored i (ENonce n) = ENonce (n\<lparr>nonce_WitnessAnchoredId := Some i\<rparr>)"
| "SetAnchored i e = e"

fun appendDestination :: "ValueDestination \<Rightarrow> Entry \<Rightarrow> Entry" where
  "appendDestination d (EMux m) = EMux (m\<lparr>mux_WitnessDestinations := mux_WitnessDestinations m @ [Some d]\<rparr>)"
| "appendDestination d e = e"

section \<open>mapTx\<close>

definition mapSpend :: "(bytes \<Rightarrow> bytes) \<Rightarrow> nat \<times> TxInput \<Rightarrow> unit mapStep" where
  "mapSpend H = (\<lambda>(i, inp). case in_TypedInput inp of
       Some (TSpend oldSp) \<Rightarrow>
         (let sc = si_SpendCommitment oldSp;
              prog = \<lparr>prog_VmVersion = sc_VMVersion sc, prog_Code = sc_ControlProgram sc\<rparr>;
              src = \<lparr>src_Ref = Some (sc_SourceID sc), src_Value = Some (sc_AssetAmount sc), src_Position = sc_SourcePosition sc\<rparr>
          in bindA (addEntry H (EOutput (NewOutput src prog (sc_RefDataHash sc) 0))) (\<lambda>(prevoutID, _).
             bindA (addEntry H (ESpend ((NewSpend prevoutID (hashData H (in_ReferenceData inp)) (word_of_nat i))
                 \<lparr>sp_WitnessArguments := si_Arguments oldSp\<rparr>))) (\<lambda>(sid, a).
             modify (\<lambda>s. s\<lparr>ms_muxSources := (ms_muxSources s)[i := Some \<lparr>src_Ref = Some sid, src_Value = Some (sc_AssetAmount sc), src_Position = 0\<rparr>],
               ms_firstSpend := (case ms_firstSpend s of None \<Rightarrow> Some (a, sid) | x \<Rightarrow> x), ms_spends := ms_spends s @ [a]\<rparr>))))
     | _ \<Rightarrow> modify (\<lambda>s. s))"

definition nonceProgram :: "(bytes \<Rightarrow> bytes) \<Rightarrow> IssuanceInput \<Rightarrow> bytes" where
  "nonceProgram H oldIss = Builder.Program (AddOp OP_EQUAL (AddData (Byte32 (issuanceAssetID H oldIss)) (AddOp OP_ASSET
     (AddOp OP_DROP (AddData (ii_Nonce oldIss) NewBuilder)))))"

text \<open>The anchor of an issuance: a new nonce, or the first spend, or nothing and the zero hash.\<close>

definition mapAnchor :: "(bytes \<Rightarrow> bytes) \<Rightarrow> TxData \<Rightarrow> IssuanceInput \<Rightarrow> (Hash \<times> addr option) mapStep" where
  "mapAnchor H tx oldIss =
     (if ii_Nonce oldIss \<noteq> [] then
        bindA (addEntry H (ETimeRange (NewTimeRange (td_MinTime tx) (td_MaxTime tx)))) (\<lambda>(trID, _).
        bindA (addEntry H (ENonce (NewNonce \<lparr>prog_VmVersion = 1, prog_Code = nonceProgram H oldIss\<rparr> trID))) (\<lambda>(anchorID, a).
        pureA (Ok (anchorID, Some a))))
      else (\<lambda>s. case ms_firstSpend s of Some (a, sid) \<Rightarrow> (Ok (sid, Some a), s) | None \<Rightarrow> (Ok (zeroHash, None), s)))"

definition mapIssuance :: "(bytes \<Rightarrow> bytes) \<Rightarrow> TxData \<Rightarrow> nat \<times> TxInput \<Rightarrow> unit mapStep" where
  "mapIssuance H tx = (\<lambda>(i, inp). case in_TypedInput inp of
       Some (TIssuance oldIss) \<Rightarrow>
         bindA (mapAnchor H tx oldIss) (\<lambda>(anchorID, anchor).
         let w = ii_IssuanceWitness oldIss;
             val = \<lparr>amt_AssetId = Some (issuanceAssetID H oldIss), amt_Amount = ii_Amount oldIss\<rparr>;
             iss = (NewIssuance anchorID val (hashData H (in_ReferenceData inp)) (word_of_nat i))\<lparr>
               iss_WitnessAssetDefinition := Some \<lparr>def_InitialBlockId = Some (iw_InitialBlock w),
                 def_IssuanceProgram = Some \<lparr>prog_VmVersion = iw_VMVersion w, prog_Code = iw_IssuanceProgram w\<rparr>,
                 def_Data = Some (hashData H (iw_AssetDefinition w))\<rparr>,
               iss_WitnessArguments := iw_Arguments w\<rparr>
         in bindA (addEntry H (EIssuance iss)) (\<lambda>(issID, a).
            bindA (modify (case anchor of None \<Rightarrow> (\<lambda>s. s) | Some b \<Rightarrow> updateEntry b (SetAnchored issID))) (\<lambda>_.
            modify (\<lambda>s. s\<lparr>ms_muxSources := (ms_muxSources s)[i := Some \<lparr>src_Ref = Some issID, src_Value = Some val, src_Position = 0\<rparr>],
              ms_issuances := ms_issuances s @ [a]\<rparr>))))
     | _ \<Rightarrow> modify (\<lambda>s. s))"

text \<open>The type assertion on the spent output panics if the ID leads to another kind of entry.\<close>

definition setSpendDestination :: "Hash \<Rightarrow> addr \<Rightarrow> unit mapStep" where
  "setSpendDestination muxID a s = (case ms_store s ! a of
       ESpend sp \<Rightarrow> (case sp_SpentOutputId sp of None \<Rightarrow> (Crash, s)
       | Some so \<Rightarrow> (case map_of (ms_entryMap s) so of None \<Rightarrow> (Crash, s)
         | Some b \<Rightarrow> (case ms_store s ! b of
             EOutput out \<Rightarrow> (case out_Source out of None \<Rightarrow> (Crash, s)
               | Some src \<Rightarrow> (Ok (), updateEntry a (SetDestination muxID (src_Value src) (sp_Ordinal sp)) s))
           | _ \<Rightarrow> (Crash, s))))
     | _ \<Rightarrow> (Crash, s))"

definition setIssuanceDestination :: "Hash \<Rightarrow> addr \<Rightarrow> unit mapStep" where
  "setIssuanceDestination muxID a s = (case ms_store s ! a of
       EIssuance iss \<Rightarrow> (Ok (), updateEntry a (SetDestination muxID (iss_Value iss) (iss_Ordinal iss)) s)
     | _ \<Rightarrow> (Crash, s))"

definition resultEntry :: "(bytes \<Rightarrow> bytes) \<Rightarrow> ValueSource \<Rightarrow> nat \<Rightarrow> TxOutput \<Rightarrow> Entry" where
  "resultEntry H src i out = (let oc = to_OutputCommitment out in
     if IsUnspendable (oc_ControlProgram oc) then ERetirement (NewRetirement src (hashData H (to_ReferenceData out)) (word_of_nat i))
     else EOutput (NewOutput src \<lparr>prog_VmVersion = oc_VMVersion oc, prog_Code = oc_ControlProgram oc\<rparr>
       (hashData H (to_ReferenceData out)) (word_of_nat i)))"

definition mapOutput :: "(bytes \<Rightarrow> bytes) \<Rightarrow> Hash \<Rightarrow> addr \<Rightarrow> nat \<times> TxOutput \<Rightarrow> unit mapStep" where
  "mapOutput H muxID mux = (\<lambda>(i, out).
     let src = \<lparr>src_Ref = Some muxID, src_Value = Some (oc_AssetAmount (to_OutputCommitment out)), src_Position = word_of_nat i\<rparr>
     in bindA (addEntry H (resultEntry H src i out)) (\<lambda>(rID, _).
        modify (\<lambda>s. updateEntry mux (appendDestination \<lparr>dst_Ref = Some rID, dst_Value = src_Value src, dst_Position = 0\<rparr>)
          (s\<lparr>ms_resultIDs := ms_resultIDs s @ [rID]\<rparr>))))"

definition mapTx :: "(bytes \<Rightarrow> bytes) \<Rightarrow> TxData \<Rightarrow> (Hash \<times> TxHeader) mapStep" where
  "mapTx H tx =
     bindA (forA (mapSpend H) (zip [0..<length (td_Inputs tx)] (td_Inputs tx))) (\<lambda>_.
     bindA (forA (mapIssuance H tx) (zip [0..<length (td_Inputs tx)] (td_Inputs tx))) (\<lambda>_ s.
     bindA (addEntry H (EMux (NewMux (ms_muxSources s) \<lparr>prog_VmVersion = 1, prog_Code = [OP_TRUE]\<rparr>))) (\<lambda>(muxID, mux) s.
     bindA (forA (setSpendDestination muxID) (ms_spends s)) (\<lambda>_.
     bindA (forA (setIssuanceDestination muxID) (ms_issuances s)) (\<lambda>_.
     bindA (forA (mapOutput H muxID mux) (zip [0..<length (td_Outputs tx)] (td_Outputs tx))) (\<lambda>_ s.
     let h = NewTxHeader (td_Version tx) (ms_resultIDs s) (hashData H (td_ReferenceData tx)) (td_MinTime tx) (td_MaxTime tx)
     in bindA (addEntry H (ETxHeader h)) (\<lambda>(headerID, _). pureA (Ok (headerID, h))) s))) s) s))"

section \<open>MapTx\<close>

definition initialState :: "TxData \<Rightarrow> mapState" where
  "initialState tx = \<lparr>ms_store = [], ms_entryMap = [], ms_firstSpend = None, ms_spends = [], ms_issuances = [],
     ms_muxSources = replicate (length (td_Inputs tx)) None, ms_resultIDs = []\<rparr>"

definition entriesOf :: "mapState \<Rightarrow> Hash \<Rightarrow> Entry option" where
  "entriesOf s h = map_option ((!) (ms_store s)) (map_of (ms_entryMap s) h)"

text \<open>The three results of the loop over the map of entries: input IDs, nonce IDs and spent output IDs.\<close>

definition indexEntry :: "(Hash \<Rightarrow> Entry option) \<Rightarrow> Hash \<Rightarrow> Hash list \<times> Hash list \<times> Hash list \<Rightarrow> ('e, Hash list \<times> Hash list \<times> Hash list) outcome" where
  "indexEntry entries eid = (\<lambda>(inputs, nonces, spents).
     let put = (\<lambda>ord. if ord \<ge> word_of_nat (length inputs) then inputs else inputs[unat ord := eid])
     in case entries eid of
       Some (EIssuance e) \<Rightarrow> bindO (deref (iss_AnchorId e)) (\<lambda>a. Ok (case entries a of
           None \<Rightarrow> (inputs, nonces, spents)
         | Some (ENonce _) \<Rightarrow> (put (iss_Ordinal e), List.insert a nonces, spents)
         | Some _ \<Rightarrow> (put (iss_Ordinal e), nonces, spents)))
     | Some (ESpend e) \<Rightarrow> bindO (deref (sp_SpentOutputId e)) (\<lambda>so. Ok (put (sp_Ordinal e), nonces, List.insert so spents))
     | _ \<Rightarrow> Ok (inputs, nonces, spents))"

text \<open>\<open>order\<close> is the order in which a loop ranges over the keys of a Go map, which is not specified.\<close>

definition MapTx :: "(bytes \<Rightarrow> bytes) \<Rightarrow> (Hash list \<Rightarrow> Hash list) \<Rightarrow> TxData \<Rightarrow> (unit, Tx) outcome" where
  "MapTx H order oldTx = (case mapTx H oldTx (initialState oldTx) of
       (Ok (txid, header), s) \<Rightarrow>
         bindO (foldO (indexEntry (entriesOf s)) (order (map fst (ms_entryMap s))) (replicate (length (td_Inputs oldTx)) zeroHash, [], []))
           (\<lambda>(inputs, nonces, spents). Ok \<lparr>tx_TxHeader = header, tx_ID = txid, tx_Entries = entriesOf s, tx_InputIDs = inputs,
              tx_NonceIDs = order nonces, tx_SpentOutputIDs = order spents\<rparr>)
     | (Fail e, _) \<Rightarrow> Fail e | (Crash, _) \<Rightarrow> Crash | (Diverge, _) \<Rightarrow> Diverge)"

end
