(* ===== verification/Validation_Memo.thy ===== *)
theory Validation_Memo
  imports Validation_Sample
begin

text \<open>
  The memo table of \<open>checkValid\<close> does not change its verdicts. The reference \<open>plainValid\<close> is the same walk
  without the table; both are instances of \<open>checkBody\<close>, and one congruence for \<open>checkBody\<close> relates them.
\<close>

section \<open>The reference\<close>

primrec plainValid :: "(bytes \<Rightarrow> bytes) \<Rightarrow> prims \<Rightarrow> nat \<Rightarrow> nat \<Rightarrow> unit checker" where
  "plainValid H P F 0 vs e = pureA Diverge"
| "plainValid H P F (Suc n) vs e = bindA (pureA (entryID H e)) (\<lambda>_. checkBody H P F (plainValid H P F n) vs e)"

section \<open>Relations between two runs of the same checks\<close>

text \<open>
  Calls about the same entry of the same transaction; the positions may differ, since the body sets those it
  uses. The entry is the one that the transaction has under the ID of the call.
\<close>

definition sameCall :: "Tx \<Rightarrow> Hash \<Rightarrow> validationState \<Rightarrow> validationState \<Rightarrow> Entry option \<Rightarrow> bool" where
  "sameCall tx b vs vs' e \<longleftrightarrow> vs_tx vs = tx \<and> vs_tx vs' = tx \<and> vs_blockchainID vs = b \<and> vs_blockchainID vs' = b \<and>
     vs_entryID vs = vs_entryID vs' \<and> tx_Entries tx (vs_entryID vs) = e"

definition related :: "('s check \<Rightarrow> 't check \<Rightarrow> bool) \<Rightarrow> Tx \<Rightarrow> Hash \<Rightarrow> 's checker \<Rightarrow> 't checker \<Rightarrow> bool" where
  "related R tx b rec rec' \<longleftrightarrow> (\<forall>vs vs' e. sameCall tx b vs vs' e \<longrightarrow> R (rec vs e) (rec' vs' e))"

lemma sameCall_entry: "sameCall tx b vs vs' e \<Longrightarrow> tx_Entries tx h = e' \<Longrightarrow>
    sameCall tx b (vs\<lparr>vs_entryID := h\<rparr>) (vs'\<lparr>vs_entryID := h\<rparr>) e'"
  by (simp add: sameCall_def)

lemma sameCall_fields:
  assumes "sameCall tx b vs vs' e"
  shows "vs_tx vs = tx" "vs_tx vs' = tx" "vs_blockchainID vs' = vs_blockchainID vs" "vs_entryID vs' = vs_entryID vs"
    "checkExt vs' = checkExt vs" "checkTimeRange vs' = checkTimeRange vs"
    "checkValidDest (vs'\<lparr>vs_destPos := i\<rparr>) d = checkValidDest (vs\<lparr>vs_destPos := i\<rparr>) d"
  using assms by (auto simp: sameCall_def checkExt_def checkTimeRange_def checkValidDest_def fun_eq_iff split: option.splits)

lemma checkSpend_same:
  assumes "sameCall tx b vs vs' e"
  shows "checkSpend H P F vs' = checkSpend H P F vs"
  unfolding checkSpend_def [abs_def] sameCall_fields [OF assms] ..

lemma txTimeRange_entry: "fromLookup (txTimeRange tx h) = Ok tr \<Longrightarrow> tx_Entries tx h = Some (ETimeRange tr)"
  by (auto simp: fromLookup_def txTimeRange_def split: sum.splits option.splits Entry.splits)

lemma bindA_pure: "bindA (pureA m) f = (case m of Ok a \<Rightarrow> f a | Fail e \<Rightarrow> pureA (Fail e) | Crash \<Rightarrow> pureA Crash | Diverge \<Rightarrow> pureA Diverge)"
  by (cases m) (simp_all add: fun_eq_iff bindA_def pureA_def)

text \<open>
  A relation that holds between equal pure steps and is kept by sequencing holds between the bodies of
  \<open>checkValid\<close> whenever it holds between the recursive calls.
\<close>

locale check_relation =
  fixes R :: "'s check \<Rightarrow> 't check \<Rightarrow> bool"
  assumes pure: "R (pureA r) (pureA r)"
    and seq: "R m m' \<Longrightarrow> R k k' \<Longrightarrow> R (bindA m (\<lambda>_. k)) (bindA m' (\<lambda>_. k'))"
begin

lemma bind_pure: "(\<And>a. m = Ok a \<Longrightarrow> R (f a) (f' a)) \<Longrightarrow> R (bindA (pureA m) f) (bindA (pureA m) f')"
  by (cases m) (simp_all add: bindA_pure pure)

lemma for_each: "(\<And>x. x \<in> set xs \<Longrightarrow> R (f x) (f' x)) \<Longrightarrow> R (forA f xs) (forA f' xs)"
proof (induction xs)
  case Nil
  show ?case using pure [of "Ok ()"] by (simp add: pureA_def [abs_def])
qed (simp add: seq)

lemma if_case: "(c \<Longrightarrow> R m m') \<Longrightarrow> (\<not> c \<Longrightarrow> R k k') \<Longrightarrow> R (if c then m else k) (if c then m' else k')"
  by simp

lemma option_case:
  "(x = None \<Longrightarrow> R m m') \<Longrightarrow> (\<And>a. x = Some a \<Longrightarrow> R (f a) (f' a)) \<Longrightarrow>
    R (case x of None \<Rightarrow> m | Some a \<Rightarrow> f a) (case x of None \<Rightarrow> m' | Some a \<Rightarrow> f' a)"
  by (cases x) simp_all

lemma prod_case: "(\<And>a b. R (f a b) (f' a b)) \<Longrightarrow> R (case p of (a, b) \<Rightarrow> f a b) (case p of (a, b) \<Rightarrow> f' a b)"
  by (cases p) simp

lemma call: "related R tx b rec rec' \<Longrightarrow> sameCall tx b vs vs' e \<Longrightarrow> R (rec vs e) (rec' vs' e)"
  by (simp add: related_def)

lemmas rules = bind_pure pure for_each if_case option_case prod_case

lemma src:
  assumes "related R tx b rec rec'" and "sameCall tx b vs vs' e"
  shows "R (checkValidSrc rec (vs\<lparr>vs_sourcePos := i\<rparr>) s) (checkValidSrc rec' (vs'\<lparr>vs_sourcePos := i\<rparr>) s)"
  unfolding checkValidSrc_def using sameCall_fields [OF assms(2)]
  by (auto intro!: rules seq call [OF assms(1)]) (use assms(2) in \<open>simp add: sameCall_def\<close>)

lemma body:
  assumes rec: "related R tx b rec rec'" and same: "sameCall tx b vs vs' e"
  shows "R (checkBody H P F rec vs e) (checkBody H P F rec' vs' e)"
proof (cases e)
  case None
  then show ?thesis by (simp add: checkBody_def pure)
next
  case (Some entry)
  note f = sameCall_fields [OF same]
  note rules = rules seq call [OF rec] src [OF rec same] sameCall_entry [OF same]
  have "R (checkHeader rec vs x) (checkHeader rec' vs' x)" for x
    unfolding checkHeader_def f by (intro rules) simp_all
  moreover have "R (checkMuxEntry H P F rec vs x) (checkMuxEntry H P F rec' vs' x)" for x
    unfolding checkMuxEntry_def f by (intro rules)
  moreover have "R (checkNonce H P F rec vs x) (checkNonce H P F rec' vs' x)" for x
    unfolding checkNonce_def f by (intro rules) (erule txTimeRange_entry)
  moreover have "R (checkIssuance H P F rec vs x) (checkIssuance H P F rec' vs' x)" for x
    unfolding checkIssuance_def f by (intro rules)
  ultimately show ?thesis unfolding checkBody_def Some option.case
    by (cases entry) (auto simp: f checkSpend_same [OF same] intro!: rules)
qed

end

section \<open>Three relations\<close>

text \<open>
  The first check, run in a state with the invariant \<open>I\<close>, ends like the second one, unless the second one
  does not end; and it keeps the invariant.
\<close>

definition agree :: "('s \<Rightarrow> bool) \<Rightarrow> 's check \<Rightarrow> unit check \<Rightarrow> bool" where
  "agree I m m' \<longleftrightarrow> (\<forall>s. I s \<longrightarrow> fst (m' ()) \<noteq> Diverge \<longrightarrow> fst (m s) = fst (m' ()) \<and> I (snd (m s)))"

text \<open>
  If the first check ends, so does the second one with every large enough depth, in the same way. (The
  state of the second one is the depth of its recursive calls.)
\<close>

definition settles :: "('s \<Rightarrow> bool) \<Rightarrow> 's check \<Rightarrow> nat check \<Rightarrow> bool" where
  "settles I m m' \<longleftrightarrow> (\<forall>s. I s \<longrightarrow> fst (m s) \<noteq> Diverge \<longrightarrow> I (snd (m s)) \<and> (\<exists>k0. \<forall>k \<ge> k0. m' k = (fst (m s), k)))"

definition atDepth :: "nat \<Rightarrow> nat check \<Rightarrow> unit check \<Rightarrow> bool" where
  "atDepth k m m' \<longleftrightarrow> m k = (fst (m' ()), k)"

lemma agree_seq:
  assumes "agree I m m'" and "agree I k k'"
  shows "agree I (bindA m (\<lambda>_. k)) (bindA m' (\<lambda>_. k'))"
  unfolding agree_def
proof (intro allI impI)
  fix s assume "I s" and d: "fst (bindA m' (\<lambda>_. k') ()) \<noteq> Diverge"
  obtain r u where m': "m' () = (r, u)" by (cases "m' ()")
  have "r \<noteq> Diverge" using d by (auto simp: bindA_def m' split: outcome.splits)
  with assms(1) \<open>I s\<close> m' have ms: "fst (m s) = r" "I (snd (m s))" by (auto simp: agree_def)
  obtain s' where s': "m s = (r, s')" "I s'" using ms by (cases "m s") auto
  show "fst (bindA m (\<lambda>_. k) s) = fst (bindA m' (\<lambda>_. k') ()) \<and> I (snd (bindA m (\<lambda>_. k) s))"
  proof (cases r)
    case (Ok a)
    then have "fst (k' ()) \<noteq> Diverge" using d by (simp add: bindA_def m')
    with assms(2) s'(2) have "fst (k s') = fst (k' ()) \<and> I (snd (k s'))" by (simp add: agree_def)
    then show ?thesis by (simp add: bindA_def m' s' Ok)
  qed (use s' m' in \<open>simp_all add: bindA_def\<close>)
qed

lemma settles_seq:
  assumes "settles I m m'" and "settles I k k'"
  shows "settles I (bindA m (\<lambda>_. k)) (bindA m' (\<lambda>_. k'))"
  unfolding settles_def
proof (intro allI impI)
  fix s assume "I s" and d: "fst (bindA m (\<lambda>_. k) s) \<noteq> Diverge"
  obtain r s' where m: "m s = (r, s')" by (cases "m s")
  have "r \<noteq> Diverge" using d by (auto simp: bindA_def m split: outcome.splits)
  with assms(1) \<open>I s\<close> m obtain k0 where k0: "I s'" "\<forall>n \<ge> k0. m' n = (r, n)" unfolding settles_def by fastforce
  show "I (snd (bindA m (\<lambda>_. k) s)) \<and> (\<exists>k0. \<forall>n \<ge> k0. bindA m' (\<lambda>_. k') n = (fst (bindA m (\<lambda>_. k) s), n))"
  proof (cases r)
    case (Ok a)
    then have "fst (k s') \<noteq> Diverge" using d by (simp add: bindA_def m)
    with assms(2) k0(1) obtain k1 where "I (snd (k s'))" "\<forall>n \<ge> k1. k' n = (fst (k s'), n)" unfolding settles_def by blast
    then show ?thesis using k0(2) by (intro conjI exI [of _ "max k0 k1"]) (simp_all add: bindA_def m Ok)
  qed (use k0 m in \<open>auto simp: bindA_def intro!: exI [of _ k0]\<close>)
qed

lemma atDepth_seq:
  assumes "atDepth n m m'" and "atDepth n k k'"
  shows "atDepth n (bindA m (\<lambda>_. k)) (bindA m' (\<lambda>_. k'))"
  using assms by (cases "m' ()"; cases "fst (m' ())") (auto simp: atDepth_def bindA_def)

interpretation agreement: check_relation "agree I" for I
  by unfold_locales (simp add: agree_def pureA_def, erule (1) agree_seq)

interpretation settling: check_relation "settles I" for I
  by unfold_locales (simp add: settles_def pureA_def, erule (1) settles_seq)

interpretation depth_fixed: check_relation "atDepth n" for n
  by unfold_locales (simp add: atDepth_def pureA_def, erule (1) atDepth_seq)

section \<open>More depth changes nothing\<close>

lemma plain_agrees: "related (agree (\<lambda>_. True)) tx b (plainValid H P F (n + k)) (plainValid H P F n)"
proof (induction n)
  case 0
  show ?case by (simp add: related_def agree_def pureA_def)
next
  case (Suc n)
  show ?case unfolding related_def
  proof (intro allI impI)
    fix vs vs' e assume "sameCall tx b vs vs' e"
    from agreement.body [OF Suc this] show "agree (\<lambda>_. True) (plainValid H P F (Suc n + k) vs e) (plainValid H P F (Suc n) vs' e)"
      by (auto intro!: agreement.bind_pure)
  qed
qed

lemma plain_eq:
  assumes "sameCall tx b vs vs' e" and "fst (plainValid H P F n vs' e ()) \<noteq> Diverge"
  shows "fst (plainValid H P F (n + k) vs e ()) = fst (plainValid H P F n vs' e ())"
  using plain_agrees [of tx b H P F n k] assms unfolding related_def agree_def by blast

text \<open>The verdict of the reference on an entry.\<close>

definition callOf :: "Tx \<Rightarrow> Hash \<Rightarrow> Hash \<Rightarrow> validationState" where
  "callOf tx b h = \<lparr>vs_blockchainID = b, vs_tx = tx, vs_entryID = h, vs_sourcePos = 0, vs_destPos = 0\<rparr>"

definition verdict :: "(bytes \<Rightarrow> bytes) \<Rightarrow> prims \<Rightarrow> nat \<Rightarrow> Tx \<Rightarrow> Hash \<Rightarrow> nat \<Rightarrow> Hash \<Rightarrow> (val_error, unit) outcome" where
  "verdict H P F tx b n h = fst (plainValid H P F n (callOf tx b h) (tx_Entries tx h) ())"

lemma sameCall_callOf: "sameCall tx b (callOf tx b h) (callOf tx b h) (tx_Entries tx h)"
  by (simp add: sameCall_def callOf_def)

lemma sameCall_left: "sameCall tx b vs vs' e \<Longrightarrow> sameCall tx b (callOf tx b (vs_entryID vs')) vs' e"
  by (auto simp: sameCall_def callOf_def)

lemma verdict_mono: "verdict H P F tx b n h \<noteq> Diverge \<Longrightarrow> verdict H P F tx b (n + k) h = verdict H P F tx b n h"
  unfolding verdict_def by (rule plain_eq [OF sameCall_callOf])

lemma verdict_unique:
  assumes "verdict H P F tx b n h \<noteq> Diverge" and "verdict H P F tx b m h \<noteq> Diverge"
  shows "verdict H P F tx b n h = verdict H P F tx b m h"
  using verdict_mono [OF assms(1), of m] verdict_mono [OF assms(2), of n] by (simp add: add.commute)

lemma plain_verdict:
  assumes "sameCall tx b vs vs' e" and "fst (plainValid H P F n vs' e ()) \<noteq> Diverge"
  shows "verdict H P F tx b n (vs_entryID vs') = fst (plainValid H P F n vs' e ())"
proof -
  have "tx_Entries tx (vs_entryID vs') = e" using assms(1) by (auto simp: sameCall_def)
  then show ?thesis using plain_eq [OF sameCall_left [OF assms(1)] assms(2), of 0] by (simp add: verdict_def)
qed

section \<open>The memo table\<close>

text \<open>
  A transaction is consistent if its entries are stored under their IDs, and nothing is stored under the ID
  of nil. A table is sound if it holds verdicts of the reference.
\<close>

definition consistent :: "(bytes \<Rightarrow> bytes) \<Rightarrow> Tx \<Rightarrow> bool" where
  "consistent H tx \<longleftrightarrow> (\<forall>h e h'. tx_Entries tx h = Some e \<longrightarrow> entryID H (Some e) = (Ok h' :: (val_error, Hash) outcome) \<longrightarrow> h' = h) \<and>
     tx_Entries tx zeroHash = None"

definition sound :: "(bytes \<Rightarrow> bytes) \<Rightarrow> prims \<Rightarrow> nat \<Rightarrow> Tx \<Rightarrow> Hash \<Rightarrow> cache \<Rightarrow> bool" where
  "sound H P F tx b c \<longleftrightarrow> (\<forall>h r. c h = Some r \<longrightarrow>
     (\<exists>n. verdict H P F tx b n h = (case r of None \<Rightarrow> Ok () | Some e \<Rightarrow> Fail e)))"

lemma sound_update:
  "sound H P F tx b c \<Longrightarrow> verdict H P F tx b n h = (case r of None \<Rightarrow> Ok () | Some e \<Rightarrow> Fail e) \<Longrightarrow> sound H P F tx b (c(h \<mapsto> r))"
  by (auto simp: sound_def)

lemma memo_agrees:
  assumes cons: "consistent H tx" and "sameCall tx b vs vs' e"
    and body: "agree (sound H P F tx b) m (checkBody H P F (plainValid H P F n) vs' e)"
  shows "agree (sound H P F tx b) (memo H e m) (plainValid H P F (Suc n) vs' e)"
  unfolding agree_def
proof (intro allI impI)
  fix c assume c: "sound H P F tx b c" and d: "fst (plainValid H P F (Suc n) vs' e ()) \<noteq> Diverge"
  let ?r = "fst (plainValid H P F (Suc n) vs' e ())"
  show "fst (memo H e m c) = ?r \<and> sound H P F tx b (snd (memo H e m c))"
  proof (cases "entryID H e :: (val_error, Hash) outcome")
    case (Ok h)
    have e: "tx_Entries tx (vs_entryID vs') = e" using assms(2) by (auto simp: sameCall_def)
    have h: "h = vs_entryID vs' \<or> e = None \<and> h = zeroHash"
      using cons Ok e by (cases e) (auto simp: consistent_def entryID_def)
    have v: "verdict H P F tx b (Suc n) h = ?r"
    proof (cases e)
      case None
      then have "tx_Entries tx h = None" using h e cons by (auto simp: consistent_def)
      with None show ?thesis by (simp add: verdict_def checkBody_def bindA_def pureA_def entryID_def)
    next
      case Some
      then show ?thesis using plain_verdict [OF assms(2) d] h by auto
    qed
    show ?thesis
    proof (cases "c h")
      case (Some r)
      then obtain k where k: "verdict H P F tx b k h = (case r of None \<Rightarrow> Ok () | Some e \<Rightarrow> Fail e)"
        using c by (auto simp: sound_def)
      then have "?r = (case r of None \<Rightarrow> Ok () | Some e \<Rightarrow> Fail e)"
        using verdict_unique [of H P F tx b k h "Suc n"] d v by (cases r) auto
      then show ?thesis using c Some Ok by (cases r) (simp_all add: memo_def bindA_def pureA_def)
    next
      case None
      have r: "fst (checkBody H P F (plainValid H P F n) vs' e ()) = ?r" by (simp add: bindA_def pureA_def Ok)
      then have m: "fst (m c) = ?r" "sound H P F tx b (snd (m c))" using body c d by (auto simp: agree_def)
      obtain c' where "m c = (?r, c')" "sound H P F tx b c'" using m by (cases "m c") auto
      then show ?thesis using None Ok d v
        by (cases ?r) (auto simp: memo_def bindA_def [of "pureA _"] pureA_def simp del: plainValid.simps intro: sound_update)
    qed
  qed (use c in \<open>auto simp: memo_def bindA_def pureA_def\<close>)
qed

lemma checkValid_agrees:
  assumes "consistent H tx"
  shows "related (agree (sound H P F tx b)) tx b (checkValid H P F n) (plainValid H P F n)"
proof (induction n)
  case 0
  show ?case by (simp add: related_def agree_def pureA_def)
next
  case (Suc n)
  show ?case unfolding related_def checkValid.simps
    using memo_agrees [OF assms _ agreement.body [OF Suc]] by (auto simp del: plainValid.simps)
qed

text \<open>Conversely, what the walk with the table finds is the verdict of the reference with enough depth.\<close>

definition plainAt :: "(bytes \<Rightarrow> bytes) \<Rightarrow> prims \<Rightarrow> nat \<Rightarrow> nat checker" where
  "plainAt H P F vs e k = (fst (plainValid H P F k vs e ()), k)"

lemma sameCall_sym: "sameCall tx b vs vs' e \<Longrightarrow> sameCall tx b vs' vs e"
  by (auto simp: sameCall_def)

lemma plain_same: "sameCall tx b vs vs' e \<Longrightarrow> fst (plainValid H P F n vs e ()) = fst (plainValid H P F n vs' e ())"
  using plain_eq [of tx b vs vs' e H P F n 0] plain_eq [of tx b vs' vs e H P F n 0] sameCall_sym [of tx b vs vs' e]
  unfolding add_0_right by metis

lemma body_at:
  assumes "sameCall tx b vs vs' e" and "entryID H e = (Ok h :: (val_error, Hash) outcome)"
  shows "checkBody H P F (plainAt H P F) vs e k = (fst (plainValid H P F (Suc k) vs' e ()), k)"
proof -
  have "related (atDepth k) tx b (plainAt H P F) (plainValid H P F k)"
    using plain_same by (auto simp: related_def atDepth_def plainAt_def)
  from depth_fixed.body [OF this assms(1), of H P F] show ?thesis
    using assms(2) by (simp add: atDepth_def bindA_pure)
qed

lemma verdict_at:
  assumes "consistent H tx" and "sameCall tx b vs vs' e" and "entryID H e = (Ok h :: (val_error, Hash) outcome)"
  shows "verdict H P F tx b (Suc k) h = fst (plainValid H P F (Suc k) vs' e ())"
proof (cases e)
  case None
  then have "h = zeroHash" using assms(3) by (simp add: entryID_def)
  with None assms(1) show ?thesis by (simp add: verdict_def consistent_def checkBody_def bindA_def pureA_def entryID_def)
next
  case (Some x)
  have e: "tx_Entries tx (vs_entryID vs') = e" using assms(2) by (auto simp: sameCall_def)
  then have h: "h = vs_entryID vs'" using assms(1,3) Some by (auto simp: consistent_def)
  show ?thesis using plain_same [OF sameCall_left [OF assms(2)], of H P F "Suc k"] e h by (simp add: verdict_def del: plainValid.simps)
qed

lemma mustWriteForHash_no_Fail: "mustWriteForHash vs \<noteq> Fail x"
  by (induction vs) (auto simp: bindO_def split: prod.splits option.splits outcome.splits)

lemma entryID_no_Fail: "entryID H e \<noteq> Fail x"
  using mustWriteForHash_no_Fail [of _ x] by (auto simp: entryID_def bindO_def split: option.splits outcome.splits)

lemma memo_settles:
  assumes cons: "consistent H tx" and same: "sameCall tx b vs vs' e"
    and body: "settles (sound H P F tx b) m (checkBody H P F (plainAt H P F) vs' e)"
  shows "settles (sound H P F tx b) (memo H e m) (plainAt H P F vs' e)"
  unfolding settles_def
proof (intro allI impI)
  fix c assume c: "sound H P F tx b c" and d: "fst (memo H e m c) \<noteq> Diverge"
  have same': "sameCall tx b vs' vs' e" using same by (auto simp: sameCall_def)
  show "sound H P F tx b (snd (memo H e m c)) \<and> (\<exists>k0. \<forall>k \<ge> k0. plainAt H P F vs' e k = (fst (memo H e m c), k))"
  proof (cases "entryID H e :: (val_error, Hash) outcome")
    case (Ok h)
    have at: "plainAt H P F vs' e (Suc k) = (verdict H P F tx b (Suc k) h, Suc k)" for k
      using verdict_at [OF cons same' Ok, of P F k] by (simp add: plainAt_def del: plainValid.simps)
    have lim: "\<exists>k0. \<forall>k \<ge> k0. plainAt H P F vs' e k = (r, k)" if "verdict H P F tx b n h = r" "r \<noteq> Diverge" for n r
    proof (intro exI [of _ "Suc n"] allI impI)
      fix k assume "Suc n \<le> k"
      then obtain j where "k = Suc j" "n \<le> k" by (cases k) auto
      with verdict_mono [of H P F tx b n h "k - n"] that show "plainAt H P F vs' e k = (r, k)" using at [of j] by simp
    qed
    show ?thesis
    proof (cases "c h")
      case (Some r)
      then obtain n where "verdict H P F tx b n h = (case r of None \<Rightarrow> Ok () | Some e \<Rightarrow> Fail e)" using c by (auto simp: sound_def)
      from lim [OF this] c Some Ok show ?thesis by (cases r) (simp_all add: memo_def bindA_pure)
    next
      case None
      have "fst (m c) \<noteq> Diverge" using d None Ok by (cases "m c") (auto simp: memo_def bindA_pure)
      then obtain k0 where k0: "sound H P F tx b (snd (m c))" "\<forall>k \<ge> k0. checkBody H P F (plainAt H P F) vs' e k = (fst (m c), k)"
        using body c unfolding settles_def by blast
      then have v: "verdict H P F tx b (Suc k0) h = fst (m c)"
        using verdict_at [OF cons same' Ok, of P F k0] body_at [OF same' Ok, of P F k0] by simp
      obtain r c' where mc: "m c = (r, c')" "sound H P F tx b c'" "verdict H P F tx b (Suc k0) h = r" "r \<noteq> Diverge"
        using k0(1) v \<open>fst (m c) \<noteq> Diverge\<close> by (cases "m c") auto
      have "fst (memo H e m c) = r" "sound H P F tx b (snd (memo H e m c))"
        using mc None Ok by (cases r; auto simp: memo_def bindA_pure intro: sound_update)+
      then show ?thesis using lim [OF mc(3,4)] by simp
    qed
  next
    case Crash
    have "plainAt H P F vs' e (Suc k) = (Crash, Suc k)" for k by (simp add: plainAt_def bindA_pure Crash pureA_def)
    then have "\<forall>k \<ge> Suc 0. plainAt H P F vs' e k = (Crash, k)" by (metis Suc_le_D)
    with Crash c show ?thesis by (auto simp: memo_def bindA_pure pureA_def)
  next
    case (Fail x)
    then show ?thesis by (simp add: entryID_no_Fail)
  next
    case Diverge
    with d show ?thesis by (simp add: memo_def bindA_pure pureA_def)
  qed
qed

lemma checkValid_settles:
  assumes "consistent H tx"
  shows "related (settles (sound H P F tx b)) tx b (checkValid H P F n) (plainAt H P F)"
proof (induction n)
  case 0
  show ?case by (simp add: related_def settles_def pureA_def)
next
  case (Suc n)
  show ?case unfolding related_def checkValid.simps
    using memo_settles [OF assms _ settling.body [OF Suc]] by auto
qed

lemma ValidateTx_verdict:
  assumes "consistent H tx" and "tx_Entries tx (tx_ID tx) = Some (ETxHeader (tx_TxHeader tx))"
  shows "verdict H P F tx b n (tx_ID tx) \<noteq> Diverge \<Longrightarrow> ValidateTx H P F n tx b = verdict H P F tx b n (tx_ID tx)"
    and "ValidateTx H P F n tx b \<noteq> Diverge \<Longrightarrow> \<exists>k0. \<forall>k \<ge> k0. verdict H P F tx b k (tx_ID tx) = ValidateTx H P F n tx b"
proof -
  have s: "sound H P F tx b (\<lambda>_. None)" by (simp add: sound_def)
  note same = sameCall_callOf [of tx b "tx_ID tx"]
  have "agree (sound H P F tx b) (checkValid H P F n (callOf tx b (tx_ID tx)) (tx_Entries tx (tx_ID tx)))
      (plainValid H P F n (callOf tx b (tx_ID tx)) (tx_Entries tx (tx_ID tx)))"
    using checkValid_agrees [OF assms(1)] same unfolding related_def by blast
  with s show "verdict H P F tx b n (tx_ID tx) \<noteq> Diverge \<Longrightarrow> ValidateTx H P F n tx b = verdict H P F tx b n (tx_ID tx)"
    by (simp add: agree_def ValidateTx_def verdict_def callOf_def assms(2))
  have "settles (sound H P F tx b) (checkValid H P F n (callOf tx b (tx_ID tx)) (tx_Entries tx (tx_ID tx)))
      (plainAt H P F (callOf tx b (tx_ID tx)) (tx_Entries tx (tx_ID tx)))"
    using checkValid_settles [OF assms(1)] same unfolding related_def by blast
  with s show "ValidateTx H P F n tx b \<noteq> Diverge \<Longrightarrow> \<exists>k0. \<forall>k \<ge> k0. verdict H P F tx b k (tx_ID tx) = ValidateTx H P F n tx b"
    by (simp add: settles_def ValidateTx_def verdict_def callOf_def assms(2) plainAt_def)
qed

section \<open>Properties\<close>

text \<open>
  C16. Memoization is sound: the verdict of \<open>ValidateTx\<close>, error included, is that of the walk without a memo table,
  provided the entries are stored under their IDs. If the plain walk ends with depth \<open>n\<close>, so does the walk with the
  table and with the same verdict; if the walk with the table ends, the plain walk does with every large enough
  depth.
\<close>
theorem validation_memo_transparent:
  assumes "consistent H tx" and "tx_Entries tx (tx_ID tx) = Some (ETxHeader (tx_TxHeader tx))"
  shows "(verdict H P F tx b n (tx_ID tx) \<noteq> Diverge \<longrightarrow> ValidateTx H P F n tx b = verdict H P F tx b n (tx_ID tx)) \<and>
    (ValidateTx H P F n tx b \<noteq> Diverge \<longrightarrow> (\<exists>k0. \<forall>k \<ge> k0. verdict H P F tx b k (tx_ID tx) = ValidateTx H P F n tx b))"
  using ValidateTx_verdict [OF assms] by blast

lemma retire_consistent: "consistent lengthHash retireTx"
proof -
  have "tx_Entries retireTx h = Some e \<Longrightarrow> entryID lengthHash (Some e) = (Ok h' :: (val_error, Hash) outcome) \<Longrightarrow> h' = h" for h e h'
    using idOf_distinct retire_ids by (auto simp: retireTx_def split: if_splits)
  moreover have "tx_Entries retireTx zeroHash = None" using idOf_distinct by (auto simp: retireTx_def)
  ultimately show ?thesis by (auto simp: consistent_def)
qed

lemma validation_memo_transparent_witness:
  "consistent lengthHash retireTx \<and> (\<exists>k0. \<forall>k \<ge> k0. verdict lengthHash toyPrims 9 retireTx zeroHash k (tx_ID retireTx) = Ok ())"
proof -
  have "ValidateTx lengthHash toyPrims 9 9 retireTx zeroHash = Ok ()"
    using retire_valid [of toyPrims 7 5 zeroHash] by (simp add: eval_nat_numeral)
  with validation_memo_transparent [OF retire_consistent, of toyPrims 9 zeroHash 9] show ?thesis
    by (simp add: retire_entries retire_consistent)
qed

end
