(* ===== verification/Validation_Value.thy ===== *)
theory Validation_Value
  imports Validation_Memo
begin

text \<open>
  A valid transaction creates no value: for every asset, its outputs and retirements together are worth at
  most what its spends and issuances bring in. The argument follows the links that \<open>checkValid\<close>
  verifies: every value source is matched with a value destination that points back to it, so no destination is
  used twice, and a mux balances.
\<close>

section \<open>The balance of a mux\<close>

definition amountIn :: "AssetID \<Rightarrow> AssetAmount option \<Rightarrow> int" where
  "amountIn a v = (case v of None \<Rightarrow> 0 | Some x \<Rightarrow> if amt_AssetId x = Some a then uint (amt_Amount x) else 0)"

definition srcAmount :: "AssetID \<Rightarrow> ValueSource option \<Rightarrow> int" where
  "srcAmount a s = (case s of None \<Rightarrow> 0 | Some x \<Rightarrow> amountIn a (src_Value x))"

definition dstAmount :: "AssetID \<Rightarrow> ValueDestination option \<Rightarrow> int" where
  "dstAmount a d = (case d of None \<Rightarrow> 0 | Some x \<Rightarrow> amountIn a (dst_Value x))"

definition parityAt :: "parity \<Rightarrow> AssetID \<Rightarrow> int" where
  "parityAt p i = (case map_of p i of None \<Rightarrow> 0 | Some n \<Rightarrow> n)"

definition parityOk :: "parity \<Rightarrow> bool" where
  "parityOk p \<longleftrightarrow> (\<forall>i n. map_of p i = Some n \<longrightarrow> in_i64 n)"

lemma in_i64_0: "in_i64 0"
  by (simp add: in_i64_iff)

lemma parityAt_in: "parityOk p \<Longrightarrow> in_i64 (parityAt p i)"
  using in_i64_0 by (auto simp: parityAt_def parityOk_def split: option.split)

lemma parity_update:
  "parityAt (AList.update i n p) j = (if j = i then n else parityAt p j)"
  "parityOk p \<Longrightarrow> in_i64 n \<Longrightarrow> parityOk (AList.update i n p)"
  by (auto simp: parityAt_def parityOk_def update_conv)

lemma addSource_Ok:
  assumes "addSource s p = Ok p'" and "parityOk p"
  shows "parityOk p' \<and> (\<forall>a. parityAt p' a = parityAt p a + i64 (srcAmount a s))"
proof -
  obtain x where x: "s = Some x" using assms(1) by (cases s) (simp_all add: addSource_def)
  obtain n where n: "src_Value x = Some n" using assms(1) by (cases "src_Value x") (simp_all add: addSource_def valueOf_def x)
  obtain i where i: "amt_AssetId n = Some i" using assms(1) by (cases "amt_AssetId n") (simp_all add: addSource_def valueOf_def x n)
  note s = x n i
  obtain m where m: "AddInt64 (parityAt p i) (i64 (uint (amt_Amount n))) = Some m" "p' = AList.update i m p"
    using assms(1) by (cases "map_of p i"; cases "AddInt64 (parityAt p i) (i64 (uint (amt_Amount n)))")
      (simp_all add: addSource_def valueOf_def s parityAt_def)
  then have "m = parityAt p i + i64 (uint (amt_Amount n))" "in_i64 m"
    using AddS_exact [of 64 "parityAt p i" "i64 (uint (amt_Amount n))"] parityAt_in [OF assms(2)]
    by (auto simp: AddInt64_def split: if_splits)
  then show ?thesis using m(2) assms(2) s in_i64_0
    by (auto simp: parity_update srcAmount_def amountIn_def)
qed

lemma subDestination_Ok:
  assumes "subDestination d p = Ok p'" and "parityOk p"
  shows "parityOk p' \<and> (\<forall>a. parityAt p' a = parityAt p a - i64 (dstAmount a d))"
proof -
  obtain x where x: "d = Some x" using assms(1) by (cases d) (simp_all add: subDestination_def)
  obtain n where n: "dst_Value x = Some n" using assms(1) by (cases "dst_Value x") (simp_all add: subDestination_def valueOf_def x)
  obtain i where i: "amt_AssetId n = Some i" using assms(1) by (cases "amt_AssetId n") (simp_all add: subDestination_def valueOf_def x n)
  note s = x n i
  obtain m where m: "SubInt64 (parityAt p i) (i64 (uint (amt_Amount n))) = Some m" "p' = AList.update i m p"
    using assms(1) by (cases "map_of p i"; cases "SubInt64 (parityAt p i) (i64 (uint (amt_Amount n)))")
      (simp_all add: subDestination_def valueOf_def s parityAt_def)
  then have "m = parityAt p i - i64 (uint (amt_Amount n))" "in_i64 m"
    using SubS_exact [of 64 "parityAt p i" "i64 (uint (amt_Amount n))"] parityAt_in [OF assms(2)]
    by (auto simp: SubInt64_def split: if_splits)
  then show ?thesis using m(2) assms(2) s in_i64_0
    by (auto simp: parity_update dstAmount_def amountIn_def)
qed

lemma addSources_Ok:
  "foldO addSource ss p = Ok p' \<Longrightarrow> parityOk p \<Longrightarrow>
    parityOk p' \<and> (\<forall>a. parityAt p' a = parityAt p a + (\<Sum>s\<leftarrow>ss. i64 (srcAmount a s)))"
proof (induction ss arbitrary: p)
  case (Cons s ss)
  then obtain p1 where p1: "addSource s p = Ok p1" "foldO addSource ss p1 = Ok p'" by (auto simp: bindO_Ok_iff)
  with Cons.IH [of p1] addSource_Ok [OF p1(1) Cons.prems(2)] show ?case by auto
qed simp

lemma subDestinations_Ok:
  "foldO subDestination ds p = Ok p' \<Longrightarrow> parityOk p \<Longrightarrow>
    parityOk p' \<and> (\<forall>a. parityAt p' a = parityAt p a - (\<Sum>d\<leftarrow>ds. i64 (dstAmount a d)))"
proof (induction ds arbitrary: p)
  case (Cons d ds)
  then obtain p1 where p1: "subDestination d p = Ok p1" "foldO subDestination ds p1 = Ok p'" by (auto simp: bindO_Ok_iff)
  with Cons.IH [of p1] subDestination_Ok [OF p1(1) Cons.prems(2)] show ?case by auto
qed simp

lemma checkBalance_Ok:
  assumes "checkBalance m = Ok ()"
  shows "(\<Sum>s\<leftarrow>mux_Sources m. i64 (srcAmount a s)) = (\<Sum>d\<leftarrow>mux_WitnessDestinations m. i64 (dstAmount a d))"
proof -
  obtain p p' where p: "foldO addSource (mux_Sources m) [] = Ok p" "foldO subDestination (mux_WitnessDestinations m) p = Ok p'"
    and zero: "\<not> list_ex (\<lambda>(i, n). n \<noteq> 0) p'"
    using assms by (auto simp: checkBalance_def bindO_Ok_iff)
  have "parityAt p' a = 0"
  proof (cases "map_of p' a")
    case (Some n)
    then show ?thesis using zero map_of_SomeD [OF Some] by (auto simp: parityAt_def list_ex_iff)
  qed (simp add: parityAt_def)
  then show ?thesis using addSources_Ok [OF p(1)] subDestinations_Ok [OF p(2)]
    by (simp add: parityOk_def parityAt_def)
qed

section \<open>What a valid verdict says\<close>

lemma bindA_unit [simp]: "fst (bindA m f u) = bindO (fst (m ())) (\<lambda>a. fst (f a ()))"
  by (cases "m ()") (simp add: bindA_def split: outcome.split)

lemma pureA_unit [simp]: "fst (pureA m s) = m"
  by (simp add: pureA_def)

lemma forA_unit [simp]: "fst (forA f xs u) = forO (\<lambda>x. fst (f x ())) xs"
  by (induction xs arbitrary: u) simp_all

lemma case_option_unit: "fst ((case x of None \<Rightarrow> m | Some a \<Rightarrow> f a) u) = (case x of None \<Rightarrow> fst (m u) | Some a \<Rightarrow> fst (f a u))"
  by (cases x) simp_all

definition valid :: "(bytes \<Rightarrow> bytes) \<Rightarrow> prims \<Rightarrow> nat \<Rightarrow> Tx \<Rightarrow> Hash \<Rightarrow> Hash \<Rightarrow> bool" where
  "valid H P F tx b h \<longleftrightarrow> (\<exists>n. verdict H P F tx b n h = Ok ())"

lemma valid_call:
  assumes "fst (plainValid H P F n vs e ()) = Ok ()" and "vs_tx vs = tx" and "vs_blockchainID vs = b"
    and "tx_Entries tx (vs_entryID vs) = e"
  shows "valid H P F tx b (vs_entryID vs)"
  using plain_verdict [of tx b vs vs e H P F n] assms by (auto simp: valid_def sameCall_def)

lemma valid_body:
  assumes "valid H P F tx b h"
  shows "\<exists>n e. tx_Entries tx h = Some e \<and> (\<exists>i. entryID H (Some e) = (Ok i :: (val_error, Hash) outcome)) \<and>
    fst (checkBody H P F (plainValid H P F n) (callOf tx b h) (Some e) ()) = Ok ()"
proof -
  obtain m where "verdict H P F tx b m h = Ok ()" using assms by (auto simp: valid_def)
  then obtain n where "fst (plainValid H P F (Suc n) (callOf tx b h) (tx_Entries tx h) ()) = Ok ()"
    by (cases m) (auto simp: verdict_def)
  then show ?thesis by (cases "tx_Entries tx h") (auto simp: bindO_Ok_iff checkBody_def)
qed

text \<open>A source of the entry \<open>h\<close> that is matched by a destination pointing back to it.\<close>

definition linked :: "Tx \<Rightarrow> Hash \<Rightarrow> uint64 \<Rightarrow> ValueSource \<Rightarrow> Hash \<Rightarrow> bool" where
  "linked tx h pos s ref \<longleftrightarrow> src_Ref s = Some ref \<and> (\<exists>e d. tx_Entries tx ref = Some e \<and> destAt e (src_Position s) = Ok (Some d) \<and>
     dst_Ref d = Some h \<and> dst_Position d = pos \<and> amountEqual (dst_Value d) (src_Value s) = Some True)"

lemma agrees_Ok: "agrees self pos v ref rpos rv = Ok () \<longleftrightarrow> ref = Some self \<and> rpos = pos \<and> amountEqual rv v = Some True"
  by (auto simp: agrees_def split: option.splits if_splits)

lemma checkValidSrc_Ok:
  assumes "fst (checkValidSrc (plainValid H P F n) ((callOf tx b h)\<lparr>vs_sourcePos := pos\<rparr>) so ()) = Ok ()"
  shows "\<exists>s ref. so = Some s \<and> linked tx h pos s ref \<and> valid H P F tx b ref"
proof -
  let ?vs = "(callOf tx b h)\<lparr>vs_sourcePos := pos\<rparr>"
  obtain s where s: "so = Some s" using assms by (cases so) (simp_all add: checkValidSrc_def)
  obtain ref where ref: "src_Ref s = Some ref" using assms by (cases "src_Ref s") (simp_all add: checkValidSrc_def s)
  have val: "\<not> (src_Value s = None \<or> amt_AssetId (the (src_Value s)) = None)"
    using assms by (cases "src_Value s = None \<or> amt_AssetId (the (src_Value s)) = None") (simp_all add: checkValidSrc_def s ref)
  have tx: "vs_tx ?vs = tx" by (simp add: callOf_def)
  obtain e where e: "tx_Entries tx ref = Some e" using assms val
    by (cases "tx_Entries tx ref") (simp_all add: checkValidSrc_def s ref tx)
  have "bindO (fst (plainValid H P F n (?vs\<lparr>vs_entryID := ref\<rparr>) (Some e) ())) (\<lambda>_.
      bindO (destAt e (src_Position s)) (\<lambda>dest. bindO (deref dest) (\<lambda>d.
        agrees h pos (src_Value s) (dst_Ref d) (dst_Position d) (dst_Value d)))) = Ok ()"
    using assms val by (simp add: checkValidSrc_def s ref tx e callOf_def)
  then obtain d where rec: "fst (plainValid H P F n (?vs\<lparr>vs_entryID := ref\<rparr>) (Some e) ()) = Ok ()"
    and d: "destAt e (src_Position s) = Ok (Some d)" "agrees h pos (src_Value s) (dst_Ref d) (dst_Position d) (dst_Value d) = Ok ()"
    by (auto simp: bindO_Ok_iff)
  have "valid H P F tx b ref" using valid_call [OF rec, of tx b] e by (simp add: callOf_def)
  with d show ?thesis using s ref e by (auto simp: linked_def agrees_Ok)
qed

text \<open>The value that enters an entry (sources) and leaves it (destinations).\<close>

fun sources :: "Entry \<Rightarrow> ValueSource option list" where
  "sources (EOutput e) = [out_Source e]"
| "sources (ERetirement e) = [ret_Source e]"
| "sources (EMux e) = mux_Sources e"
| "sources _ = []"

fun destinations :: "Entry \<Rightarrow> ValueDestination option list" where
  "destinations (EIssuance e) = [iss_WitnessDestination e]"
| "destinations (ESpend e) = [sp_WitnessDestination e]"
| "destinations (EMux e) = mux_WitnessDestinations e"
| "destinations _ = []"

lemma indexed_mem: "i < length xs \<Longrightarrow> (word_of_nat i, xs ! i) \<in> set (indexed xs)"
  by (auto simp: indexed_def set_zip intro!: exI [of _ i])

lemma valid_sources:
  assumes "valid H P F tx b h" and "tx_Entries tx h = Some e" and "i < length (sources e)"
  shows "\<exists>s ref. sources e ! i = Some s \<and> linked tx h (word_of_nat i) s ref \<and> valid H P F tx b ref"
proof -
  obtain n where n: "fst (checkBody H P F (plainValid H P F n) (callOf tx b h) (Some e) ()) = Ok ()"
    using valid_body [OF assms(1)] assms(2) by auto
  have "fst (checkValidSrc (plainValid H P F n) ((callOf tx b h)\<lparr>vs_sourcePos := word_of_nat i\<rparr>) (sources e ! i) ()) = Ok ()"
    using assms(3) n indexed_mem [of i "sources e"]
    by (cases e) (auto simp: checkBody_def checkMuxEntry_def bindO_Ok_iff forO_Ok_iff)
  then show ?thesis by (rule checkValidSrc_Ok)
qed

lemma valid_mux:
  assumes "valid H P F tx b h" and "tx_Entries tx h = Some (EMux m)"
  shows "checkBalance m = Ok ()" and "\<exists>i. entryID H (Some (EMux m)) = (Ok i :: (val_error, Hash) outcome)"
proof -
  obtain n where n: "fst (checkBody H P F (plainValid H P F n) (callOf tx b h) (Some (EMux m)) ()) = Ok ()"
    and i: "\<exists>i. entryID H (Some (EMux m)) = (Ok i :: (val_error, Hash) outcome)"
    using valid_body [OF assms(1)] assms(2) by auto
  show "checkBalance m = Ok ()" using n by (auto simp: checkBody_def checkMuxEntry_def bindO_Ok_iff)
  show "\<exists>i. entryID H (Some (EMux m)) = (Ok i :: (val_error, Hash) outcome)" by (rule i)
qed

text \<open>An amount that is hashed fits 63 bits.\<close>

lemma writeEach_fine: "snd (writeEach vs) = None \<Longrightarrow> v \<in> set vs \<Longrightarrow> snd (writeForHash v) = None"
  by (induction vs) (auto simp: andThen_def split: prod.splits option.splits)

lemma hashed_source_small:
  assumes "entryID H (Some (EMux m)) = (Ok i :: (val_error, Hash) outcome)" and "Some s \<in> set (mux_Sources m)" and "src_Value s = Some v"
  shows "uint (amt_Amount v) < 2 ^ 63"
proof -
  let ?vs = "map (\<lambda>s. GPtr (map_option goValueSource s)) (mux_Sources m)"
  have "snd (writeEach (hashedParts (EMux m))) = None" using assms(1) by (auto simp: entryID_Ok)
  then have "snd (writeForHash (GSlice ?vs)) = None" by (rule writeEach_fine) simp
  then have "snd (writeEach ?vs) = None" by (auto simp: andThen_def split: prod.splits option.splits)
  then have "snd (writeForHash (GPtr (map_option goValueSource (Some s)))) = None"
    by (rule writeEach_fine) (use assms(2) in \<open>auto intro: image_eqI [of _ _ "Some s"]\<close>)
  then have "snd (writeForHash (GPtr (Some (goAssetAmount v)))) = None"
    by (intro writeEach_fine [of "[GHashPtr (src_Ref s), GPtr (Some (goAssetAmount v)), GUint64 (src_Position s)]"])
       (simp_all add: goValueSource_def assms(3))
  then have "snd (writeForHash (GUint64 (amt_Amount v))) = None"
    by (intro writeEach_fine [of "[GAssetIDPtr (amt_AssetId v), GUint64 (amt_Amount v)]"]) (simp_all add: goAssetAmount_def)
  then show ?thesis
    by (auto simp: emit_def WriteVarint63_def word_less_def not_less split: if_splits sum.splits)
qed

text \<open>The destinations of a mux carry less than \<open>2 ^ 63\<close> units each.\<close>

definition smallDests :: "Tx \<Rightarrow> bool" where
  "smallDests tx \<longleftrightarrow> (\<forall>h m d v. tx_Entries tx h = Some (EMux m) \<longrightarrow> Some d \<in> set (mux_WitnessDestinations m) \<longrightarrow>
     dst_Value d = Some v \<longrightarrow> uint (amt_Amount v) < 2 ^ 63)"

lemma amountIn_nonneg: "0 \<le> amountIn a v"
  by (simp add: amountIn_def split: option.splits)

lemma amountIn_exact:
  assumes "\<And>x. v = Some x \<Longrightarrow> uint (amt_Amount x) < 2 ^ 63"
  shows "i64 (amountIn a v) = amountIn a v"
proof (rule i64_small)
  show "- 9223372036854775808 \<le> amountIn a v" using amountIn_nonneg [of a v] by linarith
  show "amountIn a v \<le> 9223372036854775807" using assms by (force simp: amountIn_def split: option.splits)
qed

lemma mux_balances:
  assumes "valid H P F tx b h" and "tx_Entries tx h = Some (EMux m)" and "smallDests tx"
  shows "(\<Sum>s\<leftarrow>mux_Sources m. srcAmount a s) = (\<Sum>d\<leftarrow>mux_WitnessDestinations m. dstAmount a d)"
proof -
  note v = valid_mux [OF assms(1,2)]
  have "i64 (srcAmount a s) = srcAmount a s" if "s \<in> set (mux_Sources m)" for s
  proof (cases s)
    case (Some x)
    with v(2) that hashed_source_small [of H m _ x] have "i64 (amountIn a (src_Value x)) = amountIn a (src_Value x)"
      by (intro amountIn_exact) auto
    with Some show ?thesis by (simp add: srcAmount_def)
  qed (use in_i64_0 in \<open>simp add: srcAmount_def\<close>)
  then have "(\<Sum>s\<leftarrow>mux_Sources m. i64 (srcAmount a s)) = (\<Sum>s\<leftarrow>mux_Sources m. srcAmount a s)"
    by (simp cong: map_cong)
  moreover have "i64 (dstAmount a d) = dstAmount a d" if "d \<in> set (mux_WitnessDestinations m)" for d
  proof (cases d)
    case (Some x)
    with assms(2,3) that have "i64 (amountIn a (dst_Value x)) = amountIn a (dst_Value x)"
      by (intro amountIn_exact) (auto simp: smallDests_def)
    with Some show ?thesis by (simp add: dstAmount_def)
  qed (use in_i64_0 in \<open>simp add: dstAmount_def\<close>)
  then have "(\<Sum>d\<leftarrow>mux_WitnessDestinations m. i64 (dstAmount a d)) = (\<Sum>d\<leftarrow>mux_WitnessDestinations m. dstAmount a d)"
    by (simp cong: map_cong)
  ultimately show ?thesis using checkBalance_Ok [OF v(1), of a] by simp
qed

section \<open>Following the links\<close>

text \<open>The entries whose value reaches a result: what \<open>checkValid\<close> visits along value sources.\<close>

inductive_set reach :: "Tx \<Rightarrow> Hash set" for tx where
  result: "Some r \<in> set (hdr_ResultIds (tx_TxHeader tx)) \<Longrightarrow> r \<in> reach tx"
| follow: "h \<in> reach tx \<Longrightarrow> tx_Entries tx h = Some e \<Longrightarrow> Some s \<in> set (sources e) \<Longrightarrow> src_Ref s = Some r \<Longrightarrow> r \<in> reach tx"

text \<open>No list of sources or destinations is longer than a machine can hold, and the map of entries is finite.\<close>

definition fits :: "Tx \<Rightarrow> bool" where
  "fits tx \<longleftrightarrow> finite (dom (tx_Entries tx)) \<and>
     (\<forall>h e. tx_Entries tx h = Some e \<longrightarrow> length (sources e) < 2 ^ 63 \<and> length (destinations e) < 2 ^ 63)"

lemma reach_valid:
  assumes "\<And>r. Some r \<in> set (hdr_ResultIds (tx_TxHeader tx)) \<Longrightarrow> valid H P F tx b r"
  shows "h \<in> reach tx \<Longrightarrow> valid H P F tx b h"
proof (induction rule: reach.induct)
  case (follow h e s r)
  obtain i where "i < length (sources e)" "sources e ! i = Some s" using follow.hyps(3) by (auto simp: in_set_conv_nth)
  with valid_sources [OF follow.IH follow.hyps(2)] follow.hyps(4) show ?case by (fastforce simp: linked_def)
qed (rule assms)

lemma unat_small: "n < 2 ^ 63 \<Longrightarrow> unat (word_of_nat n :: uint64) = n"
  by (simp add: unat_of_nat)

lemma destAt_nth:
  assumes "destAt e pos = Ok d" and "length (destinations e) < 2 ^ 63"
  shows "unat pos < length (destinations e) \<and> destinations e ! unat pos = d"
  using assms unat_small [of "length (destinations e)"]
  by (cases e) (auto simp: destAt_def not_le word_less_nat_alt unat_eq_0 split: if_splits)

lemma amountEqual_same: "amountEqual x y = Some True \<Longrightarrow> amountIn a x = amountIn a y"
  by (auto simp: amountEqual_def amountIn_def split: option.splits)

text \<open>
  The edges of the graph: sources and destinations of reached entries, by entry and position. A source edge is sent
  to the destination it is linked with.
\<close>

definition srcEdges :: "Tx \<Rightarrow> (Hash \<times> nat) set" where
  "srcEdges tx = (SIGMA h : reach tx. {i. \<exists>e. tx_Entries tx h = Some e \<and> i < length (sources e)})"

definition dstEdges :: "Tx \<Rightarrow> (Hash \<times> nat) set" where
  "dstEdges tx = (SIGMA h : reach tx. {i. \<exists>e. tx_Entries tx h = Some e \<and> i < length (destinations e)})"

definition srcOf :: "Tx \<Rightarrow> Hash \<times> nat \<Rightarrow> ValueSource option" where
  "srcOf tx p = sources (the (tx_Entries tx (fst p))) ! snd p"

definition dstOf :: "Tx \<Rightarrow> Hash \<times> nat \<Rightarrow> ValueDestination option" where
  "dstOf tx p = destinations (the (tx_Entries tx (fst p))) ! snd p"

definition edgeTo :: "Tx \<Rightarrow> Hash \<times> nat \<Rightarrow> Hash \<times> nat" where
  "edgeTo tx p = (the (src_Ref (the (srcOf tx p))), unat (src_Position (the (srcOf tx p))))"

lemma edge_linked:
  assumes results: "\<And>r. Some r \<in> set (hdr_ResultIds (tx_TxHeader tx)) \<Longrightarrow> valid H P F tx b r"
    and "fits tx" and p: "p \<in> srcEdges tx"
  shows "edgeTo tx p \<in> dstEdges tx"
    and "\<exists>d. dstOf tx (edgeTo tx p) = Some d \<and> dst_Ref d = Some (fst p) \<and> unat (dst_Position d) = snd p"
    and "dstAmount a (dstOf tx (edgeTo tx p)) = srcAmount a (srcOf tx p)"
proof -
  obtain h i where hi: "p = (h, i)" by (cases p)
  then obtain e where h: "h \<in> reach tx" and e: "tx_Entries tx h = Some e" "i < length (sources e)"
    using p by (auto simp: srcEdges_def)
  obtain s ref where s: "sources e ! i = Some s" and l: "linked tx h (word_of_nat i) s ref"
    using valid_sources [OF reach_valid [OF results h] e] by blast
  obtain f d where f: "src_Ref s = Some ref" "tx_Entries tx ref = Some f" "destAt f (src_Position s) = Ok (Some d)"
    and d: "dst_Ref d = Some h" "dst_Position d = word_of_nat i" "amountEqual (dst_Value d) (src_Value s) = Some True"
    using l by (auto simp: linked_def)
  have sizes: "length (sources e) < 2 ^ 63" "length (destinations f) < 2 ^ 63" using \<open>fits tx\<close> e f by (auto simp: fits_def)
  note at = destAt_nth [OF f(3) sizes(2)]
  have "Some s \<in> set (sources e)" using s e(2) by (metis nth_mem)
  then have ref: "ref \<in> reach tx" by (rule reach.follow [OF h e(1) _ f(1)])
  have to: "edgeTo tx p = (ref, unat (src_Position s))" by (simp add: edgeTo_def srcOf_def hi e s f)
  then have dst: "dstOf tx (edgeTo tx p) = Some d" using at by (simp add: dstOf_def f)
  show "edgeTo tx p \<in> dstEdges tx" using to ref f at by (auto simp: dstEdges_def)
  have "unat (dst_Position d) = i" using d(2) e(2) sizes(1) unat_small [of i] by simp
  then show "\<exists>d. dstOf tx (edgeTo tx p) = Some d \<and> dst_Ref d = Some (fst p) \<and> unat (dst_Position d) = snd p"
    using dst d(1) by (simp add: hi)
  show "dstAmount a (dstOf tx (edgeTo tx p)) = srcAmount a (srcOf tx p)"
    using dst amountEqual_same [OF d(3)] by (simp add: dstAmount_def srcAmount_def srcOf_def hi e s)
qed

lemma edgeTo_inj:
  assumes "\<And>r. Some r \<in> set (hdr_ResultIds (tx_TxHeader tx)) \<Longrightarrow> valid H P F tx b r" and "fits tx"
  shows "inj_on (edgeTo tx) (srcEdges tx)"
proof (rule inj_onI)
  fix p q assume "p \<in> srcEdges tx" "q \<in> srcEdges tx" "edgeTo tx p = edgeTo tx q"
  then show "p = q" using edge_linked(2) [OF assms, of p] edge_linked(2) [OF assms, of q] by (auto intro!: prod_eqI)
qed

section \<open>Conservation\<close>

definition srcTotal :: "AssetID \<Rightarrow> Entry \<Rightarrow> int" where
  "srcTotal a e = (\<Sum>s\<leftarrow>sources e. srcAmount a s)"

definition dstTotal :: "AssetID \<Rightarrow> Entry \<Rightarrow> int" where
  "dstTotal a e = (\<Sum>d\<leftarrow>destinations e. dstAmount a d)"

definition entryAt :: "Tx \<Rightarrow> Hash \<Rightarrow> Entry" where
  "entryAt tx h = the (tx_Entries tx h)"

lemma sum_positions:
  assumes "finite A" and "\<And>h i. g (h, i) = f h (xs h ! i)"
  shows "(\<Sum>p \<in> (SIGMA h : A. {0..<length (xs h)}). g p) = (\<Sum>h \<in> A. \<Sum>x\<leftarrow>xs h. (f h x :: int))"
proof -
  have "(\<Sum>h \<in> A. \<Sum>x\<leftarrow>xs h. f h x) = (\<Sum>h \<in> A. \<Sum>i \<in> {0..<length (xs h)}. g (h, i))"
    by (simp add: sum_list_sum_nth assms(2))
  also have "\<dots> = (\<Sum>(h, i) \<in> (SIGMA h : A. {0..<length (xs h)}). g (h, i))" by (rule sum.Sigma) (simp_all add: assms(1))
  finally show ?thesis by simp
qed

lemma sum_edges:
  assumes "finite (reach tx)" and "\<And>h. h \<in> reach tx \<Longrightarrow> tx_Entries tx h \<noteq> None"
  shows "(\<Sum>p \<in> srcEdges tx. srcAmount a (srcOf tx p)) = (\<Sum>h \<in> reach tx. srcTotal a (entryAt tx h))"
    and "(\<Sum>p \<in> dstEdges tx. dstAmount a (dstOf tx p)) = (\<Sum>h \<in> reach tx. dstTotal a (entryAt tx h))"
    and "finite (dstEdges tx)"
proof -
  have range: "{i. \<exists>e. tx_Entries tx h = Some e \<and> i < length (f e)} = {0..<length (f (entryAt tx h))}"
    if "h \<in> reach tx" for h and f :: "Entry \<Rightarrow> 'x list"
    using assms(2) [OF that] by (auto simp: entryAt_def)
  have "srcEdges tx = (SIGMA h : reach tx. {0..<length (sources (entryAt tx h))})"
    unfolding srcEdges_def by (rule Sigma_cong [OF refl]) (rule range)
  then show "(\<Sum>p \<in> srcEdges tx. srcAmount a (srcOf tx p)) = (\<Sum>h \<in> reach tx. srcTotal a (entryAt tx h))"
    using sum_positions [OF assms(1), of "\<lambda>p. srcAmount a (srcOf tx p)" "\<lambda>_. srcAmount a" "\<lambda>h. sources (entryAt tx h)"] by (simp add: srcTotal_def srcOf_def entryAt_def)
  have dst: "dstEdges tx = (SIGMA h : reach tx. {0..<length (destinations (entryAt tx h))})"
    unfolding dstEdges_def by (rule Sigma_cong [OF refl]) (rule range)
  then show "(\<Sum>p \<in> dstEdges tx. dstAmount a (dstOf tx p)) = (\<Sum>h \<in> reach tx. dstTotal a (entryAt tx h))"
    using sum_positions [OF assms(1), of "\<lambda>p. dstAmount a (dstOf tx p)" "\<lambda>_. dstAmount a" "\<lambda>h. destinations (entryAt tx h)"] by (simp add: dstTotal_def dstOf_def entryAt_def)
  show "finite (dstEdges tx)" unfolding dst by (simp add: assms(1))
qed

text \<open>
  What an entry pays out of the transaction, and what it brings in: an issuance its \<open>Value\<close>, and a spend the
  value of the output that it spends.
\<close>

definition outflow :: "AssetID \<Rightarrow> Entry \<Rightarrow> int" where
  "outflow a e = (case e of EOutput x \<Rightarrow> srcAmount a (out_Source x) | ERetirement x \<Rightarrow> srcAmount a (ret_Source x) | _ \<Rightarrow> 0)"

definition spentAmount :: "AssetID \<Rightarrow> Tx \<Rightarrow> Spend \<Rightarrow> int" where
  "spentAmount a tx x = (case sp_SpentOutputId x of None \<Rightarrow> 0
     | Some i \<Rightarrow> (case tx_Entries tx i of Some (EOutput o1) \<Rightarrow> srcAmount a (out_Source o1) | _ \<Rightarrow> 0))"

definition inflow :: "AssetID \<Rightarrow> Tx \<Rightarrow> Entry \<Rightarrow> int" where
  "inflow a tx e = (case e of EIssuance x \<Rightarrow> amountIn a (iss_Value x) | ESpend x \<Rightarrow> spentAmount a tx x | _ \<Rightarrow> 0)"

text \<open>
  \<open>checkValid\<close> compares a spend with the output it spends but no issuance with its destination. The
  translation \<open>MapTx\<close> gives the destination of an issuance the value of the issuance; for other transactions this
  is an assumption.
\<close>

definition issuesItsValue :: "Tx \<Rightarrow> bool" where
  "issuesItsValue tx \<longleftrightarrow> (\<forall>h x d. tx_Entries tx h = Some (EIssuance x) \<longrightarrow> iss_WitnessDestination x = Some d \<longrightarrow>
     dst_Value d = iss_Value x)"

lemma valid_issuance:
  assumes "valid H P F tx b h" and "tx_Entries tx h = Some (EIssuance x)"
  shows "iss_WitnessDestination x \<noteq> None"
proof -
  obtain n where n: "fst (checkBody H P F (plainValid H P F n) (callOf tx b h) (Some (EIssuance x)) ()) = Ok ()"
    using valid_body [OF assms(1)] assms(2) by auto
  show ?thesis
    using n by (auto simp: checkBody_def checkIssuance_def bindO_Ok_iff case_option_unit checkValidDest_def
      split: option.splits prod.splits)
qed

lemma valid_spend:
  assumes "valid H P F tx b h" and "tx_Entries tx h = Some (ESpend x)"
  shows "dstAmount a (sp_WitnessDestination x) = spentAmount a tx x"
proof -
  obtain n where n: "fst (checkBody H P F (plainValid H P F n) (callOf tx b h) (Some (ESpend x)) ()) = Ok ()"
    using valid_body [OF assms(1)] assms(2) by auto
  then have "checkSpend H P F (callOf tx b h) x = Ok ()" by (simp add: checkBody_def bindO_Ok_iff)
  then obtain i s d where i: "sp_SpentOutputId x = Some i" and s: "fromLookup (txOutput tx i) = Ok s" and
    d: "sp_WitnessDestination x = Some d" "\<exists>r. out_Source s = Some r \<and> amountEqual (src_Value r) (dst_Value d) = Some True"
    by (auto simp: checkSpend_def bindO_Ok_iff failIf_def callOf_def split: option.splits if_splits)
  have "tx_Entries tx i = Some (EOutput s)" using s
    by (auto simp: fromLookup_def txOutput_def split: option.splits Entry.splits sum.splits)
  with i d show ?thesis
    using amountEqual_same [of _ "dst_Value d" a] by (auto simp: spentAmount_def dstAmount_def srcAmount_def)
qed

lemma flows:
  assumes "valid H P F tx b h" and "tx_Entries tx h = Some e" and "smallDests tx" and "issuesItsValue tx"
  shows "srcTotal a e - dstTotal a e = outflow a e - inflow a tx e"
proof (cases e)
  case (EMux m)
  then show ?thesis using mux_balances [OF assms(1) _ assms(3), of m a] assms(2)
    by (simp add: srcTotal_def dstTotal_def outflow_def inflow_def)
next
  case (EIssuance x)
  then obtain d where "iss_WitnessDestination x = Some d" "dst_Value d = iss_Value x"
    using valid_issuance [OF assms(1)] assms(2,4) by (fastforce simp: issuesItsValue_def)
  then show ?thesis by (simp add: EIssuance srcTotal_def dstTotal_def outflow_def inflow_def dstAmount_def)
next
  case (ESpend x)
  then show ?thesis using valid_spend [OF assms(1), of x a] assms(2)
    by (simp add: srcTotal_def dstTotal_def outflow_def inflow_def)
qed (simp_all add: srcTotal_def dstTotal_def outflow_def inflow_def)

lemma amounts_nonneg: "0 \<le> srcAmount a s" "0 \<le> dstAmount a d"
  by (simp_all add: srcAmount_def dstAmount_def amountIn_nonneg split: option.split)

lemma no_value_created:
  assumes results: "\<And>r. Some r \<in> set (hdr_ResultIds (tx_TxHeader tx)) \<Longrightarrow> valid H P F tx b r"
    and "fits tx" and "smallDests tx" and "issuesItsValue tx"
  shows "(\<Sum>h \<in> reach tx. outflow a (entryAt tx h)) \<le> (\<Sum>h \<in> reach tx. inflow a tx (entryAt tx h))"
proof -
  have valid: "valid H P F tx b h" if "h \<in> reach tx" for h using reach_valid [OF results that] .
  then have entry: "tx_Entries tx h \<noteq> None" if "h \<in> reach tx" for h using valid_body that by fastforce
  then have "reach tx \<subseteq> dom (tx_Entries tx)" by auto
  then have fin: "finite (reach tx)" using \<open>fits tx\<close> finite_subset by (auto simp: fits_def)
  note sums = sum_edges [OF fin entry]
  have "(\<Sum>p \<in> srcEdges tx. srcAmount a (srcOf tx p)) = (\<Sum>p \<in> srcEdges tx. dstAmount a (dstOf tx (edgeTo tx p)))"
    by (rule sum.cong [OF refl]) (simp add: edge_linked(3) [OF results \<open>fits tx\<close>])
  also have "\<dots> = (\<Sum>q \<in> edgeTo tx ` srcEdges tx. dstAmount a (dstOf tx q))"
    by (simp add: sum.reindex [OF edgeTo_inj [OF results \<open>fits tx\<close>]])
  also have "\<dots> \<le> (\<Sum>q \<in> dstEdges tx. dstAmount a (dstOf tx q))"
    by (rule sum_mono2 [OF sums(3)]) (use edge_linked(1) [OF results \<open>fits tx\<close>] amounts_nonneg in auto)
  finally have le: "(\<Sum>h \<in> reach tx. srcTotal a (entryAt tx h)) \<le> (\<Sum>h \<in> reach tx. dstTotal a (entryAt tx h))"
    using sums(1,2) [of a] by simp
  have "srcTotal a (entryAt tx h) - dstTotal a (entryAt tx h) = outflow a (entryAt tx h) - inflow a tx (entryAt tx h)"
    if "h \<in> reach tx" for h
    using entry [OF that] by (intro flows [OF valid [OF that] _ assms(3,4)]) (auto simp: entryAt_def)
  then have "(\<Sum>h \<in> reach tx. srcTotal a (entryAt tx h) - dstTotal a (entryAt tx h)) =
      (\<Sum>h \<in> reach tx. outflow a (entryAt tx h) - inflow a tx (entryAt tx h))" by (rule sum.cong [OF refl])
  with le show ?thesis by (simp add: sum_subtractf)
qed

lemma valid_results:
  assumes ok: "ValidateTx H P F n tx b = Ok ()" and "consistent H tx"
    and hdr: "tx_Entries tx (tx_ID tx) = Some (ETxHeader (tx_TxHeader tx))" and r: "Some r \<in> set (hdr_ResultIds (tx_TxHeader tx))"
  shows "valid H P F tx b r"
proof -
  have "valid H P F tx b (tx_ID tx)"
    using ValidateTx_verdict(2) [OF assms(2) hdr, of P F n b] ok by (auto simp: valid_def)
  then obtain n where "fst (checkBody H P F (plainValid H P F n) (callOf tx b (tx_ID tx)) (Some (ETxHeader (tx_TxHeader tx))) ()) = Ok ()"
    using valid_body hdr by fastforce
  then have "fst (plainValid H P F n ((callOf tx b (tx_ID tx))\<lparr>vs_entryID := r\<rparr>) (tx_Entries tx r) ()) = Ok ()"
    using r by (auto simp: checkBody_def checkHeader_def bindO_Ok_iff forO_Ok_iff callOf_def)
  from valid_call [OF this, of tx b] show ?thesis by (simp add: callOf_def)
qed

section \<open>Properties\<close>



text \<open>
  C34. The mux check does not bound the amounts it adds up: it casts the amounts of destinations to signed integers, so
  that one unit in balances with two units and \<open>2 ^ 64 - 1\<close> units out.
\<close>
theorem mux_balance_wraps:
  "\<exists>m. checkBalance m = Ok () \<and> (\<Sum>s\<leftarrow>mux_Sources m. srcAmount a s) = 1 \<and>
     (\<Sum>d\<leftarrow>mux_WitnessDestinations m. dstAmount a d) = 2 ^ 64 + 1"
proof -
  let ?v = "\<lambda>n :: uint64. Some \<lparr>amt_AssetId = Some a, amt_Amount = n\<rparr>"
  let ?m = "\<lparr>mux_Sources = [Some \<lparr>src_Ref = None, src_Value = ?v 1, src_Position = 0\<rparr>], mux_Program = None, mux_ExtHash = None,
    mux_WitnessDestinations = [Some \<lparr>dst_Ref = None, dst_Value = ?v 2, dst_Position = 0\<rparr>, Some \<lparr>dst_Ref = None, dst_Value = ?v 18446744073709551615, dst_Position = 0\<rparr>],
    mux_WitnessArguments = []\<rparr>"
  have "i64 18446744073709551615 = - 1" "AddInt64 0 1 = Some 1" "SubInt64 1 2 = Some (- 1)" "SubInt64 (- 1) (- 1) = Some 0" by code_simp+
  moreover have "i64 1 = 1" "i64 2 = 2" by (simp_all add: i64_small)
  ultimately have "checkBalance ?m = Ok ()"
    by (simp add: checkBalance_def addSource_def subDestination_def valueOf_def)
  moreover have "(\<Sum>s\<leftarrow>mux_Sources ?m. srcAmount a s) = 1" "(\<Sum>d\<leftarrow>mux_WitnessDestinations ?m. dstAmount a d) = 2 ^ 64 + 1"
    by (simp_all add: srcAmount_def dstAmount_def amountIn_def)
  ultimately show ?thesis by blast
qed

end
