(* ===== verification/Legacy_Balance.thy ===== *)
theory Legacy_Balance
  imports Legacy_Map Validation_Value
begin

text \<open>
  The entries that \<open>MapTx\<close> produces have the form that validation relies on, and a transaction whose
  translation is valid balances: of every asset, its inputs and its outputs have the same total.
\<close>

section \<open>Steps of the translation\<close>

text \<open>Entries that differ in witness fields only.\<close>

definition sameBody :: "Entry \<Rightarrow> Entry \<Rightarrow> bool" where
  "sameBody x y \<longleftrightarrow> hashedParts x = hashedParts y \<and> entryTyp x = entryTyp y"

lemma sameBody_refl [simp]: "sameBody e e"
  by (simp add: sameBody_def)

lemma sameBody_trans: "sameBody x y \<Longrightarrow> sameBody y z \<Longrightarrow> sameBody x z"
  by (simp add: sameBody_def)

lemma sameBody_id: "sameBody x y \<Longrightarrow> entryID H (Some x) = entryID H (Some y)"
  by (simp add: sameBody_def entryID_def)

lemma sameBody_setters: "sameBody (SetDestination i v p e) e" "sameBody (SetAnchored i e) e" "sameBody (appendDestination d e) e"
  by (cases e; simp add: sameBody_def)+

text \<open>The kind of an entry is determined by its type string.\<close>

lemma sameBody_mux: "sameBody x y \<Longrightarrow> (\<exists>m. x = EMux m) \<longleftrightarrow> (\<exists>m. y = EMux m)"
  by (cases x; cases y) (simp_all add: sameBody_def ascii_def)

definition pays :: "Entry \<Rightarrow> bool" where
  "pays e = (case e of EOutput _ \<Rightarrow> True | ERetirement _ \<Rightarrow> True | _ \<Rightarrow> False)"

lemma sameBody_pays: "sameBody x y \<Longrightarrow> pays x = pays y"
  by (cases x; cases y) (simp_all add: sameBody_def ascii_def pays_def)

lemma sameBody_complete: "sameBody x y \<Longrightarrow> complete x = complete y"
  by (simp add: sameBody_def complete_def)

text \<open>
  What holds throughout: the map leads to entries with the right IDs, there is at most one mux (at the address \<open>x\<close>, if
  it is there already), and outputs and retirements have no nil parts.
\<close>

definition base :: "(bytes \<Rightarrow> bytes) \<Rightarrow> addr option \<Rightarrow> mapState \<Rightarrow> bool" where
  "base H x s \<longleftrightarrow>
     (\<forall>h a. map_of (ms_entryMap s) h = Some a \<longrightarrow> a < length (ms_store s) \<and> entryID H (Some (ms_store s ! a)) = (Ok h :: (unit, Hash) outcome)) \<and>
     (\<forall>a m. a < length (ms_store s) \<longrightarrow> ms_store s ! a = EMux m \<longrightarrow> x = Some a) \<and>
     (\<forall>e \<in> set (ms_store s). pays e \<longrightarrow> complete e)"

lemma addEntry_Ok: "addEntry H e s = (Ok (h, a), s') \<longleftrightarrow> entryID H (Some e) = (Ok h :: (unit, Hash) outcome) \<and> a = length (ms_store s) \<and>
    s' = s\<lparr>ms_store := ms_store s @ [e], ms_entryMap := AList.update h a (ms_entryMap s)\<rparr>"
  by (cases "entryID H (Some e) :: (unit, Hash) outcome") (auto simp: addEntry_def bindA_def pureA_def)

lemma base_add:
  assumes "base H x s" and "addEntry H e s = (Ok (h, a), s')" and "\<And>m. e = EMux m \<Longrightarrow> x = None \<and> y = Some a"
    and "\<forall>m. e \<noteq> EMux m \<Longrightarrow> x = y" and "pays e \<Longrightarrow> complete e"
  shows "base H y s'"
proof -
  note b = assms(1) [unfolded base_def]
  have s': "entryID H (Some e) = (Ok h :: (unit, Hash) outcome)" "a = length (ms_store s)"
    "s' = s\<lparr>ms_store := ms_store s @ [e], ms_entryMap := AList.update h a (ms_entryMap s)\<rparr>"
    using assms(2) by (simp_all add: addEntry_Ok)
  have "x = y \<or> x = None" using assms(3,4) by blast
  show ?thesis unfolding base_def
  proof (intro conjI allI impI ballI)
    fix k c assume "map_of (ms_entryMap s') k = Some c"
    then have "k = h \<and> c = a \<or> map_of (ms_entryMap s) k = Some c" by (auto simp: s' update_conv split: if_splits)
    then show "c < length (ms_store s')" "entryID H (Some (ms_store s' ! c)) = (Ok k :: (unit, Hash) outcome)"
      using b s' by (auto simp: nth_append dest: less_SucI)
  next
    fix c m assume "c < length (ms_store s')" "ms_store s' ! c = EMux m"
    then show "y = Some c" using b assms(3) [of m] \<open>x = y \<or> x = None\<close> by (auto simp: s' nth_append less_Suc_eq split: if_splits)
  next
    fix k assume "k \<in> set (ms_store s')" "pays k"
    then show "complete k" using b assms(5) by (auto simp: s')
  qed
qed

lemma base_update:
  assumes "base H x s" and "\<And>e. sameBody (f e) e"
  shows "base H x (updateEntry a f s)"
proof -
  note b = assms(1) [unfolded base_def]
  let ?t = "(ms_store s)[a := f (ms_store s ! a)]"
  have same: "sameBody (?t ! c) (ms_store s ! c)" if "c < length (ms_store s)" for c
    using that by (cases "c = a") (simp_all add: assms(2))
  have "entryID H (Some (?t ! c)) = (entryID H (Some (ms_store s ! c)) :: (unit, Hash) outcome)" if "c < length (ms_store s)" for c
    using sameBody_id [OF same [OF that]] .
  moreover have "x = Some c" if "c < length (ms_store s)" "?t ! c = EMux m" for c m
    using b sameBody_mux [OF same [OF that(1)]] that by metis
  moreover have "complete e" if "e \<in> set ?t" "pays e" for e
    using that b same sameBody_pays sameBody_complete by (metis in_set_conv_nth length_list_update)
  ultimately show ?thesis using b unfolding base_def updateEntry_def by auto
qed

lemma base_cong: "base H x s \<Longrightarrow> ms_store s' = ms_store s \<Longrightarrow> ms_entryMap s' = ms_entryMap s \<Longrightarrow> base H x s'"
  by (simp add: base_def)

lemma forA_zip:
  assumes "forA f (zip [k..<k + length xs] xs) s = (Ok (), s')" and "I k s"
    and "\<And>i s s'. k \<le> i \<Longrightarrow> i < k + length xs \<Longrightarrow> I i s \<Longrightarrow> f (i, xs ! (i - k)) s = (Ok (), s') \<Longrightarrow> I (Suc i) s'"
  shows "I (k + length xs) s'"
  using assms
proof (induction xs arbitrary: k s)
  case (Cons x xs)
  have "[k..<k + length (x # xs)] = k # [Suc k..<Suc k + length xs]" by (simp add: upt_rec)
  then obtain m where m: "f (k, x) s = (Ok (), m)" "forA f (zip [Suc k..<Suc k + length xs] xs) m = (Ok (), s')"
    using Cons.prems(1) by (auto simp: bindA_Ok_iff)
  have "I (Suc k) m" using Cons.prems(3) [of k s m] Cons.prems(2) m(1) by simp
  moreover have "I (Suc i) t'" if "Suc k \<le> i" "i < Suc k + length xs" "I i t" "f (i, xs ! (i - Suc k)) t = (Ok (), t')" for i t t'
    using that Cons.prems(3) [of i t t'] by (simp add: nth_Cons')
  ultimately have "I (Suc k + length xs) s'" by (rule Cons.IH [OF m(2)])
  then show ?case by simp
qed simp

section \<open>Inputs\<close>

text \<open>The amount of an asset that an input or output is for.\<close>

definition spendAmount :: "AssetID \<Rightarrow> TxInput \<Rightarrow> int" where
  "spendAmount a inp = (case in_TypedInput inp of Some (TSpend s) \<Rightarrow> amountIn a (Some (sc_AssetAmount (si_SpendCommitment s))) | _ \<Rightarrow> 0)"

definition issueAmount :: "(bytes \<Rightarrow> bytes) \<Rightarrow> AssetID \<Rightarrow> TxInput \<Rightarrow> int" where
  "issueAmount H a inp = (case in_TypedInput inp of
     Some (TIssuance ii) \<Rightarrow> if issuanceAssetID H ii = a then uint (ii_Amount ii) else 0 | _ \<Rightarrow> 0)"

definition inputAmount :: "(bytes \<Rightarrow> bytes) \<Rightarrow> AssetID \<Rightarrow> TxInput \<Rightarrow> int" where
  "inputAmount H a inp = spendAmount a inp + issueAmount H a inp"

definition outputAmount :: "AssetID \<Rightarrow> TxOutput \<Rightarrow> int" where
  "outputAmount a out = amountIn a (Some (oc_AssetAmount (to_OutputCommitment out)))"

text \<open>Control programs are shorter than any Go slice can be.\<close>

definition tame :: "TxData \<Rightarrow> bool" where
  "tame tx \<longleftrightarrow> (\<forall>inp s. inp \<in> set (td_Inputs tx) \<longrightarrow> in_TypedInput inp = Some (TSpend s) \<longrightarrow> length (sc_ControlProgram (si_SpendCommitment s)) < 2 ^ 63) \<and>
     (\<forall>out \<in> set (td_Outputs tx). length (oc_ControlProgram (to_OutputCommitment out)) < 2 ^ 63)"

text \<open>The state while inputs are translated: source \<open>j\<close> of the mux to be has the amount \<open>g a j\<close>.\<close>

definition collected :: "(bytes \<Rightarrow> bytes) \<Rightarrow> nat \<Rightarrow> (AssetID \<Rightarrow> nat \<Rightarrow> int) \<Rightarrow> mapState \<Rightarrow> bool" where
  "collected H n g s \<longleftrightarrow> base H None s \<and> length (ms_muxSources s) = n \<and> (\<forall>j < n. \<forall>a. srcAmount a (ms_muxSources s ! j) = g a j) \<and>
     ms_resultIDs s = []"

lemma complete_output: "length (prog_Code p) < 2 ^ 63 \<Longrightarrow> complete (EOutput (NewOutput \<lparr>src_Ref = r, src_Value = Some v, src_Position = i\<rparr> p d n))"
  by (simp add: complete_def NewOutput_def goValueSource_def goProgram_def goAssetAmount_def)

lemma complete_retirement: "complete (ERetirement (NewRetirement \<lparr>src_Ref = r, src_Value = Some v, src_Position = i\<rparr> d n))"
  by (simp add: complete_def NewRetirement_def goValueSource_def goAssetAmount_def)

lemma base_plain:
  assumes "base H x s" and "addEntry H e s = (Ok (h, a), s')" and "\<And>m. e \<noteq> EMux m" and "pays e \<Longrightarrow> complete e"
  shows "base H x s'" and "ms_muxSources s' = ms_muxSources s" and "ms_resultIDs s' = ms_resultIDs s"
  using base_add [OF assms(1,2), of x] assms by (auto simp: addEntry_Ok)

lemma mapSpend_collects:
  assumes "mapSpend H (i, inp) s = (Ok (), s')" and "collected H n g s" and "i < n" and "\<And>a. g a i = 0"
    and "\<And>s. in_TypedInput inp = Some (TSpend s) \<Longrightarrow> length (sc_ControlProgram (si_SpendCommitment s)) < 2 ^ 63"
  shows "collected H n (\<lambda>a j. if j = i then spendAmount a inp else g a j) s'"
proof (cases "\<exists>sp. in_TypedInput inp = Some (TSpend sp)")
  case False
  then have "s' = s" "spendAmount a inp = 0" for a
    using assms(1) by (auto simp: mapSpend_def modify_def spendAmount_def split: option.splits TypedInput.splits)
  then show ?thesis using assms(2,4) by (auto simp: collected_def)
next
  case True
  then obtain sp where sp: "in_TypedInput inp = Some (TSpend sp)" by blast
  let ?sc = "si_SpendCommitment sp"
  obtain h1 a1 s1 h2 a2 s2 where
    1: "addEntry H (EOutput (NewOutput \<lparr>src_Ref = Some (sc_SourceID ?sc), src_Value = Some (sc_AssetAmount ?sc), src_Position = sc_SourcePosition ?sc\<rparr>
      \<lparr>prog_VmVersion = sc_VMVersion ?sc, prog_Code = sc_ControlProgram ?sc\<rparr> (sc_RefDataHash ?sc) 0)) s = (Ok (h1, a1), s1)" and
    2: "addEntry H (ESpend ((NewSpend h1 (hashData H (in_ReferenceData inp)) (word_of_nat i))\<lparr>sp_WitnessArguments := si_Arguments sp\<rparr>)) s1 = (Ok (h2, a2), s2)" and
    3: "ms_store s' = ms_store s2" "ms_entryMap s' = ms_entryMap s2" "ms_resultIDs s' = ms_resultIDs s2"
      "ms_muxSources s' = (ms_muxSources s2)[i := Some \<lparr>src_Ref = Some h2, src_Value = Some (sc_AssetAmount ?sc), src_Position = 0\<rparr>]"
    using assms(1) by (auto simp: mapSpend_def sp Let_def bindA_Ok_iff modify_def)
  have b: "base H None s" "length (ms_muxSources s) = n" "\<forall>j < n. \<forall>a. srcAmount a (ms_muxSources s ! j) = g a j" "ms_resultIDs s = []"
    using assms(2) by (simp_all add: collected_def)
  note b1 = base_plain [OF b(1) 1] note b1 = b1(1) [OF _ complete_output] b1(2,3) [OF _ complete_output]
  note b2 = base_plain [OF b1(1) 2]
  have "base H None s2" "ms_muxSources s2 = ms_muxSources s" "ms_resultIDs s2 = []"
    using b1 b2 assms(5) [OF sp] b(4) by (simp_all add: pays_def)
  then show ?thesis using b 3 assms(3) base_cong [of H None s2 s']
    by (auto simp: collected_def srcAmount_def spendAmount_def sp nth_list_update)
qed

lemma mapAnchor_base:
  assumes "mapAnchor H tx oldIss s = (Ok r, s')" and "base H x s"
  shows "base H x s' \<and> ms_muxSources s' = ms_muxSources s \<and> ms_resultIDs s' = ms_resultIDs s"
proof (cases "ii_Nonce oldIss = []")
  case True
  then show ?thesis using assms by (auto simp: mapAnchor_def split: option.splits prod.splits)
next
  case False
  then obtain h1 a1 s1 h2 a2 where
    1: "addEntry H (ETimeRange (NewTimeRange (td_MinTime tx) (td_MaxTime tx))) s = (Ok (h1, a1), s1)" and
    2: "addEntry H (ENonce (NewNonce \<lparr>prog_VmVersion = 1, prog_Code = nonceProgram H oldIss\<rparr> h1)) s1 = (Ok (h2, a2), s')"
    using assms(1) by (auto simp: mapAnchor_def bindA_Ok_iff pureA_def)
  note b1 = base_plain [OF assms(2) 1]
  note b2 = base_plain [OF b1(1) 2]
  show ?thesis using b1 b2 by (simp add: pays_def)
qed

lemma mapIssuance_collects:
  assumes "mapIssuance H tx (i, inp) s = (Ok (), s')" and "collected H n g s" and "i < n"
    and "\<And>a oldIss. in_TypedInput inp = Some (TIssuance oldIss) \<Longrightarrow> g a i = 0"
  shows "collected H n (\<lambda>a j. if j = i then g a j + issueAmount H a inp else g a j) s'"
proof (cases "\<exists>ii. in_TypedInput inp = Some (TIssuance ii)")
  case False
  then have "s' = s" "issueAmount H a inp = 0" for a
    using assms(1) by (auto simp: mapIssuance_def modify_def issueAmount_def split: option.splits TypedInput.splits)
  then show ?thesis using assms(2) by (auto simp: collected_def)
next
  case True
  then obtain ii where ii: "in_TypedInput inp = Some (TIssuance ii)" by blast
  let ?val = "\<lparr>amt_AssetId = Some (issuanceAssetID H ii), amt_Amount = ii_Amount ii\<rparr>"
  obtain r s1 e h2 a2 s2 f where
    1: "mapAnchor H tx ii s = (Ok r, s1)" and
    2: "addEntry H (EIssuance e) s1 = (Ok (h2, a2), s2)" and f: "f = (case snd r of None \<Rightarrow> (\<lambda>s. s) | Some b \<Rightarrow> updateEntry b (SetAnchored h2))" and
    3: "ms_store s' = ms_store (f s2)" "ms_entryMap s' = ms_entryMap (f s2)" "ms_resultIDs s' = ms_resultIDs (f s2)"
      "ms_muxSources s' = (ms_muxSources (f s2))[i := Some \<lparr>src_Ref = Some h2, src_Value = Some ?val, src_Position = 0\<rparr>]"
    using assms(1) by (auto simp: mapIssuance_def ii Let_def bindA_Ok_iff modify_def)
  have b: "base H None s" "length (ms_muxSources s) = n" "\<forall>j < n. \<forall>a. srcAmount a (ms_muxSources s ! j) = g a j" "ms_resultIDs s = []"
    using assms(2) by (simp_all add: collected_def)
  note b1 = mapAnchor_base [OF 1 b(1)]
  note b2 = base_plain [OF b1 [THEN conjunct1] 2]
  have "base H None s2" "ms_muxSources s2 = ms_muxSources s" "ms_resultIDs s2 = []" using b1 b2 b(4) by (simp_all add: pays_def)
  moreover from this have "base H None (f s2)" using base_update [of H None s2 "SetAnchored h2"] sameBody_setters(2) by (simp add: f split: option.split)
  moreover have "ms_muxSources (f s2) = ms_muxSources s2" "ms_resultIDs (f s2) = ms_resultIDs s2" by (simp_all add: f updateEntry_def split: option.split)
  ultimately show ?thesis using b 3 assms(3) assms(4) [OF ii] base_cong [of H None "f s2" s']
    by (auto simp: collected_def srcAmount_def issueAmount_def ii nth_list_update amountIn_def)
qed

lemma inputs_collected:
  assumes "forA (mapSpend H) (zip [0..<length (td_Inputs tx)] (td_Inputs tx)) (initialState tx) = (Ok (), s1)"
    and "forA (mapIssuance H tx) (zip [0..<length (td_Inputs tx)] (td_Inputs tx)) s1 = (Ok (), s2)" and "tame tx"
  shows "collected H (length (td_Inputs tx)) (\<lambda>a j. inputAmount H a (td_Inputs tx ! j)) s2"
proof -
  let ?ins = "td_Inputs tx" and ?n = "length (td_Inputs tx)"
  let ?g = "\<lambda>k a j. if j < k then spendAmount a (?ins ! j) else 0"
  let ?h = "\<lambda>k a j. spendAmount a (?ins ! j) + (if j < k then issueAmount H a (?ins ! j) else 0)"
  have start: "collected H ?n (?g 0) (initialState tx)"
    by (simp add: collected_def base_def initialState_def srcAmount_def)
  have step: "collected H ?n (?g (Suc i)) s'"
    if "i < ?n" "collected H ?n (?g i) s" "mapSpend H (i, ?ins ! i) s = (Ok (), s')" for i s s'
  proof -
    have "collected H ?n (\<lambda>a j. if j = i then spendAmount a (?ins ! i) else ?g i a j) s'"
      by (intro mapSpend_collects [OF that(3,2,1)]) (use \<open>tame tx\<close> nth_mem [OF that(1)] in \<open>simp_all add: tame_def\<close>)
    moreover have "(\<lambda>a j. if j = i then spendAmount a (?ins ! i) else ?g i a j) = ?g (Suc i)" by (auto simp: fun_eq_iff)
    ultimately show ?thesis by simp
  qed
  have "collected H ?n (?g (0 + ?n)) s1"
    by (rule forA_zip [of "mapSpend H" 0 ?ins "initialState tx" s1 "\<lambda>k. collected H ?n (?g k)"]) (use assms(1) start step in simp_all)
  then have start2: "collected H ?n (?h 0) s1" by (auto simp: collected_def)
  have step2: "collected H ?n (?h (Suc i)) s'"
    if "i < ?n" "collected H ?n (?h i) s" "mapIssuance H tx (i, ?ins ! i) s = (Ok (), s')" for i s s'
  proof -
    have "collected H ?n (\<lambda>a j. if j = i then ?h i a j + issueAmount H a (?ins ! i) else ?h i a j) s'"
      by (intro mapIssuance_collects [OF that(3,2,1)]) (simp add: spendAmount_def)
    moreover have "(\<lambda>a j. if j = i then ?h i a j + issueAmount H a (?ins ! i) else ?h i a j) = ?h (Suc i)" by (auto simp: fun_eq_iff)
    ultimately show ?thesis by simp
  qed
  have "collected H ?n (?h (0 + ?n)) s2"
    by (rule forA_zip [of "mapIssuance H tx" 0 ?ins s1 s2 "\<lambda>k. collected H ?n (?h k)"]) (use assms(2) start2 step2 in simp_all)
  then show ?thesis by (auto simp: collected_def inputAmount_def)
qed

section \<open>Outputs\<close>

definition resultSource :: "Hash \<Rightarrow> nat \<Rightarrow> TxOutput \<Rightarrow> ValueSource" where
  "resultSource muxID i out = \<lparr>src_Ref = Some muxID, src_Value = Some (oc_AssetAmount (to_OutputCommitment out)), src_Position = word_of_nat i\<rparr>"

text \<open>
  The state after \<open>k\<close> outputs: the mux at its address has the sources \<open>srcs\<close> and one destination for each of these outputs,
  and each of them has an entry in the store and its ID among the results.
\<close>

definition paidOut :: "(bytes \<Rightarrow> bytes) \<Rightarrow> TxOutput list \<Rightarrow> ValueSource option list \<Rightarrow> Hash \<Rightarrow> addr \<Rightarrow> nat \<Rightarrow> mapState \<Rightarrow> bool" where
  "paidOut H outs srcs muxID mux k s \<longleftrightarrow> base H (Some mux) s \<and> mux < length (ms_store s) \<and>
     (\<exists>m. ms_store s ! mux = EMux m \<and> mux_Sources m = srcs \<and>
        (\<forall>a. map (dstAmount a) (mux_WitnessDestinations m) = map (outputAmount a) (take k outs)) \<and>
        (\<forall>d v. Some d \<in> set (mux_WitnessDestinations m) \<longrightarrow> dst_Value d = Some v \<longrightarrow> uint (amt_Amount v) < 2 ^ 63)) \<and>
     entryID H (Some (ms_store s ! mux)) = (Ok muxID :: (unit, Hash) outcome) \<and>
     length (ms_resultIDs s) = k \<and> map_of (ms_entryMap s) muxID \<noteq> None \<and>
     (\<forall>i < k. map_of (ms_entryMap s) (ms_resultIDs s ! i) \<noteq> None \<and>
        entryID H (Some (resultEntry H (resultSource muxID i (outs ! i)) i (outs ! i))) = (Ok (ms_resultIDs s ! i) :: (unit, Hash) outcome) \<and>
        (\<exists>e \<in> set (ms_store s). sameBody e (resultEntry H (resultSource muxID i (outs ! i)) i (outs ! i))))"

lemma hashed_result_small:
  assumes "entryID H (Some (resultEntry H (resultSource muxID i out) i out)) = (Ok h :: (unit, Hash) outcome)"
  shows "uint (amt_Amount (oc_AssetAmount (to_OutputCommitment out))) < 2 ^ 63"
proof -
  let ?e = "resultEntry H (resultSource muxID i out) i out" and ?v = "oc_AssetAmount (to_OutputCommitment out)"
  have "snd (writeEach (hashedParts ?e)) = None" using assms by (auto simp: entryID_Ok)
  then have "snd (writeForHash (GPtr (Some (goValueSource (resultSource muxID i out))))) = None"
    by (rule writeEach_fine) (simp add: resultEntry_def Let_def NewOutput_def NewRetirement_def)
  then have "snd (writeForHash (GPtr (Some (goAssetAmount ?v)))) = None"
    by (intro writeEach_fine [of "[GHashPtr (Some muxID), GPtr (Some (goAssetAmount ?v)), GUint64 (word_of_nat i)]"])
       (simp_all add: goValueSource_def resultSource_def)
  then have "snd (writeForHash (GUint64 (amt_Amount ?v))) = None"
    by (intro writeEach_fine [of "[GAssetIDPtr (amt_AssetId ?v), GUint64 (amt_Amount ?v)]"]) (simp_all add: goAssetAmount_def)
  then show ?thesis by (auto simp: emit_def WriteVarint63_def word_less_def not_less split: if_splits sum.splits)
qed

lemma resultEntry_complete: "length (oc_ControlProgram (to_OutputCommitment out)) < 2 ^ 63 \<Longrightarrow> complete (resultEntry H (resultSource muxID i out) i out)"
  by (simp add: resultEntry_def Let_def resultSource_def complete_output complete_retirement)

lemma resultEntry_not_mux: "resultEntry H src i out \<noteq> EMux m"
  by (simp add: resultEntry_def Let_def)

lemma mapOutput_pays:
  assumes step: "mapOutput H muxID mux (i, outs ! i) s = (Ok (), s')" and paid: "paidOut H outs srcs muxID mux i s"
    and "i < length outs" and small: "length (oc_ControlProgram (to_OutputCommitment (outs ! i))) < 2 ^ 63"
  shows "paidOut H outs srcs muxID mux (Suc i) s'"
proof -
  let ?out = "outs ! i"
  let ?e = "resultEntry H (resultSource muxID i ?out) i ?out"
  obtain h a s1 where add: "addEntry H ?e s = (Ok (h, a), s1)" and s': "s' = updateEntry mux (appendDestination
      \<lparr>dst_Ref = Some h, dst_Value = Some (oc_AssetAmount (to_OutputCommitment ?out)), dst_Position = 0\<rparr>) (s1\<lparr>ms_resultIDs := ms_resultIDs s1 @ [h]\<rparr>)"
    using step by (auto simp: mapOutput_def Let_def resultSource_def bindA_Ok_iff modify_def)
  have e: "entryID H (Some ?e) = (Ok h :: (unit, Hash) outcome)"
    and s1: "s1 = s\<lparr>ms_store := ms_store s @ [?e], ms_entryMap := AList.update h (length (ms_store s)) (ms_entryMap s)\<rparr>"
    using add by (simp_all add: addEntry_Ok)
  obtain m where m: "ms_store s ! mux = EMux m" "mux_Sources m = srcs" "mux < length (ms_store s)"
    "\<And>a. map (dstAmount a) (mux_WitnessDestinations m) = map (outputAmount a) (take i outs)"
    "\<And>d v. Some d \<in> set (mux_WitnessDestinations m) \<Longrightarrow> dst_Value d = Some v \<Longrightarrow> uint (amt_Amount v) < 2 ^ 63"
    using paid by (auto simp: paidOut_def)
  let ?m = "m\<lparr>mux_WitnessDestinations := mux_WitnessDestinations m @ [Some \<lparr>dst_Ref = Some h,
    dst_Value = Some (oc_AssetAmount (to_OutputCommitment ?out)), dst_Position = 0\<rparr>]\<rparr>"
  have store: "ms_store s' = (ms_store s @ [?e])[mux := EMux ?m]" "ms_entryMap s' = AList.update h (length (ms_store s)) (ms_entryMap s)"
    "ms_resultIDs s' = ms_resultIDs s @ [h]" using m(1,3) by (simp_all add: s' s1 updateEntry_def nth_append)
  have mux: "ms_store s' ! mux = EMux ?m" "mux < length (ms_store s')" using m(3) by (simp_all add: store nth_append)
  have "base H (Some mux) s" using paid by (simp add: paidOut_def)
  then have b1: "base H (Some mux) s1" using resultEntry_not_mux resultEntry_complete [OF small] by (rule base_plain(1) [OF _ add])
  have "base H (Some mux) s'" unfolding s' by (rule base_update [OF base_cong [OF b1]]) (simp_all add: sameBody_setters)
  moreover have "\<exists>e \<in> set (ms_store s'). sameBody e x" if "(\<exists>e \<in> set (ms_store s). sameBody e x) \<or> sameBody ?e x" for x
  proof -
    have "\<exists>y \<in> set (ms_store s @ [?e]). sameBody y x" using that by auto
    then obtain y where y: "y \<in> set (ms_store s @ [?e])" "sameBody y x" by (rule bexE)
    obtain j where j: "j < length (ms_store s @ [?e])" "(ms_store s @ [?e]) ! j = y" using y(1) unfolding in_set_conv_nth by (elim exE conjE)
    have "sameBody (ms_store s' ! j) ((ms_store s @ [?e]) ! j)"
      using m(1,3) by (cases "j = mux") (simp_all add: store nth_append sameBody_def)
    then have "sameBody (ms_store s' ! j) x" unfolding j(2) using y(2) by (rule sameBody_trans)
    then show ?thesis using j(1) by (intro bexI [of _ "ms_store s' ! j"]) (simp_all add: store)
  qed
  moreover have "map_of (ms_entryMap s') x \<noteq> None" if "map_of (ms_entryMap s) x \<noteq> None \<or> x = h" for x using that by (auto simp: store update_conv)
  moreover have "entryID H (Some (EMux ?m)) = (entryID H (Some (EMux m)) :: (unit, Hash) outcome)" by (rule sameBody_id) (simp add: sameBody_def)
  moreover have "map (dstAmount a) (mux_WitnessDestinations ?m) = map (outputAmount a) (take (Suc i) outs)" for a
    using m(4) [of a] assms(3) by (simp add: take_Suc_conv_app_nth outputAmount_def dstAmount_def)
  moreover have "uint (amt_Amount v) < 2 ^ 63" if "Some d \<in> set (mux_WitnessDestinations ?m)" "dst_Value d = Some v" for d v
    using that m(5) hashed_result_small [OF e] by auto
  ultimately show ?thesis using paid mux m(1,2) e
    unfolding paidOut_def by (auto simp: store(3) nth_append less_Suc_eq)
qed

lemma forA_keeps:
  "forA f xs s = (Ok (), s') \<Longrightarrow> I s \<Longrightarrow> (\<And>x s s'. I s \<Longrightarrow> f x s = (Ok (), s') \<Longrightarrow> I s') \<Longrightarrow> I s'"
proof (induction xs arbitrary: s)
  case (Cons x xs)
  from Cons.prems(1) obtain m where m: "f x s = (Ok (), m)" "forA f xs m = (Ok (), s')" by (auto simp: bindA_Ok_iff)
  show ?case by (rule Cons.IH [OF m(2) Cons.prems(3) [OF Cons.prems(2) m(1)] Cons.prems(3)])
qed simp

lemma paidOut_destination:
  assumes "paidOut H outs srcs muxID mux 0 s"
  shows "paidOut H outs srcs muxID mux 0 (updateEntry a (SetDestination i v p) s)"
proof -
  obtain m where m: "ms_store s ! mux = EMux m" "mux < length (ms_store s)" using assms by (auto simp: paidOut_def)
  let ?s = "updateEntry a (SetDestination i v p) s"
  have same: "ms_store ?s ! mux = ms_store s ! mux" using m by (cases "a = mux") (simp_all add: updateEntry_def)
  have "base H (Some mux) ?s" using assms by (intro base_update) (simp_all add: paidOut_def sameBody_setters)
  moreover have "length (ms_store ?s) = length (ms_store s)" "ms_entryMap ?s = ms_entryMap s" "ms_resultIDs ?s = ms_resultIDs s"
    by (simp_all add: updateEntry_def)
  ultimately show ?thesis using assms unfolding paidOut_def same by simp
qed

lemma paidOut_add:
  assumes paid: "paidOut H outs srcs muxID mux k s" and add: "addEntry H e s = (Ok (h, a), s')" and "\<And>m. e \<noteq> EMux m" and "\<not> pays e"
  shows "paidOut H outs srcs muxID mux k s'"
proof -
  have s': "ms_store s' = ms_store s @ [e]" "ms_entryMap s' = AList.update h a (ms_entryMap s)" "ms_resultIDs s' = ms_resultIDs s"
    using add by (simp_all add: addEntry_Ok)
  have mux: "mux < length (ms_store s)" using paid by (simp add: paidOut_def)
  have same: "ms_store s' ! mux = ms_store s ! mux" using mux by (simp add: s' nth_append)
  have "base H (Some mux) s" using paid by (simp add: paidOut_def)
  then have "base H (Some mux) s'" by (rule base_plain(1) [OF _ add assms(3)]) (use assms(4) in simp)
  moreover have "map_of (ms_entryMap s') x \<noteq> None" if "map_of (ms_entryMap s) x \<noteq> None" for x
    using that by (simp add: s' update_conv)
  ultimately show ?thesis using paid unfolding paidOut_def same s'(3) by (auto simp: s'(1))
qed

lemma mux_added:
  assumes "collected H n g s" and "addEntry H (EMux (NewMux (ms_muxSources s) p)) s = (Ok (muxID, mux), s')"
  shows "paidOut H outs (ms_muxSources s) muxID mux 0 s'"
proof -
  have "base H None s" "ms_resultIDs s = []" using assms(1) by (simp_all add: collected_def)
  then have "base H (Some mux) s'" using base_add [OF _ assms(2), of None "Some mux"] by (simp add: pays_def)
  then show ?thesis using assms(2) \<open>ms_resultIDs s = []\<close>
    by (auto simp: paidOut_def addEntry_Ok NewMux_def update_conv)
qed

lemma mapTx_result:
  assumes "mapTx H tx (initialState tx) = (Ok (hid, hdr), s)" and "tame tx"
  shows "\<exists>srcs muxID mux. length srcs = length (td_Inputs tx) \<and> (\<forall>j < length srcs. \<forall>a. srcAmount a (srcs ! j) = inputAmount H a (td_Inputs tx ! j)) \<and>
    paidOut H (td_Outputs tx) srcs muxID mux (length (td_Outputs tx)) s \<and> hdr_ResultIds hdr = map Some (ms_resultIDs s) \<and>
    entriesOf s hid = Some (ETxHeader hdr)"
proof -
  obtain s1 s2 muxID mux s3 s4 s5 s6 a where
    1: "forA (mapSpend H) (zip [0..<length (td_Inputs tx)] (td_Inputs tx)) (initialState tx) = (Ok (), s1)" and
    2: "forA (mapIssuance H tx) (zip [0..<length (td_Inputs tx)] (td_Inputs tx)) s1 = (Ok (), s2)" and
    3: "addEntry H (EMux (NewMux (ms_muxSources s2) \<lparr>prog_VmVersion = 1, prog_Code = [OP_TRUE]\<rparr>)) s2 = (Ok (muxID, mux), s3)" and
    4: "forA (setSpendDestination muxID) (ms_spends s3) s3 = (Ok (), s4)" and
    5: "forA (setIssuanceDestination muxID) (ms_issuances s3) s4 = (Ok (), s5)" and
    6: "forA (mapOutput H muxID mux) (zip [0..<length (td_Outputs tx)] (td_Outputs tx)) s5 = (Ok (), s6)" and
    hdr: "hdr = NewTxHeader (td_Version tx) (ms_resultIDs s6) (hashData H (td_ReferenceData tx)) (td_MinTime tx) (td_MaxTime tx)" and
    7: "addEntry H (ETxHeader hdr) s6 = (Ok (hid, a), s)"
    using assms(1) by (auto simp: mapTx_def bindA_Ok_iff Let_def pureA_def)
  let ?paid = "paidOut H (td_Outputs tx) (ms_muxSources s2) muxID mux"
  have col: "collected H (length (td_Inputs tx)) (\<lambda>a j. inputAmount H a (td_Inputs tx ! j)) s2" by (rule inputs_collected [OF 1 2 assms(2)])
  have "?paid 0 s3" by (rule mux_added [OF col 3])
  then have "?paid 0 s4"
    by (rule forA_keeps [OF 4]) (auto simp: setSpendDestination_def intro: paidOut_destination split: Entry.splits option.splits)
  then have p5: "?paid 0 s5"
    by (rule forA_keeps [OF 5]) (auto simp: setIssuanceDestination_def intro: paidOut_destination split: Entry.splits)
  have "?paid (0 + length (td_Outputs tx)) s6"
  proof (rule forA_zip [of "mapOutput H muxID mux" 0 "td_Outputs tx" s5 s6 ?paid, OF _ p5])
    show "?paid (Suc i) t'" if "0 \<le> i" "i < 0 + length (td_Outputs tx)" "?paid i t" "mapOutput H muxID mux (i, td_Outputs tx ! (i - 0)) t = (Ok (), t')" for i t t'
      using that assms(2) by (intro mapOutput_pays [of H muxID mux i "td_Outputs tx" t]) (auto simp: tame_def)
  qed (use 6 in simp)
  then have "?paid (length (td_Outputs tx)) s" using paidOut_add [OF _ 7, of "td_Outputs tx"] by (simp add: pays_def)
  moreover have "ms_resultIDs s = ms_resultIDs s6" "entriesOf s hid = Some (ETxHeader hdr)"
    using 7 by (auto simp: addEntry_Ok entriesOf_def update_conv)
  moreover have "length (ms_muxSources s2) = length (td_Inputs tx)"
    "\<forall>j < length (ms_muxSources s2). \<forall>a. srcAmount a (ms_muxSources s2 ! j) = inputAmount H a (td_Inputs tx ! j)"
    using col by (simp_all add: collected_def)
  ultimately show ?thesis by (intro exI [of _ "ms_muxSources s2"] exI [of _ muxID] exI [of _ mux]) (simp add: hdr NewTxHeader_def)
qed

section \<open>The destinations of issuances\<close>

text \<open>The translation pays to the destination of an issuance what it issues: \<open>valid_tx_conserves_value\<close> applies to it.\<close>

fun paysItsValue :: "Entry \<Rightarrow> bool" where
  "paysItsValue (EIssuance x) = (case iss_WitnessDestination x of None \<Rightarrow> True | Some d \<Rightarrow> dst_Value d = iss_Value x)"
| "paysItsValue _ = True"

definition promised :: "mapState \<Rightarrow> bool" where
  "promised s \<longleftrightarrow> list_all paysItsValue (ms_store s) \<and> (\<forall>h a. map_of (ms_entryMap s) h = Some a \<longrightarrow> a < length (ms_store s))"

lemma promised_fields [simp]:
  "promised (s\<lparr>ms_muxSources := x\<rparr>) = promised s" "promised (s\<lparr>ms_firstSpend := f\<rparr>) = promised s"
  "promised (s\<lparr>ms_spends := y\<rparr>) = promised s" "promised (s\<lparr>ms_issuances := y\<rparr>) = promised s"
  "promised (s\<lparr>ms_resultIDs := r\<rparr>) = promised s"
  by (simp_all add: promised_def)

lemma promised_add:
  assumes "addEntry H e s = (Ok (h, a), s')" and "paysItsValue e" and "promised s"
  shows "promised s'"
  using assms by (force simp: promised_def addEntry_Ok update_conv list_all_append split: if_splits)

lemma paysItsValue_setters [simp]:
  "paysItsValue e \<Longrightarrow> paysItsValue (SetAnchored i e)" "paysItsValue e \<Longrightarrow> paysItsValue (appendDestination d e)"
  by (cases e; simp)+

lemma promised_update:
  assumes "promised s" and "paysItsValue (ms_store s ! a) \<Longrightarrow> paysItsValue (f (ms_store s ! a))"
  shows "promised (updateEntry a f s)"
proof -
  have "paysItsValue ((ms_store s)[a := f (ms_store s ! a)] ! n)" if "n < length (ms_store s)" for n
    using assms that by (cases "n = a") (auto simp: promised_def list_all_length)
  then show ?thesis using assms(1) by (simp add: promised_def updateEntry_def list_all_length)
qed

lemma promised_anchored: "promised s \<Longrightarrow> promised (updateEntry b (SetAnchored i) s)"
  by (rule promised_update) simp_all

lemma mapSpend_promised: "promised s \<Longrightarrow> mapSpend H x s = (Ok u, s') \<Longrightarrow> promised s'"
  by (auto simp: mapSpend_def bindA_Ok_iff modify_def Let_def split: prod.splits option.splits TypedInput.splits dest!: promised_add)

lemma mapAnchor_promised: "mapAnchor H tx i s = (Ok r, s') \<Longrightarrow> promised s \<Longrightarrow> promised s'"
  by (auto simp: mapAnchor_def bindA_Ok_iff pureA_def split: if_splits option.splits prod.splits dest!: promised_add)

lemma mapIssuance_promised: "promised s \<Longrightarrow> mapIssuance H tx x s = (Ok u, s') \<Longrightarrow> promised s'"
  by (auto simp: mapIssuance_def bindA_Ok_iff modify_def Let_def NewIssuance_def promised_anchored
      split: prod.splits option.splits TypedInput.splits dest!: promised_add mapAnchor_promised)

lemma destinations_promised:
  "promised s \<Longrightarrow> setSpendDestination muxID a s = (Ok u, s') \<Longrightarrow> promised s'"
  "promised s \<Longrightarrow> setIssuanceDestination muxID a s = (Ok u, s') \<Longrightarrow> promised s'"
  by (auto simp: setSpendDestination_def setIssuanceDestination_def intro!: promised_update split: Entry.splits option.splits)

lemma mapOutput_promised: "promised s \<Longrightarrow> mapOutput H muxID mux x s = (Ok u, s') \<Longrightarrow> promised s'"
  by (auto simp: mapOutput_def bindA_Ok_iff modify_def Let_def resultEntry_def intro!: promised_update
      split: prod.splits if_splits dest!: promised_add)

lemma mapTx_promised:
  assumes "mapTx H tx (initialState tx) = (Ok r, s)"
  shows "promised s"
proof -
  obtain s1 s2 muxID mux s3 s4 s5 s6 hdr hid a where
    1: "forA (mapSpend H) (zip [0..<length (td_Inputs tx)] (td_Inputs tx)) (initialState tx) = (Ok (), s1)" and
    2: "forA (mapIssuance H tx) (zip [0..<length (td_Inputs tx)] (td_Inputs tx)) s1 = (Ok (), s2)" and
    3: "addEntry H (EMux (NewMux (ms_muxSources s2) \<lparr>prog_VmVersion = 1, prog_Code = [OP_TRUE]\<rparr>)) s2 = (Ok (muxID, mux), s3)" and
    4: "forA (setSpendDestination muxID) (ms_spends s3) s3 = (Ok (), s4)" and
    5: "forA (setIssuanceDestination muxID) (ms_issuances s3) s4 = (Ok (), s5)" and
    6: "forA (mapOutput H muxID mux) (zip [0..<length (td_Outputs tx)] (td_Outputs tx)) s5 = (Ok (), s6)" and
    7: "addEntry H (ETxHeader hdr) s6 = (Ok (hid, a), s)"
    using assms by (auto simp: mapTx_def bindA_Ok_iff Let_def pureA_def)
  have "promised (initialState tx)" by (simp add: promised_def initialState_def)
  then have "promised s1" by (rule forA_keeps [OF 1]) (rule mapSpend_promised)
  then have "promised s2" by (rule forA_keeps [OF 2]) (rule mapIssuance_promised)
  then have "promised s3" by (rule promised_add [OF 3, rotated]) simp
  then have "promised s4" by (rule forA_keeps [OF 4]) (rule destinations_promised(1))
  then have "promised s5" by (rule forA_keeps [OF 5]) (rule destinations_promised(2))
  then have "promised s6" by (rule forA_keeps [OF 6]) (rule mapOutput_promised)
  then show ?thesis by (rule promised_add [OF 7, rotated]) simp
qed

section \<open>Validation of translated transactions\<close>

text \<open>All entries created by the translation, and the strings that are hashed for their IDs: SHA3 does not collide on these.\<close>

definition translated :: "(bytes \<Rightarrow> bytes) \<Rightarrow> TxData \<Rightarrow> Entry set" where
  "translated H old = set (ms_store (snd (mapTx H old (initialState old))))"

definition noCollision :: "(bytes \<Rightarrow> bytes) \<Rightarrow> TxData \<Rightarrow> bool" where
  "noCollision H old \<longleftrightarrow> (\<forall>x. length (H x) = 32) \<and> (\<forall>x. NewHash (H x) \<noteq> zeroHash) \<and> inj_on H (\<Union>e \<in> translated H old. hashInputs H e)"

lemma entryID_any: "entryID H (Some e) = (Ok h :: ('x, Hash) outcome) \<Longrightarrow> entryID H (Some e) = (Ok h :: ('y, Hash) outcome)"
  by (auto simp: entryID_Ok)

lemma MapTx_Ok:
  assumes "MapTx H order old = Ok tx"
  obtains s where "mapTx H old (initialState old) = (Ok (tx_ID tx, tx_TxHeader tx), s)" and "tx_Entries tx = entriesOf s"
  using assms by (auto simp: MapTx_def bindO_Ok_iff split: prod.splits outcome.splits)

lemma MapTx_issues:
  assumes "MapTx H order old = Ok tx"
  shows "issuesItsValue tx"
proof -
  obtain s where s: "mapTx H old (initialState old) = (Ok (tx_ID tx, tx_TxHeader tx), s)" and e: "tx_Entries tx = entriesOf s"
    by (rule MapTx_Ok [OF assms])
  note p = mapTx_promised [OF s]
  have "dst_Value d = iss_Value x" if x: "entriesOf s h = Some (EIssuance x)" and d: "iss_WitnessDestination x = Some d" for h x d
  proof -
    obtain a where "map_of (ms_entryMap s) h = Some a" "ms_store s ! a = EIssuance x" using x by (auto simp: entriesOf_def)
    moreover have "a < length (ms_store s)" using p calculation(1) by (simp add: promised_def)
    ultimately have "paysItsValue (EIssuance x)" using p by (metis promised_def list_all_length)
    then show ?thesis by (simp add: d)
  qed
  then show ?thesis unfolding issuesItsValue_def e by blast
qed

lemma entriesOf_base:
  assumes "base H x s" and "entriesOf s h = Some e"
  shows "\<exists>a < length (ms_store s). map_of (ms_entryMap s) h = Some a \<and> e = ms_store s ! a" and "entryID H (Some e) = (Ok h :: ('y, Hash) outcome)"
proof -
  obtain a where a: "map_of (ms_entryMap s) h = Some a" "e = ms_store s ! a" using assms(2) by (auto simp: entriesOf_def)
  then have "a < length (ms_store s) \<and> entryID H (Some e) = (Ok h :: (unit, Hash) outcome)" using assms(1) by (simp add: base_def)
  with a show "\<exists>a < length (ms_store s). map_of (ms_entryMap s) h = Some a \<and> e = ms_store s ! a" "entryID H (Some e) = (Ok h :: ('y, Hash) outcome)"
    by (auto dest: entryID_any)
qed

lemma MapTx_consistent:
  assumes "base H x s" and "tx_Entries tx = entriesOf s" and "\<forall>x. NewHash (H x) \<noteq> zeroHash"
  shows "consistent H tx"
  unfolding consistent_def assms(2)
proof (intro conjI allI impI)
  fix h e h' assume "entriesOf s h = Some e" "entryID H (Some e) = (Ok h' :: (val_error, Hash) outcome)"
  then show "h' = h" using entriesOf_base(2) [OF assms(1), of h e, where 'y = val_error] by simp
next
  have "entryID H (Some e) \<noteq> (Ok zeroHash :: (val_error, Hash) outcome)" for e using assms(3) unfolding entryID_Ok by metis
  then show "entriesOf s zeroHash = None" using entriesOf_base(2) [OF assms(1), of zeroHash] by (cases "entriesOf s zeroHash") auto
qed

lemma source_ref:
  assumes "normal (GPtr (map_option goValueSource x)) = normal (GPtr (Some (goValueSource (resultSource muxID i out))))" and "muxID \<noteq> zeroHash"
  shows "\<exists>s. x = Some s \<and> src_Ref s = Some muxID"
  using assms by (cases x) (auto simp: goValueSource_def resultSource_def split: option.splits)

lemma result_source:
  assumes "complete e" and "entryID H (Some e) = (Ok h :: (unit, Hash) outcome)" and "entryID H (Some (resultEntry H (resultSource muxID i out) i out)) = (Ok h :: (unit, Hash) outcome)"
    and "complete (resultEntry H (resultSource muxID i out) i out)"
    and "inj_on H (hashInputs H e \<union> hashInputs H (resultEntry H (resultSource muxID i out) i out))" and "\<forall>x. length (H x) = 32" and "muxID \<noteq> zeroHash"
  shows "\<exists>s. sources e = [Some s] \<and> src_Ref s = Some muxID"
proof -
  let ?r = "resultEntry H (resultSource muxID i out) i out"
  have same: "entryTyp e = entryTyp ?r \<and> map normal (hashedParts e) = map normal (hashedParts ?r)"
    by (rule entry_id_parts [OF assms(6,1,4,2,3,5)])
  show ?thesis
  proof (cases "IsUnspendable (oc_ControlProgram (to_OutputCommitment out))")
    case True
    with same obtain x where x: "e = ERetirement x" by (cases e) (auto simp: resultEntry_def Let_def ascii_def)
    with True same source_ref [of "ret_Source x" muxID i out] assms(7) show ?thesis
      by (simp add: resultEntry_def Let_def NewRetirement_def)
  next
    case False
    with same obtain x where x: "e = EOutput x" by (cases e) (auto simp: resultEntry_def Let_def ascii_def)
    with False same source_ref [of "out_Source x" muxID i out] assms(7) show ?thesis
      by (simp add: resultEntry_def Let_def NewOutput_def)
  qed
qed

lemma inj_on_two: "inj_on f (\<Union>e \<in> A. g e) \<Longrightarrow> x \<in> A \<Longrightarrow> y \<in> A \<Longrightarrow> inj_on f (g x \<union> g y)"
  by (erule inj_on_subset) blast

text \<open>A result of a translated transaction leads to the mux.\<close>

lemma result_leads_to_mux:
  assumes paid: "paidOut H outs srcs muxID mux k s" and "i < k" and "entriesOf s (ms_resultIDs s ! i) = Some e"
    and H: "\<forall>x. length (H x) = 32" "\<forall>x. NewHash (H x) \<noteq> zeroHash" "inj_on H (\<Union>e \<in> set (ms_store s). hashInputs H e)"
    and small: "length (oc_ControlProgram (to_OutputCommitment (outs ! i))) < 2 ^ 63"
  shows "\<exists>x. sources e = [Some x] \<and> src_Ref x = Some muxID"
proof -
  let ?r = "resultEntry H (resultSource muxID i (outs ! i)) i (outs ! i)" and ?h = "ms_resultIDs s ! i"
  have r: "entryID H (Some ?r) = (Ok ?h :: (unit, Hash) outcome)" and base: "base H (Some mux) s"
    and mux: "entryID H (Some (ms_store s ! mux)) = (Ok muxID :: (unit, Hash) outcome)"
    using paid \<open>i < k\<close> by (simp_all add: paidOut_def)
  obtain r' where r': "r' \<in> set (ms_store s)" "sameBody r' ?r" using paid \<open>i < k\<close> by (auto simp: paidOut_def)
  have e: "e \<in> set (ms_store s)" "entryID H (Some e) = (Ok ?h :: (unit, Hash) outcome)"
    using entriesOf_base [OF base assms(3)] by auto
  have "hashInputs H ?r = hashInputs H r'" using r'(2) by (simp add: hashInputs_def idPreimage_def sameBody_def)
  then have inj: "inj_on H (hashInputs H e \<union> hashInputs H ?r)" using inj_on_two [OF H(3) e(1) r'(1)] by simp
  have "entryTyp e = entryTyp ?r" by (rule entry_id_preimage(1) [OF H(1) e(2) r inj])
  then have "pays e" by (cases e) (simp_all add: resultEntry_def Let_def ascii_def pays_def split: if_splits)
  then have "complete e" using base e(1) by (simp add: base_def)
  moreover have "muxID \<noteq> zeroHash" using mux H(2) unfolding entryID_Ok by metis
  ultimately show ?thesis using result_source [OF _ e(2) r resultEntry_complete [OF small] inj H(1)] by blast
qed

text \<open>The map leads from the ID of the mux to the mux and not to another entry.\<close>

lemma mux_entry:
  assumes paid: "paidOut H outs srcs muxID mux k s" and H: "\<forall>x. length (H x) = 32" "inj_on H (\<Union>e \<in> set (ms_store s). hashInputs H e)"
  shows "entriesOf s muxID = Some (ms_store s ! mux)"
proof -
  have base: "base H (Some mux) s" and mux: "entryID H (Some (ms_store s ! mux)) = (Ok muxID :: (unit, Hash) outcome)"
    and lt: "mux < length (ms_store s)" and m: "\<exists>m. ms_store s ! mux = EMux m" and dom: "map_of (ms_entryMap s) muxID \<noteq> None"
    using paid by (auto simp: paidOut_def)
  obtain e where e: "entriesOf s muxID = Some e" using dom by (auto simp: entriesOf_def)
  obtain a where a: "a < length (ms_store s)" "e = ms_store s ! a" "entryID H (Some e) = (Ok muxID :: (unit, Hash) outcome)"
    using entriesOf_base [OF base e] by auto
  have "inj_on H (hashInputs H e \<union> hashInputs H (ms_store s ! mux))" unfolding a(2) by (rule inj_on_two [OF H(2)]) (simp_all add: a(1) lt)
  from entry_id_preimage(1) [OF H(1) a(3) mux this] m have "\<exists>m. e = EMux m" by (cases e) (auto simp: ascii_def)
  then have "a = mux" using base a by (auto simp: base_def)
  with e a show ?thesis by simp
qed

section \<open>The sample in its legacy form\<close>

definition retireData :: TxData where
  "retireData = \<lparr>td_Version = 1, td_Inputs = [\<lparr>in_AssetVersion = 1, in_ReferenceData = [], in_TypedInput = Some (TSpend
       \<lparr>si_SpendCommitment = \<lparr>sc_AssetAmount = the fiveUnits, sc_SourceID = idOf ''mux1'', sc_SourcePosition = 0, sc_VMVersion = 1,
          sc_ControlProgram = [OP_1], sc_RefDataHash = zeroHash\<rparr>, si_SpendCommitmentSuffix = [], si_Arguments = []\<rparr>),
       in_CommitmentSuffix = [], in_WitnessSuffix = []\<rparr>],
     td_Outputs = [\<lparr>to_AssetVersion = 1, to_OutputCommitment = \<lparr>oc_AssetAmount = the fiveUnits, oc_VMVersion = 1, oc_ControlProgram = [OP_FAIL]\<rparr>,
       to_CommitmentSuffix = [], to_WitnessSuffix = [], to_ReferenceData = []\<rparr>],
     td_MinTime = 0, td_MaxTime = 0, td_CommonFieldsSuffix = [], td_CommonWitnessSuffix = [], td_ReferenceData = []\<rparr>"

definition retireState :: mapState where
  "retireState = \<lparr>ms_store = [EOutput spentEntry, ESpend retireSpend, EMux retireMux, ERetirement retireEntry, ETxHeader retireHeader],
     ms_entryMap = [(idOf ''output1'', 0), (idOf ''spend1'', 1), (idOf ''mux1'', 2), (idOf ''retirement1'', 3), (idOf ''txheader'', 4)],
     ms_firstSpend = Some (1, idOf ''spend1''), ms_spends = [1], ms_issuances = [], ms_muxSources = [srcFrom ''spend1''],
     ms_resultIDs = [idOf ''retirement1'']\<rparr>"

lemma retire_mapTx: "mapTx lengthHash retireData (initialState retireData) = (Ok (idOf ''txheader'', retireHeader), retireState)"
proof -
  have noData: "hashData lengthHash [] = noData" by code_simp
  have ids: "entryID lengthHash (Some (ESpend (retireSpend\<lparr>sp_WitnessDestination := None\<rparr>))) = (Ok (idOf ''spend1'') :: (unit, Hash) outcome)"
    "entryID lengthHash (Some (EMux (retireMux\<lparr>mux_WitnessDestinations := []\<rparr>))) = (Ok (idOf ''mux1'') :: (unit, Hash) outcome)"
    using retire_ids(3,4) by (auto simp: entryID_Ok idPreimage_def)
  have distinct: "distinct (rev [idOf ''txheader'', idOf ''retirement1'', idOf ''mux1'', idOf ''spend1'', idOf ''output1'', zeroHash])"
    using idOf_distinct by (simp only: distinct_rev)
  note ids = ids retire_ids(1,2,5) [THEN entryID_any, where 'y = unit]
  note parts = retire_parts mapTx_def retireData_def initialState_def mapSpend_def mapIssuance_def modify_def addEntry_def bindA_def pureA_def
    NewOutput_def NewSpend_def NewMux_def NewRetirement_def NewTxHeader_def setSpendDestination_def updateEntry_def mapOutput_def resultEntry_def IsUnspendable_def
    Let_def noData
  show ?thesis using ids idOf_distinct distinct unfolding parts by (simp add: parts retireState_def)
qed

lemma retire_entriesOf: "entriesOf retireState = tx_Entries retireTx"
proof
  show "entriesOf retireState h = tx_Entries retireTx h" for h
    using idOf_distinct by (auto simp: entriesOf_def retireState_def retireTx_def)
qed

lemma retire_maps: "MapTx lengthHash (\<lambda>ks. ks) retireData = Ok retireTx"
proof -
  have "foldO (indexEntry (tx_Entries retireTx)) (map fst (ms_entryMap retireState)) ([zeroHash], [], []) =
      (Ok ([idOf ''spend1''], [], [idOf ''output1'']) :: (unit, Hash list \<times> Hash list \<times> Hash list) outcome)"
    by (simp add: retireState_def indexEntry_def retire_entries Let_def retireSpend_def List.insert_def)
  then show ?thesis by (simp add: MapTx_def retire_mapTx retire_entriesOf) (simp add: retireData_def retireTx_def)
qed

lemma retire_noCollision: "noCollision lengthHash retireData"
proof -
  have len: "length (lengthHash x) = 32" for x by (simp add: lengthHash_def)
  have nz: "NewHash (lengthHash x) \<noteq> zeroHash" for x
  proof
    assume "NewHash (lengthHash x) = zeroHash"
    then have "lengthHash x = Byte32 zeroHash" using Byte32_NewHash [OF len] by metis
    moreover have "Byte32 zeroHash = replicate 32 0" by code_simp
    ultimately show False by (simp add: lengthHash_def numeral_eq_Suc)
  qed
  let ?inputs = "concat (map (\<lambda>e. let b = fst (writeEach (hashedParts e)) in [b, idPreimage lengthHash e b]) (ms_store retireState))"
  have "distinct (map lengthHash ?inputs)" by code_simp
  moreover have "(\<Union>e \<in> set (ms_store retireState). hashInputs lengthHash e) = set ?inputs" by (auto simp: hashInputs_def Let_def)
  ultimately have "inj_on lengthHash (\<Union>e \<in> set (ms_store retireState). hashInputs lengthHash e)" by (simp only: distinct_map)
  then show ?thesis using len nz by (simp add: noCollision_def translated_def retire_mapTx)
qed

section \<open>Properties\<close>



end
