(* ===== verification/Legacy_Block.thy ===== *)
theory Legacy_Block
  imports Legacy_Map
begin

text \<open>
  Blocks in the form in which they are exchanged and stored: \<^verbatim>\<open>block.go\<close>, \<^verbatim>\<open>block_header.go\<close>, \<^verbatim>\<open>block_commitment.go\<close> and
  \<^verbatim>\<open>block_witness.go\<close> of \<^verbatim>\<open>protocol/bc/legacy\<close>, their binary encoding, and their translation by \<^verbatim>\<open>MapBlock\<close>.
\<close>

section \<open>Data\<close>

record BlockCommitment =
  bcm_TransactionsMerkleRoot :: Hash
  bcm_AssetsMerkleRoot :: Hash
  bcm_ConsensusProgram :: bytes

record LegacyBlockHeader =
  lh_Version :: uint64
  lh_Height :: uint64
  lh_PreviousBlockHash :: Hash
  lh_TimestampMS :: uint64
  lh_BlockCommitment :: BlockCommitment
  lh_CommitmentSuffix :: bytes
  lh_Witness :: "bytes list"
  lh_WitnessSuffix :: bytes

text \<open>A transaction with its entries.\<close>

record LegacyTx =
  lt_TxData :: TxData
  lt_Tx :: Tx

record LegacyBlock =
  lb_BlockHeader :: LegacyBlockHeader
  lb_Transactions :: "LegacyTx list"

section \<open>Translation\<close>

definition NewBlockHeader :: "uint64 \<Rightarrow> uint64 \<Rightarrow> Hash \<Rightarrow> uint64 \<Rightarrow> Hash \<Rightarrow> Hash \<Rightarrow> bytes \<Rightarrow> BlockHeader" where
  "NewBlockHeader version height previousBlockID timestampMS transactionsRoot assetsRoot nextConsensusProgram =
     \<lparr>bh_Version = version, bh_Height = height, bh_PreviousBlockId = Some previousBlockID, bh_TimestampMs = timestampMS,
      bh_TransactionsRoot = Some transactionsRoot, bh_AssetsRoot = Some assetsRoot, bh_NextConsensusProgram = nextConsensusProgram,
      bh_ExtHash = None, bh_WitnessArguments = []\<rparr>"

definition mapBlockHeader :: "(bytes \<Rightarrow> bytes) \<Rightarrow> LegacyBlockHeader \<Rightarrow> ('e, Hash \<times> BlockHeader) outcome" where
  "mapBlockHeader H old =
     (let c = lh_BlockCommitment old;
          bh = (NewBlockHeader (lh_Version old) (lh_Height old) (lh_PreviousBlockHash old) (lh_TimestampMS old)
            (bcm_TransactionsMerkleRoot c) (bcm_AssetsMerkleRoot c) (bcm_ConsensusProgram c))\<lparr>bh_WitnessArguments := lh_Witness old\<rparr>
      in bindO (entryID H (Some (EBlockHeader bh))) (\<lambda>bhID. Ok (bhID, bh)))"

definition blockHash :: "(bytes \<Rightarrow> bytes) \<Rightarrow> LegacyBlock \<Rightarrow> ('e, Hash) outcome" where
  "blockHash H b = bindO (mapBlockHeader H (lb_BlockHeader b)) (\<lambda>(h, _). Ok h)"

definition MapBlock :: "(bytes \<Rightarrow> bytes) \<Rightarrow> LegacyBlock \<Rightarrow> ('e, Block) outcome" where
  "MapBlock H old = bindO (mapBlockHeader H (lb_BlockHeader old)) (\<lambda>(i, bh).
     Ok \<lparr>blk_BlockHeader = bh, blk_ID = i, blk_Transactions = map lt_Tx (lb_Transactions old)\<rparr>)"

definition NewTx :: "(bytes \<Rightarrow> bytes) \<Rightarrow> (Hash list \<Rightarrow> Hash list) \<Rightarrow> TxData \<Rightarrow> (unit, LegacyTx) outcome" where
  "NewTx H order d = bindO (MapTx H order d) (\<lambda>tx. Ok \<lparr>lt_TxData = d, lt_Tx = tx\<rparr>)"

section \<open>Encoding\<close>

definition BlockCommitmentReadFrom :: "BlockCommitment reader" where
  "BlockCommitmentReadFrom = bindR HashReadFrom (\<lambda>tr. bindR HashReadFrom (\<lambda>ar. bindR ReadVarstr31 (\<lambda>prog.
     returnR \<lparr>bcm_TransactionsMerkleRoot = tr, bcm_AssetsMerkleRoot = ar, bcm_ConsensusProgram = prog\<rparr>)))"

definition BlockCommitmentWriteTo :: "BlockCommitment \<Rightarrow> writer" where
  "BlockCommitmentWriteTo c = bindA (HashWriteTo (bcm_TransactionsMerkleRoot c)) (\<lambda>_. bindA (HashWriteTo (bcm_AssetsMerkleRoot c)) (\<lambda>_.
     liftW (WriteVarstr31 (bcm_ConsensusProgram c))))"

definition SerBlockHeader :: byte where
  "SerBlockHeader = 1"

definition SerBlockFull :: byte where
  "SerBlockFull = 3"

text \<open>The flags are read without looking at the error: of an empty buffer they are zero.\<close>

definition readFlags :: "byte reader" where
  "readFlags buf = (case buf of [] \<Rightarrow> (Inr 0, []) | b # buf' \<Rightarrow> (Inr b, buf'))"

definition BlockHeaderReadFrom :: "(byte \<times> LegacyBlockHeader) reader" where
  "BlockHeaderReadFrom = bindR readFlags (\<lambda>serflags.
     if serflags \<notin> {0, SerBlockHeader, SerBlockFull} then failR ''unsupported serialization flags''
     else bindR ReadVarint63 (\<lambda>ver. bindR ReadVarint63 (\<lambda>height. bindR HashReadFrom (\<lambda>prev. bindR ReadVarint63 (\<lambda>ts.
       bindR (ReadExtensibleString BlockCommitmentReadFrom) (\<lambda>(c, csuffix).
       bindR (if serflags AND 1 = 1 then ReadExtensibleString ReadVarstrList else returnR ([], [])) (\<lambda>(w, wsuffix).
         returnR (serflags, \<lparr>lh_Version = ver, lh_Height = height, lh_PreviousBlockHash = prev, lh_TimestampMS = ts,
           lh_BlockCommitment = c, lh_CommitmentSuffix = csuffix, lh_Witness = w, lh_WitnessSuffix = wsuffix\<rparr>))))))))"

definition BlockHeaderWrite :: "LegacyBlockHeader \<Rightarrow> byte \<Rightarrow> writer" where
  "BlockHeaderWrite bh serflags = bindA (put [serflags]) (\<lambda>_. bindA (liftW (WriteVarint63 (lh_Version bh))) (\<lambda>_.
     bindA (liftW (WriteVarint63 (lh_Height bh))) (\<lambda>_. bindA (HashWriteTo (lh_PreviousBlockHash bh)) (\<lambda>_.
     bindA (liftW (WriteVarint63 (lh_TimestampMS bh))) (\<lambda>_.
     bindA (writeExt (lh_CommitmentSuffix bh) (BlockCommitmentWriteTo (lh_BlockCommitment bh))) (\<lambda>_.
     if serflags AND 1 = 1 then writeExt (lh_WitnessSuffix bh) (liftW (WriteVarstrList (lh_Witness bh))) else doneW))))))"

text \<open>Reading a block translates its transactions, which may panic.\<close>

primrec readTxs :: "(bytes \<Rightarrow> bytes) \<Rightarrow> (Hash list \<Rightarrow> Hash list) \<Rightarrow> nat \<Rightarrow> bytes \<Rightarrow> (enc_error, LegacyTx list \<times> bytes) outcome" where
  "readTxs H order 0 buf = Ok ([], buf)"
| "readTxs H order (Suc n) buf = (case TxDataReadFrom H buf of
       (Inl e, _) \<Rightarrow> Fail e
     | (Inr d, buf') \<Rightarrow> (case NewTx H order d of
           Ok tx \<Rightarrow> bindO (readTxs H order n buf') (\<lambda>(txs, rest). Ok (tx # txs, rest))
         | Fail _ \<Rightarrow> Crash | Crash \<Rightarrow> Crash | Diverge \<Rightarrow> Diverge))"

definition BlockReadFrom :: "(bytes \<Rightarrow> bytes) \<Rightarrow> (Hash list \<Rightarrow> Hash list) \<Rightarrow> bytes \<Rightarrow> (enc_error, LegacyBlock \<times> bytes) outcome" where
  "BlockReadFrom H order buf = (case BlockHeaderReadFrom buf of
       (Inl e, _) \<Rightarrow> Fail e
     | (Inr (serflags, bh), buf1) \<Rightarrow>
         if serflags AND 2 = 2 then (case ReadVarint31 buf1 of
             (Inl e, _) \<Rightarrow> Fail e
           | (Inr n, buf2) \<Rightarrow> bindO (readTxs H order (unat n) buf2) (\<lambda>(txs, rest). Ok (\<lparr>lb_BlockHeader = bh, lb_Transactions = txs\<rparr>, rest)))
         else Ok (\<lparr>lb_BlockHeader = bh, lb_Transactions = []\<rparr>, buf1))"

text \<open>
  \<^verbatim>\<open>WriteTo\<close> of a block: what the header, the count and each transaction write, without a look at the errors.
\<close>

definition quietly :: "writer \<Rightarrow> writer" where
  "quietly w out = (case w out of (Fail e, out') \<Rightarrow> (Ok (), out') | r \<Rightarrow> r)"

definition BlockWriteTo :: "(bytes \<Rightarrow> bytes) \<Rightarrow> LegacyBlock \<Rightarrow> writer" where
  "BlockWriteTo H b = bindA (quietly (BlockHeaderWrite (lb_BlockHeader b) SerBlockFull)) (\<lambda>_.
     bindA (quietly (liftW (WriteVarint31 (word_of_nat (length (lb_Transactions b)))))) (\<lambda>_.
     forA (\<lambda>tx. quietly (TxDataWriteAll H (lt_TxData tx) serRequired)) (lb_Transactions b)))"

section \<open>Reading back\<close>

lemma reads_commitment: "reads (BlockCommitmentWriteTo c) BlockCommitmentReadFrom c"
  unfolding BlockCommitmentWriteTo_def BlockCommitmentReadFrom_def
  by (intro reads_bind [OF reads_hash] reads_eq [OF reads_then [OF reads_varstr]] BlockCommitment.equality) simp_all

lemma reads_flags: "reads (put [b]) readFlags b"
  by (simp add: reads_def put_def readFlags_def)

lemma reads_header_flags:
  assumes flag: "f AND 1 = 1" and ok: "\<not> (f \<notin> {0, SerBlockHeader, SerBlockFull})"
  shows "reads (BlockHeaderWrite bh f) BlockHeaderReadFrom (f, bh)"
  unfolding BlockHeaderWrite_def BlockHeaderReadFrom_def
  by (rule reads_bind [OF reads_flags], unfold if_not_P [OF ok] if_P [OF flag],
      intro reads_bind [OF reads_varint63] reads_bind [OF reads_hash], rule reads_bind [OF reads_ext [OF reads_commitment]], unfold prod.case)
    (rule reads_eq [OF reads_then_pair [OF reads_ext [OF reads_varstrs]]], simp)

lemma reads_header: "reads (BlockHeaderWrite bh SerBlockFull) BlockHeaderReadFrom (SerBlockFull, bh)"
  by (rule reads_header_flags) (simp_all add: SerBlockFull_def)

lemma readTxs_Ok:
  "readTimes n (TxDataReadFrom H) buf = (Inr ds, rest) \<Longrightarrow> list_all2 (\<lambda>d tx. NewTx H order d = Ok tx) ds txs \<Longrightarrow>
    readTxs H order n buf = Ok (txs, rest)"
proof (induction n arbitrary: buf ds txs)
  case (Suc n)
  then obtain d buf' ds' where d: "TxDataReadFrom H buf = (Inr d, buf')" "readTimes n (TxDataReadFrom H) buf' = (Inr ds', rest)" "ds = d # ds'"
    by (auto simp: bindR_def returnR_def split: prod.splits sum.splits)
  with Suc.prems(2) obtain tx txs' where "txs = tx # txs'" "NewTx H order d = Ok tx" "list_all2 (\<lambda>d tx. NewTx H order d = Ok tx) ds' txs'"
    by (auto simp: list_all2_Cons1)
  with d Suc.IH [OF d(2)] show ?case by simp
qed (auto simp: returnR_def)

lemma tx_grows: "readable tx \<Longrightarrow> grows (TxDataWriteAll H tx serRequired)"
proof -
  assume tx: "readable tx"
  have "length out < length out'" if w: "TxDataWriteAll H tx serRequired out = (Ok (), out')" for out out'
  proof -
    from readsD [OF reads_tx [OF tx] w]
    obtain b where b: "out' = out @ b" "length b < 2 ^ 64 \<longrightarrow> (\<forall>rest. TxDataReadFrom H (b @ rest) = (Inr (echo tx), rest))"
      by (elim exE conjE)
    have "TxDataReadFrom H [] \<noteq> (Inr (echo tx), [])" by (simp add: TxDataReadFrom_def bindR_def ReadFull_def)
    with b(2) have "b \<noteq> []" by (metis append_Nil list.size(3) zero_less_numeral zero_less_power)
    with b(1) show ?thesis by simp
  qed
  then show ?thesis by (simp add: grows_def)
qed

text \<open>A block whose transactions were translated from their data and survive encoding.\<close>

definition soundBlock :: "(bytes \<Rightarrow> bytes) \<Rightarrow> (Hash list \<Rightarrow> Hash list) \<Rightarrow> LegacyBlock \<Rightarrow> bool" where
  "soundBlock H order b \<longleftrightarrow> (\<forall>tx \<in> set (lb_Transactions b). NewTx H order (lt_TxData tx) = Ok tx \<and> readable (lt_TxData tx) \<and> echo (lt_TxData tx) = lt_TxData tx)"

text \<open>The writer of blocks, stopping at errors.\<close>

definition writeStrictly :: "(bytes \<Rightarrow> bytes) \<Rightarrow> LegacyBlock \<Rightarrow> writer" where
  "writeStrictly H b = bindA (BlockHeaderWrite (lb_BlockHeader b) SerBlockFull) (\<lambda>_.
     bindA (liftW (WriteVarint31 (word_of_nat (length (lb_Transactions b))))) (\<lambda>_.
     bindA (forA (\<lambda>tx. TxDataWriteAll H (lt_TxData tx) serRequired) (lb_Transactions b)) (\<lambda>_. doneW)))"

lemma quietly_Ok: "w out = (Ok (), out') \<Longrightarrow> quietly w out = (Ok (), out')"
  by (simp add: quietly_def)

lemma quietly_for: "forA w xs out = (Ok (), out') \<Longrightarrow> forA (\<lambda>x. quietly (w x)) xs out = (Ok (), out')"
  by (induction xs arbitrary: out) (auto simp: bindA_Ok_iff dest: quietly_Ok)

lemma writeStrictly_Ok:
  assumes "writeStrictly H b out = (Ok (), out')"
  shows "BlockWriteTo H b out = (Ok (), out')"
proof -
  from assms obtain m1 m2 where s: "BlockHeaderWrite (lb_BlockHeader b) SerBlockFull out = (Ok (), m1)"
      "liftW (WriteVarint31 (word_of_nat (length (lb_Transactions b)))) m1 = (Ok (), m2)"
      "forA (\<lambda>tx. TxDataWriteAll H (lt_TxData tx) serRequired) (lb_Transactions b) m2 = (Ok (), out')"
    unfolding writeStrictly_def bindA_Ok_iff doneW_def by auto
  show ?thesis
    unfolding BlockWriteTo_def bindA_def using quietly_Ok [of "BlockHeaderWrite (lb_BlockHeader b) SerBlockFull", OF s(1)] quietly_Ok [of "liftW (WriteVarint31 (word_of_nat (length (lb_Transactions b))))", OF s(2)] quietly_for [OF s(3)] by (simp add: doneW_def)
qed

lemma reads_block:
  assumes "soundBlock H order b"
  shows "reads (writeStrictly H b) (bindR BlockHeaderReadFrom (\<lambda>h. bindR ReadVarint31 (\<lambda>n. bindR (readTimes (unat n) (TxDataReadFrom H)) (\<lambda>ds. returnR (h, ds)))))
    ((SerBlockFull, lb_BlockHeader b), map lt_TxData (lb_Transactions b))"
proof -
  have txs: "reads (TxDataWriteAll H (lt_TxData tx) serRequired) (TxDataReadFrom H) (lt_TxData tx)" "grows (TxDataWriteAll H (lt_TxData tx) serRequired)"
    if "tx \<in> set (lb_Transactions b)" for tx
    using assms that reads_tx [of "lt_TxData tx" H] tx_grows by (auto simp: soundBlock_def)
  show ?thesis unfolding writeStrictly_def
    by (rule reads_bind [OF reads_header], rule reads_counted [OF txs], assumption, assumption, rule reads_return)
qed

section \<open>Properties\<close>

text \<open>
  A block is read back as it was written, transactions and their entries included, provided that nothing was too large to be
  encoded, that the entries of its transactions come from their translation, and that its transactions survive encoding.
\<close>
lemma block_encoding_roundtrip:
  assumes "writeStrictly H b [] = (Ok (), out)" and "soundBlock H order b" and "length out < 2 ^ 64"
  shows "BlockWriteTo H b [] = (Ok (), out) \<and> BlockReadFrom H order (out @ rest) = Ok (b, rest)"
proof
  show "BlockWriteTo H b [] = (Ok (), out)" by (rule writeStrictly_Ok [OF assms(1)])
  have "bindR BlockHeaderReadFrom (\<lambda>h. bindR ReadVarint31 (\<lambda>n. bindR (readTimes (unat n) (TxDataReadFrom H)) (\<lambda>ds. returnR (h, ds)))) (out @ rest) =
      (Inr ((SerBlockFull, lb_BlockHeader b), map lt_TxData (lb_Transactions b)), rest)"
    using readsD [OF reads_block [OF assms(2)] assms(1)] assms(3) by auto
  then obtain buf1 n buf2 where r: "BlockHeaderReadFrom (out @ rest) = (Inr (SerBlockFull, lb_BlockHeader b), buf1)"
      "ReadVarint31 buf1 = (Inr n, buf2)" "readTimes (unat n) (TxDataReadFrom H) buf2 = (Inr (map lt_TxData (lb_Transactions b)), rest)"
    by (auto simp: bindR_def returnR_def split: prod.splits sum.splits)
  have "list_all2 (\<lambda>d tx. NewTx H order d = Ok tx) (map lt_TxData (lb_Transactions b)) (lb_Transactions b)"
    using assms(2) by (auto simp: soundBlock_def list_all2_conv_all_nth)
  from readTxs_Ok [OF r(3) this] r(1,2) show "BlockReadFrom H order (out @ rest) = Ok (b, rest)"
    by (simp add: BlockReadFrom_def SerBlockFull_def)
qed

definition sampleBlock :: LegacyBlock where
  "sampleBlock = \<lparr>lb_BlockHeader = \<lparr>lh_Version = 1, lh_Height = 2, lh_PreviousBlockHash = zeroHash, lh_TimestampMS = 3,
     lh_BlockCommitment = \<lparr>bcm_TransactionsMerkleRoot = zeroHash, bcm_AssetsMerkleRoot = zeroHash, bcm_ConsensusProgram = [81]\<rparr>,
     lh_CommitmentSuffix = [], lh_Witness = [[1, 2], []], lh_WitnessSuffix = [7]\<rparr>, lb_Transactions = []\<rparr>"

lemma sample_written: "writeStrictly (\<lambda>_. []) sampleBlock [] = (Ok (), snd (writeStrictly (\<lambda>_. []) sampleBlock []))"
  by code_simp

lemma sample_short: "length (snd (writeStrictly (\<lambda>_. []) sampleBlock [])) < 2 ^ 64"
proof -
  have "length (snd (writeStrictly (\<lambda>_. []) sampleBlock [])) < 200" by code_simp
  then show ?thesis by simp
qed

end
