(* ===== verification/Chain.thy ===== *)
theory Chain
  imports Legacy_Block State_Snapshot Validation VMUtil "HOL-Library.Mapping"
begin

text \<open>
  The chain of package \<^verbatim>\<open>protocol\<close>: \<^verbatim>\<open>protocol.go\<close>, \<^verbatim>\<open>block.go\<close>, \<^verbatim>\<open>tx.go\<close> and \<^verbatim>\<open>recover.go\<close>. A chain validates transactions and
  blocks, generates blocks, applies them to its state, stores them and recovers the state after a crash. The store is an
  interface in the code and a record of actions here. The cache of verdicts is an LRU cache from another package, here a
  record of its two operations.
\<close>

section \<open>Data\<close>

datatype store_error = AlreadyHaveBlock uint64 | NoBlockAt uint64 | StorageFailure string

text \<open>
  The last field is not an operation of the interface: a store gets pointers to blocks, and \<open>st_Changed b\<close> is what becomes of a store
  when the block object last saved at the height of \<open>b\<close> is turned into \<open>b\<close> afterwards. For a store that writes blocks to disk it is
  the identity, one that keeps the pointer sees the change.
\<close>

record 'st Store =
  st_Height :: "('st, store_error, uint64) action"
  st_GetBlock :: "uint64 \<Rightarrow> ('st, store_error, LegacyBlock) action"
  st_LatestSnapshot :: "('st, store_error, Snapshot option \<times> uint64) action"
  st_SaveBlock :: "LegacyBlock \<Rightarrow> ('st, store_error, unit) action"
  st_FinalizeBlock :: "uint64 \<Rightarrow> ('st, store_error, unit) action"
  st_SaveSnapshot :: "uint64 \<Rightarrow> Snapshot \<Rightarrow> ('st, store_error, unit) action"
  st_Changed :: "LegacyBlock \<Rightarrow> 'st \<Rightarrow> 'st"

text \<open>Looking up a key may reorder the cache, adding one may evict another. A stored \<open>None\<close> is the verdict valid.\<close>

record 'lru LRU =
  lru_Get :: "Hash \<Rightarrow> 'lru \<Rightarrow> val_error option option \<times> 'lru"
  lru_Add :: "Hash \<Rightarrow> val_error option \<Rightarrow> 'lru \<Rightarrow> 'lru"

text \<open>What the chain is run with: SHA3, the primitives of the virtual machine, bounds for programs and entries, the store and the cache.\<close>

record ('st, 'lru) env =
  env_H :: "bytes \<Rightarrow> bytes"
  env_prims :: prims
  env_fuel :: nat
  env_depth :: nat
  env_store :: "'st Store"
  env_lru :: "'lru LRU"

text \<open>
  Times are nanoseconds since 1970. The channel of pending snapshots has room for one.
\<close>

record ('st, 'lru) Chain =
  ch_InitialBlockHash :: Hash
  ch_MaxIssuanceWindow :: int64
  ch_height :: uint64
  ch_block :: "LegacyBlock option"
  ch_snapshot :: "Snapshot option"
  ch_store :: 'st
  ch_lastQueuedSnapshot :: int
  ch_pendingSnapshots :: "(uint64 \<times> Snapshot) option"
  ch_prevalidated :: 'lru

datatype chain_error =
    ErrBadTx | ErrBadBlock | ErrBadStateRoot
  | StoreFailed store_error | ApplyFailed snap_error | ProgramFailed vmutil_error
  | EarlierTimestamp | GenesisCommitError | RecoveredRootDiffers uint64

definition mapFail :: "('e \<Rightarrow> 'f) \<Rightarrow> ('e, 'a) outcome \<Rightarrow> ('f, 'a) outcome" where
  "mapFail f r = (case r of Ok a \<Rightarrow> Ok a | Fail e \<Rightarrow> Fail (f e) | Crash \<Rightarrow> Crash | Diverge \<Rightarrow> Diverge)"

definition mapFailA :: "('e \<Rightarrow> 'f) \<Rightarrow> ('s, 'e, 'a) action \<Rightarrow> ('s, 'f, 'a) action" where
  "mapFailA f m s = (case m s of (r, s') \<Rightarrow> (mapFail f r, s'))"

text \<open>An action of the store as an action of the chain.\<close>

definition onStore :: "('st, store_error, 'a) action \<Rightarrow> (('st, 'lru) Chain, chain_error, 'a) action" where
  "onStore m c = (case m (ch_store c) of (r, st) \<Rightarrow> (mapFail StoreFailed r, c\<lparr>ch_store := st\<rparr>))"

text \<open>A change of the chain that cannot fail.\<close>

definition modifyA :: "('s \<Rightarrow> 's) \<Rightarrow> ('s, 'e, unit) action" where
  "modifyA f s = (Ok (), f s)"

section \<open>The state\<close>

text \<open>The zero value of \<^verbatim>\<open>time.Time\<close> is the start of the year 1.\<close>

definition zeroTime :: int where
  "zeroTime = - 62135596800 * 10 ^ 9"

definition NewChain :: "('st, 'lru) env \<Rightarrow> 'lru \<Rightarrow> Hash \<Rightarrow> ('st, chain_error, ('st, 'lru) Chain) action" where
  "NewChain E lru initialBlockHash st = (case st_Height (env_store E) st of (r, st') \<Rightarrow>
     (bindO (mapFail StoreFailed r) (\<lambda>height. Ok \<lparr>ch_InitialBlockHash = initialBlockHash, ch_MaxIssuanceWindow = 0, ch_height = height,
        ch_block = None, ch_snapshot = None, ch_store = st', ch_lastQueuedSnapshot = zeroTime, ch_pendingSnapshots = None,
        ch_prevalidated = lru\<rparr>), st'))"

definition setHeight :: "uint64 \<Rightarrow> ('st, 'lru) Chain \<Rightarrow> ('st, 'lru) Chain" where
  "setHeight h c = (if h \<le> ch_height c then c else c\<lparr>ch_height := h\<rparr>)"

definition setState :: "LegacyBlock option \<Rightarrow> Snapshot \<Rightarrow> ('st, 'lru) Chain \<Rightarrow> ('st, 'lru) Chain" where
  "setState b s c = (let c = c\<lparr>ch_block := b, ch_snapshot := Some s\<rparr> in
     case b of None \<Rightarrow> c
     | Some b \<Rightarrow> if lh_Height (lb_BlockHeader b) > ch_height c then c\<lparr>ch_height := lh_Height (lb_BlockHeader b)\<rparr> else c)"

text \<open>The milliseconds of the header, turned into nanoseconds with wrap-around and cast to a signed number.\<close>

definition Time :: "LegacyBlockHeader \<Rightarrow> int" where
  "Time bh = sint (lh_TimestampMS bh * 1000000)"

definition saveSnapshotFrequency :: int where
  "saveSnapshotFrequency = 3600 * 10 ^ 9"

definition queueSnapshot :: "uint64 \<Rightarrow> int \<Rightarrow> Snapshot \<Rightarrow> ('st, 'lru) Chain \<Rightarrow> ('st, 'lru) Chain" where
  "queueSnapshot height timestamp s c = (case ch_pendingSnapshots c of
       None \<Rightarrow> c\<lparr>ch_pendingSnapshots := Some (height, s), ch_lastQueuedSnapshot := timestamp\<rparr>
     | Some _ \<Rightarrow> c)"

text \<open>One round of the goroutine that saves snapshots; an error of the store is only logged.\<close>

definition savePending :: "('st, 'lru) env \<Rightarrow> ('st, 'lru) Chain \<Rightarrow> ('st, 'lru) Chain" where
  "savePending E c = (case ch_pendingSnapshots c of None \<Rightarrow> c
     | Some (height, s) \<Rightarrow> c\<lparr>ch_pendingSnapshots := None, ch_store := snd (st_SaveSnapshot (env_store E) height s (ch_store c))\<rparr>)"

definition CommitAppliedBlock :: "('st, 'lru) env \<Rightarrow> LegacyBlock \<Rightarrow> Snapshot \<Rightarrow> (('st, 'lru) Chain, chain_error, unit) action" where
  "CommitAppliedBlock E block snapshot =
     (let bh = lb_BlockHeader block in
      bindA (onStore (st_SaveBlock (env_store E) block)) (\<lambda>_.
      bindA (modifyA (\<lambda>c. if Time bh > ch_lastQueuedSnapshot c + saveSnapshotFrequency
         then queueSnapshot (lh_Height bh) (Time bh) snapshot c else c)) (\<lambda>_.
      bindA (onStore (st_FinalizeBlock (env_store E) (lh_Height bh))) (\<lambda>_.
      modifyA (setState (Some block) snapshot)))))"

section \<open>Transactions\<close>

definition DurationMillis :: "int64 \<Rightarrow> uint64" where
  "DurationMillis d = word_of_int (d sdiv 1000000)"

definition checkIssuanceWindow :: "('st, 'lru) Chain \<Rightarrow> Tx \<Rightarrow> (chain_error, unit) outcome" where
  "checkIssuanceWindow c tx =
     (if ch_MaxIssuanceWindow c = 0 then Ok ()
      else forO (\<lambda>entryID. case txIssuance tx entryID of Inl _ \<Rightarrow> Ok ()
        | Inr _ \<Rightarrow> failIf (hdr_MinTimeMs (tx_TxHeader tx) + DurationMillis (ch_MaxIssuanceWindow c) < hdr_MaxTimeMs (tx_TxHeader tx)) ErrBadTx)
        (tx_InputIDs tx))"

definition cachedResult :: "val_error option \<Rightarrow> (chain_error, unit) outcome" where
  "cachedResult v = (case v of None \<Rightarrow> Ok () | Some _ \<Rightarrow> Fail ErrBadTx)"

definition ChainValidateTx :: "('st, 'lru) env \<Rightarrow> Tx \<Rightarrow> (('st, 'lru) Chain, chain_error, unit) action" where
  "ChainValidateTx E tx c = (case checkIssuanceWindow c tx of
       Ok _ \<Rightarrow> (case lru_Get (env_lru E) (tx_ID tx) (ch_prevalidated c) of
           (Some v, l) \<Rightarrow> (cachedResult v, c\<lparr>ch_prevalidated := l\<rparr>)
         | (None, l) \<Rightarrow> (case ValidateTx (env_H E) (env_prims E) (env_fuel E) (env_depth E) tx (ch_InitialBlockHash c) of
               Ok _ \<Rightarrow> (Ok (), c\<lparr>ch_prevalidated := lru_Add (env_lru E) (tx_ID tx) None l\<rparr>)
             | Fail e \<Rightarrow> (Fail ErrBadTx, c\<lparr>ch_prevalidated := lru_Add (env_lru E) (tx_ID tx) (Some e) l\<rparr>)
             | Crash \<Rightarrow> (Crash, c\<lparr>ch_prevalidated := l\<rparr>)
             | Diverge \<Rightarrow> (Diverge, c\<lparr>ch_prevalidated := l\<rparr>)))
     | r \<Rightarrow> (r, c))"

section \<open>Blocks\<close>

definition NewInitialBlock :: "('st, 'lru) env \<Rightarrow> bytes list \<Rightarrow> int64 \<Rightarrow> uint64 \<Rightarrow> (chain_error, LegacyBlock) outcome" where
  "NewInitialBlock E pubkeys nSigs timestamp = (case BlockMultiSigProgram pubkeys nSigs of
       UErr e \<Rightarrow> Fail (ProgramFailed e)
     | UPanic \<Rightarrow> Crash
     | UOk script \<Rightarrow> Ok \<lparr>lb_BlockHeader = \<lparr>lh_Version = 1, lh_Height = 1, lh_PreviousBlockHash = zeroHash, lh_TimestampMS = timestamp,
         lh_BlockCommitment = \<lparr>bcm_TransactionsMerkleRoot = MerkleRoot (env_H E) [], bcm_AssetsMerkleRoot = zeroHash, bcm_ConsensusProgram = script\<rparr>,
         lh_CommitmentSuffix = [], lh_Witness = [], lh_WitnessSuffix = []\<rparr>, lb_Transactions = []\<rparr>)"

definition maxBlockTxs :: nat where
  "maxBlockTxs = 10000"

definition untimely :: "uint64 \<Rightarrow> TxHeader \<Rightarrow> bool" where
  "untimely ts h \<longleftrightarrow> hdr_MinTimeMs h > 0 \<and> hdr_MinTimeMs h > ts \<or> hdr_MaxTimeMs h > 0 \<and> hdr_MaxTimeMs h < ts"

text \<open>The loop of \<open>GenerateBlock\<close>: the transactions taken so far and the snapshot they lead to.\<close>

primrec takeTxs :: "('st, 'lru) env \<Rightarrow> uint64 \<Rightarrow> LegacyTx list \<Rightarrow> LegacyTx list \<Rightarrow> Snapshot \<Rightarrow>
    (('st, 'lru) Chain, chain_error, LegacyTx list \<times> Snapshot) action" where
  "takeTxs E ts [] taken s c = (Ok (taken, s), c)"
| "takeTxs E ts (tx # txs) taken s c =
     (if length taken \<ge> maxBlockTxs then (Ok (taken, s), c)
      else (case ChainValidateTx E (lt_Tx tx) c of
          (Fail _, c') \<Rightarrow> takeTxs E ts txs taken s c'
        | (Crash, c') \<Rightarrow> (Crash, c')
        | (Diverge, c') \<Rightarrow> (Diverge, c')
        | (Ok _, c') \<Rightarrow>
            if untimely ts (tx_TxHeader (lt_Tx tx)) then takeTxs E ts txs taken s c'
            else (case ApplyTx (env_H E) (lt_Tx tx) s of
                (Fail _, s') \<Rightarrow> takeTxs E ts txs taken s' c'
              | (Crash, _) \<Rightarrow> (Crash, c')
              | (Diverge, _) \<Rightarrow> (Diverge, c')
              | (Ok _, s') \<Rightarrow> takeTxs E ts txs (taken @ [tx]) s' c')))"

text \<open>The block before its transactions: the initial block, which is committed at once, or the successor of \<open>prev\<close>.\<close>

definition startBlock :: "('st, 'lru) env \<Rightarrow> LegacyBlock option \<Rightarrow> uint64 \<Rightarrow> (('st, 'lru) Chain, chain_error, LegacyBlock) action" where
  "startBlock E prev ts = (case prev of
       None \<Rightarrow> (case NewInitialBlock E [] 0 ts of
           Ok b \<Rightarrow> bindA (mapFailA (\<lambda>_. GenesisCommitError) (CommitAppliedBlock E b Empty)) (\<lambda>_. pureA (Ok b))
         | _ \<Rightarrow> pureA Crash)
     | Some p \<Rightarrow> (let ph = lb_BlockHeader p in
         if ts < lh_TimestampMS ph then pureA (Fail EarlierTimestamp)
         else pureA (bindO (blockHash (env_H E) p) (\<lambda>h. Ok \<lparr>lb_BlockHeader = \<lparr>lh_Version = 1, lh_Height = lh_Height ph + 1,
           lh_PreviousBlockHash = h, lh_TimestampMS = ts,
           lh_BlockCommitment = \<lparr>bcm_TransactionsMerkleRoot = zeroHash, bcm_AssetsMerkleRoot = zeroHash,
             bcm_ConsensusProgram = bcm_ConsensusProgram (lh_BlockCommitment ph)\<rparr>,
           lh_CommitmentSuffix = [], lh_Witness = [], lh_WitnessSuffix = []\<rparr>, lb_Transactions = []\<rparr>))))"

definition sealBlock :: "('st, 'lru) env \<Rightarrow> LegacyBlock \<Rightarrow> LegacyTx list \<Rightarrow> Snapshot \<Rightarrow> LegacyBlock" where
  "sealBlock E b txs s = \<lparr>lb_BlockHeader = (lb_BlockHeader b)\<lparr>lh_BlockCommitment := (lh_BlockCommitment (lb_BlockHeader b))
       \<lparr>bcm_TransactionsMerkleRoot := MerkleRoot (env_H E) (map lt_Tx txs), bcm_AssetsMerkleRoot := fst (RootHash (env_H E) (snap_Tree s))\<rparr>\<rparr>,
     lb_Transactions = txs\<rparr>"

text \<open>
  The state of the chain points to the initial block, and so may the store: both follow the changes made to it after its commit. The root hash is
  cached in the tree of the new snapshot.
\<close>

definition GenerateBlock :: "('st, 'lru) env \<Rightarrow> LegacyBlock option \<Rightarrow> uint64 \<Rightarrow> LegacyTx list \<Rightarrow>
    (('st, 'lru) Chain, chain_error, LegacyBlock \<times> Snapshot) action" where
  "GenerateBlock E prev ts txs =
     bindA (startBlock E prev ts) (\<lambda>b.
     bindA (\<lambda>c. (deref (ch_snapshot c), c)) (\<lambda>snapshot.
     bindA (takeTxs E ts txs [] (PruneNonces ts (Copy snapshot))) (\<lambda>(taken, s).
       let b' = sealBlock E b taken s in
       bindA (modifyA (\<lambda>c. if prev = None then c\<lparr>ch_block := Some b', ch_store := st_Changed (env_store E) b' (ch_store c)\<rparr> else c)) (\<lambda>_.
       pureA (Ok (b', s\<lparr>snap_Tree := snd (RootHash (env_H E) (snap_Tree s))\<rparr>))))))"

text \<open>The chain's validation of transactions, as the function passed to \<open>ValidateBlock\<close>.\<close>

definition txValidator :: "('st, 'lru) env \<Rightarrow> Tx \<Rightarrow> ('st, 'lru) Chain check" where
  "txValidator E tx = mapFailA (\<lambda>_. fromValidator) (ChainValidateTx E tx)"

definition MapBlockPtr :: "(bytes \<Rightarrow> bytes) \<Rightarrow> LegacyBlock option \<Rightarrow> ('e, Block option) outcome" where
  "MapBlockPtr H old = (case old of None \<Rightarrow> Ok None | Some b \<Rightarrow> bindO (MapBlock H b) (\<lambda>b. Ok (Some b)))"

definition ChainValidateBlock :: "('st, 'lru) env \<Rightarrow> LegacyBlock \<Rightarrow> LegacyBlock option \<Rightarrow> (('st, 'lru) Chain, chain_error, unit) action" where
  "ChainValidateBlock E block prev =
     bindA (pureA (MapBlock (env_H E) block)) (\<lambda>blockEnts.
     bindA (pureA (MapBlockPtr (env_H E) prev)) (\<lambda>prevEnts.
     bindA (mapFailA (\<lambda>_. ErrBadBlock) (ValidateBlock (env_H E) blockEnts prevEnts (txValidator E))) (\<lambda>_.
     if lh_Height (lb_BlockHeader block) > 1
     then bindA (pureA (deref prevEnts)) (\<lambda>p.
       pureA (mapFail (\<lambda>_. ErrBadBlock) (ValidateBlockSig (env_prims E) (env_fuel E) blockEnts (bh_NextConsensusProgram (blk_BlockHeader p)))))
     else pureA (Ok ()))))"

definition ValidateBlockForSig :: "('st, 'lru) env \<Rightarrow> LegacyBlock \<Rightarrow> (('st, 'lru) Chain, chain_error, unit) action" where
  "ValidateBlockForSig E block =
     (let height = lh_Height (lb_BlockHeader block) in
      bindA (if height > 1 then bindA (onStore (st_GetBlock (env_store E) (height - 1))) (\<lambda>p. pureA (Ok (Some p))) else pureA (Ok None)) (\<lambda>prev.
      bindA (pureA (MapBlock (env_H E) block)) (\<lambda>blockEnts.
      bindA (pureA (MapBlockPtr (env_H E) prev)) (\<lambda>prevEnts.
      mapFailA (\<lambda>_. ErrBadBlock) (ValidateBlock (env_H E) blockEnts prevEnts (txValidator E))))))"

text \<open>Applying a block to a snapshot and comparing the root of the tree with the one of the header.\<close>

definition applyChecked :: "(bytes \<Rightarrow> bytes) \<Rightarrow> (uint64 \<Rightarrow> chain_error) \<Rightarrow> LegacyBlock \<Rightarrow> Snapshot \<Rightarrow> (chain_error, Snapshot) outcome" where
  "applyChecked H err block s = bindO (MapBlock H block) (\<lambda>b. case ApplyBlock H b s of
       (Ok _, s') \<Rightarrow>
         if bcm_AssetsMerkleRoot (lh_BlockCommitment (lb_BlockHeader block)) \<noteq> fst (RootHash H (snap_Tree s'))
         then Fail (err (lh_Height (lb_BlockHeader block))) else Ok (s'\<lparr>snap_Tree := snd (RootHash H (snap_Tree s'))\<rparr>)
     | (Fail e, _) \<Rightarrow> Fail (ApplyFailed e) | (Crash, _) \<Rightarrow> Crash | (Diverge, _) \<Rightarrow> Diverge)"

definition ApplyValidBlock :: "('st, 'lru) env \<Rightarrow> LegacyBlock \<Rightarrow> ('st, 'lru) Chain \<Rightarrow> (chain_error, Snapshot) outcome" where
  "ApplyValidBlock E block c = bindO (deref (ch_snapshot c)) (\<lambda>s. applyChecked (env_H E) (\<lambda>_. ErrBadStateRoot) block (Copy s))"

section \<open>Recovery\<close>

text \<open>
  The loop from height \<open>h\<close> to \<open>height\<close>. The height counts up to the largest number and wraps around then; \<open>Diverge\<close> is the result after
  the given number of rounds.
\<close>

primrec replay :: "('st, 'lru) env \<Rightarrow> nat \<Rightarrow> uint64 \<Rightarrow> uint64 \<Rightarrow> LegacyBlock option \<Rightarrow> Snapshot \<Rightarrow>
    (('st, 'lru) Chain, chain_error, LegacyBlock option \<times> Snapshot) action" where
  "replay E 0 h height b s = pureA Diverge"
| "replay E (Suc n) h height b s =
     (if h \<le> height
      then bindA (onStore (st_GetBlock (env_store E) h)) (\<lambda>b'.
        bindA (pureA (applyChecked (env_H E) RecoveredRootDiffers b' s)) (\<lambda>s'. replay E n (h + 1) height (Some b') s'))
      else pureA (Ok (b, s)))"

text \<open>The block of the snapshot, and the commit of the last block, which may not have been finalized before the crash.\<close>

definition snapshotBlock :: "('st, 'lru) env \<Rightarrow> uint64 \<Rightarrow> (('st, 'lru) Chain, chain_error, LegacyBlock option) action" where
  "snapshotBlock E snapshotHeight =
     (if snapshotHeight > 0
      then bindA (onStore (st_GetBlock (env_store E) snapshotHeight)) (\<lambda>b.
        bindA (modifyA (\<lambda>c. c\<lparr>ch_lastQueuedSnapshot := Time (lb_BlockHeader b)\<rparr>)) (\<lambda>_. pureA (Ok (Some b))))
      else pureA (Ok None))"

definition recommit :: "('st, 'lru) env \<Rightarrow> LegacyBlock option \<Rightarrow> Snapshot \<Rightarrow> (('st, 'lru) Chain, chain_error, LegacyBlock option \<times> Snapshot) action" where
  "recommit E b s = (case b of None \<Rightarrow> pureA (Ok (b, s)) | Some b' \<Rightarrow> bindA (CommitAppliedBlock E b' s) (\<lambda>_. pureA (Ok (b, s))))"

definition Recover :: "('st, 'lru) env \<Rightarrow> (('st, 'lru) Chain, chain_error, LegacyBlock option \<times> Snapshot) action" where
  "Recover E =
     bindA (onStore (st_LatestSnapshot (env_store E))) (\<lambda>(snapshot, snapshotHeight).
     bindA (snapshotBlock E snapshotHeight) (\<lambda>b.
     bindA (onStore (st_Height (env_store E))) (\<lambda>height.
     bindA (replay E (unat height + 2) (snapshotHeight + 1) height b (case snapshot of None \<Rightarrow> Empty | Some s \<Rightarrow> s)) (\<lambda>(b, s).
     recommit E b s))))"

end
