(* ===== verification/Chain_Store.thy ===== *)
theory Chain_Store
  imports Chain
begin

text \<open>
  What a chain relies on when it stores blocks and snapshots, as a locale, and the store of
  \<^verbatim>\<open>protocol/prottest/memstore/memstore.go\<close>, which fulfils it.
\<close>

section \<open>The memory store\<close>

record MemStore =
  ms_Blocks :: "(uint64, LegacyBlock) mapping"
  ms_State :: "Snapshot option"
  ms_StateHeight :: uint64

definition MemStoreNew :: MemStore where
  "MemStoreNew = \<lparr>ms_Blocks = Mapping.empty, ms_State = None, ms_StateHeight = 0\<rparr>"

definition MemHeight :: "(MemStore, store_error, uint64) action" where
  "MemHeight m = (Ok (word_of_nat (Mapping.size (ms_Blocks m))), m)"

definition MemSaveBlock :: "(bytes \<Rightarrow> bytes) \<Rightarrow> LegacyBlock \<Rightarrow> (MemStore, store_error, unit) action" where
  "MemSaveBlock H b =
     (let height = lh_Height (lb_BlockHeader b) in
      bindA (\<lambda>m. (case Mapping.lookup (ms_Blocks m) height of None \<Rightarrow> Ok ()
        | Some existing \<Rightarrow> bindO (blockHash H existing) (\<lambda>h. bindO (blockHash H b) (\<lambda>h'. failIf (h \<noteq> h') (AlreadyHaveBlock height))), m)) (\<lambda>_ m.
      (Ok (), m\<lparr>ms_Blocks := Mapping.update height b (ms_Blocks m)\<rparr>)))"

text \<open>The map holds pointers to blocks: a change to the object saved at a height shows in the map.\<close>

definition MemChanged :: "LegacyBlock \<Rightarrow> MemStore \<Rightarrow> MemStore" where
  "MemChanged b m = m\<lparr>ms_Blocks := Mapping.map_entry (lh_Height (lb_BlockHeader b)) (\<lambda>_. b) (ms_Blocks m)\<rparr>"

definition MemSaveSnapshot :: "uint64 \<Rightarrow> Snapshot \<Rightarrow> (MemStore, store_error, unit) action" where
  "MemSaveSnapshot height snapshot m = (Ok (), m\<lparr>ms_State := Some (Copy snapshot), ms_StateHeight := height\<rparr>)"

definition MemGetBlock :: "uint64 \<Rightarrow> (MemStore, store_error, LegacyBlock) action" where
  "MemGetBlock height m = (case Mapping.lookup (ms_Blocks m) height of None \<Rightarrow> Fail (NoBlockAt height) | Some b \<Rightarrow> Ok b, m)"

definition MemLatestSnapshot :: "(MemStore, store_error, Snapshot option \<times> uint64) action" where
  "MemLatestSnapshot m =
     (let s = (case ms_State m of None \<Rightarrow> Empty | Some s \<Rightarrow> s) in (Ok (Some (Copy s), ms_StateHeight m), m\<lparr>ms_State := Some s\<rparr>))"

definition MemFinalizeBlock :: "uint64 \<Rightarrow> (MemStore, store_error, unit) action" where
  "MemFinalizeBlock height m = (Ok (), m)"

definition memStore :: "(bytes \<Rightarrow> bytes) \<Rightarrow> MemStore Store" where
  "memStore H = \<lparr>st_Height = MemHeight, st_GetBlock = MemGetBlock, st_LatestSnapshot = MemLatestSnapshot, st_SaveBlock = MemSaveBlock H,
     st_FinalizeBlock = MemFinalizeBlock, st_SaveSnapshot = MemSaveSnapshot, st_Changed = MemChanged\<rparr>"

section \<open>The contract\<close>

text \<open>The blocks of a chain by their heights, which start at 1.\<close>

definition chainOf :: "LegacyBlock list \<Rightarrow> uint64 \<Rightarrow> LegacyBlock option" where
  "chainOf bs h = (if 0 < unat h \<and> unat h \<le> length bs then Some (bs ! (unat h - 1)) else None)"

text \<open>Snapshots that stand for the same state; they may differ in the hashes cached in the tree.\<close>

definition sameState :: "(bytes \<Rightarrow> bytes) \<Rightarrow> Snapshot \<Rightarrow> Snapshot \<Rightarrow> bool" where
  "sameState H s t \<longleftrightarrow> snapInv H s \<and> snapInv H t \<and> unspent s = unspent t \<and> snap_Nonces s = snap_Nonces t"

text \<open>
  \<open>blocks\<close> and \<open>latest\<close> are what is in the store. It returns what was saved, accepts a block again, and keeps snapshots up to their
  cached hashes.
\<close>

locale block_store =
  fixes S :: "'st Store"
    and H :: "bytes \<Rightarrow> bytes"
    and blocks :: "'st \<Rightarrow> uint64 \<Rightarrow> LegacyBlock option"
    and latest :: "'st \<Rightarrow> Snapshot \<times> uint64"
  assumes height_ok: "blocks st = chainOf bs \<Longrightarrow> length bs < 2 ^ 64 \<Longrightarrow>
      \<exists>st'. st_Height S st = (Ok (word_of_nat (length bs)), st') \<and> blocks st' = blocks st \<and> latest st' = latest st"
    and get_ok: "blocks st h = Some b \<Longrightarrow> \<exists>st'. st_GetBlock S h st = (Ok b, st') \<and> blocks st' = blocks st \<and> latest st' = latest st"
    and latest_ok: "snapInv H (fst (latest st)) \<Longrightarrow> \<exists>s st'. st_LatestSnapshot S st = (Ok (s, snd (latest st)), st') \<and>
      sameState H (case s of None \<Rightarrow> Empty | Some s \<Rightarrow> s) (fst (latest st)) \<and> blocks st' = blocks st \<and> latest st' = latest st"
    and save_ok: "blocks st (lh_Height (lb_BlockHeader b)) \<in> {None, Some b} \<Longrightarrow> blockHash H b = (Ok i :: (store_error, Hash) outcome) \<Longrightarrow>
      \<exists>st'. st_SaveBlock S b st = (Ok (), st') \<and> blocks st' = (blocks st)(lh_Height (lb_BlockHeader b) \<mapsto> b) \<and> latest st' = latest st"
    and finalize_ok: "\<exists>st'. st_FinalizeBlock S h st = (Ok (), st') \<and> blocks st' = blocks st \<and> latest st' = latest st"
    and snapshot_ok: "snapInv H s \<Longrightarrow> \<exists>st'. st_SaveSnapshot S h s st = (Ok (), st') \<and> blocks st' = blocks st \<and>
      sameState H (fst (latest st')) s \<and> snd (latest st') = h"

section \<open>The memory store fulfils it\<close>

definition memLatest :: "MemStore \<Rightarrow> Snapshot \<times> uint64" where
  "memLatest m = (case ms_State m of None \<Rightarrow> Empty | Some s \<Rightarrow> s, ms_StateHeight m)"

lemma Copy_same [simp]: "Copy s = s"
  by (simp add: Copy_def)

lemma sameState_refl: "snapInv H s \<Longrightarrow> sameState H s s"
  by (simp add: sameState_def)

lemma sameState_sym: "sameState H s t \<Longrightarrow> sameState H t s"
  by (simp add: sameState_def)

lemma sameState_trans: "sameState H s t \<Longrightarrow> sameState H t u \<Longrightarrow> sameState H s u"
  by (simp add: sameState_def)

lemma dom_chainOf:
  assumes "length bs < 2 ^ 64"
  shows "dom (chainOf bs) = word_of_nat ` {1..length bs}" and "inj_on (word_of_nat :: nat \<Rightarrow> uint64) {1..length bs}"
proof -
  have un: "unat (word_of_nat k :: uint64) = k" if "k \<le> length bs" for k
    using assms that by (simp add: unat_of_nat take_bit_nat_eq_self)
  show "dom (chainOf bs) = word_of_nat ` {1..length bs}"
  proof (intro equalityI subsetI)
    fix h assume "h \<in> dom (chainOf bs)"
    then have "unat h \<in> {1..length bs}" by (auto simp: chainOf_def dom_def split: if_splits)
    moreover have "h = word_of_nat (unat h)" by simp
    ultimately show "h \<in> word_of_nat ` {1..length bs}" by (rule rev_image_eqI)
  qed (auto simp: chainOf_def dom_def un)
  show "inj_on (word_of_nat :: nat \<Rightarrow> uint64) {1..length bs}"
    by (rule inj_onI) (metis atLeastAtMost_iff un)
qed

lemma MemHeight_correct:
  assumes "Mapping.lookup (ms_Blocks m) = chainOf bs" and "length bs < 2 ^ 64"
  shows "MemHeight m = (Ok (word_of_nat (length bs)), m)"
  using dom_chainOf [OF assms(2)] by (simp add: MemHeight_def Mapping.size_def keys_dom_lookup assms(1) card_image)

interpretation memstore: block_store "memStore H" H "\<lambda>m. Mapping.lookup (ms_Blocks m)" memLatest for H
proof unfold_locales
  fix b :: LegacyBlock and m :: MemStore and i
  assume "Mapping.lookup (ms_Blocks m) (lh_Height (lb_BlockHeader b)) \<in> {None, Some b}" "blockHash H b = (Ok i :: (store_error, Hash) outcome)"
  then show "\<exists>m'. st_SaveBlock (memStore H) b m = (Ok (), m') \<and>
      Mapping.lookup (ms_Blocks m') = (Mapping.lookup (ms_Blocks m))(lh_Height (lb_BlockHeader b) \<mapsto> b) \<and> memLatest m' = memLatest m"
    by (auto simp: memStore_def MemSaveBlock_def Let_def bindA_def failIf_def lookup_update' memLatest_def intro!: ext)
qed (auto simp: memStore_def MemHeight_correct MemGetBlock_def MemLatestSnapshot_def MemFinalizeBlock_def MemSaveSnapshot_def
    memLatest_def Let_def sameState_refl split: option.splits)

section \<open>Equal states\<close>

lemma items_unspent:
  assumes "snapInv H s"
  shows "items (snap_Tree s) = Byte32 ` unspent s"
proof -
  have "\<forall>x \<in> items (snap_Tree s). length x = 32"
    using assms treeInv_keys(3) [of H 32 "snap_Tree s" "replicate 32 0"] by (simp add: snapInv_def)
  then have "x \<in> Byte32 ` unspent s" if "x \<in> items (snap_Tree s)" for x
    using that by (intro image_eqI [of x Byte32 "NewHash x"]) (simp_all add: unspent_def Byte32_NewHash)
  then show ?thesis by (auto simp: unspent_def)
qed

lemma sameState_root: "sameState H s t \<Longrightarrow> fst (RootHash H (snap_Tree s)) = fst (RootHash H (snap_Tree t))"
  by (rule RootHash_canonical [of H 32]) (simp_all add: sameState_def snapInv_def items_unspent [of H])

end
