(* ===== verification/Chain_Generate.thy ===== *)
theory Chain_Generate
  imports Chain_Store Validation_Sample "HOL-Library.Sublist"
begin

text \<open>
  What \<open>GenerateBlock\<close> promises: a block that validation accepts and that leads to the snapshot returned with it. The cache of verdicts is
  transparent as long as transactions with the same ID have the same verdict.
\<close>

section \<open>The cache of verdicts\<close>

text \<open>
  What the package of the LRU cache documents: what a lookup returns was added under the key, and both operations at most lose other
  entries. \<open>content\<close> is what is in the cache.
\<close>

definition lruLaws :: "'lru LRU \<Rightarrow> ('lru \<Rightarrow> Hash \<Rightarrow> val_error option option) \<Rightarrow> bool" where
  "lruLaws L content \<longleftrightarrow> (\<forall>k l. fst (lru_Get L k l) \<in> {None, content l k} \<and> content (snd (lru_Get L k l)) \<subseteq>\<^sub>m content l) \<and>
     (\<forall>k v l. content (lru_Add L k v l) \<subseteq>\<^sub>m (content l)(k \<mapsto> v))"

definition fullCheck :: "('st, 'lru) env \<Rightarrow> ('st, 'lru) Chain \<Rightarrow> Tx \<Rightarrow> (val_error, unit) outcome" where
  "fullCheck E c tx = ValidateTx (env_H E) (env_prims E) (env_fuel E) (env_depth E) tx (ch_InitialBlockHash c)"

text \<open>The cached verdicts are right for the transactions of \<open>T\<close>, and their IDs determine the verdict.\<close>

definition trusts :: "('st, 'lru) env \<Rightarrow> ('lru \<Rightarrow> Hash \<Rightarrow> val_error option option) \<Rightarrow> Tx set \<Rightarrow> ('st, 'lru) Chain \<Rightarrow> bool" where
  "trusts E content T c \<longleftrightarrow> lruLaws (env_lru E) content \<and>
     (\<forall>tx \<in> T. \<forall>tx' \<in> T. tx_ID tx = tx_ID tx' \<longrightarrow> (fullCheck E c tx = Ok () \<longleftrightarrow> fullCheck E c tx' = Ok ())) \<and>
     (\<forall>tx \<in> T. \<forall>v. content (ch_prevalidated c) (tx_ID tx) = Some v \<longrightarrow> (v = None \<longleftrightarrow> fullCheck E c tx = Ok ()))"

definition accepts :: "('st, 'lru) env \<Rightarrow> ('st, 'lru) Chain \<Rightarrow> Tx \<Rightarrow> bool" where
  "accepts E c tx \<longleftrightarrow> checkIssuanceWindow c tx = Ok () \<and> fullCheck E c tx = Ok ()"

lemma checks_frame [simp]:
  "checkIssuanceWindow (c\<lparr>ch_prevalidated := l\<rparr>) tx = checkIssuanceWindow c tx"
  "fullCheck E (c\<lparr>ch_prevalidated := l\<rparr>) tx = fullCheck E c tx"
  "accepts E (c\<lparr>ch_prevalidated := l\<rparr>) tx = accepts E c tx"
  by (simp_all add: checkIssuanceWindow_def fullCheck_def accepts_def cong: sum.case_cong)

lemma trusts_hit:
  "trusts E content T c \<Longrightarrow> tx \<in> T \<Longrightarrow> content (ch_prevalidated c) (tx_ID tx) = Some v \<Longrightarrow> v = None \<longleftrightarrow> fullCheck E c tx = Ok ()"
  unfolding trusts_def by (elim conjE) (drule (1) bspec, blast)

lemma trusts_same:
  "trusts E content T c \<Longrightarrow> tx \<in> T \<Longrightarrow> tx' \<in> T \<Longrightarrow> tx_ID tx' = tx_ID tx \<Longrightarrow> fullCheck E c tx' = Ok () \<longleftrightarrow> fullCheck E c tx = Ok ()"
  unfolding trusts_def by (elim conjE) (drule (1) bspec, drule (1) bspec, erule impE, erule sym, erule sym)

lemma trusts_change:
  assumes "trusts E content T c" and "\<And>tx v. tx \<in> T \<Longrightarrow> content l (tx_ID tx) = Some v \<Longrightarrow> v = None \<longleftrightarrow> fullCheck E c tx = Ok ()"
  shows "trusts E content T (c\<lparr>ch_prevalidated := l\<rparr>)"
proof -
  have "lruLaws (env_lru E) content" using assms(1) unfolding trusts_def by (elim conjE)
  moreover have "\<forall>tx \<in> T. \<forall>tx' \<in> T. tx_ID tx = tx_ID tx' \<longrightarrow> (fullCheck E c tx = Ok () \<longleftrightarrow> fullCheck E c tx' = Ok ())"
    using assms(1) unfolding trusts_def by (elim conjE)
  moreover from assms(2) have "\<forall>tx \<in> T. \<forall>v. content l (tx_ID tx) = Some v \<longrightarrow> (v = None \<longleftrightarrow> fullCheck E c tx = Ok ())"
    by (intro ballI allI impI)
  moreover have "ch_prevalidated (c\<lparr>ch_prevalidated := l\<rparr>) = l" by simp
  ultimately show ?thesis unfolding trusts_def checks_frame by (simp only:)
qed

lemma map_le_Some: "m \<subseteq>\<^sub>m m' \<Longrightarrow> m k = Some v \<Longrightarrow> m' k = Some v"
  by (metis domI map_le_def)

lemma trusts_less:
  assumes "trusts E content T c" and "content l \<subseteq>\<^sub>m content (ch_prevalidated c)"
  shows "trusts E content T (c\<lparr>ch_prevalidated := l\<rparr>)"
  by (rule trusts_change [OF assms(1)], rule trusts_hit [OF assms(1)]) (simp_all add: map_le_Some [OF assms(2)])

lemma trusts_add:
  assumes "trusts E content T c" and "tx \<in> T" and "v = None \<longleftrightarrow> fullCheck E c tx = Ok ()"
  shows "trusts E content T (c\<lparr>ch_prevalidated := lru_Add (env_lru E) (tx_ID tx) v (ch_prevalidated c)\<rparr>)"
proof (rule trusts_change [OF assms(1)])
  have add: "content (lru_Add (env_lru E) (tx_ID tx) v (ch_prevalidated c)) \<subseteq>\<^sub>m (content (ch_prevalidated c))(tx_ID tx \<mapsto> v)"
    using assms(1) by (simp add: trusts_def lruLaws_def)
  fix tx' w
  assume tx': "tx' \<in> T" and w: "content (lru_Add (env_lru E) (tx_ID tx) v (ch_prevalidated c)) (tx_ID tx') = Some w"
  from map_le_Some [OF add w] show "w = None \<longleftrightarrow> fullCheck E c tx' = Ok ()"
    using trusts_hit [OF assms(1) tx', of w] trusts_same [OF assms(1,2) tx'] assms(3) by (auto split: if_splits)
qed

lemma ChainValidateTx_frame:
  assumes "trusts E content T c" and "tx \<in> T" and "ChainValidateTx E tx c = (r, c')"
  shows "\<exists>l. c' = c\<lparr>ch_prevalidated := l\<rparr> \<and> trusts E content T c'" and "r = Ok () \<longleftrightarrow> accepts E c tx"
proof -
  obtain g l where g: "lru_Get (env_lru E) (tx_ID tx) (ch_prevalidated c) = (g, l)" by fastforce
  have "fst (lru_Get (env_lru E) (tx_ID tx) (ch_prevalidated c)) \<in> {None, content (ch_prevalidated c) (tx_ID tx)} \<and>
      content (snd (lru_Get (env_lru E) (tx_ID tx) (ch_prevalidated c))) \<subseteq>\<^sub>m content (ch_prevalidated c)"
    using assms(1) by (simp add: trusts_def lruLaws_def)
  then have laws: "g \<in> {None, content (ch_prevalidated c) (tx_ID tx)}" "content l \<subseteq>\<^sub>m content (ch_prevalidated c)"
    by (simp_all add: g)
  have l: "trusts E content T (c\<lparr>ch_prevalidated := l\<rparr>)" by (rule trusts_less [OF assms(1) laws(2)])
  have add: "trusts E content T (c\<lparr>ch_prevalidated := lru_Add (env_lru E) (tx_ID tx) v l\<rparr>)" if "v = None \<longleftrightarrow> fullCheck E c tx = Ok ()" for v
    using trusts_add [OF l assms(2), of v] that by simp
  have self: "\<exists>l. c = c\<lparr>ch_prevalidated := l\<rparr>" by (rule exI [of _ "ch_prevalidated c"]) simp
  have hit: "v = None \<longleftrightarrow> fullCheck E c tx = Ok ()" if "g = Some v" for v
    using laws(1) that trusts_hit [OF assms(1,2), of v] by auto
  note unfold = assms(3) [unfolded ChainValidateTx_def g fullCheck_def [symmetric] prod.case]
  show "\<exists>l. c' = c\<lparr>ch_prevalidated := l\<rparr> \<and> trusts E content T c'"
  proof (cases "checkIssuanceWindow c tx = Ok ()")
    case False
    with unfold have "c' = c" by (cases "checkIssuanceWindow c tx") simp_all
    with self assms(1) show ?thesis by simp
  next
    case True
    with unfold l add [of None] add show ?thesis
      by (cases g; cases "fullCheck E c tx") (auto simp del: Chain.update_convs)
  qed
  show "r = Ok () \<longleftrightarrow> accepts E c tx"
    using unfold hit unfolding accepts_def
    by (cases "checkIssuanceWindow c tx"; cases g; cases "fullCheck E c tx") (auto simp: cachedResult_def split: option.splits)
qed

section \<open>Taking transactions\<close>

text \<open>
  A transaction with at most one nonce or spent output changes nothing when it fails. In general the changes made before the failure stay.
\<close>

definition simpleTx :: "Tx \<Rightarrow> bool" where
  "simpleTx tx \<longleftrightarrow> length (tx_NonceIDs tx) + length (tx_SpentOutputIDs tx) \<le> 1"

lemma simpleTx_cases:
  assumes "simpleTx tx"
  obtains "tx_NonceIDs tx = []" "tx_SpentOutputIDs tx = []" | n where "tx_NonceIDs tx = [n]" "tx_SpentOutputIDs tx = []"
  | h where "tx_NonceIDs tx = []" "tx_SpentOutputIDs tx = [h]"
  using assms by (cases "tx_NonceIDs tx"; cases "tx_SpentOutputIDs tx") (auto simp: simpleTx_def)

lemma applyNonce_fail: "applyNonce tx n s = (Fail e, s') \<Longrightarrow> s' = s"
  by (auto simp: applyNonce_def split: option.splits sum.splits)

lemma spendOutput_fail: "spendOutput H h s = (Fail e, s') \<Longrightarrow> s' = s"
  by (auto simp: spendOutput_def split: tree_res.splits bool.splits)

lemma applyNonce_tree: "applyNonce tx n s = (r, s') \<Longrightarrow> snapInv H s' \<longleftrightarrow> snapInv H s"
  by (auto simp: applyNonce_def snapInv_def split: option.splits sum.splits)

lemma addResults_not_fail:
  assumes "snapInv H s"
  shows "forA (addResult H tx) rs s \<noteq> (Fail e, s')"
  using addResults_correct [OF assms, of rs tx] by (auto split: if_splits)

lemma ApplyTx_simple_fail:
  assumes "snapInv H s" and "simpleTx tx" and "ApplyTx H tx s = (Fail e, s')"
  shows "s' = s"
  using assms(2)
proof (cases rule: simpleTx_cases)
  case 1
  with assms(1,3) addResults_not_fail show ?thesis by (simp add: ApplyTx_def bindA_def)
next
  case (2 n)
  obtain r s1 where r: "applyNonce tx n s = (r, s1)" by fastforce
  from applyNonce_tree [OF r, of H] assms(1) have "snapInv H s1" by simp
  with assms(3) 2 r addResults_not_fail applyNonce_fail show ?thesis
    by (cases r) (auto simp: ApplyTx_def bindA_def)
next
  case (3 h)
  obtain r s1 where r: "spendOutput H h s = (r, s1)" by fastforce
  have "r = Ok () \<Longrightarrow> snapInv H s1" using r spendOutput_correct [OF assms(1), of h] by (auto split: if_splits)
  with assms(3) 3 r addResults_not_fail spendOutput_fail show ?thesis
    by (cases r) (auto simp: ApplyTx_def bindA_def)
qed

lemma ApplyTx_inv: "snapInv H s \<Longrightarrow> ApplyTx H tx s = (Ok u, s') \<Longrightarrow> snapInv H s'"
  using ApplyTx_correct [of H s tx] by (auto split: if_splits)

text \<open>
  What a run needs: whichever of the offered transactions were applied before it, a transaction either applies or fails without a trace. Transactions
  that apply may have any number of inputs; simple ones always fail cleanly.
\<close>

definition failsCleanly :: "(bytes \<Rightarrow> bytes) \<Rightarrow> Tx \<Rightarrow> Snapshot \<Rightarrow> bool" where
  "failsCleanly H tx s \<longleftrightarrow> (\<forall>e s'. ApplyTx H tx s = (Fail e, s') \<longrightarrow> s' = s)"

definition cleanRun :: "(bytes \<Rightarrow> bytes) \<Rightarrow> Tx list \<Rightarrow> Snapshot \<Rightarrow> bool" where
  "cleanRun H txs s \<longleftrightarrow> (\<forall>before tx s'. subseq (before @ [tx]) txs \<longrightarrow> forA (ApplyTx H) before s = (Ok (), s') \<longrightarrow> failsCleanly H tx s')"

lemma ApplyTxs_inv: "snapInv H s \<Longrightarrow> forA (ApplyTx H) txs s = (Ok (), s') \<Longrightarrow> snapInv H s'"
  by (induction txs arbitrary: s) (auto simp: bindA_Ok_iff dest: ApplyTx_inv)

lemma simple_clean:
  assumes "\<forall>tx \<in> set txs. simpleTx tx" and "snapInv H s"
  shows "cleanRun H txs s"
  unfolding cleanRun_def failsCleanly_def
proof (intro allI impI)
  fix before tx s1 e s2
  assume sub: "subseq (before @ [tx]) txs" and s1: "forA (ApplyTx H) before s = (Ok (), s1)" and fail: "ApplyTx H tx s1 = (Fail e, s2)"
  have "tx \<in> set txs" using list_emb_set [OF sub, of tx] by auto
  then show "s2 = s1" using ApplyTx_simple_fail [OF ApplyTxs_inv [OF assms(2) s1] _ fail] assms(1) by blast
qed

lemma cleanRun_head: "cleanRun H (tx # txs) s \<Longrightarrow> failsCleanly H tx s"
  unfolding cleanRun_def by (drule spec [of _ "[]"], drule spec [of _ tx], drule spec [of _ s]) simp

lemma cleanRun_skip: "cleanRun H (tx # txs) s \<Longrightarrow> cleanRun H txs s"
  unfolding cleanRun_def by (blast intro: list_emb_Cons)

lemma cleanRun_take:
  assumes "cleanRun H (tx # txs) s" and "ApplyTx H tx s = (Ok (), s1)"
  shows "cleanRun H txs s1"
  unfolding cleanRun_def
proof (intro allI impI)
  fix before t s2
  assume "subseq (before @ [t]) txs" "forA (ApplyTx H) before s1 = (Ok (), s2)"
  then have "subseq ((tx # before) @ [t]) (tx # txs)" "forA (ApplyTx H) (tx # before) s = (Ok (), s2)"
    using assms(2) by (simp_all add: bindA_def)
  then show "failsCleanly H t s2" using assms(1) unfolding cleanRun_def by blast
qed

text \<open>What the loop does when failing transactions change nothing.\<close>

definition takes :: "('st, 'lru) env \<Rightarrow> ('st, 'lru) Chain \<Rightarrow> uint64 \<Rightarrow> LegacyTx list \<Rightarrow> Snapshot \<Rightarrow> LegacyTx list \<Rightarrow> Snapshot \<Rightarrow> bool" where
  "takes E c ts txs s new s' \<longleftrightarrow> subseq new txs \<and> forA (ApplyTx (env_H E)) (map lt_Tx new) s = (Ok (), s') \<and>
     (\<forall>tx \<in> set new. accepts E c (lt_Tx tx) \<and> \<not> untimely ts (tx_TxHeader (lt_Tx tx)))"

lemma takes_skip: "takes E c ts txs s new s' \<Longrightarrow> takes E c ts (tx # txs) s new s'"
  by (auto simp: takes_def)

lemma takes_take:
  assumes "takes E c ts txs s1 new s'" and "ApplyTx (env_H E) (lt_Tx tx) s = (Ok (), s1)" and "accepts E c (lt_Tx tx)"
    and "\<not> untimely ts (tx_TxHeader (lt_Tx tx))"
  shows "takes E c ts (tx # txs) s (tx # new) s'"
  using assms by (simp add: takes_def bindA_def)

lemma takes_frame [simp]: "takes E (c\<lparr>ch_prevalidated := l\<rparr>) = takes E c"
  by (intro ext) (simp add: takes_def)

lemma takeTxs_correct:
  assumes "trusts E content T c" and "lt_Tx ` set txs \<subseteq> T" and "cleanRun (env_H E) (map lt_Tx txs) s" and "snapInv (env_H E) s"
    and "takeTxs E ts txs taken s c = (Ok (taken', s'), c')" and "length taken \<le> maxBlockTxs"
  shows "\<exists>new l. taken' = taken @ new \<and> takes E c ts txs s new s' \<and> c' = c\<lparr>ch_prevalidated := l\<rparr> \<and> trusts E content T c' \<and>
    length taken' \<le> maxBlockTxs"
  using assms
proof (induction txs arbitrary: taken s c)
  case Nil
  then have "taken' = taken" "s' = s" "c' = c" by simp_all
  with Nil.prems(1,6) show ?case by (intro exI [of _ "[]"] exI [of _ "ch_prevalidated c"]) (simp add: takes_def)
next
  case (Cons tx txs)
  obtain r c1 where v: "ChainValidateTx E (lt_Tx tx) c = (r, c1)" by fastforce
  have T: "lt_Tx tx \<in> T" "lt_Tx ` set txs \<subseteq> T" using Cons.prems(2) by simp_all
  have clean: "failsCleanly (env_H E) (lt_Tx tx) s" "cleanRun (env_H E) (map lt_Tx txs) s"
    using Cons.prems(3) cleanRun_head cleanRun_skip by simp_all
  obtain l where l: "c1 = c\<lparr>ch_prevalidated := l\<rparr>" "trusts E content T c1"
    using ChainValidateTx_frame(1) [OF Cons.prems(1) T(1) v] by (elim exE conjE)
  have r: "r = Ok () \<longleftrightarrow> accepts E c (lt_Tx tx)" by (rule ChainValidateTx_frame(2) [OF Cons.prems(1) T(1) v])
  have again: "\<exists>new l. taken' = tk @ new \<and> takes E c ts txs s1 new s' \<and> c' = c\<lparr>ch_prevalidated := l\<rparr> \<and> trusts E content T c' \<and>
      length taken' \<le> maxBlockTxs" if "takeTxs E ts txs tk s1 c1 = (Ok (taken', s'), c')" "snapInv (env_H E) s1" "length tk \<le> maxBlockTxs"
        "cleanRun (env_H E) (map lt_Tx txs) s1" for tk s1
    using Cons.IH [OF l(2) T(2) that(4,2,1,3)] unfolding l(1) by simp
  show ?case
  proof (cases "length taken \<ge> maxBlockTxs")
    case True
    with Cons.prems(5) have "taken' = taken" "s' = s" "c' = c" by simp_all
    with Cons.prems(1,6) show ?thesis by (intro exI [of _ "[]"] exI [of _ "ch_prevalidated c"]) (simp add: takes_def)
  next
    case room: False
    obtain a s1 where a: "ApplyTx (env_H E) (lt_Tx tx) s = (a, s1)" by fastforce
    have skip: ?thesis if "takeTxs E ts txs taken s c1 = (Ok (taken', s'), c')"
      using again [OF that Cons.prems(4,6) clean(2)] takes_skip by (elim exE conjE) blast
    have fail: "s1 = s" if "a = Fail e" for e using clean(1) a that by (simp add: failsCleanly_def)
    have take: ?thesis if tk: "takeTxs E ts txs (taken @ [tx]) s1 c1 = (Ok (taken', s'), c')" "a = Ok ()" "r = Ok ()"
      "\<not> untimely ts (tx_TxHeader (lt_Tx tx))"
    proof -
      have "snapInv (env_H E) s1" using ApplyTx_inv [OF Cons.prems(4)] a tk(2) by simp
      moreover have "cleanRun (env_H E) (map lt_Tx txs) s1" using cleanRun_take Cons.prems(3) a tk(2) by simp
      ultimately obtain new l where n: "taken' = (taken @ [tx]) @ new" "takes E c ts txs s1 new s'" "c' = c\<lparr>ch_prevalidated := l\<rparr>"
          "trusts E content T c'" "length taken' \<le> maxBlockTxs"
        using again [OF tk(1)] room by auto
      have "takes E c ts (tx # txs) s (tx # new) s'" using takes_take [OF n(2)] a tk r by simp
      with n show ?thesis by (intro exI [of _ "tx # new"] exI [of _ l]) simp
    qed
    show ?thesis using Cons.prems(5) room skip take fail v a
      by (cases r; cases a) (auto split: if_splits)
  qed
qed

section \<open>The generated block\<close>

lemma MapBlock_Ok:
  "MapBlock H b = (Ok be :: ('e, Block) outcome) \<longleftrightarrow> (\<exists>i bh. mapBlockHeader H (lb_BlockHeader b) = (Ok (i, bh) :: ('e, Hash \<times> BlockHeader) outcome) \<and>
     be = \<lparr>blk_BlockHeader = bh, blk_ID = i, blk_Transactions = map lt_Tx (lb_Transactions b)\<rparr>)"
  by (auto simp: MapBlock_def bindO_Ok_iff)

lemma mapBlockHeader_fields:
  assumes "mapBlockHeader H old = Ok (i, bh)"
  shows "bh_Version bh = lh_Version old" "bh_Height bh = lh_Height old" "bh_TimestampMs bh = lh_TimestampMS old"
    "bh_PreviousBlockId bh = Some (lh_PreviousBlockHash old)" "bh_ExtHash bh = None"
    "bh_TransactionsRoot bh = Some (bcm_TransactionsMerkleRoot (lh_BlockCommitment old))"
  using assms by (auto simp: mapBlockHeader_def Let_def NewBlockHeader_def bindO_Ok_iff)

lemma generate_parts:
  assumes "GenerateBlock E (Some p) ts txs c = (Ok (b, s), c')"
  obtains h s0 taken s1 where "blockHash (env_H E) p = (Ok h :: (chain_error, Hash) outcome)" "lh_TimestampMS (lb_BlockHeader p) \<le> ts" "ch_snapshot c = Some s0"
    "takeTxs E ts txs [] (PruneNonces ts (Copy s0)) c = (Ok (taken, s1), c')"
    "lb_Transactions b = taken" "lh_Version (lb_BlockHeader b) = 1" "lh_Height (lb_BlockHeader b) = lh_Height (lb_BlockHeader p) + 1"
    "lh_PreviousBlockHash (lb_BlockHeader b) = h" "lh_TimestampMS (lb_BlockHeader b) = ts"
    "bcm_TransactionsMerkleRoot (lh_BlockCommitment (lb_BlockHeader b)) = MerkleRoot (env_H E) (map lt_Tx taken)"
    "bcm_AssetsMerkleRoot (lh_BlockCommitment (lb_BlockHeader b)) = fst (RootHash (env_H E) (snap_Tree s1))"
    "s = s1\<lparr>snap_Tree := snd (RootHash (env_H E) (snap_Tree s1))\<rparr>"
proof -
  from assms obtain b0 s0 taken s1 where g: "startBlock E (Some p) ts c = (Ok b0, c)" "ch_snapshot c = Some s0"
      "takeTxs E ts txs [] (PruneNonces ts (Copy s0)) c = (Ok (taken, s1), c')" "b = sealBlock E b0 taken s1"
      "s = s1\<lparr>snap_Tree := snd (RootHash (env_H E) (snap_Tree s1))\<rparr>"
    by (auto simp: GenerateBlock_def bindA_Ok_iff startBlock_def Let_def modifyA_def pureA_def split: if_splits)
  from g(1) obtain h where "blockHash (env_H E) p = (Ok h :: (chain_error, Hash) outcome)" "lh_TimestampMS (lb_BlockHeader p) \<le> ts"
      "lh_Version (lb_BlockHeader b0) = 1" "lh_Height (lb_BlockHeader b0) = lh_Height (lb_BlockHeader p) + 1"
      "lh_PreviousBlockHash (lb_BlockHeader b0) = h" "lh_TimestampMS (lb_BlockHeader b0) = ts"
    by (auto simp: startBlock_def Let_def pureA_def bindO_Ok_iff split: if_splits)
  then show thesis using g(2-5) by (intro that) (simp_all add: sealBlock_def)
qed


text \<open>The block leads to the snapshot that was returned with it.\<close>

lemma applies_block:
  assumes "MapBlock H b = (Ok be :: (chain_error, Block) outcome)" and "lh_TimestampMS (lb_BlockHeader b) = ts"
    and "forA (ApplyTx H) (map lt_Tx (lb_Transactions b)) (PruneNonces ts s0) = (Ok (), s1)"
    and "bcm_AssetsMerkleRoot (lh_BlockCommitment (lb_BlockHeader b)) = fst (RootHash H (snap_Tree s1))"
  shows "applyChecked H err b s0 = Ok (s1\<lparr>snap_Tree := snd (RootHash H (snap_Tree s1))\<rparr>)"
proof -
  obtain i bh where "mapBlockHeader H (lb_BlockHeader b) = (Ok (i, bh) :: (chain_error, _) outcome)"
      and be: "be = \<lparr>blk_BlockHeader = bh, blk_ID = i, blk_Transactions = map lt_Tx (lb_Transactions b)\<rparr>"
    using assms(1) by (auto simp: MapBlock_Ok)
  from mapBlockHeader_fields(3) [OF this(1)] assms(2) have "bh_TimestampMs bh = ts" by simp
  with assms(3) have "ApplyBlock H be s0 = (Ok (), s1)" by (simp add: ApplyBlock_def be)
  with assms(1,4) show ?thesis by (simp add: applyChecked_def)
qed

text \<open>The transactions taken pass validation again.\<close>

lemma txValidator_Ok:
  assumes "trusts E content T c" and "tx \<in> T" and "accepts E c tx"
  shows "\<exists>l. txValidator E tx c = (Ok (), c\<lparr>ch_prevalidated := l\<rparr>) \<and> trusts E content T (c\<lparr>ch_prevalidated := l\<rparr>)"
proof -
  obtain r c' where v: "ChainValidateTx E tx c = (r, c')" by fastforce
  have "r = Ok ()" using ChainValidateTx_frame(2) [OF assms(1,2) v] assms(3) by simp
  moreover obtain l where "c' = c\<lparr>ch_prevalidated := l\<rparr>" "trusts E content T c'"
    using ChainValidateTx_frame(1) [OF assms(1,2) v] by (elim exE conjE)
  ultimately show ?thesis using v by (auto simp: txValidator_def mapFailA_def mapFail_def)
qed

lemma checkTxInBlock_timely:
  assumes "hdr_Version (tx_TxHeader tx) = 1" and "\<not> untimely (bh_TimestampMs bh) (tx_TxHeader tx)"
  shows "checkTxInBlock bh validateTx tx = validateTx tx"
  using assms by (auto simp: checkTxInBlock_def untimely_def Let_def bindA_def pureA_def failIf_def intro!: ext)

lemma validates_taken:
  assumes "trusts E content T c" and "\<forall>tx \<in> set txs. tx \<in> T \<and> accepts E c tx \<and> hdr_Version (tx_TxHeader tx) = 1 \<and> \<not> untimely (bh_TimestampMs bh) (tx_TxHeader tx)"
  shows "\<exists>c'. forA (checkTxInBlock bh (txValidator E)) txs c = (Ok (), c')"
  using assms
proof (induction txs arbitrary: c)
  case (Cons tx txs)
  then have tx: "tx \<in> T" "accepts E c tx" "hdr_Version (tx_TxHeader tx) = 1" "\<not> untimely (bh_TimestampMs bh) (tx_TxHeader tx)" by simp_all
  obtain l where l: "txValidator E tx c = (Ok (), c\<lparr>ch_prevalidated := l\<rparr>)" "trusts E content T (c\<lparr>ch_prevalidated := l\<rparr>)"
    using txValidator_Ok [OF Cons.prems(1) tx(1,2)] by (elim exE conjE)
  have "\<exists>c'. forA (checkTxInBlock bh (txValidator E)) txs (c\<lparr>ch_prevalidated := l\<rparr>) = (Ok (), c')"
    using Cons.IH [OF l(2)] Cons.prems(2) by simp
  with l(1) show ?case by (auto simp: bindA_Ok_iff checkTxInBlock_timely [OF tx(3,4)])
qed simp

lemma generated_valid:
  assumes be: "MapBlock (env_H E) b = (Ok be :: (chain_error, Block) outcome)" and pe: "MapBlock (env_H E) p = (Ok pe :: (chain_error, Block) outcome)"
    and b: "lh_Version (lb_BlockHeader b) = 1" "lh_Height (lb_BlockHeader b) = lh_Height (lb_BlockHeader p) + 1"
      "lh_PreviousBlockHash (lb_BlockHeader b) = blk_ID pe" "lh_TimestampMS (lb_BlockHeader b) = ts"
      "bcm_TransactionsMerkleRoot (lh_BlockCommitment (lb_BlockHeader b)) = MerkleRoot (env_H E) (map lt_Tx (lb_Transactions b))"
    and p: "lh_Version (lb_BlockHeader p) \<le> 1" "lh_TimestampMS (lb_BlockHeader p) < ts"
    and txs: "trusts E content T c" "\<forall>tx \<in> set (lb_Transactions b). lt_Tx tx \<in> T \<and> accepts E c (lt_Tx tx) \<and>
      hdr_Version (tx_TxHeader (lt_Tx tx)) = 1 \<and> \<not> untimely ts (tx_TxHeader (lt_Tx tx))"
  shows "fst (ValidateBlock (env_H E) be (Some pe) (txValidator E) c) = Ok ()"
proof -
  obtain i bh j ph where m: "mapBlockHeader (env_H E) (lb_BlockHeader b) = (Ok (i, bh) :: (chain_error, _) outcome)"
      "be = \<lparr>blk_BlockHeader = bh, blk_ID = i, blk_Transactions = map lt_Tx (lb_Transactions b)\<rparr>"
      "mapBlockHeader (env_H E) (lb_BlockHeader p) = (Ok (j, ph) :: (chain_error, _) outcome)"
      "pe = \<lparr>blk_BlockHeader = ph, blk_ID = j, blk_Transactions = map lt_Tx (lb_Transactions p)\<rparr>"
    using be pe by (auto simp: MapBlock_Ok)
  note f = mapBlockHeader_fields [OF m(1)] and g = mapBlockHeader_fields [OF m(3)]
  have "validateBlockAgainstPrev be pe = Ok ()"
    using b p by (simp add: validateBlockAgainstPrev_def Let_def m(2,4) f g failIf_def not_less not_le)
  moreover have "checkValidBlockHeader bh = Ok ()" by (simp add: checkValidBlockHeader_def f failIf_def extEmpty_def)
  moreover obtain c' where "forA (checkTxInBlock bh (txValidator E)) (map lt_Tx (lb_Transactions b)) c = (Ok (), c')"
    using validates_taken [OF txs(1), of "map lt_Tx (lb_Transactions b)" bh] txs(2) b(4) f(3) by auto
  ultimately show ?thesis using b(5) by (simp add: ValidateBlock_def Let_def bindA_def pureA_def m(2) f(6) failIf_def)
qed

section \<open>Properties\<close>

text \<open>
  C4. A generated block is valid, under these conditions: its time is strictly after that of its predecessor, which has version 0 or 1,
  both headers can be hashed, the transactions offered have version 1, the cached verdicts are right, and whichever of the
  transactions are applied before it, a transaction applies or fails without having changed the snapshot. Then validation accepts the block,
  applying it leads to exactly the snapshot that was returned with it, its transactions are among those offered, in their order,
  and there are at most 10000.
\<close>
theorem generated_block_valid:
  assumes "GenerateBlock E (Some p) ts txs c = (Ok (b, s), c')" and "ch_snapshot c = Some s0" and "snapInv (env_H E) s0"
    and "MapBlock (env_H E) b = (Ok be :: (chain_error, Block) outcome)" and "MapBlock (env_H E) p = (Ok pe :: (chain_error, Block) outcome)"
    and "lh_Version (lb_BlockHeader p) \<le> 1" and "lh_TimestampMS (lb_BlockHeader p) < ts"
    and "trusts E content (lt_Tx ` set txs) c"
    and "\<forall>tx \<in> set txs. hdr_Version (tx_TxHeader (lt_Tx tx)) = 1"
    and "cleanRun (env_H E) (map lt_Tx txs) (PruneNonces ts s0)"
  shows "fst (ValidateBlock (env_H E) be (Some pe) (txValidator E) c') = Ok () \<and> ApplyValidBlock E b c' = Ok s \<and>
    subseq (lb_Transactions b) txs \<and> length (lb_Transactions b) \<le> maxBlockTxs"
  using assms(1)
proof (rule generate_parts)
  fix h s0' taken s1
  assume h: "blockHash (env_H E) p = (Ok h :: (chain_error, Hash) outcome)" and "ch_snapshot c = Some s0'"
    and t: "takeTxs E ts txs [] (PruneNonces ts (Copy s0')) c = (Ok (taken, s1), c')"
    and b: "lb_Transactions b = taken" "lh_Version (lb_BlockHeader b) = 1" "lh_Height (lb_BlockHeader b) = lh_Height (lb_BlockHeader p) + 1"
      "lh_PreviousBlockHash (lb_BlockHeader b) = h" "lh_TimestampMS (lb_BlockHeader b) = ts"
      "bcm_TransactionsMerkleRoot (lh_BlockCommitment (lb_BlockHeader b)) = MerkleRoot (env_H E) (map lt_Tx taken)"
      "bcm_AssetsMerkleRoot (lh_BlockCommitment (lb_BlockHeader b)) = fst (RootHash (env_H E) (snap_Tree s1))"
    and s: "s = s1\<lparr>snap_Tree := snd (RootHash (env_H E) (snap_Tree s1))\<rparr>"
  with assms(2) have s0: "s0' = s0" by simp
  from t have t': "takeTxs E ts txs [] (PruneNonces ts s0) c = (Ok (taken, s1), c')" by (simp add: s0)
  obtain l where tk: "takes E c ts txs (PruneNonces ts s0) taken s1" "c' = c\<lparr>ch_prevalidated := l\<rparr>" "trusts E content (lt_Tx ` set txs) c'"
      "length taken \<le> maxBlockTxs"
    using takeTxs_correct [OF assms(8) subset_refl assms(10) _ t'] assms(3) by auto
  have sub: "subseq taken txs" "forA (ApplyTx (env_H E)) (map lt_Tx taken) (PruneNonces ts s0) = (Ok (), s1)"
      "\<forall>tx \<in> set taken. accepts E c (lt_Tx tx) \<and> \<not> untimely ts (tx_TxHeader (lt_Tx tx))"
    using tk(1) by (simp_all add: takes_def)
  have id: "blk_ID pe = h" using h assms(5) by (auto simp: MapBlock_Ok blockHash_def bindO_Ok_iff)
  have "set taken \<subseteq> set txs" using list_emb_set [OF sub(1)] by blast
  then have "fst (ValidateBlock (env_H E) be (Some pe) (txValidator E) c') = Ok ()"
    using sub(3) assms(9) by (intro generated_valid [OF assms(4,5) b(2,3) _ b(5) _ assms(6,7) tk(3)]) (auto simp: b tk(2) id)
  moreover have "ApplyValidBlock E b c' = Ok s"
    using applies_block [OF assms(4) b(5), of s0 s1] sub(2) b(1,7) s assms(2) tk(2) by (simp add: ApplyValidBlock_def)
  ultimately show ?thesis using sub(1) tk(4) b(1) by simp
qed

section \<open>An example\<close>

text \<open>A block header within the ranges of the encoding can be hashed.\<close>

lemma writes_63: "v \<le> 9223372036854775807 \<Longrightarrow> snd (emit (WriteVarint63 v)) = None"
  by (simp add: WriteVarint63_def emit_def not_less)

lemma writes_str: "length s < 2 ^ 31 \<Longrightarrow> snd (emit (WriteVarstr31 s)) = None"
proof -
  assume "length s < 2 ^ 31"
  then have "\<not> (word_of_nat (length s) > (2147483647 :: uint64))"
    by (simp add: word_less_nat_alt unat_of_nat take_bit_eq_mod not_less)
  then show ?thesis by (simp add: WriteVarstr31_def WriteVarint31_def bindW_def emit_def)
qed

definition hashable :: "LegacyBlockHeader \<Rightarrow> bool" where
  "hashable bh \<longleftrightarrow> lh_Version bh \<le> 9223372036854775807 \<and> lh_Height bh \<le> 9223372036854775807 \<and> lh_TimestampMS bh \<le> 9223372036854775807 \<and>
     length (bcm_ConsensusProgram (lh_BlockCommitment bh)) < 2 ^ 31"

lemma mustWrite_Cons: "snd (writeForHash v) = None \<Longrightarrow> mustWriteForHash (v # vs) = bindO (mustWriteForHash vs) (\<lambda>rest. Ok (fst (writeForHash v) @ rest))"
  by (cases "writeForHash v") simp

lemma header_hashes:
  assumes "bh_Version bh \<le> 9223372036854775807" "bh_Height bh \<le> 9223372036854775807" "bh_TimestampMs bh \<le> 9223372036854775807"
    "length (bh_NextConsensusProgram bh) < 2 ^ 31"
  shows "\<exists>i. entryID H (Some (EBlockHeader bh)) = (Ok i :: ('e, Hash) outcome)"
proof -
  have "\<exists>out. mustWriteForHash (hashedParts (EBlockHeader bh)) = (Ok out :: ('e, bytes) outcome)"
    using writes_63 [OF assms(1)] writes_63 [OF assms(2)] writes_63 [OF assms(3)] writes_str [OF assms(4)]
    by (simp add: mustWrite_Cons del: mustWriteForHash.simps(2))
  then show ?thesis by (auto simp: entryID_def simp del: hashedParts.simps)
qed

lemma hashable_maps:
  assumes "hashable (lb_BlockHeader b)"
  shows "\<exists>be. MapBlock H b = (Ok be :: ('e, Block) outcome)"
proof -
  define bh where "bh = (NewBlockHeader (lh_Version (lb_BlockHeader b)) (lh_Height (lb_BlockHeader b)) (lh_PreviousBlockHash (lb_BlockHeader b))
      (lh_TimestampMS (lb_BlockHeader b)) (bcm_TransactionsMerkleRoot (lh_BlockCommitment (lb_BlockHeader b)))
      (bcm_AssetsMerkleRoot (lh_BlockCommitment (lb_BlockHeader b))) (bcm_ConsensusProgram (lh_BlockCommitment (lb_BlockHeader b))))
      \<lparr>bh_WitnessArguments := lh_Witness (lb_BlockHeader b)\<rparr>"
  have "\<exists>i. entryID H (Some (EBlockHeader bh)) = (Ok i :: ('e, Hash) outcome)"
    using assms by (intro header_hashes) (simp_all add: bh_def NewBlockHeader_def hashable_def)
  then show ?thesis by (auto simp: MapBlock_def mapBlockHeader_def Let_def bh_def [symmetric])
qed

text \<open>A cache without bound.\<close>

definition mapLRU :: "(Hash \<Rightarrow> val_error option option) LRU" where
  "mapLRU = \<lparr>lru_Get = \<lambda>k l. (l k, l), lru_Add = \<lambda>k v l. l(k \<mapsto> v)\<rparr>"

definition sampleEnv :: "(MemStore, Hash \<Rightarrow> val_error option option) env" where
  "sampleEnv = \<lparr>env_H = lengthHash, env_prims = \<lparr>sha256 = id, sha3_256 = id, ed25519_Verify = \<lambda>_ _ _. False\<rparr>, env_fuel = 2, env_depth = 4,
     env_store = memStore lengthHash, env_lru = mapLRU\<rparr>"

definition sampleSnapshot :: Snapshot where
  "sampleSnapshot = (let x = Byte32 (idOf ''output1'') in \<lparr>snap_Tree = Some (Leaf (bitKey x) (itemHash lengthHash x)), snap_Nonces = \<lambda>_. None\<rparr>)"

definition sampleChain :: "(MemStore, Hash \<Rightarrow> val_error option option) Chain" where
  "sampleChain = \<lparr>ch_InitialBlockHash = zeroHash, ch_MaxIssuanceWindow = 0, ch_height = 2, ch_block = Some sampleBlock,
     ch_snapshot = Some sampleSnapshot, ch_store = MemStoreNew, ch_lastQueuedSnapshot = zeroTime, ch_pendingSnapshots = None, ch_prevalidated = \<lambda>_. None\<rparr>"

definition wrapTx :: "Tx \<Rightarrow> LegacyTx" where
  "wrapTx tx = \<lparr>lt_TxData = \<lparr>td_Version = 1, td_Inputs = [], td_Outputs = [], td_MinTime = 0, td_MaxTime = 0,
     td_CommonFieldsSuffix = [], td_CommonWitnessSuffix = [], td_ReferenceData = []\<rparr>, lt_Tx = tx\<rparr>"

lemma sample_snapshot: "snapInv lengthHash sampleSnapshot" "unspent sampleSnapshot = {idOf ''output1''}" "snap_Nonces sampleSnapshot = (\<lambda>_. None)"
proof -
  let ?x = "Byte32 (idOf ''output1'')"
  have "Insert lengthHash None ?x = TOk (snap_Tree sampleSnapshot)" by (simp add: Insert_def sampleSnapshot_def Let_def)
  with ptree.ins_ok [OF ptree.inv_empty [of lengthHash 32], of ?x] have "treeInv lengthHash 32 (snap_Tree sampleSnapshot) \<and> items (snap_Tree sampleSnapshot) = {?x}"
    by (auto simp: ptree.elems_empty)
  then show "snapInv lengthHash sampleSnapshot" "unspent sampleSnapshot = {idOf ''output1''}"
    by (auto simp: snapInv_def unspent_def Byte32_inject)
  show "snap_Nonces sampleSnapshot = (\<lambda>_. None)" by (simp add: sampleSnapshot_def Let_def)
qed

lemma sample_trusts: "trusts sampleEnv id {retireTx} sampleChain"
  by (simp add: trusts_def lruLaws_def sampleEnv_def mapLRU_def sampleChain_def)

lemma retire_applies:
  "\<exists>s. ApplyTx lengthHash retireTx (PruneNonces ts sampleSnapshot) = (Ok (), s)"
proof -
  have "applicable retireTx (unspent sampleSnapshot) (snap_Nonces (PruneNonces ts sampleSnapshot))"
    by (simp add: applicable_def retireTx_def retireHeader_def sample_snapshot PruneNonces_def)
  then show ?thesis using ApplyTx_correct [of lengthHash "PruneNonces ts sampleSnapshot" retireTx] sample_snapshot by (auto simp: unspent_prune)
qed

lemma sample_check: "fullCheck sampleEnv sampleChain retireTx = Ok ()"
  using retire_valid [of _ 0 0] by (simp add: fullCheck_def sampleEnv_def numeral_2_eq_2 eval_nat_numeral)

lemma sample_generates:
  "\<exists>b s c. GenerateBlock sampleEnv (Some sampleBlock) 5 [wrapTx retireTx] sampleChain = (Ok (b, s), c) \<and> lb_Transactions b = [wrapTx retireTx] \<and>
     hashable (lb_BlockHeader b)"
proof -
  obtain s where s: "ApplyTx lengthHash retireTx (PruneNonces 5 sampleSnapshot) = (Ok (), s)" using retire_applies by blast
  obtain r c where v: "ChainValidateTx sampleEnv retireTx sampleChain = (r, c)" by fastforce
  have r: "r = Ok ()" using ChainValidateTx_frame(2) [OF sample_trusts _ v] sample_check
    by (simp add: accepts_def checkIssuanceWindow_def sampleChain_def)
  have h: "\<exists>i. blockHash lengthHash sampleBlock = (Ok i :: (chain_error, Hash) outcome)"
    using hashable_maps [of sampleBlock lengthHash] by (auto simp: hashable_def sampleBlock_def MapBlock_def blockHash_def bindO_Ok_iff)
  have E: "env_H sampleEnv = lengthHash" "ch_snapshot sampleChain = Some sampleSnapshot" by (simp_all add: sampleEnv_def sampleChain_def)
  have t: "\<not> untimely 5 (tx_TxHeader retireTx)" "lt_Tx (wrapTx retireTx) = retireTx"
    by (simp_all add: untimely_def retireTx_def retireHeader_def wrapTx_def)
  have "takeTxs sampleEnv 5 [wrapTx retireTx] [] (PruneNonces 5 sampleSnapshot) sampleChain = (Ok ([wrapTx retireTx], s), c)"
    using v r s t E by (simp add: maxBlockTxs_def)
  then show ?thesis using h E
    by (auto simp: GenerateBlock_def startBlock_def Let_def bindA_def pureA_def modifyA_def sealBlock_def sampleBlock_def hashable_def)
qed

lemma generated_block_valid_witness:
  "\<exists>b s c be pe. GenerateBlock sampleEnv (Some sampleBlock) 5 [wrapTx retireTx] sampleChain = (Ok (b, s), c) \<and> lb_Transactions b = [wrapTx retireTx] \<and>
     fst (ValidateBlock lengthHash be (Some pe) (txValidator sampleEnv) c) = Ok () \<and> ApplyValidBlock sampleEnv b c = Ok s"
proof -
  obtain b s c where g: "GenerateBlock sampleEnv (Some sampleBlock) 5 [wrapTx retireTx] sampleChain = (Ok (b, s), c)" "lb_Transactions b = [wrapTx retireTx]"
      "hashable (lb_BlockHeader b)"
    using sample_generates by blast
  have E: "env_H sampleEnv = lengthHash" "ch_snapshot sampleChain = Some sampleSnapshot" by (simp_all add: sampleEnv_def sampleChain_def)
  obtain be where be: "MapBlock (env_H sampleEnv) b = (Ok be :: (chain_error, Block) outcome)" using hashable_maps [OF g(3)] by blast
  obtain pe where pe: "MapBlock (env_H sampleEnv) sampleBlock = (Ok pe :: (chain_error, Block) outcome)"
    using hashable_maps [of sampleBlock "env_H sampleEnv"] by (auto simp: hashable_def sampleBlock_def)
  have "trusts sampleEnv id (lt_Tx ` set [wrapTx retireTx]) sampleChain" using sample_trusts by (simp add: wrapTx_def)
  moreover have "cleanRun lengthHash (map lt_Tx [wrapTx retireTx]) (PruneNonces 5 sampleSnapshot)"
    using sample_snapshot(1) by (intro simple_clean) (simp_all add: simpleTx_def wrapTx_def retireTx_def)
  ultimately show ?thesis using generated_block_valid [OF g(1) E(2) _ be pe, of id] sample_snapshot(1) g
    by (auto simp: E sampleBlock_def wrapTx_def retireTx_def retireHeader_def)
qed

text \<open>The same transaction without the destinations of its mux, which are witness data: its ID is the same, but it is not valid.\<close>

definition strippedTx :: Tx where
  "strippedTx = retireTx\<lparr>tx_Entries := (tx_Entries retireTx)(idOf ''mux1'' \<mapsto> EMux (retireMux\<lparr>mux_WitnessDestinations := []\<rparr>))\<rparr>"

lemma stripped_entries:
  "tx_Entries strippedTx (idOf ''retirement1'') = Some (ERetirement retireEntry)"
  "tx_Entries strippedTx (idOf ''mux1'') = Some (EMux (retireMux\<lparr>mux_WitnessDestinations := []\<rparr>))"
  "tx_TxHeader strippedTx = retireHeader" "tx_ID strippedTx = tx_ID retireTx"
  using idOf_distinct retire_entries by (simp_all add: strippedTx_def)

lemma stripped_retirement:
  assumes "vs_tx vs = strippedTx"
  shows "checkBody lengthHash P F rec vs (Some (ERetirement retireEntry)) c \<noteq> (Ok (), c')"
  using assms by (simp add: check_defs retire_fields stripped_entries srcFrom_def split: outcome.splits prod.splits)

lemma stripped_invalid: "ValidateTx lengthHash P F n strippedTx b \<noteq> Ok ()"
proof (cases n)
  case 0
  then show ?thesis by (simp add: ValidateTx_def pureA_def)
next
  case (Suc m)
  have entry: "fst (checkValid lengthHash P F m vs (Some (ERetirement retireEntry)) (\<lambda>_. None)) \<noteq> Ok ()" if "vs_tx vs = strippedTx" for vs
    by (cases m) (auto simp: stripped_retirement [OF that] pureA_def memo_def bindA_def retire_ids split: outcome.splits prod.splits)
  have "fst (checkBody lengthHash P F (checkValid lengthHash P F m) vs (Some (ETxHeader retireHeader)) (\<lambda>_. None)) \<noteq> Ok ()"
    if "vs_tx vs = strippedTx" for vs
    using entry [of "vs\<lparr>vs_entryID := idOf ''retirement1''\<rparr>"] that by (auto simp: check_defs checkHeader_def retire_fields stripped_entries split: outcome.splits prod.splits)
  from this [of "\<lparr>vs_blockchainID = b, vs_tx = strippedTx, vs_entryID = tx_ID retireTx, vs_sourcePos = 0, vs_destPos = 0\<rparr>"] show ?thesis
    by (auto simp: ValidateTx_def Suc stripped_entries memo_def bindA_def pureA_def retire_ids split: outcome.splits prod.splits)
qed

text \<open>
  C37. The cache of verdicts looks at the ID of a transaction only, which does not cover its witness: the verdict on one transaction is
  given for every other one with the same ID, valid or not. The hypotheses on the cache are that it finds what was added last and
  what was found last.
\<close>
theorem cached_verdict_by_id:
  assumes "ChainValidateTx E tx c = (r, c1)" and "r \<in> {Ok (), Fail ErrBadTx}" and "tx_ID tx' = tx_ID tx"
    and "checkIssuanceWindow c tx = Ok ()" and "checkIssuanceWindow c tx' = Ok ()"
    and "\<forall>k v l. fst (lru_Get (env_lru E) k (lru_Add (env_lru E) k v l)) = Some v"
    and "\<forall>k v l l'. lru_Get (env_lru E) k l = (Some v, l') \<longrightarrow> fst (lru_Get (env_lru E) k l') = Some v"
  shows "fst (ChainValidateTx E tx' c1) = r"
proof -
  have again: "fst (ChainValidateTx E tx' (c\<lparr>ch_prevalidated := l\<rparr>)) = cachedResult v" if "fst (lru_Get (env_lru E) (tx_ID tx) l) = Some v" for l v
    using that assms(3,5) by (cases "lru_Get (env_lru E) (tx_ID tx) l") (simp add: ChainValidateTx_def)
  obtain g l where g: "lru_Get (env_lru E) (tx_ID tx) (ch_prevalidated c) = (g, l)" by fastforce
  show ?thesis
  proof (cases g)
    case (Some v)
    with g assms(1,4) have "r = cachedResult v" "c1 = c\<lparr>ch_prevalidated := l\<rparr>" by (simp_all add: ChainValidateTx_def)
    moreover have "fst (lru_Get (env_lru E) (tx_ID tx) l) = Some v" using assms(7) g Some by blast
    ultimately show ?thesis using again by simp
  next
    case None
    let ?r = "fullCheck E c tx"
    have "r = cachedResult v \<and> c1 = c\<lparr>ch_prevalidated := lru_Add (env_lru E) (tx_ID tx) v l\<rparr>"
      if "?r = (case v of None \<Rightarrow> Ok () | Some e \<Rightarrow> Fail e)" for v
      using g assms(1,4) None that by (auto simp: ChainValidateTx_def fullCheck_def cachedResult_def split: option.splits)
    moreover have "\<exists>v. ?r = (case v of None \<Rightarrow> Ok () | Some e \<Rightarrow> Fail e)"
    proof (cases ?r)
      case (Ok u)
      then show ?thesis by (intro exI [of _ None]) simp
    next
      case (Fail e)
      then show ?thesis by (intro exI [of _ "Some e"]) simp
    qed (use g assms(1,2,4) None in \<open>auto simp: ChainValidateTx_def fullCheck_def\<close>)
    ultimately show ?thesis using again assms(6) by auto
  qed
qed

lemma cached_verdict_by_id_witness:
  "fullCheck sampleEnv sampleChain strippedTx \<noteq> Ok () \<and>
   (\<exists>c1. ChainValidateTx sampleEnv retireTx sampleChain = (Ok (), c1) \<and> fst (ChainValidateTx sampleEnv strippedTx c1) = Ok ())"
proof -
  obtain r c where v: "ChainValidateTx sampleEnv retireTx sampleChain = (r, c)" by fastforce
  have w: "checkIssuanceWindow sampleChain tx = Ok ()" for tx by (simp add: checkIssuanceWindow_def sampleChain_def)
  have "r = Ok ()" using ChainValidateTx_frame(2) [OF sample_trusts _ v] sample_check w by (simp add: accepts_def)
  moreover have "fst (ChainValidateTx sampleEnv strippedTx c) = r"
    using calculation by (intro cached_verdict_by_id [OF v _ stripped_entries(4) w w]) (simp_all add: sampleEnv_def mapLRU_def)
  ultimately show ?thesis using v stripped_invalid by (simp add: fullCheck_def sampleEnv_def)
qed

lemma ChainValidateTx_keeps: "ChainValidateTx E tx c = (r, c') \<Longrightarrow> ch_snapshot c' = ch_snapshot c"
  by (auto simp: ChainValidateTx_def split: outcome.splits prod.splits option.splits)

lemma second_spend_fails:
  assumes "snapInv H s" and "tx_NonceIDs tx = []" and "tx_SpentOutputIDs tx = [x, y]" and "x \<in> unspent s" and "y \<notin> unspent s - {x}"
  shows "\<exists>s'. ApplyTx H tx s = (Fail (InvalidPrevout y), s') \<and> snapInv H s' \<and> unspent s' = unspent s - {x}"
proof -
  obtain t where t: "spendOutput H x s = (Ok (), s\<lparr>snap_Tree := t\<rparr>)" "snapInv H (s\<lparr>snap_Tree := t\<rparr>)" "unspent (s\<lparr>snap_Tree := t\<rparr>) = unspent s - {x}"
    using spendOutput_correct [OF assms(1), of x] assms(4) by auto
  have "spendOutput H y (s\<lparr>snap_Tree := t\<rparr>) = (Fail (InvalidPrevout y), s\<lparr>snap_Tree := t\<rparr>)"
    using spendOutput_correct [OF t(2), of y] t(3) assms(5) by simp
  then show ?thesis using t assms(2,3) by (auto simp: ApplyTx_def bindA_def)
qed

text \<open>
  C36. A transaction that fails halfway spoils the generated block: it is left out, but the output it spent before it failed is missing
  from the snapshot from which the assets root is computed, and the chain itself rejects the block with \<open>ErrBadStateRoot\<close>. The last
  hypothesis is that the hash tells the two sets of outputs apart.
\<close>
theorem generated_block_rejected:
  assumes "ch_snapshot c = Some s0" and "snapInv (env_H E) s0" and "ChainValidateTx E (lt_Tx tx) c = (Ok (), c1)"
    and "\<not> untimely ts (tx_TxHeader (lt_Tx tx))" and "tx_NonceIDs (lt_Tx tx) = []" and "tx_SpentOutputIDs (lt_Tx tx) = [x, y]"
    and "x \<in> unspent s0" and "y \<notin> unspent s0 - {x}"
    and "hashable (lb_BlockHeader p)" and "lh_TimestampMS (lb_BlockHeader p) \<le> ts" and "ts \<le> 9223372036854775807"
    and "lh_Height (lb_BlockHeader p) + 1 \<le> 9223372036854775807"
    and "\<forall>t. snapInv (env_H E) t \<and> unspent t = unspent s0 - {x} \<longrightarrow> fst (RootHash (env_H E) (snap_Tree t)) \<noteq> fst (RootHash (env_H E) (snap_Tree s0))"
  shows "\<exists>b s. GenerateBlock E (Some p) ts [tx] c = (Ok (b, s), c1) \<and> lb_Transactions b = [] \<and> ApplyValidBlock E b c1 = Fail ErrBadStateRoot"
proof -
  obtain s' where s': "ApplyTx (env_H E) (lt_Tx tx) (PruneNonces ts s0) = (Fail (InvalidPrevout y), s')" "snapInv (env_H E) s'" "unspent s' = unspent s0 - {x}"
    using second_spend_fails [of "env_H E" "PruneNonces ts s0" "lt_Tx tx" x y] assms(2,5-8) by auto
  have take: "takeTxs E ts [tx] [] (PruneNonces ts s0) c = (Ok ([], s'), c1)" using assms(3,4) s'(1) by (simp add: maxBlockTxs_def)
  obtain h where h: "blockHash (env_H E) p = (Ok h :: (chain_error, Hash) outcome)"
    using hashable_maps [OF assms(9), of "env_H E"] by (auto simp: MapBlock_def blockHash_def bindO_Ok_iff)
  obtain b0 where b0: "startBlock E (Some p) ts c = (Ok b0, c)" "hashable (lb_BlockHeader b0)" "lh_TimestampMS (lb_BlockHeader b0) = ts"
    using h assms(9-12) by (auto simp: startBlock_def Let_def pureA_def hashable_def not_less)
  define b where "b = sealBlock E b0 [] s'"
  have gen: "GenerateBlock E (Some p) ts [tx] c = (Ok (b, s'\<lparr>snap_Tree := snd (RootHash (env_H E) (snap_Tree s'))\<rparr>), c1)"
    using b0(1) assms(1) take by (simp add: GenerateBlock_def bindA_def pureA_def modifyA_def b_def)
  obtain be where be: "MapBlock (env_H E) b = (Ok be :: (chain_error, Block) outcome)"
    using hashable_maps [of b] b0(2) by (auto simp: b_def sealBlock_def hashable_def)
  then have txs: "blk_Transactions be = []" by (auto simp: MapBlock_Ok b_def sealBlock_def)
  have "snap_Tree (snd (ApplyBlock (env_H E) be s0)) = snap_Tree s0" "fst (ApplyBlock (env_H E) be s0) = Ok ()"
    by (simp_all add: ApplyBlock_def txs PruneNonces_def)
  moreover have "bcm_AssetsMerkleRoot (lh_BlockCommitment (lb_BlockHeader b)) = fst (RootHash (env_H E) (snap_Tree s'))"
    by (simp add: b_def sealBlock_def)
  moreover have "fst (RootHash (env_H E) (snap_Tree s')) \<noteq> fst (RootHash (env_H E) (snap_Tree s0))" using assms(13) s'(2,3) by simp
  ultimately have "applyChecked (env_H E) (\<lambda>_. ErrBadStateRoot) b s0 = Fail ErrBadStateRoot"
    using be by (cases "ApplyBlock (env_H E) be s0") (simp add: applyChecked_def)
  then have "ApplyValidBlock E b c1 = Fail ErrBadStateRoot"
    using ChainValidateTx_keeps [OF assms(3)] assms(1) by (simp add: ApplyValidBlock_def)
  moreover have "lb_Transactions b = []" by (simp add: b_def sealBlock_def)
  ultimately show ?thesis using gen by blast
qed

text \<open>A transaction whose second input is not there, found valid earlier.\<close>

definition brokenTx :: Tx where
  "brokenTx = retireTx\<lparr>tx_SpentOutputIDs := [idOf ''output1'', zeroHash]\<rparr>"

definition cachedChain :: "(MemStore, Hash \<Rightarrow> val_error option option) Chain" where
  "cachedChain = sampleChain\<lparr>ch_prevalidated := [tx_ID brokenTx \<mapsto> None]\<rparr>"

lemma generated_block_rejected_witness:
  "\<exists>b s. GenerateBlock sampleEnv (Some sampleBlock) 5 [wrapTx brokenTx] cachedChain = (Ok (b, s), cachedChain) \<and> lb_Transactions b = [] \<and>
     ApplyValidBlock sampleEnv b cachedChain = Fail ErrBadStateRoot"
proof (rule generated_block_rejected)
  show "ChainValidateTx sampleEnv (lt_Tx (wrapTx brokenTx)) cachedChain = (Ok (), cachedChain)"
    by (simp add: ChainValidateTx_def checkIssuanceWindow_def cachedChain_def sampleChain_def sampleEnv_def mapLRU_def wrapTx_def cachedResult_def)
  have "fst (RootHash lengthHash (snap_Tree t)) = fst (RootHash lengthHash (snap_Tree Empty))" if "snapInv lengthHash t" "unspent t = {}" for t
    using that RootHash_canonical [of lengthHash 32 "snap_Tree t" "snap_Tree Empty"] items_unspent [of lengthHash t] items_unspent [of lengthHash Empty]
    by (simp add: snapInv_def Empty_correct Empty_correct(1) [unfolded snapInv_def])
  moreover have "fst (RootHash lengthHash (snap_Tree Empty)) \<noteq> fst (RootHash lengthHash (snap_Tree sampleSnapshot))" by code_simp
  ultimately show "\<forall>t. snapInv (env_H sampleEnv) t \<and> unspent t = unspent sampleSnapshot - {idOf ''output1''} \<longrightarrow>
      fst (RootHash (env_H sampleEnv) (snap_Tree t)) \<noteq> fst (RootHash (env_H sampleEnv) (snap_Tree sampleSnapshot))"
    by (simp add: sample_snapshot sampleEnv_def)
  show "zeroHash \<notin> unspent sampleSnapshot - {idOf ''output1''}" by (simp add: sample_snapshot)
qed (simp_all add: sample_snapshot sampleEnv_def cachedChain_def sampleChain_def wrapTx_def brokenTx_def retireTx_def retireHeader_def untimely_def
    hashable_def sampleBlock_def)

end
