(* ===== verification/Chain_Recover.thy ===== *)
theory Chain_Recover
  imports Chain_Generate
begin

text \<open>
  Crash recovery: whatever the chain did before a crash, and wherever it stopped, recovery returns the last block that was stored
  and the state after all stored blocks. The proofs use the contract of the store only.
\<close>

section \<open>Applying blocks to equal states\<close>

lemma ApplyTx_same:
  assumes "sameState H s t" and "ApplyTx H tx s = (Ok u, s')"
  shows "\<exists>t'. ApplyTx H tx t = (Ok (), t') \<and> sameState H s' t'"
proof -
  from assms(1) have st: "snapInv H s" "snapInv H t" "unspent s = unspent t" "snap_Nonces s = snap_Nonces t" by (simp_all add: sameState_def)
  have app: "applicable tx (unspent s) (snap_Nonces s)" and s': "snapInv H s'" "unspent s' = unspentAfter tx (unspent s)" "snap_Nonces s' = noncesAfter tx (snap_Nonces s)"
    using ApplyTx_correct [OF st(1), of tx] assms(2) by (auto split: if_splits)
  then obtain t' where "ApplyTx H tx t = (Ok (), t')" "snapInv H t'" "unspent t' = unspentAfter tx (unspent t)" "snap_Nonces t' = noncesAfter tx (snap_Nonces t)"
    using ApplyTx_correct [OF st(2), of tx] st(3,4) by auto
  with s' st show ?thesis by (auto simp: sameState_def)
qed

lemma ApplyTxs_same:
  "sameState H s t \<Longrightarrow> forA (ApplyTx H) txs s = (Ok (), s') \<Longrightarrow> \<exists>t'. forA (ApplyTx H) txs t = (Ok (), t') \<and> sameState H s' t'"
proof (induction txs arbitrary: s t)
  case (Cons tx txs)
  from Cons.prems(2) obtain s1 where s1: "ApplyTx H tx s = (Ok (), s1)" "forA (ApplyTx H) txs s1 = (Ok (), s')" unfolding forA_Cons_Ok by blast
  from ApplyTx_same [OF Cons.prems(1) s1(1)] obtain t1 where t1: "ApplyTx H tx t = (Ok (), t1)" "sameState H s1 t1" by (elim exE conjE)
  from Cons.IH [OF t1(2) s1(2)] t1(1) show ?case unfolding forA_Cons_Ok by blast
qed simp

lemma sameState_prune: "sameState H s t \<Longrightarrow> sameState H (PruneNonces ts s) (PruneNonces ts t)"
  by (simp add: sameState_def) (simp add: PruneNonces_def)

lemma ApplyBlock_same:
  assumes "sameState H s t" and "ApplyBlock H b s = (Ok (), s')"
  shows "\<exists>t'. ApplyBlock H b t = (Ok (), t') \<and> sameState H s' t'"
  using ApplyTxs_same [OF sameState_prune [OF assms(1)]] assms(2) by (simp add: ApplyBlock_def)

lemma sameState_rooted:
  assumes "sameState H s t"
  shows "sameState H (s\<lparr>snap_Tree := snd (RootHash H (snap_Tree s))\<rparr>) (t\<lparr>snap_Tree := snd (RootHash H (snap_Tree t))\<rparr>)"
  using assms RootHash_correct(1) [of H 32 "snap_Tree s"] RootHash_correct(1) [of H 32 "snap_Tree t"] by (simp add: sameState_def snapInv_def unspent_def)

lemma applyChecked_Ok:
  "applyChecked H err b s = Ok s' \<longleftrightarrow> (\<exists>be s1. MapBlock H b = (Ok be :: (chain_error, Block) outcome) \<and> ApplyBlock H be s = (Ok (), s1) \<and>
     bcm_AssetsMerkleRoot (lh_BlockCommitment (lb_BlockHeader b)) = fst (RootHash H (snap_Tree s1)) \<and>
     s' = s1\<lparr>snap_Tree := snd (RootHash H (snap_Tree s1))\<rparr>)"
proof (cases "MapBlock H b :: (chain_error, Block) outcome")
  case (Ok be)
  then show ?thesis by (cases "ApplyBlock H be s"; cases "fst (ApplyBlock H be s)") (auto simp: applyChecked_def)
qed (simp_all add: applyChecked_def)

lemma applyChecked_same:
  assumes "sameState H s t" and "applyChecked H err b s = Ok s'"
  shows "\<exists>t'. applyChecked H err' b t = Ok t' \<and> sameState H s' t'"
proof -
  from assms(2) obtain be s1 where b: "MapBlock H b = (Ok be :: (chain_error, Block) outcome)" "ApplyBlock H be s = (Ok (), s1)"
      "bcm_AssetsMerkleRoot (lh_BlockCommitment (lb_BlockHeader b)) = fst (RootHash H (snap_Tree s1))" "s' = s1\<lparr>snap_Tree := snd (RootHash H (snap_Tree s1))\<rparr>"
    unfolding applyChecked_Ok by (elim exE conjE)
  obtain t1 where t1: "ApplyBlock H be t = (Ok (), t1)" "sameState H s1 t1" using ApplyBlock_same [OF assms(1) b(2)] by (elim exE conjE)
  show ?thesis unfolding applyChecked_Ok using b t1 sameState_root [OF t1(2)] sameState_rooted [OF t1(2)] by auto
qed

section \<open>The state after a list of blocks\<close>

definition stateAfter :: "(bytes \<Rightarrow> bytes) \<Rightarrow> LegacyBlock list \<Rightarrow> (chain_error, Snapshot) outcome" where
  "stateAfter H bs = foldO (applyChecked H RecoveredRootDiffers) bs Empty"

text \<open>The snapshot \<open>s\<close> is the state after the first \<open>n\<close> blocks.\<close>

definition snapshotAt :: "(bytes \<Rightarrow> bytes) \<Rightarrow> LegacyBlock list \<Rightarrow> nat \<Rightarrow> Snapshot \<Rightarrow> bool" where
  "snapshotAt H bs n s \<longleftrightarrow> n \<le> length bs \<and> (\<exists>t. stateAfter H (take n bs) = Ok t \<and> sameState H s t)"

lemma stateAfter_simps [simp]:
  "stateAfter H [] = Ok Empty"
  "stateAfter H (bs @ [b]) = bindO (stateAfter H bs) (applyChecked H RecoveredRootDiffers b)"
  by (simp_all add: stateAfter_def foldO_append bindO_def split: outcome.splits)

lemma snapshotAt_start: "snapshotAt H bs 0 Empty"
  by (simp add: snapshotAt_def sameState_refl Empty_correct)

lemma snapshotAt_same: "snapshotAt H bs n s \<Longrightarrow> sameState H t s \<Longrightarrow> snapshotAt H bs n t"
  unfolding snapshotAt_def by (blast intro: sameState_trans)

lemma snapshotAt_inv: "snapshotAt H bs n s \<Longrightarrow> snapInv H s"
  by (auto simp: snapshotAt_def sameState_def)

lemma snapshotAt_grow: "snapshotAt H bs n s \<Longrightarrow> snapshotAt H (bs @ [b]) n s"
  by (auto simp: snapshotAt_def)

lemma snapshotAt_next:
  assumes "snapshotAt H bs (length bs) s" and "applyChecked H err b s = Ok s'"
  shows "snapshotAt H (bs @ [b]) (length (bs @ [b])) s'"
proof -
  from assms(1) obtain t where t: "stateAfter H bs = Ok t" "sameState H s t" by (auto simp: snapshotAt_def)
  from applyChecked_same [OF t(2) assms(2), of RecoveredRootDiffers] obtain t' where "applyChecked H RecoveredRootDiffers b t = Ok t'" "sameState H s' t'" by (elim exE conjE)
  with t(1) show ?thesis by (simp add: snapshotAt_def)
qed

text \<open>A snapshot in the middle can be taken one block further.\<close>

lemma snapshotAt_step:
  assumes "snapshotAt H bs n s" and "n < length bs" and "snapshotAt H bs (length bs) z"
  shows "\<exists>s'. applyChecked H err (bs ! n) s = Ok s' \<and> snapshotAt H bs (Suc n) s'"
proof -
  from assms(1) obtain t where t: "stateAfter H (take n bs) = Ok t" "sameState H s t" by (auto simp: snapshotAt_def)
  have "\<exists>u. stateAfter H (take (Suc n) bs) = Ok u"
  proof -
    from assms(3) obtain w where "stateAfter H bs = Ok w" by (auto simp: snapshotAt_def)
    then have "bindO (stateAfter H (take (Suc n) bs)) (foldO (applyChecked H RecoveredRootDiffers) (drop (Suc n) bs)) = Ok w"
      unfolding stateAfter_def by (subst foldO_append [symmetric]) simp
    then show ?thesis by (auto simp: bindO_Ok_iff)
  qed
  with t(1) assms(2) obtain u where u: "applyChecked H RecoveredRootDiffers (bs ! n) t = Ok u" "stateAfter H (take (Suc n) bs) = Ok u"
    by (auto simp: take_Suc_conv_app_nth)
  obtain s' where "applyChecked H err (bs ! n) s = Ok s'" "sameState H u s'"
    using applyChecked_same [OF sameState_sym [OF t(2)] u(1), of err] by (elim exE conjE)
  with u(2) assms(2) show ?thesis by (auto simp: snapshotAt_def intro: sameState_sym)
qed

section \<open>The life of a chain\<close>

text \<open>The state to which the next block applies: before the first commit it is empty.\<close>

definition chainState :: "('st, 'lru) Chain \<Rightarrow> Snapshot" where
  "chainState c = (case ch_snapshot c of None \<Rightarrow> Empty | Some s \<Rightarrow> s)"

text \<open>
  What may happen to a chain that started on the store \<open>st0\<close>, with the blocks that have been stored so far: commits of blocks that apply,
  rounds of the two goroutines, changes of the cache, and crashes followed by recovery, also between the two halves of a commit. A block
  applies if \<open>ApplyValidBlock\<close> or, before the first commit, the same check on the empty state gives the snapshot that is committed with it. The blocks
  that \<open>GenerateBlock\<close> makes are committed without that check; they pass it under the conditions of \<open>generated_block_valid\<close>. What
  happens to a block that does not apply is stated below. The first call of \<open>GenerateBlock\<close> on a chain without blocks, which commits its
  block twice, is not among the steps.
\<close>

inductive lives :: "('st, 'lru) env \<Rightarrow> 'st \<Rightarrow> LegacyBlock list \<Rightarrow> ('st, 'lru) Chain \<Rightarrow> bool" for E st0 where
  start: "ch_store c = st0 \<Longrightarrow> ch_snapshot c = None \<Longrightarrow> ch_pendingSnapshots c = None \<Longrightarrow> lives E st0 [] c"
| commit: "lives E st0 bs c \<Longrightarrow> lh_Height (lb_BlockHeader b) = word_of_nat (Suc (length bs)) \<Longrightarrow> applyChecked (env_H E) err b (chainState c) = Ok s \<Longrightarrow>
    CommitAppliedBlock E b s c = (Ok (), c') \<Longrightarrow> lives E st0 (bs @ [b]) c'"
| save: "lives E st0 bs c \<Longrightarrow> lives E st0 bs (savePending E c)"
| listen: "lives E st0 bs c \<Longrightarrow> lives E st0 bs (setHeight h c)"
| validate: "lives E st0 bs c \<Longrightarrow> lives E st0 bs (c\<lparr>ch_prevalidated := l\<rparr>)"
| crash: "lives E st0 bs c \<Longrightarrow> NewChain E l i (ch_store c) = (Ok c0, st) \<Longrightarrow> Recover E c0 = (Ok r, c') \<Longrightarrow> lives E st0 bs c'"
| crash_in_commit: "lives E st0 bs c \<Longrightarrow> lh_Height (lb_BlockHeader b) = word_of_nat (Suc (length bs)) \<Longrightarrow>
    applyChecked (env_H E) err b (chainState c) = Ok s \<Longrightarrow> st_SaveBlock (env_store E) b (ch_store c) = (Ok (), st) \<Longrightarrow>
    NewChain E l i st = (Ok c0, st') \<Longrightarrow> Recover E c0 = (Ok r, c') \<Longrightarrow> lives E st0 (bs @ [b]) c'"

text \<open>The store holds the blocks and a snapshot of the state after some of them; so do the chain and its queue.\<close>

definition storeInv :: "(bytes \<Rightarrow> bytes) \<Rightarrow> (uint64 \<Rightarrow> LegacyBlock option) \<Rightarrow> Snapshot \<times> uint64 \<Rightarrow> LegacyBlock list \<Rightarrow> bool" where
  "storeInv H blk lat bs \<longleftrightarrow> blk = chainOf bs \<and> length bs < 2 ^ 63 \<and> (\<forall>i < length bs. lh_Height (lb_BlockHeader (bs ! i)) = word_of_nat (Suc i)) \<and> (\<exists>n. snd lat = word_of_nat n \<and> snapshotAt H bs n (fst lat)) \<and>
     (\<exists>s. snapshotAt H bs (length bs) s)"

definition chainInv :: "(bytes \<Rightarrow> bytes) \<Rightarrow> (uint64 \<Rightarrow> LegacyBlock option) \<Rightarrow> Snapshot \<times> uint64 \<Rightarrow> LegacyBlock list \<Rightarrow> ('st, 'lru) Chain \<Rightarrow> bool" where
  "chainInv H blk lat bs c \<longleftrightarrow> storeInv H blk lat bs \<and> snapshotAt H bs (length bs) (chainState c) \<and>
     (\<forall>k s. ch_pendingSnapshots c = Some (k, s) \<longrightarrow> (\<exists>n. k = word_of_nat n \<and> snapshotAt H bs n s))"

lemma unat_height: "n < 2 ^ 64 \<Longrightarrow> unat (word_of_nat n :: uint64) = n"
  by (simp add: unat_of_nat take_bit_nat_eq_self)

lemma chainOf_snoc:
  assumes "Suc (length bs) < 2 ^ 64"
  shows "(chainOf bs)(word_of_nat (Suc (length bs)) \<mapsto> b) = chainOf (bs @ [b])" and "chainOf bs (word_of_nat (Suc (length bs))) = None"
proof -
  have u: "unat (word_of_nat (Suc (length bs)) :: uint64) = Suc (length bs)" using unat_height assms by blast
  show "chainOf bs (word_of_nat (Suc (length bs))) = None" by (simp only: chainOf_def u) simp
  show "(chainOf bs)(word_of_nat (Suc (length bs)) \<mapsto> b) = chainOf (bs @ [b])"
  proof
    fix h :: uint64
    have "h = word_of_nat (Suc (length bs)) \<longleftrightarrow> unat h = Suc (length bs)" using u by (metis word_unat_eq_iff)
    then show "((chainOf bs)(word_of_nat (Suc (length bs)) \<mapsto> b)) h = chainOf (bs @ [b]) h"
      by (auto simp: chainOf_def nth_append simp del: of_nat_Suc)
  qed
qed

lemma chainOf_nth: "0 < n \<Longrightarrow> n \<le> length bs \<Longrightarrow> length bs < 2 ^ 64 \<Longrightarrow> chainOf bs (word_of_nat n) = Some (bs ! (n - 1))"
  by (simp add: chainOf_def unat_height)

lemma must63: "mustWriteForHash (x # GUint64 v # vs) = Ok out \<Longrightarrow> v \<le> 9223372036854775807"
  by (auto simp: emit_def WriteVarint63_def bindO_Ok_iff split: if_splits prod.splits option.splits sum.splits)

lemma must_any: "mustWriteForHash vs = (Ok out :: ('e, bytes) outcome) \<Longrightarrow> mustWriteForHash vs = (Ok out :: ('f, bytes) outcome)"
  by (induction vs arbitrary: out) (auto simp: bindO_Ok_iff split: prod.splits option.splits)

lemma entryID_other_error: "entryID H e = (Ok i :: ('e, Hash) outcome) \<Longrightarrow> entryID H e = (Ok i :: ('f, Hash) outcome)"
  by (cases e) (auto simp: entryID_def bindO_Ok_iff simp del: mustWriteForHash.simps hashedParts.simps dest: must_any)

lemma mapped_header:
  assumes "mapBlockHeader H old = (Ok (i, bh) :: ('e, Hash \<times> BlockHeader) outcome)"
  shows "lh_Height old \<le> 9223372036854775807" and "mapBlockHeader H old = (Ok (i, bh) :: ('f, Hash \<times> BlockHeader) outcome)"
proof -
  let ?bh = "(NewBlockHeader (lh_Version old) (lh_Height old) (lh_PreviousBlockHash old) (lh_TimestampMS old) (bcm_TransactionsMerkleRoot (lh_BlockCommitment old))
      (bcm_AssetsMerkleRoot (lh_BlockCommitment old)) (bcm_ConsensusProgram (lh_BlockCommitment old)))\<lparr>bh_WitnessArguments := lh_Witness old\<rparr>"
  have e: "entryID H (Some (EBlockHeader ?bh)) = (Ok i :: ('e, Hash) outcome)" "bh = ?bh" using assms by (auto simp: mapBlockHeader_def Let_def bindO_Ok_iff)
  then obtain out where "mustWriteForHash (hashedParts (EBlockHeader ?bh)) = (Ok out :: ('e, bytes) outcome)"
    by (auto simp: entryID_def bindO_Ok_iff simp del: mustWriteForHash.simps hashedParts.simps)
  from must63 [OF this [unfolded hashedParts.simps partsBlockHeader_def]] show "lh_Height old \<le> 9223372036854775807" by (simp add: NewBlockHeader_def)
  have "entryID H (Some (EBlockHeader ?bh)) = (Ok i :: ('f, Hash) outcome)" by (rule entryID_other_error [OF e(1)])
  then show "mapBlockHeader H old = (Ok (i, bh) :: ('f, Hash \<times> BlockHeader) outcome)"
    using e(2) by (simp add: mapBlockHeader_def Let_def)
qed

lemma applied_height:
  assumes "applyChecked H err b s = Ok s'"
  shows "lh_Height (lb_BlockHeader b) \<le> 9223372036854775807" and "\<exists>i. blockHash H b = (Ok i :: (store_error, Hash) outcome)"
proof -
  from assms obtain be where "MapBlock H b = (Ok be :: (chain_error, Block) outcome)" unfolding applyChecked_Ok by (elim exE conjE)
  then obtain i bh where m: "mapBlockHeader H (lb_BlockHeader b) = (Ok (i, bh) :: (chain_error, Hash \<times> BlockHeader) outcome)"
    by (auto simp: MapBlock_def bindO_Ok_iff)
  show "lh_Height (lb_BlockHeader b) \<le> 9223372036854775807" by (rule mapped_header(1) [OF m])
  have "mapBlockHeader H (lb_BlockHeader b) = (Ok (i, bh) :: (store_error, Hash \<times> BlockHeader) outcome)" by (rule mapped_header(2) [OF m])
  then show "\<exists>i. blockHash H b = (Ok i :: (store_error, Hash) outcome)" by (simp add: blockHash_def)
qed

lemma next_height:
  assumes "length bs < 2 ^ 63" and "lh_Height (lb_BlockHeader b) = word_of_nat (Suc (length bs))" and "applyChecked H err b s = Ok s'"
  shows "length (bs @ [b]) < 2 ^ 63"
proof -
  have "unat (word_of_nat (Suc (length bs)) :: uint64) \<le> unat (9223372036854775807 :: uint64)"
    using applied_height(1) [OF assms(3)] unfolding assms(2) word_le_nat_alt .
  then show ?thesis using assms(1) unat_height [of "Suc (length bs)"] by simp
qed

text \<open>A block that applies to the state but leads to another root than the one in its header.\<close>

definition wrongRoot :: "(bytes \<Rightarrow> bytes) \<Rightarrow> LegacyBlock \<Rightarrow> Snapshot \<Rightarrow> bool" where
  "wrongRoot H b s \<longleftrightarrow> (\<exists>be s'. MapBlock H b = (Ok be :: (chain_error, Block) outcome) \<and> ApplyBlock H be s = (Ok (), s') \<and>
     bcm_AssetsMerkleRoot (lh_BlockCommitment (lb_BlockHeader b)) \<noteq> fst (RootHash H (snap_Tree s')))"

lemma wrongRoot_same:
  assumes "sameState H s t" and "wrongRoot H b s"
  shows "applyChecked H err b t = Fail (err (lh_Height (lb_BlockHeader b)))"
proof -
  from assms(2) obtain be s' where b: "MapBlock H b = (Ok be :: (chain_error, Block) outcome)" "ApplyBlock H be s = (Ok (), s')"
      "bcm_AssetsMerkleRoot (lh_BlockCommitment (lb_BlockHeader b)) \<noteq> fst (RootHash H (snap_Tree s'))" unfolding wrongRoot_def by (elim exE conjE)
  obtain t' where "ApplyBlock H be t = (Ok (), t')" "sameState H s' t'" using ApplyBlock_same [OF assms(1) b(2)] by (elim exE conjE)
  with b sameState_root [of H s' t'] show ?thesis by (simp add: applyChecked_def)
qed

section \<open>Recovery over the contract of the store\<close>

context block_store
begin

lemma onStore_ok:
  "m (ch_store c) = (Ok a, st) \<Longrightarrow> onStore m c = (Ok a, c\<lparr>ch_store := st\<rparr>)"
  by (simp add: onStore_def mapFail_def)

lemma bindA_step: "m s = (Ok a, s') \<Longrightarrow> bindA m f s = f a s'"
  by (simp add: bindA_def)

text \<open>A commit saves the block, queues the snapshot or not, and sets the state.\<close>

lemma commit_effect:
  assumes "env_store E = S" and "blocks (ch_store c) (lh_Height (lb_BlockHeader b)) \<in> {None, Some b}"
    and "blockHash H b = (Ok i :: (store_error, Hash) outcome)"
  shows "\<exists>c'. CommitAppliedBlock E b s c = (Ok (), c') \<and> blocks (ch_store c') = (blocks (ch_store c))(lh_Height (lb_BlockHeader b) \<mapsto> b) \<and>
    latest (ch_store c') = latest (ch_store c) \<and> ch_snapshot c' = Some s \<and> ch_block c' = Some b \<and>
    ch_pendingSnapshots c' \<in> {ch_pendingSnapshots c, Some (lh_Height (lb_BlockHeader b), s)}"
proof -
  let ?h = "lh_Height (lb_BlockHeader b)"
  obtain st1 where s1: "st_SaveBlock S b (ch_store c) = (Ok (), st1)" "blocks st1 = (blocks (ch_store c))(?h \<mapsto> b)" "latest st1 = latest (ch_store c)"
    using save_ok [OF assms(2,3)] by (elim exE conjE)
  obtain st2 where s2: "st_FinalizeBlock S ?h st1 = (Ok (), st2)" "blocks st2 = blocks st1" "latest st2 = latest st1"
    using finalize_ok [of ?h st1] by (elim exE conjE)
  define c1 where "c1 = (if Time (lb_BlockHeader b) > ch_lastQueuedSnapshot c + saveSnapshotFrequency
      then queueSnapshot ?h (Time (lb_BlockHeader b)) s (c\<lparr>ch_store := st1\<rparr>) else c\<lparr>ch_store := st1\<rparr>)"
  have c1: "ch_store c1 = st1" "ch_pendingSnapshots c1 \<in> {ch_pendingSnapshots c, Some (?h, s)}"
    by (auto simp: c1_def queueSnapshot_def split: option.splits)
  have "CommitAppliedBlock E b s c = (Ok (), setState (Some b) s (c1\<lparr>ch_store := st2\<rparr>))"
    using onStore_ok [of "st_FinalizeBlock S ?h" c1, unfolded c1(1), OF s2(1)]
    by (simp add: CommitAppliedBlock_def Let_def assms(1) bindA_def onStore_ok [of "st_SaveBlock S b", OF s1(1)] modifyA_def c1_def [symmetric])
  then show ?thesis using s1 s2 c1(2) by (auto simp: setState_def Let_def)
qed

text \<open>Replaying takes a snapshot to the end of the chain.\<close>

lemma replay_ok:
  assumes "env_store E = S" and "env_H E = H" and "storeInv H (blocks (ch_store c)) lat bs" and "snapshotAt H bs n s" and "length bs - n < fuel"
  shows "\<exists>s' st. replay E fuel (word_of_nat n + 1) (word_of_nat (length bs)) b s c = (Ok (if n = length bs then b else Some (last bs), s'), c\<lparr>ch_store := st\<rparr>) \<and>
    snapshotAt H bs (length bs) s' \<and> blocks st = blocks (ch_store c) \<and> latest st = latest (ch_store c)"
  using assms(3-5)
proof (induction fuel arbitrary: n s b c)
  case (Suc fuel)
  have len: "length bs < 2 ^ 63" "blocks (ch_store c) = chainOf bs" "n \<le> length bs" using Suc.prems(1,2) by (auto simp: storeInv_def snapshotAt_def)
  have le: "(word_of_nat n + 1 :: uint64) \<le> word_of_nat (length bs) \<longleftrightarrow> n < length bs"
    using unat_height [of "Suc n"] unat_height [of "length bs"] len by (auto simp: word_le_nat_alt add.commute)
  show ?case
  proof (cases "n < length bs")
    case False
    with Suc.prems(2) le len(3) show ?thesis by (intro exI [of _ s] exI [of _ "ch_store c"]) (simp add: pureA_def)
  next
    case True
    have "blocks (ch_store c) (word_of_nat n + 1) = Some (bs ! n)" using chainOf_nth [of "Suc n" bs] True len by (simp add: add.commute)
    from get_ok [OF this] obtain st1 where st1: "st_GetBlock S (word_of_nat n + 1) (ch_store c) = (Ok (bs ! n), st1)" "blocks st1 = blocks (ch_store c)"
        "latest st1 = latest (ch_store c)" by (elim exE conjE)
    obtain z where "snapshotAt H bs (length bs) z" using Suc.prems(1) by (auto simp: storeInv_def)
    from snapshotAt_step [OF Suc.prems(2) True this, of RecoveredRootDiffers]
    obtain s1 where s1: "applyChecked H RecoveredRootDiffers (bs ! n) s = Ok s1" "snapshotAt H bs (Suc n) s1" by (elim exE conjE)
    have "storeInv H (blocks (ch_store (c\<lparr>ch_store := st1\<rparr>))) lat bs" "length bs - Suc n < fuel" using Suc.prems(1,3) st1(2) True by simp_all
    from Suc.IH [OF this(1) s1(2) this(2), of "Some (bs ! n)"]
    obtain s' st where r: "replay E fuel (word_of_nat (Suc n) + 1) (word_of_nat (length bs)) (Some (bs ! n)) s1 (c\<lparr>ch_store := st1\<rparr>) =
        (Ok (if Suc n = length bs then Some (bs ! n) else Some (last bs), s'), c\<lparr>ch_store := st\<rparr>)"
        "snapshotAt H bs (length bs) s'" "blocks st = blocks (ch_store c)" "latest st = latest (ch_store c)"
      using st1(2,3) by auto
    have "last bs = bs ! n" if "Suc n = length bs" using that by (cases bs rule: rev_cases) (auto simp: nth_append)
    then have "replay E (Suc fuel) (word_of_nat n + 1) (word_of_nat (length bs)) b s c = (Ok (Some (last bs), s'), c\<lparr>ch_store := st\<rparr>)"
      using True le st1(1) s1(1) r(1) assms(1,2) by (simp add: bindA_def onStore_ok pureA_def add.commute [of 1] split: if_splits)
    with True r(2-4) show ?thesis by auto
  qed
qed simp

text \<open>Recovery of a fresh chain on a store that holds the blocks.\<close>

lemma recover_ok:
  assumes "env_store E = S" and "env_H E = H" and inv: "storeInv H (blocks (ch_store c)) (latest (ch_store c)) bs"
    and "ch_snapshot c = None" and "ch_pendingSnapshots c = None"
  shows "\<exists>s c'. Recover E c = (Ok (if bs = [] then None else Some (last bs), s), c') \<and> snapshotAt H bs (length bs) s \<and>
    chainInv H (blocks (ch_store c')) (latest (ch_store c')) bs c' \<and> (bs \<noteq> [] \<longrightarrow> ch_block c' = Some (last bs) \<and> ch_snapshot c' = Some s)"
proof -
  from inv obtain n z where n: "snd (latest (ch_store c)) = word_of_nat n" "snapshotAt H bs n (fst (latest (ch_store c)))" "snapshotAt H bs (length bs) z"
    unfolding storeInv_def by (elim conjE exE)
  have len: "length bs < 2 ^ 63" "n \<le> length bs" "blocks (ch_store c) = chainOf bs" using inv n(2) by (auto simp: storeInv_def snapshotAt_def)
  obtain s0 st1 where s0: "st_LatestSnapshot S (ch_store c) = (Ok (s0, word_of_nat n), st1)" "blocks st1 = blocks (ch_store c)" "latest st1 = latest (ch_store c)"
      "snapshotAt H bs n (case s0 of None \<Rightarrow> Empty | Some s \<Rightarrow> s)"
    using latest_ok [OF snapshotAt_inv [OF n(2)]] snapshotAt_same [OF n(2)] n(1) by auto
  define b0 where "b0 = (if n = 0 then None else Some (bs ! (n - 1)))"
  have pos: "(word_of_nat n :: uint64) > 0 \<longleftrightarrow> n \<noteq> 0" using unat_height [of n] len by (auto simp: word_less_nat_alt)
  obtain c2 where c2: "snapshotBlock E (word_of_nat n) (c\<lparr>ch_store := st1\<rparr>) = (Ok b0, c2)"
      "blocks (ch_store c2) = blocks (ch_store c)" "latest (ch_store c2) = latest (ch_store c)" "ch_snapshot c2 = None" "ch_pendingSnapshots c2 = None"
  proof (cases "n = 0")
    case True
    then show thesis using that s0 pos assms(4,5) by (simp add: snapshotBlock_def b0_def pureA_def)
  next
    case False
    then have "blocks st1 (word_of_nat n) = Some (bs ! (n - 1))" using chainOf_nth [of n bs] len s0(2) by simp
    from get_ok [OF this] obtain st2 where st2: "st_GetBlock S (word_of_nat n) st1 = (Ok (bs ! (n - 1)), st2)" "blocks st2 = blocks st1" "latest st2 = latest st1"
      by (elim exE conjE)
    show thesis using False pos s0 st2 assms(4,5)
      by (intro that [of "c\<lparr>ch_store := st2, ch_lastQueuedSnapshot := Time (lb_BlockHeader (bs ! (n - 1)))\<rparr>"]) (simp_all add: snapshotBlock_def assms(1) b0_def bindA_def onStore_ok modifyA_def pureA_def)
  qed
  obtain st3 where st3: "st_Height S (ch_store c2) = (Ok (word_of_nat (length bs)), st3)" "blocks st3 = blocks (ch_store c)" "latest st3 = latest (ch_store c)"
    using height_ok [of "ch_store c2" bs] len c2(2,3) by auto
  have fuel: "length bs - n < unat (word_of_nat (length bs) :: uint64) + 2" using unat_height [of "length bs"] len(1) by simp
  have inv3: "storeInv H (blocks (ch_store (c2\<lparr>ch_store := st3\<rparr>))) (latest (ch_store c)) bs" using inv st3(2) by simp
  obtain s st4 where r: "replay E (unat (word_of_nat (length bs) :: uint64) + 2) (word_of_nat n + 1) (word_of_nat (length bs)) b0
        (case s0 of None \<Rightarrow> Empty | Some s \<Rightarrow> s) (c2\<lparr>ch_store := st3\<rparr>) = (Ok (if n = length bs then b0 else Some (last bs), s), c2\<lparr>ch_store := st4\<rparr>)"
      "snapshotAt H bs (length bs) s" "blocks st4 = chainOf bs" "latest st4 = latest (ch_store c)"
    using replay_ok [OF assms(1,2) inv3 s0(4) fuel, of b0] len(3) st3(2,3) by (auto simp del: replay.simps)
  let ?c4 = "c2\<lparr>ch_store := st4\<rparr>" and ?b = "if bs = [] then None else Some (last bs)"
  have b: "(if n = length bs then b0 else Some (last bs)) = ?b" using len(2) by (auto simp: b0_def last_conv_nth)
  have front: "Recover E c = recommit E ?b s ?c4"
    unfolding Recover_def assms(1)
    by (simp only: prod.case bindA_step [of "onStore (st_LatestSnapshot S)" c, OF onStore_ok [of "st_LatestSnapshot S", OF s0(1)]]
        bindA_step [of "snapshotBlock E (word_of_nat n)", OF c2(1)] bindA_step [of "onStore (st_Height S)" c2, OF onStore_ok [of "st_Height S", OF st3(1)]]
        bindA_step [of "replay E _ _ _ b0 _", OF r(1) [unfolded b]])
  show ?thesis
  proof (cases "bs = []")
    case True
    then have "Recover E c = (Ok (None, s), ?c4)" using front by (simp add: recommit_def pureA_def)
    moreover have "chainInv H (blocks st4) (latest st4) bs ?c4"
      using inv r(3,4) len(3) c2(4,5) True snapshotAt_start [of H bs] by (simp add: chainInv_def chainState_def)
    ultimately show ?thesis using True r(2) by auto
  next
    case False
    then have at: "chainOf bs (word_of_nat (length bs)) = Some (last bs)" using chainOf_nth [of "length bs" bs] len(1) by (simp add: last_conv_nth)
    have h: "lh_Height (lb_BlockHeader (last bs)) = word_of_nat (length bs)"
      using inv False by (simp add: storeInv_def last_conv_nth del: of_nat_Suc)
    obtain w u where "applyChecked H RecoveredRootDiffers (last bs) w = Ok u"
      using n(3) False stateAfter_simps(2) [of H "butlast bs" "last bs"] by (auto simp: snapshotAt_def bindO_Ok_iff simp del: stateAfter_simps)
    then obtain i where "blockHash H (last bs) = (Ok i :: (store_error, Hash) outcome)" using applied_height(2) by blast
    then obtain c' where c': "CommitAppliedBlock E (last bs) s ?c4 = (Ok (), c')" "blocks (ch_store c') = (blocks st4)(word_of_nat (length bs) \<mapsto> last bs)"
        "latest (ch_store c') = latest (ch_store c)" "ch_snapshot c' = Some s" "ch_block c' = Some (last bs)"
        "ch_pendingSnapshots c' \<in> {None, Some (word_of_nat (length bs), s)}"
      using commit_effect [OF assms(1), of ?c4 "last bs" i s] h at r(3,4) c2(5) by auto
    have "blocks (ch_store c') = chainOf bs" unfolding c'(2) r(3) using at by (simp add: fun_upd_idem)
    then have "chainInv H (blocks (ch_store c')) (latest (ch_store c')) bs c'"
      using inv r(2) c'(3,4,6) len(3) by (auto simp: chainInv_def chainState_def)
    with False front c'(1,4,5) r(2) show ?thesis by (auto simp: recommit_def bindA_def pureA_def)
  qed
qed

lemma newChain_ok:
  assumes "env_store E = S" and "storeInv H (blocks st) (latest st) bs"
  shows "\<exists>c st'. NewChain E l i st = (Ok c, st') \<and> ch_height c = word_of_nat (length bs) \<and> ch_snapshot c = None \<and> ch_pendingSnapshots c = None \<and>
    blocks (ch_store c) = blocks st \<and> latest (ch_store c) = latest st"
proof -
  from assms(2) have "blocks st = chainOf bs" "length bs < 2 ^ 64" by (simp_all add: storeInv_def)
  from height_ok [OF this] obtain st' where "st_Height S st = (Ok (word_of_nat (length bs)), st')" "blocks st' = blocks st" "latest st' = latest st"
    by (elim exE conjE)
  then show ?thesis by (simp add: NewChain_def assms(1) mapFail_def)
qed

lemma restart_ok:
  assumes "env_store E = S" and "env_H E = H" and "storeInv H (blocks st) (latest st) bs"
  shows "\<exists>c st' s c'. NewChain E l i st = (Ok c, st') \<and> Recover E c = (Ok (if bs = [] then None else Some (last bs), s), c') \<and>
    snapshotAt H bs (length bs) s \<and> chainInv H (blocks (ch_store c')) (latest (ch_store c')) bs c' \<and>
    (bs \<noteq> [] \<longrightarrow> ch_block c' = Some (last bs) \<and> ch_snapshot c' = Some s)"
proof -
  obtain c st' where c: "NewChain E l i st = (Ok c, st')" "ch_snapshot c = None" "ch_pendingSnapshots c = None" "blocks (ch_store c) = blocks st"
      "latest (ch_store c) = latest st"
    using newChain_ok [OF assms(1,3), of l i] by (elim exE conjE)
  have "storeInv H (blocks (ch_store c)) (latest (ch_store c)) bs" using assms(3) c(4,5) by simp
  from recover_ok [OF assms(1,2) this c(2,3)] c(1) show ?thesis by blast
qed

text \<open>The next block.\<close>

lemma storeInv_next:
  assumes "storeInv H (blocks st) (latest st) bs" and "lh_Height (lb_BlockHeader b) = word_of_nat (Suc (length bs))"
    and "snapshotAt H bs (length bs) s" and "applyChecked H err b s = Ok s'"
  shows "storeInv H ((blocks st)(lh_Height (lb_BlockHeader b) \<mapsto> b)) (latest st) (bs @ [b])"
    and "blocks st (lh_Height (lb_BlockHeader b)) \<in> {None, Some b}"
proof -
  have inv: "blocks st = chainOf bs" "length bs < 2 ^ 63" "\<forall>i < length bs. lh_Height (lb_BlockHeader (bs ! i)) = word_of_nat (Suc i)"
    using assms(1) by (simp_all add: storeInv_def)
  obtain n where n: "snd (latest st) = word_of_nat n" "snapshotAt H bs n (fst (latest st))" using assms(1) unfolding storeInv_def by (elim conjE exE)
  have len: "length (bs @ [b]) < 2 ^ 63" by (rule next_height [OF inv(2) assms(2,4)])
  have "(chainOf bs)(word_of_nat (Suc (length bs)) \<mapsto> b) = chainOf (bs @ [b])" "chainOf bs (word_of_nat (Suc (length bs))) = None"
    using chainOf_snoc(1) [of bs b] chainOf_snoc(2) [of bs] len by simp_all
  moreover have "lh_Height (lb_BlockHeader ((bs @ [b]) ! i)) = word_of_nat (Suc i)" if "i < length (bs @ [b])" for i
    using inv(3) assms(2) that by (auto simp: nth_append less_Suc_eq simp del: of_nat_Suc)
  ultimately show "storeInv H ((blocks st)(lh_Height (lb_BlockHeader b) \<mapsto> b)) (latest st) (bs @ [b])" "blocks st (lh_Height (lb_BlockHeader b)) \<in> {None, Some b}"
    using len n snapshotAt_grow [OF n(2)] snapshotAt_next [OF assms(3,4)] unfolding storeInv_def assms(2) inv(1) by blast+
qed

lemma chainInv_commit:
  assumes "env_store E = S" and "chainInv H (blocks (ch_store c)) (latest (ch_store c)) bs c"
    and "lh_Height (lb_BlockHeader b) = word_of_nat (Suc (length bs))" and "applyChecked H err b (chainState c) = Ok s"
  shows "\<exists>c'. CommitAppliedBlock E b s c = (Ok (), c') \<and> chainInv H (blocks (ch_store c')) (latest (ch_store c')) (bs @ [b]) c'"
proof -
  have inv: "storeInv H (blocks (ch_store c)) (latest (ch_store c)) bs" "snapshotAt H bs (length bs) (chainState c)"
    using assms(2) by (simp_all add: chainInv_def)
  note next_inv = storeInv_next [OF inv(1) assms(3) inv(2) assms(4)]
  obtain i where "blockHash H b = (Ok i :: (store_error, Hash) outcome)" using applied_height(2) [OF assms(4)] by blast
  from commit_effect [OF assms(1) next_inv(2) this, of s]
  obtain c' where c': "CommitAppliedBlock E b s c = (Ok (), c')" "blocks (ch_store c') = (blocks (ch_store c))(lh_Height (lb_BlockHeader b) \<mapsto> b)"
      "latest (ch_store c') = latest (ch_store c)" "ch_snapshot c' = Some s"
      "ch_pendingSnapshots c' \<in> {ch_pendingSnapshots c, Some (lh_Height (lb_BlockHeader b), s)}" by (elim exE conjE)
  have new: "snapshotAt H (bs @ [b]) (Suc (length bs)) s" using snapshotAt_next [OF inv(2) assms(4)] by simp
  have "\<exists>n. k = word_of_nat n \<and> snapshotAt H (bs @ [b]) n t" if p: "ch_pendingSnapshots c' = Some (k, t)" for k t
  proof (cases "ch_pendingSnapshots c = Some (k, t)")
    case True
    then obtain n where "k = word_of_nat n" "snapshotAt H bs n t" using assms(2) unfolding chainInv_def by (elim conjE allE impE exE)
    then show ?thesis using snapshotAt_grow by blast
  next
    case False
    with p c'(5) assms(3) have "k = word_of_nat (Suc (length bs))" "t = s" by auto
    with new show ?thesis by blast
  qed
  then have "chainInv H (blocks (ch_store c')) (latest (ch_store c')) (bs @ [b]) c'"
    using next_inv(1) new c'(2-4) by (simp add: chainInv_def chainState_def)
  with c'(1) show ?thesis by blast
qed

lemma chainInv_save:
  assumes "env_store E = S" and "chainInv H (blocks (ch_store c)) (latest (ch_store c)) bs c"
  shows "chainInv H (blocks (ch_store (savePending E c))) (latest (ch_store (savePending E c))) bs (savePending E c)"
proof (cases "ch_pendingSnapshots c")
  case None
  then show ?thesis using assms(2) by (simp add: savePending_def)
next
  case (Some p)
  obtain k s where p: "p = (k, s)" by (cases p)
  have "\<exists>n. k = word_of_nat n \<and> snapshotAt H bs n s" using assms(2) Some p by (simp add: chainInv_def)
  then obtain n where n: "k = word_of_nat n" "snapshotAt H bs n s" by (elim exE conjE)
  obtain st' where st': "st_SaveSnapshot S k s (ch_store c) = (Ok (), st')" "blocks st' = blocks (ch_store c)" "sameState H (fst (latest st')) s"
      "snd (latest st') = k"
    using snapshot_ok [OF snapshotAt_inv [OF n(2)], of k "ch_store c"] by (elim exE conjE)
  have "storeInv H (blocks st') (latest st') bs"
    using assms(2) st'(2,4) n(1) snapshotAt_same [OF n(2) st'(3)] unfolding chainInv_def storeInv_def by auto
  then show ?thesis using assms st'(1) Some p by (simp add: savePending_def chainInv_def chainState_def)
qed

text \<open>The invariant of a chain's life.\<close>

lemma lives_inv:
  assumes "env_store E = S" and "env_H E = H" and "blocks st0 = chainOf []" and "latest st0 = (Empty, 0)" and "lives E st0 bs c"
  shows "chainInv H (blocks (ch_store c)) (latest (ch_store c)) bs c"
  using assms(5)
proof (induction rule: lives.induct)
  case (start c)
  have "storeInv H (blocks st0) (latest st0) []"
    using assms(3,4) snapshotAt_start [of H "[]"] by (auto simp: storeInv_def intro: exI [of _ 0])
  then show ?case using start snapshotAt_start [of H "[]"] by (simp add: chainInv_def chainState_def)
next
  case (commit bs c b err s c')
  then show ?case using chainInv_commit [OF assms(1) commit.IH commit.hyps(2), of err s] assms(2) by auto
next
  case (save bs c)
  then show ?case by (intro chainInv_save [OF assms(1)])
next
  case (listen bs c h)
  then show ?case by (simp add: setHeight_def chainInv_def chainState_def)
next
  case (validate bs c l)
  then show ?case by (simp add: chainInv_def chainState_def)
next
  case (crash bs c l i c0 st r c')
  then have "storeInv H (blocks (ch_store c)) (latest (ch_store c)) bs" by (simp add: chainInv_def)
  from restart_ok [OF assms(1,2) this, of l i] crash.hyps(2,3) show ?case by auto
next
  case (crash_in_commit bs c b err s st l i c0 st' r c')
  then have inv: "storeInv H (blocks (ch_store c)) (latest (ch_store c)) bs" "snapshotAt H bs (length bs) (chainState c)" by (simp_all add: chainInv_def)
  have a: "applyChecked H err b (chainState c) = Ok s" using crash_in_commit.hyps(3) assms(2) by simp
  note next_inv = storeInv_next [OF inv(1) crash_in_commit.hyps(2) inv(2) a]
  obtain j where "blockHash H b = (Ok j :: (store_error, Hash) outcome)" using applied_height(2) [OF a] by blast
  from save_ok [OF next_inv(2) this] crash_in_commit.hyps(4) assms(1)
  have "blocks st = (blocks (ch_store c))(lh_Height (lb_BlockHeader b) \<mapsto> b)" "latest st = latest (ch_store c)" by auto
  then have "storeInv H (blocks st) (latest st) (bs @ [b])" using next_inv(1) by simp
  from restart_ok [OF assms(1,2) this, of l i] crash_in_commit.hyps(5,6) show ?case by auto
qed

text \<open>Recovery when the last block that was stored does not lead to the root in its header.\<close>

lemma replay_stuck:
  assumes "env_store E = S" and "env_H E = H" and "blocks (ch_store c) = chainOf (bs @ [b])" and "length (bs @ [b]) < 2 ^ 63"
    and "snapshotAt H bs n s" and "snapshotAt H bs (length bs) z" and "wrongRoot H b z" and "length bs - n < fuel"
  shows "\<exists>c'. replay E fuel (word_of_nat n + 1) (word_of_nat (Suc (length bs))) b0 s c = (Fail (RecoveredRootDiffers (lh_Height (lb_BlockHeader b))), c')"
  using assms(3,5,8)
proof (induction fuel arbitrary: n s b0 c)
  case (Suc fuel)
  have n: "n \<le> length bs" using Suc.prems(2) by (simp add: snapshotAt_def)
  have le: "(word_of_nat n + 1 :: uint64) \<le> word_of_nat (Suc (length bs))"
    using unat_height [of "Suc n"] unat_height [of "Suc (length bs)"] assms(4) n by (simp add: word_le_nat_alt add.commute)
  have "blocks (ch_store c) (word_of_nat n + 1) = Some ((bs @ [b]) ! n)" using chainOf_nth [of "Suc n" "bs @ [b]"] n assms(4) Suc.prems(1) by (simp add: add.commute)
  from get_ok [OF this] obtain st1 where st1: "st_GetBlock S (word_of_nat n + 1) (ch_store c) = (Ok ((bs @ [b]) ! n), st1)" "blocks st1 = blocks (ch_store c)"
    by (elim exE conjE)
  show ?case
  proof (cases "n < length bs")
    case True
    from snapshotAt_step [OF Suc.prems(2) True assms(6), of RecoveredRootDiffers]
    obtain s1 where s1: "applyChecked H RecoveredRootDiffers (bs ! n) s = Ok s1" "snapshotAt H bs (Suc n) s1" by (elim exE conjE)
    have "blocks (ch_store (c\<lparr>ch_store := st1\<rparr>)) = chainOf (bs @ [b])" "length bs - Suc n < fuel" using Suc.prems(1,3) st1(2) True by simp_all
    from Suc.IH [OF this(1) s1(2) this(2), of "Some (bs ! n)"] st1(1) s1(1) le True assms(1,2)
    show ?thesis by (auto simp: bindA_def onStore_ok pureA_def nth_append add.commute [of 1])
  next
    case False
    then have "n = length bs" using n by simp
    then have "sameState H z s" using Suc.prems(2) assms(6) by (auto simp: snapshotAt_def intro: sameState_trans sameState_sym)
    then have "applyChecked H RecoveredRootDiffers b s = Fail (RecoveredRootDiffers (lh_Height (lb_BlockHeader b)))"
      by (rule wrongRoot_same [OF _ assms(7)])
    then show ?thesis using st1(1) le assms(1,2) \<open>n = length bs\<close> by (simp add: bindA_def onStore_ok pureA_def)
  qed
qed simp

lemma recover_stuck:
  assumes "env_store E = S" and "env_H E = H" and "storeInv H (blocks st0) (latest st0) bs" and "snapshotAt H bs (length bs) z" and "wrongRoot H b z"
    and "blocks st = chainOf (bs @ [b])" and "latest st = latest st0" and "length (bs @ [b]) < 2 ^ 63"
  shows "\<exists>c st' c'. NewChain E l i st = (Ok c, st') \<and> Recover E c = (Fail (RecoveredRootDiffers (lh_Height (lb_BlockHeader b))), c')"
proof -
  let ?N = "Suc (length bs)"
  from assms(3) obtain n where n: "snd (latest st) = word_of_nat n" "snapshotAt H bs n (fst (latest st))" unfolding storeInv_def assms(7) by (elim conjE exE)
  have len: "n \<le> length bs" using n(2) by (simp add: snapshotAt_def)
  obtain st1 where st1: "st_Height S st = (Ok (word_of_nat ?N), st1)" "blocks st1 = chainOf (bs @ [b])" "latest st1 = latest st"
    using height_ok [of st "bs @ [b]"] assms(6,8) by auto
  obtain c where c: "NewChain E l i st = (Ok c, st1)" "ch_store c = st1" using st1(1) by (simp add: NewChain_def assms(1) mapFail_def)
  obtain s0 st2 where s0: "st_LatestSnapshot S st1 = (Ok (s0, word_of_nat n), st2)" "blocks st2 = blocks st1" "snapshotAt H bs n (case s0 of None \<Rightarrow> Empty | Some s \<Rightarrow> s)"
    using latest_ok [of st1] snapshotAt_inv [OF n(2)] snapshotAt_same [OF n(2)] n(1) st1(3) by auto
  have at: "st_LatestSnapshot S (ch_store c) = (Ok (s0, word_of_nat n), st2)" using s0(1) c(2) by simp
  obtain b0 c2 where c2: "snapshotBlock E (word_of_nat n) (c\<lparr>ch_store := st2\<rparr>) = (Ok b0, c2)" "blocks (ch_store c2) = chainOf (bs @ [b])"
  proof (cases "(word_of_nat n :: uint64) > 0")
    case False
    then show thesis using that [of None "c\<lparr>ch_store := st2\<rparr>"] s0(2) st1(2) by (simp add: snapshotBlock_def pureA_def)
  next
    case True
    then have "0 < n" by (cases n) simp_all
    then have "blocks st2 (word_of_nat n) = Some ((bs @ [b]) ! (n - 1))" using chainOf_nth [of n "bs @ [b]"] len assms(8) s0(2) st1(2) by simp
    from get_ok [OF this] obtain st3 where st3: "st_GetBlock S (word_of_nat n) st2 = (Ok ((bs @ [b]) ! (n - 1)), st3)" "blocks st3 = blocks st2" by (elim exE conjE)
    show thesis using True s0(2) st1(2) st3
      by (intro that [of "Some ((bs @ [b]) ! (n - 1))" "c\<lparr>ch_store := st3, ch_lastQueuedSnapshot := Time (lb_BlockHeader ((bs @ [b]) ! (n - 1)))\<rparr>"])
        (simp_all add: snapshotBlock_def assms(1) bindA_def onStore_ok modifyA_def pureA_def)
  qed
  obtain st4 where st4: "st_Height S (ch_store c2) = (Ok (word_of_nat ?N), st4)" "blocks st4 = chainOf (bs @ [b])"
    using height_ok [of "ch_store c2" "bs @ [b]"] assms(8) c2(2) by auto
  have fuel: "length bs - n < unat (word_of_nat ?N :: uint64) + 2" using unat_height [of ?N] assms(8) by simp
  obtain c' where "replay E (unat (word_of_nat ?N :: uint64) + 2) (word_of_nat n + 1) (word_of_nat ?N) b0
      (case s0 of None \<Rightarrow> Empty | Some s \<Rightarrow> s) (c2\<lparr>ch_store := st4\<rparr>) = (Fail (RecoveredRootDiffers (lh_Height (lb_BlockHeader b))), c')"
    using replay_stuck [OF assms(1,2) _ assms(8) s0(3) assms(4,5) fuel, of "c2\<lparr>ch_store := st4\<rparr>" b0] st4(2) by auto
  then have "Recover E c = (Fail (RecoveredRootDiffers (lh_Height (lb_BlockHeader b))), c')"
    unfolding Recover_def assms(1)
    by (simp only: prod.case bindA_step [of "onStore (st_LatestSnapshot S)" c, OF onStore_ok [of "st_LatestSnapshot S", OF at]]
        bindA_step [of "snapshotBlock E (word_of_nat n)", OF c2(1)] bindA_step [of "onStore (st_Height S)" c2, OF onStore_ok [of "st_Height S", OF st4(1)]])
      (simp add: bindA_def)
  with c(1) show ?thesis by blast
qed

end

section \<open>Properties\<close>

text \<open>
  C3. Recovery restores the chain, with the store in memory and for chains whose blocks apply: after any life of the chain in the sense of \<open>lives\<close>
  that stored the blocks \<open>bs\<close>, restarting on what is in the store and recovering succeeds. It returns the last block and a snapshot equal to the
  state after all blocks, and makes both the state of the chain.
\<close>
theorem recover_restores:
  assumes "env_store E = memStore (env_H E)" and "lives E MemStoreNew bs c" and "bs \<noteq> []"
  shows "\<exists>c0 st s c' t. NewChain E l i (ch_store c) = (Ok c0, st) \<and> Recover E c0 = (Ok (Some (last bs), s), c') \<and>
    stateAfter (env_H E) bs = Ok t \<and> sameState (env_H E) s t \<and> ch_block c' = Some (last bs) \<and> ch_snapshot c' = Some s"
proof -
  have "Mapping.lookup (ms_Blocks MemStoreNew) = chainOf []" "memLatest MemStoreNew = (Empty, 0)"
    by (auto simp: MemStoreNew_def memLatest_def chainOf_def lookup_empty intro!: ext)
  from memstore.lives_inv [OF assms(1) refl this assms(2)]
  have "storeInv (env_H E) (Mapping.lookup (ms_Blocks (ch_store c))) (memLatest (ch_store c)) bs" by (simp add: chainInv_def)
  from memstore.restart_ok [OF assms(1) refl this, of l i] assms(3)
  obtain c0 st s c' where "NewChain E l i (ch_store c) = (Ok c0, st)" "Recover E c0 = (Ok (Some (last bs), s), c')"
      "snapshotAt (env_H E) bs (length bs) s" "ch_block c' = Some (last bs)" "ch_snapshot c' = Some s"
    by auto
  then show ?thesis by (auto simp: snapshotAt_def)
qed

definition firstBlock :: LegacyBlock where
  "firstBlock = sampleBlock\<lparr>lb_BlockHeader := (lb_BlockHeader sampleBlock)\<lparr>lh_Height := 1\<rparr>\<rparr>"

definition blankChain :: "(MemStore, Hash \<Rightarrow> val_error option option) Chain" where
  "blankChain = sampleChain\<lparr>ch_snapshot := None, ch_block := None\<rparr>"

lemma first_applies: "\<exists>s. applyChecked lengthHash (\<lambda>_. ErrBadStateRoot) firstBlock Empty = Ok s \<and> snap_Tree s = None"
proof -
  obtain be where be: "MapBlock lengthHash firstBlock = (Ok be :: (chain_error, Block) outcome)"
    using hashable_maps [of firstBlock] by (auto simp: hashable_def firstBlock_def sampleBlock_def)
  then have "ApplyBlock lengthHash be Empty = (Ok (), PruneNonces (bh_TimestampMs (blk_BlockHeader be)) Empty)"
    by (auto simp: MapBlock_Ok ApplyBlock_def firstBlock_def sampleBlock_def)
  moreover have "bcm_AssetsMerkleRoot (lh_BlockCommitment (lb_BlockHeader firstBlock)) = fst (RootHash lengthHash (snap_Tree (PruneNonces ts Empty)))" for ts
    by (simp add: firstBlock_def sampleBlock_def PruneNonces_def Empty_def RootHash_def)
  ultimately have "applyChecked lengthHash (\<lambda>_. ErrBadStateRoot) firstBlock Empty =
      Ok ((PruneNonces (bh_TimestampMs (blk_BlockHeader be)) Empty)\<lparr>snap_Tree := snd (RootHash lengthHash None)\<rparr>)"
    using be unfolding applyChecked_Ok by (auto simp: PruneNonces_def Empty_def)
  then show ?thesis by (simp add: RootHash_def)
qed

text \<open>A chain that committed the block.\<close>

lemma first_committed:
  "\<exists>c s. lives sampleEnv MemStoreNew [firstBlock] c \<and> ch_snapshot c = Some s \<and> snap_Tree s = None"
proof -
  have E: "env_store sampleEnv = memStore (env_H sampleEnv)" "env_H sampleEnv = lengthHash" by (simp_all add: sampleEnv_def)
  have start: "lives sampleEnv MemStoreNew [] blankChain" by (rule lives.start) (simp_all add: blankChain_def sampleChain_def)
  obtain s where s: "applyChecked (env_H sampleEnv) (\<lambda>_. ErrBadStateRoot) firstBlock (chainState blankChain) = Ok s" "snap_Tree s = None"
    using first_applies by (auto simp: E blankChain_def chainState_def)
  have h: "lh_Height (lb_BlockHeader firstBlock) = word_of_nat (Suc (length ([] :: LegacyBlock list)))" by (simp add: firstBlock_def)
  obtain j where "blockHash lengthHash firstBlock = (Ok j :: (store_error, Hash) outcome)" using applied_height(2) [OF s(1)] E(2) by auto
  then obtain c where c: "CommitAppliedBlock sampleEnv firstBlock s blankChain = (Ok (), c)" "ch_snapshot c = Some s"
    using memstore.commit_effect [OF E(1), of blankChain firstBlock j s] by (auto simp: E blankChain_def sampleChain_def MemStoreNew_def lookup_empty)
  have "lives sampleEnv MemStoreNew ([] @ [firstBlock]) c" by (rule lives.commit [OF start h s(1) c(1)])
  with c(2) s(2) show ?thesis by auto
qed

lemma recover_restores_witness:
  "\<exists>c c0 st s c'. lives sampleEnv MemStoreNew [firstBlock] c \<and> NewChain sampleEnv (\<lambda>_. None) zeroHash (ch_store c) = (Ok c0, st) \<and>
     Recover sampleEnv c0 = (Ok (Some firstBlock, s), c')"
proof -
  have E: "env_store sampleEnv = memStore (env_H sampleEnv)" by (simp add: sampleEnv_def)
  obtain c where "lives sampleEnv MemStoreNew [firstBlock] c" using first_committed by blast
  then show ?thesis using recover_restores [OF E, of "[firstBlock]" c "\<lambda>_. None" zeroHash] by auto
qed

lemma must_not_Fail: "mustWriteForHash vs \<noteq> Fail e"
  by (induction vs) (auto simp: bindO_def split: outcome.splits prod.splits option.splits)

lemma wrongRoot_apply:
  assumes "ApplyValidBlock E b c = Fail ErrBadStateRoot"
  shows "wrongRoot (env_H E) b (chainState c)"
proof -
  obtain s where s: "ch_snapshot c = Some s" using assms by (cases "ch_snapshot c") (simp_all add: ApplyValidBlock_def)
  have "entryID (env_H E) e \<noteq> (Fail ErrBadStateRoot :: (chain_error, Hash) outcome)" for e
    by (auto simp: entryID_def bindO_def must_not_Fail split: outcome.splits option.splits)
  then have "MapBlock (env_H E) b \<noteq> (Fail ErrBadStateRoot :: (chain_error, Block) outcome)"
    by (auto simp: MapBlock_def mapBlockHeader_def Let_def bindO_def split: outcome.splits prod.splits)
  then show ?thesis using assms s
    by (auto simp: ApplyValidBlock_def applyChecked_def bindO_def wrongRoot_def chainState_def split: outcome.splits prod.splits if_splits)
qed

text \<open>
  A generated block that does not lead to the root in its header stops recovery. \<open>commitBlock\<close> of the generator stores the block without
  applying it, and the commit succeeds; when the process restarts, before a snapshot of that state was saved, \<open>Recover\<close> fails.
  The generator can make such blocks (Chain_Generate).
\<close>
lemma unapplied_block_stops_recovery:
  assumes "env_store E = memStore (env_H E)" and "lives E MemStoreNew bs c" and "lh_Height (lb_BlockHeader b) = word_of_nat (Suc (length bs))"
    and "Suc (length bs) < 2 ^ 63" and "ApplyValidBlock E b c = Fail ErrBadStateRoot"
  shows "\<exists>c' c0 st c''. CommitAppliedBlock E b s c = (Ok (), c') \<and> NewChain E l i (ch_store c') = (Ok c0, st) \<and>
    Recover E c0 = (Fail (RecoveredRootDiffers (lh_Height (lb_BlockHeader b))), c'')"
proof -
  have "Mapping.lookup (ms_Blocks MemStoreNew) = chainOf []" "memLatest MemStoreNew = (Empty, 0)"
    by (auto simp: MemStoreNew_def memLatest_def chainOf_def lookup_empty intro!: ext)
  from memstore.lives_inv [OF assms(1) refl this assms(2)]
  have inv: "storeInv (env_H E) (Mapping.lookup (ms_Blocks (ch_store c))) (memLatest (ch_store c)) bs" "snapshotAt (env_H E) bs (length bs) (chainState c)"
    by (simp_all add: chainInv_def)
  have blk: "Mapping.lookup (ms_Blocks (ch_store c)) = chainOf bs" using inv(1) by (simp add: storeInv_def)
  note root = wrongRoot_apply [OF assms(5)]
  then obtain be where "MapBlock (env_H E) b = (Ok be :: (chain_error, Block) outcome)" unfolding wrongRoot_def by (elim exE conjE)
  then obtain j bh where "mapBlockHeader (env_H E) (lb_BlockHeader b) = (Ok (j, bh) :: (chain_error, Hash \<times> BlockHeader) outcome)" by (auto simp: MapBlock_Ok)
  then have "mapBlockHeader (env_H E) (lb_BlockHeader b) = (Ok (j, bh) :: (store_error, Hash \<times> BlockHeader) outcome)" by (rule mapped_header(2))
  then have hash: "blockHash (env_H E) b = (Ok j :: (store_error, Hash) outcome)" by (simp add: blockHash_def)
  have free: "Mapping.lookup (ms_Blocks (ch_store c)) (lh_Height (lb_BlockHeader b)) \<in> {None, Some b}"
    using chainOf_snoc(2) [of bs] assms(3,4) blk by simp
  obtain c' where c': "CommitAppliedBlock E b s c = (Ok (), c')"
      "Mapping.lookup (ms_Blocks (ch_store c')) = (Mapping.lookup (ms_Blocks (ch_store c)))(lh_Height (lb_BlockHeader b) \<mapsto> b)"
      "memLatest (ch_store c') = memLatest (ch_store c)"
    using memstore.commit_effect [OF assms(1) free hash, of s] by (elim exE conjE)
  have "Mapping.lookup (ms_Blocks (ch_store c')) = chainOf (bs @ [b])" using c'(2) blk assms(3,4) chainOf_snoc(1) [of bs b] by simp
  from memstore.recover_stuck [OF assms(1) refl inv root this c'(3), of l i] assms(4) c'(1) show ?thesis by auto
qed

definition badBlock :: LegacyBlock where
  "badBlock = firstBlock\<lparr>lb_BlockHeader := (lb_BlockHeader firstBlock)\<lparr>lh_Height := 2, lh_BlockCommitment :=
     (lh_BlockCommitment (lb_BlockHeader firstBlock))\<lparr>bcm_AssetsMerkleRoot := noData\<rparr>\<rparr>\<rparr>"

lemma bad_rejected:
  assumes "ch_snapshot c = Some s" and "snap_Tree s = None"
  shows "ApplyValidBlock sampleEnv badBlock c = Fail ErrBadStateRoot"
proof -
  obtain be where be: "MapBlock lengthHash badBlock = (Ok be :: (chain_error, Block) outcome)"
    using hashable_maps [of badBlock] by (auto simp: hashable_def badBlock_def firstBlock_def sampleBlock_def)
  then have "ApplyBlock lengthHash be s = (Ok (), PruneNonces (bh_TimestampMs (blk_BlockHeader be)) s)"
    by (auto simp: MapBlock_Ok ApplyBlock_def badBlock_def firstBlock_def sampleBlock_def)
  moreover have "noData \<noteq> zeroHash" by code_simp
  ultimately show ?thesis using be assms
    by (simp add: ApplyValidBlock_def applyChecked_def sampleEnv_def PruneNonces_def RootHash_def badBlock_def)
qed

lemma unapplied_block_stops_recovery_witness:
  "\<exists>c c' c0 st c''. lives sampleEnv MemStoreNew [firstBlock] c \<and> ApplyValidBlock sampleEnv badBlock c = Fail ErrBadStateRoot \<and>
     CommitAppliedBlock sampleEnv badBlock Empty c = (Ok (), c') \<and> NewChain sampleEnv (\<lambda>_. None) zeroHash (ch_store c') = (Ok c0, st) \<and>
     Recover sampleEnv c0 = (Fail (RecoveredRootDiffers 2), c'')"
proof -
  have E: "env_store sampleEnv = memStore (env_H sampleEnv)" by (simp add: sampleEnv_def)
  obtain c s where c: "lives sampleEnv MemStoreNew [firstBlock] c" "ch_snapshot c = Some s" "snap_Tree s = None" using first_committed by blast
  have h: "lh_Height (lb_BlockHeader badBlock) = 2" by (simp add: badBlock_def)
  show ?thesis using unapplied_block_stops_recovery [OF E c(1) _ _ bad_rejected [OF c(2,3)], of Empty "\<lambda>_. None" zeroHash] c(1) bad_rejected [OF c(2,3)] h
    by auto
qed

end
