(* ===== verification/Account_Reserve.thy ===== *)
theory Account_Reserve
  imports State_Snapshot "HOL-Library.AList" "HOL-Library.Multiset"
begin

text \<open>
  The reservation of outputs for spending, \<^verbatim>\<open>core/account/reserve.go\<close>, with the groups of \<^verbatim>\<open>sync/idempotency\<close>. Maps over which the code
  ranges are association lists, and the order of ranging is a parameter. The database is a parameter: it returns the rows of its two
  queries. So are the current state and height of the chain.
\<close>

section \<open>Data\<close>

record source =
  so_AssetID :: AssetID
  so_AccountID :: string

record utxo =
  ut_OutputID :: Hash
  ut_SourceID :: Hash
  ut_AssetID :: AssetID
  ut_Amount :: uint64
  ut_SourcePos :: uint64
  ut_ControlProgram :: bytes
  ut_RefDataHash :: Hash
  ut_AccountID :: string
  ut_ControlProgramIndex :: uint64

definition utxoSource :: "utxo \<Rightarrow> source" where
  "utxoSource u = \<lparr>so_AssetID = ut_AssetID u, so_AccountID = ut_AccountID u\<rparr>"

record reservation =
  rs_ID :: uint64
  rs_Source :: source
  rs_UTXOs :: "utxo list"
  rs_Change :: uint64
  rs_Expiry :: int
  rs_ClientToken :: "string option"

record sourceReserver =
  sr_src :: source
  sr_cached :: "(Hash \<times> utxo) list"
  sr_reserved :: "Hash \<Rightarrow> uint64 option"
  sr_lastHeight :: uint64

record reserver =
  re_nextReservationID :: uint64
  re_idempotency :: "string \<Rightarrow> reservation option option"
  re_reservations :: "(uint64 \<times> reservation) list"
  re_sources :: "source \<Rightarrow> sourceReserver option"

datatype reserve_error = ErrInsufficient | ErrReserved | ErrUserInputNotFound | DatabaseError string | NoReservation uint64

text \<open>A row of the table of outputs without the columns that the query fixes.\<close>

record utxoRow =
  row_amount :: uint64
  row_cpIndex :: uint64
  row_controlProg :: bytes
  row_sourceID :: Hash
  row_sourcePos :: uint64
  row_refData :: Hash

record world =
  wo_H :: "bytes \<Rightarrow> bytes"
  wo_snapshot :: "Snapshot option"
  wo_height :: uint64
  wo_rowsOf :: "source \<Rightarrow> uint64 \<Rightarrow> string + (Hash \<times> utxoRow) list"
  wo_row :: "Hash \<Rightarrow> string + (source \<times> utxoRow) option"
  wo_order :: "(Hash \<times> utxo) list \<Rightarrow> (Hash \<times> utxo) list"
  wo_now :: int

section \<open>The database\<close>

definition fromRow :: "source \<Rightarrow> Hash \<Rightarrow> utxoRow \<Rightarrow> utxo" where
  "fromRow src oid r = \<lparr>ut_OutputID = oid, ut_SourceID = row_sourceID r, ut_AssetID = so_AssetID src, ut_Amount = row_amount r,
     ut_SourcePos = row_sourcePos r, ut_ControlProgram = row_controlProg r, ut_RefDataHash = row_refData r, ut_AccountID = so_AccountID src,
     ut_ControlProgramIndex = row_cpIndex r\<rparr>"

definition findMatchingUTXOs :: "world \<Rightarrow> source \<Rightarrow> uint64 \<Rightarrow> (reserve_error, utxo list) outcome" where
  "findMatchingUTXOs w src height = (case wo_rowsOf w src height of Inl e \<Rightarrow> Fail (DatabaseError e)
     | Inr rows \<Rightarrow> Ok (map (\<lambda>(oid, r). fromRow src oid r) rows))"

definition findSpecificUTXO :: "world \<Rightarrow> Hash \<Rightarrow> (reserve_error, utxo) outcome" where
  "findSpecificUTXO w out = (case wo_row w out of Inl e \<Rightarrow> Fail (DatabaseError e)
     | Inr None \<Rightarrow> Fail ErrUserInputNotFound
     | Inr (Some (src, r)) \<Rightarrow> Ok (fromRow src out r))"

section \<open>The reserver of a source\<close>

text \<open>Whether the output is in the state of the chain; without a state the code follows a nil pointer.\<close>

definition checkUTXO :: "world \<Rightarrow> utxo \<Rightarrow> ('e, bool) outcome" where
  "checkUTXO w u = bindO (deref (wo_snapshot w)) (\<lambda>s. case Contains (wo_H w) (snap_Tree s) (Byte32 (ut_OutputID u)) of
     TOk b \<Rightarrow> Ok b | _ \<Rightarrow> Crash)"

text \<open>The loop over the cached outputs, with the amounts so far and the outputs picked; it removes spent outputs from the cache.\<close>

primrec pickUTXOs :: "world \<Rightarrow> (Hash \<Rightarrow> uint64 option) \<Rightarrow> uint64 \<Rightarrow> (Hash \<times> utxo) list \<Rightarrow> uint64 \<Rightarrow> uint64 \<Rightarrow> utxo list \<Rightarrow>
    ((Hash \<times> utxo) list, reserve_error, uint64 \<times> uint64 \<times> utxo list) action" where
  "pickUTXOs w rsv amount [] reserved unavailable us = pureA (Ok (reserved, unavailable, us))"
| "pickUTXOs w rsv amount (ou # rest) reserved unavailable us =
     (case ou of (oid, u) \<Rightarrow>
        if rsv (ut_OutputID u) \<noteq> None then pickUTXOs w rsv amount rest reserved (unavailable + ut_Amount u) us
        else bindA (pureA (checkUTXO w u)) (\<lambda>valid.
          if \<not> valid then (\<lambda>cs. pickUTXOs w rsv amount rest reserved unavailable us (AList.delete oid cs))
          else if reserved + ut_Amount u \<ge> amount then pureA (Ok (reserved + ut_Amount u, unavailable, us @ [u]))
          else pickUTXOs w rsv amount rest (reserved + ut_Amount u) unavailable (us @ [u])))"

definition reserveFromCache :: "world \<Rightarrow> uint64 \<Rightarrow> uint64 \<Rightarrow> (sourceReserver, reserve_error, utxo list \<times> uint64) action" where
  "reserveFromCache w rid amount sr =
     (case pickUTXOs w (sr_reserved sr) amount (wo_order w (sr_cached sr)) 0 0 [] (sr_cached sr) of
        (Ok (reserved, unavailable, us), cs) \<Rightarrow>
          let sr = sr\<lparr>sr_cached := cs\<rparr> in
          if reserved + unavailable < amount then (Fail ErrInsufficient, sr)
          else if reserved < amount then (Fail ErrReserved, sr)
          else (Ok (us, reserved), sr\<lparr>sr_reserved := (\<lambda>h. if h \<in> ut_OutputID ` set us then Some rid else sr_reserved sr h)\<rparr>)
      | (Fail e, cs) \<Rightarrow> (Fail e, sr\<lparr>sr_cached := cs\<rparr>)
      | (Crash, cs) \<Rightarrow> (Crash, sr\<lparr>sr_cached := cs\<rparr>)
      | (Diverge, cs) \<Rightarrow> (Diverge, sr\<lparr>sr_cached := cs\<rparr>))"

definition srReserveUTXO :: "uint64 \<Rightarrow> utxo \<Rightarrow> (sourceReserver, reserve_error, unit) action" where
  "srReserveUTXO rid u sr = (if sr_reserved sr (ut_OutputID u) \<noteq> None then (Fail ErrReserved, sr)
     else (Ok (), sr\<lparr>sr_reserved := (sr_reserved sr)(ut_OutputID u \<mapsto> rid)\<rparr>))"

definition srCancel :: "reservation \<Rightarrow> sourceReserver \<Rightarrow> sourceReserver" where
  "srCancel res sr = sr\<lparr>sr_reserved := (\<lambda>h. if h \<in> ut_OutputID ` set (rs_UTXOs res) then None else sr_reserved sr h)\<rparr>"

text \<open>The second half of \<open>refillCache\<close>, after the query.\<close>

definition fillCache :: "uint64 \<Rightarrow> utxo list \<Rightarrow> sourceReserver \<Rightarrow> sourceReserver" where
  "fillCache curHeight utxos sr = sr\<lparr>sr_lastHeight := max curHeight (sr_lastHeight sr),
     sr_cached := fold (\<lambda>u. AList.update (ut_OutputID u) u) utxos (sr_cached sr)\<rparr>"

definition refillCache :: "world \<Rightarrow> (sourceReserver, reserve_error, unit) action" where
  "refillCache w sr = (if sr_lastHeight sr \<ge> wo_height w then (Ok (), sr)
     else (case findMatchingUTXOs w (sr_src sr) (sr_lastHeight sr) of
         Ok utxos \<Rightarrow> (Ok (), fillCache (wo_height w) utxos sr)
       | Fail e \<Rightarrow> (Fail e, sr) | Crash \<Rightarrow> (Crash, sr) | Diverge \<Rightarrow> (Diverge, sr)))"

definition srReserve :: "world \<Rightarrow> uint64 \<Rightarrow> uint64 \<Rightarrow> (sourceReserver, reserve_error, utxo list \<times> uint64) action" where
  "srReserve w rid amount sr = (case reserveFromCache w rid amount sr of
       (Fail _, sr') \<Rightarrow> bindA (refillCache w) (\<lambda>_. reserveFromCache w rid amount) sr'
     | r \<Rightarrow> r)"

section \<open>The reserver\<close>

definition sourceOf :: "source \<Rightarrow> reserver \<Rightarrow> sourceReserver" where
  "sourceOf src re = (case re_sources re src of Some sr \<Rightarrow> sr
     | None \<Rightarrow> \<lparr>sr_src = src, sr_cached = [], sr_reserved = \<lambda>_. None, sr_lastHeight = 0\<rparr>)"

text \<open>An action on the reserver of a source, which is created if there is none.\<close>

definition atSource :: "source \<Rightarrow> (sourceReserver, 'e, 'a) action \<Rightarrow> (reserver, 'e, 'a) action" where
  "atSource src m re = (case m (sourceOf src re) of (r, sr) \<Rightarrow> (r, re\<lparr>re_sources := (re_sources re)(src \<mapsto> sr)\<rparr>))"

definition newReserver :: reserver where
  "newReserver = \<lparr>re_nextReservationID = 0, re_idempotency = \<lambda>_. None, re_reservations = [], re_sources = \<lambda>_. None\<rparr>"

definition nextID :: "(reserver, reserve_error, uint64) action" where
  "nextID re = (Ok (re_nextReservationID re + 1), re\<lparr>re_nextReservationID := re_nextReservationID re + 1\<rparr>)"

definition saveReservation :: "reservation \<Rightarrow> reserver \<Rightarrow> reserver" where
  "saveReservation res re = re\<lparr>re_reservations := AList.update (rs_ID res) res (re_reservations re)\<rparr>"

definition reserve :: "world \<Rightarrow> source \<Rightarrow> uint64 \<Rightarrow> string option \<Rightarrow> int \<Rightarrow> (reserver, reserve_error, reservation) action" where
  "reserve w src amount clientToken exp =
     bindA nextID (\<lambda>rid.
     bindA (atSource src (srReserve w rid amount)) (\<lambda>(us, total) re.
       let res = \<lparr>rs_ID = rid, rs_Source = src, rs_UTXOs = us, rs_Change = (if total > amount then total - amount else 0), rs_Expiry = exp,
         rs_ClientToken = clientToken\<rparr>
       in (Ok res, saveReservation res re)))"

definition reserveUTXO :: "world \<Rightarrow> Hash \<Rightarrow> int \<Rightarrow> string option \<Rightarrow> (reserver, reserve_error, reservation) action" where
  "reserveUTXO w out exp clientToken =
     bindA (pureA (findSpecificUTXO w out)) (\<lambda>u.
     bindA (pureA (checkUTXO w u)) (\<lambda>valid.
     if \<not> valid then pureA (Fail ErrUserInputNotFound)
     else bindA nextID (\<lambda>rid.
     bindA (atSource (utxoSource u) (srReserveUTXO rid u)) (\<lambda>_ re.
       let res = \<lparr>rs_ID = rid, rs_Source = utxoSource u, rs_UTXOs = [u], rs_Change = 0, rs_Expiry = exp, rs_ClientToken = clientToken\<rparr>
       in (Ok res, saveReservation res re)))))"

text \<open>
  A group runs a function once per key until the key is forgotten. A key is entered before the function runs, without a result (\<open>Some None\<close>); a success
  is kept, a failure removes the key. A panic leaves the key as it is, and callers that come later wait for a result that never comes.
\<close>

definition Once :: "string \<Rightarrow> (reserver, 'e, reservation) action \<Rightarrow> (reserver, 'e, reservation) action" where
  "Once key fn re = (case re_idempotency re key of
       Some (Some res) \<Rightarrow> (Ok res, re)
     | Some None \<Rightarrow> (Diverge, re)
     | None \<Rightarrow> (case fn (re\<lparr>re_idempotency := (re_idempotency re)(key \<mapsto> None)\<rparr>) of
           (Ok res, re') \<Rightarrow> (Ok res, re'\<lparr>re_idempotency := (re_idempotency re')(key \<mapsto> Some res)\<rparr>)
         | (Fail e, re') \<Rightarrow> (Fail e, re'\<lparr>re_idempotency := (re_idempotency re')(key := None)\<rparr>)
         | r \<Rightarrow> r))"

definition Forget :: "string option \<Rightarrow> reserver \<Rightarrow> reserver" where
  "Forget key re = (case key of None \<Rightarrow> re | Some k \<Rightarrow> re\<lparr>re_idempotency := (re_idempotency re)(k := None)\<rparr>)"

definition Reserve :: "world \<Rightarrow> source \<Rightarrow> uint64 \<Rightarrow> string option \<Rightarrow> int \<Rightarrow> (reserver, reserve_error, reservation) action" where
  "Reserve w src amount clientToken exp = (case clientToken of None \<Rightarrow> reserve w src amount clientToken exp
     | Some k \<Rightarrow> Once k (reserve w src amount clientToken exp))"

definition ReserveUTXO :: "world \<Rightarrow> Hash \<Rightarrow> string option \<Rightarrow> int \<Rightarrow> (reserver, reserve_error, reservation) action" where
  "ReserveUTXO w out clientToken exp = (case clientToken of None \<Rightarrow> reserveUTXO w out exp None
     | Some k \<Rightarrow> Once k (reserveUTXO w out exp clientToken))"

text \<open>The end of a reservation that is no longer in the table.\<close>

definition release :: "reservation \<Rightarrow> reserver \<Rightarrow> reserver" where
  "release res re = Forget (rs_ClientToken res) (re\<lparr>re_sources := (re_sources re)(rs_Source res \<mapsto> srCancel res (sourceOf (rs_Source res) re))\<rparr>)"

definition Cancel :: "uint64 \<Rightarrow> (reserver, reserve_error, unit) action" where
  "Cancel rid re = (let re' = re\<lparr>re_reservations := AList.delete rid (re_reservations re)\<rparr> in
     case map_of (re_reservations re) rid of None \<Rightarrow> (Fail (NoReservation rid), re') | Some res \<Rightarrow> (Ok (), release res re'))"

definition ExpireReservations :: "world \<Rightarrow> reserver \<Rightarrow> reserver" where
  "ExpireReservations w re =
     (let old = \<lambda>(rid, res). rs_Expiry res < wo_now w;
          canceled = map snd (filter old (re_reservations re))
      in fold release canceled (re\<lparr>re_reservations := filter (\<lambda>x. \<not> old x) (re_reservations re)\<rparr>))"

end
