(* ===== verification/Account_Disjoint.thy ===== *)
theory Account_Disjoint
  imports Account_Reserve "HOL-Library.Sublist"
begin

text \<open>
  Reservations under concurrency. The steps are the sections of the code that run under one lock; between them other goroutines may run.
\<close>

section \<open>Steps\<close>

text \<open>
  Besides the reserver: the reservations made but not yet entered in the table, and those taken out of the table whose outputs are not
  released yet.
\<close>

record reserving =
  ry_reserver :: reserver
  ry_held :: "reservation list"
  ry_doomed :: "reservation list"

text \<open>The table of outputs has one row per output, so that an output has one account and asset; ranging over a map visits each entry once.\<close>

definition worldOK :: "(Hash \<Rightarrow> source) \<Rightarrow> world \<Rightarrow> bool" where
  "worldOK owner w \<longleftrightarrow> (\<forall>src h rows. wo_rowsOf w src h = Inr rows \<longrightarrow> (\<forall>x \<in> set rows. owner (fst x) = src)) \<and>
     (\<forall>h src r. wo_row w h = Inr (Some (src, r)) \<longrightarrow> owner h = src) \<and> (\<forall>xs. mset (wo_order w xs) = mset xs)"

inductive reserveStep :: "(Hash \<Rightarrow> source) \<Rightarrow> reserving \<Rightarrow> reserving \<Rightarrow> bool" for owner where
  pick: "worldOK owner w \<Longrightarrow> atSource src (reserveFromCache w rid amount) re = (Ok (us, amt), re') \<Longrightarrow> rs_Source res = src \<Longrightarrow> rs_UTXOs res = us \<Longrightarrow>
    reserveStep owner \<lparr>ry_reserver = re, ry_held = held, ry_doomed = doomed\<rparr> \<lparr>ry_reserver = re', ry_held = res # held, ry_doomed = doomed\<rparr>"
| pick_none: "worldOK owner w \<Longrightarrow> atSource src (reserveFromCache w rid amount) re = (r, re') \<Longrightarrow> (\<forall>x. r \<noteq> Ok x) \<Longrightarrow>
    reserveStep owner \<lparr>ry_reserver = re, ry_held = held, ry_doomed = doomed\<rparr> \<lparr>ry_reserver = re', ry_held = held, ry_doomed = doomed\<rparr>"
| pick_one: "worldOK owner w \<Longrightarrow> findSpecificUTXO w out = Ok u \<Longrightarrow> atSource (utxoSource u) (srReserveUTXO rid u) re = (Ok (), re') \<Longrightarrow>
    rs_Source res = utxoSource u \<Longrightarrow> rs_UTXOs res = [u] \<Longrightarrow>
    reserveStep owner \<lparr>ry_reserver = re, ry_held = held, ry_doomed = doomed\<rparr> \<lparr>ry_reserver = re', ry_held = res # held, ry_doomed = doomed\<rparr>"
| taken: "atSource (utxoSource u) (srReserveUTXO rid u) re = (Fail e, re') \<Longrightarrow>
    reserveStep owner \<lparr>ry_reserver = re, ry_held = held, ry_doomed = doomed\<rparr> \<lparr>ry_reserver = re', ry_held = held, ry_doomed = doomed\<rparr>"
| refill: "worldOK owner w \<Longrightarrow> findMatchingUTXOs w src h = Ok us \<Longrightarrow> re' = re\<lparr>re_sources := (re_sources re)(src \<mapsto> fillCache h' us (sourceOf src re))\<rparr> \<Longrightarrow>
    reserveStep owner \<lparr>ry_reserver = re, ry_held = held, ry_doomed = doomed\<rparr> \<lparr>ry_reserver = re', ry_held = held, ry_doomed = doomed\<rparr>"
| count: "reserveStep owner \<lparr>ry_reserver = re, ry_held = held, ry_doomed = doomed\<rparr> \<lparr>ry_reserver = snd (nextID re), ry_held = held, ry_doomed = doomed\<rparr>"
| once: "reserveStep owner \<lparr>ry_reserver = re, ry_held = held, ry_doomed = doomed\<rparr> \<lparr>ry_reserver = re\<lparr>re_idempotency := f\<rparr>, ry_held = held, ry_doomed = doomed\<rparr>"
| save: "reserveStep owner \<lparr>ry_reserver = re, ry_held = held1 @ res # held2, ry_doomed = doomed\<rparr>
    \<lparr>ry_reserver = saveReservation res re, ry_held = held1 @ held2, ry_doomed = doomed\<rparr>"
| remove: "map_of (re_reservations re) rid = Some res \<Longrightarrow>
    reserveStep owner \<lparr>ry_reserver = re, ry_held = held, ry_doomed = doomed\<rparr>
      \<lparr>ry_reserver = re\<lparr>re_reservations := AList.delete rid (re_reservations re)\<rparr>, ry_held = held, ry_doomed = res # doomed\<rparr>"
| expire: "reserveStep owner \<lparr>ry_reserver = re, ry_held = held, ry_doomed = doomed\<rparr>
    \<lparr>ry_reserver = re\<lparr>re_reservations := filter (\<lambda>x. \<not> old x) (re_reservations re)\<rparr>, ry_held = held,
     ry_doomed = map snd (filter old (re_reservations re)) @ doomed\<rparr>"
| free: "reserveStep owner \<lparr>ry_reserver = re, ry_held = held, ry_doomed = doomed1 @ res # doomed2\<rparr>
    \<lparr>ry_reserver = release res re, ry_held = held, ry_doomed = doomed1 @ doomed2\<rparr>"

section \<open>The invariant\<close>

definition outputIDs :: "reservation \<Rightarrow> Hash list" where
  "outputIDs res = map ut_OutputID (rs_UTXOs res)"

definition live :: "reserving \<Rightarrow> reservation list" where
  "live y = ry_held y @ map snd (re_reservations (ry_reserver y)) @ ry_doomed y"

text \<open>Cached outputs are stored under their ID and belong to the source.\<close>

definition cacheOK :: "(Hash \<Rightarrow> source) \<Rightarrow> source \<Rightarrow> (Hash \<times> utxo) list \<Rightarrow> bool" where
  "cacheOK owner src cs \<longleftrightarrow> distinct (map fst cs) \<and> (\<forall>(oid, u) \<in> set cs. ut_OutputID u = oid \<and> utxoSource u = src \<and> owner oid = src)"

definition reservedBy :: "(Hash \<Rightarrow> source) \<Rightarrow> reserver \<Rightarrow> reservation \<Rightarrow> bool" where
  "reservedBy owner re res \<longleftrightarrow> (\<forall>h \<in> set (outputIDs res). owner h = rs_Source res \<and> sr_reserved (sourceOf (rs_Source res) re) h \<noteq> None)"

definition reservingInv :: "(Hash \<Rightarrow> source) \<Rightarrow> reserving \<Rightarrow> bool" where
  "reservingInv owner y \<longleftrightarrow> distinct (concat (map outputIDs (live y))) \<and> (\<forall>res \<in> set (live y). reservedBy owner (ry_reserver y) res) \<and>
     (\<forall>src. cacheOK owner src (sr_cached (sourceOf src (ry_reserver y))) \<and> sr_src (sourceOf src (ry_reserver y)) = src)"

lemma sourceOf_upd [simp]: "sourceOf s (re\<lparr>re_sources := (re_sources re)(src \<mapsto> sr)\<rparr>) = (if s = src then sr else sourceOf s re)"
  by (simp add: sourceOf_def)

lemma sourceOf_frame [simp]:
  "sourceOf s (re\<lparr>re_nextReservationID := n\<rparr>) = sourceOf s re" "sourceOf s (re\<lparr>re_idempotency := f\<rparr>) = sourceOf s re"
  "sourceOf s (re\<lparr>re_reservations := rs\<rparr>) = sourceOf s re"
  by (simp_all add: sourceOf_def)

lemma atSource_eq:
  "atSource src m re = (r, re') \<longleftrightarrow> (\<exists>sr. m (sourceOf src re) = (r, sr) \<and> re' = re\<lparr>re_sources := (re_sources re)(src \<mapsto> sr)\<rparr>)"
  by (auto simp: atSource_def split: prod.splits)

text \<open>The loop picks outputs of the cache that are not reserved, each once, and only removes from the cache.\<close>

definition picked :: "world \<Rightarrow> (Hash \<Rightarrow> uint64 option) \<Rightarrow> (Hash \<times> utxo) list \<Rightarrow> utxo list \<Rightarrow> bool" where
  "picked w rsv xs new \<longleftrightarrow> (\<exists>ps. new = map snd ps \<and> subseq ps xs \<and>
     (\<forall>p \<in> set ps. rsv (ut_OutputID (snd p)) = None \<and> checkUTXO w (snd p) = (Ok True :: (reserve_error, bool) outcome)))"

lemma picked_none: "picked w rsv xs []"
  by (simp add: picked_def)

lemma picked_skip: "picked w rsv xs new \<Longrightarrow> picked w rsv (p # xs) new"
  unfolding picked_def by (elim exE conjE) (rule exI, intro conjI, assumption, erule list_emb_Cons, assumption)

lemma picked_take:
  assumes "picked w rsv xs new" and "rsv (ut_OutputID u) = None" and "checkUTXO w u = (Ok True :: (reserve_error, bool) outcome)"
  shows "picked w rsv ((oid, u) # xs) (u # new)"
proof -
  from assms(1) obtain ps where "new = map snd ps" "subseq ps xs"
      "\<forall>p \<in> set ps. rsv (ut_OutputID (snd p)) = None \<and> checkUTXO w (snd p) = (Ok True :: (reserve_error, bool) outcome)"
    unfolding picked_def by (elim exE conjE)
  with assms(2,3) show ?thesis unfolding picked_def by (intro exI [of _ "(oid, u) # ps"]) simp
qed

lemma pickUTXOs_sound:
  assumes "pickUTXOs w rsv amount xs reserved unavailable us cs = (r, cs')"
  shows "set cs' \<subseteq> set cs \<and> (distinct (map fst cs) \<longrightarrow> distinct (map fst cs')) \<and>
    (\<forall>a b us'. r = Ok (a, b, us') \<longrightarrow> (\<exists>new. us' = us @ new \<and> picked w rsv xs new))"
  using assms
proof (induction xs arbitrary: reserved unavailable us cs)
  case Nil
  then show ?case using picked_none [of w rsv "[]"] by (auto simp: pureA_def)
next
  case (Cons p xs)
  obtain oid u where p: "p = (oid, u)" by (cases p)
  have skip: "\<exists>new. us' = us @ new \<and> picked w rsv (p # xs) new" if "\<exists>new. us' = us @ new \<and> picked w rsv xs new" for us'
    using that picked_skip by blast
  show ?case
  proof (cases "rsv (ut_OutputID u) = None")
    case False
    then have "pickUTXOs w rsv amount xs reserved (unavailable + ut_Amount u) us cs = (r, cs')" using Cons.prems by (simp add: p)
    from Cons.IH [OF this] skip show ?thesis by blast
  next
    case free: True
    show ?thesis
    proof (cases "checkUTXO w u :: (reserve_error, bool) outcome")
      case (Ok v)
      show ?thesis
      proof (cases v)
        case False
        with Ok free Cons.prems have r: "pickUTXOs w rsv amount xs reserved unavailable us (AList.delete oid cs) = (r, cs')"
          by (simp add: p bindA_def pureA_def)
        have "set (AList.delete oid cs) \<subseteq> set cs" "distinct (map fst cs) \<longrightarrow> distinct (map fst (AList.delete oid cs))"
          by (auto simp: AList.delete_eq distinct_map_filter)
        with Cons.IH [OF r] skip show ?thesis by blast
      next
        case True
        show ?thesis
        proof (cases "reserved + ut_Amount u \<ge> amount")
          case enough: True
          with True Ok free Cons.prems have "r = Ok (reserved + ut_Amount u, unavailable, us @ [u])" "cs' = cs" by (simp_all add: p bindA_def pureA_def)
          with True Ok free picked_take [OF picked_none] show ?thesis by (simp add: p)
        next
          case False
          with True Ok free Cons.prems have r: "pickUTXOs w rsv amount xs (reserved + ut_Amount u) unavailable (us @ [u]) cs = (r, cs')"
            by (simp add: p bindA_def pureA_def)
          have "\<exists>new. us' = us @ new \<and> picked w rsv (p # xs) new" if "\<exists>new. us' = (us @ [u]) @ new \<and> picked w rsv xs new" for us'
          proof -
            from that obtain new where "us' = us @ (u # new)" "picked w rsv xs new" by auto
            moreover have "picked w rsv (p # xs) (u # new)"
              unfolding p by (rule picked_take [OF calculation(2) free]) (simp add: Ok True)
            ultimately show ?thesis by (intro exI conjI)
          qed
          with Cons.IH [OF r] show ?thesis by blast
        qed
      qed
    qed (use Cons.prems free in \<open>auto simp: p bindA_def pureA_def\<close>)
  qed
qed

lemma distinct_subseq: "subseq xs ys \<Longrightarrow> distinct ys \<Longrightarrow> distinct xs"
  by (induction rule: list_emb.induct) (auto dest: list_emb_set)

lemma cacheOK_less: "cacheOK owner src cs \<Longrightarrow> set cs' \<subseteq> set cs \<Longrightarrow> distinct (map fst cs') \<Longrightarrow> cacheOK owner src cs'"
  by (auto simp: cacheOK_def)

lemma cacheOK_picked:
  assumes "cacheOK owner src cs" and "mset xs = mset cs" and "picked w rsv xs us"
  shows "distinct (map ut_OutputID us)" and "\<forall>u \<in> set us. rsv (ut_OutputID u) = None \<and> owner (ut_OutputID u) = src \<and> utxoSource u = src"
proof -
  from assms(3) obtain ps where ps: "us = map snd ps" "subseq ps xs" "\<forall>p \<in> set ps. rsv (ut_OutputID (snd p)) = None" by (auto simp: picked_def)
  have "mset (map fst xs) = mset (map fst cs)" using assms(2) by simp
  from mset_eq_imp_distinct_iff [OF this] mset_eq_setD [OF assms(2)] assms(1) have xs: "set xs = set cs" "distinct (map fst xs)"
    by (simp_all add: cacheOK_def)
  have sub: "set ps \<subseteq> set cs" using list_emb_set [OF ps(2)] xs(1) by blast
  have ok: "ut_OutputID (snd p) = fst p \<and> utxoSource (snd p) = src \<and> owner (fst p) = src" if "p \<in> set ps" for p
    using sub assms(1) that unfolding cacheOK_def split_beta by blast
  then have "map ut_OutputID us = map fst ps" by (simp add: ps(1))
  moreover have "distinct (map fst ps)" using subseq_map [OF ps(2), of fst] xs(2) by (rule distinct_subseq)
  ultimately show "distinct (map ut_OutputID us)" by simp
  show "\<forall>u \<in> set us. rsv (ut_OutputID u) = None \<and> owner (ut_OutputID u) = src \<and> utxoSource u = src"
    using ok ps(1,3) by auto
qed

lemma reserveFromCache_sound:
  assumes "cacheOK owner src (sr_cached sr)" and "worldOK owner w" and "reserveFromCache w rid amount sr = (r, sr')"
  shows "cacheOK owner src (sr_cached sr')" and "sr_src sr' = sr_src sr"
    and "\<forall>us a. r = Ok (us, a) \<longrightarrow> distinct (map ut_OutputID us) \<and> (\<forall>u \<in> set us. sr_reserved sr (ut_OutputID u) = None \<and> owner (ut_OutputID u) = src \<and> utxoSource u = src) \<and>
      sr_reserved sr' = (\<lambda>h. if h \<in> ut_OutputID ` set us then Some rid else sr_reserved sr h)"
    and "(\<forall>x. r \<noteq> Ok x) \<Longrightarrow> sr_reserved sr' = sr_reserved sr"
proof -
  obtain q cs where q: "pickUTXOs w (sr_reserved sr) amount (wo_order w (sr_cached sr)) 0 0 [] (sr_cached sr) = (q, cs)" by fastforce
  have perm: "mset (wo_order w (sr_cached sr)) = mset (sr_cached sr)" using assms(2) by (simp add: worldOK_def)
  have s: "set cs \<subseteq> set (sr_cached sr)" "distinct (map fst cs)" "\<And>a b us. q = Ok (a, b, us) \<Longrightarrow> picked w (sr_reserved sr) (wo_order w (sr_cached sr)) us"
    using pickUTXOs_sound [OF q] assms(1) by (auto simp: cacheOK_def)
  have cs: "cacheOK owner src cs" by (rule cacheOK_less [OF assms(1) s(1,2)])
  have r: "sr_cached sr' = cs \<and> sr_src sr' = sr_src sr" using assms(3) unfolding reserveFromCache_def q
    by (auto simp: Let_def split: outcome.splits if_splits)
  with cs show "cacheOK owner src (sr_cached sr')" "sr_src sr' = sr_src sr" by simp_all
  show "sr_reserved sr' = sr_reserved sr" if "\<forall>x. r \<noteq> Ok x"
    using assms(3) that unfolding reserveFromCache_def q by (auto simp: Let_def split: outcome.splits if_splits)
  show "\<forall>us a. r = Ok (us, a) \<longrightarrow> distinct (map ut_OutputID us) \<and> (\<forall>u \<in> set us. sr_reserved sr (ut_OutputID u) = None \<and> owner (ut_OutputID u) = src \<and> utxoSource u = src) \<and>
      sr_reserved sr' = (\<lambda>h. if h \<in> ut_OutputID ` set us then Some rid else sr_reserved sr h)"
  proof (intro allI impI)
    fix us a assume "r = Ok (us, a)"
    with assms(3) obtain b c where "q = Ok (b, c, us)" "sr_reserved sr' = (\<lambda>h. if h \<in> ut_OutputID ` set us then Some rid else sr_reserved sr h)"
      unfolding reserveFromCache_def q by (auto simp: Let_def fun_eq_iff split: outcome.splits if_splits)
    with cacheOK_picked [OF assms(1) perm s(3)] show "distinct (map ut_OutputID us) \<and>
        (\<forall>u \<in> set us. sr_reserved sr (ut_OutputID u) = None \<and> owner (ut_OutputID u) = src \<and> utxoSource u = src) \<and>
        sr_reserved sr' = (\<lambda>h. if h \<in> ut_OutputID ` set us then Some rid else sr_reserved sr h)" by blast
  qed
qed

section \<open>Preservation\<close>

text \<open>A new reservation of outputs that its source had not reserved.\<close>

lemma inv_hold:
  assumes "reservingInv owner \<lparr>ry_reserver = re, ry_held = held, ry_doomed = doomed\<rparr>"
    and "distinct (outputIDs res)" and "\<forall>h \<in> set (outputIDs res). owner h = rs_Source res \<and> sr_reserved (sourceOf (rs_Source res) re) h = None"
    and "sr_reserved sr' = (\<lambda>h. if h \<in> set (outputIDs res) then Some rid else sr_reserved (sourceOf (rs_Source res) re) h)"
    and "cacheOK owner (rs_Source res) (sr_cached sr')" and "sr_src sr' = rs_Source res"
  shows "reservingInv owner \<lparr>ry_reserver = re\<lparr>re_sources := (re_sources re)(rs_Source res \<mapsto> sr')\<rparr>, ry_held = res # held, ry_doomed = doomed\<rparr>"
proof -
  let ?L = "held @ map snd (re_reservations re) @ doomed"
  have inv: "distinct (concat (map outputIDs ?L))" "\<forall>r \<in> set ?L. reservedBy owner re r"
      "\<forall>src. cacheOK owner src (sr_cached (sourceOf src re)) \<and> sr_src (sourceOf src re) = src"
    using assms(1) by (simp_all add: reservingInv_def live_def)
  have "set (outputIDs res) \<inter> set (concat (map outputIDs ?L)) = {}"
  proof (rule ccontr)
    assume "\<not> ?thesis"
    then obtain h r where h: "h \<in> set (outputIDs res)" "r \<in> set ?L" "h \<in> set (outputIDs r)" by auto
    with inv(2) have "owner h = rs_Source r" "sr_reserved (sourceOf (rs_Source r) re) h \<noteq> None" by (auto simp: reservedBy_def)
    with assms(3) h(1) show False by auto
  qed
  then have "distinct (concat (map outputIDs (res # ?L)))" using inv(1) assms(2) by auto
  moreover have "reservedBy owner (re\<lparr>re_sources := (re_sources re)(rs_Source res \<mapsto> sr')\<rparr>) r" if "r \<in> set (res # ?L)" for r
  proof (cases "r = res")
    case True
    then show ?thesis using assms(3,4) by (simp add: reservedBy_def)
  next
    case False
    with that inv(2) have "reservedBy owner re r" by simp
    then show ?thesis using assms(4) by (auto simp: reservedBy_def)
  qed
  ultimately show ?thesis using inv(3) assms(5,6) by (simp add: reservingInv_def live_def)
qed

lemma mset_concat_map: "mset (concat (map f xs)) = (\<Sum>x \<in># mset xs. mset (f x))"
  by (induction xs) simp_all

text \<open>Changes that leave the live reservations, or drop some, and reserve the same outputs.\<close>

lemma inv_less:
  assumes "reservingInv owner y" and "mset (live y') \<subseteq># mset (live y)"
    and "\<And>src. sr_reserved (sourceOf src (ry_reserver y')) = sr_reserved (sourceOf src (ry_reserver y))"
    and "\<And>src. cacheOK owner src (sr_cached (sourceOf src (ry_reserver y'))) \<and> sr_src (sourceOf src (ry_reserver y')) = src"
  shows "reservingInv owner y'"
proof -
  obtain zs where zs: "mset (live y) = mset (live y' @ zs)" using assms(2) by (metis mset_append ex_mset subset_mset.add_diff_inverse)
  have "mset (concat (map outputIDs (live y))) = mset (concat (map outputIDs (live y' @ zs)))"
    unfolding mset_concat_map zs by simp
  moreover have "distinct (concat (map outputIDs (live y)))" using assms(1) by (simp add: reservingInv_def)
  ultimately have "distinct (concat (map outputIDs (live y' @ zs)))" using mset_eq_imp_distinct_iff by blast
  moreover have "set (live y') \<subseteq> set (live y)" using assms(2) by (metis set_mset_mono set_mset_mset)
  ultimately show ?thesis using assms(1,3,4) by (auto simp: reservingInv_def reservedBy_def)
qed

text \<open>Releasing a doomed reservation leaves the outputs of the others reserved.\<close>

lemma sourceOf_release:
  "sourceOf src (release res re) = (if src = rs_Source res then srCancel res (sourceOf src re) else sourceOf src re)"
  by (simp add: release_def Forget_def split: option.splits)

lemma release_reservations [simp]: "re_reservations (release res re) = re_reservations re"
  by (simp add: release_def Forget_def split: option.splits)

lemma inv_free:
  assumes "reservingInv owner \<lparr>ry_reserver = re, ry_held = held, ry_doomed = d1 @ res # d2\<rparr>"
  shows "reservingInv owner \<lparr>ry_reserver = release res re, ry_held = held, ry_doomed = d1 @ d2\<rparr>"
proof -
  let ?L = "held @ map snd (re_reservations re) @ d1 @ d2"
  have inv: "distinct (concat (map outputIDs (held @ map snd (re_reservations re) @ d1 @ res # d2)))" "\<forall>r \<in> set ?L. reservedBy owner re r"
      "\<forall>src. cacheOK owner src (sr_cached (sourceOf src re)) \<and> sr_src (sourceOf src re) = src"
    using assms by (simp_all add: reservingInv_def live_def)
  have "mset (concat (map outputIDs (held @ map snd (re_reservations re) @ d1 @ res # d2))) = mset (concat (map outputIDs (res # ?L)))"
    unfolding mset_concat_map by simp
  from mset_eq_imp_distinct_iff [OF this] inv(1) have "distinct (concat (map outputIDs (res # ?L)))" by blast
  then have d: "distinct (concat (map outputIDs ?L))" "set (outputIDs res) \<inter> set (concat (map outputIDs ?L)) = {}" by simp_all
  have "reservedBy owner (release res re) r" if "r \<in> set ?L" for r
  proof -
    have "h \<notin> set (outputIDs res)" if "h \<in> set (outputIDs r)" for h using d(2) \<open>r \<in> set ?L\<close> that by auto
    moreover have "reservedBy owner re r" using inv(2) that by blast
    ultimately show ?thesis by (auto simp: reservedBy_def sourceOf_release srCancel_def outputIDs_def)
  qed
  with d(1) inv(3) show ?thesis by (auto simp: reservingInv_def live_def sourceOf_release srCancel_def)
qed

lemma mset_update: "mset (map snd (AList.update k v xs)) \<subseteq># add_mset v (mset (map snd xs))"
proof (induction xs)
  case (Cons x xs)
  then show ?case by (cases x) (auto simp: mset_subset_eq_add_mset_cancel add_mset_commute intro: subset_mset.order_trans)
qed simp

lemma mset_delete:
  assumes "map_of xs k = Some v"
  shows "add_mset v (mset (map snd (AList.delete k xs))) \<subseteq># mset (map snd xs)"
  using assms
proof (induction xs)
  case (Cons x xs)
  show ?case
  proof (cases "fst x = k")
    case True
    have "mset (map snd (AList.delete k xs)) \<subseteq># mset (map snd xs)"
      unfolding AList.delete_eq mset_map mset_filter by (rule image_mset_subseteq_mono [OF multiset_filter_subset])
    with True Cons.prems show ?thesis by (cases x) simp
  next
    case False
    with Cons.prems Cons.IH show ?thesis by (cases x) (simp add: add_mset_commute [of v] split: if_splits)
  qed
qed simp

text \<open>New cache entries belong to the source.\<close>

lemma in_update: "x \<in> set (AList.update k v xs) \<Longrightarrow> x = (k, v) \<or> x \<in> set xs"
  by (induction xs) (auto split: if_splits)

lemma cacheOK_update:
  "cacheOK owner src cs \<Longrightarrow> utxoSource u = src \<Longrightarrow> owner (ut_OutputID u) = src \<Longrightarrow> cacheOK owner src (AList.update (ut_OutputID u) u cs)"
  by (auto simp: cacheOK_def distinct_update dest!: in_update)

lemma cacheOK_fill:
  "cacheOK owner src cs \<Longrightarrow> \<forall>u \<in> set us. utxoSource u = src \<and> owner (ut_OutputID u) = src \<Longrightarrow>
    cacheOK owner src (fold (\<lambda>u. AList.update (ut_OutputID u) u) us cs)"
  by (induction us arbitrary: cs) (simp_all add: cacheOK_update)

lemma utxoSource_fromRow [simp]: "utxoSource (fromRow src oid r) = src" "ut_OutputID (fromRow src oid r) = oid"
  by (simp_all add: utxoSource_def fromRow_def)

lemma findMatching_owned:
  assumes "worldOK owner w" and "findMatchingUTXOs w src h = Ok us"
  shows "\<forall>u \<in> set us. utxoSource u = src \<and> owner (ut_OutputID u) = src"
  using assms by (auto simp: findMatchingUTXOs_def worldOK_def split: sum.splits) (metis fst_conv)

lemma step_inv:
  assumes "reserveStep owner y y'" and "reservingInv owner y"
  shows "reservingInv owner y'"
  using assms
proof (induction rule: reserveStep.induct)
  case (pick w src rid amount re us amt re' res held doomed)
  from pick.hyps(2) obtain sr where sr: "reserveFromCache w rid amount (sourceOf src re) = (Ok (us, amt), sr)" "re' = re\<lparr>re_sources := (re_sources re)(src \<mapsto> sr)\<rparr>"
    unfolding atSource_eq by (elim exE conjE)
  have c: "cacheOK owner src (sr_cached (sourceOf src re))" "sr_src (sourceOf src re) = src" using pick.prems by (simp_all add: reservingInv_def)
  note s = reserveFromCache_sound [OF c(1) pick.hyps(1) sr(1)]
  show ?case unfolding sr(2) pick.hyps(3) [symmetric]
  proof (rule inv_hold [OF pick.prems])
    show "sr_reserved sr = (\<lambda>h. if h \<in> set (outputIDs res) then Some rid else sr_reserved (sourceOf (rs_Source res) re) h)"
      using s(3) unfolding outputIDs_def pick.hyps(3,4) set_map by blast
  qed (use s c(2) in \<open>simp_all add: outputIDs_def pick.hyps(3,4)\<close>)
next
  case (pick_none w src rid amount re r re' held doomed)
  from pick_none.hyps(2) obtain sr where sr: "reserveFromCache w rid amount (sourceOf src re) = (r, sr)" "re' = re\<lparr>re_sources := (re_sources re)(src \<mapsto> sr)\<rparr>"
    unfolding atSource_eq by (elim exE conjE)
  have c: "cacheOK owner src (sr_cached (sourceOf src re))" "sr_src (sourceOf src re) = src" using pick_none.prems by (simp_all add: reservingInv_def)
  note s = reserveFromCache_sound [OF c(1) pick_none.hyps(1) sr(1)]
  show ?case by (rule inv_less [OF pick_none.prems]) (use s(1,2) s(4) [OF pick_none.hyps(3)] c(2) pick_none.prems in \<open>simp_all add: live_def sr(2) reservingInv_def\<close>)
next
  case (pick_one w out u rid re re' res held doomed)
  from pick_one.hyps(3) obtain sr where sr: "srReserveUTXO rid u (sourceOf (utxoSource u) re) = (Ok (), sr)" "re' = re\<lparr>re_sources := (re_sources re)(utxoSource u \<mapsto> sr)\<rparr>"
    unfolding atSource_eq by (elim exE conjE)
  have owned: "owner (ut_OutputID u) = utxoSource u"
    using pick_one.hyps(1,2) by (auto simp: findSpecificUTXO_def worldOK_def split: sum.splits option.splits)
  have s: "sr_reserved (sourceOf (utxoSource u) re) (ut_OutputID u) = None" "sr = (sourceOf (utxoSource u) re)\<lparr>sr_reserved := (sr_reserved (sourceOf (utxoSource u) re))(ut_OutputID u \<mapsto> rid)\<rparr>"
    using sr(1) by (auto simp: srReserveUTXO_def split: if_splits)
  show ?case unfolding sr(2) pick_one.hyps(4) [symmetric]
    by (rule inv_hold [OF pick_one.prems])
      (use s owned pick_one.prems in \<open>auto simp: outputIDs_def pick_one.hyps(4,5) reservingInv_def\<close>)
next
  case (taken u rid re e re' held doomed)
  then have "re' = re\<lparr>re_sources := (re_sources re)(utxoSource u \<mapsto> sourceOf (utxoSource u) re)\<rparr>"
    by (auto simp: atSource_def srReserveUTXO_def split: if_splits)
  then show ?case by (intro inv_less [OF taken.prems]) (use taken.prems in \<open>simp_all add: live_def reservingInv_def\<close>)
next
  case (refill w src h us re' re h' held doomed)
  have "cacheOK owner src (sr_cached (sourceOf src re))" using refill.prems by (simp add: reservingInv_def)
  from cacheOK_fill [OF this findMatching_owned [OF refill.hyps(1,2)]] show ?case
    by (intro inv_less [OF refill.prems]) (use refill.prems in \<open>simp_all add: refill.hyps(3) live_def fillCache_def reservingInv_def\<close>)
next
  case (count re held doomed)
  then show ?case by (intro inv_less [OF count.prems]) (simp_all add: nextID_def live_def reservingInv_def)
next
  case (once re held doomed f)
  then show ?case by (intro inv_less [OF once.prems]) (simp_all add: live_def reservingInv_def)
next
  case (save re held1 res held2 doomed)
  then show ?case
    using mset_update [of "rs_ID res" res "re_reservations re"]
    by (intro inv_less [OF save.prems]) (simp_all add: saveReservation_def live_def reservingInv_def)
next
  case (remove re rid res held doomed)
  then show ?case
    using mset_delete [OF remove.hyps]
    by (intro inv_less [OF remove.prems]) (simp_all add: live_def reservingInv_def)
next
  case (expire re held doomed old)
  have "mset (map snd (filter (\<lambda>x. \<not> old x) (re_reservations re))) + mset (map snd (filter old (re_reservations re))) = mset (map snd (re_reservations re))"
    by (induction "re_reservations re") (simp_all add: mset_filter flip: image_mset_union)
  then show ?case by (intro inv_less [OF expire.prems]) (use expire.prems in \<open>simp_all add: live_def reservingInv_def\<close>)
next
  case (free re held doomed1 res doomed2)
  then show ?case by (intro inv_free)
qed

section \<open>Operations as sequences of steps\<close>

abbreviation idle :: "reserver \<Rightarrow> reserving" where
  "idle re \<equiv> \<lparr>ry_reserver = re, ry_held = [], ry_doomed = []\<rparr>"

abbreviation runs :: "(Hash \<Rightarrow> source) \<Rightarrow> reserving \<Rightarrow> reserving \<Rightarrow> bool" where
  "runs owner \<equiv> (reserveStep owner)\<^sup>*\<^sup>*"

lemma runs_inv: "runs owner y y' \<Longrightarrow> reservingInv owner y \<Longrightarrow> reservingInv owner y'"
  by (induction rule: rtranclp_induct) (simp_all add: step_inv)

lemma atSource_twice:
  "re\<lparr>re_sources := (re_sources re)(src \<mapsto> sr)\<rparr>\<lparr>re_sources := (re_sources (re\<lparr>re_sources := (re_sources re)(src \<mapsto> sr)\<rparr>))(src \<mapsto> sr')\<rparr> =
     re\<lparr>re_sources := (re_sources re)(src \<mapsto> sr')\<rparr>"
  by simp

lemma pick_runs:
  assumes "worldOK owner w" and "atSource src (reserveFromCache w rid amount) re = (r, re')" and "\<forall>us a. r = Ok (us, a) \<longrightarrow> rs_Source res = src \<and> rs_UTXOs res = us"
  shows "runs owner (idle re) \<lparr>ry_reserver = re', ry_held = (case r of Ok _ \<Rightarrow> [res] | _ \<Rightarrow> []), ry_doomed = []\<rparr>"
proof (cases r)
  case (Ok x)
  with assms reserveStep.pick [OF assms(1), of src rid amount re "fst x" "snd x" re' res] show ?thesis by (cases x) auto
qed (use assms reserveStep.pick_none [OF assms(1,2)] in auto)

lemma srReserve_runs:
  assumes "worldOK owner w" and "sr_src (sourceOf src re) = src" and "atSource src (srReserve w rid amount) re = (r, re')"
    and "\<forall>us a. r = Ok (us, a) \<longrightarrow> rs_Source res = src \<and> rs_UTXOs res = us"
  shows "runs owner (idle re) \<lparr>ry_reserver = re', ry_held = (case r of Ok _ \<Rightarrow> [res] | _ \<Rightarrow> []), ry_doomed = []\<rparr>"
proof -
  obtain r1 sr1 where r1: "reserveFromCache w rid amount (sourceOf src re) = (r1, sr1)" by fastforce
  let ?re1 = "re\<lparr>re_sources := (re_sources re)(src \<mapsto> sr1)\<rparr>"
  have at1: "atSource src (reserveFromCache w rid amount) re = (r1, ?re1)" by (simp add: atSource_def r1)
  obtain sr where sr: "srReserve w rid amount (sourceOf src re) = (r, sr)" "re' = re\<lparr>re_sources := (re_sources re)(src \<mapsto> sr)\<rparr>"
    using assms(3) unfolding atSource_eq by (elim exE conjE)
  show ?thesis
  proof (cases "\<exists>e. r1 = Fail e")
    case False
    with sr(1) r1 have "r = r1" "sr = sr1" by (auto simp: srReserve_def split: outcome.splits)
    then show ?thesis using pick_runs [OF assms(1) at1, of res] assms(4) sr(2) by simp
  next
    case True
    then obtain e where e: "r1 = Fail e" by blast
    have first: "runs owner (idle re) (idle ?re1)" using reserveStep.pick_none [OF assms(1) at1] e by auto
    have src1: "sr_src sr1 = src" using r1 assms(2) by (auto simp: reserveFromCache_def Let_def split: prod.splits outcome.splits if_splits)
    obtain r2 sr2 where r2: "refillCache w sr1 = (r2, sr2)" by fastforce
    let ?re2 = "re\<lparr>re_sources := (re_sources re)(src \<mapsto> sr2)\<rparr>"
    have second: "runs owner (idle ?re1) (idle ?re2)"
    proof (cases "sr2 = sr1")
      case False
      with r2 obtain us where "findMatchingUTXOs w src (sr_lastHeight sr1) = Ok us" "sr2 = fillCache (wo_height w) us sr1"
        by (auto simp: refillCache_def src1 split: if_splits outcome.splits)
      then show ?thesis using reserveStep.refill [OF assms(1), of src "sr_lastHeight sr1" us ?re2 ?re1 "wo_height w" "[]" "[]"] by simp
    qed simp
    show ?thesis
    proof (cases r2)
      case (Ok u)
      obtain r3 sr3 where r3: "reserveFromCache w rid amount sr2 = (r3, sr3)" by fastforce
      have "r = r3" "sr = sr3" using sr(1) r1 e r2 Ok r3 by (simp_all add: srReserve_def bindA_def)
      moreover have "atSource src (reserveFromCache w rid amount) ?re2 = (r3, re\<lparr>re_sources := (re_sources re)(src \<mapsto> sr3)\<rparr>)"
        by (simp add: atSource_def r3)
      ultimately show ?thesis using pick_runs [OF assms(1), of src rid amount ?re2 r re' res] assms(4) sr(2) first second
        by (metis (no_types, lifting) rtranclp_trans)
    qed (use sr r1 e r2 first second in \<open>auto simp: srReserve_def bindA_def intro: rtranclp_trans\<close>)
  qed
qed

lemma count_runs: "runs owner (idle re) (idle (re\<lparr>re_nextReservationID := re_nextReservationID re + 1\<rparr>))"
  using reserveStep.count [of owner re "[]" "[]"] by (simp add: nextID_def r_into_rtranclp)

lemma save_runs: "runs owner \<lparr>ry_reserver = re, ry_held = [res], ry_doomed = []\<rparr> (idle (saveReservation res re))"
  using reserveStep.save [of owner re "[]" res "[]" "[]"] by (simp add: r_into_rtranclp)

lemma reserve_runs:
  assumes "worldOK owner w" and "sr_src (sourceOf src re) = src" and "reserve w src amount tok exp re = (r, re')"
  shows "runs owner (idle re) (idle re')"
proof -
  let ?rid = "re_nextReservationID re + 1" and ?re = "re\<lparr>re_nextReservationID := re_nextReservationID re + 1\<rparr>"
  obtain q re1 where q: "atSource src (srReserve w ?rid amount) ?re = (q, re1)" by fastforce
  define res where "res = (case q of Ok (us, amt) \<Rightarrow> \<lparr>rs_ID = ?rid, rs_Source = src, rs_UTXOs = us,
      rs_Change = (if amt > amount then amt - amount else 0), rs_Expiry = exp, rs_ClientToken = tok\<rparr> | _ \<Rightarrow> undefined)"
  have "runs owner (idle ?re) \<lparr>ry_reserver = re1, ry_held = (case q of Ok _ \<Rightarrow> [res] | _ \<Rightarrow> []), ry_doomed = []\<rparr>"
    by (rule srReserve_runs [OF assms(1) _ q]) (use assms(2) in \<open>simp_all add: res_def\<close>)
  with count_runs [of owner re] have run: "runs owner (idle re) \<lparr>ry_reserver = re1, ry_held = (case q of Ok _ \<Rightarrow> [res] | _ \<Rightarrow> []), ry_doomed = []\<rparr>"
    by (rule rtranclp_trans)
  show ?thesis
  proof (cases q)
    case (Ok x)
    then have "re' = saveReservation res re1" using assms(3) q by (cases x) (auto simp: reserve_def bindA_def nextID_def res_def Let_def)
    with run Ok save_runs [of owner re1 res] show ?thesis by (auto intro: rtranclp_trans)
  qed (use run assms(3) q in \<open>auto simp: reserve_def bindA_def nextID_def\<close>)
qed

lemma reserveUTXO_runs:
  assumes "worldOK owner w" and "reserveUTXO w out exp tok re = (r, re')"
  shows "runs owner (idle re) (idle re')"
proof (cases "\<exists>u. findSpecificUTXO w out = Ok u \<and> checkUTXO w u = (Ok True :: (reserve_error, bool) outcome)")
  case False
  then have "re' = re" using assms(2)
    by (cases "findSpecificUTXO w out") (auto simp: reserveUTXO_def bindA_def pureA_def split: outcome.splits if_splits)
  then show ?thesis by simp
next
  case True
  then obtain u where u: "findSpecificUTXO w out = Ok u" "checkUTXO w u = (Ok True :: (reserve_error, bool) outcome)" by blast
  let ?rid = "re_nextReservationID re + 1" and ?re = "re\<lparr>re_nextReservationID := re_nextReservationID re + 1\<rparr>"
  obtain q re1 where q: "atSource (utxoSource u) (srReserveUTXO ?rid u) ?re = (q, re1)" by fastforce
  let ?res = "\<lparr>rs_ID = ?rid, rs_Source = utxoSource u, rs_UTXOs = [u], rs_Change = 0, rs_Expiry = exp, rs_ClientToken = tok\<rparr>"
  have cases: "q = Ok () \<or> (\<exists>e. q = Fail e)" using q by (auto simp: atSource_def srReserveUTXO_def split: if_splits)
  show ?thesis
  proof (cases "q = Ok ()")
    case True
    have "reserveStep owner (idle ?re) \<lparr>ry_reserver = re1, ry_held = [?res], ry_doomed = []\<rparr>"
      by (rule reserveStep.pick_one [OF assms(1) u(1)]) (use q True in simp_all)
    moreover have "re' = saveReservation ?res re1" using assms(2) u q True by (simp add: reserveUTXO_def bindA_def pureA_def nextID_def Let_def)
    ultimately show ?thesis using count_runs [of owner re] save_runs [of owner re1 ?res]
      by (metis (no_types, lifting) rtranclp.rtrancl_into_rtrancl rtranclp_trans)
  next
    case False
    with cases obtain e where e: "q = Fail e" by blast
    have "reserveStep owner (idle ?re) (idle re1)" by (rule reserveStep.taken) (use q e in simp)
    moreover have "re' = re1" using assms(2) u q e by (simp add: reserveUTXO_def bindA_def pureA_def nextID_def)
    ultimately show ?thesis using count_runs [of owner re] by (metis (no_types, lifting) rtranclp.rtrancl_into_rtrancl)
  qed
qed

lemma Once_runs:
  assumes "\<And>f. runs owner (idle (re\<lparr>re_idempotency := f\<rparr>)) (idle (snd (fn (re\<lparr>re_idempotency := f\<rparr>))))"
  shows "runs owner (idle re) (idle (snd (Once key fn re)))"
proof (cases "re_idempotency re key")
  case (Some res)
  then show ?thesis by (cases res) (simp_all add: Once_def)
next
  case None
  let ?re = "re\<lparr>re_idempotency := (re_idempotency re)(key \<mapsto> None)\<rparr>"
  obtain q re1 where q: "fn ?re = (q, re1)" by fastforce
  have "reserveStep owner (idle re) (idle ?re)" by (rule reserveStep.once)
  then have run: "runs owner (idle re) (idle re1)"
    using assms [of "(re_idempotency re)(key \<mapsto> None)"] q by (simp add: converse_rtranclp_into_rtranclp)
  have "snd (Once key fn re) = re1 \<or> (\<exists>f. snd (Once key fn re) = re1\<lparr>re_idempotency := f\<rparr>)"
    using None q by (cases q) (auto simp: Once_def)
  then show ?thesis using run reserveStep.once [of owner re1 "[]" "[]"] rtranclp.rtrancl_into_rtrancl [OF run] by metis
qed

lemma Cancel_runs: "Cancel rid re = (r, re') \<Longrightarrow> runs owner (idle re) (idle re')"
proof -
  assume c: "Cancel rid re = (r, re')"
  show ?thesis
  proof (cases "map_of (re_reservations re) rid")
    case None
    then have "AList.delete rid (re_reservations re) = re_reservations re" by (simp add: map_of_eq_None_iff)
    with c None show ?thesis by (simp add: Cancel_def)
  next
    case (Some res)
    let ?re = "re\<lparr>re_reservations := AList.delete rid (re_reservations re)\<rparr>"
    have "reserveStep owner (idle re) \<lparr>ry_reserver = ?re, ry_held = [], ry_doomed = [res]\<rparr>" by (rule reserveStep.remove [OF Some])
    moreover have "reserveStep owner \<lparr>ry_reserver = ?re, ry_held = [], ry_doomed = [res]\<rparr> (idle (release res ?re))"
      using reserveStep.free [of owner ?re "[]" "[]" res "[]"] by simp
    ultimately have "runs owner (idle re) (idle (release res ?re))" by (rule converse_rtranclp_into_rtranclp [OF _ r_into_rtranclp])
    with c Some show ?thesis by (simp add: Cancel_def)
  qed
qed

lemma free_runs: "runs owner \<lparr>ry_reserver = re, ry_held = [], ry_doomed = ds\<rparr> (idle (fold release ds re))"
proof (induction ds arbitrary: re)
  case (Cons res ds)
  have "reserveStep owner \<lparr>ry_reserver = re, ry_held = [], ry_doomed = res # ds\<rparr> \<lparr>ry_reserver = release res re, ry_held = [], ry_doomed = ds\<rparr>"
    using reserveStep.free [of owner re "[]" "[]" res ds] by simp
  from converse_rtranclp_into_rtranclp [OF this Cons.IH] show ?case by simp
qed simp

lemma Expire_runs: "runs owner (idle re) (idle (ExpireReservations w re))"
proof -
  let ?old = "\<lambda>(rid, res). rs_Expiry res < wo_now w"
  from reserveStep.expire [of owner re "[]" "[]" ?old]
  have "reserveStep owner (idle re) \<lparr>ry_reserver = re\<lparr>re_reservations := filter (\<lambda>x. \<not> ?old x) (re_reservations re)\<rparr>, ry_held = [], ry_doomed = map snd (filter ?old (re_reservations re))\<rparr>" by simp
  from converse_rtranclp_into_rtranclp [OF this free_runs] show ?thesis by (simp add: ExpireReservations_def Let_def)
qed

section \<open>Amounts\<close>

definition total :: "utxo list \<Rightarrow> nat" where
  "total us = sum_list (map (\<lambda>u. unat (ut_Amount u)) us)"

lemma total_simps [simp]: "total [] = 0" "total (u # us) = unat (ut_Amount u) + total us" "total (us @ vs) = total us + total vs"
  by (simp_all add: total_def)

text \<open>The sum of the picked amounts does not wrap, and the last output was needed.\<close>

lemma total_butlast: "total (butlast us) \<le> total us"
  by (cases us rule: rev_cases) simp_all

lemma pick_total:
  assumes "pickUTXOs w rsv amount xs reserved unavailable us cs = (Ok (a, b, us'), cs')" and "\<forall>p \<in> set xs. unat (ut_Amount (snd p)) < 2 ^ 63"
    and "unat amount \<le> 2 ^ 63" and "unat reserved = total us" and "us = [] \<or> total us < unat amount"
  shows "unat a = total us' \<and> (length us' \<le> 1 \<or> total (butlast us') < unat amount)"
  using assms(1,2,4,5)
proof (induction xs arbitrary: reserved unavailable us cs)
  case Nil
  then show ?case using total_butlast [of us] by (auto simp: pureA_def)
next
  case (Cons p xs)
  obtain oid u where p: "p = (oid, u)" by (cases p)
  have less: "unat (reserved + ut_Amount u) = total (us @ [u])"
    using Cons.prems(2-4) assms(3) by (auto simp: p unat_word_ariths)
  show ?case
  proof (cases "rsv (ut_OutputID u) = None")
    case False
    then have "pickUTXOs w rsv amount xs reserved (unavailable + ut_Amount u) us cs = (Ok (a, b, us'), cs')" using Cons.prems by (simp add: p)
    from Cons.IH [OF this] Cons.prems show ?thesis by simp
  next
    case free: True
    obtain v where v: "checkUTXO w u = (Ok v :: (reserve_error, bool) outcome)"
      using Cons.prems(1) free by (cases "checkUTXO w u :: (reserve_error, bool) outcome") (auto simp: p bindA_def pureA_def)
    consider "\<not> v" | "v" "reserved + ut_Amount u \<ge> amount" | "v" "\<not> reserved + ut_Amount u \<ge> amount" by blast
    then show ?thesis
    proof cases
      case 1
      with v free Cons.prems have "pickUTXOs w rsv amount xs reserved unavailable us (AList.delete oid cs) = (Ok (a, b, us'), cs')"
        by (simp add: p bindA_def pureA_def)
      from Cons.IH [OF this] Cons.prems show ?thesis by simp
    next
      case 2
      with v free Cons.prems(1) have "a = reserved + ut_Amount u" "us' = us @ [u]" by (simp_all add: p bindA_def pureA_def)
      then show ?thesis using less Cons.prems(4) by auto
    next
      case 3
      with v free Cons.prems have r: "pickUTXOs w rsv amount xs (reserved + ut_Amount u) unavailable (us @ [u]) cs = (Ok (a, b, us'), cs')"
        by (simp add: p bindA_def pureA_def)
      have "total (us @ [u]) < unat amount" using 3 less by (simp add: not_le word_less_nat_alt)
      then show ?thesis using Cons.IH [OF r _ less] Cons.prems(2) by simp
    qed
  qed
qed

lemma reserveFromCache_total:
  assumes "reserveFromCache w rid amount sr = (Ok (us, a), sr')" and "\<forall>p \<in> set (sr_cached sr). unat (ut_Amount (snd p)) < 2 ^ 63"
    and "unat amount \<le> 2 ^ 63" and "mset (wo_order w (sr_cached sr)) = mset (sr_cached sr)"
  shows "unat a = total us \<and> unat amount \<le> total us \<and> (length us \<le> 1 \<or> total (butlast us) < unat amount) \<and>
    (\<forall>u \<in> set us. checkUTXO w u = (Ok True :: (reserve_error, bool) outcome))"
proof -
  from assms(1) obtain b cs where q: "pickUTXOs w (sr_reserved sr) amount (wo_order w (sr_cached sr)) 0 0 [] (sr_cached sr) = (Ok (a, b, us), cs)" "\<not> a < amount"
    by (auto simp: reserveFromCache_def Let_def split: prod.splits outcome.splits if_splits)
  have "\<forall>p \<in> set (wo_order w (sr_cached sr)). unat (ut_Amount (snd p)) < 2 ^ 63" using mset_eq_setD [OF assms(4)] assms(2) by simp
  from pick_total [OF q(1) this assms(3)] have "unat a = total us" "length us \<le> 1 \<or> total (butlast us) < unat amount" by simp_all
  moreover have "unat amount \<le> unat a" using q(2) by (simp add: word_less_nat_alt)
  moreover have "\<forall>u \<in> set us. checkUTXO w u = (Ok True :: (reserve_error, bool) outcome)" using pickUTXOs_sound [OF q(1)] by (auto simp: picked_def)
  ultimately show ?thesis by simp
qed

lemma reserveFromCache_cache: "reserveFromCache w rid amount sr = (r, sr') \<Longrightarrow> set (sr_cached sr') \<subseteq> set (sr_cached sr)"
proof -
  assume r: "reserveFromCache w rid amount sr = (r, sr')"
  obtain q cs where q: "pickUTXOs w (sr_reserved sr) amount (wo_order w (sr_cached sr)) 0 0 [] (sr_cached sr) = (q, cs)" by fastforce
  have "sr_cached sr' = cs" using r unfolding reserveFromCache_def q by (auto simp: Let_def split: outcome.splits if_splits)
  then show ?thesis using pickUTXOs_sound [OF q] by blast
qed

text \<open>The amounts in the database are below $2^{63}$, as its type for them demands, and so are those in the cache.\<close>

definition amountsOK :: "world \<Rightarrow> source \<Rightarrow> reserver \<Rightarrow> bool" where
  "amountsOK w src re \<longleftrightarrow> (\<forall>p \<in> set (sr_cached (sourceOf src re)). unat (ut_Amount (snd p)) < 2 ^ 63) \<and>
     (\<forall>h us. findMatchingUTXOs w src h = Ok us \<longrightarrow> (\<forall>u \<in> set us. unat (ut_Amount u) < 2 ^ 63))"

lemma fill_amounts:
  "\<forall>p \<in> set cs. unat (ut_Amount (snd p)) < N \<Longrightarrow> \<forall>u \<in> set us. unat (ut_Amount u) < N \<Longrightarrow>
    \<forall>p \<in> set (fold (\<lambda>u. AList.update (ut_OutputID u) u) us cs). unat (ut_Amount (snd p)) < N"
proof (induction us arbitrary: cs)
  case (Cons u us)
  have "\<forall>p \<in> set (AList.update (ut_OutputID u) u cs). unat (ut_Amount (snd p)) < N" using Cons.prems by (auto dest!: in_update)
  with Cons show ?case by simp
qed simp

lemma srReserve_total:
  assumes "srReserve w rid amount sr = (Ok (us, a), sr')" and "cacheOK owner (sr_src sr) (sr_cached sr)" and "worldOK owner w"
    and "\<forall>p \<in> set (sr_cached sr). unat (ut_Amount (snd p)) < 2 ^ 63" and "unat amount \<le> 2 ^ 63"
    and "\<And>h vs. findMatchingUTXOs w (sr_src sr) h = Ok vs \<Longrightarrow> \<forall>u \<in> set vs. unat (ut_Amount u) < 2 ^ 63"
  shows "unat a = total us \<and> unat amount \<le> total us \<and> (length us \<le> 1 \<or> total (butlast us) < unat amount) \<and> distinct (map ut_OutputID us) \<and>
    (\<forall>u \<in> set us. checkUTXO w u = (Ok True :: (reserve_error, bool) outcome) \<and> utxoSource u = sr_src sr \<and> sr_reserved sr (ut_OutputID u) = None)"
proof -
  have perm: "mset (wo_order w xs) = mset xs" for xs using assms(3) by (simp add: worldOK_def)
  obtain r1 sr1 where r1: "reserveFromCache w rid amount sr = (r1, sr1)" by fastforce
  note s1 = reserveFromCache_sound [OF assms(2,3) r1]
  show ?thesis
  proof (cases "\<exists>e. r1 = Fail e")
    case False
    with assms(1) r1 have "r1 = Ok (us, a)" by (auto simp: srReserve_def split: outcome.splits)
    with r1 reserveFromCache_total [OF _ assms(4,5) perm, of rid us a sr1] s1(3) show ?thesis by simp
  next
    case True
    then obtain sr2 where r2: "refillCache w sr1 = (Ok (), sr2)" and r3: "reserveFromCache w rid amount sr2 = (Ok (us, a), sr')"
      using assms(1) r1 by (auto simp: srReserve_def bindA_Ok_iff)
    have same: "sr_reserved sr1 = sr_reserved sr" "set (sr_cached sr1) \<subseteq> set (sr_cached sr)"
      using s1(4) True reserveFromCache_cache [OF r1] by auto
    have am1: "\<forall>p \<in> set (sr_cached sr1). unat (ut_Amount (snd p)) < 2 ^ 63" using same(2) assms(4) by blast
    have sr2: "sr_reserved sr2 = sr_reserved sr" "cacheOK owner (sr_src sr) (sr_cached sr2)" "\<forall>p \<in> set (sr_cached sr2). unat (ut_Amount (snd p)) < 2 ^ 63"
    proof -
      consider "sr2 = sr1" | vs where "findMatchingUTXOs w (sr_src sr) (sr_lastHeight sr1) = Ok vs" "sr2 = fillCache (wo_height w) vs sr1"
      proof (cases "sr_lastHeight sr1 \<ge> wo_height w")
        case True
        then have "sr2 = sr1" using r2 by (simp add: refillCache_def)
        then show ?thesis by (rule that(1))
      next
        case False
        with r2 s1(2) obtain vs where "findMatchingUTXOs w (sr_src sr) (sr_lastHeight sr1) = Ok vs" "fillCache (wo_height w) vs sr1 = sr2"
          by (cases "findMatchingUTXOs w (sr_src sr) (sr_lastHeight sr1)") (simp_all add: refillCache_def)
        then show ?thesis using that(2) by blast
      qed
      then have "sr_reserved sr2 = sr_reserved sr \<and> cacheOK owner (sr_src sr) (sr_cached sr2) \<and> (\<forall>p \<in> set (sr_cached sr2). unat (ut_Amount (snd p)) < 2 ^ 63)"
      proof cases
        case (2 vs)
        then show ?thesis using same(1) cacheOK_fill [OF s1(1) findMatching_owned [OF assms(3) 2(1)]] fill_amounts [OF am1 assms(6) [OF 2(1)]]
          by (simp add: fillCache_def)
      qed (use same(1) s1(1) am1 in simp)
      then show "sr_reserved sr2 = sr_reserved sr" "cacheOK owner (sr_src sr) (sr_cached sr2)" "\<forall>p \<in> set (sr_cached sr2). unat (ut_Amount (snd p)) < 2 ^ 63" by simp_all
    qed
    show ?thesis using reserveFromCache_total [OF r3 sr2(3) assms(5) perm] reserveFromCache_sound(3) [OF sr2(2) assms(3) r3] sr2(1) by simp
  qed
qed

section \<open>A wallet of one output\<close>

definition walletSource :: source where
  "walletSource = \<lparr>so_AssetID = zeroHash, so_AccountID = ''acc0''\<rparr>"

definition walletRow :: utxoRow where
  "walletRow = \<lparr>row_amount = 9, row_cpIndex = 0, row_controlProg = [81], row_sourceID = zeroHash, row_sourcePos = 0, row_refData = zeroHash\<rparr>"

definition walletWorld :: world where
  "walletWorld = (let x = Byte32 zeroHash in \<lparr>wo_H = id, wo_snapshot = Some \<lparr>snap_Tree = Some (Leaf (bitKey x) (itemHash id x)), snap_Nonces = \<lambda>_. None\<rparr>,
     wo_height = 1, wo_rowsOf = (\<lambda>src _. Inr (if src = walletSource then [(zeroHash, walletRow)] else [])), wo_row = \<lambda>_. Inr None, wo_order = id, wo_now = 0\<rparr>)"

lemma wallet_world: "worldOK (\<lambda>_. walletSource) walletWorld"
  by (auto simp: worldOK_def walletWorld_def Let_def)

lemma wallet_amounts: "amountsOK walletWorld walletSource newReserver"
  by (auto simp: amountsOK_def newReserver_def sourceOf_def findMatchingUTXOs_def walletWorld_def Let_def fromRow_def walletRow_def)

lemma wallet_checks: "checkUTXO walletWorld (fromRow walletSource zeroHash walletRow) = Ok True"
  by (simp add: checkUTXO_def walletWorld_def Let_def fromRow_def Contains_def nodeHash_def)

lemma wallet_reserves:
  "fst (reserve walletWorld walletSource 5 None 7 newReserver) = Ok \<lparr>rs_ID = 1, rs_Source = walletSource, rs_UTXOs = [fromRow walletSource zeroHash walletRow],
     rs_Change = 4, rs_Expiry = 7, rs_ClientToken = None\<rparr>"
proof -
  let ?u = "fromRow walletSource zeroHash walletRow"
  have w: "wo_order walletWorld = id" "wo_height walletWorld = 1" "wo_rowsOf walletWorld walletSource h = Inr [(zeroHash, walletRow)]" for h
    by (simp_all add: walletWorld_def Let_def)
  have u: "ut_OutputID ?u = zeroHash" "ut_Amount ?u = 9" by (simp_all add: fromRow_def walletRow_def)
  show ?thesis
    by (simp add: reserve_def bindA_def nextID_def newReserver_def atSource_def sourceOf_def srReserve_def reserveFromCache_def w pureA_def Let_def
        refillCache_def findMatchingUTXOs_def fillCache_def u wallet_checks saveReservation_def)
qed

section \<open>Properties\<close>

text \<open>
  C5. No output is promised twice: whatever goroutines reserve, cancel and expire, in any interleaving of the sections under a lock, the
  reservations that are live at any time have no output in common, and their outputs are marked as reserved.
\<close>
theorem reservations_disjoint:
  assumes "(reserveStep owner)\<^sup>*\<^sup>* \<lparr>ry_reserver = newReserver, ry_held = [], ry_doomed = []\<rparr> y"
  shows "distinct (concat (map outputIDs (live y))) \<and>
    (\<forall>res \<in> set (live y). \<forall>h \<in> set (outputIDs res). sr_reserved (sourceOf (rs_Source res) (ry_reserver y)) h \<noteq> None)"
proof -
  have "reservingInv owner (idle newReserver)" by (simp add: reservingInv_def live_def newReserver_def sourceOf_def cacheOK_def)
  from runs_inv [OF assms this] show ?thesis by (auto simp: reservingInv_def reservedBy_def)
qed

lemma reservations_disjoint_witness:
  "\<exists>re. snd (reserve walletWorld walletSource 5 None 7 newReserver) = re \<and> re_reservations re \<noteq> [] \<and>
     distinct (concat (map outputIDs (map snd (re_reservations re)))) \<and> sr_reserved (sourceOf walletSource re) zeroHash \<noteq> None"
proof -
  have inv: "reservingInv (\<lambda>_. walletSource) (idle newReserver)" by (simp add: reservingInv_def live_def newReserver_def sourceOf_def cacheOK_def)
  obtain re res where r: "reserve walletWorld walletSource 5 None 7 newReserver = (Ok res, re)" and res: "rs_UTXOs res = [fromRow walletSource zeroHash walletRow]"
      "rs_Source res = walletSource"
    using wallet_reserves by (cases "reserve walletWorld walletSource 5 None 7 newReserver") auto
  have "sr_src (sourceOf walletSource newReserver) = walletSource" by (simp add: newReserver_def sourceOf_def)
  from reserve_runs [OF wallet_world this r] have run: "runs (\<lambda>_. walletSource) (idle newReserver) (idle re)" by simp
  have "map_of (re_reservations re) (rs_ID res) = Some res"
    using r by (auto simp: reserve_def bindA_Ok_iff Let_def saveReservation_def update_conv' split: prod.splits)
  from map_of_SomeD [OF this] have "res \<in> set (map snd (re_reservations re))" by force
  with reservations_disjoint [OF run] r res show ?thesis by (auto simp: live_def outputIDs_def fromRow_def)
qed

text \<open>
  C19. The operations of the reserver, run on their own, are sequences of these steps, also when they fail or panic.
\<close>
theorem reserver_ops_are_steps:
  assumes "worldOK owner w" and "(reserveStep owner)\<^sup>*\<^sup>* \<lparr>ry_reserver = newReserver, ry_held = [], ry_doomed = []\<rparr> \<lparr>ry_reserver = re, ry_held = [], ry_doomed = []\<rparr>"
    and "re' \<in> {snd (Reserve w src amount tok exp re), snd (ReserveUTXO w out tok exp re), snd (Cancel rid re), ExpireReservations w re}"
  shows "(reserveStep owner)\<^sup>*\<^sup>* \<lparr>ry_reserver = re, ry_held = [], ry_doomed = []\<rparr> \<lparr>ry_reserver = re', ry_held = [], ry_doomed = []\<rparr>"
proof -
  have "reservingInv owner (idle newReserver)" by (simp add: reservingInv_def live_def newReserver_def sourceOf_def cacheOK_def)
  from runs_inv [OF assms(2) this] have src: "sr_src (sourceOf src re) = src" by (simp add: reservingInv_def)
  have src': "sr_src (sourceOf src (re\<lparr>re_idempotency := f\<rparr>)) = src" for f using src by simp
  have reserve: "runs owner (idle re) (idle (snd (reserve w src amount t exp re)))" for t
    by (rule reserve_runs [OF assms(1) src surjective_pairing])
  have one: "runs owner (idle re0) (idle (snd (reserveUTXO w out exp t re0)))" for t re0
    by (rule reserveUTXO_runs [OF assms(1) surjective_pairing])
  have "runs owner (idle re) (idle (snd (Reserve w src amount tok exp re)))"
    using reserve by (cases tok) (auto simp: Reserve_def intro!: Once_runs reserve_runs [OF assms(1) src' surjective_pairing])
  moreover have "runs owner (idle re) (idle (snd (ReserveUTXO w out tok exp re)))"
    using one by (cases tok) (auto simp: ReserveUTXO_def intro!: Once_runs)
  moreover have "runs owner (idle re) (idle (snd (Cancel rid re)))" by (rule Cancel_runs [of _ _ "fst (Cancel rid re)"]) simp
  ultimately show ?thesis using assms(3) Expire_runs by blast
qed

lemma reserver_ops_are_steps_witness:
  "(reserveStep (\<lambda>_. walletSource))\<^sup>*\<^sup>* \<lparr>ry_reserver = newReserver, ry_held = [], ry_doomed = []\<rparr>
     \<lparr>ry_reserver = snd (Reserve walletWorld walletSource 5 (Some ''token'') 7 newReserver), ry_held = [], ry_doomed = []\<rparr>"
  by (rule reserver_ops_are_steps [OF wallet_world, of newReserver _ walletSource 5 "Some ''token''" 7]) simp_all



end
