(* ===== verification/Strconv.thy ===== *)
theory Strconv
  imports Outcome
begin

text \<open>
  Numerals, as \<^verbatim>\<open>strconv\<close> of the standard library writes and reads them. A Go string is a list of bytes, here a list of characters.
\<close>

definition ord :: "char \<Rightarrow> int" where
  "ord c = of_char c"

lemma ord_nat: "ord c = int (of_char c)"
  by (simp add: ord_def of_nat_of_char)

lemma ord_bounds [simp]: "0 \<le> ord c" "ord c < 256"
  by (simp_all add: ord_nat)

lemma ord_Char [simp]: "ord (Char a b c d e f g h) = of_char (Char a b c d e f g h)"
  by (simp add: ord_def)

lemma ord_inject [simp]: "ord c = ord d \<longleftrightarrow> c = d"
  by (simp add: ord_nat)

text \<open>The value of a digit up to base 16; everything else is 16, as in the scanner of filters.\<close>

definition digitVal :: "int \<Rightarrow> int" where
  "digitVal ch = (if 48 \<le> ch \<and> ch \<le> 57 then ch - 48 else if 97 \<le> ch \<and> ch \<le> 102 then ch - 97 + 10
     else if 65 \<le> ch \<and> ch \<le> 70 then ch - 65 + 10 else 16)"

definition numeralValue :: "int \<Rightarrow> string \<Rightarrow> int" where
  "numeralValue base s = foldl (\<lambda>v c. v * base + digitVal (ord c)) 0 s"

text \<open>An unsigned numeral of the base, at least one digit and no others, below the limit.\<close>

definition parseDigits :: "int \<Rightarrow> int \<Rightarrow> string \<Rightarrow> int option" where
  "parseDigits base limit s = (if s = [] \<or> (\<exists>c \<in> set s. digitVal (ord c) \<ge> base) \<or> numeralValue base s \<ge> limit then None
     else Some (numeralValue base s))"

text \<open>\<^verbatim>\<open>ParseInt(s, 0, 64)\<close> on an unsigned numeral: the prefix tells the base.\<close>

definition ParseInt0 :: "string \<Rightarrow> int option" where
  "ParseInt0 s = (if length s \<ge> 2 \<and> s ! 0 = CHR ''0'' \<and> s ! 1 \<in> {CHR ''x'', CHR ''X''} then parseDigits 16 (2 ^ 63) (drop 2 s)
     else if s \<noteq> [] \<and> s ! 0 = CHR ''0'' then parseDigits 8 (2 ^ 63) s
     else parseDigits 10 (2 ^ 63) s)"

text \<open>\<^verbatim>\<open>Atoi\<close> on an unsigned numeral.\<close>

definition Atoi :: "string \<Rightarrow> int option" where
  "Atoi s = parseDigits 10 (2 ^ 63) s"

definition digitChar :: "int \<Rightarrow> char" where
  "digitChar d = char_of (48 + d)"

function formatDigits :: "int \<Rightarrow> string" where
  "formatDigits n = (if n < 10 then [digitChar n] else formatDigits (n div 10) @ [digitChar (n mod 10)])"
  by pat_completeness auto
termination by (relation "measure nat") auto

declare formatDigits.simps [simp del]

definition Itoa :: "int \<Rightarrow> string" where
  "Itoa n = (if n < 0 then ''-'' @ formatDigits (- n) else formatDigits n)"

lemma ord_digitChar: "0 \<le> d \<Longrightarrow> d < 10 \<Longrightarrow> ord (digitChar d) = 48 + d"
  by (simp add: ord_def digitChar_def)

lemma digitVal_digitChar [simp]: "0 \<le> d \<Longrightarrow> d < 10 \<Longrightarrow> digitVal (ord (digitChar d)) = d"
  by (simp add: ord_digitChar digitVal_def)

lemma formatDigits_digits: "0 \<le> n \<Longrightarrow> c \<in> set (formatDigits n) \<Longrightarrow> 48 \<le> ord c \<and> ord c \<le> 57"
proof (induction n rule: formatDigits.induct)
  case (1 n)
  then show ?case by (cases "n < 10") (auto simp: formatDigits.simps [of n] ord_digitChar)
qed

lemma formatDigits_nonempty [simp]: "formatDigits n \<noteq> []"
  by (simp add: formatDigits.simps)

lemma numeralValue_snoc: "numeralValue b (s @ [c]) = numeralValue b s * b + digitVal (ord c)"
  by (simp add: numeralValue_def)

lemma numeralValue_formatDigits [simp]: "0 \<le> n \<Longrightarrow> numeralValue 10 (formatDigits n) = n"
proof (induction n rule: formatDigits.induct)
  case (1 n)
  show ?case
  proof (cases "n < 10")
    case True
    with 1 show ?thesis by (simp add: formatDigits.simps numeralValue_def)
  next
    case False
    with 1 have "numeralValue 10 (formatDigits (n div 10)) = n div 10" by simp
    with False show ?thesis by (simp add: formatDigits.simps [of n] numeralValue_snoc)
  qed
qed

lemma formatDigits_no_leading_zero: "n > 0 \<Longrightarrow> hd (formatDigits n) \<noteq> CHR ''0''"
proof (induction n rule: formatDigits.induct)
  case (1 n)
  show ?case
  proof (cases "n < 10")
    case True
    with 1 have "ord (digitChar n) \<noteq> 48" by (simp add: ord_digitChar)
    then have "digitChar n \<noteq> CHR ''0''" by (auto simp: ord_def)
    with True show ?thesis by (simp add: formatDigits.simps)
  qed (use 1 in \<open>simp add: formatDigits.simps [of n]\<close>)
qed

lemma digitVal_small: "48 \<le> x \<Longrightarrow> x \<le> 57 \<Longrightarrow> digitVal x < 10"
  by (simp add: digitVal_def)

lemma digitVal_zero: "digitVal (ord CHR ''0'') = 0"
  by (simp add: ord_def digitVal_def)

lemma digitVal_nonneg [simp]: "0 \<le> digitVal x"
  by (simp add: digitVal_def)

lemma numeralValue_nonneg: "0 \<le> b \<Longrightarrow> 0 \<le> numeralValue b s"
  by (induction s rule: rev_induct) (simp_all add: numeralValue_snoc numeralValue_def)

lemma parseDigits_range: "parseDigits b l s = Some n \<Longrightarrow> 0 \<le> b \<Longrightarrow> 0 \<le> n \<and> n < l"
  by (auto simp: parseDigits_def numeralValue_nonneg split: if_splits)

lemma ParseInt0_range: "ParseInt0 s = Some n \<Longrightarrow> 0 \<le> n \<and> n < 2 ^ 63"
  using parseDigits_range [of _ "2 ^ 63" _ n] by (auto simp: ParseInt0_def split: if_splits)

lemma Atoi_range: "Atoi s = Some n \<Longrightarrow> 0 \<le> n \<and> n < 2 ^ 63"
  unfolding Atoi_def by (auto dest: parseDigits_range)

lemma Itoa_digits: "0 \<le> n \<Longrightarrow> c \<in> set (Itoa n) \<Longrightarrow> 48 \<le> ord c \<and> ord c \<le> 57"
  by (simp add: Itoa_def formatDigits_digits)

lemma Itoa_nonempty [simp]: "Itoa n \<noteq> []"
  by (simp add: Itoa_def)

lemma Itoa_no_leading_zero: "n > 0 \<Longrightarrow> hd (Itoa n) \<noteq> CHR ''0''"
  by (simp add: Itoa_def formatDigits_no_leading_zero)

lemma Itoa_zero: "Itoa 0 = ''0''"
  by (simp add: Itoa_def formatDigits.simps digitChar_def char_of_def)

lemma Atoi_Itoa: "0 \<le> n \<Longrightarrow> n < 2 ^ 63 \<Longrightarrow> Atoi (Itoa n) = Some n"
  using Itoa_digits [of n] digitVal_small by (force simp: Atoi_def parseDigits_def Itoa_def)

lemma ParseInt0_Itoa: "0 \<le> n \<Longrightarrow> n < 2 ^ 63 \<Longrightarrow> ParseInt0 (Itoa n) = Some n"
proof (cases "n = 0")
  case True
  then show ?thesis using digitVal_zero by (simp add: Itoa_zero ParseInt0_def parseDigits_def numeralValue_def)
next
  case False
  moreover assume n: "0 \<le> n" "n < 2 ^ 63"
  ultimately have "Itoa n ! 0 \<noteq> CHR ''0''" using Itoa_no_leading_zero [of n] by (simp add: hd_conv_nth)
  then show ?thesis using Atoi_Itoa [OF n] by (simp add: ParseInt0_def Atoi_def)
qed

end
