(* ===== verification/Filter_Scanner.thy ===== *)
theory Filter_Scanner
  imports Strconv
begin

text \<open>
  The scanner of filter expressions, \<^verbatim>\<open>core/query/filter/scanner.go\<close>. An error of the scanner is a panic that \<open>parse\<close> recovers, here a
  failure. The tables of Unicode letters and digits are a parameter.
\<close>

section \<open>Data\<close>

record unicode =
  uni_IsLetter :: "int \<Rightarrow> bool"
  uni_IsDigit :: "int \<Rightarrow> bool"

datatype token = tokInvalid | tokEOF | tokKeyword | tokIdent | tokString | tokInteger | tokPunct | tokPlaceholder

fun tokenString :: "token \<Rightarrow> string" where
  "tokenString tokInvalid = ''invalid''"
| "tokenString tokEOF = ''EOF''"
| "tokenString tokKeyword = ''keyword''"
| "tokenString tokIdent = ''identifier''"
| "tokenString tokString = ''string''"
| "tokenString tokInteger = ''integer''"
| "tokenString tokPunct = ''punctuation''"
| "tokenString tokPlaceholder = ''placeholder''"

datatype parseMsg = IllegalNUL | IllegalUTF8 | IllegalBOM | IllegalHex | LeadingZero | Unterminated | IllegalBackslash | IllegalDollar
  | IllegalCharacter int | Expected string string | InvalidInteger string | InvalidPlaceholder string

record parseError =
  pe_pos :: nat
  pe_msg :: parseMsg

text \<open>The current character is negative at the end of the source. The offset \<^verbatim>\<open>-1\<close> of \<open>init\<close> is overwritten before it is read.\<close>

record scanner =
  sc_src :: string
  sc_ch :: int
  sc_offset :: nat
  sc_rdOffset :: nat

definition scanError :: "nat \<Rightarrow> parseMsg \<Rightarrow> (parseError, 'a) outcome" where
  "scanError pos msg = Fail \<lparr>pe_pos = pos, pe_msg = msg\<rparr>"

section \<open>Characters\<close>

definition RuneError :: int where
  "RuneError = 65533"

definition bom :: int where
  "bom = 65279"

definition cont :: "int \<Rightarrow> bool" where
  "cont b \<longleftrightarrow> 128 \<le> b \<and> b \<le> 191"

text \<open>\<^verbatim>\<open>utf8.DecodeRune\<close>: a code point and its width; overlong forms, surrogates and values above \<^verbatim>\<open>10FFFF\<close> are errors of width one.\<close>

definition DecodeRune :: "string \<Rightarrow> int \<times> nat" where
  "DecodeRune s = (case map ord s of [] \<Rightarrow> (RuneError, 0)
     | b0 # bs \<Rightarrow>
       if b0 < 128 then (b0, 1)
       else if 194 \<le> b0 \<and> b0 \<le> 223 then
         (case bs of b1 # _ \<Rightarrow> if cont b1 then ((b0 - 192) * 64 + (b1 - 128), 2) else (RuneError, 1) | _ \<Rightarrow> (RuneError, 1))
       else if 224 \<le> b0 \<and> b0 \<le> 239 then
         (case bs of b1 # b2 # _ \<Rightarrow>
            if (if b0 = 224 then 160 else 128) \<le> b1 \<and> b1 \<le> (if b0 = 237 then 159 else 191) \<and> cont b2
            then ((b0 - 224) * 4096 + (b1 - 128) * 64 + (b2 - 128), 3) else (RuneError, 1)
          | _ \<Rightarrow> (RuneError, 1))
       else if 240 \<le> b0 \<and> b0 \<le> 244 then
         (case bs of b1 # b2 # b3 # _ \<Rightarrow>
            if (if b0 = 240 then 144 else 128) \<le> b1 \<and> b1 \<le> (if b0 = 244 then 143 else 191) \<and> cont b2 \<and> cont b3
            then ((b0 - 240) * 262144 + (b1 - 128) * 4096 + (b2 - 128) * 64 + (b3 - 128), 4) else (RuneError, 1)
          | _ \<Rightarrow> (RuneError, 1))
       else (RuneError, 1))"

text \<open>\<open>next\<close> of the scanner.\<close>

definition scanNext :: "scanner \<Rightarrow> (parseError, scanner) outcome" where
  "scanNext s = (let off = sc_rdOffset s in
     if off < length (sc_src s) then
       let b = ord (sc_src s ! off); (r, w) = (if b \<ge> 128 then DecodeRune (drop off (sc_src s)) else (b, 1)) in
       if b = 0 then scanError (off + 1) IllegalNUL
       else if b \<ge> 128 \<and> r = RuneError \<and> w = 1 then scanError off IllegalUTF8
       else if b \<ge> 128 \<and> r = bom then scanError off IllegalBOM
       else Ok (s\<lparr>sc_offset := off, sc_rdOffset := off + w, sc_ch := r\<rparr>)
     else Ok (s\<lparr>sc_offset := length (sc_src s), sc_ch := -1\<rparr>))"

definition scannerInit :: "string \<Rightarrow> (parseError, scanner) outcome" where
  "scannerInit src = scanNext \<lparr>sc_src = src, sc_ch = 0, sc_offset = 0, sc_rdOffset = 0\<rparr>"

definition isLetter :: "unicode \<Rightarrow> int \<Rightarrow> bool" where
  "isLetter U ch \<longleftrightarrow> 97 \<le> ch \<and> ch \<le> 122 \<or> 65 \<le> ch \<and> ch \<le> 90 \<or> ch = ord CHR ''_'' \<or> ch \<ge> 128 \<and> uni_IsLetter U ch"

definition isDigit :: "unicode \<Rightarrow> int \<Rightarrow> bool" where
  "isDigit U ch \<longleftrightarrow> 48 \<le> ch \<and> ch \<le> 57 \<or> ch \<ge> 128 \<and> uni_IsDigit U ch"

section \<open>Loops\<close>

text \<open>What is left to read, with the current character.\<close>

definition unread :: "scanner \<Rightarrow> nat" where
  "unread s = length (sc_src s) - sc_rdOffset s + (if sc_ch s \<ge> 0 then 1 else 0)"

lemma DecodeRune_width: "s \<noteq> [] \<Longrightarrow> DecodeRune s = (r, w) \<Longrightarrow> 0 < w \<and> w \<le> length s \<and> 0 \<le> r"
  by (cases s) (auto simp: DecodeRune_def RuneError_def cont_def split: list.splits if_splits)

lemma bindO_fcong [fundef_cong]: "m = m' \<Longrightarrow> (\<And>a. m' = Ok a \<Longrightarrow> f a = f' a) \<Longrightarrow> bindO m f = bindO m' f'"
  by (cases m') simp_all

lemma scanNext_unread:
  assumes "scanNext s = Ok s'" and "sc_ch s \<ge> 0"
  shows "unread s' < unread s"
proof (cases "sc_rdOffset s < length (sc_src s)")
  case True
  let ?b = "ord (sc_src s ! sc_rdOffset s)"
  obtain r w where rw: "(if ?b \<ge> 128 then DecodeRune (drop (sc_rdOffset s) (sc_src s)) else (?b, 1)) = (r, w)" by fastforce
  then have "0 < w" using DecodeRune_width [of "drop (sc_rdOffset s) (sc_src s)" r w] True by (auto split: if_splits)
  moreover have "s' = s\<lparr>sc_offset := sc_rdOffset s, sc_rdOffset := sc_rdOffset s + w, sc_ch := r\<rparr>"
    using assms(1) True unfolding scanNext_def Let_def rw by (auto simp: scanError_def split: if_splits)
  ultimately show ?thesis using True assms(2) by (auto simp: unread_def)
next
  case False
  then show ?thesis using assms by (auto simp: scanNext_def unread_def Let_def)
qed

text \<open>The loop that reads on while a condition holds; at the end of the source none of the conditions of the code holds.\<close>

function nextWhile :: "(int \<Rightarrow> bool) \<Rightarrow> scanner \<Rightarrow> (parseError, scanner) outcome" where
  "nextWhile P s = (if sc_ch s \<ge> 0 \<and> P (sc_ch s) then bindO (scanNext s) (nextWhile P) else Ok s)"
  by pat_completeness auto
termination by (relation "measure (unread \<circ> snd)") (auto simp: scanNext_unread)

declare nextWhile.simps [simp del]

definition substring :: "string \<Rightarrow> nat \<Rightarrow> nat \<Rightarrow> string" where
  "substring s a b = take (b - a) (drop a s)"

definition scanIdentifier :: "unicode \<Rightarrow> scanner \<Rightarrow> (parseError, string \<times> scanner) outcome" where
  "scanIdentifier U s = bindO (nextWhile (\<lambda>ch. isLetter U ch \<or> isDigit U ch) s) (\<lambda>s'.
     Ok (substring (sc_src s) (sc_offset s) (sc_offset s'), s'))"

definition scanMantissa :: "int \<Rightarrow> scanner \<Rightarrow> (parseError, scanner) outcome" where
  "scanMantissa base = nextWhile (\<lambda>ch. digitVal ch < base)"

definition scanNumber :: "scanner \<Rightarrow> (parseError, scanner) outcome" where
  "scanNumber s =
     (if sc_ch s = ord CHR ''0'' then
        bindO (scanNext s) (\<lambda>s1.
        if sc_ch s1 = ord CHR ''x'' \<or> sc_ch s1 = ord CHR ''X'' then
          bindO (scanNext s1) (\<lambda>s2. bindO (scanMantissa 16 s2) (\<lambda>s3.
          if sc_offset s3 - sc_offset s \<le> 2 then scanError (sc_offset s) IllegalHex else Ok s3))
        else if digitVal (sc_ch s1) < 10 then scanError (sc_offset s) LeadingZero
        else Ok s1)
      else scanMantissa 10 s)"

function scanString :: "nat \<Rightarrow> scanner \<Rightarrow> (parseError, scanner) outcome" where
  "scanString offs s =
     (if sc_ch s < 0 then scanError offs Unterminated
      else bindO (scanNext s) (\<lambda>s'.
        if sc_ch s = 39 then Ok s'
        else if sc_ch s = 92 then scanError offs IllegalBackslash
        else scanString offs s'))"
  by pat_completeness auto
termination by (relation "measure (unread \<circ> snd)") (auto simp: scanNext_unread)

declare scanString.simps [simp del]

definition skipWhitespace :: "scanner \<Rightarrow> (parseError, scanner) outcome" where
  "skipWhitespace = nextWhile (\<lambda>ch. ch = 32 \<or> ch = 9)"

section \<open>Tokens\<close>

definition Scan :: "unicode \<Rightarrow> scanner \<Rightarrow> (parseError, (nat \<times> token \<times> string) \<times> scanner) outcome" where
  "Scan U s0 = bindO (skipWhitespace s0) (\<lambda>s.
     let pos = sc_offset s; ch = sc_ch s;
         ends = (\<lambda>tok s'. Ok ((pos, tok, substring (sc_src s) pos (sc_offset s')), s'))
     in
     if isLetter U ch then
       bindO (scanIdentifier U s) (\<lambda>(lit, s'). Ok ((pos, if lit = ''AND'' \<or> lit = ''OR'' then tokKeyword else tokIdent, lit), s'))
     else if 48 \<le> ch \<and> ch \<le> 57 then bindO (scanNumber s) (ends tokInteger)
     else bindO (scanNext s) (\<lambda>s1.
       if ch = -1 then Ok ((pos, tokEOF, ''''), s1)
       else if ch = 39 then bindO (scanString (sc_offset s1 - 1) s1) (ends tokString)
       else if ch \<in> {ord CHR ''.'', ord CHR ''('', ord CHR '')'', ord CHR ''=''} then ends tokPunct s1
       else if ch = ord CHR ''$'' then
         bindO (scanMantissa 10 s1) (\<lambda>s2. if sc_offset s2 - pos \<le> 1 then scanError pos IllegalDollar else ends tokPlaceholder s2)
       else scanError pos (IllegalCharacter ch)))"

end
