(* ===== verification/Filter_Parser.thy ===== *)
theory Filter_Parser
  imports Filter_Scanner
begin

text \<open>
  Filter expressions and their parser, \<^verbatim>\<open>core/query/filter/expr.go\<close>, \<^verbatim>\<open>operators.go\<close> and \<^verbatim>\<open>parser.go\<close>. The mutually recursive parser
  functions take fuel; \<open>parse\<close> gives them enough.
\<close>

section \<open>Expressions\<close>

record binaryOp =
  bo_precedence :: nat
  bo_name :: string
  bo_sqlOp :: string

definition binaryOps :: "string \<Rightarrow> binaryOp option" where
  "binaryOps = [''OR'' \<mapsto> \<lparr>bo_precedence = 1, bo_name = ''OR'', bo_sqlOp = ''OR''\<rparr>,
     ''AND'' \<mapsto> \<lparr>bo_precedence = 2, bo_name = ''AND'', bo_sqlOp = ''AND''\<rparr>,
     ''='' \<mapsto> \<lparr>bo_precedence = 3, bo_name = ''='', bo_sqlOp = ''=''\<rparr>]"

datatype expr =
    BinaryExpr binaryOp expr expr
  | AttrExpr string
  | SelectorExpr string expr
  | ParenExpr expr
  | ValueExpr token string
  | EnvExpr string expr
  | PlaceholderExpr int

primrec exprString :: "expr \<Rightarrow> string" where
  "exprString (BinaryExpr op l r) = exprString l @ '' '' @ bo_name op @ '' '' @ exprString r"
| "exprString (AttrExpr attr) = attr"
| "exprString (SelectorExpr ident obj) = exprString obj @ ''.'' @ ident"
| "exprString (ParenExpr inner) = ''('' @ exprString inner @ '')''"
| "exprString (ValueExpr typ v) = v"
| "exprString (EnvExpr ident e) = ident @ ''('' @ exprString e @ '')''"
| "exprString (PlaceholderExpr num) = ''$'' @ Itoa num"

datatype Type = Any | Bool | String | Integer | Object

section \<open>Parser\<close>

record parser =
  pa_scanner :: scanner
  pa_maxPlaceholder :: int
  pa_pos :: nat
  pa_tok :: token
  pa_lit :: string

definition parserError :: "parser \<Rightarrow> parseMsg \<Rightarrow> (parseError, 'a) outcome" where
  "parserError p msg = Fail \<lparr>pe_pos = pa_pos p, pe_msg = msg\<rparr>"

definition parserNext :: "unicode \<Rightarrow> parser \<Rightarrow> (parseError, parser) outcome" where
  "parserNext U p = bindO (Scan U (pa_scanner p)) (\<lambda>((pos, tok, lit), s).
     Ok (p\<lparr>pa_scanner := s, pa_pos := pos, pa_tok := tok, pa_lit := lit\<rparr>))"

definition newParser :: "unicode \<Rightarrow> string \<Rightarrow> (parseError, parser) outcome" where
  "newParser U src = bindO (scannerInit src) (\<lambda>s.
     parserNext U \<lparr>pa_scanner = s, pa_maxPlaceholder = 0, pa_pos = 0, pa_tok = tokInvalid, pa_lit = ''''\<rparr>)"

definition determineBinaryOp :: "parser \<Rightarrow> nat \<Rightarrow> binaryOp option" where
  "determineBinaryOp p minPrecedence = (case binaryOps (pa_lit p) of None \<Rightarrow> None
     | Some op \<Rightarrow> if bo_precedence op \<ge> minPrecedence then Some op else None)"

definition parseLit :: "unicode \<Rightarrow> string \<Rightarrow> parser \<Rightarrow> (parseError, parser) outcome" where
  "parseLit U lit p = (if pa_lit p \<noteq> lit then parserError p (Expected (pa_lit p) lit) else parserNext U p)"

definition parseTok :: "unicode \<Rightarrow> token \<Rightarrow> parser \<Rightarrow> (parseError, parser) outcome" where
  "parseTok U tok p = (if pa_tok p \<noteq> tok then parserError p (Expected (pa_lit p) (tokenString tok)) else parserNext U p)"

definition parseSelectorExpr :: "unicode \<Rightarrow> expr \<Rightarrow> parser \<Rightarrow> (parseError, expr \<times> parser) outcome" where
  "parseSelectorExpr U obj p = bindO (parserNext U p) (\<lambda>p1. bindO (parseTok U tokIdent p1) (\<lambda>p2. Ok (SelectorExpr (pa_lit p1) obj, p2)))"

text \<open>The literals and placeholders among the operands.\<close>

definition parseLiteral :: "unicode \<Rightarrow> parser \<Rightarrow> (parseError, expr \<times> parser) outcome" where
  "parseLiteral U p =
     (if pa_tok p = tokString then bindO (parserNext U p) (\<lambda>p'. Ok (ValueExpr (pa_tok p) (pa_lit p), p'))
      else if pa_tok p = tokInteger then
        (case ParseInt0 (pa_lit p) of None \<Rightarrow> parserError p (InvalidInteger (pa_lit p))
           | Some i \<Rightarrow> bindO (parserNext U p) (\<lambda>p'. Ok (ValueExpr (pa_tok p) (Itoa i), p')))
      else
        (case Atoi (tl (pa_lit p)) of None \<Rightarrow> parserError p (InvalidPlaceholder (pa_lit p))
           | Some num \<Rightarrow>
             if num \<le> 0 then parserError p (InvalidPlaceholder (pa_lit p))
             else bindO (parserNext U p) (\<lambda>p'. Ok (PlaceholderExpr num, p'\<lparr>pa_maxPlaceholder := max num (pa_maxPlaceholder p')\<rparr>))))"

text \<open>
  The functions below call each other in a circle through the expression between parentheses. They take the parser of such expressions, or
  of primary expressions, as an argument, and \<open>parseExpr\<close> closes the circle. \<open>contLoop\<close> is the inner loop of \<open>parseExprCont\<close> and
  \<open>selectorLoop\<close> the one of \<open>parsePrimaryExpr\<close>.
\<close>

type_synonym 'a parsing = "parser \<Rightarrow> (parseError, 'a \<times> parser) outcome"

definition parseEnvironmentExpr :: "unicode \<Rightarrow> expr parsing \<Rightarrow> expr parsing" where
  "parseEnvironmentExpr U nested p =
     bindO (parseTok U tokIdent p) (\<lambda>p1.
     if pa_lit p1 \<noteq> ''('' then Ok (AttrExpr (pa_lit p), p1)
     else bindO (parserNext U p1) (\<lambda>p2. bindO (nested p2) (\<lambda>(e, p3). bindO (parseLit U '')'' p3) (\<lambda>p4. Ok (EnvExpr (pa_lit p) e, p4)))))"

definition parseOperand :: "unicode \<Rightarrow> expr parsing \<Rightarrow> expr parsing" where
  "parseOperand U nested p =
     (if pa_lit p = ''('' then
        bindO (parserNext U p) (\<lambda>p1. bindO (nested p1) (\<lambda>(e, p2). bindO (parseLit U '')'' p2) (\<lambda>p3. Ok (ParenExpr e, p3))))
      else if pa_tok p \<in> {tokString, tokInteger, tokPlaceholder} then parseLiteral U p
      else parseEnvironmentExpr U nested p)"

primrec selectorLoop :: "unicode \<Rightarrow> nat \<Rightarrow> expr \<Rightarrow> expr parsing" where
  "selectorLoop U 0 x p = Diverge"
| "selectorLoop U (Suc n) x p =
     (if pa_lit p = ''.'' then bindO (parseSelectorExpr U x p) (\<lambda>(x', p'). selectorLoop U n x' p') else Ok (x, p))"

definition parsePrimaryExpr :: "unicode \<Rightarrow> nat \<Rightarrow> expr parsing \<Rightarrow> expr parsing" where
  "parsePrimaryExpr U n nested p = bindO (parseOperand U nested p) (\<lambda>(x, p'). selectorLoop U n x p')"

fun parseExprCont :: "unicode \<Rightarrow> expr parsing \<Rightarrow> nat \<Rightarrow> expr \<Rightarrow> nat \<Rightarrow> expr parsing"
  and contLoop :: "unicode \<Rightarrow> expr parsing \<Rightarrow> nat \<Rightarrow> expr \<Rightarrow> nat \<Rightarrow> expr parsing" where
  "parseExprCont U primary 0 lhs m p = Diverge"
| "parseExprCont U primary (Suc n) lhs m p =
     (case determineBinaryOp p m of None \<Rightarrow> Ok (lhs, p)
      | Some op \<Rightarrow>
        bindO (parserNext U p) (\<lambda>p1.
        bindO (primary p1) (\<lambda>(rhs, p2).
        bindO (contLoop U primary n rhs (bo_precedence op + 1) p2) (\<lambda>(rhs', p3).
        parseExprCont U primary n (BinaryExpr op lhs rhs') m p3))))"
| "contLoop U primary 0 rhs m p = Diverge"
| "contLoop U primary (Suc n) rhs m p =
     (case determineBinaryOp p m of None \<Rightarrow> Ok (rhs, p)
      | Some op2 \<Rightarrow> bindO (parseExprCont U primary n rhs (bo_precedence op2) p) (\<lambda>(rhs', p'). contLoop U primary n rhs' m p'))"

primrec parseExpr :: "unicode \<Rightarrow> nat \<Rightarrow> expr parsing" where
  "parseExpr U 0 p = Diverge"
| "parseExpr U (Suc n) p =
     bindO (parsePrimaryExpr U n (parseExpr U n) p) (\<lambda>(e, p1). parseExprCont U (parsePrimaryExpr U n (parseExpr U n)) n e 0 p1)"

text \<open>An empty expression is a valid predicate, here \<open>None\<close>. A token takes a character of the source, and at most two levels of fuel.\<close>

definition parse :: "unicode \<Rightarrow> string \<Rightarrow> (parseError, expr option \<times> parser) outcome" where
  "parse U src = bindO (newParser U src) (\<lambda>p.
     if pa_tok p = tokEOF then Ok (None, p)
     else bindO (parseExpr U (2 * length src + 4) p) (\<lambda>(e, p1). bindO (parseTok U tokEOF p1) (\<lambda>p2. Ok (Some e, p2))))"

end
