(* ===== verification/Filter_Lexing.thy ===== *)
theory Filter_Lexing
  imports Filter_Parser
begin

text \<open>
  What the scanner of filters accepts, and that it reads back the text of its tokens.
\<close>

section \<open>Characters of a source\<close>

text \<open>The bytes of a character that the scanner accepts: decoding reads exactly these bytes, whatever follows.\<close>

definition runeText :: "int \<Rightarrow> string \<Rightarrow> bool" where
  "runeText r b \<longleftrightarrow> b \<noteq> [] \<and> 0 < r \<and> (if ord (hd b) < 128 then b = [hd b] \<and> r = ord (hd b)
     else 128 \<le> r \<and> r \<noteq> bom \<and> length b \<ge> 2 \<and> (\<forall>rest. DecodeRune (b @ rest) = (r, length b)))"

lemma DecodeRune_local:
  assumes "DecodeRune s = (r, w)" and "s \<noteq> []" and "ord (hd s) \<ge> 128" and "\<not> (r = RuneError \<and> w = 1)"
  shows "128 \<le> r \<and> 2 \<le> w \<and> w \<le> length s \<and> (\<forall>rest. DecodeRune (take w s @ rest) = (r, w))"
proof -
  obtain c s1 where s: "s = c # s1" using assms(2) by (cases s) auto
  have big: "\<not> ord c < 128" using assms(3) s by simp
  show ?thesis
  proof (cases "194 \<le> ord c \<and> ord c \<le> 223")
    case True
    with assms(1,4) s big obtain c1 s2 where "s1 = c1 # s2" "cont (ord c1)" "r = (ord c - 192) * 64 + (ord c1 - 128)" "w = 2"
      by (cases s1) (auto simp: DecodeRune_def split: if_splits)
    with s big True show ?thesis by (simp add: DecodeRune_def cont_def)
  next
    case two: False
    show ?thesis
    proof (cases "224 \<le> ord c \<and> ord c \<le> 239")
      case True
      with assms(1,4) s big two obtain c1 c2 s2 where "s1 = c1 # c2 # s2" "(if ord c = 224 then 160 else 128) \<le> ord c1"
          "ord c1 \<le> (if ord c = 237 then 159 else 191)" "cont (ord c2)" "r = (ord c - 224) * 4096 + (ord c1 - 128) * 64 + (ord c2 - 128)" "w = 3"
        by (cases s1; cases "tl s1") (auto simp: DecodeRune_def split: if_splits)
      with s big True two show ?thesis by (auto simp: DecodeRune_def cont_def split: if_splits)
    next
      case False
      with assms(1,4) s big two obtain c1 c2 c3 s2 where "240 \<le> ord c \<and> ord c \<le> 244" "s1 = c1 # c2 # c3 # s2"
          "(if ord c = 240 then 144 else 128) \<le> ord c1" "ord c1 \<le> (if ord c = 244 then 143 else 191)" "cont (ord c2)" "cont (ord c3)"
          "r = (ord c - 240) * 262144 + (ord c1 - 128) * 4096 + (ord c2 - 128) * 64 + (ord c3 - 128)" "w = 4"
        by (cases s1; cases "tl s1"; cases "tl (tl s1)") (auto simp: DecodeRune_def split: if_splits)
      with s big False two show ?thesis by (auto simp: DecodeRune_def cont_def split: if_splits)
    qed
  qed
qed

definition endOfSource :: "scanner \<Rightarrow> bool" where
  "endOfSource s \<longleftrightarrow> sc_ch s = -1 \<and> sc_offset s = length (sc_src s) \<and> sc_rdOffset s = length (sc_src s)"

definition atRune :: "scanner \<Rightarrow> bool" where
  "atRune s \<longleftrightarrow> sc_offset s < sc_rdOffset s \<and> sc_rdOffset s \<le> length (sc_src s) \<and> runeText (sc_ch s) (substring (sc_src s) (sc_offset s) (sc_rdOffset s))"

definition scanOK :: "scanner \<Rightarrow> bool" where
  "scanOK s \<longleftrightarrow> endOfSource s \<or> atRune s"

lemma scanNext_sound:
  assumes "scanNext s = Ok s'" and "sc_rdOffset s \<le> length (sc_src s)"
  shows "scanOK s' \<and> sc_src s' = sc_src s \<and> sc_offset s' = sc_rdOffset s"
proof (cases "sc_rdOffset s < length (sc_src s)")
  case True
  let ?d = "drop (sc_rdOffset s) (sc_src s)"
  let ?b = "ord (sc_src s ! sc_rdOffset s)"
  obtain r w where rw: "(if ?b \<ge> 128 then DecodeRune ?d else (?b, 1)) = (r, w)" by fastforce
  have s': "s' = s\<lparr>sc_offset := sc_rdOffset s, sc_rdOffset := sc_rdOffset s + w, sc_ch := r\<rparr>" "?b \<noteq> 0"
      "?b \<ge> 128 \<Longrightarrow> \<not> (r = RuneError \<and> w = 1)" "?b \<ge> 128 \<Longrightarrow> r \<noteq> bom"
    using assms(1) True unfolding scanNext_def Let_def rw by (auto simp: scanError_def split: if_splits)
  have hd: "ord (hd ?d) = ?b" "?d \<noteq> []" using True by (simp_all add: hd_drop_conv_nth)
  have "runeText r (take w ?d) \<and> 0 < w \<and> w \<le> length ?d"
  proof (cases "?b \<ge> 128")
    case False
    with rw have "r = ?b" "w = 1" by auto
    moreover have "take 1 ?d = [hd ?d]" using hd(2) by (cases ?d) auto
    moreover have "0 < ?b" using s'(2) ord_bounds(1) [of "sc_src s ! sc_rdOffset s"] by linarith
    ultimately show ?thesis using False hd True by (simp add: runeText_def)
  next
    case big: True
    with DecodeRune_local [of ?d r w] rw s'(3) hd have d: "128 \<le> r" "2 \<le> w" "w \<le> length ?d" "\<forall>rest. DecodeRune (take w ?d @ rest) = (r, w)" by auto
    moreover have "hd (take w ?d) = hd ?d" using d(2) by (cases ?d) (auto simp: take_Cons')
    ultimately show ?thesis using big s'(4) hd by (auto simp: runeText_def min_def)
  qed
  then show ?thesis using s'(1) True by (auto simp: scanOK_def atRune_def substring_def)
next
  case False
  then show ?thesis using assms by (auto simp: scanNext_def Let_def scanOK_def endOfSource_def)
qed

lemma scanOK_offsets: "scanOK s \<Longrightarrow> sc_offset s \<le> sc_rdOffset s \<and> sc_rdOffset s \<le> length (sc_src s)"
  by (auto simp: scanOK_def endOfSource_def atRune_def)

lemma scanOK_ch: "scanOK s \<Longrightarrow> sc_ch s \<ge> 0 \<longleftrightarrow> atRune s"
  by (auto simp: scanOK_def endOfSource_def atRune_def runeText_def)

section \<open>Text of characters\<close>

text \<open>A text whose characters have a property.\<close>

inductive runesOf :: "(int \<Rightarrow> bool) \<Rightarrow> string \<Rightarrow> bool" for P where
  runesOf_nil: "runesOf P []"
| runesOf_rune: "runeText r b \<Longrightarrow> P r \<Longrightarrow> runesOf P t \<Longrightarrow> runesOf P (b @ t)"

lemma substring_split: "a \<le> b \<Longrightarrow> b \<le> c \<Longrightarrow> substring s a c = substring s a b @ substring s b c"
  by (auto simp: le_iff_add substring_def take_add drop_drop add.commute)

lemma nextWhile_sound:
  assumes "nextWhile P s = Ok s'" and "scanOK s"
  shows "scanOK s' \<and> sc_src s' = sc_src s \<and> sc_offset s \<le> sc_offset s' \<and> runesOf P (substring (sc_src s) (sc_offset s) (sc_offset s')) \<and>
    \<not> (sc_ch s' \<ge> 0 \<and> P (sc_ch s')) \<and>
    (sc_ch s \<ge> 0 \<and> P (sc_ch s) \<longrightarrow> (\<exists>b t. substring (sc_src s) (sc_offset s) (sc_offset s') = b @ t \<and> runeText (sc_ch s) b \<and> runesOf P t))"
  using assms
proof (induction P s rule: nextWhile.induct)
  case (1 P s)
  show ?case
  proof (cases "sc_ch s \<ge> 0 \<and> P (sc_ch s)")
    case True
    with 1 obtain s1 where s1: "scanNext s = Ok s1" "nextWhile P s1 = Ok s'" by (auto simp: nextWhile.simps [of P s] bindO_Ok_iff)
    have n: "scanOK s1" "sc_src s1 = sc_src s" "sc_offset s1 = sc_rdOffset s"
      using scanNext_sound [OF s1(1)] scanOK_offsets [OF 1(3)] by simp_all
    have r: "atRune s" using True 1(3) scanOK_ch by blast
    have IH: "scanOK s'" "sc_src s' = sc_src s1" "sc_offset s1 \<le> sc_offset s'" "runesOf P (substring (sc_src s1) (sc_offset s1) (sc_offset s'))"
        "\<not> (sc_ch s' \<ge> 0 \<and> P (sc_ch s'))"
      using 1(1) [OF True s1(1) s1(2) n(1)] by simp_all
    have sl: "substring (sc_src s) (sc_offset s) (sc_offset s') = substring (sc_src s) (sc_offset s) (sc_rdOffset s) @ substring (sc_src s1) (sc_offset s1) (sc_offset s')"
      using substring_split [of "sc_offset s" "sc_rdOffset s" "sc_offset s'"] r n IH(3) by (simp add: atRune_def)
    have "runesOf P (substring (sc_src s) (sc_offset s) (sc_offset s'))"
      unfolding sl using r True IH(4) by (intro runesOf_rune) (auto simp: atRune_def)
    moreover have "\<exists>b t. substring (sc_src s) (sc_offset s) (sc_offset s') = b @ t \<and> runeText (sc_ch s) b \<and> runesOf P t"
      unfolding sl using r IH(4) by (auto simp: atRune_def)
    ultimately show ?thesis using IH n r by (auto simp: atRune_def)
  next
    case False
    then have "s' = s" using 1(2) by (auto simp: nextWhile.simps [of P s] split: if_splits)
    with False 1(3) show ?thesis by (auto simp: substring_def intro: runesOf_nil)
  qed
qed

lemma runeText_ascii: "runeText r b \<Longrightarrow> r < 128 \<Longrightarrow> \<exists>c. b = [c] \<and> ord c = r"
  unfolding runeText_def by (cases "ord (hd b) < 128") auto

lemma ascii_runeText: "0 < ord c \<Longrightarrow> ord c < 128 \<Longrightarrow> runeText (ord c) [c]"
  by (simp add: runeText_def)

section \<open>Tokens are well formed\<close>

abbreviation identRune :: "unicode \<Rightarrow> int \<Rightarrow> bool" where
  "identRune U \<equiv> (\<lambda>ch. isLetter U ch \<or> isDigit U ch)"

abbreviation stringRune :: "int \<Rightarrow> bool" where
  "stringRune \<equiv> (\<lambda>ch. ch \<noteq> 39 \<and> ch \<noteq> 92)"

definition identText :: "unicode \<Rightarrow> string \<Rightarrow> bool" where
  "identText U t \<longleftrightarrow> (\<exists>r b t'. t = b @ t' \<and> runeText r b \<and> isLetter U r \<and> runesOf (identRune U) t')"

definition stringText :: "string \<Rightarrow> bool" where
  "stringText t \<longleftrightarrow> (\<exists>t'. t = CHR 0x27 # t' @ [CHR 0x27] \<and> runesOf stringRune t')"

definition tokenOK :: "unicode \<Rightarrow> token \<Rightarrow> string \<Rightarrow> bool" where
  "tokenOK U tok lit = (case tok of tokInvalid \<Rightarrow> False | tokEOF \<Rightarrow> lit = [] | tokKeyword \<Rightarrow> lit \<in> {''AND'', ''OR''}
     | tokIdent \<Rightarrow> identText U lit \<and> lit \<notin> {''AND'', ''OR''} | tokString \<Rightarrow> stringText lit
     | tokPunct \<Rightarrow> lit \<in> {''.'', ''('', '')'', ''=''} | _ \<Rightarrow> True)"

lemma substring_rune: "atRune s \<Longrightarrow> sc_ch s < 128 \<Longrightarrow> \<exists>c. substring (sc_src s) (sc_offset s) (sc_rdOffset s) = [c] \<and> ord c = sc_ch s"
  using runeText_ascii [of "sc_ch s"] by (auto simp: atRune_def)

lemma ord_literal [simp]:
  "ord c = 39 \<longleftrightarrow> c = CHR 0x27" "ord c = 46 \<longleftrightarrow> c = CHR ''.''" "ord c = 40 \<longleftrightarrow> c = CHR ''(''" "ord c = 41 \<longleftrightarrow> c = CHR '')''"
  "ord c = 61 \<longleftrightarrow> c = CHR ''=''" "ord c = 36 \<longleftrightarrow> c = CHR ''$''" "ord c = 32 \<longleftrightarrow> c = CHR '' ''"
  "ord c = 48 \<longleftrightarrow> c = CHR ''0''"
  using ord_inject [of c "CHR 0x27"] ord_inject [of c "CHR ''.''"] ord_inject [of c "CHR ''(''"] ord_inject [of c "CHR '')''"]
    ord_inject [of c "CHR ''=''"] ord_inject [of c "CHR ''$''"] ord_inject [of c "CHR '' ''"] ord_inject [of c "CHR ''0''"]
  by (simp_all add: ord_def)

lemma scanString_sound:
  assumes "scanString offs s = Ok s'" and "scanOK s"
  shows "scanOK s' \<and> sc_src s' = sc_src s \<and> sc_offset s < sc_offset s' \<and>
    (\<exists>t. substring (sc_src s) (sc_offset s) (sc_offset s') = t @ [CHR 0x27] \<and> runesOf stringRune t)"
  using assms
proof (induction offs s rule: scanString.induct)
  case (1 offs s)
  have ch: "\<not> sc_ch s < 0" using 1(2) by (auto simp: scanString.simps [of offs s] scanError_def)
  with 1(2) obtain s1 where s1: "scanNext s = Ok s1"
      "(if sc_ch s = 39 then Ok s1 else if sc_ch s = 92 then scanError offs IllegalBackslash else scanString offs s1) = Ok s'"
    by (auto simp: scanString.simps [of offs s] bindO_Ok_iff)
  have n: "scanOK s1" "sc_src s1 = sc_src s" "sc_offset s1 = sc_rdOffset s"
    using scanNext_sound [OF s1(1)] scanOK_offsets [OF 1(3)] by simp_all
  have r: "atRune s" using ch scanOK_ch [OF 1(3)] by auto
  show ?case
  proof (cases "sc_ch s = 39")
    case True
    with substring_rune [OF r] have "substring (sc_src s) (sc_offset s) (sc_rdOffset s) = [CHR 0x27]" by auto
    with True s1(2) n r show ?thesis by (auto simp: atRune_def intro: runesOf_nil)
  next
    case False
    with s1(2) have b: "sc_ch s \<noteq> 92" "scanString offs s1 = Ok s'" by (auto simp: scanError_def split: if_splits)
    from 1(1) [OF ch s1(1) False b(1) b(2) n(1)] obtain t where IH: "scanOK s'" "sc_src s' = sc_src s1" "sc_offset s1 < sc_offset s'"
        "substring (sc_src s1) (sc_offset s1) (sc_offset s') = t @ [CHR 0x27]" "runesOf stringRune t" by auto
    have "substring (sc_src s) (sc_offset s) (sc_offset s') = substring (sc_src s) (sc_offset s) (sc_rdOffset s) @ substring (sc_src s1) (sc_offset s1) (sc_offset s')"
      using substring_split [of "sc_offset s" "sc_rdOffset s" "sc_offset s'"] r n IH(3) by (simp add: atRune_def)
    moreover have "runesOf stringRune (substring (sc_src s) (sc_offset s) (sc_rdOffset s) @ t)"
      using r False b(1) IH(5) by (intro runesOf_rune) (auto simp: atRune_def)
    ultimately show ?thesis using IH n r by (auto simp: atRune_def)
  qed
qed

lemma scanMantissa_sound:
  assumes "scanMantissa b s = Ok s'" and "scanOK s"
  shows "scanOK s' \<and> sc_src s' = sc_src s \<and> sc_offset s \<le> sc_offset s'"
  using nextWhile_sound assms unfolding scanMantissa_def by blast

lemma nextWhile_progress:
  assumes "nextWhile P s = Ok s'" and "scanOK s" and "sc_ch s \<ge> 0" and "P (sc_ch s)"
  shows "sc_offset s < sc_offset s'"
proof -
  from nextWhile_sound [OF assms(1,2)] assms(3,4) obtain b t where "substring (sc_src s) (sc_offset s) (sc_offset s') = b @ t" "runeText (sc_ch s) b" by blast
  then have "substring (sc_src s) (sc_offset s) (sc_offset s') \<noteq> []" by (auto simp: runeText_def)
  then show ?thesis by (auto simp: substring_def)
qed

lemma scanNext_progress:
  assumes "scanNext s = Ok s'" and "scanOK s" and "sc_ch s \<ge> 0"
  shows "scanOK s' \<and> sc_src s' = sc_src s \<and> sc_offset s < sc_offset s' \<and> sc_offset s' = sc_rdOffset s"
  using scanNext_sound [OF assms(1)] scanOK_offsets [OF assms(2)] scanOK_ch [OF assms(2)] assms(3) by (auto simp: atRune_def)

lemma scanNumber_sound:
  assumes "scanNumber s = Ok s'" and "scanOK s" and "48 \<le> sc_ch s" and "sc_ch s \<le> 57"
  shows "scanOK s' \<and> sc_src s' = sc_src s \<and> sc_offset s < sc_offset s'"
proof (cases "sc_ch s = ord CHR ''0''")
  case True
  with assms(1) obtain s1 where s1: "scanNext s = Ok s1" "(if sc_ch s1 = ord CHR ''x'' \<or> sc_ch s1 = ord CHR ''X'' then
          bindO (scanNext s1) (\<lambda>s2. bindO (scanMantissa 16 s2) (\<lambda>s3.
          if sc_offset s3 - sc_offset s \<le> 2 then scanError (sc_offset s) IllegalHex else Ok s3))
        else if digitVal (sc_ch s1) < 10 then scanError (sc_offset s) LeadingZero
        else Ok s1) = Ok s'" by (auto simp: scanNumber_def bindO_Ok_iff)
  have n: "scanOK s1" "sc_src s1 = sc_src s" "sc_offset s < sc_offset s1" using scanNext_progress [OF s1(1) assms(2)] assms(3) by simp_all
  show ?thesis
  proof (cases "sc_ch s1 = ord CHR ''x'' \<or> sc_ch s1 = ord CHR ''X''")
    case True
    with s1(2) obtain s2 where s2: "scanNext s1 = Ok s2" "scanMantissa 16 s2 = Ok s'" by (auto simp: bindO_Ok_iff scanError_def split: if_splits)
    have "sc_ch s1 \<ge> 0" using True by auto
    with scanNext_progress [OF s2(1) n(1)] scanMantissa_sound [OF s2(2)] n show ?thesis by auto
  next
    case False
    with s1(2) have "s' = s1" by (auto simp: scanError_def split: if_splits)
    with n show ?thesis by simp
  qed
next
  case False
  with assms(1) have "nextWhile (\<lambda>ch. digitVal ch < 10) s = Ok s'" by (simp add: scanNumber_def scanMantissa_def)
  from nextWhile_sound [OF this assms(2)] nextWhile_progress [OF this assms(2)] assms(3,4) digitVal_small show ?thesis by auto
qed

lemma substring_empty [simp]: "substring s a a = []"
  by (simp add: substring_def)

lemma isLetter_nonneg: "isLetter U ch \<Longrightarrow> 0 \<le> ch"
  by (auto simp: isLetter_def)

lemma Scan_ident_sound:
  assumes "scanOK s" and "isLetter U (sc_ch s)" and "scanIdentifier U s = Ok (lit, s')"
  shows "scanOK s' \<and> sc_src s' = sc_src s \<and> sc_offset s < sc_offset s' \<and> identText U lit"
proof -
  from assms(3) have w: "nextWhile (identRune U) s = Ok s'" "lit = substring (sc_src s) (sc_offset s) (sc_offset s')"
    by (auto simp: scanIdentifier_def bindO_Ok_iff)
  have ch: "0 \<le> sc_ch s" by (rule isLetter_nonneg [OF assms(2)])
  from nextWhile_sound [OF w(1) assms(1)] nextWhile_progress [OF w(1) assms(1) ch] assms(2) ch w(2) show ?thesis unfolding identText_def by blast
qed

lemma Scan_sound:
  assumes "Scan U s0 = Ok ((pos, tok, lit), s')" and "scanOK s0"
  shows "scanOK s' \<and> sc_src s' = sc_src s0 \<and> tokenOK U tok lit \<and> (if tok = tokEOF then endOfSource s' else sc_offset s0 < sc_offset s')"
proof -
  let ?lit = "\<lambda>s s'. substring (sc_src s) (sc_offset s) (sc_offset s')"
  from assms(1) obtain s where w: "skipWhitespace s0 = Ok s" by (auto simp: Scan_def Let_def bindO_Ok_iff)
  have s: "scanOK s" "sc_src s = sc_src s0" "sc_offset s0 \<le> sc_offset s" using nextWhile_sound [OF w [unfolded skipWhitespace_def] assms(2)] by simp_all
  consider (letter) "isLetter U (sc_ch s)" | (digit) "\<not> isLetter U (sc_ch s)" "48 \<le> sc_ch s" "sc_ch s \<le> 57"
    | (other) "\<not> isLetter U (sc_ch s)" "\<not> (48 \<le> sc_ch s \<and> sc_ch s \<le> 57)" by blast
  then show ?thesis
  proof cases
    case letter
    with assms(1) w obtain l where "scanIdentifier U s = Ok (l, s')" "tok = (if l = ''AND'' \<or> l = ''OR'' then tokKeyword else tokIdent)" "lit = l"
      by (auto simp: Scan_def Let_def bindO_Ok_iff)
    with Scan_ident_sound [OF s(1) letter this(1)] s show ?thesis by (auto simp: tokenOK_def)
  next
    case digit
    with assms(1) w have "scanNumber s = Ok s'" "tok = tokInteger" by (auto simp: Scan_def Let_def bindO_Ok_iff)
    with scanNumber_sound [OF this(1) s(1) digit(2,3)] s show ?thesis by (auto simp: tokenOK_def)
  next
    case other
    with assms(1) w obtain s1 where s1: "scanNext s = Ok s1" by (auto simp: Scan_def Let_def bindO_Ok_iff)
    let ?ch = "sc_ch s"
    have atEnd: ?thesis if "?ch = -1"
    proof -
      have "endOfSource s" using that s(1) scanOK_ch [OF s(1)] by (auto simp: scanOK_def)
      then have "s1 = s" using s1 by (auto simp: scanNext_def endOfSource_def)
      with that assms(1) w s1 other \<open>endOfSource s\<close> s show ?thesis by (auto simp: Scan_def Let_def scanOK_def tokenOK_def)
    qed
    have more: ?thesis if "?ch \<noteq> -1"
    proof -
      have ch: "0 \<le> ?ch" using that s(1) by (auto simp: scanOK_def endOfSource_def atRune_def runeText_def)
      have n: "scanOK s1" "sc_src s1 = sc_src s" "sc_offset s < sc_offset s1" "sc_offset s1 = sc_rdOffset s"
        using scanNext_progress [OF s1 s(1) ch] by simp_all
      have r: "atRune s" using ch scanOK_ch [OF s(1)] by simp
      consider (quote) "?ch = 39" | (punct) "?ch \<noteq> 39" "?ch \<in> {ord CHR ''.'', ord CHR ''('', ord CHR '')'', ord CHR ''=''}"
        | (dollar) "?ch \<noteq> 39" "?ch \<notin> {ord CHR ''.'', ord CHR ''('', ord CHR '')'', ord CHR ''=''}" "?ch = ord CHR ''$''"
        | (bad) "?ch \<noteq> 39" "?ch \<notin> {ord CHR ''.'', ord CHR ''('', ord CHR '')'', ord CHR ''=''}" "?ch \<noteq> ord CHR ''$''" by blast
      then show ?thesis
      proof cases
        case quote
        with assms(1) w s1 other have sc: "scanString (sc_offset s1 - 1) s1 = Ok s'" "tok = tokString" "lit = ?lit s s'"
          by (auto simp: Scan_def Let_def bindO_Ok_iff)
        from scanString_sound [OF sc(1) n(1)] obtain t where t: "scanOK s'" "sc_src s' = sc_src s1" "sc_offset s1 < sc_offset s'"
            "?lit s1 s' = t @ [CHR 0x27]" "runesOf stringRune t" by blast
        have "?lit s s' = substring (sc_src s) (sc_offset s) (sc_rdOffset s) @ ?lit s1 s'"
          using substring_split [of "sc_offset s" "sc_offset s1" "sc_offset s'" "sc_src s"] n t(3) by simp
        moreover have "substring (sc_src s) (sc_offset s) (sc_rdOffset s) = [CHR 0x27]" using substring_rune [OF r] quote by auto
        ultimately show ?thesis using sc t n s by (auto simp: tokenOK_def stringText_def)
      next
        case punct
        with assms(1) w s1 other that have "s' = s1" "tok = tokPunct" "lit = ?lit s s1" by (auto simp: Scan_def Let_def)
        moreover have "?ch < 128" using punct(2) by (auto simp: ord_def)
        with substring_rune [OF r] punct(2) n(4) have "?lit s s1 \<in> {''.'', ''('', '')'', ''=''}" by auto
        ultimately show ?thesis using n s by (auto simp: tokenOK_def)
      next
        case dollar
        with assms(1) w s1 other that have "scanMantissa 10 s1 = Ok s'" "tok = tokPlaceholder"
          by (auto simp: Scan_def Let_def bindO_Ok_iff scanError_def split: if_splits)
        with scanMantissa_sound [OF this(1) n(1)] n s show ?thesis by (auto simp: tokenOK_def)
      next
        case bad
        with assms(1) w s1 other that show ?thesis by (auto simp: Scan_def Let_def scanError_def)
      qed
    qed
    show ?thesis using atEnd more by blast
  qed
qed

end
