(* ===== verification/Filter_Print.thy ===== *)
theory Filter_Print
  imports Filter_Lexing
begin

text \<open>
  The scanner reads back the tokens of a printed filter expression.
\<close>

section \<open>The rest of a source\<close>

definition rest :: "scanner \<Rightarrow> string \<Rightarrow> bool" where
  "rest s t \<longleftrightarrow> scanOK s \<and> drop (sc_offset s) (sc_src s) = t \<and> runesOf (\<lambda>_. True) t"

lemma runeText_unique:
  assumes "runeText r b" and "runeText r' b'" and "b @ x = b' @ y"
  shows "r = r' \<and> b = b'"
proof -
  have "hd b = hd b'" using assms by (auto simp: runeText_def dest: arg_cong [where f = hd])
  then show ?thesis
  proof (cases "ord (hd b) < 128")
    case False
    with \<open>hd b = hd b'\<close> assms(1,2) have "DecodeRune (b @ x) = (r, length b)" "DecodeRune (b' @ y) = (r', length b')" by (auto simp: runeText_def)
    with assms(3) show ?thesis by auto
  qed (use assms in \<open>auto simp: runeText_def\<close>)
qed

lemma runesOf_cases2: "runesOf P t \<Longrightarrow> t \<noteq> [] \<Longrightarrow> \<exists>r b t'. t = b @ t' \<and> runeText r b \<and> P r \<and> runesOf P t'"
  by (erule runesOf.cases) auto

lemma scanNext_reads:
  assumes "runesOf (\<lambda>_. True) (drop (sc_rdOffset s) (sc_src s))" and "sc_rdOffset s \<le> length (sc_src s)"
  shows "\<exists>s'. scanNext s = Ok s' \<and> rest s' (drop (sc_rdOffset s) (sc_src s)) \<and> sc_src s' = sc_src s \<and> sc_offset s' = sc_rdOffset s"
proof -
  let ?d = "drop (sc_rdOffset s) (sc_src s)"
  have "\<exists>s'. scanNext s = Ok s'"
  proof (cases "?d = []")
    case True
    then show ?thesis by (simp add: scanNext_def Let_def)
  next
    case False
    with runesOf_cases2 [OF assms(1)] obtain r b t' where t: "?d = b @ t'" "runeText r b" by blast
    have "hd ?d = hd b" using t by (auto simp: runeText_def)
    then have hd: "sc_src s ! sc_rdOffset s = hd b" using False by (simp add: hd_drop_conv_nth)
    show ?thesis
    proof (cases "ord (hd b) < 128")
      case True
      with t(2) have "ord (hd b) \<noteq> 0" by (auto simp: runeText_def)
      with True False hd show ?thesis by (simp add: scanNext_def Let_def)
    next
      case big: False
      with t have "DecodeRune ?d = (r, length b)" "r \<noteq> bom" "length b \<noteq> 1" by (auto simp: runeText_def)
      with big False hd show ?thesis by (auto simp: scanNext_def Let_def)
    qed
  qed
  then obtain s' where s': "scanNext s = Ok s'" by blast
  from scanNext_sound [OF this assms(2)] assms(1) show ?thesis by (auto simp: rest_def s')
qed

lemma rest_next:
  assumes "rest s (b @ t)" and "runeText r b"
  shows "sc_ch s = r \<and> (\<exists>s'. scanNext s = Ok s' \<and> rest s' t \<and> sc_src s' = sc_src s \<and> sc_offset s' = sc_offset s + length b)"
proof -
  have d: "drop (sc_offset s) (sc_src s) = b @ t" "scanOK s" "runesOf (\<lambda>_. True) (b @ t)" using assms(1) by (simp_all add: rest_def)
  have "b \<noteq> []" using assms(2) by (auto simp: runeText_def)
  with d have r: "atRune s" by (auto simp: scanOK_def endOfSource_def)
  let ?c = "substring (sc_src s) (sc_offset s) (sc_rdOffset s)"
  have c: "?c @ drop (sc_rdOffset s) (sc_src s) = b @ t"
    using r by (auto simp: atRune_def substring_def simp flip: d(1)) (metis append_take_drop_id drop_drop le_add_diff_inverse2 less_imp_le)
  from runeText_unique [OF _ assms(2) c] r have u: "sc_ch s = r" "?c = b" by (auto simp: atRune_def)
  with c have t: "drop (sc_rdOffset s) (sc_src s) = t" by simp
  have len: "sc_rdOffset s = sc_offset s + length b" using r by (auto simp: atRune_def substring_def simp flip: u(2))
  from runesOf_cases2 [OF d(3)] \<open>b \<noteq> []\<close> obtain r1 b1 t1 where "b @ t = b1 @ t1" "runeText r1 b1" "runesOf (\<lambda>_. True) t1" by auto
  with runeText_unique [OF assms(2) this(2) this(1)] have "runesOf (\<lambda>_. True) t" by auto
  with scanNext_reads [of s] t len u r show ?thesis by (auto simp: atRune_def)
qed

definition stop :: "(int \<Rightarrow> bool) \<Rightarrow> string \<Rightarrow> bool" where
  "stop P y \<longleftrightarrow> y = [] \<or> (0 < ord (hd y) \<and> ord (hd y) < 128 \<and> \<not> P (ord (hd y)))"

lemma rest_end: "rest s [] \<Longrightarrow> endOfSource s"
  by (auto simp: rest_def scanOK_def atRune_def)

lemma stop_ch: "rest s y \<Longrightarrow> stop P y \<Longrightarrow> \<not> (sc_ch s \<ge> 0 \<and> P (sc_ch s))"
proof (cases y)
  case (Cons c y')
  moreover assume "rest s y" "stop P y"
  moreover from calculation have "runeText (ord c) [c]" by (intro ascii_runeText) (auto simp: stop_def)
  ultimately show ?thesis using rest_next [of s "[c]" y' "ord c"] by (auto simp: stop_def)
qed (use rest_end [of s] in \<open>auto simp: endOfSource_def\<close>)

lemma rest_while:
  assumes "runesOf P x" and "rest s (x @ y)" and "stop P y"
  shows "\<exists>s'. nextWhile P s = Ok s' \<and> rest s' y \<and> sc_src s' = sc_src s \<and> sc_offset s' = sc_offset s + length x"
  using assms(1,2)
proof (induction arbitrary: s)
  case runesOf_nil
  then show ?case using stop_ch [OF _ assms(3)] by (auto simp: nextWhile.simps [of P s])
next
  case (runesOf_rune r b t)
  from rest_next [of s b "t @ y" r] runesOf_rune obtain s1 where s1: "sc_ch s = r" "scanNext s = Ok s1" "rest s1 (t @ y)" "sc_src s1 = sc_src s"
      "sc_offset s1 = sc_offset s + length b" by auto
  from runesOf_rune.IH [OF s1(3)] obtain s' where "nextWhile P s1 = Ok s'" "rest s' y" "sc_src s' = sc_src s1" "sc_offset s' = sc_offset s1 + length t" by blast
  moreover have "sc_ch s \<ge> 0" "P (sc_ch s)" using runesOf_rune s1(1) by (auto simp: runeText_def)
  ultimately show ?case using s1 by (auto simp: nextWhile.simps [of P s])
qed

lemma rest_substring: "rest s (x @ y) \<Longrightarrow> substring (sc_src s) (sc_offset s) (sc_offset s + length x) = x"
  by (simp add: rest_def substring_def)

lemma rest_scanString:
  assumes "runesOf stringRune x" and "rest s (x @ CHR 0x27 # y)"
  shows "\<exists>s'. scanString offs s = Ok s' \<and> rest s' y \<and> sc_src s' = sc_src s \<and> sc_offset s' = sc_offset s + length x + 1"
  using assms
proof (induction arbitrary: s)
  case runesOf_nil
  have "runeText 39 [CHR 0x27]" by (simp add: runeText_def ord_def)
  from rest_next [of s "[CHR 0x27]" y, OF _ this] runesOf_nil obtain s1 where s1: "sc_ch s = 39" "scanNext s = Ok s1" "rest s1 y" "sc_src s1 = sc_src s"
      "sc_offset s1 = sc_offset s + 1" by auto
  then show ?case by (auto simp: scanString.simps [of offs s])
next
  case (runesOf_rune r b t)
  from rest_next [of s b "t @ CHR 0x27 # y" r] runesOf_rune obtain s1 where s1: "sc_ch s = r" "scanNext s = Ok s1" "rest s1 (t @ CHR 0x27 # y)"
      "sc_src s1 = sc_src s" "sc_offset s1 = sc_offset s + length b" by auto
  from runesOf_rune.IH [OF s1(3)] obtain s' where "scanString offs s1 = Ok s'" "rest s' y" "sc_src s' = sc_src s1" "sc_offset s' = sc_offset s1 + length t + 1"
    by blast
  moreover have "\<not> sc_ch s < 0" "sc_ch s \<noteq> 39" "sc_ch s \<noteq> 92" using runesOf_rune s1(1) by (auto simp: runeText_def)
  ultimately show ?case using s1 by (auto simp: scanString.simps [of offs s])
qed

section \<open>Scanning a printed token\<close>

definition scans :: "unicode \<Rightarrow> string \<Rightarrow> token \<times> string \<Rightarrow> string \<Rightarrow> bool" where
  "scans U t tk t' \<longleftrightarrow> (\<forall>s. rest s t \<longrightarrow> (\<exists>pos s'. Scan U s = Ok ((pos, tk), s') \<and> rest s' t' \<and> sc_src s' = sc_src s))"

text \<open>What follows a token in a printed expression.\<close>

definition delim :: "string \<Rightarrow> bool" where
  "delim y \<longleftrightarrow> y = [] \<or> hd y \<in> {CHR '' '', CHR ''.'', CHR ''('', CHR '')''}"

abbreviation white :: "int \<Rightarrow> bool" where
  "white \<equiv> (\<lambda>ch. ch = 32 \<or> ch = 9)"

lemma skip_none: "rest s (b @ t) \<Longrightarrow> runeText r b \<Longrightarrow> \<not> white r \<Longrightarrow> skipWhitespace s = Ok s"
  using rest_next [of s b t r] by (auto simp: skipWhitespace_def nextWhile.simps [of _ s])

lemma delim_stop: "delim y \<Longrightarrow> stop (identRune U) y" "delim y \<Longrightarrow> stop (\<lambda>ch. digitVal ch < 10) y"
  by (auto simp: delim_def stop_def isLetter_def isDigit_def digitVal_def ord_def)

lemma scans_space:
  assumes "scans U t tk t'"
  shows "scans U (CHR '' '' # t) tk t'"
  unfolding scans_def
proof (intro allI impI)
  fix s assume "rest s (CHR '' '' # t)"
  moreover have "runeText 32 [CHR '' '']" by (simp add: runeText_def ord_def)
  ultimately obtain s1 where s1: "sc_ch s = 32" "scanNext s = Ok s1" "rest s1 t" "sc_src s1 = sc_src s" using rest_next [of s "[CHR '' '']" t 32] by auto
  then have "Scan U s = Scan U s1" by (simp add: Scan_def skipWhitespace_def nextWhile.simps [of _ s])
  with s1 assms show "\<exists>pos s'. Scan U s = Ok ((pos, tk), s') \<and> rest s' t' \<and> sc_src s' = sc_src s" unfolding scans_def by fastforce
qed

lemma scans_word:
  assumes "identText U x" and "delim y"
  shows "scans U (x @ y) (if x = ''AND'' \<or> x = ''OR'' then tokKeyword else tokIdent, x) y"
  unfolding scans_def
proof (intro allI impI)
  fix s assume s: "rest s (x @ y)"
  from assms(1) obtain r b t' where x: "x = b @ t'" "runeText r b" "isLetter U r" "runesOf (identRune U) t'" by (auto simp: identText_def)
  have "sc_ch s = r" using rest_next [of s b "t' @ y" r] s x by simp
  moreover have "skipWhitespace s = Ok s" using skip_none [of s b "t' @ y" r] s x by (auto simp: isLetter_def ord_def)
  moreover have "runesOf (identRune U) x" unfolding x(1) using x by (intro runesOf_rune) auto
  from rest_while [OF this s delim_stop(1) [OF assms(2)]] obtain s' where "nextWhile (identRune U) s = Ok s'" "rest s' y" "sc_src s' = sc_src s"
      "sc_offset s' = sc_offset s + length x" by blast
  ultimately show "\<exists>pos s'. Scan U s = Ok ((pos, (if x = ''AND'' \<or> x = ''OR'' then tokKeyword else tokIdent, x)), s') \<and> rest s' y \<and> sc_src s' = sc_src s"
    using x(3) rest_substring [OF s] by (auto simp: Scan_def scanIdentifier_def Let_def)
qed

lemma scans_string:
  assumes "stringText x"
  shows "scans U (x @ y) (tokString, x) y"
  unfolding scans_def
proof (intro allI impI)
  fix s assume s: "rest s (x @ y)"
  from assms obtain t where x: "x = CHR 0x27 # t @ [CHR 0x27]" "runesOf stringRune t" by (auto simp: stringText_def)
  have q: "runeText 39 [CHR 0x27]" by (simp add: runeText_def ord_def)
  obtain s1 where s1: "sc_ch s = 39" "scanNext s = Ok s1" "rest s1 (t @ CHR 0x27 # y)" "sc_src s1 = sc_src s" "sc_offset s1 = sc_offset s + 1"
    using rest_next [of s "[CHR 0x27]" "t @ CHR 0x27 # y" 39, OF _ q] s x by auto
  have "skipWhitespace s = Ok s" using skip_none [of s "[CHR 0x27]" "t @ CHR 0x27 # y" 39, OF _ q] s x by auto
  moreover from rest_scanString [OF x(2) s1(3)] obtain s' where "scanString (sc_offset s1 - 1) s1 = Ok s'" "rest s' y" "sc_src s' = sc_src s1"
      "sc_offset s' = sc_offset s + length x" using s1(5) x(1) by fastforce
  moreover have "\<not> isLetter U 39" by (simp add: isLetter_def ord_def)
  ultimately show "\<exists>pos s'. Scan U s = Ok ((pos, (tokString, x)), s') \<and> rest s' y \<and> sc_src s' = sc_src s"
    using s1 rest_substring [OF s] by (auto simp: Scan_def Let_def)
qed

lemma scans_punct:
  assumes "c \<in> {CHR ''.'', CHR ''('', CHR '')'', CHR ''=''}"
  shows "scans U (c # y) (tokPunct, [c]) y"
  unfolding scans_def
proof (intro allI impI)
  fix s assume s: "rest s (c # y)"
  have c: "ord c \<in> {46, 40, 41, 61}" using assms by (auto simp: ord_def)
  then have q: "runeText (ord c) [c]" by (intro ascii_runeText) auto
  obtain s1 where s1: "sc_ch s = ord c" "scanNext s = Ok s1" "rest s1 y" "sc_src s1 = sc_src s" "sc_offset s1 = sc_offset s + 1"
    using rest_next [of s "[c]" y, OF _ q] s by auto
  have "skipWhitespace s = Ok s" using skip_none [of s "[c]" y, OF _ q] s c by auto
  moreover have "\<not> isLetter U (ord c)" "\<not> (48 \<le> ord c \<and> ord c \<le> 57)" "ord c \<noteq> 39" "ord c \<noteq> -1"
    using c by (auto simp: isLetter_def ord_def)
  moreover have "substring (sc_src s) (sc_offset s) (sc_offset s1) = [c]" using rest_substring [of s "[c]" y] s s1(5) by simp
  ultimately show "\<exists>pos s'. Scan U s = Ok ((pos, (tokPunct, [c])), s') \<and> rest s' y \<and> sc_src s' = sc_src s"
    using s1 assms by (auto simp: Scan_def Let_def)
qed

lemma digits_runes: "\<forall>c \<in> set x. 48 \<le> ord c \<and> ord c \<le> 57 \<Longrightarrow> runesOf (\<lambda>ch. digitVal ch < 10) x"
proof (induction x)
  case (Cons c x)
  then have "runeText (ord c) [c]" "digitVal (ord c) < 10" by (auto intro: ascii_runeText digitVal_small)
  with runesOf_rune [of "ord c" "[c]" "\<lambda>ch. digitVal ch < 10" x] Cons show ?case by simp
qed (simp add: runesOf_nil)

lemma scans_number:
  assumes "0 \<le> n" and "delim y"
  shows "scans U (Itoa n @ y) (tokInteger, Itoa n) y"
  unfolding scans_def
proof (intro allI impI)
  fix s assume s: "rest s (Itoa n @ y)"
  obtain c x where x: "Itoa n = c # x" by (cases "Itoa n") auto
  have d: "\<forall>c \<in> set (Itoa n). 48 \<le> ord c \<and> ord c \<le> 57" using Itoa_digits [OF assms(1)] by blast
  then have c: "48 \<le> ord c" "ord c \<le> 57" by (auto simp: x)
  then have q: "runeText (ord c) [c]" by (intro ascii_runeText) auto
  have "c \<noteq> CHR '' ''" using c by auto
  then have ch: "sc_ch s = ord c" "skipWhitespace s = Ok s" using rest_next [of s "[c]" "x @ y", OF _ q] skip_none [of s "[c]" "x @ y", OF _ q] s x c by auto
  have "\<exists>s'. scanNumber s = Ok s' \<and> rest s' y \<and> sc_src s' = sc_src s \<and> sc_offset s' = sc_offset s + length (Itoa n)"
  proof (cases "n = 0")
    case True
    then have x0: "c = CHR ''0''" "x = []" using x Itoa_zero by auto
    with rest_next [of s "[c]" "x @ y", OF _ q] s x obtain s1 where s1: "scanNext s = Ok s1" "rest s1 y" "sc_src s1 = sc_src s" "sc_offset s1 = sc_offset s + 1" by auto
    have "sc_ch s1 = -1 \<or> sc_ch s1 \<in> {32, 46, 40, 41}"
    proof (cases y)
      case Nil
      then show ?thesis using rest_end [of s1] s1(2) by (simp add: endOfSource_def)
    next
      case (Cons e y')
      then have e: "ord e \<in> {32, 46, 40, 41}" using assms(2) by (auto simp: delim_def ord_def)
      then have "runeText (ord e) [e]" by (intro ascii_runeText) auto
      with rest_next [of s1 "[e]" y'] s1(2) Cons e show ?thesis by auto
    qed
    then have "sc_ch s1 \<noteq> ord CHR ''x''" "sc_ch s1 \<noteq> ord CHR ''X''" "\<not> digitVal (sc_ch s1) < 10" by (auto simp: ord_def digitVal_def)
    then show ?thesis using s1 ch(1) x0 x by (auto simp: scanNumber_def)
  next
    case False
    then have "c \<noteq> CHR ''0''" using Itoa_no_leading_zero [of n] assms(1) x by simp
    with rest_while [OF digits_runes [OF d] s delim_stop(2) [OF assms(2)]] ch(1) show ?thesis by (auto simp: scanNumber_def scanMantissa_def)
  qed
  then obtain s' where "scanNumber s = Ok s'" "rest s' y" "sc_src s' = sc_src s" "sc_offset s' = sc_offset s + length (Itoa n)" by blast
  moreover have "\<not> isLetter U (ord c)" using c by (auto simp: isLetter_def ord_def)
  ultimately show "\<exists>pos s'. Scan U s = Ok ((pos, (tokInteger, Itoa n)), s') \<and> rest s' y \<and> sc_src s' = sc_src s"
    using c ch rest_substring [OF s] by (auto simp: Scan_def Let_def)
qed

lemma scans_placeholder:
  assumes "0 \<le> n" and "delim y"
  shows "scans U (CHR ''$'' # Itoa n @ y) (tokPlaceholder, CHR ''$'' # Itoa n) y"
  unfolding scans_def
proof (intro allI impI)
  fix s assume s: "rest s (CHR ''$'' # Itoa n @ y)"
  have d: "\<forall>c \<in> set (Itoa n). 48 \<le> ord c \<and> ord c \<le> 57" using Itoa_digits [OF assms(1)] by blast
  have q: "runeText 36 [CHR ''$'']" by (simp add: runeText_def ord_def)
  obtain s1 where s1: "sc_ch s = 36" "scanNext s = Ok s1" "rest s1 (Itoa n @ y)" "sc_src s1 = sc_src s" "sc_offset s1 = sc_offset s + 1"
    using rest_next [of s "[CHR ''$'']" "Itoa n @ y", OF _ q] s by auto
  have "skipWhitespace s = Ok s" using skip_none [of s "[CHR ''$'']" "Itoa n @ y", OF _ q] s by auto
  moreover from rest_while [OF digits_runes [OF d] s1(3) delim_stop(2) [OF assms(2)]] obtain s' where "scanMantissa 10 s1 = Ok s'" "rest s' y"
      "sc_src s' = sc_src s1" "sc_offset s' = sc_offset s + 1 + length (Itoa n)" using s1(5) by (auto simp: scanMantissa_def)
  moreover have "\<not> isLetter U 36" "length (Itoa n) > 0" by (auto simp: isLetter_def ord_def)
  ultimately show "\<exists>pos s'. Scan U s = Ok ((pos, (tokPlaceholder, CHR ''$'' # Itoa n)), s') \<and> rest s' y \<and> sc_src s' = sc_src s"
    using s1 rest_substring [of s "CHR ''$'' # Itoa n" y] s by (auto simp: Scan_def Let_def ord_def)
qed

lemma scans_eof: "scans U [] (tokEOF, []) []"
  unfolding scans_def
proof (intro allI impI)
  fix s assume s: "rest s []"
  then have e: "endOfSource s" by (rule rest_end)
  then have "scanNext s = Ok s" "skipWhitespace s = Ok s" "sc_ch s = -1"
    by (auto simp: scanNext_def endOfSource_def skipWhitespace_def nextWhile.simps [of _ s])
  then show "\<exists>pos s'. Scan U s = Ok ((pos, (tokEOF, [])), s') \<and> rest s' [] \<and> sc_src s' = sc_src s"
    using s by (auto simp: Scan_def Let_def isLetter_def ord_def)
qed

section \<open>Scanning a printed expression\<close>

primrec lexes :: "unicode \<Rightarrow> string \<Rightarrow> (token \<times> string) list \<Rightarrow> bool" where
  "lexes U t [] \<longleftrightarrow> t = []"
| "lexes U t (tk # ts) \<longleftrightarrow> (\<exists>t'. scans U t tk t' \<and> lexes U t' ts)"

definition opToken :: "binaryOp \<Rightarrow> token \<times> string" where
  "opToken op = (if bo_name op = ''='' then tokPunct else tokKeyword, bo_name op)"

primrec tokensOf :: "expr \<Rightarrow> (token \<times> string) list" where
  "tokensOf (BinaryExpr op l r) = tokensOf l @ opToken op # tokensOf r"
| "tokensOf (AttrExpr attr) = [(tokIdent, attr)]"
| "tokensOf (SelectorExpr ident obj) = tokensOf obj @ [(tokPunct, ''.''), (tokIdent, ident)]"
| "tokensOf (ParenExpr inner) = (tokPunct, ''('') # tokensOf inner @ [(tokPunct, '')'')]"
| "tokensOf (ValueExpr typ v) = [(typ, v)]"
| "tokensOf (EnvExpr ident e) = (tokIdent, ident) # (tokPunct, ''('') # tokensOf e @ [(tokPunct, '')'')]"
| "tokensOf (PlaceholderExpr num) = [(tokPlaceholder, ''$'' @ Itoa num)]"

text \<open>Expressions with proper names, literals and operators.\<close>

primrec lexOK :: "unicode \<Rightarrow> expr \<Rightarrow> bool" where
  "lexOK U (BinaryExpr op l r) \<longleftrightarrow> binaryOps (bo_name op) = Some op \<and> lexOK U l \<and> lexOK U r"
| "lexOK U (AttrExpr attr) \<longleftrightarrow> tokenOK U tokIdent attr"
| "lexOK U (SelectorExpr ident obj) \<longleftrightarrow> tokenOK U tokIdent ident \<and> lexOK U obj"
| "lexOK U (ParenExpr inner) \<longleftrightarrow> lexOK U inner"
| "lexOK U (ValueExpr typ v) \<longleftrightarrow> typ = tokString \<and> stringText v \<or> typ = tokInteger \<and> (\<exists>n. 0 \<le> n \<and> n < 2 ^ 63 \<and> v = Itoa n)"
| "lexOK U (EnvExpr ident e) \<longleftrightarrow> tokenOK U tokIdent ident \<and> lexOK U e"
| "lexOK U (PlaceholderExpr num) \<longleftrightarrow> 0 < num \<and> num < 2 ^ 63"

lemma tokensOf_nonempty [simp]: "tokensOf e \<noteq> []"
  by (cases e) auto

lemma binaryOps_cases: "binaryOps x = Some op \<Longrightarrow> x \<in> {''OR'', ''AND'', ''=''} \<and> bo_name op = x \<and> bo_precedence op \<in> {1, 2, 3}"
  by (auto simp: binaryOps_def split: if_splits)

lemma lexes_space: "lexes U t ts \<Longrightarrow> ts \<noteq> [] \<Longrightarrow> lexes U (CHR '' '' # t) ts"
  by (cases ts) (auto intro: scans_space)

lemma lexes_ident: "tokenOK U tokIdent x \<Longrightarrow> delim y \<Longrightarrow> lexes U y ts \<Longrightarrow> lexes U (x @ y) ((tokIdent, x) # ts)"
  using scans_word [of U x y] by (auto simp: tokenOK_def)

lemma lexes_punct: "c \<in> {CHR ''.'', CHR ''('', CHR '')'', CHR ''=''} \<Longrightarrow> lexes U y ts \<Longrightarrow> lexes U (c # y) ((tokPunct, [c]) # ts)"
  using scans_punct [of c U y] by auto

lemma keyword_identText: "x \<in> {''AND'', ''OR''} \<Longrightarrow> identText U x"
proof -
  have r: "runesOf (identRune U) (c # t)" if "65 \<le> ord c" "ord c \<le> 90" "runesOf (identRune U) t" for c t
  proof -
    have "runeText (ord c) [c]" using that(1,2) by (intro ascii_runeText) auto
    from runesOf_rune [of "ord c" "[c]" "identRune U" t, OF this] that show ?thesis by (simp add: isLetter_def)
  qed
  have w: "identText U (c # t)" if "65 \<le> ord c" "ord c \<le> 90" "runesOf (identRune U) t" for c t
  proof -
    have "runeText (ord c) [c]" using that(1,2) by (intro ascii_runeText) auto
    moreover have "isLetter U (ord c)" using that by (simp add: isLetter_def)
    ultimately show ?thesis using that(3) unfolding identText_def by (metis append_Cons append_Nil)
  qed
  have "identText U ''AND''" by (intro w r runesOf_nil) simp_all
  moreover have "identText U ''OR''" by (intro w r runesOf_nil) simp_all
  moreover assume "x \<in> {''AND'', ''OR''}"
  ultimately show ?thesis by auto
qed

lemma lexes_op:
  assumes "binaryOps (bo_name op) = Some op" and "lexes U y ts" and "ts \<noteq> []"
  shows "lexes U (bo_name op @ CHR '' '' # y) (opToken op # ts)"
proof (cases "bo_name op = ''=''")
  case True
  then show ?thesis using lexes_punct [of "CHR ''=''" U "CHR '' '' # y" ts] lexes_space [OF assms(2,3)] by (simp add: opToken_def)
next
  case False
  then have k: "bo_name op \<in> {''AND'', ''OR''}" using binaryOps_cases [OF assms(1)] by auto
  then have "scans U (bo_name op @ CHR '' '' # y) (tokKeyword, bo_name op) (CHR '' '' # y)"
    using scans_word [OF keyword_identText [OF k], of "CHR '' '' # y"] by (auto simp: delim_def)
  then show ?thesis using False lexes_space [OF assms(2,3)] by (auto simp: opToken_def)
qed

lemma lexes_expr: "lexOK U e \<Longrightarrow> delim y \<Longrightarrow> lexes U y ts \<Longrightarrow> lexes U (exprString e @ y) (tokensOf e @ ts)"
proof (induction e arbitrary: y ts)
  case (BinaryExpr op l r)
  have "lexes U (exprString r @ y) (tokensOf r @ ts)" using BinaryExpr by simp
  with BinaryExpr.prems(1) have "lexes U (bo_name op @ CHR '' '' # exprString r @ y) (opToken op # tokensOf r @ ts)" by (intro lexes_op) auto
  then have "lexes U (CHR '' '' # bo_name op @ CHR '' '' # exprString r @ y) (opToken op # tokensOf r @ ts)" by (rule lexes_space) simp
  then show ?case using BinaryExpr.IH(1) [of "CHR '' '' # bo_name op @ CHR '' '' # exprString r @ y"] BinaryExpr.prems(1) by (simp add: delim_def)
next
  case (SelectorExpr ident obj)
  have "lexes U (ident @ y) ((tokIdent, ident) # ts)" using SelectorExpr.prems by (intro lexes_ident) auto
  then have "lexes U (CHR ''.'' # ident @ y) ((tokPunct, ''.'') # (tokIdent, ident) # ts)" by (intro lexes_punct) auto
  then show ?case using SelectorExpr.IH [of "CHR ''.'' # ident @ y"] SelectorExpr.prems(1) by (simp add: delim_def)
next
  case (ParenExpr e)
  have "lexes U (CHR '')'' # y) ((tokPunct, '')'') # ts)" using ParenExpr.prems by (intro lexes_punct) auto
  then have "lexes U (exprString e @ CHR '')'' # y) (tokensOf e @ (tokPunct, '')'') # ts)" using ParenExpr by (simp add: delim_def)
  then show ?case using lexes_punct [of "CHR ''(''"] by simp
next
  case (EnvExpr ident e)
  have "lexes U (CHR '')'' # y) ((tokPunct, '')'') # ts)" using EnvExpr.prems by (intro lexes_punct) auto
  then have "lexes U (exprString e @ CHR '')'' # y) (tokensOf e @ (tokPunct, '')'') # ts)" using EnvExpr by (simp add: delim_def)
  then have "lexes U (CHR ''('' # exprString e @ CHR '')'' # y) ((tokPunct, ''('') # tokensOf e @ (tokPunct, '')'') # ts)" by (intro lexes_punct) auto
  then have "lexes U (ident @ CHR ''('' # exprString e @ CHR '')'' # y) ((tokIdent, ident) # (tokPunct, ''('') # tokensOf e @ (tokPunct, '')'') # ts)"
    using EnvExpr.prems(1) by (intro lexes_ident) (auto simp: delim_def)
  then show ?case by simp
next
  case (ValueExpr ty v)
  then show ?case using scans_string [of v U y] scans_number [of _ y U] by auto
next
  case (PlaceholderExpr num)
  then show ?case using scans_placeholder [of num y U] by auto
qed (use lexes_ident in simp)

lemma lexes_eof: "lexes U [] [(tokEOF, [])]"
  using scans_eof by auto

lemma runesOf_append: "runesOf P x \<Longrightarrow> runesOf P y \<Longrightarrow> runesOf P (x @ y)"
  by (induction rule: runesOf.induct) (auto intro: runesOf.intros)

lemma runesOf_mono: "runesOf P x \<Longrightarrow> (\<And>r. P r \<Longrightarrow> Q r) \<Longrightarrow> runesOf Q x"
  by (induction rule: runesOf.induct) (auto intro: runesOf.intros)

lemma runesOf_ascii: "\<forall>c \<in> set x. 0 < ord c \<and> ord c < 128 \<Longrightarrow> runesOf (\<lambda>_. True) x"
proof (induction x)
  case (Cons c x)
  then show ?case using runesOf_rune [of "ord c" "[c]" "\<lambda>_. True" x, OF ascii_runeText] by simp
qed (simp add: runesOf_nil)

lemma ident_runes: "tokenOK U tokIdent x \<Longrightarrow> runesOf (\<lambda>_. True) x"
  by (auto simp: tokenOK_def identText_def intro!: runesOf_rune elim!: runesOf_mono)

lemma Itoa_runes: "0 \<le> n \<Longrightarrow> runesOf (\<lambda>_. True) (Itoa n)"
  using Itoa_digits [of n] by (intro runesOf_ascii) fastforce

lemma string_runes: "stringText x \<Longrightarrow> runesOf (\<lambda>_. True) x"
proof -
  assume "stringText x"
  then obtain t where "x = [CHR 0x27] @ t @ [CHR 0x27]" "runesOf stringRune t" by (auto simp: stringText_def)
  moreover have "runesOf (\<lambda>_. True) [CHR 0x27]" by (rule runesOf_ascii) simp
  ultimately show ?thesis by (simp only:) (intro runesOf_append; auto elim: runesOf_mono)
qed

lemma expr_runes: "lexOK U e \<Longrightarrow> runesOf (\<lambda>_. True) (exprString e)"
proof (induction e)
  case (BinaryExpr op l r)
  then have "\<forall>c \<in> set (bo_name op). 0 < ord c \<and> ord c < 128" using binaryOps_cases [of "bo_name op" op] by auto
  then have "runesOf (\<lambda>_. True) (bo_name op)" "runesOf (\<lambda>_. True) '' ''" by (rule runesOf_ascii, simp add: runesOf_ascii)
  with BinaryExpr show ?case by (simp only: exprString.simps lexOK.simps) (intro runesOf_append; simp)
next
  case (SelectorExpr ident e)
  have "runesOf (\<lambda>_. True) ''.''" by (rule runesOf_ascii) simp
  with SelectorExpr ident_runes [of U ident] show ?case by (simp only: exprString.simps lexOK.simps) (intro runesOf_append; simp)
next
  case (ParenExpr e)
  have "runesOf (\<lambda>_. True) ''(''" "runesOf (\<lambda>_. True) '')''" by (rule runesOf_ascii; simp)+
  with ParenExpr show ?case by (simp only: exprString.simps lexOK.simps) (intro runesOf_append; simp)
next
  case (EnvExpr ident e)
  have "runesOf (\<lambda>_. True) ''(''" "runesOf (\<lambda>_. True) '')''" by (rule runesOf_ascii; simp)+
  with EnvExpr ident_runes [of U ident] show ?case by (simp only: exprString.simps lexOK.simps) (intro runesOf_append; simp)
next
  case (PlaceholderExpr num)
  have "runesOf (\<lambda>_. True) ''$''" by (rule runesOf_ascii) simp
  with PlaceholderExpr Itoa_runes [of num] show ?case by (simp only: exprString.simps lexOK.simps) (intro runesOf_append; simp)
qed (auto intro: ident_runes string_runes Itoa_runes)

end
