(* ===== verification/Filter_Parsing.thy ===== *)
theory Filter_Parsing
  imports Filter_Print
begin

text \<open>
  The parser of filters always ends, and what it returns is well formed: names and literals come from tokens of the scanner, operators nest
  according to their precedence, and the number of parameters is the largest placeholder.
\<close>

section \<open>Well-formed expressions\<close>

primrec level :: "expr \<Rightarrow> nat" where
  "level (BinaryExpr op l r) = bo_precedence op"
| "level (AttrExpr attr) = 4"
| "level (SelectorExpr ident obj) = 4"
| "level (ParenExpr inner) = 4"
| "level (ValueExpr typ v) = 4"
| "level (EnvExpr ident e) = 4"
| "level (PlaceholderExpr num) = 4"

primrec precOK :: "expr \<Rightarrow> bool" where
  "precOK (BinaryExpr op l r) \<longleftrightarrow> precOK l \<and> precOK r \<and> level l \<ge> bo_precedence op \<and> level r > bo_precedence op"
| "precOK (AttrExpr attr) \<longleftrightarrow> True"
| "precOK (SelectorExpr ident obj) \<longleftrightarrow> precOK obj \<and> level obj = 4"
| "precOK (ParenExpr inner) \<longleftrightarrow> precOK inner"
| "precOK (ValueExpr typ v) \<longleftrightarrow> True"
| "precOK (EnvExpr ident e) \<longleftrightarrow> precOK e"
| "precOK (PlaceholderExpr num) \<longleftrightarrow> True"

primrec largestPlaceholder :: "expr \<Rightarrow> int" where
  "largestPlaceholder (BinaryExpr op l r) = max (largestPlaceholder l) (largestPlaceholder r)"
| "largestPlaceholder (AttrExpr attr) = 0"
| "largestPlaceholder (SelectorExpr ident obj) = largestPlaceholder obj"
| "largestPlaceholder (ParenExpr inner) = largestPlaceholder inner"
| "largestPlaceholder (ValueExpr typ v) = 0"
| "largestPlaceholder (EnvExpr ident e) = largestPlaceholder e"
| "largestPlaceholder (PlaceholderExpr num) = max 0 num"

definition wfExpr :: "unicode \<Rightarrow> expr \<Rightarrow> bool" where
  "wfExpr U e \<longleftrightarrow> lexOK U e \<and> precOK e"

lemma largest_nonneg [simp]: "0 \<le> largestPlaceholder e"
  by (induction e) auto

section \<open>Progress\<close>

definition parserOK :: "unicode \<Rightarrow> parser \<Rightarrow> bool" where
  "parserOK U p \<longleftrightarrow> scanOK (pa_scanner p) \<and> tokenOK U (pa_tok p) (pa_lit p) \<and> (pa_tok p = tokEOF \<longrightarrow> endOfSource (pa_scanner p))"

text \<open>What is left to parse, with the current token.\<close>

definition left :: "parser \<Rightarrow> nat" where
  "left p = length (sc_src (pa_scanner p)) - sc_offset (pa_scanner p) + (if pa_tok p = tokEOF then 0 else 1)"

definition fine :: "(parseError, 'a) outcome \<Rightarrow> bool" where
  "fine r \<longleftrightarrow> (\<exists>a. r = Ok a) \<or> (\<exists>e. r = Fail e)"

lemma fine_simps [simp]: "fine (Ok a)" "fine (Fail e)" "fine (scanError n msg)"
  by (simp_all add: fine_def scanError_def)

lemma fine_bind: "fine m \<Longrightarrow> (\<And>a. m = Ok a \<Longrightarrow> fine (f a)) \<Longrightarrow> fine (bindO m f)"
  by (auto simp: fine_def)

lemma fine_scanNext [simp]: "fine (scanNext s)"
  by (simp add: scanNext_def Let_def split: prod.split)

lemma fine_nextWhile [simp]: "fine (nextWhile P s)"
  by (induction P s rule: nextWhile.induct) (simp add: nextWhile.simps fine_bind)

lemma fine_scanString [simp]: "fine (scanString offs s)"
  by (induction offs s rule: scanString.induct) (simp add: scanString.simps fine_bind)

lemma fine_Scan [simp]: "fine (Scan U s)"
  by (auto simp: Scan_def Let_def skipWhitespace_def scanIdentifier_def scanMantissa_def scanNumber_def intro!: fine_bind split: prod.split)

lemma parserNext_ok:
  assumes "parserOK U p"
  shows "(\<exists>e. parserNext U p = Fail e) \<or> (\<exists>p'. parserNext U p = Ok p' \<and> parserOK U p' \<and> left p' \<le> left p \<and> (pa_tok p \<noteq> tokEOF \<longrightarrow> left p' < left p) \<and>
    pa_maxPlaceholder p' = pa_maxPlaceholder p)"
proof -
  have "fine (Scan U (pa_scanner p))" by simp
  then consider e where "Scan U (pa_scanner p) = Fail e" | pos tok lit s where "Scan U (pa_scanner p) = Ok ((pos, tok, lit), s)"
    unfolding fine_def by (metis prod_cases3 surj_pair)
  then show ?thesis
  proof cases
    case (2 pos tok lit s)
    let ?p = "p\<lparr>pa_scanner := s, pa_pos := pos, pa_tok := tok, pa_lit := lit\<rparr>"
    have ok: "scanOK (pa_scanner p)" "pa_tok p = tokEOF \<Longrightarrow> endOfSource (pa_scanner p)" using assms by (simp_all add: parserOK_def)
    note s = Scan_sound [OF 2 ok(1)]
    have off: "sc_offset s \<le> length (sc_src s)" using scanOK_offsets [of s] s by simp
    have "parserOK U ?p" using s by (auto simp: parserOK_def split: if_splits)
    moreover have "left ?p \<le> left p \<and> (pa_tok p \<noteq> tokEOF \<longrightarrow> left ?p < left p)"
    proof (cases "tok = tokEOF")
      case True
      then show ?thesis using s by (auto simp: left_def endOfSource_def)
    next
      case False
      then have lt: "sc_offset (pa_scanner p) < sc_offset s" "sc_src s = sc_src (pa_scanner p)" using s by auto
      moreover have "pa_tok p \<noteq> tokEOF"
      proof
        assume "pa_tok p = tokEOF"
        from ok(2) [OF this] lt off show False by (simp add: endOfSource_def)
      qed
      ultimately show ?thesis using False off by (auto simp: left_def)
    qed
    ultimately show ?thesis using 2 by (simp add: parserNext_def)
  qed (simp add: parserNext_def)
qed

text \<open>A parsing function returns an error, or an expression with a property and a parser with at most so much left.\<close>

definition yields :: "unicode \<Rightarrow> (expr \<Rightarrow> parser \<Rightarrow> bool) \<Rightarrow> nat \<Rightarrow> (parseError, expr \<times> parser) outcome \<Rightarrow> bool" where
  "yields U Q k r \<longleftrightarrow> (case r of Ok (e, p') \<Rightarrow> parserOK U p' \<and> left p' \<le> k \<and> Q e p' | Fail _ \<Rightarrow> True | _ \<Rightarrow> False)"

lemma yields_simps [simp]: "yields U Q k (Fail e)" "yields U Q k (Ok (e', p')) \<longleftrightarrow> parserOK U p' \<and> left p' \<le> k \<and> Q e' p'" "yields U Q k (parserError p msg)"
  by (simp_all add: yields_def parserError_def)

lemma yields_bind:
  assumes "yields U Q k r" and "\<And>e p'. parserOK U p' \<Longrightarrow> left p' \<le> k \<Longrightarrow> Q e p' \<Longrightarrow> yields U Q' k' (f (e, p'))"
  shows "yields U Q' k' (bindO r f)"
proof (cases r)
  case (Ok a)
  obtain e p' where "a = (e, p')" by (cases a)
  with Ok assms(1) assms(2) [of p' e] show ?thesis by simp
qed (use assms(1) in \<open>simp_all add: yields_def\<close>)

lemma yields_weaken: "yields U Q k r \<Longrightarrow> (\<And>e p'. Q e p' \<Longrightarrow> Q' e p') \<Longrightarrow> k \<le> k' \<Longrightarrow> yields U Q' k' r"
  by (cases r) (auto simp: yields_def)

lemma yields_next:
  assumes "parserOK U p"
    and "\<And>p'. parserOK U p' \<Longrightarrow> left p' \<le> left p \<Longrightarrow> (pa_tok p \<noteq> tokEOF \<Longrightarrow> left p' < left p) \<Longrightarrow> pa_maxPlaceholder p' = pa_maxPlaceholder p \<Longrightarrow> yields U Q k (f p')"
  shows "yields U Q k (bindO (parserNext U p) f)"
  using parserNext_ok [OF assms(1)] assms(2) by auto

lemma yields_tok:
  assumes "parserOK U p" and "tok \<noteq> tokEOF"
    and "\<And>p'. pa_tok p = tok \<Longrightarrow> parserOK U p' \<Longrightarrow> left p' < left p \<Longrightarrow> pa_maxPlaceholder p' = pa_maxPlaceholder p \<Longrightarrow> yields U Q k (f p')"
  shows "yields U Q k (bindO (parseTok U tok p) f)"
proof (cases "pa_tok p = tok")
  case True
  then show ?thesis using yields_next [OF assms(1)] assms(2,3) by (simp add: parseTok_def)
qed (simp add: parseTok_def parserError_def)

lemma lit_not_eof: "parserOK U p \<Longrightarrow> pa_lit p \<noteq> [] \<Longrightarrow> pa_tok p \<noteq> tokEOF"
  by (auto simp: parserOK_def tokenOK_def)

lemma yields_lit:
  assumes "parserOK U p" and "lit \<noteq> []"
    and "\<And>p'. parserOK U p' \<Longrightarrow> left p' < left p \<Longrightarrow> pa_maxPlaceholder p' = pa_maxPlaceholder p \<Longrightarrow> yields U Q k (f p')"
  shows "yields U Q k (bindO (parseLit U lit p) f)"
proof (cases "pa_lit p = lit")
  case True
  then show ?thesis using yields_next [OF assms(1)] lit_not_eof [OF assms(1)] assms(2,3) by (simp add: parseLit_def)
qed (simp add: parseLit_def parserError_def)

definition parsedInto :: "unicode \<Rightarrow> parser \<Rightarrow> expr \<Rightarrow> parser \<Rightarrow> bool" where
  "parsedInto U p e p' \<longleftrightarrow> wfExpr U e \<and> pa_maxPlaceholder p' = max (pa_maxPlaceholder p) (largestPlaceholder e)"

definition nests :: "unicode \<Rightarrow> parser \<Rightarrow> expr parsing \<Rightarrow> bool" where
  "nests U p nested \<longleftrightarrow> (\<forall>p'. parserOK U p' \<and> left p' < left p \<and> 0 \<le> pa_maxPlaceholder p' \<longrightarrow> yields U (parsedInto U p') (left p' - 1) (nested p'))"

lemma parseLiteral_yields:
  assumes "parserOK U p" and "pa_tok p \<in> {tokString, tokInteger, tokPlaceholder}" and "0 \<le> pa_maxPlaceholder p"
  shows "yields U (\<lambda>e p'. parsedInto U p e p' \<and> level e = 4) (left p - 1) (parseLiteral U p)"
proof -
  have ne: "pa_tok p \<noteq> tokEOF" using assms(2) by auto
  consider "pa_tok p = tokString" | "pa_tok p = tokInteger" | "pa_tok p = tokPlaceholder" using assms(2) by auto
  then show ?thesis
  proof cases
    case 1
    moreover from this have "stringText (pa_lit p)" using assms(1) by (simp add: parserOK_def tokenOK_def)
    ultimately show ?thesis using assms(3) unfolding parseLiteral_def by (auto intro!: yields_next [OF assms(1)] simp: parsedInto_def wfExpr_def)
  next
    case 2
    then show ?thesis using assms(3) ParseInt0_range [of "pa_lit p"] unfolding parseLiteral_def
      by (auto intro!: yields_next [OF assms(1)] simp: parsedInto_def wfExpr_def split: option.split)
  next
    case 3
    then show ?thesis using assms(3) Atoi_range [of "tl (pa_lit p)"] unfolding parseLiteral_def
      by (auto intro!: yields_next [OF assms(1)] simp: parsedInto_def wfExpr_def parserOK_def left_def split: option.split)
  qed
qed

lemma parseEnvironmentExpr_yields:
  assumes "parserOK U p" and "nests U p nested" and "0 \<le> pa_maxPlaceholder p"
  shows "yields U (\<lambda>e p'. parsedInto U p e p' \<and> level e = 4) (left p - 1) (parseEnvironmentExpr U nested p)"
  unfolding parseEnvironmentExpr_def
proof (rule yields_tok [OF assms(1)])
  fix p1 assume p1: "pa_tok p = tokIdent" "parserOK U p1" "left p1 < left p" "pa_maxPlaceholder p1 = pa_maxPlaceholder p"
  have id: "tokenOK U tokIdent (pa_lit p)" using assms(1) p1(1) by (simp add: parserOK_def)
  show "yields U (\<lambda>e p'. parsedInto U p e p' \<and> level e = 4) (left p - 1) (if pa_lit p1 \<noteq> ''('' then Ok (AttrExpr (pa_lit p), p1)
     else bindO (parserNext U p1) (\<lambda>p2. bindO (nested p2) (\<lambda>(e, p3). bindO (parseLit U '')'' p3) (\<lambda>p4. Ok (EnvExpr (pa_lit p) e, p4)))))"
  proof (cases "pa_lit p1 = ''(''")
    case True
    have "yields U (\<lambda>e p'. parsedInto U p e p' \<and> level e = 4) (left p - 1) (bindO (parserNext U p1) (\<lambda>p2. bindO (nested p2) (\<lambda>(e, p3).
        bindO (parseLit U '')'' p3) (\<lambda>p4. Ok (EnvExpr (pa_lit p) e, p4)))))"
    proof (rule yields_next [OF p1(2)])
      fix p2 assume p2: "parserOK U p2" "left p2 \<le> left p1" "pa_maxPlaceholder p2 = pa_maxPlaceholder p1"
      have "yields U (parsedInto U p2) (left p2 - 1) (nested p2)" using assms(2,3) p1 p2 by (auto simp: nests_def)
      then show "yields U (\<lambda>e p'. parsedInto U p e p' \<and> level e = 4) (left p - 1) (bindO (nested p2) (\<lambda>(e, p3).
          bindO (parseLit U '')'' p3) (\<lambda>p4. Ok (EnvExpr (pa_lit p) e, p4))))"
        using id p1 p2 by (auto intro!: yields_bind yields_lit simp: parsedInto_def wfExpr_def)
    qed
    with True show ?thesis by simp
  qed (use id p1 assms(3) in \<open>auto simp: parsedInto_def wfExpr_def\<close>)
qed simp

lemma parseOperand_yields:
  assumes "parserOK U p" and "nests U p nested" and "0 \<le> pa_maxPlaceholder p"
  shows "yields U (\<lambda>e p'. parsedInto U p e p' \<and> level e = 4) (left p - 1) (parseOperand U nested p)"
proof (cases "pa_lit p = ''(''")
  case True
  then have ne: "pa_tok p \<noteq> tokEOF" using lit_not_eof [OF assms(1)] by simp
  have "yields U (\<lambda>e p'. parsedInto U p e p' \<and> level e = 4) (left p - 1) (bindO (parserNext U p) (\<lambda>p1. bindO (nested p1) (\<lambda>(e, p2).
      bindO (parseLit U '')'' p2) (\<lambda>p3. Ok (ParenExpr e, p3)))))"
  proof (rule yields_next [OF assms(1)])
    fix p1 assume p1: "parserOK U p1" "pa_tok p \<noteq> tokEOF \<Longrightarrow> left p1 < left p" "pa_maxPlaceholder p1 = pa_maxPlaceholder p"
    have "yields U (parsedInto U p1) (left p1 - 1) (nested p1)" using assms(2,3) p1 ne by (auto simp: nests_def)
    then show "yields U (\<lambda>e p'. parsedInto U p e p' \<and> level e = 4) (left p - 1) (bindO (nested p1) (\<lambda>(e, p2).
        bindO (parseLit U '')'' p2) (\<lambda>p3. Ok (ParenExpr e, p3))))"
      using p1 p1(2) [OF ne] by (auto intro!: yields_bind yields_lit simp: parsedInto_def wfExpr_def)
  qed
  with True show ?thesis by (simp add: parseOperand_def)
next
  case False
  then show ?thesis using parseLiteral_yields [OF assms(1) _ assms(3)] parseEnvironmentExpr_yields [OF assms] by (simp add: parseOperand_def)
qed

lemma selectorLoop_yields:
  assumes "parserOK U p" and "left p < n" and "wfExpr U x" and "level x = 4"
  shows "yields U (\<lambda>e p'. wfExpr U e \<and> level e = 4 \<and> largestPlaceholder e = largestPlaceholder x \<and> pa_maxPlaceholder p' = pa_maxPlaceholder p)
    (left p) (selectorLoop U n x p)"
  using assms
proof (induction n arbitrary: x p)
  case (Suc n)
  show ?case
  proof (cases "pa_lit p = ''.''")
    case True
    then have ne: "pa_tok p \<noteq> tokEOF" using lit_not_eof [OF Suc.prems(1)] by simp
    have "yields U (\<lambda>e p'. wfExpr U e \<and> level e = 4 \<and> largestPlaceholder e = largestPlaceholder x \<and> pa_maxPlaceholder p' = pa_maxPlaceholder p)
      (left p - 1) (parseSelectorExpr U x p)"
      unfolding parseSelectorExpr_def
    proof (rule yields_next [OF Suc.prems(1)])
      fix p1 assume p1: "parserOK U p1" "pa_tok p \<noteq> tokEOF \<Longrightarrow> left p1 < left p" "pa_maxPlaceholder p1 = pa_maxPlaceholder p"
      have "tokenOK U tokIdent (pa_lit p1)" if "pa_tok p1 = tokIdent" using p1(1) that by (simp add: parserOK_def)
      then show "yields U (\<lambda>e p'. wfExpr U e \<and> level e = 4 \<and> largestPlaceholder e = largestPlaceholder x \<and> pa_maxPlaceholder p' = pa_maxPlaceholder p)
        (left p - 1) (bindO (parseTok U tokIdent p1) (\<lambda>p2. Ok (SelectorExpr (pa_lit p1) x, p2)))"
        using p1 p1(2) [OF ne] Suc.prems(3,4) by (auto intro!: yields_tok simp: wfExpr_def)
    qed
    moreover have "left p > 0" using ne by (simp add: left_def)
    ultimately have "yields U (\<lambda>e p'. wfExpr U e \<and> level e = 4 \<and> largestPlaceholder e = largestPlaceholder x \<and> pa_maxPlaceholder p' = pa_maxPlaceholder p)
      (left p) (bindO (parseSelectorExpr U x p) (\<lambda>(x', p'). selectorLoop U n x' p'))"
    proof (elim yields_bind)
      fix e p' assume p': "parserOK U p'" "left p' \<le> left p - 1" "left p > 0"
        "wfExpr U e \<and> level e = 4 \<and> largestPlaceholder e = largestPlaceholder x \<and> pa_maxPlaceholder p' = pa_maxPlaceholder p"
      from Suc.IH [of p' e] p' Suc.prems(2) have "yields U (\<lambda>e' p''. wfExpr U e' \<and> level e' = 4 \<and> largestPlaceholder e' = largestPlaceholder e \<and>
          pa_maxPlaceholder p'' = pa_maxPlaceholder p') (left p') (selectorLoop U n e p')" by auto
      then show "yields U (\<lambda>e p'. wfExpr U e \<and> level e = 4 \<and> largestPlaceholder e = largestPlaceholder x \<and> pa_maxPlaceholder p' = pa_maxPlaceholder p)
          (left p) (case (e, p') of (x', p') \<Rightarrow> selectorLoop U n x' p')"
        using p' by (auto elim!: yields_weaken)
    qed
    with True show ?thesis by simp
  qed (use Suc.prems in simp)
qed simp

lemma parsePrimaryExpr_yields:
  assumes "parserOK U p" and "nests U p nested" and "0 \<le> pa_maxPlaceholder p" and "left p < n"
  shows "yields U (\<lambda>e p'. parsedInto U p e p' \<and> level e = 4) (left p - 1) (parsePrimaryExpr U n nested p)"
  unfolding parsePrimaryExpr_def
proof (rule yields_bind [OF parseOperand_yields [OF assms(1-3)]])
  fix e p' assume p': "parserOK U p'" "left p' \<le> left p - 1" "parsedInto U p e p' \<and> level e = 4"
  have "left p' < n" using p'(2) assms(4) by linarith
  from p'(3) have "wfExpr U e" "level e = 4" by (simp_all add: parsedInto_def)
  from selectorLoop_yields [OF p'(1) \<open>left p' < n\<close> this] p'(3)
  have "yields U (\<lambda>e p''. wfExpr U e \<and> level e = 4 \<and> pa_maxPlaceholder p'' = max (pa_maxPlaceholder p) (largestPlaceholder e)) (left p') (selectorLoop U n e p')"
    by (elim yields_weaken) (auto simp: parsedInto_def)
  then show "yields U (\<lambda>e p'. parsedInto U p e p' \<and> level e = 4) (left p - 1) (case (e, p') of (x, p') \<Rightarrow> selectorLoop U n x p')"
    using p'(2) by (auto simp: parsedInto_def elim!: yields_weaken)
qed

text \<open>The next operator, if there is one, binds at most so tightly.\<close>

definition opAtMost :: "parser \<Rightarrow> nat \<Rightarrow> bool" where
  "opAtMost p b \<longleftrightarrow> (\<forall>op. binaryOps (pa_lit p) = Some op \<longrightarrow> bo_precedence op \<le> b)"

definition contPre :: "unicode \<Rightarrow> expr \<Rightarrow> parser \<Rightarrow> bool" where
  "contPre U e p \<longleftrightarrow> wfExpr U e \<and> opAtMost p (level e) \<and> largestPlaceholder e \<le> pa_maxPlaceholder p"

definition contPost :: "unicode \<Rightarrow> expr \<Rightarrow> nat \<Rightarrow> parser \<Rightarrow> expr \<Rightarrow> parser \<Rightarrow> bool" where
  "contPost U lhs m p e p' \<longleftrightarrow> wfExpr U e \<and> opAtMost p' (level e) \<and> determineBinaryOp p' m = None \<and> level e \<ge> min m (level lhs) \<and>
     largestPlaceholder lhs \<le> largestPlaceholder e \<and> pa_maxPlaceholder p' = max (pa_maxPlaceholder p) (largestPlaceholder e)"

definition primaries :: "unicode \<Rightarrow> nat \<Rightarrow> expr parsing \<Rightarrow> bool" where
  "primaries U k primary \<longleftrightarrow> (\<forall>p. parserOK U p \<and> 0 \<le> pa_maxPlaceholder p \<and> left p < k \<longrightarrow>
     yields U (\<lambda>e p'. parsedInto U p e p' \<and> level e = 4) (left p - 1) (primary p))"

lemma determine_Some: "determineBinaryOp p m = Some op \<Longrightarrow> binaryOps (pa_lit p) = Some op \<and> m \<le> bo_precedence op"
  by (auto simp: determineBinaryOp_def split: option.splits if_splits)

lemma determine_None: "determineBinaryOp p m = None \<longleftrightarrow> (\<forall>op. binaryOps (pa_lit p) = Some op \<longrightarrow> bo_precedence op < m)"
  by (auto simp: determineBinaryOp_def split: option.splits)

lemma opAtMost_four [simp]: "opAtMost p 4"
  by (auto simp: opAtMost_def dest!: binaryOps_cases)

lemma operator_not_eof: "parserOK U p \<Longrightarrow> determineBinaryOp p m = Some op \<Longrightarrow> pa_tok p \<noteq> tokEOF"
  using lit_not_eof determine_Some binaryOps_cases by fastforce

lemma parseExprCont_yields:
  assumes "primaries U k primary"
  shows "parserOK U p \<Longrightarrow> contPre U lhs p \<Longrightarrow> left p \<le> k \<Longrightarrow> 2 * left p < n \<Longrightarrow>
      yields U (contPost U lhs m p) (left p - (if determineBinaryOp p m = None then 0 else 1)) (parseExprCont U primary n lhs m p)"
    and "parserOK U p \<Longrightarrow> contPre U lhs p \<Longrightarrow> left p \<le> k \<Longrightarrow> 2 * left p + 1 < n \<Longrightarrow> m \<le> level lhs \<Longrightarrow>
      yields U (contPost U lhs m p) (left p) (contLoop U primary n lhs m p)"
proof (induction n arbitrary: p lhs m)
  case (Suc n)
  {
    case 1
    show ?case
    proof (cases "determineBinaryOp p m")
      case None
      with 1 show ?thesis by (auto simp: contPost_def contPre_def)
    next
      case (Some op)
      have ne: "pa_tok p \<noteq> tokEOF" by (rule operator_not_eof [OF 1(1) Some])
      have op: "binaryOps (pa_lit p) = Some op" "m \<le> bo_precedence op" "bo_precedence op \<le> level lhs" "bo_precedence op \<le> 3" "binaryOps (bo_name op) = Some op"
        using determine_Some [OF Some] 1(2) binaryOps_cases [of "pa_lit p" op] by (auto simp: contPre_def opAtMost_def)
      have "yields U (contPost U lhs m p) (left p - 1) (bindO (parserNext U p) (\<lambda>p1. bindO (primary p1) (\<lambda>(rhs, p2).
        bindO (contLoop U primary n rhs (bo_precedence op + 1) p2) (\<lambda>(rhs', p3). parseExprCont U primary n (BinaryExpr op lhs rhs') m p3))))"
      proof (rule yields_next [OF 1(1)])
        fix p1 assume p1: "parserOK U p1" "pa_tok p \<noteq> tokEOF \<Longrightarrow> left p1 < left p" "pa_maxPlaceholder p1 = pa_maxPlaceholder p"
        have mx: "0 \<le> pa_maxPlaceholder p" using 1(2) largest_nonneg [of lhs] unfolding contPre_def by linarith
        have "yields U (\<lambda>e p'. parsedInto U p1 e p' \<and> level e = 4) (left p1 - 1) (primary p1)"
          using assms p1 p1(2) [OF ne] 1(3) mx by (auto simp: primaries_def)
        then show "yields U (contPost U lhs m p) (left p - 1) (bindO (primary p1) (\<lambda>(rhs, p2).
            bindO (contLoop U primary n rhs (bo_precedence op + 1) p2) (\<lambda>(rhs', p3). parseExprCont U primary n (BinaryExpr op lhs rhs') m p3)))"
        proof (rule yields_bind, unfold split_conv)
          fix rhs p2 assume p2: "parserOK U p2" "left p2 \<le> left p1 - 1" "parsedInto U p1 rhs p2 \<and> level rhs = 4"
          have "yields U (contPost U rhs (bo_precedence op + 1) p2) (left p2) (contLoop U primary n rhs (bo_precedence op + 1) p2)"
            using p2 p1(2) [OF ne] 1(3,4) op(4) by (intro Suc(2)) (auto simp: contPre_def parsedInto_def)
          then show "yields U (contPost U lhs m p) (left p - 1) (bindO (contLoop U primary n rhs (bo_precedence op + 1) p2)
              (\<lambda>(rhs', p3). parseExprCont U primary n (BinaryExpr op lhs rhs') m p3))"
          proof (rule yields_bind, unfold split_conv)
            fix rhs' p3 assume p3: "parserOK U p3" "left p3 \<le> left p2" "contPost U rhs (bo_precedence op + 1) p2 rhs' p3"
            have lv: "level rhs' > bo_precedence op" using p3(3) p2(3) op(4) by (auto simp: contPost_def)
            have mxs: "pa_maxPlaceholder p3 = max (pa_maxPlaceholder p) (largestPlaceholder (BinaryExpr op lhs rhs'))" "pa_maxPlaceholder p \<le> pa_maxPlaceholder p3"
              using p3(3) p2(3) p1(3) 1(2) by (auto simp: contPost_def contPre_def parsedInto_def)
            have pre: "contPre U (BinaryExpr op lhs rhs') p3"
              using p3(3) op lv 1(2) mxs by (auto simp: contPost_def contPre_def wfExpr_def opAtMost_def determine_None less_Suc_eq_le)
            have "yields U (contPost U (BinaryExpr op lhs rhs') m p3) (left p3 - (if determineBinaryOp p3 m = None then 0 else 1))
                (parseExprCont U primary n (BinaryExpr op lhs rhs') m p3)"
              using p3(1,2) p2(2) p1(2) [OF ne] 1(3,4) pre by (intro Suc(1)) auto
            then show "yields U (contPost U lhs m p) (left p - 1) (parseExprCont U primary n (BinaryExpr op lhs rhs') m p3)"
              using p3(2) p2(2) p1(2) [OF ne] op(2) mxs by (elim yields_weaken) (auto simp: contPost_def max.assoc max.absorb2)
          qed
        qed
      qed
      with Some show ?thesis by simp
    qed
  next
    case 2
    show ?case
    proof (cases "determineBinaryOp p m")
      case None
      with 2 show ?thesis by (auto simp: contPost_def contPre_def)
    next
      case (Some op)
      have ne: "pa_tok p \<noteq> tokEOF" by (rule operator_not_eof [OF 2(1) Some])
      have pos: "left p > 0" using ne by (simp add: left_def)
      have op: "m \<le> bo_precedence op" "determineBinaryOp p (bo_precedence op) \<noteq> None" using determine_Some [OF Some] by (auto simp: determine_None)
      have "yields U (contPost U lhs (bo_precedence op) p) (left p - 1) (parseExprCont U primary n lhs (bo_precedence op) p)"
        using Suc(1) [of p lhs "bo_precedence op"] 2 op(2) by simp
      then have "yields U (contPost U lhs m p) (left p) (bindO (parseExprCont U primary n lhs (bo_precedence op) p) (\<lambda>(rhs', p'). contLoop U primary n rhs' m p'))"
      proof (rule yields_bind, unfold split_conv)
        fix e p' assume p': "parserOK U p'" "left p' \<le> left p - 1" "contPost U lhs (bo_precedence op) p e p'"
        have lv: "m \<le> level e" using p'(3) op(1) 2(5) by (auto simp: contPost_def min_def split: if_splits)
        have "yields U (contPost U e m p') (left p') (contLoop U primary n e m p')"
          using p' 2(3,4) pos lv by (intro Suc(2)) (auto simp: contPre_def contPost_def)
        then show "yields U (contPost U lhs m p) (left p) (contLoop U primary n e m p')"
          using p' lv by (elim yields_weaken) (auto simp: contPost_def max.assoc max.absorb2)
      qed
      with Some show ?thesis by simp
    qed
  }
qed simp_all

lemma parseExpr_yields:
  "parserOK U p \<Longrightarrow> 0 \<le> pa_maxPlaceholder p \<Longrightarrow> 2 * left p + 2 \<le> n \<Longrightarrow> yields U (parsedInto U p) (left p - 1) (parseExpr U n p)"
proof (induction n arbitrary: p)
  case (Suc n)
  let ?primary = "parsePrimaryExpr U n (parseExpr U n)"
  have nests: "nests U q (parseExpr U n)" if "left q \<le> left p" for q
    using Suc.IH Suc.prems(3) that by (auto simp: nests_def)
  have prim: "yields U (\<lambda>e p'. parsedInto U q e p' \<and> level e = 4) (left q - 1) (?primary q)" if "parserOK U q" "0 \<le> pa_maxPlaceholder q" "left q \<le> left p" for q
    using that Suc.prems(3) by (intro parsePrimaryExpr_yields nests) auto
  have "yields U (parsedInto U p) (left p - 1) (bindO (?primary p) (\<lambda>(e, p1). parseExprCont U ?primary n e 0 p1))"
  proof (rule yields_bind [OF prim [OF Suc.prems(1,2)]], unfold split_conv)
    fix e p1 assume p1: "parserOK U p1" "left p1 \<le> left p - 1" "parsedInto U p e p1 \<and> level e = 4"
    have "primaries U (left p) ?primary" unfolding primaries_def using prim by auto
    moreover have "contPre U e p1" using p1(3) by (auto simp: contPre_def parsedInto_def)
    ultimately have "yields U (contPost U e 0 p1) (left p1 - (if determineBinaryOp p1 0 = None then 0 else 1)) (parseExprCont U ?primary n e 0 p1)"
      using p1(1,2) Suc.prems(3) by (intro parseExprCont_yields(1) [where k = "left p"]) auto
    then show "yields U (parsedInto U p) (left p - 1) (parseExprCont U ?primary n e 0 p1)"
      using p1 by (elim yields_weaken) (auto simp: contPost_def parsedInto_def max.assoc max.absorb2)
  qed simp
  then show ?case by simp
qed simp

lemma newParser_ok:
  "(\<exists>e. newParser U src = Fail e) \<or> (\<exists>p. newParser U src = Ok p \<and> parserOK U p \<and> left p \<le> length src + 1 \<and> pa_maxPlaceholder p = 0)"
proof -
  let ?s0 = "\<lparr>sc_src = src, sc_ch = 0, sc_offset = 0, sc_rdOffset = 0\<rparr>"
  have "fine (scanNext ?s0)" by simp
  then consider e where "scanNext ?s0 = Fail e" | s where "scanNext ?s0 = Ok s" by (auto simp: fine_def)
  then show ?thesis
  proof cases
    case (2 s)
    from scanNext_sound [OF this] have s: "scanOK s" "sc_src s = src" by auto
    have "fine (Scan U s)" by simp
    then consider e where "Scan U s = Fail e" | pos tok lit s' where "Scan U s = Ok ((pos, tok, lit), s')"
      unfolding fine_def by (metis prod_cases3 surj_pair)
    then show ?thesis
    proof cases
      case (2 pos tok lit s')
      from Scan_sound [OF this s(1)] s(2) 2 \<open>scanNext ?s0 = Ok s\<close> show ?thesis
        by (auto simp: newParser_def scannerInit_def parserNext_def parserOK_def left_def split: if_splits)
    qed (simp add: newParser_def scannerInit_def parserNext_def \<open>scanNext ?s0 = Ok s\<close>)
  qed (simp add: newParser_def scannerInit_def)
qed

lemma parse_outcomes:
  "(\<exists>e. parse U src = Fail e) \<or> (\<exists>p. parse U src = Ok (None, p) \<and> pa_maxPlaceholder p = 0) \<or>
   (\<exists>e p. parse U src = Ok (Some e, p) \<and> wfExpr U e \<and> pa_maxPlaceholder p = largestPlaceholder e)"
  using newParser_ok [of U src]
proof (elim disjE exE conjE)
  fix p assume p: "newParser U src = Ok p" "parserOK U p" "left p \<le> length src + 1" "pa_maxPlaceholder p = 0"
  show ?thesis
  proof (cases "pa_tok p = tokEOF")
    case False
    have "yields U (parsedInto U p) (left p - 1) (parseExpr U (2 * length src + 4) p)" using p by (intro parseExpr_yields) auto
    then consider x where "parseExpr U (2 * length src + 4) p = Fail x"
      | e p1 where "parseExpr U (2 * length src + 4) p = Ok (e, p1)" "parserOK U p1" "parsedInto U p e p1"
      by (cases "parseExpr U (2 * length src + 4) p") (auto simp: yields_def)
    then show ?thesis
    proof cases
      case (2 e p1)
      from parserNext_ok [OF 2(2)] show ?thesis
      proof (elim disjE exE conjE)
        fix p2 assume "parserNext U p1 = Ok p2" "pa_maxPlaceholder p2 = pa_maxPlaceholder p1"
        with 2 False p show ?thesis by (auto simp: parse_def parseTok_def parserError_def parsedInto_def)
      qed (use 2 False p in \<open>auto simp: parse_def parseTok_def parserError_def\<close>)
    qed (use False p in \<open>simp add: parse_def\<close>)
  qed (use p in \<open>simp add: parse_def\<close>)
qed (simp add: parse_def)

text \<open>
  C23. Parsing a filter ends with an expression or with an error, for every source and within the given fuel. The expression is well formed:
  names are identifiers, string literals have no quote or backslash inside, integers and placeholders are decimal numerals of 63 bits,
  operators nest by precedence; and the number of parameters is the largest placeholder.
\<close>
theorem filter_parse_total:
  "(\<exists>e. parse U src = Fail e) \<or> (\<exists>p. parse U src = Ok (None, p) \<and> pa_maxPlaceholder p = 0) \<or>
   (\<exists>e p. parse U src = Ok (Some e, p) \<and> wfExpr U e \<and> pa_maxPlaceholder p = largestPlaceholder e)"
  by (rule parse_outcomes)

end
