(* ===== verification/Filter_SQL.thy ===== *)
theory Filter_SQL
  imports Filter_Parsing
begin

text \<open>
  Type checking of filters and their translation to SQL, \<^verbatim>\<open>core/query/filter/typecheck.go\<close> and \<^verbatim>\<open>sql.go\<close>, with the entry points \<open>Parse\<close> and
  \<open>ParseField\<close> of \<^verbatim>\<open>parser.go\<close>. The buffer that the code appends to is the string returned. Quoting of identifiers is done by the database
  driver and is a parameter.
\<close>

section \<open>Tables\<close>

datatype SQLType = SQLBool | SQLText | SQLBytea | SQLJSONB | SQLInteger | SQLBigint | SQLTimestamp

record SQLColumn =
  col_Name :: string
  col_Type :: Type
  col_SQLType :: SQLType

datatype SQLTable = SQLTable (tb_Name: string) (tb_Alias: string) (tb_Columns: "string \<Rightarrow> SQLColumn option")
    (tb_ForeignKeys: "string \<Rightarrow> SQLForeignKey option")
  and SQLForeignKey = SQLForeignKey (fk_Table: SQLTable) (fk_LocalColumn: string) (fk_ForeignColumn: string)

text \<open>The values given for placeholders, by the types that the code tells apart.\<close>

datatype filterValue = IntegerValue int | StringValue string | BoolValue bool | OtherValue

datatype filterError = BadSyntax parseError | UnsupportedValue | NotBool Type | BoolOperands string | ScalarOperands string | MatchingOperands string
  | UnboundPlaceholder int | InvalidAttribute string | NotAnObject | InvalidEnvironment string | EnvironmentNotBool string
  | UsedAsBoth string Type Type | CannotIndex string | InvalidToken token | EmptyField | NotAField | RecoveredPanic | ErrParameterCountMismatch

section \<open>Type checking\<close>

definition isType :: "Type \<Rightarrow> Type \<Rightarrow> bool" where
  "isType got want \<longleftrightarrow> got = want \<or> got = Any"

definition knownType :: "Type \<Rightarrow> bool" where
  "knownType t \<longleftrightarrow> t = Bool \<or> t = String \<or> t = Integer \<or> t = Object"

primrec valueTypes :: "filterValue list \<Rightarrow> (filterError, Type list) outcome" where
  "valueTypes [] = Ok []"
| "valueTypes (v # vs) =
     bindO (case v of IntegerValue _ \<Rightarrow> Ok Integer | StringValue _ \<Rightarrow> Ok String | BoolValue _ \<Rightarrow> Ok Bool | OtherValue \<Rightarrow> Fail UnsupportedValue) (\<lambda>t.
     bindO (valueTypes vs) (\<lambda>ts. Ok (t # ts)))"

text \<open>The path of a selector; other expressions panic.\<close>

primrec jsonbPath :: "expr \<Rightarrow> ('e, string list) outcome" where
  "jsonbPath (SelectorExpr ident obj) = bindO (jsonbPath obj) (\<lambda>path. Ok (path @ [ident]))"
| "jsonbPath (AttrExpr attr) = Ok [attr]"
| "jsonbPath (BinaryExpr op l r) = Crash"
| "jsonbPath (ParenExpr inner) = Crash"
| "jsonbPath (ValueExpr typ v) = Crash"
| "jsonbPath (EnvExpr ident e) = Crash"
| "jsonbPath (PlaceholderExpr num) = Crash"

fun joinDots :: "string list \<Rightarrow> string" where
  "joinDots [] = []"
| "joinDots [x] = x"
| "joinDots (x # y # xs) = x @ ''.'' @ joinDots (y # xs)"

type_synonym selectorTypes = "string \<Rightarrow> Type option"

definition bindSelector :: "string \<Rightarrow> Type \<Rightarrow> selectorTypes \<Rightarrow> (filterError, selectorTypes) outcome" where
  "bindSelector path ty sel = (case sel path of Some bound \<Rightarrow> if bound \<noteq> ty then Fail (UsedAsBoth path bound ty) else Ok (sel(path \<mapsto> ty))
     | None \<Rightarrow> Ok (sel(path \<mapsto> ty)))"

primrec setType :: "expr \<Rightarrow> Type \<Rightarrow> selectorTypes \<Rightarrow> (filterError, selectorTypes) outcome" where
  "setType (ParenExpr inner) ty sel = setType inner ty sel"
| "setType (PlaceholderExpr num) ty sel = Ok sel"
| "setType (SelectorExpr ident obj) ty sel = bindO (jsonbPath (SelectorExpr ident obj)) (\<lambda>path. bindSelector (joinDots path) ty sel)"
| "setType (BinaryExpr op l r) ty sel = Crash"
| "setType (AttrExpr attr) ty sel = Crash"
| "setType (ValueExpr typ v) ty sel = Crash"
| "setType (EnvExpr ident e) ty sel = Crash"

definition assertType :: "expr \<Rightarrow> Type \<Rightarrow> Type \<Rightarrow> selectorTypes \<Rightarrow> (filterError, bool \<times> selectorTypes) outcome" where
  "assertType e got want sel = (if \<not> isType got want then Ok (False, sel)
     else if got \<noteq> Any then Ok (True, sel)
     else bindO (setType e want sel) (\<lambda>sel'. Ok (True, sel')))"

text \<open>An assertion whose failure is an error.\<close>

definition mustBe :: "expr \<Rightarrow> Type \<Rightarrow> Type \<Rightarrow> filterError \<Rightarrow> selectorTypes \<Rightarrow> (filterError, selectorTypes) outcome" where
  "mustBe e got want err sel = bindO (assertType e got want sel) (\<lambda>(ok, sel'). if \<not> ok then Fail err else Ok sel')"

text \<open>The checks of the operands of an equation, where an unknown type takes the known type of the other side.\<close>

definition checkEquation :: "string \<Rightarrow> expr \<Rightarrow> Type \<Rightarrow> expr \<Rightarrow> Type \<Rightarrow> selectorTypes \<Rightarrow> (filterError, Type \<times> selectorTypes) outcome" where
  "checkEquation name l leftTyp r rightTyp sel =
     bindO (if \<not> knownType leftTyp \<and> knownType rightTyp then bindO (setType l rightTyp sel) (\<lambda>sel'. Ok (rightTyp, sel')) else Ok (leftTyp, sel)) (\<lambda>(leftTyp, sel1).
     bindO (if \<not> knownType rightTyp \<and> knownType leftTyp then bindO (setType r leftTyp sel1) (\<lambda>sel'. Ok (leftTyp, sel')) else Ok (rightTyp, sel1)) (\<lambda>(rightTyp, sel2).
     if \<not> isType leftTyp String \<and> \<not> isType leftTyp Integer then Fail (ScalarOperands name)
     else if \<not> isType rightTyp String \<and> \<not> isType rightTyp Integer then Fail (ScalarOperands name)
     else if knownType rightTyp \<and> knownType leftTyp \<and> leftTyp \<noteq> rightTyp then Fail (MatchingOperands name)
     else Ok (Bool, sel2)))"

primrec typeCheckExpr :: "expr \<Rightarrow> SQLTable \<Rightarrow> Type list \<Rightarrow> selectorTypes \<Rightarrow> (filterError, Type \<times> selectorTypes) outcome" where
  "typeCheckExpr (ParenExpr inner) tbl valTypes sel = typeCheckExpr inner tbl valTypes sel"
| "typeCheckExpr (BinaryExpr op l r) tbl valTypes sel =
     bindO (typeCheckExpr l tbl valTypes sel) (\<lambda>(leftTyp, sel1).
     bindO (typeCheckExpr r tbl valTypes sel1) (\<lambda>(rightTyp, sel2).
     if bo_name op = ''OR'' \<or> bo_name op = ''AND'' then
       bindO (mustBe l leftTyp Bool (BoolOperands (bo_name op)) sel2) (\<lambda>sel3.
       bindO (mustBe r rightTyp Bool (BoolOperands (bo_name op)) sel3) (\<lambda>sel4. Ok (Bool, sel4)))
     else if bo_name op = ''='' then checkEquation (bo_name op) l leftTyp r rightTyp sel2
     else Crash))"
| "typeCheckExpr (PlaceholderExpr num) tbl valTypes sel =
     (if valTypes = [] then Ok (Any, sel)
      else if num \<le> 0 \<or> num > int (length valTypes) then Fail (UnboundPlaceholder num)
      else Ok (valTypes ! nat (num - 1), sel))"
| "typeCheckExpr (AttrExpr attr) tbl valTypes sel =
     (case tb_Columns tbl attr of None \<Rightarrow> Fail (InvalidAttribute attr) | Some col \<Rightarrow> Ok (col_Type col, sel))"
| "typeCheckExpr (ValueExpr typ v) tbl valTypes sel =
     (if typ = tokString then Ok (String, sel) else if typ = tokInteger then Ok (Integer, sel) else Crash)"
| "typeCheckExpr (SelectorExpr ident obj) tbl valTypes sel =
     bindO (typeCheckExpr obj tbl valTypes sel) (\<lambda>(ty, sel1). bindO (mustBe obj ty Object NotAnObject sel1) (\<lambda>sel2. Ok (Any, sel2)))"
| "typeCheckExpr (EnvExpr ident e) tbl valTypes sel =
     (case tb_ForeignKeys tbl ident of None \<Rightarrow> Fail (InvalidEnvironment ident)
      | Some fk \<Rightarrow>
        bindO (typeCheckExpr e (fk_Table fk) valTypes sel) (\<lambda>(ty, sel1).
        bindO (mustBe e ty Bool (EnvironmentNotBool ident) sel1) (\<lambda>sel2. Ok (Bool, sel2))))"

text \<open>No expression is a valid predicate of type bool.\<close>

definition typeCheck :: "expr option \<Rightarrow> SQLTable \<Rightarrow> filterValue list \<Rightarrow> (filterError, selectorTypes) outcome" where
  "typeCheck eo tbl vals =
     bindO (valueTypes vals) (\<lambda>valTypes.
     case eo of None \<Rightarrow> Ok Map.empty
     | Some e \<Rightarrow> bindO (typeCheckExpr e tbl valTypes Map.empty) (\<lambda>(ty, sel). mustBe e ty Bool (NotBool ty) sel))"

section \<open>Predicates and fields\<close>

record Predicate =
  pr_expr :: "expr option"
  pr_selectorTypes :: selectorTypes
  pr_Parameters :: int

definition PredicateString :: "Predicate \<Rightarrow> string" where
  "PredicateString p = (case pr_expr p of None \<Rightarrow> [] | Some e \<Rightarrow> exprString e)"

definition parseFilter :: "unicode \<Rightarrow> string \<Rightarrow> (filterError, expr option \<times> parser) outcome" where
  "parseFilter U s = (case parse U s of Ok x \<Rightarrow> Ok x | Fail e \<Rightarrow> Fail (BadSyntax e) | Crash \<Rightarrow> Crash | Diverge \<Rightarrow> Diverge)"

definition Parse :: "unicode \<Rightarrow> string \<Rightarrow> SQLTable \<Rightarrow> filterValue list \<Rightarrow> (filterError, Predicate) outcome" where
  "Parse U predicate tbl vals =
     bindO (parseFilter U predicate) (\<lambda>(eo, p).
     bindO (typeCheck eo tbl vals) (\<lambda>sel.
     Ok \<lparr>pr_expr = eo, pr_selectorTypes = sel, pr_Parameters = pa_maxPlaceholder p\<rparr>))"

definition ParseField :: "unicode \<Rightarrow> string \<Rightarrow> (filterError, expr) outcome" where
  "ParseField U s = bindO (parseFilter U s) (\<lambda>(eo, p). case eo of None \<Rightarrow> Fail EmptyField
     | Some (AttrExpr a) \<Rightarrow> Ok (AttrExpr a) | Some (SelectorExpr i obj) \<Rightarrow> Ok (SelectorExpr i obj) | Some _ \<Rightarrow> Fail NotAField)"

section \<open>Translation to SQL\<close>

text \<open>The steps into an object, the last of which takes the value as text.\<close>

fun arrows :: "string list \<Rightarrow> string" where
  "arrows [] = []"
| "arrows [c] = ''->>'' @ [CHR 0x27] @ c @ [CHR 0x27]"
| "arrows (c # d # cs) = ''->'' @ [CHR 0x27] @ c @ [CHR 0x27] @ arrows (d # cs)"

definition FieldAsSQL :: "(string \<Rightarrow> string) \<Rightarrow> SQLTable \<Rightarrow> expr \<Rightarrow> (filterError, string) outcome" where
  "FieldAsSQL quote tbl f = bindO (jsonbPath f) (\<lambda>path.
     case tb_Columns tbl (hd path) of None \<Rightarrow> Fail (InvalidAttribute (hd path))
     | Some col \<Rightarrow>
       if col_SQLType col \<noteq> SQLJSONB \<and> tl path \<noteq> [] then Fail (CannotIndex (hd path))
       else Ok ((if col_SQLType col = SQLBytea then ''encode('' else []) @ tb_Alias tbl @ ''.'' @ quote (hd path) @
         (if col_SQLType col = SQLBytea then '', '' @ [CHR 0x27] @ ''hex'' @ [CHR 0x27] @ '')'' else []) @ arrows (tl path)))"

definition writeCol :: "(string \<Rightarrow> string) \<Rightarrow> SQLTable \<Rightarrow> string \<Rightarrow> string" where
  "writeCol quote tbl name = tb_Alias tbl @ ''.'' @ quote name"

definition columnSQL :: "(string \<Rightarrow> string) \<Rightarrow> SQLTable \<Rightarrow> SQLColumn \<Rightarrow> string" where
  "columnSQL quote tbl col = (case col_SQLType col of
       SQLBytea \<Rightarrow> ''encode('' @ writeCol quote tbl (col_Name col) @ '', '' @ [CHR 0x27] @ ''hex'' @ [CHR 0x27] @ '')''
     | SQLJSONB \<Rightarrow> writeCol quote tbl (col_Name col) @ ''::text''
     | SQLInteger \<Rightarrow> writeCol quote tbl (col_Name col) @ ''::bigint''
     | SQLTimestamp \<Rightarrow> writeCol quote tbl (col_Name col) @ ''::text''
     | _ \<Rightarrow> writeCol quote tbl (col_Name col))"

definition castSQL :: "Type option \<Rightarrow> string" where
  "castSQL ty = (case ty of Some Integer \<Rightarrow> ''::bigint'' | Some Bool \<Rightarrow> ''::boolean'' | Some Object \<Rightarrow> ''::jsonb'' | _ \<Rightarrow> [])"

definition selectorSQL :: "(string \<Rightarrow> string) \<Rightarrow> SQLTable \<Rightarrow> selectorTypes \<Rightarrow> string list \<Rightarrow> (filterError, string) outcome" where
  "selectorSQL quote tbl sel path =
     (case tb_Columns tbl (hd path) of None \<Rightarrow> Fail (InvalidAttribute (hd path))
      | Some col \<Rightarrow>
        if col_SQLType col \<noteq> SQLJSONB then Fail (CannotIndex (hd path))
        else Ok (''('' @ writeCol quote tbl (hd path) @ arrows (tl path) @ '')'' @ castSQL (sel (joinDots path))))"

primrec asSQL :: "(string \<Rightarrow> string) \<Rightarrow> selectorTypes \<Rightarrow> filterValue list \<Rightarrow> SQLTable \<Rightarrow> expr \<Rightarrow> (filterError, string) outcome" where
  "asSQL quote sel values tbl (ParenExpr inner) = bindO (asSQL quote sel values tbl inner) (\<lambda>q. Ok (''('' @ q @ '')''))"
| "asSQL quote sel values tbl (ValueExpr typ v) =
     (if typ = tokString then Ok v else if typ = tokInteger then Ok (v @ ''::bigint'') else Fail (InvalidToken typ))"
| "asSQL quote sel values tbl (AttrExpr attr) =
     (case tb_Columns tbl attr of None \<Rightarrow> Fail (InvalidAttribute attr) | Some col \<Rightarrow> Ok (columnSQL quote tbl col))"
| "asSQL quote sel values tbl (SelectorExpr ident obj) = bindO (jsonbPath (SelectorExpr ident obj)) (selectorSQL quote tbl sel)"
| "asSQL quote sel values tbl (BinaryExpr op l r) =
     bindO (asSQL quote sel values tbl l) (\<lambda>q1. bindO (asSQL quote sel values tbl r) (\<lambda>q2. Ok (q1 @ '' '' @ bo_sqlOp op @ '' '' @ q2)))"
| "asSQL quote sel values tbl (PlaceholderExpr num) =
     (if num < 1 \<or> num > int (length values) then Fail (UnboundPlaceholder num) else Ok (''$'' @ Itoa num))"
| "asSQL quote sel values tbl (EnvExpr ident e) =
     (case tb_ForeignKeys tbl ident of None \<Rightarrow> Fail (InvalidEnvironment ident)
      | Some fk \<Rightarrow> bindO (asSQL quote sel values (fk_Table fk) e) (\<lambda>q.
          Ok ([CHR 10] @ ''EXISTS(SELECT 1 FROM '' @ tb_Name (fk_Table fk) @ '' AS '' @ tb_Alias (fk_Table fk) @ '' WHERE '' @ tb_Alias (fk_Table fk) @
            ''.'' @ [CHR 34] @ fk_ForeignColumn fk @ [CHR 34] @ '' = '' @ tb_Alias tbl @ ''.'' @ [CHR 34] @ fk_LocalColumn fk @ [CHR 34] @ '' AND ('' @
            q @ ''))'' @ [CHR 10])))"

text \<open>A panic of the translation, whose value is always an error, is recovered.\<close>

definition AsSQL :: "(string \<Rightarrow> string) \<Rightarrow> Predicate \<Rightarrow> SQLTable \<Rightarrow> filterValue list \<Rightarrow> (filterError, string) outcome" where
  "AsSQL quote p tbl values = (case pr_expr p of None \<Rightarrow> Ok []
     | Some e \<Rightarrow> (case asSQL quote (pr_selectorTypes p) values tbl e of Crash \<Rightarrow> Fail RecoveredPanic | r \<Rightarrow> r))"

end
