(* ===== verification/Query.thy ===== *)
theory Query
  imports Filter_SQL
begin

text \<open>
  The tables of the query indexes and the construction of the queries over them, \<^verbatim>\<open>core/query\<close>. What the database does with a query is not
  modelled; a listing is modelled up to the query it sends.
\<close>

section \<open>Tables\<close>

definition column :: "string \<Rightarrow> Type \<Rightarrow> SQLType \<Rightarrow> SQLColumn" where
  "column name ty sqlType = \<lparr>col_Name = name, col_Type = ty, col_SQLType = sqlType\<rparr>"

definition assetsTable :: SQLTable where
  "assetsTable = SQLTable ''annotated_assets'' ''ast''
     [''id'' \<mapsto> column ''id'' String SQLBytea,
      ''alias'' \<mapsto> column ''alias'' String SQLText,
      ''issuance_program'' \<mapsto> column ''issuance_program'' String SQLBytea,
      ''quorum'' \<mapsto> column ''quorum'' Integer SQLInteger,
      ''tags'' \<mapsto> column ''tags'' Object SQLJSONB,
      ''definition'' \<mapsto> column ''definition'' Object SQLJSONB,
      ''is_local'' \<mapsto> column ''local'' String SQLBool]
     Map.empty"

definition accountsTable :: SQLTable where
  "accountsTable = SQLTable ''annotated_accounts'' ''acc''
     [''id'' \<mapsto> column ''id'' String SQLText,
      ''alias'' \<mapsto> column ''alias'' String SQLText,
      ''quorum'' \<mapsto> column ''quorum'' Integer SQLInteger,
      ''tags'' \<mapsto> column ''tags'' Object SQLJSONB]
     Map.empty"

definition outputsTable :: SQLTable where
  "outputsTable = SQLTable ''annotated_outputs'' ''out''
     [''id'' \<mapsto> column ''output_id'' String SQLBytea,
      ''type'' \<mapsto> column ''type'' String SQLText,
      ''purpose'' \<mapsto> column ''purpose'' String SQLText,
      ''transaction_id'' \<mapsto> column ''tx_hash'' String SQLBytea,
      ''position'' \<mapsto> column ''output_index'' Integer SQLInteger,
      ''asset_id'' \<mapsto> column ''asset_id'' String SQLBytea,
      ''asset_alias'' \<mapsto> column ''asset_alias'' String SQLText,
      ''asset_definition'' \<mapsto> column ''asset_definition'' Object SQLJSONB,
      ''asset_tags'' \<mapsto> column ''asset_tags'' Object SQLJSONB,
      ''asset_is_local'' \<mapsto> column ''asset_local'' String SQLBool,
      ''amount'' \<mapsto> column ''amount'' Integer SQLBigint,
      ''account_id'' \<mapsto> column ''account_id'' String SQLText,
      ''account_alias'' \<mapsto> column ''account_alias'' String SQLText,
      ''account_tags'' \<mapsto> column ''account_tags'' Object SQLJSONB,
      ''control_program'' \<mapsto> column ''control_program'' String SQLBytea,
      ''reference_data'' \<mapsto> column ''reference_data'' Object SQLJSONB,
      ''is_local'' \<mapsto> column ''local'' String SQLBool]
     Map.empty"

definition inputsTable :: SQLTable where
  "inputsTable = SQLTable ''annotated_inputs'' ''inp''
     [''type'' \<mapsto> column ''type'' String SQLText,
      ''asset_id'' \<mapsto> column ''asset_id'' String SQLBytea,
      ''asset_alias'' \<mapsto> column ''asset_alias'' String SQLText,
      ''asset_definition'' \<mapsto> column ''asset_definition'' Object SQLJSONB,
      ''asset_tags'' \<mapsto> column ''asset_tags'' Object SQLJSONB,
      ''asset_is_local'' \<mapsto> column ''asset_local'' String SQLBool,
      ''amount'' \<mapsto> column ''amount'' Integer SQLBigint,
      ''account_id'' \<mapsto> column ''account_id'' String SQLText,
      ''account_alias'' \<mapsto> column ''account_alias'' String SQLText,
      ''account_tags'' \<mapsto> column ''account_tags'' Object SQLJSONB,
      ''issuance_program'' \<mapsto> column ''issuance_program'' String SQLBytea,
      ''reference_data'' \<mapsto> column ''reference_data'' Object SQLJSONB,
      ''is_local'' \<mapsto> column ''local'' String SQLBool,
      ''spent_output_id'' \<mapsto> column ''spent_output_id'' String SQLBytea,
      ''spent_output'' \<mapsto> column ''spent_output'' Object SQLJSONB]
     Map.empty"

definition transactionsTable :: SQLTable where
  "transactionsTable = SQLTable ''annotated_txs'' ''txs''
     [''id'' \<mapsto> column ''tx_hash'' String SQLBytea,
      ''timestamp'' \<mapsto> column ''timestamp'' String SQLTimestamp,
      ''block_id'' \<mapsto> column ''block_id'' String SQLBytea,
      ''block_height'' \<mapsto> column ''block_height'' Integer SQLBigint,
      ''position'' \<mapsto> column ''tx_pos'' Integer SQLInteger,
      ''block_transactions_count'' \<mapsto> column ''block_tx_count'' Integer SQLInteger,
      ''reference_data'' \<mapsto> column ''reference_data'' Object SQLJSONB,
      ''is_local'' \<mapsto> column ''local'' String SQLBool]
     [''inputs'' \<mapsto> SQLForeignKey inputsTable ''tx_hash'' ''tx_hash'',
      ''outputs'' \<mapsto> SQLForeignKey outputsTable ''tx_hash'' ''tx_hash'']"

section \<open>Queries\<close>

text \<open>The filter in a query, between parentheses unless it is empty.\<close>

definition conjunct :: "string \<Rightarrow> string" where
  "conjunct expr = (if expr \<noteq> [] then ''('' @ expr @ '') AND '' else [])"

definition param :: "nat \<Rightarrow> string" where
  "param i = ''$'' @ Itoa (int i)"

definition constructAccountsQuery :: "string \<Rightarrow> filterValue list \<Rightarrow> string \<Rightarrow> int \<Rightarrow> string \<times> filterValue list" where
  "constructAccountsQuery expr vals after limit =
     (''SELECT id, alias, keys, quorum, tags FROM annotated_accounts AS acc WHERE '' @ conjunct expr @
      ''('' @ param (length vals + 1) @ ''='' @ [CHR 0x27, CHR 0x27] @ '' OR id < '' @ param (length vals + 1) @ '') ORDER BY id DESC LIMIT '' @ Itoa limit,
      vals @ [StringValue after])"

definition constructAssetsQuery :: "string \<Rightarrow> filterValue list \<Rightarrow> string \<Rightarrow> int \<Rightarrow> string \<times> filterValue list" where
  "constructAssetsQuery expr vals after limit =
     (''SELECT id, sort_id, alias, issuance_program, keys, quorum, definition, tags, local FROM annotated_assets AS ast WHERE '' @ conjunct expr @
      ''('' @ param (length vals + 1) @ ''='' @ [CHR 0x27, CHR 0x27] @ '' OR sort_id < '' @ param (length vals + 1) @ '') ORDER BY sort_id DESC LIMIT '' @ Itoa limit,
      vals @ [StringValue after])"

record OutputsAfter =
  oa_lastBlockHeight :: int
  oa_lastTxPos :: int
  oa_lastIndex :: int

definition constructOutputsQuery :: "(string \<Rightarrow> string) \<Rightarrow> string \<Rightarrow> filterValue list \<Rightarrow> int \<Rightarrow> OutputsAfter option \<Rightarrow> int \<Rightarrow> string \<times> filterValue list" where
  "constructOutputsQuery quote expr vals timestampMS after limit =
     (let vals1 = vals @ [IntegerValue timestampMS];
          (page, vals2) = (case after of None \<Rightarrow> ([], vals1)
            | Some a \<Rightarrow> ('' AND (block_height, tx_pos, output_index) < ('' @ param (length vals1 + 1) @ '', '' @ param (length vals1 + 2) @ '', '' @
                 param (length vals1 + 3) @ '')'',
               vals1 @ [IntegerValue (oa_lastBlockHeight a), IntegerValue (oa_lastTxPos a), IntegerValue (oa_lastIndex a)]))
      in (''SELECT block_height, tx_pos, output_index, tx_hash, output_id, type, purpose, asset_id, asset_alias, asset_definition, asset_tags, asset_local, '' @
          ''amount, account_id, account_alias, account_tags, control_program, reference_data, local FROM '' @ quote ''annotated_outputs'' @ '' AS out WHERE '' @
          conjunct expr @ ''timespan @> '' @ param (length vals1) @ ''::int8'' @ page @
          '' ORDER BY block_height DESC, tx_pos DESC, output_index DESC LIMIT '' @ Itoa limit, vals2))"

record TxAfter =
  ta_FromBlockHeight :: int
  ta_FromPosition :: int
  ta_StopBlockHeight :: int

text \<open>Here the filter stands without parentheses.\<close>

definition constructTransactionsQuery :: "string \<Rightarrow> filterValue list \<Rightarrow> TxAfter \<Rightarrow> bool \<Rightarrow> int \<Rightarrow> string \<times> filterValue list" where
  "constructTransactionsQuery expr vals after asc limit =
     (''SELECT block_height, tx_pos, data FROM annotated_txs AS txs WHERE '' @ (if expr \<noteq> [] then expr @ '' AND '' else []) @
      ''(txs.block_height, txs.tx_pos) '' @ (if asc then ''>'' else ''<'') @ '' ('' @ param (length vals + 1) @ '', '' @ param (length vals + 2) @ '') AND '' @
      ''txs.block_height '' @ (if asc then ''<='' else ''>='') @ '' '' @ param (length vals + 3) @ '' ORDER BY txs.block_height '' @
      (if asc then ''ASC, txs.tx_pos ASC '' else ''DESC, txs.tx_pos DESC '') @ ''LIMIT '' @ Itoa limit,
      vals @ [IntegerValue (ta_FromBlockHeight after), IntegerValue (ta_FromPosition after), IntegerValue (ta_StopBlockHeight after)])"

primrec fieldsSQL :: "(string \<Rightarrow> string) \<Rightarrow> expr list \<Rightarrow> (filterError, string) outcome" where
  "fieldsSQL quote [] = Ok []"
| "fieldsSQL quote (f # fs) = bindO (FieldAsSQL quote outputsTable f) (\<lambda>q. bindO (fieldsSQL quote fs) (\<lambda>qs. Ok ('', '' @ q @ qs)))"

fun groupBy :: "nat \<Rightarrow> nat \<Rightarrow> string" where
  "groupBy i 0 = []"
| "groupBy i (Suc n) = (if i \<noteq> 0 then '', '' else []) @ Itoa (int (i + 2)) @ groupBy (Suc i) n"

definition constructBalancesQuery :: "(string \<Rightarrow> string) \<Rightarrow> string \<Rightarrow> filterValue list \<Rightarrow> expr list \<Rightarrow> int \<Rightarrow> (filterError, string \<times> filterValue list) outcome" where
  "constructBalancesQuery quote expr vals sumBy timestampMS = bindO (fieldsSQL quote sumBy) (\<lambda>fields.
     Ok (''SELECT COALESCE(SUM(amount), 0)'' @ fields @ '' FROM '' @ quote ''annotated_outputs'' @ '' AS out WHERE '' @ conjunct expr @
       ''timespan @> '' @ param (length vals + 1) @ ''::int8'' @ (if sumBy \<noteq> [] then '' GROUP BY '' @ groupBy 0 (length sumBy) else []),
       vals @ [IntegerValue timestampMS]))"

section \<open>Listings\<close>

text \<open>What every listing does first: parse, compare the number of parameters, translate.\<close>

definition filterSQL :: "unicode \<Rightarrow> (string \<Rightarrow> string) \<Rightarrow> string \<Rightarrow> SQLTable \<Rightarrow> filterValue list \<Rightarrow> (filterError, string) outcome" where
  "filterSQL U quote filt tbl vals = bindO (Parse U filt tbl vals) (\<lambda>p.
     if int (length vals) \<noteq> pr_Parameters p then Fail ErrParameterCountMismatch else AsSQL quote p tbl vals)"

definition Accounts :: "unicode \<Rightarrow> (string \<Rightarrow> string) \<Rightarrow> string \<Rightarrow> filterValue list \<Rightarrow> string \<Rightarrow> int \<Rightarrow> (filterError, string \<times> filterValue list) outcome" where
  "Accounts U quote filt vals after limit = bindO (filterSQL U quote filt accountsTable vals) (\<lambda>expr. Ok (constructAccountsQuery expr vals after limit))"

definition Assets :: "unicode \<Rightarrow> (string \<Rightarrow> string) \<Rightarrow> string \<Rightarrow> filterValue list \<Rightarrow> string \<Rightarrow> int \<Rightarrow> (filterError, string \<times> filterValue list) outcome" where
  "Assets U quote filt vals after limit = bindO (filterSQL U quote filt assetsTable vals) (\<lambda>expr. Ok (constructAssetsQuery expr vals after limit))"

definition Outputs :: "unicode \<Rightarrow> (string \<Rightarrow> string) \<Rightarrow> string \<Rightarrow> filterValue list \<Rightarrow> int \<Rightarrow> OutputsAfter option \<Rightarrow> int \<Rightarrow> (filterError, string \<times> filterValue list) outcome" where
  "Outputs U quote filt vals timestampMS after limit =
     bindO (filterSQL U quote filt outputsTable vals) (\<lambda>expr. Ok (constructOutputsQuery quote expr vals timestampMS after limit))"

definition Transactions :: "unicode \<Rightarrow> (string \<Rightarrow> string) \<Rightarrow> string \<Rightarrow> filterValue list \<Rightarrow> TxAfter \<Rightarrow> int \<Rightarrow> bool \<Rightarrow> (filterError, string \<times> filterValue list) outcome" where
  "Transactions U quote filt vals after limit asc =
     bindO (filterSQL U quote filt transactionsTable vals) (\<lambda>expr. Ok (constructTransactionsQuery expr vals after asc limit))"

definition Balances :: "unicode \<Rightarrow> (string \<Rightarrow> string) \<Rightarrow> string \<Rightarrow> filterValue list \<Rightarrow> expr list \<Rightarrow> int \<Rightarrow> (filterError, string \<times> filterValue list) outcome" where
  "Balances U quote filt vals sumBy timestampMS =
     bindO (filterSQL U quote filt outputsTable vals) (\<lambda>expr. constructBalancesQuery quote expr vals sumBy timestampMS)"

definition ValidateTransactionFilter :: "unicode \<Rightarrow> string \<Rightarrow> (filterError, unit) outcome" where
  "ValidateTransactionFilter U filt = bindO (Parse U filt transactionsTable []) (\<lambda>_. Ok ())"

end
