(* ===== verification/Filter_Roundtrip.thy ===== *)
theory Filter_Roundtrip
  imports Filter_Parsing
begin

text \<open>
  A parsed filter, printed and parsed again, is the same: the printed form is canonical.
\<close>

section \<open>More fuel does not change a result\<close>

definition moreDefined :: "'a parsing \<Rightarrow> 'a parsing \<Rightarrow> bool" where
  "moreDefined f g \<longleftrightarrow> (\<forall>p. f p \<noteq> Diverge \<longrightarrow> g p = f p)"

lemma bindO_more:
  assumes "bindO m f \<noteq> Diverge" and "m \<noteq> Diverge \<Longrightarrow> m' = m" and "\<And>a. m = Ok a \<Longrightarrow> f a \<noteq> Diverge \<Longrightarrow> f' a = f a"
  shows "bindO m' f' = bindO m f"
  using assms by (cases m) simp_all

lemma parseEnvironmentExpr_more:
  assumes "moreDefined f g"
  shows "moreDefined (parseEnvironmentExpr U f) (parseEnvironmentExpr U g)"
  unfolding moreDefined_def parseEnvironmentExpr_def
proof (intro allI impI, erule bindO_more, rule refl)
  fix p p1
  let ?rest = "\<lambda>h. if pa_lit p1 \<noteq> ''('' then Ok (AttrExpr (pa_lit p), p1)
    else bindO (parserNext U p1) (\<lambda>p2. bindO (h p2) (\<lambda>(e, p3). bindO (parseLit U '')'' p3) (\<lambda>p4. Ok (EnvExpr (pa_lit p) e, p4))))"
  assume "?rest f \<noteq> Diverge"
  then show "?rest g = ?rest f"
    using assms by (cases "pa_lit p1 = ''(''"; cases "parserNext U p1") (auto simp: moreDefined_def intro: bindO_more)
qed

lemma parseOperand_more:
  assumes "moreDefined f g"
  shows "moreDefined (parseOperand U f) (parseOperand U g)"
  unfolding moreDefined_def
proof (intro allI impI)
  fix p assume d: "parseOperand U f p \<noteq> Diverge"
  show "parseOperand U g p = parseOperand U f p"
  proof (cases "pa_lit p = ''(''")
    case True
    then show ?thesis using d assms by (cases "parserNext U p") (auto simp: parseOperand_def moreDefined_def intro: bindO_more)
  next
    case False
    then show ?thesis using d parseEnvironmentExpr_more [OF assms, of U] by (auto simp: parseOperand_def moreDefined_def)
  qed
qed

lemma selectorLoop_more: "selectorLoop U n x p \<noteq> Diverge \<Longrightarrow> n \<le> n' \<Longrightarrow> selectorLoop U n' x p = selectorLoop U n x p"
proof (induction n arbitrary: n' x p)
  case (Suc n)
  then obtain k where "n' = Suc k" "n \<le> k" by (cases n') auto
  with Suc show ?case by (cases "parseSelectorExpr U x p") (auto split: if_splits)
qed simp

lemma parsePrimaryExpr_more:
  assumes "moreDefined f g" and "n \<le> n'"
  shows "moreDefined (parsePrimaryExpr U n f) (parsePrimaryExpr U n' g)"
  unfolding moreDefined_def parsePrimaryExpr_def
proof (intro allI impI)
  fix p assume d: "bindO (parseOperand U f p) (\<lambda>(x, y). selectorLoop U n x y) \<noteq> Diverge"
  show "bindO (parseOperand U g p) (\<lambda>(x, y). selectorLoop U n' x y) = bindO (parseOperand U f p) (\<lambda>(x, y). selectorLoop U n x y)"
    by (rule bindO_more [OF d]) (use parseOperand_more [OF assms(1), of U] selectorLoop_more [OF _ assms(2)] in \<open>auto simp: moreDefined_def\<close>)
qed

lemma parseExprCont_more:
  assumes "moreDefined f g"
  shows "parseExprCont U f n lhs m p \<noteq> Diverge \<Longrightarrow> n \<le> n' \<Longrightarrow> parseExprCont U g n' lhs m p = parseExprCont U f n lhs m p"
    and "contLoop U f n lhs m p \<noteq> Diverge \<Longrightarrow> n \<le> n' \<Longrightarrow> contLoop U g n' lhs m p = contLoop U f n lhs m p"
proof (induction n arbitrary: n' lhs m p)
  case (Suc n)
  {
    case 1
    then obtain k where k: "n' = Suc k" "n \<le> k" by (cases n') auto
    show ?case
    proof (cases "determineBinaryOp p m")
      case (Some op)
      let ?rest = "\<lambda>h j (rhs, p2). bindO (contLoop U h j rhs (bo_precedence op + 1) p2) (\<lambda>(rhs', p3). parseExprCont U h j (BinaryExpr op lhs rhs') m p3)"
      have r: "?rest g k a = ?rest f n a" if "?rest f n a \<noteq> Diverge" for a
      proof (cases a)
        case (Pair rhs p2)
        then show ?thesis using that Suc(2) [of rhs _ p2 k] Suc(1) k(2) by (auto intro!: bindO_more)
      qed
      have d: "bindO (parserNext U p) (\<lambda>p1. bindO (f p1) (?rest f n)) \<noteq> Diverge" using 1(1) Some by simp
      have "bindO (g p1) (?rest g k) = bindO (f p1) (?rest f n)" if "bindO (f p1) (?rest f n) \<noteq> Diverge" for p1
        using that assms r by (intro bindO_more) (auto simp: moreDefined_def)
      then have "bindO (parserNext U p) (\<lambda>p1. bindO (g p1) (?rest g k)) = bindO (parserNext U p) (\<lambda>p1. bindO (f p1) (?rest f n))"
        by (intro bindO_more [OF d]) simp_all
      then show ?thesis using Some k by simp
    qed (use k in simp)
  next
    case 2
    then obtain k where k: "n' = Suc k" "n \<le> k" by (cases n') auto
    show ?case
    proof (cases "determineBinaryOp p m")
      case (Some op)
      have "bindO (parseExprCont U g k lhs (bo_precedence op) p) (\<lambda>(rhs', p'). contLoop U g k rhs' m p') =
        bindO (parseExprCont U f n lhs (bo_precedence op) p) (\<lambda>(rhs', p'). contLoop U f n rhs' m p')"
        using 2(1) Some Suc k(2) by (intro bindO_more) auto
      then show ?thesis using Some k by simp
    qed (use k in simp)
  }
qed simp_all

lemma parseExpr_more: "n \<le> n' \<Longrightarrow> moreDefined (parseExpr U n) (parseExpr U n')"
proof (induction n arbitrary: n')
  case (Suc n)
  then obtain k where k: "n' = Suc k" "n \<le> k" by (cases n') auto
  note prim = parsePrimaryExpr_more [OF Suc.IH [OF k(2)] k(2), of U]
  show ?case unfolding moreDefined_def k(1) parseExpr.simps
  proof (intro allI impI)
    let ?f = "parsePrimaryExpr U n (parseExpr U n)" and ?g = "parsePrimaryExpr U k (parseExpr U k)"
    fix p assume d: "bindO (?f p) (\<lambda>(e, y). parseExprCont U ?f n e 0 y) \<noteq> Diverge"
    show "bindO (?g p) (\<lambda>(e, y). parseExprCont U ?g k e 0 y) = bindO (?f p) (\<lambda>(e, y). parseExprCont U ?f n e 0 y)"
      by (rule bindO_more [OF d]) (use prim parseExprCont_more(1) [OF prim _ k(2)] in \<open>auto simp: moreDefined_def\<close>)
  qed
qed (simp add: moreDefined_def)

section \<open>Reading printed tokens\<close>

text \<open>The parser is at the first of the tokens, and the scanner will find the others.\<close>

definition sees :: "unicode \<Rightarrow> parser \<Rightarrow> (token \<times> string) list \<Rightarrow> bool" where
  "sees U p ts \<longleftrightarrow> (case ts of [] \<Rightarrow> False | t # ts' \<Rightarrow> (pa_tok p, pa_lit p) = t \<and> (\<exists>r. rest (pa_scanner p) r \<and> lexes U r ts'))"

lemma sees_cons: "sees U p (t # ts) \<Longrightarrow> pa_tok p = fst t \<and> pa_lit p = snd t"
  by (auto simp: sees_def)

lemma sees_hd: "sees U p ts \<Longrightarrow> pa_lit p = snd (hd ts)"
  by (cases ts) (auto simp: sees_def)

lemma sees_max [simp]: "sees U (p\<lparr>pa_maxPlaceholder := n\<rparr>) ts = sees U p ts"
  by (cases ts) (simp_all add: sees_def)

lemma sees_next:
  assumes "sees U p (t # ts)" and "ts \<noteq> []"
  shows "\<exists>p'. parserNext U p = Ok p' \<and> sees U p' ts"
proof -
  obtain t' ts' where ts: "ts = t' # ts'" using assms(2) by (cases ts) auto
  with assms(1) obtain r r' where r: "rest (pa_scanner p) r" "scans U r t' r'" "lexes U r' ts'" by (auto simp: sees_def)
  then obtain pos s' where "Scan U (pa_scanner p) = Ok ((pos, t'), s')" "rest s' r'" by (auto simp: scans_def)
  with r(3) ts show ?thesis by (cases t') (auto simp: parserNext_def sees_def)
qed

text \<open>Two kinds of fuel occur; with enough of both the result does not change.\<close>

definition settles :: "(nat \<Rightarrow> nat \<Rightarrow> ('e, 'a) outcome) \<Rightarrow> 'a \<Rightarrow> bool" where
  "settles f r \<longleftrightarrow> (\<exists>N. \<forall>n k. N \<le> n \<longrightarrow> N \<le> k \<longrightarrow> f n k = Ok r)"

lemma settles_const: "(\<And>n k. f n k = Ok r) \<Longrightarrow> settles f r"
  by (simp add: settles_def)

lemma settles_bind:
  assumes "settles f a" and "settles (\<lambda>n k. g n k a) r"
  shows "settles (\<lambda>n k. bindO (f n k) (g n k)) r"
proof -
  from assms obtain N M where "\<forall>n\<ge>N. \<forall>k\<ge>N. f n k = Ok a" "\<forall>n\<ge>M. \<forall>k\<ge>M. g n k a = Ok r" by (auto simp: settles_def)
  then show ?thesis unfolding settles_def by (intro exI [of _ "max N M"]) auto
qed

lemma settles_Suc:
  assumes "settles f r" and "\<And>n k. F n (Suc k) = f n k"
  shows "settles F r"
proof -
  from assms(1) obtain N where N: "\<And>n k. N \<le> n \<Longrightarrow> N \<le> k \<Longrightarrow> f n k = Ok r" by (auto simp: settles_def)
  have "F n k = Ok r" if "Suc N \<le> n" "Suc N \<le> k" for n k using that N assms(2) by (cases k) auto
  then show ?thesis unfolding settles_def by blast
qed

abbreviation primaryOf :: "unicode \<Rightarrow> nat \<Rightarrow> expr parsing" where
  "primaryOf U n \<equiv> parsePrimaryExpr U n (parseExpr U n)"

definition readsFull :: "unicode \<Rightarrow> expr \<Rightarrow> bool" where
  "readsFull U e \<longleftrightarrow> (\<forall>p ts. sees U p (tokensOf e @ ts) \<and> ts \<noteq> [] \<and> binaryOps (snd (hd ts)) = None \<and> snd (hd ts) \<notin> {''.'', ''(''} \<longrightarrow>
     (\<exists>p'. settles (\<lambda>n k. parseExpr U n p) (e, p') \<and> sees U p' ts))"

definition readsPrimary :: "unicode \<Rightarrow> expr \<Rightarrow> bool" where
  "readsPrimary U e \<longleftrightarrow> (\<forall>p ts. sees U p (tokensOf e @ ts) \<and> ts \<noteq> [] \<and> snd (hd ts) \<noteq> ''('' \<longrightarrow>
     (\<exists>x p0 j p'. settles (\<lambda>n k. parseOperand U (parseExpr U n) p) (x, p0) \<and> (\<forall>k. selectorLoop U (k + j) x p0 = selectorLoop U k e p') \<and> sees U p' ts))"

definition readsLoop :: "unicode \<Rightarrow> expr \<Rightarrow> bool" where
  "readsLoop U e \<longleftrightarrow> (\<forall>p ts q. sees U p (tokensOf e @ ts) \<and> ts \<noteq> [] \<and> snd (hd ts) \<notin> {''.'', ''(''} \<and> q \<le> level e \<and>
     (\<forall>op. binaryOps (snd (hd ts)) = Some op \<longrightarrow> bo_precedence op < q) \<longrightarrow>
     (\<exists>p'. settles (\<lambda>n k. bindO (primaryOf U n p) (\<lambda>(x, p1). contLoop U (primaryOf U n) k x q p1)) (e, p') \<and> sees U p' ts))"

lemma readsPrimary_primary:
  assumes "readsPrimary U e" and "sees U p (tokensOf e @ ts)" and "ts \<noteq> []" and "snd (hd ts) \<notin> {''.'', ''(''}"
  shows "\<exists>p'. settles (\<lambda>n k. primaryOf U n p) (e, p') \<and> sees U p' ts"
proof -
  from assms obtain x p0 j p' where p': "settles (\<lambda>n k. parseOperand U (parseExpr U n) p) (x, p0)" "\<And>k. selectorLoop U (k + j) x p0 = selectorLoop U k e p'" "sees U p' ts"
    unfolding readsPrimary_def by blast
  have "selectorLoop U (Suc k) e p' = Ok (e, p')" for k using sees_hd [OF p'(3)] assms(4) by simp
  with p'(2) have "selectorLoop U (Suc k + j) x p0 = Ok (e, p')" for k by metis
  then have "selectorLoop U n x p0 = Ok (e, p')" if "Suc j \<le> n" for n using that by (metis add_Suc le_Suc_ex add.commute)
  then have "settles (\<lambda>n k. selectorLoop U n x p0) (e, p')" unfolding settles_def by blast
  then have "settles (\<lambda>n k. primaryOf U n p) (e, p')" unfolding parsePrimaryExpr_def by (intro settles_bind [OF p'(1)]) simp
  with p'(3) show ?thesis by blast
qed

lemma sees_lit:
  assumes "sees U p ((tokPunct, lit) # ts)" and "ts \<noteq> []"
  shows "\<exists>p'. parseLit U lit p = Ok p' \<and> sees U p' ts"
  using sees_next [OF assms] sees_cons [OF assms(1)] by (auto simp: parseLit_def)

lemma ident_not_open: "tokenOK U tokIdent a \<Longrightarrow> a \<noteq> ''(''"
proof
  assume a: "tokenOK U tokIdent a" "a = ''(''"
  then obtain r b t' where "''('' = b @ t'" "runeText r b" "isLetter U r" by (auto simp: tokenOK_def identText_def)
  moreover from this have "b = ''(''" by (cases b) (auto simp: runeText_def)
  ultimately show False by (auto simp: runeText_def isLetter_def)
qed

lemma value_not_open: "lexOK U (ValueExpr t v) \<Longrightarrow> v \<noteq> ''(''"
proof
  assume v: "lexOK U (ValueExpr t v)" "v = ''(''"
  then have "\<exists>n. 0 \<le> n \<and> ''('' = Itoa n" by (auto simp: stringText_def)
  then obtain n where "0 \<le> n" "CHR ''('' \<in> set (Itoa n)" by (metis list.set_intros(1))
  with Itoa_digits [of n "CHR ''(''"] show False by simp
qed

lemma readsPrimary_leaf:
  assumes "\<And>p ts. sees U p (tokensOf e @ ts) \<Longrightarrow> ts \<noteq> [] \<Longrightarrow> snd (hd ts) \<noteq> ''('' \<Longrightarrow> \<exists>p'. settles (\<lambda>n k. parseOperand U (parseExpr U n) p) (e, p') \<and> sees U p' ts"
  shows "readsPrimary U e"
  unfolding readsPrimary_def
proof (intro allI impI)
  fix p ts assume "sees U p (tokensOf e @ ts) \<and> ts \<noteq> [] \<and> snd (hd ts) \<noteq> ''(''"
  with assms [of p ts] obtain p' where "settles (\<lambda>n k. parseOperand U (parseExpr U n) p) (e, p')" "sees U p' ts" by blast
  then show "\<exists>x p0 j p'. settles (\<lambda>n k. parseOperand U (parseExpr U n) p) (x, p0) \<and> (\<forall>k. selectorLoop U (k + j) x p0 = selectorLoop U k e p') \<and> sees U p' ts"
    by (intro exI [of _ e] exI [of _ p'] exI [of _ 0]) simp
qed

lemma reads_attr: "lexOK U (AttrExpr a) \<Longrightarrow> readsPrimary U (AttrExpr a)"
proof (rule readsPrimary_leaf)
  fix p ts assume a: "lexOK U (AttrExpr a)" "sees U p (tokensOf (AttrExpr a) @ ts)" "ts \<noteq> []" "snd (hd ts) \<noteq> ''(''"
  then have s: "sees U p ((tokIdent, a) # ts)" by simp
  from sees_next [OF s a(3)] obtain p' where p': "parserNext U p = Ok p'" "sees U p' ts" by blast
  have "parseOperand U nested p = Ok (AttrExpr a, p')" for nested
    using sees_cons [OF s] sees_hd [OF p'(2)] p'(1) ident_not_open [of U a] a(1,4) by (simp add: parseOperand_def parseEnvironmentExpr_def parseTok_def)
  with p'(2) show "\<exists>p'. settles (\<lambda>n k. parseOperand U (parseExpr U n) p) (AttrExpr a, p') \<and> sees U p' ts" by (auto intro: settles_const)
qed

lemma reads_value: "lexOK U (ValueExpr t v) \<Longrightarrow> readsPrimary U (ValueExpr t v)"
proof (rule readsPrimary_leaf)
  fix p ts assume a: "lexOK U (ValueExpr t v)" "sees U p (tokensOf (ValueExpr t v) @ ts)" "ts \<noteq> []"
  then have s: "sees U p ((t, v) # ts)" by simp
  from sees_next [OF s a(3)] obtain p' where p': "parserNext U p = Ok p'" "sees U p' ts" by blast
  have "parseOperand U nested p = Ok (ValueExpr t v, p')" for nested
    using sees_cons [OF s] p'(1) value_not_open [OF a(1)] a(1) ParseInt0_Itoa by (auto simp: parseOperand_def parseLiteral_def)
  with p'(2) show "\<exists>p'. settles (\<lambda>n k. parseOperand U (parseExpr U n) p) (ValueExpr t v, p') \<and> sees U p' ts" by (auto intro: settles_const)
qed

lemma reads_placeholder: "lexOK U (PlaceholderExpr num) \<Longrightarrow> readsPrimary U (PlaceholderExpr num)"
proof (rule readsPrimary_leaf)
  fix p ts assume a: "lexOK U (PlaceholderExpr num)" "sees U p (tokensOf (PlaceholderExpr num) @ ts)" "ts \<noteq> []"
  then have s: "sees U p ((tokPlaceholder, CHR ''$'' # Itoa num) # ts)" by simp
  from sees_next [OF s a(3)] obtain p' where p': "parserNext U p = Ok p'" "sees U p' ts" by blast
  have "parseOperand U nested p = Ok (PlaceholderExpr num, p'\<lparr>pa_maxPlaceholder := max num (pa_maxPlaceholder p')\<rparr>)" for nested
    using sees_cons [OF s] p'(1) a(1) Atoi_Itoa [of num] by (simp add: parseOperand_def parseLiteral_def)
  then have "settles (\<lambda>n k. parseOperand U (parseExpr U n) p) (PlaceholderExpr num, p'\<lparr>pa_maxPlaceholder := max num (pa_maxPlaceholder p')\<rparr>)" by (auto intro: settles_const)
  with p'(2) sees_max show "\<exists>p'. settles (\<lambda>n k. parseOperand U (parseExpr U n) p) (PlaceholderExpr num, p') \<and> sees U p' ts" by blast
qed

lemma reads_paren:
  assumes "readsFull U e"
  shows "readsPrimary U (ParenExpr e)"
proof (rule readsPrimary_leaf)
  fix p ts assume a: "sees U p (tokensOf (ParenExpr e) @ ts)" "ts \<noteq> []"
  then have s: "sees U p ((tokPunct, ''('') # tokensOf e @ (tokPunct, '')'') # ts)" by simp
  from sees_next [OF s] obtain p1 where p1: "parserNext U p = Ok p1" "sees U p1 (tokensOf e @ (tokPunct, '')'') # ts)" by auto
  with assms obtain p2 where p2: "settles (\<lambda>n k. parseExpr U n p1) (e, p2)" "sees U p2 ((tokPunct, '')'') # ts)" by (fastforce simp: readsFull_def binaryOps_def)
  from sees_lit [OF p2(2) a(2)] obtain p3 where p3: "parseLit U '')'' p2 = Ok p3" "sees U p3 ts" by blast
  have "settles (\<lambda>n k. bindO (parseExpr U n p1) (\<lambda>(e, p2). bindO (parseLit U '')'' p2) (\<lambda>p3. Ok (ParenExpr e, p3)))) (ParenExpr e, p3)"
    using p3 by (intro settles_bind [OF p2(1)] settles_const) simp
  then have "settles (\<lambda>n k. parseOperand U (parseExpr U n) p) (ParenExpr e, p3)" using sees_cons [OF s] p1(1) by (simp add: parseOperand_def)
  with p3(2) show "\<exists>p'. settles (\<lambda>n k. parseOperand U (parseExpr U n) p) (ParenExpr e, p') \<and> sees U p' ts" by blast
qed

lemma reads_env:
  assumes "readsFull U e" and "lexOK U (EnvExpr ident e)"
  shows "readsPrimary U (EnvExpr ident e)"
proof (rule readsPrimary_leaf)
  fix p ts assume a: "sees U p (tokensOf (EnvExpr ident e) @ ts)" "ts \<noteq> []"
  then have s: "sees U p ((tokIdent, ident) # (tokPunct, ''('') # tokensOf e @ (tokPunct, '')'') # ts)" by simp
  from sees_next [OF s] obtain p0 where p0: "parserNext U p = Ok p0" "sees U p0 ((tokPunct, ''('') # tokensOf e @ (tokPunct, '')'') # ts)" by auto
  from sees_next [OF p0(2)] obtain p1 where p1: "parserNext U p0 = Ok p1" "sees U p1 (tokensOf e @ (tokPunct, '')'') # ts)" by auto
  with assms(1) obtain p2 where p2: "settles (\<lambda>n k. parseExpr U n p1) (e, p2)" "sees U p2 ((tokPunct, '')'') # ts)" by (fastforce simp: readsFull_def binaryOps_def)
  from sees_lit [OF p2(2) a(2)] obtain p3 where p3: "parseLit U '')'' p2 = Ok p3" "sees U p3 ts" by blast
  have "settles (\<lambda>n k. bindO (parseExpr U n p1) (\<lambda>(e, p2). bindO (parseLit U '')'' p2) (\<lambda>p3. Ok (EnvExpr ident e, p3)))) (EnvExpr ident e, p3)"
    using p3 by (intro settles_bind [OF p2(1)] settles_const) simp
  then have "settles (\<lambda>n k. parseOperand U (parseExpr U n) p) (EnvExpr ident e, p3)"
    using sees_cons [OF s] sees_cons [OF p0(2)] p0(1) p1(1) ident_not_open [of U ident] assms(2)
    by (simp add: parseOperand_def parseEnvironmentExpr_def parseTok_def)
  with p3(2) show "\<exists>p'. settles (\<lambda>n k. parseOperand U (parseExpr U n) p) (EnvExpr ident e, p') \<and> sees U p' ts" by blast
qed

lemma reads_selector:
  assumes "readsPrimary U obj"
  shows "readsPrimary U (SelectorExpr ident obj)"
  unfolding readsPrimary_def
proof (intro allI impI)
  fix p ts assume a: "sees U p (tokensOf (SelectorExpr ident obj) @ ts) \<and> ts \<noteq> [] \<and> snd (hd ts) \<noteq> ''(''"
  then have "sees U p (tokensOf obj @ (tokPunct, ''.'') # (tokIdent, ident) # ts)" by simp
  with assms obtain x p0 j p1 where p1: "settles (\<lambda>n k. parseOperand U (parseExpr U n) p) (x, p0)" "\<forall>k. selectorLoop U (k + j) x p0 = selectorLoop U k obj p1"
      "sees U p1 ((tokPunct, ''.'') # (tokIdent, ident) # ts)" unfolding readsPrimary_def by fastforce
  from sees_next [OF p1(3)] obtain p2 where p2: "parserNext U p1 = Ok p2" "sees U p2 ((tokIdent, ident) # ts)" by auto
  from sees_next [OF p2(2)] a obtain p3 where p3: "parserNext U p2 = Ok p3" "sees U p3 ts" by auto
  have "selectorLoop U (k + Suc j) x p0 = selectorLoop U k (SelectorExpr ident obj) p3" for k
    using p1(2) [rule_format, of "Suc k"] sees_cons [OF p1(3)] sees_cons [OF p2(2)] p2(1) p3(1) by (simp add: parseSelectorExpr_def parseTok_def)
  with p1(1) p3(2) show "\<exists>x p0 j p'. settles (\<lambda>n k. parseOperand U (parseExpr U n) p) (x, p0) \<and>
      (\<forall>k. selectorLoop U (k + j) x p0 = selectorLoop U k (SelectorExpr ident obj) p') \<and> sees U p' ts" by blast
qed

section \<open>Chains of operators\<close>

fun spine :: "expr \<Rightarrow> expr \<times> (binaryOp \<times> expr) list" where
  "spine (BinaryExpr op l r) = (fst (spine l), snd (spine l) @ [(op, r)])"
| "spine e = (e, [])"

definition grow :: "expr \<Rightarrow> binaryOp \<times> expr \<Rightarrow> expr" where
  "grow l x = BinaryExpr (fst x) l (snd x)"

definition spineTokens :: "(binaryOp \<times> expr) list \<Rightarrow> (token \<times> string) list" where
  "spineTokens sp = concat (map (\<lambda>x. opToken (fst x) # tokensOf (snd x)) sp)"

lemma spineTokens_simps [simp]: "spineTokens [] = []" "spineTokens (x # sp) = opToken (fst x) # tokensOf (snd x) @ spineTokens sp"
    "spineTokens (sp @ sp') = spineTokens sp @ spineTokens sp'"
  by (simp_all add: spineTokens_def)

lemma spine_tokens: "tokensOf e = tokensOf (fst (spine e)) @ spineTokens (snd (spine e)) \<and> e = foldl grow (fst (spine e)) (snd (spine e))"
  by (induction e rule: spine.induct) (simp_all add: grow_def)

definition spineOK :: "unicode \<Rightarrow> (binaryOp \<times> expr) list \<Rightarrow> bool" where
  "spineOK U sp \<longleftrightarrow> sorted_wrt (\<ge>) (map (bo_precedence \<circ> fst) sp) \<and>
     (\<forall>x \<in> set sp. binaryOps (bo_name (fst x)) = Some (fst x) \<and> wfExpr U (snd x) \<and> level (snd x) > bo_precedence (fst x))"

lemma spine_wf:
  "wfExpr U e \<Longrightarrow> wfExpr U (fst (spine e)) \<and> level (fst (spine e)) = 4 \<and> spineOK U (snd (spine e)) \<and>
     (\<forall>x \<in> set (snd (spine e)). level e \<le> bo_precedence (fst x) \<and> size (snd x) < size e) \<and> (snd (spine e) \<noteq> [] \<longrightarrow> size (fst (spine e)) < size e) \<and>
     (snd (spine e) = [] \<longrightarrow> fst (spine e) = e)"
proof (induction e rule: spine.induct)
  case (1 op l r)
  then have l: "wfExpr U l" by (simp add: wfExpr_def)
  note IH = "1.IH"(1) [OF l]
  have "bo_precedence op \<le> level l" "bo_precedence op < level r" "binaryOps (bo_name op) = Some op" "wfExpr U r" using "1.prems" by (simp_all add: wfExpr_def)
  with IH show ?case by (fastforce simp: spineOK_def sorted_wrt_append)
qed (simp_all add: spineOK_def)

text \<open>What may follow a chain of operators read with a minimal precedence.\<close>

definition follows :: "nat \<Rightarrow> (token \<times> string) list \<Rightarrow> bool" where
  "follows m ts \<longleftrightarrow> ts \<noteq> [] \<and> snd (hd ts) \<notin> {''.'', ''(''} \<and> (\<forall>op. binaryOps (snd (hd ts)) = Some op \<longrightarrow> bo_precedence op < m)"

lemma follows_none: "follows m ts \<Longrightarrow> sees U p ts \<Longrightarrow> determineBinaryOp p m = None"
  using sees_hd [of U p ts] by (auto simp: follows_def determine_None)

lemma follows_mono: "follows m ts \<Longrightarrow> m \<le> m' \<Longrightarrow> follows m' ts"
  by (auto simp: follows_def)

lemma follows_spine:
  assumes "follows m ts" and "spineOK U sp" and "\<forall>x \<in> set sp. bo_precedence (fst x) < m'" and "m \<le> m'"
  shows "follows m' (spineTokens sp @ ts)"
proof (cases sp)
  case Nil
  then show ?thesis using assms follows_mono by simp
next
  case (Cons x sp')
  then have b: "binaryOps (bo_name (fst x)) = Some (fst x)" "bo_precedence (fst x) < m'" using assms by (auto simp: spineOK_def)
  moreover have "bo_name (fst x) \<notin> {''.'', ''(''}" using binaryOps_cases [OF b(1)] by auto
  ultimately show ?thesis using Cons by (auto simp: follows_def opToken_def)
qed

lemma spineOK_tail: "spineOK U (x # sp) \<Longrightarrow> spineOK U sp \<and> (\<forall>y \<in> set sp. bo_precedence (fst y) \<le> bo_precedence (fst x))"
  by (auto simp: spineOK_def)

lemma spineOK_append: "spineOK U (a @ b) \<Longrightarrow> spineOK U a \<and> spineOK U b"
  by (auto simp: spineOK_def sorted_wrt_append)

lemma readsLoop_follows:
  "readsLoop U e \<Longrightarrow> sees U p (tokensOf e @ ts) \<Longrightarrow> follows q ts \<Longrightarrow> q \<le> level e \<Longrightarrow>
    \<exists>p'. settles (\<lambda>n k. bindO (primaryOf U n p) (\<lambda>(x, p1). contLoop U (primaryOf U n) k x q p1)) (e, p') \<and> sees U p' ts"
  unfolding readsLoop_def follows_def by blast

lemma cont_reads:
  assumes "spineOK U sp" and "\<forall>x \<in> set sp. readsLoop U (snd x) \<and> m \<le> bo_precedence (fst x)" and "sees U p (spineTokens sp @ ts)" and "follows m ts"
  shows "\<exists>p'. settles (\<lambda>n k. parseExprCont U (primaryOf U n) k lhs m p) (foldl grow lhs sp, p') \<and> sees U p' ts"
  using assms(1-3)
proof (induction sp arbitrary: lhs p)
  case Nil
  then have s: "sees U p ts" by simp
  have "settles (\<lambda>n k. parseExprCont U (primaryOf U n) k lhs m p) (lhs, p)"
    by (rule settles_Suc [OF settles_const [of "\<lambda>n k. Ok (lhs, p)"]]) (simp_all add: follows_none [OF assms(4) s])
  with s show ?case by auto
next
  case (Cons x sp)
  let ?op = "fst x" and ?r = "snd x"
  have op: "binaryOps (bo_name ?op) = Some ?op" "m \<le> bo_precedence ?op" "bo_precedence ?op < level ?r" "readsLoop U ?r" using Cons.prems by (auto simp: spineOK_def)
  have s: "sees U p (opToken ?op # tokensOf ?r @ spineTokens sp @ ts)" using Cons.prems(3) by simp
  have det: "determineBinaryOp p m = Some ?op" using sees_cons [OF s] op by (simp add: opToken_def determineBinaryOp_def)
  from sees_next [OF s] obtain p1 where p1: "parserNext U p = Ok p1" "sees U p1 (tokensOf ?r @ spineTokens sp @ ts)" by auto
  have tail: "spineOK U sp" "\<forall>y \<in> set sp. bo_precedence (fst y) < bo_precedence ?op + 1" using spineOK_tail [OF Cons.prems(1)] by (auto simp: less_Suc_eq_le)
  have "follows (bo_precedence ?op + 1) (spineTokens sp @ ts)" by (rule follows_spine [OF assms(4) tail]) (use op in simp)
  from readsLoop_follows [OF op(4) p1(2) this] op(3) obtain p3 where p3: "sees U p3 (spineTokens sp @ ts)"
      "settles (\<lambda>n k. bindO (primaryOf U n p1) (\<lambda>(x, p2). contLoop U (primaryOf U n) k x (bo_precedence ?op + 1) p2)) (?r, p3)" by auto
  have g: "BinaryExpr ?op lhs ?r = grow lhs x" by (simp add: grow_def)
  from Cons.IH [OF tail(1) _ p3(1), of "grow lhs x"] Cons.prems(2) obtain p' where
      p': "settles (\<lambda>n k. parseExprCont U (primaryOf U n) k (grow lhs x) m p3) (foldl grow lhs (x # sp), p')" "sees U p' ts" by auto
  have "settles (\<lambda>n k. bindO (bindO (primaryOf U n p1) (\<lambda>(x, p2). contLoop U (primaryOf U n) k x (bo_precedence ?op + 1) p2))
      (\<lambda>(rhs, p3). parseExprCont U (primaryOf U n) k (BinaryExpr ?op lhs rhs) m p3)) (foldl grow lhs (x # sp), p')"
    by (rule settles_bind [OF p3(2)]) (use p'(1) in \<open>simp add: g\<close>)
  then have "settles (\<lambda>n k. parseExprCont U (primaryOf U n) k lhs m p) (foldl grow lhs (x # sp), p')"
    by (rule settles_Suc) (simp add: det p1(1) bindO_assoc case_prod_unfold)
  with p'(2) show ?case by blast
qed

lemma loop_reads:
  assumes "spineOK U sp" and "\<forall>x \<in> set sp. readsLoop U (snd x) \<and> m \<le> bo_precedence (fst x)" and "sees U p (spineTokens sp @ ts)" and "follows m ts"
  shows "\<exists>p'. settles (\<lambda>n k. contLoop U (primaryOf U n) k lhs m p) (foldl grow lhs sp, p') \<and> sees U p' ts"
  using assms(1-3)
proof (induction "length sp" arbitrary: sp lhs p rule: less_induct)
  case less
  show ?case
  proof (cases sp)
    case Nil
    then have s: "sees U p ts" using less.prems(3) by simp
    have "settles (\<lambda>n k. contLoop U (primaryOf U n) k lhs m p) (lhs, p)"
      by (rule settles_Suc [OF settles_const [of "\<lambda>n k. Ok (lhs, p)"]]) (simp_all add: follows_none [OF assms(4) s])
    with s Nil show ?thesis by auto
  next
    case (Cons x sp')
    let ?op = "fst x" and ?P = "\<lambda>y. bo_precedence (fst x) \<le> bo_precedence (fst y)"
    let ?a = "takeWhile ?P sp" and ?b = "dropWhile ?P sp"
    have sp: "sp = ?a @ ?b" by simp
    have ok: "spineOK U ?a" "spineOK U ?b" using spineOK_append [of U ?a ?b] less.prems(1) by simp_all
    have b: "\<forall>y \<in> set ?b. bo_precedence (fst y) < bo_precedence ?op"
    proof (cases ?b)
      case (Cons y ys)
      then have "\<not> ?P y" by (metis hd_dropWhile list.distinct(1) list.sel(1))
      with ok(2) Cons show ?thesis by (auto simp: spineOK_def)
    next
      case Nil
      show ?thesis unfolding Nil by simp
    qed
    have op: "binaryOps (bo_name ?op) = Some ?op" "m \<le> bo_precedence ?op" using less.prems(1,2) Cons by (auto simp: spineOK_def)
    have det: "determineBinaryOp p m = Some ?op" using sees_hd [OF less.prems(3)] Cons op by (simp add: opToken_def determineBinaryOp_def)
    have "follows (bo_precedence ?op) (spineTokens ?b @ ts)" by (rule follows_spine [OF assms(4) ok(2) b op(2)])
    moreover have "sees U p (spineTokens ?a @ spineTokens ?b @ ts)" using less.prems(3) by (simp flip: append_assoc spineTokens_simps(3))
    moreover have "\<forall>y \<in> set ?a. readsLoop U (snd y) \<and> bo_precedence ?op \<le> bo_precedence (fst y)" using less.prems(2) by (auto dest: set_takeWhileD)
    ultimately obtain p1 where p1: "settles (\<lambda>n k. parseExprCont U (primaryOf U n) k lhs (bo_precedence ?op) p) (foldl grow lhs ?a, p1)" "sees U p1 (spineTokens ?b @ ts)"
      using cont_reads [OF ok(1)] by blast
    have len: "length ?b < length sp" using Cons by (simp add: length_dropWhile_le le_imp_less_Suc)
    have "\<forall>y \<in> set ?b. readsLoop U (snd y) \<and> m \<le> bo_precedence (fst y)" using less.prems(2) by (auto dest: set_dropWhileD)
    from less.hyps [OF len ok(2) this p1(2)] obtain p' where
        p': "settles (\<lambda>n k. contLoop U (primaryOf U n) k (foldl grow lhs ?a) m p1) (foldl grow (foldl grow lhs ?a) ?b, p')" "sees U p' ts" by blast
    have "foldl grow (foldl grow lhs ?a) ?b = foldl grow lhs sp" by (simp flip: foldl_append)
    with p'(1) have "settles (\<lambda>n k. contLoop U (primaryOf U n) k (foldl grow lhs ?a) m p1) (foldl grow lhs sp, p')" by simp
    then have "settles (\<lambda>n k. bindO (parseExprCont U (primaryOf U n) k lhs (bo_precedence ?op) p) (\<lambda>(rhs, p'). contLoop U (primaryOf U n) k rhs m p')) (foldl grow lhs sp, p')"
      by (intro settles_bind [OF p1(1)]) simp
    then have "settles (\<lambda>n k. contLoop U (primaryOf U n) k lhs m p) (foldl grow lhs sp, p')" by (rule settles_Suc) (simp add: det)
    with p'(2) show ?thesis by blast
  qed
qed

section \<open>Reading a printed expression\<close>

lemma reads_level4:
  assumes "wfExpr U e" and "level e = 4" and "\<And>e'. size e' < size e \<Longrightarrow> wfExpr U e' \<Longrightarrow> readsFull U e' \<and> (level e' = 4 \<longrightarrow> readsPrimary U e')"
  shows "readsPrimary U e"
proof (cases e)
  case (BinaryExpr op l r)
  with assms(1,2) show ?thesis by (auto simp: wfExpr_def dest: binaryOps_cases)
next
  case (ValueExpr t v)
  with assms(1) reads_value [of U t v] show ?thesis by (simp add: wfExpr_def)
qed (use assms in \<open>auto simp: wfExpr_def intro: reads_attr reads_selector reads_paren reads_env reads_placeholder\<close>)

lemma reads_all: "wfExpr U e \<Longrightarrow> readsFull U e \<and> readsLoop U e \<and> (level e = 4 \<longrightarrow> readsPrimary U e)"
proof (induction "size e" arbitrary: e rule: less_induct)
  case less
  obtain x sp where sp: "spine e = (x, sp)" by (cases "spine e")
  have w: "wfExpr U x" "level x = 4" "spineOK U sp" "\<forall>y \<in> set sp. level e \<le> bo_precedence (fst y) \<and> size (snd y) < size e"
      "sp \<noteq> [] \<Longrightarrow> size x < size e" "sp = [] \<Longrightarrow> x = e"
    using spine_wf [OF less.prems] sp by simp_all
  have "tokensOf e = tokensOf x @ spineTokens sp \<and> e = foldl grow x sp" using spine_tokens [of e] unfolding sp fst_conv snd_conv .
  note e = conjunct1 [OF this] conjunct2 [OF this]
  have prim: "readsPrimary U e" if "level e = 4" using less by (intro reads_level4 [OF less.prems that]) blast
  have px: "readsPrimary U x"
  proof (cases "sp = []")
    case True
    then show ?thesis using w(2,6) prim by simp
  qed (use less.hyps [of x] w(1,2,5) in blast)
  have loops: "\<forall>y \<in> set sp. readsLoop U (snd y) \<and> level e \<le> bo_precedence (fst y)"
    using less.hyps w(3,4) by (auto simp: spineOK_def)
  have start: "\<exists>p1. settles (\<lambda>n k. primaryOf U n p) (x, p1) \<and> sees U p1 (spineTokens sp @ ts)" if "sees U p (tokensOf e @ ts)" "follows 4 ts" for p ts
  proof (rule readsPrimary_primary [OF px])
    show "sees U p (tokensOf x @ spineTokens sp @ ts)" using that(1) e(1) by simp
    have "\<forall>y \<in> set sp. bo_precedence (fst y) < 4" using w(3) by (fastforce simp: spineOK_def dest: binaryOps_cases)
    from follows_spine [OF that(2) w(3) this] show "spineTokens sp @ ts \<noteq> []" "snd (hd (spineTokens sp @ ts)) \<notin> {''.'', ''(''}" by (simp_all add: follows_def)
  qed
  have lv: "level e \<le> 4"
  proof (cases e)
    case (BinaryExpr op l r)
    then show ?thesis using less.prems binaryOps_cases [of "bo_name op" op] by (auto simp: wfExpr_def)
  qed simp_all
  have "readsLoop U e" unfolding readsLoop_def
  proof (intro allI impI)
    fix p ts q
    assume a: "sees U p (tokensOf e @ ts) \<and> ts \<noteq> [] \<and> snd (hd ts) \<notin> {''.'', ''(''} \<and> q \<le> level e \<and> (\<forall>op. binaryOps (snd (hd ts)) = Some op \<longrightarrow> bo_precedence op < q)"
    then have f: "follows q ts" "sees U p (tokensOf e @ ts)" "q \<le> level e" by (auto simp: follows_def)
    from start [OF f(2) follows_mono [OF f(1)]] f(3) lv obtain p1 where p1: "settles (\<lambda>n k. primaryOf U n p) (x, p1)" "sees U p1 (spineTokens sp @ ts)" by auto
    have "\<forall>y \<in> set sp. readsLoop U (snd y) \<and> q \<le> bo_precedence (fst y)" using loops f(3) by auto
    from loop_reads [OF w(3) this p1(2) f(1), of x, folded e(2)] obtain p' where p': "settles (\<lambda>n k. contLoop U (primaryOf U n) k x q p1) (e, p')" "sees U p' ts" by blast
    have "settles (\<lambda>n k. bindO (primaryOf U n p) (\<lambda>(x, p1). contLoop U (primaryOf U n) k x q p1)) (e, p')"
      by (rule settles_bind [OF p1(1)]) (use p'(1) in simp)
    with p'(2) show "\<exists>p'. settles (\<lambda>n k. bindO (primaryOf U n p) (\<lambda>(x, p1). contLoop U (primaryOf U n) k x q p1)) (e, p') \<and> sees U p' ts" by blast
  qed
  moreover have "readsFull U e" unfolding readsFull_def
  proof (intro allI impI)
    fix p ts assume a: "sees U p (tokensOf e @ ts) \<and> ts \<noteq> [] \<and> binaryOps (snd (hd ts)) = None \<and> snd (hd ts) \<notin> {''.'', ''(''}"
    then have f: "follows 0 ts" by (auto simp: follows_def)
    from start [OF _ follows_mono [OF f]] a obtain p1 where p1: "settles (\<lambda>n k. primaryOf U n p) (x, p1)" "sees U p1 (spineTokens sp @ ts)" by auto
    have "\<forall>y \<in> set sp. readsLoop U (snd y) \<and> 0 \<le> bo_precedence (fst y)" using loops by auto
    from cont_reads [OF w(3) this p1(2) f, of x, folded e(2)] obtain p' where p': "settles (\<lambda>n k. parseExprCont U (primaryOf U n) k x 0 p1) (e, p')" "sees U p' ts" by blast
    have "settles (\<lambda>n k. bindO (primaryOf U n p) (\<lambda>(x, p1). parseExprCont U (primaryOf U n) k x 0 p1)) (e, p')"
      by (rule settles_bind [OF p1(1)]) (use p'(1) in simp)
    then obtain N where N: "\<forall>n\<ge>N. bindO (primaryOf U n p) (\<lambda>(x, p1). parseExprCont U (primaryOf U n) n x 0 p1) = Ok (e, p')" by (auto simp: settles_def)
    have "parseExpr U n p = Ok (e, p')" if "Suc N \<le> n" for n using that N by (cases n) auto
    then have "settles (\<lambda>n k. parseExpr U n p) (e, p')" unfolding settles_def by blast
    with p'(2) show "\<exists>p'. settles (\<lambda>n k. parseExpr U n p) (e, p') \<and> sees U p' ts" by blast
  qed
  ultimately show ?case using prim by blast
qed

lemma newParser_sees:
  assumes "wfExpr U e"
  shows "\<exists>p. newParser U (exprString e) = Ok p \<and> sees U p (tokensOf e @ [(tokEOF, [])])"
proof -
  let ?s0 = "\<lparr>sc_src = exprString e, sc_ch = 0, sc_offset = 0, sc_rdOffset = 0\<rparr>"
  have lex: "lexOK U e" using assms by (simp add: wfExpr_def)
  from scanNext_reads [of ?s0] expr_runes [OF lex] obtain s where s: "scanNext ?s0 = Ok s" "rest s (exprString e)" by auto
  obtain t ts where ts: "tokensOf e = t # ts" by (cases "tokensOf e") simp_all
  have "lexes U (exprString e @ []) (tokensOf e @ [(tokEOF, [])])" by (rule lexes_expr [OF lex]) (use scans_eof in \<open>auto simp: delim_def\<close>)
  with ts obtain r where r: "scans U (exprString e) t r" "lexes U r (ts @ [(tokEOF, [])])" by auto
  with s(2) obtain pos s' where "Scan U s = Ok ((pos, t), s')" "rest s' r" by (auto simp: scans_def)
  with s(1) r(2) ts show ?thesis by (cases t) (auto simp: newParser_def scannerInit_def parserNext_def sees_def)
qed

lemma parse_printed:
  assumes "wfExpr U e"
  shows "\<exists>p. parse U (exprString e) = Ok (Some e, p) \<and> pa_maxPlaceholder p = largestPlaceholder e"
proof -
  let ?n = "2 * length (exprString e) + 4"
  from newParser_sees [OF assms] obtain p where p: "newParser U (exprString e) = Ok p" "sees U p (tokensOf e @ [(tokEOF, [])])" by blast
  have "snd (hd [(tokEOF, [])]) \<notin> {''.'', ''(''}" "binaryOps (snd (hd [(tokEOF, [])])) = None" by (simp_all add: binaryOps_def)
  with reads_all [OF assms] p(2) obtain p1 where p1: "settles (\<lambda>n k. parseExpr U n p) (e, p1)" "sees U p1 [(tokEOF, [])]" unfolding readsFull_def by blast
  have ok: "parserOK U p" "left p \<le> length (exprString e) + 1" "pa_maxPlaceholder p = 0" using newParser_ok [of U "exprString e"] p(1) by auto
  then have y: "yields U (parsedInto U p) (left p - 1) (parseExpr U ?n p)" by (intro parseExpr_yields) auto
  from p1(1) obtain N where "\<forall>n\<ge>N. parseExpr U n p = Ok (e, p1)" by (auto simp: settles_def)
  then have "parseExpr U (max N ?n) p = Ok (e, p1)" by simp
  moreover have "parseExpr U ?n p \<noteq> Diverge" using y by (auto simp: yields_def)
  ultimately have run: "parseExpr U ?n p = Ok (e, p1)" using parseExpr_more [of ?n "max N ?n" U] by (auto simp: moreDefined_def)
  from p1(2) obtain r where "rest (pa_scanner p1) []" "pa_tok p1 = tokEOF" by (auto simp: sees_def)
  moreover from this scans_eof [of U] obtain p2 where "parserNext U p1 = Ok p2" by (fastforce simp: scans_def parserNext_def)
  moreover have "pa_tok p \<noteq> tokEOF"
  proof -
    have "fst (hd (tokensOf e)) \<noteq> tokEOF"
      using assms by (induction e) (auto simp: wfExpr_def)
    moreover have "hd (tokensOf e @ [(tokEOF, [])]) = hd (tokensOf e)" by simp
    ultimately show ?thesis using p(2) by (cases "tokensOf e") (auto simp: sees_def)
  qed
  ultimately have "parse U (exprString e) = Ok (Some e, p2)" using run p(1) by (simp add: parse_def parseTok_def)
  with parse_outcomes [of U "exprString e"] show ?thesis by auto
qed

text \<open>
  C22. The text of a parsed filter is canonical: it is parsed again to the same expression with the same number of parameters, although it is
  printed without adding parentheses and with hexadecimal literals, white space and placeholder numerals normalised.
\<close>
theorem filter_text_canonical:
  assumes "parse U src = Ok (Some e, p)"
  shows "\<exists>p'. parse U (exprString e) = Ok (Some e, p') \<and> pa_maxPlaceholder p' = pa_maxPlaceholder p"
  using parse_outcomes [of U src] parse_printed [of U e] assms by auto

definition asciiTables :: unicode where
  "asciiTables = \<lparr>uni_IsLetter = \<lambda>_. False, uni_IsDigit = \<lambda>_. False\<rparr>"

lemma filter_text_canonical_witness:
  "\<exists>e p p'. parse asciiTables ''inputs( a=0x1F OR $02=b.c )'' = Ok (Some e, p) \<and> exprString e = ''inputs(a = 31 OR $2 = b.c)'' \<and>
     parse asciiTables (exprString e) = Ok (Some e, p') \<and> pa_maxPlaceholder p' = pa_maxPlaceholder p"
proof -
  have "(case parse asciiTables ''inputs( a=0x1F OR $02=b.c )'' of Ok (Some e, p) \<Rightarrow> exprString e = ''inputs(a = 31 OR $2 = b.c)'' | _ \<Rightarrow> False)" by code_simp
  then obtain e p where "parse asciiTables ''inputs( a=0x1F OR $02=b.c )'' = Ok (Some e, p)" "exprString e = ''inputs(a = 31 OR $2 = b.c)''"
    by (auto split: outcome.splits option.splits)
  with filter_text_canonical [OF this(1)] show ?thesis by blast
qed

end
