(* ===== verification/SQL_Typing.thy ===== *)
theory SQL_Typing
  imports Query Filter_Roundtrip
begin

text \<open>
  The fragment of SQL that filters are translated to: its expressions, the text of an expression, and the kind of value that the database
  gives an expression over a schema. The judgement is on the SQL alone and knows nothing of filters: columns have the type of the schema, the tables in
  scope are those of the enclosing queries, casts are read off the name of the target type, quoted texts must end where they seem to end, and
  operands must bind tighter than their operator, so that the text can be read in no other way.
\<close>

section \<open>Expressions\<close>

datatype sqlExp = SQLCol string string | SQLString string | SQLDigits string | SQLParam int | SQLHex sqlExp | SQLCast sqlExp string
  | SQLField sqlExp string | SQLFieldText sqlExp string | SQLParens sqlExp | SQLOp sqlExp string sqlExp
  | SQLExists string string string string string sqlExp

text \<open>The text of an expression. The names in the condition of a join are quoted by hand, the others by the driver.\<close>

primrec render :: "(string \<Rightarrow> string) \<Rightarrow> sqlExp \<Rightarrow> string" where
  "render quote (SQLCol alias name) = alias @ ''.'' @ quote name"
| "render quote (SQLString t) = t"
| "render quote (SQLDigits t) = t"
| "render quote (SQLParam num) = ''$'' @ Itoa num"
| "render quote (SQLHex e) = ''encode('' @ render quote e @ '', '' @ [CHR 0x27] @ ''hex'' @ [CHR 0x27] @ '')''"
| "render quote (SQLCast e ty) = render quote e @ ''::'' @ ty"
| "render quote (SQLField e c) = render quote e @ ''->'' @ [CHR 0x27] @ c @ [CHR 0x27]"
| "render quote (SQLFieldText e c) = render quote e @ ''->>'' @ [CHR 0x27] @ c @ [CHR 0x27]"
| "render quote (SQLParens e) = ''('' @ render quote e @ '')''"
| "render quote (SQLOp l op r) = render quote l @ '' '' @ op @ '' '' @ render quote r"
| "render quote (SQLExists table alias fcol outer lcol e) = [CHR 10] @ ''EXISTS(SELECT 1 FROM '' @ table @ '' AS '' @ alias @ '' WHERE '' @
     alias @ ''.'' @ [CHR 34] @ fcol @ [CHR 34] @ '' = '' @ outer @ ''.'' @ [CHR 34] @ lcol @ [CHR 34] @ '' AND ('' @ render quote e @ ''))'' @ [CHR 10]"

section \<open>Kinds of values\<close>

text \<open>A string literal is of unknown type until its context makes it a text; an integer literal has one of several numeric types.\<close>

datatype sqlKind = KText | KBigint | KInt | KNumber | KBoolean | KJsonb | KBytea | KTimestamp | KUnknown

text \<open>The columns of the tables of a database, and the tables that the aliases in scope stand for.\<close>

type_synonym schema = "string \<Rightarrow> string \<Rightarrow> SQLType option"

type_synonym scope = "string \<Rightarrow> string option"

definition columnKind :: "SQLType \<Rightarrow> sqlKind" where
  "columnKind ty = (case ty of SQLBool \<Rightarrow> KBoolean | SQLText \<Rightarrow> KText | SQLBytea \<Rightarrow> KBytea | SQLJSONB \<Rightarrow> KJsonb | SQLInteger \<Rightarrow> KInt
     | SQLBigint \<Rightarrow> KBigint | SQLTimestamp \<Rightarrow> KTimestamp)"

definition columnType :: "schema \<Rightarrow> scope \<Rightarrow> string \<Rightarrow> string \<Rightarrow> SQLType option" where
  "columnType S sc alias name = (case sc alias of None \<Rightarrow> None | Some table \<Rightarrow> S table name)"

text \<open>The target types of casts, with the kinds that they can be cast from.\<close>

definition castTo :: "string \<Rightarrow> sqlKind \<Rightarrow> sqlKind option" where
  "castTo ty k = (if ty = ''text'' \<and> k \<in> {KText, KJsonb, KTimestamp} then Some KText
     else if ty = ''bigint'' \<and> k \<in> {KInt, KBigint, KNumber, KText} then Some KBigint
     else if ty = ''boolean'' \<and> k \<in> {KBoolean, KText} then Some KBoolean
     else if ty = ''jsonb'' \<and> k \<in> {KJsonb, KText} then Some KJsonb else None)"

text \<open>A parameter takes the type that its uses give it, which has to be the one of the value sent for it.\<close>

definition paramKind :: "Type \<Rightarrow> sqlKind" where
  "paramKind ty = (case ty of Bool \<Rightarrow> KBoolean | Integer \<Rightarrow> KBigint | _ \<Rightarrow> KText)"

definition plainText :: "string \<Rightarrow> bool" where
  "plainText t \<longleftrightarrow> CHR 0x27 \<notin> set t \<and> CHR 0x5c \<notin> set t"

text \<open>A literal with no quote before its last character.\<close>

definition sqlLiteral :: "string \<Rightarrow> bool" where
  "sqlLiteral t \<longleftrightarrow> 2 \<le> length t \<and> hd t = CHR 0x27 \<and> last t = CHR 0x27 \<and> plainText (butlast (tl t))"

definition comparable :: "sqlKind \<Rightarrow> sqlKind \<Rightarrow> bool" where
  "comparable k k' \<longleftrightarrow> k = k' \<or> k \<in> {KText, KUnknown} \<and> k' \<in> {KText, KUnknown}"

text \<open>How tightly an expression binds.\<close>

definition opLevel :: "string \<Rightarrow> nat" where
  "opLevel op = (if op = ''OR'' then 1 else if op = ''AND'' then 2 else 3)"

fun sqlLevel :: "sqlExp \<Rightarrow> nat" where
  "sqlLevel (SQLOp l op r) = opLevel op"
| "sqlLevel (SQLField e c) = 4"
| "sqlLevel (SQLFieldText e c) = 4"
| "sqlLevel e = 5"

fun isParam :: "sqlExp \<Rightarrow> bool" where
  "isParam (SQLParam num) \<longleftrightarrow> True"
| "isParam (SQLParens e) \<longleftrightarrow> isParam e"
| "isParam e \<longleftrightarrow> False"

text \<open>
  The kind of an expression, if it is well typed. An equation between two parameters takes both for texts.
\<close>

primrec sqlType :: "schema \<Rightarrow> Type list \<Rightarrow> scope \<Rightarrow> sqlExp \<Rightarrow> sqlKind option" where
  "sqlType S vt sc (SQLCol alias name) = map_option columnKind (columnType S sc alias name)"
| "sqlType S vt sc (SQLString t) = (if sqlLiteral t then Some KUnknown else None)"
| "sqlType S vt sc (SQLDigits t) = (if t \<noteq> [] \<and> (\<forall>c \<in> set t. 48 \<le> ord c \<and> ord c \<le> 57) then Some KNumber else None)"
| "sqlType S vt sc (SQLParam num) = (if 1 \<le> num \<and> num \<le> int (length vt) then Some (paramKind (vt ! nat (num - 1))) else None)"
| "sqlType S vt sc (SQLHex e) = (if sqlType S vt sc e = Some KBytea then Some KText else None)"
| "sqlType S vt sc (SQLCast e ty) = (if sqlLevel e < 5 then None else Option.bind (sqlType S vt sc e) (castTo ty))"
| "sqlType S vt sc (SQLField e c) = (if sqlType S vt sc e = Some KJsonb \<and> 4 \<le> sqlLevel e \<and> plainText c then Some KJsonb else None)"
| "sqlType S vt sc (SQLFieldText e c) = (if sqlType S vt sc e = Some KJsonb \<and> 4 \<le> sqlLevel e \<and> plainText c then Some KText else None)"
| "sqlType S vt sc (SQLParens e) = sqlType S vt sc e"
| "sqlType S vt sc (SQLOp l op r) = (case (sqlType S vt sc l, sqlType S vt sc r) of
     (Some k, Some k') \<Rightarrow>
       if op = ''='' then
         if 3 < sqlLevel l \<and> 3 < sqlLevel r \<and> comparable k k' \<and> (isParam l \<and> isParam r \<longrightarrow> k = KText) then Some KBoolean else None
       else if op = ''AND'' \<or> op = ''OR'' then
         if opLevel op \<le> sqlLevel l \<and> opLevel op < sqlLevel r \<and> k = KBoolean \<and> k' = KBoolean then Some KBoolean else None
       else None
   | _ \<Rightarrow> None)"
| "sqlType S vt sc (SQLExists table alias fcol outer lcol e) =
     (let sc' = sc(alias \<mapsto> table) in
      if columnType S sc' alias fcol \<noteq> None \<and> columnType S sc' alias fcol = columnType S sc' outer lcol \<and> sqlType S vt sc' e = Some KBoolean
      then Some KBoolean else None)"

lemma operator_free: "sqlType S vt sc a = Some k \<Longrightarrow> k \<noteq> KBoolean \<Longrightarrow> 3 < sqlLevel a"
  by (cases a) (auto split: option.splits if_splits)

section \<open>Paths and casts\<close>

text \<open>The steps into an object, the last of which takes the value as text.\<close>

fun steps :: "sqlExp \<Rightarrow> string list \<Rightarrow> sqlExp" where
  "steps e [] = e"
| "steps e [c] = SQLFieldText e c"
| "steps e (c # d # cs) = steps (SQLField e c) (d # cs)"

lemma render_steps: "render quote (steps e cs) = render quote e @ arrows cs"
  by (induction e cs rule: steps.induct) auto

lemma sqlType_steps:
  "sqlType S vt sc e = Some KJsonb \<Longrightarrow> 4 \<le> sqlLevel e \<Longrightarrow> \<forall>c \<in> set cs. plainText c \<Longrightarrow> cs \<noteq> [] \<Longrightarrow> sqlType S vt sc (steps e cs) = Some KText"
  by (induction e cs rule: steps.induct) auto

section \<open>Quoted texts\<close>

lemma rune_bytes:
  assumes "runeText r b" and "c \<in> set b"
  shows "ord c = r \<or> 128 \<le> ord c"
proof (cases "ord (hd b) < 128")
  case False
  with assms(1) have d: "DecodeRune (b @ []) = (r, length b)" "2 \<le> length b" "128 \<le> ord (hd b)" unfolding runeText_def by (metis linorder_not_less)+
  then obtain c0 c1 t where b: "b = c0 # c1 # t" by (cases b; cases "tl b") auto
  have "\<forall>c \<in> set b. 128 \<le> ord c" using d unfolding b DecodeRune_def cont_def
    by (auto split: if_splits list.splits)
  with assms(2) show ?thesis by blast
next
  case True
  with assms(1) have "b = [hd b]" "r = ord (hd b)" by (auto simp: runeText_def)
  with assms(2) show ?thesis by (metis empty_iff list.set(1) set_ConsD)
qed

lemma runes_bytes: "runesOf P t \<Longrightarrow> c \<in> set t \<Longrightarrow> ord c < 128 \<Longrightarrow> P (ord c)"
proof (induction rule: runesOf.induct)
  case (runesOf_rune r b t)
  then show ?case using rune_bytes [OF runesOf_rune(1), of c] by fastforce
qed simp

lemma quotes_ord: "ord (CHR 0x27) = 39" "ord (CHR 0x5c) = 92"
  by (simp_all add: ord_def)

lemma stringText_literal:
  assumes "stringText t"
  shows "sqlLiteral t"
proof -
  from assms obtain t' where t: "t = CHR 0x27 # t' @ [CHR 0x27]" "runesOf stringRune t'" by (auto simp: stringText_def)
  from runes_bytes [OF t(2), of "CHR 0x27"] runes_bytes [OF t(2), of "CHR 0x5c"] have "plainText t'" by (auto simp: plainText_def quotes_ord)
  with t(1) show ?thesis by (simp add: sqlLiteral_def butlast_append)
qed

lemma identText_plain:
  assumes "identText U t"
  shows "plainText t"
proof -
  from assms obtain r b t' where t: "t = b @ t'" "runeText r b" "isLetter U r" "runesOf (identRune U) t'" by (auto simp: identText_def)
  then have "runesOf (identRune U) t" by (auto intro: runesOf_rune)
  from runes_bytes [OF this, of "CHR 0x27"] runes_bytes [OF this, of "CHR 0x5c"] show ?thesis
    by (auto simp: plainText_def quotes_ord isLetter_def isDigit_def ord_def)
qed

end
