(* ===== verification/Filter_Typing.thy ===== *)
theory Filter_Typing
  imports SQL_Typing
begin

text \<open>
  The type checker of filters against the SQL they become: the text generated for a checked filter is that of a well-typed SQL expression.
\<close>

section \<open>Conditions on a filter\<close>

text \<open>The type of a column in filters agrees with its type in SQL.\<close>

definition agreesWith :: "SQLColumn \<Rightarrow> bool" where
  "agreesWith col \<longleftrightarrow> (case col_Type col of Any \<Rightarrow> False | Bool \<Rightarrow> col_SQLType col = SQLBool | String \<Rightarrow> col_SQLType col \<in> {SQLText, SQLBytea, SQLTimestamp}
     | Integer \<Rightarrow> col_SQLType col \<in> {SQLInteger, SQLBigint} | Object \<Rightarrow> col_SQLType col = SQLJSONB)"

primrec columnsAgree :: "SQLTable \<Rightarrow> expr \<Rightarrow> bool" where
  "columnsAgree tbl (ParenExpr inner) \<longleftrightarrow> columnsAgree tbl inner"
| "columnsAgree tbl (BinaryExpr op l r) \<longleftrightarrow> columnsAgree tbl l \<and> columnsAgree tbl r"
| "columnsAgree tbl (PlaceholderExpr num) \<longleftrightarrow> True"
| "columnsAgree tbl (AttrExpr attr) \<longleftrightarrow> (case tb_Columns tbl attr of None \<Rightarrow> True | Some col \<Rightarrow> agreesWith col)"
| "columnsAgree tbl (ValueExpr typ v) \<longleftrightarrow> True"
| "columnsAgree tbl (SelectorExpr ident obj) \<longleftrightarrow> columnsAgree tbl obj"
| "columnsAgree tbl (EnvExpr ident e) \<longleftrightarrow> (case tb_ForeignKeys tbl ident of None \<Rightarrow> True | Some fk \<Rightarrow> columnsAgree (fk_Table fk) e)"

text \<open>
  The columns that a filter names exist in the database with the type that the table description gives them, and a field of an object is
  taken from the column of the attribute's own name. Joined tables have another alias, and the columns they are joined on have the same type.
\<close>

primrec schemaFits :: "schema \<Rightarrow> SQLTable \<Rightarrow> expr \<Rightarrow> bool" where
  "schemaFits S tbl (ParenExpr inner) \<longleftrightarrow> schemaFits S tbl inner"
| "schemaFits S tbl (BinaryExpr op l r) \<longleftrightarrow> schemaFits S tbl l \<and> schemaFits S tbl r"
| "schemaFits S tbl (PlaceholderExpr num) \<longleftrightarrow> True"
| "schemaFits S tbl (AttrExpr attr) \<longleftrightarrow> (case tb_Columns tbl attr of None \<Rightarrow> True
     | Some col \<Rightarrow> S (tb_Name tbl) (col_Name col) = Some (col_SQLType col) \<and> (col_SQLType col = SQLJSONB \<longrightarrow> col_Name col = attr))"
| "schemaFits S tbl (ValueExpr typ v) \<longleftrightarrow> True"
| "schemaFits S tbl (SelectorExpr ident obj) \<longleftrightarrow> schemaFits S tbl obj"
| "schemaFits S tbl (EnvExpr ident e) \<longleftrightarrow> (case tb_ForeignKeys tbl ident of None \<Rightarrow> True
     | Some fk \<Rightarrow> tb_Alias (fk_Table fk) \<noteq> tb_Alias tbl \<and> S (tb_Name tbl) (fk_LocalColumn fk) \<noteq> None \<and>
         S (tb_Name (fk_Table fk)) (fk_ForeignColumn fk) = S (tb_Name tbl) (fk_LocalColumn fk) \<and> schemaFits S (fk_Table fk) e)"

text \<open>The type of an expression before anything is inferred.\<close>

primrec staticType :: "SQLTable \<Rightarrow> Type list \<Rightarrow> expr \<Rightarrow> Type" where
  "staticType tbl vt (ParenExpr inner) = staticType tbl vt inner"
| "staticType tbl vt (BinaryExpr op l r) = Bool"
| "staticType tbl vt (PlaceholderExpr num) = (if vt = [] then Any else vt ! nat (num - 1))"
| "staticType tbl vt (AttrExpr attr) = (case tb_Columns tbl attr of None \<Rightarrow> Any | Some col \<Rightarrow> col_Type col)"
| "staticType tbl vt (ValueExpr typ v) = (if typ = tokString then String else Integer)"
| "staticType tbl vt (SelectorExpr ident obj) = Any"
| "staticType tbl vt (EnvExpr ident e) = Bool"

primrec isPlaceholder :: "expr \<Rightarrow> bool" where
  "isPlaceholder (ParenExpr inner) \<longleftrightarrow> isPlaceholder inner"
| "isPlaceholder (PlaceholderExpr num) \<longleftrightarrow> True"
| "isPlaceholder (BinaryExpr op l r) \<longleftrightarrow> False"
| "isPlaceholder (AttrExpr attr) \<longleftrightarrow> False"
| "isPlaceholder (ValueExpr typ v) \<longleftrightarrow> False"
| "isPlaceholder (SelectorExpr ident obj) \<longleftrightarrow> False"
| "isPlaceholder (EnvExpr ident e) \<longleftrightarrow> False"

text \<open>No equation between two fields of objects, whose types are both unknown, and none between two integer parameters.\<close>

primrec decided :: "SQLTable \<Rightarrow> Type list \<Rightarrow> expr \<Rightarrow> bool" where
  "decided tbl vt (ParenExpr inner) \<longleftrightarrow> decided tbl vt inner"
| "decided tbl vt (BinaryExpr op l r) \<longleftrightarrow> decided tbl vt l \<and> decided tbl vt r \<and>
     (bo_name op = ''='' \<longrightarrow> (knownType (staticType tbl vt l) \<or> knownType (staticType tbl vt r)) \<and>
        (isPlaceholder l \<and> isPlaceholder r \<longrightarrow> staticType tbl vt l \<noteq> Integer))"
| "decided tbl vt (PlaceholderExpr num) \<longleftrightarrow> True"
| "decided tbl vt (AttrExpr attr) \<longleftrightarrow> True"
| "decided tbl vt (ValueExpr typ v) \<longleftrightarrow> True"
| "decided tbl vt (SelectorExpr ident obj) \<longleftrightarrow> decided tbl vt obj"
| "decided tbl vt (EnvExpr ident e) \<longleftrightarrow> (case tb_ForeignKeys tbl ident of None \<Rightarrow> True | Some fk \<Rightarrow> decided (fk_Table fk) vt e)"

section \<open>Inference only adds types\<close>

lemma bindSelector_le: "bindSelector path ty sel = Ok sel' \<Longrightarrow> sel \<subseteq>\<^sub>m sel' \<and> sel' path = Some ty"
  by (auto simp: bindSelector_def map_le_def split: option.splits if_splits)

lemma setType_le: "setType e ty sel = Ok sel' \<Longrightarrow> sel \<subseteq>\<^sub>m sel'"
  by (induction e) (auto simp: bindO_Ok_iff dest: bindSelector_le)

lemma mustBe_Ok: "mustBe e got want err sel = Ok sel' \<longleftrightarrow> (got = want \<and> got \<noteq> Any \<and> sel' = sel) \<or> (got = Any \<and> setType e want sel = Ok sel')"
  by (auto simp: mustBe_def assertType_def isType_def bindO_Ok_iff split: if_splits)

lemma mustBe_le: "mustBe e got want err sel = Ok sel' \<Longrightarrow> sel \<subseteq>\<^sub>m sel'"
  by (auto simp: mustBe_Ok dest: setType_le)

text \<open>The outcome of a checked equation: an unknown side has taken the type of the other.\<close>

definition settled :: "expr \<Rightarrow> Type \<Rightarrow> Type \<Rightarrow> selectorTypes \<Rightarrow> bool" where
  "settled e ty want fin \<longleftrightarrow> ty = want \<or> ty = Any \<and> (\<exists>s s'. setType e want s = Ok s' \<and> s' \<subseteq>\<^sub>m fin)"

lemma known_iff: "knownType t \<longleftrightarrow> t \<noteq> Any"
  by (cases t) (auto simp: knownType_def)

lemma checkEquation_Ok:
  assumes "checkEquation name l lt r rt sel = Ok (ty, sel')" and "lt \<noteq> Any \<or> rt \<noteq> Any" and "sel' \<subseteq>\<^sub>m fin"
  shows "ty = Bool \<and> sel \<subseteq>\<^sub>m sel' \<and> (\<exists>want \<in> {String, Integer}. settled l lt want fin \<and> settled r rt want fin)"
proof -
  consider (left) "lt = Any" "rt \<noteq> Any" | (right) "rt = Any" "lt \<noteq> Any" | (both) "lt \<noteq> Any" "rt \<noteq> Any" using assms(2) by blast
  then show ?thesis
  proof cases
    case left
    with assms(1) obtain "setType l rt sel = Ok sel'" "ty = Bool" "rt \<in> {String, Integer}"
      by (auto simp: checkEquation_def known_iff isType_def bindO_Ok_iff split: if_splits)
    with left assms(3) setType_le show ?thesis unfolding settled_def by blast
  next
    case right
    with assms(1) obtain "setType r lt sel = Ok sel'" "ty = Bool" "lt \<in> {String, Integer}"
      by (auto simp: checkEquation_def known_iff isType_def bindO_Ok_iff split: if_splits)
    with right assms(3) setType_le show ?thesis unfolding settled_def by blast
  next
    case both
    with assms(1) have "sel' = sel" "ty = Bool" "lt \<in> {String, Integer}" "lt = rt"
      by (auto simp: checkEquation_def known_iff isType_def split: if_splits)
    then show ?thesis by (auto simp: settled_def)
  qed
qed

lemma mustBe_settled: "mustBe e got want err sel = Ok sel' \<Longrightarrow> sel' \<subseteq>\<^sub>m fin \<Longrightarrow> settled e got want fin"
  by (auto simp: mustBe_Ok settled_def)

section \<open>Checked filters\<close>

text \<open>Kinds of the values that a type of filters stands for.\<close>

definition hasKind :: "Type \<Rightarrow> sqlKind \<Rightarrow> bool" where
  "hasKind ty k = (case ty of Bool \<Rightarrow> k = KBoolean | String \<Rightarrow> k \<in> {KText, KUnknown} | Integer \<Rightarrow> k = KBigint | _ \<Rightarrow> True)"

text \<open>Every placeholder has a value.\<close>

definition placeholdersBound :: "Type list \<Rightarrow> expr \<Rightarrow> bool" where
  "placeholdersBound vt e \<longleftrightarrow> largestPlaceholder e \<le> int (length vt)"

text \<open>The conditions on a filter together.\<close>

definition fits :: "unicode \<Rightarrow> schema \<Rightarrow> Type list \<Rightarrow> SQLTable \<Rightarrow> expr \<Rightarrow> bool" where
  "fits U S vt tbl e \<longleftrightarrow> wfExpr U e \<and> columnsAgree tbl e \<and> schemaFits S tbl e \<and> decided tbl vt e \<and> placeholdersBound vt e"

lemma fits_simps [simp]:
  "fits U S vt tbl (ParenExpr inner) \<longleftrightarrow> fits U S vt tbl inner"
  "fits U S vt tbl (BinaryExpr op l r) \<longleftrightarrow> fits U S vt tbl l \<and> fits U S vt tbl r \<and> binaryOps (bo_name op) = Some op \<and>
     bo_precedence op \<le> level l \<and> bo_precedence op < level r \<and> (bo_name op = ''='' \<longrightarrow> (knownType (staticType tbl vt l) \<or> knownType (staticType tbl vt r)) \<and>
        (isPlaceholder l \<and> isPlaceholder r \<longrightarrow> staticType tbl vt l \<noteq> Integer))"
  by (auto simp: fits_def wfExpr_def placeholdersBound_def)

lemma selector_base:
  assumes "typeCheckExpr (SelectorExpr ident obj) tbl vt sel = Ok (ty, sel')" and "columnsAgree tbl obj" and "schemaFits S tbl obj" and "lexOK U (SelectorExpr ident obj)"
    and "jsonbPath (SelectorExpr ident obj) = (Ok path :: (filterError, string list) outcome)"
  shows "\<exists>col. tb_Columns tbl (hd path) = Some col \<and> col_SQLType col = SQLJSONB \<and> S (tb_Name tbl) (hd path) = Some SQLJSONB \<and>
    path \<noteq> [] \<and> tl path \<noteq> [] \<and> (\<forall>c \<in> set (tl path). plainText c)"
  using assms
proof (induction obj arbitrary: ident ty sel sel' path)
  case (AttrExpr attr)
  then obtain col where col: "tb_Columns tbl attr = Some col" "path = [attr, ident]" by (auto split: option.splits)
  with AttrExpr.prems have "col_Type col = Object" "agreesWith col"
    by (auto simp: bindO_Ok_iff mustBe_Ok agreesWith_def)
  with col AttrExpr.prems(3,4) identText_plain [of U ident] show ?case by (auto simp: agreesWith_def tokenOK_def)
next
  case (SelectorExpr i obj)
  from SelectorExpr.prems(5) obtain path' where p: "jsonbPath (SelectorExpr i obj) = (Ok path' :: (filterError, string list) outcome)" "path = path' @ [ident]"
    by (auto simp: bindO_Ok_iff)
  from SelectorExpr.prems(1) obtain ty1 sel1 where "typeCheckExpr (SelectorExpr i obj) tbl vt sel = Ok (ty1, sel1)" by (auto simp: bindO_Ok_iff)
  from SelectorExpr.IH [OF this _ _ _ p(1)] SelectorExpr.prems(2-4) have "\<exists>col. tb_Columns tbl (hd path') = Some col \<and> col_SQLType col = SQLJSONB \<and>
      S (tb_Name tbl) (hd path') = Some SQLJSONB \<and> path' \<noteq> [] \<and> tl path' \<noteq> [] \<and> (\<forall>c \<in> set (tl path'). plainText c)" by simp
  moreover have "plainText ident" using SelectorExpr.prems(4) identText_plain [of U ident] by (auto simp: tokenOK_def)
  ultimately show ?case using p(2) by auto
qed (auto simp: bindO_Ok_iff)

lemma typeCheckExpr_static: "typeCheckExpr e tbl vt sel = Ok (ty, sel') \<Longrightarrow> lexOK U e \<Longrightarrow> ty = staticType tbl vt e"
proof (induction e arbitrary: sel ty sel')
  case (BinaryExpr op l r)
  then show ?case by (auto simp: bindO_Ok_iff checkEquation_def split: if_splits)
qed (auto simp: bindO_Ok_iff split: if_splits option.splits)

text \<open>An expression that has taken its type translates to the text of an SQL expression of a kind of that type.\<close>

definition becomes :: "(string \<Rightarrow> string) \<Rightarrow> schema \<Rightarrow> Type list \<Rightarrow> scope \<Rightarrow> selectorTypes \<Rightarrow> filterValue list \<Rightarrow> SQLTable \<Rightarrow> expr \<Rightarrow> Type \<Rightarrow> bool" where
  "becomes quote S vt sc fin vals tbl e ty \<longleftrightarrow> (\<exists>a k. asSQL quote fin vals tbl e = Ok (render quote a) \<and> sqlType S vt sc a = Some k \<and> hasKind ty k \<and>
     level e \<le> sqlLevel a \<and> isParam a = isPlaceholder e)"

definition inScope :: "scope \<Rightarrow> SQLTable \<Rightarrow> bool" where
  "inScope sc tbl \<longleftrightarrow> sc (tb_Alias tbl) = Some (tb_Name tbl)"

lemma becomesI:
  "asSQL quote fin vals tbl e = Ok (render quote a) \<Longrightarrow> sqlType S vt sc a = Some k \<Longrightarrow> hasKind ty k \<Longrightarrow> level e \<le> sqlLevel a \<Longrightarrow> isParam a = isPlaceholder e \<Longrightarrow>
   becomes quote S vt sc fin vals tbl e ty"
  unfolding becomes_def by blast

lemma becomes_paren:
  assumes "becomes quote S vt sc fin vals tbl e ty"
  shows "becomes quote S vt sc fin vals tbl (ParenExpr e) ty"
proof -
  from assms obtain a k where "asSQL quote fin vals tbl e = Ok (render quote a)" "sqlType S vt sc a = Some k" "hasKind ty k" "isParam a = isPlaceholder e"
    unfolding becomes_def by blast
  then show ?thesis by (intro becomesI [where a = "SQLParens a" and k = k]) auto
qed

text \<open>The expression behind a column and behind a cast.\<close>

definition columnExp :: "SQLTable \<Rightarrow> SQLColumn \<Rightarrow> sqlExp" where
  "columnExp tbl col = (let c = SQLCol (tb_Alias tbl) (col_Name col) in
     case col_SQLType col of SQLBytea \<Rightarrow> SQLHex c | SQLJSONB \<Rightarrow> SQLCast c ''text'' | SQLInteger \<Rightarrow> SQLCast c ''bigint'' | SQLTimestamp \<Rightarrow> SQLCast c ''text'' | _ \<Rightarrow> c)"

lemma becomes_column:
  assumes "tb_Columns tbl attr = Some col" and "agreesWith col" and "S (tb_Name tbl) (col_Name col) = Some (col_SQLType col)" and "inScope sc tbl"
  shows "becomes quote S vt sc fin vals tbl (AttrExpr attr) (col_Type col)"
proof -
  have "render quote (columnExp tbl col) = columnSQL quote tbl col"
    by (simp add: columnExp_def columnSQL_def writeCol_def Let_def split: SQLType.split)
  moreover have "\<exists>k. sqlType S vt sc (columnExp tbl col) = Some k \<and> hasKind (col_Type col) k"
    using assms by (auto simp: inScope_def columnExp_def Let_def agreesWith_def columnType_def columnKind_def hasKind_def castTo_def split: SQLType.splits Type.splits)
  moreover have "4 \<le> sqlLevel (columnExp tbl col)" "\<not> isParam (columnExp tbl col)" by (auto simp: columnExp_def Let_def split: SQLType.splits)
  ultimately show ?thesis using assms(1) by (auto intro: becomesI [where a = "columnExp tbl col"])
qed

definition castExp :: "Type option \<Rightarrow> sqlExp \<Rightarrow> sqlExp" where
  "castExp ty e = (case ty of Some Integer \<Rightarrow> SQLCast e ''bigint'' | Some Bool \<Rightarrow> SQLCast e ''boolean'' | Some Object \<Rightarrow> SQLCast e ''jsonb'' | _ \<Rightarrow> e)"

lemma render_castExp: "render quote (castExp ty e) = render quote e @ castSQL ty"
  by (simp add: castExp_def castSQL_def split: option.split Type.split)

lemma castExp_kind:
  assumes "sqlType S vt sc e = Some KText" and "sqlLevel e = 5" and "\<not> isParam e"
  shows "\<exists>k. sqlType S vt sc (castExp (Some ty) e) = Some k \<and> hasKind ty k" and "sqlLevel (castExp (Some ty) e) = 5" and "\<not> isParam (castExp (Some ty) e)"
  using assms by (cases ty; simp add: castExp_def castTo_def hasKind_def)+

lemma steps_noparam: "\<not> isParam e \<Longrightarrow> \<not> isParam (steps e cs)"
  by (induction e cs rule: steps.induct) auto

lemma setType_becomes:
  assumes "typeCheckExpr e tbl vt sel = Ok (Any, sel1)" and "setType e want s = Ok s'" and "s' \<subseteq>\<^sub>m fin" and "fits U S vt tbl e"
    and "\<And>t. t \<in> set vt \<Longrightarrow> t \<noteq> Any" and "inScope sc tbl"
  shows "becomes quote S vt sc fin vals tbl e want"
  using assms
proof (induction e)
  case (SelectorExpr ident obj)
  from SelectorExpr.prems(2) obtain path where p: "jsonbPath (SelectorExpr ident obj) = (Ok path :: (filterError, string list) outcome)"
      "bindSelector (joinDots path) want s = Ok s'" unfolding setType.simps bindO_Ok_iff by blast
  from SelectorExpr.prems(4) have "columnsAgree tbl obj" "schemaFits S tbl obj" "lexOK U (SelectorExpr ident obj)" by (auto simp: fits_def wfExpr_def)
  from selector_base [OF SelectorExpr.prems(1) this p(1)] obtain col where c: "tb_Columns tbl (hd path) = Some col" "col_SQLType col = SQLJSONB"
      "S (tb_Name tbl) (hd path) = Some SQLJSONB" "path \<noteq> []" "tl path \<noteq> []" "\<forall>c \<in> set (tl path). plainText c" by blast
  have fin: "fin (joinDots path) = Some want" using bindSelector_le [OF p(2)] SelectorExpr.prems(3) by (metis domI map_le_def)
  let ?b = "SQLParens (steps (SQLCol (tb_Alias tbl) (hd path)) (tl path))"
  have q: "asSQL quote fin vals tbl (SelectorExpr ident obj) = Ok (render quote (castExp (Some want) ?b))"
    using p(1) c(1,2) fin by (simp add: selectorSQL_def writeCol_def render_castExp render_steps del: jsonbPath.simps)
  have b: "sqlType S vt sc ?b = Some KText" "sqlLevel ?b = 5" "\<not> isParam ?b"
    using sqlType_steps [of S vt sc "SQLCol (tb_Alias tbl) (hd path)"] c SelectorExpr.prems(6) steps_noparam [of "SQLCol (tb_Alias tbl) (hd path)" "tl path"]
    by (simp_all add: inScope_def columnType_def columnKind_def)
  from castExp_kind [OF b, of want] q show ?case by (auto simp: becomes_def)
next
  case (PlaceholderExpr num)
  then have n: "0 < num" "num \<le> int (length vt)" by (auto simp: fits_def wfExpr_def placeholdersBound_def)
  then have "vt \<noteq> []" "vt ! nat (num - 1) \<in> set vt" by auto
  with PlaceholderExpr.prems(1,5) n show ?case by auto
next
  case (ParenExpr e)
  then show ?case by (auto intro: becomes_paren)
qed simp_all

lemma settled_becomes:
  assumes "typeCheckExpr e tbl vt sel = Ok (ty, sel1)" and "settled e ty want fin" and "want \<noteq> Any" and "fits U S vt tbl e"
    and "\<And>t. t \<in> set vt \<Longrightarrow> t \<noteq> Any" and "inScope sc tbl" and "ty \<noteq> Any \<Longrightarrow> becomes quote S vt sc fin vals tbl e ty"
  shows "becomes quote S vt sc fin vals tbl e want"
proof (cases "ty = Any")
  case True
  with assms(2,3) obtain s s' where "setType e want s = Ok s'" "s' \<subseteq>\<^sub>m fin" by (auto simp: settled_def)
  with setType_becomes [of e tbl vt sel sel1 want s s' fin U S sc quote vals] assms True show ?thesis by blast
qed (use assms in \<open>auto simp: settled_def\<close>)

text \<open>Operators over translated operands.\<close>

lemma operator_texts: "binaryOps (bo_name op) = Some op \<Longrightarrow> bo_sqlOp op = bo_name op \<and> bo_precedence op = opLevel (bo_name op) \<and> bo_name op \<in> {''OR'', ''AND'', ''=''}"
  by (auto simp: binaryOps_def opLevel_def split: if_splits)

lemma param_kind: "isParam a \<Longrightarrow> sqlType S vt sc a = Some k \<Longrightarrow> k \<in> {KText, KBoolean, KBigint}"
  by (induction a) (auto simp: paramKind_def split: if_splits Type.splits)

lemma placeholder_typed:
  assumes "typeCheckExpr e tbl vt sel = Ok (ty, sel')" and "isPlaceholder e" and "fits U S vt tbl e" and "\<And>t. t \<in> set vt \<Longrightarrow> t \<noteq> Any"
  shows "ty \<noteq> Any"
  using assms
proof (induction e)
  case (PlaceholderExpr num)
  then have n: "0 < num" "num \<le> int (length vt)" by (auto simp: fits_def wfExpr_def placeholdersBound_def)
  then have "vt \<noteq> []" "vt ! nat (num - 1) \<in> set vt" by auto
  with PlaceholderExpr.prems(1,4) n show ?case by auto
qed auto

lemma becomes_operator:
  assumes "becomes quote S vt sc fin vals tbl l want" and "becomes quote S vt sc fin vals tbl r want" and "binaryOps (bo_name op) = Some op"
    and "bo_precedence op \<le> level l" and "bo_precedence op < level r" and "want \<in> {Bool, String, Integer}" and "want = Bool \<longleftrightarrow> bo_name op \<noteq> ''=''"
    and "isPlaceholder l \<and> isPlaceholder r \<Longrightarrow> want \<noteq> Integer"
  shows "becomes quote S vt sc fin vals tbl (BinaryExpr op l r) Bool"
proof -
  from assms(1,2) obtain a k b k' where a: "asSQL quote fin vals tbl l = Ok (render quote a)" "sqlType S vt sc a = Some k" "hasKind want k" "level l \<le> sqlLevel a" "isParam a = isPlaceholder l"
    and b: "asSQL quote fin vals tbl r = Ok (render quote b)" "sqlType S vt sc b = Some k'" "hasKind want k'" "level r \<le> sqlLevel b" "isParam b = isPlaceholder r"
    unfolding becomes_def by blast
  note op = operator_texts [OF assms(3)]
  have "sqlType S vt sc (SQLOp a (bo_sqlOp op) b) = Some KBoolean"
  proof (cases "bo_name op = ''=''")
    case True
    with assms(6,7) have w: "want \<in> {String, Integer}" by auto
    with a(3) b(3) have k: "comparable k k'" "k \<noteq> KBoolean" "k' \<noteq> KBoolean" by (auto simp: hasKind_def comparable_def)
    have "k = KText" if "isParam a \<and> isParam b"
      using that assms(8) a(2,3,5) b(5) w param_kind [of a S vt sc k] by (auto simp: hasKind_def)
    with True op k operator_free [OF a(2)] operator_free [OF b(2)] a(2) b(2) show ?thesis by auto
  next
    case False
    with assms(7) a(3) b(3) have "k = KBoolean" "k' = KBoolean" by (auto simp: hasKind_def)
    with False op a(2,4) b(2,4) assms(4,5) show ?thesis by auto
  qed
  then show ?thesis using a(1) b(1) op by (intro becomesI [where a = "SQLOp a (bo_sqlOp op) b"]) (auto simp: hasKind_def)
qed

lemma typeCheck_becomes:
  assumes "typeCheckExpr e tbl vt sel = Ok (ty, sel')" and "sel' \<subseteq>\<^sub>m fin" and "fits U S vt tbl e" and "inScope sc tbl"
    and "\<And>t. t \<in> set vt \<Longrightarrow> t \<in> {Bool, String, Integer}" and "length vt = length vals"
  shows "sel \<subseteq>\<^sub>m sel' \<and> (ty \<noteq> Any \<and> ty \<noteq> Object \<longrightarrow> becomes quote S vt sc fin vals tbl e ty)"
  using assms(1-4)
proof (induction e arbitrary: tbl sc sel ty sel')
  case (BinaryExpr op l r)
  from BinaryExpr.prems(1) obtain lt sel1 rt sel2 where l: "typeCheckExpr l tbl vt sel = Ok (lt, sel1)" and r: "typeCheckExpr r tbl vt sel1 = Ok (rt, sel2)"
    and c: "(if bo_name op = ''OR'' \<or> bo_name op = ''AND'' then
       bindO (mustBe l lt Bool (BoolOperands (bo_name op)) sel2) (\<lambda>sel3. bindO (mustBe r rt Bool (BoolOperands (bo_name op)) sel3) (\<lambda>sel4. Ok (Bool, sel4)))
     else if bo_name op = ''='' then checkEquation (bo_name op) l lt r rt sel2 else Crash) = Ok (ty, sel')" by (auto simp: bindO_Ok_iff)
  have nAny: "\<And>t. t \<in> set vt \<Longrightarrow> t \<noteq> Any" using assms(5) by blast
  have f: "fits U S vt tbl l" "fits U S vt tbl r" "lexOK U l" "lexOK U r" using BinaryExpr.prems(3) by (auto simp: fits_def wfExpr_def placeholdersBound_def)
  have st: "lt = staticType tbl vt l" "rt = staticType tbl vt r" using typeCheckExpr_static [OF l] typeCheckExpr_static [OF r] f by auto
  have IH: "sel \<subseteq>\<^sub>m sel1 \<and> (lt \<noteq> Any \<and> lt \<noteq> Object \<longrightarrow> becomes quote S vt sc fin vals tbl l lt)"
      "sel1 \<subseteq>\<^sub>m sel2 \<and> (rt \<noteq> Any \<and> rt \<noteq> Object \<longrightarrow> becomes quote S vt sc fin vals tbl r rt)" if "sel2 \<subseteq>\<^sub>m sel'"
  proof -
    have f2: "sel2 \<subseteq>\<^sub>m fin" using that BinaryExpr.prems(2) by (rule map_le_trans)
    show b: "sel1 \<subseteq>\<^sub>m sel2 \<and> (rt \<noteq> Any \<and> rt \<noteq> Object \<longrightarrow> becomes quote S vt sc fin vals tbl r rt)"
      by (rule BinaryExpr.IH(2) [OF r f2 f(2) BinaryExpr.prems(4)])
    have "sel1 \<subseteq>\<^sub>m fin" using b f2 map_le_trans by blast
    show "sel \<subseteq>\<^sub>m sel1 \<and> (lt \<noteq> Any \<and> lt \<noteq> Object \<longrightarrow> becomes quote S vt sc fin vals tbl l lt)"
      by (rule BinaryExpr.IH(1) [OF l \<open>sel1 \<subseteq>\<^sub>m fin\<close> f(1) BinaryExpr.prems(4)])
  qed
  have fin: ?case if le: "sel2 \<subseteq>\<^sub>m sel'" and "ty = Bool" and want: "want \<in> {Bool, String, Integer}" "settled l lt want fin" "settled r rt want fin"
    and op: "want = Bool \<longleftrightarrow> bo_name op \<noteq> ''=''" for want
  proof -
    have wo: "want \<noteq> Any" "lt = Object \<longrightarrow> False" "rt = Object \<longrightarrow> False" using want by (auto simp: settled_def)
    have bl: "becomes quote S vt sc fin vals tbl l want"
      by (rule settled_becomes [OF l want(2) wo(1) f(1) nAny BinaryExpr.prems(4)]) (use IH(1) [OF le] wo in auto)
    have br: "becomes quote S vt sc fin vals tbl r want"
      by (rule settled_becomes [OF r want(3) wo(1) f(2) nAny BinaryExpr.prems(4)]) (use IH(2) [OF le] wo in auto)
    have "want \<noteq> Integer" if p: "isPlaceholder l \<and> isPlaceholder r"
    proof
      assume "want = Integer"
      moreover have "lt \<noteq> Any" using placeholder_typed [OF l _ f(1) nAny] p by blast
      ultimately have "lt = Integer" using want(2) by (auto simp: settled_def)
      with \<open>want = Integer\<close> op p st(1) BinaryExpr.prems(3) show False by auto
    qed
    with bl br BinaryExpr.prems(3) want(1) op have "becomes quote S vt sc fin vals tbl (BinaryExpr op l r) Bool" by (intro becomes_operator) auto
    moreover have "sel \<subseteq>\<^sub>m sel'" using IH [OF le] le map_le_trans by blast
    ultimately show ?thesis using that(2) by simp
  qed
  consider (logic) "bo_name op = ''OR'' \<or> bo_name op = ''AND''" | (equation) "bo_name op = ''=''" using BinaryExpr.prems(3) operator_texts [of op] by auto
  then show ?case
  proof cases
    case logic
    with c obtain sel3 where m: "mustBe l lt Bool (BoolOperands (bo_name op)) sel2 = Ok sel3" "mustBe r rt Bool (BoolOperands (bo_name op)) sel3 = Ok sel'" "ty = Bool"
      by (auto simp: bindO_Ok_iff)
    have "sel2 \<subseteq>\<^sub>m sel'" "sel3 \<subseteq>\<^sub>m fin" using mustBe_le m(1,2) map_le_trans BinaryExpr.prems(2) by blast+
    with fin [of Bool] mustBe_settled [OF m(1)] mustBe_settled [OF m(2) BinaryExpr.prems(2)] m(3) logic show ?thesis by auto
  next
    case equation
    with c have ce: "checkEquation (bo_name op) l lt r rt sel2 = Ok (ty, sel')" by simp
    with BinaryExpr.prems(3) equation st have "lt \<noteq> Any \<or> rt \<noteq> Any" by (simp add: known_iff)
    from checkEquation_Ok [OF ce this BinaryExpr.prems(2)] obtain want where "ty = Bool" "sel2 \<subseteq>\<^sub>m sel'" "want \<in> {String, Integer}" "settled l lt want fin" "settled r rt want fin" by blast
    with fin [of want] equation show ?thesis by auto
  qed
next
  case (AttrExpr attr)
  then obtain col where c: "tb_Columns tbl attr = Some col" "ty = col_Type col" "sel' = sel" by (auto split: option.splits)
  with AttrExpr.prems(3) have "agreesWith col" "S (tb_Name tbl) (col_Name col) = Some (col_SQLType col)" by (auto simp: fits_def)
  with c AttrExpr.prems(4) show ?case by (auto intro: becomes_column)
next
  case (SelectorExpr ident obj)
  then obtain ty0 sel1 where o: "typeCheckExpr obj tbl vt sel = Ok (ty0, sel1)" "mustBe obj ty0 Object NotAnObject sel1 = Ok sel'" "ty = Any" by (auto simp: bindO_Ok_iff)
  have "sel1 \<subseteq>\<^sub>m fin" using mustBe_le [OF o(2)] SelectorExpr.prems(2) map_le_trans by blast
  moreover have "fits U S vt tbl obj" using SelectorExpr.prems(3) by (auto simp: fits_def wfExpr_def placeholdersBound_def)
  ultimately have "sel \<subseteq>\<^sub>m sel1" using SelectorExpr.IH [OF o(1)] SelectorExpr.prems(4) by blast
  then show ?case using mustBe_le [OF o(2)] o(3) by (auto intro: map_le_trans)
next
  case (ParenExpr e)
  then have "sel \<subseteq>\<^sub>m sel' \<and> (ty \<noteq> Any \<and> ty \<noteq> Object \<longrightarrow> becomes quote S vt sc fin vals tbl e ty)" by simp
  then show ?case by (auto intro: becomes_paren)
next
  case (ValueExpr t v)
  from ValueExpr.prems(3) consider "t = tokString" "stringText v" | n where "t = tokInteger" "0 \<le> n" "v = Itoa n" by (auto simp: fits_def wfExpr_def)
  then show ?case
  proof cases
    case 1
    with ValueExpr.prems(1) stringText_literal show ?thesis by (auto intro!: becomesI [where a = "SQLString v" and k = KUnknown] simp: hasKind_def)
  next
    case 2
    with ValueExpr.prems(1) Itoa_digits [OF 2(2)] show ?thesis
      by (auto intro!: becomesI [where a = "SQLCast (SQLDigits v) ''bigint''" and k = KBigint] simp: hasKind_def castTo_def)
  qed
next
  case (EnvExpr ident e)
  then obtain fk ty0 sel1 where fk: "tb_ForeignKeys tbl ident = Some fk" "typeCheckExpr e (fk_Table fk) vt sel = Ok (ty0, sel1)"
      "mustBe e ty0 Bool (EnvironmentNotBool ident) sel1 = Ok sel'" "ty = Bool" by (auto simp: bindO_Ok_iff split: option.splits)
  have f1: "sel1 \<subseteq>\<^sub>m fin" using mustBe_le [OF fk(3)] EnvExpr.prems(2) map_le_trans by blast
  let ?t = "fk_Table fk" and ?sc = "sc(tb_Alias (fk_Table fk) \<mapsto> tb_Name (fk_Table fk))"
  have f: "fits U S vt ?t e" "tb_Alias ?t \<noteq> tb_Alias tbl" "S (tb_Name tbl) (fk_LocalColumn fk) \<noteq> None" "S (tb_Name ?t) (fk_ForeignColumn fk) = S (tb_Name tbl) (fk_LocalColumn fk)"
    using EnvExpr.prems(3) fk(1) by (auto simp: fits_def wfExpr_def placeholdersBound_def)
  have sc: "inScope ?sc ?t" by (simp add: inScope_def)
  note IH = EnvExpr.IH [OF fk(2) f1 f(1) sc]
  have s: "settled e ty0 Bool fin" by (rule mustBe_settled [OF fk(3) EnvExpr.prems(2)])
  have k: "ty0 \<noteq> Any \<Longrightarrow> becomes quote S vt ?sc fin vals ?t e ty0" using IH s unfolding settled_def by blast
  have "becomes quote S vt ?sc fin vals ?t e Bool"
    by (rule settled_becomes [OF fk(2) s _ f(1) _ sc k]) (use assms(5) in auto)
  then obtain a where "asSQL quote fin vals ?t e = Ok (render quote a)" "sqlType S vt ?sc a = Some KBoolean" by (auto simp: becomes_def hasKind_def)
  then have "becomes quote S vt sc fin vals tbl (EnvExpr ident e) Bool" using fk(1) f(2-4) EnvExpr.prems(4)
    by (intro becomesI [where a = "SQLExists (tb_Name ?t) (tb_Alias ?t) (fk_ForeignColumn fk) (tb_Alias tbl) (fk_LocalColumn fk) a" and k = KBoolean])
      (auto simp: inScope_def hasKind_def columnType_def Let_def)
  then show ?case using fk(4) IH mustBe_le [OF fk(3)] by (auto intro: map_le_trans)
next
  case (PlaceholderExpr num)
  then have n: "0 < num" "num \<le> int (length vt)" by (auto simp: fits_def wfExpr_def placeholdersBound_def)
  then have v: "vt \<noteq> []" "vt ! nat (num - 1) \<in> set vt" by auto
  with PlaceholderExpr.prems(1) n have "ty = vt ! nat (num - 1)" "sel' = sel" by auto
  with v n assms(5) [OF v(2)] assms(6) show ?case
    by (auto intro!: becomesI [where a = "SQLParam num" and k = "paramKind ty"] simp: hasKind_def paramKind_def)
qed

section \<open>Properties\<close>

lemma valueTypes_Ok: "valueTypes vals = Ok vt \<Longrightarrow> length vt = length vals \<and> set vt \<subseteq> {Bool, String, Integer}"
  by (induction vals arbitrary: vt) (auto simp: bindO_Ok_iff split: filterValue.splits)

lemma Parse_Ok:
  assumes "Parse U filt tbl vals = Ok p" and "pr_expr p = Some e"
  shows "wfExpr U e \<and> pr_Parameters p = largestPlaceholder e \<and>
    (\<exists>vt ty sel. valueTypes vals = Ok vt \<and> typeCheckExpr e tbl vt Map.empty = Ok (ty, sel) \<and> mustBe e ty Bool (NotBool ty) sel = Ok (pr_selectorTypes p))"
proof -
  from assms obtain pa where pa: "parse U filt = Ok (Some e, pa)" "typeCheck (Some e) tbl vals = Ok (pr_selectorTypes p)" "pr_Parameters p = pa_maxPlaceholder pa"
    by (auto simp: Parse_def parseFilter_def bindO_Ok_iff split: outcome.splits)
  with parse_outcomes [of U filt] show ?thesis by (auto simp: typeCheck_def bindO_Ok_iff)
qed

text \<open>The tables of the query indexes, with the columns that filters can name, as \<^verbatim>\<open>core/schema.sql\<close> creates them.\<close>

definition indexSchema :: schema where
  "indexSchema = (\<lambda>_ _. None)(
     ''annotated_accounts'' := [''id'' \<mapsto> SQLText, ''alias'' \<mapsto> SQLText, ''keys'' \<mapsto> SQLJSONB, ''quorum'' \<mapsto> SQLInteger, ''tags'' \<mapsto> SQLJSONB],
     ''annotated_assets'' := [''id'' \<mapsto> SQLBytea, ''sort_id'' \<mapsto> SQLText, ''alias'' \<mapsto> SQLText, ''issuance_program'' \<mapsto> SQLBytea, ''keys'' \<mapsto> SQLJSONB,
       ''quorum'' \<mapsto> SQLInteger, ''definition'' \<mapsto> SQLJSONB, ''tags'' \<mapsto> SQLJSONB, ''local'' \<mapsto> SQLBool],
     ''annotated_inputs'' := [''tx_hash'' \<mapsto> SQLBytea, ''index'' \<mapsto> SQLInteger, ''type'' \<mapsto> SQLText, ''asset_id'' \<mapsto> SQLBytea, ''asset_alias'' \<mapsto> SQLText,
       ''asset_definition'' \<mapsto> SQLJSONB, ''asset_tags'' \<mapsto> SQLJSONB, ''asset_local'' \<mapsto> SQLBool, ''amount'' \<mapsto> SQLBigint, ''account_id'' \<mapsto> SQLText,
       ''account_alias'' \<mapsto> SQLText, ''account_tags'' \<mapsto> SQLJSONB, ''issuance_program'' \<mapsto> SQLBytea, ''reference_data'' \<mapsto> SQLJSONB,
       ''local'' \<mapsto> SQLBool, ''spent_output_id'' \<mapsto> SQLBytea],
     ''annotated_outputs'' := [''block_height'' \<mapsto> SQLBigint, ''tx_pos'' \<mapsto> SQLInteger, ''output_index'' \<mapsto> SQLInteger, ''tx_hash'' \<mapsto> SQLBytea,
       ''output_id'' \<mapsto> SQLBytea, ''type'' \<mapsto> SQLText, ''purpose'' \<mapsto> SQLText, ''asset_id'' \<mapsto> SQLBytea, ''asset_alias'' \<mapsto> SQLText,
       ''asset_definition'' \<mapsto> SQLJSONB, ''asset_tags'' \<mapsto> SQLJSONB, ''asset_local'' \<mapsto> SQLBool, ''amount'' \<mapsto> SQLBigint, ''account_id'' \<mapsto> SQLText,
       ''account_alias'' \<mapsto> SQLText, ''account_tags'' \<mapsto> SQLJSONB, ''control_program'' \<mapsto> SQLBytea, ''reference_data'' \<mapsto> SQLJSONB, ''local'' \<mapsto> SQLBool],
     ''annotated_txs'' := [''block_height'' \<mapsto> SQLBigint, ''tx_pos'' \<mapsto> SQLInteger, ''tx_hash'' \<mapsto> SQLBytea, ''data'' \<mapsto> SQLJSONB, ''timestamp'' \<mapsto> SQLTimestamp,
       ''block_id'' \<mapsto> SQLBytea, ''local'' \<mapsto> SQLBool, ''reference_data'' \<mapsto> SQLJSONB, ''block_tx_count'' \<mapsto> SQLInteger])"

text \<open>
  C21. Type soundness of filters: a filter that passes \<open>Parse\<close>, with exactly one value for each placeholder, is translated to SQL without an
  error, and the text is that of a well-typed boolean expression of SQL over the columns of the database: conjunctions and disjunctions combine
  booleans, equations compare values of one kind after the casts that are in the text, fields are taken from objects, each quoted text ends where it
  should, and no operand has to be read with another grouping. This needs that the columns named have the same type in the filter language
  and in SQL, that they exist in the database with that type, that joined tables have other aliases, and that no equation compares two fields of objects or two
  integer parameters.
\<close>
theorem checked_filter_is_typed:
  assumes "Parse U filt tbl vals = Ok p" and "pr_expr p = Some e" and "pr_Parameters p = int (length vals)" and "valueTypes vals = Ok vt"
    and "columnsAgree tbl e" and "schemaFits S tbl e" and "decided tbl vt e"
  shows "\<exists>a. AsSQL quote p tbl vals = Ok (render quote a) \<and> sqlType S vt [tb_Alias tbl \<mapsto> tb_Name tbl] a = Some KBoolean"
proof -
  let ?fin = "pr_selectorTypes p" and ?sc = "[tb_Alias tbl \<mapsto> tb_Name tbl]"
  from Parse_Ok [OF assms(1,2)] assms(4) obtain ty sel where w: "wfExpr U e" "pr_Parameters p = largestPlaceholder e"
      "typeCheckExpr e tbl vt Map.empty = Ok (ty, sel)" "mustBe e ty Bool (NotBool ty) sel = Ok ?fin" by auto
  have vt: "length vt = length vals" "\<And>t. t \<in> set vt \<Longrightarrow> t \<in> {Bool, String, Integer}" "\<And>t. t \<in> set vt \<Longrightarrow> t \<noteq> Any" using valueTypes_Ok [OF assms(4)] by auto
  have f: "fits U S vt tbl e" using w(1,2) assms(3,5-7) vt(1) by (simp add: fits_def placeholdersBound_def)
  have sc: "inScope ?sc tbl" by (simp add: inScope_def)
  note s = mustBe_settled [OF w(4) map_le_refl]
  from typeCheck_becomes [OF w(3) mustBe_le [OF w(4)] f sc vt(2,1)] have "ty \<noteq> Any \<and> ty \<noteq> Object \<longrightarrow> becomes quote S vt ?sc ?fin vals tbl e ty" by blast
  with s have "becomes quote S vt ?sc ?fin vals tbl e Bool" by (intro settled_becomes [OF w(3) s _ f vt(3) sc]) (auto simp: settled_def)
  with assms(2) show ?thesis by (auto simp: becomes_def hasKind_def AsSQL_def)
qed

definition doubleQuote :: "string \<Rightarrow> string" where
  "doubleQuote s = [CHR 34] @ s @ [CHR 34]"

text \<open>A filter with a join, a field that takes its type from a parameter, a column to be encoded and one to be cast.\<close>

definition sampleFilter :: string where
  "sampleFilter = ''inputs(asset_tags.a.b = $1 AND asset_id = '' @ [CHR 0x27] @ ''00ff'' @ [CHR 0x27] @ '') AND position = 0''"

lemma checked_filter_is_typed_witness:
  "\<exists>p a. Parse asciiTables sampleFilter transactionsTable [IntegerValue 7] = Ok p \<and>
     AsSQL doubleQuote p transactionsTable [IntegerValue 7] = Ok (render doubleQuote a) \<and>
     sqlType indexSchema [Integer] [''txs'' \<mapsto> ''annotated_txs''] a = Some KBoolean"
proof -
  let ?vals = "[IntegerValue 7]"
  have "(case Parse asciiTables sampleFilter transactionsTable ?vals of Ok p \<Rightarrow> pr_Parameters p = 1 \<and>
      (case pr_expr p of Some e \<Rightarrow> columnsAgree transactionsTable e \<and> schemaFits indexSchema transactionsTable e \<and> decided transactionsTable [Integer] e
       | None \<Rightarrow> False) | _ \<Rightarrow> False)" by code_simp
  then obtain p e where p: "Parse asciiTables sampleFilter transactionsTable ?vals = Ok p" "pr_expr p = Some e" "pr_Parameters p = int (length ?vals)"
      "columnsAgree transactionsTable e" "schemaFits indexSchema transactionsTable e" "decided transactionsTable [Integer] e" by (auto split: outcome.splits option.splits)
  have "valueTypes ?vals = Ok [Integer]" by simp
  from checked_filter_is_typed [OF p(1-3) this p(4-6), of doubleQuote] p(1) show ?thesis by (auto simp: transactionsTable_def)
qed

text \<open>A field of a balance query is the name in filters, although the column may have another name.\<close>

lemma field_ignores_column_name:
  "FieldAsSQL doubleQuote outputsTable (AttrExpr ''position'') = Ok (''out.'' @ doubleQuote ''position'')"
  "asSQL doubleQuote Map.empty [] outputsTable (AttrExpr ''position'') = Ok (''out.'' @ doubleQuote ''output_index'' @ ''::bigint'')"
  by (simp_all add: FieldAsSQL_def outputsTable_def column_def columnSQL_def writeCol_def)

end
