(* ===== verification/Database.thy ===== *)
theory Database
  imports Prelude
begin

text \<open>
  Statements sent to the database through \<^verbatim>\<open>database/pg\<close>. A statement takes effect at once or not at all; an error does not tell
  which, since the connection may break after the statement was done.
\<close>

datatype exec = Done | Failed bool

definition tookEffect :: "exec \<Rightarrow> bool" where
  "tookEffect r \<longleftrightarrow> r = Done \<or> r = Failed True"

definition execError :: "exec \<Rightarrow> bool" where
  "execError r \<longleftrightarrow> r \<noteq> Done"

lemma exec_simps [simp]: "tookEffect Done" "tookEffect (Failed b) = b" "\<not> execError Done" "execError (Failed b)"
  by (simp_all add: tookEffect_def execError_def)

lemma noError [simp]: "\<not> execError r \<longleftrightarrow> r = Done"
  by (simp add: execError_def)

end
