(* ===== verification/Pin.thy ===== *)
theory Pin
  imports Strconv Legacy_Block Database
begin

text \<open>
  The bookkeeping of processed blocks, \<^verbatim>\<open>core/pin/pin.go\<close>. For every named processor a pin has the height up to which all blocks are
  processed; it is kept in the table \<^verbatim>\<open>block_processors\<close> and, as an object, in the memory of every process. A loop starts a worker per
  block, up to ten at a time, and the workers end in any order. A statement sent to the database may fail, before or after it took effect.
\<close>

section \<open>The operations\<close>

type_synonym processors = "string \<Rightarrow> uint64 option"

record pin =
  pin_height :: uint64
  pin_completed :: "uint64 list"
  pin_name :: string

definition newPin :: "string \<Rightarrow> uint64 \<Rightarrow> pin" where
  "newPin name height = \<lparr>pin_height = height, pin_completed = [], pin_name = name\<rparr>"

definition processorWorkers :: nat where
  "processorWorkers = 10"

text \<open>The loop of \<open>complete\<close>: the height reached and the index where it stopped.\<close>

fun advance :: "uint64 \<Rightarrow> nat \<Rightarrow> uint64 list \<Rightarrow> uint64 \<times> nat" where
  "advance mx i [] = (mx, i)"
| "advance mx i (c # cs) = (if c \<le> mx then advance mx (Suc i) cs else if c > mx + 1 then (mx, i) else advance c (Suc i) cs)"

definition updateHeight :: "string \<Rightarrow> uint64 \<Rightarrow> processors \<Rightarrow> processors" where
  "updateHeight name h db = (case db name of Some h' \<Rightarrow> if h' < h then db(name \<mapsto> h) else db | None \<Rightarrow> db)"

text \<open>Notifications: the channel without its prefix and the payload, a numeral.\<close>

type_synonym notifications = "(string \<times> string) set"

text \<open>The result says whether an error was returned.\<close>

definition pinComplete :: "exec \<Rightarrow> exec \<Rightarrow> uint64 \<Rightarrow> processors \<times> notifications \<times> pin \<Rightarrow> bool \<times> processors \<times> notifications \<times> pin" where
  "pinComplete r1 r2 height = (\<lambda>(db, ns, p).
     let p' = p\<lparr>pin_completed := sort (pin_completed p @ [height])\<rparr>;
         (mx, i) = advance (pin_height p) 0 (pin_completed p')
     in if mx = pin_height p then (False, db, ns, p')
        else let db' = (if tookEffect r1 then updateHeight (pin_name p) mx db else db) in
          if execError r1 then (True, db', ns, p')
          else let ns' = (if tookEffect r2 then insert (pin_name p, Itoa (uint mx)) ns else ns) in
            if execError r2 then (True, db', ns', p')
            else (False, db', ns', p'\<lparr>pin_completed := drop i (pin_completed p'), pin_height := mx\<rparr>))"

text \<open>
  A store maps names to pins, which are shared: a replaced pin may still be in use. The pins of all processes are in one list, and a
  store has indices into it.
\<close>

type_synonym pinStore = "string \<Rightarrow> nat option"

definition CreatePin :: "exec \<Rightarrow> string \<Rightarrow> uint64 \<Rightarrow> processors \<times> pin list \<times> pinStore \<Rightarrow> bool \<times> processors \<times> pin list \<times> pinStore" where
  "CreatePin r name height = (\<lambda>(db, pins, s).
     if s name \<noteq> None then (False, db, pins, s)
     else let db' = (if tookEffect r \<and> db name = None then db(name \<mapsto> height) else db) in
       if execError r then (True, db', pins, s)
       else (False, db', pins @ [newPin name height], s(name \<mapsto> length pins)))"

definition LoadAll :: "(string \<times> uint64) list \<Rightarrow> pin list \<times> pinStore \<Rightarrow> pin list \<times> pinStore" where
  "LoadAll rows = fold (\<lambda>(name, height) (pins, s). (pins @ [newPin name height], s(name \<mapsto> length pins))) rows"

definition ParseUint64 :: "string \<Rightarrow> uint64 option" where
  "ParseUint64 s = map_option word_of_int (parseDigits 10 (2 ^ 64) s)"

text \<open>A notification for a listener whose variable \<open>p\<close> is \<open>None\<close> until the first one. A payload that is no number ends the listener.\<close>

definition onNotify :: "string \<Rightarrow> string \<Rightarrow> nat option \<times> pin list \<times> pinStore \<Rightarrow> (nat option \<times> pin list \<times> pinStore) option" where
  "onNotify name extra = (\<lambda>(p, pins, s).
     case ParseUint64 extra of None \<Rightarrow> None
     | Some height \<Rightarrow>
       let (r, pins, s) = (case p of Some r \<Rightarrow> (r, pins, s)
             | None \<Rightarrow> (case s name of Some r \<Rightarrow> (r, pins, s)
                 | None \<Rightarrow> (length pins, pins @ [newPin name height], s(name \<mapsto> length pins))));
           q = pins ! r
       in Some (Some r, if pin_height q < height then pins[r := q\<lparr>pin_height := height\<rparr>] else pins, s))"

section \<open>Processes\<close>

text \<open>A worker gets its block, runs the callback on it, which may fail and is tried again, and completes.\<close>

datatype phase = Fetching | Fetched LegacyBlock | Called LegacyBlock

record worker =
  wk_pin :: nat
  wk_height :: uint64
  wk_phase :: phase

text \<open>A loop of \<open>ProcessBlocks\<close>: its pin, the height where it started and the height of the last block it started a worker for.\<close>

record loop =
  lp_pin :: nat
  lp_from :: uint64
  lp_height :: uint64

text \<open>A listener has its channel and its variable; a waiter the names it has waited for, those to come, the pin it waits for now, and the height.\<close>

record process =
  pr_pins :: "pin list"
  pr_store :: pinStore
  pr_loops :: "loop list"
  pr_workers :: "worker list"
  pr_listeners :: "(string \<times> nat option) list"
  pr_waiters :: "(string list \<times> string list \<times> nat option \<times> uint64) list"

definition newProcess :: process where
  "newProcess = \<lparr>pr_pins = [], pr_store = Map.empty, pr_loops = [], pr_workers = [], pr_listeners = [], pr_waiters = []\<rparr>"

text \<open>
  What processes share, and two records of the history: the heights at which \<open>CreatePin\<close> inserted a row into the table or made a pin, up to
  which no processing is asked for, and the blocks on which the callback of a name succeeded.
\<close>

record shared =
  sh_db :: processors
  sh_notes :: notifications
  sh_chain :: uint64
  sh_created :: "(string \<times> uint64) set"
  sh_processed :: "(string \<times> uint64) set"

abbreviation blockHeight :: "LegacyBlock \<Rightarrow> uint64" where
  "blockHeight b \<equiv> lh_Height (lb_BlockHeader b)"

abbreviation workersOf :: "nat \<Rightarrow> process \<Rightarrow> worker list" where
  "workersOf r p \<equiv> filter (\<lambda>w. wk_pin w = r) (pr_workers p)"

inductive pinStep :: "(uint64 \<Rightarrow> LegacyBlock option) \<Rightarrow> shared \<times> process \<Rightarrow> shared \<times> process \<Rightarrow> bool" for blockAt where
  create: "CreatePin r name h (sh_db g, pr_pins p, pr_store p) = (e, db, pins, s) \<Longrightarrow>
    pinStep blockAt (g, p) (g\<lparr>sh_db := db, sh_created := (if db \<noteq> sh_db g \<or> pins \<noteq> pr_pins p then insert (name, h) (sh_created g) else sh_created g)\<rparr>,
      p\<lparr>pr_pins := pins, pr_store := s\<rparr>)"
| load: "\<forall>(name, h) \<in> set rows. sh_db g name = Some h \<Longrightarrow> LoadAll rows (pr_pins p, pr_store p) = (pins, s) \<Longrightarrow>
    pinStep blockAt (g, p) (g, p\<lparr>pr_pins := pins, pr_store := s\<rparr>)"
| listen: "pinStep blockAt (g, p) (g, p\<lparr>pr_listeners := pr_listeners p @ [(name, None)]\<rparr>)"
| notify: "pr_listeners p = xs @ (name, v) # ys \<Longrightarrow> (name, extra) \<in> sh_notes g \<Longrightarrow>
    onNotify name extra (v, pr_pins p, pr_store p) = Some (v', pins, s) \<Longrightarrow>
    pinStep blockAt (g, p) (g, p\<lparr>pr_pins := pins, pr_store := s, pr_listeners := xs @ (name, v') # ys\<rparr>)"
| notify_end: "pr_listeners p = xs @ (name, v) # ys \<Longrightarrow> (name, extra) \<in> sh_notes g \<Longrightarrow>
    onNotify name extra (v, pr_pins p, pr_store p) = None \<Longrightarrow> pinStep blockAt (g, p) (g, p\<lparr>pr_listeners := xs @ ys\<rparr>)"
| process: "pr_store p name = Some r \<Longrightarrow> h = pin_height (pr_pins p ! r) \<Longrightarrow>
    pinStep blockAt (g, p) (g, p\<lparr>pr_loops := pr_loops p @ [\<lparr>lp_pin = r, lp_from = h, lp_height = h\<rparr>]\<rparr>)"
| deposed: "pr_loops p = xs @ l # ys \<Longrightarrow> pinStep blockAt (g, p) (g, p\<lparr>pr_loops := xs @ ys\<rparr>)"
| start: "pr_loops p = xs @ l # ys \<Longrightarrow> lp_height l + 1 \<le> sh_chain g \<Longrightarrow> length (workersOf (lp_pin l) p) < processorWorkers \<Longrightarrow>
    pinStep blockAt (g, p) (g, p\<lparr>pr_loops := xs @ l\<lparr>lp_height := lp_height l + 1\<rparr> # ys,
      pr_workers := pr_workers p @ [\<lparr>wk_pin = lp_pin l, wk_height = lp_height l + 1, wk_phase = Fetching\<rparr>]\<rparr>)"
| fetch: "pr_workers p = xs @ w # ys \<Longrightarrow> wk_phase w = Fetching \<Longrightarrow> blockAt (wk_height w) = Some b \<Longrightarrow>
    pinStep blockAt (g, p) (g, p\<lparr>pr_workers := xs @ w\<lparr>wk_phase := Fetched b\<rparr> # ys\<rparr>)"
| callback: "pr_workers p = xs @ w # ys \<Longrightarrow> wk_phase w = Fetched b \<Longrightarrow>
    pinStep blockAt (g, p) (g\<lparr>sh_processed := insert (pin_name (pr_pins p ! wk_pin w), blockHeight b) (sh_processed g)\<rparr>,
      p\<lparr>pr_workers := xs @ w\<lparr>wk_phase := Called b\<rparr> # ys\<rparr>)"
| callback_error: "pr_workers p = xs @ w # ys \<Longrightarrow> wk_phase w = Fetched b \<Longrightarrow>
    pinStep blockAt (g, p) (g, p\<lparr>pr_workers := xs @ w\<lparr>wk_phase := Fetching\<rparr> # ys\<rparr>)"
| finish: "pr_workers p = xs @ w # ys \<Longrightarrow> wk_phase w = Called b \<Longrightarrow>
    pinComplete r1 r2 (blockHeight b) (sh_db g, sh_notes g, pr_pins p ! wk_pin w) = (e, db, ns, q) \<Longrightarrow>
    pinStep blockAt (g, p) (g\<lparr>sh_db := db, sh_notes := ns\<rparr>, p\<lparr>pr_pins := (pr_pins p)[wk_pin w := q], pr_workers := xs @ ys\<rparr>)"
| wait: "pinStep blockAt (g, p) (g, p\<lparr>pr_waiters := pr_waiters p @ [([], names, None, h)]\<rparr>)"
| waitFor: "pr_waiters p = xs @ (dn, name # names, None, h) # ys \<Longrightarrow> pr_store p name = Some r \<Longrightarrow>
    pinStep blockAt (g, p) (g, p\<lparr>pr_waiters := xs @ (dn, name # names, Some r, h) # ys\<rparr>)"
| waited: "pr_waiters p = xs @ (dn, name # names, Some r, h) # ys \<Longrightarrow> \<not> pin_height (pr_pins p ! r) < h \<Longrightarrow>
    pinStep blockAt (g, p) (g, p\<lparr>pr_waiters := xs @ (dn @ [name], names, None, h) # ys\<rparr>)"
| chain: "sh_chain g \<le> h \<Longrightarrow> pinStep blockAt (g, p) (g\<lparr>sh_chain := h\<rparr>, p)"
| crash: "pinStep blockAt (g, p) (g, newProcess)"

text \<open>Any number of processes. At first the rows of the table count as created.\<close>

inductive pinReach :: "(uint64 \<Rightarrow> LegacyBlock option) \<Rightarrow> shared \<Rightarrow> (nat \<Rightarrow> process) \<Rightarrow> bool" for blockAt where
  init: "sh_notes g = {} \<Longrightarrow> sh_created g = {(n, h). sh_db g n = Some h} \<Longrightarrow> pinReach blockAt g (\<lambda>i. newProcess)"
| step: "pinReach blockAt g ps \<Longrightarrow> pinStep blockAt (g, ps i) (g', p') \<Longrightarrow> pinReach blockAt g' (ps(i := p'))"

definition needless :: "shared \<Rightarrow> string \<Rightarrow> uint64 \<Rightarrow> bool" where
  "needless g name h \<longleftrightarrow> (\<exists>h0. (name, h0) \<in> sh_created g \<and> h \<le> h0)"

text \<open>All blocks up to a height were processed, except those at or below the height of a row or pin that was created.\<close>

definition processedTo :: "shared \<Rightarrow> string \<Rightarrow> uint64 \<Rightarrow> bool" where
  "processedTo g name height \<longleftrightarrow> (\<forall>h. h \<le> height \<longrightarrow> (name, h) \<in> sh_processed g \<or> needless g name h)"

section \<open>Completing\<close>

lemma successor_height:
  fixes c mx :: uint64
  assumes "mx < c" "c \<le> mx + 1"
  shows "c = mx + 1" "h \<le> c \<Longrightarrow> h \<le> mx \<or> h = c"
proof -
  show "c = mx + 1" using assms inc_le [of mx c] by simp
  then show "h \<le> c \<Longrightarrow> h \<le> mx \<or> h = c" using inc_le [of mx h] by (metis linorder_not_less order_antisym)
qed

lemma processedTo_mono: "processedTo g n h \<Longrightarrow> h' \<le> h \<Longrightarrow> processedTo g n h'"
  by (auto simp: processedTo_def)

lemma processedTo_next: "processedTo g n mx \<Longrightarrow> mx < c \<Longrightarrow> c \<le> mx + 1 \<Longrightarrow> (n, c) \<in> sh_processed g \<Longrightarrow> processedTo g n c"
  unfolding processedTo_def using successor_height(2) [of mx c] by blast

lemma advance_processed:
  "processedTo g n mx \<Longrightarrow> \<forall>c \<in> set cs. (n, c) \<in> sh_processed g \<Longrightarrow> processedTo g n (fst (advance mx i cs))"
  by (induction mx i cs rule: advance.induct) (auto simp: not_le not_less intro: processedTo_next)

lemma advance_facts:
  "sorted cs \<Longrightarrow> advance mx i cs = (m', k) \<Longrightarrow> mx \<le> m' \<and> i \<le> k \<and> m' + 1 \<notin> set (drop (k - i) cs) \<and> set cs \<subseteq> {..m'} \<union> set (drop (k - i) cs)"
proof (induction mx i cs rule: advance.induct)
  case (2 mx i c cs)
  show ?case
  proof (cases "c \<le> mx \<or> \<not> c > mx + 1")
    case True
    define mx' where "mx' = (if c \<le> mx then mx else c)"
    have "advance mx' (Suc i) cs = (m', k)" "mx \<le> mx'" "c \<le> mx'" using 2(4) True by (auto simp: mx'_def)
    moreover from this have "mx' \<le> m' \<and> Suc i \<le> k \<and> m' + 1 \<notin> set (drop (k - Suc i) cs) \<and> set cs \<subseteq> {..m'} \<union> set (drop (k - Suc i) cs)"
      using 2(1,2,3) True by (auto simp: mx'_def split: if_splits)
    moreover from this have "k - i = Suc (k - Suc i)" by arith
    ultimately show ?thesis by (metis (no_types, lifting) Suc_leD Un_iff atMost_iff drop_Suc_Cons insert_subset list.simps(15) order_trans)
  next
    case False
    with 2 show ?thesis by (force simp: not_le)
  qed
qed simp

lemma processedTo_grow:
  assumes "processedTo g n h" "sh_processed g \<subseteq> sh_processed g'" "sh_created g \<subseteq> sh_created g'"
  shows "processedTo g' n h"
  using assms unfolding processedTo_def needless_def by blast

text \<open>The pins are right about what was processed; the heights in the list of a pin are processed too.\<close>

definition pinOK :: "shared \<Rightarrow> pin \<Rightarrow> bool" where
  "pinOK g p \<longleftrightarrow> processedTo g (pin_name p) (pin_height p) \<and> (\<forall>c \<in> set (pin_completed p). (pin_name p, c) \<in> sh_processed g)"

definition sharedOK :: "shared \<Rightarrow> bool" where
  "sharedOK g \<longleftrightarrow> (\<forall>n h. sh_db g n = Some h \<longrightarrow> processedTo g n h) \<and>
     (\<forall>(n, s) \<in> sh_notes g. \<forall>h. ParseUint64 s = Some h \<longrightarrow> processedTo g n h)"

lemma ParseUint64_Itoa: "ParseUint64 (Itoa (uint (h :: uint64))) = Some h"
proof -
  have "Itoa (uint h) = formatDigits (uint h)" by (simp add: Itoa_def not_less)
  moreover have "numeralValue 10 (formatDigits (uint h)) = uint h" by simp
  moreover have "uint h < 2 ^ 64" using uint_lt2p [of h] by simp
  moreover have "\<forall>c \<in> set (formatDigits (uint h)). digitVal (ord c) < 10"
    using formatDigits_digits [of "uint h"] digitVal_small by (meson uint_ge_0)
  ultimately show ?thesis by (auto simp: ParseUint64_def parseDigits_def)
qed

lemma processedTo_cong [simp]: "processedTo (g\<lparr>sh_db := a\<rparr>) n h = processedTo g n h"
  "processedTo (g\<lparr>sh_notes := b\<rparr>) n h = processedTo g n h" "processedTo (g\<lparr>sh_chain := c\<rparr>) n h = processedTo g n h"
  by (simp_all add: processedTo_def needless_def)

lemma pinComplete_ok:
  assumes "sharedOK g" "pinOK g p" "(pin_name p, h) \<in> sh_processed g" "pinComplete r1 r2 h (sh_db g, sh_notes g, p) = (e, db, ns, q)"
  shows "sharedOK (g\<lparr>sh_db := db, sh_notes := ns\<rparr>)" "pinOK g q" "pin_name q = pin_name p"
proof -
  let ?cs = "sort (pin_completed p @ [h])"
  obtain mx k where adv: "advance (pin_height p) 0 ?cs = (mx, k)" by force
  have cs: "\<forall>c \<in> set ?cs. (pin_name p, c) \<in> sh_processed g" using assms(2,3) by (auto simp: pinOK_def)
  have mx: "processedTo g (pin_name p) mx" using advance_processed [OF _ cs, of "pin_height p" 0] adv assms(2) by (simp add: pinOK_def)
  have db: "db = sh_db g \<or> db = updateHeight (pin_name p) mx (sh_db g)"
    and ns: "ns = sh_notes g \<or> ns = insert (pin_name p, Itoa (uint mx)) (sh_notes g)"
    and q: "q = p\<lparr>pin_completed := ?cs\<rparr> \<or> q = p\<lparr>pin_completed := drop k ?cs, pin_height := mx\<rparr>"
    using assms(4) adv by (auto simp: pinComplete_def Let_def split: if_splits)
  show "sharedOK (g\<lparr>sh_db := db, sh_notes := ns\<rparr>)"
    using assms(1) db ns mx by (auto simp: sharedOK_def updateHeight_def ParseUint64_Itoa split: option.splits if_splits)
  show "pinOK g q" using q assms(2) cs mx set_drop_subset [of k ?cs] by (auto simp: pinOK_def)
  show "pin_name q = pin_name p" using q by auto
qed

section \<open>Every block up to the height of a pin is processed\<close>

definition refOK :: "process \<Rightarrow> string \<Rightarrow> nat \<Rightarrow> bool" where
  "refOK p name r \<longleftrightarrow> r < length (pr_pins p) \<and> pin_name (pr_pins p ! r) = name"

definition workerOK :: "shared \<Rightarrow> pin list \<Rightarrow> worker \<Rightarrow> bool" where
  "workerOK g pins w \<longleftrightarrow> wk_pin w < length pins \<and>
     (case wk_phase w of Called b \<Rightarrow> (pin_name (pins ! wk_pin w), blockHeight b) \<in> sh_processed g | _ \<Rightarrow> True)"

definition waiterOK :: "shared \<Rightarrow> process \<Rightarrow> string list \<times> string list \<times> nat option \<times> uint64 \<Rightarrow> bool" where
  "waiterOK g p = (\<lambda>(dn, todo, v, h). (\<forall>n \<in> set dn. processedTo g n h) \<and> (\<forall>r. v = Some r \<longrightarrow> todo \<noteq> [] \<and> refOK p (hd todo) r))"

definition processOK :: "shared \<Rightarrow> process \<Rightarrow> bool" where
  "processOK g p \<longleftrightarrow> (\<forall>q \<in> set (pr_pins p). pinOK g q) \<and> (\<forall>n r. pr_store p n = Some r \<longrightarrow> refOK p n r) \<and>
     (\<forall>(n, v) \<in> set (pr_listeners p). \<forall>r. v = Some r \<longrightarrow> refOK p n r) \<and> (\<forall>l \<in> set (pr_loops p). lp_pin l < length (pr_pins p)) \<and>
     (\<forall>w \<in> set (pr_workers p). workerOK g (pr_pins p) w) \<and> (\<forall>w \<in> set (pr_waiters p). waiterOK g p w) \<and>
     (\<forall>r. length (workersOf r p) \<le> processorWorkers)"

text \<open>Pins are added, and change without changing their names.\<close>

definition keepsPins :: "pin list \<Rightarrow> pin list \<Rightarrow> bool" where
  "keepsPins pins pins' \<longleftrightarrow> length pins \<le> length pins' \<and> (\<forall>r < length pins. pin_name (pins' ! r) = pin_name (pins ! r))"

lemma refOK_keeps: "refOK p n r \<Longrightarrow> keepsPins (pr_pins p) (pr_pins p') \<Longrightarrow> refOK p' n r"
  by (auto simp: refOK_def keepsPins_def)

lemma keepsPins_simps [simp]: "keepsPins pins pins" "keepsPins pins (pins @ qs)"
  by (auto simp: keepsPins_def nth_append)

lemma keepsPins_trans: "keepsPins a b \<Longrightarrow> keepsPins b c \<Longrightarrow> keepsPins a c"
  unfolding keepsPins_def by (metis dual_order.trans order_less_le_trans)

lemma keepsPins_update: "r < length pins \<Longrightarrow> pin_name q = pin_name (pins ! r) \<Longrightarrow> keepsPins pins (pins[r := q])"
  by (auto simp: keepsPins_def nth_list_update)

lemma processOK_keeps:
  assumes "processOK g p" and "keepsPins (pr_pins p) (pr_pins p')" and "\<forall>q \<in> set (pr_pins p'). pinOK g' q"
    and "\<forall>n r. pr_store p' n = Some r \<longrightarrow> refOK p' n r" and "\<forall>n r. (n, Some r) \<in> set (pr_listeners p') \<longrightarrow> refOK p' n r"
    and "sh_processed g \<subseteq> sh_processed g'" "sh_created g \<subseteq> sh_created g'"
    and "pr_loops p' = pr_loops p" "pr_workers p' = pr_workers p" "pr_waiters p' = pr_waiters p"
  shows "processOK g' p'"
proof -
  have w: "workerOK g' (pr_pins p') w" if "w \<in> set (pr_workers p)" for w
    using that assms(1,2,6) unfolding processOK_def workerOK_def keepsPins_def
    by (auto split: phase.splits)
  have v: "waiterOK g' p' w" if "w \<in> set (pr_waiters p)" for w
    using that assms(1,2,6,7) refOK_keeps [of p _ _ p'] processedTo_grow [of g _ _ g']
    unfolding processOK_def waiterOK_def by fastforce
  have l: "\<forall>l \<in> set (pr_loops p). lp_pin l < length (pr_pins p')"
    using assms(1,2) unfolding processOK_def keepsPins_def by fastforce
  show ?thesis using assms w v l unfolding processOK_def by fastforce
qed

definition storeOK :: "shared \<Rightarrow> pin list \<Rightarrow> pinStore \<Rightarrow> bool" where
  "storeOK g pins s \<longleftrightarrow> (\<forall>q \<in> set pins. pinOK g q) \<and> (\<forall>n r. s n = Some r \<longrightarrow> r < length pins \<and> pin_name (pins ! r) = n)"

lemma newPin_simps [simp]: "pin_name (newPin n h) = n" "pin_height (newPin n h) = h" "pin_completed (newPin n h) = []"
  by (simp_all add: newPin_def)

lemma storeOK_new: "storeOK g pins s \<Longrightarrow> processedTo g n h \<Longrightarrow> storeOK g (pins @ [newPin n h]) (s(n \<mapsto> length pins))"
  unfolding storeOK_def pinOK_def by (auto simp: nth_append less_Suc_eq split: if_splits)

lemma LoadAll_ok:
  "storeOK g pins s \<Longrightarrow> \<forall>(n, h) \<in> set rows. processedTo g n h \<Longrightarrow> LoadAll rows (pins, s) = (pins', s') \<Longrightarrow>
    storeOK g pins' s' \<and> keepsPins pins pins'"
proof (induction rows arbitrary: pins s)
  case (Cons row rows)
  obtain n h where row: "row = (n, h)" by force
  have "storeOK g pins' s' \<and> keepsPins (pins @ [newPin n h]) pins'"
  proof (rule Cons.IH)
    show "storeOK g (pins @ [newPin n h]) (s(n \<mapsto> length pins))" using Cons.prems row by (intro storeOK_new) simp_all
    show "\<forall>(n, h) \<in> set rows. processedTo g n h" using Cons.prems by simp
    show "LoadAll rows (pins @ [newPin n h], s(n \<mapsto> length pins)) = (pins', s')" using Cons.prems row by (simp add: LoadAll_def)
  qed
  then show ?case using keepsPins_trans [of pins "pins @ [newPin n h]" pins'] by simp
qed (simp add: LoadAll_def)

lemma processedTo_created: "(n, h) \<in> sh_created g \<Longrightarrow> processedTo g n h"
  by (auto simp: processedTo_def needless_def)

lemma CreatePin_ok:
  assumes "storeOK g pins s" and "sharedOK g" and "CreatePin r n h (sh_db g, pins, s) = (e, db, pins', s')"
    and "g' = g\<lparr>sh_db := db, sh_created := (if db \<noteq> sh_db g \<or> pins' \<noteq> pins then insert (n, h) (sh_created g) else sh_created g)\<rparr>"
  shows "storeOK g' pins' s' \<and> keepsPins pins pins' \<and> sharedOK g'"
proof -
  have grow: "processedTo g m k \<Longrightarrow> processedTo g' m k" for m k using assms(4) by (elim processedTo_grow) auto
  have old: "storeOK g' pins s" using assms(1,4) grow by (auto simp: storeOK_def pinOK_def)
  have new: "db \<noteq> sh_db g \<or> pins' \<noteq> pins \<Longrightarrow> processedTo g' n h" using assms(4) by (simp add: processedTo_created)
  have db: "db = sh_db g \<or> db \<noteq> sh_db g \<and> db = (sh_db g)(n \<mapsto> h)" using assms(3) by (auto simp: CreatePin_def Let_def split: if_splits)
  have "sh_notes g' = sh_notes g" "sh_db g' = db" using assms(4) by simp_all
  then have "sharedOK g'" using assms(2) grow new db unfolding sharedOK_def by (auto simp: fun_upd_apply split: if_splits)
  moreover have "storeOK g' pins' s' \<and> keepsPins pins pins'"
    using assms(3) old new storeOK_new [OF old, of n h] by (auto simp: CreatePin_def Let_def split: if_splits)
  ultimately show ?thesis by simp
qed

lemma pinOK_raise: "pinOK g q \<Longrightarrow> processedTo g (pin_name q) h \<Longrightarrow> pinOK g (q\<lparr>pin_height := h\<rparr>)"
  by (simp add: pinOK_def)

lemma raise_ok:
  assumes "storeOK g pins s" "r < length pins" "processedTo g (pin_name (pins ! r)) h"
    "pins' = (if pin_height (pins ! r) < h then pins[r := (pins ! r)\<lparr>pin_height := h\<rparr>] else pins)"
  shows "storeOK g pins' s \<and> keepsPins pins pins'"
  using assms unfolding storeOK_def
  by (auto simp: nth_list_update keepsPins_update pinOK_raise dest!: set_update_subset_insert [THEN subsetD])

lemma onNotify_ok:
  assumes "storeOK g pins s" and "\<forall>h. ParseUint64 extra = Some h \<longrightarrow> processedTo g n h"
    and "\<forall>r. v = Some r \<longrightarrow> r < length pins \<and> pin_name (pins ! r) = n" and "onNotify n extra (v, pins, s) = Some (v', pins', s')"
  shows "storeOK g pins' s' \<and> keepsPins pins pins' \<and> (\<forall>r. v' = Some r \<longrightarrow> r < length pins' \<and> pin_name (pins' ! r) = n)"
proof -
  obtain h where h: "ParseUint64 extra = Some h" "processedTo g n h" using assms(2,4) by (auto simp: onNotify_def split: option.splits)
  define pr where "pr = (case v of Some r \<Rightarrow> (r, pins, s)
             | None \<Rightarrow> (case s n of Some r \<Rightarrow> (r, pins, s)
                 | None \<Rightarrow> (length pins, pins @ [newPin n h], s(n \<mapsto> length pins))))"
  obtain r q t where pr: "pr = (r, q, t)" by (cases pr)
  have a: "storeOK g q t" "keepsPins pins q" "r < length q" "pin_name (q ! r) = n"
    using pr assms(1,3) storeOK_new [OF assms(1) h(2)] by (auto simp: pr_def storeOK_def split: option.splits)
  have "v' = Some r" "s' = t" and pins': "pins' = (if pin_height (q ! r) < h then q[r := (q ! r)\<lparr>pin_height := h\<rparr>] else q)"
    using assms(4) pr h(1) unfolding onNotify_def pr_def [symmetric] by (auto simp: Let_def pr_def split: option.splits)
  with a raise_ok [OF a(1,3) _ pins'] h(2) show ?thesis
    using keepsPins_trans [OF a(2), of pins'] by (auto simp: keepsPins_def)
qed

lemma processOK_store:
  assumes "processOK g p"
  shows "storeOK g (pr_pins p) (pr_store p)"
  using assms by (auto simp: processOK_def storeOK_def refOK_def)

text \<open>A change of the store and its pins.\<close>

lemma processOK_stored:
  assumes "processOK g p" "storeOK g' pins s" "keepsPins (pr_pins p) pins"
    "\<forall>n r. (n, Some r) \<in> set ls \<longrightarrow> r < length pins \<and> pin_name (pins ! r) = n"
    "sh_processed g \<subseteq> sh_processed g'" "sh_created g \<subseteq> sh_created g'"
  shows "processOK g' (p\<lparr>pr_pins := pins, pr_store := s, pr_listeners := ls\<rparr>)"
  using assms(2-6) by (intro processOK_keeps [OF assms(1)]) (auto simp: storeOK_def refOK_def)

lemma listeners_keep:
  assumes "processOK g p" "keepsPins (pr_pins p) pins"
  shows "\<forall>n r. (n, Some r) \<in> set (pr_listeners p) \<longrightarrow> r < length pins \<and> pin_name (pins ! r) = n"
  using assms unfolding processOK_def keepsPins_def refOK_def by fastforce

lemma pinOK_grow: "pinOK g q \<Longrightarrow> sh_processed g \<subseteq> sh_processed g' \<Longrightarrow> sh_created g \<subseteq> sh_created g' \<Longrightarrow> pinOK g' q"
  using processedTo_grow [of g _ _ g'] unfolding pinOK_def by blast

text \<open>A change of the workers.\<close>

lemma processOK_workers:
  assumes "processOK g p" and "\<forall>w \<in> set ws. workerOK g (pr_pins p) w" and "\<And>r. length (filter (\<lambda>w. wk_pin w = r) ws) \<le> processorWorkers"
  shows "processOK g (p\<lparr>pr_workers := ws\<rparr>)"
  using assms unfolding processOK_def waiterOK_def refOK_def by simp

lemma processOK_room: "processOK g p \<Longrightarrow> length (workersOf r p) \<le> processorWorkers"
  by (simp add: processOK_def)

lemma processOK_worker:
  assumes "processOK g p" and "pr_workers p = xs @ w # ys" and "wk_pin w' = wk_pin w" and "workerOK g (pr_pins p) w'"
  shows "processOK g (p\<lparr>pr_workers := xs @ w' # ys\<rparr>)"
proof (rule processOK_workers [OF assms(1)])
  show "length (filter (\<lambda>w. wk_pin w = r) (xs @ w' # ys)) \<le> processorWorkers" for r
    using processOK_room [OF assms(1), of r] by (cases "wk_pin w = r") (simp_all add: assms(2,3))
  show "\<forall>w \<in> set (xs @ w' # ys). workerOK g (pr_pins p) w" using assms(1,2,4) by (simp add: processOK_def)
qed

lemma processOK_done:
  assumes "processOK g p" and "pr_workers p = xs @ w # ys"
  shows "processOK g (p\<lparr>pr_workers := xs @ ys\<rparr>)"
proof (rule processOK_workers [OF assms(1)])
  show "length (filter (\<lambda>w. wk_pin w = r) (xs @ ys)) \<le> processorWorkers" for r
    using processOK_room [OF assms(1), of r] by (cases "wk_pin w = r") (simp_all add: assms(2))
  show "\<forall>w \<in> set (xs @ ys). workerOK g (pr_pins p) w" using assms by (simp add: processOK_def)
qed

lemma processOK_waiters: "processOK g p \<Longrightarrow> \<forall>w \<in> set ws. waiterOK g p w \<Longrightarrow> processOK g (p\<lparr>pr_waiters := ws\<rparr>)"
  unfolding processOK_def waiterOK_def refOK_def by simp

lemma processOK_loops: "processOK g p \<Longrightarrow> \<forall>l \<in> set ls. lp_pin l < length (pr_pins p) \<Longrightarrow> processOK g (p\<lparr>pr_loops := ls\<rparr>)"
  unfolding processOK_def waiterOK_def refOK_def by simp

lemma processOK_listeners:
  "processOK g p \<Longrightarrow> \<forall>(n, v) \<in> set ls. \<forall>r. v = Some r \<longrightarrow> refOK p n r \<Longrightarrow> processOK g (p\<lparr>pr_listeners := ls\<rparr>)"
  unfolding processOK_def waiterOK_def refOK_def by auto

lemma processOK_new: "processOK g newProcess"
  by (simp add: processOK_def newProcess_def)

lemma processOK_shared:
  assumes "processOK g p" "sh_processed g \<subseteq> sh_processed g'" "sh_created g \<subseteq> sh_created g'"
  shows "processOK g' p"
proof (rule processOK_keeps [OF assms(1) _ _ _ _ assms(2,3)])
  show "\<forall>q \<in> set (pr_pins p). pinOK g' q" using assms pinOK_grow [of g _ g'] by (auto simp: processOK_def)
qed (use assms(1) in \<open>auto simp: processOK_def\<close>)

lemma finish_ok:
  assumes "processOK g p" "sharedOK g" "pr_workers p = xs @ w # ys" "wk_phase w = Called b"
    "pinComplete r1 r2 (blockHeight b) (sh_db g, sh_notes g, pr_pins p ! wk_pin w) = (e, db, ns, q)"
  shows "sharedOK (g\<lparr>sh_db := db, sh_notes := ns\<rparr>)"
    and "processOK (g\<lparr>sh_db := db, sh_notes := ns\<rparr>) (p\<lparr>pr_pins := (pr_pins p)[wk_pin w := q], pr_workers := xs @ ys\<rparr>)"
proof -
  have r: "wk_pin w < length (pr_pins p)" and fin: "(pin_name (pr_pins p ! wk_pin w), blockHeight b) \<in> sh_processed g"
    using assms(1,3,4) by (auto simp: processOK_def workerOK_def)
  have pin: "pinOK g (pr_pins p ! wk_pin w)" using r assms(1) by (simp add: processOK_def)
  note q = pinComplete_ok [OF assms(2) pin fin assms(5)]
  then show "sharedOK (g\<lparr>sh_db := db, sh_notes := ns\<rparr>)" by simp
  have keep: "keepsPins (pr_pins p) ((pr_pins p)[wk_pin w := q])" using keepsPins_update [OF r] q(3) by simp
  have "processOK g (p\<lparr>pr_workers := xs @ ys, pr_pins := (pr_pins p)[wk_pin w := q]\<rparr>)"
  proof (rule processOK_keeps [OF processOK_done [OF assms(1,3)]])
    show "\<forall>x \<in> set (pr_pins (p\<lparr>pr_workers := xs @ ys, pr_pins := (pr_pins p)[wk_pin w := q]\<rparr>)). pinOK g x"
      using q(2) assms(1) set_update_subset_insert [of "pr_pins p" "wk_pin w" q] by (auto simp: processOK_def)
    let ?p' = "p\<lparr>pr_workers := xs @ ys, pr_pins := (pr_pins p)[wk_pin w := q]\<rparr>"
    show "\<forall>n r. pr_store ?p' n = Some r \<longrightarrow> refOK ?p' n r" "\<forall>n r. (n, Some r) \<in> set (pr_listeners ?p') \<longrightarrow> refOK ?p' n r"
      using assms(1) keep refOK_keeps [of p _ _ ?p'] by (auto simp: processOK_def)
  qed (use keep in auto)
  then have "processOK (g\<lparr>sh_db := db, sh_notes := ns\<rparr>) (p\<lparr>pr_workers := xs @ ys, pr_pins := (pr_pins p)[wk_pin w := q]\<rparr>)"
    by (elim processOK_shared) simp_all
  then show "processOK (g\<lparr>sh_db := db, sh_notes := ns\<rparr>) (p\<lparr>pr_pins := (pr_pins p)[wk_pin w := q], pr_workers := xs @ ys\<rparr>)" by (cases p) simp
qed

lemma stored_step:
  assumes "processOK g p" "storeOK g' pins s" "keepsPins (pr_pins p) pins" "sh_processed g \<subseteq> sh_processed g'" "sh_created g \<subseteq> sh_created g'"
  shows "processOK g' (p\<lparr>pr_pins := pins, pr_store := s\<rparr>)"
  using processOK_stored [OF assms(1-3) listeners_keep [OF assms(1,3)] assms(4,5)] by (cases p) simp

lemma load_ok:
  assumes "processOK g p" "sharedOK g" "\<forall>(name, h) \<in> set rows. sh_db g name = Some h" "LoadAll rows (pr_pins p, pr_store p) = (pins, s)"
  shows "processOK g (p\<lparr>pr_pins := pins, pr_store := s\<rparr>)"
proof -
  have "storeOK g pins s \<and> keepsPins (pr_pins p) pins"
    by (rule LoadAll_ok [OF processOK_store [OF assms(1)] _ assms(4)]) (use assms(2,3) in \<open>auto simp: sharedOK_def\<close>)
  then show ?thesis using stored_step [OF assms(1), of g] by simp
qed

lemma notify_ok:
  assumes "processOK g p" "sharedOK g" "pr_listeners p = xs @ (name, v) # ys" "(name, extra) \<in> sh_notes g"
    "onNotify name extra (v, pr_pins p, pr_store p) = Some (v', pins, s)"
  shows "processOK g (p\<lparr>pr_pins := pins, pr_store := s, pr_listeners := xs @ (name, v') # ys\<rparr>)"
proof -
  have payload: "\<forall>h. ParseUint64 extra = Some h \<longrightarrow> processedTo g name h" using assms(2,4) by (auto simp: sharedOK_def)
  have v: "\<forall>r. v = Some r \<longrightarrow> r < length (pr_pins p) \<and> pin_name (pr_pins p ! r) = name"
    using assms(1,3) by (auto simp: processOK_def refOK_def)
  note ok = onNotify_ok [OF processOK_store [OF assms(1)] payload v assms(5)]
  have "\<forall>n r. (n, Some r) \<in> set (xs @ (name, v') # ys) \<longrightarrow> r < length pins \<and> pin_name (pins ! r) = n"
    using ok listeners_keep [OF assms(1), of pins] assms(3) by auto
  then show ?thesis using ok processOK_stored [OF assms(1), of g pins s] by simp
qed

lemma start_ok:
  assumes "processOK g p" "pr_loops p = xs @ l # ys" "length (workersOf (lp_pin l) p) < processorWorkers"
  shows "processOK g (p\<lparr>pr_loops := xs @ l\<lparr>lp_height := lp_height l + 1\<rparr> # ys,
      pr_workers := pr_workers p @ [\<lparr>wk_pin = lp_pin l, wk_height = lp_height l + 1, wk_phase = Fetching\<rparr>]\<rparr>)"
proof (rule processOK_workers)
  have l: "\<forall>l \<in> set (pr_loops p). lp_pin l < length (pr_pins p)" using assms(1) by (simp add: processOK_def)
  then show "processOK g (p\<lparr>pr_loops := xs @ l\<lparr>lp_height := lp_height l + 1\<rparr> # ys\<rparr>)"
    using assms(2) by (intro processOK_loops [OF assms(1)]) auto
  show "length (filter (\<lambda>w. wk_pin w = r) (pr_workers p @ [\<lparr>wk_pin = lp_pin l, wk_height = lp_height l + 1, wk_phase = Fetching\<rparr>])) \<le> processorWorkers" for r
    using processOK_room [OF assms(1), of r] assms(3) by auto
qed (use assms in \<open>auto simp: processOK_def workerOK_def\<close>)

lemma callback_ok:
  assumes "processOK g p" "pr_workers p = xs @ w # ys" "wk_phase w = Fetched b"
    and g': "g' = g\<lparr>sh_processed := insert (pin_name (pr_pins p ! wk_pin w), blockHeight b) (sh_processed g)\<rparr>"
  shows "processOK g' (p\<lparr>pr_workers := xs @ w\<lparr>wk_phase := Called b\<rparr> # ys\<rparr>)"
proof -
  have "processOK g' p" using g' by (intro processOK_shared [OF assms(1)]) auto
  then show ?thesis by (rule processOK_worker [OF _ assms(2)]) (use assms in \<open>auto simp: processOK_def workerOK_def\<close>)
qed

lemma waited_ok:
  assumes "processOK g p" "pr_waiters p = xs @ (dn, name # names, Some r, h) # ys" "\<not> pin_height (pr_pins p ! r) < h"
  shows "processOK g (p\<lparr>pr_waiters := xs @ (dn @ [name], names, None, h) # ys\<rparr>)"
proof -
  have r: "refOK p name r" "\<forall>n \<in> set dn. processedTo g n h" using assms(1,2) by (auto simp: processOK_def waiterOK_def)
  moreover have "processedTo g name (pin_height (pr_pins p ! r))" using r(1) assms(1) by (auto simp: processOK_def refOK_def pinOK_def)
  ultimately have "processedTo g name h" using assms(3) processedTo_mono by (simp add: not_less)
  then show ?thesis using assms(1,2) r processOK_waiters [OF assms(1), of "xs @ (dn @ [name], names, None, h) # ys"]
    by (auto simp: processOK_def waiterOK_def)
qed

lemma pinStep_ok:
  assumes "pinStep blockAt (g, p) (g', p')" and "sharedOK g" and "processOK g p"
  shows "sharedOK g' \<and> processOK g' p' \<and> sh_processed g \<subseteq> sh_processed g' \<and> sh_created g \<subseteq> sh_created g'"
  using assms(1)
proof (cases rule: pinStep.cases)
  case (create r name h e db pins s)
  have "sh_processed g \<subseteq> sh_processed g' \<and> sh_created g \<subseteq> sh_created g'" using create(1) by auto
  then show ?thesis using CreatePin_ok [OF processOK_store [OF assms(3)] assms(2) create(3,1)] stored_step [OF assms(3), of g' pins s] create(2) by simp
next
  case (load rows pins s)
  then show ?thesis using load_ok [OF assms(3,2) load(3,4)] assms(2) by simp
next
  case (listen name)
  then show ?thesis using assms(2) processOK_listeners [OF assms(3), of "pr_listeners p @ [(name, None)]"] assms(3) by (auto simp: processOK_def)
next
  case (notify xs name v ys extra v' pins s)
  then show ?thesis using notify_ok [OF assms(3,2) notify(3,4,5)] assms(2) by simp
next
  case (notify_end xs name v ys extra)
  then show ?thesis using assms processOK_listeners [OF assms(3), of "xs @ ys"] by (auto simp: processOK_def)
next
  case (process name r h)
  then show ?thesis using assms processOK_loops [OF assms(3), of "pr_loops p @ [\<lparr>lp_pin = r, lp_from = h, lp_height = h\<rparr>]"]
    by (auto simp: processOK_def refOK_def)
next
  case (deposed xs l ys)
  then show ?thesis using assms processOK_loops [OF assms(3), of "xs @ ys"] by (auto simp: processOK_def)
next
  case (start xs l ys)
  then show ?thesis using start_ok [OF assms(3) start(3,5)] assms(2) by simp
next
  case (fetch xs w ys b)
  then show ?thesis using assms(2,3) processOK_worker [OF assms(3) fetch(3), of "w\<lparr>wk_phase := Fetched b\<rparr>"] by (auto simp: processOK_def workerOK_def)
next
  case (callback xs w ys b)
  have "sharedOK g'" using assms(2) callback(1) processedTo_grow [of g _ _ g'] by (fastforce simp: sharedOK_def)
  then show ?thesis using callback_ok [OF assms(3) callback(3,4,1)] callback(1,2) by auto
next
  case (callback_error xs w ys b)
  then show ?thesis using assms(2,3) processOK_worker [OF assms(3) callback_error(3), of "w\<lparr>wk_phase := Fetching\<rparr>"] by (auto simp: processOK_def workerOK_def)
next
  case (finish xs w ys b r1 r2 e db ns q)
  then show ?thesis using finish_ok [OF assms(3,2) finish(3,4,5)] by simp
next
  case (wait names h)
  then show ?thesis using assms(2,3) processOK_waiters [OF assms(3), of "pr_waiters p @ [([], names, None, h)]"] by (auto simp: processOK_def waiterOK_def)
next
  case (waitFor xs dn name names h ys r)
  then show ?thesis using assms(2,3) processOK_waiters [OF assms(3), of "xs @ (dn, name # names, Some r, h) # ys"]
    by (auto simp: processOK_def waiterOK_def)
next
  case (waited xs dn name names r h ys)
  then show ?thesis using waited_ok [OF assms(3) waited(3,4)] assms(2) by simp
next
  case (chain h)
  then show ?thesis using assms(2) processOK_shared [OF assms(3), of g'] by (auto simp: sharedOK_def)
next
  case crash
  then show ?thesis using assms(2) processOK_new by simp
qed

lemma pinReach_ok: "pinReach blockAt g ps \<Longrightarrow> sharedOK g \<and> (\<forall>i. processOK g (ps i))"
proof (induction rule: pinReach.induct)
  case (init g)
  then show ?case by (auto simp: sharedOK_def processOK_new processedTo_created)
next
  case (step g ps i g' p')
  then show ?case using pinStep_ok [OF step(2)] processOK_shared [of g _ g'] by (metis fun_upd_apply)
qed

section \<open>Nothing that was processed is lost\<close>

text \<open>
  Of every loop: each block for which it started a worker is below the height of the pin, in the list of the pin, or its worker runs.
\<close>

definition loopOK :: "process \<Rightarrow> loop \<Rightarrow> bool" where
  "loopOK p l \<longleftrightarrow> (let q = pr_pins p ! lp_pin l in lp_from l \<le> pin_height q \<and>
     (\<forall>h. lp_from l < h \<and> h \<le> lp_height l \<longrightarrow> h \<le> pin_height q \<or> h \<in> set (pin_completed q) \<or>
       (\<exists>w \<in> set (pr_workers p). wk_pin w = lp_pin l \<and> wk_height w = h)))"

definition workerKnows :: "worker \<Rightarrow> bool" where
  "workerKnows w \<longleftrightarrow> (case wk_phase w of Fetching \<Rightarrow> True | Fetched b \<Rightarrow> blockHeight b = wk_height w | Called b \<Rightarrow> blockHeight b = wk_height w)"

definition pinGrows :: "pin \<Rightarrow> pin \<Rightarrow> bool" where
  "pinGrows q q' \<longleftrightarrow> pin_height q \<le> pin_height q' \<and> set (pin_completed q) \<subseteq> {..pin_height q'} \<union> set (pin_completed q')"

definition pinsGrow :: "pin list \<Rightarrow> pin list \<Rightarrow> bool" where
  "pinsGrow pins pins' \<longleftrightarrow> length pins \<le> length pins' \<and> (\<forall>r < length pins. pinGrows (pins ! r) (pins' ! r))"

definition accounted :: "process \<Rightarrow> bool" where
  "accounted p \<longleftrightarrow> (\<forall>l \<in> set (pr_loops p). loopOK p l) \<and> (\<forall>w \<in> set (pr_workers p). workerKnows w)"

lemma loopOK_grow:
  assumes "loopOK p l" "lp_pin l < length (pr_pins p)" "pinsGrow (pr_pins p) (pr_pins p')"
    and "\<forall>w \<in> set (pr_workers p). wk_pin w = lp_pin l \<longrightarrow> wk_height w \<le> pin_height (pr_pins p' ! lp_pin l) \<or>
      wk_height w \<in> set (pin_completed (pr_pins p' ! lp_pin l)) \<or> (\<exists>w' \<in> set (pr_workers p'). wk_pin w' = wk_pin w \<and> wk_height w' = wk_height w)"
  shows "loopOK p' l"
proof -
  have "pinGrows (pr_pins p ! lp_pin l) (pr_pins p' ! lp_pin l)" using assms(2,3) by (simp add: pinsGrow_def)
  with assms(1,4) show ?thesis unfolding loopOK_def Let_def pinGrows_def
    by (auto intro: order_trans)
qed

lemma pinsGrow_simps [simp]: "pinsGrow pins pins" "pinsGrow pins (pins @ qs)"
  by (auto simp: pinsGrow_def pinGrows_def nth_append)

lemma pinsGrow_trans: "pinsGrow a b \<Longrightarrow> pinsGrow b c \<Longrightarrow> pinsGrow a c"
  unfolding pinsGrow_def pinGrows_def
  by (auto intro: order_trans) (smt (verit, best) Un_iff atMost_iff order_less_le_trans order_trans subset_iff)

lemma pinComplete_grows:
  assumes "pinComplete r1 r2 h (db, ns, q) = (e, db', ns', q')"
  shows "pinGrows q q'" "h \<le> pin_height q' \<or> h \<in> set (pin_completed q')" "\<not> e \<Longrightarrow> pin_height q' + 1 \<notin> set (pin_completed q') \<or> pin_height q' + 1 \<le> pin_height q'"
proof -
  let ?cs = "sort (pin_completed q @ [h])"
  obtain mx k where adv: "advance (pin_height q) 0 ?cs = (mx, k)" by force
  note facts = advance_facts [OF sorted_sort adv]
  have q': "q' = q\<lparr>pin_completed := ?cs\<rparr> \<and> (e \<or> mx = pin_height q) \<or> q' = q\<lparr>pin_completed := drop k ?cs, pin_height := mx\<rparr>"
    using assms adv by (auto simp: pinComplete_def Let_def split: if_splits)
  show "pinGrows q q'" "h \<le> pin_height q' \<or> h \<in> set (pin_completed q')" using q' facts by (auto simp: pinGrows_def)
  have "mx + 1 \<notin> set ?cs \<or> mx + 1 \<le> mx" using facts by auto
  then show "\<not> e \<Longrightarrow> pin_height q' + 1 \<notin> set (pin_completed q') \<or> pin_height q' + 1 \<le> pin_height q'" using q' facts by auto
qed

lemma accounted_grow:
  assumes "accounted p" "processOK g p" "pinsGrow (pr_pins p) (pr_pins p')" "pr_workers p' = pr_workers p"
    and "\<forall>l \<in> set (pr_loops p'). l \<in> set (pr_loops p) \<or> loopOK p' l"
  shows "accounted p'"
  using assms loopOK_grow [of p _ p'] unfolding accounted_def processOK_def by fastforce

lemma pinsGrow_update: "pinGrows (pins ! r) q \<Longrightarrow> pinsGrow pins (pins[r := q])"
  by (cases "r < length pins") (auto simp: pinsGrow_def pinGrows_def nth_list_update)

lemma onNotify_grows: "onNotify n extra (v, pins, s) = Some (v', pins', s') \<Longrightarrow> pinsGrow pins pins'"
  unfolding onNotify_def Let_def
  by (auto simp: pinGrows_def less_imp_le nth_append intro!: pinsGrow_update pinsGrow_trans [OF pinsGrow_simps(2) pinsGrow_update]
      split: option.splits if_splits)

lemma LoadAll_grows: "LoadAll rows (pins, s) = (pins', s') \<Longrightarrow> pinsGrow pins pins'"
proof (induction rows arbitrary: pins s)
  case (Cons row rows)
  then show ?case using pinsGrow_trans [OF pinsGrow_simps(2)] by (cases row) (simp add: LoadAll_def, blast)
qed (simp add: LoadAll_def)

lemma accounted_loop: "accounted p \<Longrightarrow> processOK g p \<Longrightarrow> l \<in> set (pr_loops p) \<Longrightarrow> loopOK p l \<and> lp_pin l < length (pr_pins p)"
  by (simp add: accounted_def processOK_def)

lemma accounted_worker:
  assumes "accounted p" "processOK g p" "pr_workers p = xs @ w # ys" "wk_pin w' = wk_pin w" "wk_height w' = wk_height w" "workerKnows w'"
  shows "accounted (p\<lparr>pr_workers := xs @ w' # ys\<rparr>)"
proof -
  have "loopOK (p\<lparr>pr_workers := xs @ w' # ys\<rparr>) l" if "l \<in> set (pr_loops p)" for l
    by (rule loopOK_grow [of p l]) (use accounted_loop [OF assms(1,2) that] assms(4,5) in \<open>(auto simp: assms(3))\<close>)
  then show ?thesis using assms(1,3,6) by (simp add: accounted_def)
qed

lemma accounted_finish:
  assumes "accounted p" "processOK g p" "pr_workers p = xs @ w # ys" "wk_phase w = Called b"
    "pinComplete r1 r2 (blockHeight b) (db, ns, pr_pins p ! wk_pin w) = (e, db', ns', q)"
  shows "accounted (p\<lparr>pr_pins := (pr_pins p)[wk_pin w := q], pr_workers := xs @ ys\<rparr>)"
proof -
  let ?p' = "p\<lparr>pr_pins := (pr_pins p)[wk_pin w := q], pr_workers := xs @ ys\<rparr>"
  note g = pinComplete_grows [OF assms(5)]
  have b: "blockHeight b = wk_height w" "wk_pin w < length (pr_pins p)" using assms(1-4) by (auto simp: accounted_def workerKnows_def processOK_def workerOK_def)
  have "loopOK ?p' l" if "l \<in> set (pr_loops p)" for l
    by (rule loopOK_grow [of p l]) (use accounted_loop [OF assms(1,2) that] g(2) b pinsGrow_update [OF g(1)] in \<open>(auto simp: assms(3))\<close>)
  then show ?thesis using assms(1,3) by (simp add: accounted_def)
qed

lemma accounted_start:
  assumes "accounted p" "processOK g p" "pr_loops p = xs @ l # ys"
  shows "accounted (p\<lparr>pr_loops := xs @ l\<lparr>lp_height := lp_height l + 1\<rparr> # ys,
      pr_workers := pr_workers p @ [\<lparr>wk_pin = lp_pin l, wk_height = lp_height l + 1, wk_phase = Fetching\<rparr>]\<rparr>)" (is "accounted ?p'")
proof -
  have old: "loopOK ?p' k" if "k \<in> set (pr_loops p)" for k
    by (rule loopOK_grow [of p k]) (use accounted_loop [OF assms(1,2) that] in \<open>auto\<close>)
  have "h \<le> lp_height l \<or> h = lp_height l + 1" if "h \<le> lp_height l + 1" for h :: uint64
    using that inc_le [of "lp_height l" h] by (metis antisym linorder_not_le)
  then have "loopOK ?p' (l\<lparr>lp_height := lp_height l + 1\<rparr>)" using old [of l] assms(3) unfolding loopOK_def Let_def by auto
  then show ?thesis using old assms(1,3) by (simp add: accounted_def workerKnows_def)
qed

lemma pinStep_accounted:
  assumes "pinStep blockAt (g, p) (g', p')" and "processOK g p" and "accounted p" and "\<And>h b. blockAt h = Some b \<Longrightarrow> blockHeight b = h"
  shows "accounted p'"
  using assms(1)
proof (cases rule: pinStep.cases)
  case (create r name h e db pins s)
  then show ?thesis by (intro accounted_grow [OF assms(3,2)]) (auto simp: CreatePin_def Let_def split: if_splits)
next
  case (load rows pins s)
  then show ?thesis using LoadAll_grows [OF load(4)] by (intro accounted_grow [OF assms(3,2)]) auto
next
  case (notify xs name v ys extra v' pins s)
  then show ?thesis using onNotify_grows [OF notify(5)] by (intro accounted_grow [OF assms(3,2)]) auto
next
  case (process name r h)
  then show ?thesis by (intro accounted_grow [OF assms(3,2)]) (auto simp: loopOK_def Let_def)
next
  case (start xs l ys)
  then show ?thesis using accounted_start [OF assms(3,2) start(3)] by simp
next
  case (fetch xs w ys b)
  then show ?thesis using accounted_worker [OF assms(3,2) fetch(3)] assms(4) by (simp add: workerKnows_def)
next
  case (callback xs w ys b)
  then show ?thesis using accounted_worker [OF assms(3,2) callback(3)] assms(3) by (auto simp: workerKnows_def accounted_def)
next
  case (callback_error xs w ys b)
  then show ?thesis using accounted_worker [OF assms(3,2) callback_error(3)] by (simp add: workerKnows_def)
next
  case (finish xs w ys b r1 r2 e db ns q)
  then show ?thesis using accounted_finish [OF assms(3,2) finish(3,4,5)] by simp
next
  case (deposed xs l ys)
  then show ?thesis by (intro accounted_grow [OF assms(3,2)]) auto
next
  case crash
  then show ?thesis by (simp add: accounted_def newProcess_def)
qed (auto intro!: accounted_grow [OF assms(3,2)])

lemma pinReach_accounted:
  assumes "pinReach blockAt g ps" and "\<And>h b. blockAt h = Some b \<Longrightarrow> blockHeight b = h"
  shows "accounted (ps i)"
  using assms(1)
proof (induction arbitrary: i rule: pinReach.induct)
  case (init g)
  show ?case by (simp add: accounted_def newProcess_def)
next
  case (step g ps j g' p')
  then show ?case using pinStep_accounted [OF step(2) _ _ assms(2)] pinReach_ok [OF step(1)] by simp
qed

lemma less_above: "x < y \<Longrightarrow> x < x + 1" for x y :: uint64
  using unsigned_less [of y, where ?'a = nat] by (simp add: word_less_nat_alt unat_word_ariths)

lemma finish_reaches:
  assumes "accounted p" "processOK g p" "l \<in> set (pr_loops p)" "pr_workers p = xs @ w # ys" "wk_phase w = Called b" "wk_pin w = lp_pin l"
    "\<forall>w' \<in> set (xs @ ys). wk_pin w' \<noteq> lp_pin l"
    "pinComplete r1 r2 (blockHeight b) (db, ns, pr_pins p ! wk_pin w) = (False, db', ns', q)"
  shows "lp_height l \<le> pin_height q"
proof (rule ccontr)
  assume "\<not> lp_height l \<le> pin_height q"
  then have less: "pin_height q < lp_height l" by simp
  then have fits: "pin_height q < pin_height q + 1" "pin_height q + 1 \<le> lp_height l"
    using inc_le [OF less] less_above [OF less] by auto
  let ?p' = "p\<lparr>pr_pins := (pr_pins p)[wk_pin w := q], pr_workers := xs @ ys\<rparr>"
  have "loopOK ?p' l" using accounted_finish [OF assms(1,2,4,5,8)] assms(3) by (simp add: accounted_def)
  moreover have "pr_pins ?p' ! lp_pin l = q" using accounted_loop [OF assms(1-3)] assms(6) by simp
  ultimately have "pin_height q + 1 \<in> set (pin_completed q)"
    using fits assms(7) order_le_less_trans [of "lp_from l" "pin_height q" "pin_height q + 1"] by (auto simp: loopOK_def Let_def)
  with pinComplete_grows(3) [OF assms(8)] fits(1) show False by simp
qed

lemma pinComplete_Done: "\<not> fst (pinComplete Done Done h (db, ns, p))"
  by (simp add: pinComplete_def execError_def tookEffect_def Let_def split: prod.splits)

section \<open>An example\<close>

text \<open>A pin for two blocks; the worker of the second block is faster.\<close>

definition emptyBlock :: "uint64 \<Rightarrow> LegacyBlock" where
  "emptyBlock h = \<lparr>lb_BlockHeader = \<lparr>lh_Version = 1, lh_Height = h, lh_PreviousBlockHash = zeroHash, lh_TimestampMS = 0,
     lh_BlockCommitment = \<lparr>bcm_TransactionsMerkleRoot = zeroHash, bcm_AssetsMerkleRoot = zeroHash, bcm_ConsensusProgram = []\<rparr>,
     lh_CommitmentSuffix = [], lh_Witness = [], lh_WitnessSuffix = []\<rparr>, lb_Transactions = []\<rparr>"

definition twoBlocks :: "uint64 \<Rightarrow> LegacyBlock option" where
  "twoBlocks h = (if h = 1 \<or> h = 2 then Some (emptyBlock h) else None)"

definition busyShared :: shared where
  "busyShared = \<lparr>sh_db = [''tx'' \<mapsto> 0], sh_notes = {}, sh_chain = 2, sh_created = {(''tx'', 0)}, sh_processed = {(''tx'', 1), (''tx'', 2)}\<rparr>"

definition lastWorker :: worker where
  "lastWorker = \<lparr>wk_pin = 0, wk_height = 1, wk_phase = Called (emptyBlock 1)\<rparr>"

definition busyProcess :: process where
  "busyProcess = \<lparr>pr_pins = [\<lparr>pin_height = 0, pin_completed = [2], pin_name = ''tx''\<rparr>], pr_store = [''tx'' \<mapsto> 0],
     pr_loops = [\<lparr>lp_pin = 0, lp_from = 0, lp_height = 2\<rparr>], pr_workers = [lastWorker], pr_listeners = [], pr_waiters = []\<rparr>"

lemma alone: "pinReach B g ((\<lambda>i. newProcess)(0 := p)) \<Longrightarrow> pinStep B (g, p) (g', p') \<Longrightarrow> pinReach B g' ((\<lambda>i. newProcess)(0 := p'))"
  using pinReach.step [of B g "(\<lambda>i. newProcess)(0 := p)" 0 g' p'] by simp

lemma busy_reached: "pinReach twoBlocks busyShared ((\<lambda>i. newProcess)(0 := busyProcess))"
proof -
  let ?N = "\<lambda>i :: nat. newProcess"
  define g where "g c P = \<lparr>sh_db = [''tx'' \<mapsto> 0], sh_notes = {}, sh_chain = c, sh_created = {(''tx'', 0)}, sh_processed = P\<rparr>" for c P
  define p where "p cs ls ws = \<lparr>pr_pins = [\<lparr>pin_height = 0, pin_completed = cs, pin_name = ''tx''\<rparr>], pr_store = [''tx'' \<mapsto> 0],
     pr_loops = ls, pr_workers = ws, pr_listeners = [], pr_waiters = []\<rparr>" for cs ls ws
  let ?l = "\<lambda>h. \<lparr>lp_pin = 0, lp_from = 0, lp_height = h\<rparr>" and ?w = "\<lambda>h ph. \<lparr>wk_pin = 0, wk_height = h, wk_phase = ph\<rparr>"
  note simps = g_def p_def twoBlocks_def emptyBlock_def processorWorkers_def
  have "pinReach twoBlocks \<lparr>sh_db = Map.empty, sh_notes = {}, sh_chain = 0, sh_created = {}, sh_processed = {}\<rparr> (?N(0 := newProcess))"
    using pinReach.init [of "\<lparr>sh_db = Map.empty, sh_notes = {}, sh_chain = 0, sh_created = {}, sh_processed = {}\<rparr>"] by (simp add: fun_upd_idem)
  then have "pinReach twoBlocks (g 0 {}) (?N(0 := p [] [] []))"
    by (rule alone) (use pinStep.create [of Done "''tx''" 0 "\<lparr>sh_db = Map.empty, sh_notes = {}, sh_chain = 0, sh_created = {}, sh_processed = {}\<rparr>"
        newProcess False] in \<open>simp add: simps CreatePin_def newProcess_def execError_def tookEffect_def newPin_def\<close>)
  then have "pinReach twoBlocks (g 0 {}) (?N(0 := p [] [?l 0] []))"
    by (rule alone) (use pinStep.process [of "p [] [] []" "''tx''" 0 0] in \<open>simp add: simps\<close>)
  then have "pinReach twoBlocks (g 2 {}) (?N(0 := p [] [?l 0] []))"
    by (rule alone) (use pinStep.chain [of "g 0 {}" 2] in \<open>simp add: simps\<close>)
  then have "pinReach twoBlocks (g 2 {}) (?N(0 := p [] [?l 1] [?w 1 Fetching]))"
    by (rule alone) (use pinStep.start [of "p [] [?l 0] []" "[]" "?l 0" "[]" "g 2 {}"] in \<open>simp add: simps\<close>)
  then have "pinReach twoBlocks (g 2 {}) (?N(0 := p [] [?l 2] [?w 1 Fetching, ?w 2 Fetching]))"
    by (rule alone) (use pinStep.start [of "p [] [?l 1] [?w 1 Fetching]" "[]" "?l 1" "[]" "g 2 {}"] in \<open>simp add: simps\<close>)
  then have "pinReach twoBlocks (g 2 {}) (?N(0 := p [] [?l 2] [?w 1 (Fetched (emptyBlock 1)), ?w 2 Fetching]))"
    by (rule alone) (use pinStep.fetch [of "p [] [?l 2] [?w 1 Fetching, ?w 2 Fetching]" "[]" "?w 1 Fetching" "[?w 2 Fetching]"] in \<open>simp add: simps\<close>)
  then have "pinReach twoBlocks (g 2 {}) (?N(0 := p [] [?l 2] [?w 1 (Fetched (emptyBlock 1)), ?w 2 (Fetched (emptyBlock 2))]))"
    by (rule alone) (use pinStep.fetch [of "p [] [?l 2] [?w 1 (Fetched (emptyBlock 1)), ?w 2 Fetching]" "[?w 1 (Fetched (emptyBlock 1))]" "?w 2 Fetching" "[]"] in \<open>simp add: simps\<close>)
  then have "pinReach twoBlocks (g 2 {(''tx'', 1)}) (?N(0 := p [] [?l 2] [?w 1 (Called (emptyBlock 1)), ?w 2 (Fetched (emptyBlock 2))]))"
    by (rule alone) (use pinStep.callback [of "p [] [?l 2] [?w 1 (Fetched (emptyBlock 1)), ?w 2 (Fetched (emptyBlock 2))]" "[]" "?w 1 (Fetched (emptyBlock 1))"
        "[?w 2 (Fetched (emptyBlock 2))]" "emptyBlock 1" _ "g 2 {}"] in \<open>simp add: simps\<close>)
  then have "pinReach twoBlocks (g 2 {(''tx'', 1), (''tx'', 2)}) (?N(0 := p [] [?l 2] [?w 1 (Called (emptyBlock 1)), ?w 2 (Called (emptyBlock 2))]))"
    by (rule alone) (use pinStep.callback [of "p [] [?l 2] [?w 1 (Called (emptyBlock 1)), ?w 2 (Fetched (emptyBlock 2))]" "[?w 1 (Called (emptyBlock 1))]"
        "?w 2 (Fetched (emptyBlock 2))" "[]" "emptyBlock 2" _ "g 2 {(''tx'', 1)}"] in \<open>simp add: simps insert_commute\<close>)
  then have "pinReach twoBlocks (g 2 {(''tx'', 1), (''tx'', 2)}) (?N(0 := p [2] [?l 2] [?w 1 (Called (emptyBlock 1))]))"
    by (rule alone) (use pinStep.finish [of "p [] [?l 2] [?w 1 (Called (emptyBlock 1)), ?w 2 (Called (emptyBlock 2))]" "[?w 1 (Called (emptyBlock 1))]"
        "?w 2 (Called (emptyBlock 2))" "[]" "emptyBlock 2" Done Done "g 2 {(''tx'', 1), (''tx'', 2)}" False] in \<open>simp add: simps pinComplete_def Let_def\<close>)
  then show ?thesis by (simp add: simps busyShared_def busyProcess_def lastWorker_def)
qed

text \<open>The last worker ends: the pin has reached the second block.\<close>

definition doneShared :: shared where
  "doneShared = busyShared\<lparr>sh_db := [''tx'' \<mapsto> 2], sh_notes := {(''tx'', Itoa 2)}\<rparr>"

definition doneProcess :: process where
  "doneProcess = \<lparr>pr_pins = [\<lparr>pin_height = 2, pin_completed = [], pin_name = ''tx''\<rparr>], pr_store = [''tx'' \<mapsto> 0],
     pr_loops = [\<lparr>lp_pin = 0, lp_from = 0, lp_height = 2\<rparr>], pr_workers = [], pr_listeners = [], pr_waiters = []\<rparr>"

lemma done_reached: "pinReach twoBlocks doneShared ((\<lambda>i. newProcess)(0 := doneProcess))"
proof (rule alone [OF busy_reached])
  have two: "\<not> (2 :: uint64) \<le> 1" by code_simp
  have "pinComplete Done Done (blockHeight (emptyBlock 1)) (sh_db busyShared, sh_notes busyShared, pr_pins busyProcess ! wk_pin lastWorker) =
      (False, [''tx'' \<mapsto> 2], {(''tx'', Itoa 2)}, pr_pins doneProcess ! 0)"
    using two by (simp add: pinComplete_def busyShared_def busyProcess_def doneProcess_def lastWorker_def emptyBlock_def Let_def updateHeight_def)
  from pinStep.finish [OF _ _ this, of "[]" "[]" twoBlocks]
  show "pinStep twoBlocks (busyShared, busyProcess) (doneShared, doneProcess)"
    by (simp add: busyProcess_def lastWorker_def doneShared_def busyShared_def doneProcess_def)
qed

text \<open>
  C6. The heights of pins are true, whatever processes run, crash and restart, whatever statements fail and in whatever order workers end:
  for the height in the table, for that of every pin in memory, and for every name a finished waiter has waited for, the blocks up to the
  height that lie above every height at which a row or a pin of that name was created were processed. (A new process that calls \<open>CreatePin\<close> with a
  height above that of the row makes a pin at that height, and the blocks in between are skipped.) At most ten workers of a pin run at a time.
\<close>

theorem pin_heights_processed:
  assumes "pinReach blockAt g ps"
  shows "(\<forall>name height. sh_db g name = Some height \<longrightarrow> processedTo g name height) \<and>
    (\<forall>i. \<forall>q \<in> set (pr_pins (ps i)). processedTo g (pin_name q) (pin_height q)) \<and>
    (\<forall>i names v height. (names, [], v, height) \<in> set (pr_waiters (ps i)) \<longrightarrow> (\<forall>name \<in> set names. processedTo g name height)) \<and>
    (\<forall>i r. length (workersOf r (ps i)) \<le> 10)"
  using pinReach_ok [OF assms] by (fastforce simp: sharedOK_def processOK_def pinOK_def waiterOK_def processorWorkers_def)

theorem pin_heights_processed_witness:
  "pinReach twoBlocks doneShared ((\<lambda>i :: nat. newProcess)(0 := doneProcess)) \<and> sh_db doneShared ''tx'' = Some 2 \<and>
   processedTo doneShared ''tx'' 2 \<and> \<not> needless doneShared ''tx'' 1 \<and> \<not> needless doneShared ''tx'' 2 \<and>
   processedTo doneShared (pin_name (pr_pins doneProcess ! 0)) (pin_height (pr_pins doneProcess ! 0)) \<and> pin_height (pr_pins doneProcess ! 0) = 2"
proof (intro conjI)
  note all = pin_heights_processed [OF done_reached]
  show "processedTo doneShared (pin_name (pr_pins doneProcess ! 0)) (pin_height (pr_pins doneProcess ! 0))"
    using all [THEN conjunct2, THEN conjunct1, rule_format, of "pr_pins doneProcess ! 0" 0] by (simp add: doneProcess_def)
  show db: "sh_db doneShared ''tx'' = Some 2" by (simp add: doneShared_def)
  show "processedTo doneShared ''tx'' 2" by (rule all [THEN conjunct1, rule_format, OF db])
  show "pinReach twoBlocks doneShared ((\<lambda>i. newProcess)(0 := doneProcess))" by (rule done_reached)
qed (simp_all add: needless_def doneShared_def busyShared_def doneProcess_def)

text \<open>
  C38. Nothing is lost: when the last running worker of a pin ends and the statements of \<open>pinComplete\<close> succeed, the pin has reached every block
  that its loop started, whatever statements failed before and in whatever order workers ended, if the chain returns the blocks of the heights asked for.
\<close>

theorem pin_catches_up:
  assumes "pinReach blockAt g ps" and "\<And>h b. blockAt h = Some b \<Longrightarrow> blockHeight b = h"
    and "l \<in> set (pr_loops (ps i))" and "pr_workers (ps i) = xs @ w # ys" and "wk_phase w = Called b" and "wk_pin w = lp_pin l"
    and "\<forall>w' \<in> set (xs @ ys). wk_pin w' \<noteq> lp_pin l"
    and "pinComplete Done Done (blockHeight b) (sh_db g, sh_notes g, pr_pins (ps i) ! wk_pin w) = (e, db, ns, q)"
  shows "\<not> e \<and> lp_height l \<le> pin_height q"
proof -
  have e: "\<not> e" using pinComplete_Done [of "blockHeight b" "sh_db g" "sh_notes g" "pr_pins (ps i) ! wk_pin w"] assms(8) by simp
  moreover have "processOK g (ps i)" using pinReach_ok [OF assms(1)] by simp
  ultimately show ?thesis
    using finish_reaches [OF pinReach_accounted [OF assms(1,2)] _ assms(3-7), of g Done Done] assms(8) by auto
qed

theorem pin_catches_up_witness:
  "\<exists>db ns q. pinComplete Done Done 1 (sh_db busyShared, sh_notes busyShared, pr_pins busyProcess ! 0) = (False, db, ns, q) \<and> 2 \<le> pin_height q"
proof -
  let ?r = "pinComplete Done Done 1 (sh_db busyShared, sh_notes busyShared, pr_pins busyProcess ! 0)"
  obtain e db ns q where r: "?r = (e, db, ns, q)" by (cases ?r)
  have "\<not> e \<and> lp_height \<lparr>lp_pin = 0, lp_from = 0, lp_height = 2\<rparr> \<le> pin_height q"
    by (rule pin_catches_up [OF busy_reached, of _ 0 "[]" lastWorker "[]" "emptyBlock 1" e db ns q])
      (use r in \<open>auto simp: twoBlocks_def emptyBlock_def busyProcess_def lastWorker_def split: if_splits\<close>)
  with r show ?thesis by auto
qed

end
