(* ===== verification/Legacy_Text.thy ===== *)
theory Legacy_Text
  imports Legacy_Block
begin

text \<open>
  The text and database forms of hashes (\<^verbatim>\<open>protocol/bc/hash.go\<close>), transactions and blocks (\<^verbatim>\<open>protocol/bc/legacy\<close>): hexadecimal digits
  of the binary form, and the binary form itself. Values are read into fresh variables.
\<close>

section \<open>Hexadecimal digits\<close>

text \<open>\<^verbatim>\<open>encoding/hex\<close> of the standard library. Decoding returns the bytes before the error, if there is one.\<close>

datatype text_error = InvalidByte byte | OddLength | BadEncoding enc_error | TrailingGarbage nat | BadLengthHash nat | NotAByteSlice

definition hexDigit :: "byte \<Rightarrow> byte" where
  "hexDigit n = (if n < 10 then n + 48 else n + 87)"

definition hexEncode :: "bytes \<Rightarrow> bytes" where
  "hexEncode bs = concat (map (\<lambda>b. [hexDigit (drop_bit 4 b), hexDigit (b AND 15)]) bs)"

definition fromHexChar :: "byte \<Rightarrow> byte option" where
  "fromHexChar c = (if 48 \<le> c \<and> c \<le> 57 then Some (c - 48) else if 97 \<le> c \<and> c \<le> 102 then Some (c - 87)
     else if 65 \<le> c \<and> c \<le> 70 then Some (c - 55) else None)"

fun hexPairs :: "bytes \<Rightarrow> bytes \<times> text_error option" where
  "hexPairs (a # b # cs) = (case fromHexChar a of None \<Rightarrow> ([], Some (InvalidByte a))
     | Some x \<Rightarrow> (case fromHexChar b of None \<Rightarrow> ([], Some (InvalidByte b))
       | Some y \<Rightarrow> (let (bs, e) = hexPairs cs in ((push_bit 4 x OR y) # bs, e))))"
| "hexPairs _ = ([], None)"

definition hexDecode :: "bytes \<Rightarrow> bytes \<times> text_error option" where
  "hexDecode src = (if odd (length src) then ([], Some OddLength) else hexPairs src)"

section \<open>Hashes\<close>

definition HashMarshalText :: "Hash \<Rightarrow> bytes" where
  "HashMarshalText h = hexEncode (Byte32 h)"

text \<open>Copying into an array of 32 bytes.\<close>

definition into32 :: "bytes \<Rightarrow> bytes" where
  "into32 b = take 32 (b @ replicate 32 0)"

text \<open>The variable keeps its value for a text of the wrong length, and has the bytes before the error otherwise.\<close>

definition HashUnmarshalText :: "bytes \<Rightarrow> Hash \<Rightarrow> text_error option \<times> Hash" where
  "HashUnmarshalText v h = (if length v \<noteq> 64 then (Some (BadLengthHash (length v)), h)
     else let (b, e) = hexDecode v in (e, NewHash (into32 b)))"

definition HashScan :: "bytes option \<Rightarrow> Hash \<Rightarrow> text_error option \<times> Hash" where
  "HashScan v h = (case v of None \<Rightarrow> (Some NotAByteSlice, h) | Some b \<Rightarrow> (None, NewHash (into32 b)))"

section \<open>Blocks and transactions\<close>

definition noTrailing :: "'a \<times> bytes \<Rightarrow> (text_error, 'a) outcome" where
  "noTrailing = (\<lambda>(a, rest). if length rest > 0 then Fail (TrailingGarbage (length rest)) else Ok a)"

definition decoded :: "bytes \<Rightarrow> (text_error, bytes) outcome" where
  "decoded text = (case hexDecode text of (b, None) \<Rightarrow> Ok b | (_, Some e) \<Rightarrow> Fail e)"

definition mapError :: "(enc_error, 'a) outcome \<Rightarrow> (text_error, 'a) outcome" where
  "mapError r = (case r of Ok a \<Rightarrow> Ok a | Fail e \<Rightarrow> Fail (BadEncoding e) | Crash \<Rightarrow> Crash | Diverge \<Rightarrow> Diverge)"

definition toBuffer :: "writer \<Rightarrow> (text_error, bytes) outcome" where
  "toBuffer w = (case w [] of (r, out) \<Rightarrow> bindO (mapError r) (\<lambda>_. Ok out))"

definition fromReader :: "(enc_error + 'a) \<times> bytes \<Rightarrow> (text_error, 'a \<times> bytes) outcome" where
  "fromReader r = (case r of (Inl e, _) \<Rightarrow> Fail (BadEncoding e) | (Inr a, rest) \<Rightarrow> Ok (a, rest))"

definition BlockMarshalText :: "(bytes \<Rightarrow> bytes) \<Rightarrow> LegacyBlock \<Rightarrow> (text_error, bytes) outcome" where
  "BlockMarshalText H b = bindO (toBuffer (BlockWriteTo H b)) (\<lambda>buf. Ok (hexEncode buf))"

definition BlockUnmarshalText :: "(bytes \<Rightarrow> bytes) \<Rightarrow> (Hash list \<Rightarrow> Hash list) \<Rightarrow> bytes \<Rightarrow> (text_error, LegacyBlock) outcome" where
  "BlockUnmarshalText H order text = bindO (decoded text) (\<lambda>buf. bindO (mapError (BlockReadFrom H order buf)) noTrailing)"

definition BlockScan :: "(bytes \<Rightarrow> bytes) \<Rightarrow> (Hash list \<Rightarrow> Hash list) \<Rightarrow> bytes option \<Rightarrow> (text_error, LegacyBlock) outcome" where
  "BlockScan H order val = (case val of None \<Rightarrow> Fail NotAByteSlice | Some buf \<Rightarrow> bindO (mapError (BlockReadFrom H order buf)) noTrailing)"

definition BlockValue :: "(bytes \<Rightarrow> bytes) \<Rightarrow> LegacyBlock \<Rightarrow> (text_error, bytes) outcome" where
  "BlockValue H b = toBuffer (BlockWriteTo H b)"

text \<open>\<^verbatim>\<open>WriteTo\<close> of a header drops the errors of its encoding, and the readers of headers do not look for trailing bytes.\<close>

definition BlockHeaderWriteTo :: "LegacyBlockHeader \<Rightarrow> writer" where
  "BlockHeaderWriteTo bh = quietly (BlockHeaderWrite bh SerBlockHeader)"

definition BlockHeaderMarshalText :: "LegacyBlockHeader \<Rightarrow> (text_error, bytes) outcome" where
  "BlockHeaderMarshalText bh = bindO (toBuffer (BlockHeaderWriteTo bh)) (\<lambda>buf. Ok (hexEncode buf))"

definition BlockHeaderUnmarshalText :: "bytes \<Rightarrow> (text_error, LegacyBlockHeader) outcome" where
  "BlockHeaderUnmarshalText text = bindO (decoded text) (\<lambda>buf. bindO (fromReader (BlockHeaderReadFrom buf)) (\<lambda>((_, bh), _). Ok bh))"

definition BlockHeaderScan :: "bytes option \<Rightarrow> (text_error, LegacyBlockHeader) outcome" where
  "BlockHeaderScan val = (case val of None \<Rightarrow> Fail NotAByteSlice
     | Some buf \<Rightarrow> bindO (fromReader (BlockHeaderReadFrom buf)) (\<lambda>((_, bh), _). Ok bh))"

definition BlockHeaderValue :: "LegacyBlockHeader \<Rightarrow> (text_error, bytes) outcome" where
  "BlockHeaderValue bh = toBuffer (BlockHeaderWriteTo bh)"

definition TxDataMarshalText :: "(bytes \<Rightarrow> bytes) \<Rightarrow> TxData \<Rightarrow> (text_error, bytes) outcome" where
  "TxDataMarshalText H tx = bindO (TxDataWriteTo H tx) (\<lambda>buf. Ok (hexEncode buf))"

definition TxDataUnmarshalText :: "(bytes \<Rightarrow> bytes) \<Rightarrow> bytes \<Rightarrow> (text_error, TxData) outcome" where
  "TxDataUnmarshalText H p = bindO (decoded p) (\<lambda>b. bindO (fromReader (TxDataReadFrom H b)) noTrailing)"

definition TxUnmarshalText :: "(bytes \<Rightarrow> bytes) \<Rightarrow> (Hash list \<Rightarrow> Hash list) \<Rightarrow> bytes \<Rightarrow> (text_error, LegacyTx) outcome" where
  "TxUnmarshalText H order p = bindO (TxDataUnmarshalText H p) (\<lambda>d.
     case NewTx H order d of Ok tx \<Rightarrow> Ok tx | Fail _ \<Rightarrow> Crash | Crash \<Rightarrow> Crash | Diverge \<Rightarrow> Diverge)"

section \<open>Round trips\<close>

lemma nibbles: "drop_bit 4 b < 16" "b AND 15 < 16" "push_bit 4 (drop_bit 4 b) OR (b AND 15) = b" for b :: byte
proof -
  have "\<forall>b \<in> set (map (\<lambda>n. word_of_nat n :: byte) [0..<256]). drop_bit 4 b < 16 \<and> b AND 15 < 16 \<and> push_bit 4 (drop_bit 4 b) OR (b AND 15) = b"
    by code_simp
  moreover have "b \<in> set (map (\<lambda>n. word_of_nat n :: byte) [0..<256])"
    using unsigned_less [of b, where ?'a = nat] by (auto intro!: image_eqI [of _ _ "unat b"])
  ultimately show "drop_bit 4 b < 16" "b AND 15 < 16" "push_bit 4 (drop_bit 4 b) OR (b AND 15) = b" by blast+
qed

lemma fromHexChar_hexDigit: "n < 16 \<Longrightarrow> fromHexChar (hexDigit n) = Some n"
proof -
  assume "n < 16"
  then have "n \<in> set (map (\<lambda>n. word_of_nat n :: byte) [0..<16])"
    by (auto simp: word_less_nat_alt intro!: image_eqI [of _ _ "unat n"])
  moreover have "\<forall>n \<in> set (map (\<lambda>n. word_of_nat n :: byte) [0..<16]). fromHexChar (hexDigit n) = Some n" by code_simp
  ultimately show ?thesis by blast
qed

lemma length_hexEncode: "length (hexEncode bs) = 2 * length bs"
  by (induction bs) (simp_all add: hexEncode_def)

lemma hexPairs_hexEncode: "hexPairs (hexEncode bs) = (bs, None)"
  by (induction bs) (simp_all add: hexEncode_def nibbles fromHexChar_hexDigit)

lemma hex_roundtrip [simp]: "hexDecode (hexEncode bs) = (bs, None)" "decoded (hexEncode bs) = Ok bs"
  by (simp_all add: decoded_def hexDecode_def length_hexEncode hexPairs_hexEncode)

lemma into32_Byte32: "into32 (Byte32 h) = Byte32 h"
  by (simp add: into32_def)

lemma hash_text_roundtrip: "HashUnmarshalText (HashMarshalText h) h' = (None, h)" "HashScan (Some (Byte32 h)) h' = (None, h)"
  by (simp_all add: HashUnmarshalText_def HashMarshalText_def HashScan_def length_hexEncode into32_Byte32)

lemma reads_whole: "reads w r a \<Longrightarrow> w [] = (Ok (), out) \<Longrightarrow> length out < 2 ^ 64 \<Longrightarrow> r out = (Inr a, [])"
  using readsD [of w r a "[]" out] by (metis append_Nil append_Nil2)

lemma header_text_roundtrip:
  assumes "BlockHeaderWrite bh SerBlockHeader [] = (Ok (), out)" and "length out < 2 ^ 64"
  shows "BlockHeaderMarshalText bh = Ok (hexEncode out) \<and> BlockHeaderUnmarshalText (hexEncode out) = Ok bh \<and>
    BlockHeaderValue bh = Ok out \<and> BlockHeaderScan (Some out) = Ok bh"
proof -
  have "BlockHeaderReadFrom out = (Inr (SerBlockHeader, bh), [])" 
    by (rule reads_whole [OF reads_header_flags assms]) (simp_all add: SerBlockHeader_def)
  moreover have "toBuffer (BlockHeaderWriteTo bh) = Ok out" using quietly_Ok [of "BlockHeaderWrite bh SerBlockHeader" "[]" out] assms(1) by (simp add: toBuffer_def BlockHeaderWriteTo_def mapError_def)
  ultimately show ?thesis
    by (simp add: BlockHeaderMarshalText_def BlockHeaderUnmarshalText_def BlockHeaderValue_def BlockHeaderScan_def fromReader_def)
qed

lemma tx_text_roundtrip:
  assumes "TxDataWriteAll H tx serRequired [] = (Ok (), out)" and "readable tx" and "length out < 2 ^ 64"
  shows "TxDataMarshalText H tx = Ok (hexEncode out) \<and> TxDataUnmarshalText H (hexEncode out) = Ok (echo tx)"
proof -
  have "TxDataReadFrom H out = (Inr (echo tx), [])" by (rule reads_whole [OF reads_tx [OF assms(2)] assms(1,3)])
  then show ?thesis by (simp add: TxDataMarshalText_def TxDataWriteTo_def assms(1) TxDataUnmarshalText_def fromReader_def noTrailing_def)
qed

text \<open>A block is read back with its transactions translated from what their own encoding gives back.\<close>

lemma block_reads_echo:
  assumes "writeStrictly H b [] = (Ok (), out)" and "\<forall>tx \<in> set (lb_Transactions b). readable (lt_TxData tx)" and "length out < 2 ^ 64"
    and "list_all2 (\<lambda>tx tx'. NewTx H order (echo (lt_TxData tx)) = Ok tx') (lb_Transactions b) txs"
  shows "BlockReadFrom H order (out @ rest) = Ok (b\<lparr>lb_Transactions := txs\<rparr>, rest)"
proof -
  let ?ds = "map (\<lambda>tx. echo (lt_TxData tx)) (lb_Transactions b)"
  have txs: "reads (TxDataWriteAll H (lt_TxData tx) serRequired) (TxDataReadFrom H) (echo (lt_TxData tx))" "grows (TxDataWriteAll H (lt_TxData tx) serRequired)"
    if "tx \<in> set (lb_Transactions b)" for tx
    using assms(2) that reads_tx [of "lt_TxData tx" H] tx_grows by auto
  have "reads (writeStrictly H b) (bindR BlockHeaderReadFrom (\<lambda>h. bindR ReadVarint31 (\<lambda>n. bindR (readTimes (unat n) (TxDataReadFrom H)) (\<lambda>ds. returnR (h, ds)))))
      ((SerBlockFull, lb_BlockHeader b), ?ds)" unfolding writeStrictly_def
    by (rule reads_bind [OF reads_header], rule reads_counted [OF txs], assumption, assumption, rule reads_return)
  from readsD [OF this assms(1)] assms(3) have "bindR BlockHeaderReadFrom (\<lambda>h. bindR ReadVarint31 (\<lambda>n. bindR (readTimes (unat n) (TxDataReadFrom H)) (\<lambda>ds. returnR (h, ds))))
      (out @ rest) = (Inr ((SerBlockFull, lb_BlockHeader b), ?ds), rest)" by auto
  then obtain buf1 n buf2 where r: "BlockHeaderReadFrom (out @ rest) = (Inr (SerBlockFull, lb_BlockHeader b), buf1)"
      "ReadVarint31 buf1 = (Inr n, buf2)" "readTimes (unat n) (TxDataReadFrom H) buf2 = (Inr ?ds, rest)"
    by (auto simp: bindR_def returnR_def split: prod.splits sum.splits)
  have "list_all2 (\<lambda>d tx. NewTx H order d = Ok tx) ?ds txs" using assms(4) by (simp add: list_all2_map1)
  from readTxs_Ok [OF r(3) this] r(1,2) show ?thesis by (simp add: BlockReadFrom_def SerBlockFull_def)
qed

lemma sound_transactions:
  assumes "list_all2 (\<lambda>tx tx'. NewTx H order (echo (lt_TxData tx)) = Ok tx') xs ys" and "\<forall>tx \<in> set xs. NewTx H order (lt_TxData tx) = Ok tx \<and> echo (lt_TxData tx) = lt_TxData tx"
  shows "ys = xs"
  using assms by (induction rule: list_all2_induct) auto

text \<open>
  The text and database forms of hashes, block headers and blocks are read back. Hashes and headers come back as they were written, if
  the header could be encoded. A block that could be encoded without an error, whose inputs and outputs of asset version 1 have a type and VM version 1, comes back with the
  same header; each of its transactions is translated anew from the data that its own encoding gives back (so that commitment suffixes are
  doubled), where that translation does not panic. If the transactions survive encoding and were translated from their data, the block is the
  one that was written. (Encodings are shorter than \<open>2 ^ 64\<close> bytes.)
\<close>

lemma block_text_roundtrip:
  assumes "writeStrictly H b [] = (Ok (), out)" and "\<forall>tx \<in> set (lb_Transactions b). readable (lt_TxData tx)" and "length out < 2 ^ 64"
    and "list_all2 (\<lambda>tx tx'. NewTx H order (echo (lt_TxData tx)) = Ok tx') (lb_Transactions b) txs"
    and "BlockHeaderWrite bh SerBlockHeader [] = (Ok (), hout)" and "length hout < 2 ^ 64"
  shows "BlockMarshalText H b = Ok (hexEncode out) \<and> BlockUnmarshalText H order (hexEncode out) = Ok (b\<lparr>lb_Transactions := txs\<rparr>) \<and>
    BlockValue H b = Ok out \<and> BlockScan H order (Some out) = Ok (b\<lparr>lb_Transactions := txs\<rparr>) \<and>
    ((\<forall>tx \<in> set (lb_Transactions b). NewTx H order (lt_TxData tx) = Ok tx \<and> echo (lt_TxData tx) = lt_TxData tx) \<longrightarrow> b\<lparr>lb_Transactions := txs\<rparr> = b) \<and>
    bindO (BlockHeaderMarshalText bh) BlockHeaderUnmarshalText = Ok bh \<and> bindO (BlockHeaderValue bh) (\<lambda>v. BlockHeaderScan (Some v)) = Ok bh \<and>
    HashUnmarshalText (HashMarshalText h) h' = (None, h) \<and> HashScan (Some (Byte32 h)) h' = (None, h)"
proof -
  have "BlockWriteTo H b [] = (Ok (), out)" by (rule writeStrictly_Ok [OF assms(1)])
  moreover have "BlockReadFrom H order out = Ok (b\<lparr>lb_Transactions := txs\<rparr>, [])" using block_reads_echo [OF assms(1-4), of "[]"] by simp
  moreover note sound_transactions [OF assms(4)]
  ultimately show ?thesis using header_text_roundtrip [OF assms(5,6)]
    by (auto simp: BlockMarshalText_def BlockUnmarshalText_def BlockValue_def BlockScan_def toBuffer_def mapError_def noTrailing_def hash_text_roundtrip)
qed

lemma sample_header: "BlockHeaderWrite (lb_BlockHeader sampleBlock) SerBlockHeader [] = (Ok (), snd (BlockHeaderWrite (lb_BlockHeader sampleBlock) SerBlockHeader []))"
  by code_simp

lemma sample_header_short: "length (snd (BlockHeaderWrite (lb_BlockHeader sampleBlock) SerBlockHeader [])) < 2 ^ 64"
proof -
  have "length (snd (BlockHeaderWrite (lb_BlockHeader sampleBlock) SerBlockHeader [])) < 200" by code_simp
  then show ?thesis by simp
qed

text \<open>A block with one transaction, whose output commitment has a suffix.\<close>

definition suffixedBlock :: LegacyBlock where
  "suffixedBlock = sampleBlock\<lparr>lb_Transactions := [\<lparr>lt_TxData = suffixedTx, lt_Tx = (case MapTx (\<lambda>_. []) id suffixedTx of Ok tx \<Rightarrow> tx)\<rparr>]\<rparr>"

theorem block_text_roundtrip_witness:
  "\<exists>tx. bindO (BlockMarshalText (\<lambda>_. []) suffixedBlock) (BlockUnmarshalText (\<lambda>_. []) id) = Ok (suffixedBlock\<lparr>lb_Transactions := [tx]\<rparr>) \<and>
     lt_TxData tx = echo suffixedTx \<and> lt_TxData tx \<noteq> suffixedTx"
proof -
  let ?out = "snd (writeStrictly (\<lambda>_. []) suffixedBlock [])"
  have w: "writeStrictly (\<lambda>_. []) suffixedBlock [] = (Ok (), ?out)" "length ?out < 300" by code_simp+
  have "(case NewTx (\<lambda>_. []) id (echo suffixedTx) of Ok _ \<Rightarrow> True | _ \<Rightarrow> False)" by code_simp
  then obtain tx where tx: "NewTx (\<lambda>_. []) id (echo suffixedTx) = Ok tx" by (auto split: outcome.splits)
  then have d: "lt_TxData tx = echo suffixedTx" by (auto simp: NewTx_def bindO_Ok_iff)
  have "echo suffixedTx \<noteq> suffixedTx" by (simp add: echo_def echoOutput_def suffixedTx_def)
  have r: "\<forall>tx \<in> set (lb_Transactions suffixedBlock). readable (lt_TxData tx)" by (simp add: suffixedBlock_def readable_def suffixedTx_def)
  have "list_all2 (\<lambda>tx tx'. NewTx (\<lambda>_. []) id (echo (lt_TxData tx)) = Ok tx') (lb_Transactions suffixedBlock) [tx]" using tx by (simp add: suffixedBlock_def)
  from block_text_roundtrip [OF w(1) r _ this sample_header sample_header_short] w(2) d \<open>echo suffixedTx \<noteq> suffixedTx\<close> show ?thesis by auto
qed

end
