(* ===== verification/Block_Signer.thy ===== *)
theory Block_Signer
  imports Chain_Generate Legacy_Text Database
begin

text \<open>
  The signer of blocks, \<^verbatim>\<open>core/blocksigner/blocksigner.go\<close>. Before it signs, it records the hash of the block under its height in the
  table \<^verbatim>\<open>signed_blocks\<close>, on which the schema has a unique index. The device that signs is a parameter: a function of the key and the header.
\<close>

section \<open>The operations\<close>

datatype signer_error = BadBlockText text_error | LockFailed | ErrInvalidKey | ErrConsensusChange | NoPrevious | NotReached | BadForSig chain_error

type_synonym signedBlocks = "uint64 \<Rightarrow> Hash option"

text \<open>The statement inserts a row unless the same row is there; another row of the height violates the unique index.\<close>

definition lockBlockHeight :: "exec \<Rightarrow> uint64 \<Rightarrow> Hash \<Rightarrow> signedBlocks \<Rightarrow> bool \<times> signedBlocks" where
  "lockBlockHeight r height h tab = (case tab height of
       None \<Rightarrow> (\<not> execError r, if tookEffect r then tab(height \<mapsto> h) else tab)
     | Some h' \<Rightarrow> (h' = h \<and> \<not> execError r, tab))"

record BlockSigner =
  bs_Pub :: bytes
  bs_hsm :: "bytes \<Rightarrow> LegacyBlockHeader \<Rightarrow> bytes option"

definition signWith :: "BlockSigner \<Rightarrow> LegacyBlock \<Rightarrow> (signer_error, bytes) outcome" where
  "signWith s b = (case bs_hsm s (bs_Pub s) (lb_BlockHeader b) of None \<Rightarrow> Fail ErrInvalidKey | Some sig \<Rightarrow> Ok sig)"

definition lockAndSign :: "(bytes \<Rightarrow> bytes) \<Rightarrow> BlockSigner \<Rightarrow> exec \<Rightarrow> LegacyBlock \<Rightarrow> (signedBlocks, signer_error, bytes) action" where
  "lockAndSign H s r b tab = (case blockHash H b of
       Ok h \<Rightarrow> (let (ok, tab') = lockBlockHeight r (lh_Height (lb_BlockHeader b)) h tab in
         (if ok then signWith s b else Fail LockFailed, tab'))
     | Fail e \<Rightarrow> (Fail e, tab) | Crash \<Rightarrow> (Crash, tab) | Diverge \<Rightarrow> (Diverge, tab))"

definition SignBlock :: "(bytes \<Rightarrow> bytes) \<Rightarrow> (Hash list \<Rightarrow> Hash list) \<Rightarrow> BlockSigner \<Rightarrow> exec \<Rightarrow> bytes \<Rightarrow> (signedBlocks, signer_error, bytes) action" where
  "SignBlock H order s r marshalledBlock = bindA (pureA (mapFail BadBlockText (BlockUnmarshalText H order marshalledBlock))) (lockAndSign H s r)"

text \<open>
  \<open>waited\<close> is the result of waiting for the previous block. The state has the chain and the table.
\<close>

definition onChain :: "(('st, 'lru) Chain, chain_error, 'a) action \<Rightarrow> (chain_error \<Rightarrow> signer_error) \<Rightarrow>
    (('st, 'lru) Chain \<times> signedBlocks, signer_error, 'a) action" where
  "onChain m f = (\<lambda>(c, tab). case m c of (r, c') \<Rightarrow> (mapFail f r, (c', tab)))"

definition ValidateAndSignBlock :: "('st, 'lru) env \<Rightarrow> BlockSigner \<Rightarrow> exec \<Rightarrow> bool \<Rightarrow> LegacyBlock \<Rightarrow>
    (('st, 'lru) Chain \<times> signedBlocks, signer_error, bytes) action" where
  "ValidateAndSignBlock E s r waited b =
     bindA (pureA (failIf (\<not> waited) NotReached)) (\<lambda>_.
     bindA (onChain (onStore (st_GetBlock (env_store E) (lh_Height (lb_BlockHeader b) - 1))) (\<lambda>_. NoPrevious)) (\<lambda>prev.
     bindA (pureA (failIf (bcm_ConsensusProgram (lh_BlockCommitment (lb_BlockHeader b)) \<noteq>
       bcm_ConsensusProgram (lh_BlockCommitment (lb_BlockHeader prev))) ErrConsensusChange)) (\<lambda>_.
     bindA (onChain (ValidateBlockForSig E b) BadForSig) (\<lambda>_ (c, tab).
       case lockAndSign (env_H E) s r b tab of (res, tab') \<Rightarrow> (res, (c, tab'))))))"

section \<open>One block per height\<close>

text \<open>A row that is there stays; a signature is given only for the row of the height.\<close>

definition keepsRows :: "signedBlocks \<Rightarrow> signedBlocks \<Rightarrow> bool" where
  "keepsRows tab tab' \<longleftrightarrow> (\<forall>height h. tab height = Some h \<longrightarrow> tab' height = Some h)"

lemma keepsRows_refl [simp]: "keepsRows tab tab"
  by (simp add: keepsRows_def)

lemma keepsRows_trans: "keepsRows a b \<Longrightarrow> keepsRows b c \<Longrightarrow> keepsRows a c"
  by (simp add: keepsRows_def)

lemma lockBlockHeight_keeps: "lockBlockHeight r height h tab = (ok, tab') \<Longrightarrow> keepsRows tab tab' \<and> (ok \<longrightarrow> tab' height = Some h)"
  by (auto simp: lockBlockHeight_def keepsRows_def split: option.splits if_splits)

lemma lockAndSign_locks:
  assumes "lockAndSign H s r b tab = (res, tab')"
  shows "keepsRows tab tab' \<and> (\<forall>sig. res = Ok sig \<longrightarrow>
    (\<exists>h. blockHash H b = (Ok h :: (signer_error, Hash) outcome) \<and> tab' (lh_Height (lb_BlockHeader b)) = Some h))"
  using assms lockBlockHeight_keeps by (fastforce simp: lockAndSign_def Let_def split: outcome.splits prod.splits if_splits)

text \<open>
  Calls of any number of processes on one table, interleaved at the statement and at the use of the signing device: the table, the blocks
  whose height is locked, and the signatures given.
\<close>

inductive signStep :: "(bytes \<Rightarrow> bytes) \<Rightarrow> signedBlocks \<times> LegacyBlock set \<times> (LegacyBlock \<times> bytes) set \<Rightarrow>
    signedBlocks \<times> LegacyBlock set \<times> (LegacyBlock \<times> bytes) set \<Rightarrow> bool" for H where
  lock: "blockHash H b = (Ok h :: (signer_error, Hash) outcome) \<Longrightarrow> lockBlockHeight r (lh_Height (lb_BlockHeader b)) h tab = (ok, tab') \<Longrightarrow>
    signStep H (tab, W, S) (tab', if ok then insert b W else W, S)"
| sign: "b \<in> W \<Longrightarrow> signWith s b = Ok sig \<Longrightarrow> signStep H (tab, W, S) (tab, W, insert (b, sig) S)"

definition lockedOK :: "(bytes \<Rightarrow> bytes) \<Rightarrow> signedBlocks \<times> LegacyBlock set \<times> (LegacyBlock \<times> bytes) set \<Rightarrow> bool" where
  "lockedOK H = (\<lambda>(tab, W, S). fst ` S \<subseteq> W \<and>
     (\<forall>b \<in> W. \<exists>h. blockHash H b = (Ok h :: (signer_error, Hash) outcome) \<and> tab (lh_Height (lb_BlockHeader b)) = Some h))"

lemma signStep_locked: "signStep H x y \<Longrightarrow> lockedOK H x \<Longrightarrow> lockedOK H y"
proof (induction rule: signStep.induct)
  case (lock b h r tab ok tab' W S)
  note k = lockBlockHeight_keeps [OF lock(2)]
  have "\<exists>h. blockHash H c = (Ok h :: (signer_error, Hash) outcome) \<and> tab' (lh_Height (lb_BlockHeader c)) = Some h" if "c \<in> (if ok then insert b W else W)" for c
  proof (cases "c \<in> W")
    case True
    with lock(3) k show ?thesis by (auto simp: lockedOK_def keepsRows_def)
  next
    case False
    with that k lock(1) show ?thesis by (auto split: if_splits)
  qed
  then show ?case using lock(3) by (auto simp: lockedOK_def)
qed (auto simp: lockedOK_def)

lemma signSteps_locked: "(signStep H)\<^sup>*\<^sup>* x y \<Longrightarrow> lockedOK H x \<Longrightarrow> lockedOK H y"
  by (induction rule: rtranclp_induct) (auto intro: signStep_locked)

definition signs :: "LegacyBlock \<Rightarrow> (signer_error, bytes) outcome \<Rightarrow> (LegacyBlock \<times> bytes) set" where
  "signs b res = (case res of Ok sig \<Rightarrow> {(b, sig)} | _ \<Rightarrow> {})"

lemma signs_simps [simp]: "signs b (Ok sig) = {(b, sig)}" "signs b (Fail e) = {}" "signs b Crash = {}" "signs b Diverge = {}"
  by (simp_all add: signs_def)

lemma lockAndSign_steps:
  assumes "lockAndSign H s r b tab = (res, tab')"
  shows "\<exists>W'. (signStep H)\<^sup>*\<^sup>* (tab, W, S) (tab', W', S \<union> signs b res)"
proof (cases "blockHash H b :: (signer_error, Hash) outcome")
  case (Ok h)
  obtain ok where l: "lockBlockHeight r (lh_Height (lb_BlockHeader b)) h tab = (ok, tab')" and res: "res = (if ok then signWith s b else Fail LockFailed)"
    using assms Ok by (auto simp: lockAndSign_def split: prod.splits)
  have one: "signStep H (tab, W, S) (tab', if ok then insert b W else W, S)" by (rule signStep.lock [OF Ok l])
  show ?thesis
  proof (cases "ok \<and> (\<exists>sig. res = Ok sig)")
    case True
    then obtain sig where sig: "ok" "res = Ok sig" by blast
    then have "signStep H (tab', insert b W, S) (tab', insert b W, insert (b, sig) S)" using res by (intro signStep.sign [of b _ s]) simp_all
    with one sig show ?thesis by (intro exI [of _ "insert b W"]) (auto intro: rtranclp.rtrancl_into_rtrancl)
  next
    case False
    then have "signs b res = {}" using res by (auto simp: signs_def split: outcome.splits if_splits)
    with one show ?thesis by (auto intro!: exI [of _ "if ok then insert b W else W"])
  qed
qed (use assms in \<open>auto simp: lockAndSign_def\<close>)

lemma ValidateAndSignBlock_Ok:
  assumes "ValidateAndSignBlock E s r waited b (c, tab) = (res, (c', tab'))"
  shows "tab' = tab \<and> signs b res = {} \<or> lockAndSign (env_H E) s r b tab = (res, tab')"
proof -
  obtain g c1 where g: "st_GetBlock (env_store E) (lh_Height (lb_BlockHeader b) - 1) (ch_store c) = (g, c1)" by force
  obtain v c2 where v: "ValidateBlockForSig E b (c\<lparr>ch_store := c1\<rparr>) = (v, c2)" by force
  show ?thesis using assms g v
    by (cases waited; cases g; cases v)
      (auto simp: ValidateAndSignBlock_def bindA_def pureA_def failIf_def onChain_def onStore_def mapFail_def split: if_splits prod.splits)
qed

text \<open>
  C7. A signer signs one block per height: whatever calls of \<open>SignBlock\<close> and \<open>ValidateAndSignBlock\<close> run at the same time on one table, and
  whatever statements fail, two blocks of the same height that were signed have the same hash. The calls are sequences of the steps.
\<close>

theorem signer_signs_once:
  assumes "(signStep H)\<^sup>*\<^sup>* (tab0, {}, {}) (tab, W, S)"
  shows "((b1, sig1) \<in> S \<and> (b2, sig2) \<in> S \<and> lh_Height (lb_BlockHeader b1) = lh_Height (lb_BlockHeader b2) \<longrightarrow>
      blockHash H b1 = (blockHash H b2 :: (signer_error, Hash) outcome)) \<and>
    (SignBlock H order s r text tab = (res, tab') \<and> BlockUnmarshalText H order text = Ok b \<longrightarrow>
      (\<exists>W'. (signStep H)\<^sup>*\<^sup>* (tab, W, S) (tab', W', S \<union> signs b res))) \<and>
    (ValidateAndSignBlock E s r waited b (c, tab) = (res, (c', tab')) \<and> env_H E = H \<longrightarrow>
      (\<exists>W'. (signStep H)\<^sup>*\<^sup>* (tab, W, S) (tab', W', S \<union> signs b res)))"
proof -
  have ok: "lockedOK H (tab, W, S)" by (rule signSteps_locked [OF assms]) (simp add: lockedOK_def)
  have locked: "\<exists>h. blockHash H b = (Ok h :: (signer_error, Hash) outcome) \<and> tab (lh_Height (lb_BlockHeader b)) = Some h" if "(b, sig) \<in> S" for b sig
    using ok that by (force simp: lockedOK_def)
  show ?thesis
  proof (intro conjI impI; elim conjE)
    show "blockHash H b1 = (blockHash H b2 :: (signer_error, Hash) outcome)"
      if "(b1, sig1) \<in> S" "(b2, sig2) \<in> S" "lh_Height (lb_BlockHeader b1) = lh_Height (lb_BlockHeader b2)"
      using locked [OF that(1)] locked [OF that(2)] that(3) by auto
    show "\<exists>W'. (signStep H)\<^sup>*\<^sup>* (tab, W, S) (tab', W', S \<union> signs b res)"
      if "SignBlock H order s r text tab = (res, tab')" "BlockUnmarshalText H order text = Ok b"
      using that lockAndSign_steps [of H s r b tab res tab' W S] by (simp add: SignBlock_def bindA_def pureA_def mapFail_def)
    show "\<exists>W'. (signStep H)\<^sup>*\<^sup>* (tab, W, S) (tab', W', S \<union> signs b res)"
      if "ValidateAndSignBlock E s r waited b (c, tab) = (res, (c', tab'))" "env_H E = H"
      using ValidateAndSignBlock_Ok [OF that(1)] that(2) lockAndSign_steps [of H s r b tab res tab' W S] by auto
  qed
qed

text \<open>A key that signs with the bytes of the previous hash, and a block it signs.\<close>

definition sampleSigner :: BlockSigner where
  "sampleSigner = \<lparr>bs_Pub = [1], bs_hsm = (\<lambda>pub bh. Some (pub @ Byte32 (lh_PreviousBlockHash bh)))\<rparr>"

lemma sample_unmarshals: "BlockUnmarshalText (\<lambda>_. []) id (hexEncode (snd (writeStrictly (\<lambda>_. []) sampleBlock []))) = Ok sampleBlock"
proof -
  have "soundBlock (\<lambda>_. []) id sampleBlock" by (simp add: soundBlock_def sampleBlock_def)
  from block_encoding_roundtrip [OF sample_written this sample_short, of "[]"] show ?thesis
    by (simp add: BlockUnmarshalText_def mapError_def noTrailing_def)
qed

lemma sample_hash: "\<exists>h. blockHash (\<lambda>_. []) sampleBlock = (Ok h :: (signer_error, Hash) outcome)"
  using hashable_maps [of sampleBlock "\<lambda>_. []"] by (auto simp: hashable_def sampleBlock_def MapBlock_def blockHash_def bindO_Ok_iff)

theorem signer_signs_once_witness:
  "\<exists>tab W sig. (signStep (\<lambda>_. []))\<^sup>*\<^sup>* (Map.empty, {}, {}) (tab, W, {(sampleBlock, sig)})"
proof -
  let ?text = "hexEncode (snd (writeStrictly (\<lambda>_. []) sampleBlock []))"
  obtain h where h: "blockHash (\<lambda>_. []) sampleBlock = (Ok h :: (signer_error, Hash) outcome)" using sample_hash by blast
  have "\<exists>sig tab'. SignBlock (\<lambda>_. []) id sampleSigner Done ?text Map.empty = (Ok sig, tab')"
    by (simp add: SignBlock_def bindA_def pureA_def mapFail_def sample_unmarshals lockAndSign_def h lockBlockHeight_def signWith_def sampleSigner_def)
  then obtain sig tab' where "SignBlock (\<lambda>_. []) id sampleSigner Done ?text Map.empty = (Ok sig, tab')" by blast
  with signer_signs_once [OF rtranclp.rtrancl_refl [of "signStep (\<lambda>_. [])" "(Map.empty, {}, {})"]] sample_unmarshals show ?thesis by fastforce
qed

end
