(* ===== verification/Generator.thy ===== *)
theory Generator
  imports Chain_Recover Legacy_Text Database
begin

text \<open>
  The block generator, \<^verbatim>\<open>core/generator/generator.go\<close> and \<^verbatim>\<open>block.go\<close>: it collects transactions, makes a block of them, saves it as
  pending, asks the signers, and commits it. After a crash it goes on with the pending block.
\<close>

section \<open>State\<close>

text \<open>
  The table \<^verbatim>\<open>generator_pending_block\<close> has at most one row, with a height that may be null in old rows. A signer gets the text of the
  block and returns a signature or nothing.
\<close>

type_synonym pendingRow = "(bytes \<times> uint64 option) option"

record ('st, 'lru) Generator =
  gen_db :: pendingRow
  gen_chain :: "('st, 'lru) Chain"
  gen_signers :: "(bytes \<Rightarrow> bytes option) list"
  gen_pool :: "LegacyTx list"
  gen_poolHashes :: "Hash set"

datatype gen_error = ErrTooFewSigners | ErrDuplicateBlock | QueryFailed | BadPendingData text_error | InsertFailed | RowsAffectedFailed
  | GenerateFailed chain_error | ParseFailed vmutil_error | MarshalFailed text_error | TooFewSignatures int int64 | CommitFailed chain_error

type_synonym ('st, 'lru, 'a) genAction = "(('st, 'lru) Generator, gen_error, 'a) action"

definition NewGenerator :: "('st, 'lru) Chain \<Rightarrow> pendingRow \<Rightarrow> ('st, 'lru) Generator" where
  "NewGenerator c db = \<lparr>gen_db = db, gen_chain = c, gen_signers = [], gen_pool = [], gen_poolHashes = {}\<rparr>"

section \<open>The pool\<close>

definition PendingTxs :: "('st, 'lru) Generator \<Rightarrow> LegacyTx list" where
  "PendingTxs g = gen_pool g"

definition Submit :: "LegacyTx \<Rightarrow> ('st, 'lru) Generator \<Rightarrow> ('st, 'lru) Generator" where
  "Submit tx g = (if tx_ID (lt_Tx tx) \<in> gen_poolHashes g then g
     else g\<lparr>gen_poolHashes := insert (tx_ID (lt_Tx tx)) (gen_poolHashes g), gen_pool := gen_pool g @ [tx]\<rparr>)"

section \<open>The pending block\<close>

definition getPendingBlock :: "(bytes \<Rightarrow> bytes) \<Rightarrow> (Hash list \<Rightarrow> Hash list) \<Rightarrow> bool \<Rightarrow> pendingRow \<Rightarrow> (gen_error, LegacyBlock option) outcome" where
  "getPendingBlock H order ok db =
     (if \<not> ok then Fail QueryFailed
      else case db of None \<Rightarrow> Ok None
        | Some (data, _) \<Rightarrow> bindO (mapFail BadPendingData (BlockScan H order (Some data))) (\<lambda>b. Ok (Some b)))"

text \<open>The statement replaces the row by one of a greater height only. Whether the number of rows can be told is a parameter.\<close>

definition savePendingBlock :: "(bytes \<Rightarrow> bytes) \<Rightarrow> exec \<Rightarrow> bool \<Rightarrow> LegacyBlock \<Rightarrow> (pendingRow, gen_error, unit) action" where
  "savePendingBlock H r counted b db = (case BlockValue H b of
       Ok data \<Rightarrow>
         let height = lh_Height (lb_BlockHeader b);
             affected = (case db of None \<Rightarrow> True | Some (_, h) \<Rightarrow> (case h of None \<Rightarrow> 0 | Some h \<Rightarrow> h) < height);
             db' = (if tookEffect r \<and> affected then Some (data, Some height) else db)
         in (if execError r then Fail InsertFailed else if \<not> counted then Fail RowsAffectedFailed
             else if \<not> affected then Fail ErrDuplicateBlock else Ok (), db')
     | Fail _ \<Rightarrow> (Fail InsertFailed, db) | Crash \<Rightarrow> (Crash, db) | Diverge \<Rightarrow> (Diverge, db))"

section \<open>Signatures\<close>

definition indexKey :: "prims \<Rightarrow> bytes list \<Rightarrow> bytes \<Rightarrow> bytes \<Rightarrow> int" where
  "indexKey P ks msg sig = (case find (\<lambda>i. ed25519_Verify P (ks ! i) msg sig) [0..<length ks] of None \<Rightarrow> -1 | Some i \<Rightarrow> int i)"

definition nonNilSigs :: "bytes option list \<Rightarrow> bytes list" where
  "nonNilSigs a = map the (filter (\<lambda>p. p \<noteq> None) a)"

text \<open>The loop over the replies in the order of their arrival.\<close>

fun collectSigs :: "prims \<Rightarrow> bytes list \<Rightarrow> bytes \<Rightarrow> int64 \<Rightarrow> bytes option list \<Rightarrow> bytes option list \<Rightarrow> int \<Rightarrow> bytes option list \<times> int" where
  "collectSigs P ks msg quorum [] good nready = (good, nready)"
| "collectSigs P ks msg quorum (reply # replies) good nready =
     (if \<not> nready < quorum then (good, nready)
      else case reply of None \<Rightarrow> collectSigs P ks msg quorum replies good nready
        | Some sig \<Rightarrow>
            let k = indexKey P ks msg sig in
            if k \<ge> 0 \<and> good ! nat k = None then collectSigs P ks msg quorum replies (good[nat k := Some sig]) (nready + 1)
            else collectSigs P ks msg quorum replies good nready)"

text \<open>\<open>arrival\<close> is the order in which the signers answer. The result is the block with its witness.\<close>

definition getAndAddBlockSignatures :: "('st, 'lru) env \<Rightarrow> nat list \<Rightarrow> (bytes \<Rightarrow> bytes option) list \<Rightarrow> LegacyBlock \<Rightarrow> LegacyBlock option \<Rightarrow>
    (gen_error, LegacyBlock) outcome" where
  "getAndAddBlockSignatures E arrival signers b prevBlock =
     (if prevBlock = None \<and> lh_Height (lb_BlockHeader b) = 1 then Ok b
      else bindO (deref prevBlock) (\<lambda>prev.
        case ParseBlockMultiSigProgram (bcm_ConsensusProgram (lh_BlockCommitment (lb_BlockHeader prev))) of
          UErr e \<Rightarrow> Fail (ParseFailed e) | UPanic \<Rightarrow> Crash
        | UOk (pubkeys, quorum) \<Rightarrow>
            if int (length signers) < quorum then Fail ErrTooFewSigners
            else bindO (blockHash (env_H E) b) (\<lambda>hashForSig.
              bindO (mapFail MarshalFailed (BlockMarshalText (env_H E) b)) (\<lambda>marshalledBlock.
                let (good, nready) = collectSigs (env_prims E) pubkeys (Byte32 hashForSig) quorum
                      (map (\<lambda>i. (signers ! i) marshalledBlock) arrival) (replicate (length pubkeys) None) 0
                in if nready < quorum then Fail (TooFewSignatures nready quorum)
                   else Ok (b\<lparr>lb_BlockHeader := (lb_BlockHeader b)\<lparr>lh_Witness := nonNilSigs good\<rparr>\<rparr>)))))"

section \<open>Making a block\<close>

definition onDb :: "(pendingRow, gen_error, 'a) action \<Rightarrow> ('st, 'lru, 'a) genAction" where
  "onDb m g = (case m (gen_db g) of (r, db) \<Rightarrow> (r, g\<lparr>gen_db := db\<rparr>))"

definition onGenChain :: "(chain_error \<Rightarrow> gen_error) \<Rightarrow> (('st, 'lru) Chain, chain_error, 'a) action \<Rightarrow> ('st, 'lru, 'a) genAction" where
  "onGenChain f m g = (case m (gen_chain g) of (r, c) \<Rightarrow> (mapFail f r, g\<lparr>gen_chain := c\<rparr>))"

definition commitBlock :: "('st, 'lru) env \<Rightarrow> nat list \<Rightarrow> LegacyBlock \<Rightarrow> Snapshot \<Rightarrow> LegacyBlock option \<Rightarrow> ('st, 'lru, bytes) genAction" where
  "commitBlock E arrival b s prevBlock =
     bindA (\<lambda>g. (getAndAddBlockSignatures E arrival (gen_signers g) b prevBlock, g)) (\<lambda>b'.
     bindA (onGenChain CommitFailed (CommitAppliedBlock E b' s)) (\<lambda>_.
     pureA (bindO (blockHash (env_H E) b') (\<lambda>h. Ok (Byte32 h)))))"

text \<open>What the database and the signers do during a call: the query, the insertion with the count of rows, the order of the answers.\<close>

record weather =
  we_query :: bool
  we_insert :: exec
  we_counted :: bool
  we_arrival :: "nat list"

text \<open>
  The block to commit with its snapshot: the pending one, whose failure to apply ends the process, or a new one. An empty block is not
  committed.
\<close>

definition takePool :: "('st, 'lru, LegacyTx list) genAction" where
  "takePool g = (Ok (gen_pool g), g\<lparr>gen_pool := [], gen_poolHashes := {}\<rparr>)"

definition resumeBlock :: "('st, 'lru) env \<Rightarrow> LegacyBlock \<Rightarrow> Snapshot option \<Rightarrow> (gen_error, Snapshot) outcome" where
  "resumeBlock E b snapshot = bindO (deref snapshot) (\<lambda>s. bindO (MapBlock (env_H E) b) (\<lambda>be.
     case ApplyBlock (env_H E) be (Copy s) of (Ok _, s') \<Rightarrow> Ok s' | (Diverge, _) \<Rightarrow> Diverge | _ \<Rightarrow> Crash))"

definition freshBlock :: "('st, 'lru) env \<Rightarrow> weather \<Rightarrow> uint64 \<Rightarrow> LegacyBlock option \<Rightarrow> ('st, 'lru, LegacyBlock \<times> Snapshot \<times> bool) genAction" where
  "freshBlock E w time latestBlock =
     bindA takePool (\<lambda>txs.
     bindA (onGenChain GenerateFailed (GenerateBlock E latestBlock time txs)) (\<lambda>(b, s).
     if lb_Transactions b = [] then pureA (Ok (b, s, False))
     else bindA (onDb (savePendingBlock (env_H E) (we_insert w) (we_counted w) b)) (\<lambda>_. pureA (Ok (b, s, True)))))"

definition chooseBlock :: "('st, 'lru) env \<Rightarrow> (Hash list \<Rightarrow> Hash list) \<Rightarrow> weather \<Rightarrow> uint64 \<Rightarrow> LegacyBlock option \<Rightarrow> Snapshot option \<Rightarrow>
    ('st, 'lru, LegacyBlock \<times> Snapshot \<times> bool) genAction" where
  "chooseBlock E order w time latestBlock latestSnapshot =
     bindA (\<lambda>g. (getPendingBlock (env_H E) order (we_query w) (gen_db g), g)) (\<lambda>pending.
     case pending of
       Some b \<Rightarrow>
         if latestBlock = None \<or> lh_Height (lb_BlockHeader b) = lh_Height (lb_BlockHeader (the latestBlock)) + 1
         then bindA (pureA (resumeBlock E b latestSnapshot)) (\<lambda>s. pureA (Ok (b, s, True)))
         else freshBlock E w time latestBlock
     | None \<Rightarrow> freshBlock E w time latestBlock)"

definition MakeBlock :: "('st, 'lru) env \<Rightarrow> (Hash list \<Rightarrow> Hash list) \<Rightarrow> weather \<Rightarrow> uint64 \<Rightarrow> ('st, 'lru, bytes) genAction" where
  "MakeBlock E order w time g =
     (let latestBlock = ch_block (gen_chain g); latestSnapshot = ch_snapshot (gen_chain g) in
      bindA (chooseBlock E order w time latestBlock latestSnapshot) (\<lambda>(b, s, commit).
        if commit then commitBlock E (we_arrival w) b s latestBlock
        else pureA (bindO (blockHash (env_H E) b) (\<lambda>h. Ok (Byte32 h)))) g)"

section \<open>The witness satisfies the consensus program\<close>

lemma indexKey_range:
  assumes "0 \<le> indexKey P ks msg sig"
  shows "nat (indexKey P ks msg sig) < length ks" and "ed25519_Verify P (ks ! nat (indexKey P ks msg sig)) msg sig"
proof -
  obtain i where i: "find (\<lambda>i. ed25519_Verify P (ks ! i) msg sig) [0..<length ks] = Some i"
    using assms by (auto simp: indexKey_def split: option.splits)
  then have "i < length ks \<and> ed25519_Verify P (ks ! i) msg sig" by (auto simp: find_Some_iff)
  then show "nat (indexKey P ks msg sig) < length ks" "ed25519_Verify P (ks ! nat (indexKey P ks msg sig)) msg sig"
    by (simp_all add: indexKey_def i)
qed

definition sigsFit :: "prims \<Rightarrow> bytes \<Rightarrow> bytes list \<Rightarrow> bytes option list \<Rightarrow> bool" where
  "sigsFit P msg ks good \<longleftrightarrow> list_all2 (\<lambda>k g. \<forall>s. g = Some s \<longrightarrow> ed25519_Verify P k msg s) ks good"

lemma sigsFit_update:
  "sigsFit P msg ks good \<Longrightarrow> i < length ks \<Longrightarrow> ed25519_Verify P (ks ! i) msg sig \<Longrightarrow> sigsFit P msg ks (good[i := Some sig])"
  by (auto simp: sigsFit_def list_all2_conv_all_nth nth_list_update)

lemma nonNil_simps [simp]: "nonNilSigs [] = []" "nonNilSigs (None # a) = nonNilSigs a" "nonNilSigs (Some s # a) = s # nonNilSigs a"
  by (simp_all add: nonNilSigs_def)

lemma length_nonNil_update:
  "i < length good \<Longrightarrow> good ! i = None \<Longrightarrow> length (nonNilSigs (good[i := Some s])) = Suc (length (nonNilSigs good))"
proof (induction good arbitrary: i)
  case (Cons g good)
  then show ?case by (cases i; cases g) auto
qed simp

lemma collectSigs_fit:
  assumes "sigsFit P msg ks good" and "int (length (nonNilSigs good)) = n" and "n \<le> quorum"
    and "collectSigs P ks msg quorum replies good n = (good', n')"
  shows "sigsFit P msg ks good' \<and> int (length (nonNilSigs good')) = n' \<and> n' \<le> quorum"
  using assms
proof (induction P ks msg quorum replies good n rule: collectSigs.induct)
  case (2 P ks msg quorum reply replies good n)
  have len: "length good = length ks" using 2(4) by (simp add: sigsFit_def list_all2_lengthD)
  show ?case
  proof (cases "\<exists>sig. n < quorum \<and> reply = Some sig \<and> 0 \<le> indexKey P ks msg sig \<and> good ! nat (indexKey P ks msg sig) = None")
    case True
    then obtain sig where sig: "n < quorum" "reply = Some sig" "0 \<le> indexKey P ks msg sig" "good ! nat (indexKey P ks msg sig) = None" by blast
    note i = indexKey_range [OF sig(3)]
    show ?thesis using 2(2) [OF _ sig(2) refl] sig i len 2(4-7) sigsFit_update [OF 2(4) i] length_nonNil_update [of "nat (indexKey P ks msg sig)" good sig]
      by (simp add: Let_def)
  next
    case False
    with 2(1,3-7) show ?thesis by (auto simp: Let_def split: option.splits if_splits)
  qed
qed simp

lemma sigsFit_multisig: "sigsFit P msg ks good \<Longrightarrow> multisig_ok P msg (nonNilSigs good) ks"
proof (unfold sigsFit_def, induction ks good rule: list_all2_induct)
  case (Cons k ks g good)
  then show ?case
  proof (cases g)
    case None
    with Cons show ?thesis by (cases "nonNilSigs good") (auto simp: multisig_ok_Cons)
  qed (auto simp: multisig_ok_Cons)
qed simp

lemma sigsFit_none: "sigsFit P msg ks (replicate (length ks) None)" "nonNilSigs (replicate n None) = []"
  by (simp add: sigsFit_def list_all2_conv_all_nth) (induction n, simp_all)

lemma sigsFit_verify: "sigsFit P msg ks good \<Longrightarrow> s \<in> set (nonNilSigs good) \<Longrightarrow> \<exists>k. ed25519_Verify P k msg s"
proof (unfold sigsFit_def, induction ks good rule: list_all2_induct)
  case (Cons k ks g good)
  then show ?case by (cases g) auto
qed simp

text \<open>The ID of a block does not depend on its witness.\<close>

lemma entryID_witness: "entryID H (Some (EBlockHeader (bh\<lparr>bh_WitnessArguments := w\<rparr>))) = entryID H (Some (EBlockHeader bh))"
  by (simp add: entryID_def)

lemma MapBlock_witness:
  assumes "blockHash H b = (Ok h :: ('e, Hash) outcome)" and "b' = b\<lparr>lb_BlockHeader := (lb_BlockHeader b)\<lparr>lh_Witness := w\<rparr>\<rparr>"
    and "MapBlock H b' = (Ok be :: ('f, Block) outcome)"
  shows "blk_ID be = h \<and> bh_WitnessArguments (blk_BlockHeader be) = w"
proof -
  define bh where "bh = NewBlockHeader (lh_Version (lb_BlockHeader b)) (lh_Height (lb_BlockHeader b)) (lh_PreviousBlockHash (lb_BlockHeader b))
      (lh_TimestampMS (lb_BlockHeader b)) (bcm_TransactionsMerkleRoot (lh_BlockCommitment (lb_BlockHeader b)))
      (bcm_AssetsMerkleRoot (lh_BlockCommitment (lb_BlockHeader b))) (bcm_ConsensusProgram (lh_BlockCommitment (lb_BlockHeader b)))"
  have "entryID H (Some (EBlockHeader bh)) = (Ok h :: ('e, Hash) outcome)"
    using assms(1) by (auto simp: blockHash_def mapBlockHeader_def Let_def bindO_Ok_iff entryID_witness bh_def [symmetric])
  then have "entryID H (Some (EBlockHeader bh)) = (Ok h :: ('f, Hash) outcome)" by (rule entryID_other_error)
  then show ?thesis using assms(2,3) by (auto simp: MapBlock_def mapBlockHeader_def Let_def bindO_Ok_iff entryID_witness bh_def [symmetric])
qed

text \<open>The length of a block program of at most eight keys.\<close>

lemma block_program_short:
  assumes "BlockMultiSigProgram ks n = UOk prog" and "\<forall>k \<in> set ks. length k = PublicKeySize" and "length ks \<le> 8"
  shows "length prog \<le> 2147483647"
proof -
  have prog: "prog = [OP_BLOCKHASH] @ concat (map PushdataBytes ks) @ PushdataInt64 n @ PushdataInt64 (int (length ks)) @ [OP_CHECKMULTISIG]"
    using assms(1) by (auto simp: Block_chunks multisigChunks_def)
  have "length (concat (map PushdataBytes ks)) = 33 * length ks"
    using assms(2) by (induction ks) (auto simp: PublicKeySize_def PushdataBytes_def Let_def)
  moreover have "length (PushdataInt64 i) \<le> 13" for i
    using length_PushdataBytes [of "Int64Bytes i"] length_Int64Bytes [of i] by (auto simp: PushdataInt64_def)
  from this [of n] this [of "int (length ks)"] have "length (PushdataInt64 n) + length (PushdataInt64 (int (length ks))) \<le> 26" by linarith
  ultimately show ?thesis using assms(3) by (simp add: prog)
qed

lemma itemsCost_signatures: "\<forall>s \<in> set sigs. length s = 64 \<Longrightarrow> itemsCost sigs = 72 * int (length sigs)"
  by (induction sigs) (auto simp: itemCost_def)

lemma signatures_collected:
  assumes "BlockMultiSigProgram ks quorum = UOk prog" and "\<forall>k \<in> set ks. length k = PublicKeySize" and "length ks \<le> 8"
    and "bcm_ConsensusProgram (lh_BlockCommitment (lb_BlockHeader prev)) = prog"
    and "getAndAddBlockSignatures E arrival signers b (Some prev) = Ok b'"
  obtains h sigs where "blockHash (env_H E) b = (Ok h :: (gen_error, Hash) outcome)" "b' = b\<lparr>lb_BlockHeader := (lb_BlockHeader b)\<lparr>lh_Witness := sigs\<rparr>\<rparr>"
    "int (length sigs) = quorum" "multisig_ok (env_prims E) (Byte32 h) sigs ks" "\<forall>s \<in> set sigs. \<exists>k. ed25519_Verify (env_prims E) k (Byte32 h) s"
proof -
  have parse: "ParseBlockMultiSigProgram prog = UOk (ks, quorum)"
    using ParseBlock_built [OF assms(1) _ block_program_short [OF assms(1-3)]] assms(2) by (simp add: PublicKeySize_def)
  have q: "0 \<le> quorum" using assms(1) by (simp add: Block_chunks checkMultiSigParams_None)
  from assms(5) obtain h mb good n where h: "blockHash (env_H E) b = (Ok h :: (gen_error, Hash) outcome)"
    and c: "collectSigs (env_prims E) ks (Byte32 h) quorum (map (\<lambda>i. (signers ! i) mb) arrival) (replicate (length ks) None) 0 = (good, n)"
    and n: "\<not> n < quorum" and b': "b' = b\<lparr>lb_BlockHeader := (lb_BlockHeader b)\<lparr>lh_Witness := nonNilSigs good\<rparr>\<rparr>"
    by (auto simp: getAndAddBlockSignatures_def assms(4) parse bindO_Ok_iff case_prod_unfold Let_def split: if_splits) (metis prod.collapse)
  note fit = collectSigs_fit [OF sigsFit_none(1) _ q c]
  with that [OF h b'] n show ?thesis using sigsFit_multisig sigsFit_verify by (fastforce simp: sigsFit_none(2))
qed

text \<open>
  C11. The signatures that the generator collects satisfy the consensus program: if the previous block asks for a quorum of at most eight keys
  and collecting succeeds, the witness has exactly as many signatures as the quorum, and signature validation accepts the block, in whatever order the
  signers answered and whatever they sent. (Signatures that verify have 64 bytes.)
\<close>

theorem collected_signatures_accepted:
  assumes "BlockMultiSigProgram ks quorum = UOk prog" and "\<forall>k \<in> set ks. length k = PublicKeySize" and "length ks \<le> 8"
    and "bcm_ConsensusProgram (lh_BlockCommitment (lb_BlockHeader prev)) = prog"
    and "getAndAddBlockSignatures E arrival signers b (Some prev) = Ok b'"
    and "\<And>k m s. ed25519_Verify (env_prims E) k m s \<Longrightarrow> length s = 64"
    and "MapBlock (env_H E) b' = (Ok be :: (chain_error, Block) outcome)" and "length ks + 4 < F"
  shows "ValidateBlockSig (env_prims E) F be prog = Ok () \<and> int (length (lh_Witness (lb_BlockHeader b'))) = quorum"
proof -
  from signatures_collected [OF assms(1-5)] obtain h sigs where s: "blockHash (env_H E) b = (Ok h :: (gen_error, Hash) outcome)"
    "b' = b\<lparr>lb_BlockHeader := (lb_BlockHeader b)\<lparr>lh_Witness := sigs\<rparr>\<rparr>" "int (length sigs) = quorum"
    "multisig_ok (env_prims E) (Byte32 h) sigs ks" "\<forall>s \<in> set sigs. \<exists>k. ed25519_Verify (env_prims E) k (Byte32 h) s" .
  have be: "blk_ID be = h" "bh_WitnessArguments (blk_BlockHeader be) = sigs" using MapBlock_witness [OF s(1,2) assms(7)] by simp_all
  have few: "length sigs \<le> length ks" using assms(1) s(3) by (auto simp: Block_chunks checkMultiSigParams_None)
  have cost: "itemsCost sigs = 72 * int (length sigs)" using s(5) assms(6) by (intro itemsCost_signatures) blast
  have "Verify (env_prims E) F (newBlockVMContext be prog sigs) = Ret ()"
    using block_program_verdict [of ks sigs prog "newBlockVMContext be prog sigs" "Byte32 h" F "env_prims E"] assms(1-3,8) s(3,4) few
    by (simp add: cost newBlockVMContext_def bareContext_def be initialRunLimit_def)
  then show ?thesis by (simp add: ValidateBlockSig_def be fromRes_def s(2,3))
qed

text \<open>Two signers of which the second answers first.\<close>

definition keyPrims :: prims where
  "keyPrims = \<lparr>sha256 = id, sha3_256 = id, ed25519_Verify = \<lambda>k m s. length s = 64 \<and> s = k @ m\<rparr>"

definition twoKeys :: "bytes list" where
  "twoKeys = [replicate 32 1, replicate 32 2]"

definition twoKeysBlock :: LegacyBlock where
  "twoKeysBlock = sampleBlock\<lparr>lb_BlockHeader := (lb_BlockHeader sampleBlock)\<lparr>lh_BlockCommitment := (lh_BlockCommitment (lb_BlockHeader sampleBlock))
     \<lparr>bcm_ConsensusProgram := concat (multisigChunks [OP_BLOCKHASH] twoKeys 2 [OP_CHECKMULTISIG])\<rparr>\<rparr>\<rparr>"

lemma twoKeys_program: "BlockMultiSigProgram twoKeys 2 = UOk (concat (multisigChunks [OP_BLOCKHASH] twoKeys 2 [OP_CHECKMULTISIG]))"
  "\<forall>k \<in> set twoKeys. length k = PublicKeySize" "length twoKeys \<le> 8"
  by (simp_all add: Block_chunks checkMultiSigParams_None twoKeys_def PublicKeySize_def)

lemma twoKeys_sign:
  "collectSigs keyPrims twoKeys (Byte32 h) 2 [Some (replicate 32 2 @ Byte32 h), Some (replicate 32 1 @ Byte32 h)] [None, None] 0 =
    ([Some (replicate 32 1 @ Byte32 h), Some (replicate 32 2 @ Byte32 h)], 2)"
proof -
  have ne: "(1 :: byte) \<noteq> 2" by simp
  have "indexKey keyPrims twoKeys (Byte32 h) (replicate 32 2 @ Byte32 h) = 1" "indexKey keyPrims twoKeys (Byte32 h) (replicate 32 1 @ Byte32 h) = 0"
    using ne by (simp_all add: indexKey_def keyPrims_def twoKeys_def upt_rec)
  then show ?thesis by simp
qed

theorem collected_signatures_accepted_witness:
  "\<exists>signers b' be. getAndAddBlockSignatures (sampleEnv\<lparr>env_prims := keyPrims\<rparr>) [1, 0] signers sampleBlock (Some twoKeysBlock) = Ok b' \<and>
     MapBlock (env_H sampleEnv) b' = (Ok be :: (chain_error, Block) outcome) \<and>
     ValidateBlockSig keyPrims 10 be (bcm_ConsensusProgram (lh_BlockCommitment (lb_BlockHeader twoKeysBlock))) = Ok () \<and>
     length (lh_Witness (lb_BlockHeader b')) = 2"
proof -
  let ?E = "sampleEnv\<lparr>env_prims := keyPrims\<rparr>" and ?prog = "concat (multisigChunks [OP_BLOCKHASH] twoKeys 2 [OP_CHECKMULTISIG])"
  obtain h where h: "blockHash (env_H ?E) sampleBlock = (Ok h :: (gen_error, Hash) outcome)"
    using hashable_maps [of sampleBlock "env_H ?E"] by (auto simp: hashable_def sampleBlock_def MapBlock_def blockHash_def bindO_Ok_iff)
  let ?signers = "map (\<lambda>k mb. Some (k @ Byte32 h)) twoKeys"
  have prog: "bcm_ConsensusProgram (lh_BlockCommitment (lb_BlockHeader twoKeysBlock)) = ?prog" by (simp add: twoKeysBlock_def)
  have parse: "ParseBlockMultiSigProgram ?prog = UOk (twoKeys, 2)"
    using ParseBlock_built [OF twoKeys_program(1) _ block_program_short [OF twoKeys_program]] twoKeys_program(2) by (simp add: PublicKeySize_def)
  have "BlockWriteTo (env_H ?E) sampleBlock = BlockWriteTo (\<lambda>_. []) sampleBlock" by (simp add: BlockWriteTo_def sampleBlock_def)
  then obtain mb where mb: "BlockMarshalText (env_H ?E) sampleBlock = Ok mb"
    using writeStrictly_Ok [OF sample_written] by (auto simp: BlockMarshalText_def toBuffer_def mapError_def)
  let ?b' = "sampleBlock\<lparr>lb_BlockHeader := (lb_BlockHeader sampleBlock)\<lparr>lh_Witness := [replicate 32 1 @ Byte32 h, replicate 32 2 @ Byte32 h]\<rparr>\<rparr>"
  have get: "getAndAddBlockSignatures ?E [1, 0] ?signers sampleBlock (Some twoKeysBlock) = Ok ?b'"
  proof -
    have "map (\<lambda>i. (?signers ! i) mb) [1, 0] = [Some (replicate 32 2 @ Byte32 h), Some (replicate 32 1 @ Byte32 h)]"
      and "replicate (length twoKeys) None = [None :: bytes option, None]" and "length twoKeys = 2" by (simp_all add: twoKeys_def numeral_2_eq_2)
    then show ?thesis using h mb
      by (simp add: getAndAddBlockSignatures_def prog parse mapFail_def Let_def twoKeys_sign del: collectSigs.simps)
  qed
  obtain be where be: "MapBlock (env_H ?E) ?b' = (Ok be :: (chain_error, Block) outcome)"
    using hashable_maps [of ?b' "env_H ?E"] by (auto simp: hashable_def sampleBlock_def)
  have "ValidateBlockSig (env_prims ?E) 10 be ?prog = Ok () \<and> int (length (lh_Witness (lb_BlockHeader ?b'))) = 2"
    by (rule collected_signatures_accepted [OF twoKeys_program prog get _ be]) (simp_all add: keyPrims_def twoKeys_def)
  with get prog be show ?thesis by (intro exI [of _ ?signers] exI [of _ ?b'] exI [of _ be]) simp
qed

section \<open>One block per height is offered for signing\<close>

definition storable :: "(bytes \<Rightarrow> bytes) \<Rightarrow> (Hash list \<Rightarrow> Hash list) \<Rightarrow> LegacyBlock \<Rightarrow> bool" where
  "storable H order b \<longleftrightarrow> (\<forall>data. BlockValue H b = Ok data \<longrightarrow> BlockScan H order (Some data) = Ok b)"

text \<open>
  Statements of any number of generators on the table, and the blocks that were read or saved, which are those the signers may be asked
  to sign.
\<close>

inductive pendStep :: "(bytes \<Rightarrow> bytes) \<Rightarrow> (Hash list \<Rightarrow> Hash list) \<Rightarrow> pendingRow \<times> LegacyBlock set \<Rightarrow> pendingRow \<times> LegacyBlock set \<Rightarrow> bool" for H order where
  resume: "getPendingBlock H order ok db = Ok (Some b) \<Longrightarrow> pendStep H order (db, S) (db, insert b S)"
| save: "savePendingBlock H r counted b db = (res, db') \<Longrightarrow> storable H order b \<Longrightarrow>
    pendStep H order (db, S) (db', if res = Ok () then insert b S else S)"

text \<open>The row has the block of the greatest height offered so far, and there is no other block of this height.\<close>

definition pendOK :: "(bytes \<Rightarrow> bytes) \<Rightarrow> (Hash list \<Rightarrow> Hash list) \<Rightarrow> pendingRow \<times> LegacyBlock set \<Rightarrow> bool" where
  "pendOK H order = (\<lambda>(db, S). (\<forall>b \<in> S. \<forall>b' \<in> S. lh_Height (lb_BlockHeader b) = lh_Height (lb_BlockHeader b') \<longrightarrow> b = b') \<and>
     (case db of None \<Rightarrow> S = {}
      | Some (data, h) \<Rightarrow> \<exists>b. BlockScan H order (Some data) = Ok b \<and> h = Some (lh_Height (lb_BlockHeader b)) \<and>
          (\<forall>b' \<in> S. lh_Height (lb_BlockHeader b') \<le> lh_Height (lb_BlockHeader b) \<and> (lh_Height (lb_BlockHeader b') = lh_Height (lb_BlockHeader b) \<longrightarrow> b' = b))))"

lemma savePending_facts:
  assumes "savePendingBlock H r counted b db = (res, db')"
  shows "(db' = db \<and> res \<noteq> Ok ()) \<or> (\<exists>data. BlockValue H b = Ok data \<and> db' = Some (data, Some (lh_Height (lb_BlockHeader b))) \<and>
    (case db of None \<Rightarrow> True | Some (_, h) \<Rightarrow> (case h of None \<Rightarrow> 0 | Some h \<Rightarrow> h) < lh_Height (lb_BlockHeader b)))"
  using assms by (cases r) (auto simp: savePendingBlock_def Let_def split: outcome.splits if_splits option.splits)

lemma pendStep_ok: "pendStep H order x y \<Longrightarrow> pendOK H order x \<Longrightarrow> pendOK H order y"
proof (induction rule: pendStep.induct)
  case (resume ok db b S)
  from resume(1) obtain data h where db: "db = Some (data, h)" "BlockScan H order (Some data) = Ok b"
    by (auto simp: getPendingBlock_def mapFail_def bindO_Ok_iff split: if_splits option.splits outcome.splits)
  with resume(2) show ?case by (auto simp: pendOK_def)
next
  case (save r counted b db res db' S)
  let ?h = "lh_Height (lb_BlockHeader b)"
  show ?case
  proof (cases "db' = db \<and> res \<noteq> Ok ()")
    case True
    with save(3) show ?thesis by simp
  next
    case False
    with savePending_facts [OF save(1)] obtain data where d: "BlockValue H b = Ok data" "db' = Some (data, Some ?h)"
      and above: "case db of None \<Rightarrow> True | Some (_, h) \<Rightarrow> (case h of None \<Rightarrow> 0 | Some h \<Rightarrow> h) < ?h" by blast
    have scan: "BlockScan H order (Some data) = Ok b" using save(2) d(1) by (simp add: storable_def)
    have below: "lh_Height (lb_BlockHeader b') < ?h" if "b' \<in> S" for b'
      using save(3) above that by (auto simp: pendOK_def split: option.splits)
    have "\<forall>b' \<in> S. \<forall>b'' \<in> S. lh_Height (lb_BlockHeader b') = lh_Height (lb_BlockHeader b'') \<longrightarrow> b' = b''"
      using save(3) by (simp add: pendOK_def)
    with scan below d(2) show ?thesis by (fastforce simp: pendOK_def less_imp_le)
  qed
qed

lemma pendSteps_ok: "(pendStep H order)\<^sup>*\<^sup>* x y \<Longrightarrow> pendOK H order x \<Longrightarrow> pendOK H order y"
  by (induction rule: rtranclp_induct) (auto intro: pendStep_ok)

lemma freshBlock_steps:
  assumes "freshBlock E w time latest g = (res, g')"
    and "\<And>b s c. GenerateBlock E latest time (gen_pool g) (gen_chain g) = (Ok (b, s), c) \<Longrightarrow> storable (env_H E) order b"
  shows "\<exists>T. (pendStep (env_H E) order)\<^sup>*\<^sup>* (gen_db g, S) (gen_db g', T) \<and> (\<forall>b s. res = Ok (b, s, True) \<longrightarrow> b \<in> T)"
proof (cases "GenerateBlock E latest time (gen_pool g) (gen_chain g)")
  case (Pair r c)
  show ?thesis
  proof (cases "\<exists>b s. r = Ok (b, s) \<and> lb_Transactions b \<noteq> []")
    case True
    then obtain b s where b: "r = Ok (b, s)" "lb_Transactions b \<noteq> []" by blast
    obtain u db where u: "savePendingBlock (env_H E) (we_insert w) (we_counted w) b (gen_db g) = (u, db)" by force
    have "pendStep (env_H E) order (gen_db g, S) (db, if u = Ok () then insert b S else S)"
      using assms(2) Pair b by (intro pendStep.save [OF u]) simp
    moreover have "gen_db g' = db" "res = Ok (b', s', True) \<Longrightarrow> b' = b \<and> u = Ok ()" for b' s'
      using assms(1) Pair b u by (cases u; auto simp: freshBlock_def takePool_def onGenChain_def onDb_def bindA_def pureA_def mapFail_def)+
    ultimately show ?thesis by (intro exI [of _ "if u = Ok () then insert b S else S"]) auto
  next
    case False
    then have "gen_db g' = gen_db g \<and> (\<nexists>b s. res = Ok (b, s, True))"
      using assms(1) Pair by (cases r) (auto simp: freshBlock_def takePool_def onGenChain_def bindA_def pureA_def mapFail_def)
    then show ?thesis by auto
  qed
qed

lemma chooseBlock_steps:
  assumes "chooseBlock E order w time latest snap g = (res, g')"
    and "\<And>b s c. GenerateBlock E latest time (gen_pool g) (gen_chain g) = (Ok (b, s), c) \<Longrightarrow> storable (env_H E) order b"
  shows "\<exists>T. (pendStep (env_H E) order)\<^sup>*\<^sup>* (gen_db g, S) (gen_db g', T) \<and> (\<forall>b s. res = Ok (b, s, True) \<longrightarrow> b \<in> T)"
proof (cases "freshBlock E w time latest g = (res, g')")
  case True
  then show ?thesis by (rule freshBlock_steps [OF _ assms(2)])
next
  case False
  let ?p = "getPendingBlock (env_H E) order (we_query w) (gen_db g)"
  have g': "gen_db g' = gen_db g" "res = Ok (b, s, True) \<Longrightarrow> ?p = Ok (Some b)" for b s
    using assms(1) False by (cases ?p; auto simp: chooseBlock_def bindA_def pureA_def split: option.splits if_splits outcome.splits)+
  show ?thesis
  proof (cases "\<exists>b s. res = Ok (b, s, True)")
    case True
    then obtain b s where b: "res = Ok (b, s, True)" by blast
    then have "pendStep (env_H E) order (gen_db g, S) (gen_db g, insert b S)" using g'(2) by (intro pendStep.resume) simp
    with b g'(1) show ?thesis by (intro exI [of _ "insert b S"]) auto
  qed (use g'(1) in auto)
qed

text \<open>A block is committed by \<open>MakeBlock\<close> only after it was chosen.\<close>

lemma MakeBlock_asks:
  "MakeBlock E order w time g = (case chooseBlock E order w time (ch_block (gen_chain g)) (ch_snapshot (gen_chain g)) g of
     (Ok (b, s, commit), g') \<Rightarrow> (if commit then commitBlock E (we_arrival w) b s (ch_block (gen_chain g)) g'
       else (bindO (blockHash (env_H E) b) (\<lambda>h. Ok (Byte32 h)), g'))
   | (Fail e, g') \<Rightarrow> (Fail e, g') | (Crash, g') \<Rightarrow> (Crash, g') | (Diverge, g') \<Rightarrow> (Diverge, g'))"
  by (auto simp: MakeBlock_def Let_def bindA_def pureA_def split: prod.splits outcome.splits)

text \<open>
  C10. Signers are asked to sign one block per height only, across crashes and between generators that use the same database: two
  blocks of the same height that generators read from the table of the pending block or saved there are the same block. What
  \<open>MakeBlock\<close> commits was chosen that way, whatever statements fail. (The blocks have to be such that the database returns them as they were stored.)
\<close>

theorem one_block_per_height:
  assumes "(pendStep (env_H E) order)\<^sup>*\<^sup>* (None, {}) (db, S)"
  shows "(\<forall>b \<in> S. \<forall>b' \<in> S. lh_Height (lb_BlockHeader b) = lh_Height (lb_BlockHeader b') \<longrightarrow> b = b') \<and>
    (gen_db g = db \<and> chooseBlock E order w time latest snap g = (res, g') \<and>
       (\<forall>b s c. GenerateBlock E latest time (gen_pool g) (gen_chain g) = (Ok (b, s), c) \<longrightarrow> storable (env_H E) order b) \<longrightarrow>
     (\<exists>T. (pendStep (env_H E) order)\<^sup>*\<^sup>* (db, S) (gen_db g', T) \<and> (\<forall>b s. res = Ok (b, s, True) \<longrightarrow> b \<in> T)))"
proof (intro conjI impI)
  show "\<forall>b \<in> S. \<forall>b' \<in> S. lh_Height (lb_BlockHeader b) = lh_Height (lb_BlockHeader b') \<longrightarrow> b = b'"
    using pendSteps_ok [OF assms] by (simp add: pendOK_def)
next
  assume a: "gen_db g = db \<and> chooseBlock E order w time latest snap g = (res, g') \<and>
    (\<forall>b s c. GenerateBlock E latest time (gen_pool g) (gen_chain g) = (Ok (b, s), c) \<longrightarrow> storable (env_H E) order b)"
  then show "\<exists>T. (pendStep (env_H E) order)\<^sup>*\<^sup>* (db, S) (gen_db g', T) \<and> (\<forall>b s. res = Ok (b, s, True) \<longrightarrow> b \<in> T)"
    using chooseBlock_steps [of E order w time latest snap g res g' S] by simp
qed

text \<open>The sample block is saved and read again.\<close>

lemma sample_storable: "storable (\<lambda>_. []) id sampleBlock" "\<exists>data. BlockValue (\<lambda>_. []) sampleBlock = Ok data"
proof -
  have "soundBlock (\<lambda>_. []) id sampleBlock" by (simp add: soundBlock_def sampleBlock_def)
  from block_encoding_roundtrip [OF sample_written this sample_short, of "[]"]
  have "BlockValue (\<lambda>_. []) sampleBlock = Ok (snd (writeStrictly (\<lambda>_. []) sampleBlock []))"
    "BlockScan (\<lambda>_. []) id (Some (snd (writeStrictly (\<lambda>_. []) sampleBlock []))) = Ok sampleBlock"
    by (simp_all add: BlockValue_def BlockScan_def toBuffer_def mapError_def noTrailing_def)
  then show "storable (\<lambda>_. []) id sampleBlock" "\<exists>data. BlockValue (\<lambda>_. []) sampleBlock = Ok data" by (simp_all add: storable_def)
qed

theorem one_block_per_height_witness:
  "\<exists>db S. (pendStep (\<lambda>_. []) id)\<^sup>*\<^sup>* (None, {}) (db, S) \<and> sampleBlock \<in> S \<and>
     \<not> (\<exists>b \<in> S. \<exists>b' \<in> S. lh_Height (lb_BlockHeader b) = lh_Height (lb_BlockHeader b') \<and> b \<noteq> b')"
proof -
  obtain data where data: "BlockValue (\<lambda>_. []) sampleBlock = Ok data" using sample_storable(2) by blast
  have "savePendingBlock (\<lambda>_. []) Done True sampleBlock None = (Ok (), Some (data, Some 2))"
    by (simp add: savePendingBlock_def data) (simp add: sampleBlock_def)
  from pendStep.save [OF this sample_storable(1), of "{}"]
  have run: "(pendStep (\<lambda>_. []) id)\<^sup>*\<^sup>* (None, {}) (Some (data, Some 2), {sampleBlock})" by simp
  from one_block_per_height [of "sampleEnv\<lparr>env_H := \<lambda>_. []\<rparr>" id "Some (data, Some 2)" "{sampleBlock}"] run show ?thesis
    by (intro exI [of _ "Some (data, Some 2)"] exI [of _ "{sampleBlock}"]) simp
qed

end
