(* ===== verification/App.thy ===== *)
theory App
  imports Generator
begin

text \<open>
  The Tendermint application, \<^verbatim>\<open>app/app.go\<close> and \<^verbatim>\<open>app/utils.go\<close>: the consensus engine checks and delivers transactions, and commits blocks.
  The strategy for validators, an interface without an implementation in the repository, is a parameter: its operations on its state.
\<close>

record ('v, 'sg) Strategy =
  str_SetValidators :: "'v list \<Rightarrow> 'sg \<Rightarrow> 'sg"
  str_CollectTx :: "LegacyTx \<Rightarrow> 'sg \<Rightarrow> 'sg"
  str_GetUpdatedValidators :: "'sg \<Rightarrow> 'v list \<times> 'sg"

text \<open>The answers to the engine, without their log texts.\<close>

datatype abciResult = ResultOK bytes | ErrEncodingError | ErrUnknownRequest

record 'sg abciState =
  ap_strategy :: "'sg option"
  ap_BlockTime :: uint64

record ('st, 'lru, 'sg) ChainmintApplication =
  ap_backend :: "('st, 'lru) Generator"
  ap_state :: "'sg abciState"

record responseInfo =
  ri_LastBlockHeight :: uint64
  ri_LastBlockAppHash :: bytes

definition decodeTx :: "('st, 'lru) env \<Rightarrow> (Hash list \<Rightarrow> Hash list) \<Rightarrow> bytes \<Rightarrow> (text_error, LegacyTx) outcome" where
  "decodeTx E order txBytes = TxUnmarshalText (env_H E) order txBytes"

definition Info :: "('st, 'lru) env \<Rightarrow> ('st, 'lru, 'sg) ChainmintApplication \<Rightarrow> (chain_error, responseInfo) outcome" where
  "Info E app = (case ch_block (gen_chain (ap_backend app)) of
       None \<Rightarrow> Ok \<lparr>ri_LastBlockHeight = 0, ri_LastBlockAppHash = []\<rparr>
     | Some currentBlock \<Rightarrow> bindO (blockHash (env_H E) currentBlock) (\<lambda>h.
         let height = lh_Height (lb_BlockHeader currentBlock) in
         if height = 0 then Ok \<lparr>ri_LastBlockHeight = 0, ri_LastBlockAppHash = []\<rparr>
         else Ok \<lparr>ri_LastBlockHeight = height, ri_LastBlockAppHash = Byte32 h\<rparr>))"

definition onStrategy :: "('sg \<Rightarrow> 'sg) \<Rightarrow> ('st, 'lru, 'sg) ChainmintApplication \<Rightarrow> ('st, 'lru, 'sg) ChainmintApplication" where
  "onStrategy f app = app\<lparr>ap_state := (ap_state app)\<lparr>ap_strategy := map_option f (ap_strategy (ap_state app))\<rparr>\<rparr>"

definition InitChain :: "('v, 'sg) Strategy \<Rightarrow> 'v list \<Rightarrow> ('st, 'lru, 'sg) ChainmintApplication \<Rightarrow> ('st, 'lru, 'sg) ChainmintApplication" where
  "InitChain Y validators = onStrategy (str_SetValidators Y validators)"

text \<open>\<open>validateTx\<close> asks the chain, which remembers the verdict.\<close>

definition appValidateTx :: "('st, 'lru) env \<Rightarrow> LegacyTx \<Rightarrow> (('st, 'lru, 'sg) ChainmintApplication, unit, abciResult) action" where
  "appValidateTx E tx app = (case ChainValidateTx E (lt_Tx tx) (gen_chain (ap_backend app)) of (r, c) \<Rightarrow>
     (case r of Ok _ \<Rightarrow> Ok (ResultOK []) | Fail _ \<Rightarrow> Ok ErrUnknownRequest | Crash \<Rightarrow> Crash | Diverge \<Rightarrow> Diverge,
      app\<lparr>ap_backend := (ap_backend app)\<lparr>gen_chain := c\<rparr>\<rparr>))"

definition CheckTx :: "('st, 'lru) env \<Rightarrow> (Hash list \<Rightarrow> Hash list) \<Rightarrow> bytes \<Rightarrow> (('st, 'lru, 'sg) ChainmintApplication, unit, abciResult) action" where
  "CheckTx E order txBytes app = (case decodeTx E order txBytes of
       Ok tx \<Rightarrow> appValidateTx E tx app
     | Fail _ \<Rightarrow> (Ok ErrEncodingError, app) | Crash \<Rightarrow> (Crash, app) | Diverge \<Rightarrow> (Diverge, app))"

definition DeliverTx :: "('st, 'lru) env \<Rightarrow> ('v, 'sg) Strategy \<Rightarrow> (Hash list \<Rightarrow> Hash list) \<Rightarrow> bytes \<Rightarrow> (('st, 'lru, 'sg) ChainmintApplication, unit, abciResult) action" where
  "DeliverTx E Y order txBytes app = (case decodeTx E order txBytes of
       Ok tx \<Rightarrow> (Ok (ResultOK []), onStrategy (str_CollectTx Y tx) (app\<lparr>ap_backend := Submit tx (ap_backend app)\<rparr>))
     | Fail _ \<Rightarrow> (Ok ErrEncodingError, app) | Crash \<Rightarrow> (Crash, app) | Diverge \<Rightarrow> (Diverge, app))"

definition BeginBlock :: "uint64 \<Rightarrow> ('st, 'lru, 'sg) ChainmintApplication \<Rightarrow> ('st, 'lru, 'sg) ChainmintApplication" where
  "BeginBlock time app = app\<lparr>ap_state := (ap_state app)\<lparr>ap_BlockTime := time\<rparr>\<rparr>"

definition EndBlock :: "('v, 'sg) Strategy \<Rightarrow> ('st, 'lru, 'sg) ChainmintApplication \<Rightarrow> 'v list \<times> ('st, 'lru, 'sg) ChainmintApplication" where
  "EndBlock Y app = (case ap_strategy (ap_state app) of None \<Rightarrow> ([], app)
     | Some s \<Rightarrow> (case str_GetUpdatedValidators Y s of (vs, s') \<Rightarrow> (vs, app\<lparr>ap_state := (ap_state app)\<lparr>ap_strategy := Some s'\<rparr>\<rparr>)))"

text \<open>An error of \<open>MakeBlock\<close> is logged; the answer has an empty hash then.\<close>

definition Commit :: "('st, 'lru) env \<Rightarrow> (Hash list \<Rightarrow> Hash list) \<Rightarrow> weather \<Rightarrow> (('st, 'lru, 'sg) ChainmintApplication, unit, abciResult) action" where
  "Commit E order w app = (case MakeBlock E order w (ap_BlockTime (ap_state app)) (ap_backend app) of (r, g) \<Rightarrow>
     (case r of Ok h \<Rightarrow> Ok (ResultOK h) | Fail _ \<Rightarrow> Ok (ResultOK []) | Crash \<Rightarrow> Crash | Diverge \<Rightarrow> Diverge,
      app\<lparr>ap_backend := g\<rparr>))"

section \<open>The pool\<close>

text \<open>The pool has every delivered transaction once, in the order of delivery.\<close>

fun firsts :: "LegacyTx list \<Rightarrow> Hash set \<Rightarrow> LegacyTx list" where
  "firsts [] seen = []"
| "firsts (tx # txs) seen = (if tx_ID (lt_Tx tx) \<in> seen then firsts txs seen else tx # firsts txs (insert (tx_ID (lt_Tx tx)) seen))"

lemma Submit_all:
  "PendingTxs (fold Submit txs g) = PendingTxs g @ firsts txs (gen_poolHashes g)"
  by (induction txs arbitrary: g) (auto simp: PendingTxs_def Submit_def)

lemma firsts_distinct: "distinct (map (tx_ID \<circ> lt_Tx) (firsts txs seen))" "set (map (tx_ID \<circ> lt_Tx) (firsts txs seen)) = (tx_ID \<circ> lt_Tx) ` set txs - seen"
  by (induction txs seen rule: firsts.induct) auto

section \<open>What a commit reports\<close>

lemma ChainValidateTx_block: "ChainValidateTx E tx c = (r, c') \<Longrightarrow> ch_block c' = ch_block c"
  by (auto simp: ChainValidateTx_def split: outcome.splits prod.splits option.splits)

lemma takeTxs_block: "takeTxs E ts txs taken s c = (r, c') \<Longrightarrow> ch_block c' = ch_block c"
proof (induction txs arbitrary: taken s c)
  case (Cons tx txs)
  obtain v c1 where v: "ChainValidateTx E (lt_Tx tx) c = (v, c1)" by force
  obtain a s1 where a: "ApplyTx (env_H E) (lt_Tx tx) s = (a, s1)" by force
  have "ch_block c1 = ch_block c" by (rule ChainValidateTx_block [OF v])
  moreover have "c' = c \<or> c' = c1 \<or> (\<exists>taken s. takeTxs E ts txs taken s c1 = (r, c'))"
    using Cons.prems v a by (cases v; cases a) (auto split: if_splits)
  ultimately show ?case using Cons.IH by metis
qed simp

lemma GenerateBlock_after:
  assumes "GenerateBlock E (Some p) ts txs c = (r, c')"
  shows "ch_block c' = ch_block c" and "r = Ok (b, s) \<Longrightarrow> lh_Height (lb_BlockHeader b) = lh_Height (lb_BlockHeader p) + 1"
proof -
  let ?start = "startBlock E (Some p) ts c"
  have st: "snd ?start = c" "fst ?start = Ok b0 \<Longrightarrow> lh_Height (lb_BlockHeader b0) = lh_Height (lb_BlockHeader p) + 1" for b0
    by (auto simp: startBlock_def Let_def pureA_def bindO_Ok_iff split: if_splits)
  show "ch_block c' = ch_block c" "r = Ok (b, s) \<Longrightarrow> lh_Height (lb_BlockHeader b) = lh_Height (lb_BlockHeader p) + 1"
    using assms st takeTxs_block
    by (cases ?start; cases "fst ?start"; fastforce simp: GenerateBlock_def bindA_def pureA_def modifyA_def Let_def deref_def sealBlock_def
        split: outcome.splits option.splits prod.splits)+
qed

lemma GenerateBlock_initial:
  "GenerateBlock E None ts txs c = (Ok (b, s), c') \<Longrightarrow> ch_block c' = Some b"
  by (auto simp: GenerateBlock_def bindA_Ok_iff modifyA_def pureA_def Let_def split: prod.splits)

lemma CommitAppliedBlock_block: "CommitAppliedBlock E b s c = (Ok (), c') \<Longrightarrow> ch_block c' = Some b"
  by (auto simp: CommitAppliedBlock_def Let_def bindA_Ok_iff modifyA_def setState_def)

lemma onGenChain_Ok: "onGenChain f m g = (Ok a, g') \<longleftrightarrow> (\<exists>c. m (gen_chain g) = (Ok a, c) \<and> g' = g\<lparr>gen_chain := c\<rparr>)"
  by (auto simp: onGenChain_def mapFail_def split: prod.splits outcome.splits)

lemma commitBlock_reports:
  assumes "commitBlock E arrival b s prev g = (Ok h, g')"
  shows "\<exists>b' i. ch_block (gen_chain g') = Some b' \<and> blockHash (env_H E) b' = (Ok i :: (gen_error, Hash) outcome) \<and> h = Byte32 i"
  using assms by (auto simp: commitBlock_def bindA_Ok_iff onGenChain_Ok pureA_def bindO_Ok_iff dest: CommitAppliedBlock_block)

lemma onDb_Ok: "onDb m g = (Ok a, g') \<longleftrightarrow> (\<exists>db. m (gen_db g) = (Ok a, db) \<and> g' = g\<lparr>gen_db := db\<rparr>)"
  by (auto simp: onDb_def split: prod.splits)

lemma freshBlock_Ok:
  "freshBlock E w time latest g = (Ok (b, s, commit), g') \<Longrightarrow>
    \<exists>c. GenerateBlock E latest time (gen_pool g) (gen_chain g) = (Ok (b, s), c) \<and> gen_chain g' = c \<and> (\<not> commit \<longrightarrow> lb_Transactions b = [])"
  by (auto simp: freshBlock_def bindA_Ok_iff takePool_def onGenChain_Ok onDb_Ok pureA_def split: if_splits)

lemma chooseBlock_empty:
  assumes "chooseBlock E order w time latest snap g = (Ok (b, s, False), g')"
  shows "\<exists>c. GenerateBlock E latest time (gen_pool g) (gen_chain g) = (Ok (b, s), c) \<and> gen_chain g' = c \<and> lb_Transactions b = []"
proof -
  have "freshBlock E w time latest g = (Ok (b, s, False), g')"
    using assms by (auto simp: chooseBlock_def bindA_Ok_iff pureA_def split: option.splits if_splits)
  from freshBlock_Ok [OF this] show ?thesis by simp
qed

lemma MakeBlock_Ok:
  assumes "MakeBlock E order w time g = (Ok h, g')"
  shows "(\<exists>b i. ch_block (gen_chain g') = Some b \<and> blockHash (env_H E) b = (Ok i :: (gen_error, Hash) outcome) \<and> h = Byte32 i) \<or>
    (\<exists>p b i. ch_block (gen_chain g) = Some p \<and> ch_block (gen_chain g') = Some p \<and> lb_Transactions b = [] \<and>
      lh_Height (lb_BlockHeader b) = lh_Height (lb_BlockHeader p) + 1 \<and> blockHash (env_H E) b = (Ok i :: (gen_error, Hash) outcome) \<and> h = Byte32 i)"
proof -
  let ?l = "ch_block (gen_chain g)"
  obtain b s commit g1 where c: "chooseBlock E order w time ?l (ch_snapshot (gen_chain g)) g = (Ok (b, s, commit), g1)"
    and m: "if commit then commitBlock E (we_arrival w) b s ?l g1 = (Ok h, g')
      else g' = g1 \<and> (\<exists>i. blockHash (env_H E) b = (Ok i :: (gen_error, Hash) outcome) \<and> h = Byte32 i)"
    using assms by (auto simp: MakeBlock_asks bindO_Ok_iff split: prod.splits outcome.splits if_splits)
  show ?thesis
  proof (cases commit)
    case True
    with m have "commitBlock E (we_arrival w) b s ?l g1 = (Ok h, g')" by simp
    from commitBlock_reports [OF this] show ?thesis by blast
  next
    case False
    with c have "chooseBlock E order w time ?l (ch_snapshot (gen_chain g)) g = (Ok (b, s, False), g1)" by simp
    then obtain c' where gen: "GenerateBlock E ?l time (gen_pool g) (gen_chain g) = (Ok (b, s), c')" "gen_chain g1 = c'" "lb_Transactions b = []"
      using chooseBlock_empty by blast
    show ?thesis
    proof (cases ?l)
      case None
      with gen GenerateBlock_initial m False show ?thesis by metis
    next
      case (Some p)
      with gen(1) have "GenerateBlock E (Some p) time (gen_pool g) (gen_chain g) = (Ok (b, s), c')" by simp
      note g = GenerateBlock_after [OF this]
      from m False obtain i where i: "g' = g1" "blockHash (env_H E) b = (Ok i :: (gen_error, Hash) outcome)" "h = Byte32 i" by auto
      from i g gen(2,3) Some show ?thesis by (intro disjI2 exI [of _ p] exI [of _ b] exI [of _ i]) simp
    qed
  qed
qed

text \<open>
  C39. What a commit reports: an answer with a hash is either the hash of the block that is now the last one, which \<open>Info\<close> reports too,
  or, when no transaction was taken, that of an empty block that is not committed, and the last block, its height and what \<open>Info\<close> reports stay as they were.
\<close>

theorem commit_hash_reported:
  assumes "Commit E order w app = (Ok (ResultOK h), app')" and "h \<noteq> []"
  shows "(\<exists>b. ch_block (gen_chain (ap_backend app')) = Some b \<and>
      (lh_Height (lb_BlockHeader b) \<noteq> 0 \<longrightarrow> Info E app' = Ok \<lparr>ri_LastBlockHeight = lh_Height (lb_BlockHeader b), ri_LastBlockAppHash = h\<rparr>)) \<and>
      (\<exists>i. bindO (deref (ch_block (gen_chain (ap_backend app')))) (blockHash (env_H E)) = (Ok i :: (chain_error, Hash) outcome) \<and> h = Byte32 i) \<or>
    (\<exists>p b i. ch_block (gen_chain (ap_backend app)) = Some p \<and> lb_Transactions b = [] \<and> lh_Height (lb_BlockHeader b) = lh_Height (lb_BlockHeader p) + 1 \<and>
      blockHash (env_H E) b = (Ok i :: (chain_error, Hash) outcome) \<and> h = Byte32 i \<and>
      ch_block (gen_chain (ap_backend app')) = Some p \<and> Info E app' = Info E app)"
proof -
  obtain g where m: "MakeBlock E order w (ap_BlockTime (ap_state app)) (ap_backend app) = (Ok h, g)" and app': "app' = app\<lparr>ap_backend := g\<rparr>"
    using assms by (auto simp: Commit_def split: prod.splits outcome.splits)
  have same: "blockHash (env_H E) b = (Ok i :: (chain_error, Hash) outcome)" if "blockHash (env_H E) b = (Ok i :: (gen_error, Hash) outcome)" for b i
    using that entryID_other_error by (fastforce simp: blockHash_def mapBlockHeader_def Let_def bindO_Ok_iff)
  from MakeBlock_Ok [OF m] show ?thesis
  proof (elim disjE exE conjE)
    fix b i assume "ch_block (gen_chain g) = Some b" "blockHash (env_H E) b = (Ok i :: (gen_error, Hash) outcome)" "h = Byte32 i"
    then show ?thesis using same by (intro disjI1) (auto simp: app' Info_def Let_def)
  next
    fix p b i assume "ch_block (gen_chain (ap_backend app)) = Some p" "ch_block (gen_chain g) = Some p" "lb_Transactions b = []"
      "lh_Height (lb_BlockHeader b) = lh_Height (lb_BlockHeader p) + 1" "blockHash (env_H E) b = (Ok i :: (gen_error, Hash) outcome)" "h = Byte32 i"
    then show ?thesis using same by (intro disjI2 exI [of _ p] exI [of _ b] exI [of _ i]) (simp add: app' Info_def)
  qed
qed

lemma sample_commit:
  "\<exists>h app'. Commit sampleEnv id \<lparr>we_query = True, we_insert = Done, we_counted = True, we_arrival = []\<rparr>
     \<lparr>ap_backend = NewGenerator sampleChain None, ap_state = \<lparr>ap_strategy = None :: unit option, ap_BlockTime = 5\<rparr>\<rparr> = (Ok (ResultOK h), app') \<and> h \<noteq> []"
proof -
  obtain i where i: "blockHash lengthHash sampleBlock = (Ok i :: (chain_error, Hash) outcome)"
    using hashable_maps [of sampleBlock lengthHash] by (auto simp: hashable_def sampleBlock_def MapBlock_def blockHash_def bindO_Ok_iff)
  define b where "b = sealBlock sampleEnv \<lparr>lb_BlockHeader = \<lparr>lh_Version = 1, lh_Height = lh_Height (lb_BlockHeader sampleBlock) + 1,
           lh_PreviousBlockHash = i, lh_TimestampMS = 5,
           lh_BlockCommitment = \<lparr>bcm_TransactionsMerkleRoot = zeroHash, bcm_AssetsMerkleRoot = zeroHash,
             bcm_ConsensusProgram = bcm_ConsensusProgram (lh_BlockCommitment (lb_BlockHeader sampleBlock))\<rparr>,
           lh_CommitmentSuffix = [], lh_Witness = [], lh_WitnessSuffix = []\<rparr>, lb_Transactions = []\<rparr> [] (PruneNonces 5 (Copy sampleSnapshot))"
  have "hashable (lb_BlockHeader b)" by (simp add: b_def sealBlock_def hashable_def sampleBlock_def)
  then obtain j where j: "blockHash (env_H sampleEnv) b = (Ok j :: (gen_error, Hash) outcome)"
    using hashable_maps [of b "env_H sampleEnv"] by (auto simp: MapBlock_def blockHash_def bindO_Ok_iff)
  have E: "env_H sampleEnv = lengthHash" "ch_snapshot sampleChain = Some sampleSnapshot" "ch_block sampleChain = Some sampleBlock"
    by (simp_all add: sampleEnv_def sampleChain_def)
  have empty: "lb_Transactions b = []" by (simp add: b_def sealBlock_def)
  have ts: "\<not> 5 < lh_TimestampMS (lb_BlockHeader sampleBlock)" by (simp add: sampleBlock_def)
  have "\<exists>s. GenerateBlock sampleEnv (Some sampleBlock) 5 [] sampleChain = (Ok (b, s), sampleChain)"
    using ts i E by (simp add: GenerateBlock_def startBlock_def Let_def bindA_def pureA_def modifyA_def b_def)
  then obtain s where "GenerateBlock sampleEnv (Some sampleBlock) 5 [] sampleChain = (Ok (b, s), sampleChain)" by blast
  then have "MakeBlock sampleEnv id \<lparr>we_query = True, we_insert = Done, we_counted = True, we_arrival = []\<rparr> 5 (NewGenerator sampleChain None) =
      (Ok (Byte32 j), NewGenerator sampleChain None)"
    using j E empty by (simp add: MakeBlock_def Let_def chooseBlock_def getPendingBlock_def freshBlock_def takePool_def onGenChain_def NewGenerator_def
        bindA_def pureA_def mapFail_def)
  moreover have "Byte32 j \<noteq> []" using length_Byte32 [of j] by (metis list.size(3) zero_neq_numeral)
  ultimately show ?thesis by (simp add: Commit_def)
qed

theorem commit_hash_reported_witness:
  "\<exists>h app'. Commit sampleEnv id \<lparr>we_query = True, we_insert = Done, we_counted = True, we_arrival = []\<rparr>
     \<lparr>ap_backend = NewGenerator sampleChain None, ap_state = \<lparr>ap_strategy = None :: unit option, ap_BlockTime = 5\<rparr>\<rparr> = (Ok (ResultOK h), app') \<and>
     ch_block (gen_chain (ap_backend app')) \<noteq> None"
proof -
  obtain h app' where c: "Commit sampleEnv id \<lparr>we_query = True, we_insert = Done, we_counted = True, we_arrival = []\<rparr>
     \<lparr>ap_backend = NewGenerator sampleChain None, ap_state = \<lparr>ap_strategy = None :: unit option, ap_BlockTime = 5\<rparr>\<rparr> = (Ok (ResultOK h), app')" "h \<noteq> []"
    using sample_commit by blast
  from commit_hash_reported [OF this] c(1) show ?thesis by auto
qed

section \<open>A generator without signers\<close>

lemma chooseBlock_keeps:
  assumes "chooseBlock E order w time (Some p) snap g = (r, g')"
  shows "ch_block (gen_chain g') = ch_block (gen_chain g) \<and> gen_signers g' = gen_signers g"
proof -
  obtain q c where q: "GenerateBlock E (Some p) time (gen_pool g) (gen_chain g) = (q, c)" by force
  have c: "ch_block c = ch_block (gen_chain g)" by (rule GenerateBlock_after(1) [OF q])
  have "ch_block (gen_chain g1) = ch_block (gen_chain g) \<and> gen_signers g1 = gen_signers g" if "freshBlock E w time (Some p) g = (r1, g1)" for r1 g1
    using that q c by (cases q) (auto simp: freshBlock_def bindA_def takePool_def onGenChain_def onDb_def pureA_def mapFail_def
        split: if_splits prod.splits outcome.splits)
  with assms show ?thesis
    by (cases "getPendingBlock (env_H E) order (we_query w) (gen_db g)")
      (auto simp: chooseBlock_def bindA_def pureA_def split: option.splits if_splits outcome.splits)
qed

lemma commitBlock_unsigned:
  assumes "gen_signers g = []" and "ParseBlockMultiSigProgram (bcm_ConsensusProgram (lh_BlockCommitment (lb_BlockHeader p))) = UOk (ks, quorum)" and "0 < quorum"
  shows "commitBlock E arrival b s (Some p) g = (Fail ErrTooFewSigners, g)"
  using assms by (simp add: commitBlock_def bindA_def getAndAddBlockSignatures_def)

text \<open>
  C40. \<open>New\<close> makes a generator without signers, and nothing gives it any: on a chain whose last block asks for a positive quorum no commit ever
  changes the last block, and still every commit that returns is reported to the consensus engine as successful.
\<close>

theorem no_signers_no_blocks:
  assumes "gen_signers (ap_backend app) = []" and "ch_block (gen_chain (ap_backend app)) = Some p"
    and "ParseBlockMultiSigProgram (bcm_ConsensusProgram (lh_BlockCommitment (lb_BlockHeader p))) = UOk (ks, quorum)" and "0 < quorum"
    and "Commit E order w app = (Ok res, app')"
  shows "ch_block (gen_chain (ap_backend app')) = Some p \<and> gen_signers (ap_backend app') = [] \<and> (\<exists>h. res = ResultOK h)"
proof -
  let ?g = "ap_backend app"
  obtain r g' where m: "MakeBlock E order w (ap_BlockTime (ap_state app)) ?g = (r, g')" by force
  obtain q g1 where q: "chooseBlock E order w (ap_BlockTime (ap_state app)) (Some p) (ch_snapshot (gen_chain ?g)) ?g = (q, g1)" by force
  have k: "ch_block (gen_chain g1) = Some p" "gen_signers g1 = []" using chooseBlock_keeps [OF q] assms(1,2) by simp_all
  have "g' = g1"
    using m q commitBlock_unsigned [OF k(2) assms(3,4)] by (cases q) (auto simp: MakeBlock_asks assms(2) split: if_splits)
  with m k assms(5) show ?thesis by (auto simp: Commit_def split: outcome.splits)
qed

definition unsignedApp :: "(MemStore, Hash \<Rightarrow> val_error option option, unit) ChainmintApplication" where
  "unsignedApp = \<lparr>ap_backend = NewGenerator (sampleChain\<lparr>ch_block := Some twoKeysBlock\<rparr>) None, ap_state = \<lparr>ap_strategy = None, ap_BlockTime = 0\<rparr>\<rparr>"

theorem no_signers_no_blocks_witness:
  "\<exists>h app'. Commit sampleEnv id \<lparr>we_query = False, we_insert = Done, we_counted = True, we_arrival = []\<rparr> unsignedApp = (Ok (ResultOK h), app') \<and>
     ch_block (gen_chain (ap_backend app')) = Some twoKeysBlock"
proof -
  let ?w = "\<lparr>we_query = False, we_insert = Done, we_counted = True, we_arrival = []\<rparr>"
  have parse: "ParseBlockMultiSigProgram (bcm_ConsensusProgram (lh_BlockCommitment (lb_BlockHeader twoKeysBlock))) = UOk (twoKeys, 2)"
    using ParseBlock_built [OF twoKeys_program(1) _ block_program_short [OF twoKeys_program]] twoKeys_program(2)
    by (simp add: PublicKeySize_def twoKeysBlock_def)
  have c: "Commit sampleEnv id ?w unsignedApp = (Ok (ResultOK []), unsignedApp)"
    by (simp add: Commit_def MakeBlock_asks chooseBlock_def getPendingBlock_def bindA_def unsignedApp_def)
  from no_signers_no_blocks [OF _ _ parse _ c] show ?thesis using c by (auto simp: unsignedApp_def NewGenerator_def)
qed

end
