(* ===== verification/Tx_Sign.thy ===== *)
theory Tx_Sign
  imports VMUtil Legacy_Block
begin

text \<open>
  Signing of transaction templates, \<^verbatim>\<open>core/txbuilder\<close>: the templates (\<^verbatim>\<open>types.go\<close>), the programs that are signed
  (\<^verbatim>\<open>constraint.go\<close>), signing and the arguments made of the signatures (\<^verbatim>\<open>witness.go\<close>, \<^verbatim>\<open>Sign\<close> of \<^verbatim>\<open>txbuilder.go\<close>), and the check
  that some input commits to the whole transaction (\<^verbatim>\<open>finalize.go\<close>). The function that signs is a parameter.
\<close>

section \<open>Templates\<close>

record keyID =
  ki_XPub :: bytes
  ki_DerivationPath :: "bytes list"

record signatureWitness =
  sw_Quorum :: int
  sw_Keys :: "keyID list"
  sw_Program :: bytes
  sw_Sigs :: "bytes list"

record SigningInstruction =
  sg_Position :: uint32
  sg_SignatureWitnesses :: "signatureWitness list"

record Template =
  tp_Transaction :: "LegacyTx option"
  tp_SigningInstructions :: "SigningInstruction list"
  tp_Local :: bool
  tp_AllowAdditional :: bool

datatype sign_error = ErrMissingRawTx | ErrBadInstructionCount | ErrEmptyProgram | SignFnFailed

definition AddWitnessKeys :: "bytes list \<Rightarrow> bytes list \<Rightarrow> int \<Rightarrow> SigningInstruction \<Rightarrow> SigningInstruction" where
  "AddWitnessKeys xpubs path quorum si = si\<lparr>sg_SignatureWitnesses := sg_SignatureWitnesses si @
     [\<lparr>sw_Quorum = quorum, sw_Keys = map (\<lambda>xpub. \<lparr>ki_XPub = xpub, ki_DerivationPath = path\<rparr>) xpubs, sw_Program = [], sw_Sigs = []\<rparr>]\<rparr>"

definition TemplateHash :: "(bytes \<Rightarrow> bytes) \<Rightarrow> Template \<Rightarrow> uint32 \<Rightarrow> ('e, Hash) outcome" where
  "TemplateHash H t idx = bindO (deref (tp_Transaction t)) (\<lambda>tx. SigHash H (lt_Tx tx) (unat idx))"

section \<open>Arguments of inputs\<close>

fun SetArguments :: "bytes list \<Rightarrow> TypedInput \<Rightarrow> TypedInput" where
  "SetArguments args (TIssuance ii) = TIssuance (ii\<lparr>ii_IssuanceWitness := (ii_IssuanceWitness ii)\<lparr>iw_Arguments := args\<rparr>\<rparr>)"
| "SetArguments args (TSpend si) = TSpend (si\<lparr>si_Arguments := args\<rparr>)"

fun inputArguments :: "TypedInput \<Rightarrow> bytes list" where
  "inputArguments (TIssuance ii) = iw_Arguments (ii_IssuanceWitness ii)"
| "inputArguments (TSpend si) = si_Arguments si"

fun setWitnessArguments :: "bytes list \<Rightarrow> Entry \<Rightarrow> Entry" where
  "setWitnessArguments args (EIssuance e) = EIssuance (e\<lparr>iss_WitnessArguments := args\<rparr>)"
| "setWitnessArguments args (ESpend e) = ESpend (e\<lparr>sp_WitnessArguments := args\<rparr>)"
| "setWitnessArguments args e = e"

text \<open>Changes the input and the entry that was computed from it; panics if there is no such input or no ID for it.\<close>

definition SetInputArguments :: "uint32 \<Rightarrow> bytes list \<Rightarrow> LegacyTx \<Rightarrow> ('e, LegacyTx) outcome" where
  "SetInputArguments n args tx =
     (let ins = td_Inputs (lt_TxData tx); ids = tx_InputIDs (lt_Tx tx); i = unat n in
      if length ins \<le> i \<or> length ids \<le> i then Crash
      else Ok \<lparr>lt_TxData = (lt_TxData tx)\<lparr>td_Inputs := ins[i := (ins ! i)\<lparr>in_TypedInput := map_option (SetArguments args) (in_TypedInput (ins ! i))\<rparr>]\<rparr>,
        lt_Tx = (lt_Tx tx)\<lparr>tx_Entries := (tx_Entries (lt_Tx tx))(ids ! i := map_option (setWitnessArguments args) (tx_Entries (lt_Tx tx) (ids ! i)))\<rparr>\<rparr>)"

section \<open>Constraints\<close>

datatype constraint = timeConstraint uint64 uint64 | outputIDConstraint Hash | refdataConstraint bytes bool
  | payConstraint int AssetAmount bytes "Hash option"

definition timeCode :: "uint64 \<Rightarrow> uint64 \<Rightarrow> bytes" where
  "timeCode minTimeMS maxTimeMS =
     (if minTimeMS = 0 \<and> maxTimeMS = 0 then [OP_TRUE]
      else
        let builder = NewBuilder;
            builder = (if minTimeMS > 0 then AddOp OP_GREATERTHANOREQUAL (BuilderAddInt64 (i64 (uint minTimeMS)) (AddOp OP_MINTIME builder)) else builder);
            builder = (if maxTimeMS > 0 then
                let builder = (if minTimeMS > 0 then AddOp OP_VERIFY builder else builder)
                in AddOp OP_LESSTHANOREQUAL (BuilderAddInt64 (i64 (uint maxTimeMS)) (AddOp OP_MAXTIME builder))
              else builder)
        in Program builder)"

definition outputIDCode :: "Hash \<Rightarrow> bytes" where
  "outputIDCode o' = Program (AddOp OP_EQUAL (AddOp OP_OUTPUTID (AddData (Byte32 o') NewBuilder)))"

definition refdataCode :: "(bytes \<Rightarrow> bytes) \<Rightarrow> bytes \<Rightarrow> bool \<Rightarrow> bytes" where
  "refdataCode H d tx = Program (AddOp OP_EQUAL (AddOp (if tx then OP_TXDATA else OP_ENTRYDATA) (AddData (H d) NewBuilder)))"

definition payCode :: "int \<Rightarrow> AssetID \<Rightarrow> uint64 \<Rightarrow> bytes \<Rightarrow> Hash option \<Rightarrow> bytes" where
  "payCode index assetID amount prog refDataHash =
     (let builder = BuilderAddInt64 (i64 index) NewBuilder;
          builder = AddData (case refDataHash of None \<Rightarrow> [] | Some h \<Rightarrow> Byte32 h) builder;
          builder = AddData prog (BuilderAddInt64 1 (AddData (Byte32 assetID) (BuilderAddInt64 (i64 (uint amount)) builder)))
      in Program (AddOp OP_CHECKOUTPUT builder))"

text \<open>A nil asset ID is dereferenced.\<close>

fun constraintCode :: "(bytes \<Rightarrow> bytes) \<Rightarrow> constraint \<Rightarrow> ('e, bytes) outcome" where
  "constraintCode H (timeConstraint mn mx) = Ok (timeCode mn mx)"
| "constraintCode H (outputIDConstraint o') = Ok (outputIDCode o')"
| "constraintCode H (refdataConstraint d tx) = Ok (refdataCode H d tx)"
| "constraintCode H (payConstraint index aa prog ref) =
     bindO (deref (amt_AssetId aa)) (\<lambda>a. Ok (payCode index a (amt_Amount aa) prog ref))"

definition outputConstraint :: "(bytes \<Rightarrow> bytes) \<Rightarrow> nat \<Rightarrow> TxOutput \<Rightarrow> constraint" where
  "outputConstraint H i out = payConstraint (int i) (oc_AssetAmount (to_OutputCommitment out)) (oc_ControlProgram (to_OutputCommitment out))
     (if to_ReferenceData out \<noteq> [] then Some (NewHash (H (to_ReferenceData out))) else None)"

text \<open>The constraints on a transaction to which more may be added. An issuance has no constraint on what is issued.\<close>

definition templateConstraints :: "(bytes \<Rightarrow> bytes) \<Rightarrow> LegacyTx \<Rightarrow> uint32 \<Rightarrow> ('e, constraint list) outcome" where
  "templateConstraints H tx index =
     (let td = lt_TxData tx; ids = tx_InputIDs (lt_Tx tx); i = unat index in
      if length ids \<le> i then Crash
      else bindO (case txSpend (lt_Tx tx) (ids ! i) of Inr sp \<Rightarrow> bindO (deref (sp_SpentOutputId sp)) (\<lambda>o'. Ok [outputIDConstraint o']) | Inl _ \<Rightarrow> Ok [])
        (\<lambda>spent.
         if length (td_Inputs td) \<le> i then Crash
         else Ok ([timeConstraint (td_MinTime td) (td_MaxTime td)] @ spent @
           (if td_ReferenceData td \<noteq> [] then [refdataConstraint (td_ReferenceData td) True] else []) @
           [refdataConstraint (in_ReferenceData (td_Inputs td ! i)) False] @
           map (\<lambda>(i, out). outputConstraint H i out) (enumerate 0 (td_Outputs td)))))"

primrec joinCode :: "(bytes \<Rightarrow> bytes) \<Rightarrow> constraint list \<Rightarrow> ('e, bytes) outcome" where
  "joinCode H [] = Ok []"
| "joinCode H (c # cs) = bindO (constraintCode H c) (\<lambda>p. bindO (joinCode H cs) (\<lambda>q. Ok (p @ (if cs \<noteq> [] then [OP_VERIFY] else []) @ q)))"

definition buildSigProgram :: "(bytes \<Rightarrow> bytes) \<Rightarrow> Template \<Rightarrow> uint32 \<Rightarrow> ('e, bytes) outcome" where
  "buildSigProgram H tpl index =
     (if \<not> tp_AllowAdditional tpl then bindO (TemplateHash H tpl index) (\<lambda>h.
        Ok (Program (AddOp OP_EQUAL (AddOp OP_TXSIGHASH (AddData (Byte32 h) NewBuilder)))))
      else bindO (deref (tp_Transaction tpl)) (\<lambda>tx. bindO (templateConstraints H tx index) (joinCode H)))"

section \<open>Signing\<close>

type_synonym SignFunc = "bytes \<Rightarrow> bytes list \<Rightarrow> bytes \<Rightarrow> bytes option"

definition contains :: "bytes list \<Rightarrow> bytes \<Rightarrow> bool" where
  "contains list key \<longleftrightarrow> list_ex (\<lambda>k. k = key) list"

text \<open>The loop over the keys, with the signatures from the current one on; signatures that are there stay.\<close>

fun signKeys :: "SignFunc \<Rightarrow> bytes list \<Rightarrow> bytes \<Rightarrow> keyID list \<Rightarrow> (bytes list, sign_error, unit) action" where
  "signKeys signFn xpubs h [] sigs = (Ok (), sigs)"
| "signKeys signFn xpubs h (k # ks) [] = (Crash, [])"
| "signKeys signFn xpubs h (k # ks) (s # sigs) =
     (if s \<noteq> [] \<or> \<not> contains xpubs (ki_XPub k)
      then (case signKeys signFn xpubs h ks sigs of (r, sigs') \<Rightarrow> (r, s # sigs'))
      else (case signFn (ki_XPub k) (ki_DerivationPath k) h of
          None \<Rightarrow> (Fail SignFnFailed, s # sigs)
        | Some sigBytes \<Rightarrow> (case signKeys signFn xpubs h ks sigs of (r, sigs') \<Rightarrow> (r, sigBytes # sigs'))))"

definition makeRoom :: "signatureWitness \<Rightarrow> signatureWitness" where
  "makeRoom sw = (if length (sw_Sigs sw) < length (sw_Keys sw)
     then sw\<lparr>sw_Sigs := sw_Sigs sw @ replicate (length (sw_Keys sw) - length (sw_Sigs sw)) []\<rparr> else sw)"

definition inferProgram :: "(bytes \<Rightarrow> bytes) \<Rightarrow> Template \<Rightarrow> nat \<Rightarrow> (signatureWitness, sign_error, unit) action" where
  "inferProgram H tpl index sw =
     (if sw_Program sw \<noteq> [] then (Ok (), sw)
      else if length (tp_SigningInstructions tpl) \<le> index then (Crash, sw)
      else (case buildSigProgram H tpl (sg_Position (tp_SigningInstructions tpl ! index)) of
          Ok p \<Rightarrow> (if p = [] then Fail ErrEmptyProgram else Ok (), sw\<lparr>sw_Program := p\<rparr>)
        | Fail e \<Rightarrow> (Fail e, sw) | Crash \<Rightarrow> (Crash, sw) | Diverge \<Rightarrow> (Diverge, sw)))"

definition signWitness :: "(bytes \<Rightarrow> bytes) \<Rightarrow> SignFunc \<Rightarrow> bytes list \<Rightarrow> Template \<Rightarrow> nat \<Rightarrow> (signatureWitness, sign_error, unit) action" where
  "signWitness H signFn xpubs tpl index =
     bindA (inferProgram H tpl index) (\<lambda>_ sw.
       let sw = makeRoom sw in
       case signKeys signFn xpubs (H (sw_Program sw)) (sw_Keys sw) (sw_Sigs sw) of (r, sigs) \<Rightarrow> (r, sw\<lparr>sw_Sigs := sigs\<rparr>))"

text \<open>A loop that changes the elements of a slice in place, with the index of the element, and stops at the first error.\<close>

primrec eachA :: "(nat \<Rightarrow> ('x, 'e, unit) action) \<Rightarrow> nat \<Rightarrow> ('x list, 'e, unit) action" where
  "eachA f i [] = (Ok (), [])"
| "eachA f i (x # xs) = (case f i x of
       (Ok _, x') \<Rightarrow> (case eachA f (Suc i) xs of (r, xs') \<Rightarrow> (r, x' # xs'))
     | (r, x') \<Rightarrow> (r, x' # xs))"

definition signInstructions :: "(bytes \<Rightarrow> bytes) \<Rightarrow> SignFunc \<Rightarrow> bytes list \<Rightarrow> (Template, sign_error, unit) action" where
  "signInstructions H signFn xpubs tpl =
     (case eachA (\<lambda>i inst. case eachA (\<lambda>_. signWitness H signFn xpubs tpl (unat (word_of_nat i :: uint32))) 0 (sg_SignatureWitnesses inst) of
          (r, sws) \<Rightarrow> (r, inst\<lparr>sg_SignatureWitnesses := sws\<rparr>)) 0 (tp_SigningInstructions tpl) of
        (r, insts) \<Rightarrow> (r, tpl\<lparr>tp_SigningInstructions := insts\<rparr>))"

section \<open>Materializing\<close>

fun pickSigs :: "int \<Rightarrow> bytes list \<Rightarrow> int \<Rightarrow> bytes list \<Rightarrow> bytes list" where
  "pickSigs quorum [] nsigs args = args"
| "pickSigs quorum (s # sigs) nsigs args =
     (if nsigs < quorum then (if s \<noteq> [] then pickSigs quorum sigs (nsigs + 1) (args @ [s]) else pickSigs quorum sigs nsigs args) else args)"

definition materialize :: "signatureWitness \<Rightarrow> bytes list \<Rightarrow> bytes list" where
  "materialize sw args = pickSigs (sw_Quorum sw) (sw_Sigs sw) 0 (args @ [Int64Bytes (i64 (int (length args)))]) @ [sw_Program sw]"

definition witnessArguments :: "SigningInstruction \<Rightarrow> bytes list" where
  "witnessArguments inst = foldl (\<lambda>args sw. materialize sw args) [] (sg_SignatureWitnesses inst)"

definition materializeWitnesses :: "(Template, sign_error, unit) action" where
  "materializeWitnesses tpl = (case tp_Transaction tpl of
       None \<Rightarrow> (Fail ErrMissingRawTx, tpl)
     | Some msg \<Rightarrow>
         if length (tp_SigningInstructions tpl) > length (td_Inputs (lt_TxData msg)) then (Fail ErrBadInstructionCount, tpl)
         else (case forA (\<lambda>inst tx. case (SetInputArguments (sg_Position inst) (witnessArguments inst) tx :: (sign_error, LegacyTx) outcome) of
               Ok tx' \<Rightarrow> (Ok (), tx') | _ \<Rightarrow> (Crash, tx)) (tp_SigningInstructions tpl) msg of
             (r, tx) \<Rightarrow> (r, tpl\<lparr>tp_Transaction := Some tx\<rparr>)))"

definition Sign :: "(bytes \<Rightarrow> bytes) \<Rightarrow> bytes list \<Rightarrow> SignFunc \<Rightarrow> (Template, sign_error, unit) action" where
  "Sign H xpubs signFn = bindA (signInstructions H signFn xpubs) (\<lambda>_. materializeWitnesses)"

section \<open>The commitment to the whole transaction\<close>

datatype commitment_error = ErrNoTxSighashCommitment | ErrNoTxSighashAttempt | ErrTxSignatureFailure

abbreviation OP_DATA_32 :: byte where "OP_DATA_32 \<equiv> 0x20"

fun commitsTo :: "(bytes \<Rightarrow> bytes) \<Rightarrow> LegacyTx \<Rightarrow> nat \<Rightarrow> TxInput list \<Rightarrow> commitment_error option \<Rightarrow> (commitment_error, unit) outcome" where
  "commitsTo H tx i [] lastError = (case lastError of None \<Rightarrow> Ok () | Some e \<Rightarrow> Fail e)"
| "commitsTo H tx i (inp # inps) lastError =
     (let args = (case in_TypedInput inp of None \<Rightarrow> [] | Some t \<Rightarrow> inputArguments t) in
      if length args = 0 then commitsTo H tx (i + 1) inps (Some ErrNoTxSighashAttempt)
      else if length args < 3 then commitsTo H tx (i + 1) inps (Some ErrTxSignatureFailure)
      else
        let next' = commitsTo H tx (i + 1) inps (Some ErrNoTxSighashCommitment); prog = last args in
        if length prog \<noteq> 35 then next'
        else if prog ! 0 \<noteq> OP_DATA_32 then next'
        else if drop 33 prog \<noteq> [OP_TXSIGHASH, OP_EQUAL] then next'
        else bindO (SigHash H (lt_Tx tx) (unat (word_of_nat i :: uint32))) (\<lambda>h. if Byte32 h \<noteq> take 32 (drop 1 prog) then next' else Ok ()))"

definition checkTxSighashCommitment :: "(bytes \<Rightarrow> bytes) \<Rightarrow> LegacyTx \<Rightarrow> (commitment_error, unit) outcome" where
  "checkTxSighashCommitment H tx = commitsTo H tx 0 (td_Inputs (lt_TxData tx)) None"

end
