(* ===== verification/Sig_Program.thy ===== *)
theory Sig_Program
  imports Tx_Sign TxVMContext
begin

text \<open>
  What a signature in a template commits to. The control programs of accounts (\<open>P2SPMultiSigProgram\<close>) check signatures of a second program,
  which the spender supplies, and run it as a predicate. The first part shows, for all arguments, that such a control program accepts only what
  a quorum signed. The second part runs the programs of \<open>buildSigProgram\<close>.
\<close>

section \<open>Runs that end\<close>

text \<open>
  A machine that stands before byte number \<open>k\<close> with the given stacks can end in \<open>f\<close> without an error. Nothing is said about costs: what an
  instruction leaves on the stacks does not depend on them, if it succeeds.
\<close>

fun standsAt :: "Context \<Rightarrow> bytes \<Rightarrow> bool \<Rightarrow> nat \<times> bytes list \<times> bytes list \<Rightarrow> virtualMachine \<Rightarrow> bool" where
  "standsAt c prog e (k, st, alt) vm \<longleftrightarrow> vcontext vm = c \<and> program vm = prog \<and> expansionReserved vm = e \<and> pc vm = word_of_nat k \<and>
     dataStack vm = st \<and> altStack vm = alt"

definition canEnd :: "prims \<Rightarrow> Context \<Rightarrow> bytes \<Rightarrow> bool \<Rightarrow> nat \<times> bytes list \<times> bytes list \<Rightarrow> virtualMachine \<Rightarrow> bool" where
  "canEnd P c prog e s f \<longleftrightarrow> (\<exists>fuel vm. standsAt c prog e s vm \<and> runLoop P fuel vm = (Ret (), f))"

text \<open>The state after an operation that changed the stacks and the accounts only.\<close>

definition upd :: "virtualMachine \<Rightarrow> bytes list \<Rightarrow> bytes list \<Rightarrow> virtualMachine \<Rightarrow> bool" where
  "upd vm st alt vm' \<longleftrightarrow> dataStack vm' = st \<and> altStack vm' = alt \<and> vcontext vm' = vcontext vm \<and> program vm' = program vm \<and>
     pc vm' = pc vm \<and> nextPC vm' = nextPC vm \<and> expansionReserved vm' = expansionReserved vm \<and> vdata vm' = vdata vm \<and> depth vm' = depth vm"

lemma upd_refl: "upd vm (dataStack vm) (altStack vm) vm"
  by (simp add: upd_def)

named_theorems upd_rules

lemma wp_applyCost_upd [upd_rules]:
  "upd vm0 st alt vm \<Longrightarrow> (\<And>vm'. upd vm0 st alt vm' \<Longrightarrow> Q () vm') \<Longrightarrow> wp (applyCost n) Q vm"
  by (rule wpI) (auto simp: applyCost_def upd_def split: if_splits)

lemma wp_deferCost_upd [upd_rules]:
  "upd vm0 st alt vm \<Longrightarrow> (\<And>vm'. upd vm0 st alt vm' \<Longrightarrow> Q () vm') \<Longrightarrow> wp (deferCost n) Q vm"
  by (rule wpI) (auto simp: deferCost_def upd_def)

lemma wp_push_upd [upd_rules]:
  assumes "upd vm0 st alt vm" and "\<And>vm'. upd vm0 (st @ [x]) alt vm' \<Longrightarrow> Q () vm'"
  shows "wp (push x df) Q vm"
proof -
  have "Q () (vm'\<lparr>dataStack := dataStack vm' @ [x]\<rparr>)" if "upd vm0 st alt vm'" for vm'
    by (rule assms(2)) (use that in \<open>auto simp: upd_def\<close>)
  then show ?thesis unfolding push_def Let_def
    by (cases df) (simp_all add: wp_applyCost_upd [OF assms(1)] wp_deferCost_upd [OF assms(1)])
qed

lemma wp_pop_upd:
  assumes "upd vm0 st alt vm" and "\<And>st' x vm'. st = st' @ [x] \<Longrightarrow> upd vm0 st' alt vm' \<Longrightarrow> Q x vm'"
  shows "wp (pop df) Q vm"
proof (rule wpI)
  fix x vm' assume "pop df vm = (Ret x, vm')"
  moreover from this obtain st' where "dataStack vm = st' @ [x]"
    by (cases "dataStack vm" rule: rev_cases) (auto simp: pop_def monad_defs deferCost_def Let_def split: if_splits)
  ultimately show "Q x vm'" using assms(1)
    by (intro assms(2) [of st']) (auto simp: upd_def pop_def monad_defs deferCost_def Let_def split: if_splits)
qed

lemma wp_popInt64_upd:
  assumes "upd vm0 st alt vm" and "\<And>st' x n vm'. st = st' @ [x] \<Longrightarrow> AsInt64 x = Inr n \<Longrightarrow> upd vm0 st' alt vm' \<Longrightarrow> Q n vm'"
  shows "wp (popInt64 df) Q vm"
  unfolding popInt64_def wp_bind
proof (rule wp_pop_upd [OF assms(1)])
  fix st' x vm' assume "st = st' @ [x]" "upd vm0 st' alt vm'"
  then show "wp (case AsInt64 x of Inl e \<Rightarrow> throw e | Inr n \<Rightarrow> ret n) Q vm'" using assms(2) by (auto split: sum.splits)
qed

text \<open>One instruction that succeeded.\<close>

lemma canEnd_step:
  assumes "canEnd P c prog e (length pre, st, alt) f"
    and "prog = pre @ ch @ post" and "parse_chunk ch inst" and "length prog \<le> 2147483647" and "ch \<noteq> []" and "\<not> isExpansion P (Op inst)"
    and op: "\<And>fuel vm. vcontext vm = c \<Longrightarrow> expansionReserved vm = e \<Longrightarrow> vdata vm = Data inst \<Longrightarrow> upd vm st alt vm \<Longrightarrow>
      wp (opFn P (\<lambda>child. runLoop P fuel (child\<lparr>pc := 0\<rparr>)) (Op inst)) (\<lambda>_ vm'. \<exists>st' alt'. upd vm st' alt' vm' \<and> R st' alt') vm"
  obtains st' alt' where "R st' alt'" and "canEnd P c prog e (length (pre @ ch), st', alt') f"
proof -
  from assms(1) obtain fuel vm where at: "standsAt c prog e (length pre, st, alt) vm" and run: "runLoop P fuel vm = (Ret (), f)"
    by (auto simp: canEnd_def)
  then obtain k where k: "fuel = Suc k" by (cases fuel) simp_all
  let ?child = "\<lambda>child. runLoop P k (child\<lparr>pc := 0\<rparr>)"
  let ?vm = "vm\<lparr>nextPC := pc vm + Len inst, deferredCost := 0, vdata := Data inst\<rparr>"
  have parse: "ParseOp (program vm) (pc vm) = Ret inst" and len: "length ch = unat (Len inst)"
    using assms(2-4) at by (auto simp: parse_chunk_def)
  have pc: "pc vm < word_of_nat (length (program vm))"
    using at assms(2,4,5) by (simp add: word_less_nat_alt unat_of_nat_32 del: of_nat_add)
  with run obtain vm2 where st: "step P ?child vm = (Ret (), vm2)" and run2: "runLoop P k vm2 = (Ret (), f)"
    by (auto simp: k withVM_def bindM_def split: res.splits prod.splits)
  then obtain vm1 l where op1: "opFn P ?child (Op inst) ?vm = (Ret (), vm1)"
    and vm2: "vm2 = vm1\<lparr>runLimit := l, pc := nextPC vm1\<rparr>"
    using assms(6) by (auto simp: step_Ret [OF parse] Let_def bindM_def withVM_def update_def applyCost_def split: res.splits prod.splits if_splits)
  have "upd ?vm st alt ?vm" using at upd_refl [of ?vm] by simp
  then obtain st' alt' where u: "upd ?vm st' alt' vm1" and R: "R st' alt'"
    using wpD [OF op [of ?vm k] op1] at by auto
  have "word_of_nat (length ch) = Len inst" using len by simp
  then have "standsAt c prog e (length (pre @ ch), st', alt') vm2" using u vm2 at by (auto simp: upd_def)
  with run2 R that show ?thesis unfolding canEnd_def by blast
qed

lemma canEnd_determined:
  assumes "canEnd P c prog e (length pre, st, alt) f"
    and "prog = pre @ ch @ post" and "parse_chunk ch inst" and "length prog \<le> 2147483647" and "ch \<noteq> []" and "\<not> isExpansion P (Op inst)"
    and op: "\<And>fuel vm. vcontext vm = c \<Longrightarrow> expansionReserved vm = e \<Longrightarrow> vdata vm = Data inst \<Longrightarrow> upd vm st alt vm \<Longrightarrow>
      wp (opFn P (\<lambda>child. runLoop P fuel (child\<lparr>pc := 0\<rparr>)) (Op inst)) (\<lambda>_ vm'. upd vm st' alt' vm') vm"
  shows "canEnd P c prog e (length (pre @ ch), st', alt') f"
proof (rule canEnd_step [OF assms(1-6), where R = "\<lambda>s a. s = st' \<and> a = alt'"])
  fix fuel vm assume "vcontext vm = c" "expansionReserved vm = e" "vdata vm = Data inst" "upd vm st alt vm"
  then show "wp (opFn P (\<lambda>child. runLoop P fuel (child\<lparr>pc := 0\<rparr>)) (Op inst)) (\<lambda>_ vm'. \<exists>s a. upd vm s a vm' \<and> s = st' \<and> a = alt') vm"
    by (intro wp_mono [OF op]) simp_all
qed simp

lemma canEnd_done:
  assumes "canEnd P c prog e (length prog, st, alt) f"
  shows "dataStack f = st"
proof -
  from assms obtain fuel vm where "standsAt c prog e (length prog, st, alt) vm" "runLoop P fuel vm = (Ret (), f)"
    by (auto simp: canEnd_def)
  then show ?thesis by (cases fuel) (auto simp: withVM_def ret_def)
qed

section \<open>Instructions that succeeded\<close>

lemma canEnd_op:
  assumes "canEnd P c prog e (length pre, st, alt) f" and "prog = pre @ [op] @ post" and "length prog \<le> 2147483647"
    and "plain_op op" and "\<not> isExpansion P op"
    and "\<And>fuel vm. vcontext vm = c \<Longrightarrow> expansionReserved vm = e \<Longrightarrow> upd vm st alt vm \<Longrightarrow>
      wp (opFn P (\<lambda>child. runLoop P fuel (child\<lparr>pc := 0\<rparr>)) op) (\<lambda>_ vm'. \<exists>st' alt'. upd vm st' alt' vm' \<and> R st' alt') vm"
  obtains st' alt' where "R st' alt'" and "canEnd P c prog e (length (pre @ [op]), st', alt') f"
  by (rule canEnd_step [OF assms(1,2) multisig_chunks(1) [OF assms(4)] assms(3), of R]) (use assms(5,6) that in auto)

text \<open>An opcode that pushes its data.\<close>

definition pushes :: "byte \<Rightarrow> bytes \<Rightarrow> bool" where
  "pushes op d \<longleftrightarrow> op = OP_0 \<and> d = [] \<or> op \<in> {OP_PUSHDATA1, OP_PUSHDATA2, OP_PUSHDATA4} \<or> OP_1 \<le> op \<and> op \<le> OP_16 \<or>
     OP_DATA_1 \<le> op \<and> op \<le> OP_DATA_75"

lemma pushes_known: "pushes op d \<Longrightarrow> \<not> isExpansion P op"
  using push_ops(2) [of op P] by (auto simp: pushes_def isExpansion_def opsLiteral_def)

lemma wp_opPushdata:
  assumes "vdata vm = d" and "upd vm st alt vm"
  shows "wp opPushdata (\<lambda>_ vm'. upd vm (st @ [d]) alt vm') vm"
  unfolding opPushdata_def wp_bind wp_withVM
proof (rule wp_applyCost_upd [OF assms(2)])
  fix vm' assume u: "upd vm st alt vm'"
  then have "vdata vm' = d" using assms(1) by (simp add: upd_def)
  then show "wp (push (vdata vm') False) (\<lambda>_ vm'. upd vm (st @ [d]) alt vm') vm'" using wp_push_upd [OF u] by auto
qed

lemma wp_opFalse: "upd vm st alt vm \<Longrightarrow> wp opFalse (\<lambda>_ vm'. upd vm (st @ [[]]) alt vm') vm"
  unfolding opFalse_def wp_bind pushBool_def BoolBytes_def by (rule wp_applyCost_upd) (auto elim!: wp_push_upd)

lemma wp_pushes:
  assumes "pushes op d" and "vdata vm = d" and "upd vm st alt vm"
  shows "wp (opFn P ch op) (\<lambda>_ vm'. upd vm (st @ [d]) alt vm') vm"
proof -
  from assms(1) consider "op = OP_0" "d = []" | "op = OP_PUSHDATA1" | "op = OP_PUSHDATA2" | "op = OP_PUSHDATA4"
    | "OP_1 \<le> op \<and> op \<le> OP_16 \<or> OP_DATA_1 \<le> op \<and> op \<le> OP_DATA_75" by (auto simp: pushes_def)
  then have "opFn P ch op = opPushdata \<or> opFn P ch op = opFalse \<and> d = []"
  proof cases
    case 5
    then show ?thesis using push_ops(1) [of op P ch] by blast
  qed (simp_all add: opFn_def opsLiteral_def)
  then show ?thesis using wp_opPushdata [OF assms(2,3)] wp_opFalse [OF assms(3)] by auto
qed

lemma canEnd_push:
  assumes "canEnd P c prog e (length pre, st, alt) f" and "prog = pre @ ch @ post" and "parse_chunk ch inst" and "length prog \<le> 2147483647"
    and "ch \<noteq> []" and "pushes (Op inst) (Data inst)"
  shows "canEnd P c prog e (length (pre @ ch), st @ [Data inst], alt) f"
  by (rule canEnd_determined [OF assms(1-5) pushes_known [OF assms(6)]]) (rule wp_pushes [OF assms(6)])

lemma canEnd_data:
  assumes "canEnd P c prog e (length pre, st, alt) f" and "prog = pre @ PushdataBytes d @ post" and "length prog \<le> 2147483647"
  shows "canEnd P c prog e (length (pre @ PushdataBytes d), st @ [d], alt) f"
proof -
  have "length d \<le> length (PushdataBytes d)" by (simp add: PushdataBytes_def Let_def)
  then have d: "length d \<le> 2147483647" using assms(2,3) by simp
  have "OP_DATA_1 \<le> (word_of_nat (length d) :: byte) \<and> (word_of_nat (length d) :: byte) \<le> OP_DATA_75" if "d \<noteq> []" "length d \<le> 75"
    using that by (simp add: word_le_nat_alt unat_of_nat Suc_le_eq)
  then have "pushes (Op (dataInst d)) (Data (dataInst d))"
    by (auto simp: pushes_def dataInst_def pushInst_def PushdataBytes_def Let_def)
  from canEnd_push [OF assms(1,2) multisig_chunks(2) [OF d] assms(3) _ this] show ?thesis by simp
qed

lemma canEnd_int:
  assumes "canEnd P c prog e (length pre, st, alt) f" and "prog = pre @ PushdataInt64 n @ post" and "length prog \<le> 2147483647"
  shows "canEnd P c prog e (length (pre @ PushdataInt64 n), st @ [Int64Bytes n], alt) f"
proof (cases "1 \<le> n \<and> n \<le> 16")
  case True
  let ?i = "intInst n" and ?op = "OP_1 + word_of_int n - 1 :: byte"
  have u: "unat ?op = nat (n + 80)" using True by (simp add: unat_eq_nat_uint uint_word_ariths uint_word_of_int)
  have "Op ?i = ?op" using True by (simp add: intInst_def pushInst_def PushdataInt64_def)
  then have "OP_1 \<le> Op ?i \<and> Op ?i \<le> OP_16" using u True by (simp add: word_le_nat_alt nat_le_iff le_nat_iff)
  then have "pushes (Op ?i) (Data ?i)" by (simp add: pushes_def)
  from canEnd_push [OF assms(1,2) multisig_chunks(3) assms(3) _ this] show ?thesis by simp
next
  case False
  have "Int64Bytes 0 = []" by code_simp
  with False have "PushdataInt64 n = PushdataBytes (Int64Bytes n)" by (cases "n = 0") (auto simp: PushdataInt64_def PushdataBytes_def)
  with canEnd_data [OF assms(1)] assms(2,3) show ?thesis by simp
qed

lemma sig_ops:
  "opFn P ch OP_EQUAL = opEqual" "opFn P ch OP_TXSIGHASH = opTxSigHash" "opFn P ch OP_OUTPUTID = pushField SpentOutputID"
  "opFn P ch OP_TXDATA = pushField TxData" "opFn P ch OP_ENTRYDATA = pushField EntryData" "opFn P ch OP_MINTIME = pushUint64 MinTimeMS"
  "opFn P ch OP_MAXTIME = opMaxTime" "opFn P ch OP_VERIFY = opVerify" "opFn P ch OP_CHECKOUTPUT = opCheckOutput"
  by (simp_all add: opFn_def opsLiteral_def opOutputID_def opTxData_def opEntryData_def opMinTime_def)

lemma sig_ops2:
  "opFn P ch OP_GREATERTHANOREQUAL = doNumCompare cmpGreaterEqual" "opFn P ch OP_LESSTHANOREQUAL = doNumCompare cmpLessEqual"
  "opFn P ch OP_DUP = nDup 1" "opFn P ch OP_TOALTSTACK = opToAltStack" "opFn P ch OP_FROMALTSTACK = opFromAltStack"
  "opFn P ch OP_SHA3 = doHash (sha3_256 P)" "opFn P ch OP_CHECKMULTISIG = opCheckMultiSig P" "opFn P ch OP_CHECKPREDICATE = opCheckPredicate ch"
  by (simp_all add: opFn_def opsLiteral_def opGreaterThanOrEqual_def opLessThanOrEqual_def opDup_def opSha3_def)

definition sigOps :: "byte list" where
  "sigOps = [OP_EQUAL, OP_TXSIGHASH, OP_OUTPUTID, OP_TXDATA, OP_ENTRYDATA, OP_MINTIME, OP_MAXTIME, OP_VERIFY, OP_CHECKOUTPUT,
     OP_GREATERTHANOREQUAL, OP_LESSTHANOREQUAL, OP_DUP, OP_TOALTSTACK, OP_FROMALTSTACK, OP_SHA3, OP_CHECKMULTISIG, OP_CHECKPREDICATE]"

lemma sigOps_no_expansion1:
  "\<not> isExpansion P OP_EQUAL" "\<not> isExpansion P OP_TXSIGHASH" "\<not> isExpansion P OP_OUTPUTID"
  "\<not> isExpansion P OP_TXDATA" "\<not> isExpansion P OP_ENTRYDATA" "\<not> isExpansion P OP_MINTIME"
  by (simp_all add: isExpansion_def opsLiteral_def)

lemma sigOps_no_expansion2:
  "\<not> isExpansion P OP_MAXTIME" "\<not> isExpansion P OP_VERIFY" "\<not> isExpansion P OP_CHECKOUTPUT"
  "\<not> isExpansion P OP_GREATERTHANOREQUAL" "\<not> isExpansion P OP_LESSTHANOREQUAL" "\<not> isExpansion P OP_DUP"
  by (simp_all add: isExpansion_def opsLiteral_def)

lemma sigOps_no_expansion3:
  "\<not> isExpansion P OP_TOALTSTACK" "\<not> isExpansion P OP_FROMALTSTACK" "\<not> isExpansion P OP_SHA3"
  "\<not> isExpansion P OP_CHECKMULTISIG" "\<not> isExpansion P OP_CHECKPREDICATE"
  by (simp_all add: isExpansion_def opsLiteral_def)

lemma sigOps_known: "op \<in> set sigOps \<Longrightarrow> plain_op op \<and> \<not> isExpansion P op"
proof -
  have "list_all (\<lambda>op. plain_op op \<and> \<not> isExpansion P op) sigOps"
    unfolding sigOps_def by (simp add: plain_op_def sigOps_no_expansion1 sigOps_no_expansion2 sigOps_no_expansion3)
  then show "op \<in> set sigOps \<Longrightarrow> plain_op op \<and> \<not> isExpansion P op" by (simp add: list_all_iff)
qed

lemma canEnd_known:
  assumes "canEnd P c prog e (length pre, st, alt) f" and "prog = pre @ [op] @ post" and "length prog \<le> 2147483647" and "op \<in> set sigOps"
    and "\<And>fuel vm. vcontext vm = c \<Longrightarrow> expansionReserved vm = e \<Longrightarrow> upd vm st alt vm \<Longrightarrow>
      wp (opFn P (\<lambda>child. runLoop P fuel (child\<lparr>pc := 0\<rparr>)) op) (\<lambda>_ vm'. \<exists>st' alt'. upd vm st' alt' vm' \<and> R st' alt') vm"
  obtains st' alt' where "R st' alt'" and "canEnd P c prog e (length (pre @ [op]), st', alt') f"
  using canEnd_op [OF assms(1-3), of R] sigOps_known [OF assms(4)] assms(5) that by blast

section \<open>The operations\<close>

lemma updE: "upd vm st alt vm' \<Longrightarrow> R st alt \<Longrightarrow> \<exists>st' alt'. upd vm st' alt' vm' \<and> R st' alt'"
  by blast

lemma wp_pushField:
  assumes "upd vm st alt vm" and "vcontext vm = c"
  shows "wp (pushField g) (\<lambda>_ vm'. \<exists>st' alt'. upd vm st' alt' vm' \<and> (\<exists>d. g c = Some d \<and> st' = st @ [d] \<and> alt' = alt)) vm"
  unfolding pushField_def wp_bind wp_withVM
proof (rule wp_applyCost_upd [OF assms(1)])
  fix vm' assume u: "upd vm st alt vm'"
  show "wp (case g (vcontext vm') of None \<Rightarrow> throw ErrContext | Some d \<Rightarrow> push d True)
      (\<lambda>_ vm'. \<exists>st' alt'. upd vm st' alt' vm' \<and> (\<exists>d. g c = Some d \<and> st' = st @ [d] \<and> alt' = alt)) vm'"
    using u assms(2) by (cases "g (vcontext vm')") (auto simp: upd_def [of vm _ _ vm'] intro!: wp_push_upd [OF u] updE)
qed

lemma wp_opTxSigHash:
  assumes "upd vm st alt vm" and "vcontext vm = c"
  shows "wp opTxSigHash (\<lambda>_ vm'. \<exists>st' alt'. upd vm st' alt' vm' \<and> (\<exists>d. TxSigHash c = Some d \<and> st' = st @ [d] \<and> alt' = alt)) vm"
  unfolding opTxSigHash_def wp_bind wp_withVM
proof (rule wp_applyCost_upd [OF assms(1)])
  fix vm' assume u: "upd vm st alt vm'"
  show "wp (case TxSigHash (vcontext vm') of None \<Rightarrow> throw ErrContext | Some d \<Rightarrow> push d False)
      (\<lambda>_ vm'. \<exists>st' alt'. upd vm st' alt' vm' \<and> (\<exists>d. TxSigHash c = Some d \<and> st' = st @ [d] \<and> alt' = alt)) vm'"
    using u assms(2) by (cases "TxSigHash (vcontext vm')") (auto simp: upd_def [of vm _ _ vm'] intro!: wp_push_upd [OF u] updE)
qed

text \<open>The lower and the upper end of the time range as the machine sees them.\<close>

definition maxTimeSeen :: "uint64 \<Rightarrow> int" where
  "maxTimeSeen m = (if m = 0 \<or> uint m > MaxInt64 then MaxInt64 else uint m)"

lemma wp_opMinTime:
  assumes "upd vm st alt vm" and "vcontext vm = c"
  shows "wp (pushUint64 g) (\<lambda>_ vm'. \<exists>st' alt'. upd vm st' alt' vm' \<and> (\<exists>n. g c = Some n \<and> st' = st @ [Int64Bytes (i64 (uint n))] \<and> alt' = alt)) vm"
  unfolding pushUint64_def wp_bind wp_withVM pushInt64_def
proof (rule wp_applyCost_upd [OF assms(1)])
  fix vm' assume u: "upd vm st alt vm'"
  show "wp (case g (vcontext vm') of None \<Rightarrow> throw ErrContext | Some n \<Rightarrow> push (Int64Bytes (i64 (uint n))) True)
      (\<lambda>_ vm'. \<exists>st' alt'. upd vm st' alt' vm' \<and> (\<exists>n. g c = Some n \<and> st' = st @ [Int64Bytes (i64 (uint n))] \<and> alt' = alt)) vm'"
    using u assms(2) by (cases "g (vcontext vm')") (auto simp: upd_def [of vm _ _ vm'] intro!: wp_push_upd [OF u] updE)
qed

lemma maxTime_eq: "i64 (uint (if m = 0 \<or> uint m > MaxInt64 then word_of_int MaxInt64 else m :: uint64)) = maxTimeSeen m"
proof -
  have "i64 (uint m) = uint m" if "uint m \<le> 9223372036854775807" using that uint_ge_0 [of m] by (intro i64_small) linarith+
  then show ?thesis by (auto simp: maxTimeSeen_def i64_small uint_word_of_int not_less int_max_def)
qed

lemma wp_opMaxTime:
  assumes "upd vm st alt vm" and "vcontext vm = c"
  shows "wp opMaxTime (\<lambda>_ vm'. \<exists>st' alt'. upd vm st' alt' vm' \<and> (\<exists>m. MaxTimeMS c = Some m \<and> st' = st @ [Int64Bytes (maxTimeSeen m)] \<and> alt' = alt)) vm"
  unfolding opMaxTime_def wp_bind wp_withVM Let_def maxTime_eq pushInt64_def
proof (rule wp_applyCost_upd [OF assms(1)])
  fix vm' assume u: "upd vm st alt vm'"
  show "wp (case MaxTimeMS (vcontext vm') of None \<Rightarrow> throw ErrContext | Some m \<Rightarrow> push (Int64Bytes (maxTimeSeen m)) True)
      (\<lambda>_ vm'. \<exists>st' alt'. upd vm st' alt' vm' \<and> (\<exists>m. MaxTimeMS c = Some m \<and> st' = st @ [Int64Bytes (maxTimeSeen m)] \<and> alt' = alt)) vm'"
    using u assms(2) by (cases "MaxTimeMS (vcontext vm')") (auto simp: upd_def [of vm _ _ vm'] intro!: wp_push_upd [OF u] updE)
qed

lemma wp_opEqual:
  assumes "upd vm (r @ [a, b]) alt vm"
  shows "wp opEqual (\<lambda>_ vm'. upd vm (r @ [BoolBytes (a = b)]) alt vm') vm"
  unfolding opEqual_def doEqual_def pushBool_def wp_bind
  by (rule wp_applyCost_upd [OF assms], erule wp_pop_upd, erule wp_pop_upd, erule wp_applyCost_upd, simp, erule wp_push_upd) simp

lemma wp_doNumCompare:
  assumes "upd vm (r @ [x, y]) alt vm" and "AsInt64 x = Inr m" and "AsInt64 y = Inr n"
  shows "wp (doNumCompare op) (\<lambda>_ vm'. upd vm (r @ [BoolBytes (compare_by op m n)]) alt vm') vm"
  unfolding doNumCompare_def pushBool_def wp_bind
  by (rule wp_applyCost_upd [OF assms(1)], erule wp_popInt64_upd, erule wp_popInt64_upd, erule wp_push_upd) (use assms(2,3) in auto)

lemma wp_opVerify:
  assumes "upd vm (r @ [x]) alt vm"
  shows "wp opVerify (\<lambda>_ vm'. upd vm r alt vm' \<and> AsBool x) vm"
  unfolding opVerify_def wp_bind
  by (rule wp_applyCost_upd [OF assms], erule wp_pop_upd, rule wp_if) auto

lemma word_i64: "word_of_int (i64 n) = (word_of_int n :: uint64)"
  using wrapS_mod [of 64 n] by (simp add: word_of_int_eq_iff take_bit_eq_mod)

lemma wp_pop_top: "upd vm0 (st @ [x]) alt vm \<Longrightarrow> (\<And>vm'. upd vm0 st alt vm' \<Longrightarrow> Q x vm') \<Longrightarrow> wp (pop df) Q vm"
  by (rule wp_pop_upd) auto

lemma wp_popInt64_top: "upd vm0 (st @ [x]) alt vm \<Longrightarrow> AsInt64 x = Inr n \<Longrightarrow> (\<And>vm'. upd vm0 st alt vm' \<Longrightarrow> Q n vm') \<Longrightarrow> wp (popInt64 df) Q vm"
  by (rule wp_popInt64_upd) auto

lemma wp_opCheckOutput:
  assumes "upd vm (r @ [Int64Bytes index, d, Int64Bytes amount, assetID, Int64Bytes 1, code]) alt vm" and "in_i64 index" "in_i64 amount"
    and "vcontext vm = c" and "expansionReserved vm = e"
  shows "wp opCheckOutput (\<lambda>_ vm'. \<exists>st' alt'. upd vm st' alt' vm' \<and> (\<exists>b. st' = r @ [BoolBytes b] \<and> alt' = alt \<and>
    (\<exists>f. CheckOutput c = Some f \<and> f (word_of_int index) d (word_of_int amount) assetID 1 code e = Ret b))) vm" (is "wp _ ?Q _")
proof -
  have st: "upd vm ((((((r @ [Int64Bytes index]) @ [d]) @ [Int64Bytes amount]) @ [assetID]) @ [Int64Bytes 1]) @ [code]) alt vm"
    using assms(1) by simp
  have ints: "AsInt64 (Int64Bytes 1) = Inr 1" "AsInt64 (Int64Bytes index) = Inr index" "AsInt64 (Int64Bytes amount) = Inr amount"
    using assms(2,3) by (simp_all add: in_i64_iff)
  have "wp (case CheckOutput (vcontext vm') of None \<Rightarrow> throw ErrContext
       | Some f \<Rightarrow> bindM (lift_res (f (word_of_int index) d (word_of_int amount) assetID (word_of_int 1) code (expansionReserved vm')))
           (\<lambda>ok. push (BoolBytes ok) True)) ?Q vm'" if u: "upd vm r alt vm'" for vm'
  proof (cases "CheckOutput c")
    case (Some f)
    have c: "vcontext vm' = c" "expansionReserved vm' = e" using u assms(4,5) by (simp_all add: upd_def)
    show ?thesis unfolding c Some option.case wp_bind
      by (rule wp_lift_res, rule wp_push_upd [OF u]) (auto simp: Some)
  qed (use u assms(4) in \<open>simp add: upd_def\<close>)
  then show ?thesis unfolding opCheckOutput_def pushBool_def wp_bind
    apply (intro wp_applyCost_upd [OF st])
    apply (erule wp_pop_top, erule wp_popInt64_top [OF _ ints(1)], rule wp_if, simp, unfold wp_bind)
    apply (erule wp_pop_top, erule wp_popInt64_top [OF _ ints(3)], rule wp_if, simp, unfold wp_bind)
    apply (erule wp_pop_top, erule wp_popInt64_top [OF _ ints(2)], rule wp_if, simp, unfold wp_bind wp_withVM)
    by blast
qed

section \<open>Steps\<close>

lemma canEnd_field:
  assumes "canEnd P c prog e (length pre, st, alt) f" and "prog = pre @ [op] @ post" and "length prog \<le> 2147483647" and "op \<in> set sigOps"
    and "\<And>ch vm. upd vm st alt vm \<Longrightarrow> vcontext vm = c \<Longrightarrow>
      wp (opFn P ch op) (\<lambda>_ vm'. \<exists>st' alt'. upd vm st' alt' vm' \<and> (\<exists>d. g = Some d \<and> st' = st @ [F d] \<and> alt' = alt)) vm"
  obtains d where "g = Some d" and "canEnd P c prog e (length (pre @ [op]), st @ [F d], alt) f"
  by (rule canEnd_known [OF assms(1-4), where R = "\<lambda>st' alt'. \<exists>d. g = Some d \<and> st' = st @ [F d] \<and> alt' = alt"]) (use assms(5) that in auto)

lemma canEnd_fixed:
  assumes "canEnd P c prog e (length pre, st, alt) f" and "prog = pre @ [op] @ post" and "length prog \<le> 2147483647" and "op \<in> set sigOps"
    and "\<And>ch vm. upd vm st alt vm \<Longrightarrow> vcontext vm = c \<Longrightarrow> expansionReserved vm = e \<Longrightarrow>
      wp (opFn P ch op) (\<lambda>_ vm'. upd vm st' alt' vm' \<and> Q) vm"
  shows "Q" and "canEnd P c prog e (length (pre @ [op]), st', alt') f"
proof -
  obtain s a where "(s = st' \<and> a = alt') \<and> Q" and "canEnd P c prog e (length (pre @ [op]), s, a) f"
  proof (rule canEnd_known [OF assms(1-4), where R = "\<lambda>s a. (s = st' \<and> a = alt') \<and> Q"])
    fix fuel vm assume "vcontext vm = c" "expansionReserved vm = e" "upd vm st alt vm"
    then show "wp (opFn P (\<lambda>child. runLoop P fuel (child\<lparr>pc := 0\<rparr>)) op) (\<lambda>_ vm'. \<exists>s a. upd vm s a vm' \<and> (s = st' \<and> a = alt') \<and> Q) vm"
      by (intro wp_mono [OF assms(5)]) auto
  qed
  then show "Q" and "canEnd P c prog e (length (pre @ [op]), st', alt') f" by simp_all
qed

lemma canEnd_equal:
  "canEnd P c prog e (length pre, r @ [a, b], alt) f \<Longrightarrow> prog = pre @ [OP_EQUAL] @ post \<Longrightarrow> length prog \<le> 2147483647 \<Longrightarrow>
    canEnd P c prog e (length (pre @ [OP_EQUAL]), r @ [BoolBytes (a = b)], alt) f"
  by (erule canEnd_fixed(2) [where Q = True]) (use wp_opEqual in \<open>auto simp: sig_ops sigOps_def\<close>)

lemma canEnd_compare:
  assumes "canEnd P c prog e (length pre, r @ [Int64Bytes m, Int64Bytes n], alt) f" and "prog = pre @ [op] @ post" and "length prog \<le> 2147483647"
    and "op = OP_GREATERTHANOREQUAL \<and> cmp = cmpGreaterEqual \<or> op = OP_LESSTHANOREQUAL \<and> cmp = cmpLessEqual" and "in_i64 m" and "in_i64 n"
  shows "canEnd P c prog e (length (pre @ [op]), r @ [BoolBytes (compare_by cmp m n)], alt) f"
proof (rule canEnd_fixed(2) [OF assms(1-3), where Q = True])
  show "op \<in> set sigOps" using assms(4) by (auto simp: sigOps_def)
  fix ch vm assume "upd vm (r @ [Int64Bytes m, Int64Bytes n]) alt vm"
  from wp_doNumCompare [OF this, of m n cmp] assms(4-6) show "wp (opFn P ch op) (\<lambda>_ vm'. upd vm (r @ [BoolBytes (compare_by cmp m n)]) alt vm' \<and> True) vm"
    by (auto simp: sig_ops2)
qed

lemma canEnd_verify:
  assumes "canEnd P c prog e (length pre, r @ [BoolBytes b], alt) f" and "prog = pre @ [OP_VERIFY] @ post" and "length prog \<le> 2147483647"
  shows "b" and "canEnd P c prog e (length (pre @ [OP_VERIFY]), r, alt) f"
proof -
  have "wp (opFn P ch OP_VERIFY) (\<lambda>_ vm'. upd vm r alt vm' \<and> b) vm" if "upd vm (r @ [BoolBytes b]) alt vm" for ch vm
    using wp_opVerify [OF that] by (simp add: sig_ops)
  from canEnd_fixed [OF assms _ this] show "b" and "canEnd P c prog e (length (pre @ [OP_VERIFY]), r, alt) f"
    by (simp_all add: sigOps_def)
qed

lemma canEnd_checkoutput:
  assumes "canEnd P c prog e (length pre, r @ [Int64Bytes index, d, Int64Bytes amount, assetID, Int64Bytes 1, code], alt) f"
    and "prog = pre @ [OP_CHECKOUTPUT] @ post" and "length prog \<le> 2147483647" and "in_i64 index" "in_i64 amount"
  obtains b g where "CheckOutput c = Some g" and "g (word_of_int index) d (word_of_int amount) assetID 1 code e = Ret b"
    and "canEnd P c prog e (length (pre @ [OP_CHECKOUTPUT]), r @ [BoolBytes b], alt) f"
proof -
  let ?R = "\<lambda>st' alt'. \<exists>b. st' = r @ [BoolBytes b] \<and> alt' = alt \<and>
    (\<exists>f. CheckOutput c = Some f \<and> f (word_of_int index) d (word_of_int amount) assetID 1 code e = Ret b)"
  obtain st' alt' where "?R st' alt'" and "canEnd P c prog e (length (pre @ [OP_CHECKOUTPUT]), st', alt') f"
    by (rule canEnd_known [OF assms(1-3), where R = ?R]) (use wp_opCheckOutput assms(4,5) in \<open>auto simp: sig_ops sigOps_def\<close>)
  then show ?thesis using that by auto
qed

section \<open>What the constraints demand\<close>

text \<open>The meaning of a constraint in the context of the input whose predicate is run; \<open>e\<close> says whether expansion opcodes are reserved there.\<close>

fun holds :: "(bytes \<Rightarrow> bytes) \<Rightarrow> Context \<Rightarrow> bool \<Rightarrow> constraint \<Rightarrow> bool" where
  "holds H c e (timeConstraint mn mx) \<longleftrightarrow> (mn > 0 \<longrightarrow> (\<exists>t. MinTimeMS c = Some t \<and> i64 (uint mn) \<le> i64 (uint t))) \<and>
     (mx > 0 \<longrightarrow> (\<exists>t. MaxTimeMS c = Some t \<and> maxTimeSeen t \<le> i64 (uint mx)))"
| "holds H c e (outputIDConstraint o') \<longleftrightarrow> SpentOutputID c = Some (Byte32 o')"
| "holds H c e (refdataConstraint d tx) \<longleftrightarrow> (if tx then TxData c else EntryData c) = Some (H d)"
| "holds H c e (payConstraint index aa prog ref) \<longleftrightarrow> (\<exists>f a. CheckOutput c = Some f \<and> amt_AssetId aa = Some a \<and>
     f (word_of_int index) (case ref of None \<Rightarrow> [] | Some h \<Rightarrow> Byte32 h) (amt_Amount aa) (Byte32 a) 1 prog e = Ret True)"

text \<open>A piece of a program that leaves one boolean, which is true only if \<open>Q\<close>.\<close>

definition tests :: "prims \<Rightarrow> Context \<Rightarrow> bool \<Rightarrow> bytes \<Rightarrow> bool \<Rightarrow> bool" where
  "tests P c e code Q \<longleftrightarrow> (\<forall>prog pre post st alt f. prog = pre @ code @ post \<longrightarrow> length prog \<le> 2147483647 \<longrightarrow>
     canEnd P c prog e (length pre, st, alt) f \<longrightarrow> (\<exists>b. canEnd P c prog e (length (pre @ code), st @ [BoolBytes b], alt) f \<and> (b \<longrightarrow> Q)))"

lemma testsI:
  assumes "\<And>prog pre post st alt f. prog = pre @ code @ post \<Longrightarrow> length prog \<le> 2147483647 \<Longrightarrow> canEnd P c prog e (length pre, st, alt) f \<Longrightarrow>
    \<exists>b. canEnd P c prog e (length (pre @ code), st @ [BoolBytes b], alt) f \<and> (b \<longrightarrow> Q)"
  shows "tests P c e code Q"
  using assms unfolding tests_def by blast

lemma testsE:
  assumes "tests P c e code Q" and "prog = pre @ code @ post" and "length prog \<le> 2147483647" and "canEnd P c prog e (length pre, st, alt) f"
  obtains b where "canEnd P c prog e (length (pre @ code), st @ [BoolBytes b], alt) f" and "b \<longrightarrow> Q"
  using assms unfolding tests_def by blast

text \<open>Data compared with a value of the context.\<close>

lemma tests_equal:
  assumes "op \<in> set sigOps" and op: "\<And>ch st alt vm. upd vm st alt vm \<Longrightarrow> vcontext vm = c \<Longrightarrow>
    wp (opFn P ch op) (\<lambda>_ vm'. \<exists>st' alt'. upd vm st' alt' vm' \<and> (\<exists>d. g = Some d \<and> st' = st @ [d] \<and> alt' = alt)) vm"
  shows "tests P c e (PushdataBytes x @ [op, OP_EQUAL]) (g = Some x)"
proof (rule testsI)
  fix prog pre post st alt f
  let ?p1 = "pre @ PushdataBytes x"
  assume p: "prog = pre @ (PushdataBytes x @ [op, OP_EQUAL]) @ post" and len: "length prog \<le> 2147483647"
    and c0: "canEnd P c prog e (length pre, st, alt) f"
  have c1: "canEnd P c prog e (length ?p1, st @ [x], alt) f" by (rule canEnd_data [OF c0 _ len]) (use p in simp)
  have "prog = ?p1 @ [op] @ OP_EQUAL # post" using p by simp
  then obtain d where d: "g = Some d" and "canEnd P c prog e (length (?p1 @ [op]), (st @ [x]) @ [d], alt) f"
    by (rule canEnd_field [OF c1 _ len assms(1), where F = "\<lambda>d. d" and g = g]) (rule op)
  then have "canEnd P c prog e (length ((?p1 @ [op]) @ [OP_EQUAL]), st @ [BoolBytes (x = d)], alt) f"
    by (intro canEnd_equal [OF _ _ len]) (use p in simp_all)
  then show "\<exists>b. canEnd P c prog e (length (pre @ PushdataBytes x @ [op, OP_EQUAL]), st @ [BoolBytes b], alt) f \<and> (b \<longrightarrow> g = Some x)"
    using d by (intro exI [of _ "x = d"]) simp
qed

lemma tests_mono:
  assumes "tests P c e code Q" and "Q \<Longrightarrow> R"
  shows "tests P c e code R"
proof (rule testsI)
  fix prog pre post st alt f
  assume "prog = pre @ code @ post" "length prog \<le> 2147483647" "canEnd P c prog e (length pre, st, alt) f"
  then obtain b where "canEnd P c prog e (length (pre @ code), st @ [BoolBytes b], alt) f" and "b \<longrightarrow> Q" by (rule testsE [OF assms(1)])
  with assms(2) show "\<exists>b. canEnd P c prog e (length (pre @ code), st @ [BoolBytes b], alt) f \<and> (b \<longrightarrow> R)" by auto
qed

text \<open>An end of the time range compared with a bound.\<close>

lemma tests_time:
  assumes "op1 \<in> set sigOps" and op: "\<And>ch st alt vm. upd vm st alt vm \<Longrightarrow> vcontext vm = c \<Longrightarrow>
      wp (opFn P ch op1) (\<lambda>_ vm'. \<exists>st' alt'. upd vm st' alt' vm' \<and> (\<exists>d. g = Some d \<and> st' = st @ [Int64Bytes (F d)] \<and> alt' = alt)) vm"
    and "op2 = OP_GREATERTHANOREQUAL \<and> cmp = cmpGreaterEqual \<or> op2 = OP_LESSTHANOREQUAL \<and> cmp = cmpLessEqual"
    and "\<And>d. in_i64 (F d)" and "in_i64 n"
  shows "tests P c e (op1 # PushdataInt64 n @ [op2]) (\<exists>d. g = Some d \<and> compare_by cmp (F d) n)"
proof (rule testsI)
  fix prog pre post st alt f
  let ?p1 = "pre @ [op1]" let ?p2 = "?p1 @ PushdataInt64 n"
  assume p: "prog = pre @ (op1 # PushdataInt64 n @ [op2]) @ post" and len: "length prog \<le> 2147483647"
    and c0: "canEnd P c prog e (length pre, st, alt) f"
  have "prog = pre @ [op1] @ PushdataInt64 n @ op2 # post" using p by simp
  then obtain d where d: "g = Some d" and c1: "canEnd P c prog e (length ?p1, st @ [Int64Bytes (F d)], alt) f"
    by (rule canEnd_field [OF c0 _ len assms(1), where F = "\<lambda>d. Int64Bytes (F d)" and g = g]) (rule op)
  have "canEnd P c prog e (length ?p2, (st @ [Int64Bytes (F d)]) @ [Int64Bytes n], alt) f" by (rule canEnd_int [OF c1 _ len]) (use p in simp)
  then have "canEnd P c prog e (length (?p2 @ [op2]), st @ [BoolBytes (compare_by cmp (F d) n)], alt) f"
    by (intro canEnd_compare [OF _ _ len assms(3-5)]) (use p in simp_all)
  then show "\<exists>b. canEnd P c prog e (length (pre @ op1 # PushdataInt64 n @ [op2]), st @ [BoolBytes b], alt) f \<and> (b \<longrightarrow> (\<exists>d. g = Some d \<and> compare_by cmp (F d) n))"
    using d by (intro exI [of _ "compare_by cmp (F d) n"]) simp
qed

lemma in_i64_i64 [simp]: "in_i64 (i64 n)"
  by (rule wrapS_in) simp

lemma in_i64_maxTimeSeen: "in_i64 (maxTimeSeen m)"
  using order_trans [OF _ uint_ge_0 [of m], of "- 9223372036854775808"] by (auto simp: maxTimeSeen_def in_i64_iff int_max_def not_less)

lemma tests_minTime: "tests P c e (OP_MINTIME # PushdataInt64 (i64 (uint (mn :: uint64))) @ [OP_GREATERTHANOREQUAL])
    (\<exists>t. MinTimeMS c = Some t \<and> i64 (uint mn) \<le> i64 (uint t))"
  by (rule tests_mono [OF tests_time [where F = "\<lambda>t. i64 (uint t)" and g = "MinTimeMS c" and cmp = cmpGreaterEqual]])
    (auto simp: sig_ops sigOps_def intro!: wp_opMinTime)

lemma tests_maxTime: "tests P c e (OP_MAXTIME # PushdataInt64 (i64 (uint (mx :: uint64))) @ [OP_LESSTHANOREQUAL])
    (\<exists>t. MaxTimeMS c = Some t \<and> maxTimeSeen t \<le> i64 (uint mx))"
  by (rule tests_mono [OF tests_time [where F = maxTimeSeen and g = "MaxTimeMS c" and cmp = cmpLessEqual]])
    (auto simp: sig_ops sigOps_def in_i64_maxTimeSeen intro!: wp_opMaxTime)

text \<open>Two tests with \<^verbatim>\<open>VERIFY\<close> between them test both.\<close>

lemma tests_both:
  assumes "tests P c e p Q" and "tests P c e q R"
  shows "tests P c e (p @ [OP_VERIFY] @ q) (Q \<and> R)"
proof (rule testsI)
  fix prog pre post st alt f
  assume p: "prog = pre @ (p @ [OP_VERIFY] @ q) @ post" and len: "length prog \<le> 2147483647"
    and c0: "canEnd P c prog e (length pre, st, alt) f"
  have "prog = pre @ p @ [OP_VERIFY] @ q @ post" using p by simp
  then obtain b where c1: "canEnd P c prog e (length (pre @ p), st @ [BoolBytes b], alt) f" and b: "b \<longrightarrow> Q"
    by (rule testsE [OF assms(1) _ len c0])
  have p1: "prog = (pre @ p) @ [OP_VERIFY] @ q @ post" using p by simp
  have "b" and c2: "canEnd P c prog e (length ((pre @ p) @ [OP_VERIFY]), st, alt) f"
    using canEnd_verify [OF c1 p1 len] by simp_all
  have "prog = ((pre @ p) @ [OP_VERIFY]) @ q @ post" using p by simp
  then obtain b' where "canEnd P c prog e (length (((pre @ p) @ [OP_VERIFY]) @ q), st @ [BoolBytes b'], alt) f" and "b' \<longrightarrow> R"
    by (rule testsE [OF assms(2) _ len c2])
  with \<open>b\<close> b show "\<exists>b. canEnd P c prog e (length (pre @ p @ [OP_VERIFY] @ q), st @ [BoolBytes b], alt) f \<and> (b \<longrightarrow> Q \<and> R)"
    by (intro exI [of _ b']) simp
qed

lemma tests_true: "tests P c e [OP_TRUE] True"
proof (rule testsI)
  fix prog pre post st alt f
  assume p: "prog = pre @ [OP_TRUE] @ post" and len: "length prog \<le> 2147483647" and c0: "canEnd P c prog e (length pre, st, alt) f"
  have one: "PushdataInt64 1 = [OP_TRUE]" "Int64Bytes 1 = BoolBytes True" by (simp_all add: PushdataInt64_def BoolBytes_Int64Bytes)
  from canEnd_int [OF c0, of 1 post] p len have "canEnd P c prog e (length (pre @ [OP_TRUE]), st @ [BoolBytes True], alt) f" by (simp add: one)
  then show "\<exists>b. canEnd P c prog e (length (pre @ [OP_TRUE]), st @ [BoolBytes b], alt) f \<and> (b \<longrightarrow> True)" by blast
qed

lemma tests_pay:
  "tests P c e (payCode index a amount prog ref) (holds H c e (payConstraint (i64 index) \<lparr>amt_AssetId = Some a, amt_Amount = amount\<rparr> prog ref))"
proof (rule testsI)
  let ?d = "case ref of None \<Rightarrow> [] | Some h \<Rightarrow> Byte32 h" and ?i = "i64 index" and ?n = "i64 (uint amount)"
  fix p pre post st alt f
  let ?p1 = "pre @ PushdataInt64 ?i" let ?p2 = "?p1 @ PushdataBytes ?d" let ?p3 = "?p2 @ PushdataInt64 ?n"
  let ?p4 = "?p3 @ PushdataBytes (Byte32 a)" let ?p5 = "?p4 @ PushdataInt64 1" let ?p6 = "?p5 @ PushdataBytes prog"
  assume "p = pre @ payCode index a amount prog ref @ post" and len: "length p \<le> 2147483647" and c0: "canEnd P c p e (length pre, st, alt) f"
  then have p: "p = ?p6 @ [OP_CHECKOUTPUT] @ post" and code: "pre @ payCode index a amount prog ref = ?p6 @ [OP_CHECKOUTPUT]"
    by (simp_all add: payCode_def Let_def builder_defs)
  have c1: "canEnd P c p e (length ?p1, st @ [Int64Bytes ?i], alt) f" by (rule canEnd_int [OF c0 _ len]) (use p in simp)
  have c2: "canEnd P c p e (length ?p2, (st @ [Int64Bytes ?i]) @ [?d], alt) f" by (rule canEnd_data [OF c1 _ len]) (use p in simp)
  have c3: "canEnd P c p e (length ?p3, ((st @ [Int64Bytes ?i]) @ [?d]) @ [Int64Bytes ?n], alt) f" by (rule canEnd_int [OF c2 _ len]) (use p in simp)
  have c4: "canEnd P c p e (length ?p4, (((st @ [Int64Bytes ?i]) @ [?d]) @ [Int64Bytes ?n]) @ [Byte32 a], alt) f"
    by (rule canEnd_data [OF c3 _ len]) (use p in simp)
  have c5: "canEnd P c p e (length ?p5, ((((st @ [Int64Bytes ?i]) @ [?d]) @ [Int64Bytes ?n]) @ [Byte32 a]) @ [Int64Bytes 1], alt) f"
    by (rule canEnd_int [OF c4 _ len]) (use p in simp)
  have "canEnd P c p e (length ?p6, (((((st @ [Int64Bytes ?i]) @ [?d]) @ [Int64Bytes ?n]) @ [Byte32 a]) @ [Int64Bytes 1]) @ [prog], alt) f"
    by (rule canEnd_data [OF c5 _ len]) (use p in simp)
  then have "canEnd P c p e (length ?p6, st @ [Int64Bytes ?i, ?d, Int64Bytes ?n, Byte32 a, Int64Bytes 1, prog], alt) f" by simp
  then obtain b g where "CheckOutput c = Some g" "g (word_of_int ?i) ?d (word_of_int ?n) (Byte32 a) 1 prog e = Ret b"
    and "canEnd P c p e (length (?p6 @ [OP_CHECKOUTPUT]), st @ [BoolBytes b], alt) f"
    by (rule canEnd_checkoutput [OF _ p len]) simp_all
  then show "\<exists>b. canEnd P c p e (length (pre @ payCode index a amount prog ref), st @ [BoolBytes b], alt) f \<and>
      (b \<longrightarrow> holds H c e (payConstraint ?i \<lparr>amt_AssetId = Some a, amt_Amount = amount\<rparr> prog ref))"
    by (intro exI [of _ b]) (simp only: code, simp add: word_i64)
qed

lemma tests_constraint:
  assumes "constraintCode H x = (Ok p :: ('e, bytes) outcome)" and "\<And>index aa prog ref. x = payConstraint index aa prog ref \<Longrightarrow> in_i64 index"
  shows "tests P c e p (holds H c e x)"
proof (cases x)
  case (timeConstraint mn mx)
  let ?mn = "OP_MINTIME # PushdataInt64 (i64 (uint mn)) @ [OP_GREATERTHANOREQUAL]" and ?mx = "OP_MAXTIME # PushdataInt64 (i64 (uint mx)) @ [OP_LESSTHANOREQUAL]"
  have "p = (if mn > 0 then (if mx > 0 then ?mn @ [OP_VERIFY] @ ?mx else ?mn) else if mx > 0 then ?mx else [OP_TRUE])"
    using assms(1) by (auto simp: timeConstraint timeCode_def Let_def builder_defs word_neq_0_conv [symmetric])
  then show ?thesis
    using tests_both [OF tests_minTime [of P c e mn] tests_maxTime [of P c e mx]] tests_minTime [of P c e mn] tests_maxTime [of P c e mx] tests_true [of P c e]
    by (cases "mn > 0"; cases "mx > 0") (simp_all add: timeConstraint tests_mono)
next
  case (outputIDConstraint o')
  then have p: "p = PushdataBytes (Byte32 o') @ [OP_OUTPUTID, OP_EQUAL]" using assms(1) by (simp add: outputIDCode_def builder_defs)
  show ?thesis unfolding p outputIDConstraint holds.simps
    by (rule tests_equal) (auto simp: sig_ops sigOps_def intro!: wp_pushField)
next
  case (refdataConstraint d tx)
  then have p: "p = PushdataBytes (H d) @ [if tx then OP_TXDATA else OP_ENTRYDATA, OP_EQUAL]" using assms(1) by (simp add: refdataCode_def builder_defs)
  show ?thesis unfolding p refdataConstraint holds.simps
    by (rule tests_equal) (auto simp: sig_ops sigOps_def intro!: wp_pushField)
next
  case (payConstraint index aa prog ref)
  then obtain a where a: "amt_AssetId aa = Some a" and p: "p = payCode index a (amt_Amount aa) prog ref"
    using assms(1) by (auto simp: bindO_Ok_iff)
  then have "aa = \<lparr>amt_AssetId = Some a, amt_Amount = amt_Amount aa\<rparr>" by simp
  with tests_pay [of P c e index a "amt_Amount aa" prog ref H] assms(2) [OF payConstraint] show ?thesis
    by (simp add: payConstraint p in_i64_iff i64_small)
qed

lemma tests_join:
  assumes "joinCode H cs = (Ok p :: ('e, bytes) outcome)" and "cs \<noteq> []"
    and "\<And>index aa prog ref. payConstraint index aa prog ref \<in> set cs \<Longrightarrow> in_i64 index"
  shows "tests P c e p (\<forall>x \<in> set cs. holds H c e x)"
  using assms
proof (induction cs arbitrary: p)
  case (Cons x cs)
  then obtain q r where q: "constraintCode H x = (Ok q :: ('e, bytes) outcome)" and r: "joinCode H cs = (Ok r :: ('e, bytes) outcome)"
    and p: "p = q @ (if cs \<noteq> [] then [OP_VERIFY] else []) @ r" by (auto simp: bindO_Ok_iff)
  have one: "tests P c e q (holds H c e x)" by (rule tests_constraint [OF q]) (use Cons.prems(3) in auto)
  show ?case
  proof (cases "cs = []")
    case True
    then show ?thesis using one r p by simp
  next
    case False
    with Cons.IH [OF r] Cons.prems(3) have "tests P c e r (\<forall>x \<in> set cs. holds H c e x)" by auto
    from tests_both [OF one this] show ?thesis using False by (simp add: p tests_mono)
  qed
qed simp

section \<open>Predicates\<close>

text \<open>The predicate runs to its end on the given arguments and leaves true. \<^verbatim>\<open>CHECKPREDICATE\<close> never reserves expansion opcodes.\<close>

definition predicateHolds :: "prims \<Rightarrow> Context \<Rightarrow> bytes \<Rightarrow> bytes list \<Rightarrow> bool" where
  "predicateHolds P c prog args \<longleftrightarrow> (\<exists>fuel limit d f. runLoop P fuel (newVM c prog False limit d args) = (Ret (), f) \<and> \<not> falseResult f)"

lemma predicate_tests:
  assumes "predicateHolds P c prog args" and "tests P c False prog Q" and "length prog \<le> 2147483647"
  shows "Q"
proof -
  from assms(1) obtain fuel limit d f where f: "runLoop P fuel (newVM c prog False limit d args) = (Ret (), f)" "\<not> falseResult f"
    by (auto simp: predicateHolds_def)
  have "standsAt c prog False (length ([] :: bytes), args, []) (newVM c prog False limit d args)" by (simp add: newVM_def)
  then have "canEnd P c prog False (length ([] :: bytes), args, []) f" using f(1) unfolding canEnd_def by blast
  moreover have "prog = [] @ prog @ []" by simp
  ultimately obtain b where b: "canEnd P c prog False (length ([] @ prog), args @ [BoolBytes b], []) f" "b \<longrightarrow> Q"
    using testsE [OF assms(2) _ assms(3)] by metis
  from b(1) have "dataStack f = args @ [BoolBytes b]" by (intro canEnd_done) simp
  with f(2) b(2) show ?thesis by (simp add: falseResult_def)
qed

section \<open>Control programs of accounts\<close>

lemma wp_popLoop_upd:
  assumes "upd vm0 st alt vm" and "\<And>st' xs vm'. st = st' @ xs \<Longrightarrow> length xs = k \<Longrightarrow> upd vm0 st' alt vm' \<Longrightarrow> Q (acc @ rev xs) vm'"
  shows "wp (popLoop k acc) Q vm"
  using assms
proof (induction k arbitrary: st acc vm)
  case 0
  then show ?case using "0.prems"(2) [of st "[]"] by simp
next
  case (Suc k)
  show ?case unfolding popLoop.simps wp_bind
  proof (rule wp_pop_upd [OF Suc.prems(1)])
    fix st' x vm' assume st: "st = st' @ [x]" and u: "upd vm0 st' alt vm'"
    show "wp (popLoop k (acc @ [x])) Q vm'"
    proof (rule Suc.IH [OF u])
      fix st2 xs vm2 assume "st' = st2 @ xs" "length xs = k" "upd vm0 st2 alt vm2"
      then show "Q ((acc @ [x]) @ rev xs) vm2" using Suc.prems(2) [of st2 "xs @ [x]" vm2] st by simp
    qed
  qed
qed

lemma wp_dup: "upd vm (st @ [x]) alt vm \<Longrightarrow> wp (nDup 1) (\<lambda>_ vm'. upd vm (st @ [x, x]) alt vm' \<and> True) vm"
  unfolding nDup_def wp_bind wp_withVM
proof (rule wp_applyCost_upd, assumption)
  fix vm' assume u: "upd vm (st @ [x]) alt vm'"
  have d: "dataStack vm' = st @ [x]" using u by (simp add: upd_def)
  have "wp (bindM (push x False) (\<lambda>_. ret ())) (\<lambda>_ vm'. upd vm (st @ [x, x]) alt vm' \<and> True) vm'"
    unfolding wp_bind by (rule wp_push_upd [OF u]) simp
  then show "wp (if length (dataStack vm') < 1 then throw ErrDataStackUnderflow else nDupLoop 1 1) (\<lambda>_ vm'. upd vm (st @ [x, x]) alt vm' \<and> True) vm'"
    by (simp add: d del: wp_bind) (simp add: d)
qed

lemma wp_toAlt:
  assumes "upd vm (st @ [x]) alt vm"
  shows "wp opToAltStack (\<lambda>_ vm'. upd vm st (alt @ [x]) vm' \<and> True) vm"
  unfolding opToAltStack_def wp_bind wp_withVM
  by (rule wp_applyCost_upd [OF assms]) (auto simp: upd_def wp_def setStacks_def throw_def)

lemma wp_fromAlt:
  assumes "upd vm st (alt @ [x]) vm"
  shows "wp opFromAltStack (\<lambda>_ vm'. upd vm (st @ [x]) alt vm' \<and> True) vm"
  unfolding opFromAltStack_def wp_bind wp_withVM
  by (rule wp_applyCost_upd [OF assms]) (auto simp: upd_def wp_def setStacks_def throw_def)

lemma wp_doHash:
  assumes "upd vm (st @ [x]) alt vm"
  shows "wp (doHash h) (\<lambda>_ vm'. upd vm (st @ [h x]) alt vm' \<and> True) vm"
  unfolding doHash_def wp_bind Let_def
  by (rule wp_pop_top [OF assms], erule wp_applyCost_upd, erule wp_push_upd) simp

lemma wp_checkMultiSig:
  assumes "upd vm (st @ [msg] @ keys @ [Int64Bytes n, Int64Bytes (int (length keys))]) alt vm" and "in_i64 n" "in_i64 (int (length keys))"
  shows "wp (opCheckMultiSig P) (\<lambda>_ vm'. \<exists>st' alt'. upd vm st' alt' vm' \<and> (\<exists>r sigs b. st = r @ sigs \<and> int (length sigs) = n \<and>
    st' = r @ [BoolBytes b] \<and> alt' = alt \<and> (b \<longrightarrow> multisig_ok P msg sigs keys))) vm" (is "wp _ ?Q _")
proof -
  have st: "upd vm ((((st @ [msg]) @ keys) @ [Int64Bytes n]) @ [Int64Bytes (int (length keys))]) alt vm" using assms(1) by simp
  have ints: "AsInt64 (Int64Bytes (int (length keys))) = Inr (int (length keys))" "AsInt64 (Int64Bytes n) = Inr n" using assms(2,3) by simp_all
  have sigs: "wp (popLoop (nat n) []) (\<lambda>sigs. wp (if list_ex (\<lambda>p. length p \<noteq> PublicKeySize) (rev keys) then push (BoolBytes False) True
      else push (BoolBytes (matchSigs P msg sigs (rev keys) = [])) True) ?Q) vm'" if u: "upd vm st alt vm'" and n: "0 \<le> n" for vm'
  proof (rule wp_popLoop_upd [OF u])
    fix r sigs vm2 assume s: "st = r @ sigs" "length sigs = nat n" and u2: "upd vm r alt vm2"
    have "wp (push (BoolBytes b) True) ?Q vm2" if "b \<longrightarrow> multisig_ok P msg sigs keys" for b
    proof (rule wp_push_upd [OF u2], intro exI conjI)
      show "st = r @ sigs" "int (length sigs) = n" using s n by simp_all
    qed (use that in auto)
    then show "wp (if list_ex (\<lambda>p. length p \<noteq> PublicKeySize) (rev keys) then push (BoolBytes False) True
      else push (BoolBytes (matchSigs P msg ([] @ rev sigs) (rev keys) = [])) True) ?Q vm2"
      by (simp add: matchSigs_iff multisig_ok_rev)
  qed
  have keys: "wp (popLoop (length keys) []) (\<lambda>pubkeyByteses. wp (pop True) (\<lambda>msg. wp (if length msg \<noteq> 32 then throw ErrBadValue
      else bindM (popLoop (nat n) []) (\<lambda>sigs. if list_ex (\<lambda>p. length p \<noteq> PublicKeySize) pubkeyByteses then push (BoolBytes False) True
        else push (BoolBytes (matchSigs P msg sigs pubkeyByteses = [])) True)) ?Q)) vm'"
    if u: "upd vm ((st @ [msg]) @ keys) alt vm'" and n: "0 \<le> n" for vm'
  proof (rule wp_popLoop_upd [OF u])
    fix st' xs vm2 assume eq: "(st @ [msg]) @ keys = st' @ xs" "length xs = length keys" and u': "upd vm st' alt vm2"
    have "st @ [msg] = st' \<and> keys = xs" using append_eq_append_conv [of "st @ [msg]" st' keys xs] eq by metis
    with u' have xs: "xs = keys" and u2: "upd vm (st @ [msg]) alt vm2" by blast+
    show "wp (pop True) (\<lambda>msg. wp (if length msg \<noteq> 32 then throw ErrBadValue
      else bindM (popLoop (nat n) []) (\<lambda>sigs. if list_ex (\<lambda>p. length p \<noteq> PublicKeySize) ([] @ rev xs) then push (BoolBytes False) True
        else push (BoolBytes (matchSigs P msg sigs ([] @ rev xs) = [])) True)) ?Q) vm2"
      unfolding xs append_Nil by (rule wp_pop_top [OF u2], rule wp_if, simp, unfold wp_bind, rule sigs [OF _ n])
  qed
  show ?thesis unfolding opCheckMultiSig_def pushBool_def wp_bind
  proof (rule wp_popInt64_top [OF st ints(1)])
    fix vm1 assume u: "upd vm (((st @ [msg]) @ keys) @ [Int64Bytes n]) alt vm1"
    show "wp (case MulInt64 (int (length keys)) 1024 of None \<Rightarrow> throw ErrBadValue
      | Some pubCost \<Rightarrow> if int (length keys) < 0 then throw ErrBadValue
         else bindM (applyCost pubCost) (\<lambda>_. bindM (popInt64 True) (\<lambda>numSigs.
           if numSigs < 0 \<or> numSigs > int (length keys) \<or> (int (length keys) > 0 \<and> numSigs = 0) then throw ErrBadValue
           else bindM (popLoop (nat (int (length keys))) []) (\<lambda>pubkeyByteses. bindM (pop True) (\<lambda>msg.
             if length msg \<noteq> 32 then throw ErrBadValue
             else bindM (popLoop (nat numSigs) []) (\<lambda>sigs.
               if list_ex (\<lambda>p. length p \<noteq> PublicKeySize) pubkeyByteses then push (BoolBytes False) True
               else push (BoolBytes (matchSigs P msg sigs pubkeyByteses = [])) True)))))) ?Q vm1"
    proof (cases "MulInt64 (int (length keys)) 1024")
      case (Some pubCost)
      show ?thesis unfolding Some option.case
        apply (rule wp_if, simp, unfold wp_bind)
        apply (rule wp_applyCost_upd [OF u], erule wp_popInt64_top [OF _ ints(2)], rule wp_if, simp, unfold wp_bind nat_int)
        by (erule keys) linarith
    qed simp
  qed
qed

lemma wp_checkPredicate:
  assumes "upd vm (st @ [count, pred, limit]) alt vm" and "vcontext vm = c"
  shows "wp (opCheckPredicate (\<lambda>child. runLoop P fuel (child\<lparr>pc := 0\<rparr>))) (\<lambda>_ vm'. \<exists>st' alt'. upd vm st' alt' vm' \<and>
    (\<exists>r args b. st = r @ args \<and> AsInt64 count = Inr (int (length args)) \<and> st' = r @ [BoolBytes b] \<and> alt' = alt \<and>
      (b \<longrightarrow> predicateHolds P c pred args))) vm" (is "wp _ ?Q _")
proof -
  have st: "upd vm (((st @ [count]) @ [pred]) @ [limit]) alt vm" using assms(1) by simp
  let ?ch = "\<lambda>child. runLoop P fuel (child\<lparr>pc := 0\<rparr>)"
  have run: "wp (runPredicate ?ch l pred n) ?Q vm1" if u: "upd vm st alt vm1" and n: "n \<le> length st" "AsInt64 count = Inr (int n)" for l n vm1
  proof -
    let ?k = "length st - n"
    let ?child = "newVM c pred False l (depth vm1 + 1) (drop ?k st)"
    obtain childErr child' where ch: "?ch ?child = (childErr, child')" by force
    have d: "dataStack vm1 = st" "vcontext vm1 = c" using u assms(2) by (simp_all add: upd_def)
    have u2: "upd vm (take ?k st) alt (vm1\<lparr>dataStack := take ?k st\<rparr>)" using u by (simp add: upd_def)
    let ?b = "childErr = Ret () \<and> \<not> falseResult child'"
    have holds: "predicateHolds P c pred (drop ?k st)" if ?b
    proof -
      have "?child\<lparr>pc := 0\<rparr> = ?child" by (simp add: newVM_def)
      with ch that show ?thesis unfolding predicateHolds_def by auto
    qed
    have "wp (bindM (deferCost (i64 (- runLimit child'))) (\<lambda>_. bindM (deferCost (i64 (- stackCost (dataStack child')))) (\<lambda>_.
        bindM (deferCost (i64 (- stackCost (altStack child')))) (\<lambda>_. push (BoolBytes ?b) True)))) ?Q (vm1\<lparr>dataStack := take ?k st\<rparr>)"
      unfolding wp_bind
    proof (rule wp_deferCost_upd [OF u2], erule wp_deferCost_upd, erule wp_deferCost_upd, erule wp_push_upd, intro exI conjI)
      show "st = take ?k st @ drop ?k st" "AsInt64 count = Inr (int (length (drop ?k st)))" using n by simp_all
    qed (use holds in auto)
    then show ?thesis
      by (auto simp: runPredicate_def Let_def d ch pushBool_def wp_def goPanic_def bindM_def withVM_def setStack_def split: res.splits)
  qed
  show ?thesis unfolding opCheckPredicate_def wp_bind
  proof (rule wp_applyCost_upd [OF st], erule wp_deferCost_upd, erule wp_popInt64_upd, erule wp_pop_upd, erule wp_popInt64_upd, rule wp_if, simp,
      unfold wp_withVM, rule wp_if, simp, rule wp_LetI, unfold wp_bind, rule wp_applyCost_upd, assumption, rule wp_if, simp, goal_cases)
    case (1 vm1 vm2 st1 x l vm3 st2 p vm4 st3 y n vm5 vm6)
    then have s: "st3 = st" "y = count" "p = pred" and n: "0 \<le> n" by simp_all
    then have "dataStack vm5 = st" using 1 by (simp add: upd_def)
    then have "nat n \<le> length st" using 1 n by simp
    with run [of vm6 "nat n"] 1 s n show ?case by simp
  qed
qed

lemma wp_checkPredicate_short: "upd vm [pred, limit] alt vm \<Longrightarrow> wp (opCheckPredicate ch) Q vm"
  unfolding opCheckPredicate_def wp_bind
  by (rule wp_applyCost_upd, assumption, erule wp_deferCost_upd, erule wp_popInt64_upd, erule wp_pop_upd, erule wp_popInt64_upd) simp

lemma wp_dup_short: "upd vm [] alt vm \<Longrightarrow> wp (nDup 1) Q vm"
  unfolding nDup_def wp_bind wp_withVM by (rule wp_applyCost_upd, assumption) (simp add: upd_def)

lemma canEnd_dup:
  assumes "canEnd P c prog e (length pre, st, alt) f" and "prog = pre @ [OP_DUP] @ post" and "length prog \<le> 2147483647"
  obtains r x where "st = r @ [x]" and "canEnd P c prog e (length (pre @ [OP_DUP]), r @ [x, x], alt) f"
proof (cases st rule: rev_cases)
  case Nil
  have "False" by (rule canEnd_fixed(1) [OF assms, where st' = "[]" and alt' = "[]"]) (auto simp: Nil sig_ops2 sigOps_def intro: wp_dup_short [simplified])
  then show ?thesis ..
next
  case (snoc r x)
  have "canEnd P c prog e (length (pre @ [OP_DUP]), r @ [x, x], alt) f"
    by (rule canEnd_fixed(2) [OF assms, where Q = True]) (use wp_dup in \<open>auto simp: snoc sig_ops2 sigOps_def\<close>)
  with snoc that show ?thesis by blast
qed

lemma canEnd_toAlt:
  "canEnd P c prog e (length pre, st @ [x], alt) f \<Longrightarrow> prog = pre @ [OP_TOALTSTACK] @ post \<Longrightarrow> length prog \<le> 2147483647 \<Longrightarrow>
    canEnd P c prog e (length (pre @ [OP_TOALTSTACK]), st, alt @ [x]) f"
  by (erule canEnd_fixed(2) [where Q = True]) (use wp_toAlt in \<open>auto simp: sig_ops2 sigOps_def\<close>)

lemma canEnd_fromAlt:
  "canEnd P c prog e (length pre, st, alt @ [x]) f \<Longrightarrow> prog = pre @ [OP_FROMALTSTACK] @ post \<Longrightarrow> length prog \<le> 2147483647 \<Longrightarrow>
    canEnd P c prog e (length (pre @ [OP_FROMALTSTACK]), st @ [x], alt) f"
  by (erule canEnd_fixed(2) [where Q = True]) (use wp_fromAlt in \<open>auto simp: sig_ops2 sigOps_def\<close>)

lemma canEnd_sha3:
  "canEnd P c prog e (length pre, st @ [x], alt) f \<Longrightarrow> prog = pre @ [OP_SHA3] @ post \<Longrightarrow> length prog \<le> 2147483647 \<Longrightarrow>
    canEnd P c prog e (length (pre @ [OP_SHA3]), st @ [sha3_256 P x], alt) f"
  by (erule canEnd_fixed(2) [where Q = True]) (use wp_doHash in \<open>auto simp: sig_ops2 sigOps_def\<close>)

lemma canEnd_keys:
  "canEnd P c prog e (length pre, st, alt) f \<Longrightarrow> prog = pre @ concat (map PushdataBytes keys) @ post \<Longrightarrow> length prog \<le> 2147483647 \<Longrightarrow>
    canEnd P c prog e (length (pre @ concat (map PushdataBytes keys)), st @ keys, alt) f"
proof (induction keys arbitrary: pre st)
  case (Cons k keys)
  have "canEnd P c prog e (length (pre @ PushdataBytes k), st @ [k], alt) f" by (rule canEnd_data) (use Cons.prems in simp_all)
  from Cons.IH [OF this] Cons.prems(2,3) show ?case by simp
qed simp

lemma canEnd_checkMultiSig:
  assumes "canEnd P c prog e (length pre, st @ [msg] @ keys @ [Int64Bytes n, Int64Bytes (int (length keys))], alt) f"
    and "prog = pre @ [OP_CHECKMULTISIG] @ post" and "length prog \<le> 2147483647" and "in_i64 n" "in_i64 (int (length keys))"
  obtains r sigs b where "st = r @ sigs" and "int (length sigs) = n" and "b \<longrightarrow> multisig_ok P msg sigs keys"
    and "canEnd P c prog e (length (pre @ [OP_CHECKMULTISIG]), r @ [BoolBytes b], alt) f"
proof -
  let ?R = "\<lambda>st' alt'. \<exists>r sigs b. st = r @ sigs \<and> int (length sigs) = n \<and> st' = r @ [BoolBytes b] \<and> alt' = alt \<and> (b \<longrightarrow> multisig_ok P msg sigs keys)"
  obtain st' alt' where "?R st' alt'" and "canEnd P c prog e (length (pre @ [OP_CHECKMULTISIG]), st', alt') f"
  proof (rule canEnd_known [OF assms(1-3), where R = ?R])
    fix fuel vm assume "upd vm (st @ [msg] @ keys @ [Int64Bytes n, Int64Bytes (int (length keys))]) alt vm"
    from wp_checkMultiSig [OF this assms(4,5)]
    show "wp (opFn P (\<lambda>child. runLoop P fuel (child\<lparr>pc := 0\<rparr>)) OP_CHECKMULTISIG) (\<lambda>_ vm'. \<exists>st' alt'. upd vm st' alt' vm' \<and> ?R st' alt') vm"
      unfolding sig_ops2 .
  qed (simp add: sigOps_def)
  then show ?thesis using that by blast
qed

lemma canEnd_checkPredicate:
  assumes "canEnd P c prog e (length pre, st @ [pred, limit], alt) f" and "prog = pre @ [OP_CHECKPREDICATE] @ post" and "length prog \<le> 2147483647"
  obtains r args count b where "st = r @ args @ [count]" and "AsInt64 count = Inr (int (length args))" and "b \<longrightarrow> predicateHolds P c pred args"
    and "canEnd P c prog e (length (pre @ [OP_CHECKPREDICATE]), r @ [BoolBytes b], alt) f"
proof (cases st rule: rev_cases)
  case Nil
  have "False" by (rule canEnd_fixed(1) [OF assms, where st' = "[]" and alt' = "[]"]) (auto simp: Nil sig_ops2 sigOps_def intro: wp_checkPredicate_short)
  then show ?thesis ..
next
  case (snoc s count)
  let ?R = "\<lambda>st' alt'. \<exists>r args b. s = r @ args \<and> AsInt64 count = Inr (int (length args)) \<and> st' = r @ [BoolBytes b] \<and> alt' = alt \<and>
      (b \<longrightarrow> predicateHolds P c pred args)"
  obtain st' alt' where "?R st' alt'" and "canEnd P c prog e (length (pre @ [OP_CHECKPREDICATE]), st', alt') f"
  proof (rule canEnd_known [OF assms, where R = ?R])
    fix fuel vm assume "upd vm (st @ [pred, limit]) alt vm" and c: "vcontext vm = c"
    then have u: "upd vm (s @ [count, pred, limit]) alt vm" by (simp add: snoc)
    from wp_checkPredicate [OF u c]
    show "wp (opFn P (\<lambda>child. runLoop P fuel (child\<lparr>pc := 0\<rparr>)) OP_CHECKPREDICATE) (\<lambda>_ vm'. \<exists>st' alt'. upd vm st' alt' vm' \<and> ?R st' alt') vm"
      unfolding sig_ops2 .
  qed (simp add: sigOps_def)
  then show ?thesis using that snoc by fastforce
qed

lemma wp_pushArgs: "upd vm0 st alt vm \<Longrightarrow> (\<And>vm'. upd vm0 (st @ args) alt vm' \<Longrightarrow> Q () vm') \<Longrightarrow> wp (pushArgs args) Q vm"
proof (induction args arbitrary: st vm)
  case (Cons x args)
  show ?case unfolding pushArgs.simps wp_bind
    by (rule wp_push_upd [OF Cons.prems(1)], erule Cons.IH) (use Cons.prems(2) in simp)
qed simp

lemma Verify_canEnd:
  assumes "Verify P fuel c = Ret ()"
  obtains f where "canEnd P c (Code c) (TxVersion c = Some 1) (length ([] :: bytes), Arguments c, []) f" and "\<not> falseResult f"
proof -
  let ?vm = "newVM c (Code c) (TxVersion c = Some 1) initialRunLimit 0 []"
  have "VMVersion c = 1" using assms by (auto simp: Verify_def split: if_splits)
  with assms have ok: "fst (bindM (pushArgs (Arguments c)) (\<lambda>_. bindM (run P fuel) (\<lambda>_. withVM (\<lambda>vm. if falseResult vm then throw ErrFalseVMResult else ret ()))) ?vm) = Ret ()"
    by (cases "fst (bindM (pushArgs (Arguments c)) (\<lambda>_. bindM (run P fuel) (\<lambda>_. withVM (\<lambda>vm. if falseResult vm then throw ErrFalseVMResult else ret ()))) ?vm)")
      (simp_all add: Verify_def Let_def)
  then obtain vm1 f where args: "pushArgs (Arguments c) ?vm = (Ret (), vm1)" and f: "run P fuel vm1 = (Ret (), f)" "\<not> falseResult f"
    by (auto simp: bindM_def withVM_def throw_def split: res.splits prod.splits if_splits)
  have "upd ?vm [] [] ?vm" by (simp add: upd_def newVM_def)
  then have "wp (pushArgs (Arguments c)) (\<lambda>_ vm'. upd ?vm (Arguments c) [] vm') ?vm" by (rule wp_pushArgs) simp
  then have u: "upd ?vm (Arguments c) [] vm1" using args by (rule wpD)
  have "standsAt c (Code c) (TxVersion c = Some 1) (length ([] :: bytes), Arguments c, []) (vm1\<lparr>pc := 0\<rparr>)" using u by (simp add: upd_def newVM_def)
  with f that show ?thesis unfolding run_def canEnd_def by blast
qed

text \<open>A predicate of the spender and signatures of its hash, before which the arguments of the predicate and their number lie.\<close>

definition signedBy :: "prims \<Rightarrow> Context \<Rightarrow> bytes list \<Rightarrow> int64 \<Rightarrow> bytes \<Rightarrow> bool" where
  "signedBy P c keys n pred \<longleftrightarrow> (\<exists>r args count sigs. Arguments c = r @ args @ [count] @ sigs @ [pred] \<and> AsInt64 count = Inr (int (length args)) \<and>
     int (length sigs) = n \<and> multisig_ok P (sha3_256 P pred) sigs keys \<and> predicateHolds P c pred args)"

lemma P2SP_sound:
  assumes "P2SPMultiSigProgram keys n = UOk prog" and "Code c = prog" and "length prog \<le> 2147483647" and "Verify P fuel c = Ret ()"
  shows "\<exists>pred. signedBy P c keys n pred"
proof -
  let ?k = "concat (map PushdataBytes keys)" and ?m = "int (length keys)" and ?e = "TxVersion c = Some 1"
  let ?p3 = "[OP_DUP, OP_TOALTSTACK, OP_SHA3]" let ?p4 = "?p3 @ ?k" let ?p5 = "?p4 @ PushdataInt64 n" let ?p6 = "?p5 @ PushdataInt64 ?m"
  let ?p7 = "?p6 @ [OP_CHECKMULTISIG]" let ?p8 = "?p7 @ [OP_VERIFY]" let ?p9 = "?p8 @ [OP_FROMALTSTACK]" let ?p10 = "?p9 @ PushdataInt64 0"
  have params: "0 \<le> n" "n \<le> ?m" using assms(1) by (auto simp: P2SP_chunks checkMultiSigParams_None)
  have p: "prog = ?p10 @ [OP_CHECKPREDICATE]" using assms(1) by (simp add: P2SP_chunks multisigChunks_def PushdataInt64_def [of 0])
  have ints: "in_i64 n" "in_i64 ?m"
    using keys_count [of ?p3 keys n "[OP_CHECKMULTISIG, OP_VERIFY, OP_FROMALTSTACK, OP_0, OP_CHECKPREDICATE]"] assms(1,3) params
    by (auto simp: P2SP_chunks in_i64_iff)
  from Verify_canEnd [OF assms(4)] assms(2) obtain f where c0: "canEnd P c prog ?e (length ([] :: bytes), Arguments c, []) f" and f: "\<not> falseResult f" by metis
  have "prog = [] @ [OP_DUP] @ drop 1 prog" using p by simp
  then obtain a pred where a: "Arguments c = a @ [pred]" and c1: "canEnd P c prog ?e (length ([] @ [OP_DUP]), a @ [pred, pred], []) f"
    using canEnd_dup [OF c0 _ assms(3)] by metis
  have c2: "canEnd P c prog ?e (length ([OP_DUP] @ [OP_TOALTSTACK]), a @ [pred], [] @ [pred]) f"
    by (rule canEnd_toAlt [where post = "drop 2 prog"]) (use c1 p assms(3) in simp_all)
  have c3: "canEnd P c prog ?e (length ([OP_DUP, OP_TOALTSTACK] @ [OP_SHA3]), a @ [sha3_256 P pred], [pred]) f"
    by (rule canEnd_sha3 [where post = "drop 3 prog"]) (use c2 p assms(3) in simp_all)
  have c4: "canEnd P c prog ?e (length ?p4, (a @ [sha3_256 P pred]) @ keys, [pred]) f"
    by (rule canEnd_keys) (use c3 p assms(3) in simp_all)
  have c5: "canEnd P c prog ?e (length ?p5, ((a @ [sha3_256 P pred]) @ keys) @ [Int64Bytes n], [pred]) f"
    by (rule canEnd_int [OF c4 _ assms(3)]) (use p in simp)
  have "canEnd P c prog ?e (length ?p6, (((a @ [sha3_256 P pred]) @ keys) @ [Int64Bytes n]) @ [Int64Bytes ?m], [pred]) f"
    by (rule canEnd_int [OF c5 _ assms(3)]) (use p in simp)
  then have c6: "canEnd P c prog ?e (length ?p6, a @ [sha3_256 P pred] @ keys @ [Int64Bytes n, Int64Bytes ?m], [pred]) f" by simp
  have p6: "prog = ?p6 @ [OP_CHECKMULTISIG] @ [OP_VERIFY, OP_FROMALTSTACK] @ PushdataInt64 0 @ [OP_CHECKPREDICATE]" using p by simp
  obtain r sigs b where r: "a = r @ sigs" "int (length sigs) = n" "b \<longrightarrow> multisig_ok P (sha3_256 P pred) sigs keys"
    and c7: "canEnd P c prog ?e (length ?p7, r @ [BoolBytes b], [pred]) f"
    by (rule canEnd_checkMultiSig [OF c6 p6 assms(3) ints])
  have p7: "prog = ?p7 @ [OP_VERIFY] @ [OP_FROMALTSTACK] @ PushdataInt64 0 @ [OP_CHECKPREDICATE]" using p by simp
  note v = canEnd_verify [OF c7 p7 assms(3)]
  have c9: "canEnd P c prog ?e (length ?p9, r @ [pred], []) f" by (rule canEnd_fromAlt) (use v(2) p assms(3) in simp_all)
  have "canEnd P c prog ?e (length ?p10, (r @ [pred]) @ [Int64Bytes 0], []) f" by (rule canEnd_int [OF c9 _ assms(3)]) (use p in simp)
  then have c10: "canEnd P c prog ?e (length ?p10, r @ [pred, Int64Bytes 0], []) f" by simp
  obtain r' args count b' where r': "r = r' @ args @ [count]" "AsInt64 count = Inr (int (length args))" "b' \<longrightarrow> predicateHolds P c pred args"
    and c11: "canEnd P c prog ?e (length (?p10 @ [OP_CHECKPREDICATE]), r' @ [BoolBytes b'], []) f"
    by (rule canEnd_checkPredicate [OF c10 _ assms(3)]) (use p in auto)
  have "dataStack f = r' @ [BoolBytes b']" using canEnd_done [of P c prog ?e _ "[]" f] c11 p by metis
  then have "b'" using f by (simp add: falseResult_def)
  with a r r' v(1) show ?thesis unfolding signedBy_def by (intro exI [of _ pred] exI [of _ r'] exI [of _ args] exI [of _ count] exI [of _ sigs]) simp
qed

end
