(* ===== verification/Sig_Spend.thy ===== *)
theory Sig_Spend
  imports Sig_Program
begin

text \<open>
  The run of a control program of an account on the arguments that \<open>materialize\<close> makes: with the signatures of a quorum over a program that
  compares the hash of the transaction, the machine accepts.
\<close>

section \<open>Steps\<close>

lemma runs_op:
  assumes "prog = pre @ [op] @ post" and "length prog \<le> 2147483647" and "op \<in> set sigOps"
    and "\<And>runChild vm. vcontext vm = c \<Longrightarrow> runLimit vm = l \<Longrightarrow> dataStack vm = st \<Longrightarrow> altStack vm = alt \<Longrightarrow> deferredCost vm = 0 \<Longrightarrow>
      opFn P runChild op vm = (Ret (), vm\<lparr>runLimit := l1, dataStack := st', altStack := alt', deferredCost := d\<rparr>)"
    and "d \<le> l1" and "\<bar>l1\<bar> \<le> 2 ^ 60" and "\<bar>d\<bar> \<le> 2 ^ 60" and "l' = l1 - d"
  shows "runsTo P c prog 1 (length pre, l, st, alt) (length (pre @ [op]), l', st', alt')"
  unfolding assms(8) using sigOps_known [OF assms(3), of P] assms(4)
  by (intro runsTo_step_alt [OF assms(1) multisig_chunks(1) assms(2) _ _ _ assms(5-7)]) auto

lemma runs_dup:
  assumes "prog = pre @ [OP_DUP] @ post" and "length prog \<le> 2147483647" and "1 + itemCost x \<le> l" and "l \<le> 2 ^ 60"
  shows "runsTo P c prog 1 (length pre, l, st @ [x], alt) (length (pre @ [OP_DUP]), l - 1 - itemCost x, st @ [x, x], alt)"
proof (rule runs_op [OF assms(1,2)])
  fix runChild and vm :: virtualMachine
  assume "runLimit vm = l" "dataStack vm = st @ [x]" "altStack vm = alt" "deferredCost vm = 0"
  then show "opFn P runChild OP_DUP vm = (Ret (), vm\<lparr>runLimit := l - 1 - itemCost x, dataStack := st @ [x, x], altStack := alt, deferredCost := 0\<rparr>)"
    using assms(3,4) itemCost_pos [of x] by (simp add: sig_ops2 nDup_def bindM_def withVM_def applyCost_if push_if ret_def numeral_1_eq_Suc_0)
qed (use assms(3,4) itemCost_pos [of x] in \<open>simp_all add: sigOps_def\<close>)

lemma runs_toAlt:
  assumes "prog = pre @ [OP_TOALTSTACK] @ post" and "length prog \<le> 2147483647" and "2 \<le> l" and "l \<le> 2 ^ 60"
  shows "runsTo P c prog 1 (length pre, l, st @ [x], alt) (length (pre @ [OP_TOALTSTACK]), l - 2, st, alt @ [x])"
proof (rule runs_op [OF assms(1,2)])
  fix runChild and vm :: virtualMachine
  assume "runLimit vm = l" "dataStack vm = st @ [x]" "altStack vm = alt" "deferredCost vm = 0"
  then show "opFn P runChild OP_TOALTSTACK vm = (Ret (), vm\<lparr>runLimit := l - 2, dataStack := st, altStack := alt @ [x], deferredCost := 0\<rparr>)"
    using assms(3,4) by (simp add: sig_ops2 opToAltStack_def bindM_def withVM_def applyCost_if setStacks_def)
qed (use assms(3,4) in \<open>simp_all add: sigOps_def\<close>)

lemma runs_fromAlt:
  assumes "prog = pre @ [OP_FROMALTSTACK] @ post" and "length prog \<le> 2147483647" and "2 \<le> l" and "l \<le> 2 ^ 60"
  shows "runsTo P c prog 1 (length pre, l, st, alt @ [x]) (length (pre @ [OP_FROMALTSTACK]), l - 2, st @ [x], alt)"
proof (rule runs_op [OF assms(1,2)])
  fix runChild and vm :: virtualMachine
  assume "runLimit vm = l" "dataStack vm = st" "altStack vm = alt @ [x]" "deferredCost vm = 0"
  then show "opFn P runChild OP_FROMALTSTACK vm = (Ret (), vm\<lparr>runLimit := l - 2, dataStack := st @ [x], altStack := alt, deferredCost := 0\<rparr>)"
    using assms(3,4) by (simp add: sig_ops2 opFromAltStack_def bindM_def withVM_def applyCost_if setStacks_def)
qed (use assms(3,4) in \<open>simp_all add: sigOps_def\<close>)

lemma runs_sha3:
  assumes "prog = pre @ [OP_SHA3] @ post" and "length prog \<le> 2147483647" and "length x \<le> 64" and "length (sha3_256 P x) = 32"
    and "104 \<le> l + itemCost x" and "0 \<le> l" and "l \<le> 2 ^ 58"
  shows "runsTo P c prog 1 (length pre, l, st @ [x], alt) (length (pre @ [OP_SHA3]), l + itemCost x - 104, st @ [sha3_256 P x], alt)"
proof (rule runs_op [OF assms(1,2)])
  fix runChild and vm :: virtualMachine
  assume vm: "runLimit vm = l" "dataStack vm = st @ [x]" "altStack vm = alt" "deferredCost vm = 0"
  have cost: "itemCost x \<le> 72" "itemCost (sha3_256 P x) = 40" "(if int (length x) < 64 then 64 else int (length x)) = 64"
    using assms(3,4) by (auto simp: itemCost_def)
  show "opFn P runChild OP_SHA3 vm = (Ret (), vm\<lparr>runLimit := l + itemCost x - 104, dataStack := st @ [sha3_256 P x], altStack := alt, deferredCost := 0\<rparr>)"
    using assms(5-7) vm cost itemCost_pos [of x] by (simp add: sig_ops2 doHash_def bindM_def pop_eq Let_def applyCost_if push_if)
qed (use assms(3,5-7) itemCost_pos [of x] in \<open>simp_all add: sigOps_def itemCost_def\<close>)

lemma runs_verify:
  assumes "prog = pre @ [OP_VERIFY] @ post" and "length prog \<le> 2147483647" and "AsBool x" and "length x \<le> 64" and "1 \<le> l" and "l \<le> 2 ^ 58"
  shows "runsTo P c prog 1 (length pre, l, st @ [x], alt) (length (pre @ [OP_VERIFY]), l - 1 + itemCost x, st, alt)"
proof (rule runs_op [OF assms(1,2)])
  fix runChild and vm :: virtualMachine
  assume vm: "runLimit vm = l" "dataStack vm = st @ [x]" "altStack vm = alt" "deferredCost vm = 0"
  then show "opFn P runChild OP_VERIFY vm = (Ret (), vm\<lparr>runLimit := l - 1, dataStack := st, altStack := alt, deferredCost := - itemCost x\<rparr>)"
    using assms(3-6) by (simp add: sig_ops opVerify_def bindM_def applyCost_if pop_deferred_eq itemCost_def ret_def)
qed (use assms(4-6) itemCost_pos [of x] in \<open>simp_all add: sigOps_def itemCost_def\<close>)

lemma runs_txSigHash:
  assumes "prog = pre @ [OP_TXSIGHASH] @ post" and "length prog \<le> 2147483647" and "TxSigHash c = Some h" and "length h = 32"
    and "296 \<le> l" and "l \<le> 2 ^ 60"
  shows "runsTo P c prog 1 (length pre, l, st, alt) (length (pre @ [OP_TXSIGHASH]), l - 296, st @ [h], alt)"
proof (rule runs_op [OF assms(1,2)])
  fix runChild and vm :: virtualMachine
  assume "vcontext vm = c" "runLimit vm = l" "dataStack vm = st" "altStack vm = alt" "deferredCost vm = 0"
  then show "opFn P runChild OP_TXSIGHASH vm = (Ret (), vm\<lparr>runLimit := l - 296, dataStack := st @ [h], altStack := alt, deferredCost := 0\<rparr>)"
    using assms(3-6) by (simp add: sig_ops opTxSigHash_def bindM_def withVM_def applyCost_if push_if itemCost_def)
qed (use assms(5,6) in \<open>simp_all add: sigOps_def\<close>)

lemma runs_equal:
  assumes "prog = pre @ [OP_EQUAL] @ post" and "length prog \<le> 2147483647" and "length a = 32" and "length b = 32" and "33 \<le> l" and "l \<le> 2 ^ 58"
  shows "runsTo P c prog 1 (length pre, l, st @ [a, b], alt)
    (length (pre @ [OP_EQUAL]), l - 33 + 80 - itemCost (BoolBytes (a = b)), st @ [BoolBytes (a = b)], alt)"
proof (rule runs_op [OF assms(1,2)])
  fix runChild and vm :: virtualMachine
  assume "runLimit vm = l" "dataStack vm = st @ [a, b]" "altStack vm = alt" "deferredCost vm = 0"
  then show "opFn P runChild OP_EQUAL vm = (Ret (), vm\<lparr>runLimit := l - 33, dataStack := st @ [BoolBytes (a = b)], altStack := alt,
      deferredCost := itemCost (BoolBytes (a = b)) - 80\<rparr>)"
    using assms(3-6) length_BoolBytes [of "a = b"]
    by (simp add: sig_ops opEqual_def doEqual_def bindM_def applyCost_if pop_deferred_eq [where r = "st @ [a]"] pop_deferred_eq [where r = st]
        itemCost_def ret_def pushBool_def push_deferred_eq)
qed (use assms(5,6) length_BoolBytes [of "a = b"] in \<open>auto simp: sigOps_def itemCost_def\<close>)

section \<open>The predicate that compares the hash of the transaction\<close>

definition sighashProgram :: "bytes \<Rightarrow> bytes" where
  "sighashProgram h = PushdataBytes h @ [OP_TXSIGHASH, OP_EQUAL]"

lemma length_sighashProgram: "length h = 32 \<Longrightarrow> length (sighashProgram h) = 35"
  by (auto simp: sighashProgram_def PushdataBytes_def Let_def)

lemma sighash_runs:
  assumes "length h = 32" and "TxSigHash c = Some t" and "length t = 32" and "370 \<le> l" and "l \<le> 2 ^ 58"
  shows "runsTo P c (sighashProgram h) 3 (0, l, [], []) (length (sighashProgram h), l - 290 - itemCost (BoolBytes (h = t)), [BoolBytes (h = t)], [])"
proof -
  let ?p = "sighashProgram h" and ?p1 = "[] @ PushdataBytes h" let ?p2 = "?p1 @ [OP_TXSIGHASH]"
  have len: "length ?p \<le> 2147483647" using length_sighashProgram [OF assms(1)] by simp
  have "runsTo P c ?p 1 (length ([] :: bytes), l, [], []) (length ?p1, l - 41, [] @ [h], [])"
    by (rule runs_key [OF _ len assms(1), where post = "[OP_TXSIGHASH, OP_EQUAL]"]) (use assms(4,5) in \<open>auto simp: sighashProgram_def\<close>)
  moreover have "runsTo P c ?p 1 (length ?p1, l - 41, [] @ [h], []) (length ?p2, l - 41 - 296, ([] @ [h]) @ [t], [])"
    by (rule runs_txSigHash [OF _ len assms(2,3), where post = "[OP_EQUAL]"]) (use assms(4,5) in \<open>auto simp: sighashProgram_def\<close>)
  moreover have "runsTo P c ?p 1 (length ?p2, l - 41 - 296, [] @ [h, t], [])
      (length (?p2 @ [OP_EQUAL]), l - 41 - 296 - 33 + 80 - itemCost (BoolBytes (h = t)), [] @ [BoolBytes (h = t)], [])"
    by (rule runs_equal [OF _ len assms(1,3), where post = "[]"]) (use assms(4,5) in \<open>auto simp: sighashProgram_def\<close>)
  ultimately have "runsTo P c ?p (1 + 1 + 1) (length ([] :: bytes), l, [], [])
      (length (?p2 @ [OP_EQUAL]), l - 41 - 296 - 33 + 80 - itemCost (BoolBytes (h = t)), [] @ [BoolBytes (h = t)], [])"
    by (intro runsTo_trans [where s' = "(length ?p2, l - 41 - 296, [] @ [h, t], [])"] runsTo_trans [where s' = "(length ?p1, l - 41, [] @ [h], [])"]) simp_all
  then show ?thesis by (simp add: sighashProgram_def numeral_3_eq_3)
qed

lemma sighash_child:
  assumes "length h = 32" and "TxSigHash c = Some t" and "length t = 32" and "370 \<le> l" and "l \<le> 2 ^ 58" and "4 \<le> fuel"
  obtains vm' where "runLoop P fuel (newVM c (sighashProgram h) False l d []) = (Ret (), vm')" and "falseResult vm' \<longleftrightarrow> h \<noteq> t"
    and "runLimit vm' + stackCost (dataStack vm') + stackCost (altStack vm') = l - 290" and "0 \<le> runLimit vm'" "runLimit vm' \<le> l"
    and "0 \<le> stackCost (dataStack vm')" "stackCost (dataStack vm') \<le> 9" "stackCost (altStack vm') = 0"
proof -
  obtain k where k: "fuel = 3 + Suc k" using assms(6) by (intro that [of "fuel - 4"]) simp
  have "stands c (sighashProgram h) (0, l, [], []) (newVM c (sighashProgram h) False l d [])" by (simp add: newVM_def)
  then obtain vm' where at: "stands c (sighashProgram h) (length (sighashProgram h), l - 290 - itemCost (BoolBytes (h = t)), [BoolBytes (h = t)], []) vm'"
    and run: "runLoop P fuel (newVM c (sighashProgram h) False l d []) = runLoop P (Suc k) vm'"
    using sighash_runs [OF assms(1-5), of P] unfolding runsTo_def k by blast
  have cost: "stackCost [BoolBytes b] = itemCost (BoolBytes b)" "stackCost [] = 0" for b
    using length_BoolBytes [of b] by (auto simp: stackCost_def itemCost_def i64_small)
  have "runLoop P (Suc k) vm' = (Ret (), vm')" using at by (simp add: withVM_def ret_def)
  with run have "runLoop P fuel (newVM c (sighashProgram h) False l d []) = (Ret (), vm')" by simp
  moreover have "falseResult vm' \<longleftrightarrow> h \<noteq> t" using at by (auto simp: falseResult_def)
  moreover have "8 \<le> itemCost (BoolBytes (h = t))" "itemCost (BoolBytes (h = t)) \<le> 9" using length_BoolBytes [of "h = t"] by (auto simp: itemCost_def)
  ultimately show ?thesis using at that assms(4) cost by auto
qed

lemma predicate_step:
  assumes p: "prog = pre @ [OP_CHECKPREDICATE]" and len: "length prog \<le> 2147483647"
    and h: "length h = 32" and t: "TxSigHash c = Some t" "length t = 32" and l: "626 \<le> l" "l \<le> 2 ^ 57" and fuel: "4 \<le> fuel"
    and at: "stands c prog (length pre, l, r @ [[], sighashProgram h, []], alt) vm"
  shows "\<exists>l' vm'. stands c prog (length prog, l', r @ [BoolBytes (h = t)], alt) vm' \<and> runLoop P (Suc fuel) vm = runLoop P fuel vm'"
proof -
  let ?pred = "sighashProgram h" and ?b = "BoolBytes (h = t)"
  obtain child where child: "\<And>d. runLoop P fuel (newVM c ?pred False (l - 256) d []) = (Ret (), child d)" "\<And>d. falseResult (child d) \<longleftrightarrow> h \<noteq> t"
    "\<And>d. runLimit (child d) + stackCost (dataStack (child d)) + stackCost (altStack (child d)) = l - 256 - 290" "\<And>d. 0 \<le> runLimit (child d)"
    "\<And>d. runLimit (child d) \<le> l - 256" "\<And>d. 0 \<le> stackCost (dataStack (child d))" "\<And>d. stackCost (dataStack (child d)) \<le> 9" "\<And>d. stackCost (altStack (child d)) = 0"
  proof -
    have "\<forall>d. \<exists>vm'. runLoop P fuel (newVM c ?pred False (l - 256) d []) = (Ret (), vm') \<and> (falseResult vm' \<longleftrightarrow> h \<noteq> t) \<and>
      runLimit vm' + stackCost (dataStack vm') + stackCost (altStack vm') = l - 256 - 290 \<and> 0 \<le> runLimit vm' \<and> runLimit vm' \<le> l - 256 \<and>
      0 \<le> stackCost (dataStack vm') \<and> stackCost (dataStack vm') \<le> 9 \<and> stackCost (altStack vm') = 0"
      by (intro allI, rule sighash_child [OF h t, of "l - 256" fuel P]) (use l fuel in auto)
    from choice [OF this] show ?thesis using that by blast
  qed
  let ?d = "- 192 - 8 - itemCost ?pred - 8 - (l - 256 - 290) + itemCost ?b"
  have cost: "itemCost ?pred = 43" using length_sighashProgram [OF h] by (simp add: itemCost_def)
  have bcost: "8 \<le> itemCost ?b" "itemCost ?b \<le> 9" using length_BoolBytes [of "h = t"] by (auto simp: itemCost_def)
  have zero: "AsInt64 [] = Inr 0" by code_simp
  have "\<exists>vm'. stands c prog (length (pre @ [OP_CHECKPREDICATE]), 0 - ?d, r @ [?b], alt) vm' \<and> runLoop P (Suc fuel) vm = runLoop P fuel vm'"
  proof (rule step_alt [OF _ multisig_chunks(1) len _ _ at])
    show "prog = pre @ [OP_CHECKPREDICATE] @ []" using p by simp
    show "plain_op OP_CHECKPREDICATE" "\<not> isExpansion P (Op (opInst OP_CHECKPREDICATE))" using sigOps_known [of OP_CHECKPREDICATE P] by (simp_all add: sigOps_def)
    fix vm :: virtualMachine
    assume vm: "vcontext vm = c" "runLimit vm = l" "dataStack vm = r @ [[], ?pred, []]" "altStack vm = alt" "deferredCost vm = 0"
    let ?ch = "\<lambda>child. runLoop P fuel (child\<lparr>pc := 0\<rparr>)"
    have ch: "?ch (newVM c ?pred False (l - 256) d []) = (Ret (), child d)" for d
      using child(1) [of d] by (simp add: newVM_def)
    have i: "i64 (- runLimit (child d)) = - runLimit (child d)" "i64 (- stackCost (dataStack (child d))) = - stackCost (dataStack (child d))" for d
      using child(4,5) [of d] child(6,7) [of d] l by (simp_all add: i64_small)
    have "opCheckPredicate ?ch vm = (Ret (), vm\<lparr>runLimit := 0, dataStack := r @ [?b], altStack := alt, deferredCost := ?d\<rparr>)"
      using vm l child(2-8) [of "depth vm + 1"] bcost
      by (simp add: opCheckPredicate_def bindM_def applyCost_if deferCost_def i64_small withVM_def popInt64_deferred_eq [where r = "r @ [[], ?pred]"]
          pop_deferred_eq [where r = "r @ [[]]"] popInt64_deferred_eq [where r = r] zero cost itemCost_def [of "[]"] Let_def runPredicate_def setStack_def ch i
          pushBool_def push_deferred_eq)
    then show "opFn P ?ch (Op (opInst OP_CHECKPREDICATE)) vm = (Ret (), vm\<lparr>runLimit := 0, dataStack := r @ [?b], altStack := alt, deferredCost := ?d\<rparr>)"
      by (simp add: sig_ops2)
  qed (use l bcost cost in simp_all)
  then show ?thesis using p by blast
qed

section \<open>The control program\<close>

lemma P2SP_runs:
  assumes prog: "P2SPMultiSigProgram keys (int (length sigs)) = UOk prog" and len: "length prog \<le> 2147483647"
    and keys: "\<forall>k \<in> set keys. length k = PublicKeySize" and hash: "length (sha3_256 P pred) = 32" and pred: "length pred \<le> 64"
    and ok: "multisig_ok P (sha3_256 P pred) sigs keys"
    and l: "1065 * int (length keys) + 127 \<le> l" "l + itemsCost sigs = 9949" and few: "length keys \<le> 8"
  obtains l' n where "626 \<le> l'" and "l' \<le> 20000" and "n = length keys + 9"
    and "runsTo P c prog n (0, l, [[]] @ sigs @ [pred], []) (length prog - 1, l', [] @ [[], pred, []], [])"
    and "prog = take (length prog - 1) prog @ [OP_CHECKPREDICATE]"
proof -
  let ?k = "concat (map PushdataBytes keys)" and ?m = "int (length keys)" and ?n = "int (length sigs)" and ?h = "sha3_256 P pred"
  let ?p1 = "[] @ [OP_DUP]" let ?p2 = "?p1 @ [OP_TOALTSTACK]" let ?p3 = "?p2 @ [OP_SHA3]" let ?p4 = "?p3 @ ?k" let ?p5 = "?p4 @ PushdataInt64 ?n"
  let ?p6 = "?p5 @ PushdataInt64 ?m" let ?p7 = "?p6 @ [OP_CHECKMULTISIG]" let ?p8 = "?p7 @ [OP_VERIFY]" let ?p9 = "?p8 @ [OP_FROMALTSTACK]" let ?p10 = "?p9 @ PushdataInt64 0"
  have params: "length sigs \<le> length keys" "keys \<noteq> [] \<longrightarrow> sigs \<noteq> []" using prog by (auto simp: P2SP_chunks checkMultiSigParams_None)
  have p: "prog = ?p10 @ [OP_CHECKPREDICATE]" using prog by (simp add: P2SP_chunks multisigChunks_def PushdataInt64_def [of 0])
  note nn = itemsCost_nonneg [of sigs]
  have cost: "8 \<le> itemCost pred" "itemCost pred \<le> 72" using pred by (auto simp: itemCost_def)
  have r1: "runsTo P c prog 1 (length ([] :: bytes), l, ([[]] @ sigs) @ [pred], []) (length ?p1, l - 1 - itemCost pred, ([[]] @ sigs) @ [pred, pred], [])"
    by (rule runs_dup) (use p len l cost nn in simp_all)
  have r2: "runsTo P c prog 1 (length ?p1, l - 1 - itemCost pred, (([[]] @ sigs) @ [pred]) @ [pred], []) (length ?p2, l - 1 - itemCost pred - 2, ([[]] @ sigs) @ [pred], [] @ [pred])"
    by (rule runs_toAlt) (use p len l cost nn in simp_all)
  have r3: "runsTo P c prog 1 (length ?p2, l - 1 - itemCost pred - 2, ([[]] @ sigs) @ [pred], [pred]) (length ?p3, l - 1 - itemCost pred - 2 + itemCost pred - 104, ([[]] @ sigs) @ [?h], [pred])"
    by (rule runs_sha3) (use p len l cost nn pred hash in simp_all)
  have r4: "runsTo P c prog (length keys) (length ?p3, l - 107, ([[]] @ sigs) @ [?h], [pred]) (length ?p4, l - 107 - 41 * ?m, (([[]] @ sigs) @ [?h]) @ keys, [pred])"
    by (rule runs_keys) (use p len l nn keys in \<open>auto simp: PublicKeySize_def\<close>)
  obtain l5 where l5: "l - 107 - 41 * ?m - 10 \<le> l5" "l5 \<le> l - 107 - 41 * ?m"
    and r5: "runsTo P c prog 1 (length ?p4, l - 107 - 41 * ?m, (([[]] @ sigs) @ [?h]) @ keys, [pred]) (length ?p5, l5, ((([[]] @ sigs) @ [?h]) @ keys) @ [Int64Bytes ?n], [pred])"
    using runs_int [of prog ?p4 ?n "PushdataInt64 ?m @ [OP_CHECKMULTISIG, OP_VERIFY, OP_FROMALTSTACK] @ PushdataInt64 0 @ [OP_CHECKPREDICATE]"
        "l - 107 - 41 * ?m" P c "(([[]] @ sigs) @ [?h]) @ keys" "[pred]"] p len l nn few params by auto
  obtain l6 where l6: "l5 - 10 \<le> l6" "l6 \<le> l5"
    and r6: "runsTo P c prog 1 (length ?p5, l5, ((([[]] @ sigs) @ [?h]) @ keys) @ [Int64Bytes ?n], [pred])
      (length ?p6, l6, (((([[]] @ sigs) @ [?h]) @ keys) @ [Int64Bytes ?n]) @ [Int64Bytes ?m], [pred])"
    using runs_int [of prog ?p5 ?m "[OP_CHECKMULTISIG, OP_VERIFY, OP_FROMALTSTACK] @ PushdataInt64 0 @ [OP_CHECKPREDICATE]"
        l5 P c "((([[]] @ sigs) @ [?h]) @ keys) @ [Int64Bytes ?n]" "[pred]"] p len l nn few l5 by auto
  let ?st = "[[]] @ sigs @ [?h] @ keys @ [Int64Bytes ?n, Int64Bytes ?m]"
  have kcost: "itemsCost keys = 40 * ?m" using keys by (induction keys) (simp_all add: itemCost_def PublicKeySize_def)
  have icost: "8 \<le> itemCost (Int64Bytes i)" "itemCost (Int64Bytes i) \<le> 16" for i using length_Int64Bytes [of i] by (simp_all add: itemCost_def)
  have st: "itemsCost ?st \<ge> 64 + itemsCost sigs + 40 * ?m" "itemsCost ?st \<le> 80 + itemsCost sigs + 40 * ?m"
    using kcost icost [of ?n] icost [of ?m] hash by (auto simp: itemCost_def)
  have bt: "BoolBytes (multisig_ok P ?h sigs keys) = [1]" "AsBool [1]" using ok by (simp_all add: BoolBytes_def trueBytes_def)
  let ?l7 = "l6 - 1024 * ?m - (itemCost [1] - itemsCost ?st + itemsCost [[]])"
  have r7: "runsTo P c prog 1 (length ?p6, l6, ?st, [pred]) (length ?p7, ?l7, [[]] @ [[1]], [pred])"
    using runs_checkmultisig [of prog ?p6 "[OP_VERIFY, OP_FROMALTSTACK] @ PushdataInt64 0 @ [OP_CHECKPREDICATE]" ?st "[[]]" sigs ?h keys l6 P c "[pred]"]
      p len l nn l5 l6 params hash keys st few by (simp add: bt)
  have l7: "626 + 30 \<le> ?l7" "?l7 \<le> 10200" using l l5 l6 st few nn by (simp_all add: itemCost_def)
  have r8: "runsTo P c prog 1 (length ?p7, ?l7, [[]] @ [[1]], [pred]) (length ?p8, ?l7 - 1 + itemCost [1], [[]], [pred])"
    by (rule runs_verify) (use p len l7 bt in simp_all)
  have r9: "runsTo P c prog 1 (length ?p8, ?l7 - 1 + itemCost [1], [[]], [] @ [pred]) (length ?p9, ?l7 - 1 + itemCost [1] - 2, [[]] @ [pred], [])"
    by (rule runs_fromAlt) (use p len l7 in \<open>simp_all add: itemCost_def\<close>)
  obtain l10 where l10: "?l7 - 1 + itemCost [1] - 2 - 10 \<le> l10" "l10 \<le> ?l7 - 1 + itemCost [1] - 2"
    and r10: "runsTo P c prog 1 (length ?p9, ?l7 - 1 + itemCost [1] - 2, [[]] @ [pred], []) (length ?p10, l10, ([[]] @ [pred]) @ [Int64Bytes 0], [])"
    using runs_int [of prog ?p9 0 "[OP_CHECKPREDICATE]" "?l7 - 1 + itemCost [1] - 2" P c "[[]] @ [pred]" "[]"] p len l7 by (auto simp: itemCost_def)
  note a = runsTo_trans [OF runsTo_trans [OF r1 [simplified] r2 [simplified]] r3 [simplified]]
  note b = runsTo_trans [OF runsTo_trans [OF runsTo_trans [OF a r4 [simplified]] r5 [simplified]] r6 [simplified]]
  note d = runsTo_trans [OF runsTo_trans [OF b r7 [simplified]] r8 [simplified]]
  note run = runsTo_trans [OF runsTo_trans [OF d r9 [simplified]] r10 [simplified]]
  have "626 \<le> l10" "l10 \<le> 20000" using l7 l10 by (simp_all add: itemCost_def)
  moreover have "Int64Bytes 0 = []" by code_simp
  moreover have "prog = take (length prog - 1) prog @ [OP_CHECKPREDICATE]" using p by (metis butlast_conv_take butlast_snoc)
  ultimately show ?thesis using run that [of l10 "length keys + 9"] by (simp add: p eval_nat_numeral)
qed

text \<open>The arguments that \<open>materialize\<close> makes of one signature witness: no arguments for the predicate, the signatures, and the predicate.\<close>

lemma P2SP_accepts:
  assumes prog: "P2SPMultiSigProgram keys (int (length sigs)) = UOk (Code c)" and keys: "\<forall>k \<in> set keys. length k = PublicKeySize"
    and args: "Arguments c = [[]] @ sigs @ [sighashProgram h]" and "VMVersion c = 1" and h: "length h = 32" and t: "TxSigHash c = Some t" "length t = 32"
    and hash: "length (sha3_256 P (sighashProgram h)) = 32" and ok: "multisig_ok P (sha3_256 P (sighashProgram h)) sigs keys"
    and cost: "itemsCost sigs + 1065 * int (length keys) + 178 \<le> initialRunLimit" and few: "length keys \<le> 8" and fuel: "length keys + 20 \<le> fuel"
  shows "Verify P fuel c = (if h = t then Ret () else Err ErrFalseVMResult)"
proof -
  let ?pred = "sighashProgram h" and ?prog = "Code c"
  let ?l = "initialRunLimit - itemsCost (Arguments c)"
  have plen: "length ?pred = 35" by (rule length_sighashProgram [OF h])
  have args_cost: "itemsCost (Arguments c) = 51 + itemsCost sigs" using plen by (simp add: args itemCost_def)
  have "length (concat (map PushdataBytes keys)) = 33 * length keys"
    using keys by (induction keys) (auto simp: PublicKeySize_def PushdataBytes_def Let_def)
  moreover have "length (PushdataInt64 i) \<le> 13" for i
    using length_PushdataBytes [of "Int64Bytes i"] length_Int64Bytes [of i] by (auto simp: PushdataInt64_def)
  from this [of "int (length sigs)"] this [of "int (length keys)"] calculation few have len: "length ?prog \<le> 2147483647"
    using prog by (simp add: P2SP_chunks multisigChunks_def)
  obtain l' n where l': "626 \<le> l'" "l' \<le> 20000" and n: "n = length keys + 9"
    and run: "runsTo P c ?prog n (0, ?l, [[]] @ sigs @ [?pred], []) (length ?prog - 1, l', [] @ [[], ?pred, []], [])"
    and p: "?prog = take (length ?prog - 1) ?prog @ [OP_CHECKPREDICATE]"
    by (rule P2SP_runs [OF prog len keys hash _ ok, of ?l c]) (use cost args_cost plen few in \<open>auto simp: initialRunLimit_def\<close>)
  let ?vm = "newVM c ?prog (TxVersion c = Some 1) initialRunLimit 0 []"
  let ?vm1 = "?vm\<lparr>runLimit := ?l, dataStack := Arguments c\<rparr>"
  have pushed: "pushArgs (Arguments c) ?vm = (Ret (), ?vm1)"
    using pushArgs_eq [of "Arguments c" ?vm] cost args_cost by (simp add: newVM_def initialRunLimit_def)
  define k where "k = fuel - n - 1"
  have k: "fuel = n + Suc k" "4 \<le> k" using fuel by (auto simp: k_def n)
  have "stands c ?prog (0, ?l, [[]] @ sigs @ [?pred], []) (?vm1\<lparr>pc := 0\<rparr>)" by (simp add: newVM_def args)
  then obtain vm2 where vm2: "stands c ?prog (length ?prog - 1, l', [] @ [[], ?pred, []], []) vm2"
    and loop: "runLoop P fuel (?vm1\<lparr>pc := 0\<rparr>) = runLoop P (Suc k) vm2" using run unfolding runsTo_def k(1) by blast
  have "stands c ?prog (length (take (length ?prog - 1) ?prog), l', [] @ [[], ?pred, []], []) vm2" using vm2 by simp
  then obtain l2 vm3 where vm3: "stands c ?prog (length ?prog, l2, [] @ [BoolBytes (h = t)], []) vm3" and loop2: "runLoop P (Suc k) vm2 = runLoop P k vm3"
    using predicate_step [OF p len h t l'(1) _ k(2)] l'(2) by fastforce
  obtain k' where "k = Suc k'" using k(2) by (cases k) simp_all
  then have "run P fuel ?vm1 = (Ret (), vm3)" using vm3 loop loop2 by (simp add: run_def withVM_def ret_def)
  then show ?thesis using vm3 assms(4)
    by (auto simp: Verify_def Let_def bindM_def pushed withVM_def falseResult_def throw_def ret_def)
qed

end
