(* ===== verification/Tx_Signed.thy ===== *)
theory Tx_Signed
  imports Sig_Spend
begin

text \<open>
  What \<open>Sign\<close> leaves in a template, and the theorem about signed transactions: with enough keys the inputs of an account are accepted by the
  virtual machine, and the transaction passes the commitment check.
\<close>

section \<open>Signing\<close>

lemma contains_iff: "contains xs k \<longleftrightarrow> k \<in> set xs"
  by (auto simp: contains_def list_ex_iff)

text \<open>What the loop over the keys makes of a slot: a signature stays, an empty slot of a key at hand gets one.\<close>

definition slot :: "SignFunc \<Rightarrow> bytes list \<Rightarrow> bytes \<Rightarrow> keyID \<Rightarrow> bytes \<Rightarrow> bytes \<Rightarrow> bool" where
  "slot signFn xpubs h k s s' \<longleftrightarrow> (if s \<noteq> [] \<or> ki_XPub k \<notin> set xpubs then s' = s else signFn (ki_XPub k) (ki_DerivationPath k) h = Some s')"

lemma signKeys_Ok:
  assumes "signKeys signFn xpubs h ks sigs = (Ok (), sigs')"
  shows "length ks \<le> length sigs \<and> length sigs' = length sigs \<and> (\<forall>i < length ks. slot signFn xpubs h (ks ! i) (sigs ! i) (sigs' ! i)) \<and>
    drop (length ks) sigs' = drop (length ks) sigs"
  using assms
proof (induction signFn xpubs h ks sigs arbitrary: sigs' rule: signKeys.induct)
  case (3 signFn xpubs h k ks s sigs)
  obtain t ts where t: "sigs' = t # ts" "slot signFn xpubs h k s t" and ts: "signKeys signFn xpubs h ks sigs = (Ok (), ts)"
    using "3.prems" by (auto simp: slot_def contains_iff split: if_splits prod.splits option.splits)
  have "length ks \<le> length sigs \<and> length ts = length sigs \<and> (\<forall>i < length ks. slot signFn xpubs h (ks ! i) (sigs ! i) (ts ! i)) \<and>
      drop (length ks) ts = drop (length ks) sigs"
  proof (cases "s \<noteq> [] \<or> \<not> contains xpubs (ki_XPub k)")
    case False
    with "3.prems" obtain sig where "signFn (ki_XPub k) (ki_DerivationPath k) h = Some sig" by (auto split: option.splits)
    from "3.IH"(2) [OF False this ts] show ?thesis .
  qed (rule "3.IH"(1) [OF _ ts])
  with t show ?case by (simp add: All_less_Suc2)
qed auto

lemma eachA_Ok:
  "eachA f i xs = (Ok (), xs') \<longleftrightarrow> length xs' = length xs \<and> (\<forall>j < length xs. f (i + j) (xs ! j) = (Ok (), xs' ! j))"
proof (induction xs arbitrary: i xs')
  case (Cons x xs)
  have all: "(\<forall>j < length (x # xs). f (i + j) ((x # xs) ! j) = (Ok (), xs' ! j)) \<longleftrightarrow>
      f i x = (Ok (), xs' ! 0) \<and> (\<forall>j < length xs. f (Suc i + j) (xs ! j) = (Ok (), xs' ! Suc j))"
    by (simp add: All_less_Suc2)
  show ?case
  proof (cases xs')
    case (Cons y ys)
    then show ?thesis unfolding all using Cons.IH [of "Suc i" ys]
      by (auto split: prod.splits outcome.splits)
  qed (auto split: prod.splits outcome.splits)
qed auto

lemma pickSigs_eq: "pickSigs q sigs n args = args @ take (nat (q - n)) (filter (\<lambda>s. s \<noteq> []) sigs)"
proof (induction q sigs n args rule: pickSigs.induct)
  case (2 q s sigs n args)
  have "nat (q - n) = Suc (nat (q - (n + 1)))" if "n < q" using that by simp
  then show ?case using 2 by auto
qed simp

lemma materialize_eq:
  "materialize sw args = args @ [Int64Bytes (i64 (int (length args)))] @ take (nat (sw_Quorum sw)) (filter (\<lambda>s. s \<noteq> []) (sw_Sigs sw)) @ [sw_Program sw]"
  by (simp add: materialize_def pickSigs_eq)

text \<open>Signatures in the slots of their keys, of which the first ones are taken, satisfy \<^verbatim>\<open>CHECKMULTISIG\<close>.\<close>

lemma slots_multisig:
  "list_all2 (\<lambda>k s. s \<noteq> [] \<longrightarrow> ed25519_Verify P k msg s) keys sigs \<Longrightarrow> multisig_ok P msg (take q (filter (\<lambda>s. s \<noteq> []) sigs)) keys"
proof (induction keys sigs arbitrary: q rule: list_all2_induct)
  case (Cons k keys s sigs)
  show ?case
  proof (cases "s \<noteq> [] \<and> 0 < q")
    case True
    then obtain q' where "q = Suc q'" by (cases q) simp_all
    with True Cons show ?thesis by (simp add: multisig_ok_Cons)
  next
    case False
    have "multisig_ok P msg xs (k # keys)" if "multisig_ok P msg xs keys" for xs
      using that by (cases xs) (simp_all add: multisig_ok_Cons)
    with False Cons show ?thesis by (cases "s = []") auto
  qed
qed simp

section \<open>Arguments\<close>

text \<open>Setting arguments keeps what the hash of the transaction is computed from.\<close>

lemma SetInputArguments_Ok:
  assumes "SetInputArguments n args tx = Ok tx'"
  shows "unat n < length (td_Inputs (lt_TxData tx))" and "tx_InputIDs (lt_Tx tx') = tx_InputIDs (lt_Tx tx)" and "tx_ID (lt_Tx tx') = tx_ID (lt_Tx tx)"
    and "length (td_Inputs (lt_TxData tx')) = length (td_Inputs (lt_TxData tx))" and "td_Outputs (lt_TxData tx') = td_Outputs (lt_TxData tx)"
    and "td_Inputs (lt_TxData tx') ! unat n = (td_Inputs (lt_TxData tx) ! unat n)\<lparr>in_TypedInput := map_option (SetArguments args) (in_TypedInput (td_Inputs (lt_TxData tx) ! unat n))\<rparr>"
    and "j \<noteq> unat n \<Longrightarrow> td_Inputs (lt_TxData tx') ! j = td_Inputs (lt_TxData tx) ! j"
  using assms by (auto simp: SetInputArguments_def Let_def split: if_splits)

lemma SetArguments_twice: "SetArguments a (SetArguments b t) = SetArguments a t"
  by (cases t) simp_all

definition argumentsSet :: "LegacyTx \<Rightarrow> nat \<Rightarrow> bytes list \<Rightarrow> LegacyTx \<Rightarrow> bool" where
  "argumentsSet tx i args tx' \<longleftrightarrow> td_Inputs (lt_TxData tx') ! i =
     (td_Inputs (lt_TxData tx) ! i)\<lparr>in_TypedInput := map_option (SetArguments args) (in_TypedInput (td_Inputs (lt_TxData tx) ! i))\<rparr>"

text \<open>The loop over the instructions, with the conversion of \<open>materializeWitnesses\<close>.\<close>

definition setInput :: "SigningInstruction \<Rightarrow> (LegacyTx, sign_error, unit) action" where
  "setInput inst tx = (case (SetInputArguments (sg_Position inst) (witnessArguments inst) tx :: (sign_error, LegacyTx) outcome) of
     Ok tx' \<Rightarrow> (Ok (), tx') | _ \<Rightarrow> (Crash, tx))"

lemma setInput_Ok: "setInput inst tx = (Ok (), tx') \<longleftrightarrow> SetInputArguments (sg_Position inst) (witnessArguments inst) tx = (Ok tx' :: (sign_error, LegacyTx) outcome)"
  by (auto simp: setInput_def split: outcome.splits)

lemma setInputs:
  assumes "forA setInput insts tx = (Ok (), tx')"
  shows "tx_InputIDs (lt_Tx tx') = tx_InputIDs (lt_Tx tx) \<and> tx_ID (lt_Tx tx') = tx_ID (lt_Tx tx) \<and>
      length (td_Inputs (lt_TxData tx')) = length (td_Inputs (lt_TxData tx)) \<and>
      (\<forall>inst \<in> set insts. unat (sg_Position inst) < length (td_Inputs (lt_TxData tx))) \<and>
      (\<forall>j. j \<notin> (\<lambda>inst. unat (sg_Position inst)) ` set insts \<longrightarrow> td_Inputs (lt_TxData tx') ! j = td_Inputs (lt_TxData tx) ! j) \<and>
      (distinct (map sg_Position insts) \<longrightarrow> (\<forall>inst \<in> set insts. argumentsSet tx (unat (sg_Position inst)) (witnessArguments inst) tx'))"
  using assms
proof (induction insts arbitrary: tx)
  case (Cons inst insts)
  from Cons.prems obtain m where m: "SetInputArguments (sg_Position inst) (witnessArguments inst) tx = (Ok m :: (sign_error, LegacyTx) outcome)"
    and rest: "forA setInput insts m = (Ok (), tx')" by (auto simp: bindA_Ok_iff setInput_Ok)
  note s = SetInputArguments_Ok [OF m] and r = Cons.IH [OF rest]
  have dist: "argumentsSet tx (unat (sg_Position i)) (witnessArguments i) tx'"
    if d: "distinct (map sg_Position (inst # insts))" and i: "i \<in> set (inst # insts)" for i
  proof (cases "i = inst")
    case True
    have "unat (sg_Position inst) \<notin> (\<lambda>inst. unat (sg_Position inst)) ` set insts" using d by (auto simp: word_unat_eq_iff [symmetric])
    with r s(6) show ?thesis by (simp add: True argumentsSet_def)
  next
    case False
    have "sg_Position inst \<notin> sg_Position ` set insts" "sg_Position i \<in> sg_Position ` set insts" using d i False by auto
    then have "unat (sg_Position i) \<noteq> unat (sg_Position inst)" by (metis word_unat_eq_iff)
    with r s(7) d i False show ?thesis by (auto simp: argumentsSet_def)
  qed
  show ?case
  proof (intro conjI)
    show "distinct (map sg_Position (inst # insts)) \<longrightarrow> (\<forall>i \<in> set (inst # insts). argumentsSet tx (unat (sg_Position i)) (witnessArguments i) tx')"
      using dist by blast
  qed (use r s in auto)
qed simp

section \<open>Signed templates\<close>

lemma Sign_Ok:
  assumes "Sign H xpubs signFn tpl = (Ok (), tpl')"
  obtains tx tx' insts where "tp_Transaction tpl = Some tx" and "tp_Transaction tpl' = Some tx'" and "tp_SigningInstructions tpl' = insts"
    and "signInstructions H signFn xpubs tpl = (Ok (), tpl\<lparr>tp_SigningInstructions := insts\<rparr>)" and "forA setInput insts tx = (Ok (), tx')"
    and "length insts \<le> length (td_Inputs (lt_TxData tx))"
proof -
  from assms obtain m where s: "signInstructions H signFn xpubs tpl = (Ok (), m)" and mat: "materializeWitnesses m = (Ok (), tpl')"
    by (auto simp: Sign_def bindA_Ok_iff)
  from s obtain insts where m: "m = tpl\<lparr>tp_SigningInstructions := insts\<rparr>" by (auto simp: signInstructions_def split: prod.splits)
  have eq: "(\<lambda>inst tx. case (SetInputArguments (sg_Position inst) (witnessArguments inst) tx :: (sign_error, LegacyTx) outcome) of
      Ok tx' \<Rightarrow> (Ok (), tx') | _ \<Rightarrow> (Crash, tx)) = setInput" by (simp add: setInput_def fun_eq_iff)
  from mat obtain tx tx' where "tp_Transaction tpl = Some tx" "forA setInput insts tx = (Ok (), tx')" "tpl' = m\<lparr>tp_Transaction := Some tx'\<rparr>"
    "length insts \<le> length (td_Inputs (lt_TxData tx))"
    unfolding materializeWitnesses_def eq by (auto simp: m split: option.splits if_splits prod.splits)
  with s m that show ?thesis by simp
qed

lemma signInstructions_Ok:
  assumes "signInstructions H signFn xpubs tpl = (Ok (), tpl\<lparr>tp_SigningInstructions := insts\<rparr>)" and "i < length (tp_SigningInstructions tpl)"
    and "length (tp_SigningInstructions tpl) < 2 ^ 32"
  shows "length insts = length (tp_SigningInstructions tpl) \<and> sg_Position (insts ! i) = sg_Position (tp_SigningInstructions tpl ! i) \<and>
    (let sws = sg_SignatureWitnesses (tp_SigningInstructions tpl ! i); sws' = sg_SignatureWitnesses (insts ! i) in length sws' = length sws \<and>
       (\<forall>j < length sws. signWitness H signFn xpubs tpl i (sws ! j) = (Ok (), sws' ! j)))"
proof -
  let ?f = "\<lambda>i inst. case eachA (\<lambda>_. signWitness H signFn xpubs tpl (unat (word_of_nat i :: uint32))) 0 (sg_SignatureWitnesses inst) of
    (r, sws) \<Rightarrow> (r, inst\<lparr>sg_SignatureWitnesses := sws\<rparr>)"
  have each: "eachA ?f 0 (tp_SigningInstructions tpl) = (Ok (), insts)"
    using assms(1) by (auto simp: signInstructions_def split: prod.splits) (metis Template.ext_inject Template.surjective Template.update_convs(2))
  have i: "unat (word_of_nat i :: uint32) = i" using assms(2,3) by (simp add: unat_of_nat)
  from each assms(2) have len: "length insts = length (tp_SigningInstructions tpl)" and "?f i (tp_SigningInstructions tpl ! i) = (Ok (), insts ! i)"
    by (simp_all add: eachA_Ok del: eachA.simps)
  then obtain sws' where "eachA (\<lambda>_. signWitness H signFn xpubs tpl i) 0 (sg_SignatureWitnesses (tp_SigningInstructions tpl ! i)) = (Ok (), sws')"
    "insts ! i = (tp_SigningInstructions tpl ! i)\<lparr>sg_SignatureWitnesses := sws'\<rparr>" by (auto simp: i split: prod.splits)
  with len show ?thesis by (simp add: eachA_Ok Let_def)
qed

text \<open>A witness without program that the signer fills: the program is that of the template, and the slots are filled by the keys at hand.\<close>

lemma signWitness_fresh:
  assumes "signWitness H signFn xpubs tpl i sw = (Ok (), sw')" and "sw_Program sw = []" and "sw_Sigs sw = []"
  shows "i < length (tp_SigningInstructions tpl)"
    and "buildSigProgram H tpl (sg_Position (tp_SigningInstructions tpl ! i)) = (Ok (sw_Program sw') :: (sign_error, bytes) outcome)"
    and "sw_Keys sw' = sw_Keys sw" and "sw_Quorum sw' = sw_Quorum sw" and "length (sw_Sigs sw') = length (sw_Keys sw)"
    and "j < length (sw_Keys sw) \<Longrightarrow> slot signFn xpubs (H (sw_Program sw')) (sw_Keys sw ! j) [] (sw_Sigs sw' ! j)"
proof -
  from assms obtain p sigs where i: "i < length (tp_SigningInstructions tpl)"
    and p: "buildSigProgram H tpl (sg_Position (tp_SigningInstructions tpl ! i)) = (Ok p :: (sign_error, bytes) outcome)"
    and k: "signKeys signFn xpubs (H p) (sw_Keys sw) (replicate (length (sw_Keys sw)) []) = (Ok (), sigs)"
    and sw': "sw' = sw\<lparr>sw_Program := p, sw_Sigs := sigs\<rparr>"
    by (auto simp: signWitness_def bindA_Ok_iff inferProgram_def makeRoom_def Let_def split: if_splits outcome.splits prod.splits)
  from i p sw' signKeys_Ok [OF k] show "i < length (tp_SigningInstructions tpl)"
    and "buildSigProgram H tpl (sg_Position (tp_SigningInstructions tpl ! i)) = (Ok (sw_Program sw') :: (sign_error, bytes) outcome)"
    and "sw_Keys sw' = sw_Keys sw" and "sw_Quorum sw' = sw_Quorum sw" and "length (sw_Sigs sw') = length (sw_Keys sw)"
    and "j < length (sw_Keys sw) \<Longrightarrow> slot signFn xpubs (H (sw_Program sw')) (sw_Keys sw ! j) [] (sw_Sigs sw' ! j)" by auto
qed

lemma buildSigProgram_sighash:
  "\<not> tp_AllowAdditional tpl \<Longrightarrow> tp_Transaction tpl = Some tx \<Longrightarrow> buildSigProgram H tpl p = Ok prog \<Longrightarrow>
    \<exists>h. SigHash H (lt_Tx tx) (unat p) = (Ok h :: ('e, Hash) outcome) \<and> prog = sighashProgram (Byte32 h)"
  by (auto simp: buildSigProgram_def TemplateHash_def sighashProgram_def builder_defs SigHash_def bindO_Ok_iff split: if_splits)

lemma filled_count:
  assumes "length sigs = length xs" and "\<And>j. j < length xs \<Longrightarrow> sigs ! j \<noteq> [] \<longleftrightarrow> xs ! j \<in> X"
  shows "length (filter (\<lambda>s. s \<noteq> []) sigs) = length (filter (\<lambda>x. x \<in> X) xs)"
  using assms
proof (induction sigs xs rule: list_induct2)
  case (Cons s sigs x xs)
  from Cons.prems [of 0] have "s \<noteq> [] \<longleftrightarrow> x \<in> X" by simp
  moreover have "length (filter (\<lambda>s. s \<noteq> []) sigs) = length (filter (\<lambda>x. x \<in> X) xs)" by (rule Cons.IH) (use Cons.prems [of "Suc j" for j] in auto)
  ultimately show ?case by simp
qed simp

text \<open>The instruction that \<open>AddWitnessKeys\<close> makes for the keys of an account, and a function that signs for these keys.\<close>

definition keysInstruction :: "bytes list \<Rightarrow> bytes list \<Rightarrow> int \<Rightarrow> uint32 \<Rightarrow> SigningInstruction" where
  "keysInstruction xs path q pos = AddWitnessKeys xs path q \<lparr>sg_Position = pos, sg_SignatureWitnesses = []\<rparr>"

definition signsFor :: "prims \<Rightarrow> (bytes \<Rightarrow> bytes list \<Rightarrow> bytes) \<Rightarrow> bytes list \<Rightarrow> SignFunc \<Rightarrow> bytes list \<Rightarrow> bool" where
  "signsFor P derive path signFn xpubs \<longleftrightarrow> (\<forall>x m s. x \<in> set xpubs \<longrightarrow> signFn x path m = Some s \<longrightarrow> length s = 64 \<and> ed25519_Verify P (derive x path) m s)"

text \<open>The signatures that are taken from the slots.\<close>

lemma filled_slots:
  assumes len: "length sigs = length xs" and slot: "\<And>j. j < length xs \<Longrightarrow> slot signFn xpubs msg \<lparr>ki_XPub = xs ! j, ki_DerivationPath = path\<rparr> [] (sigs ! j)"
    and fn: "signsFor P derive path signFn xpubs" and q: "q \<le> length (filter (\<lambda>x. x \<in> set xpubs) xs)"
  defines "taken \<equiv> take q (filter (\<lambda>s. s \<noteq> []) sigs)"
  shows "multisig_ok P msg taken (map (\<lambda>x. derive x path) xs)" and "length taken = q" and "\<forall>s \<in> set taken. length s = 64"
proof -
  have yes: "xs ! j \<in> set xpubs \<Longrightarrow> length (sigs ! j) = 64 \<and> ed25519_Verify P (derive (xs ! j) path) msg (sigs ! j)"
    and no: "xs ! j \<notin> set xpubs \<Longrightarrow> sigs ! j = []" if "j < length xs" for j
    using slot [OF that] fn by (auto simp: slot_def signsFor_def)
  have ne: "sigs ! j \<noteq> [] \<longleftrightarrow> xs ! j \<in> set xpubs" if "j < length xs" for j using yes [OF that] no [OF that] by fastforce
  have "list_all2 (\<lambda>k s. s \<noteq> [] \<longrightarrow> ed25519_Verify P k msg s) (map (\<lambda>x. derive x path) xs) sigs"
    by (rule list_all2_all_nthI) (use yes no len in auto)
  then show "multisig_ok P msg taken (map (\<lambda>x. derive x path) xs)" unfolding taken_def by (rule slots_multisig)
  show "length taken = q" using filled_count [OF len ne] q by (simp add: taken_def)
  show "\<forall>s \<in> set taken. length s = 64"
  proof
    fix s assume "s \<in> set taken"
    then have "s \<in> set sigs" "s \<noteq> []" using set_take_subset [of q "filter (\<lambda>s. s \<noteq> []) sigs"] by (auto simp: taken_def)
    then obtain j where "j < length xs" "s = sigs ! j" by (auto simp: in_set_conv_nth len)
    with yes [of j] ne [of j] \<open>s \<noteq> []\<close> show "length s = 64" by simp
  qed
qed

text \<open>The arguments of a signed input.\<close>

lemma signed_arguments:
  assumes sign: "Sign (sha3_256 P) xpubs signFn tpl = (Ok (), tpl')" and "\<not> tp_AllowAdditional tpl"
    and i: "i < length (tp_SigningInstructions tpl)" "length (tp_SigningInstructions tpl) < 2 ^ 32"
    and inst: "tp_SigningInstructions tpl ! i = keysInstruction xs path (int q) pos" and dist: "distinct (map sg_Position (tp_SigningInstructions tpl))"
    and fn: "signsFor P derive path signFn xpubs" and q: "q \<le> length (filter (\<lambda>x. x \<in> set xpubs) xs)"
    and tx': "tp_Transaction tpl' = Some tx'"
  obtains h sigs tx where "SigHash (sha3_256 P) (lt_Tx tx') (unat pos) = (Ok h :: (commitment_error, Hash) outcome)" and "length sigs = q" "\<forall>s \<in> set sigs. length s = 64"
    and "multisig_ok P (sha3_256 P (sighashProgram (Byte32 h))) sigs (map (\<lambda>x. derive x path) xs)"
    and "argumentsSet tx (unat pos) ([[]] @ sigs @ [sighashProgram (Byte32 h)]) tx'" and "unat pos < length (td_Inputs (lt_TxData tx'))"
    and "tp_Transaction tpl = Some tx" and "tx_InputIDs (lt_Tx tx') = tx_InputIDs (lt_Tx tx)" "length (td_Inputs (lt_TxData tx')) = length (td_Inputs (lt_TxData tx))"
proof -
  obtain tx insts where tx: "tp_Transaction tpl = Some tx" and s: "signInstructions (sha3_256 P) signFn xpubs tpl = (Ok (), tpl\<lparr>tp_SigningInstructions := insts\<rparr>)"
    and set: "forA setInput insts tx = (Ok (), tx')" using Sign_Ok [OF sign] tx' by (metis option.inject)
  have each: "length insts = length (tp_SigningInstructions tpl)" "\<And>k. k < length insts \<Longrightarrow> sg_Position (insts ! k) = sg_Position (tp_SigningInstructions tpl ! k)"
    using signInstructions_Ok [OF s _ i(2)] i(1) by auto
  have pos: "map sg_Position insts = map sg_Position (tp_SigningInstructions tpl)" by (rule nth_equalityI) (use each in auto)
  let ?sw = "sg_SignatureWitnesses (tp_SigningInstructions tpl ! i) ! 0" and ?sw' = "sg_SignatureWitnesses (insts ! i) ! 0"
  have one: "length (sg_SignatureWitnesses (tp_SigningInstructions tpl ! i)) = 1" "sw_Program ?sw = []" "sw_Sigs ?sw = []" "sw_Quorum ?sw = int q"
    "sw_Keys ?sw = map (\<lambda>xpub. \<lparr>ki_XPub = xpub, ki_DerivationPath = path\<rparr>) xs" "sg_Position (tp_SigningInstructions tpl ! i) = pos"
    by (simp_all add: inst keysInstruction_def AddWitnessKeys_def)
  have w: "signWitness (sha3_256 P) signFn xpubs tpl i ?sw = (Ok (), ?sw')" "length (sg_SignatureWitnesses (insts ! i)) = 1"
    using signInstructions_Ok [OF s i] one(1) by (simp_all add: Let_def)
  note f = signWitness_fresh [OF w(1) one(2,3)]
  obtain h where h: "SigHash (sha3_256 P) (lt_Tx tx) (unat pos) = (Ok h :: (commitment_error, Hash) outcome)" and prog: "sw_Program ?sw' = sighashProgram (Byte32 h)"
    using buildSigProgram_sighash [OF assms(2) tx f(2)] one(6) by auto
  let ?h = "sha3_256 P (sighashProgram (Byte32 h))" and ?sigs = "sw_Sigs ?sw'"
  let ?taken = "take q (filter (\<lambda>s. s \<noteq> []) ?sigs)"
  have "length ?sigs = length xs" "\<And>j. j < length xs \<Longrightarrow> slot signFn xpubs ?h \<lparr>ki_XPub = xs ! j, ki_DerivationPath = path\<rparr> [] (?sigs ! j)"
    using f(5,6) one(5) prog by simp_all
  note taken = filled_slots [OF this fn q]
  have "witnessArguments (insts ! i) = [[]] @ ?taken @ [sighashProgram (Byte32 h)]"
  proof -
    have zero: "Int64Bytes (i64 0) = []" by code_simp
    obtain sw where sw: "sg_SignatureWitnesses (insts ! i) = [sw]" using w(2) by (cases "sg_SignatureWitnesses (insts ! i)") auto
    then show ?thesis using zero f(4) one(4) prog by (simp add: witnessArguments_def materialize_eq)
  qed
  moreover note all = setInputs [OF set]
  moreover have "insts ! i \<in> set insts" "unat (sg_Position (insts ! i)) = unat pos" using i(1) each one(6) by simp_all
  moreover have "SigHash (sha3_256 P) (lt_Tx tx') (unat pos) = (Ok h :: (commitment_error, Hash) outcome)" using h all by (simp add: SigHash_def split: if_splits)
  ultimately show ?thesis using taken pos dist tx by (intro that [of h ?taken tx]) (auto dest: bspec)
qed

section \<open>The commitment check\<close>

lemma sighashProgram_parts:
  assumes "length h = 32"
  shows "sighashProgram h = OP_DATA_32 # h @ [OP_TXSIGHASH, OP_EQUAL]"
  using assms by (auto simp: sighashProgram_def PushdataBytes_def Let_def)

lemma commitsTo_finds:
  assumes "k < length inps" and "in_TypedInput (inps ! k) = Some t" and "inputArguments t = args @ [sighashProgram (Byte32 h)]" and "2 \<le> length args"
    and "SigHash H (lt_Tx tx) (i + k) = (Ok h :: (commitment_error, Hash) outcome)" and "i + length inps \<le> length (tx_InputIDs (lt_Tx tx))"
    and "i + length inps < 2 ^ 32"
  shows "commitsTo H tx i inps lastError = Ok ()"
  using assms
proof (induction inps arbitrary: i k lastError)
  case (Cons inp inps)
  have i: "unat (word_of_nat i :: uint32) = i" using Cons.prems(7) by (simp add: unat_of_nat)
  obtain h0 where h0: "SigHash H (lt_Tx tx) i = (Ok h0 :: (commitment_error, Hash) outcome)" using Cons.prems(6) by (simp add: SigHash_def)
  show ?case
  proof (cases k)
    case 0
    then show ?thesis using Cons.prems i h0 sighashProgram_parts [of "Byte32 h"] by (simp add: Let_def)
  next
    case (Suc k')
    have "commitsTo H tx (Suc i) inps e = Ok ()" for e using Cons.prems by (intro Cons.IH [of k']) (simp_all add: Suc)
    then show ?thesis using i h0 by (simp add: Let_def)
  qed
qed simp

section \<open>Properties\<close>

text \<open>The context in which the control program of an account's keys is run for input number \<open>pos\<close> of a transaction.\<close>

definition accountContext :: "prims \<Rightarrow> bytes list \<Rightarrow> nat \<Rightarrow> LegacyTx \<Rightarrow> nat \<Rightarrow> Context \<Rightarrow> bool" where
  "accountContext P keys q tx pos c \<longleftrightarrow> P2SPMultiSigProgram keys (int q) = UOk (Code c) \<and> VMVersion c = 1 \<and>
     (\<exists>h. SigHash (sha3_256 P) (lt_Tx tx) pos = (Ok h :: (commitment_error, Hash) outcome) \<and> TxSigHash c = Some (Byte32 h)) \<and>
     (\<exists>t. in_TypedInput (td_Inputs (lt_TxData tx) ! pos) = Some t \<and> Arguments c = inputArguments t)"


text \<open>One of the two keys of an account signs its only input.\<close>

definition signPrims :: prims where
  "signPrims = \<lparr>sha256 = \<lambda>_. replicate 32 0, sha3_256 = \<lambda>_. replicate 32 7, ed25519_Verify = \<lambda>k m s. s = k @ take 32 (m @ replicate 32 0)\<rparr>"

definition signingKeys :: "bytes list" where
  "signingKeys = [replicate 32 1, replicate 32 2]"

definition unsignedTx :: LegacyTx where
  "unsignedTx = \<lparr>lt_TxData = \<lparr>td_Version = 1, td_Inputs = [\<lparr>in_AssetVersion = 1, in_ReferenceData = [], in_TypedInput = Some (TSpend
       \<lparr>si_SpendCommitment = \<lparr>sc_AssetAmount = zeroAmount, sc_SourceID = zeroHash, sc_SourcePosition = 0, sc_VMVersion = 1, sc_ControlProgram = [],
         sc_RefDataHash = zeroHash\<rparr>, si_SpendCommitmentSuffix = [], si_Arguments = []\<rparr>), in_CommitmentSuffix = [], in_WitnessSuffix = []\<rparr>],
       td_Outputs = [], td_MinTime = 0, td_MaxTime = 0, td_CommonFieldsSuffix = [], td_CommonWitnessSuffix = [], td_ReferenceData = []\<rparr>,
     lt_Tx = \<lparr>tx_TxHeader = \<lparr>hdr_Version = 1, hdr_ResultIds = [], hdr_Data = None, hdr_MinTimeMs = 0, hdr_MaxTimeMs = 0, hdr_ExtHash = None\<rparr>,
       tx_ID = zeroHash, tx_Entries = Map.empty, tx_InputIDs = [zeroHash], tx_NonceIDs = [], tx_SpentOutputIDs = []\<rparr>\<rparr>"

definition unsignedTemplate :: Template where
  "unsignedTemplate = \<lparr>tp_Transaction = Some unsignedTx, tp_SigningInstructions = [keysInstruction signingKeys [] 1 0], tp_Local = True, tp_AllowAdditional = False\<rparr>"

definition signingFunction :: SignFunc where
  "signingFunction x path m = Some (x @ take 32 (m @ replicate 32 0))"


section \<open>What a signature commits to\<close>

text \<open>
  What the program of a template demands of the context: without additional actions, that the transaction has the hash of the template's; otherwise that every constraint
  made from the template holds.
\<close>

definition committed :: "(bytes \<Rightarrow> bytes) \<Rightarrow> Template \<Rightarrow> uint32 \<Rightarrow> Context \<Rightarrow> bool" where
  "committed H tpl pos c \<longleftrightarrow> (\<exists>tx. tp_Transaction tpl = Some tx \<and>
     (if tp_AllowAdditional tpl then \<exists>cs. templateConstraints H tx pos = (Ok cs :: (sign_error, constraint list) outcome) \<and> (\<forall>x \<in> set cs. holds H c False x)
      else \<exists>h. SigHash H (lt_Tx tx) (unat pos) = (Ok h :: (sign_error, Hash) outcome) \<and> TxSigHash c = Some (Byte32 h)))"

definition fewOutputs :: "Template \<Rightarrow> bool" where
  "fewOutputs tpl \<longleftrightarrow> (\<forall>tx. tp_Transaction tpl = Some tx \<longrightarrow> length (td_Outputs (lt_TxData tx)) < 2 ^ 63)"

lemma templateConstraints_pay:
  assumes "templateConstraints H tx pos = (Ok cs :: (sign_error, constraint list) outcome)" and "length (td_Outputs (lt_TxData tx)) < 2 ^ 63"
  shows "cs \<noteq> [] \<and> (\<forall>index aa prog ref. payConstraint index aa prog ref \<in> set cs \<longrightarrow> in_i64 index)"
proof -
  have "in_i64 index" if "payConstraint index aa prog ref = outputConstraint H i out" "(i, out) \<in> set (enumerate 0 (td_Outputs (lt_TxData tx)))" for index aa prog ref i out
    using that assms(2) by (auto simp: outputConstraint_def in_i64_iff in_set_enumerate_eq)
  with assms(1) show ?thesis
    by (auto simp: templateConstraints_def Let_def bindO_Ok_iff deref_def split: if_splits sum.splits option.splits)
qed

lemma built_tests:
  assumes "buildSigProgram H tpl pos = (Ok pred :: (sign_error, bytes) outcome)" and "fewOutputs tpl"
  shows "tests P c False pred (committed H tpl pos c)"
proof (cases "tp_AllowAdditional tpl")
  case True
  with assms(1) obtain tx cs where tx: "tp_Transaction tpl = Some tx" "templateConstraints H tx pos = (Ok cs :: (sign_error, constraint list) outcome)"
    and j: "joinCode H cs = (Ok pred :: (sign_error, bytes) outcome)" by (auto simp: buildSigProgram_def bindO_Ok_iff deref_def split: option.splits)
  note cs = templateConstraints_pay [OF tx(2)]
  have "tests P c False pred (\<forall>x \<in> set cs. holds H c False x)"
    by (rule tests_join [OF j]) (use cs assms(2) tx(1) in \<open>auto simp: fewOutputs_def\<close>)
  then show ?thesis by (rule tests_mono) (use True tx in \<open>auto simp: committed_def\<close>)
next
  case False
  with assms(1) obtain tx h where tx: "tp_Transaction tpl = Some tx" "SigHash H (lt_Tx tx) (unat pos) = (Ok h :: (sign_error, Hash) outcome)"
    and p: "pred = PushdataBytes (Byte32 h) @ [OP_TXSIGHASH, OP_EQUAL]"
    by (auto simp: buildSigProgram_def TemplateHash_def bindO_Ok_iff deref_def builder_defs split: option.splits)
  have "tests P c False pred (TxSigHash c = Some (Byte32 h))" unfolding p
    by (rule tests_equal) (auto simp: sig_ops sigOps_def intro!: wp_opTxSigHash)
  then show ?thesis by (rule tests_mono) (use False tx in \<open>auto simp: committed_def\<close>)
qed

text \<open>
  C8. An account is spent from only as its keys allow: whenever the virtual machine accepts the control program of an account, in whatever context, on whatever arguments
  and within whatever number of steps, the last argument is a program, before which lie exactly as many signatures of its hash as the quorum asks for, which verify in order under
  different keys of the account. If that program is the one that \<open>buildSigProgram\<close> makes for some template, the transaction is the template's transaction
  (it has its signature hash), or, where the template allows additional actions, every constraint made from the template holds in the transaction. (Program and arguments are
  at most \<open>MaxInt32\<close> bytes long, and the template has less than \<open>2 ^ 63\<close> outputs.)
\<close>
theorem account_spend_is_signed:
  assumes "P2SPMultiSigProgram keys n = UOk (Code c)" and "length (Code c) \<le> 2147483647" and "Verify P fuel c = Ret ()" and "\<forall>a \<in> set (Arguments c). length a \<le> 2147483647"
  shows "\<exists>pre sigs pred. Arguments c = pre @ sigs @ [pred] \<and> int (length sigs) = n \<and> multisig_ok P (sha3_256 P pred) sigs keys \<and>
    (\<forall>H tpl pos. buildSigProgram H tpl pos = (Ok pred :: (sign_error, bytes) outcome) \<and> fewOutputs tpl \<longrightarrow> committed H tpl pos c)"
proof -
  from P2SP_sound [OF assms(1) refl assms(2,3)] obtain pred r args count sigs where s: "Arguments c = r @ args @ [count] @ sigs @ [pred]" "int (length sigs) = n"
    "multisig_ok P (sha3_256 P pred) sigs keys" "predicateHolds P c pred args" by (auto simp: signedBy_def)
  have len: "length pred \<le> 2147483647" using assms(4) s(1) by simp
  have "committed H tpl pos c" if "buildSigProgram H tpl pos = (Ok pred :: (sign_error, bytes) outcome)" "fewOutputs tpl" for H tpl pos
    by (rule predicate_tests [OF s(4) built_tests [OF that] len])
  with s show ?thesis by (intro exI [of _ "r @ args @ [count]"] exI [of _ sigs] exI [of _ pred]) simp
qed

theorem account_spend_is_signed_witness:
  "\<exists>c. P2SPMultiSigProgram signingKeys 1 = UOk (Code c) \<and> Verify signPrims 30 c = Ret () \<and>
     (\<exists>pre sigs pred. Arguments c = pre @ sigs @ [pred] \<and> length sigs = 1 \<and> multisig_ok signPrims (sha3_256 signPrims pred) sigs signingKeys)"
proof -
  let ?h = "replicate 32 9 :: bytes" and ?s = "replicate 32 2 @ replicate 32 7 :: bytes"
  obtain prog where prog: "P2SPMultiSigProgram signingKeys 1 = UOk prog" by (simp add: P2SP_chunks checkMultiSigParams_None signingKeys_def)
  let ?c = "(bareContext prog ([[]] @ [?s] @ [sighashProgram ?h]))\<lparr>TxSigHash := Some ?h\<rparr>"
  have ok: "multisig_ok signPrims (sha3_256 signPrims (sighashProgram ?h)) [?s] signingKeys"
    by (simp flip: matchSigs_iff add: signPrims_def signingKeys_def)
  have v: "Verify signPrims 30 ?c = Ret ()"
    using P2SP_accepts [of signingKeys "[?s]" ?c ?h ?h signPrims 30] prog ok
    by (simp add: bareContext_def signingKeys_def PublicKeySize_def signPrims_def initialRunLimit_def itemCost_def)
  have "length (PushdataBytes k) = 33" if "length k = 32" for k using that by (simp add: PushdataBytes_def Let_def)
  moreover have "length (PushdataInt64 n) = 1" if "n \<in> {1, 2}" for n using that by (auto simp: PushdataInt64_def)
  ultimately have len: "length (Code ?c) \<le> 2147483647" using prog by (simp add: P2SP_chunks multisigChunks_def signingKeys_def bareContext_def)
  from account_spend_is_signed [OF _ len v, of signingKeys 1] prog v length_sighashProgram [of ?h] show ?thesis
    by (intro exI [of _ ?c]) (auto simp: bareContext_def)
qed

end
