(* ===== verification/Spec2Isabelle.thy ===== *)
theory Spec2Isabelle
  imports VM_Predicate VMUtil Patricia Blockchain_Encoding State_Snapshot Validation_Total Legacy_Balance Legacy_Block Chain_Recover Account_Disjoint Filter_Typing Pin Block_Signer App Tx_Signed
begin

text \<open>
  Verification of Chainmint, a port of Chain Core to the Tendermint consensus engine.

  \<^bold>\<open>The program.\<close> A node keeps a chain of blocks of transactions. The package \<^verbatim>\<open>protocol\<close> validates transactions and blocks,
  generates and commits blocks and recovers after a crash. A transaction in exchange form (\<^verbatim>\<open>protocol/bc/legacy\<close>) is translated to a graph
  of entries (\<^verbatim>\<open>protocol/bc\<close>); \<^verbatim>\<open>protocol/validation\<close> walks this graph and runs the programs of its entries on the virtual machine
  (\<^verbatim>\<open>protocol/vm\<close>); \<^verbatim>\<open>protocol/state\<close> applies the transactions to a snapshot, whose unspent outputs are in a Patricia tree
  (\<^verbatim>\<open>protocol/patricia\<close>). The package \<^verbatim>\<open>core\<close> offers the services around it: reserving outputs for new transactions and signing them, generating and signing blocks,
  processing blocks up to a pin, and listings with a language of filters that is translated to SQL. The application in \<^verbatim>\<open>app\<close> answers the calls of the consensus engine; the server and the
  command line connect these parts.

  \<^bold>\<open>Conventions.\<close> A Go struct is a record, a nil pointer is \<^verbatim>\<open>None\<close>, byte strings are lists of 8-bit words, integers are words of their
  width, or integers with the wrap-around written out where signs matter. A function that may fail returns \<^verbatim>\<open>res\<close> (VM_Types) or
  \<^verbatim>\<open>outcome\<close> (Outcome): a value, an error, a panic, or no end within the given bound. Code with state is an action, a function of the state
  to a result and the new state, so that what an error leaves behind is part of the model.

  \<^bold>\<open>Theories and sources.\<close>
  \<^item> Prelude, Outcome: collections of rules, lemmas on lists, words and little-endian numbers; results and actions.
  \<^item> Checked: \<^verbatim>\<open>math/checked\<close>.
  \<^item> VM_Types, VM_Ops, VM_Machine, VM_Stack, VM_Numeric, VM_Splice, VM_Crypto, VM_Run: the files of \<^verbatim>\<open>protocol/vm\<close>. Every operation is
    shown to compute its function, to charge what it should, and to keep the books of the run limit. VM_Cost concludes that \<^verbatim>\<open>Verify\<close>
    returns for programs without \<^verbatim>\<open>CHECKPREDICATE\<close>, \<^verbatim>\<open>CAT\<close> and \<^verbatim>\<open>CATPUSHDATA\<close>, and how much memory they can use; VM_Predicate that with \<^verbatim>\<open>CHECKPREDICATE\<close> a program
    of 62 bytes runs forever.
  \<^item> VMUtil: \<^verbatim>\<open>protocol/vmutil\<close>. A block is accepted by a multisignature program of up to nine keys exactly when a quorum signed it.
  \<^item> BC_Hash, BC_Entries, BC_Merkle: \<^verbatim>\<open>protocol/bc\<close>. Entry IDs and Merkle roots bind what they are computed from, up to collisions.
  \<^item> Patricia: \<^verbatim>\<open>protocol/patricia\<close> implements a set, and its root hash depends on the set only.
  \<^item> State_Snapshot: \<^verbatim>\<open>protocol/state\<close> implements a specification on sets of outputs and nonces; no double spends, no replays.
  \<^item> TxVMContext, Validation: \<^verbatim>\<open>protocol/validation\<close>. Validation_Memo shows that the memo table does not change a verdict,
    Validation_Value that a valid transaction creates no value, if its issuances pass on what they issue, Validation_Total that validation returns. Validation_Sample is an example.
  \<^item> Blockchain_Encoding, Legacy_Tx, Legacy_Block: \<^verbatim>\<open>encoding/blockchain\<close> and the binary forms of \<^verbatim>\<open>protocol/bc/legacy\<close>, with round trips; Legacy_Text:
    the hexadecimal and database forms of hashes, transactions, headers and blocks.
  \<^item> Legacy_Map, Legacy_Balance: the translation \<^verbatim>\<open>MapTx\<close>; a legacy transaction with a valid translation balances.
  \<^item> Chain: \<^verbatim>\<open>protocol.go\<close>, \<^verbatim>\<open>block.go\<close>, \<^verbatim>\<open>tx.go\<close>, \<^verbatim>\<open>recover.go\<close> of \<^verbatim>\<open>protocol\<close>, for every store. Chain_Store has the
    contract of a store as a locale, interpreted on \<^verbatim>\<open>protocol/prottest/memstore\<close>. Chain_Generate shows when generated blocks are valid, and that they
    need not be; Chain_Recover that recovery restores the state after a crash if the blocks stored apply, and that it fails on a generated block with a wrong root.
  \<^item> Account_Reserve: \<^verbatim>\<open>core/account/reserve.go\<close> with \<^verbatim>\<open>sync/idempotency\<close>. Account_Disjoint lets any number of goroutines interleave at
    the sections under a lock, and shows that their reservations are disjoint.
  \<^item> Strconv, Filter_Scanner, Filter_Parser, Filter_SQL: numerals of Go's \<^verbatim>\<open>strconv\<close> and the package \<^verbatim>\<open>core/query/filter\<close>. Filter_Lexing,
    Filter_Print, Filter_Parsing and Filter_Roundtrip show that parsing ends and that the printed form is canonical; SQL_Typing has the
    expressions of SQL that filters become, with their text and their types over the columns of the database; Filter_Typing shows that the text made of a checked filter is that of a well-typed
    expression. Query: the listings of \<^verbatim>\<open>core/query\<close> up to the query they send.
  \<^item> Database: the outcome of a statement (done, failed, or failed after it took effect). Pin: \<^verbatim>\<open>core/pin\<close> as steps of any number of processes; heights of pins are true and catch up.
    Block_Signer: \<^verbatim>\<open>core/blocksigner\<close>; a signer signs one block for each height. Generator: \<^verbatim>\<open>core/generator\<close>; one block for each height is offered for signing, and the
    signatures collected satisfy the consensus program. App: \<^verbatim>\<open>app\<close>; what a commit reports, and that a generator without signers commits nothing.
  \<^item> Tx_Sign: templates and signing in \<^verbatim>\<open>core/txbuilder\<close>. Sig_Program and Sig_Spend run the control programs of accounts and the programs that are signed; Tx_Signed concludes that an
    account is spent from only as a quorum of its keys signed, and that a signed template is accepted.

  \<^bold>\<open>Bounds.\<close> A run of the virtual machine takes a number of steps as fuel. 21251 steps are enough for every program without
  \<^verbatim>\<open>CHECKPREDICATE\<close>, \<^verbatim>\<open>CAT\<close> and \<^verbatim>\<open>CATPUSHDATA\<close>: twice the balance plus the instructions that may go uncharged decreases with every instruction. The walk of
  \<^verbatim>\<open>checkValid\<close> takes a depth, for which the longest chain of references is enough. Replaying blocks takes two steps more than the height.
  The parser of filters takes twice the length of the text plus four. That these bounds suffice is part of the theorems.

  \<^bold>\<open>Parameters.\<close> SHA3 and the other hash functions, signature checks, the LRU cache, the results of SQL queries, the outcomes of other
  statements, the order of ranging over a Go map, the order in which signers answer, the functions and devices that sign, the strategy for validators, the effect on a store of changing a
  block after it was saved, the quoting of SQL identifiers and the Unicode tables are arguments of the definitions. What a theorem needs of them is a hypothesis.

  \<^bold>\<open>Not modelled.\<close>
  \<^item> Sharing of arrays between slices: \<^verbatim>\<open>CAT\<close> and \<^verbatim>\<open>CATPUSHDATA\<close> append in place, and what they write can show in other stack items and in the running
    program. The model computes the value they push, not this effect; a program can so change itself, and even the programs in the transaction. The theorems on termination and
    memory exclude these instructions; elsewhere the verdict on a program with them is that of the model. The sharing of entries through pointers in \<^verbatim>\<open>MapTx\<close>, and of the initial block between
    the generator and the store in memory, is modelled.
  \<^item> The floating-point logarithm of the Merkle tree is exact, which it is for less than \<^verbatim>\<open>2 ^ 46\<close> transactions.
  \<^item> Interface values that hold a nil pointer; contexts and their cancellation; texts of errors; traces and logs.
  \<^item> JSON forms and generated protocol buffer code.
  \<^item> The arithmetic of \<^verbatim>\<open>crypto/ed25519\<close>, a copy of the Go library's.
  \<^item> The assembler of the virtual machine, key derivation, and the building of templates from actions.
  \<^item> Services that consist of SQL statements, HTTP handlers, timers, raft and process start-up: the behaviour is that of the libraries.
\<close>

end
